(* ===== verification/Ficl_Prelude.thy ===== *)
theory Ficl_Prelude
  imports Main "HOL-Library.Word"
begin

unbundle bit_operations_syntax

section \<open>Shared vocabulary of the development\<close>

text \<open>
  Machine types, the outcome of a C routine, the character classes of the C locale, byte
  memory, and the list and arithmetic facts that more than one component uses.

  The model is that of an LP64 platform: \<open>ficlInteger\<close>, \<open>ficlUnsigned\<close>, \<open>ficl2Integer\<close>,
  \<open>ficl2Unsigned\<close>, \<open>FTH\<close> and pointers are 64 bits wide and a \<open>ficlCell\<close> is a union of
  them, so a cell is one \<open>64 word\<close>; \<open>int\<close> has 32 bits and \<open>char\<close> is a signed byte.
\<close>

named_theorems outcome_simps \<open>evaluation of outcomes\<close>
named_theorems stack_simps \<open>the list view of a cell stack\<close>
named_theorems ctype_simps \<open>unfolding of the C character classes\<close>

type_synonym u8 = "8 word"
type_synonym u16 = "16 word"
type_synonym u32 = "32 word"
type_synonym cell = "64 word"
type_synonym addr = "64 word"

subsection \<open>Outcomes\<close>

text \<open>
  A routine returns a value, leaves through \<open>longjmp\<close> with an exception, or performs an
  access that C leaves undefined (a read or write outside an object, a division by zero).
  The last one is never a result of correct code; it is kept apart from the exceptions the
  program raises on purpose.
\<close>

datatype ('e, 'a) outcome = Ok 'a | Throw 'e | Fault

fun bind_outcome :: "('e, 'a) outcome \<Rightarrow> ('a \<Rightarrow> ('e, 'b) outcome) \<Rightarrow> ('e, 'b) outcome" where
  "bind_outcome (Ok x) f = f x"
| "bind_outcome (Throw e) f = Throw e"
| "bind_outcome Fault f = Fault"

lemma bind_outcome_eq_Ok [outcome_simps]:
  "bind_outcome r f = Ok y \<longleftrightarrow> (\<exists>x. r = Ok x \<and> f x = Ok y)"
  by (cases r) auto

lemma bind_outcome_eq_Throw [outcome_simps]:
  "bind_outcome r f = Throw e \<longleftrightarrow> r = Throw e \<or> (\<exists>x. r = Ok x \<and> f x = Throw e)"
  by (cases r) auto

lemma bind_outcome_eq_Fault [outcome_simps]:
  "bind_outcome r f = Fault \<longleftrightarrow> r = Fault \<or> (\<exists>x. r = Ok x \<and> f x = Fault)"
  by (cases r) auto

text \<open>An outcome that satisfies a postcondition and does not fault.\<close>

fun outcome_ok :: "('e \<Rightarrow> bool) \<Rightarrow> ('a \<Rightarrow> bool) \<Rightarrow> ('e, 'a) outcome \<Rightarrow> bool" where
  "outcome_ok E P (Ok x) = P x"
| "outcome_ok E P (Throw e) = E e"
| "outcome_ok E P Fault = False"

lemma outcome_ok_bind:
  assumes "outcome_ok E P r" and "\<And>x. P x \<Longrightarrow> outcome_ok E Q (f x)"
  shows "outcome_ok E Q (bind_outcome r f)"
  using assms by (cases r) auto

lemma outcome_ok_mono:
  assumes "outcome_ok E P r" and "\<And>x. P x \<Longrightarrow> Q x" and "\<And>e. E e \<Longrightarrow> F e"
  shows "outcome_ok F Q r"
  using assms by (cases r) auto

subsection \<open>Conversions between C integer types\<close>

text \<open>Conversion of a 64-bit value to \<open>int\<close>: the low 32 bits, read as signed.\<close>

definition c_int :: "cell \<Rightarrow> int" where
  "c_int w = sint (ucast w :: u32)"

lemma unat_drop_bit: "unat (drop_bit n w) = unat w div 2 ^ n"
  for w :: "'a::len word"
  unfolding unat_drop_bit_eq by (simp add: drop_bit_eq_div)

lemma unat_exp_cell: "n < 64 \<Longrightarrow> unat ((2::cell) ^ n) = 2 ^ n"
proof -
  assume n: "n < 64"
  then have "(2::nat) ^ n < 2 ^ 64" by (intro power_strict_increasing) auto
  then have "unat (of_nat (2 ^ n) :: cell) = 2 ^ n"
    by (simp only: unsigned_of_nat) (simp add: take_bit_nat_eq_self n)
  then show ?thesis by simp
qed

lemma word_exp_less_iff_cell:
  assumes "k < 64" and "n < 64"
  shows "(2::cell) ^ k \<le> 2 ^ n \<longleftrightarrow> k \<le> n" and "(2::cell) ^ k = 2 ^ n \<longleftrightarrow> k = n" and "(2::cell) ^ k \<noteq> 0"
  using assms by (simp_all add: word_le_nat_alt unat_exp_cell word_unat_eq_iff)

lemma c_int_bounds: "- (2 ^ 31) \<le> c_int w \<and> c_int w < 2 ^ 31"
  using sint_ge [of "ucast w :: u32"] sint_lt [of "ucast w :: u32"] by (simp add: c_int_def)

text \<open>Signed 64-bit division of C: it truncates towards zero.\<close>

definition c_div :: "int \<Rightarrow> int \<Rightarrow> int" where
  "c_div a b = sgn a * sgn b * (\<bar>a\<bar> div \<bar>b\<bar>)"

lemma c_div_nonneg: "0 \<le> a \<Longrightarrow> 0 < b \<Longrightarrow> c_div a b = a div b"
  by (cases "a = 0") (auto simp: c_div_def)

subsection \<open>Character classes (C locale)\<close>

definition char_code :: "char \<Rightarrow> nat" where
  "char_code c = of_char c"

text \<open>The value of a \<open>char\<close> promoted to \<open>int\<close>; \<open>char\<close> is signed.\<close>

definition schar :: "char \<Rightarrow> int" where
  "schar c = (if char_code c < 128 then int (char_code c) else int (char_code c) - 256)"

definition isspace :: "char \<Rightarrow> bool" where
  "isspace c = (char_code c = 32 \<or> (9 \<le> char_code c \<and> char_code c \<le> 13))"

definition isupper :: "char \<Rightarrow> bool" where
  "isupper c = (65 \<le> char_code c \<and> char_code c \<le> 90)"

definition islower :: "char \<Rightarrow> bool" where
  "islower c = (97 \<le> char_code c \<and> char_code c \<le> 122)"

definition isdigit :: "char \<Rightarrow> bool" where
  "isdigit c = (48 \<le> char_code c \<and> char_code c \<le> 57)"

definition isalnum :: "char \<Rightarrow> bool" where
  "isalnum c = (isupper c \<or> islower c \<or> isdigit c)"

definition tolower :: "char \<Rightarrow> char" where
  "tolower c = (if isupper c then char_of (char_code c + 32) else c)"

lemmas ctype_defs = isspace_def isupper_def islower_def isdigit_def isalnum_def tolower_def

lemma char_code_less [simp]: "char_code c < 256"
  by (simp add: char_code_def)

lemma char_code_inject [simp]: "char_code c = char_code d \<longleftrightarrow> c = d"
  by (simp add: char_code_def)

lemma char_code_char_of [simp]: "n < 256 \<Longrightarrow> char_code (char_of n) = n"
  by (simp add: char_code_def)

lemma char_code_tolower:
  "char_code (tolower c) = (if isupper c then char_code c + 32 else char_code c)"
  by (auto simp: tolower_def isupper_def)

lemma tolower_idem [simp]: "tolower (tolower c) = tolower c"
proof -
  have "\<not> isupper (tolower c)"
    using char_code_tolower [of c] by (auto simp: isupper_def split: if_splits)
  then show ?thesis by (simp add: tolower_def [of "tolower c"])
qed

lemma schar_bounds: "-128 \<le> schar c \<and> schar c < 128"
  using char_code_less [of c] unfolding schar_def by presburger

lemma schar_inject [simp]: "schar c = schar d \<longleftrightarrow> c = d"
proof -
  have "schar c = schar d \<longleftrightarrow> char_code c = char_code d"
    using char_code_less [of c] char_code_less [of d] unfolding schar_def by presburger
  then show ?thesis by simp
qed

subsection \<open>Characters of a C string\<close>

text \<open>A NUL-terminated string is the list of its characters before the terminator.\<close>

definition NUL :: char where
  "NUL = char_of (0::nat)"

definition cstr_at :: "string \<Rightarrow> nat \<Rightarrow> char" where
  "cstr_at s i = (if i < length s then s ! i else NUL)"

lemma char_code_NUL [simp]: "char_code NUL = 0"
  by (simp add: NUL_def)

lemma schar_NUL [simp]: "schar NUL = 0"
  by (simp add: schar_def)

lemma tolower_NUL [simp]: "tolower NUL = NUL"
  by (simp add: tolower_def isupper_def)

subsection \<open>Cell stacks as lists\<close>

text \<open>
  A stack is an array of cells with the index of its top element; its contents, top first,
  are a list. The equations evaluate the list of an updated array.
\<close>

definition stk_list :: "(int \<Rightarrow> 'a) \<Rightarrow> int \<Rightarrow> 'a list" where
  "stk_list c t = map (\<lambda>i. c (t - int i)) [0..<nat (t + 1)]"

lemma stk_list_empty [stack_simps]: "t < 0 \<Longrightarrow> stk_list c t = []"
  by (simp add: stk_list_def)

lemma stk_list_rec [stack_simps]: "0 \<le> t \<Longrightarrow> stk_list c t = c t # stk_list c (t - 1)"
proof -
  assume t: "0 \<le> t"
  then have n: "nat (t + 1) = Suc (nat t)" by simp
  have "map (\<lambda>i. c (t - int i)) [0..<Suc (nat t)] =
      c t # map (\<lambda>i. c (t - int (Suc i))) [0..<nat t]"
    by (simp add: upt_conv_Cons map_Suc_upt [symmetric] del: upt_Suc)
  with t show ?thesis
    unfolding stk_list_def n by (simp add: algebra_simps)
qed

lemma stk_list_upd_above [stack_simps]: "t < j \<Longrightarrow> stk_list (c(j := x)) t = stk_list c t"
  by (simp add: stk_list_def)

lemma stk_list_cong: "(\<And>i. 0 \<le> i \<Longrightarrow> i \<le> t \<Longrightarrow> c i = d i) \<Longrightarrow> stk_list c t = stk_list d t"
  by (auto simp: stk_list_def)

lemma length_stk_list [simp]: "length (stk_list c t) = nat (t + 1)"
  by (simp add: stk_list_def)

lemma stk_list_nth: "i < nat (t + 1) \<Longrightarrow> stk_list c t ! i = c (t - int i)"
  by (simp add: stk_list_def)

lemma stk_list_eq_Nil_iff [simp]: "stk_list c t = [] \<longleftrightarrow> t < 0"
  by (auto simp: stk_list_def)

lemma stk_list_Cons_iff:
  "stk_list c t = x # xs \<longleftrightarrow> 0 \<le> t \<and> c t = x \<and> stk_list c (t - 1) = xs"
  by (cases "0 \<le> t") (auto simp: stk_list_rec stk_list_empty)

end
