(* ===== verification/Ficl_Utility.thy ===== *)
theory Ficl_Utility
  imports Ficl_Prelude
begin

unbundle bit_operations_syntax

section \<open>The utility routines of the Forth engine\<close>

text \<open>
  The routines of \<open>ficl/utility.c\<close>: pointer alignment, in-place string reversal, unsigned
  and symmetric division, number output in any radix, case folding, comparison without
  case and the skipping of white space. A C string is the list of the characters before
  its terminator; pointers into it are indices.
\<close>

subsection \<open>Alignment\<close>

definition FICL_PLATFORM_ALIGNMENT :: addr where
  "FICL_PLATFORM_ALIGNMENT = 8"

definition ficlAlignPointer :: "addr \<Rightarrow> addr" where
  "ficlAlignPointer p =
     (if p AND (FICL_PLATFORM_ALIGNMENT - 1) \<noteq> 0
      then (p AND NOT (FICL_PLATFORM_ALIGNMENT - 1)) + FICL_PLATFORM_ALIGNMENT
      else p)"

subsection \<open>String reversal\<close>

text \<open>The loop of \<open>ficlStringReverse\<close>: \<open>p1\<close> moves up and \<open>p2\<close> down until they meet.\<close>

function strrev_loop :: "string \<Rightarrow> nat \<Rightarrow> nat \<Rightarrow> string" where
  "strrev_loop s p1 p2 =
     (if p1 < p2
      then let c = s ! p2; s1 = s[p2 := s ! p1]; s2 = s1[p1 := c]
           in strrev_loop s2 (p1 + 1) (p2 - 1)
      else s)"
  by pat_completeness auto
termination
  by (relation "measure (\<lambda>(s, p1, p2). p2 - p1)") auto

declare strrev_loop.simps [simp del]

definition ficlStringReverse :: "string \<Rightarrow> string" where
  "ficlStringReverse s = (let i = length s in if i > 1 then strrev_loop s 0 (i - 1) else s)"

subsection \<open>Division\<close>

record ficl2UnsignedQR =
  uquotient :: cell
  uremainder :: cell

record ficl2IntegerQR =
  iquotient :: cell
  iremainder :: cell

text \<open>\<open>None\<close> is the division by zero, on which the machine traps.\<close>

definition ficl2UnsignedDivide :: "cell \<Rightarrow> cell \<Rightarrow> ficl2UnsignedQR option" where
  "ficl2UnsignedDivide q y =
     (if y = 0 then None
      else let quotient = q div y in Some \<lparr>uquotient = quotient, uremainder = q - quotient * y\<rparr>)"

definition ficl2IntegerDivideSymmetric :: "cell \<Rightarrow> cell \<Rightarrow> ficl2IntegerQR option" where
  "ficl2IntegerDivideSymmetric num den =
     (let signRem = (1::int); signQuot = (1::int);
          (num, signRem, signQuot) =
            (if sint num < 0 then (- num, - signRem, - signQuot) else (num, signRem, signQuot));
          (den, signQuot) = (if sint den < 0 then (- den, - signQuot) else (den, signQuot))
      in case ficl2UnsignedDivide num den of
           None \<Rightarrow> None
         | Some uqr \<Rightarrow>
             let remainder = (if signRem < 0 then - uremainder uqr else uremainder uqr);
                 quotient = (if signQuot < 0 then - uquotient uqr else uquotient uqr)
             in Some \<lparr>iquotient = quotient, iremainder = remainder\<rparr>)"

subsection \<open>Digits and radix conversion\<close>

definition digits :: string where
  "digits = ''0123456789abcdefghijklmnopqrstuvwxyz''"

text \<open>
  \<open>digits[value]\<close>: the array has 36 digits and the terminator; an index outside it is
  undefined behaviour (\<open>None\<close>).
\<close>

definition ficlDigitToCharacter :: "int \<Rightarrow> char option" where
  "ficlDigitToCharacter v =
     (if 0 \<le> v \<and> v \<le> 36 then Some (cstr_at digits (nat v)) else None)"

lemma push_bit_eventually_0: "\<exists>n. push_bit n (t :: cell) = 0"
  by (rule exI [of _ 64]) simp

lemma push_bit_measure:
  assumes "(t :: cell) \<noteq> 0"
  shows "(LEAST n. push_bit n (push_bit 1 t) = 0) < (LEAST n. push_bit n t = 0)"
proof -
  let ?n = "LEAST n. push_bit n t = 0"
  from push_bit_eventually_0 have n: "push_bit ?n t = 0" by (rule LeastI_ex)
  with assms obtain m where m: "?n = Suc m" by (cases ?n) auto
  with n have "push_bit m (push_bit 1 t) = 0" by simp
  then have "(LEAST n. push_bit n (push_bit 1 t) = 0) \<le> m" by (rule Least_le)
  with m show ?thesis by simp
qed

function isPowerOfTwo_loop :: "int \<Rightarrow> cell \<Rightarrow> cell \<Rightarrow> int" where
  "isPowerOfTwo_loop i t u =
     (if t \<le> u \<and> t \<noteq> 0
      then (if u = t then i else isPowerOfTwo_loop (i + 1) (push_bit 1 t) u)
      else 0)"
  by pat_completeness auto
termination
  by (relation "measure (\<lambda>(i, t, u). LEAST n. push_bit n t = 0)")
     (use push_bit_measure in \<open>auto simp del: push_bit_push_bit\<close>)

declare isPowerOfTwo_loop.simps [simp del]

definition ficlIsPowerOfTwo :: "cell \<Rightarrow> int" where
  "ficlIsPowerOfTwo u = isPowerOfTwo_loop 1 2 u"

text \<open>
  The two digit loops of \<open>ficlLtoa\<close> and the one of \<open>ficlUltoa\<close>; they write the least
  significant digit first. The guards \<open>pwr \<noteq> 0\<close> and \<open>1 < radix\<close> hold wherever the loops
  are entered.
\<close>

function ltoa_pow_loop :: "nat \<Rightarrow> cell \<Rightarrow> cell \<Rightarrow> string" where
  "ltoa_pow_loop pwr msk v =
     (if v \<noteq> 0 \<and> pwr \<noteq> 0
      then cstr_at digits (unat (v AND msk)) # ltoa_pow_loop pwr msk (drop_bit pwr v)
      else [])"
  by pat_completeness auto
termination
proof (relation "measure (\<lambda>(pwr, msk, v). unat v)")
  fix pwr :: nat and msk v :: cell
  assume a: "v \<noteq> 0 \<and> pwr \<noteq> 0"
  have "unat (drop_bit pwr v) = unat v div 2 ^ pwr"
    by (rule unat_drop_bit)
  also have "\<dots> < unat v"
    using a one_less_power [of "2 :: nat" pwr]
    by (intro div_less_dividend) (auto simp: unat_gt_0)
  finally show "((pwr, msk, drop_bit pwr v), pwr, msk, v) \<in> measure (\<lambda>(pwr, msk, v). unat v)"
    by simp
qed simp

declare ltoa_pow_loop.simps [simp del]

function ultoa_loop :: "cell \<Rightarrow> cell \<Rightarrow> string" where
  "ultoa_loop radix v =
     (if v \<noteq> 0 \<and> 1 < radix
      then (case ficl2UnsignedDivide v radix of
              None \<Rightarrow> []
            | Some result \<Rightarrow>
                cstr_at digits (unat (uremainder result)) # ultoa_loop radix (uquotient result))
      else [])"
  by pat_completeness auto
termination
proof (relation "measure (\<lambda>(radix, v). unat v)")
  fix radix v :: cell and result
  assume a: "v \<noteq> 0 \<and> 1 < radix" and r: "ficl2UnsignedDivide v radix = Some result"
  from r have "uquotient result = v div radix"
    by (auto simp: ficl2UnsignedDivide_def Let_def split: if_splits)
  moreover have "unat v div unat radix < unat v"
    using a by (intro div_less_dividend) (auto simp: unat_gt_0 word_less_nat_alt)
  ultimately show "((radix, uquotient result), radix, v) \<in> measure (\<lambda>(radix, v). unat v)"
    by (simp add: unat_div_distrib)
qed simp

declare ultoa_loop.simps [simp del]

text \<open>
  \<open>ficlUltoa\<close> and \<open>ficlLtoa\<close>; the assertions on the radix are the precondition (\<open>None\<close>
  outside it). The string that is returned has been reversed in place.
\<close>

definition ficlUltoa :: "cell \<Rightarrow> int \<Rightarrow> string option" where
  "ficlUltoa value radix =
     (if 1 < radix \<and> radix < 37
      then Some (ficlStringReverse
                   (if value = 0 then ''0'' else ultoa_loop (of_int radix) value))
      else None)"

definition ficlLtoa :: "cell \<Rightarrow> int \<Rightarrow> string option" where
  "ficlLtoa value radix =
     (if 1 < radix \<and> radix < 37
      then (let sign = (radix = 10 \<and> sint value < 0);
                pwr = ficlIsPowerOfTwo (of_int radix);
                value = (if sign then - value else value);
                cp = (if value = 0 then ''0''
                      else if pwr \<noteq> 0
                      then ltoa_pow_loop (nat pwr) (NOT (push_bit (nat pwr) (-1))) value
                      else ultoa_loop (of_int radix) value);
                cp = (if sign then cp @ ''-'' else cp)
            in Some (ficlStringReverse cp))
      else None)"

subsection \<open>Case folding, comparison, white space\<close>

fun ficlStringCaseFold :: "string \<Rightarrow> string" where
  "ficlStringCaseFold [] = []"
| "ficlStringCaseFold (c # cp) = (if isupper c then tolower c else c) # ficlStringCaseFold cp"

fun intern_ficlStrincmp :: "string \<Rightarrow> string \<Rightarrow> nat \<Rightarrow> int" where
  "intern_ficlStrincmp cp1 cp2 0 = 0"
| "intern_ficlStrincmp cp1 cp2 (Suc count) =
     (let i = schar (tolower (cstr_at cp1 0)) - schar (tolower (cstr_at cp2 0))
      in if i \<noteq> 0 then i
         else if cstr_at cp1 0 = NUL then 0
         else intern_ficlStrincmp (tl cp1) (tl cp2) count)"

text \<open>\<open>cp\<close> and \<open>end\<close> may be \<open>NULL\<close> (\<open>None\<close>).\<close>

function skipSpace_loop :: "string \<Rightarrow> nat \<Rightarrow> nat option \<Rightarrow> nat" where
  "skipSpace_loop s cp end =
     (if Some cp \<noteq> end \<and> isspace (cstr_at s cp) then skipSpace_loop s (cp + 1) end else cp)"
  by pat_completeness auto
termination
  by (relation "measure (\<lambda>(s, cp, end). length s - cp)")
     (auto simp: cstr_at_def isspace_def split: if_splits)

declare skipSpace_loop.simps [simp del]

definition ficlStringSkipSpace :: "string \<Rightarrow> nat option \<Rightarrow> nat option \<Rightarrow> nat option" where
  "ficlStringSkipSpace s cp end =
     (case cp of None \<Rightarrow> None | Some cp \<Rightarrow> Some (skipSpace_loop s cp end))"

subsection \<open>Correctness\<close>

lemma length_strrev_loop [simp]: "length (strrev_loop s p1 p2) = length s"
  by (induction s p1 p2 rule: strrev_loop.induct) (subst strrev_loop.simps, simp add: Let_def)

lemma strrev_loop_nth:
  assumes "p2 < length s" and "k < length s"
  shows "strrev_loop s p1 p2 ! k = (if p1 \<le> k \<and> k \<le> p2 then s ! (p1 + p2 - k) else s ! k)"
  using assms
proof (induction s p1 p2 rule: strrev_loop.induct)
  case (1 s p1 p2)
  show ?case
  proof (cases "p1 < p2")
    case True
    let ?s = "s[p2 := s ! p1, p1 := s ! p2]"
    have "strrev_loop ?s (p1 + 1) (p2 - 1) ! k =
        (if p1 + 1 \<le> k \<and> k \<le> p2 - 1 then ?s ! (p1 + 1 + (p2 - 1) - k) else ?s ! k)"
      using "1.IH" [OF True refl refl refl] "1.prems" True by simp
    also have "\<dots> = (if p1 \<le> k \<and> k \<le> p2 then s ! (p1 + p2 - k) else s ! k)"
      using True "1.prems" by (auto simp: nth_list_update)
    finally show ?thesis
      using True by (subst strrev_loop.simps) (simp add: Let_def)
  next
    case False
    then have "p1 \<le> k \<Longrightarrow> k \<le> p2 \<Longrightarrow> p1 + p2 - k = k" by arith
    with False show ?thesis by (subst strrev_loop.simps) auto
  qed
qed

lemma ficlStringReverse_rev: "ficlStringReverse s = rev s"
proof (cases "length s > 1")
  case True
  then show ?thesis
    by (intro nth_equalityI) (auto simp: ficlStringReverse_def Let_def strrev_loop_nth rev_nth)
next
  case False
  then have "rev s = s" by (cases s rule: rev_cases) auto
  with False show ?thesis by (simp add: ficlStringReverse_def)
qed

lemma ficl2UnsignedDivide_eq:
  "y \<noteq> 0 \<Longrightarrow> ficl2UnsignedDivide q y = Some \<lparr>uquotient = q div y, uremainder = q mod y\<rparr>"
  by (simp add: ficl2UnsignedDivide_def Let_def minus_div_mult_eq_mod)

lemma ficlAlignPointer_alt:
  "ficlAlignPointer p = (if unat p mod 8 = 0 then p else p - of_nat (unat p mod 8) + 8)"
proof -
  have m: "FICL_PLATFORM_ALIGNMENT - 1 = mask 3"
    by (simp add: FICL_PLATFORM_ALIGNMENT_def mask_eq_exp_minus_1)
  have u: "unat (take_bit 3 p) = unat p mod 8"
    by (simp add: take_bit_eq_mod unat_mod_distrib)
  have "p AND NOT (mask 3) = push_bit 3 (drop_bit 3 p)"
    by (rule bit_word_eqI) (auto simp: bit_simps)
  also have "\<dots> = p - take_bit 3 p"
    using bits_ident [of 3 p] by (simp add: eq_diff_eq)
  finally have n: "p AND NOT (mask 3) = p - take_bit 3 p" .
  have t: "take_bit 3 p = of_nat (unat p mod 8)"
    by (simp flip: u)
  show ?thesis
    unfolding ficlAlignPointer_def m take_bit_eq_mask [symmetric] n
    using u by (auto simp: t FICL_PLATFORM_ALIGNMENT_def unat_eq_zero simp flip: unat_eq_zero)
qed

lemma sint_bounds_cell: "- (2 ^ 63) \<le> sint (w :: cell)" "sint (w :: cell) < 2 ^ 63"
  using sint_ge [of w] sint_lt [of w] by simp_all

lemma uint_abs_cell: "uint (of_int \<bar>sint w\<bar> :: cell) = \<bar>sint w\<bar>" for w :: cell
  using sint_bounds_cell [of w] by (simp add: abs_if unsigned_of_int take_bit_int_eq_self)

lemma negate_if_negative: "(if sint w < 0 then - w else w) = of_int \<bar>sint w\<bar>" for w :: cell
  by (simp add: abs_if)

lemma div_abs_cell:
  "(of_int \<bar>sint a\<bar> :: cell) div of_int \<bar>sint b\<bar> = of_int (\<bar>sint a\<bar> div \<bar>sint b\<bar>)"
  "(of_int \<bar>sint a\<bar> :: cell) mod of_int \<bar>sint b\<bar> = of_int (\<bar>sint a\<bar> mod \<bar>sint b\<bar>)"
  for a b :: cell
  by (metis uint_abs_cell uint_div_distrib word_of_int_uint)
     (metis uint_abs_cell uint_mod_distrib word_of_int_uint)

definition c_mod :: "int \<Rightarrow> int \<Rightarrow> int" where
  "c_mod a b = sgn a * (\<bar>a\<bar> mod \<bar>b\<bar>)"

lemma c_div_mod: "a = c_div a b * b + c_mod a b"
proof -
  have "\<bar>a\<bar> = \<bar>a\<bar> div \<bar>b\<bar> * \<bar>b\<bar> + \<bar>a\<bar> mod \<bar>b\<bar>" by simp
  then have "sgn a * \<bar>a\<bar> = sgn a * (\<bar>a\<bar> div \<bar>b\<bar> * \<bar>b\<bar> + \<bar>a\<bar> mod \<bar>b\<bar>)" by simp
  then show ?thesis
    by (cases "a = 0") (simp_all add: c_div_def c_mod_def sgn_mult_abs algebra_simps abs_sgn)
qed

lemma ficl2IntegerDivideSymmetric_eq:
  assumes "den \<noteq> 0"
  shows "ficl2IntegerDivideSymmetric num den =
    Some \<lparr>iquotient = of_int (c_div (sint num) (sint den)),
          iremainder = of_int (c_mod (sint num) (sint den))\<rparr>"
proof -
  let ?a = "of_int \<bar>sint num\<bar> :: cell" and ?b = "of_int \<bar>sint den\<bar> :: cell"
  have b: "?b \<noteq> 0"
    using assms by (metis abs_eq_0 signed_eq_0_iff uint_0_eq uint_abs_cell)
  have n: "num = (if sint num < 0 then - ?a else ?a)" "den = (if sint den < 0 then - ?b else ?b)"
    by (simp_all add: abs_if)
  have "ficl2IntegerDivideSymmetric num den =
     Some \<lparr>iquotient = (if (sint num < 0) = (sint den < 0) then ?a div ?b else - (?a div ?b)),
           iremainder = (if sint num < 0 then - (?a mod ?b) else ?a mod ?b)\<rparr>"
    using ficl2UnsignedDivide_eq [OF b, of ?a]
    by (auto simp: ficl2IntegerDivideSymmetric_def Let_def abs_if split: if_splits)
  also have "\<dots> = Some \<lparr>iquotient = of_int (c_div (sint num) (sint den)),
          iremainder = of_int (c_mod (sint num) (sint den))\<rparr>"
    unfolding div_abs_cell using assms
    by (auto simp: c_div_def c_mod_def sgn_if signed_eq_0_iff)
  finally show ?thesis .
qed

subsection \<open>Positional notation\<close>

text \<open>The digits of a number, least significant first: what the output loops compute.\<close>

fun lsd_digits :: "nat \<Rightarrow> nat \<Rightarrow> nat list" where
  "lsd_digits r n = (if n \<noteq> 0 \<and> 1 < r then n mod r # lsd_digits r (n div r) else [])"

declare lsd_digits.simps [simp del]

lemma lsd_digits_0 [simp]: "lsd_digits r 0 = []"
  by (simp add: lsd_digits.simps)

lemma lsd_digits_less: "d \<in> set (lsd_digits r n) \<Longrightarrow> d < r"
proof (induction r n rule: lsd_digits.induct)
  case (1 r n)
  then show ?case
    using lsd_digits.simps [of r n] by (auto split: if_splits)
qed

lemma lsd_digits_eq_Nil_iff: "1 < r \<Longrightarrow> lsd_digits r n = [] \<longleftrightarrow> n = 0"
  by (subst lsd_digits.simps) simp

text \<open>
  A writer and a reader of digits that agree on the digits below \<open>limit\<close> agree on all
  numbers in every radix up to \<open>limit\<close>.
\<close>

locale digit_codec =
  fixes enc :: "nat \<Rightarrow> char" and dec :: "char \<Rightarrow> nat" and limit :: nat
  assumes dec_enc: "d < limit \<Longrightarrow> dec (enc d) = d"
begin

lemma foldr_lsd_digits:
  "1 < r \<Longrightarrow> r \<le> limit \<Longrightarrow> foldr (\<lambda>c a. a * r + dec c) (map enc (lsd_digits r n)) 0 = n"
proof (induction r n rule: lsd_digits.induct)
  case (1 r n)
  then have "dec (enc (n mod r)) = n mod r"
    using mod_less_divisor [of r n] by (intro dec_enc) linarith
  with 1 show ?case
    by (subst lsd_digits.simps) auto
qed

lemma read_written:
  "1 < r \<Longrightarrow> r \<le> limit \<Longrightarrow>
    foldl (\<lambda>a c. a * r + dec c) 0 (map enc (rev (lsd_digits r n))) = n"
  by (simp add: foldl_conv_foldr rev_map foldr_lsd_digits)

lemma dec_written:
  "1 < r \<Longrightarrow> r \<le> limit \<Longrightarrow> c \<in> set (map enc (lsd_digits r n)) \<Longrightarrow> dec c < r"
  using lsd_digits_less [of _ r n] by (force simp: dec_enc)

end

lemma ultoa_loop_digits:
  "1 < radix \<Longrightarrow>
    ultoa_loop radix v = map (cstr_at digits) (lsd_digits (unat radix) (unat v))"
proof (induction radix v rule: ultoa_loop.induct)
  case (1 radix v)
  show ?case
  proof (cases "v = 0")
    case True
    then show ?thesis by (subst ultoa_loop.simps) simp
  next
    case False
    from \<open>1 < radix\<close> have r: "radix \<noteq> 0" "1 < unat radix"
      by (auto simp: word_less_nat_alt)
    have IH: "ultoa_loop radix (v div radix) =
        map (cstr_at digits) (lsd_digits (unat radix) (unat (v div radix)))"
      using "1.IH" [OF _ ficl2UnsignedDivide_eq [OF r(1)]] False \<open>1 < radix\<close> by simp
    show ?thesis
      using False r IH \<open>1 < radix\<close>
      by (subst ultoa_loop.simps, subst lsd_digits.simps)
         (simp add: ficl2UnsignedDivide_eq unat_mod_distrib unat_div_distrib unat_gt_0)
  qed
qed

lemma not_push_bit_minus_1: "NOT (push_bit n (-1 :: cell)) = mask n"
  by (rule bit_word_eqI) (auto simp: bit_simps)

lemma ltoa_pow_loop_digits:
  "0 < pwr \<Longrightarrow> msk = mask pwr \<Longrightarrow>
    ltoa_pow_loop pwr msk v = map (cstr_at digits) (lsd_digits (2 ^ pwr) (unat v))"
proof (induction pwr msk v rule: ltoa_pow_loop.induct)
  case (1 pwr msk v)
  have "1 < (2::nat) ^ pwr"
    using \<open>0 < pwr\<close> one_less_power [of "2 :: nat" pwr] by simp
  moreover have "unat (v AND mask pwr) = unat v mod 2 ^ pwr"
    by (metis take_bit_eq_mask take_bit_eq_mod unsigned_take_bit_eq)
  ultimately show ?case
    using "1.IH" "1.prems"
    by (subst ltoa_pow_loop.simps, subst lsd_digits.simps) (auto simp: unat_drop_bit unat_eq_zero)
qed

lemma isPowerOfTwo_loop_exp:
  assumes "k \<le> n" and "n < 64"
  shows "isPowerOfTwo_loop (int k) (2 ^ k) (2 ^ n) = int n"
  using assms
proof (induction "n - k" arbitrary: k)
  case 0
  then show ?case by (subst isPowerOfTwo_loop.simps) (simp add: word_exp_less_iff_cell)
next
  case (Suc d)
  then have k: "k < n" by simp
  have "isPowerOfTwo_loop (int (Suc k)) (2 ^ Suc k) (2 ^ n) = int n"
    using Suc k by (intro Suc.hyps) auto
  moreover have "(2::cell) ^ k \<noteq> 2 ^ n" "(2::cell) ^ k \<le> 2 ^ n" "(2::cell) ^ k \<noteq> 0"
    using k Suc.prems by (auto simp: word_exp_less_iff_cell)
  ultimately show ?case
    by (subst isPowerOfTwo_loop.simps) (simp add: push_bit_eq_mult mult.commute add.commute)
qed

lemma isPowerOfTwo_loop_sound:
  "isPowerOfTwo_loop i t u \<noteq> 0 \<Longrightarrow> 0 < i \<Longrightarrow>
    \<exists>m. u = push_bit m t \<and> isPowerOfTwo_loop i t u = i + int m \<and> u \<noteq> 0"
proof (induction i t u rule: isPowerOfTwo_loop.induct)
  case (1 i t u)
  from "1.prems"(1) have g: "t \<le> u \<and> t \<noteq> 0"
    by (subst (asm) isPowerOfTwo_loop.simps) (auto split: if_splits)
  show ?case
  proof (cases "u = t")
    case True
    with g show ?thesis
      by (intro exI [of _ 0]) (simp add: isPowerOfTwo_loop.simps [of i t t])
  next
    case False
    with g have e: "isPowerOfTwo_loop i t u = isPowerOfTwo_loop (i + 1) (push_bit 1 t) u"
      by (subst isPowerOfTwo_loop.simps) simp
    with "1.IH" [OF g False] "1.prems" obtain m where
      "u = push_bit m (push_bit 1 t)" "isPowerOfTwo_loop (i + 1) (push_bit 1 t) u = i + 1 + int m"
      "u \<noteq> 0"
      by auto
    with e show ?thesis
      by (intro exI [of _ "Suc m"]) simp
  qed
qed

lemma ficlIsPowerOfTwo_exp: "1 \<le> n \<Longrightarrow> n < 64 \<Longrightarrow> ficlIsPowerOfTwo (2 ^ n) = int n"
  using isPowerOfTwo_loop_exp [of 1 n] by (simp add: ficlIsPowerOfTwo_def)

lemma ficlIsPowerOfTwo_sound:
  assumes "ficlIsPowerOfTwo u \<noteq> 0"
  shows "\<exists>n. 1 \<le> n \<and> n < 64 \<and> u = 2 ^ n \<and> ficlIsPowerOfTwo u = int n"
proof -
  from assms isPowerOfTwo_loop_sound [of 1 2 u] obtain m where
    m: "u = push_bit m 2" "ficlIsPowerOfTwo u = 1 + int m" "u \<noteq> 0"
    by (auto simp: ficlIsPowerOfTwo_def)
  then have u: "u = 2 ^ Suc m" by (simp add: push_bit_eq_mult mult.commute)
  with m(3) have "Suc m < 64" by (auto simp: not_le [symmetric] simp del: power_Suc)
  with u m(2) show ?thesis by (intro exI [of _ "Suc m"]) simp
qed

abbreviation digit_char :: "nat \<Rightarrow> char" where
  "digit_char \<equiv> cstr_at digits"

lemma unat_of_radix: "1 < r \<Longrightarrow> r < 37 \<Longrightarrow> unat (of_int r :: cell) = nat r"
  by (simp add: unsigned_of_int take_bit_int_eq_self unat_eq_nat_uint)

lemma one_less_of_radix: "1 < r \<Longrightarrow> r < 37 \<Longrightarrow> (1 :: cell) < of_int r"
  by (simp add: word_less_nat_alt unat_of_radix)

lemma ficlUltoa_digits:
  assumes "1 < radix" and "radix < 37"
  shows "ficlUltoa v radix =
    Some (if v = 0 then ''0'' else map digit_char (rev (lsd_digits (nat radix) (unat v))))"
  using assms
  by (simp add: ficlUltoa_def ficlStringReverse_rev ultoa_loop_digits one_less_of_radix
      unat_of_radix rev_map)

lemma ltoa_pow_branch:
  assumes "1 < radix" and "radix < 37" and "ficlIsPowerOfTwo (of_int radix) \<noteq> 0"
  shows "ltoa_pow_loop (nat (ficlIsPowerOfTwo (of_int radix)))
           (NOT (push_bit (nat (ficlIsPowerOfTwo (of_int radix))) (-1))) v =
         map digit_char (lsd_digits (nat radix) (unat v))"
proof -
  from ficlIsPowerOfTwo_sound [OF assms(3)] obtain n where
    n: "1 \<le> n" "n < 64" "of_int radix = (2 :: cell) ^ n" "ficlIsPowerOfTwo (of_int radix) = int n"
    by auto
  then have r: "nat radix = 2 ^ n"
    by (metis assms(1,2) unat_of_radix unat_exp_cell)
  show ?thesis
    unfolding r n(4) using n(1) by (simp add: not_push_bit_minus_1 ltoa_pow_loop_digits)
qed

text \<open>The magnitude that \<open>ficlLtoa\<close> prints: only radix ten is signed.\<close>

definition ltoa_magnitude :: "cell \<Rightarrow> int \<Rightarrow> nat" where
  "ltoa_magnitude v radix = (if radix = 10 \<and> sint v < 0 then nat (- sint v) else unat v)"

lemma ficlLtoa_digits:
  assumes "1 < radix" and "radix < 37"
  shows "ficlLtoa v radix =
    Some ((if radix = 10 \<and> sint v < 0 then ''-'' else '''') @
          (if v = 0 then ''0''
           else map digit_char (rev (lsd_digits (nat radix) (ltoa_magnitude v radix)))))"
proof -
  let ?pwr = "ficlIsPowerOfTwo (of_int radix)"
  let ?out = "\<lambda>w. if ?pwr \<noteq> 0 then ltoa_pow_loop (nat ?pwr) (NOT (push_bit (nat ?pwr) (-1))) w
                    else ultoa_loop (of_int radix) w"
  have out: "?out w = map digit_char (lsd_digits (nat radix) (unat w))" for w
    using assms ltoa_pow_branch [OF assms, of w]
    by (simp add: ultoa_loop_digits one_less_of_radix unat_of_radix)
  have "sint v < 0 \<Longrightarrow> unat (- v) = nat (- sint v)"
    using uint_abs_cell [of v] by (simp add: unat_eq_nat_uint)
  then have m: "unat (if radix = 10 \<and> sint v < 0 then - v else v) = ltoa_magnitude v radix"
    by (simp add: ltoa_magnitude_def)
  show ?thesis
    unfolding ficlLtoa_def Let_def out m
    using assms by (simp add: ficlStringReverse_rev rev_map)
qed

end
