(* ===== verification/Ficl_Stack.thy ===== *)
theory Ficl_Stack
  imports Ficl_Utility
begin

section \<open>The cell stacks of the virtual machine\<close>

text \<open>
  The operations of \<open>ficl/stack.c\<close> on the structure \<open>ficlStack\<close>. The cells are an array
  indexed from \<open>base\<close>; \<open>top\<close> is the index of the current top element and is \<open>-1\<close> when
  the stack is empty. \<open>ficlStackCreate\<close> allocates \<open>size + 1\<close> cells (the structure already
  holds one), so the indices \<open>0 .. size\<close> can be accessed; any other access is \<open>Fault\<close>.
  \<open>st_base\<close> is the address of \<open>base[0]\<close>; frame pointers are addresses of cells.
\<close>

subsection \<open>Status codes\<close>

definition FICL_VM_STATUS_STACK_OVERFLOW :: int where
  "FICL_VM_STATUS_STACK_OVERFLOW = -3"

definition FICL_VM_STATUS_STACK_UNDERFLOW :: int where
  "FICL_VM_STATUS_STACK_UNDERFLOW = -4"

definition FICL_VM_STATUS_RSTACK_OVERFLOW :: int where
  "FICL_VM_STATUS_RSTACK_OVERFLOW = -5"

subsection \<open>The structure\<close>

record ficlStack =
  st_size :: nat
  st_frame :: addr
  st_top :: int
  st_name :: string
  st_base :: addr
  st_cells :: "int \<Rightarrow> cell"

definition STKDEPTH :: "ficlStack \<Rightarrow> int" where
  "STKDEPTH s = st_top s + 1"

definition in_stack :: "ficlStack \<Rightarrow> int \<Rightarrow> bool" where
  "in_stack s i = (0 \<le> i \<and> i \<le> int (st_size s))"

text \<open>Reading and writing the cell \<open>top[n]\<close>.\<close>

definition stk_get :: "ficlStack \<Rightarrow> int \<Rightarrow> (int, cell) outcome" where
  "stk_get s n = (if in_stack s (st_top s + n) then Ok (st_cells s (st_top s + n)) else Fault)"

definition stk_set :: "ficlStack \<Rightarrow> int \<Rightarrow> cell \<Rightarrow> (int, ficlStack) outcome" where
  "stk_set s n c =
     (if in_stack s (st_top s + n)
      then Ok (s\<lparr>st_cells := (st_cells s)(st_top s + n := c)\<rparr>) else Fault)"

text \<open>The address of a cell and the index of an address.\<close>

definition cell_addr :: "ficlStack \<Rightarrow> int \<Rightarrow> addr" where
  "cell_addr s i = st_base s + of_int (8 * i)"

definition cell_index :: "ficlStack \<Rightarrow> addr \<Rightarrow> int" where
  "cell_index s p = sint (p - st_base s) div 8"

subsection \<open>Operations\<close>

definition ficlStackCheck :: "ficlStack \<Rightarrow> int \<Rightarrow> int \<Rightarrow> (int, unit) outcome" where
  "ficlStackCheck stack popCells pushCells =
     (let depth = STKDEPTH stack; nFree = int (st_size stack) - depth
      in if popCells > depth then Throw FICL_VM_STATUS_STACK_UNDERFLOW
         else if nFree < pushCells - popCells
         then (if st_name stack = ''data'' then Throw FICL_VM_STATUS_STACK_OVERFLOW
               else Throw FICL_VM_STATUS_RSTACK_OVERFLOW)
         else Ok ())"

definition ficlStackReset :: "ficlStack \<Rightarrow> ficlStack" where
  "ficlStackReset stack = stack\<lparr>st_top := -1\<rparr>"

definition ficlStackCreate :: "addr \<Rightarrow> string \<Rightarrow> nat \<Rightarrow> ficlStack" where
  "ficlStackCreate base name sz =
     ficlStackReset \<lparr>st_size = sz, st_frame = 0, st_top = 0, st_name = name, st_base = base,
                     st_cells = (\<lambda>_. 0)\<rparr>"

text \<open>The depth is returned as an \<open>int\<close>.\<close>

definition ficlStackDepth :: "ficlStack \<Rightarrow> int" where
  "ficlStackDepth stack = c_int (of_int (STKDEPTH stack))"

definition ficlStackDrop :: "ficlStack \<Rightarrow> int \<Rightarrow> ficlStack" where
  "ficlStackDrop stack n = (if n > 0 then stack\<lparr>st_top := st_top stack - n\<rparr> else stack)"

definition ficlStackFetch :: "ficlStack \<Rightarrow> int \<Rightarrow> (int, cell) outcome" where
  "ficlStackFetch stack n = stk_get stack (- n)"

definition ficlStackStore :: "ficlStack \<Rightarrow> int \<Rightarrow> cell \<Rightarrow> (int, ficlStack) outcome" where
  "ficlStackStore stack n c = stk_set stack (- n) c"

definition ficlStackGetTop :: "ficlStack \<Rightarrow> (int, cell) outcome" where
  "ficlStackGetTop stack = stk_get stack 0"

definition ficlStackPop :: "ficlStack \<Rightarrow> (int, cell \<times> ficlStack) outcome" where
  "ficlStackPop stack =
     bind_outcome (stk_get stack 0) (\<lambda>c. Ok (c, stack\<lparr>st_top := st_top stack - 1\<rparr>))"

definition ficlStackPopInteger :: "ficlStack \<Rightarrow> (int, int \<times> ficlStack) outcome" where
  "ficlStackPopInteger stack =
     bind_outcome (stk_get stack 0) (\<lambda>i. Ok (sint i, stack\<lparr>st_top := st_top stack - 1\<rparr>))"

definition ficlStackPopUnsigned :: "ficlStack \<Rightarrow> (int, cell \<times> ficlStack) outcome" where
  "ficlStackPopUnsigned stack =
     bind_outcome (stk_get stack 0) (\<lambda>u. Ok (u, stack\<lparr>st_top := st_top stack - 1\<rparr>))"

definition ficlStackPopPointer :: "ficlStack \<Rightarrow> (int, addr \<times> ficlStack) outcome" where
  "ficlStackPopPointer stack =
     bind_outcome (stk_get stack 0) (\<lambda>p. Ok (p, stack\<lparr>st_top := st_top stack - 1\<rparr>))"

definition ficlStackPopFTH :: "ficlStack \<Rightarrow> (int, cell \<times> ficlStack) outcome" where
  "ficlStackPopFTH stack =
     bind_outcome (stk_get stack 0) (\<lambda>fp. Ok (fp, stack\<lparr>st_top := st_top stack - 1\<rparr>))"

definition ficlStackPush :: "ficlStack \<Rightarrow> cell \<Rightarrow> (int, ficlStack) outcome" where
  "ficlStackPush stack c = (let stack = stack\<lparr>st_top := st_top stack + 1\<rparr> in stk_set stack 0 c)"

definition ficlStackPushInteger :: "ficlStack \<Rightarrow> int \<Rightarrow> (int, ficlStack) outcome" where
  "ficlStackPushInteger stack i =
     (let stack = stack\<lparr>st_top := st_top stack + 1\<rparr> in stk_set stack 0 (of_int i))"

definition ficlStackPushUnsigned :: "ficlStack \<Rightarrow> cell \<Rightarrow> (int, ficlStack) outcome" where
  "ficlStackPushUnsigned stack u =
     (let stack = stack\<lparr>st_top := st_top stack + 1\<rparr> in stk_set stack 0 u)"

definition ficlStackPushPointer :: "ficlStack \<Rightarrow> addr \<Rightarrow> (int, ficlStack) outcome" where
  "ficlStackPushPointer stack p =
     (let stack = stack\<lparr>st_top := st_top stack + 1\<rparr> in stk_set stack 0 p)"

definition ficlStackPushFTH :: "ficlStack \<Rightarrow> cell \<Rightarrow> (int, ficlStack) outcome" where
  "ficlStackPushFTH stack fp =
     (let stack = stack\<lparr>st_top := st_top stack + 1\<rparr> in stk_set stack 0 fp)"

definition ficlStackLink :: "ficlStack \<Rightarrow> int \<Rightarrow> (int, ficlStack) outcome" where
  "ficlStackLink stack nCells =
     bind_outcome (ficlStackPushPointer stack (st_frame stack)) (\<lambda>stack.
       Ok (stack\<lparr>st_frame := cell_addr stack (st_top stack + 1),
                 st_top := st_top stack + nCells\<rparr>))"

definition ficlStackUnlink :: "ficlStack \<Rightarrow> (int, ficlStack) outcome" where
  "ficlStackUnlink stack =
     (let stack = stack\<lparr>st_top := cell_index stack (st_frame stack) - 1\<rparr>
      in bind_outcome (ficlStackPopPointer stack) (\<lambda>(p, stack). Ok (stack\<lparr>st_frame := p\<rparr>)))"

definition ficlStackPick :: "ficlStack \<Rightarrow> int \<Rightarrow> (int, ficlStack) outcome" where
  "ficlStackPick stack n =
     bind_outcome (stk_get stack (- n)) (\<lambda>cell.
       let stack = stack\<lparr>st_top := st_top stack + 1\<rparr> in stk_set stack 0 cell)"

text \<open>
  The two loops of \<open>ficlStackRoll\<close>; \<open>k\<close> is the offset of \<open>cell\<close> from the top, which moves
  up by one (down by one) in each of the \<open>n\<close> rounds.
\<close>

fun roll_up_loop :: "nat \<Rightarrow> int \<Rightarrow> ficlStack \<Rightarrow> (int, int \<times> ficlStack) outcome" where
  "roll_up_loop 0 k stack = Ok (k, stack)"
| "roll_up_loop (Suc n) k stack =
     bind_outcome (stk_get stack (k + 1)) (\<lambda>x.
     bind_outcome (stk_set stack k x) (\<lambda>stack. roll_up_loop n (k + 1) stack))"

fun roll_down_loop :: "nat \<Rightarrow> int \<Rightarrow> ficlStack \<Rightarrow> (int, int \<times> ficlStack) outcome" where
  "roll_down_loop 0 k stack = Ok (k, stack)"
| "roll_down_loop (Suc n) k stack =
     bind_outcome (stk_get stack (k - 1)) (\<lambda>x.
     bind_outcome (stk_set stack k x) (\<lambda>stack. roll_down_loop n (k - 1) stack))"

definition ficlStackRoll :: "ficlStack \<Rightarrow> int \<Rightarrow> (int, ficlStack) outcome" where
  "ficlStackRoll stack n =
     (if n = 0 then Ok stack
      else if n > 0
      then bind_outcome (stk_get stack (- n)) (\<lambda>c.
           bind_outcome (roll_up_loop (nat n) (- n) stack) (\<lambda>(k, stack). stk_set stack k c))
      else bind_outcome (stk_get stack 0) (\<lambda>c.
           bind_outcome (roll_down_loop (nat (- n)) 0 stack) (\<lambda>(k, stack). stk_set stack k c)))"

definition ficlStackSetTop :: "ficlStack \<Rightarrow> cell \<Rightarrow> (int, ficlStack) outcome" where
  "ficlStackSetTop stack c =
     bind_outcome (ficlStackCheck stack 1 1) (\<lambda>_. stk_set stack 0 c)"

text \<open>
  \<open>ficlStackWalk\<close>: the callback is a function on its context that also says whether to go
  on; \<open>i\<close> is the index of the current cell.
\<close>

fun walk_loop :: "('c \<Rightarrow> cell \<Rightarrow> bool \<times> 'c) \<Rightarrow> 'c \<Rightarrow> ficlStack \<Rightarrow> nat \<Rightarrow> int \<Rightarrow> bool
    \<Rightarrow> (int, 'c) outcome" where
  "walk_loop callback context stack 0 i bottomToTop = Ok context"
| "walk_loop callback context stack (Suc n) i bottomToTop =
     (if in_stack stack i
      then (case callback context (st_cells stack i) of
              (False, context) \<Rightarrow> Ok context
            | (True, context) \<Rightarrow>
                walk_loop callback context stack n (if bottomToTop then i + 1 else i - 1) bottomToTop)
      else Fault)"

definition ficlStackWalk :: "ficlStack \<Rightarrow> ('c \<Rightarrow> cell \<Rightarrow> bool \<times> 'c) \<Rightarrow> 'c \<Rightarrow> bool
    \<Rightarrow> (int, 'c) outcome" where
  "ficlStackWalk stack callback context bottomToTop =
     bind_outcome (ficlStackCheck stack 0 0) (\<lambda>_.
       let depth = ficlStackDepth stack; cell = (if bottomToTop then 0 else st_top stack)
       in walk_loop callback context stack (nat depth) cell bottomToTop)"

subsection \<open>The stack as a list\<close>

definition stack_list :: "ficlStack \<Rightarrow> cell list" where
  "stack_list s = stk_list (st_cells s) (st_top s)"

definition stack_wf :: "ficlStack \<Rightarrow> bool" where
  "stack_wf s = (-1 \<le> st_top s \<and> st_top s < int (st_size s))"

lemmas stk_access_defs = stk_get_def stk_set_def in_stack_def

lemma length_stack_list: "stack_wf s \<Longrightarrow> int (length (stack_list s)) = STKDEPTH s"
  by (simp add: stack_list_def stack_wf_def STKDEPTH_def)

lemma stack_wf_length: "stack_wf s \<Longrightarrow> length (stack_list s) \<le> st_size s"
  by (auto simp: stack_list_def stack_wf_def)

lemma ficlStackCreate_empty:
  "stack_list (ficlStackCreate b n sz) = []" "stack_wf (ficlStackCreate b n sz)"
  by (simp_all add: ficlStackCreate_def ficlStackReset_def stack_list_def stack_wf_def)

lemma ficlStackCheck_iff:
  assumes "stack_wf s"
  shows "ficlStackCheck s pop push =
    (if int (length (stack_list s)) < pop then Throw FICL_VM_STATUS_STACK_UNDERFLOW
     else if int (st_size s) < int (length (stack_list s)) - pop + push
     then Throw (if st_name s = ''data'' then FICL_VM_STATUS_STACK_OVERFLOW
                 else FICL_VM_STATUS_RSTACK_OVERFLOW)
     else Ok ())"
  using length_stack_list [OF assms] by (auto simp: ficlStackCheck_def Let_def)

lemma stk_get_list:
  assumes "stack_wf s" and "0 \<le> n" and "n < int (length (stack_list s))"
  shows "stk_get s (- n) = Ok (stack_list s ! nat n)"
  using assms by (simp add: stk_access_defs stack_list_def stack_wf_def stk_list_nth)

lemma stk_set_list:
  assumes "stack_wf s" and "0 \<le> n" and "n < int (length (stack_list s))"
  shows "\<exists>s'. stk_set s (- n) c = Ok s' \<and> stack_wf s' \<and> st_size s' = st_size s \<and>
    stack_list s' = (stack_list s)[nat n := c]"
proof -
  let ?s = "s\<lparr>st_cells := (st_cells s)(st_top s - n := c)\<rparr>"
  have "stk_set s (- n) c = Ok ?s"
    using assms by (simp add: stk_access_defs stack_list_def stack_wf_def)
  moreover have "stack_list ?s = (stack_list s)[nat n := c]"
    using assms
    by (intro nth_equalityI) (auto simp: stack_list_def stk_list_nth nth_list_update)
  ultimately show ?thesis
    using assms(1) by (auto simp: stack_wf_def)
qed

lemma ficlStackPush_list:
  assumes "stack_wf s" and "length (stack_list s) < st_size s"
  shows "\<exists>s'. ficlStackPush s c = Ok s' \<and> stack_wf s' \<and> st_size s' = st_size s \<and>
    stack_list s' = c # stack_list s"
  using assms
  by (auto simp: ficlStackPush_def stk_access_defs stack_wf_def stack_list_def stack_simps)

lemma ficlStackPop_list:
  assumes "stack_wf s" and "stack_list s = c # cs"
  shows "\<exists>s'. ficlStackPop s = Ok (c, s') \<and> stack_wf s' \<and> st_size s' = st_size s \<and>
    stack_list s' = cs"
  using assms
  by (auto simp: ficlStackPop_def stk_access_defs stack_wf_def stack_list_def stk_list_Cons_iff)

lemma ficlStackPop_empty:
  "stack_wf s \<Longrightarrow> stack_list s = [] \<Longrightarrow> ficlStackPop s = Fault"
  by (auto simp: ficlStackPop_def stk_access_defs stack_wf_def stack_list_def)

text \<open>The two loops of \<open>ficlStackRoll\<close> shift a block of cells by one.\<close>

lemma roll_up_loop_shift:
  assumes "0 \<le> st_top s + k" and "st_top s + k + int n \<le> int (st_size s)"
  shows "roll_up_loop n k s = Ok (k + int n, s\<lparr>st_cells := (\<lambda>i.
    if st_top s + k \<le> i \<and> i < st_top s + k + int n then st_cells s (i + 1) else st_cells s i)\<rparr>)"
  using assms
proof (induction n arbitrary: k s)
  case 0
  then show ?case by (auto intro!: ficlStack.equality simp: fun_eq_iff)
next
  case (Suc n)
  let ?s = "s\<lparr>st_cells := (st_cells s)(st_top s + k := st_cells s (st_top s + k + 1))\<rparr>"
  have "roll_up_loop (Suc n) k s = roll_up_loop n (k + 1) ?s"
    using Suc.prems by (simp add: stk_access_defs algebra_simps)
  also have "\<dots> = Ok (k + 1 + int n, ?s\<lparr>st_cells := (\<lambda>i.
      if st_top ?s + (k + 1) \<le> i \<and> i < st_top ?s + (k + 1) + int n
      then st_cells ?s (i + 1) else st_cells ?s i)\<rparr>)"
    using Suc.prems by (intro Suc.IH) auto
  finally show ?case
    by (auto simp: fun_eq_iff algebra_simps intro!: ficlStack.equality)
qed

lemma roll_down_loop_shift:
  assumes "int n \<le> st_top s + k" and "st_top s + k \<le> int (st_size s)"
  shows "roll_down_loop n k s = Ok (k - int n, s\<lparr>st_cells := (\<lambda>i.
    if st_top s + k - int n < i \<and> i \<le> st_top s + k then st_cells s (i - 1) else st_cells s i)\<rparr>)"
  using assms
proof (induction n arbitrary: k s)
  case 0
  then show ?case by (auto intro!: ficlStack.equality simp: fun_eq_iff)
next
  case (Suc n)
  let ?s = "s\<lparr>st_cells := (st_cells s)(st_top s + k := st_cells s (st_top s + k - 1))\<rparr>"
  have "roll_down_loop (Suc n) k s = roll_down_loop n (k - 1) ?s"
    using Suc.prems by (simp add: stk_access_defs algebra_simps)
  also have "\<dots> = Ok (k - 1 - int n, ?s\<lparr>st_cells := (\<lambda>i.
      if st_top ?s + (k - 1) - int n < i \<and> i \<le> st_top ?s + (k - 1)
      then st_cells ?s (i - 1) else st_cells ?s i)\<rparr>)"
    using Suc.prems by (intro Suc.IH) auto
  finally show ?case
    by (auto simp: fun_eq_iff algebra_simps intro!: ficlStack.equality)
qed

lemma ficlStackRoll_up:
  assumes "stack_wf s" and "0 < n" and "n < length (stack_list s)"
  shows "\<exists>s'. ficlStackRoll s (int n) = Ok s' \<and> stack_wf s' \<and>
    stack_list s' = (stack_list s ! n) # take n (stack_list s) @ drop (Suc n) (stack_list s)"
proof -
  let ?t = "st_top s"
  let ?f = "\<lambda>i. if ?t - int n \<le> i \<and> i < ?t then st_cells s (i + 1) else st_cells s i"
  let ?s = "s\<lparr>st_cells := ?f(?t := st_cells s (?t - int n))\<rparr>"
  have b: "0 \<le> ?t - int n" "?t < int (st_size s)"
    using assms by (auto simp: stack_list_def stack_wf_def)
  have "ficlStackRoll s (int n) = Ok ?s"
    using assms(2) b by (simp add: ficlStackRoll_def roll_up_loop_shift stk_access_defs)
  moreover have "stack_list ?s =
      (stack_list s ! n) # take n (stack_list s) @ drop (Suc n) (stack_list s)" (is "?l = ?r")
  proof (rule nth_equalityI)
    show "length ?l = length ?r" using b by (simp add: stack_list_def)
  next
    fix j assume "j < length ?l"
    then show "?l ! j = ?r ! j"
      using b by (cases j) (auto simp: stack_list_def stk_list_nth nth_append algebra_simps)
  qed
  ultimately show ?thesis using assms(1) by (auto simp: stack_wf_def)
qed

lemma ficlStackRoll_down:
  assumes "stack_wf s" and "0 < n" and "n < length (stack_list s)"
  shows "\<exists>s'. ficlStackRoll s (- int n) = Ok s' \<and> stack_wf s' \<and>
    stack_list s' = take n (tl (stack_list s)) @ hd (stack_list s) # drop (Suc n) (stack_list s)"
proof -
  let ?t = "st_top s"
  let ?f = "\<lambda>i. if ?t - int n < i \<and> i \<le> ?t then st_cells s (i - 1) else st_cells s i"
  let ?s = "s\<lparr>st_cells := ?f(?t - int n := st_cells s ?t)\<rparr>"
  have b: "0 \<le> ?t - int n" "?t < int (st_size s)"
    using assms by (auto simp: stack_list_def stack_wf_def)
  have "ficlStackRoll s (- int n) = Ok ?s"
    using assms(2) b by (simp add: ficlStackRoll_def roll_down_loop_shift stk_access_defs)
  moreover have "stack_list ?s =
      take n (tl (stack_list s)) @ hd (stack_list s) # drop (Suc n) (stack_list s)" (is "?l = ?r")
  proof (rule nth_equalityI)
    show "length ?l = length ?r" using b by (simp add: stack_list_def)
  next
    fix j assume j: "j < length ?l"
    have ne: "stack_list s \<noteq> []" using b by (simp add: stack_list_def)
    show "?l ! j = ?r ! j"
      using b j ne
      by (auto simp: stack_list_def stk_list_nth nth_append nth_tl hd_conv_nth nth_Cons'
          algebra_simps of_nat_diff)
  qed
  ultimately show ?thesis using assms(1) by (auto simp: stack_wf_def)
qed

lemma ficlStackRoll_shape:
  assumes "ficlStackRoll s n = Ok s'"
  shows "st_size s' = st_size s \<and> st_name s' = st_name s \<and> st_base s' = st_base s \<and> st_frame s' = st_frame s"
proof -
  have up: "st_size u = st_size t \<and> st_name u = st_name t \<and> st_base u = st_base t \<and> st_frame u = st_frame t"
    if "roll_up_loop m k t = Ok (j, u)" for m k t j u
    using that by (induction m k t arbitrary: j u rule: roll_up_loop.induct)
      (auto simp: outcome_simps stk_access_defs split: if_splits)
  have down: "st_size u = st_size t \<and> st_name u = st_name t \<and> st_base u = st_base t \<and> st_frame u = st_frame t"
    if "roll_down_loop m k t = Ok (j, u)" for m k t j u
    using that by (induction m k t arbitrary: j u rule: roll_down_loop.induct)
      (auto simp: outcome_simps stk_access_defs split: if_splits)
  show ?thesis
    using assms up down by (auto simp: ficlStackRoll_def outcome_simps stk_access_defs split: if_splits prod.splits)
qed

subsection \<open>Frames\<close>

lemma cell_index_addr:
  assumes "- (2 ^ 60) \<le> i" and "i < 2 ^ 60"
  shows "cell_index s (cell_addr s i) = i"
proof -
  have "sint (of_int (8 * i) :: cell) = 8 * i"
    using assms by (subst signed_of_int) (simp add: signed_take_bit_int_eq_self)
  then show ?thesis by (simp add: cell_index_def cell_addr_def)
qed

lemma ficlStackLink_list:
  assumes "stack_wf s" and "0 \<le> n" and "STKDEPTH s + 1 + n \<le> int (st_size s)"
  shows "\<exists>s' ls. ficlStackLink s n = Ok s' \<and> stack_wf s' \<and> st_size s' = st_size s \<and>
    st_base s' = st_base s \<and> st_frame s' = cell_addr s (st_top s + 2) \<and>
    length ls = nat n \<and> stack_list s' = ls @ st_frame s # stack_list s"
proof -
  let ?s = "s\<lparr>st_top := st_top s + 1 + n, st_frame := cell_addr s (st_top s + 2),
    st_cells := (st_cells s)(st_top s + 1 := st_frame s)\<rparr>"
  have "ficlStackLink s n = Ok ?s"
    using assms by (simp add: ficlStackLink_def ficlStackPushPointer_def stk_access_defs
        stack_wf_def STKDEPTH_def cell_addr_def)
  moreover have "stack_list ?s = take (nat n) (stack_list ?s) @ st_frame s # stack_list s"
    (is "?l = ?r")
  proof (rule nth_equalityI)
    show "length ?l = length ?r"
      using assms by (simp add: stack_list_def stack_wf_def STKDEPTH_def)
  next
    fix j assume "j < length ?l"
    then show "?l ! j = ?r ! j"
      using assms by (auto simp: stack_list_def stk_list_nth nth_append nth_Cons' stack_wf_def
          STKDEPTH_def algebra_simps)
  qed
  moreover have "length (take (nat n) (stack_list ?s)) = nat n"
    using assms by (simp add: stack_list_def stack_wf_def STKDEPTH_def)
  ultimately show ?thesis
    using assms by (intro exI [of _ ?s] exI [of _ "take (nat n) (stack_list ?s)"])
      (auto simp: stack_wf_def STKDEPTH_def)
qed

lemma ficlStackUnlink_list:
  assumes "stack_wf s" and "st_size s < 2 ^ 60" and "stack_list s = ls @ fr # rest"
    and "st_frame s = cell_addr s (int (length rest) + 1)"
  shows "\<exists>s'. ficlStackUnlink s = Ok s' \<and> stack_wf s' \<and> st_size s' = st_size s \<and>
    st_base s' = st_base s \<and> st_frame s' = fr \<and> stack_list s' = rest"
proof -
  have len: "nat (st_top s + 1) = length ls + 1 + length rest"
    using arg_cong [OF assms(3), of length] by (simp add: stack_list_def)
  then have top: "st_top s = int (length ls) + int (length rest)" by linarith
  have sz: "int (length ls) + int (length rest) < int (st_size s)"
    using assms(1) top by (simp add: stack_wf_def)
  have ix: "cell_index s (st_frame s) = int (length rest) + 1"
    unfolding assms(4) using sz assms(2) by (intro cell_index_addr) auto
  have elem: "st_cells s (int (length rest) - int j) = (fr # rest) ! j" if "j \<le> length rest" for j
  proof -
    have "stack_list s ! (length ls + j) = st_cells s (int (length rest) - int j)"
      using that top by (simp add: stack_list_def stk_list_nth)
    then show ?thesis by (simp add: assms(3) nth_append)
  qed
  let ?s = "s\<lparr>st_top := int (length rest) - 1, st_frame := fr\<rparr>"
  have "ficlStackUnlink s = Ok ?s"
    using ix elem [of 0] sz
    by (simp add: ficlStackUnlink_def ficlStackPopPointer_def stk_access_defs)
  moreover have "stack_list ?s = rest"
    using elem [of "Suc _"]
    by (intro nth_equalityI) (auto simp: stack_list_def stk_list_nth algebra_simps)
  ultimately show ?thesis
    using sz by (intro exI [of _ ?s]) (auto simp: stack_wf_def)
qed

subsection \<open>The interface of a bounded stack\<close>

text \<open>
  What the callers of a stack rely on: an invariant, a capacity, and a list of contents on
  which \<open>push\<close> and \<open>pop\<close> act at the head as long as there is room.
\<close>

locale bounded_stack =
  fixes invar :: "'s \<Rightarrow> bool"
    and contents :: "'s \<Rightarrow> 'a list"
    and capacity :: "'s \<Rightarrow> nat"
    and push :: "'s \<Rightarrow> 'a \<Rightarrow> ('e, 's) outcome"
    and pop :: "'s \<Rightarrow> ('e, 'a \<times> 's) outcome"
  assumes push_ok: "invar s \<Longrightarrow> length (contents s) < capacity s \<Longrightarrow>
      \<exists>s'. push s x = Ok s' \<and> invar s' \<and> capacity s' = capacity s \<and> contents s' = x # contents s"
    and pop_ok: "invar s \<Longrightarrow> contents s = x # xs \<Longrightarrow>
      \<exists>s'. pop s = Ok (x, s') \<and> invar s' \<and> capacity s' = capacity s \<and> contents s' = xs"
begin

fun push_all :: "'a list \<Rightarrow> 's \<Rightarrow> ('e, 's) outcome" where
  "push_all [] s = Ok s"
| "push_all (x # xs) s = bind_outcome (push s x) (push_all xs)"

fun pop_n :: "nat \<Rightarrow> 's \<Rightarrow> ('e, 'a list \<times> 's) outcome" where
  "pop_n 0 s = Ok ([], s)"
| "pop_n (Suc n) s =
     bind_outcome (pop s) (\<lambda>(x, s). bind_outcome (pop_n n s) (\<lambda>(xs, s). Ok (x # xs, s)))"

lemma push_all_ok:
  assumes "invar s" and "length (contents s) + length xs \<le> capacity s"
  shows "\<exists>s'. push_all xs s = Ok s' \<and> invar s' \<and> capacity s' = capacity s \<and>
    contents s' = rev xs @ contents s"
  using assms
proof (induction xs arbitrary: s)
  case (Cons x xs)
  then obtain s1 where s1: "push s x = Ok s1" "invar s1" "capacity s1 = capacity s"
    "contents s1 = x # contents s"
    using push_ok [of s x] by auto
  then show ?case using Cons.IH [of s1] Cons.prems by auto
qed simp

lemma pop_n_ok:
  assumes "invar s" and "contents s = xs @ ys"
  shows "\<exists>s'. pop_n (length xs) s = Ok (xs, s') \<and> invar s' \<and> capacity s' = capacity s \<and>
    contents s' = ys"
  using assms
proof (induction xs arbitrary: s)
  case (Cons x xs)
  then obtain s1 where s1: "pop s = Ok (x, s1)" "invar s1" "capacity s1 = capacity s"
    "contents s1 = xs @ ys"
    using pop_ok [of s x "xs @ ys"] by auto
  then show ?case using Cons.IH [of s1] by fastforce
qed simp

lemma push_pop_lifo:
  assumes "invar s" and "length (contents s) + length xs \<le> capacity s"
  shows "\<exists>s' s''. push_all xs s = Ok s' \<and> pop_n (length xs) s' = Ok (rev xs, s'') \<and>
    invar s'' \<and> contents s'' = contents s"
proof -
  obtain s' where "push_all xs s = Ok s'" "invar s'" "contents s' = rev xs @ contents s"
    using push_all_ok [OF assms] by auto
  then show ?thesis using pop_n_ok [of s' "rev xs" "contents s"] by auto
qed

end

interpretation ficl_stk: bounded_stack stack_wf stack_list st_size ficlStackPush ficlStackPop
proof
  show "\<exists>s'. ficlStackPush s x = Ok s' \<and> stack_wf s' \<and> st_size s' = st_size s \<and>
      stack_list s' = x # stack_list s"
    if "stack_wf s" and "length (stack_list s) < st_size s" for s x
    using that by (rule ficlStackPush_list)
  show "\<exists>s'. ficlStackPop s = Ok (x, s') \<and> stack_wf s' \<and> st_size s' = st_size s \<and>
      stack_list s' = xs"
    if "stack_wf s" and "stack_list s = x # xs" for s x xs
    using that by (rule ficlStackPop_list)
qed

end
