(* ===== verification/Ficl_Wordlist.thy ===== *)
theory Ficl_Wordlist
  imports Ficl_Stack
begin

section \<open>Memory, words and wordlists\<close>

text \<open>
  The memory that the dictionary and the virtual machine share, the structures \<open>ficlWord\<close>
  and \<open>ficlHash\<close>, and the operations of \<open>ficl/hash.c\<close> and \<open>ficl/word.c\<close> on them.

  Memory is split by type: \<open>bytes\<close> holds the cells, strings and parameter fields, \<open>words\<close>
  the headers of words and \<open>hashes\<close> the wordlists, each by address; an address that is not
  in the domain is not allocated and an access to it is \<open>Fault\<close>. The headers are not
  reachable through \<open>bytes\<close>: code that pokes into a header through a cell pointer is outside
  the model. A \<open>ficlString\<close> (pointer and length) is the list of its characters.
\<close>

named_theorems heap_simps \<open>reading an updated memory\<close>

record ficlWord =
  w_link :: addr
  w_current_word :: addr
  w_code :: cell
  w_semiParen :: cell
  w_name :: addr
  w_vfunc :: cell
  w_func :: cell
  w_properties :: cell
  w_current_file :: cell
  w_file :: cell
  w_primitive_p :: int
  w_req :: int
  w_opt :: int
  w_rest :: int
  w_argc :: int
  w_kind :: int
  w_current_line :: int
  w_line :: int
  w_flags :: cell
  w_length :: cell
  w_hash :: cell

record ficlHash =
  h_link :: addr
  h_name :: addr
  h_size :: nat
  h_table :: "addr list"

record ficlHeap =
  bytes :: "addr \<rightharpoonup> u8"
  words :: "addr \<rightharpoonup> ficlWord"
  hashes :: "addr \<rightharpoonup> ficlHash"

abbreviation NULL :: addr where
  "NULL \<equiv> 0"

definition FICL_NAME_LENGTH :: nat where
  "FICL_NAME_LENGTH = 256"

definition FICL_WORD_IMMEDIATE :: cell where
  "FICL_WORD_IMMEDIATE = 1"

definition FICL_WORD_COMPILE_ONLY :: cell where
  "FICL_WORD_COMPILE_ONLY = 2"

definition FICL_WORD_SMUDGED :: cell where
  "FICL_WORD_SMUDGED = 4"

definition FICL_WORD_INSTRUCTION :: cell where
  "FICL_WORD_INSTRUCTION = 16"

definition FICL_WORD_DEFAULT :: cell where
  "FICL_WORD_DEFAULT = 0"

subsection \<open>Bytes and cells\<close>

definition byte_of :: "cell \<Rightarrow> nat \<Rightarrow> u8" where
  "byte_of w i = ucast (drop_bit (8 * i) w)"

fun join_bytes :: "u8 list \<Rightarrow> cell" where
  "join_bytes [] = 0"
| "join_bytes (b # bs) = ucast b OR push_bit 8 (join_bytes bs)"

text \<open>A cell is stored in eight bytes, the least significant one first.\<close>

fun load_bytes :: "(addr \<rightharpoonup> u8) \<Rightarrow> addr \<Rightarrow> nat \<Rightarrow> u8 list option" where
  "load_bytes m p 0 = Some []"
| "load_bytes m p (Suc n) =
     (case m p of None \<Rightarrow> None
      | Some b \<Rightarrow> map_option ((#) b) (load_bytes m (p + 1) n))"

fun store_bytes :: "(addr \<rightharpoonup> u8) \<Rightarrow> addr \<Rightarrow> u8 list \<Rightarrow> (addr \<rightharpoonup> u8) option" where
  "store_bytes m p [] = Some m"
| "store_bytes m p (b # bs) =
     (if m p = None then None else store_bytes (m(p \<mapsto> b)) (p + 1) bs)"

definition load_cell :: "(addr \<rightharpoonup> u8) \<Rightarrow> addr \<Rightarrow> cell option" where
  "load_cell m p = map_option join_bytes (load_bytes m p 8)"

definition store_cell :: "(addr \<rightharpoonup> u8) \<Rightarrow> addr \<Rightarrow> cell \<Rightarrow> (addr \<rightharpoonup> u8) option" where
  "store_cell m p w = store_bytes m p (map (byte_of w) [0..<8])"

definition byte_char :: "u8 \<Rightarrow> char" where
  "byte_char b = char_of (unat b)"

definition char_byte :: "char \<Rightarrow> u8" where
  "char_byte c = of_nat (char_code c)"

subsection \<open>Words\<close>

text \<open>The tests of \<open>ficl/word.c\<close>; the word may be \<open>NULL\<close>.\<close>

definition ficlWordIsImmediate :: "ficlHeap \<Rightarrow> addr \<Rightarrow> (int, bool) outcome" where
  "ficlWordIsImmediate h word =
     (if word = NULL then Ok False
      else case words h word of None \<Rightarrow> Fault
           | Some w \<Rightarrow> Ok (w_flags w AND FICL_WORD_IMMEDIATE \<noteq> 0))"

definition ficlWordIsCompileOnly :: "ficlHeap \<Rightarrow> addr \<Rightarrow> (int, bool) outcome" where
  "ficlWordIsCompileOnly h word =
     (if word = NULL then Ok False
      else case words h word of None \<Rightarrow> Fault
           | Some w \<Rightarrow> Ok (w_flags w AND FICL_WORD_COMPILE_ONLY \<noteq> 0))"

subsection \<open>Hash codes\<close>

text \<open>One round of the rolling shift-and-add; all values have 16 bits.\<close>

definition hash_step :: "u16 \<Rightarrow> char \<Rightarrow> u16" where
  "hash_step code c =
     (let code = push_bit 4 code + of_nat (char_code (tolower c));
          shift = code AND 0xf000
      in if shift \<noteq> 0 then (code XOR drop_bit 8 shift) XOR shift else code)"

fun hash_loop :: "string \<Rightarrow> u16 \<Rightarrow> u16" where
  "hash_loop [] code = code"
| "hash_loop (c # trace) code = (if c = NUL then code else hash_loop trace (hash_step code c))"

definition ficlHashCode :: "string \<Rightarrow> cell" where
  "ficlHashCode s = (if length s = 0 then 0 else ucast (hash_loop s (of_nat (length s))))"

subsection \<open>Wordlists\<close>

text \<open>\<open>ficlStrincmp\<close> of a given name with the characters at an address.\<close>

fun ficlStrincmp :: "(addr \<rightharpoonup> u8) \<Rightarrow> string \<Rightarrow> addr \<Rightarrow> nat \<Rightarrow> (int, int) outcome" where
  "ficlStrincmp m cp1 cp2 0 = Ok 0"
| "ficlStrincmp m cp1 cp2 (Suc count) =
     (case m cp2 of None \<Rightarrow> Fault
      | Some b \<Rightarrow>
          let i = schar (tolower (cstr_at cp1 0)) - schar (tolower (byte_char b))
          in if i \<noteq> 0 then Ok i
             else if cstr_at cp1 0 = NUL then Ok 0
             else ficlStrincmp m (tl cp1) (cp2 + 1) count)"

text \<open>The bucket of a hash code.\<close>

definition hash_index :: "ficlHash \<Rightarrow> cell \<Rightarrow> nat" where
  "hash_index hash code = (if h_size hash = 1 then 0 else unat code mod h_size hash)"

definition ficlHashInsertWord :: "ficlHeap \<Rightarrow> addr \<Rightarrow> addr \<Rightarrow> (int, ficlHeap) outcome" where
  "ficlHashInsertWord h a p =
     (case (hashes h a, words h p) of
        (Some hash, Some word) \<Rightarrow>
          let i = hash_index hash (w_hash word)
          in if i < length (h_table hash)
             then Ok (h\<lparr>words := (words h)(p \<mapsto> word\<lparr>w_link := h_table hash ! i\<rparr>),
                        hashes := (hashes h)(a \<mapsto> hash\<lparr>h_table := (h_table hash)[i := p]\<rparr>)\<rparr>)
             else Fault
      | _ \<Rightarrow> Fault)"

text \<open>
  The two loops of \<open>ficlHashLookup\<close>. The chains of a corrupt table may be cyclic; \<open>None\<close> is
  a loop that does not end.
\<close>

partial_function (option) lookup_bucket ::
    "ficlHeap \<Rightarrow> string \<Rightarrow> nat \<Rightarrow> addr \<Rightarrow> (int, addr) outcome option" where
  "lookup_bucket h name nCmp word =
     (if word = NULL then Some (Ok NULL)
      else case words h word of None \<Rightarrow> Some Fault
           | Some w \<Rightarrow>
               if unat (w_length w) = length name
               then (case ficlStrincmp (bytes h) name (w_name w) nCmp of
                       Ok i \<Rightarrow> if i = 0 then Some (Ok word) else lookup_bucket h name nCmp (w_link w)
                     | Throw e \<Rightarrow> Some (Throw e)
                     | Fault \<Rightarrow> Some Fault)
               else lookup_bucket h name nCmp (w_link w))"

definition lookup_index :: "ficlHash \<Rightarrow> cell \<Rightarrow> nat" where
  "lookup_index hash code = (if h_size hash > 1 then unat code mod h_size hash else 0)"

partial_function (option) lookup_parents ::
    "ficlHeap \<Rightarrow> addr \<Rightarrow> string \<Rightarrow> nat \<Rightarrow> cell \<Rightarrow> (int, addr) outcome option" where
  "lookup_parents h a name nCmp hashCode =
     (if a = NULL then Some (Ok NULL)
      else case hashes h a of None \<Rightarrow> Some Fault
           | Some hash \<Rightarrow>
               if lookup_index hash hashCode < length (h_table hash)
               then Option.bind
                      (lookup_bucket h name nCmp (h_table hash ! lookup_index hash hashCode))
                      (\<lambda>r. case r of
                         Ok w \<Rightarrow> if w \<noteq> NULL then Some (Ok w)
                                 else lookup_parents h (h_link hash) name nCmp hashCode
                       | Throw e \<Rightarrow> Some (Throw e)
                       | Fault \<Rightarrow> Some Fault)
               else Some Fault)"

definition ficlHashLookup ::
    "ficlHeap \<Rightarrow> addr \<Rightarrow> string \<Rightarrow> cell \<Rightarrow> (int, addr) outcome option" where
  "ficlHashLookup h a name hashCode =
     (let nCmp = length name; nCmp = (if nCmp > FICL_NAME_LENGTH then FICL_NAME_LENGTH else nCmp)
      in lookup_parents h a name nCmp hashCode)"

text \<open>\<open>ficlHashForget\<close>: the inner loop on one bucket, then all buckets.\<close>

partial_function (option) forget_bucket ::
    "ficlHeap \<Rightarrow> addr \<Rightarrow> addr \<Rightarrow> (int, addr) outcome option" where
  "forget_bucket h where pWord =
     (if pWord \<ge> where
      then (case words h pWord of None \<Rightarrow> Some Fault
            | Some w \<Rightarrow> forget_bucket h where (w_link w))
      else Some (Ok pWord))"

fun forget_table :: "ficlHeap \<Rightarrow> addr \<Rightarrow> addr list \<Rightarrow> (int, addr list) outcome option" where
  "forget_table h where [] = Some (Ok [])"
| "forget_table h where (p # ps) =
     Option.bind (forget_bucket h where p) (\<lambda>r.
     Option.bind (forget_table h where ps) (\<lambda>rs.
       Some (bind_outcome r (\<lambda>p. bind_outcome rs (\<lambda>ps. Ok (p # ps))))))"

definition ficlHashForget :: "ficlHeap \<Rightarrow> addr \<Rightarrow> addr \<Rightarrow> (int, ficlHeap) outcome option" where
  "ficlHashForget h a where =
     (case hashes h a of None \<Rightarrow> Some Fault
      | Some hash \<Rightarrow>
          if h_size hash \<le> length (h_table hash)
          then Option.bind (forget_table h where (take (h_size hash) (h_table hash))) (\<lambda>r.
                 Some (bind_outcome r (\<lambda>t.
                   Ok (h\<lparr>hashes := (hashes h)(a \<mapsto>
                         hash\<lparr>h_table := t @ drop (h_size hash) (h_table hash)\<rparr>)\<rparr>))))
          else Some Fault)"

definition ficlHashReset :: "ficlHeap \<Rightarrow> addr \<Rightarrow> (int, ficlHeap) outcome" where
  "ficlHashReset h a =
     (case hashes h a of None \<Rightarrow> Fault
      | Some hash \<Rightarrow>
          if h_size hash \<le> length (h_table hash)
          then Ok (h\<lparr>hashes := (hashes h)(a \<mapsto>
                 hash\<lparr>h_table := replicate (h_size hash) NULL @ drop (h_size hash) (h_table hash),
                      h_link := NULL, h_name := NULL\<rparr>)\<rparr>)
          else Fault)"

subsection \<open>Round trips of memory\<close>

lemma bit_join_bytes:
  "n < 64 \<Longrightarrow> length bs = 8 \<Longrightarrow> bit (join_bytes bs) n = bit (bs ! (n div 8)) (n mod 8)"
proof -
  have gen: "bit (join_bytes bs) n = (n < 8 * length bs \<and> bit (bs ! (n div 8)) (n mod 8))"
    if "n < 64" for n
    using that
  proof (induction bs arbitrary: n)
    case (Cons b bs)
    show ?case
    proof (cases "n < 8")
      case True
      then show ?thesis by (simp add: bit_simps)
    next
      case False
      then have d: "n div 8 = Suc ((n - 8) div 8)" and m: "(n - 8) mod 8 = n mod 8"
        by (simp_all add: le_div_geq le_mod_geq)
      have "bit (join_bytes bs) (n - 8) =
          (n - 8 < 8 * length bs \<and> bit (bs ! ((n - 8) div 8)) ((n - 8) mod 8))"
        using Cons by simp
      then show ?thesis
        using False Cons.prems by (auto simp: bit_simps d m dest: bit_imp_le_length)
    qed
  qed simp
  assume "n < 64" and "length bs = 8"
  then show ?thesis using gen [of n] by simp
qed

lemma join_bytes_byte_of: "join_bytes (map (byte_of w) [0..<8]) = w"
proof (rule bit_word_eqI)
  fix n assume n: "n < LENGTH(64)"
  then have "n div 8 < 8" by simp
  have "bit (map (byte_of w) [0..<8] ! (n div 8)) (n mod 8) = bit w n"
    using \<open>n div 8 < 8\<close> n by (subst nth_map) (auto simp: byte_of_def bit_simps)
  with n show "bit (join_bytes (map (byte_of w) [0..<8])) n = bit w n"
    by (subst bit_join_bytes) auto
qed

lemma byte_char_char_byte [simp]: "byte_char (char_byte c) = c"
  by (simp add: byte_char_def char_byte_def unsigned_of_nat take_bit_nat_eq_self char_code_def)

text \<open>Offsets below \<open>2\<^sup>64\<close> from one address do not wrap onto each other.\<close>

lemma addr_offset_inj:
  fixes p :: addr
  assumes "i < 2 ^ 64" and "j < 2 ^ 64" and "p + of_nat i = p + of_nat j"
  shows "i = j"
proof -
  have "(of_nat i :: addr) = of_nat j" using assms(3) by simp
  then have "unat (of_nat i :: addr) = unat (of_nat j :: addr)" by simp
  then show ?thesis using assms(1,2) by (simp add: unsigned_of_nat take_bit_nat_eq_self)
qed

lemma load_bytes_eq:
  "load_bytes m p n = (if \<forall>i<n. m (p + of_nat i) \<noteq> None
     then Some (map (\<lambda>i. the (m (p + of_nat i))) [0..<n]) else None)"
proof (induction n arbitrary: p)
  case (Suc n)
  have all: "(\<forall>i<Suc n. m (p + of_nat i) \<noteq> None) \<longleftrightarrow>
      m p \<noteq> None \<and> (\<forall>i<n. m (p + 1 + of_nat i) \<noteq> None)"
    by (simp add: All_less_Suc2 algebra_simps)
  have "map (\<lambda>i. the (m (p + of_nat i))) [0..<Suc n] =
      the (m p) # map (\<lambda>i. the (m (p + 1 + of_nat i))) [0..<n]"
    by (subst upt_conv_Cons) (auto simp: map_Suc_upt [symmetric] algebra_simps simp del: upt_Suc)
  then show ?case
    unfolding all using Suc.IH [of "p + 1"] by (auto split: option.split simp del: upt_Suc)
qed simp

lemma store_bytes_eq:
  assumes "length bs \<le> 2 ^ 64"
  shows "store_bytes m p bs = (if \<forall>i<length bs. m (p + of_nat i) \<noteq> None
     then Some (\<lambda>q. if unat (q - p) < length bs then Some (bs ! unat (q - p)) else m q) else None)"
  using assms
proof (induction bs arbitrary: m p)
  case (Cons b bs)
  have all: "(\<forall>i<Suc (length bs). m (p + of_nat i) \<noteq> None) \<longleftrightarrow>
      m p \<noteq> None \<and> (\<forall>i<length bs. (m(p \<mapsto> b)) (p + 1 + of_nat i) \<noteq> None)" if "m p \<noteq> None"
    using that by (simp add: All_less_Suc2 add.assoc) (metis add.commute add.right_neutral option.exhaust_sel)
  have pt: "(if unat (q - (p + 1)) < length bs then Some (bs ! unat (q - (p + 1)))
        else (m(p \<mapsto> b)) q) =
      (if unat (q - p) < Suc (length bs) then Some ((b # bs) ! unat (q - p)) else m q)" for q
  proof (cases "q = p")
    case True
    have "unat (-1 :: addr) = 2 ^ 64 - 1" by (simp add: unsigned_minus_1_eq_mask mask_eq_exp_minus_1)
    then show ?thesis using True Cons.prems by (simp add: minus_add_distrib [symmetric])
  next
    case False
    then have "unat (q - p) = Suc (unat (q - (p + 1)))"
      using unat_minus_one [of "q - p"] unat_gt_0 [of "q - p"] by (simp add: algebra_simps)
    then show ?thesis using False by simp
  qed
  show ?case
  proof (cases "m p = None")
    case True
    then show ?thesis by auto
  next
    case False
    have "store_bytes m p (b # bs) = store_bytes (m(p \<mapsto> b)) (p + 1) bs"
      using False by auto
    also have "\<dots> = (if \<forall>i<length bs. (m(p \<mapsto> b)) (p + 1 + of_nat i) \<noteq> None
        then Some (\<lambda>q. if unat (q - (p + 1)) < length bs then Some (bs ! unat (q - (p + 1)))
          else (m(p \<mapsto> b)) q) else None)"
      using Cons.prems by (intro Cons.IH) simp
    finally show ?thesis
      using False all [OF False] by (simp only: pt list.size) simp
  qed
qed simp

lemma cell_bytes_in:
  "unat (q - p) < length bs \<longleftrightarrow> (\<exists>i<length bs. q = p + of_nat i)" if "length bs \<le> 2 ^ 64"
  for p q :: addr
proof
  assume a: "unat (q - p) < length bs"
  have "q = p + of_nat (unat (q - p))" by simp
  then show "\<exists>i<length bs. q = p + of_nat i" using a by blast
next
  assume "\<exists>i<length bs. q = p + of_nat i"
  then obtain i where "i < length bs" "q = p + of_nat i" by blast
  then show "unat (q - p) < length bs"
    using that by (simp add: unsigned_of_nat take_bit_nat_eq_self)
qed

lemma store_cell_dom: "store_cell m p w = Some m' \<Longrightarrow> dom m' = dom m"
  by (auto simp: store_cell_def store_bytes_eq cell_bytes_in dom_def split: if_splits)

lemma load_store_cell [heap_simps]: "store_cell m p w = Some m' \<Longrightarrow> load_cell m' p = Some w"
proof -
  assume s: "store_cell m p w = Some m'"
  let ?bs = "map (byte_of w) [0..<8]"
  have m': "m' = (\<lambda>q. if unat (q - p) < 8 then Some (?bs ! unat (q - p)) else m q)"
    using s by (simp add: store_cell_def store_bytes_eq split: if_splits)
  have "unat (of_nat i :: addr) = i" if "i < 8" for i
    using that by (simp add: unsigned_of_nat take_bit_nat_eq_self)
  then have "load_bytes m' p 8 = Some (map (\<lambda>i. ?bs ! i) [0..<8])"
    by (simp add: load_bytes_eq m' cong: map_cong)
  also have "map (\<lambda>i. ?bs ! i) [0..<8] = ?bs"
    using map_nth [of ?bs] by simp
  finally show ?thesis by (simp add: load_cell_def join_bytes_byte_of)
qed

text \<open>Two cells are apart when their addresses differ by at least eight in both directions.\<close>

definition cells_apart :: "addr \<Rightarrow> addr \<Rightarrow> bool" where
  "cells_apart p q = (8 \<le> q - p \<and> 8 \<le> p - q)"

lemma cells_apart_off:
  assumes "cells_apart p q" and "i < 8" and "j < 8"
  shows "p + of_nat i \<noteq> q + of_nat j"
proof
  assume e: "p + of_nat i = q + of_nat j"
  have un: "unat (of_nat k :: addr) = k" if "k < 8" for k
    using that by (simp add: unsigned_of_nat take_bit_nat_eq_self)
  show False
  proof (cases "i \<le> j")
    case True
    then have "p - q = of_nat (j - i)" using e by (simp add: algebra_simps of_nat_diff)
    moreover have "unat (of_nat (j - i) :: addr) = j - i" using assms(3) by (intro un) simp
    ultimately have "unat (p - q) = j - i" by (simp only:)
    then show False using assms True by (simp add: cells_apart_def word_le_nat_alt) linarith
  next
    case False
    then have "q - p = of_nat (i - j)" using e by (simp add: algebra_simps of_nat_diff)
    moreover have "unat (of_nat (i - j) :: addr) = i - j" using assms(2) by (intro un) simp
    ultimately have "unat (q - p) = i - j" by (simp only:)
    then show False using assms False by (simp add: cells_apart_def word_le_nat_alt) linarith
  qed
qed

lemma load_store_cell_apart:
  assumes "store_cell m p w = Some m'" and "cells_apart p q"
  shows "load_cell m' q = load_cell m q"
proof -
  have m': "m' = (\<lambda>a. if unat (a - p) < 8 then Some (map (byte_of w) [0..<8] ! unat (a - p)) else m a)"
    using assms(1) by (simp add: store_cell_def store_bytes_eq split: if_splits)
  have "m' (q + of_nat j) = m (q + of_nat j)" if "j < 8" for j
    using cells_apart_off [OF assms(2) _ that] cell_bytes_in [of "replicate 8 (0::u8)" "q + of_nat j" p]
    by (auto simp: m')
  then have "load_bytes m' q 8 = load_bytes m q 8"
    unfolding load_bytes_eq by (simp cong: map_cong)
  then show ?thesis by (simp add: load_cell_def)
qed

subsection \<open>Names\<close>

definition name_ok :: "string \<Rightarrow> bool" where
  "name_ok s = (0 < length s \<and> length s \<le> FICL_NAME_LENGTH \<and> NUL \<notin> set s)"

definition fold_name :: "string \<Rightarrow> string" where
  "fold_name s = map tolower s"

text \<open>The name of the word at an address, as its header and the memory have it.\<close>

definition word_text :: "ficlHeap \<Rightarrow> addr \<Rightarrow> string option" where
  "word_text h p = (case words h p of None \<Rightarrow> None
     | Some w \<Rightarrow> map_option (map byte_char) (load_bytes (bytes h) (w_name w) (unat (w_length w))))"

definition word_ok :: "ficlHeap \<Rightarrow> addr \<Rightarrow> bool" where
  "word_ok h p = (p \<noteq> NULL \<and> (case (words h p, word_text h p) of
     (Some w, Some s) \<Rightarrow> name_ok s \<and> w_hash w = ficlHashCode s | _ \<Rightarrow> False))"

lemma tolower_eq_NUL [simp]: "tolower c = NUL \<longleftrightarrow> c = NUL"
proof -
  have "char_code (tolower c) = 0 \<longleftrightarrow> char_code c = 0"
    by (auto simp: char_code_tolower isupper_def)
  then show ?thesis by (metis char_code_NUL char_code_inject)
qed

lemma hash_loop_fold [simp]: "hash_loop (map tolower s) code = hash_loop s code"
  by (induction s arbitrary: code) (auto simp: hash_step_def)

lemma ficlHashCode_fold: "ficlHashCode (fold_name s) = ficlHashCode s"
  by (simp add: ficlHashCode_def fold_name_def)

lemma fold_name_idem [simp]: "fold_name (fold_name s) = fold_name s"
  by (simp add: fold_name_def)

lemma name_ok_fold: "name_ok s \<Longrightarrow> name_ok (fold_name s)"
  by (auto simp: name_ok_def fold_name_def dest: sym [THEN tolower_eq_NUL [THEN iffD1]])

lemma ficlStrincmp_eq:
  assumes "load_bytes m p (length s) = Some bs" and "NUL \<notin> set s"
  shows "\<exists>i. ficlStrincmp m s p (length s) = Ok i \<and>
    (i = 0 \<longleftrightarrow> fold_name s = fold_name (map byte_char bs))"
  using assms
proof (induction s arbitrary: p bs)
  case (Cons c s)
  then obtain b bs' where b: "m p = Some b" "load_bytes m (p + 1) (length s) = Some bs'" "bs = b # bs'"
    by (auto split: option.splits)
  obtain i where "ficlStrincmp m s (p + 1) (length s) = Ok i"
      "i = 0 \<longleftrightarrow> fold_name s = fold_name (map byte_char bs')"
    using Cons.IH [OF b(2)] Cons.prems by auto
  then show ?case
    using Cons.prems b by (auto simp: fold_name_def cstr_at_def Let_def)
qed (simp add: fold_name_def)

lemma length_word_text:
  "word_text h p = Some s \<Longrightarrow> words h p = Some w \<Longrightarrow> length s = unat (w_length w)"
  by (auto simp: word_text_def load_bytes_eq split: if_splits)

subsection \<open>Chains\<close>

text \<open>The words that the link fields lead to from an address.\<close>

fun chain :: "ficlHeap \<Rightarrow> addr \<Rightarrow> addr list \<Rightarrow> bool" where
  "chain h p [] = (p = NULL)"
| "chain h p (q # ws) =
     (p = q \<and> p \<noteq> NULL \<and> (case words h p of None \<Rightarrow> False | Some w \<Rightarrow> chain h (w_link w) ws))"

definition found :: "ficlHeap \<Rightarrow> string \<Rightarrow> addr list \<Rightarrow> addr option" where
  "found h k ws = find (\<lambda>w. map_option fold_name (word_text h w) = Some k) ws"

definition opt_addr :: "addr option \<Rightarrow> addr" where
  "opt_addr r = (case r of None \<Rightarrow> NULL | Some p \<Rightarrow> p)"

lemma lookup_bucket_chain:
  assumes "chain h p ws" and "\<forall>w\<in>set ws. word_ok h w" and "NUL \<notin> set name"
  shows "lookup_bucket h name (length name) p =
    Some (Ok (opt_addr (found h (fold_name name) ws)))"
  using assms
proof (induction ws arbitrary: p)
  case Nil
  then show ?case by (subst lookup_bucket.simps) (simp add: found_def opt_addr_def)
next
  case (Cons q ws)
  then obtain w s where w: "words h p = Some w" "chain h (w_link w) ws" "p = q" "p \<noteq> NULL"
    and s: "word_text h p = Some s"
    by (auto simp: word_ok_def split: option.splits)
  have IH: "lookup_bucket h name (length name) (w_link w) =
      Some (Ok (opt_addr (found h (fold_name name) ws)))"
    using Cons w by auto
  show ?case
  proof (cases "length s = length name")
    case True
    then have len: "unat (w_length w) = length name" using length_word_text [OF s w(1)] by simp
    then obtain bs where bs: "load_bytes (bytes h) (w_name w) (length name) = Some bs" "s = map byte_char bs"
      using s w(1) by (auto simp: word_text_def)
    obtain i where "ficlStrincmp (bytes h) name (w_name w) (length name) = Ok i"
        "i = 0 \<longleftrightarrow> fold_name name = fold_name s"
      using ficlStrincmp_eq [OF bs(1) Cons.prems(3)] bs(2) by auto
    then show ?thesis
      using w s len IH by (subst lookup_bucket.simps) (auto simp: found_def opt_addr_def)
  next
    case False
    then have "unat (w_length w) \<noteq> length name" "fold_name s \<noteq> fold_name name"
      using length_word_text [OF s w(1)] by (auto simp: fold_name_def dest: map_eq_imp_length_eq)
    then show ?thesis
      using w s IH by (subst lookup_bucket.simps) (auto simp: found_def)
  qed
qed

lemma forget_bucket_chain:
  assumes "chain h p ws" and "0 < where"
  shows "\<exists>q. forget_bucket h where p = Some (Ok q) \<and> chain h q (dropWhile (\<lambda>w. where \<le> w) ws)"
  using assms
proof (induction ws arbitrary: p)
  case Nil
  then show ?case by (subst forget_bucket.simps) (auto simp: word_less_nat_alt word_le_nat_alt)
next
  case (Cons q ws)
  then show ?case
    by (subst forget_bucket.simps) (auto split: option.splits)
qed

lemma chain_other:
  "q \<notin> set ws \<Longrightarrow> chain (h\<lparr>words := (words h)(q \<mapsto> w)\<rparr>) p ws = chain h p ws"
  by (induction ws arbitrary: p) (auto split: option.splits)

lemma chain_cong: "words h' = words h \<Longrightarrow> chain h' p ws = chain h p ws"
  by (induction ws arbitrary: p) (auto split: option.splits)

subsection \<open>The contents of a wordlist\<close>

text \<open>
  \<open>wordlist h a bs\<close>: the structure at \<open>a\<close> is a wordlist without parent whose buckets hold
  the words \<open>bs\<close>, each well formed and in the bucket of its hash code.
\<close>

definition bucket_ok :: "ficlHeap \<Rightarrow> ficlHash \<Rightarrow> nat \<Rightarrow> addr list \<Rightarrow> bool" where
  "bucket_ok h hash i ws = (chain h (h_table hash ! i) ws \<and>
     (\<forall>w\<in>set ws. word_ok h w \<and> hash_index hash (w_hash (the (words h w))) = i))"

definition wordlist :: "ficlHeap \<Rightarrow> addr \<Rightarrow> addr list list \<Rightarrow> bool" where
  "wordlist h a bs = (a \<noteq> NULL \<and> (case hashes h a of None \<Rightarrow> False | Some hash \<Rightarrow>
     0 < h_size hash \<and> length (h_table hash) = h_size hash \<and> length bs = h_size hash \<and>
     h_link hash = NULL \<and> (\<forall>i<h_size hash. bucket_ok h hash i (bs ! i))))"

text \<open>The abstract contents: a finite map from folded names to words.\<close>

definition names :: "ficlHeap \<Rightarrow> addr list list \<Rightarrow> string \<rightharpoonup> addr" where
  "names h bs k = found h k (concat bs)"

lemma found_concat:
  assumes "i < length bs"
    and "\<forall>j<length bs. \<forall>w\<in>set (bs ! j). map_option fold_name (word_text h w) = Some k \<longrightarrow> j = i"
  shows "found h k (concat bs) = found h k (bs ! i)"
proof -
  have app: "found h k (xs @ ys) = (case found h k xs of None \<Rightarrow> found h k ys | Some w \<Rightarrow> Some w)"
    for xs ys
    by (induction xs) (auto simp: found_def)
  have none: "found h k ws = None \<longleftrightarrow> (\<forall>w\<in>set ws. map_option fold_name (word_text h w) \<noteq> Some k)"
    for ws
    by (auto simp: found_def find_None_iff)
  have l: "found h k (concat (take i bs)) = None"
  proof -
    have "map_option fold_name (word_text h w) \<noteq> Some k" if "ws \<in> set (take i bs)" "w \<in> set ws" for ws w
    proof -
      from that(1) obtain j where "j < i" "j < length bs" "ws = bs ! j"
        by (auto simp: in_set_conv_nth)
      then show ?thesis using assms(2) [rule_format, of j w] that(2) by auto
    qed
    then show ?thesis by (auto simp: none)
  qed
  have r: "found h k (concat (drop (Suc i) bs)) = None"
  proof -
    have "map_option fold_name (word_text h w) \<noteq> Some k" if "ws \<in> set (drop (Suc i) bs)" "w \<in> set ws" for ws w
    proof -
      from that(1) obtain j where "Suc i + j < length bs" "ws = bs ! (Suc i + j)"
        unfolding in_set_conv_nth by (metis add.commute length_drop less_diff_conv nth_drop
            add_lessD1 less_imp_le_nat assms(1) Suc_leI)
      then show ?thesis using assms(2) [rule_format, of "Suc i + j" w] that(2) by auto
    qed
    then show ?thesis by (auto simp: none)
  qed
  have "concat bs = concat (take i bs) @ bs ! i @ concat (drop (Suc i) bs)"
    using assms(1) id_take_nth_drop [of i bs] by (metis concat.simps(2) concat_append)
  then show ?thesis
    by (simp add: app l r split: option.split)
qed

lemma word_hash_of_name:
  assumes "word_ok h w" and "map_option fold_name (word_text h w) = Some k"
  shows "w_hash (the (words h w)) = ficlHashCode k"
  using assms by (auto simp: word_ok_def ficlHashCode_fold split: option.splits)

lemma names_bucket:
  assumes "wordlist h a bs" and "hashes h a = Some hash"
  shows "names h bs k = found h k (bs ! hash_index hash (ficlHashCode k))"
    and "hash_index hash (ficlHashCode k) < length bs"
proof -
  show lt: "hash_index hash (ficlHashCode k) < length bs"
    using assms by (auto simp: wordlist_def hash_index_def)
  have "j = hash_index hash (ficlHashCode k)"
    if "j < length bs" "w \<in> set (bs ! j)" "map_option fold_name (word_text h w) = Some k" for j w
  proof -
    have "word_ok h w" "hash_index hash (w_hash (the (words h w))) = j"
      using assms that(1,2) by (auto simp: wordlist_def bucket_ok_def)
    then show ?thesis using word_hash_of_name [OF _ that(3)] by simp
  qed
  then show "names h bs k = found h k (bs ! hash_index hash (ficlHashCode k))"
    unfolding names_def by (intro found_concat lt) blast
qed

lemma lookup_index_eq: "0 < h_size hash \<Longrightarrow> lookup_index hash c = hash_index hash c"
  by (auto simp: lookup_index_def hash_index_def)

lemma found_nonnull:
  "found h k ws = Some p \<Longrightarrow> \<forall>w\<in>set ws. word_ok h w \<Longrightarrow> p \<noteq> NULL"
  by (auto simp: found_def word_ok_def find_Some_iff)

lemma names_nonnull:
  assumes "wordlist h a bs" and "names h bs k = Some p"
  shows "p \<noteq> NULL"
proof -
  obtain hash where hash: "hashes h a = Some hash" using assms by (auto simp: wordlist_def split: option.splits)
  let ?i = "hash_index hash (ficlHashCode k)"
  have "found h k (bs ! ?i) = Some p" using assms names_bucket(1) [OF assms(1) hash] by simp
  moreover have "\<forall>w\<in>set (bs ! ?i). word_ok h w"
    using assms names_bucket(2) [OF assms(1) hash, of k] hash by (auto simp: wordlist_def bucket_ok_def)
  ultimately show ?thesis by (rule found_nonnull)
qed

lemma ficlHashLookup_names:
  assumes wl: "wordlist h a bs" and nm: "name_ok name"
  shows "ficlHashLookup h a name (ficlHashCode name) =
    Some (Ok (opt_addr (names h bs (fold_name name))))"
proof -
  obtain hash where hash: "hashes h a = Some hash" and a: "a \<noteq> NULL" "h_link hash = NULL"
      "0 < h_size hash" "length (h_table hash) = h_size hash" "length bs = h_size hash"
    using wl by (auto simp: wordlist_def split: option.splits)
  let ?i = "hash_index hash (ficlHashCode name)"
  have i: "?i < length bs" using names_bucket(2) [OF wl hash, of name] .
  have b: "bucket_ok h hash ?i (bs ! ?i)" using wl hash i a by (auto simp: wordlist_def)
  have "lookup_bucket h name (length name) (h_table hash ! ?i) =
      Some (Ok (opt_addr (found h (fold_name name) (bs ! ?i))))"
    using b nm by (intro lookup_bucket_chain) (auto simp: bucket_ok_def name_ok_def)
  also have "found h (fold_name name) (bs ! ?i) = names h bs (fold_name name)"
    using names_bucket(1) [OF wl hash, of "fold_name name"] by (simp add: ficlHashCode_fold)
  finally have lb: "lookup_bucket h name (length name) (h_table hash ! ?i) =
      Some (Ok (opt_addr (names h bs (fold_name name))))" .
  have "lookup_parents h a name (length name) (ficlHashCode name) =
      Some (Ok (opt_addr (names h bs (fold_name name))))"
    using lb a i hash lookup_parents.simps [of h NULL]
    by (subst lookup_parents.simps) (auto simp: lookup_index_eq)
  then show ?thesis using nm by (simp add: ficlHashLookup_def name_ok_def)
qed

subsection \<open>Insertion and removal\<close>

lemma word_text_link [simp]:
  "words h p = Some w \<Longrightarrow>
    word_text (h\<lparr>words := (words h)(p \<mapsto> w\<lparr>w_link := l\<rparr>)\<rparr>) q = word_text h q"
  "word_text (h\<lparr>hashes := hs\<rparr>) q = word_text h q"
  by (auto simp: word_text_def split: option.splits)

lemma word_ok_link [simp]:
  "words h p = Some w \<Longrightarrow> word_ok (h\<lparr>words := (words h)(p \<mapsto> w\<lparr>w_link := l\<rparr>)\<rparr>) q = word_ok h q"
  "word_ok (h\<lparr>hashes := hs\<rparr>) q = word_ok h q"
  by (auto simp: word_ok_def split: option.splits)

lemma hash_index_table [simp]: "hash_index (hash\<lparr>h_table := t\<rparr>) c = hash_index hash c"
  by (simp add: hash_index_def)

lemma found_cong: "(\<And>q. word_text h' q = word_text h q) \<Longrightarrow> found h' k ws = found h k ws"
  by (simp add: found_def)

lemma ficlHashInsertWord_names:
  assumes wl: "wordlist h a bs" and ok: "word_ok h p" and fresh: "p \<notin> set (concat bs)"
  shows "\<exists>h' bs'. ficlHashInsertWord h a p = Ok h' \<and> wordlist h' a bs' \<and>
    set (concat bs') = insert p (set (concat bs)) \<and>
    names h' bs' = (names h bs)(fold_name (the (word_text h p)) \<mapsto> p) \<and>
    bytes h' = bytes h \<and> (\<forall>q. word_text h' q = word_text h q) \<and> (\<forall>q. word_ok h' q \<longleftrightarrow> word_ok h q)"
proof -
  obtain hash where hash: "hashes h a = Some hash" and a: "a \<noteq> NULL" "h_link hash = NULL"
      "0 < h_size hash" "length (h_table hash) = h_size hash" "length bs = h_size hash"
    using wl by (auto simp: wordlist_def split: option.splits)
  obtain w s where w: "words h p = Some w" "word_text h p = Some s" "w_hash w = ficlHashCode s"
    using ok by (auto simp: word_ok_def split: option.splits)
  define i where "i = hash_index hash (w_hash w)"
  define hash' where "hash' = hash\<lparr>h_table := (h_table hash)[i := p]\<rparr>"
  define hw where "hw = h\<lparr>words := (words h)(p \<mapsto> w\<lparr>w_link := h_table hash ! i\<rparr>)\<rparr>"
  define h' where "h' = hw\<lparr>hashes := (hashes h)(a \<mapsto> hash')\<rparr>"
  define bs' where "bs' = bs[i := p # bs ! i]"
  have i: "i < length bs" using names_bucket(2) [OF wl hash, of s] w by (simp add: i_def)
  have ins: "ficlHashInsertWord h a p = Ok h'"
    using hash w i a by (simp add: ficlHashInsertWord_def Let_def h'_def hw_def hash'_def i_def)
  have ix: "hash_index hash' c = hash_index hash c" for c by (simp add: hash'_def)
  have wh: "w_hash (the (words h' q)) = w_hash (the (words h q))" for q
    using w by (simp add: h'_def hw_def)
  have wtx: "word_text h' q = word_text h q" for q
    using w(1) by (auto simp: h'_def hw_def)
  have wok: "word_ok h' q \<longleftrightarrow> word_ok h q" for q
    using w(1) by (auto simp: h'_def hw_def)
  have bo: "bucket_ok h hash j (bs ! j)" if "j < length bs" for j
    using wl hash a that by (auto simp: wordlist_def)
  have ch: "chain h' (h_table hash ! j) (bs ! j)" if "j < length bs" for j
  proof -
    have "chain hw (h_table hash ! j) (bs ! j)"
      unfolding hw_def using bo [OF that] fresh that by (subst chain_other) (auto simp: bucket_ok_def)
    then show ?thesis by (subst chain_cong [of h' hw]) (simp_all add: h'_def)
  qed
  have pw: "words h' p = Some (w\<lparr>w_link := h_table hash ! i\<rparr>)" "p \<noteq> NULL"
    using ok by (auto simp: h'_def hw_def word_ok_def)
  have "bucket_ok h' hash' j (bs' ! j)" if j: "j < length bs" for j
  proof (cases "j = i")
    case True
    then show ?thesis
      using bo [OF j] ch [OF j] ok w(1) i_def i a pw
      by (auto simp: bucket_ok_def ix wh wok bs'_def hash'_def)
  next
    case False
    then show ?thesis
      using bo [OF j] ch [OF j] by (simp add: bucket_ok_def ix wh wok bs'_def hash'_def)
  qed
  then have wl': "wordlist h' a bs'"
    using a i by (simp add: wordlist_def h'_def bs'_def hash'_def)
  have "names h' bs' k = ((names h bs)(fold_name s \<mapsto> p)) k" for k
  proof -
    let ?k = "hash_index hash (ficlHashCode k)"
    have "hashes h' a = Some hash'" by (simp add: h'_def)
    then have "names h' bs' k = found h k (bs' ! ?k)"
      using names_bucket(1) [OF wl', of hash' k] found_cong [of h' h, OF wtx] by (simp add: ix)
    moreover have "?k < length bs" using names_bucket(2) [OF wl hash] .
    moreover have "fold_name s = k \<Longrightarrow> ?k = i" using w(3) by (auto simp: ficlHashCode_fold i_def)
    ultimately show ?thesis
      using names_bucket(1) [OF wl hash, of k] w(2) i
      by (cases "?k = i") (auto simp: found_def bs'_def)
  qed
  then have "names h' bs' = (names h bs)(fold_name s \<mapsto> p)" by blast
  moreover have "set (concat bs') = insert p (set (concat bs))"
  proof -
    have "set bs' = insert (p # bs ! i) (set (take i bs) \<union> set (drop (Suc i) bs))"
      using i by (simp add: bs'_def upd_conv_take_nth_drop)
    moreover have "set bs = insert (bs ! i) (set (take i bs) \<union> set (drop (Suc i) bs))"
      by (subst id_take_nth_drop [OF i]) simp
    ultimately show ?thesis by simp
  qed
  ultimately show ?thesis
    using ins wl' wtx wok w(2) by (intro exI [of _ h'] exI [of _ bs']) (simp add: h'_def hw_def)
qed

lemma forget_table_chains:
  assumes "0 < where" and "length bs = length ps" and "\<forall>i<length ps. chain h (ps ! i) (bs ! i)"
  shows "\<exists>qs. forget_table h where ps = Some (Ok qs) \<and> length qs = length ps \<and>
    (\<forall>i<length ps. chain h (qs ! i) (dropWhile (\<lambda>w. where \<le> w) (bs ! i)))"
  using assms(2,3)
proof (induction ps arbitrary: bs)
  case (Cons p ps)
  then obtain b bs' where bs: "bs = b # bs'" by (cases bs) auto
  have "chain h p b" using Cons.prems(2) bs by auto
  then obtain q where q: "forget_bucket h where p = Some (Ok q)" "chain h q (dropWhile (\<lambda>w. where \<le> w) b)"
    using forget_bucket_chain [OF _ assms(1)] by blast
  have "\<forall>i<length ps. chain h (ps ! i) (bs' ! i)" using Cons.prems(2) bs by auto
  then obtain qs where "forget_table h where ps = Some (Ok qs)" "length qs = length ps"
      "\<forall>i<length ps. chain h (qs ! i) (dropWhile (\<lambda>w. where \<le> w) (bs' ! i))"
    using Cons.IH [of bs'] Cons.prems(1) bs by auto
  then show ?case using q bs by (auto simp: nth_Cons split: nat.split)
qed simp

text \<open>
  In each bucket the words are linked from the youngest to the oldest, and memory is
  allotted upwards, so the addresses of a bucket decrease.
\<close>

definition bucket_sorted :: "addr list \<Rightarrow> bool" where
  "bucket_sorted ws = sorted_wrt (>) ws"

lemma dropWhile_sorted:
  "bucket_sorted ws \<Longrightarrow> dropWhile (\<lambda>w. where \<le> w) ws = filter (\<lambda>w. w < where) ws"
proof (induction ws)
  case (Cons w ws)
  have "filter (\<lambda>w. w < where) ws = ws" if "w < where"
    using that Cons.prems by (auto simp: bucket_sorted_def filter_id_conv)
  then show ?case using Cons by (auto simp: bucket_sorted_def)
qed simp

lemma ficlHashForget_filter:
  assumes wl: "wordlist h a bs" and srt: "\<forall>ws\<in>set bs. bucket_sorted ws" and pos: "0 < where"
  shows "\<exists>h'. ficlHashForget h a where = Some (Ok h') \<and>
    wordlist h' a (map (filter (\<lambda>w. w < where)) bs) \<and> words h' = words h \<and> bytes h' = bytes h"
proof -
  obtain hash where hash: "hashes h a = Some hash" and a: "a \<noteq> NULL" "h_link hash = NULL"
      "0 < h_size hash" "length (h_table hash) = h_size hash" "length bs = h_size hash"
    using wl by (auto simp: wordlist_def split: option.splits)
  have bo: "bucket_ok h hash j (bs ! j)" if "j < length bs" for j
    using wl hash a that by (auto simp: wordlist_def)
  obtain qs where qs: "forget_table h where (h_table hash) = Some (Ok qs)"
      "length qs = length (h_table hash)"
      "\<forall>i<length (h_table hash). chain h (qs ! i) (dropWhile (\<lambda>w. where \<le> w) (bs ! i))"
    using forget_table_chains [OF pos, of bs "h_table hash" h] bo a by (auto simp: bucket_ok_def)
  let ?hash = "hash\<lparr>h_table := qs\<rparr>"
  let ?h = "h\<lparr>hashes := (hashes h)(a \<mapsto> ?hash)\<rparr>"
  have "ficlHashForget h a where = Some (Ok ?h)"
    using hash a qs by (simp add: ficlHashForget_def)
  moreover have "bucket_ok ?h ?hash j (map (filter (\<lambda>w. w < where)) bs ! j)" if j: "j < length bs" for j
  proof -
    have "chain ?h (qs ! j) (filter (\<lambda>w. w < where) (bs ! j))"
      using qs(3) a j dropWhile_sorted [of "bs ! j" "where"] srt by (subst chain_cong [of ?h h]) auto
    then show ?thesis
      using bo [OF j] j by (auto simp: bucket_ok_def hash_index_def)
  qed
  ultimately show ?thesis using a qs(2) by (intro exI [of _ ?h]) (simp add: wordlist_def)
qed

subsection \<open>The interface of a table of names\<close>

text \<open>
  What a client of wordlists relies on. \<open>view s a W m\<close>: in state \<open>s\<close> the list at \<open>a\<close> links
  the words \<open>W\<close> and \<open>m\<close> is the word that each key finds; \<open>key\<close> identifies names that differ
  in case only.
\<close>

locale name_table =
  fixes view :: "'s \<Rightarrow> addr \<Rightarrow> addr set \<Rightarrow> (string \<rightharpoonup> addr) \<Rightarrow> bool"
    and look :: "'s \<Rightarrow> addr \<Rightarrow> string \<Rightarrow> (int, addr) outcome option"
    and good :: "string \<Rightarrow> bool"
    and key :: "string \<Rightarrow> string"
  assumes look_ok: "view s a W m \<Longrightarrow> good n \<Longrightarrow> look s a n = Some (Ok (opt_addr (m (key n))))"
    and view_nonnull: "view s a W m \<Longrightarrow> m k \<noteq> Some NULL"
begin

fun search :: "'s \<Rightarrow> addr list \<Rightarrow> string \<Rightarrow> (int, addr) outcome option" where
  "search s [] n = Some (Ok NULL)"
| "search s (a # as) n = Option.bind (look s a n) (\<lambda>r. case r of
       Ok w \<Rightarrow> if w = NULL then search s as n else Some (Ok w)
     | Throw e \<Rightarrow> Some (Throw e) | Fault \<Rightarrow> Some Fault)"

text \<open>Lists earlier in the order hide the later ones.\<close>

lemma search_ok:
  assumes "list_all2 (\<lambda>a m. \<exists>W. view s a W m) as ms" and "good n"
  shows "search s as n = Some (Ok (opt_addr (foldr (\<lambda>m acc. acc ++ m) ms Map.empty (key n))))"
  using assms(1)
proof (induction as ms rule: list_all2_induct)
  case (Cons a as m ms)
  then obtain W where v: "view s a W m" by blast
  have "m (key n) \<noteq> Some NULL" using view_nonnull [OF v] .
  then show ?case
    using Cons.IH look_ok [OF v assms(2)] by (auto simp: opt_addr_def map_add_def split: option.split)
qed (simp add: opt_addr_def)

lemma look_case: "view s a W m \<Longrightarrow> good n \<Longrightarrow> good n' \<Longrightarrow> key n = key n' \<Longrightarrow> look s a n = look s a n'"
  using look_ok by metis

end

locale name_store = name_table view look good key
  for view :: "'s \<Rightarrow> addr \<Rightarrow> addr set \<Rightarrow> (string \<rightharpoonup> addr) \<Rightarrow> bool" and look good key +
  fixes ready :: "'s \<Rightarrow> addr \<Rightarrow> string \<Rightarrow> bool"
    and add :: "'s \<Rightarrow> addr \<Rightarrow> addr \<Rightarrow> (int, 's) outcome"
  assumes add_ok: "view s a W m \<Longrightarrow> ready s p n \<Longrightarrow> p \<notin> W \<Longrightarrow>
      \<exists>s'. add s a p = Ok s' \<and> view s' a (insert p W) (m(key n \<mapsto> p)) \<and>
        (\<forall>q k. ready s q k \<longrightarrow> ready s' q k)"
begin

fun add_all :: "'s \<Rightarrow> addr \<Rightarrow> addr list \<Rightarrow> (int, 's) outcome" where
  "add_all s a [] = Ok s"
| "add_all s a (p # ps) = bind_outcome (add s a p) (\<lambda>s. add_all s a ps)"

lemma add_all_ok:
  assumes "view s a W m" and "list_all2 (ready s) ps ns" and "distinct ps" and "set ps \<inter> W = {}"
  shows "\<exists>s'. add_all s a ps = Ok s' \<and> view s' a (set ps \<union> W) (m ++ map_of (rev (zip (map key ns) ps)))"
  using assms
proof (induction ps arbitrary: ns s W m)
  case (Cons p ps nns)
  then obtain n ns where nns: "nns = n # ns" "ready s p n" "list_all2 (ready s) ps ns"
    by (auto simp: list_all2_Cons1)
  with Cons.prems obtain s1 where s1: "add s a p = Ok s1" "view s1 a (insert p W) (m(key n \<mapsto> p))"
      "\<forall>q k. ready s q k \<longrightarrow> ready s1 q k"
    using add_ok [of s a W m p n] by auto
  have r1: "list_all2 (ready s1) ps ns" using nns(3) s1(3) by (auto elim: list_all2_mono)
  obtain s' where "add_all s1 a ps = Ok s'"
      "view s' a (set ps \<union> insert p W) (m(key n \<mapsto> p) ++ map_of (rev (zip (map key ns) ps)))"
    using Cons.IH [OF s1(2) r1] Cons.prems(3,4) by (auto simp del: fun_upd_apply)
  moreover have "m(key n \<mapsto> p) ++ map_of (rev (zip (map key ns) ps)) =
      m ++ map_of (rev (zip (map key (n # ns)) (p # ps)))"
    by (rule ext) (simp add: map_add_def split: option.split)
  moreover have "set (p # ps) \<union> W = set ps \<union> insert p W" by auto
  ultimately show ?case unfolding nns(1) add_all.simps s1(1) bind_outcome.simps by metis
qed (simp add: list_all2_Nil)

text \<open>The last word defined under a name is the one that is found.\<close>

lemma look_added:
  assumes "view s a W m" and "list_all2 (ready s) ps ns" and "distinct ps" and "set ps \<inter> W = {}"
    and "good n"
  shows "\<exists>s'. add_all s a ps = Ok s' \<and> look s' a n =
    Some (Ok (opt_addr ((m ++ map_of (rev (zip (map key ns) ps))) (key n))))"
  using add_all_ok [OF assms(1-4)] look_ok [OF _ assms(5)] by blast

end

definition hash_view :: "ficlHeap \<Rightarrow> addr \<Rightarrow> addr set \<Rightarrow> (string \<rightharpoonup> addr) \<Rightarrow> bool" where
  "hash_view h a W m = (\<exists>bs. wordlist h a bs \<and> W = set (concat bs) \<and> m = names h bs)"

interpretation wl: name_store hash_view "\<lambda>h a n. ficlHashLookup h a n (ficlHashCode n)" name_ok
  fold_name "\<lambda>h p n. word_ok h p \<and> word_text h p = Some n" ficlHashInsertWord
proof
  fix h a W m n
  assume "hash_view h a W m" and "name_ok n"
  then show "ficlHashLookup h a n (ficlHashCode n) = Some (Ok (opt_addr (m (fold_name n))))"
    by (auto simp: hash_view_def ficlHashLookup_names)
next
  fix h a W m k
  assume "hash_view h a W m"
  then show "m k \<noteq> Some NULL" by (auto simp: hash_view_def dest: names_nonnull)
next
  fix h a W m p n
  assume v: "hash_view h a W m" and r: "word_ok h p \<and> word_text h p = Some n" and p: "p \<notin> W"
  obtain bs where bs: "wordlist h a bs" "W = set (concat bs)" "m = names h bs"
    using v by (auto simp: hash_view_def)
  obtain h' bs' where "ficlHashInsertWord h a p = Ok h'" "wordlist h' a bs'"
      "set (concat bs') = insert p (set (concat bs))"
      "names h' bs' = (names h bs)(fold_name (the (word_text h p)) \<mapsto> p)"
      "\<forall>q. word_text h' q = word_text h q" "\<forall>q. word_ok h' q \<longleftrightarrow> word_ok h q"
    using ficlHashInsertWord_names [OF bs(1)] r p bs(2) by metis
  then show "\<exists>h'. ficlHashInsertWord h a p = Ok h' \<and>
      hash_view h' a (insert p W) (m(fold_name n \<mapsto> p)) \<and>
      (\<forall>q k. word_ok h q \<and> word_text h q = Some k \<longrightarrow> word_ok h' q \<and> word_text h' q = Some k)"
    using r bs unfolding hash_view_def by (metis option.sel)
qed

end
