(* ===== verification/Ficl_Tokens.thy ===== *)
theory Ficl_Tokens
  imports Ficl_Wordlist
begin

section \<open>Instruction codes\<close>

text \<open>
  The enumeration \<open>ficlInstruction\<close> of \<open>ficl/ficl.h\<close>, whose members are the tokens of
  \<open>ficl/ficltokens.h\<close> in the order of that file. A code is a cell: compiled code is an
  array of cells that hold either a code or the address of a word. \<open>token_simps\<close> unfolds
  the codes.
\<close>

named_theorems token_simps \<open>the values of the instruction codes\<close>

definition ficlInstructionInvalid :: cell where
  [token_simps]: "ficlInstructionInvalid = 0"

definition ficlInstruction1 :: cell where
  [token_simps]: "ficlInstruction1 = 1"

definition ficlInstruction2 :: cell where
  [token_simps]: "ficlInstruction2 = 2"

definition ficlInstruction3 :: cell where
  [token_simps]: "ficlInstruction3 = 3"

definition ficlInstruction4 :: cell where
  [token_simps]: "ficlInstruction4 = 4"

definition ficlInstruction5 :: cell where
  [token_simps]: "ficlInstruction5 = 5"

definition ficlInstruction6 :: cell where
  [token_simps]: "ficlInstruction6 = 6"

definition ficlInstruction7 :: cell where
  [token_simps]: "ficlInstruction7 = 7"

definition ficlInstruction8 :: cell where
  [token_simps]: "ficlInstruction8 = 8"

definition ficlInstruction9 :: cell where
  [token_simps]: "ficlInstruction9 = 9"

definition ficlInstruction10 :: cell where
  [token_simps]: "ficlInstruction10 = 10"

definition ficlInstruction11 :: cell where
  [token_simps]: "ficlInstruction11 = 11"

definition ficlInstruction12 :: cell where
  [token_simps]: "ficlInstruction12 = 12"

definition ficlInstruction13 :: cell where
  [token_simps]: "ficlInstruction13 = 13"

definition ficlInstruction14 :: cell where
  [token_simps]: "ficlInstruction14 = 14"

definition ficlInstruction15 :: cell where
  [token_simps]: "ficlInstruction15 = 15"

definition ficlInstruction16 :: cell where
  [token_simps]: "ficlInstruction16 = 16"

definition ficlInstruction0 :: cell where
  [token_simps]: "ficlInstruction0 = 17"

definition ficlInstructionNeg1 :: cell where
  [token_simps]: "ficlInstructionNeg1 = 18"

definition ficlInstructionNeg2 :: cell where
  [token_simps]: "ficlInstructionNeg2 = 19"

definition ficlInstructionNeg3 :: cell where
  [token_simps]: "ficlInstructionNeg3 = 20"

definition ficlInstructionNeg4 :: cell where
  [token_simps]: "ficlInstructionNeg4 = 21"

definition ficlInstructionNeg5 :: cell where
  [token_simps]: "ficlInstructionNeg5 = 22"

definition ficlInstructionNeg6 :: cell where
  [token_simps]: "ficlInstructionNeg6 = 23"

definition ficlInstructionNeg7 :: cell where
  [token_simps]: "ficlInstructionNeg7 = 24"

definition ficlInstructionNeg8 :: cell where
  [token_simps]: "ficlInstructionNeg8 = 25"

definition ficlInstructionNeg9 :: cell where
  [token_simps]: "ficlInstructionNeg9 = 26"

definition ficlInstructionNeg10 :: cell where
  [token_simps]: "ficlInstructionNeg10 = 27"

definition ficlInstructionNeg11 :: cell where
  [token_simps]: "ficlInstructionNeg11 = 28"

definition ficlInstructionNeg12 :: cell where
  [token_simps]: "ficlInstructionNeg12 = 29"

definition ficlInstructionNeg13 :: cell where
  [token_simps]: "ficlInstructionNeg13 = 30"

definition ficlInstructionNeg14 :: cell where
  [token_simps]: "ficlInstructionNeg14 = 31"

definition ficlInstructionNeg15 :: cell where
  [token_simps]: "ficlInstructionNeg15 = 32"

definition ficlInstructionNeg16 :: cell where
  [token_simps]: "ficlInstructionNeg16 = 33"

definition ficlInstructionF0 :: cell where
  [token_simps]: "ficlInstructionF0 = 34"

definition ficlInstructionF1 :: cell where
  [token_simps]: "ficlInstructionF1 = 35"

definition ficlInstructionFNeg1 :: cell where
  [token_simps]: "ficlInstructionFNeg1 = 36"

definition ficlInstructionSemiParen :: cell where
  [token_simps]: "ficlInstructionSemiParen = 37"

definition ficlInstructionExitParen :: cell where
  [token_simps]: "ficlInstructionExitParen = 38"

definition ficlInstructionDup :: cell where
  [token_simps]: "ficlInstructionDup = 39"

definition ficlInstructionSwap :: cell where
  [token_simps]: "ficlInstructionSwap = 40"

definition ficlInstructionBranchParenWithCheck :: cell where
  [token_simps]: "ficlInstructionBranchParenWithCheck = 41"

definition ficlInstructionBranchParen :: cell where
  [token_simps]: "ficlInstructionBranchParen = 42"

definition ficlInstructionBranch0ParenWithCheck :: cell where
  [token_simps]: "ficlInstructionBranch0ParenWithCheck = 43"

definition ficlInstructionBranch0Paren :: cell where
  [token_simps]: "ficlInstructionBranch0Paren = 44"

definition ficlInstructionLiteralParen :: cell where
  [token_simps]: "ficlInstructionLiteralParen = 45"

definition ficlInstructionLoopParen :: cell where
  [token_simps]: "ficlInstructionLoopParen = 46"

definition ficlInstructionOfParen :: cell where
  [token_simps]: "ficlInstructionOfParen = 47"

definition ficlInstructionPlusLoopParen :: cell where
  [token_simps]: "ficlInstructionPlusLoopParen = 48"

definition ficlInstructionFetch :: cell where
  [token_simps]: "ficlInstructionFetch = 49"

definition ficlInstructionStore :: cell where
  [token_simps]: "ficlInstructionStore = 50"

definition ficlInstructionComma :: cell where
  [token_simps]: "ficlInstructionComma = 51"

definition ficlInstructionCompileComma :: cell where
  [token_simps]: "ficlInstructionCompileComma = 52"

definition ficlInstructionCComma :: cell where
  [token_simps]: "ficlInstructionCComma = 53"

definition ficlInstructionCells :: cell where
  [token_simps]: "ficlInstructionCells = 54"

definition ficlInstructionCellPlus :: cell where
  [token_simps]: "ficlInstructionCellPlus = 55"

definition ficlInstructionStarSlash :: cell where
  [token_simps]: "ficlInstructionStarSlash = 56"

definition ficlInstructionSlashMod :: cell where
  [token_simps]: "ficlInstructionSlashMod = 57"

definition ficlInstructionStarSlashMod :: cell where
  [token_simps]: "ficlInstructionStarSlashMod = 58"

definition ficlInstructionColonParen :: cell where
  [token_simps]: "ficlInstructionColonParen = 59"

definition ficlInstructionVariableParen :: cell where
  [token_simps]: "ficlInstructionVariableParen = 60"

definition ficlInstructionConstantParen :: cell where
  [token_simps]: "ficlInstructionConstantParen = 61"

definition ficlInstructionDoDoes :: cell where
  [token_simps]: "ficlInstructionDoDoes = 62"

definition ficlInstructionDoParen :: cell where
  [token_simps]: "ficlInstructionDoParen = 63"

definition ficlInstructionDoesParen :: cell where
  [token_simps]: "ficlInstructionDoesParen = 64"

definition ficlInstructionQDoParen :: cell where
  [token_simps]: "ficlInstructionQDoParen = 65"

definition ficlInstructionCreateParen :: cell where
  [token_simps]: "ficlInstructionCreateParen = 66"

definition ficlInstructionStringLiteralParen :: cell where
  [token_simps]: "ficlInstructionStringLiteralParen = 67"

definition ficlInstructionCStringLiteralParen :: cell where
  [token_simps]: "ficlInstructionCStringLiteralParen = 68"

definition ficlInstructionPlusStore :: cell where
  [token_simps]: "ficlInstructionPlusStore = 69"

definition ficlInstructionOver :: cell where
  [token_simps]: "ficlInstructionOver = 70"

definition ficlInstructionRot :: cell where
  [token_simps]: "ficlInstructionRot = 71"

definition ficlInstruction2Drop :: cell where
  [token_simps]: "ficlInstruction2Drop = 72"

definition ficlInstruction2Dup :: cell where
  [token_simps]: "ficlInstruction2Dup = 73"

definition ficlInstruction2Over :: cell where
  [token_simps]: "ficlInstruction2Over = 74"

definition ficlInstruction2Swap :: cell where
  [token_simps]: "ficlInstruction2Swap = 75"

definition ficlInstructionFromRStack :: cell where
  [token_simps]: "ficlInstructionFromRStack = 76"

definition ficlInstructionFetchRStack :: cell where
  [token_simps]: "ficlInstructionFetchRStack = 77"

definition ficlInstruction2ToR :: cell where
  [token_simps]: "ficlInstruction2ToR = 78"

definition ficlInstruction2RFrom :: cell where
  [token_simps]: "ficlInstruction2RFrom = 79"

definition ficlInstruction2RFetch :: cell where
  [token_simps]: "ficlInstruction2RFetch = 80"

definition ficlInstructionToRStack :: cell where
  [token_simps]: "ficlInstructionToRStack = 81"

definition ficlInstructionQuestionDup :: cell where
  [token_simps]: "ficlInstructionQuestionDup = 82"

definition ficlInstructionAnd :: cell where
  [token_simps]: "ficlInstructionAnd = 83"

definition ficlInstructionCStore :: cell where
  [token_simps]: "ficlInstructionCStore = 84"

definition ficlInstructionCFetch :: cell where
  [token_simps]: "ficlInstructionCFetch = 85"

definition ficlInstructionDrop :: cell where
  [token_simps]: "ficlInstructionDrop = 86"

definition ficlInstructionPick :: cell where
  [token_simps]: "ficlInstructionPick = 87"

definition ficlInstructionNip :: cell where
  [token_simps]: "ficlInstructionNip = 88"

definition ficlInstructionTuck :: cell where
  [token_simps]: "ficlInstructionTuck = 89"

definition ficlInstructionRoll :: cell where
  [token_simps]: "ficlInstructionRoll = 90"

definition ficlInstructionMinusRoll :: cell where
  [token_simps]: "ficlInstructionMinusRoll = 91"

definition ficlInstructionMinusRot :: cell where
  [token_simps]: "ficlInstructionMinusRot = 92"

definition ficlInstructionFill :: cell where
  [token_simps]: "ficlInstructionFill = 93"

definition ficlInstructionWithin :: cell where
  [token_simps]: "ficlInstructionWithin = 94"

definition ficlInstructionInvert :: cell where
  [token_simps]: "ficlInstructionInvert = 95"

definition ficlInstructionLShift :: cell where
  [token_simps]: "ficlInstructionLShift = 96"

definition ficlInstructionMax :: cell where
  [token_simps]: "ficlInstructionMax = 97"

definition ficlInstructionMin :: cell where
  [token_simps]: "ficlInstructionMin = 98"

definition ficlInstructionMove :: cell where
  [token_simps]: "ficlInstructionMove = 99"

definition ficlInstructionOr :: cell where
  [token_simps]: "ficlInstructionOr = 100"

definition ficlInstructionRShift :: cell where
  [token_simps]: "ficlInstructionRShift = 101"

definition ficlInstructionXor :: cell where
  [token_simps]: "ficlInstructionXor = 102"

definition ficlInstructionI :: cell where
  [token_simps]: "ficlInstructionI = 103"

definition ficlInstructionJ :: cell where
  [token_simps]: "ficlInstructionJ = 104"

definition ficlInstructionK :: cell where
  [token_simps]: "ficlInstructionK = 105"

definition ficlInstructionCompare :: cell where
  [token_simps]: "ficlInstructionCompare = 106"

definition ficlInstructionCompareInsensitive :: cell where
  [token_simps]: "ficlInstructionCompareInsensitive = 107"

definition ficlInstructionLeave :: cell where
  [token_simps]: "ficlInstructionLeave = 108"

definition ficlInstructionUnloop :: cell where
  [token_simps]: "ficlInstructionUnloop = 109"

definition ficlInstructionUserParen :: cell where
  [token_simps]: "ficlInstructionUserParen = 110"

definition ficlInstructionLinkParen :: cell where
  [token_simps]: "ficlInstructionLinkParen = 111"

definition ficlInstructionUnlinkParen :: cell where
  [token_simps]: "ficlInstructionUnlinkParen = 112"

definition ficlInstructionGetLocalParen :: cell where
  [token_simps]: "ficlInstructionGetLocalParen = 113"

definition ficlInstructionToLocalParen :: cell where
  [token_simps]: "ficlInstructionToLocalParen = 114"

definition ficlInstructionGetLocal0 :: cell where
  [token_simps]: "ficlInstructionGetLocal0 = 115"

definition ficlInstructionToLocal0 :: cell where
  [token_simps]: "ficlInstructionToLocal0 = 116"

definition ficlInstructionGetLocal1 :: cell where
  [token_simps]: "ficlInstructionGetLocal1 = 117"

definition ficlInstructionToLocal1 :: cell where
  [token_simps]: "ficlInstructionToLocal1 = 118"

definition ficlInstructionPlusToLocalParen :: cell where
  [token_simps]: "ficlInstructionPlusToLocalParen = 119"

definition ficlInstructionPlusToLocal0 :: cell where
  [token_simps]: "ficlInstructionPlusToLocal0 = 120"

definition ficlInstructionPlusToLocal1 :: cell where
  [token_simps]: "ficlInstructionPlusToLocal1 = 121"

definition ficlInstructionFPlusToLocalParen :: cell where
  [token_simps]: "ficlInstructionFPlusToLocalParen = 122"

definition ficlInstructionFPlusToLocal0 :: cell where
  [token_simps]: "ficlInstructionFPlusToLocal0 = 123"

definition ficlInstructionFPlusToLocal1 :: cell where
  [token_simps]: "ficlInstructionFPlusToLocal1 = 124"

definition ficlInstruction0Equals :: cell where
  [token_simps]: "ficlInstruction0Equals = 125"

definition ficl_zero_p :: cell where
  [token_simps]: "ficl_zero_p = 126"

definition ficl_0_not_eql :: cell where
  [token_simps]: "ficl_0_not_eql = 127"

definition ficlInstruction0Less :: cell where
  [token_simps]: "ficlInstruction0Less = 128"

definition ficl_negative_p :: cell where
  [token_simps]: "ficl_negative_p = 129"

definition ficlInstruction0Greater :: cell where
  [token_simps]: "ficlInstruction0Greater = 130"

definition ficl_0_less_eql :: cell where
  [token_simps]: "ficl_0_less_eql = 131"

definition ficl_0_greater_eql :: cell where
  [token_simps]: "ficl_0_greater_eql = 132"

definition ficl_positive_p :: cell where
  [token_simps]: "ficl_positive_p = 133"

definition ficlInstructionEquals :: cell where
  [token_simps]: "ficlInstructionEquals = 134"

definition ficl_not_eql :: cell where
  [token_simps]: "ficl_not_eql = 135"

definition ficlInstructionLess :: cell where
  [token_simps]: "ficlInstructionLess = 136"

definition ficlInstructionGreaterThan :: cell where
  [token_simps]: "ficlInstructionGreaterThan = 137"

definition ficl_less_eql :: cell where
  [token_simps]: "ficl_less_eql = 138"

definition ficl_greater_eql :: cell where
  [token_simps]: "ficl_greater_eql = 139"

definition ficlInstructionPlus :: cell where
  [token_simps]: "ficlInstructionPlus = 140"

definition ficlInstructionMinus :: cell where
  [token_simps]: "ficlInstructionMinus = 141"

definition ficlInstructionStar :: cell where
  [token_simps]: "ficlInstructionStar = 142"

definition ficlInstructionSlash :: cell where
  [token_simps]: "ficlInstructionSlash = 143"

definition ficlInstruction1Plus :: cell where
  [token_simps]: "ficlInstruction1Plus = 144"

definition ficlInstruction1Minus :: cell where
  [token_simps]: "ficlInstruction1Minus = 145"

definition ficlInstruction2Plus :: cell where
  [token_simps]: "ficlInstruction2Plus = 146"

definition ficlInstruction2Minus :: cell where
  [token_simps]: "ficlInstruction2Minus = 147"

definition ficlInstruction2Star :: cell where
  [token_simps]: "ficlInstruction2Star = 148"

definition ficlInstruction2Slash :: cell where
  [token_simps]: "ficlInstruction2Slash = 149"

definition ficlInstructionNegate :: cell where
  [token_simps]: "ficlInstructionNegate = 150"

definition ficl_abs :: cell where
  [token_simps]: "ficl_abs = 151"

definition ficlInstructionF0Equals :: cell where
  [token_simps]: "ficlInstructionF0Equals = 152"

definition ficl_f_zero_p :: cell where
  [token_simps]: "ficl_f_zero_p = 153"

definition ficl_f0_not_eql :: cell where
  [token_simps]: "ficl_f0_not_eql = 154"

definition ficlInstructionF0Less :: cell where
  [token_simps]: "ficlInstructionF0Less = 155"

definition ficl_f_negative_p :: cell where
  [token_simps]: "ficl_f_negative_p = 156"

definition ficlInstructionF0Greater :: cell where
  [token_simps]: "ficlInstructionF0Greater = 157"

definition ficl_f0_less_eql :: cell where
  [token_simps]: "ficl_f0_less_eql = 158"

definition ficl_f0_greater_eql :: cell where
  [token_simps]: "ficl_f0_greater_eql = 159"

definition ficl_f_positive_p :: cell where
  [token_simps]: "ficl_f_positive_p = 160"

definition ficlInstructionFEquals :: cell where
  [token_simps]: "ficlInstructionFEquals = 161"

definition ficl_f_not_eql :: cell where
  [token_simps]: "ficl_f_not_eql = 162"

definition ficlInstructionFLess :: cell where
  [token_simps]: "ficlInstructionFLess = 163"

definition ficlInstructionFGreater :: cell where
  [token_simps]: "ficlInstructionFGreater = 164"

definition ficl_f_less_eql :: cell where
  [token_simps]: "ficl_f_less_eql = 165"

definition ficl_f_greater_eql :: cell where
  [token_simps]: "ficl_f_greater_eql = 166"

definition ficlInstructionFPlus :: cell where
  [token_simps]: "ficlInstructionFPlus = 167"

definition ficlInstructionFMinus :: cell where
  [token_simps]: "ficlInstructionFMinus = 168"

definition ficlInstructionFStar :: cell where
  [token_simps]: "ficlInstructionFStar = 169"

definition ficlInstructionFSlash :: cell where
  [token_simps]: "ficlInstructionFSlash = 170"

definition ficl_f2_star :: cell where
  [token_simps]: "ficl_f2_star = 171"

definition ficl_f2_slash :: cell where
  [token_simps]: "ficl_f2_slash = 172"

definition ficl_1_slash_f :: cell where
  [token_simps]: "ficl_1_slash_f = 173"

definition ficlInstructionFNegate :: cell where
  [token_simps]: "ficlInstructionFNegate = 174"

definition ficlInstructionFPlusStore :: cell where
  [token_simps]: "ficlInstructionFPlusStore = 175"

definition ficl_f_max :: cell where
  [token_simps]: "ficl_f_max = 176"

definition ficl_f_min :: cell where
  [token_simps]: "ficl_f_min = 177"

definition ficl_execute_func :: cell where
  [token_simps]: "ficl_execute_func = 178"

definition ficl_execute_void_func :: cell where
  [token_simps]: "ficl_execute_void_func = 179"

definition ficl_execute_trace_var :: cell where
  [token_simps]: "ficl_execute_trace_var = 180"

definition ficl_word_location :: cell where
  [token_simps]: "ficl_word_location = 181"

definition ficl_bool_false :: cell where
  [token_simps]: "ficl_bool_false = 182"

definition ficl_bool_true :: cell where
  [token_simps]: "ficl_bool_true = 183"

definition ficl_bool_and :: cell where
  [token_simps]: "ficl_bool_and = 184"

definition ficl_bool_or :: cell where
  [token_simps]: "ficl_bool_or = 185"

definition ficl_bool_not :: cell where
  [token_simps]: "ficl_bool_not = 186"

definition ficlInstructionFOver :: cell where
  [token_simps]: "ficlInstructionFOver = 187"

definition ficlInstructionFDrop :: cell where
  [token_simps]: "ficlInstructionFDrop = 188"

definition ficlInstructionFDup :: cell where
  [token_simps]: "ficlInstructionFDup = 189"

definition ficlInstructionFSwap :: cell where
  [token_simps]: "ficlInstructionFSwap = 190"

definition ficlInstructionFRot :: cell where
  [token_simps]: "ficlInstructionFRot = 191"

definition ficlInstructionExitInnerLoop :: cell where
  [token_simps]: "ficlInstructionExitInnerLoop = 192"

definition ficlInstructionLast :: cell where
  [token_simps]: "ficlInstructionLast = 193"

subsection \<open>Kinds of words\<close>

datatype ficlWordKind =
    FICL_WORDKIND_BRANCH
  | FICL_WORDKIND_BRANCH0
  | FICL_WORDKIND_COLON
  | FICL_WORDKIND_CONSTANT
  | FICL_WORDKIND_2CONSTANT
  | FICL_WORDKIND_CREATE
  | FICL_WORDKIND_DO
  | FICL_WORDKIND_DOES
  | FICL_WORDKIND_LITERAL
  | FICL_WORDKIND_2LITERAL
  | FICL_WORDKIND_LOOP
  | FICL_WORDKIND_OF
  | FICL_WORDKIND_PLOOP
  | FICL_WORDKIND_PRIMITIVE
  | FICL_WORDKIND_QDO
  | FICL_WORDKIND_STRING_LITERAL
  | FICL_WORDKIND_CSTRING_LITERAL
  | FICL_WORDKIND_USER
  | FICL_WORDKIND_VARIABLE
  | FICL_WORDKIND_INSTRUCTION
  | FICL_WORDKIND_INSTRUCTION_WORD
  | FICL_WORDKIND_INSTRUCTION_WITH_ARGUMENT

text \<open>The \<open>switch\<close> of \<open>ficlWordClassify\<close> on the instruction \<open>i\<close>.\<close>

definition classify_switch :: "cell \<Rightarrow> ficlWordKind \<Rightarrow> ficlWordKind" where
  "classify_switch i iType =
     (if i = ficlInstructionConstantParen then FICL_WORDKIND_CONSTANT
      else if i = ficlInstructionToLocalParen then FICL_WORDKIND_INSTRUCTION_WITH_ARGUMENT
      else if i = ficlInstructionUserParen then FICL_WORDKIND_USER
      else if i = ficlInstructionCreateParen then FICL_WORDKIND_CREATE
      else if i = ficlInstructionCStringLiteralParen then FICL_WORDKIND_CSTRING_LITERAL
      else if i = ficlInstructionStringLiteralParen then FICL_WORDKIND_STRING_LITERAL
      else if i = ficlInstructionColonParen then FICL_WORDKIND_COLON
      else if i = ficlInstructionDoDoes then FICL_WORDKIND_DOES
      else if i = ficlInstructionDoParen then FICL_WORDKIND_DO
      else if i = ficlInstructionQDoParen then FICL_WORDKIND_QDO
      else if i = ficlInstructionVariableParen then FICL_WORDKIND_VARIABLE
      else if i = ficlInstructionBranchParenWithCheck \<or> i = ficlInstructionBranchParen
      then FICL_WORDKIND_BRANCH
      else if i = ficlInstructionBranch0ParenWithCheck \<or> i = ficlInstructionBranch0Paren
      then FICL_WORDKIND_BRANCH0
      else if i = ficlInstructionLiteralParen then FICL_WORDKIND_LITERAL
      else if i = ficlInstructionLoopParen then FICL_WORDKIND_LOOP
      else if i = ficlInstructionOfParen then FICL_WORDKIND_OF
      else if i = ficlInstructionPlusLoopParen then FICL_WORDKIND_PLOOP
      else iType)"

definition ficlWordClassify :: "ficlHeap \<Rightarrow> addr \<Rightarrow> (int, ficlWordKind) outcome" where
  "ficlWordClassify h word =
     (if word > ficlInstructionInvalid \<and> word < ficlInstructionLast
      then Ok (classify_switch word FICL_WORDKIND_INSTRUCTION)
      else if word = NULL
      then Ok (classify_switch 0 FICL_WORDKIND_INSTRUCTION_WORD)
      else case words h word of None \<Rightarrow> Fault
           | Some w \<Rightarrow>
               if w_code w < ficlInstructionLast
               then Ok (classify_switch (w_code w) FICL_WORDKIND_INSTRUCTION_WORD)
               else Ok FICL_WORDKIND_PRIMITIVE)"

end
