(* ===== verification/Ficl_Dictionary.thy ===== *)
theory Ficl_Dictionary
  imports Ficl_Tokens
begin

section \<open>The dictionary\<close>

text \<open>
  The operations of \<open>ficl/dictionary.c\<close> on the structure \<open>ficlDictionary\<close>. Its memory is
  \<open>d_heap\<close>; \<open>d_base\<close> is the address of the first cell of the data area, \<open>d_size\<close> its number
  of cells. \<open>d_current_file\<close> and \<open>d_current_line\<close> are the globals \<open>fth_current_file\<close> and
  \<open>fth_current_line\<close> that a new header records. \<open>param\<close>, the first data cell of a word, is
  144 bytes behind the start of the header on an LP64 platform.
\<close>

record ficlDictionary =
  d_heap :: ficlHeap
  d_here :: addr
  d_smudge :: addr
  d_forthWordlist :: addr
  d_compilationWordlist :: addr
  d_wordlists :: "addr list"
  d_wordlistCount :: int
  d_size :: cell
  d_base :: addr
  d_false :: cell
  d_current_file :: cell
  d_current_line :: int

definition FICL_MAX_WORDLISTS :: nat where
  "FICL_MAX_WORDLISTS = 32"

definition FW_WORD :: int where
  "FW_WORD = 0"

definition FW_VARIABLE :: int where
  "FW_VARIABLE = 5"

definition header_size :: nat where
  "header_size = 144"

definition word_param :: "addr \<Rightarrow> addr" where
  "word_param word = word + of_nat header_size"

text \<open>Access to the memory of the dictionary.\<close>

definition d_bytes :: "ficlDictionary \<Rightarrow> addr \<rightharpoonup> u8" where
  "d_bytes d = bytes (d_heap d)"

definition set_bytes :: "(addr \<rightharpoonup> u8) \<Rightarrow> ficlDictionary \<Rightarrow> ficlDictionary" where
  "set_bytes m d = d\<lparr>d_heap := (d_heap d)\<lparr>bytes := m\<rparr>\<rparr>"

definition set_word :: "addr \<Rightarrow> ficlWord \<Rightarrow> ficlDictionary \<Rightarrow> ficlDictionary" where
  "set_word p w d = d\<lparr>d_heap := (d_heap d)\<lparr>words := (words (d_heap d))(p \<mapsto> w)\<rparr>\<rparr>"

definition d_store_cell :: "ficlDictionary \<Rightarrow> addr \<Rightarrow> cell \<Rightarrow> (int, ficlDictionary) outcome" where
  "d_store_cell d p c =
     (case store_cell (d_bytes d) p c of None \<Rightarrow> Fault | Some m \<Rightarrow> Ok (set_bytes m d))"

definition d_load_cell :: "ficlDictionary \<Rightarrow> addr \<Rightarrow> (int, cell) outcome" where
  "d_load_cell d p = (case load_cell (d_bytes d) p of None \<Rightarrow> Fault | Some c \<Rightarrow> Ok c)"

definition d_store_bytes :: "ficlDictionary \<Rightarrow> addr \<Rightarrow> u8 list \<Rightarrow> (int, ficlDictionary) outcome" where
  "d_store_bytes d p bs =
     (case store_bytes (d_bytes d) p bs of None \<Rightarrow> Fault | Some m \<Rightarrow> Ok (set_bytes m d))"

definition d_word :: "ficlDictionary \<Rightarrow> addr \<Rightarrow> (int, ficlWord) outcome" where
  "d_word d p = (case words (d_heap d) p of None \<Rightarrow> Fault | Some w \<Rightarrow> Ok w)"

text \<open>The bytes from an address on are allocated.\<close>

definition allocated :: "ficlDictionary \<Rightarrow> addr \<Rightarrow> nat \<Rightarrow> bool" where
  "allocated d p n = list_all (\<lambda>i. d_bytes d (p + of_nat i) \<noteq> None) [0..<n]"

subsection \<open>Allotting and appending\<close>

definition ficlDictionaryAbortDefinition :: "ficlDictionary \<Rightarrow> (int, ficlDictionary) outcome" where
  "ficlDictionaryAbortDefinition dict =
     bind_outcome (d_word dict (d_smudge dict)) (\<lambda>word.
       if w_flags word AND FICL_WORD_SMUDGED \<noteq> 0
       then d_store_cell dict (d_here dict) (w_name word) else Ok dict)"

definition ficlDictionaryAlign :: "ficlDictionary \<Rightarrow> ficlDictionary" where
  "ficlDictionaryAlign dict = dict\<lparr>d_here := ficlAlignPointer (d_here dict)\<rparr>"

definition ficlDictionaryAllot :: "ficlDictionary \<Rightarrow> int \<Rightarrow> ficlDictionary" where
  "ficlDictionaryAllot dict n = dict\<lparr>d_here := d_here dict + of_int n\<rparr>"

definition ficlDictionaryAllotCells :: "ficlDictionary \<Rightarrow> int \<Rightarrow> ficlDictionary" where
  "ficlDictionaryAllotCells dict nficlCells = dict\<lparr>d_here := d_here dict + of_int (8 * nficlCells)\<rparr>"

definition ficlDictionaryAppendCell :: "ficlDictionary \<Rightarrow> cell \<Rightarrow> (int, ficlDictionary) outcome" where
  "ficlDictionaryAppendCell dict c =
     bind_outcome (d_store_cell dict (d_here dict) c) (\<lambda>dict. Ok (dict\<lparr>d_here := d_here dict + 8\<rparr>))"

definition ficlDictionaryAppendPointer :: "ficlDictionary \<Rightarrow> addr \<Rightarrow> (int, ficlDictionary) outcome" where
  "ficlDictionaryAppendPointer dict p =
     bind_outcome (d_store_cell dict (d_here dict) p) (\<lambda>dict. Ok (dict\<lparr>d_here := d_here dict + 8\<rparr>))"

definition ficlDictionaryAppendFTH :: "ficlDictionary \<Rightarrow> cell \<Rightarrow> (int, ficlDictionary) outcome" where
  "ficlDictionaryAppendFTH dict fp =
     bind_outcome (d_store_cell dict (d_here dict) fp) (\<lambda>dict. Ok (dict\<lparr>d_here := d_here dict + 8\<rparr>))"

definition ficlDictionaryAppendInteger :: "ficlDictionary \<Rightarrow> int \<Rightarrow> (int, ficlDictionary) outcome" where
  "ficlDictionaryAppendInteger dict i =
     bind_outcome (d_store_cell dict (d_here dict) (of_int i))
       (\<lambda>dict. Ok (dict\<lparr>d_here := d_here dict + 8\<rparr>))"

text \<open>The character is sign-extended to a whole cell.\<close>

definition ficlDictionaryAppendCharacter :: "ficlDictionary \<Rightarrow> char \<Rightarrow> (int, ficlDictionary) outcome" where
  "ficlDictionaryAppendCharacter dict ch =
     bind_outcome (d_store_cell dict (d_here dict) (of_int (schar ch)))
       (\<lambda>dict. Ok (dict\<lparr>d_here := d_here dict + 8\<rparr>))"

definition ficlDictionaryAppendUnsigned :: "ficlDictionary \<Rightarrow> cell \<Rightarrow> (int, ficlDictionary) outcome" where
  "ficlDictionaryAppendUnsigned dict u =
     bind_outcome (d_store_cell dict (d_here dict) u) (\<lambda>dict. Ok (dict\<lparr>d_here := d_here dict + 8\<rparr>))"

text \<open>The data are the \<open>length\<close> characters at the given pointer.\<close>

definition ficlDictionaryAppendData :: "ficlDictionary \<Rightarrow> string \<Rightarrow> (int, addr \<times> ficlDictionary) outcome" where
  "ficlDictionaryAppendData dict data =
     (if length data = 0
      then let dict = ficlDictionaryAlign dict in Ok (d_here dict, dict)
      else let oldHere = d_here dict
           in bind_outcome (d_store_bytes dict oldHere (map char_byte data @ [0])) (\<lambda>dict.
              let dict = dict\<lparr>d_here := oldHere + of_nat (length data) + 1\<rparr>
              in Ok (oldHere, ficlDictionaryAlign dict)))"

definition ficlDictionaryAppendString :: "ficlDictionary \<Rightarrow> string \<Rightarrow> (int, addr \<times> ficlDictionary) outcome" where
  "ficlDictionaryAppendString dict s =
     (let len = length s; len = (if len > FICL_NAME_LENGTH then FICL_NAME_LENGTH else len)
      in ficlDictionaryAppendData dict (take len s))"

subsection \<open>Words\<close>

definition ficlDictionaryUnsmudge :: "ficlDictionary \<Rightarrow> (int, ficlDictionary) outcome" where
  "ficlDictionaryUnsmudge dict =
     bind_outcome (d_word dict (d_smudge dict)) (\<lambda>word.
     bind_outcome
       (if w_length word > 0
        then bind_outcome (ficlHashInsertWord (d_heap dict) (d_compilationWordlist dict) (d_smudge dict))
               (\<lambda>h. Ok (dict\<lparr>d_heap := h\<rparr>))
        else Ok dict)
       (\<lambda>dict. bind_outcome (d_word dict (d_smudge dict)) (\<lambda>word.
          Ok (set_word (d_smudge dict) (word\<lparr>w_flags := w_flags word AND NOT FICL_WORD_SMUDGED\<rparr>) dict))))"

text \<open>The header that \<open>ficlDictionaryAppendWord\<close> writes.\<close>

definition new_word :: "ficlDictionary \<Rightarrow> string \<Rightarrow> addr \<Rightarrow> cell \<Rightarrow> cell \<Rightarrow> ficlWord" where
  "new_word dict name nameCopy code flags =
     \<lparr>w_link = NULL, w_current_word = d_here dict, w_code = code,
      w_semiParen = ficlInstructionSemiParen, w_name = nameCopy, w_vfunc = NULL, w_func = NULL,
      w_properties = d_false dict, w_current_file = d_current_file dict,
      w_file = d_current_file dict, w_primitive_p = 1, w_req = 0, w_opt = 0, w_rest = 0,
      w_argc = -1, w_kind = FW_WORD, w_current_line = d_current_line dict,
      w_line = d_current_line dict, w_flags = flags OR FICL_WORD_SMUDGED,
      w_length = of_nat (length name), w_hash = ficlHashCode name\<rparr>"

definition ficlDictionaryAppendWord ::
    "ficlDictionary \<Rightarrow> string \<Rightarrow> cell \<Rightarrow> cell \<Rightarrow> (int, addr \<times> ficlDictionary) outcome" where
  "ficlDictionaryAppendWord dict name code flags =
     bind_outcome (ficlDictionaryAppendString dict name) (\<lambda>(nameCopy, dict).
     bind_outcome (d_store_bytes dict (nameCopy + of_nat (length name)) [0]) (\<lambda>dict.
       let word = d_here dict
       in if allocated dict word header_size
          then let dict = set_word word (new_word dict name nameCopy code flags)
                            (dict\<lparr>d_smudge := word\<rparr>);
                   dict = dict\<lparr>d_here := word_param word\<rparr>
               in if flags AND FICL_WORD_SMUDGED = 0
                  then bind_outcome (ficlDictionaryUnsmudge dict) (\<lambda>dict. Ok (word, dict))
                  else Ok (word, dict)
          else Fault))"

definition ficlDictionaryAppendPrimitive ::
    "ficlDictionary \<Rightarrow> string \<Rightarrow> cell \<Rightarrow> cell \<Rightarrow> (int, addr \<times> ficlDictionary) outcome" where
  "ficlDictionaryAppendPrimitive dict name code flags = ficlDictionaryAppendWord dict name code flags"

definition ficlDictionaryAppendInstruction ::
    "ficlDictionary \<Rightarrow> string \<Rightarrow> cell \<Rightarrow> cell \<Rightarrow> (int, addr \<times> ficlDictionary) outcome" where
  "ficlDictionaryAppendInstruction dict name i flags =
     ficlDictionaryAppendPrimitive dict name i (FICL_WORD_INSTRUCTION OR flags)"

text \<open>
  The search order is an array; its highest index is searched first. \<open>i\<close> counts the lists
  that remain. \<open>None\<close> is a search that does not end.
\<close>

fun dict_lookup_loop ::
    "ficlDictionary \<Rightarrow> string \<Rightarrow> cell \<Rightarrow> nat \<Rightarrow> (int, addr) outcome option" where
  "dict_lookup_loop dict name hashCode 0 = Some (Ok NULL)"
| "dict_lookup_loop dict name hashCode (Suc i) =
     (if i < length (d_wordlists dict)
      then Option.bind (ficlHashLookup (d_heap dict) (d_wordlists dict ! i) name hashCode) (\<lambda>r.
             case r of
               Ok word \<Rightarrow> if word = NULL then dict_lookup_loop dict name hashCode i
                          else Some (Ok word)
             | Throw e \<Rightarrow> Some (Throw e)
             | Fault \<Rightarrow> Some Fault)
      else Some Fault)"

definition ficlDictionaryLookup :: "ficlDictionary \<Rightarrow> string \<Rightarrow> (int, addr) outcome option" where
  "ficlDictionaryLookup dict name =
     dict_lookup_loop dict name (ficlHashCode name) (nat (d_wordlistCount dict))"

definition ficlDictionarySetPrimitive ::
    "ficlDictionary \<Rightarrow> string \<Rightarrow> cell \<Rightarrow> cell \<Rightarrow> (int, addr \<times> ficlDictionary) outcome option" where
  "ficlDictionarySetPrimitive dict name code flags =
     map_option (\<lambda>r. bind_outcome r (\<lambda>word.
       if word = NULL then ficlDictionaryAppendPrimitive dict name code flags
       else bind_outcome (d_word dict word) (\<lambda>w.
              Ok (word, set_word word (w\<lparr>w_code := code, w_flags := flags\<rparr>) dict))))
       (ficlDictionaryLookup dict name)"

definition ficlDictionarySetInstruction ::
    "ficlDictionary \<Rightarrow> string \<Rightarrow> cell \<Rightarrow> cell \<Rightarrow> (int, addr \<times> ficlDictionary) outcome option" where
  "ficlDictionarySetInstruction dict name i flags =
     ficlDictionarySetPrimitive dict name i (FICL_WORD_INSTRUCTION OR flags)"

definition ficlDictionaryAppendConstantInstruction ::
    "ficlDictionary \<Rightarrow> string \<Rightarrow> cell \<Rightarrow> int \<Rightarrow> (int, addr \<times> ficlDictionary) outcome" where
  "ficlDictionaryAppendConstantInstruction dict name inst val =
     bind_outcome (ficlDictionaryAppendWord dict name inst FICL_WORD_DEFAULT) (\<lambda>(word, dict).
       if word \<noteq> NULL
       then bind_outcome (ficlDictionaryAppendUnsigned dict (of_int val)) (\<lambda>dict.
            bind_outcome (d_word dict word) (\<lambda>w.
              Ok (word, set_word word (w\<lparr>w_kind := FW_VARIABLE\<rparr>) dict)))
       else Ok (word, dict))"

definition ficlDictionaryAppendConstant ::
    "ficlDictionary \<Rightarrow> string \<Rightarrow> int \<Rightarrow> (int, addr \<times> ficlDictionary) outcome" where
  "ficlDictionaryAppendConstant dict name val =
     ficlDictionaryAppendConstantInstruction dict name ficlInstructionConstantParen val"

definition ficlDictionarySetConstantInstruction ::
    "ficlDictionary \<Rightarrow> string \<Rightarrow> cell \<Rightarrow> int \<Rightarrow> (int, addr \<times> ficlDictionary) outcome option" where
  "ficlDictionarySetConstantInstruction dict name inst val =
     map_option (\<lambda>r. bind_outcome r (\<lambda>word.
       if word = NULL then ficlDictionaryAppendConstantInstruction dict name inst val
       else bind_outcome (d_word dict word) (\<lambda>w.
            bind_outcome (d_store_cell (set_word word (w\<lparr>w_code := inst\<rparr>) dict)
                (word_param word) (of_int val)) (\<lambda>dict. Ok (word, dict)))))
       (ficlDictionaryLookup dict name)"

definition ficlDictionarySetConstant ::
    "ficlDictionary \<Rightarrow> string \<Rightarrow> int \<Rightarrow> (int, addr \<times> ficlDictionary) outcome option" where
  "ficlDictionarySetConstant dict name val =
     ficlDictionarySetConstantInstruction dict name ficlInstructionConstantParen val"

definition ficlDictionaryAppendFTHConstantInstruction ::
    "ficlDictionary \<Rightarrow> string \<Rightarrow> cell \<Rightarrow> cell \<Rightarrow> (int, addr \<times> ficlDictionary) outcome" where
  "ficlDictionaryAppendFTHConstantInstruction dict name inst fp =
     bind_outcome (ficlDictionaryAppendWord dict name inst FICL_WORD_DEFAULT) (\<lambda>(word, dict).
     bind_outcome (d_store_cell dict (d_here dict) fp) (\<lambda>dict.
       Ok (word, dict\<lparr>d_here := d_here dict + 8\<rparr>)))"

definition ficlDictionarySetFTHConstantInstruction ::
    "ficlDictionary \<Rightarrow> string \<Rightarrow> cell \<Rightarrow> cell \<Rightarrow> (int, addr \<times> ficlDictionary) outcome option" where
  "ficlDictionarySetFTHConstantInstruction dict name inst fp =
     map_option (\<lambda>r. bind_outcome r (\<lambda>word.
       bind_outcome (if word = NULL then ficlDictionaryAppendFTHConstantInstruction dict name inst fp
                     else Ok (word, dict)) (\<lambda>(word, dict).
       bind_outcome (d_word dict word) (\<lambda>w.
       bind_outcome (d_store_cell (set_word word (w\<lparr>w_code := inst\<rparr>) dict) (word_param word) fp)
         (\<lambda>dict. Ok (word, dict))))))
       (ficlDictionaryLookup dict name)"

definition ficlDictionarySetFTHConstant ::
    "ficlDictionary \<Rightarrow> string \<Rightarrow> cell \<Rightarrow> (int, addr \<times> ficlDictionary) outcome option" where
  "ficlDictionarySetFTHConstant dict name obj =
     ficlDictionarySetFTHConstantInstruction dict name ficlInstructionConstantParen obj"

definition ficlDictionaryAppendPointerConstant ::
    "ficlDictionary \<Rightarrow> string \<Rightarrow> addr \<Rightarrow> (int, addr \<times> ficlDictionary) outcome" where
  "ficlDictionaryAppendPointerConstant dict name p =
     bind_outcome (ficlDictionaryAppendWord dict name ficlInstructionConstantParen FICL_WORD_DEFAULT)
       (\<lambda>(word, dict).
          if word \<noteq> NULL
          then bind_outcome (d_store_cell dict (d_here dict) p) (\<lambda>dict.
                 Ok (word, dict\<lparr>d_here := d_here dict + 8\<rparr>))
          else Ok (word, dict))"

definition ficlDictionaryAppendFTHConstant ::
    "ficlDictionary \<Rightarrow> string \<Rightarrow> cell \<Rightarrow> (int, addr \<times> ficlDictionary) outcome" where
  "ficlDictionaryAppendFTHConstant dict name fp =
     bind_outcome (ficlDictionaryAppendWord dict name ficlInstructionConstantParen FICL_WORD_DEFAULT)
       (\<lambda>(word, dict).
          if word \<noteq> NULL
          then bind_outcome (d_store_cell dict (d_here dict) fp) (\<lambda>dict.
                 Ok (word, dict\<lparr>d_here := d_here dict + 8\<rparr>))
          else Ok (word, dict))"

subsection \<open>Space, search order and flags\<close>

definition ficlDictionaryCellsUsed :: "ficlDictionary \<Rightarrow> int" where
  "ficlDictionaryCellsUsed dict = c_int (of_int (c_div (sint (d_here dict - d_base dict)) 8))"

text \<open>The subtraction is on \<open>int\<close>.\<close>

definition ficlDictionaryCellsAvailable :: "ficlDictionary \<Rightarrow> int" where
  "ficlDictionaryCellsAvailable dict = c_int (d_size dict) - ficlDictionaryCellsUsed dict"

definition ficlDictionaryWhere :: "ficlDictionary \<Rightarrow> addr" where
  "ficlDictionaryWhere dict = d_here dict"

definition ficlDictionaryResetSearchOrder :: "ficlDictionary \<Rightarrow> ficlDictionary" where
  "ficlDictionaryResetSearchOrder dict =
     dict\<lparr>d_compilationWordlist := d_forthWordlist dict, d_wordlistCount := 1,
          d_wordlists := (d_wordlists dict)[0 := d_forthWordlist dict]\<rparr>"

text \<open>A new wordlist of \<open>bucketCount\<close> buckets at \<open>here\<close>: 32 bytes of structure hold one bucket.\<close>

definition ficlDictionaryCreateWordlist ::
    "ficlDictionary \<Rightarrow> nat \<Rightarrow> (int, addr \<times> ficlDictionary) outcome" where
  "ficlDictionaryCreateWordlist dict bucketCount =
     (let dict = ficlDictionaryAlign dict; hash = d_here dict;
          dict = ficlDictionaryAllot dict (32 + (int bucketCount - 1) * 8);
          h = d_heap dict
      in if allocated dict hash (24 + 8 * bucketCount)
         then bind_outcome (ficlHashReset (h\<lparr>hashes := (hashes h)(hash \<mapsto>
                \<lparr>h_link = NULL, h_name = NULL, h_size = bucketCount,
                 h_table = replicate bucketCount NULL\<rparr>)\<rparr>) hash)
                (\<lambda>h. Ok (hash, dict\<lparr>d_heap := h\<rparr>))
         else Fault)"

definition ficlDictionaryEmpty :: "ficlDictionary \<Rightarrow> nat \<Rightarrow> (int, ficlDictionary) outcome" where
  "ficlDictionaryEmpty dict bucketCount =
     bind_outcome (ficlDictionaryCreateWordlist (dict\<lparr>d_here := d_base dict\<rparr>) bucketCount)
       (\<lambda>(hash, dict). Ok (ficlDictionaryResetSearchOrder
          (dict\<lparr>d_forthWordlist := hash, d_smudge := NULL\<rparr>)))"

definition ficlDictionarySetFlags :: "ficlDictionary \<Rightarrow> cell \<Rightarrow> (int, ficlDictionary) outcome" where
  "ficlDictionarySetFlags dict bits =
     bind_outcome (d_word dict (d_smudge dict)) (\<lambda>w.
       Ok (set_word (d_smudge dict) (w\<lparr>w_flags := w_flags w OR bits\<rparr>) dict))"

definition ficlDictionaryClearFlags :: "ficlDictionary \<Rightarrow> cell \<Rightarrow> (int, ficlDictionary) outcome" where
  "ficlDictionaryClearFlags dict clear =
     bind_outcome (d_word dict (d_smudge dict)) (\<lambda>w.
       Ok (set_word (d_smudge dict) (w\<lparr>w_flags := w_flags w AND NOT clear\<rparr>) dict))"

definition ficlDictionarySetImmediate :: "ficlDictionary \<Rightarrow> (int, ficlDictionary) outcome" where
  "ficlDictionarySetImmediate dict =
     bind_outcome (d_word dict (d_smudge dict)) (\<lambda>w.
       Ok (set_word (d_smudge dict) (w\<lparr>w_flags := w_flags w OR FICL_WORD_IMMEDIATE\<rparr>) dict))"

subsection \<open>Address range\<close>

definition ficlDictionaryIncludes :: "ficlDictionary \<Rightarrow> addr \<Rightarrow> bool" where
  "ficlDictionaryIncludes dict p =
     (p \<noteq> NULL \<and> d_base dict \<le> p \<and> p < d_base dict + 8 * d_size dict)"

subsection \<open>Frame lemmas\<close>

text \<open>A wordlist only depends on the links, hash codes and names of its words.\<close>

definition same_words :: "ficlHeap \<Rightarrow> ficlHeap \<Rightarrow> addr set \<Rightarrow> bool" where
  "same_words h h' W = (hashes h' = hashes h \<and> (\<forall>p\<in>W.
     map_option (\<lambda>w. (w_link w, w_hash w)) (words h' p) = map_option (\<lambda>w. (w_link w, w_hash w)) (words h p) \<and>
     word_text h' p = word_text h p))"

lemma same_words_refl [simp]: "same_words h h W"
  by (simp add: same_words_def)

lemma same_words_trans: "same_words h h' W \<Longrightarrow> same_words h' h'' W \<Longrightarrow> same_words h h'' W"
  by (simp add: same_words_def)

lemma same_words_word_ok: "same_words h h' W \<Longrightarrow> p \<in> W \<Longrightarrow> word_ok h' p \<longleftrightarrow> word_ok h p"
  by (cases "words h p"; cases "words h' p")
     (auto simp: same_words_def word_ok_def split: option.splits)

lemma same_words_chain: "same_words h h' W \<Longrightarrow> set ws \<subseteq> W \<Longrightarrow> chain h' p ws \<longleftrightarrow> chain h p ws"
proof (induction ws arbitrary: p)
  case (Cons q ws)
  show ?case
  proof (cases "p = q")
    case True
    then have "map_option (\<lambda>w. (w_link w, w_hash w)) (words h' p) =
        map_option (\<lambda>w. (w_link w, w_hash w)) (words h p)"
      using Cons.prems by (simp add: same_words_def)
    then show ?thesis
      using Cons True by (cases "words h p"; cases "words h' p") auto
  qed simp
qed simp

lemma same_words_wordlist:
  assumes s: "same_words h h' (set (concat bs))" and wl: "wordlist h a bs"
  shows "wordlist h' a bs" and "names h' bs = names h bs"
proof -
  have sub: "set (bs ! i) \<subseteq> set (concat bs)" if "i < length bs" for i
    using nth_mem [OF that] by auto
  have hs: "w_hash (the (words h' p)) = w_hash (the (words h p))" if "p \<in> set (concat bs)" "word_ok h p" for p
  proof -
    have "map_option (\<lambda>w. (w_link w, w_hash w)) (words h' p) =
        map_option (\<lambda>w. (w_link w, w_hash w)) (words h p)"
      using s that(1) unfolding same_words_def by blast
    with that(2) show ?thesis by (auto simp: word_ok_def split: option.splits)
  qed
  have b: "bucket_ok h' hash i (bs ! i)" if "bucket_ok h hash i (bs ! i)" "i < length bs" for hash i
    using that sub [of i] hs same_words_chain [OF s sub] same_words_word_ok [OF s]
    by (auto simp: bucket_ok_def subset_iff simp del: set_concat)
  have "hashes h' = hashes h" using s by (simp add: same_words_def)
  then show "wordlist h' a bs"
    using wl b by (auto simp: wordlist_def split: option.splits)
  have "found h' k ws = found h k ws" if "set ws \<subseteq> set (concat bs)" for k ws
    using that s by (induction ws) (auto simp: found_def same_words_def)
  then show "names h' bs = names h bs" by (auto simp: names_def)
qed

text \<open>Storing bytes changes only the range stored to.\<close>

lemma store_bytes_outside:
  assumes "store_bytes m p bs = Some m'" and "length bs \<le> 2 ^ 64" and "\<forall>i<length bs. q \<noteq> p + of_nat i"
  shows "m' q = m q"
  using assms cell_bytes_in [OF assms(2), of q p] by (auto simp: store_bytes_eq split: if_splits)

lemma store_bytes_dom: "store_bytes m p bs = Some m' \<Longrightarrow> dom m' = dom m"
proof (induction bs arbitrary: m p)
  case (Cons b bs)
  then have "dom m' = dom (m(p \<mapsto> b))" by (auto split: if_splits)
  moreover have "p \<in> dom m" using Cons.prems by (auto split: if_splits)
  ultimately show ?case by auto
qed simp

lemma load_bytes_cong:
  "(\<And>i. i < n \<Longrightarrow> m' (p + of_nat i) = m (p + of_nat i)) \<Longrightarrow> load_bytes m' p n = load_bytes m p n"
  by (simp add: load_bytes_eq cong: map_cong)

lemma load_store_bytes:
  assumes "store_bytes m p bs = Some m'" and "length bs \<le> 2 ^ 64" and "n \<le> length bs"
  shows "load_bytes m' p n = Some (take n bs)"
proof -
  have m': "m' = (\<lambda>q. if unat (q - p) < length bs then Some (bs ! unat (q - p)) else m q)"
    using assms(1,2) by (simp add: store_bytes_eq split: if_splits)
  have "unat (of_nat i :: addr) = i" if "i < n" for i
    using that assms(2,3) by (simp add: unsigned_of_nat take_bit_nat_eq_self)
  then have "load_bytes m' p n = Some (map (\<lambda>i. bs ! i) [0..<n])"
    using assms(3) by (simp add: load_bytes_eq m' cong: map_cong)
  also have "map (\<lambda>i. bs ! i) [0..<n] = take n bs"
    using assms(3) by (auto intro: nth_equalityI)
  finally show ?thesis .
qed

lemma allocated_iff: "allocated d p n \<longleftrightarrow> (\<forall>i<n. p + of_nat i \<in> dom (d_bytes d))"
  by (auto simp: allocated_def list_all_iff)

lemma store_bytes_some:
  "length bs \<le> 2 ^ 64 \<Longrightarrow> \<forall>i<length bs. p + of_nat i \<in> dom m \<Longrightarrow> \<exists>m'. store_bytes m p bs = Some m'"
  by (auto simp: store_bytes_eq dom_def)

subsection \<open>Defining words\<close>

text \<open>
  The invariant of a dictionary whose compilation wordlist has the buckets \<open>bs\<close>: the linked
  words and their names, terminator included, lie below \<open>here\<close>.
\<close>

definition below :: "ficlDictionary \<Rightarrow> addr \<Rightarrow> nat \<Rightarrow> bool" where
  "below d p n = (unat p + n \<le> unat (d_here d))"

definition dict_ok :: "ficlDictionary \<Rightarrow> addr list list \<Rightarrow> bool" where
  "dict_ok d bs = (wordlist (d_heap d) (d_compilationWordlist d) bs \<and>
     (\<forall>p\<in>set (concat bs). below d p header_size \<and>
        (\<forall>w. words (d_heap d) p = Some w \<longrightarrow> below d (w_name w) (unat (w_length w) + 1))))"

text \<open>Enough room for \<open>n\<close> bytes at \<open>here\<close>, without wrapping around the address space.\<close>

definition room :: "ficlDictionary \<Rightarrow> nat \<Rightarrow> bool" where
  "room d n = (unat (d_here d) + n < 2 ^ 64 \<and> allocated d (d_here d) n)"

lemma unat_cell_less: "unat (w :: cell) < 2 ^ 64"
  using unsigned_less [of w] by simp

lemma unat_here_add:
  "room d n \<Longrightarrow> i \<le> n \<Longrightarrow> unat (d_here d + of_nat i) = unat (d_here d) + i"
  by (subst unat_word_ariths(1)) (simp add: room_def unsigned_of_nat take_bit_nat_eq_self)

lemma below_disjoint:
  assumes "below d p n" and "i < n" and "room d k" and "j < k"
  shows "p + of_nat i \<noteq> d_here d + of_nat j"
proof
  assume e: "p + of_nat i = d_here d + of_nat j"
  have "unat (p + of_nat i) = unat p + i"
    using assms(1,2) unat_cell_less [of "d_here d"]
    by (subst unat_word_ariths(1)) (simp add: below_def unsigned_of_nat take_bit_nat_eq_self)
  moreover have "unat (d_here d + of_nat j) = unat (d_here d) + j"
    using unat_here_add [OF assms(3), of j] assms(4) by simp
  ultimately show False using e assms(1,2) by (simp add: below_def)
qed

lemma round_up_8: "(n + 7) div 8 * 8 = (if n mod 8 = 0 then n else n - n mod 8 + 8)" for n :: nat
proof -
  define q r where "q = n div 8" and "r = n mod 8"
  have n: "n = 8 * q + r" and r: "r < 8" by (simp_all add: q_def r_def)
  have "(n + 7) div 8 = q + (r + 7) div 8" by (simp add: n)
  moreover have "(r + 7) div 8 = (if r = 0 then 0 else 1)"
    using r by (auto intro: div_nat_eqI)
  ultimately show ?thesis unfolding r_def [symmetric] by (simp add: n)
qed

lemma round_up_bounds: "n \<le> (n + 7) div 8 * 8" "(n + 7) div 8 * 8 < n + 8" for n :: nat
  using div_mult_mod_eq [of "n + 7" 8] mod_less_divisor [of 8 "n + 7"] by linarith+

lemma unat_align:
  assumes "unat p + 8 \<le> 2 ^ 64"
  shows "unat (ficlAlignPointer p) = (unat p + 7) div 8 * 8"
proof (cases "unat p mod 8 = 0")
  case True
  then have "(unat p + 7) div 8 * 8 = unat p" using round_up_8 [of "unat p"] by simp
  with True show ?thesis by (simp add: ficlAlignPointer_alt)
next
  case False
  let ?n = "unat p"
  have gen: "n - m + 8 < k" if "n + 8 \<le> k" "0 < m" "m \<le> n" for n m k :: nat
    using that by linarith
  have lt: "?n - ?n mod 8 + 8 < 2 ^ 64"
    by (rule gen [OF assms]) (use False in simp_all)
  have sub: "(of_nat (n - m + 8) :: addr) = of_nat n - of_nat m + 8" if "m \<le> n" for n m
    using that by (simp add: of_nat_diff)
  have pn: "of_nat ?n = p" by simp
  have "ficlAlignPointer p = of_nat ?n - of_nat (?n mod 8) + 8"
    unfolding pn ficlAlignPointer_alt using False by (simp only: if_False)
  then have "ficlAlignPointer p = of_nat (?n - ?n mod 8 + 8)"
    by (simp only: sub [OF mod_less_eq_dividend])
  then have "unat (ficlAlignPointer p) = take_bit 64 (?n - ?n mod 8 + 8)"
    by (simp only: unsigned_of_nat) simp
  also have "\<dots> = ?n - ?n mod 8 + 8" by (rule take_bit_nat_eq_self [OF lt])
  also have "\<dots> = (?n + 7) div 8 * 8" using round_up_8 [of ?n] False by simp
  finally show ?thesis .
qed

lemma align_bounds:
  assumes "unat p + 8 \<le> 2 ^ 64"
  shows "unat p \<le> unat (ficlAlignPointer p)" and "unat (ficlAlignPointer p) < unat p + 8"
  unfolding unat_align [OF assms] by (rule round_up_bounds)+

lemma set_bytes_simps [simp]:
  "d_bytes (set_bytes m d) = m" "d_here (set_bytes m d) = d_here d"
  "words (d_heap (set_bytes m d)) = words (d_heap d)"
  "hashes (d_heap (set_bytes m d)) = hashes (d_heap d)"
  "bytes (d_heap (set_bytes m d)) = m"
  "d_smudge (set_bytes m d) = d_smudge d" "d_false (set_bytes m d) = d_false d"
  "d_current_file (set_bytes m d) = d_current_file d"
  "d_current_line (set_bytes m d) = d_current_line d"
  "d_compilationWordlist (set_bytes m d) = d_compilationWordlist d"
  by (simp_all add: set_bytes_def d_bytes_def)

lemma set_word_simps [simp]:
  "d_bytes (set_word p w d) = d_bytes d" "d_here (set_word p w d) = d_here d"
  "words (d_heap (set_word p w d)) = (words (d_heap d))(p \<mapsto> w)"
  "hashes (d_heap (set_word p w d)) = hashes (d_heap d)"
  "bytes (d_heap (set_word p w d)) = bytes (d_heap d)"
  "d_smudge (set_word p w d) = d_smudge d"
  "d_compilationWordlist (set_word p w d) = d_compilationWordlist d"
  by (simp_all add: set_word_def d_bytes_def)

lemma d_bytes_here [simp]:
  "d_bytes (d\<lparr>d_here := a\<rparr>) = d_bytes d" "d_bytes (d\<lparr>d_smudge := a\<rparr>) = d_bytes d"
  by (simp_all add: d_bytes_def)

text \<open>The name of a new word is copied to \<open>here\<close> and terminated.\<close>

lemma store_name:
  assumes "room d (length s + 1)" and "length s \<le> FICL_NAME_LENGTH"
  obtains m where "store_bytes (d_bytes d) (d_here d) (map char_byte s @ [0]) = Some m"
    and "dom m = dom (d_bytes d)"
    and "load_bytes m (d_here d) (length s) = Some (map char_byte s)"
    and "store_bytes m (d_here d + of_nat (length s)) [0] = Some m"
    and "\<And>p n. below d p n \<Longrightarrow> load_bytes m p n = load_bytes (d_bytes d) p n"
proof -
  let ?bs = "map char_byte s @ [0]"
  have len: "length ?bs \<le> 2 ^ 64" using assms(2) by (simp add: FICL_NAME_LENGTH_def)
  have "\<forall>i<length ?bs. d_here d + of_nat i \<in> dom (d_bytes d)"
    using assms(1) by (simp add: room_def allocated_iff)
  then obtain m where m: "store_bytes (d_bytes d) (d_here d) ?bs = Some m"
    using store_bytes_some [OF len] by blast
  have all: "load_bytes m (d_here d) (length s + 1) = Some ?bs"
    using load_store_bytes [OF m len, of "length s + 1"] by simp
  have "load_bytes m (d_here d) (length s) = Some (map char_byte s)"
    using load_store_bytes [OF m len, of "length s"] by simp
  moreover have "m (d_here d + of_nat (length s)) = Some 0"
    using all by (auto simp: load_bytes_eq split: if_splits)
  then have "store_bytes m (d_here d + of_nat (length s)) [0] = Some m"
    by (simp add: fun_upd_idem)
  moreover have "load_bytes m p n = load_bytes (d_bytes d) p n" if b: "below d p n" for p n
    using below_disjoint [OF b _ assms(1)]
    by (intro load_bytes_cong store_bytes_outside [OF m len]) auto
  ultimately show ?thesis using that m store_bytes_dom [OF m] by blast
qed

text \<open>The dictionary after \<open>ficlDictionaryAppendWord\<close> has written the header.\<close>

definition with_header :: "ficlDictionary \<Rightarrow> (addr \<rightharpoonup> u8) \<Rightarrow> string \<Rightarrow> cell \<Rightarrow> cell \<Rightarrow> ficlDictionary" where
  "with_header d m s code flags =
     (let a = ficlAlignPointer (d_here d + of_nat (length s) + 1);
          d1 = (set_bytes m d)\<lparr>d_here := a\<rparr>
      in (set_word a (new_word d1 s (d_here d) code flags) (d1\<lparr>d_smudge := a\<rparr>))\<lparr>d_here := word_param a\<rparr>)"

definition new_word_addr :: "ficlDictionary \<Rightarrow> string \<Rightarrow> addr" where
  "new_word_addr d s = ficlAlignPointer (d_here d + of_nat (length s) + 1)"

lemma new_word_addr_bounds:
  assumes "room d (length s + 9 + header_size)"
  shows "unat (d_here d) + length s + 1 \<le> unat (new_word_addr d s)"
    and "unat (new_word_addr d s) < unat (d_here d) + length s + 9"
    and "unat (word_param (new_word_addr d s)) = unat (new_word_addr d s) + header_size"
proof -
  let ?p = "d_here d + of_nat (length s) + 1"
  have p: "unat ?p = unat (d_here d) + (length s + 1)"
    using unat_here_add [OF assms, of "length s + 1"] by (simp add: ac_simps)
  moreover have lt: "unat (d_here d) + (length s + 9 + header_size) < 2 ^ 64"
    using assms by (simp add: room_def)
  ultimately have "unat ?p + 8 \<le> 2 ^ 64" by linarith
  from align_bounds [OF this] p
  show b: "unat (d_here d) + length s + 1 \<le> unat (new_word_addr d s)"
    "unat (new_word_addr d s) < unat (d_here d) + length s + 9"
    by (simp_all add: new_word_addr_def)
  show "unat (word_param (new_word_addr d s)) = unat (new_word_addr d s) + header_size"
    unfolding word_param_def using b lt
    by (subst unat_word_ariths(1)) (simp add: header_size_def)
qed

lemma ficlDictionaryAppendWord_header:
  assumes "name_ok s" and "room d (length s + 9 + header_size)"
    and m: "store_bytes (d_bytes d) (d_here d) (map char_byte s @ [0]) = Some m"
    and dom: "dom m = dom (d_bytes d)"
    and z: "store_bytes m (d_here d + of_nat (length s)) [0] = Some m"
  shows "ficlDictionaryAppendWord d s code flags =
    (if flags AND FICL_WORD_SMUDGED = 0
     then bind_outcome (ficlDictionaryUnsmudge (with_header d m s code flags))
            (\<lambda>dict. Ok (new_word_addr d s, dict))
     else Ok (new_word_addr d s, with_header d m s code flags))"
proof -
  let ?a = "new_word_addr d s"
  let ?d1 = "(set_bytes m d)\<lparr>d_here := ?a\<rparr>"
  have len: "0 < length s" "\<not> length s > FICL_NAME_LENGTH" using assms(1) by (auto simp: name_ok_def)
  have str: "ficlDictionaryAppendString d s = Ok (d_here d, ?d1)"
    using len m by (simp add: ficlDictionaryAppendString_def ficlDictionaryAppendData_def d_store_bytes_def
        ficlDictionaryAlign_def new_word_addr_def Let_def)
  have zer: "d_store_bytes ?d1 (d_here d + of_nat (length s)) [0] = Ok ?d1"
    using z by (simp only: d_store_bytes_def d_bytes_here set_bytes_simps option.case)
      (simp add: set_bytes_def)
  have "allocated ?d1 ?a header_size"
    unfolding allocated_iff
  proof (intro allI impI)
    fix i assume i: "i < header_size"
    have eq: "?a + of_nat i = d_here d + of_nat (unat ?a - unat (d_here d) + i)"
    proof -
      have "unat (d_here d) \<le> unat ?a" using new_word_addr_bounds(1) [OF assms(2)] by simp
      then show ?thesis by (simp add: of_nat_diff)
    qed
    have "unat ?a - unat (d_here d) + i < length s + 9 + header_size"
      using new_word_addr_bounds(1,2) [OF assms(2)] i by linarith
    then have "d_here d + of_nat (unat ?a - unat (d_here d) + i) \<in> dom (d_bytes d)"
      using assms(2) unfolding room_def allocated_iff by blast
    then show "?a + of_nat i \<in> dom (d_bytes ?d1)"
      unfolding eq by (simp only: d_bytes_here set_bytes_simps dom)
  qed
  then show ?thesis
    using zer by (simp add: ficlDictionaryAppendWord_def str with_header_def Let_def
        new_word_addr_def [symmetric])
qed

lemma with_header_ok:
  assumes d: "dict_ok d bs" and s: "name_ok s" and r: "room d (length s + 9 + header_size)"
    and ld: "load_bytes m (d_here d) (length s) = Some (map char_byte s)"
    and fr: "\<And>p n. below d p n \<Longrightarrow> load_bytes m p n = load_bytes (d_bytes d) p n"
  shows "dict_ok (with_header d m s code flags) bs"
    and "names (d_heap (with_header d m s code flags)) bs = names (d_heap d) bs"
    and "word_text (d_heap (with_header d m s code flags)) (new_word_addr d s) = Some s"
    and "word_ok (d_heap (with_header d m s code flags)) (new_word_addr d s)"
    and "new_word_addr d s \<notin> set (concat bs)"
proof -
  let ?a = "new_word_addr d s" and ?d = "with_header d m s code flags"
  note b = new_word_addr_bounds [OF r]
  have fresh: "p \<noteq> ?a" if "p \<in> set (concat bs)" for p
  proof -
    have "unat p + header_size \<le> unat (d_here d)"
      using d that unfolding dict_ok_def below_def by blast
    then show ?thesis using b(1) by (auto simp: header_size_def)
  qed
  then show "?a \<notin> set (concat bs)" by blast
  have wd: "words (d_heap ?d) = (words (d_heap d))(?a \<mapsto> new_word ((set_bytes m d)\<lparr>d_here := ?a\<rparr>) s (d_here d) code flags)"
    and oth: "hashes (d_heap ?d) = hashes (d_heap d)" "bytes (d_heap ?d) = m"
      "d_compilationWordlist ?d = d_compilationWordlist d" "d_here ?d = word_param ?a"
    by (simp_all add: with_header_def Let_def new_word_addr_def)
  have "same_words (d_heap d) (d_heap ?d) (set (concat bs))"
    unfolding same_words_def
  proof (intro conjI ballI oth(1))
    fix p assume p: "p \<in> set (concat bs)"
    then show "map_option (\<lambda>w. (w_link w, w_hash w)) (words (d_heap ?d) p) =
        map_option (\<lambda>w. (w_link w, w_hash w)) (words (d_heap d) p)"
      using fresh [OF p] by (simp add: wd)
    have "below d (w_name w) (unat (w_length w))" if "words (d_heap d) p = Some w" for w
      using d p that unfolding dict_ok_def below_def by fastforce
    then show "word_text (d_heap ?d) p = word_text (d_heap d) p"
      using fresh [OF p] fr by (auto simp: word_text_def wd oth d_bytes_def split: option.splits)
  qed
  from same_words_wordlist [OF this, of "d_compilationWordlist d"] d
  have wl: "wordlist (d_heap ?d) (d_compilationWordlist ?d) bs"
    and nm: "names (d_heap ?d) bs = names (d_heap d) bs"
    by (simp_all add: dict_ok_def oth)
  have up: "below ?d p n" if "below d p n" for p n
    using that b by (simp add: below_def oth)
  show "names (d_heap ?d) bs = names (d_heap d) bs" by (rule nm)
  show "dict_ok ?d bs"
    unfolding dict_ok_def
  proof (intro conjI ballI allI impI wl)
    fix p assume p: "p \<in> set (concat bs)"
    show "below ?d p header_size" using d p up unfolding dict_ok_def by blast
    fix w assume "words (d_heap ?d) p = Some w"
    then have "words (d_heap d) p = Some w" using fresh [OF p] by (simp add: wd)
    then show "below ?d (w_name w) (unat (w_length w) + 1)"
      using d p up unfolding dict_ok_def by blast
  qed
  have "unat (of_nat (length s) :: cell) = length s"
    using s by (simp add: name_ok_def FICL_NAME_LENGTH_def unsigned_of_nat take_bit_nat_eq_self)
  then show wt: "word_text (d_heap ?d) ?a = Some s"
    using ld by (simp add: word_text_def wd oth new_word_def comp_def)
  have "?a \<noteq> NULL" using b(1) by auto
  then show "word_ok (d_heap ?d) ?a"
    using s wt by (simp add: word_ok_def wd new_word_def)
qed

lemma ficlDictionaryUnsmudge_links:
  assumes d: "dict_ok d bs" and s: "word_text (d_heap d) (d_smudge d) = Some s"
    and ok: "word_ok (d_heap d) (d_smudge d)" and fresh: "d_smudge d \<notin> set (concat bs)"
    and w: "words (d_heap d) (d_smudge d) = Some w"
    and lo: "below d (d_smudge d) header_size" "below d (w_name w) (unat (w_length w) + 1)"
  shows "\<exists>d' bs'. ficlDictionaryUnsmudge d = Ok d' \<and> dict_ok d' bs' \<and>
    set (concat bs') = insert (d_smudge d) (set (concat bs)) \<and>
    names (d_heap d') bs' = (names (d_heap d) bs)(fold_name s \<mapsto> d_smudge d) \<and>
    d_here d' = d_here d \<and> d_bytes d' = d_bytes d"
proof -
  let ?p = "d_smudge d"
  have wl: "wordlist (d_heap d) (d_compilationWordlist d) bs" using d by (simp add: dict_ok_def)
  obtain h bs' where h: "ficlHashInsertWord (d_heap d) (d_compilationWordlist d) ?p = Ok h"
      "wordlist h (d_compilationWordlist d) bs'" "set (concat bs') = insert ?p (set (concat bs))"
      "names h bs' = (names (d_heap d) bs)(fold_name (the (word_text (d_heap d) ?p)) \<mapsto> ?p)"
      "bytes h = bytes (d_heap d)"
    using ficlHashInsertWord_names [OF wl ok fresh] by metis
  obtain l where hw: "words h = (words (d_heap d))(?p \<mapsto> w\<lparr>w_link := l\<rparr>)"
    using h(1) w by (auto simp: ficlHashInsertWord_def Let_def split: option.splits if_splits)
  define w' where "w' = w\<lparr>w_link := l, w_flags := w_flags w AND NOT FICL_WORD_SMUDGED\<rparr>"
  define d' where "d' = set_word ?p w' (d\<lparr>d_heap := h\<rparr>)"
  have "length s = unat (w_length w)" using length_word_text [OF s w] .
  moreover have "s \<noteq> []" using ok s w by (auto simp: word_ok_def name_ok_def)
  ultimately have "0 < w_length w" by (simp add: word_less_nat_alt) (metis length_greater_0_conv unsigned_0)
  then have un: "ficlDictionaryUnsmudge d = Ok d'"
    using w h(1) hw by (simp add: ficlDictionaryUnsmudge_def d_word_def d'_def w'_def)
  have dw: "words (d_heap d') = (words (d_heap d))(?p \<mapsto> w')"
    by (simp add: d'_def hw)
  have "same_words h (d_heap d') (set (concat bs'))"
    by (auto simp: same_words_def d'_def w'_def hw word_text_def split: option.splits)
  from same_words_wordlist [OF this h(2)]
  have wl': "wordlist (d_heap d') (d_compilationWordlist d') bs'" and nm: "names (d_heap d') bs' = names h bs'"
    by (simp_all add: d'_def)
  have here: "d_here d' = d_here d" by (simp add: d'_def)
  have bel: "below d' p n \<longleftrightarrow> below d p n" for p n by (simp add: below_def here)
  have "dict_ok d' bs'"
    unfolding dict_ok_def h(3)
  proof (intro conjI ballI allI impI wl')
    fix p assume p: "p \<in> insert ?p (set (concat bs))"
    then show "below d' p header_size" using d lo(1) unfolding dict_ok_def bel by blast
    fix v assume v: "words (d_heap d') p = Some v"
    show "below d' (w_name v) (unat (w_length v) + 1)"
    proof (cases "p = ?p")
      case True
      then show ?thesis using lo(2) v by (auto simp: bel dw w'_def)
    next
      case False
      then show ?thesis using d p v unfolding dict_ok_def bel dw by auto
    qed
  qed
  moreover have "d_bytes d' = d_bytes d" using h(5) by (simp add: d'_def d_bytes_def)
  ultimately show ?thesis
    using un h(3,4) nm here s by (intro exI [of _ d'] exI [of _ bs']) simp
qed

text \<open>
  Defining a word: the new word is found under its name, in any case of its letters, and
  every other name finds what it found before.
\<close>

lemma ficlDictionaryAppendWord_names:
  assumes d: "dict_ok d bs" and s: "name_ok s" and r: "room d (length s + 9 + header_size)"
    and f: "flags AND FICL_WORD_SMUDGED = 0"
  shows "\<exists>d' bs'. ficlDictionaryAppendWord d s code flags = Ok (new_word_addr d s, d') \<and> dict_ok d' bs' \<and>
    names (d_heap d') bs' = (names (d_heap d) bs)(fold_name s \<mapsto> new_word_addr d s) \<and>
    d_here d' = word_param (new_word_addr d s)"
proof -
  have "room d (length s + 1)" "length s \<le> FICL_NAME_LENGTH"
    using r s by (auto simp: room_def allocated_iff name_ok_def)
  from store_name [OF this] obtain m where
    m: "store_bytes (d_bytes d) (d_here d) (map char_byte s @ [0]) = Some m" "dom m = dom (d_bytes d)"
      "load_bytes m (d_here d) (length s) = Some (map char_byte s)"
      "store_bytes m (d_here d + of_nat (length s)) [0] = Some m"
      "\<And>p n. below d p n \<Longrightarrow> load_bytes m p n = load_bytes (d_bytes d) p n"
    by blast
  let ?a = "new_word_addr d s" and ?d = "with_header d m s code flags"
  have wh: "dict_ok ?d bs" "names (d_heap ?d) bs = names (d_heap d) bs"
      "word_text (d_heap ?d) ?a = Some s" "word_ok (d_heap ?d) ?a" "?a \<notin> set (concat bs)"
    using with_header_ok [OF d s r m(3) m(5)] by blast+
  note b = new_word_addr_bounds [OF r]
  let ?w = "new_word ((set_bytes m d)\<lparr>d_here := ?a\<rparr>) s (d_here d) code flags"
  have sm: "d_smudge ?d = ?a" "words (d_heap ?d) ?a = Some ?w" "d_here ?d = word_param ?a"
    by (simp_all add: with_header_def Let_def new_word_addr_def)
  have ul: "unat (of_nat (length s) :: cell) = length s"
    using s by (simp add: name_ok_def FICL_NAME_LENGTH_def unsigned_of_nat take_bit_nat_eq_self)
  have "below ?d ?a header_size" "below ?d (w_name ?w) (unat (w_length ?w) + 1)"
    using b by (simp_all add: below_def sm new_word_def ul)
  then obtain d' bs' where "ficlDictionaryUnsmudge ?d = Ok d'" "dict_ok d' bs'"
      "names (d_heap d') bs' = (names (d_heap ?d) bs)(fold_name s \<mapsto> ?a)" "d_here d' = d_here ?d"
    using ficlDictionaryUnsmudge_links [of ?d bs s ?w] wh sm by auto
  then show ?thesis
    using ficlDictionaryAppendWord_header [OF s r m(1,2,4)] f wh(2) sm(3)
    by (intro exI [of _ d'] exI [of _ bs']) simp
qed

subsection \<open>Lookup through the search order\<close>

lemma dict_lookup_loop_search:
  "n \<le> length (d_wordlists d) \<Longrightarrow>
    dict_lookup_loop d name (ficlHashCode name) n =
      wl.search (d_heap d) (rev (take n (d_wordlists d))) name"
proof (induction n)
  case (Suc n)
  then have "rev (take (Suc n) (d_wordlists d)) = d_wordlists d ! n # rev (take n (d_wordlists d))"
    by (simp add: take_Suc_conv_app_nth)
  with Suc show ?case
    by (cases "ficlHashLookup (d_heap d) (d_wordlists d ! n) name (ficlHashCode name)")
       (auto split: outcome.split)
qed simp

lemma ficlDictionaryLookup_order:
  assumes "0 \<le> d_wordlistCount d" and "d_wordlistCount d \<le> int (length (d_wordlists d))"
    and "list_all2 (\<lambda>a m. \<exists>W. hash_view (d_heap d) a W m)
           (rev (take (nat (d_wordlistCount d)) (d_wordlists d))) ms"
    and "name_ok name"
  shows "ficlDictionaryLookup d name =
    Some (Ok (opt_addr (foldr (\<lambda>m acc. acc ++ m) ms Map.empty (fold_name name))))"
proof -
  have "nat (d_wordlistCount d) \<le> length (d_wordlists d)" using assms(2) by linarith
  then have "ficlDictionaryLookup d name =
      wl.search (d_heap d) (rev (take (nat (d_wordlistCount d)) (d_wordlists d))) name"
    unfolding ficlDictionaryLookup_def by (rule dict_lookup_loop_search)
  then show ?thesis using wl.search_ok [OF assms(3,4)] by simp
qed

text \<open>With only the compilation wordlist in the search order.\<close>

lemma ficlDictionaryLookup_single:
  assumes "dict_ok d bs" and "d_wordlistCount d = 1"
    and "d_wordlists d \<noteq> []" and "d_wordlists d ! 0 = d_compilationWordlist d" and "name_ok name"
  shows "ficlDictionaryLookup d name = Some (Ok (opt_addr (names (d_heap d) bs (fold_name name))))"
proof -
  have t: "rev (take (nat (d_wordlistCount d)) (d_wordlists d)) = [d_compilationWordlist d]"
    using assms(2-4) by (cases "d_wordlists d") auto
  have "\<exists>W. hash_view (d_heap d) (d_compilationWordlist d) W (names (d_heap d) bs)"
    using assms(1) by (auto simp: dict_ok_def hash_view_def)
  then have v: "list_all2 (\<lambda>a m. \<exists>W. hash_view (d_heap d) a W m)
      (rev (take (nat (d_wordlistCount d)) (d_wordlists d))) [names (d_heap d) bs]"
    by (simp add: t)
  have "1 \<le> length (d_wordlists d)" using assms(3) by (cases "d_wordlists d") auto
  then show ?thesis
    using ficlDictionaryLookup_order [OF _ _ v assms(5)] assms(2) by simp
qed

subsection \<open>Appending cells\<close>

text \<open>The cells \<open>cs\<close> are stored from address \<open>p\<close> on.\<close>

definition cells_at :: "(addr \<rightharpoonup> u8) \<Rightarrow> addr \<Rightarrow> cell list \<Rightarrow> bool" where
  "cells_at m p cs = (\<forall>i<length cs. load_cell m (p + of_nat (8 * i)) = Some (cs ! i))"

fun append_cells :: "ficlDictionary \<Rightarrow> cell list \<Rightarrow> (int, ficlDictionary) outcome" where
  "append_cells d [] = Ok d"
| "append_cells d (c # cs) = bind_outcome (ficlDictionaryAppendCell d c) (\<lambda>d. append_cells d cs)"

lemma load_cell_cong:
  "(\<And>i. i < 8 \<Longrightarrow> m' (p + of_nat i) = m (p + of_nat i)) \<Longrightarrow> load_cell m' p = load_cell m p"
  unfolding load_cell_def by (subst load_bytes_cong) auto

lemma ficlDictionaryAppendCell_room:
  assumes "room d (8 + n)"
  shows "\<exists>m. ficlDictionaryAppendCell d c = Ok ((set_bytes m d)\<lparr>d_here := d_here d + 8\<rparr>) \<and>
    dom m = dom (d_bytes d) \<and> load_cell m (d_here d) = Some c \<and>
    (\<forall>p. below d p 8 \<longrightarrow> load_cell m p = load_cell (d_bytes d) p) \<and>
    room ((set_bytes m d)\<lparr>d_here := d_here d + 8\<rparr>) n"
proof -
  let ?bs = "map (byte_of c) [0..<8]"
  have "\<forall>i<length ?bs. d_here d + of_nat i \<in> dom (d_bytes d)"
    using assms by (simp add: room_def allocated_iff)
  then obtain m where m: "store_bytes (d_bytes d) (d_here d) ?bs = Some m"
    using store_bytes_some [of ?bs "d_here d" "d_bytes d"] by fastforce
  then have sc: "store_cell (d_bytes d) (d_here d) c = Some m" by (simp only: store_cell_def)
  have r8: "room d 8" using assms by (auto simp: room_def allocated_iff)
  have "load_cell m p = load_cell (d_bytes d) p" if b: "below d p 8" for p
    using below_disjoint [OF b _ r8] by (intro load_cell_cong store_bytes_outside [OF m]) auto
  moreover have "room ((set_bytes m d)\<lparr>d_here := d_here d + 8\<rparr>) n"
  proof -
    have "unat (d_here d + 8) = unat (d_here d) + 8" using unat_here_add [OF r8, of 8] by simp
    moreover have "d_here d + 8 + of_nat i \<in> dom (d_bytes d)" if "i < n" for i
    proof -
      have "d_here d + of_nat (8 + i) \<in> dom (d_bytes d)"
        using assms that unfolding room_def allocated_iff by (meson nat_add_left_cancel_less)
      then show ?thesis by (simp add: add.assoc)
    qed
    ultimately show ?thesis
      using assms store_bytes_dom [OF m] by (simp add: room_def allocated_iff)
  qed
  ultimately show ?thesis
    using sc load_store_cell [OF sc] store_bytes_dom [OF m]
    by (intro exI [of _ m]) (simp add: ficlDictionaryAppendCell_def d_store_cell_def)
qed

text \<open>
  Compiling a sequence of cells lays it out contiguously from \<open>here\<close> and leaves the cells
  compiled before unchanged.
\<close>

lemma append_cells_layout:
  assumes "room d (8 * length cs)"
  shows "\<exists>d'. append_cells d cs = Ok d' \<and> d_here d' = d_here d + of_nat (8 * length cs) \<and>
    cells_at (d_bytes d') (d_here d) cs \<and>
    (\<forall>p. below d p 8 \<longrightarrow> load_cell (d_bytes d') p = load_cell (d_bytes d) p)"
  using assms
proof (induction cs arbitrary: d)
  case (Cons c cs)
  then have "room d (8 + 8 * length cs)" by simp
  then obtain m where m: "ficlDictionaryAppendCell d c = Ok ((set_bytes m d)\<lparr>d_here := d_here d + 8\<rparr>)"
      "load_cell m (d_here d) = Some c" "\<forall>p. below d p 8 \<longrightarrow> load_cell m p = load_cell (d_bytes d) p"
      "room ((set_bytes m d)\<lparr>d_here := d_here d + 8\<rparr>) (8 * length cs)"
    using ficlDictionaryAppendCell_room by blast
  let ?d = "(set_bytes m d)\<lparr>d_here := d_here d + 8\<rparr>"
  have u: "unat (d_here d + 8) = unat (d_here d) + 8"
    using unat_here_add [OF Cons.prems, of 8] by simp
  obtain d' where d': "append_cells ?d cs = Ok d'" "d_here d' = d_here ?d + of_nat (8 * length cs)"
      "cells_at (d_bytes d') (d_here ?d) cs"
      "\<forall>p. below ?d p 8 \<longrightarrow> load_cell (d_bytes d') p = load_cell (d_bytes ?d) p"
    using Cons.IH [OF m(4)] by blast
  have "below ?d (d_here d) 8" by (simp add: below_def u)
  then have "load_cell (d_bytes d') (d_here d) = Some c" using d'(4) m(2) by simp
  moreover have "load_cell (d_bytes d') (d_here d + of_nat (8 * Suc i)) = Some (cs ! i)" if "i < length cs" for i
    using d'(3) that by (simp add: cells_at_def add.assoc)
  ultimately have "cells_at (d_bytes d') (d_here d) (c # cs)"
    unfolding cells_at_def by (auto simp: nth_Cons split: nat.split)
  moreover have "below ?d p 8" if "below d p 8" for p using that by (simp add: below_def u)
  ultimately show ?case using m(1,3) d' by auto
qed (simp add: cells_at_def)

lemma append_cells_dom: "append_cells d cs = Ok d' \<Longrightarrow> dom (d_bytes d') = dom (d_bytes d)"
proof (induction cs arbitrary: d)
  case (Cons c cs)
  then obtain d1 where d1: "ficlDictionaryAppendCell d c = Ok d1" "append_cells d1 cs = Ok d'"
    by (auto simp: outcome_simps)
  have "dom (d_bytes d1) = dom (d_bytes d)"
    using d1(1) store_cell_dom
    by (fastforce simp: ficlDictionaryAppendCell_def d_store_cell_def outcome_simps split: option.splits)
  then show ?case using Cons.IH [OF d1(2)] by simp
qed simp

text \<open>An aborted definition keeps its space: \<open>here\<close> is not moved back.\<close>

lemma ficlDictionaryAbortDefinition_here:
  "ficlDictionaryAbortDefinition d = Ok d' \<Longrightarrow> d_here d' = d_here d"
  by (auto simp: ficlDictionaryAbortDefinition_def d_store_cell_def outcome_simps split: if_splits option.splits)

end
