(* ===== verification/Ficl_Vm.thy ===== *)
theory Ficl_Vm
  imports Ficl_Dictionary
begin

section \<open>The state of the virtual machine\<close>

text \<open>
  The structure \<open>ficlVm\<close>, its reset and error operations from \<open>ficl/vm.c\<close>, the frames of the
  garbage collector that the loop instructions use (\<open>src/object.c\<close>), and the access steps
  from which the instructions of the inner loop are composed.

  While the inner loop runs, \<open>ip\<close>, \<open>dataTop\<close>, \<open>returnTop\<close> and \<open>frame\<close> are local variables
  that are spilled to the structure before any call that needs them and when an exception
  leaves the loop. In the model they are the fields \<open>vm_ip\<close>, \<open>st_top\<close> and \<open>st_frame\<close>.
  The input buffer is the list of its characters; \<open>tib.end\<close> is its length. The two scratch areas
  are functions from the index to the byte, their size is checked by the operations on them.
  The dictionary, the dictionary of local variables, their count and the place of that count in the
  definition belong to the one \<open>ficlSystem\<close> that the machine is attached to
  (\<open>vm->callback.system\<close>); they are the fields \<open>vm_dict\<close>, \<open>vm_locals\<close>, \<open>vm_localsCount\<close> and
  \<open>vm_localsFixup\<close>.
\<close>

record ficlTIB =
  tib_text :: string
  tib_index :: int

record ficlVm =
  vm_dict :: ficlDictionary
  vm_restart :: bool
  vm_ip :: addr
  vm_runningWord :: addr
  vm_state :: cell
  vm_base :: cell
  vm_dataStack :: ficlStack
  vm_returnStack :: ficlStack
  vm_fth_catch_p :: bool
  vm_gc_frame_level :: int
  vm_gc_word :: "int \<Rightarrow> addr"
  vm_gc_inst :: "int \<Rightarrow> addr"
  vm_sourceId :: cell
  vm_tib :: ficlTIB
  vm_user :: addr
  vm_pad :: "nat \<Rightarrow> u8"
  vm_pad_eval :: "nat \<Rightarrow> u8"
  vm_localsCount :: int
  vm_localsFixup :: addr
  vm_locals :: ficlDictionary

definition FICL_VM_STATE_INTERPRET :: cell where
  "FICL_VM_STATE_INTERPRET = 0"

definition FICL_VM_STATE_COMPILE :: cell where
  "FICL_VM_STATE_COMPILE = 1"

definition FICL_VM_STATUS_INNER_EXIT :: int where
  "FICL_VM_STATUS_INNER_EXIT = -256"

definition FICL_VM_STATUS_OUT_OF_TEXT :: int where
  "FICL_VM_STATUS_OUT_OF_TEXT = -257"

definition FICL_VM_STATUS_RESTART :: int where
  "FICL_VM_STATUS_RESTART = -258"

definition FICL_VM_STATUS_USER_EXIT :: int where
  "FICL_VM_STATUS_USER_EXIT = -259"

definition FICL_VM_STATUS_ERROR_EXIT :: int where
  "FICL_VM_STATUS_ERROR_EXIT = -260"

definition FICL_VM_STATUS_BREAK :: int where
  "FICL_VM_STATUS_BREAK = -261"

definition FICL_VM_STATUS_SKIP_FILE :: int where
  "FICL_VM_STATUS_SKIP_FILE = -262"

definition FICL_VM_STATUS_DICT_OVERFLOW :: int where
  "FICL_VM_STATUS_DICT_OVERFLOW = -8"

definition FICL_VM_STATUS_SEARCH_OVERFLOW :: int where
  "FICL_VM_STATUS_SEARCH_OVERFLOW = -49"

definition FICL_VM_STATUS_SEARCH_UNDERFLOW :: int where
  "FICL_VM_STATUS_SEARCH_UNDERFLOW = -50"

definition FICL_VM_STATUS_QUIT :: int where
  "FICL_VM_STATUS_QUIT = -56"

subsection \<open>Reset\<close>

definition ficlVmQuit :: "ficlVm \<Rightarrow> ficlVm" where
  "ficlVmQuit vm =
     vm\<lparr>vm_returnStack := ficlStackReset (vm_returnStack vm), vm_restart := False, vm_ip := NULL,
        vm_runningWord := NULL, vm_state := FICL_VM_STATE_INTERPRET, vm_fth_catch_p := False,
        vm_tib := \<lparr>tib_text = [], tib_index = 0\<rparr>, vm_pad := (vm_pad vm)(0 := 0), vm_pad_eval := (vm_pad_eval vm)(0 := 0),
        vm_sourceId := 0\<rparr>"

definition ficlVmReset :: "ficlVm \<Rightarrow> ficlVm" where
  "ficlVmReset vm =
     (let vm = ficlVmQuit vm
      in vm\<lparr>vm_dataStack := ficlStackReset (vm_dataStack vm), vm_base := 10\<rparr>)"

text \<open>
  An exception carries its code and the machine at the point of the \<open>longjmp\<close>. In
  \<open>ficlVmThrowErrorVararg\<close> the messages and backtraces are left out; outside of
  \<open>fth-catch\<close> the machine is reset before the exception is thrown.
\<close>

type_synonym 'a vm_result = "(int \<times> ficlVm, 'a) outcome"

definition ficlVmThrow :: "ficlVm \<Rightarrow> int \<Rightarrow> 'a vm_result" where
  "ficlVmThrow vm except = Throw (except, vm)"

definition ficlVmThrowErrorVararg :: "ficlVm \<Rightarrow> int \<Rightarrow> 'a vm_result" where
  "ficlVmThrowErrorVararg vm exc =
     (let vm = (if \<not> vm_fth_catch_p vm then ficlVmReset vm else vm) in ficlVmThrow vm exc)"

definition ficlVmThrowError :: "ficlVm \<Rightarrow> 'a vm_result" where
  "ficlVmThrowError vm = ficlVmThrowErrorVararg vm FICL_VM_STATUS_ERROR_EXIT"

definition ficlVmThrowException :: "ficlVm \<Rightarrow> int \<Rightarrow> 'a vm_result" where
  "ficlVmThrowException vm exc = ficlVmThrowErrorVararg vm exc"

text \<open>
  The exception handler of the inner loop spills the local variables into the machine (also
  when the throw has just reset it) and throws again.
\<close>

definition LOCAL_VARIABLE_SPILL :: "ficlVm \<Rightarrow> ficlVm \<Rightarrow> ficlVm" where
  "LOCAL_VARIABLE_SPILL locals vm =
     vm\<lparr>vm_ip := vm_ip locals,
        vm_dataStack := (vm_dataStack vm)\<lparr>st_top := st_top (vm_dataStack locals)\<rparr>,
        vm_returnStack := (vm_returnStack vm)\<lparr>st_top := st_top (vm_returnStack locals),
                                            st_frame := st_frame (vm_returnStack locals)\<rparr>\<rparr>"

fun inner_handler :: "ficlVm \<Rightarrow> 'a vm_result \<Rightarrow> 'a vm_result" where
  "inner_handler locals (Ok x) = Ok x"
| "inner_handler locals (Throw (except, vm)) = ficlVmThrow (LOCAL_VARIABLE_SPILL locals vm) except"
| "inner_handler locals Fault = Fault"

subsection \<open>Frames of the garbage collector\<close>

definition GC_FRAME_SIZE :: int where
  "GC_FRAME_SIZE = 128"

definition gc_push :: "ficlVm \<Rightarrow> addr \<Rightarrow> ficlVm" where
  "gc_push vm word =
     (let l = vm_gc_frame_level vm + 1; l = (if l \<ge> GC_FRAME_SIZE then GC_FRAME_SIZE - 1 else l)
      in vm\<lparr>vm_gc_frame_level := l, vm_gc_word := (vm_gc_word vm)(l := word),
            vm_gc_inst := (vm_gc_inst vm)(l := NULL)\<rparr>)"

definition gc_pop :: "ficlVm \<Rightarrow> ficlVm" where
  "gc_pop vm =
     (let l = vm_gc_frame_level vm - 1 in vm\<lparr>vm_gc_frame_level := (if l < 0 then 0 else l)\<rparr>)"

definition gc_loop_reset :: "ficlVm \<Rightarrow> ficlVm" where
  "gc_loop_reset vm = vm\<lparr>vm_gc_inst := (vm_gc_inst vm)(vm_gc_frame_level vm := NULL)\<rparr>"

subsection \<open>Steps of an instruction\<close>

text \<open>
  Each step continues with \<open>k\<close> on the changed machine. \<open>CHECK_STACK\<close> and
  \<open>CHECK_RETURN_STACK\<close> are the macros of the source; \<open>dref n\<close>, \<open>dset n\<close> read and write
  \<open>dataTop[n]\<close>, \<open>dmove n\<close> is \<open>dataTop += n\<close>; the names with \<open>r\<close> are those of \<open>returnTop\<close>.
\<close>

type_synonym 'a cont = "ficlVm \<Rightarrow> 'a vm_result"

definition stack_checked :: "(int, unit) outcome \<Rightarrow> 'a cont \<Rightarrow> 'a cont" where
  "stack_checked r k vm = (case r of Ok _ \<Rightarrow> k vm
     | Throw e \<Rightarrow> inner_handler vm (ficlVmThrowException vm e) | Fault \<Rightarrow> Fault)"

definition CHECK_STACK :: "int \<Rightarrow> int \<Rightarrow> 'a cont \<Rightarrow> 'a cont" where
  "CHECK_STACK pop push k vm = stack_checked (ficlStackCheck (vm_dataStack vm) pop push) k vm"

definition CHECK_RETURN_STACK :: "int \<Rightarrow> int \<Rightarrow> 'a cont \<Rightarrow> 'a cont" where
  "CHECK_RETURN_STACK pop push k vm = stack_checked (ficlStackCheck (vm_returnStack vm) pop push) k vm"

definition dref :: "int \<Rightarrow> (cell \<Rightarrow> 'a cont) \<Rightarrow> 'a cont" where
  "dref n k vm = (case stk_get (vm_dataStack vm) n of Ok c \<Rightarrow> k c vm | _ \<Rightarrow> Fault)"

definition dset :: "int \<Rightarrow> cell \<Rightarrow> 'a cont \<Rightarrow> 'a cont" where
  "dset n c k vm = (case stk_set (vm_dataStack vm) n c of
     Ok s \<Rightarrow> k (vm\<lparr>vm_dataStack := s\<rparr>) | _ \<Rightarrow> Fault)"

definition dmove :: "int \<Rightarrow> 'a cont \<Rightarrow> 'a cont" where
  "dmove n k vm = k (vm\<lparr>vm_dataStack := (vm_dataStack vm)\<lparr>st_top := st_top (vm_dataStack vm) + n\<rparr>\<rparr>)"

definition rref :: "int \<Rightarrow> (cell \<Rightarrow> 'a cont) \<Rightarrow> 'a cont" where
  "rref n k vm = (case stk_get (vm_returnStack vm) n of Ok c \<Rightarrow> k c vm | _ \<Rightarrow> Fault)"

definition rset :: "int \<Rightarrow> cell \<Rightarrow> 'a cont \<Rightarrow> 'a cont" where
  "rset n c k vm = (case stk_set (vm_returnStack vm) n c of
     Ok s \<Rightarrow> k (vm\<lparr>vm_returnStack := s\<rparr>) | _ \<Rightarrow> Fault)"

definition rmove :: "int \<Rightarrow> 'a cont \<Rightarrow> 'a cont" where
  "rmove n k vm = k (vm\<lparr>vm_returnStack := (vm_returnStack vm)\<lparr>st_top := st_top (vm_returnStack vm) + n\<rparr>\<rparr>)"

text \<open>\<open>*++top = c\<close> and \<open>c = *top--\<close>.\<close>

definition dpush :: "cell \<Rightarrow> 'a cont \<Rightarrow> 'a cont" where
  "dpush c k = dmove 1 (dset 0 c k)"

definition dpop :: "(cell \<Rightarrow> 'a cont) \<Rightarrow> 'a cont" where
  "dpop k = dref 0 (\<lambda>c. dmove (-1) (k c))"

definition rpush :: "cell \<Rightarrow> 'a cont \<Rightarrow> 'a cont" where
  "rpush c k = rmove 1 (rset 0 c k)"

definition rpop :: "(cell \<Rightarrow> 'a cont) \<Rightarrow> 'a cont" where
  "rpop k = rref 0 (\<lambda>c. rmove (-1) (k c))"

text \<open>The instruction stream: \<open>*ip\<close> and \<open>ip += n\<close> (in cells).\<close>

definition iref :: "(cell \<Rightarrow> 'a cont) \<Rightarrow> 'a cont" where
  "iref k vm = (case d_load_cell (vm_dict vm) (vm_ip vm) of Ok c \<Rightarrow> k c vm | _ \<Rightarrow> Fault)"

definition imove :: "cell \<Rightarrow> 'a cont \<Rightarrow> 'a cont" where
  "imove n k vm = k (vm\<lparr>vm_ip := vm_ip vm + 8 * n\<rparr>)"

definition iset :: "addr \<Rightarrow> 'a cont \<Rightarrow> 'a cont" where
  "iset p k vm = k (vm\<lparr>vm_ip := p\<rparr>)"

text \<open>\<open>BRANCH()\<close>: the offset is relative to the cell that holds it.\<close>

definition BRANCH :: "'a cont \<Rightarrow> 'a cont" where
  "BRANCH k vm = (if vm_ip vm \<noteq> NULL then iref (\<lambda>n. imove n k) vm else k vm)"

text \<open>\<open>EXIT_FUNCTION()\<close>.\<close>

definition EXIT_FUNCTION :: "'a cont \<Rightarrow> 'a cont" where
  "EXIT_FUNCTION k = rref 0 (\<lambda>p. iset p (rmove (-1) k))"

text \<open>Memory.\<close>

definition mload :: "addr \<Rightarrow> (cell \<Rightarrow> 'a cont) \<Rightarrow> 'a cont" where
  "mload p k vm = (case d_load_cell (vm_dict vm) p of Ok c \<Rightarrow> k c vm | _ \<Rightarrow> Fault)"

definition mstore :: "addr \<Rightarrow> cell \<Rightarrow> 'a cont \<Rightarrow> 'a cont" where
  "mstore p c k vm = (case d_store_cell (vm_dict vm) p c of
     Ok d \<Rightarrow> k (vm\<lparr>vm_dict := d\<rparr>) | _ \<Rightarrow> Fault)"

definition mload_bytes :: "addr \<Rightarrow> nat \<Rightarrow> (u8 list \<Rightarrow> 'a cont) \<Rightarrow> 'a cont" where
  "mload_bytes p n k vm = (case load_bytes (d_bytes (vm_dict vm)) p n of
     None \<Rightarrow> Fault | Some bs \<Rightarrow> k bs vm)"

definition mstore_bytes :: "addr \<Rightarrow> u8 list \<Rightarrow> 'a cont \<Rightarrow> 'a cont" where
  "mstore_bytes p bs k vm = (case d_store_bytes (vm_dict vm) p bs of
     Ok d \<Rightarrow> k (vm\<lparr>vm_dict := d\<rparr>) | _ \<Rightarrow> Fault)"

definition with_dict :: "(ficlDictionary \<Rightarrow> (int, ficlDictionary) outcome) \<Rightarrow> 'a cont \<Rightarrow> 'a cont" where
  "with_dict f k vm = (case f (vm_dict vm) of Ok d \<Rightarrow> k (vm\<lparr>vm_dict := d\<rparr>)
     | Throw e \<Rightarrow> inner_handler vm (ficlVmThrow vm e) | Fault \<Rightarrow> Fault)"

text \<open>\<open>frame[n]\<close>, a cell of the return stack.\<close>

definition frame_index :: "ficlStack \<Rightarrow> int \<Rightarrow> int" where
  "frame_index s n = cell_index s (st_frame s) + n"

definition lref :: "int \<Rightarrow> (cell \<Rightarrow> 'a cont) \<Rightarrow> 'a cont" where
  "lref n k vm = (let s = vm_returnStack vm; i = frame_index s n
     in if in_stack s i then k (st_cells s i) vm else Fault)"

definition lset :: "int \<Rightarrow> cell \<Rightarrow> 'a cont \<Rightarrow> 'a cont" where
  "lset n c k vm = (let s = vm_returnStack vm; i = frame_index s n
     in if in_stack s i then k (vm\<lparr>vm_returnStack := s\<lparr>st_cells := (st_cells s)(i := c)\<rparr>\<rparr>) else Fault)"

end
