(* ===== verification/Ficl_Inner_Loop.thy ===== *)
theory Ficl_Inner_Loop
  imports Ficl_Vm
begin

section \<open>The inner interpreter\<close>

text \<open>
  \<open>ficlVmInnerLoop\<close> of \<open>ficl/vm.c\<close>: one definition per instruction, in the order of the
  \<open>switch\<close> of the source, the dispatch, and the loop.

  The object system of FTH (\<open>src/object.c\<close>, \<open>src/numbers.c\<close>) and the C functions that
  primitives point to are parameters of the loop, gathered in the record \<open>fth_env\<close>:
  the constants \<open>FTH_FALSE\<close>, \<open>FTH_TRUE\<close> and \<open>FTH_NIL\<close>, the test for an object, the value of
  a cell as a signed or unsigned integer, a new \<open>llong\<close> object of either kind, the update of number objects, the order of
  numbers, the floating point instructions and the code of a primitive.
  The marks that the garbage collector sets on objects are not part of the state.
  Signed arithmetic wraps around, as on the platforms the program is built for.
\<close>

record fth_env =
  FTH_FALSE :: cell
  FTH_TRUE :: cell
  FTH_NIL :: cell
  fth_instance_p :: "cell \<Rightarrow> bool"
  CELL_LONG_REF :: "cell \<Rightarrow> (int, int) outcome"
  CELL_ULONG_REF :: "cell \<Rightarrow> (int, cell) outcome"
  fth_make_llong :: "int \<Rightarrow> cell"
  fth_make_ullong :: "cell \<Rightarrow> cell"
  number_object_p :: "cell \<Rightarrow> bool"
  number_object_add :: "cell \<Rightarrow> cell \<Rightarrow> ficlVm \<Rightarrow> ficlVm vm_result"
  fth_number_less_p :: "cell \<Rightarrow> cell \<Rightarrow> (int, bool) outcome"
  object_instruction :: "cell \<Rightarrow> addr \<Rightarrow> ficlVm \<Rightarrow> ficlVm vm_result"
  primitive_code :: "cell \<Rightarrow> ficlVm \<Rightarrow> ficlVm vm_result"

text \<open>\<open>continue\<close> goes on with the loop, \<open>return\<close> leaves the function (\<open>FICL_FW_CHECK\<close>).\<close>

datatype vm_next = Continue ficlVm | Return ficlVm

type_synonym instr = "ficlVm \<Rightarrow> vm_next vm_result"

definition continue :: instr where
  "continue vm = Ok (Continue vm)"

definition FICL_FW_CHECK :: "addr \<Rightarrow> instr \<Rightarrow> instr" where
  "FICL_FW_CHECK p k vm = (if p = NULL then Ok (Return vm) else k vm)"

definition VM_FALSE_OR_NULL_P :: "fth_env \<Rightarrow> cell \<Rightarrow> bool" where
  "VM_FALSE_OR_NULL_P E obj = (obj = 0 \<or> obj = FTH_FALSE E \<or> obj = FTH_NIL E)"

abbreviation VM_NOT_FALSE_P :: "fth_env \<Rightarrow> cell \<Rightarrow> bool" where
  "VM_NOT_FALSE_P E obj \<equiv> \<not> VM_FALSE_OR_NULL_P E obj"

definition BOOL_TO_FTH :: "fth_env \<Rightarrow> bool \<Rightarrow> cell" where
  "BOOL_TO_FTH E b = (if b then FTH_TRUE E else FTH_FALSE E)"

text \<open>
  Calls into the object system. When a C function throws, the handler of the loop restores
  the local variables as they were at the call.
\<close>

definition long_ref :: "fth_env \<Rightarrow> cell \<Rightarrow> (int \<Rightarrow> instr) \<Rightarrow> instr" where
  "long_ref E c k vm = (case CELL_LONG_REF E c of Ok i \<Rightarrow> k i vm
     | Throw e \<Rightarrow> inner_handler vm (ficlVmThrowException vm e) | Fault \<Rightarrow> Fault)"

definition number_less :: "fth_env \<Rightarrow> cell \<Rightarrow> cell \<Rightarrow> (bool \<Rightarrow> instr) \<Rightarrow> instr" where
  "number_less E x y k vm = (case fth_number_less_p E x y of Ok b \<Rightarrow> k b vm
     | Throw e \<Rightarrow> inner_handler vm (ficlVmThrowException vm e) | Fault \<Rightarrow> Fault)"

definition call_c :: "(ficlVm \<Rightarrow> ficlVm vm_result) \<Rightarrow> instr" where
  "call_c f vm = bind_outcome (inner_handler vm (f vm)) continue"

subsection \<open>Numbers and literals\<close>

definition instr_Invalid :: instr where
  "instr_Invalid vm = inner_handler vm (ficlVmThrowError vm)"

definition instr_positive :: "cell \<Rightarrow> instr" where
  "instr_positive instruction = CHECK_STACK 0 1 (dmove 1 (dset 0 instruction continue))"

definition instr_negative :: "cell \<Rightarrow> instr" where
  "instr_negative instruction =
     CHECK_STACK 0 1 (dmove 1 (dset 0 (ficlInstruction0 - instruction) continue))"

text \<open>A counted string has its length in the first cell; \<open>cp\<close> is the address of its text.\<close>

definition instr_StringLiteralParen :: instr where
  "instr_StringLiteralParen = CHECK_STACK 0 2 (\<lambda>vm.
     iref (\<lambda>len. let cp = vm_ip vm + 8
       in dmove 1 (dset 0 cp (dmove 1 (dset 0 len
            (iset (ficlAlignPointer (cp + len + 1)) continue))))) vm)"

definition instr_CStringLiteralParen :: instr where
  "instr_CStringLiteralParen = CHECK_STACK 0 1 (\<lambda>vm.
     let s = vm_ip vm
     in iref (\<lambda>len. iset (ficlAlignPointer (s + 8 + len + 1)) (dmove 1 (dset 0 s continue))) vm)"

definition instr_LiteralParen :: instr where
  "instr_LiteralParen = CHECK_STACK 0 1 (dmove 1 (iref (\<lambda>c. dset 0 c (imove 1 continue))))"

subsection \<open>Frames and locals\<close>

definition instr_LinkParen :: instr where
  "instr_LinkParen = iref (\<lambda>nCells. imove 1 (rmove 1 (\<lambda>vm.
     rset 0 (st_frame (vm_returnStack vm)) (\<lambda>vm.
       let s = vm_returnStack vm
       in continue (vm\<lparr>vm_returnStack := s\<lparr>st_frame := cell_addr s (st_top s + 1),
                                           st_top := st_top s + sint nCells\<rparr>\<rparr>)) vm)))"

definition instr_UnlinkParen :: instr where
  "instr_UnlinkParen vm =
     (let s = vm_returnStack vm
      in rref 0 (\<lambda>p vm. rmove (-1) continue
           (vm\<lparr>vm_returnStack := (vm_returnStack vm)\<lparr>st_frame := p\<rparr>\<rparr>))
         (vm\<lparr>vm_returnStack := s\<lparr>st_top := cell_index s (st_frame s) - 1\<rparr>\<rparr>))"

definition PUSH_CELL_POINTER :: "int \<Rightarrow> instr" where
  "PUSH_CELL_POINTER n = lref n (\<lambda>c. dmove 1 (dset 0 c continue))"

definition POP_CELL_POINTER :: "int \<Rightarrow> instr" where
  "POP_CELL_POINTER n = dref 0 (\<lambda>c. lset n c (dmove (-1) continue))"

definition instr_GetLocalParen :: instr where
  "instr_GetLocalParen = iref (\<lambda>n. imove 1 (PUSH_CELL_POINTER (sint n)))"

definition instr_GetLocal0 :: instr where
  "instr_GetLocal0 = PUSH_CELL_POINTER 0"

definition instr_GetLocal1 :: instr where
  "instr_GetLocal1 = PUSH_CELL_POINTER 1"

definition instr_ToLocalParen :: instr where
  "instr_ToLocalParen = iref (\<lambda>n. imove 1 (POP_CELL_POINTER (sint n)))"

definition instr_ToLocal0 :: instr where
  "instr_ToLocal0 = POP_CELL_POINTER 0"

definition instr_ToLocal1 :: instr where
  "instr_ToLocal1 = POP_CELL_POINTER 1"

definition POP_LOCAL_VAR_ADD :: "fth_env \<Rightarrow> int \<Rightarrow> instr" where
  "POP_LOCAL_VAR_ADD E n = lref n (\<lambda>x. dref 0 (\<lambda>y.
     if number_object_p E x
     then (\<lambda>vm. bind_outcome (inner_handler vm (number_object_add E x y vm)) (dmove (-1) continue))
     else lset n (x + y) (dmove (-1) continue)))"

definition instr_PlusToLocalParen :: "fth_env \<Rightarrow> instr" where
  "instr_PlusToLocalParen E = iref (\<lambda>n. imove 1 (POP_LOCAL_VAR_ADD E (sint n)))"

definition instr_PlusToLocal0 :: "fth_env \<Rightarrow> instr" where
  "instr_PlusToLocal0 E = POP_LOCAL_VAR_ADD E 0"

definition instr_PlusToLocal1 :: "fth_env \<Rightarrow> instr" where
  "instr_PlusToLocal1 E = POP_LOCAL_VAR_ADD E 1"

subsection \<open>Stack manipulation\<close>

definition instr_Dup :: instr where
  "instr_Dup = CHECK_STACK 1 2 (dref 0 (\<lambda>i. dmove 1 (dset 0 i continue)))"

definition instr_Within :: "fth_env \<Rightarrow> instr" where
  "instr_Within E = CHECK_STACK 3 1 (dref 0 (\<lambda>high. dmove (-1) (dref 0 (\<lambda>low. dmove (-1)
     (dref 0 (\<lambda>test. number_less E test low (\<lambda>lt.
        if lt then dset 0 (BOOL_TO_FTH E False) continue
        else number_less E test high (\<lambda>flag. dset 0 (BOOL_TO_FTH E flag) continue))))))))"

definition instr_QuestionDup :: "fth_env \<Rightarrow> instr" where
  "instr_QuestionDup E = CHECK_STACK 1 2 (dref 0 (\<lambda>x.
     if VM_NOT_FALSE_P E x then dset 1 x (dmove 1 continue) else continue))"

definition instr_Swap :: instr where
  "instr_Swap = CHECK_STACK 2 2 (dref 0 (\<lambda>swap. dref (-1) (\<lambda>y. dset 0 y (dset (-1) swap continue))))"

definition instr_Drop :: instr where
  "instr_Drop = CHECK_STACK 1 0 (dmove (-1) continue)"

definition instr_Nip :: instr where
  "instr_Nip = CHECK_STACK 2 1 (dref 0 (\<lambda>x. dset (-1) x (dmove (-1) continue)))"

definition instr_Tuck :: instr where
  "instr_Tuck = CHECK_STACK 2 3 (dref (-1) (\<lambda>swap. dref 0 (\<lambda>x.
     dset 1 x (dset (-1) x (dset 0 swap (dmove 1 continue))))))"

definition instr_2Drop :: instr where
  "instr_2Drop = CHECK_STACK 2 0 (dmove (-2) continue)"

definition instr_2Dup :: instr where
  "instr_2Dup = CHECK_STACK 2 4 (dref (-1) (\<lambda>y. dset 1 y (dref 0 (\<lambda>x. dset 2 x (dmove 2 continue)))))"

definition instr_Over :: instr where
  "instr_Over = CHECK_STACK 2 3 (dref (-1) (\<lambda>y. dset 1 y (dmove 1 continue)))"

definition instr_2Over :: instr where
  "instr_2Over = CHECK_STACK 4 6 (dref (-3) (\<lambda>a. dset 1 a (dref (-2) (\<lambda>b. dset 2 b (dmove 2 continue)))))"

text \<open>\<open>(int)i + 1\<close> and \<open>(int)i + 2\<close> are computed on \<open>int\<close>; \<open>dataTop[-i]\<close> uses all of \<open>i\<close>.\<close>

definition instr_Pick :: instr where
  "instr_Pick = CHECK_STACK 1 0 (dref 0 (\<lambda>i.
     if sint i < 0 then continue
     else CHECK_STACK (c_int i + 1) (c_int i + 2) (dref (- sint i) (\<lambda>x. dset 0 x continue))))"

text \<open>\<open>memmove\<close> of \<open>n\<close> cells of the stack from \<open>dataTop + src\<close> to \<open>dataTop + dst\<close>.\<close>

fun drefs :: "int \<Rightarrow> nat \<Rightarrow> (cell list \<Rightarrow> instr) \<Rightarrow> instr" where
  "drefs n 0 k = k []"
| "drefs n (Suc m) k = dref n (\<lambda>c. drefs (n + 1) m (\<lambda>cs. k (c # cs)))"

fun dsets :: "int \<Rightarrow> cell list \<Rightarrow> instr \<Rightarrow> instr" where
  "dsets n [] k = k"
| "dsets n (c # cs) k = dset n c (dsets (n + 1) cs k)"

definition dmemmove :: "int \<Rightarrow> int \<Rightarrow> nat \<Rightarrow> instr \<Rightarrow> instr" where
  "dmemmove dst src n k = drefs src n (\<lambda>cs. dsets dst cs k)"

definition ROLL :: "cell \<Rightarrow> instr" where
  "ROLL i = CHECK_STACK (c_int i + 1) (c_int i + 2)
     (dref (- sint i) (\<lambda>c. dmemmove (- sint i) (- (sint i - 1)) (nat (sint i)) (dset 0 c continue)))"

definition instr_Rot :: instr where
  "instr_Rot = ROLL 2"

definition instr_Roll :: instr where
  "instr_Roll = CHECK_STACK 1 0 (dref 0 (\<lambda>i. dmove (-1) (if sint i < 1 then continue else ROLL i)))"

definition MINUSROLL :: "cell \<Rightarrow> instr" where
  "MINUSROLL i = CHECK_STACK (c_int i + 1) (c_int i + 2)
     (dref 0 (\<lambda>c. dmemmove (- (sint i - 1)) (- sint i) (nat (sint i)) (dset (- sint i) c continue)))"

definition instr_MinusRot :: instr where
  "instr_MinusRot = MINUSROLL 2"

definition instr_MinusRoll :: instr where
  "instr_MinusRoll = CHECK_STACK 1 0 (dref 0 (\<lambda>i. dmove (-1)
     (if sint i < 1 then continue else MINUSROLL i)))"

definition instr_2Swap :: instr where
  "instr_2Swap = CHECK_STACK 4 4 (dref 0 (\<lambda>c. dref (-1) (\<lambda>c2. dref (-2) (\<lambda>c3. dset 0 c3
     (dref (-3) (\<lambda>c4. dset (-1) c4 (dset (-2) c (dset (-3) c2 continue))))))))"

subsection \<open>Memory and logic\<close>

definition instr_PlusStore :: "fth_env \<Rightarrow> instr" where
  "instr_PlusStore E = CHECK_STACK 2 0 (dref 0 (\<lambda>cell. dmove (-1) (mload cell (\<lambda>x. dref 0 (\<lambda>y.
     if number_object_p E x
     then (\<lambda>vm. bind_outcome (inner_handler vm (number_object_add E x y vm)) (dmove (-1) continue))
     else mstore cell (x + y) (dmove (-1) continue))))))"

definition instr_CFetch :: instr where
  "instr_CFetch = CHECK_STACK 1 1 (dref 0 (\<lambda>p. mload_bytes p 1 (\<lambda>bs. dset 0 (ucast (hd bs)) continue)))"

definition instr_CStore :: instr where
  "instr_CStore = CHECK_STACK 2 0 (dref 0 (\<lambda>p. dmove (-1) (dref 0 (\<lambda>u.
     mstore_bytes p [ucast u] (dmove (-1) continue)))))"

definition bool_and_values :: "fth_env \<Rightarrow> cell \<Rightarrow> cell \<Rightarrow> cell" where
  "bool_and_values E val1 val2 =
     (if VM_NOT_FALSE_P E val1 \<and> VM_NOT_FALSE_P E val2 then val2 else FTH_FALSE E)"

definition bool_or_values :: "fth_env \<Rightarrow> cell \<Rightarrow> cell \<Rightarrow> cell" where
  "bool_or_values E val1 val2 =
     (if VM_NOT_FALSE_P E val1 then val1 else if VM_NOT_FALSE_P E val2 then val2 else FTH_FALSE E)"

definition instr_And :: "fth_env \<Rightarrow> instr" where
  "instr_And E = CHECK_STACK 2 1 (dref 0 (\<lambda>i. dmove (-1) (dref 0 (\<lambda>x.
     if fth_instance_p E i then dset 0 (bool_and_values E x i) continue
     else dset 0 (x AND i) continue))))"

definition instr_Or :: "fth_env \<Rightarrow> instr" where
  "instr_Or E = CHECK_STACK 2 1 (dref 0 (\<lambda>i. dmove (-1) (dref 0 (\<lambda>x.
     if fth_instance_p E i then dset 0 (bool_or_values E x i) continue
     else dset 0 (x OR i) continue))))"

text \<open>
  Many instructions replace the two topmost cells \<open>x i\<close>, or the topmost cell \<open>x\<close>, by one
  value: \<open>i = *dataTop; dataTop--; *dataTop = f(*dataTop, i)\<close>.
\<close>

definition binary_op :: "(cell \<Rightarrow> cell \<Rightarrow> cell) \<Rightarrow> instr" where
  "binary_op f = CHECK_STACK 2 1 (dref 0 (\<lambda>i. dmove (-1) (dref 0 (\<lambda>x. dset 0 (f x i) continue))))"

definition unary_op :: "(cell \<Rightarrow> cell) \<Rightarrow> instr" where
  "unary_op f = CHECK_STACK 1 1 (dref 0 (\<lambda>x. dset 0 (f x) continue))"

definition instr_Xor :: instr where
  "instr_Xor = binary_op (\<lambda>x i. x XOR i)"

definition instr_Invert :: instr where
  "instr_Invert = unary_op (\<lambda>x. NOT x)"

subsection \<open>Return stack\<close>

definition instr_ToRStack :: instr where
  "instr_ToRStack = CHECK_STACK 1 0 (CHECK_RETURN_STACK 0 1 (dpop (\<lambda>c. rpush c continue)))"

definition instr_FromRStack :: instr where
  "instr_FromRStack = CHECK_STACK 0 1 (CHECK_RETURN_STACK 1 0 (rpop (\<lambda>c. dpush c continue)))"

definition instr_FetchRStack :: instr where
  "instr_FetchRStack = CHECK_STACK 0 1 (CHECK_RETURN_STACK 1 1 (rref 0 (\<lambda>c. dpush c continue)))"

definition instr_2ToR :: instr where
  "instr_2ToR = CHECK_STACK 2 0 (CHECK_RETURN_STACK 0 2
     (dref (-1) (\<lambda>y. rpush y (dref 0 (\<lambda>x. rpush x (dmove (-2) continue))))))"

definition instr_2RFrom :: instr where
  "instr_2RFrom = CHECK_STACK 0 2 (CHECK_RETURN_STACK 2 0
     (rref (-1) (\<lambda>y. dpush y (rref 0 (\<lambda>x. dpush x (rmove (-2) continue))))))"

definition instr_2RFetch :: instr where
  "instr_2RFetch = CHECK_STACK 0 2 (CHECK_RETURN_STACK 2 2
     (rref (-1) (\<lambda>y. dpush y (rref 0 (\<lambda>x. dpush x continue)))))"

subsection \<open>Blocks of memory\<close>

definition instr_Fill :: instr where
  "instr_Fill = CHECK_STACK 3 0 (dref 0 (\<lambda>ch. dmove (-1) (dref 0 (\<lambda>u. dmove (-1) (dref 0 (\<lambda>memory.
     dmove (-1) (mstore_bytes memory (replicate (unat u) (ucast ch)) continue)))))))"

definition instr_Move :: instr where
  "instr_Move = CHECK_STACK 3 0 (dref 0 (\<lambda>u. dmove (-1) (dref 0 (\<lambda>addr2. dmove (-1) (dref 0 (\<lambda>addr1.
     dmove (-1) (if u = 0 then continue
       else mload_bytes addr1 (unat u) (\<lambda>bs. mstore_bytes addr2 bs continue))))))))"

text \<open>
  The loop of \<open>compare\<close>: the difference of the first pair of characters that differ, 0 when
  there is none among the first \<open>uMin\<close>.
\<close>

definition compare_char :: "bool \<Rightarrow> u8 \<Rightarrow> int" where
  "compare_char i b = schar (if i then tolower (byte_char b) else byte_char b)"

fun compare_loop :: "bool \<Rightarrow> (addr \<rightharpoonup> u8) \<Rightarrow> addr \<Rightarrow> addr \<Rightarrow> nat \<Rightarrow> int option" where
  "compare_loop i m cp1 cp2 0 = Some 0"
| "compare_loop i m cp1 cp2 (Suc uMin) =
     (case (m cp1, m cp2) of
        (Some b1, Some b2) \<Rightarrow>
          let n = compare_char i b1 - compare_char i b2
          in if n = 0 then compare_loop i m (cp1 + 1) (cp2 + 1) uMin else Some n
      | _ \<Rightarrow> None)"

definition COMPARE :: "bool \<Rightarrow> instr" where
  "COMPARE i = CHECK_STACK 4 1 (dref 0 (\<lambda>u2. dmove (-1) (dref 0 (\<lambda>cp2. dmove (-1) (dref 0 (\<lambda>u1. dmove (-1)
     (dref 0 (\<lambda>cp1. dmove (-1) (\<lambda>vm.
       case compare_loop i (d_bytes (vm_dict vm)) cp1 cp2 (min (unat u1) (unat u2)) of
         None \<Rightarrow> Fault
       | Some n \<Rightarrow>
           let n = (if n = 0 then c_int (u1 - u2) else n);
               n = (if n < 0 then -1 else if n > 0 then 1 else n)
           in dmove 1 (dset 0 (of_int n) continue) vm)))))))))"

definition instr_Compare :: instr where
  "instr_Compare = COMPARE False"

definition instr_CompareInsensitive :: instr where
  "instr_CompareInsensitive = COMPARE True"

subsection \<open>Control flow\<close>

definition instr_SemiParen :: instr where
  "instr_SemiParen = EXIT_FUNCTION continue"

text \<open>
  \<open>ficlVmOptimizeJumpToJump\<close> replaces a checked branch by a final one, and redirects it when
  it leads to an unconditional branch. The recursion follows checked branches, each of which
  is made final before the next is looked at; \<open>None\<close> would be a recursion that does not
  end.
\<close>

definition is_branch_check :: "cell \<Rightarrow> bool" where
  "is_branch_check c =
     (c = ficlInstructionBranchParenWithCheck \<or> c = ficlInstructionBranch0ParenWithCheck)"

definition final_branch :: "cell \<Rightarrow> cell" where
  "final_branch c =
     (if c = ficlInstructionBranchParenWithCheck then ficlInstructionBranchParen
      else if c = ficlInstructionBranch0ParenWithCheck then ficlInstructionBranch0Paren else c)"

definition redirect_jump :: "(addr \<rightharpoonup> u8) \<Rightarrow> addr \<Rightarrow> addr \<Rightarrow> (int, addr \<rightharpoonup> u8) outcome" where
  "redirect_jump m ip destination =
     (let destination = destination + 8
      in case load_cell m destination of None \<Rightarrow> Fault
         | Some off \<Rightarrow>
             let destination = destination + 8 * off
             in case store_cell m ip (of_int (c_div (sint (destination - ip)) 8)) of
                  None \<Rightarrow> Fault | Some m \<Rightarrow> Ok m)"

partial_function (option) ficlVmOptimizeJumpToJump ::
    "(addr \<rightharpoonup> u8) \<Rightarrow> addr \<Rightarrow> (int, addr \<rightharpoonup> u8) outcome option" where
  "ficlVmOptimizeJumpToJump m ip =
     (case load_cell m ip of None \<Rightarrow> Some Fault
      | Some c \<Rightarrow>
          if \<not> is_branch_check c then Some (Ok m)
          else case store_cell m ip (final_branch c) of None \<Rightarrow> Some Fault
          | Some m \<Rightarrow> (case load_cell m (ip + 8) of None \<Rightarrow> Some Fault
          | Some off \<Rightarrow> (case load_cell m (ip + 8 + 8 * off) of None \<Rightarrow> Some Fault
          | Some t \<Rightarrow>
              if t = ficlInstructionBranchParenWithCheck
              then Option.bind (ficlVmOptimizeJumpToJump m (ip + 8 + 8 * off))
                     (\<lambda>r. Some (bind_outcome r (\<lambda>m. redirect_jump m (ip + 8) (ip + 8 + 8 * off))))
              else if t = ficlInstructionBranchParen
              then Some (redirect_jump m (ip + 8) (ip + 8 + 8 * off))
              else Some (Ok m))))"

definition instr_BranchParen :: instr where
  "instr_BranchParen = BRANCH continue"

definition instr_Branch0Paren :: "fth_env \<Rightarrow> instr" where
  "instr_Branch0Paren E = CHECK_STACK 1 0 (dref 0 (\<lambda>val. dmove (-1)
     (if VM_NOT_FALSE_P E val then imove 1 continue else BRANCH continue)))"

definition instr_OfParen :: instr where
  "instr_OfParen = CHECK_STACK 2 1 (dref 0 (\<lambda>a. dmove (-1) (dref 0 (\<lambda>b.
     if a = b then imove 1 (dmove (-1) continue) else BRANCH continue))))"

definition instr_DoParen :: instr where
  "instr_DoParen = CHECK_STACK 2 0 (dpop (\<lambda>index. dpop (\<lambda>limit. rmove 1 (iref (\<lambda>leave. rset 0 leave
     (imove 1 (rpush limit (rpush index (\<lambda>vm. continue (gc_push vm (vm_runningWord vm)))))))))))"

definition instr_QDoParen :: "fth_env \<Rightarrow> instr" where
  "instr_QDoParen E = CHECK_STACK 2 0 (dpop (\<lambda>index. dpop (\<lambda>limit vm.
     FICL_FW_CHECK (vm_ip vm) (iref (\<lambda>leave. long_ref E limit (\<lambda>l. long_ref E index (\<lambda>i.
       if l = i then iset leave continue
       else imove 1 (rpush leave (rpush limit (rpush index
              (\<lambda>vm. continue (gc_push vm (vm_runningWord vm)))))))))) vm)))"

text \<open>\<open>FIXABLE_P\<close>: the value fits into the 63 bits of an immediate integer.\<close>

definition FIXABLE_P :: "int \<Rightarrow> bool" where
  "FIXABLE_P i = (i \<le> 2 ^ 62 - 1 \<and> i \<ge> - (2 ^ 62))"

definition loop_index_cell :: "fth_env \<Rightarrow> int \<Rightarrow> cell" where
  "loop_index_cell E index = (if FIXABLE_P index then of_int index else fth_make_llong E index)"

text \<open>The common end of \<open>(loop)\<close> and \<open>(+loop)\<close>: leave the loop, or store the index and branch.\<close>

definition loop_tail :: "fth_env \<Rightarrow> bool \<Rightarrow> int \<Rightarrow> int \<Rightarrow> instr" where
  "loop_tail E direction index limit =
     (if direction \<noteq> (index \<ge> limit)
      then rmove (-3) (imove 1 (\<lambda>vm. continue (gc_pop vm)))
      else (\<lambda>vm. rset 0 (loop_index_cell E index) (BRANCH continue) (gc_loop_reset vm)))"

definition wrap64 :: "int \<Rightarrow> int" where
  "wrap64 i = sint (of_int i :: cell)"

definition instr_LoopParen :: "fth_env \<Rightarrow> instr" where
  "instr_LoopParen E = rref 0 (\<lambda>ix. long_ref E ix (\<lambda>index. rref (-1) (\<lambda>lm. long_ref E lm (\<lambda>limit.
     loop_tail E False (wrap64 (index + 1)) limit))))"

definition instr_PlusLoopParen :: "fth_env \<Rightarrow> instr" where
  "instr_PlusLoopParen E = rref 0 (\<lambda>ix. long_ref E ix (\<lambda>index. rref (-1) (\<lambda>lm. long_ref E lm (\<lambda>limit.
     CHECK_STACK 1 0 (dref 0 (\<lambda>increment. dmove (-1)
       (loop_tail E (sint increment < 0) (wrap64 (index + sint increment)) limit)))))))"

definition instr_Leave :: instr where
  "instr_Leave = rmove (-2) (\<lambda>vm. EXIT_FUNCTION continue (gc_pop vm))"

definition instr_Unloop :: instr where
  "instr_Unloop = rmove (-3) continue"

definition instr_I :: instr where
  "instr_I = rref 0 (\<lambda>c. dpush c continue)"

definition instr_J :: instr where
  "instr_J = rref (-3) (\<lambda>c. dpush c continue)"

definition instr_K :: instr where
  "instr_K = rref (-6) (\<lambda>c. dpush c continue)"

subsection \<open>Defining words, memory and arithmetic\<close>

definition set_smudge_does :: "addr \<Rightarrow> ficlDictionary \<Rightarrow> (int, ficlDictionary) outcome" where
  "set_smudge_does ip dict =
     bind_outcome (d_word dict (d_smudge dict)) (\<lambda>w.
       d_store_cell (set_word (d_smudge dict) (w\<lparr>w_code := ficlInstructionDoDoes\<rparr>) dict)
         (word_param (d_smudge dict)) ip)"

definition instr_DoesParen :: instr where
  "instr_DoesParen vm = with_dict (set_smudge_does (vm_ip vm)) (EXIT_FUNCTION continue) vm"

definition instr_DoDoes :: "addr \<Rightarrow> instr" where
  "instr_DoDoes fw = CHECK_STACK 0 1 (FICL_FW_CHECK fw (mload (word_param fw) (\<lambda>tempIP.
     dmove 1 (dset 0 (word_param fw + 8) (rmove 1 (\<lambda>vm. rset 0 (vm_ip vm) (iset tempIP continue) vm))))))"

definition instr_Fetch :: instr where
  "instr_Fetch = CHECK_STACK 1 1 (dref 0 (\<lambda>p. mload p (\<lambda>c. dset 0 c continue)))"

text \<open>The old contents are read for the garbage collector before they are overwritten.\<close>

definition instr_Store :: instr where
  "instr_Store = CHECK_STACK 2 0 (dref 0 (\<lambda>cell. dmove (-1) (mload cell (\<lambda>out. dref 0 (\<lambda>c.
     mstore cell c (dmove (-1) continue))))))"

definition instr_Comma :: instr where
  "instr_Comma = CHECK_STACK 1 0 (dpop (\<lambda>c. with_dict (\<lambda>dict. ficlDictionaryAppendCell dict c) continue))"

definition instr_CComma :: instr where
  "instr_CComma = CHECK_STACK 1 0 (dref 0 (\<lambda>i. dmove (-1)
     (with_dict (\<lambda>dict. ficlDictionaryAppendCharacter dict (byte_char (ucast i))) continue)))"

text \<open>A shift by 64 or more is undefined in C.\<close>

definition instr_LShift :: instr where
  "instr_LShift = CHECK_STACK 2 1 (dref 0 (\<lambda>nBits. dmove (-1) (dref 0 (\<lambda>x.
     if nBits < 64 then dset 0 (push_bit (unat nBits) x) continue else (\<lambda>vm. Fault)))))"

definition instr_RShift :: instr where
  "instr_RShift = CHECK_STACK 2 1 (dref 0 (\<lambda>nBits. dmove (-1) (dref 0 (\<lambda>x.
     if nBits < 64 then dset 0 (drop_bit (unat nBits) x) continue else (\<lambda>vm. Fault)))))"

definition instr_Max :: instr where
  "instr_Max = binary_op (\<lambda>n1 n2. if sint n1 > sint n2 then n1 else n2)"

definition instr_Min :: instr where
  "instr_Min = binary_op (\<lambda>n1 n2. if sint n1 < sint n2 then n1 else n2)"

definition instr_Cells :: instr where
  "instr_Cells = unary_op (\<lambda>x. x * 8)"

definition instr_CellPlus :: instr where
  "instr_CellPlus = unary_op (\<lambda>x. x + 8)"

definition instr_Equals :: "fth_env \<Rightarrow> instr" where
  "instr_Equals E = binary_op (\<lambda>x i. BOOL_TO_FTH E (x = i))"

definition instr_not_eql :: "fth_env \<Rightarrow> instr" where
  "instr_not_eql E = binary_op (\<lambda>x i. BOOL_TO_FTH E (x \<noteq> i))"

definition instr_Less :: "fth_env \<Rightarrow> instr" where
  "instr_Less E = binary_op (\<lambda>x i. BOOL_TO_FTH E (sint x < sint i))"

definition instr_GreaterThan :: "fth_env \<Rightarrow> instr" where
  "instr_GreaterThan E = binary_op (\<lambda>x y. BOOL_TO_FTH E (sint x > sint y))"

definition instr_less_eql :: "fth_env \<Rightarrow> instr" where
  "instr_less_eql E = binary_op (\<lambda>x i. BOOL_TO_FTH E (sint x \<le> sint i))"

definition instr_greater_eql :: "fth_env \<Rightarrow> instr" where
  "instr_greater_eql E = binary_op (\<lambda>x i. BOOL_TO_FTH E (sint x \<ge> sint i))"

definition instr_0Equals :: "fth_env \<Rightarrow> instr" where
  "instr_0Equals E = unary_op (\<lambda>x. BOOL_TO_FTH E (sint x = 0))"

definition instr_0_not_eql :: "fth_env \<Rightarrow> instr" where
  "instr_0_not_eql E = unary_op (\<lambda>x. BOOL_TO_FTH E (sint x \<noteq> 0))"

definition instr_0Less :: "fth_env \<Rightarrow> instr" where
  "instr_0Less E = unary_op (\<lambda>x. BOOL_TO_FTH E (sint x < 0))"

definition instr_0Greater :: "fth_env \<Rightarrow> instr" where
  "instr_0Greater E = unary_op (\<lambda>x. BOOL_TO_FTH E (sint x > 0))"

definition instr_0_less_eql :: "fth_env \<Rightarrow> instr" where
  "instr_0_less_eql E = unary_op (\<lambda>x. BOOL_TO_FTH E (sint x \<le> 0))"

definition instr_0_greater_eql :: "fth_env \<Rightarrow> instr" where
  "instr_0_greater_eql E = unary_op (\<lambda>x. BOOL_TO_FTH E (sint x \<ge> 0))"

definition instr_Plus :: instr where
  "instr_Plus = binary_op (\<lambda>x i. x + i)"

definition instr_Minus :: instr where
  "instr_Minus = binary_op (\<lambda>x i. x - i)"

definition instr_Star :: instr where
  "instr_Star = binary_op (\<lambda>x i. x * i)"

text \<open>C leaves a division by zero, and one whose quotient overflows, undefined.\<close>

definition instr_Slash :: instr where
  "instr_Slash = CHECK_STACK 2 1 (dref 0 (\<lambda>i. dmove (-1) (dref 0 (\<lambda>x.
     if i = 0 \<or> (sint x = - (2 ^ 63) \<and> sint i = -1) then (\<lambda>vm. Fault)
     else dset 0 (of_int (c_div (sint x) (sint i))) continue))))"

definition instr_1Plus :: instr where
  "instr_1Plus = unary_op (\<lambda>x. x + 1)"

definition instr_1Minus :: instr where
  "instr_1Minus = unary_op (\<lambda>x. x - 1)"

definition instr_2Plus :: instr where
  "instr_2Plus = unary_op (\<lambda>x. x + 2)"

definition instr_2Minus :: instr where
  "instr_2Minus = unary_op (\<lambda>x. x - 2)"

definition instr_2Star :: instr where
  "instr_2Star = unary_op (\<lambda>x. push_bit 1 x)"

definition instr_2Slash :: instr where
  "instr_2Slash = unary_op (\<lambda>x. of_int (sint x div 2))"

definition instr_Negate :: instr where
  "instr_Negate = unary_op (\<lambda>x. - x)"

text \<open>\<open>abs\<close> is the function on \<open>int\<close>: the argument is cut to 32 bits.\<close>

definition instr_abs :: instr where
  "instr_abs = unary_op (\<lambda>x. of_int (let i = c_int x in if i = - (2 ^ 31) then i else \<bar>i\<bar>))"

definition quot_rem :: "cell \<Rightarrow> cell \<Rightarrow> (cell \<Rightarrow> cell \<Rightarrow> instr) \<Rightarrow> instr" where
  "quot_rem d n k vm = (case ficl2IntegerDivideSymmetric d n of None \<Rightarrow> Fault
     | Some qr \<Rightarrow> k (iquotient qr) (iremainder qr) vm)"

definition instr_SlashMod :: "fth_env \<Rightarrow> instr" where
  "instr_SlashMod E = CHECK_STACK 2 2 (dref 0 (\<lambda>n2. dmove (-1) (dref 0 (\<lambda>x. long_ref E x (\<lambda>d1.
     quot_rem (of_int d1) n2 (\<lambda>q r. dset 0 r (dmove 1 (dset 0 q continue))))))))"

definition instr_StarSlash :: instr where
  "instr_StarSlash = CHECK_STACK 3 1 (dref 0 (\<lambda>z. dmove (-1) (dref 0 (\<lambda>y. dmove (-1) (dref 0 (\<lambda>x.
     quot_rem (x * y) z (\<lambda>q r. dset 0 q continue)))))))"

definition instr_StarSlashMod :: instr where
  "instr_StarSlashMod = CHECK_STACK 3 2 (dref 0 (\<lambda>z. dmove (-1) (dref 0 (\<lambda>y. dmove (-1) (dref 0 (\<lambda>x.
     quot_rem (x * y) z (\<lambda>q r. dset 0 r (dmove 1 (dset 0 q continue)))))))))"

subsection \<open>Running words\<close>

definition instr_ColonParen :: "addr \<Rightarrow> instr" where
  "instr_ColonParen fw = rmove 1 (\<lambda>vm. rset 0 (vm_ip vm)
     (FICL_FW_CHECK fw (iset (word_param fw) continue)) vm)"

definition instr_CreateParen :: "addr \<Rightarrow> instr" where
  "instr_CreateParen fw = CHECK_STACK 0 1 (FICL_FW_CHECK fw
     (dmove 1 (dset 0 (word_param fw + 8) continue)))"

definition instr_VariableParen :: "addr \<Rightarrow> instr" where
  "instr_VariableParen fw = CHECK_STACK 0 1 (FICL_FW_CHECK fw (dmove 1 (dset 0 (word_param fw) continue)))"

definition set_location :: "addr \<Rightarrow> addr \<Rightarrow> cell \<Rightarrow> cell \<Rightarrow> ficlDictionary \<Rightarrow> (int, ficlDictionary) outcome" where
  "set_location next word file line dict =
     bind_outcome (d_word dict next) (\<lambda>w.
       Ok (set_word next (w\<lparr>w_current_word := word, w_current_file := file,
                            w_current_line := sint line\<rparr>) dict))"

definition instr_word_location :: instr where
  "instr_word_location vm = FICL_FW_CHECK (vm_ip vm)
     (iref (\<lambda>word. imove 1 (iref (\<lambda>file. imove 1 (iref (\<lambda>line. imove 1 (iref (\<lambda>next.
        with_dict (set_location next word file line) continue)))))))) vm"

definition instr_ConstantParen :: "addr \<Rightarrow> instr" where
  "instr_ConstantParen fw = CHECK_STACK 0 1 (FICL_FW_CHECK fw
     (mload (word_param fw) (\<lambda>c. dmove 1 (dset 0 c continue))))"

definition instr_UserParen :: "addr \<Rightarrow> instr" where
  "instr_UserParen fw = FICL_FW_CHECK fw (dmove 1 (mload (word_param fw) (\<lambda>i vm.
     dset 0 (vm_user vm + 8 * i) continue vm)))"

definition instr_bool_false :: instr where
  "instr_bool_false = CHECK_STACK 0 1 (dmove 1 (dset 0 0 continue))"

definition instr_bool_true :: instr where
  "instr_bool_true = CHECK_STACK 0 1 (dmove 1 (dset 0 (-1) continue))"

definition instr_bool_and :: "fth_env \<Rightarrow> instr" where
  "instr_bool_and E = binary_op (bool_and_values E)"

definition instr_bool_or :: "fth_env \<Rightarrow> instr" where
  "instr_bool_or E = binary_op (bool_or_values E)"

definition instr_bool_not :: "fth_env \<Rightarrow> instr" where
  "instr_bool_not E = unary_op (\<lambda>x. BOOL_TO_FTH E (VM_FALSE_OR_NULL_P E x))"

subsection \<open>Dispatch\<close>

definition optimize_branch :: "instr \<Rightarrow> ficlVm \<Rightarrow> vm_next vm_result option" where
  "optimize_branch k vm =
     (case ficlVmOptimizeJumpToJump (d_bytes (vm_dict vm)) (vm_ip vm - 8) of
        None \<Rightarrow> None
      | Some (Ok m) \<Rightarrow> Some (k (vm\<lparr>vm_dict := set_bytes m (vm_dict vm)\<rparr>))
      | Some (Throw e) \<Rightarrow> Some (ficlVmThrow vm e)
      | Some Fault \<Rightarrow> Some Fault)"

definition number_table :: "cell \<Rightarrow> instr option" where
  "number_table instruction =
     (if ficlInstruction1 \<le> instruction \<and> instruction \<le> ficlInstruction16
      then Some (instr_positive instruction)
      else if ficlInstruction0 \<le> instruction \<and> instruction \<le> ficlInstructionNeg16
      then Some (instr_negative instruction) else None)"

definition stack_table :: "fth_env \<Rightarrow> (cell \<times> instr) list" where
  "stack_table E =
    [(ficlInstructionDup, instr_Dup), (ficlInstructionFDup, instr_Dup),
     (ficlInstructionWithin, instr_Within E), (ficlInstructionQuestionDup, instr_QuestionDup E),
     (ficlInstructionSwap, instr_Swap), (ficlInstructionFSwap, instr_Swap),
     (ficlInstructionDrop, instr_Drop), (ficlInstructionFDrop, instr_Drop),
     (ficlInstructionNip, instr_Nip), (ficlInstructionTuck, instr_Tuck),
     (ficlInstruction2Drop, instr_2Drop), (ficlInstruction2Dup, instr_2Dup),
     (ficlInstructionOver, instr_Over), (ficlInstructionFOver, instr_Over),
     (ficlInstruction2Over, instr_2Over), (ficlInstructionPick, instr_Pick),
     (ficlInstructionRot, instr_Rot), (ficlInstructionFRot, instr_Rot),
     (ficlInstructionRoll, instr_Roll), (ficlInstructionMinusRot, instr_MinusRot),
     (ficlInstructionMinusRoll, instr_MinusRoll), (ficlInstruction2Swap, instr_2Swap),
     (ficlInstructionAnd, instr_And E), (ficlInstructionOr, instr_Or E),
     (ficlInstructionXor, instr_Xor), (ficlInstructionInvert, instr_Invert),
     (ficlInstructionToRStack, instr_ToRStack), (ficlInstructionFromRStack, instr_FromRStack),
     (ficlInstructionFetchRStack, instr_FetchRStack), (ficlInstruction2ToR, instr_2ToR),
     (ficlInstruction2RFrom, instr_2RFrom), (ficlInstruction2RFetch, instr_2RFetch)]"

definition memory_table :: "fth_env \<Rightarrow> addr \<Rightarrow> (cell \<times> instr) list" where
  "memory_table E fw =
    [(ficlInstructionInvalid, instr_Invalid),
     (ficlInstructionStringLiteralParen, instr_StringLiteralParen),
     (ficlInstructionCStringLiteralParen, instr_CStringLiteralParen),
     (ficlInstructionLiteralParen, instr_LiteralParen), (ficlInstructionLinkParen, instr_LinkParen),
     (ficlInstructionUnlinkParen, instr_UnlinkParen), (ficlInstructionGetLocalParen, instr_GetLocalParen),
     (ficlInstructionGetLocal0, instr_GetLocal0), (ficlInstructionGetLocal1, instr_GetLocal1),
     (ficlInstructionToLocalParen, instr_ToLocalParen), (ficlInstructionToLocal0, instr_ToLocal0),
     (ficlInstructionToLocal1, instr_ToLocal1), (ficlInstructionPlusToLocalParen, instr_PlusToLocalParen E),
     (ficlInstructionPlusToLocal0, instr_PlusToLocal0 E), (ficlInstructionPlusToLocal1, instr_PlusToLocal1 E),
     (ficlInstructionPlusStore, instr_PlusStore E), (ficlInstructionCFetch, instr_CFetch),
     (ficlInstructionCStore, instr_CStore), (ficlInstructionFill, instr_Fill),
     (ficlInstructionMove, instr_Move), (ficlInstructionCompare, instr_Compare),
     (ficlInstructionCompareInsensitive, instr_CompareInsensitive),
     (ficlInstructionExitParen, instr_SemiParen), (ficlInstructionSemiParen, instr_SemiParen),
     (ficlInstructionBranch0Paren, instr_Branch0Paren E), (ficlInstructionBranchParen, instr_BranchParen),
     (ficlInstructionOfParen, instr_OfParen), (ficlInstructionDoParen, instr_DoParen),
     (ficlInstructionQDoParen, instr_QDoParen E), (ficlInstructionLoopParen, instr_LoopParen E),
     (ficlInstructionPlusLoopParen, instr_PlusLoopParen E), (ficlInstructionLeave, instr_Leave),
     (ficlInstructionUnloop, instr_Unloop), (ficlInstructionI, instr_I), (ficlInstructionJ, instr_J),
     (ficlInstructionK, instr_K), (ficlInstructionDoesParen, instr_DoesParen),
     (ficlInstructionDoDoes, instr_DoDoes fw), (ficlInstructionFetch, instr_Fetch),
     (ficlInstructionStore, instr_Store), (ficlInstructionComma, instr_Comma),
     (ficlInstructionCompileComma, instr_Comma), (ficlInstructionCComma, instr_CComma),
     (ficlInstructionColonParen, instr_ColonParen fw), (ficlInstructionCreateParen, instr_CreateParen fw),
     (ficlInstructionVariableParen, instr_VariableParen fw), (ficl_word_location, instr_word_location),
     (ficlInstructionConstantParen, instr_ConstantParen fw), (ficlInstructionUserParen, instr_UserParen fw)]"

definition arith_table :: "fth_env \<Rightarrow> (cell \<times> instr) list" where
  "arith_table E =
    [(ficlInstructionLShift, instr_LShift), (ficlInstructionRShift, instr_RShift),
     (ficlInstructionMax, instr_Max), (ficlInstructionMin, instr_Min),
     (ficlInstructionCells, instr_Cells), (ficlInstructionCellPlus, instr_CellPlus),
     (ficlInstructionEquals, instr_Equals E), (ficl_not_eql, instr_not_eql E),
     (ficlInstructionLess, instr_Less E), (ficlInstructionGreaterThan, instr_GreaterThan E),
     (ficl_less_eql, instr_less_eql E), (ficl_greater_eql, instr_greater_eql E),
     (ficl_zero_p, instr_0Equals E), (ficlInstruction0Equals, instr_0Equals E),
     (ficl_0_not_eql, instr_0_not_eql E), (ficl_negative_p, instr_0Less E),
     (ficlInstruction0Less, instr_0Less E), (ficlInstruction0Greater, instr_0Greater E),
     (ficl_0_less_eql, instr_0_less_eql E), (ficl_positive_p, instr_0_greater_eql E),
     (ficl_0_greater_eql, instr_0_greater_eql E), (ficlInstructionPlus, instr_Plus),
     (ficlInstructionMinus, instr_Minus), (ficlInstructionStar, instr_Star),
     (ficlInstructionSlash, instr_Slash), (ficlInstruction1Plus, instr_1Plus),
     (ficlInstruction1Minus, instr_1Minus), (ficlInstruction2Plus, instr_2Plus),
     (ficlInstruction2Minus, instr_2Minus), (ficlInstruction2Star, instr_2Star),
     (ficlInstruction2Slash, instr_2Slash), (ficlInstructionNegate, instr_Negate),
     (ficl_abs, instr_abs), (ficlInstructionSlashMod, instr_SlashMod E),
     (ficlInstructionStarSlash, instr_StarSlash), (ficlInstructionStarSlashMod, instr_StarSlashMod),
     (ficl_bool_false, instr_bool_false), (ficl_bool_true, instr_bool_true),
     (ficl_bool_and, instr_bool_and E), (ficl_bool_or, instr_bool_or E), (ficl_bool_not, instr_bool_not E)]"

text \<open>The instructions on floating point numbers, and those that call C functions of words.\<close>

definition object_instructions :: "cell list" where
  "object_instructions =
    [ficlInstructionF0, ficlInstructionF1, ficlInstructionFNeg1, ficlInstructionFPlus,
     ficlInstructionFMinus, ficlInstructionFStar, ficlInstructionFNegate, ficlInstructionFSlash,
     ficlInstructionFPlusStore, ficl_f_zero_p, ficlInstructionF0Equals, ficl_f_negative_p,
     ficlInstructionF0Less, ficlInstructionF0Greater, ficlInstructionFEquals, ficlInstructionFLess,
     ficlInstructionFGreater, ficl_f_max, ficl_f_min, ficl_f0_not_eql, ficl_f0_less_eql,
     ficl_f_positive_p, ficl_f0_greater_eql, ficl_f_greater_eql, ficl_f_less_eql, ficl_f_not_eql,
     ficl_f2_star, ficl_f2_slash, ficl_1_slash_f, ficlInstructionFPlusToLocalParen,
     ficlInstructionFPlusToLocal0, ficlInstructionFPlusToLocal1, ficl_execute_func,
     ficl_execute_void_func, ficl_execute_trace_var]"

text \<open>The \<open>switch\<close>: \<open>None\<close> is its \<open>default\<close> label.\<close>

definition inner_switch ::
    "fth_env \<Rightarrow> addr \<Rightarrow> cell \<Rightarrow> (ficlVm \<Rightarrow> vm_next vm_result option) option" where
  "inner_switch E fw instruction =
     (if instruction = ficlInstructionBranchParenWithCheck
      then Some (optimize_branch instr_BranchParen)
      else if instruction = ficlInstructionBranch0ParenWithCheck
      then Some (optimize_branch (instr_Branch0Paren E))
      else case number_table instruction of Some f \<Rightarrow> Some (\<lambda>vm. Some (f vm))
      | None \<Rightarrow>
        (case map_of (stack_table E @ memory_table E fw @ arith_table E) instruction of
           Some f \<Rightarrow> Some (\<lambda>vm. Some (f vm))
         | None \<Rightarrow> if instruction \<in> set object_instructions
                   then Some (\<lambda>vm. Some (bind_outcome (object_instruction E instruction fw vm) continue))
                   else None))"

text \<open>
  \<open>default\<close>: a word whose code is an instruction is executed as that instruction, any other
  word by its C function. An instruction code that the \<open>switch\<close> does not know leads back to
  \<open>default\<close> with the same word for ever.
\<close>

definition exec_default :: "fth_env \<Rightarrow> addr \<Rightarrow> ficlVm \<Rightarrow> vm_next vm_result option" where
  "exec_default E fw vm =
     (case words (d_heap (vm_dict vm)) fw of None \<Rightarrow> Some Fault
      | Some w \<Rightarrow>
          if w_code w < ficlInstructionLast
          then (case inner_switch E fw (w_code w) of None \<Rightarrow> None | Some f \<Rightarrow> f vm)
          else Some (FICL_FW_CHECK fw (\<lambda>vm.
                 call_c (primitive_code E (w_code w)) (vm\<lparr>vm_runningWord := fw\<rparr>)) vm))"

definition exec_word :: "fth_env \<Rightarrow> addr \<Rightarrow> ficlVm \<Rightarrow> vm_next vm_result option" where
  "exec_word E fw vm =
     (case inner_switch E fw fw of Some f \<Rightarrow> f vm | None \<Rightarrow> exec_default E fw vm)"

subsection \<open>The loop\<close>

text \<open>One round without a word of its own: fetch the next cell and execute it.\<close>

definition inner_step :: "fth_env \<Rightarrow> ficlVm \<Rightarrow> vm_next vm_result option" where
  "inner_step E vm =
     (if vm_ip vm \<noteq> NULL
      then (case d_load_cell (vm_dict vm) (vm_ip vm) of
              Ok instruction \<Rightarrow> exec_word E instruction (vm\<lparr>vm_ip := vm_ip vm + 8\<rparr>)
            | _ \<Rightarrow> Some Fault)
      else Some (inner_handler vm (ficlVmThrow vm FICL_VM_STATUS_QUIT)))"

partial_function (option) inner_run :: "fth_env \<Rightarrow> ficlVm \<Rightarrow> ficlVm vm_result option" where
  "inner_run E vm = Option.bind (inner_step E vm) (\<lambda>r. case r of
       Ok (Continue vm) \<Rightarrow> inner_run E vm
     | Ok (Return vm) \<Rightarrow> Some (Ok vm)
     | Throw e \<Rightarrow> Some (Throw e)
     | Fault \<Rightarrow> Some Fault)"

text \<open>
  With a word \<open>fw\<close> the loop executes that word once; without one it runs from \<open>ip\<close> until an
  exception leaves it.
\<close>

definition ficlVmInnerLoop :: "fth_env \<Rightarrow> ficlVm \<Rightarrow> addr \<Rightarrow> ficlVm vm_result option" where
  "ficlVmInnerLoop E vm fw =
     (if fw \<noteq> NULL
      then map_option (\<lambda>r. bind_outcome r (\<lambda>n. case n of Continue vm \<Rightarrow> Ok vm | Return vm \<Rightarrow> Ok vm))
             (exec_word E fw vm)
      else inner_run E vm)"

end
