(* ===== verification/Ficl_Effects.thy ===== *)
theory Ficl_Effects
  imports Ficl_Inner_Loop
begin

section \<open>Stack effects of the instructions\<close>

text \<open>
  The specification of the stack instructions: each takes \<open>p\<close> cells from the data stack and
  leaves \<open>q\<close>, computed by a function on lists, or throws when cells or space are missing.
  The lemmas \<open>dok_\<dots>\<close> derive the effect of an instruction from its steps.
\<close>

abbreviation data :: "ficlVm \<Rightarrow> cell list" where
  "data vm \<equiv> stack_list (vm_dataStack vm)"

abbreviation rets :: "ficlVm \<Rightarrow> cell list" where
  "rets vm \<equiv> stack_list (vm_returnStack vm)"

definition vm_wf :: "ficlVm \<Rightarrow> bool" where
  "vm_wf vm = (stack_wf (vm_dataStack vm) \<and> stack_wf (vm_returnStack vm) \<and>
     st_name (vm_dataStack vm) = ''data'' \<and> st_name (vm_returnStack vm) = ''return'')"

definition same_shape :: "ficlStack \<Rightarrow> ficlStack \<Rightarrow> bool" where
  "same_shape s s' = (st_size s' = st_size s \<and> st_name s' = st_name s \<and> st_base s' = st_base s \<and>
     st_frame s' = st_frame s)"

text \<open>The result continues with the data stack \<open>ys\<close> and nothing else changed.\<close>

definition data_step :: "ficlVm \<Rightarrow> cell list \<Rightarrow> vm_next vm_result \<Rightarrow> bool" where
  "data_step vm ys r = (\<exists>s. r = Ok (Continue (vm\<lparr>vm_dataStack := s\<rparr>)) \<and> same_shape (vm_dataStack vm) s \<and>
     stack_wf s \<and> stack_list s = ys)"

text \<open>The exception that a failed stack check throws.\<close>

definition stack_error :: "int \<Rightarrow> ficlVm \<Rightarrow> vm_next vm_result" where
  "stack_error e vm = inner_handler vm (ficlVmThrowException vm e)"

definition stack_effect :: "nat \<Rightarrow> nat \<Rightarrow> (cell list \<Rightarrow> cell list) \<Rightarrow> instr \<Rightarrow> ficlVm \<Rightarrow> bool" where
  "stack_effect p q f i vm =
     (if length (data vm) < p then i vm = stack_error FICL_VM_STATUS_STACK_UNDERFLOW vm
      else if st_size (vm_dataStack vm) + p < length (data vm) + q
      then i vm = stack_error FICL_VM_STATUS_STACK_OVERFLOW vm
      else data_step vm (f (take p (data vm)) @ drop p (data vm)) (i vm))"

subsection \<open>Steps on a stack with cells above its top\<close>

text \<open>\<open>ys\<close> are the cells up to the top, \<open>as\<close> known cells above it.\<close>

definition at_stack :: "ficlStack \<Rightarrow> cell list \<Rightarrow> cell list \<Rightarrow> bool" where
  "at_stack s as ys = (st_top s = int (length ys) - 1 \<and> length ys + length as \<le> st_size s \<and>
     stk_list (st_cells s) (int (length ys + length as) - 1) = rev as @ ys)"

definition dok :: "nat \<Rightarrow> cell list \<Rightarrow> cell list \<Rightarrow> cell list \<Rightarrow> instr \<Rightarrow> bool" where
  "dok n as ys zs k = (\<forall>vm. st_size (vm_dataStack vm) = n \<longrightarrow> st_name (vm_dataStack vm) = ''data'' \<longrightarrow>
     at_stack (vm_dataStack vm) as ys \<longrightarrow> data_step vm zs (k vm))"

lemma at_stack_nth:
  assumes "at_stack s as ys"
  shows "i < length ys \<Longrightarrow> st_cells s (st_top s - int i) = ys ! i"
    and "i < length as \<Longrightarrow> st_cells s (st_top s + 1 + int i) = as ! i"
proof -
  let ?t = "int (length ys + length as) - 1"
  have l: "stk_list (st_cells s) ?t = rev as @ ys" and t: "st_top s = int (length ys) - 1"
    using assms by (auto simp: at_stack_def)
  have nth: "st_cells s (?t - int j) = (rev as @ ys) ! j" if "j < length as + length ys" for j
    using that stk_list_nth [of j ?t "st_cells s"] unfolding l by simp
  show "st_cells s (st_top s - int i) = ys ! i" if "i < length ys"
  proof -
    have e: "?t - int (length as + i) = st_top s - int i" using t by simp
    have v: "(rev as @ ys) ! (length as + i) = ys ! i" by (simp add: nth_append)
    show ?thesis using nth [of "length as + i"] that unfolding e v by simp
  qed
  show "st_cells s (st_top s + 1 + int i) = as ! i" if "i < length as"
  proof -
    have e: "?t - int (length as - 1 - i) = st_top s + 1 + int i" using t that by (simp add: of_nat_diff)
    have v: "(rev as @ ys) ! (length as - 1 - i) = as ! i" using that by (auto simp: nth_append rev_nth)
    show ?thesis using nth [of "length as - 1 - i"] that unfolding e v by simp
  qed
qed

lemma at_stackI:
  assumes "st_top s = int (length ys) - 1" and "length ys + length as \<le> st_size s"
    and "\<And>i. i < length ys \<Longrightarrow> st_cells s (st_top s - int i) = ys ! i"
    and "\<And>i. i < length as \<Longrightarrow> st_cells s (st_top s + 1 + int i) = as ! i"
  shows "at_stack s as ys"
proof -
  let ?t = "int (length ys + length as) - 1"
  have "stk_list (st_cells s) ?t = rev as @ ys"
  proof (rule nth_equalityI)
    show "length (stk_list (st_cells s) ?t) = length (rev as @ ys)" by simp
  next
    fix j assume "j < length (stk_list (st_cells s) ?t)"
    then have j: "j < length as + length ys" by simp
    show "stk_list (st_cells s) ?t ! j = (rev as @ ys) ! j"
    proof (cases "j < length as")
      case True
      then have e: "st_top s + 1 + int (length as - 1 - j) = ?t - int j"
        using assms(1) by (simp add: of_nat_diff)
      have "stk_list (st_cells s) ?t ! j = as ! (length as - 1 - j)"
        using True j assms(4) [of "length as - 1 - j"] unfolding e by (subst stk_list_nth) auto
      then show ?thesis using True by (simp add: nth_append rev_nth)
    next
      case False
      then have e: "st_top s - int (j - length as) = ?t - int j"
        using assms(1) by (simp add: of_nat_diff)
      have "stk_list (st_cells s) ?t ! j = ys ! (j - length as)"
        using False j assms(3) [of "j - length as"] unfolding e by (subst stk_list_nth) auto
      then show ?thesis using False by (simp add: nth_append)
    qed
  qed
  then show ?thesis using assms(1,2) by (simp add: at_stack_def)
qed

lemma at_stack_bounds:
  "at_stack s as ys \<Longrightarrow> st_top s = int (length ys) - 1 \<and> length ys + length as \<le> st_size s"
  by (simp add: at_stack_def)

lemma at_stack_data: "stack_wf s \<Longrightarrow> at_stack s [] (stack_list s)"
  by (auto simp: at_stack_def stack_list_def stack_wf_def)

lemma at_stack_list: "at_stack s as ys \<Longrightarrow> stack_wf s \<and> stack_list s = ys"
proof -
  assume a: "at_stack s as ys"
  then have t: "st_top s = int (length ys) - 1" "length ys + length as \<le> st_size s"
    by (simp_all add: at_stack_def)
  have "stack_list s = ys"
    using t at_stack_nth(1) [OF a] by (intro nth_equalityI) (auto simp: stack_list_def stk_list_nth)
  then show ?thesis using t by (simp add: stack_wf_def)
qed

lemma data_step_trans:
  "same_shape (vm_dataStack vm) s \<Longrightarrow> data_step (vm\<lparr>vm_dataStack := s\<rparr>) zs r \<Longrightarrow> data_step vm zs r"
  by (auto simp: data_step_def same_shape_def)

subsection \<open>Rules for the steps\<close>

lemma dok_continue: "dok n as ys ys continue"
  unfolding dok_def
proof (intro allI impI)
  fix vm :: ficlVm assume "at_stack (vm_dataStack vm) as ys"
  then show "data_step vm ys (continue vm)"
    using at_stack_list unfolding data_step_def continue_def same_shape_def
    by (intro exI [of _ "vm_dataStack vm"]) auto
qed

lemma dok_dref:
  assumes "j \<le> 0" and "nat (- j) < length ys" and "dok n as ys zs (k (ys ! nat (- j)))"
  shows "dok n as ys zs (dref j k)"
  unfolding dok_def
proof (intro allI impI)
  fix vm :: ficlVm assume h: "st_size (vm_dataStack vm) = n" "st_name (vm_dataStack vm) = ''data''"
    and a: "at_stack (vm_dataStack vm) as ys"
  have "stk_get (vm_dataStack vm) j = Ok (ys ! nat (- j))"
    using at_stack_nth(1) [OF a assms(2)] at_stack_bounds [OF a] assms(1,2)
    by (simp add: stk_access_defs)
  then show "data_step vm zs (dref j k vm)"
    using assms(3) h a by (simp add: dref_def dok_def)
qed

lemma dok_dset:
  assumes "j \<le> 0" and "nat (- j) < length ys" and "dok n as (ys[nat (- j) := c]) zs k"
  shows "dok n as ys zs (dset j c k)"
  unfolding dok_def
proof (intro allI impI)
  fix vm :: ficlVm assume h: "st_size (vm_dataStack vm) = n" "st_name (vm_dataStack vm) = ''data''"
    and a: "at_stack (vm_dataStack vm) as ys"
  let ?s = "(vm_dataStack vm)\<lparr>st_cells := (st_cells (vm_dataStack vm))(st_top (vm_dataStack vm) + j := c)\<rparr>"
  have set: "stk_set (vm_dataStack vm) j c = Ok ?s"
    using at_stack_bounds [OF a] assms(1,2) by (simp add: stk_access_defs)
  have "at_stack ?s as (ys[nat (- j) := c])"
    using at_stack_bounds [OF a] at_stack_nth [OF a] assms(1,2)
    by (intro at_stackI) (auto simp: nth_list_update)
  then have "data_step (vm\<lparr>vm_dataStack := ?s\<rparr>) zs (k (vm\<lparr>vm_dataStack := ?s\<rparr>))"
    using assms(3) h by (simp add: dok_def)
  then show "data_step vm zs (dset j c k vm)"
    unfolding dset_def set outcome.case by (rule data_step_trans [rotated]) (simp add: same_shape_def)
qed

lemma dok_dset_above:
  assumes "0 < j" and "nat j = Suc (length as)" and "length ys + length as < n"
    and "dok n (as @ [c]) ys zs k"
  shows "dok n as ys zs (dset j c k)"
  unfolding dok_def
proof (intro allI impI)
  fix vm :: ficlVm assume h: "st_size (vm_dataStack vm) = n" "st_name (vm_dataStack vm) = ''data''"
    and a: "at_stack (vm_dataStack vm) as ys"
  let ?s = "(vm_dataStack vm)\<lparr>st_cells := (st_cells (vm_dataStack vm))(st_top (vm_dataStack vm) + j := c)\<rparr>"
  have set: "stk_set (vm_dataStack vm) j c = Ok ?s"
    using at_stack_bounds [OF a] assms(1-3) h by (simp add: stk_access_defs)
  have "at_stack ?s (as @ [c]) ys"
    using at_stack_bounds [OF a] at_stack_nth [OF a] assms(1-3) h
    by (intro at_stackI) (auto simp: nth_append less_Suc_eq)
  then have "data_step (vm\<lparr>vm_dataStack := ?s\<rparr>) zs (k (vm\<lparr>vm_dataStack := ?s\<rparr>))"
    using assms(4) h by (simp add: dok_def)
  then show "data_step vm zs (dset j c k vm)"
    unfolding dset_def set outcome.case by (rule data_step_trans [rotated]) (simp add: same_shape_def)
qed

text \<open>Moving the top: the cells that it passes are known afterwards.\<close>

lemma dok_moved:
  assumes "\<And>s. at_stack s as ys \<Longrightarrow> st_size s = n \<Longrightarrow>
      \<exists>as' ys'. at_stack (s\<lparr>st_top := st_top s + j\<rparr>) as' ys' \<and> dok n as' ys' zs k"
  shows "dok n as ys zs (dmove j k)"
  unfolding dok_def
proof (intro allI impI)
  fix vm :: ficlVm assume h: "st_size (vm_dataStack vm) = n" "st_name (vm_dataStack vm) = ''data''"
    and a: "at_stack (vm_dataStack vm) as ys"
  let ?s = "(vm_dataStack vm)\<lparr>st_top := st_top (vm_dataStack vm) + j\<rparr>"
  obtain as' ys' where "at_stack ?s as' ys'" "dok n as' ys' zs k" using assms [OF a h(1)] by blast
  then have "data_step (vm\<lparr>vm_dataStack := ?s\<rparr>) zs (k (vm\<lparr>vm_dataStack := ?s\<rparr>))"
    using h by (simp add: dok_def)
  then show "data_step vm zs (dmove j k vm)"
    unfolding dmove_def by (rule data_step_trans [rotated]) (simp add: same_shape_def)
qed

lemma dok_dmove_down:
  assumes "j < 0" and "nat (- j) \<le> length ys"
    and "dok n (rev (take (nat (- j)) ys) @ as) (drop (nat (- j)) ys) zs k"
  shows "dok n as ys zs (dmove j k)"
proof (rule dok_moved)
  fix s assume a: "at_stack s as ys" and n: "st_size s = n"
  let ?m = "nat (- j)"
  have "at_stack (s\<lparr>st_top := st_top s + j\<rparr>) (rev (take ?m ys) @ as) (drop ?m ys)"
  proof (rule at_stackI)
    fix i assume "i < length (drop ?m ys)"
    then show "st_cells (s\<lparr>st_top := st_top s + j\<rparr>) (st_top (s\<lparr>st_top := st_top s + j\<rparr>) - int i) =
        drop ?m ys ! i"
      using at_stack_nth(1) [OF a, of "?m + i"] assms(1,2) by (simp add: algebra_simps)
  next
    fix i assume i: "i < length (rev (take ?m ys) @ as)"
    show "st_cells (s\<lparr>st_top := st_top s + j\<rparr>) (st_top (s\<lparr>st_top := st_top s + j\<rparr>) + 1 + int i) =
        (rev (take ?m ys) @ as) ! i"
    proof (cases "i < ?m")
      case True
      then have e: "st_top s + j + 1 + int i = st_top s - int (?m - 1 - i)" using assms(1) by linarith
      have "st_cells s (st_top s + j + 1 + int i) = ys ! (?m - 1 - i)"
        unfolding e using True assms(2) by (intro at_stack_nth(1) [OF a]) simp
      then show ?thesis using True assms(2) by (simp add: nth_append rev_nth)
    next
      case False
      then show ?thesis
        using at_stack_nth(2) [OF a, of "i - ?m"] i assms(1,2)
        by (simp add: nth_append of_nat_diff algebra_simps)
    qed
  qed (use at_stack_bounds [OF a] assms(1,2) in auto)
  then show "\<exists>as' ys'. at_stack (s\<lparr>st_top := st_top s + j\<rparr>) as' ys' \<and> dok n as' ys' zs k"
    using assms(3) by blast
qed

lemma dok_dmove_up:
  assumes "0 < j" and "nat j \<le> length as"
    and "dok n (drop (nat j) as) (rev (take (nat j) as) @ ys) zs k"
  shows "dok n as ys zs (dmove j k)"
proof (rule dok_moved)
  fix s assume a: "at_stack s as ys" and n: "st_size s = n"
  let ?m = "nat j" and ?s = "s\<lparr>st_top := st_top s + j\<rparr>"
  have "at_stack ?s (drop ?m as) (rev (take ?m as) @ ys)"
  proof (rule at_stackI)
    fix i assume i: "i < length (rev (take ?m as) @ ys)"
    show "st_cells ?s (st_top ?s - int i) = (rev (take ?m as) @ ys) ! i"
    proof (cases "i < ?m")
      case True
      then have e: "st_top s + j - int i = st_top s + 1 + int (?m - 1 - i)" using assms(1) by linarith
      have "st_cells s (st_top s + j - int i) = as ! (?m - 1 - i)"
        unfolding e using True assms(2) by (intro at_stack_nth(2) [OF a]) simp
      then show ?thesis using True assms(2) by (simp add: nth_append rev_nth)
    next
      case False
      then have e: "st_top s + j - int i = st_top s - int (i - ?m)" using assms(1) by linarith
      have "st_cells s (st_top s + j - int i) = ys ! (i - ?m)"
        unfolding e using False i assms(2) by (intro at_stack_nth(1) [OF a]) simp
      then show ?thesis using False assms(2) by (simp add: nth_append)
    qed
  next
    fix i assume i: "i < length (drop ?m as)"
    have e: "st_top s + j + 1 + int i = st_top s + 1 + int (?m + i)" using assms(1) by simp
    have "st_cells s (st_top s + j + 1 + int i) = as ! (?m + i)"
      unfolding e using i by (intro at_stack_nth(2) [OF a]) simp
    then show "st_cells ?s (st_top ?s + 1 + int i) = drop ?m as ! i" using assms(2) by simp
  qed (use at_stack_bounds [OF a] assms(1,2) in auto)
  then show "\<exists>as' ys'. at_stack ?s as' ys' \<and> dok n as' ys' zs k"
    using assms(3) by blast
qed

text \<open>Above the known cells the stack holds arbitrary values.\<close>

lemma dok_dmove_fresh:
  assumes "length ys < n" and "\<And>a. dok n [] (a # ys) zs k"
  shows "dok n [] ys zs (dmove 1 k)"
proof (rule dok_moved)
  fix s assume a: "at_stack s [] ys" and n: "st_size s = n"
  let ?s = "s\<lparr>st_top := st_top s + 1\<rparr>"
  have "at_stack ?s [] (st_cells s (st_top s + 1) # ys)"
  proof (rule at_stackI)
    fix i assume i: "i < length (st_cells s (st_top s + 1) # ys)"
    show "st_cells ?s (st_top ?s - int i) = (st_cells s (st_top s + 1) # ys) ! i"
      using i at_stack_nth(1) [OF a, of "i - 1"] by (cases i) simp_all
  qed (use at_stack_bounds [OF a] assms(1) n in auto)
  then show "\<exists>as' ys'. at_stack ?s as' ys' \<and> dok n as' ys' zs k"
    using assms(2) by blast
qed

lemma dok_if:
  "(b \<Longrightarrow> dok n as ys zs k1) \<Longrightarrow> (\<not> b \<Longrightarrow> dok n as ys zs k2) \<Longrightarrow> dok n as ys zs (if b then k1 else k2)"
  by simp

lemma dok_ref_at:
  "dok n as (x # ys) zs (k x) \<Longrightarrow> dok n as (x # ys) zs (dref 0 k)"
  "dok n as (x # y # ys) zs (k y) \<Longrightarrow> dok n as (x # y # ys) zs (dref (-1) k)"
  "dok n as (x # y # z # ys) zs (k z) \<Longrightarrow> dok n as (x # y # z # ys) zs (dref (-2) k)"
  "dok n as (x # y # z # w # ys) zs (k w) \<Longrightarrow> dok n as (x # y # z # w # ys) zs (dref (-3) k)"
  by (rule dok_dref; simp add: eval_nat_numeral)+

lemma dok_set_at:
  "dok n as (c # ys) zs k \<Longrightarrow> dok n as (x # ys) zs (dset 0 c k)"
  "dok n as (x # c # ys) zs k \<Longrightarrow> dok n as (x # y # ys) zs (dset (-1) c k)"
  "dok n as (x # y # c # ys) zs k \<Longrightarrow> dok n as (x # y # z # ys) zs (dset (-2) c k)"
  "dok n as (x # y # z # c # ys) zs k \<Longrightarrow> dok n as (x # y # z # w # ys) zs (dset (-3) c k)"
  by (rule dok_dset; simp add: eval_nat_numeral)+

lemma dok_set_above:
  "length ys < n \<Longrightarrow> dok n [c] ys zs k \<Longrightarrow> dok n [] ys zs (dset 1 c k)"
  "Suc (length ys) < n \<Longrightarrow> dok n [a, c] ys zs k \<Longrightarrow> dok n [a] ys zs (dset 2 c k)"
  by (rule dok_dset_above; simp add: eval_nat_numeral)+

lemma dok_move_at:
  "dok n (x # as) ys zs k \<Longrightarrow> dok n as (x # ys) zs (dmove (-1) k)"
  "dok n (y # x # as) ys zs k \<Longrightarrow> dok n as (x # y # ys) zs (dmove (-2) k)"
  by (rule dok_dmove_down; simp add: eval_nat_numeral)+

lemma dok_move_up:
  "dok n as (a # ys) zs k \<Longrightarrow> dok n (a # as) ys zs (dmove 1 k)"
  "dok n as (b # a # ys) zs k \<Longrightarrow> dok n (a # b # as) ys zs (dmove 2 k)"
  by (rule dok_dmove_up; simp add: eval_nat_numeral)+

lemmas dok_rules = dok_continue dok_ref_at dok_set_at dok_set_above dok_move_at dok_move_up
  dok_dmove_fresh dok_if

subsection \<open>Checked instructions\<close>

lemma CHECK_STACK_cases:
  assumes "vm_wf vm"
  shows "CHECK_STACK (int p) (int q) k vm =
    (if length (data vm) < p then stack_error FICL_VM_STATUS_STACK_UNDERFLOW vm
     else if st_size (vm_dataStack vm) + p < length (data vm) + q
     then stack_error FICL_VM_STATUS_STACK_OVERFLOW vm else k vm)"
proof -
  have "stack_wf (vm_dataStack vm)" "st_name (vm_dataStack vm) = ''data''"
    using assms by (auto simp: vm_wf_def)
  then show ?thesis
    by (auto simp: CHECK_STACK_def stack_checked_def ficlStackCheck_iff stack_error_def)
qed

lemma stack_effectI:
  assumes "vm_wf vm"
    and "\<And>n xs r. length xs = p \<Longrightarrow> length r + p \<le> n \<Longrightarrow> length r + q \<le> n \<Longrightarrow>
           dok n [] (xs @ r) (f xs @ r) k"
  shows "stack_effect p q f (CHECK_STACK (int p) (int q) k) vm"
proof -
  let ?ys = "data vm" and ?n = "st_size (vm_dataStack vm)"
  have wf: "stack_wf (vm_dataStack vm)" "st_name (vm_dataStack vm) = ''data''"
    using assms(1) by (auto simp: vm_wf_def)
  have "data_step vm (f (take p ?ys) @ drop p ?ys) (k vm)"
    if "\<not> length ?ys < p" "\<not> ?n + p < length ?ys + q"
  proof -
    have "dok ?n [] (take p ?ys @ drop p ?ys) (f (take p ?ys) @ drop p ?ys) k"
      using that stack_wf_length [OF wf(1)] by (intro assms(2)) auto
    then show ?thesis
      using wf at_stack_data [OF wf(1)] by (simp add: dok_def)
  qed
  then show ?thesis
    unfolding stack_effect_def CHECK_STACK_cases [OF assms(1)] by auto
qed

lemma length_Suc0: "length xs = Suc 0 \<longleftrightarrow> (\<exists>x. xs = [x])"
  by (auto simp: length_Suc_conv)

lemma effect_0:
  assumes "vm_wf vm" and "Q = int q" and "\<And>n r. length r + q \<le> n \<Longrightarrow> dok n [] r (f [] @ r) k"
  shows "stack_effect 0 q f (CHECK_STACK 0 Q k) vm"
  using stack_effectI [OF assms(1), of 0 q f k] assms(2,3) by simp

lemma effect_1:
  assumes "vm_wf vm" and "Q = int q"
    and "\<And>n x r. length r + 1 \<le> n \<Longrightarrow> length r + q \<le> n \<Longrightarrow> dok n [] (x # r) (f [x] @ r) k"
  shows "stack_effect 1 q f (CHECK_STACK 1 Q k) vm"
proof -
  have "dok n [] (xs @ r) (f xs @ r) k"
    if "length xs = 1" "length r + 1 \<le> n" "length r + q \<le> n" for n xs r
    using assms(3) [OF that(2,3)] that(1) by (auto simp: length_Suc_conv)
  then show ?thesis using stack_effectI [OF assms(1), of 1 q f k] assms(2) by simp
qed

lemma effect_2:
  assumes "vm_wf vm" and "Q = int q"
    and "\<And>n x y r. length r + 2 \<le> n \<Longrightarrow> length r + q \<le> n \<Longrightarrow> dok n [] (x # y # r) (f [x, y] @ r) k"
  shows "stack_effect 2 q f (CHECK_STACK 2 Q k) vm"
proof -
  have "dok n [] (xs @ r) (f xs @ r) k"
    if "length xs = 2" "length r + 2 \<le> n" "length r + q \<le> n" for n xs r
    using assms(3) [OF that(2,3)] that(1) by (auto simp: length_Suc_conv numeral_2_eq_2)
  then show ?thesis using stack_effectI [OF assms(1), of 2 q f k] assms(2) by simp
qed

lemma effect_3:
  assumes "vm_wf vm" and "Q = int q"
    and "\<And>n x y z r. length r + 3 \<le> n \<Longrightarrow> length r + q \<le> n \<Longrightarrow>
      dok n [] (x # y # z # r) (f [x, y, z] @ r) k"
  shows "stack_effect 3 q f (CHECK_STACK 3 Q k) vm"
proof -
  have "dok n [] (xs @ r) (f xs @ r) k"
    if "length xs = 3" "length r + 3 \<le> n" "length r + q \<le> n" for n xs r
    using assms(3) [OF that(2,3)] that(1) by (auto simp: length_Suc_conv numeral_3_eq_3)
  then show ?thesis using stack_effectI [OF assms(1), of 3 q f k] assms(2) by simp
qed

lemma effect_4:
  assumes "vm_wf vm" and "Q = int q"
    and "\<And>n x y z w r. length r + 4 \<le> n \<Longrightarrow> length r + q \<le> n \<Longrightarrow>
      dok n [] (x # y # z # w # r) (f [x, y, z, w] @ r) k"
  shows "stack_effect 4 q f (CHECK_STACK 4 Q k) vm"
proof -
  have "dok n [] (xs @ r) (f xs @ r) k"
    if "length xs = 4" "length r + 4 \<le> n" "length r + q \<le> n" for n xs r
    using assms(3) [OF that(2,3)] that(1) by (auto simp: length_Suc_conv eval_nat_numeral)
  then show ?thesis using stack_effectI [OF assms(1), of 4 q f k] assms(2) by simp
qed

subsection \<open>The stack instructions\<close>

lemma effect_Dup: "vm_wf vm \<Longrightarrow> stack_effect 1 2 (\<lambda>xs. [xs ! 0, xs ! 0]) instr_Dup vm"
  unfolding instr_Dup_def by (rule effect_1) (auto intro!: dok_rules)

lemma effect_Tuck: "vm_wf vm \<Longrightarrow> stack_effect 2 3 (\<lambda>xs. [xs ! 0, xs ! 1, xs ! 0]) instr_Tuck vm"
  unfolding instr_Tuck_def by (rule effect_2) (auto intro!: dok_rules)

lemma effect_binary: "vm_wf vm \<Longrightarrow> stack_effect 2 1 (\<lambda>xs. [g (xs ! 1) (xs ! 0)]) (binary_op g) vm"
  unfolding binary_op_def by (rule effect_2) (auto intro!: dok_rules)

lemma effect_unary: "vm_wf vm \<Longrightarrow> stack_effect 1 1 (\<lambda>xs. [g (xs ! 0)]) (unary_op g) vm"
  unfolding unary_op_def by (rule effect_1) (auto intro!: dok_rules)

lemma effect_number: "vm_wf vm \<Longrightarrow> stack_effect 0 1 (\<lambda>_. [c]) (CHECK_STACK 0 1 (dmove 1 (dset 0 c continue))) vm"
  by (rule effect_0) (auto intro!: dok_rules)

text \<open>\<open>rot\<close> and \<open>-rot\<close> also ask for the space of one more cell.\<close>

lemma drefs_2: "drefs n 2 k = dref n (\<lambda>a. dref (n + 1) (\<lambda>b. k [a, b]))"
  by (simp add: numeral_2_eq_2)

lemma c_int_2: "c_int 2 = 2"
  by (simp add: c_int_def)

lemma effect_Rot: "vm_wf vm \<Longrightarrow> stack_effect 3 4 (\<lambda>xs. [xs ! 2, xs ! 0, xs ! 1]) instr_Rot vm"
  by (simp add: instr_Rot_def ROLL_def dmemmove_def c_int_2 drefs_2)
     (rule effect_3, auto intro!: dok_rules)

lemma effect_MinusRot: "vm_wf vm \<Longrightarrow> stack_effect 3 4 (\<lambda>xs. [xs ! 1, xs ! 2, xs ! 0]) instr_MinusRot vm"
  by (simp add: instr_MinusRot_def MINUSROLL_def dmemmove_def c_int_2 drefs_2)
     (rule effect_3, auto intro!: dok_rules)

lemma effect_Swap: "vm_wf vm \<Longrightarrow> stack_effect 2 2 (\<lambda>xs. [xs ! 1, xs ! 0]) instr_Swap vm"
  unfolding instr_Swap_def by (rule effect_2) (auto intro!: dok_rules)

lemma effect_Drop: "vm_wf vm \<Longrightarrow> stack_effect 1 0 (\<lambda>xs. []) instr_Drop vm"
  unfolding instr_Drop_def by (rule effect_1) (auto intro!: dok_rules)

lemma effect_Nip: "vm_wf vm \<Longrightarrow> stack_effect 2 1 (\<lambda>xs. [xs ! 0]) instr_Nip vm"
  unfolding instr_Nip_def by (rule effect_2) (auto intro!: dok_rules)

lemma effect_2Drop: "vm_wf vm \<Longrightarrow> stack_effect 2 0 (\<lambda>xs. []) instr_2Drop vm"
  unfolding instr_2Drop_def by (rule effect_2) (auto intro!: dok_rules)

lemma effect_2Dup: "vm_wf vm \<Longrightarrow> stack_effect 2 4 (\<lambda>xs. [xs ! 0, xs ! 1, xs ! 0, xs ! 1]) instr_2Dup vm"
  unfolding instr_2Dup_def by (rule effect_2) (auto intro!: dok_rules)

lemma effect_Over: "vm_wf vm \<Longrightarrow> stack_effect 2 3 (\<lambda>xs. [xs ! 1, xs ! 0, xs ! 1]) instr_Over vm"
  unfolding instr_Over_def by (rule effect_2) (auto intro!: dok_rules)

lemma effect_2Over:
  "vm_wf vm \<Longrightarrow> stack_effect 4 6 (\<lambda>xs. [xs ! 2, xs ! 3, xs ! 0, xs ! 1, xs ! 2, xs ! 3]) instr_2Over vm"
  unfolding instr_2Over_def by (rule effect_4) (auto intro!: dok_rules)

lemma effect_2Swap: "vm_wf vm \<Longrightarrow> stack_effect 4 4 (\<lambda>xs. [xs ! 2, xs ! 3, xs ! 0, xs ! 1]) instr_2Swap vm"
  unfolding instr_2Swap_def by (rule effect_4) (auto intro!: dok_rules)

lemma effect_QuestionDup:
  "vm_wf vm \<Longrightarrow> stack_effect 1 2 (\<lambda>xs. if VM_FALSE_OR_NULL_P E (xs ! 0) then xs else [xs ! 0, xs ! 0])
     (instr_QuestionDup E) vm"
  unfolding instr_QuestionDup_def by (rule effect_1) (auto intro!: dok_rules)

lemma effect_And:
  "vm_wf vm \<Longrightarrow> stack_effect 2 1 (\<lambda>xs. [if fth_instance_p E (xs ! 0) then bool_and_values E (xs ! 1) (xs ! 0)
     else xs ! 1 AND xs ! 0]) (instr_And E) vm"
  unfolding instr_And_def by (rule effect_2) (auto intro!: dok_rules)

lemma effect_Or:
  "vm_wf vm \<Longrightarrow> stack_effect 2 1 (\<lambda>xs. [if fth_instance_p E (xs ! 0) then bool_or_values E (xs ! 1) (xs ! 0)
     else xs ! 1 OR xs ! 0]) (instr_Or E) vm"
  unfolding instr_Or_def by (rule effect_2) (auto intro!: dok_rules)

subsection \<open>The specification table\<close>

text \<open>
  Stack effects as the Forth standard gives them, the topmost cell first: instruction,
  cells taken, and the function computed on these cells.
\<close>

type_synonym effect_spec = "cell \<times> nat \<times> (cell list \<Rightarrow> cell list)"

definition manipulation_spec :: "fth_env \<Rightarrow> effect_spec list" where
  "manipulation_spec E =
    [(ficlInstructionDup, 1, \<lambda>xs. [xs ! 0, xs ! 0]),
     (ficlInstructionFDup, 1, \<lambda>xs. [xs ! 0, xs ! 0]),
     (ficlInstructionQuestionDup, 1,
        \<lambda>xs. if VM_FALSE_OR_NULL_P E (xs ! 0) then xs else [xs ! 0, xs ! 0]),
     (ficlInstructionSwap, 2, \<lambda>xs. [xs ! 1, xs ! 0]),
     (ficlInstructionFSwap, 2, \<lambda>xs. [xs ! 1, xs ! 0]),
     (ficlInstructionDrop, 1, \<lambda>xs. []),
     (ficlInstructionFDrop, 1, \<lambda>xs. []),
     (ficlInstructionNip, 2, \<lambda>xs. [xs ! 0]),
     (ficlInstructionTuck, 2, \<lambda>xs. [xs ! 0, xs ! 1, xs ! 0]),
     (ficlInstruction2Drop, 2, \<lambda>xs. []),
     (ficlInstruction2Dup, 2, \<lambda>xs. [xs ! 0, xs ! 1, xs ! 0, xs ! 1]),
     (ficlInstructionOver, 2, \<lambda>xs. [xs ! 1, xs ! 0, xs ! 1]),
     (ficlInstructionFOver, 2, \<lambda>xs. [xs ! 1, xs ! 0, xs ! 1]),
     (ficlInstruction2Over, 4, \<lambda>xs. [xs ! 2, xs ! 3, xs ! 0, xs ! 1, xs ! 2, xs ! 3]),
     (ficlInstructionRot, 3, \<lambda>xs. [xs ! 2, xs ! 0, xs ! 1]),
     (ficlInstructionFRot, 3, \<lambda>xs. [xs ! 2, xs ! 0, xs ! 1]),
     (ficlInstructionMinusRot, 3, \<lambda>xs. [xs ! 1, xs ! 2, xs ! 0]),
     (ficlInstruction2Swap, 4, \<lambda>xs. [xs ! 2, xs ! 3, xs ! 0, xs ! 1]),
     (ficlInstructionAnd, 2, \<lambda>xs. [if fth_instance_p E (xs ! 0)
        then bool_and_values E (xs ! 1) (xs ! 0) else xs ! 1 AND xs ! 0]),
     (ficlInstructionOr, 2, \<lambda>xs. [if fth_instance_p E (xs ! 0)
        then bool_or_values E (xs ! 1) (xs ! 0) else xs ! 1 OR xs ! 0]),
     (ficl_bool_false, 0, \<lambda>xs. [0]), (ficl_bool_true, 0, \<lambda>xs. [-1])]"

text \<open>Instructions that compute one cell from two, and one from one.\<close>

definition binary_spec :: "fth_env \<Rightarrow> (cell \<times> (cell \<Rightarrow> cell \<Rightarrow> cell)) list" where
  "binary_spec E =
    [(ficlInstructionXor, \<lambda>x i. x XOR i),
     (ficlInstructionMax, \<lambda>x i. if sint x > sint i then x else i),
     (ficlInstructionMin, \<lambda>x i. if sint x < sint i then x else i),
     (ficlInstructionEquals, \<lambda>x i. BOOL_TO_FTH E (x = i)),
     (ficl_not_eql, \<lambda>x i. BOOL_TO_FTH E (x \<noteq> i)),
     (ficlInstructionLess, \<lambda>x i. BOOL_TO_FTH E (sint x < sint i)),
     (ficlInstructionGreaterThan, \<lambda>x i. BOOL_TO_FTH E (sint x > sint i)),
     (ficl_less_eql, \<lambda>x i. BOOL_TO_FTH E (sint x \<le> sint i)),
     (ficl_greater_eql, \<lambda>x i. BOOL_TO_FTH E (sint x \<ge> sint i)),
     (ficlInstructionPlus, \<lambda>x i. x + i), (ficlInstructionMinus, \<lambda>x i. x - i),
     (ficlInstructionStar, \<lambda>x i. x * i),
     (ficl_bool_and, bool_and_values E), (ficl_bool_or, bool_or_values E)]"

definition unary_spec :: "fth_env \<Rightarrow> (cell \<times> (cell \<Rightarrow> cell)) list" where
  "unary_spec E =
    [(ficlInstructionInvert, \<lambda>x. NOT x), (ficlInstructionCells, \<lambda>x. x * 8),
     (ficlInstructionCellPlus, \<lambda>x. x + 8),
     (ficl_zero_p, \<lambda>x. BOOL_TO_FTH E (sint x = 0)), (ficlInstruction0Equals, \<lambda>x. BOOL_TO_FTH E (sint x = 0)),
     (ficl_0_not_eql, \<lambda>x. BOOL_TO_FTH E (sint x \<noteq> 0)),
     (ficl_negative_p, \<lambda>x. BOOL_TO_FTH E (sint x < 0)), (ficlInstruction0Less, \<lambda>x. BOOL_TO_FTH E (sint x < 0)),
     (ficlInstruction0Greater, \<lambda>x. BOOL_TO_FTH E (sint x > 0)),
     (ficl_0_less_eql, \<lambda>x. BOOL_TO_FTH E (sint x \<le> 0)),
     (ficl_positive_p, \<lambda>x. BOOL_TO_FTH E (sint x \<ge> 0)), (ficl_0_greater_eql, \<lambda>x. BOOL_TO_FTH E (sint x \<ge> 0)),
     (ficlInstruction1Plus, \<lambda>x. x + 1), (ficlInstruction1Minus, \<lambda>x. x - 1),
     (ficlInstruction2Plus, \<lambda>x. x + 2), (ficlInstruction2Minus, \<lambda>x. x - 2),
     (ficlInstruction2Star, \<lambda>x. push_bit 1 x), (ficlInstruction2Slash, \<lambda>x. of_int (sint x div 2)),
     (ficlInstructionNegate, \<lambda>x. - x),
     (ficl_bool_not, \<lambda>x. BOOL_TO_FTH E (VM_FALSE_OR_NULL_P E x))]"

definition forth_spec :: "fth_env \<Rightarrow> effect_spec list" where
  "forth_spec E = manipulation_spec E @
     map (\<lambda>(c, g). (c, 2, \<lambda>xs. [g (xs ! 1) (xs ! 0)])) (binary_spec E) @
     map (\<lambda>(c, g). (c, 1, \<lambda>xs. [g (xs ! 0)])) (unary_spec E)"

text \<open>
  Free cells that the check of an instruction asks for beyond its result: the checks of \<open>rot\<close> and
  \<open>-rot\<close> (written for \<open>roll\<close> with its count on the stack) and of \<open>?dup\<close> on a false cell ask for one
  that stays unused.
\<close>

definition spare_cells :: "fth_env \<Rightarrow> cell \<Rightarrow> cell list \<Rightarrow> nat" where
  "spare_cells E c xs =
     (if c \<in> {ficlInstructionRot, ficlInstructionFRot, ficlInstructionMinusRot} \<or>
         c = ficlInstructionQuestionDup \<and> VM_FALSE_OR_NULL_P E (xs ! 0) then 1 else 0)"

definition meets_effect :: "fth_env \<Rightarrow> effect_spec \<Rightarrow> instr \<Rightarrow> ficlVm \<Rightarrow> bool" where
  "meets_effect E = (\<lambda>(c, p, f) i vm.
     let xs = take p (data vm); ys = f xs @ drop p (data vm) in
     if length (data vm) < p then i vm = stack_error FICL_VM_STATUS_STACK_UNDERFLOW vm
     else if st_size (vm_dataStack vm) < length ys + spare_cells E c xs
     then i vm = stack_error FICL_VM_STATUS_STACK_OVERFLOW vm
     else data_step vm ys (i vm))"

lemma meets_effectI:
  assumes "stack_effect p q f i vm" and "\<And>xs. length xs = p \<Longrightarrow> length (f xs) + spare_cells E c xs = q"
  shows "meets_effect E (c, p, f) i vm"
proof (cases "length (data vm) < p")
  case False
  then have "length (f (take p (data vm))) + spare_cells E c (take p (data vm)) = q" by (intro assms(2)) simp
  then show ?thesis using assms(1) False
    by (simp add: meets_effect_def stack_effect_def Let_def add.commute split: if_splits)
qed (use assms(1) in \<open>simp add: meets_effect_def stack_effect_def\<close>)

text \<open>Every entry of the tables is reached by the dispatch.\<close>

lemma distinct_tables: "distinct (map fst (stack_table E @ memory_table E fw @ arith_table E))"
  by (simp add: stack_table_def memory_table_def arith_table_def token_simps)

lemma tables_no_number:
  "list_all (\<lambda>c. number_table c = None \<and> c \<noteq> ficlInstructionBranchParenWithCheck \<and>
     c \<noteq> ficlInstructionBranch0ParenWithCheck) (map fst (stack_table E @ memory_table E fw @ arith_table E))"
  by (simp add: stack_table_def memory_table_def arith_table_def number_table_def token_simps)

lemma inner_switch_table:
  assumes "(c, i) \<in> set (stack_table E @ memory_table E fw @ arith_table E)"
  shows "inner_switch E fw c = Some (\<lambda>vm. Some (i vm))"
proof -
  have "map_of (stack_table E @ memory_table E fw @ arith_table E) c = Some i"
    using assms distinct_tables by (simp only: map_of_eq_Some_iff)
  moreover have "c \<in> set (map fst (stack_table E @ memory_table E fw @ arith_table E))"
    using assms by force
  then have "number_table c = None" "c \<noteq> ficlInstructionBranchParenWithCheck"
    "c \<noteq> ficlInstructionBranch0ParenWithCheck"
    using tables_no_number [of E fw] unfolding list_all_iff by blast+
  ultimately show ?thesis by (simp add: inner_switch_def)
qed

definition effect_sound :: "fth_env \<Rightarrow> addr \<Rightarrow> effect_spec \<Rightarrow> bool" where
  "effect_sound E fw e = (\<exists>i. inner_switch E fw (fst e) = Some (\<lambda>vm. Some (i vm)) \<and>
     (\<forall>vm. vm_wf vm \<longrightarrow> meets_effect E e i vm))"

lemma effect_soundI:
  assumes "\<And>vm. vm_wf vm \<Longrightarrow> stack_effect p q f i vm"
    and "(c, i) \<in> set (stack_table E @ memory_table E fw @ arith_table E)"
    and "\<And>xs. length xs = p \<Longrightarrow> length (f xs) + spare_cells E c xs = q"
  shows "effect_sound E fw (c, p, f)"
  using inner_switch_table [OF assms(2)] meets_effectI [OF assms(1,3)]
  unfolding effect_sound_def fst_conv by blast

lemma effect_soundD:
  assumes "effect_sound E fw (c, p, f)" and i: "inner_switch E fw c = Some (\<lambda>vm. Some (i vm))"
    and "vm_wf vm"
  shows "meets_effect E (c, p, f) i vm"
proof -
  obtain i' where i': "inner_switch E fw c = Some (\<lambda>vm. Some (i' vm))" "meets_effect E (c, p, f) i' vm"
    using assms(1,3) by (auto simp: effect_sound_def)
  have "i' = i" using i i'(1) by (auto intro: ext dest: fun_cong)
  with i'(2) show ?thesis by simp
qed

lemma effect_bool_const:
  "vm_wf vm \<Longrightarrow> stack_effect 0 1 (\<lambda>xs. [0]) instr_bool_false vm"
  "vm_wf vm \<Longrightarrow> stack_effect 0 1 (\<lambda>xs. [-1]) instr_bool_true vm"
  unfolding instr_bool_false_def instr_bool_true_def by (rule effect_number; simp)+

lemmas spare_simps = spare_cells_def token_simps

lemma manipulation_sound: "list_all (effect_sound E fw) (manipulation_spec E)"
  unfolding manipulation_spec_def list.pred_inject
  apply (intro conjI TrueI)
  subgoal by (rule effect_soundI [OF effect_Dup]) (simp_all add: stack_table_def spare_simps)
  subgoal by (rule effect_soundI [OF effect_Dup]) (simp_all add: stack_table_def spare_simps)
  subgoal by (rule effect_soundI [OF effect_QuestionDup]) (simp_all add: stack_table_def spare_simps)
  subgoal by (rule effect_soundI [OF effect_Swap]) (simp_all add: stack_table_def spare_simps)
  subgoal by (rule effect_soundI [OF effect_Swap]) (simp_all add: stack_table_def spare_simps)
  subgoal by (rule effect_soundI [OF effect_Drop]) (simp_all add: stack_table_def spare_simps)
  subgoal by (rule effect_soundI [OF effect_Drop]) (simp_all add: stack_table_def spare_simps)
  subgoal by (rule effect_soundI [OF effect_Nip]) (simp_all add: stack_table_def spare_simps)
  subgoal by (rule effect_soundI [OF effect_Tuck]) (simp_all add: stack_table_def spare_simps)
  subgoal by (rule effect_soundI [OF effect_2Drop]) (simp_all add: stack_table_def spare_simps)
  subgoal by (rule effect_soundI [OF effect_2Dup]) (simp_all add: stack_table_def spare_simps)
  subgoal by (rule effect_soundI [OF effect_Over]) (simp_all add: stack_table_def spare_simps)
  subgoal by (rule effect_soundI [OF effect_Over]) (simp_all add: stack_table_def spare_simps)
  subgoal by (rule effect_soundI [OF effect_2Over]) (simp_all add: stack_table_def spare_simps)
  subgoal by (rule effect_soundI [OF effect_Rot]) (simp_all add: stack_table_def spare_simps)
  subgoal by (rule effect_soundI [OF effect_Rot]) (simp_all add: stack_table_def spare_simps)
  subgoal by (rule effect_soundI [OF effect_MinusRot]) (simp_all add: stack_table_def spare_simps)
  subgoal by (rule effect_soundI [OF effect_2Swap]) (simp_all add: stack_table_def spare_simps)
  subgoal by (rule effect_soundI [OF effect_And]) (simp_all add: stack_table_def spare_simps)
  subgoal by (rule effect_soundI [OF effect_Or]) (simp_all add: stack_table_def spare_simps)
  subgoal by (rule effect_soundI [OF effect_bool_const(1)]) (simp_all add: arith_table_def spare_simps)
  subgoal by (rule effect_soundI [OF effect_bool_const(2)]) (simp_all add: arith_table_def spare_simps)
  subgoal by simp
  done

lemma binary_soundI:
  "i = binary_op g \<Longrightarrow> (c, i) \<in> set (stack_table E @ memory_table E fw @ arith_table E) \<Longrightarrow>
    \<forall>xs. spare_cells E c xs = 0 \<Longrightarrow> effect_sound E fw (c, 2, \<lambda>xs. [g (xs ! 1) (xs ! 0)])"
  by (rule effect_soundI [OF effect_binary]) simp_all

lemma unary_soundI:
  "i = unary_op g \<Longrightarrow> (c, i) \<in> set (stack_table E @ memory_table E fw @ arith_table E) \<Longrightarrow>
    \<forall>xs. spare_cells E c xs = 0 \<Longrightarrow> effect_sound E fw (c, 1, \<lambda>xs. [g (xs ! 0)])"
  by (rule effect_soundI [OF effect_unary]) simp_all

lemma binary_sound:
  "list_all (effect_sound E fw) (map (\<lambda>(c, g). (c, 2, \<lambda>xs. [g (xs ! 1) (xs ! 0)])) (binary_spec E))"
  unfolding binary_spec_def list.map list.pred_inject prod.case
  apply (intro conjI TrueI)
  subgoal by (rule binary_soundI [OF instr_Xor_def]) (simp_all add: stack_table_def arith_table_def spare_simps)
  subgoal by (rule binary_soundI [OF instr_Max_def]) (simp_all add: stack_table_def arith_table_def spare_simps)
  subgoal by (rule binary_soundI [OF instr_Min_def]) (simp_all add: stack_table_def arith_table_def spare_simps)
  subgoal by (rule binary_soundI [OF instr_Equals_def]) (simp_all add: stack_table_def arith_table_def spare_simps)
  subgoal by (rule binary_soundI [OF instr_not_eql_def]) (simp_all add: stack_table_def arith_table_def spare_simps)
  subgoal by (rule binary_soundI [OF instr_Less_def]) (simp_all add: stack_table_def arith_table_def spare_simps)
  subgoal by (rule binary_soundI [OF instr_GreaterThan_def]) (simp_all add: stack_table_def arith_table_def spare_simps)
  subgoal by (rule binary_soundI [OF instr_less_eql_def]) (simp_all add: stack_table_def arith_table_def spare_simps)
  subgoal by (rule binary_soundI [OF instr_greater_eql_def]) (simp_all add: stack_table_def arith_table_def spare_simps)
  subgoal by (rule binary_soundI [OF instr_Plus_def]) (simp_all add: stack_table_def arith_table_def spare_simps)
  subgoal by (rule binary_soundI [OF instr_Minus_def]) (simp_all add: stack_table_def arith_table_def spare_simps)
  subgoal by (rule binary_soundI [OF instr_Star_def]) (simp_all add: stack_table_def arith_table_def spare_simps)
  subgoal by (rule binary_soundI [OF instr_bool_and_def]) (simp_all add: stack_table_def arith_table_def spare_simps)
  subgoal by (rule binary_soundI [OF instr_bool_or_def]) (simp_all add: stack_table_def arith_table_def spare_simps)
  subgoal by simp
  done

lemma unary_sound:
  "list_all (effect_sound E fw) (map (\<lambda>(c, g). (c, 1, \<lambda>xs. [g (xs ! 0)])) (unary_spec E))"
  unfolding unary_spec_def list.map list.pred_inject prod.case
  apply (intro conjI TrueI)
  subgoal by (rule unary_soundI [OF instr_Invert_def]) (simp_all add: stack_table_def arith_table_def spare_simps)
  subgoal by (rule unary_soundI [OF instr_Cells_def]) (simp_all add: stack_table_def arith_table_def spare_simps)
  subgoal by (rule unary_soundI [OF instr_CellPlus_def]) (simp_all add: stack_table_def arith_table_def spare_simps)
  subgoal by (rule unary_soundI [OF instr_0Equals_def]) (simp_all add: stack_table_def arith_table_def spare_simps)
  subgoal by (rule unary_soundI [OF instr_0Equals_def]) (simp_all add: stack_table_def arith_table_def spare_simps)
  subgoal by (rule unary_soundI [OF instr_0_not_eql_def]) (simp_all add: stack_table_def arith_table_def spare_simps)
  subgoal by (rule unary_soundI [OF instr_0Less_def]) (simp_all add: stack_table_def arith_table_def spare_simps)
  subgoal by (rule unary_soundI [OF instr_0Less_def]) (simp_all add: stack_table_def arith_table_def spare_simps)
  subgoal by (rule unary_soundI [OF instr_0Greater_def]) (simp_all add: stack_table_def arith_table_def spare_simps)
  subgoal by (rule unary_soundI [OF instr_0_less_eql_def]) (simp_all add: stack_table_def arith_table_def spare_simps)
  subgoal by (rule unary_soundI [OF instr_0_greater_eql_def]) (simp_all add: stack_table_def arith_table_def spare_simps)
  subgoal by (rule unary_soundI [OF instr_0_greater_eql_def]) (simp_all add: stack_table_def arith_table_def spare_simps)
  subgoal by (rule unary_soundI [OF instr_1Plus_def]) (simp_all add: stack_table_def arith_table_def spare_simps)
  subgoal by (rule unary_soundI [OF instr_1Minus_def]) (simp_all add: stack_table_def arith_table_def spare_simps)
  subgoal by (rule unary_soundI [OF instr_2Plus_def]) (simp_all add: stack_table_def arith_table_def spare_simps)
  subgoal by (rule unary_soundI [OF instr_2Minus_def]) (simp_all add: stack_table_def arith_table_def spare_simps)
  subgoal by (rule unary_soundI [OF instr_2Star_def]) (simp_all add: stack_table_def arith_table_def spare_simps)
  subgoal by (rule unary_soundI [OF instr_2Slash_def]) (simp_all add: stack_table_def arith_table_def spare_simps)
  subgoal by (rule unary_soundI [OF instr_Negate_def]) (simp_all add: stack_table_def arith_table_def spare_simps)
  subgoal by (rule unary_soundI [OF instr_bool_not_def]) (simp_all add: stack_table_def arith_table_def spare_simps)
  subgoal by simp
  done

lemma forth_spec_sound: "list_all (effect_sound E fw) (forth_spec E)"
  unfolding forth_spec_def list_all_append using manipulation_sound binary_sound unary_sound by blast

end
