(* ===== verification/Ficl_Flow.thy ===== *)
theory Ficl_Flow
  imports Ficl_Effects
begin

section \<open>Calls, loops, branches and frames\<close>

text \<open>
  The instructions that move the instruction pointer and use the return stack: calls of
  colon definitions, counted loops, branches and their optimisation, frames of locals.
\<close>

subsection \<open>Pushing and dropping on both stacks\<close>

definition dpushed :: "cell \<Rightarrow> ficlVm \<Rightarrow> ficlVm" where
  "dpushed c vm = vm\<lparr>vm_dataStack := (vm_dataStack vm)\<lparr>st_top := st_top (vm_dataStack vm) + 1,
     st_cells := (st_cells (vm_dataStack vm))(st_top (vm_dataStack vm) + 1 := c)\<rparr>\<rparr>"

definition rpushed :: "cell \<Rightarrow> ficlVm \<Rightarrow> ficlVm" where
  "rpushed c vm = vm\<lparr>vm_returnStack := (vm_returnStack vm)\<lparr>st_top := st_top (vm_returnStack vm) + 1,
     st_cells := (st_cells (vm_returnStack vm))(st_top (vm_returnStack vm) + 1 := c)\<rparr>\<rparr>"

definition ddrop :: "nat \<Rightarrow> ficlVm \<Rightarrow> ficlVm" where
  "ddrop n vm = vm\<lparr>vm_dataStack := (vm_dataStack vm)\<lparr>st_top := st_top (vm_dataStack vm) - int n\<rparr>\<rparr>"

definition rdrop :: "nat \<Rightarrow> ficlVm \<Rightarrow> ficlVm" where
  "rdrop n vm = vm\<lparr>vm_returnStack := (vm_returnStack vm)\<lparr>st_top := st_top (vm_returnStack vm) - int n\<rparr>\<rparr>"

definition rtop :: "cell \<Rightarrow> ficlVm \<Rightarrow> ficlVm" where
  "rtop c vm = vm\<lparr>vm_returnStack := (vm_returnStack vm)\<lparr>
     st_cells := (st_cells (vm_returnStack vm))(st_top (vm_returnStack vm) := c)\<rparr>\<rparr>"

named_theorems flow_simps \<open>evaluation of the steps on both stacks\<close>

lemma stack_list_drop:
  "stack_wf s \<Longrightarrow> n \<le> length (stack_list s) \<Longrightarrow>
    stack_list (s\<lparr>st_top := st_top s - int n\<rparr>) = drop n (stack_list s) \<and>
    stack_wf (s\<lparr>st_top := st_top s - int n\<rparr>)"
  by (auto simp: stack_list_def stack_wf_def stk_list_nth diff_diff_eq intro!: nth_equalityI)

lemma stack_list_pushed:
  "stack_wf s \<Longrightarrow> length (stack_list s) < st_size s \<Longrightarrow>
    stack_list (s\<lparr>st_top := st_top s + 1, st_cells := (st_cells s)(st_top s + 1 := c)\<rparr>) = c # stack_list s \<and>
    stack_wf (s\<lparr>st_top := st_top s + 1, st_cells := (st_cells s)(st_top s + 1 := c)\<rparr>)"
  by (auto simp: stack_list_def stack_wf_def stack_simps)

lemma stack_list_top:
  "stack_wf s \<Longrightarrow> stack_list s = x # xs \<Longrightarrow>
    stack_list (s\<lparr>st_cells := (st_cells s)(st_top s := c)\<rparr>) = c # xs \<and>
    stack_wf (s\<lparr>st_cells := (st_cells s)(st_top s := c)\<rparr>)"
  by (auto simp: stack_list_def stack_wf_def stk_list_Cons_iff stack_simps)

lemma vm_wf_stacks: "vm_wf vm \<Longrightarrow> stack_wf (vm_dataStack vm)" "vm_wf vm \<Longrightarrow> stack_wf (vm_returnStack vm)"
  by (simp_all add: vm_wf_def)

lemma ddrop_list [flow_simps]:
  "vm_wf vm \<Longrightarrow> n \<le> length (data vm) \<Longrightarrow> data (ddrop n vm) = drop n (data vm)"
  "vm_wf vm \<Longrightarrow> n \<le> length (data vm) \<Longrightarrow> vm_wf (ddrop n vm)"
  using stack_list_drop [of "vm_dataStack vm" n] by (auto simp: ddrop_def vm_wf_def)

lemma rdrop_list [flow_simps]:
  "vm_wf vm \<Longrightarrow> n \<le> length (rets vm) \<Longrightarrow> rets (rdrop n vm) = drop n (rets vm)"
  "vm_wf vm \<Longrightarrow> n \<le> length (rets vm) \<Longrightarrow> vm_wf (rdrop n vm)"
  using stack_list_drop [of "vm_returnStack vm" n] by (auto simp: rdrop_def vm_wf_def)

lemma dpushed_list [flow_simps]:
  "vm_wf vm \<Longrightarrow> length (data vm) < st_size (vm_dataStack vm) \<Longrightarrow> data (dpushed c vm) = c # data vm"
  "vm_wf vm \<Longrightarrow> length (data vm) < st_size (vm_dataStack vm) \<Longrightarrow> vm_wf (dpushed c vm)"
  using stack_list_pushed [of "vm_dataStack vm" c] by (auto simp: dpushed_def vm_wf_def)

lemma rpushed_list [flow_simps]:
  "vm_wf vm \<Longrightarrow> length (rets vm) < st_size (vm_returnStack vm) \<Longrightarrow> rets (rpushed c vm) = c # rets vm"
  "vm_wf vm \<Longrightarrow> length (rets vm) < st_size (vm_returnStack vm) \<Longrightarrow> vm_wf (rpushed c vm)"
  using stack_list_pushed [of "vm_returnStack vm" c] by (auto simp: rpushed_def vm_wf_def)

lemma rtop_list [flow_simps]:
  "vm_wf vm \<Longrightarrow> rets vm = x # xs \<Longrightarrow> rets (rtop c vm) = c # xs"
  "vm_wf vm \<Longrightarrow> rets vm = x # xs \<Longrightarrow> vm_wf (rtop c vm)"
  using stack_list_top [of "vm_returnStack vm" x xs c] by (auto simp: rtop_def vm_wf_def)

lemma stack_frame_fields [simp]:
  "vm_ip (dpushed c vm) = vm_ip vm" "vm_ip (rpushed c vm) = vm_ip vm" "vm_ip (ddrop n vm) = vm_ip vm"
  "vm_ip (rdrop n vm) = vm_ip vm" "vm_ip (rtop c vm) = vm_ip vm"
  "vm_dict (dpushed c vm) = vm_dict vm" "vm_dict (rpushed c vm) = vm_dict vm" "vm_dict (ddrop n vm) = vm_dict vm"
  "vm_dict (rdrop n vm) = vm_dict vm" "vm_dict (rtop c vm) = vm_dict vm"
  "vm_dataStack (rpushed c vm) = vm_dataStack vm" "vm_dataStack (rdrop n vm) = vm_dataStack vm"
  "vm_dataStack (rtop c vm) = vm_dataStack vm"
  "vm_returnStack (dpushed c vm) = vm_returnStack vm" "vm_returnStack (ddrop n vm) = vm_returnStack vm"
  "vm_runningWord (dpushed c vm) = vm_runningWord vm" "vm_runningWord (rpushed c vm) = vm_runningWord vm"
  "vm_runningWord (ddrop n vm) = vm_runningWord vm" "vm_runningWord (rdrop n vm) = vm_runningWord vm"
  "st_size (vm_dataStack (dpushed c vm)) = st_size (vm_dataStack vm)"
  "st_size (vm_dataStack (ddrop n vm)) = st_size (vm_dataStack vm)"
  "st_size (vm_returnStack (rpushed c vm)) = st_size (vm_returnStack vm)"
  "st_size (vm_returnStack (rdrop n vm)) = st_size (vm_returnStack vm)"
  "st_size (vm_returnStack (rtop c vm)) = st_size (vm_returnStack vm)"
  by (simp_all add: dpushed_def rpushed_def ddrop_def rdrop_def rtop_def)

lemma vm_wf_ip [simp]:
  "vm_wf (vm\<lparr>vm_ip := p\<rparr>) = vm_wf vm" "vm_wf (vm\<lparr>vm_dict := d\<rparr>) = vm_wf vm"
  "vm_wf (gc_push vm w) = vm_wf vm" "vm_wf (gc_pop vm) = vm_wf vm" "vm_wf (gc_loop_reset vm) = vm_wf vm"
  by (simp_all add: vm_wf_def gc_push_def gc_pop_def gc_loop_reset_def Let_def)

lemma gc_fields [simp]:
  "vm_ip (gc_push vm w) = vm_ip vm" "vm_ip (gc_pop vm) = vm_ip vm" "vm_ip (gc_loop_reset vm) = vm_ip vm"
  "vm_dict (gc_push vm w) = vm_dict vm" "vm_dict (gc_pop vm) = vm_dict vm"
  "vm_dict (gc_loop_reset vm) = vm_dict vm"
  "vm_dataStack (gc_push vm w) = vm_dataStack vm" "vm_dataStack (gc_pop vm) = vm_dataStack vm"
  "vm_dataStack (gc_loop_reset vm) = vm_dataStack vm"
  "vm_returnStack (gc_push vm w) = vm_returnStack vm" "vm_returnStack (gc_pop vm) = vm_returnStack vm"
  "vm_returnStack (gc_loop_reset vm) = vm_returnStack vm"
  by (simp_all add: gc_push_def gc_pop_def gc_loop_reset_def Let_def)

subsection \<open>Steps\<close>

lemma stk_get_wf:
  "stack_wf s \<Longrightarrow> n < length (stack_list s) \<Longrightarrow> stk_get s (- int n) = Ok (stack_list s ! n)"
  using stk_get_list [of s "int n"] by simp

lemma dref_list: "vm_wf vm \<Longrightarrow> n < length (data vm) \<Longrightarrow> dref (- int n) k vm = k (data vm ! n) vm"
  by (simp add: dref_def vm_wf_def stk_get_wf)

lemma rref_list: "vm_wf vm \<Longrightarrow> n < length (rets vm) \<Longrightarrow> rref (- int n) k vm = k (rets vm ! n) vm"
  by (simp add: rref_def vm_wf_def stk_get_wf)

lemma rref_at [flow_simps]:
  "vm_wf vm \<Longrightarrow> rets vm = x # xs \<Longrightarrow> rref 0 k vm = k x vm"
  "vm_wf vm \<Longrightarrow> rets vm = x # y # xs \<Longrightarrow> rref (-1) k vm = k y vm"
  using rref_list [of vm 0 k] rref_list [of vm 1 k] by simp_all

lemma dpop_list [flow_simps]: "vm_wf vm \<Longrightarrow> data vm = x # xs \<Longrightarrow> dpop k vm = k x (ddrop 1 vm)"
  by (simp add: dpop_def dref_list [of vm 0, simplified] dmove_def ddrop_def)

lemma rmove_drop [flow_simps]:
  "rmove (-1) k vm = k (rdrop 1 vm)" "rmove (-2) k vm = k (rdrop 2 vm)" "rmove (-3) k vm = k (rdrop 3 vm)"
  by (simp_all add: rmove_def rdrop_def)

lemma dmove_drop [flow_simps]: "dmove (-1) k vm = k (ddrop 1 vm)"
  by (simp add: dmove_def ddrop_def)

lemma rpush_list [flow_simps]:
  "vm_wf vm \<Longrightarrow> length (rets vm) < st_size (vm_returnStack vm) \<Longrightarrow> rpush c k vm = k (rpushed c vm)"
  by (auto simp: rpush_def rmove_def rset_def stk_access_defs vm_wf_def stack_wf_def rpushed_def stack_list_def)

lemma dpush_list [flow_simps]:
  "vm_wf vm \<Longrightarrow> length (data vm) < st_size (vm_dataStack vm) \<Longrightarrow> dpush c k vm = k (dpushed c vm)"
  by (auto simp: dpush_def dmove_def dset_def stk_access_defs vm_wf_def stack_wf_def dpushed_def stack_list_def)

lemma rset_top [flow_simps]: "vm_wf vm \<Longrightarrow> rets vm = x # xs \<Longrightarrow> rset 0 c k vm = k (rtop c vm)"
  by (auto simp: rset_def stk_access_defs vm_wf_def stack_wf_def rtop_def stack_list_def stk_list_Cons_iff)

lemma iref_load [flow_simps]: "load_cell (d_bytes (vm_dict vm)) (vm_ip vm) = Some c \<Longrightarrow> iref k vm = k c vm"
  by (simp add: iref_def d_load_cell_def)

subsection \<open>Calls\<close>

text \<open>
  A colon definition is entered with the address of its body in \<open>ip\<close>; the return address
  is on the return stack, and \<open>(;)\<close> goes back to it and leaves the stacks as they were.
\<close>

lemma colon_enter:
  assumes "vm_wf vm" and "length (rets vm) < st_size (vm_returnStack vm)" and "fw \<noteq> NULL"
  shows "instr_ColonParen fw vm = Ok (Continue ((rpushed (vm_ip vm) vm)\<lparr>vm_ip := word_param fw\<rparr>))"
proof -
  have "instr_ColonParen fw vm = rpush (vm_ip vm) (\<lambda>vm. Ok (Continue (vm\<lparr>vm_ip := word_param fw\<rparr>))) vm"
    using assms(3) by (simp add: instr_ColonParen_def rpush_def rmove_def FICL_FW_CHECK_def iset_def
        continue_def fun_eq_iff)
       (simp add: rset_def FICL_FW_CHECK_def iset_def continue_def split: outcome.split)
  then show ?thesis using assms by (simp add: flow_simps)
qed

lemma semi_return:
  assumes "vm_wf vm" and "rets vm = p # ps"
  shows "instr_SemiParen vm = Ok (Continue ((rdrop 1 vm)\<lparr>vm_ip := p\<rparr>))"
proof -
  have "instr_SemiParen vm = rmove (-1) continue (vm\<lparr>vm_ip := p\<rparr>)"
    using assms by (simp add: instr_SemiParen_def EXIT_FUNCTION_def flow_simps iset_def)
  then show ?thesis by (simp add: flow_simps continue_def rdrop_def)
qed

subsection \<open>Counted loops\<close>

text \<open>
  The object system reads the cells of the integers from \<open>lo\<close> to \<open>hi\<close> as these integers: none of them is the
  address of a live object or word, for which \<open>ficl_to_fth\<close> would take it.
\<close>

definition plain_ints :: "fth_env \<Rightarrow> int \<Rightarrow> int \<Rightarrow> bool" where
  "plain_ints E lo hi = (\<forall>i. lo \<le> i \<longrightarrow> i \<le> hi \<longrightarrow> CELL_LONG_REF E (of_int i) = Ok i)"

lemma long_ref_plain:
  "plain_ints E lo hi \<Longrightarrow> lo \<le> i \<Longrightarrow> i \<le> hi \<Longrightarrow> long_ref E (of_int i) k vm = k i vm"
  by (simp add: long_ref_def plain_ints_def)

lemma wrap64_id: "- (2 ^ 63) \<le> i \<Longrightarrow> i < 2 ^ 63 \<Longrightarrow> wrap64 i = i"
  unfolding wrap64_def by (subst signed_of_int) (simp add: signed_take_bit_int_eq_self)

text \<open>\<open>(do)\<close> puts the address behind the loop, the limit and the index on the return stack.\<close>

lemma do_enter:
  assumes "vm_wf vm" and "data vm = index # limit # xs"
    and "length (rets vm) + 3 \<le> st_size (vm_returnStack vm)"
    and "load_cell (d_bytes (vm_dict vm)) (vm_ip vm) = Some leave"
  shows "\<exists>vm'. instr_DoParen vm = Ok (Continue vm') \<and> vm_wf vm' \<and> data vm' = xs \<and>
    rets vm' = index # limit # leave # rets vm \<and> vm_ip vm' = vm_ip vm + 8 \<and> vm_dict vm' = vm_dict vm"
proof -
  let ?v2 = "ddrop 1 (ddrop 1 vm)"
  have v2: "vm_wf ?v2" "data ?v2 = xs" using assms(1,2) by (simp_all add: flow_simps)
  have chk: "CHECK_STACK 2 0 k vm = k vm" for k :: instr
    using CHECK_STACK_cases [OF assms(1), of 2 0 k] assms(2) vm_wf_stacks(1) [OF assms(1)]
      stack_wf_length [of "vm_dataStack vm"] by simp
  have "rmove 1 (iref (\<lambda>leave. rset 0 leave k)) vm2 = rpush leave k vm2"
    if "load_cell (d_bytes (vm_dict vm2)) (vm_ip vm2) = Some leave" for k :: instr and vm2
    using that by (simp add: rpush_def rmove_def iref_def d_load_cell_def)
  then have "instr_DoParen vm = rpush leave (imove 1 (rpush limit (rpush index
      (\<lambda>vm. continue (gc_push vm (vm_runningWord vm)))))) ?v2"
    using assms chk v2 by (simp add: instr_DoParen_def flow_simps)
  also have "\<dots> = Ok (Continue (gc_push (rpushed index (rpushed limit
      ((rpushed leave ?v2)\<lparr>vm_ip := vm_ip vm + 8\<rparr>))) (vm_runningWord vm)))"
  proof -
    let ?v3 = "(rpushed leave ?v2)\<lparr>vm_ip := vm_ip vm + 8\<rparr>"
    have r: "length (rets ?v2) < st_size (vm_returnStack ?v2)" using assms(3) by simp
    have v3: "vm_wf ?v3" "rets ?v3 = leave # rets vm" using v2 r by (simp_all add: flow_simps)
    then have v4: "vm_wf (rpushed limit ?v3)" "rets (rpushed limit ?v3) = limit # leave # rets vm"
      using assms(3) by (simp_all add: flow_simps)
    show ?thesis
      using v2 r v3 v4 assms(3) by (simp add: flow_simps imove_def continue_def)
  qed
  finally show ?thesis
    using assms(3) v2 by (auto simp: flow_simps)
qed

text \<open>\<open>(loop)\<close> with an index below the limit, and at the last index.\<close>

lemma loop_again:
  assumes E: "plain_ints E lo l" and wf: "vm_wf vm" and r: "rets vm = of_int i # of_int l # rs"
    and b: "lo \<le> i" "i \<le> l" "- (2 ^ 62) \<le> lo" "l < 2 ^ 62" and lt: "i + 1 < l"
    and off: "load_cell (d_bytes (vm_dict vm)) (vm_ip vm) = Some off" "vm_ip vm \<noteq> NULL"
  shows "\<exists>vm'. instr_LoopParen E vm = Ok (Continue vm') \<and> vm_wf vm' \<and> vm_dataStack vm' = vm_dataStack vm \<and>
    rets vm' = of_int (i + 1) # of_int l # rs \<and> vm_ip vm' = vm_ip vm + 8 * off \<and> vm_dict vm' = vm_dict vm \<and>
    st_size (vm_returnStack vm') = st_size (vm_returnStack vm)"
proof -
  have w: "wrap64 (i + 1) = i + 1" using b by (intro wrap64_id) auto
  have fx: "loop_index_cell E (i + 1) = of_int (i + 1)"
    using b lt by (simp add: loop_index_cell_def FIXABLE_P_def)
  let ?v = "gc_loop_reset vm"
  have v: "vm_wf ?v" "rets ?v = of_int i # of_int l # rs" using wf r by simp_all
  have "instr_LoopParen E vm = loop_tail E False (i + 1) l vm"
    using wf r E b by (simp add: instr_LoopParen_def flow_simps long_ref_plain w)
  also have "\<dots> = rset 0 (of_int (i + 1)) (BRANCH continue) ?v"
    using lt fx by (simp add: loop_tail_def)
  also have "\<dots> = BRANCH continue (rtop (of_int (i + 1)) ?v)"
    by (rule rset_top [OF v])
  also have "\<dots> = Ok (Continue ((rtop (of_int (i + 1)) ?v)\<lparr>vm_ip := vm_ip vm + 8 * off\<rparr>))"
    using off by (simp add: BRANCH_def flow_simps imove_def continue_def)
  finally show ?thesis using v by (auto simp: flow_simps simp del: of_int_add)
qed

lemma loop_done:
  assumes E: "plain_ints E lo l" and wf: "vm_wf vm" and r: "rets vm = of_int i # of_int l # leave # rs"
    and b: "lo \<le> i" "i \<le> l" "- (2 ^ 62) \<le> lo" "l < 2 ^ 62" and ge: "l \<le> i + 1"
  shows "\<exists>vm'. instr_LoopParen E vm = Ok (Continue vm') \<and> vm_wf vm' \<and> vm_dataStack vm' = vm_dataStack vm \<and>
    rets vm' = rs \<and> vm_ip vm' = vm_ip vm + 8 \<and> vm_dict vm' = vm_dict vm"
proof -
  have w: "wrap64 (i + 1) = i + 1" using b by (intro wrap64_id) auto
  have "instr_LoopParen E vm = loop_tail E False (i + 1) l vm"
    using wf r E b by (simp add: instr_LoopParen_def flow_simps long_ref_plain w)
  also have "\<dots> = Ok (Continue (gc_pop ((rdrop 3 vm)\<lparr>vm_ip := vm_ip vm + 8\<rparr>)))"
    using ge by (simp add: loop_tail_def flow_simps imove_def continue_def)
  finally show ?thesis using wf r by (auto simp: flow_simps)
qed

subsection \<open>Sequences of steps\<close>

fun run_steps :: "fth_env \<Rightarrow> nat \<Rightarrow> ficlVm \<Rightarrow> vm_next vm_result option" where
  "run_steps E 0 vm = Some (Ok (Continue vm))"
| "run_steps E (Suc n) vm = (case inner_step E vm of
     Some (Ok (Continue vm)) \<Rightarrow> run_steps E n vm | r \<Rightarrow> r)"

text \<open>\<open>reaches E vm vm'\<close>: the loop gets from one machine to the other.\<close>

definition reaches :: "fth_env \<Rightarrow> ficlVm \<Rightarrow> ficlVm \<Rightarrow> bool" where
  "reaches E vm vm' = (\<exists>n. run_steps E n vm = Some (Ok (Continue vm')))"

lemma reaches_refl [simp]: "reaches E vm vm"
  unfolding reaches_def by (intro exI [of _ 0]) simp

lemma reaches_step: "inner_step E vm = Some (Ok (Continue vm1)) \<Longrightarrow> reaches E vm1 vm2 \<Longrightarrow> reaches E vm vm2"
  unfolding reaches_def
proof (elim exE)
  fix n assume "inner_step E vm = Some (Ok (Continue vm1))" "run_steps E n vm1 = Some (Ok (Continue vm2))"
  then show "\<exists>n. run_steps E n vm = Some (Ok (Continue vm2))" by (intro exI [of _ "Suc n"]) simp
qed

lemma run_steps_add:
  "run_steps E n vm = Some (Ok (Continue vm1)) \<Longrightarrow> run_steps E (n + m) vm = run_steps E m vm1"
  by (induction n arbitrary: vm) (auto split: option.splits outcome.splits vm_next.splits)

lemma reaches_trans: "reaches E vm vm1 \<Longrightarrow> reaches E vm1 vm2 \<Longrightarrow> reaches E vm vm2"
  unfolding reaches_def using run_steps_add by metis

lemma reaches_inner_run: "reaches E vm vm' \<Longrightarrow> inner_run E vm = inner_run E vm'"
proof -
  have "run_steps E n vm = Some (Ok (Continue vm')) \<Longrightarrow> inner_run E vm = inner_run E vm'" for n
  proof (induction n arbitrary: vm)
    case (Suc n)
    then obtain vm1 where "inner_step E vm = Some (Ok (Continue vm1))" "run_steps E n vm1 = Some (Ok (Continue vm'))"
      by (auto split: option.splits outcome.splits vm_next.splits)
    then show ?case using Suc.IH by (subst inner_run.simps) simp
  qed simp
  then show "reaches E vm vm' \<Longrightarrow> inner_run E vm = inner_run E vm'" by (auto simp: reaches_def)
qed

lemma inner_step_instr:
  assumes "vm_ip vm \<noteq> NULL" and "load_cell (d_bytes (vm_dict vm)) (vm_ip vm) = Some c"
    and "(c, i) \<in> set (stack_table E @ memory_table E c @ arith_table E)"
  shows "inner_step E vm = Some (i (vm\<lparr>vm_ip := vm_ip vm + 8\<rparr>))"
  using assms(1,2) inner_switch_table [OF assms(3)]
  by (simp add: inner_step_def d_load_cell_def exec_word_def)

text \<open>
  A counted loop: when the body takes the machine from the head of the loop to its \<open>(loop)\<close>
  instruction at \<open>a\<close> and turns \<open>P i\<close> into \<open>P (i + 1)\<close>, the whole loop establishes \<open>P l\<close>,
  removes its three cells from the return stack and goes on behind the instruction.
\<close>

lemma counted_loop:
  assumes E: "plain_ints E i0 l"
    and code: "load_cell (d_bytes d) a = Some ficlInstructionLoopParen"
      "load_cell (d_bytes d) (a + 8) = Some off" "a \<noteq> NULL" "a + 8 \<noteq> NULL"
    and bounds: "- (2 ^ 62) \<le> i0" "l < 2 ^ 62"
    and body: "\<And>i vm. i0 \<le> i \<Longrightarrow> i < l \<Longrightarrow> vm_wf vm \<Longrightarrow> vm_dict vm = d \<Longrightarrow>
      vm_ip vm = a + 8 + 8 * off \<Longrightarrow> rets vm = of_int i # of_int l # leave # rs \<Longrightarrow> P i (vm_dataStack vm) \<Longrightarrow>
      \<exists>vm'. reaches E vm vm' \<and> vm_wf vm' \<and> vm_dict vm' = d \<and> vm_ip vm' = a \<and> rets vm' = rets vm \<and>
        P (i + 1) (vm_dataStack vm')"
    and start: "i0 < l" "vm_wf vm" "vm_dict vm = d" "vm_ip vm = a + 8 + 8 * off"
      "rets vm = of_int i0 # of_int l # leave # rs" "P i0 (vm_dataStack vm)"
  shows "\<exists>vm'. reaches E vm vm' \<and> vm_wf vm' \<and> vm_dict vm' = d \<and> vm_ip vm' = a + 16 \<and> rets vm' = rs \<and>
    P l (vm_dataStack vm')"
proof -
  have "\<exists>vm'. reaches E vm vm' \<and> vm_wf vm' \<and> vm_dict vm' = d \<and> vm_ip vm' = a + 16 \<and> rets vm' = rs \<and>
      P l (vm_dataStack vm')"
    if "n = nat (l - i)" "i0 \<le> i" "i < l" "vm_wf vm" "vm_dict vm = d" "vm_ip vm = a + 8 + 8 * off"
      "rets vm = of_int i # of_int l # leave # rs" "P i (vm_dataStack vm)" for n i vm
    using that
  proof (induction n arbitrary: i vm rule: less_induct)
    case (less n)
    obtain v1 where v1: "reaches E vm v1" "vm_wf v1" "vm_dict v1 = d" "vm_ip v1 = a" "rets v1 = rets vm"
        "P (i + 1) (vm_dataStack v1)"
      using body less.prems by blast
    let ?v = "v1\<lparr>vm_ip := a + 8\<rparr>"
    have st: "inner_step E v1 = Some (instr_LoopParen E ?v)"
      using v1 code by (subst inner_step_instr [where c = ficlInstructionLoopParen and i = "instr_LoopParen E"])
        (simp_all add: memory_table_def)
    have v: "vm_wf ?v" "rets ?v = of_int i # of_int l # leave # rs" "vm_ip ?v = a + 8" "vm_dict ?v = d"
      using v1 less.prems by simp_all
    have b: "i0 \<le> i" "i \<le> l" "- (2 ^ 62) \<le> i0" "l < 2 ^ 62" using bounds less.prems by linarith+
    show ?case
    proof (cases "i + 1 < l")
      case True
      then obtain v2 where v2: "instr_LoopParen E ?v = Ok (Continue v2)" "vm_wf v2"
          "vm_dataStack v2 = vm_dataStack ?v" "rets v2 = of_int (i + 1) # of_int l # leave # rs"
          "vm_ip v2 = a + 8 + 8 * off" "vm_dict v2 = d"
        using loop_again [OF E v(1,2) b True, of off] v(3,4) code(2,4) by auto
      have "\<exists>vm'. reaches E v2 vm' \<and> vm_wf vm' \<and> vm_dict vm' = d \<and> vm_ip vm' = a + 16 \<and> rets vm' = rs \<and>
          P l (vm_dataStack vm')"
        using v2 v1(6) less.prems True by (intro less.IH [of "nat (l - (i + 1))" "i + 1" v2]) simp_all
      then show ?thesis using reaches_step [OF st [unfolded v2(1)]] reaches_trans [OF v1(1)] by blast
    next
      case False
      then have "l = i + 1" using less.prems by simp
      then obtain v2 where v2: "instr_LoopParen E ?v = Ok (Continue v2)" "vm_wf v2"
          "vm_dataStack v2 = vm_dataStack ?v" "rets v2 = rs" "vm_ip v2 = a + 8 + 8" "vm_dict v2 = d"
        using loop_done [OF E v(1,2) b] v(3,4) by auto
      have "reaches E v1 v2" using reaches_step [OF st [unfolded v2(1)] reaches_refl] .
      then show ?thesis
        using reaches_trans [OF v1(1)] v2 v1(6) \<open>l = i + 1\<close>
        by (intro exI [of _ v2]) (auto simp: add.assoc)
    qed
  qed
  then show ?thesis using start by blast
qed

end
