(* ===== verification/Ficl_Parse.thy ===== *)
theory Ficl_Parse
  imports Ficl_Flow
begin

section \<open>Reading words and numbers from the input buffer\<close>

text \<open>
  The text input functions of \<open>ficl/vm.c\<close> (\<open>ficlVmGetWord0\<close>, \<open>ficlVmGetWord\<close>,
  \<open>ficlVmGetWordToPad\<close>, \<open>ficlVmParseStringEx\<close>, \<open>ficlVmParseString\<close>, \<open>ficlVmGetString\<close>), the
  conversion of numbers (\<open>ficlVmParseNumber\<close>) and the compilation of literals
  (\<open>ficlPrimitiveLiteralIm\<close> of \<open>ficl/primitives.c\<close>).

  A pointer into the buffer is an index, \<open>tib.end\<close> the length of the text. An index outside
  of the buffer is \<open>Fault\<close>. The lemmas show that the buffer is split at white space, that
  printed numbers are read back, and that compiled literals push their value.
\<close>

subsection \<open>The machine as the C functions use it\<close>

text \<open>A stack check that fails raises its exception in the machine.\<close>

definition vm_lift :: "ficlVm \<Rightarrow> (int, 'a) outcome \<Rightarrow> ('a \<Rightarrow> 'b vm_result) \<Rightarrow> 'b vm_result" where
  "vm_lift vm r k = (case r of Ok x \<Rightarrow> k x | Throw e \<Rightarrow> ficlVmThrowException vm e | Fault \<Rightarrow> Fault)"

definition ficlVmPop :: "ficlVm \<Rightarrow> (cell \<times> ficlVm) vm_result" where
  "ficlVmPop vm = vm_lift vm (ficlStackPop (vm_dataStack vm)) (\<lambda>(c, s). Ok (c, vm\<lparr>vm_dataStack := s\<rparr>))"

definition ficlVmPush :: "ficlVm \<Rightarrow> cell \<Rightarrow> ficlVm vm_result" where
  "ficlVmPush vm c = vm_lift vm (ficlStackPush (vm_dataStack vm) c) (\<lambda>s. Ok (vm\<lparr>vm_dataStack := s\<rparr>))"

definition FICL_STACK_CHECK :: "ficlVm \<Rightarrow> int \<Rightarrow> int \<Rightarrow> 'b vm_result \<Rightarrow> 'b vm_result" where
  "FICL_STACK_CHECK vm pop push k = vm_lift vm (ficlStackCheck (vm_dataStack vm) pop push) (\<lambda>_. k)"

definition in_dict :: "(ficlDictionary \<Rightarrow> (int, ficlDictionary) outcome) \<Rightarrow> ficlVm \<Rightarrow> ficlVm vm_result" where
  "in_dict f vm = vm_lift vm (f (vm_dict vm)) (\<lambda>d. Ok (vm\<lparr>vm_dict := d\<rparr>))"

definition PRIMITIVE_APPEND_UNSIGNED :: "ficlVm \<Rightarrow> cell \<Rightarrow> ficlVm vm_result" where
  "PRIMITIVE_APPEND_UNSIGNED vm i = in_dict (\<lambda>d. ficlDictionaryAppendUnsigned d i) vm"

subsection \<open>The input buffer\<close>

definition FICL_PAD_SIZE :: nat where
  "FICL_PAD_SIZE = 1024"

definition FICL_COUNTED_STRING_MAX :: nat where
  "FICL_COUNTED_STRING_MAX = FICL_PAD_SIZE"

definition ficlVmGetInBuf :: "ficlVm \<Rightarrow> nat vm_result" where
  "ficlVmGetInBuf vm =
     (if 0 \<le> tib_index (vm_tib vm) \<and> tib_index (vm_tib vm) \<le> int (length (tib_text (vm_tib vm)))
      then Ok (nat (tib_index (vm_tib vm))) else Fault)"

definition ficlVmGetInBufEnd :: "ficlVm \<Rightarrow> nat" where
  "ficlVmGetInBufEnd vm = length (tib_text (vm_tib vm))"

definition ficlVmUpdateTib :: "ficlVm \<Rightarrow> nat \<Rightarrow> ficlVm" where
  "ficlVmUpdateTib vm trace = vm\<lparr>vm_tib := (vm_tib vm)\<lparr>tib_index := int trace\<rparr>\<rparr>"

definition substring :: "string \<Rightarrow> nat \<Rightarrow> nat \<Rightarrow> string" where
  "substring s i j = take (j - i) (drop i s)"

text \<open>Storing bytes in the scratch area of the machine.\<close>

definition pad_put :: "nat \<Rightarrow> u8 list \<Rightarrow> ficlVm \<Rightarrow> ficlVm vm_result" where
  "pad_put i bs vm =
     (if i + length bs \<le> FICL_PAD_SIZE + 1
      then Ok (vm\<lparr>vm_pad := (\<lambda>j. if i \<le> j \<and> j < i + length bs then bs ! (j - i) else vm_pad vm j)\<rparr>)
      else Fault)"

text \<open>\<open>strncpy\<close> of the C library: stops at a NUL and fills up with NULs.\<close>

definition strncpy :: "string \<Rightarrow> nat \<Rightarrow> string" where
  "strncpy s n = (let t = takeWhile (\<lambda>c. c \<noteq> NUL) (take n s) in t @ replicate (n - length t) NUL)"

text \<open>The loop of \<open>ficlVmGetWord0\<close>.\<close>

function word_loop :: "string \<Rightarrow> nat \<Rightarrow> nat" where
  "word_loop s trace =
     (if trace \<ge> length s then trace else if isspace (s ! trace) then trace else word_loop s (trace + 1))"
  by pat_completeness auto
termination
  by (relation "measure (\<lambda>(s, trace). length s - trace)") auto

declare word_loop.simps [simp del]

definition ficlVmGetWord0 :: "ficlVm \<Rightarrow> (string \<times> ficlVm) vm_result" where
  "ficlVmGetWord0 vm =
     bind_outcome (ficlVmGetInBuf vm) (\<lambda>trace.
       let s = tib_text (vm_tib vm); stop = ficlVmGetInBufEnd vm;
           start = skipSpace_loop s trace (Some stop);
           trace = word_loop s start;
           word = substring s start trace;
           trace = (if trace \<noteq> stop \<and> isspace (cstr_at s trace) then trace + 1 else trace)
       in Ok (word, ficlVmUpdateTib vm trace))"

definition ficlVmGetWord :: "ficlVm \<Rightarrow> (string \<times> ficlVm) vm_result" where
  "ficlVmGetWord vm =
     bind_outcome (ficlVmGetWord0 vm) (\<lambda>(s, vm).
       if length s = 0 then ficlVmThrow vm FICL_VM_STATUS_RESTART else Ok (s, vm))"

definition ficlVmGetWordToPad :: "ficlVm \<Rightarrow> (int \<times> ficlVm) vm_result" where
  "ficlVmGetWordToPad vm =
     bind_outcome (ficlVmGetWord vm) (\<lambda>(s, vm).
       let n = (if length s > FICL_PAD_SIZE then FICL_PAD_SIZE else length s)
       in bind_outcome (pad_put 0 (map char_byte (strncpy s n) @ [0]) vm) (\<lambda>vm. Ok (int n, vm)))"

text \<open>The two loops of \<open>ficlVmParseStringEx\<close>: skip delimiters, find the next one or the end of the line.\<close>

function skip_delimiters :: "string \<Rightarrow> char \<Rightarrow> nat \<Rightarrow> nat" where
  "skip_delimiters s delimiter trace =
     (if trace < length s \<and> s ! trace = delimiter then skip_delimiters s delimiter (trace + 1) else trace)"
  by pat_completeness auto
termination
  by (relation "measure (\<lambda>(s, d, trace). length s - trace)") auto

declare skip_delimiters.simps [simp del]

definition ends_string :: "char \<Rightarrow> char \<Rightarrow> bool" where
  "ends_string delimiter c = (c = delimiter \<or> char_code c = 13 \<or> char_code c = 10)"

function find_delimiter :: "string \<Rightarrow> char \<Rightarrow> nat \<Rightarrow> nat" where
  "find_delimiter s delimiter trace =
     (if trace < length s \<and> \<not> ends_string delimiter (s ! trace) then find_delimiter s delimiter (trace + 1)
      else trace)"
  by pat_completeness auto
termination
  by (relation "measure (\<lambda>(s, d, trace). length s - trace)") auto

declare find_delimiter.simps [simp del]

definition ficlVmParseStringEx :: "ficlVm \<Rightarrow> char \<Rightarrow> bool \<Rightarrow> (string \<times> ficlVm) vm_result" where
  "ficlVmParseStringEx vm delimiter skipLeadingDelimiters =
     bind_outcome (ficlVmGetInBuf vm) (\<lambda>trace.
       let s = tib_text (vm_tib vm); stop = ficlVmGetInBufEnd vm;
           start = (if skipLeadingDelimiters then skip_delimiters s delimiter trace else trace);
           trace = find_delimiter s delimiter start;
           r = substring s start trace;
           trace = (if trace \<noteq> stop \<and> cstr_at s trace = delimiter then trace + 1 else trace)
       in Ok (r, ficlVmUpdateTib vm trace))"

definition ficlVmParseString :: "ficlVm \<Rightarrow> char \<Rightarrow> (string \<times> ficlVm) vm_result" where
  "ficlVmParseString vm delimiter = ficlVmParseStringEx vm delimiter True"

text \<open>The counted string: its length and its characters.\<close>

definition ficlVmGetString :: "ficlVm \<Rightarrow> char \<Rightarrow> ((nat \<times> string) \<times> ficlVm) vm_result" where
  "ficlVmGetString vm delimiter =
     bind_outcome (ficlVmParseStringEx vm delimiter False) (\<lambda>(s, vm).
       let n = (if length s > FICL_COUNTED_STRING_MAX then FICL_COUNTED_STRING_MAX else length s)
       in Ok ((n, strncpy s n), vm))"

subsection \<open>Numbers\<close>

text \<open>
  \<open>ficlPrimitiveLiteralIm\<close>: small values have instructions of their own, others are compiled
  behind \<open>(literal)\<close>.
\<close>

definition ficlPrimitiveLiteralIm :: "ficlVm \<Rightarrow> ficlVm vm_result" where
  "ficlPrimitiveLiteralIm vm =
     bind_outcome (ficlVmPop vm) (\<lambda>(c, vm). let value = sint c in
       if 1 \<le> value \<and> value \<le> 16 then PRIMITIVE_APPEND_UNSIGNED vm (of_int value)
       else if -16 \<le> value \<and> value \<le> 0
       then PRIMITIVE_APPEND_UNSIGNED vm (ficlInstruction0 - of_int value)
       else bind_outcome (PRIMITIVE_APPEND_UNSIGNED vm ficlInstructionLiteralParen) (\<lambda>vm.
              PRIMITIVE_APPEND_UNSIGNED vm (of_int value)))"

text \<open>The value of a digit: \<open>c - '0'\<close>, or \<open>tolower(c) - 'a' + 10\<close> when that is above 9.\<close>

definition parse_digit :: "char \<Rightarrow> cell" where
  "parse_digit c =
     (let digit = of_int (schar c - 48) :: cell
      in if digit > 9 then of_int (schar (tolower c) - 97 + 10) else digit)"

fun number_loop :: "cell \<Rightarrow> string \<Rightarrow> cell \<Rightarrow> cell option" where
  "number_loop base [] accu = Some accu"
| "number_loop base (c # cs) accu =
     (if c = NUL then Some accu
      else if \<not> isalnum c then None
      else if parse_digit c \<ge> base then None
      else number_loop base cs (accu * base + parse_digit c))"

definition number_sign :: "string \<Rightarrow> bool \<times> string" where
  "number_sign s =
     (if length s > 1 \<and> hd s = CHR ''-'' then (True, tl s)
      else if length s > 1 \<and> hd s = CHR ''+'' then (False, tl s) else (False, s))"

definition number_double :: "string \<Rightarrow> bool \<times> string" where
  "number_double s = (if length s > 0 \<and> last s = CHR ''d'' then (True, butlast s) else (False, s))"

text \<open>
  \<open>ficlVmParseNumber\<close>; \<open>erange\<close> says whether \<open>errno\<close> is \<open>ERANGE\<close> on entry. \<open>fth_make_llong\<close> of
  the object system is a parameter.
\<close>

definition ficlVmParseNumber :: "fth_env \<Rightarrow> bool \<Rightarrow> ficlVm \<Rightarrow> string \<Rightarrow> (bool \<times> ficlVm) vm_result" where
  "ficlVmParseNumber E erange vm s =
     (if erange then Ok (False, vm)
      else let (isNegative, s) = number_sign s; (isDouble, s) = number_double s
           in if length s = 0 then Ok (False, vm)
              else case number_loop (vm_base vm) s 0 of None \<Rightarrow> Ok (False, vm)
                | Some accu \<Rightarrow>
                    let accumulator = (if isNegative then - accu else accu)
                    in bind_outcome (ficlVmPush vm
                           (if isDouble then fth_make_llong E (sint accumulator) else accumulator)) (\<lambda>vm.
                         if vm_state vm = FICL_VM_STATE_COMPILE
                         then bind_outcome (ficlPrimitiveLiteralIm vm) (\<lambda>vm. Ok (True, vm))
                         else Ok (True, vm)))"

subsection \<open>Words of the input\<close>

text \<open>What is left of the input, and the pieces of a text between separators.\<close>

definition tib_ok :: "ficlVm \<Rightarrow> bool" where
  "tib_ok vm = (0 \<le> tib_index (vm_tib vm) \<and> tib_index (vm_tib vm) \<le> int (length (tib_text (vm_tib vm))))"

definition input :: "ficlVm \<Rightarrow> string" where
  "input vm = drop (nat (tib_index (vm_tib vm))) (tib_text (vm_tib vm))"

fun split_on :: "('a \<Rightarrow> bool) \<Rightarrow> 'a list \<Rightarrow> 'a list list" where
  "split_on p [] = [[]]"
| "split_on p (c # cs) =
     (if p c then [] # split_on p cs
      else case split_on p cs of [] \<Rightarrow> [[c]] | w # ws \<Rightarrow> (c # w) # ws)"

definition tokens :: "string \<Rightarrow> string list" where
  "tokens s = filter (\<lambda>w. w \<noteq> []) (split_on isspace s)"

abbreviation nonspace :: "char \<Rightarrow> bool" where
  "nonspace c \<equiv> \<not> isspace c"

lemma split_on_nonempty [simp]: "split_on p xs \<noteq> []"
  by (cases xs) (auto split: list.split)

lemma split_on_takeWhile:
  "split_on p xs = takeWhile (\<lambda>c. \<not> p c) xs #
    (case dropWhile (\<lambda>c. \<not> p c) xs of [] \<Rightarrow> [] | c # cs \<Rightarrow> split_on p cs)"
  by (induction xs) (auto split: list.split)

lemma tokens_dropWhile: "tokens (dropWhile isspace s) = tokens s"
  by (induction s) (auto simp: tokens_def)

lemma tokens_spaces: "dropWhile isspace s = [] \<Longrightarrow> tokens s = []"
proof -
  assume "dropWhile isspace s = []"
  then have "tokens s = tokens []" by (metis tokens_dropWhile)
  then show ?thesis by (simp add: tokens_def)
qed

lemma tokens_word:
  assumes "dropWhile isspace s \<noteq> []"
  shows "tokens s = takeWhile nonspace (dropWhile isspace s) #
    tokens (drop 1 (dropWhile nonspace (dropWhile isspace s)))"
proof -
  let ?r = "dropWhile isspace s"
  have w: "takeWhile nonspace ?r \<noteq> []"
    using assms hd_dropWhile [OF assms] by (cases ?r) auto
  have "tokens s = tokens ?r" by (simp add: tokens_dropWhile)
  also have "\<dots> = takeWhile nonspace ?r # tokens (drop 1 (dropWhile nonspace ?r))"
    using w split_on_takeWhile [of isspace ?r] unfolding tokens_def
    by (cases "dropWhile nonspace ?r") (simp_all del: dropWhile_eq_Nil_conv)
  finally show ?thesis .
qed

lemma word_loop_takeWhile:
  "i \<le> length s \<Longrightarrow> word_loop s i = i + length (takeWhile nonspace (drop i s))"
proof (induction s i rule: word_loop.induct)
  case (1 s i)
  then show ?case
    by (cases "i < length s") (subst word_loop.simps, auto simp: Cons_nth_drop_Suc [symmetric])+
qed

lemma skipSpace_loop_takeWhile:
  "i \<le> length s \<Longrightarrow> skipSpace_loop s i (Some (length s)) = i + length (takeWhile isspace (drop i s))"
proof (induction "length s - i" arbitrary: i)
  case 0
  then show ?case by (subst skipSpace_loop.simps) simp
next
  case (Suc n)
  then have i: "i < length s" by simp
  have "skipSpace_loop s (i + 1) (Some (length s)) = (i + 1) + length (takeWhile isspace (drop (i + 1) s))"
    using Suc by (intro Suc.hyps) auto
  then show ?case
    using i by (subst skipSpace_loop.simps) (simp add: cstr_at_def Cons_nth_drop_Suc [symmetric])
qed

lemma drop_takeWhile_length: "drop (length (takeWhile p xs)) xs = dropWhile p xs"
  by (metis append_eq_conv_conj takeWhile_dropWhile_id)

lemma drop_past: "drop (i + length (takeWhile p (drop i s))) s = dropWhile p (drop i s)"
  by (metis drop_drop add.commute drop_takeWhile_length)

text \<open>One word, and what remains of the input behind it.\<close>

lemma ficlVmGetWord0_input:
  assumes "tib_ok vm"
  shows "\<exists>vm'. ficlVmGetWord0 vm = Ok (takeWhile nonspace (dropWhile isspace (input vm)), vm') \<and>
    tib_ok vm' \<and> input vm' = drop 1 (dropWhile nonspace (dropWhile isspace (input vm))) \<and>
    (\<exists>t. vm' = vm\<lparr>vm_tib := t\<rparr>)"
proof -
  define s where "s = tib_text (vm_tib vm)"
  define i where "i = nat (tib_index (vm_tib vm))"
  define a where "a = i + length (takeWhile isspace (drop i s))"
  define b where "b = a + length (takeWhile nonspace (drop a s))"
  define e where "e = (if b \<noteq> length s \<and> isspace (cstr_at s b) then b + 1 else b)"
  have i: "i \<le> length s" and inp: "input vm = drop i s"
    using assms by (auto simp: tib_ok_def i_def s_def input_def)
  have a: "a \<le> length s" using i length_takeWhile_le [of isspace "drop i s"] by (simp add: a_def)
  have b: "b \<le> length s" using a length_takeWhile_le [of nonspace "drop a s"] by (simp add: b_def)
  have da: "drop a s = dropWhile isspace (input vm)"
    unfolding a_def inp by (rule drop_past)
  have db: "drop b s = dropWhile nonspace (dropWhile isspace (input vm))"
    unfolding b_def da [symmetric] by (rule drop_past)
  have w: "substring s a b = takeWhile nonspace (dropWhile isspace (input vm))"
    by (simp add: substring_def b_def da takeWhile_eq_take [symmetric])
  have "isspace (s ! b)" if "b < length s"
    using that db hd_dropWhile [of nonspace "dropWhile isspace (input vm)"] hd_drop_conv_nth [of b s]
    by (metis drop_eq_Nil2 not_le)
  then have e: "drop e s = drop 1 (drop b s)" "e \<le> length s"
    using b by (auto simp: e_def cstr_at_def)
  have "ficlVmGetWord0 vm = Ok (substring s a b, ficlVmUpdateTib vm e)"
    using assms word_loop_takeWhile [OF a] skipSpace_loop_takeWhile [OF i]
    by (simp add: ficlVmGetWord0_def ficlVmGetInBuf_def tib_ok_def ficlVmGetInBufEnd_def Let_def
        s_def [symmetric] i_def [symmetric] a_def [symmetric] b_def [symmetric]) (simp add: e_def)
  then show ?thesis
    using e w db by (auto simp: ficlVmUpdateTib_def tib_ok_def input_def s_def [symmetric])
qed

text \<open>Reading word after word with \<open>ficlVmGetWord\<close>.\<close>

fun read_words :: "nat \<Rightarrow> ficlVm \<Rightarrow> (string list \<times> ficlVm) vm_result" where
  "read_words 0 vm = Ok ([], vm)"
| "read_words (Suc n) vm = bind_outcome (ficlVmGetWord vm) (\<lambda>(w, vm).
     bind_outcome (read_words n vm) (\<lambda>(ws, vm). Ok (w # ws, vm)))"

lemma ficlVmGetWord_end:
  assumes "tib_ok vm" and "tokens (input vm) = []"
  shows "\<exists>t. ficlVmGetWord vm = ficlVmThrow (vm\<lparr>vm_tib := t\<rparr>) FICL_VM_STATUS_RESTART"
proof -
  have "dropWhile isspace (input vm) = []"
    using assms(2) tokens_word [of "input vm"] by (auto simp del: dropWhile_eq_Nil_conv)
  then show ?thesis
    using ficlVmGetWord0_input [OF assms(1)]
    by (auto simp: ficlVmGetWord_def simp del: dropWhile_eq_Nil_conv)
qed

lemma ficlVmGetWord_next:
  assumes "tib_ok vm" and "tokens (input vm) = w # ws"
  shows "\<exists>vm'. ficlVmGetWord vm = Ok (w, vm') \<and> tib_ok vm' \<and> tokens (input vm') = ws \<and>
    (\<exists>t. vm' = vm\<lparr>vm_tib := t\<rparr>)"
proof -
  have ne: "dropWhile isspace (input vm) \<noteq> []"
    using assms(2) tokens_spaces [of "input vm"] by auto
  have w: "w = takeWhile nonspace (dropWhile isspace (input vm))"
      "ws = tokens (drop 1 (dropWhile nonspace (dropWhile isspace (input vm))))"
    using tokens_word [OF ne] assms(2) by simp_all
  have "w \<in> set (tokens (input vm))" using assms(2) by simp
  then have "w \<noteq> []" by (simp add: tokens_def)
  then show ?thesis
    using ficlVmGetWord0_input [OF assms(1)] unfolding w(1) [symmetric]
    by (auto simp: ficlVmGetWord_def w(2))
qed

lemma read_words_tokens:
  assumes "tib_ok vm" and "tokens (input vm) = ws @ us"
  shows "\<exists>vm'. read_words (length ws) vm = Ok (ws, vm') \<and> tib_ok vm' \<and> tokens (input vm') = us \<and>
    (\<exists>t. vm' = vm\<lparr>vm_tib := t\<rparr>)"
  using assms
proof (induction ws arbitrary: vm)
  case Nil
  then show ?case by (auto intro: exI [of _ "vm_tib vm"])
next
  case (Cons w ws)
  obtain vm1 where vm1: "ficlVmGetWord vm = Ok (w, vm1)" "tib_ok vm1" "tokens (input vm1) = ws @ us"
      "\<exists>t. vm1 = vm\<lparr>vm_tib := t\<rparr>"
    using ficlVmGetWord_next [OF Cons.prems(1)] Cons.prems(2) by auto
  obtain vm2 where "read_words (length ws) vm1 = Ok (ws, vm2)" "tib_ok vm2" "tokens (input vm2) = us"
      "\<exists>t. vm2 = vm1\<lparr>vm_tib := t\<rparr>"
    using Cons.IH [OF vm1(2,3)] by blast
  then show ?case using vm1 by auto
qed

subsection \<open>Strings with a delimiter\<close>

lemma skip_delimiters_takeWhile:
  "i \<le> length s \<Longrightarrow> skip_delimiters s d i = i + length (takeWhile ((=) d) (drop i s))"
proof (induction s d i rule: skip_delimiters.induct)
  case (1 s d i)
  then show ?case
    by (cases "i < length s") (subst skip_delimiters.simps, auto simp: Cons_nth_drop_Suc [symmetric])+
qed

lemma find_delimiter_takeWhile:
  "i \<le> length s \<Longrightarrow> find_delimiter s d i = i + length (takeWhile (\<lambda>c. \<not> ends_string d c) (drop i s))"
proof (induction s d i rule: find_delimiter.induct)
  case (1 s d i)
  then show ?case
    by (cases "i < length s") (subst find_delimiter.simps, auto simp: Cons_nth_drop_Suc [symmetric])+
qed

text \<open>A string up to its delimiter on the same line is returned, and the delimiter consumed.\<close>

lemma ficlVmParseStringEx_input:
  assumes "tib_ok vm" and inp: "input vm = pre @ w @ d # rest"
    and pre: "if skip then set pre \<subseteq> {d} \<and> (w = [] \<longrightarrow> pre = []) else pre = []"
    and w: "\<forall>c\<in>set w. \<not> ends_string d c" and nf: "skip \<Longrightarrow> w \<noteq> []"
  shows "\<exists>vm'. ficlVmParseStringEx vm d skip = Ok (w, vm') \<and> tib_ok vm' \<and> input vm' = rest \<and>
    (\<exists>t. vm' = vm\<lparr>vm_tib := t\<rparr>)"
proof -
  define s where "s = tib_text (vm_tib vm)"
  define i where "i = nat (tib_index (vm_tib vm))"
  have i: "i \<le> length s" and ds: "drop i s = pre @ w @ d # rest"
    using assms(1) inp by (auto simp: tib_ok_def i_def s_def input_def)
  let ?a = "i + length pre" and ?b = "i + length pre + length w"
  have len: "?b < length s" using arg_cong [OF ds, of length] i by simp
  have da: "drop ?a s = w @ d # rest"
    using ds by (metis add.commute append_eq_conv_conj drop_drop)
  have db: "drop ?b s = d # rest"
    using da by (metis add.commute append_eq_conv_conj drop_drop)
  have hdw: "w \<noteq> [] \<Longrightarrow> hd w \<noteq> d" using w by (cases w) (auto simp: ends_string_def)
  have a: "(if skip then skip_delimiters s d i else i) = ?a"
  proof (cases skip)
    case True
    have "takeWhile ((=) d) (drop i s) = pre"
      unfolding ds using pre True nf hdw by (cases w) (auto simp: takeWhile_append)
    then show ?thesis using True skip_delimiters_takeWhile [OF i, of d] by simp
  qed (use pre in simp)
  have b: "find_delimiter s d ?a = ?b"
    using find_delimiter_takeWhile [of ?a s d] len w unfolding da
    by (simp add: takeWhile_append ends_string_def)
  have "s ! ?b = d" using db len by (metis hd_drop_conv_nth list.sel(1))
  then have "ficlVmParseStringEx vm d skip = Ok (w, ficlVmUpdateTib vm (?b + 1))"
    using assms(1) a b len da
    by (simp add: ficlVmParseStringEx_def ficlVmGetInBuf_def tib_ok_def ficlVmGetInBufEnd_def Let_def
        s_def [symmetric] i_def [symmetric] substring_def cstr_at_def)
  moreover have "drop (?b + 1) s = rest"
    using db by (metis drop_Suc_Cons drop_drop drop0 One_nat_def add.commute)
  moreover have "nat (int (?b + 1)) = ?b + 1" by (rule nat_int)
  ultimately show ?thesis
    using len by (auto simp: ficlVmUpdateTib_def tib_ok_def input_def s_def [symmetric]
        simp del: drop_drop of_nat_add)
qed

subsection \<open>Numbers that are read back\<close>

lemma parse_digit_written:
  "list_all (\<lambda>d. parse_digit (digit_char d) = of_nat d \<and> isalnum (digit_char d) \<and> digit_char d \<noteq> NUL \<and>
     (d < 13 \<longrightarrow> digit_char d \<noteq> CHR ''d'') \<and> digit_char d \<noteq> CHR ''-'' \<and> digit_char d \<noteq> CHR ''+'') [0..<36]"
  by code_simp

lemma written_digit:
  assumes "d < 36"
  shows "parse_digit (digit_char d) = of_nat d" and "isalnum (digit_char d)" and "digit_char d \<noteq> NUL"
    and "digit_char d \<noteq> CHR ''-''" and "digit_char d \<noteq> CHR ''+''" and "d < 13 \<Longrightarrow> digit_char d \<noteq> CHR ''d''"
  using parse_digit_written assms unfolding list_all_iff by auto

interpretation dc: digit_codec "cstr_at digits" "\<lambda>c. unat (parse_digit c)" 36
  by unfold_locales (simp add: written_digit unsigned_of_nat take_bit_nat_eq_self)

definition number_char :: "cell \<Rightarrow> char \<Rightarrow> bool" where
  "number_char base c = (isalnum c \<and> c \<noteq> NUL \<and> parse_digit c < base)"

text \<open>The loop computes the value of the digits, reduced to the width of a cell.\<close>

lemma number_loop_value:
  assumes "list_all (number_char base) cs"
  shows "number_loop base cs a =
    Some (of_nat (foldl (\<lambda>a c. a * unat base + unat (parse_digit c)) (unat a) cs))"
  using assms
proof (induction cs arbitrary: a)
  case (Cons c cs)
  let ?a = "a * base + parse_digit c"
  have fold: "of_nat (foldl (\<lambda>a c. a * unat base + unat (parse_digit c)) n cs) =
      (of_nat (foldl (\<lambda>a c. a * unat base + unat (parse_digit c)) m cs) :: cell)"
    if "of_nat n = (of_nat m :: cell)" for n m
    using that by (induction cs arbitrary: n m) simp_all
  have "number_loop base (c # cs) a = number_loop base cs ?a"
    using Cons.prems leD [of base "parse_digit c"] by (auto simp: number_char_def)
  also have "\<dots> = Some (of_nat (foldl (\<lambda>a c. a * unat base + unat (parse_digit c)) (unat ?a) cs))"
    using Cons by simp
  also have "\<dots> = Some (of_nat (foldl (\<lambda>a c. a * unat base + unat (parse_digit c))
      (unat a * unat base + unat (parse_digit c)) cs))"
    by (subst fold [of _ "unat a * unat base + unat (parse_digit c)"]) simp_all
  finally show ?case by simp
qed simp

lemma written_number_chars:
  assumes "1 < r" and "r \<le> 36" and "unat base = r"
  shows "list_all (number_char base) (map digit_char (rev (lsd_digits r n)))"
proof -
  have "number_char base (digit_char d)" if "d \<in> set (lsd_digits r n)" for d
    using lsd_digits_less [OF that] assms written_digit [of d]
    by (simp add: number_char_def word_less_nat_alt unsigned_of_nat take_bit_nat_eq_self)
  then show ?thesis by (auto simp: list_all_iff)
qed

lemma number_loop_written:
  assumes "1 < r" and "r \<le> 36" and "unat base = r"
  shows "number_loop base (map digit_char (rev (lsd_digits r n))) 0 = Some (of_nat n)"
  using number_loop_value [OF written_number_chars [OF assms]] dc.read_written [OF assms(1,2)]
  by (simp add: assms(3))

text \<open>A numeral: its digits end in no \<open>d\<close>, the mark of a double.\<close>

lemma ficlVmPush_data:
  "vm_wf vm \<Longrightarrow> length (data vm) < st_size (vm_dataStack vm) \<Longrightarrow> ficlVmPush vm c = Ok (dpushed c vm)"
  by (auto simp: ficlVmPush_def ficlStackPush_def stk_access_defs vm_lift_def vm_wf_def stack_wf_def
      stack_list_def dpushed_def)

lemma ficlVmParseNumber_digits:
  assumes "number_loop (vm_base vm) s 0 = Some v" and "s \<noteq> []" and "last s \<noteq> CHR ''d''"
    and "neg \<or> hd s \<noteq> CHR ''-'' \<and> hd s \<noteq> CHR ''+''"
    and "vm_state vm = FICL_VM_STATE_INTERPRET" and "vm_wf vm" and "length (data vm) < st_size (vm_dataStack vm)"
  shows "ficlVmParseNumber E False vm ((if neg then ''-'' else '''') @ s) = Ok (True, dpushed (if neg then - v else v) vm)"
proof -
  have sg: "number_sign ((if neg then ''-'' else '''') @ s) = (neg, s)"
    using assms(2,4) by (cases s) (auto simp: number_sign_def)
  have db: "number_double s = (False, s)" using assms(3) by (simp add: number_double_def)
  have "vm_state (dpushed c vm) = vm_state vm" for c by (simp add: dpushed_def)
  then show ?thesis
    using assms(1,2,5) sg db ficlVmPush_data [OF assms(6,7)]
    by (simp add: ficlVmParseNumber_def Let_def FICL_VM_STATE_INTERPRET_def FICL_VM_STATE_COMPILE_def split: if_splits)
qed

lemma last_written:
  assumes "1 < r" and "r \<le> 13" and "0 < n"
  shows "last (map digit_char (rev (lsd_digits r n))) \<noteq> CHR ''d''"
proof -
  have e: "lsd_digits r n = n mod r # lsd_digits r (n div r)"
    using assms by (subst lsd_digits.simps) simp
  have "n mod r < r" using assms(1) by (intro mod_less_divisor) simp
  then show ?thesis unfolding e using assms(2) by (simp add: written_digit)
qed

lemma hd_written:
  assumes "1 < r" and "r \<le> 36" and "0 < n"
  shows "hd (map digit_char (rev (lsd_digits r n))) \<noteq> CHR ''-''"
    and "hd (map digit_char (rev (lsd_digits r n))) \<noteq> CHR ''+''"
    and "lsd_digits r n \<noteq> []"
proof -
  show ne: "lsd_digits r n \<noteq> []" using assms lsd_digits_eq_Nil_iff [of r n] by simp
  have "last (lsd_digits r n) < 36"
    using lsd_digits_less [OF last_in_set [OF ne]] assms(2) by simp
  then show "hd (map digit_char (rev (lsd_digits r n))) \<noteq> CHR ''-''"
    and "hd (map digit_char (rev (lsd_digits r n))) \<noteq> CHR ''+''"
    using ne by (simp_all add: hd_map hd_rev written_digit)
qed

text \<open>The numeral of a number in a radix up to 13 is read back as that number.\<close>

lemma ficlVmParseNumber_written:
  assumes "1 < r" and "r \<le> 13" and "unat (vm_base vm) = r" and "neg \<longrightarrow> 0 < n"
    and "vm_state vm = FICL_VM_STATE_INTERPRET" and "vm_wf vm" and "length (data vm) < st_size (vm_dataStack vm)"
  shows "ficlVmParseNumber E False vm ((if neg then ''-'' else '''') @
      (if n = 0 then ''0'' else map digit_char (rev (lsd_digits r n)))) =
    Ok (True, dpushed (if neg then - of_nat n else of_nat n) vm)"
proof (cases "n = 0")
  case True
  have "digit_char 0 = CHR ''0''" by (simp add: digits_def cstr_at_def)
  then have "parse_digit (CHR ''0'') = 0" "isalnum (CHR ''0'')" "CHR ''0'' \<noteq> NUL"
    using written_digit [of 0] by auto
  moreover have "0 < vm_base vm" using assms(1,3) by (auto simp: word_less_nat_alt)
  ultimately have "number_loop (vm_base vm) ''0'' 0 = Some 0" by (simp add: not_le)
  then show ?thesis using ficlVmParseNumber_digits [of vm "''0''" 0 False] True assms(4-7) by simp
next
  case False
  let ?s = "map digit_char (rev (lsd_digits r n))"
  have "number_loop (vm_base vm) ?s 0 = Some (of_nat n)"
    using number_loop_written [OF assms(1) _ assms(3)] assms(2) by simp
  then show ?thesis
    using ficlVmParseNumber_digits [of vm ?s "of_nat n" neg] last_written [OF assms(1,2)] hd_written [OF assms(1)]
      False assms by simp
qed

lemma ficlVmParseNumber_ltoa:
  assumes "vm_base vm = 10" and "vm_state vm = FICL_VM_STATE_INTERPRET" and "vm_wf vm"
    and "length (data vm) < st_size (vm_dataStack vm)" and "ficlLtoa v 10 = Some s"
  shows "ficlVmParseNumber E False vm s = Ok (True, dpushed v vm)"
proof -
  let ?neg = "sint v < 0" and ?n = "ltoa_magnitude v 10"
  have z: "?n = 0 \<longleftrightarrow> v = 0"
    by (auto simp: ltoa_magnitude_def unat_eq_zero)
  have s: "s = (if ?neg then ''-'' else '''') @ (if ?n = 0 then ''0'' else map digit_char (rev (lsd_digits 10 ?n)))"
    using assms(5) ficlLtoa_digits [of 10 v] z by (cases "sint v < 0"; cases "v = 0") auto
  have v: "(if ?neg then - of_nat ?n else of_nat ?n) = v"
    by (auto simp: ltoa_magnitude_def)
  show ?thesis
    using ficlVmParseNumber_written [of 10 vm ?neg ?n E] assms(1-4) z unfolding s v by auto
qed

subsection \<open>Literals\<close>

definition literal_cells :: "cell \<Rightarrow> cell list" where
  "literal_cells c =
     (if 1 \<le> sint c \<and> sint c \<le> 16 then [c]
      else if -16 \<le> sint c \<and> sint c \<le> 0 then [ficlInstruction0 - c]
      else [ficlInstructionLiteralParen, c])"

lemma ficlVmPop_data:
  "vm_wf vm \<Longrightarrow> data vm = c # cs \<Longrightarrow> ficlVmPop vm = Ok (c, ddrop 1 vm)"
  using stk_get_wf [of "vm_dataStack vm" 0]
  by (simp add: ficlVmPop_def ficlStackPop_def vm_lift_def vm_wf_def ddrop_def)

lemma append_unsigned_cell: "PRIMITIVE_APPEND_UNSIGNED vm c = in_dict (\<lambda>d. append_cells d [c]) vm"
  by (simp add: PRIMITIVE_APPEND_UNSIGNED_def in_dict_def ficlDictionaryAppendUnsigned_def
      ficlDictionaryAppendCell_def vm_lift_def split: outcome.split)

lemma in_dict_append:
  "bind_outcome (in_dict (\<lambda>d. append_cells d cs) vm) (in_dict (\<lambda>d. append_cells d cs')) =
    in_dict (\<lambda>d. append_cells d (cs @ cs')) vm"
proof -
  have a: "append_cells d (cs @ cs') = bind_outcome (append_cells d cs) (\<lambda>d. append_cells d cs')" for d
  proof (induction cs arbitrary: d)
    case (Cons c cs)
    then show ?case by (cases "ficlDictionaryAppendCell d c") simp_all
  qed simp
  have nt: "append_cells d cs \<noteq> Throw e" for d cs e
  proof (induction cs arbitrary: d)
    case (Cons c cs)
    then show ?case
      by (auto simp: outcome_simps ficlDictionaryAppendCell_def d_store_cell_def split: option.splits)
  qed simp
  show ?thesis
  proof (cases "append_cells (vm_dict vm) cs")
    case (Ok d)
    then show ?thesis using nt unfolding in_dict_def a vm_lift_def
      by (cases "append_cells d cs'") simp_all
  qed (use nt in \<open>simp_all add: in_dict_def a vm_lift_def\<close>)
qed

lemma ficlPrimitiveLiteralIm_cells:
  assumes "vm_wf vm" and "data vm = c # cs"
  shows "ficlPrimitiveLiteralIm vm = in_dict (\<lambda>d. append_cells d (literal_cells c)) (ddrop 1 vm)"
  using in_dict_append [of "[ficlInstructionLiteralParen]" "ddrop 1 vm" "[c]"]
  by (simp add: ficlPrimitiveLiteralIm_def ficlVmPop_data [OF assms] append_unsigned_cell literal_cells_def Let_def)

lemma CHECK_STACK_room:
  "vm_wf vm \<Longrightarrow> length (data vm) < st_size (vm_dataStack vm) \<Longrightarrow> CHECK_STACK 0 1 k vm = k vm"
  for k :: instr
  using CHECK_STACK_cases [of vm 0 1 k] by (auto simp: vm_wf_def)

lemma inner_step_number:
  assumes "vm_wf vm" and "length (data vm) < st_size (vm_dataStack vm)" and "vm_ip vm \<noteq> NULL"
    and "load_cell (d_bytes (vm_dict vm)) (vm_ip vm) = Some i"
    and "number_table i = Some (CHECK_STACK 0 1 (dmove 1 (dset 0 c continue)))"
  shows "inner_step E vm = Some (Ok (Continue ((dpushed c vm)\<lparr>vm_ip := vm_ip vm + 8\<rparr>)))"
proof -
  let ?v = "vm\<lparr>vm_ip := vm_ip vm + 8\<rparr>"
  have "i \<noteq> ficlInstructionBranchParenWithCheck" "i \<noteq> ficlInstructionBranch0ParenWithCheck"
    using assms(5) by (auto simp: number_table_def token_simps)
  then have "inner_step E vm = Some (CHECK_STACK 0 1 (dpush c continue) ?v)"
    using assms(3-5) by (simp add: inner_step_def d_load_cell_def exec_word_def inner_switch_def dpush_def)
  also have "\<dots> = Some (Ok (Continue (dpushed c ?v)))"
    using assms(1,2) by (simp add: CHECK_STACK_room dpush_list continue_def)
  finally show ?thesis by (simp add: dpushed_def)
qed

text \<open>The cells of a literal push its value and are passed over.\<close>

lemma number_cell_table:
  assumes "-16 \<le> sint c" and "sint c \<le> 16"
  shows "number_table (hd (literal_cells c)) = Some (CHECK_STACK 0 1 (dmove 1 (dset 0 c continue)))"
proof (cases "1 \<le> sint c")
  case True
  define n where "n = nat (sint c)"
  have i: "int n = sint c" using True by (simp add: n_def)
  have "of_int (sint c) = c" by simp
  then have "c = of_nat n" unfolding i [symmetric] by simp
  moreover have "1 \<le> n" "n \<le> 16" using True assms(2) by (simp_all add: n_def)
  ultimately have "c = of_nat n" "1 \<le> n" "n \<le> 16" by simp_all
  then have "unat c = n" by (simp add: unsigned_of_nat take_bit_nat_eq_self)
  then have "ficlInstruction1 \<le> c" "c \<le> ficlInstruction16"
    using \<open>1 \<le> n\<close> \<open>n \<le> 16\<close> by (simp_all add: word_le_nat_alt token_simps)
  then show ?thesis using True assms
    by (simp add: literal_cells_def number_table_def instr_positive_def)
next
  case False
  define n where "n = nat (- sint c)"
  have i: "sint c = - int n" using False by (simp add: n_def)
  have "n \<le> 16" using assms(1) by (simp add: n_def)
  have "of_int (sint c) = c" by simp
  then have "- c = of_nat n" unfolding i by auto
  then have e: "ficlInstruction0 - c = of_nat (17 + n)"
    by (simp add: token_simps diff_conv_add_uminus del: add_uminus_conv_diff)
  have "unat (ficlInstruction0 - c) = 17 + n"
    unfolding e using \<open>n \<le> 16\<close> by (simp only: unsigned_of_nat) (simp add: take_bit_nat_eq_self)
  then have "ficlInstruction0 \<le> ficlInstruction0 - c" "ficlInstruction0 - c \<le> ficlInstructionNeg16"
      "\<not> ficlInstruction0 - c \<le> ficlInstruction16"
    using \<open>n \<le> 16\<close> by (simp_all add: word_le_nat_alt token_simps)
  then show ?thesis using False assms
    by (simp add: literal_cells_def number_table_def instr_negative_def)
qed

lemma literal_executes:
  assumes "vm_wf vm" and "length (data vm) < st_size (vm_dataStack vm)" and "vm_ip vm \<noteq> NULL"
    and "cells_at (d_bytes (vm_dict vm)) (vm_ip vm) (literal_cells c)"
  shows "inner_step E vm =
    Some (Ok (Continue ((dpushed c vm)\<lparr>vm_ip := vm_ip vm + 8 * of_nat (length (literal_cells c))\<rparr>)))"
proof (cases "-16 \<le> sint c \<and> sint c \<le> 16")
  case True
  then have l: "length (literal_cells c) = 1" by (auto simp: literal_cells_def)
  then have "load_cell (d_bytes (vm_dict vm)) (vm_ip vm) = Some (hd (literal_cells c))"
    using assms(4) by (cases "literal_cells c") (auto simp: cells_at_def)
  then show ?thesis
    using inner_step_number [OF assms(1-3)] number_cell_table True l by simp
next
  case False
  then have l: "literal_cells c = [ficlInstructionLiteralParen, c]"
    by (auto simp: literal_cells_def)
  let ?v = "vm\<lparr>vm_ip := vm_ip vm + 8\<rparr>"
  have m: "load_cell (d_bytes (vm_dict vm)) (vm_ip vm) = Some ficlInstructionLiteralParen"
      "load_cell (d_bytes (vm_dict vm)) (vm_ip vm + 8) = Some c"
    using assms(4) spec [OF assms(4) [unfolded cells_at_def l], of 1] by (auto simp: cells_at_def l)
  have "inner_step E vm = Some (instr_LiteralParen ?v)"
    by (rule inner_step_instr [OF assms(3) m(1)]) (simp add: stack_table_def memory_table_def)
  also have "instr_LiteralParen ?v = dpush c (imove 1 continue) ?v"
  proof -
    have "dmove 1 (iref (\<lambda>c. dset 0 c (imove 1 continue))) ?v = dmove 1 (dset 0 c (imove 1 continue)) ?v"
      using m(2) by (simp add: dmove_def iref_def d_load_cell_def)
    then show ?thesis
      using assms(1,2) by (simp add: instr_LiteralParen_def CHECK_STACK_room dpush_def)
  qed
  also have "\<dots> = Ok (Continue ((dpushed c vm)\<lparr>vm_ip := vm_ip vm + 16\<rparr>))"
    using assms(1,2) by (simp add: dpush_list imove_def continue_def) (simp add: dpushed_def)
  finally show ?thesis by (simp add: l)
qed

text \<open>Compiling a number and executing the compiled cells push it again.\<close>

lemma literal_roundtrip:
  assumes "vm_wf vm" and "data vm = c # cs" and "room (vm_dict vm) 16"
  shows "\<exists>vm'. ficlPrimitiveLiteralIm vm = Ok vm' \<and> vm_wf vm' \<and> data vm' = cs \<and>
    (\<forall>vm2. vm_wf vm2 \<and> length (data vm2) < st_size (vm_dataStack vm2) \<and> vm_ip vm2 = d_here (vm_dict vm) \<and>
      vm_ip vm2 \<noteq> NULL \<and> vm_dict vm2 = vm_dict vm' \<longrightarrow>
      inner_step E vm2 = Some (Ok (Continue ((dpushed c vm2)\<lparr>vm_ip := d_here (vm_dict vm')\<rparr>))))"
proof -
  let ?v = "ddrop 1 vm"
  have v: "vm_wf ?v" "data ?v = cs" "vm_dict ?v = vm_dict vm" using assms(1,2) by (simp_all add: flow_simps)
  have "length (literal_cells c) \<le> 2" by (simp add: literal_cells_def)
  then have "room (vm_dict vm) (8 * length (literal_cells c))"
    using assms(3) by (auto simp: room_def allocated_def list_all_iff)
  then obtain d where d: "append_cells (vm_dict vm) (literal_cells c) = Ok d"
      "d_here d = d_here (vm_dict vm) + of_nat (8 * length (literal_cells c))"
      "cells_at (d_bytes d) (d_here (vm_dict vm)) (literal_cells c)"
    using append_cells_layout by blast
  have r: "ficlPrimitiveLiteralIm vm = Ok (?v\<lparr>vm_dict := d\<rparr>)"
    using ficlPrimitiveLiteralIm_cells [OF assms(1,2)] d(1) v(3) by (simp add: in_dict_def vm_lift_def)
  have "inner_step E vm2 = Some (Ok (Continue ((dpushed c vm2)\<lparr>vm_ip := d_here d\<rparr>)))"
    if "vm_wf vm2" "length (data vm2) < st_size (vm_dataStack vm2)" "vm_ip vm2 = d_here (vm_dict vm)"
      "vm_ip vm2 \<noteq> NULL" "vm_dict vm2 = d" for vm2
    using literal_executes [OF that(1,2,4), of c E] d(2,3) that(3,5) by simp
  then show ?thesis using r v by (intro exI [of _ "?v\<lparr>vm_dict := d\<rparr>"]) auto
qed

end
