(* ===== verification/Ficl_Jumps.thy ===== *)
theory Ficl_Jumps
  imports Ficl_Flow
begin

section \<open>The optimisation of jumps to jumps\<close>

text \<open>
  \<open>ficlVmOptimizeJumpToJump\<close> rewrites compiled code while it runs. It ends, and on
  well-formed code it does not fault and changes a branch only to a place that its old
  target reaches through unconditional branches.
\<close>

subsection \<open>Cells at multiples of eight\<close>

lemma unat_mult_8: "unat (8 * d :: addr) = (8 * unat d) mod 2 ^ 64"
  by (simp add: unat_word_ariths)

lemma dvd_8_mult: "8 dvd unat (8 * d :: addr)"
  unfolding unat_mult_8 by (intro dvd_mod) simp_all

lemma apart_multiple:
  assumes "q = p + 8 * d" and "p \<noteq> q"
  shows "cells_apart p q"
proof -
  have ge: "8 \<le> (8 * x :: addr)" if "8 * x \<noteq> 0" for x
  proof -
    have "unat (8 * x) \<noteq> 0" using that by (simp add: unat_eq_zero)
    then have "8 \<le> unat (8 * x)" using dvd_8_mult [of x] by (auto dest: dvd_imp_le)
    then show ?thesis by (simp add: word_le_nat_alt)
  qed
  have "q - p = 8 * d" "p - q = 8 * (- d)" using assms(1) by simp_all
  moreover have "8 * d \<noteq> 0" "8 * (- d) \<noteq> 0" using assms by auto
  ultimately show ?thesis unfolding cells_apart_def using ge [of d] ge [of "- d"] by (simp only:) simp
qed

text \<open>The offset that \<open>redirect_jump\<close> stores leads to the wanted address.\<close>

lemma redirect_offset: "8 * of_int (c_div (sint (8 * x :: cell)) 8) = 8 * x"
proof -
  let ?s = "sint (8 * x :: cell)"
  have "8 dvd uint (8 * x)"
    using dvd_8_mult [of x] by (metis int_dvd_int_iff of_nat_numeral uint_nat)
  moreover have "uint (8 * x) = ?s mod 2 ^ 64"
    using uint_sint [of "8 * x"] by (simp add: take_bit_eq_mod)
  ultimately have "8 dvd ?s mod 2 ^ 64" by simp
  then have "8 dvd ?s" by (subst (asm) dvd_mod_iff) simp_all
  then obtain k where k: "?s = 8 * k" by (elim dvdE)
  have "c_div ?s 8 = k" unfolding k c_div_def by (simp add: abs_mult sgn_mult abs_sgn mult.commute)
  then have "8 * of_int (c_div ?s 8) = (of_int ?s :: cell)" by (simp add: k)
  then show ?thesis by simp
qed

subsection \<open>Well-formed code\<close>

definition jump_kind :: "cell \<Rightarrow> bool" where
  "jump_kind c = (c = ficlInstructionBranchParenWithCheck \<or> c = ficlInstructionBranchParen)"

definition branch_kind :: "cell \<Rightarrow> bool" where
  "branch_kind c = (jump_kind c \<or> c = ficlInstructionBranch0ParenWithCheck \<or> c = ficlInstructionBranch0Paren)"

text \<open>The address that the branch at \<open>p\<close> leads to.\<close>

definition target :: "(addr \<rightharpoonup> u8) \<Rightarrow> addr \<Rightarrow> addr option" where
  "target m p = map_option (\<lambda>off. p + 8 + 8 * off) (load_cell m (p + 8))"

text \<open>
  \<open>C\<close> are the addresses of instructions, a whole number of cells apart; branches lead to
  instructions, and their offsets are not instructions.
\<close>

definition code_ok :: "(addr \<rightharpoonup> u8) \<Rightarrow> addr set \<Rightarrow> bool" where
  "code_ok m C = ((\<forall>p\<in>C. \<exists>c. load_cell m p = Some c \<and>
       (branch_kind c \<longrightarrow> p + 8 \<notin> C \<and> (\<exists>q\<in>C. target m p = Some q))) \<and>
     (\<forall>p\<in>C. \<forall>q\<in>C. \<exists>d. q = p + 8 * d))"

definition hops :: "(addr \<rightharpoonup> u8) \<Rightarrow> addr set \<Rightarrow> (addr \<times> addr) set" where
  "hops m C = {(p, q). p \<in> C \<and> (\<exists>c. load_cell m p = Some c \<and> jump_kind c) \<and> target m p = Some q}"

text \<open>The new code has the same instructions, with branches moved along unconditional jumps.\<close>

definition rerouted :: "(addr \<rightharpoonup> u8) \<Rightarrow> addr set \<Rightarrow> (addr \<rightharpoonup> u8) \<Rightarrow> bool" where
  "rerouted m C m' = (\<forall>p\<in>C. \<exists>c c'. load_cell m p = Some c \<and> load_cell m' p = Some c' \<and>
     final_branch c' = final_branch c \<and>
     (branch_kind c \<longrightarrow> (\<exists>q q'. target m p = Some q \<and> target m' p = Some q' \<and> (q, q') \<in> (hops m C)\<^sup>*)))"

lemma final_branch_kind:
  "final_branch c' = final_branch c \<Longrightarrow> jump_kind c' \<longleftrightarrow> jump_kind c"
  "final_branch c' = final_branch c \<Longrightarrow> branch_kind c' \<longleftrightarrow> branch_kind c"
  by (auto simp: final_branch_def jump_kind_def branch_kind_def token_simps split: if_splits)

lemma final_branch_idem [simp]: "final_branch (final_branch c) = final_branch c"
  by (auto simp: final_branch_def token_simps)

lemma rerouted_refl: "code_ok m C \<Longrightarrow> rerouted m C m"
  unfolding rerouted_def code_ok_def by blast

lemma hops_rerouted: "rerouted m C m' \<Longrightarrow> hops m' C \<subseteq> (hops m C)\<^sup>*"
proof (rule subrelI)
  fix p q assume r: "rerouted m C m'" and pq: "(p, q) \<in> hops m' C"
  obtain c' where p: "p \<in> C" "load_cell m' p = Some c'" "jump_kind c'" "target m' p = Some q"
    using pq by (auto simp: hops_def)
  then obtain c where c: "load_cell m p = Some c" "final_branch c' = final_branch c"
      "branch_kind c \<longrightarrow> (\<exists>q0 q'. target m p = Some q0 \<and> target m' p = Some q' \<and> (q0, q') \<in> (hops m C)\<^sup>*)"
    using r by (auto simp: rerouted_def)
  have k: "jump_kind c" using final_branch_kind(1) [OF c(2)] p(3) by simp
  then obtain q0 where q0: "target m p = Some q0" "(q0, q) \<in> (hops m C)\<^sup>*"
    using c(3) p(4) by (auto simp: branch_kind_def)
  have "(p, q0) \<in> hops m C" using p(1) c(1) k q0(1) by (auto simp: hops_def)
  then show "(p, q) \<in> (hops m C)\<^sup>*" using q0(2) by (rule converse_rtrancl_into_rtrancl)
qed

lemma rerouted_trans:
  assumes "rerouted m C m'" and "rerouted m' C m''"
  shows "rerouted m C m''"
  unfolding rerouted_def
proof
  fix p assume p: "p \<in> C"
  obtain c c' where c: "load_cell m p = Some c" "load_cell m' p = Some c'" "final_branch c' = final_branch c"
      "branch_kind c \<longrightarrow> (\<exists>q q'. target m p = Some q \<and> target m' p = Some q' \<and> (q, q') \<in> (hops m C)\<^sup>*)"
    using assms(1) p unfolding rerouted_def by blast
  obtain c'' where c'': "load_cell m'' p = Some c''" "final_branch c'' = final_branch c'"
      "branch_kind c' \<longrightarrow> (\<exists>q q'. target m' p = Some q \<and> target m'' p = Some q' \<and> (q, q') \<in> (hops m' C)\<^sup>*)"
    using assms(2) p c(2) unfolding rerouted_def by fastforce
  have sub: "(hops m' C)\<^sup>* \<subseteq> (hops m C)\<^sup>*"
    using rtrancl_mono [OF hops_rerouted [OF assms(1)]] by simp
  have "\<exists>q q'. target m p = Some q \<and> target m'' p = Some q' \<and> (q, q') \<in> (hops m C)\<^sup>*" if "branch_kind c"
  proof -
    obtain q q' where q: "target m p = Some q" "target m' p = Some q'" "(q, q') \<in> (hops m C)\<^sup>*"
      using c(4) \<open>branch_kind c\<close> by blast
    have "branch_kind c'" using final_branch_kind(2) [OF c(3)] \<open>branch_kind c\<close> by simp
    then obtain q'' where "target m'' p = Some q''" "(q', q'') \<in> (hops m' C)\<^sup>*"
      using c''(3) q(2) by auto
    then show ?thesis using q sub by (meson rtrancl_trans subsetD)
  qed
  then show "\<exists>c c'. load_cell m p = Some c \<and> load_cell m'' p = Some c' \<and> final_branch c' = final_branch c \<and>
      (branch_kind c \<longrightarrow> (\<exists>q q'. target m p = Some q \<and> target m'' p = Some q' \<and> (q, q') \<in> (hops m C)\<^sup>*))"
    using c c'' by auto
qed

lemma hops_in_code: "(p, q) \<in> (hops m C)\<^sup>* \<Longrightarrow> code_ok m C \<Longrightarrow> p \<in> C \<Longrightarrow> q \<in> C"
proof (induction rule: rtrancl_induct)
  case (step q r)
  then obtain c where "q \<in> C" "load_cell m q = Some c" "jump_kind c" "target m q = Some r"
    by (auto simp: hops_def)
  then show ?case using \<open>code_ok m C\<close> unfolding code_ok_def branch_kind_def by fastforce
qed simp

lemma code_ok_rerouted:
  assumes "code_ok m C" and "rerouted m C m'"
  shows "code_ok m' C"
proof -
  have "\<exists>c. load_cell m' p = Some c \<and> (branch_kind c \<longrightarrow> p + 8 \<notin> C \<and> (\<exists>q\<in>C. target m' p = Some q))"
    if p: "p \<in> C" for p
  proof -
    obtain c c' where c: "load_cell m p = Some c" "load_cell m' p = Some c'" "final_branch c' = final_branch c"
        "branch_kind c \<longrightarrow> (\<exists>q q'. target m p = Some q \<and> target m' p = Some q' \<and> (q, q') \<in> (hops m C)\<^sup>*)"
      using assms(2) p unfolding rerouted_def by blast
    have m: "branch_kind c \<longrightarrow> p + 8 \<notin> C \<and> (\<exists>q\<in>C. target m p = Some q)"
      using assms(1) p c(1) unfolding code_ok_def by fastforce
    show ?thesis
      using c m hops_in_code [OF _ assms(1)] final_branch_kind(2) [OF c(3)] by fastforce
  qed
  then show ?thesis using assms(1) unfolding code_ok_def by blast
qed

subsection \<open>The two stores\<close>

lemma store_cell_some: "load_cell m p = Some c \<Longrightarrow> \<exists>m'. store_cell m p w = Some m'"
  by (auto simp: load_cell_def store_cell_def load_bytes_eq store_bytes_eq split: if_splits)

lemma load_other:
  assumes "store_cell m p w = Some m'" and "q = p + 8 * d" and "q \<noteq> p"
  shows "load_cell m' q = load_cell m q"
  using assms apart_multiple by (intro load_store_cell_apart) auto

lemma code_multiple: "code_ok m C \<Longrightarrow> p \<in> C \<Longrightarrow> q \<in> C \<Longrightarrow> \<exists>d. q = p + 8 * d"
  unfolding code_ok_def by blast

lemma code_branch:
  "code_ok m C \<Longrightarrow> p \<in> C \<Longrightarrow> load_cell m p = Some c \<Longrightarrow> branch_kind c \<Longrightarrow>
    p + 8 \<notin> C \<and> (\<exists>q\<in>C. target m p = Some q)"
  unfolding code_ok_def by fastforce

text \<open>Making a branch final.\<close>

lemma store_final:
  assumes ok: "code_ok m C" and p: "p \<in> C" "load_cell m p = Some c"
    and st: "store_cell m p (final_branch c) = Some m'"
  shows "rerouted m C m'" and "\<And>q. q \<in> C \<Longrightarrow> q \<noteq> p \<Longrightarrow> load_cell m' q = load_cell m q"
proof -
  show other: "load_cell m' q = load_cell m q" if "q \<in> C" "q \<noteq> p" for q
    using code_multiple [OF ok p(1) that(1)] load_other [OF st] that(2) by blast
  have tgt: "target m' q = target m q" if q: "q \<in> C" "load_cell m q = Some e" "branch_kind e" for q e
  proof -
    have "q + 8 \<noteq> p" using code_branch [OF ok q] p(1) by auto
    moreover obtain d where "q = p + 8 * d" using code_multiple [OF ok p(1) q(1)] by blast
    then have "q + 8 = p + 8 * (d + 1)" by (simp add: algebra_simps)
    ultimately have "load_cell m' (q + 8) = load_cell m (q + 8)" using load_other [OF st] by blast
    then show ?thesis by (simp add: target_def)
  qed
  show "rerouted m C m'"
    unfolding rerouted_def
  proof
    fix q assume q: "q \<in> C"
    then obtain e where e: "load_cell m q = Some e" using ok unfolding code_ok_def by blast
    obtain e' where e': "load_cell m' q = Some e'" "final_branch e' = final_branch e"
      using other [OF q] e p(2) load_store_cell [OF st] by (cases "q = p") auto
    have "\<exists>t t'. target m q = Some t \<and> target m' q = Some t' \<and> (t, t') \<in> (hops m C)\<^sup>*" if "branch_kind e"
      using tgt [OF q e that] code_branch [OF ok q e that] by auto
    then show "\<exists>c c'. load_cell m q = Some c \<and> load_cell m' q = Some c' \<and> final_branch c' = final_branch c \<and>
        (branch_kind c \<longrightarrow> (\<exists>t t'. target m q = Some t \<and> target m' q = Some t' \<and> (t, t') \<in> (hops m C)\<^sup>*))"
      using e e' by blast
  qed
qed

text \<open>
  Redirecting a branch at \<open>p\<close> that leads to the unconditional branch at \<open>dst\<close>, after the code
  has been rerouted from \<open>m\<close> to \<open>m2\<close>.
\<close>

lemma redirect_rerouted:
  assumes ok: "code_ok m C" and rr: "rerouted m C m2"
    and p: "p \<in> C" "load_cell m p = Some c" "branch_kind c" "target m p = Some dst"
    and dst: "dst \<in> C" "load_cell m dst = Some e" "jump_kind e"
  shows "\<exists>m'. redirect_jump m2 (p + 8) dst = Ok m' \<and> rerouted m C m'"
proof -
  have be: "branch_kind e" using dst(3) by (simp add: branch_kind_def)
  obtain qd q where qd: "target m dst = Some qd" "target m2 dst = Some q" "(qd, q) \<in> (hops m C)\<^sup>*"
    using rr dst(1,2) be unfolding rerouted_def by fastforce
  have "(dst, qd) \<in> hops m C" using dst qd(1) by (auto simp: hops_def)
  then have path: "(dst, q) \<in> (hops m C)\<^sup>*" using qd(3) by (rule converse_rtrancl_into_rtrancl)
  have qC: "q \<in> C" using hops_in_code [OF path ok dst(1)] .
  obtain off where off: "load_cell m2 (dst + 8) = Some off" "q = dst + 8 + 8 * off"
    using qd(2) by (auto simp: target_def)
  obtain q' where "target m2 p = Some q'" using rr p unfolding rerouted_def by fastforce
  then obtain poff where poff: "load_cell m2 (p + 8) = Some poff" by (auto simp: target_def)
  have p8: "p + 8 \<notin> C" using code_branch [OF ok p(1-3)] by blast
  let ?v = "of_int (c_div (sint (q - (p + 8))) 8) :: cell"
  obtain m' where st: "store_cell m2 (p + 8) ?v = Some m'" using store_cell_some [OF poff] by blast
  have red: "redirect_jump m2 (p + 8) dst = Ok m'" using off st by (simp add: redirect_jump_def Let_def)
  obtain d where d: "q = p + 8 * d" using code_multiple [OF ok p(1) qC] by blast
  then have e: "q - (p + 8) = 8 * (d - 1)" by (simp add: algebra_simps)
  have "8 * ?v = q - (p + 8)" unfolding e by (rule redirect_offset)
  then have tp: "target m' p = Some q" using load_store_cell [OF st] by (simp add: target_def)
  have other: "load_cell m' r = load_cell m2 r" if r: "r \<in> C" for r
  proof -
    obtain d where "r = p + 8 * d" using code_multiple [OF ok p(1) r] by blast
    then have "r = p + 8 + 8 * (d - 1)" by (simp add: algebra_simps)
    moreover have "r \<noteq> p + 8" using r p8 by blast
    ultimately show ?thesis using load_other [OF st] by blast
  qed
  have tgt: "target m' r = target m2 r" if r: "r \<in> C" "r \<noteq> p" for r
  proof -
    obtain d where "r = p + 8 * d" using code_multiple [OF ok p(1) r(1)] by blast
    then have "r + 8 = p + 8 + 8 * d" by simp
    moreover have "r + 8 \<noteq> p + 8" using r(2) by simp
    ultimately have "load_cell m' (r + 8) = load_cell m2 (r + 8)" using load_other [OF st] by blast
    then show ?thesis by (simp add: target_def)
  qed
  have "\<exists>c c'. load_cell m r = Some c \<and> load_cell m' r = Some c' \<and> final_branch c' = final_branch c \<and>
      (branch_kind c \<longrightarrow> (\<exists>t t'. target m r = Some t \<and> target m' r = Some t' \<and> (t, t') \<in> (hops m C)\<^sup>*))"
    if r: "r \<in> C" for r
  proof -
    obtain e e' where e: "load_cell m r = Some e" "load_cell m2 r = Some e'" "final_branch e' = final_branch e"
        "branch_kind e \<longrightarrow> (\<exists>t t'. target m r = Some t \<and> target m2 r = Some t' \<and> (t, t') \<in> (hops m C)\<^sup>*)"
      using rr r unfolding rerouted_def by blast
    then show ?thesis
      using other [OF r] tgt [OF r] tp p(4) path by (cases "r = p") auto
  qed
  then show ?thesis using red unfolding rerouted_def by blast
qed

subsection \<open>Termination and correctness\<close>

definition checked_jumps :: "(addr \<rightharpoonup> u8) \<Rightarrow> addr set \<Rightarrow> addr set" where
  "checked_jumps m C = {p \<in> C. load_cell m p = Some ficlInstructionBranchParenWithCheck}"

lemma finite_checked [simp]: "finite (checked_jumps m C)"
  by simp

text \<open>One call, given what the call for the target of the branch does.\<close>

lemma optimize_step:
  assumes ok: "code_ok m C" and ip: "ip \<in> C" "load_cell m ip = Some c" "is_branch_check c"
    and rec: "\<And>m1 dst. code_ok m1 C \<Longrightarrow> dst \<in> C \<Longrightarrow> checked_jumps m1 C \<subseteq> checked_jumps m C - {ip} \<Longrightarrow>
      load_cell m1 dst = Some ficlInstructionBranchParenWithCheck \<Longrightarrow>
      \<exists>m2. ficlVmOptimizeJumpToJump m1 dst = Some (Ok m2) \<and> rerouted m1 C m2"
  shows "\<exists>m'. ficlVmOptimizeJumpToJump m ip = Some (Ok m') \<and> rerouted m C m'"
proof -
  have bc: "branch_kind c" using ip(3) by (auto simp: is_branch_check_def branch_kind_def jump_kind_def)
  obtain m1 where st: "store_cell m ip (final_branch c) = Some m1" using store_cell_some [OF ip(2)] by blast
  note r1 = store_final [OF ok ip(1,2) st]
  have ok1: "code_ok m1 C" using code_ok_rerouted [OF ok r1(1)] .
  have l1: "load_cell m1 ip = Some (final_branch c)" using load_store_cell [OF st] .
  have bf: "branch_kind (final_branch c)" using final_branch_kind(2) [of "final_branch c" c] bc by simp
  obtain dst where dst: "dst \<in> C" "target m1 ip = Some dst" using code_branch [OF ok1 ip(1) l1 bf] by blast
  then obtain off where off: "load_cell m1 (ip + 8) = Some off" "dst = ip + 8 + 8 * off"
    by (auto simp: target_def)
  obtain t where t: "load_cell m1 dst = Some t" using ok1 dst(1) unfolding code_ok_def by blast
  have eq: "ficlVmOptimizeJumpToJump m ip =
      (if t = ficlInstructionBranchParenWithCheck
       then Option.bind (ficlVmOptimizeJumpToJump m1 dst)
              (\<lambda>r. Some (bind_outcome r (\<lambda>m. redirect_jump m (ip + 8) dst)))
       else if t = ficlInstructionBranchParen then Some (redirect_jump m1 (ip + 8) dst)
       else Some (Ok m1))"
    using ip(2,3) st off t by (subst ficlVmOptimizeJumpToJump.simps) simp
  have redir: "\<exists>m'. redirect_jump m2 (ip + 8) dst = Ok m' \<and> rerouted m C m'"
    if "rerouted m1 C m2" "jump_kind t" for m2
    using redirect_rerouted [OF ok1 that(1) ip(1) l1 bf dst(2,1) t that(2)] rerouted_trans [OF r1(1)] by blast
  have cj: "checked_jumps m1 C \<subseteq> checked_jumps m C - {ip}"
  proof
    fix x assume x: "x \<in> checked_jumps m1 C"
    have "final_branch c \<noteq> ficlInstructionBranchParenWithCheck" by (simp add: final_branch_def token_simps)
    then have "x \<noteq> ip" using x l1 by (auto simp: checked_jumps_def)
    then show "x \<in> checked_jumps m C - {ip}" using x r1(2) by (auto simp: checked_jumps_def)
  qed
  show ?thesis
  proof (cases "t = ficlInstructionBranchParenWithCheck")
    case True
    then obtain m2 where m2: "ficlVmOptimizeJumpToJump m1 dst = Some (Ok m2)" "rerouted m1 C m2"
      using rec [OF ok1 dst(1) cj] t by blast
    then show ?thesis using eq True redir [OF m2(2)] by (auto simp: jump_kind_def)
  next
    case False
    then show ?thesis
      using eq redir [OF rerouted_refl [OF ok1]] r1(1) by (auto simp: jump_kind_def)
  qed
qed

lemma optimize_checked_jump:
  assumes "code_ok m C" and "ip \<in> C" and "load_cell m ip = Some ficlInstructionBranchParenWithCheck"
  shows "\<exists>m'. ficlVmOptimizeJumpToJump m ip = Some (Ok m') \<and> rerouted m C m'"
  using assms
proof (induction "card (checked_jumps m C)" arbitrary: m ip rule: less_induct)
  case less
  have ipc: "ip \<in> checked_jumps m C" using less.prems by (simp add: checked_jumps_def)
  show ?case
  proof (rule optimize_step [OF less.prems])
    show "is_branch_check ficlInstructionBranchParenWithCheck" by (simp add: is_branch_check_def)
  next
    fix m1 dst
    assume a: "code_ok m1 C" "dst \<in> C" "checked_jumps m1 C \<subseteq> checked_jumps m C - {ip}"
      "load_cell m1 dst = Some ficlInstructionBranchParenWithCheck"
    have "checked_jumps m1 C \<subset> checked_jumps m C" using a(3) ipc by blast
    then have "card (checked_jumps m1 C) < card (checked_jumps m C)" by (rule psubset_card_mono [rotated]) simp
    then show "\<exists>m2. ficlVmOptimizeJumpToJump m1 dst = Some (Ok m2) \<and> rerouted m1 C m2"
      using less.hyps a by blast
  qed
qed

lemma optimize_jump_correct:
  assumes "code_ok m C" and "ip \<in> C"
  shows "\<exists>m'. ficlVmOptimizeJumpToJump m ip = Some (Ok m') \<and> rerouted m C m'"
proof -
  obtain c where c: "load_cell m ip = Some c" using assms unfolding code_ok_def by blast
  show ?thesis
  proof (cases "is_branch_check c")
    case True
    then show ?thesis using optimize_step [OF assms c] optimize_checked_jump by blast
  next
    case False
    then show ?thesis
      using c rerouted_refl [OF assms(1)] by (subst ficlVmOptimizeJumpToJump.simps) simp
  qed
qed

end
