(* ===== verification/Ficl_Control.thy ===== *)
theory Ficl_Control
  imports Ficl_Parse Ficl_Jumps
begin

section \<open>The compiler of control structures\<close>

text \<open>
  The words of \<open>ficl/primitives.c\<close> that compile colon definitions, conditionals, loops and
  case statements. Open structures are kept on the data stack: the address to patch or to
  branch back to, and the address of a tag (a static string) that says what is open.
  The addresses of the tags are chosen by the linker; they are the parameter \<open>T\<close>.

  The lemmas show that resolved branches lead to where the structure says, that code in
  between is left alone, and that mismatched structures are rejected.
\<close>

datatype control_tag = doTag | colonTag | leaveTag | destTag | origTag | caseTag | ofTag | fallthroughTag

fun tag_text :: "control_tag \<Rightarrow> string" where
  "tag_text doTag = ''do''"
| "tag_text colonTag = ''colon''"
| "tag_text leaveTag = ''leave''"
| "tag_text destTag = ''target''"
| "tag_text origTag = ''origin''"
| "tag_text caseTag = ''case''"
| "tag_text ofTag = ''of''"
| "tag_text fallthroughTag = ''fallthrough''"

type_synonym tags = "control_tag \<Rightarrow> addr"

definition FICL_VM_STATUS_CONTROL_MISMATCH :: int where
  "FICL_VM_STATUS_CONTROL_MISMATCH = -22"

subsection \<open>Builders\<close>

definition here :: "ficlVm \<Rightarrow> addr" where
  "here vm = d_here (vm_dict vm)"

text \<open>The difference of two cell pointers, and a store through a cell pointer.\<close>

definition cell_diff :: "addr \<Rightarrow> addr \<Rightarrow> int" where
  "cell_diff p q = c_div (sint (p - q)) 8"

definition cell_set :: "ficlVm \<Rightarrow> addr \<Rightarrow> cell \<Rightarrow> ficlVm vm_result" where
  "cell_set vm p c = in_dict (\<lambda>d. d_store_cell d p c) vm"

definition markControlTag :: "tags \<Rightarrow> ficlVm \<Rightarrow> control_tag \<Rightarrow> ficlVm vm_result" where
  "markControlTag T vm tag = ficlVmPush vm (T tag)"

definition markBranch :: "tags \<Rightarrow> ficlVm \<Rightarrow> control_tag \<Rightarrow> ficlVm vm_result" where
  "markBranch T vm tag = bind_outcome (ficlVmPush vm (here vm)) (\<lambda>vm. ficlVmPush vm (T tag))"

text \<open>\<open>strcmp\<close> of the string in memory with a tag: \<open>Some True\<close> when they are equal.\<close>

fun strcmp_eq :: "(addr \<rightharpoonup> u8) \<Rightarrow> addr \<Rightarrow> string \<Rightarrow> bool option" where
  "strcmp_eq m p [] = map_option (\<lambda>b. b = 0) (m p)"
| "strcmp_eq m p (c # cs) = (case m p of None \<Rightarrow> None
     | Some b \<Rightarrow> if b = char_byte c then strcmp_eq m (p + 1) cs else Some False)"

text \<open>The test \<open>tag != wantTag && tag && *tag && strcmp(tag, wantTag)\<close>; \<open>None\<close> is a bad pointer.\<close>

definition tag_differs :: "tags \<Rightarrow> (addr \<rightharpoonup> u8) \<Rightarrow> addr \<Rightarrow> control_tag \<Rightarrow> bool option" where
  "tag_differs T m tag wantTag =
     (if tag \<noteq> T wantTag \<and> tag \<noteq> NULL
      then (case m tag of None \<Rightarrow> None
            | Some b \<Rightarrow> if b \<noteq> 0 then map_option Not (strcmp_eq m tag (tag_text wantTag)) else Some False)
      else Some False)"

definition matchControlTag :: "tags \<Rightarrow> ficlVm \<Rightarrow> control_tag \<Rightarrow> ficlVm vm_result" where
  "matchControlTag T vm wantTag =
     bind_outcome (ficlVmPop vm) (\<lambda>(tag, vm).
       case tag_differs T (d_bytes (vm_dict vm)) tag wantTag of None \<Rightarrow> Fault
       | Some b \<Rightarrow> if b then ficlVmThrowException vm FICL_VM_STATUS_CONTROL_MISMATCH else Ok vm)"

definition resolveBackBranch :: "tags \<Rightarrow> ficlVm \<Rightarrow> control_tag \<Rightarrow> ficlVm vm_result" where
  "resolveBackBranch T vm tag =
     bind_outcome (matchControlTag T vm tag) (\<lambda>vm.
       FICL_STACK_CHECK vm 1 0 (bind_outcome (ficlVmPop vm) (\<lambda>(patchAddr, vm).
         let offset = cell_diff patchAddr (here vm)
         in in_dict (\<lambda>d. ficlDictionaryAppendInteger d offset) vm)))"

definition resolveForwardBranch :: "tags \<Rightarrow> ficlVm \<Rightarrow> control_tag \<Rightarrow> ficlVm vm_result" where
  "resolveForwardBranch T vm tag =
     bind_outcome (matchControlTag T vm tag) (\<lambda>vm.
       FICL_STACK_CHECK vm 1 0 (bind_outcome (ficlVmPop vm) (\<lambda>(patchAddr, vm).
         let offset = cell_diff (here vm) patchAddr in cell_set vm patchAddr (of_int offset))))"

text \<open>\<open>resolveAbsBranch\<close> repeats the test of \<open>matchControlTag\<close> and stores \<open>here\<close> itself.\<close>

definition resolveAbsBranch :: "tags \<Rightarrow> ficlVm \<Rightarrow> control_tag \<Rightarrow> ficlVm vm_result" where
  "resolveAbsBranch T vm wantTag =
     bind_outcome (matchControlTag T vm wantTag) (\<lambda>vm.
       bind_outcome (ficlVmPop vm) (\<lambda>(patchAddr, vm). cell_set vm patchAddr (here vm)))"

subsection \<open>Colon definitions\<close>

definition ficlPrimitiveColon :: "tags \<Rightarrow> ficlVm \<Rightarrow> ficlVm vm_result" where
  "ficlPrimitiveColon T vm =
     bind_outcome (ficlVmGetWord vm) (\<lambda>(s, vm).
     bind_outcome (markControlTag T (vm\<lparr>vm_state := FICL_VM_STATE_COMPILE\<rparr>) colonTag) (\<lambda>vm.
     vm_lift vm (ficlDictionaryAppendWord (vm_dict vm) s ficlInstructionColonParen
         (FICL_WORD_DEFAULT OR FICL_WORD_SMUDGED)) (\<lambda>(word, d).
       Ok (vm\<lparr>vm_dict := d, vm_localsCount := 0\<rparr>))))"

text \<open>\<open>ficlDictionaryEmpty(locals, locals->forthWordlist->size)\<close>.\<close>

definition empty_locals :: "ficlVm \<Rightarrow> ficlVm vm_result" where
  "empty_locals vm =
     (case hashes (d_heap (vm_locals vm)) (d_forthWordlist (vm_locals vm)) of None \<Rightarrow> Fault
      | Some h \<Rightarrow> vm_lift vm (ficlDictionaryEmpty (vm_locals vm) (h_size h)) (\<lambda>d. Ok (vm\<lparr>vm_locals := d\<rparr>)))"

definition ficlPrimitiveSemicolonCoIm :: "tags \<Rightarrow> ficlVm \<Rightarrow> ficlVm vm_result" where
  "ficlPrimitiveSemicolonCoIm T vm =
     bind_outcome (matchControlTag T vm colonTag) (\<lambda>vm.
     bind_outcome (if vm_localsCount vm > 0
         then bind_outcome (empty_locals vm) (\<lambda>vm. PRIMITIVE_APPEND_UNSIGNED vm ficlInstructionUnlinkParen)
         else Ok vm) (\<lambda>vm.
     bind_outcome (PRIMITIVE_APPEND_UNSIGNED (vm\<lparr>vm_localsCount := 0\<rparr>) ficlInstructionSemiParen) (\<lambda>vm.
       in_dict ficlDictionaryUnsmudge (vm\<lparr>vm_state := FICL_VM_STATE_INTERPRET\<rparr>))))"

definition ficlPrimitiveExitCoIm :: "ficlVm \<Rightarrow> ficlVm vm_result" where
  "ficlPrimitiveExitCoIm vm =
     bind_outcome (if vm_localsCount vm > 0 then PRIMITIVE_APPEND_UNSIGNED vm ficlInstructionUnlinkParen else Ok vm)
       (\<lambda>vm. PRIMITIVE_APPEND_UNSIGNED vm ficlInstructionExitParen)"

subsection \<open>Conditionals\<close>

definition ficlPrimitiveIfCoIm :: "tags \<Rightarrow> ficlVm \<Rightarrow> ficlVm vm_result" where
  "ficlPrimitiveIfCoIm T vm =
     bind_outcome (PRIMITIVE_APPEND_UNSIGNED vm ficlInstructionBranch0ParenWithCheck) (\<lambda>vm.
     bind_outcome (markBranch T vm origTag) (\<lambda>vm. PRIMITIVE_APPEND_UNSIGNED vm 1))"

definition ficlPrimitiveElseCoIm :: "tags \<Rightarrow> ficlVm \<Rightarrow> ficlVm vm_result" where
  "ficlPrimitiveElseCoIm T vm =
     bind_outcome (PRIMITIVE_APPEND_UNSIGNED vm ficlInstructionBranchParenWithCheck) (\<lambda>vm.
     bind_outcome (matchControlTag T vm origTag) (\<lambda>vm.
     bind_outcome (ficlVmPop vm) (\<lambda>(patchAddr, vm).
     bind_outcome (markBranch T vm origTag) (\<lambda>vm.
     bind_outcome (PRIMITIVE_APPEND_UNSIGNED vm 1) (\<lambda>vm.
       let offset = cell_diff (here vm) patchAddr in cell_set vm patchAddr (of_int offset))))))"

definition ficlPrimitiveEndifCoIm :: "tags \<Rightarrow> ficlVm \<Rightarrow> ficlVm vm_result" where
  "ficlPrimitiveEndifCoIm T vm = resolveForwardBranch T vm origTag"

subsection \<open>Case statements\<close>

definition ficlPrimitiveCaseCoIm :: "tags \<Rightarrow> ficlVm \<Rightarrow> ficlVm vm_result" where
  "ficlPrimitiveCaseCoIm T vm =
     FICL_STACK_CHECK vm 0 2 (bind_outcome (ficlVmPush vm 0) (\<lambda>vm. markControlTag T vm caseTag))"

fun endcase_fixups :: "nat \<Rightarrow> ficlVm \<Rightarrow> ficlVm vm_result" where
  "endcase_fixups 0 vm = Ok vm"
| "endcase_fixups (Suc n) vm =
     bind_outcome (ficlVmPop vm) (\<lambda>(patchAddr, vm).
     bind_outcome (cell_set vm patchAddr (of_int (cell_diff (here vm) patchAddr))) (endcase_fixups n))"

definition ficlPrimitiveEndcaseCoIm :: "tags \<Rightarrow> ficlVm \<Rightarrow> ficlVm vm_result" where
  "ficlPrimitiveEndcaseCoIm T vm =
     vm_lift vm (ficlStackGetTop (vm_dataStack vm)) (\<lambda>c.
     bind_outcome
       (if c = T fallthroughTag
        then bind_outcome (matchControlTag T vm fallthroughTag) (\<lambda>vm.
             bind_outcome (ficlVmPop vm) (\<lambda>(patchAddr, vm).
             bind_outcome (matchControlTag T vm caseTag) (\<lambda>vm.
             bind_outcome (ficlVmPop vm) (\<lambda>(fixupCount, vm).
             bind_outcome (ficlVmPush vm patchAddr) (\<lambda>vm.
             bind_outcome (ficlVmPush vm (fixupCount + 1)) (\<lambda>vm. markControlTag T vm caseTag))))))
        else Ok vm) (\<lambda>vm.
     bind_outcome (matchControlTag T vm caseTag) (\<lambda>vm.
     FICL_STACK_CHECK vm 1 0 (bind_outcome (ficlVmPop vm) (\<lambda>(fixupCount, vm).
     FICL_STACK_CHECK vm (c_int fixupCount) 0
       (bind_outcome (PRIMITIVE_APPEND_UNSIGNED vm ficlInstructionDrop)
          (endcase_fixups (unat fixupCount))))))))"

definition ficlPrimitiveOfCoIm :: "tags \<Rightarrow> ficlVm \<Rightarrow> ficlVm vm_result" where
  "ficlPrimitiveOfCoIm T vm =
     vm_lift vm (ficlStackGetTop (vm_dataStack vm)) (\<lambda>c. FICL_STACK_CHECK vm 1 3
     (bind_outcome
       (if c = T fallthroughTag
        then bind_outcome (matchControlTag T vm fallthroughTag) ficlVmPop
        else Ok (NULL, vm)) (\<lambda>(fallthroughFixup, vm).
     bind_outcome (matchControlTag T vm caseTag) (\<lambda>vm.
     bind_outcome (markControlTag T vm caseTag) (\<lambda>vm.
     bind_outcome (PRIMITIVE_APPEND_UNSIGNED vm ficlInstructionOfParen) (\<lambda>vm.
     bind_outcome (markBranch T vm ofTag) (\<lambda>vm.
     bind_outcome (PRIMITIVE_APPEND_UNSIGNED vm 2) (\<lambda>vm.
       if fallthroughFixup \<noteq> NULL
       then cell_set vm fallthroughFixup (of_int (cell_diff (here vm) fallthroughFixup))
       else Ok vm))))))))"

definition ficlPrimitiveEndofCoIm :: "tags \<Rightarrow> ficlVm \<Rightarrow> ficlVm vm_result" where
  "ficlPrimitiveEndofCoIm T vm =
     FICL_STACK_CHECK vm 4 3
     (bind_outcome (matchControlTag T vm ofTag) (\<lambda>vm.
     bind_outcome (ficlVmPop vm) (\<lambda>(patchAddr, vm).
     bind_outcome (matchControlTag T vm caseTag) (\<lambda>vm.
     bind_outcome (ficlVmPop vm) (\<lambda>(fixupCount, vm).
     bind_outcome (PRIMITIVE_APPEND_UNSIGNED vm ficlInstructionBranchParenWithCheck) (\<lambda>vm.
     bind_outcome (ficlVmPush vm (here vm)) (\<lambda>vm.
     bind_outcome (ficlVmPush vm (fixupCount + 1)) (\<lambda>vm.
     bind_outcome (markControlTag T vm caseTag) (\<lambda>vm.
     bind_outcome (PRIMITIVE_APPEND_UNSIGNED vm 2) (\<lambda>vm.
       cell_set vm patchAddr (of_int (cell_diff (here vm) patchAddr))))))))))))"

definition ficlPrimitiveFallthroughCoIm :: "tags \<Rightarrow> ficlVm \<Rightarrow> ficlVm vm_result" where
  "ficlPrimitiveFallthroughCoIm T vm =
     FICL_STACK_CHECK vm 4 3
     (bind_outcome (matchControlTag T vm ofTag) (\<lambda>vm.
     bind_outcome (ficlVmPop vm) (\<lambda>(patchAddr, vm).
     bind_outcome (matchControlTag T vm caseTag) (\<lambda>vm.
     bind_outcome (markControlTag T vm caseTag) (\<lambda>vm.
     bind_outcome (PRIMITIVE_APPEND_UNSIGNED vm ficlInstructionBranchParenWithCheck) (\<lambda>vm.
     bind_outcome (ficlVmPush vm (here vm)) (\<lambda>vm.
     bind_outcome (markControlTag T vm fallthroughTag) (\<lambda>vm.
     bind_outcome (PRIMITIVE_APPEND_UNSIGNED vm 2) (\<lambda>vm.
       cell_set vm patchAddr (of_int (cell_diff (here vm) patchAddr)))))))))))"

subsection \<open>Counted loops\<close>

definition ficlPrimitiveDoCoIm :: "tags \<Rightarrow> ficlVm \<Rightarrow> ficlVm vm_result" where
  "ficlPrimitiveDoCoIm T vm =
     bind_outcome (PRIMITIVE_APPEND_UNSIGNED vm ficlInstructionDoParen) (\<lambda>vm.
     bind_outcome (markBranch T vm leaveTag) (\<lambda>vm.
     bind_outcome (PRIMITIVE_APPEND_UNSIGNED vm 0) (\<lambda>vm. markBranch T vm doTag)))"

definition ficlPrimitiveQDoCoIm :: "tags \<Rightarrow> ficlVm \<Rightarrow> ficlVm vm_result" where
  "ficlPrimitiveQDoCoIm T vm =
     bind_outcome (PRIMITIVE_APPEND_UNSIGNED vm ficlInstructionQDoParen) (\<lambda>vm.
     bind_outcome (markBranch T vm leaveTag) (\<lambda>vm.
     bind_outcome (PRIMITIVE_APPEND_UNSIGNED vm 0) (\<lambda>vm. markBranch T vm doTag)))"

definition ficlPrimitiveLoopCoIm :: "tags \<Rightarrow> ficlVm \<Rightarrow> ficlVm vm_result" where
  "ficlPrimitiveLoopCoIm T vm =
     bind_outcome (PRIMITIVE_APPEND_UNSIGNED vm ficlInstructionLoopParen) (\<lambda>vm.
     bind_outcome (resolveBackBranch T vm doTag) (\<lambda>vm. resolveAbsBranch T vm leaveTag))"

definition ficlPrimitivePlusLoopCoIm :: "tags \<Rightarrow> ficlVm \<Rightarrow> ficlVm vm_result" where
  "ficlPrimitivePlusLoopCoIm T vm =
     bind_outcome (PRIMITIVE_APPEND_UNSIGNED vm ficlInstructionPlusLoopParen) (\<lambda>vm.
     bind_outcome (resolveBackBranch T vm doTag) (\<lambda>vm. resolveAbsBranch T vm leaveTag))"

subsection \<open>Indefinite loops\<close>

definition ficlPrimitiveBeginCoIm :: "tags \<Rightarrow> ficlVm \<Rightarrow> ficlVm vm_result" where
  "ficlPrimitiveBeginCoIm T vm = markBranch T vm destTag"

definition ficlPrimitiveUntilCoIm :: "tags \<Rightarrow> ficlVm \<Rightarrow> ficlVm vm_result" where
  "ficlPrimitiveUntilCoIm T vm =
     bind_outcome (PRIMITIVE_APPEND_UNSIGNED vm ficlInstructionBranch0ParenWithCheck) (\<lambda>vm.
       resolveBackBranch T vm destTag)"

definition roll3 :: "ficlVm \<Rightarrow> ficlVm vm_result" where
  "roll3 vm = vm_lift vm (ficlStackRoll (vm_dataStack vm) 3) (\<lambda>s. Ok (vm\<lparr>vm_dataStack := s\<rparr>))"

definition ficlPrimitiveWhileCoIm :: "tags \<Rightarrow> ficlVm \<Rightarrow> ficlVm vm_result" where
  "ficlPrimitiveWhileCoIm T vm =
     FICL_STACK_CHECK vm 2 5
     (bind_outcome (PRIMITIVE_APPEND_UNSIGNED vm ficlInstructionBranch0ParenWithCheck) (\<lambda>vm.
     bind_outcome (markBranch T vm origTag) (\<lambda>vm.
     bind_outcome (roll3 vm) (\<lambda>vm.
     bind_outcome (roll3 vm) (\<lambda>vm. PRIMITIVE_APPEND_UNSIGNED vm 1)))))"

definition ficlPrimitiveRepeatCoIm :: "tags \<Rightarrow> ficlVm \<Rightarrow> ficlVm vm_result" where
  "ficlPrimitiveRepeatCoIm T vm =
     bind_outcome (PRIMITIVE_APPEND_UNSIGNED vm ficlInstructionBranchParenWithCheck) (\<lambda>vm.
     bind_outcome (resolveBackBranch T vm destTag) (\<lambda>vm. resolveForwardBranch T vm origTag))"

definition ficlPrimitiveAgainCoIm :: "tags \<Rightarrow> ficlVm \<Rightarrow> ficlVm vm_result" where
  "ficlPrimitiveAgainCoIm T vm =
     bind_outcome (PRIMITIVE_APPEND_UNSIGNED vm ficlInstructionBranchParenWithCheck) (\<lambda>vm.
       resolveBackBranch T vm destTag)"

subsection \<open>Laying out code\<close>

text \<open>
  \<open>laid vm0 vm cs\<close>: since \<open>vm0\<close> the cells \<open>cs\<close> have been compiled, starting where \<open>here\<close> was
  then, and the code below has not changed.
\<close>

definition laid :: "ficlVm \<Rightarrow> ficlVm \<Rightarrow> cell list \<Rightarrow> bool" where
  "laid vm0 vm cs = (vm_wf vm \<and> st_size (vm_dataStack vm) = st_size (vm_dataStack vm0) \<and>
     here vm = here vm0 + of_nat (8 * length cs) \<and> cells_at (d_bytes (vm_dict vm)) (here vm0) cs \<and>
     dom (d_bytes (vm_dict vm)) = dom (d_bytes (vm_dict vm0)) \<and>
     (\<forall>p. below (vm_dict vm0) p 8 \<longrightarrow> load_cell (d_bytes (vm_dict vm)) p = load_cell (d_bytes (vm_dict vm0)) p))"

lemma laid_refl: "vm_wf vm \<Longrightarrow> laid vm vm []"
  by (simp add: laid_def cells_at_def)

lemma laid_wf: "laid vm0 vm cs \<Longrightarrow> vm_wf vm"
  by (simp add: laid_def)

lemma laid_size: "laid vm0 vm cs \<Longrightarrow> st_size (vm_dataStack vm) = st_size (vm_dataStack vm0)"
  by (simp add: laid_def)

lemma laid_here: "laid vm0 vm cs \<Longrightarrow> here vm = here vm0 + of_nat (8 * length cs)"
  by (simp add: laid_def)

lemma laid_stack:
  "laid vm0 vm cs \<Longrightarrow> vm_wf vm' \<Longrightarrow> vm_dict vm' = vm_dict vm \<Longrightarrow>
    st_size (vm_dataStack vm') = st_size (vm_dataStack vm) \<Longrightarrow> laid vm0 vm' cs"
  by (simp add: laid_def here_def)

text \<open>Room at the start is room for what is left.\<close>

lemma room_here: "room (vm_dict vm) n \<Longrightarrow> i \<le> n \<Longrightarrow> unat (here vm + of_nat i) = unat (here vm) + i"
  by (simp add: here_def unat_here_add)

lemma room_laid:
  assumes "laid vm0 vm cs" and "room (vm_dict vm0) (8 * length cs + n)"
  shows "room (vm_dict vm) n"
proof -
  have u: "unat (here vm) = unat (here vm0) + 8 * length cs"
    using laid_here [OF assms(1)] room_here [OF assms(2), of "8 * length cs"] by simp
  have "here vm + of_nat i \<in> dom (d_bytes (vm_dict vm))" if "i < n" for i
  proof -
    have "here vm0 + of_nat (8 * length cs + i) \<in> dom (d_bytes (vm_dict vm0))"
      using assms(2) that by (simp add: room_def allocated_iff here_def del: of_nat_add)
    then show ?thesis using assms(1) by (simp add: laid_def add.assoc)
  qed
  then show ?thesis
    using u assms(2) by (simp add: room_def allocated_iff here_def)
qed

text \<open>Code laid behind code.\<close>

lemma laid_trans:
  assumes l: "laid vm0 vm cs" and l': "laid vm vm' cs'" and r: "room (vm_dict vm0) (8 * (length cs + length cs'))"
  shows "laid vm0 vm' (cs @ cs')"
proof -
  have u: "unat (here vm) = unat (here vm0) + 8 * length cs"
    using laid_here [OF l] room_here [OF r, of "8 * length cs"] by simp
  have "load_cell (d_bytes (vm_dict vm')) (here vm0 + of_nat (8 * i)) = Some ((cs @ cs') ! i)"
    if "i < length (cs @ cs')" for i
  proof (cases "i < length cs")
    case True
    have "unat (here vm0 + of_nat (8 * i)) = unat (here vm0) + 8 * i"
      using True room_here [OF r, of "8 * i"] by simp
    then have "below (vm_dict vm) (here vm0 + of_nat (8 * i)) 8"
      using True u unfolding below_def here_def [symmetric] by simp
    then show ?thesis using l l' True by (simp add: laid_def cells_at_def nth_append)
  next
    case False
    then have "load_cell (d_bytes (vm_dict vm')) (here vm + of_nat (8 * (i - length cs))) = Some (cs' ! (i - length cs))"
      using l' that unfolding laid_def cells_at_def by (metis add_diff_inverse_nat length_append nat_add_left_cancel_less)
    moreover have "here vm + of_nat (8 * (i - length cs)) = here vm0 + of_nat (8 * i)"
      using False laid_here [OF l] by (simp add: of_nat_diff algebra_simps)
    ultimately show ?thesis using False by (simp only: nth_append if_False)
  qed
  then have "cells_at (d_bytes (vm_dict vm')) (here vm0) (cs @ cs')" by (simp add: cells_at_def)
  moreover have "below (vm_dict vm) p 8" if "below (vm_dict vm0) p 8" for p
    using that u by (simp add: below_def here_def)
  ultimately show ?thesis using l l' by (simp add: laid_def algebra_simps)
qed

lemma laid_append:
  assumes l: "laid vm0 vm cs" and r: "room (vm_dict vm0) (8 * (length cs + length cs'))"
  shows "\<exists>vm'. in_dict (\<lambda>d. append_cells d cs') vm = Ok vm' \<and> laid vm0 vm' (cs @ cs') \<and> data vm' = data vm"
proof -
  have "room (vm_dict vm) (8 * length cs')"
    using room_laid [OF l, of "8 * length cs'"] r by (simp add: algebra_simps)
  then obtain d where d: "append_cells (vm_dict vm) cs' = Ok d" "d_here d = d_here (vm_dict vm) + of_nat (8 * length cs')"
      "cells_at (d_bytes d) (d_here (vm_dict vm)) cs'"
      "\<forall>p. below (vm_dict vm) p 8 \<longrightarrow> load_cell (d_bytes d) p = load_cell (d_bytes (vm_dict vm)) p"
    using append_cells_layout by blast
  then have "laid vm (vm\<lparr>vm_dict := d\<rparr>) cs'"
    using laid_wf [OF l] append_cells_dom [OF d(1)] by (simp add: laid_def here_def)
  then have "laid vm0 (vm\<lparr>vm_dict := d\<rparr>) (cs @ cs')" using l r by (intro laid_trans)
  then show ?thesis using d(1) by (auto simp: in_dict_def vm_lift_def)
qed

lemma laid_unsigned:
  assumes "laid vm0 vm cs" and "room (vm_dict vm0) (8 * (length cs + 1))"
  shows "\<exists>vm'. PRIMITIVE_APPEND_UNSIGNED vm c = Ok vm' \<and> laid vm0 vm' (cs @ [c]) \<and> data vm' = data vm"
  using laid_append [OF assms(1), of "[c]"] assms(2) by (auto simp: append_unsigned_cell)

lemma laid_push:
  assumes "laid vm0 vm cs" and "length (data vm) < st_size (vm_dataStack vm0)"
  shows "\<exists>vm'. ficlVmPush vm c = Ok vm' \<and> laid vm0 vm' cs \<and> data vm' = c # data vm"
proof -
  have r: "length (data vm) < st_size (vm_dataStack vm)" using assms by (simp add: laid_size)
  then have "laid vm0 (dpushed c vm) cs"
    using assms(1) laid_wf [OF assms(1)] by (intro laid_stack [OF assms(1)]) (simp_all add: flow_simps)
  then show ?thesis using ficlVmPush_data [OF laid_wf [OF assms(1)] r] r laid_wf [OF assms(1)]
    by (auto simp: flow_simps)
qed

lemma laid_pop:
  assumes "laid vm0 vm cs" and "data vm = c # xs"
  shows "\<exists>vm'. ficlVmPop vm = Ok (c, vm') \<and> laid vm0 vm' cs \<and> data vm' = xs"
proof -
  have "laid vm0 (ddrop 1 vm) cs"
    using assms laid_wf [OF assms(1)] by (intro laid_stack [OF assms(1)]) (simp_all add: flow_simps)
  then show ?thesis using ficlVmPop_data [OF laid_wf [OF assms(1)] assms(2)] laid_wf [OF assms(1)] assms(2)
    by (auto simp: flow_simps)
qed

lemma laid_mark:
  assumes "laid vm0 vm cs" and "length (data vm) + 2 \<le> st_size (vm_dataStack vm0)"
  shows "\<exists>vm'. markBranch T vm tag = Ok vm' \<and> laid vm0 vm' cs \<and>
    data vm' = T tag # (here vm0 + of_nat (8 * length cs)) # data vm"
proof -
  obtain vm1 where v1: "ficlVmPush vm (here vm) = Ok vm1" "laid vm0 vm1 cs" "data vm1 = here vm # data vm"
    using laid_push [OF assms(1), of "here vm"] assms(2) by auto
  then show ?thesis
    using laid_push [OF v1(2), of "T tag"] assms(2) laid_here [OF assms(1)] by (auto simp: markBranch_def)
qed

lemma laid_match:
  assumes "laid vm0 vm cs" and "data vm = T tag # xs"
  shows "\<exists>vm'. matchControlTag T vm tag = Ok vm' \<and> laid vm0 vm' cs \<and> data vm' = xs"
  using laid_pop [OF assms] by (auto simp: matchControlTag_def tag_differs_def)

lemma check_one:
  "vm_wf vm \<Longrightarrow> data vm = x # xs \<Longrightarrow> FICL_STACK_CHECK vm 1 0 k = k"
  using ficlStackCheck_iff [of "vm_dataStack vm" 1 0] stack_wf_length [of "vm_dataStack vm"]
  by (auto simp: FICL_STACK_CHECK_def vm_lift_def vm_wf_def)

subsection \<open>Distances and patches\<close>

lemma cell_diff_cells:
  assumes "i < 2 ^ 58" and "j < 2 ^ 58"
  shows "cell_diff (h + of_nat (8 * i)) (h + of_nat (8 * j)) = int i - int j"
proof -
  have e: "h + of_nat (8 * i) - (h + of_nat (8 * j)) = (of_int (8 * (int i - int j)) :: addr)" by simp
  have "sint (of_int (8 * (int i - int j)) :: addr) = 8 * (int i - int j)"
    using assms by (subst signed_of_int) (simp add: signed_take_bit_int_eq_self)
  moreover have "c_div (8 * d) 8 = d" for d
    by (simp add: c_div_def abs_mult sgn_mult abs_sgn mult.commute)
  ultimately show ?thesis unfolding cell_diff_def e by (simp only:)
qed

lemma laid_set:
  assumes l: "laid vm0 vm cs" and r: "room (vm_dict vm0) (8 * length cs)" and k: "k < length cs"
  shows "\<exists>vm'. cell_set vm (here vm0 + of_nat (8 * k)) c = Ok vm' \<and> laid vm0 vm' (cs[k := c]) \<and> data vm' = data vm"
proof -
  let ?a = "here vm0 + of_nat (8 * k)" and ?m = "d_bytes (vm_dict vm)"
  have u: "unat (here vm0 + of_nat (8 * i)) = unat (here vm0) + 8 * i" if "i < length cs" for i
    using that room_here [OF r, of "8 * i"] by simp
  have "load_cell ?m ?a = Some (cs ! k)" using l k by (simp add: laid_def cells_at_def)
  then obtain m where m: "store_cell ?m ?a c = Some m" using store_cell_some by blast
  have other: "load_cell m (here vm0 + of_nat (8 * i)) = load_cell ?m (here vm0 + of_nat (8 * i))"
    if "i < length cs" "i \<noteq> k" for i
  proof (rule load_other [OF m])
    show "here vm0 + of_nat (8 * i) = ?a + 8 * (of_nat i - of_nat k)" by (simp add: algebra_simps)
    show "here vm0 + of_nat (8 * i) \<noteq> ?a"
      using u [OF that(1)] u [OF k] that(2) by (metis add_left_cancel mult_left_cancel zero_neq_numeral)
  qed
  have "load_cell m (here vm0 + of_nat (8 * i)) = Some (cs[k := c] ! i)" if "i < length cs" for i
    using that l load_store_cell [OF m] other [OF that] by (cases "i = k") (simp_all add: laid_def cells_at_def)
  then have cells: "cells_at m (here vm0) (cs[k := c])" by (simp add: cells_at_def)
  have "load_cell m p = load_cell ?m p" if "below (vm_dict vm0) p 8" for p
  proof -
    have "?a + of_nat i \<noteq> p + of_nat j" if "i < 8" "j < 8" for i j
    proof -
      have "here vm0 + of_nat (8 * k + i) \<noteq> p + of_nat j"
        using below_disjoint [OF \<open>below (vm_dict vm0) p 8\<close> that(2) r, of "8 * k + i"] k that(1)
        unfolding here_def by auto
      then show ?thesis by (simp add: algebra_simps)
    qed
    then show ?thesis
      by (intro load_cell_cong store_bytes_outside [OF m [unfolded store_cell_def]]) (simp, metis length_map length_upt diff_zero)
  qed
  then have "laid vm0 (vm\<lparr>vm_dict := set_bytes m (vm_dict vm)\<rparr>) (cs[k := c])"
    using l cells store_cell_dom [OF m] by (auto simp: laid_def here_def set_bytes_def d_bytes_def)
  then show ?thesis using m by (auto simp: cell_set_def in_dict_def d_store_cell_def vm_lift_def)
qed

subsection \<open>Resolving branches\<close>

lemma laid_back:
  assumes l: "laid vm0 vm cs" and r: "room (vm_dict vm0) (8 * (length cs + 1))"
    and d: "data vm = T tag # (here vm0 + of_nat (8 * k)) # xs" and k: "k < 2 ^ 58" "length cs < 2 ^ 58"
  shows "\<exists>vm'. resolveBackBranch T vm tag = Ok vm' \<and> laid vm0 vm' (cs @ [of_int (int k - int (length cs))]) \<and>
    data vm' = xs"
proof -
  obtain vm1 where v1: "matchControlTag T vm tag = Ok vm1" "laid vm0 vm1 cs"
      "data vm1 = (here vm0 + of_nat (8 * k)) # xs"
    using laid_match [of vm0 vm cs T tag, OF l d] by blast
  obtain vm2 where v2: "ficlVmPop vm1 = Ok (here vm0 + of_nat (8 * k), vm2)" "laid vm0 vm2 cs" "data vm2 = xs"
    using laid_pop [OF v1(2,3)] by blast
  have "cell_diff (here vm0 + of_nat (8 * k)) (here vm2) = int k - int (length cs)"
    using cell_diff_cells [OF k] laid_here [OF v2(2)] by simp
  then have "resolveBackBranch T vm tag = PRIMITIVE_APPEND_UNSIGNED vm2 (of_int (int k - int (length cs)))"
    using v1(1) v2(1) check_one [OF laid_wf [OF v1(2)] v1(3)]
    by (simp add: resolveBackBranch_def PRIMITIVE_APPEND_UNSIGNED_def ficlDictionaryAppendInteger_def
        ficlDictionaryAppendUnsigned_def Let_def)
  then show ?thesis using laid_unsigned [OF v2(2) r] v2(3) by metis
qed

lemma laid_forward:
  assumes l: "laid vm0 vm cs" and r: "room (vm_dict vm0) (8 * length cs)"
    and d: "data vm = T tag # (here vm0 + of_nat (8 * k)) # xs" and k: "k < length cs" "length cs < 2 ^ 58"
  shows "\<exists>vm'. resolveForwardBranch T vm tag = Ok vm' \<and> laid vm0 vm' (cs[k := of_nat (length cs - k)]) \<and>
    data vm' = xs"
proof -
  obtain vm1 where v1: "matchControlTag T vm tag = Ok vm1" "laid vm0 vm1 cs"
      "data vm1 = (here vm0 + of_nat (8 * k)) # xs"
    using laid_match [of vm0 vm cs T tag, OF l d] by blast
  obtain vm2 where v2: "ficlVmPop vm1 = Ok (here vm0 + of_nat (8 * k), vm2)" "laid vm0 vm2 cs" "data vm2 = xs"
    using laid_pop [OF v1(2,3)] by blast
  have "cell_diff (here vm2) (here vm0 + of_nat (8 * k)) = int (length cs - k)"
    using cell_diff_cells [OF k(2), of k "here vm0"] k laid_here [OF v2(2)] by (simp add: of_nat_diff)
  then have "resolveForwardBranch T vm tag = cell_set vm2 (here vm0 + of_nat (8 * k)) (of_nat (length cs - k))"
    using v1(1) v2(1) check_one [OF laid_wf [OF v1(2)] v1(3)] by (simp add: resolveForwardBranch_def Let_def)
  then show ?thesis using laid_set [OF v2(2) r k(1)] v2(3) by metis
qed

lemma laid_abs:
  assumes l: "laid vm0 vm cs" and r: "room (vm_dict vm0) (8 * length cs)"
    and d: "data vm = T tag # (here vm0 + of_nat (8 * k)) # xs" and k: "k < length cs"
  shows "\<exists>vm'. resolveAbsBranch T vm tag = Ok vm' \<and>
    laid vm0 vm' (cs[k := here vm0 + of_nat (8 * length cs)]) \<and> data vm' = xs"
proof -
  obtain vm1 where v1: "matchControlTag T vm tag = Ok vm1" "laid vm0 vm1 cs"
      "data vm1 = (here vm0 + of_nat (8 * k)) # xs"
    using laid_match [of vm0 vm cs T tag, OF l d] by blast
  obtain vm2 where v2: "ficlVmPop vm1 = Ok (here vm0 + of_nat (8 * k), vm2)" "laid vm0 vm2 cs" "data vm2 = xs"
    using laid_pop [OF v1(2,3)] by blast
  then have "resolveAbsBranch T vm tag = cell_set vm2 (here vm0 + of_nat (8 * k)) (here vm0 + of_nat (8 * length cs))"
    using v1(1) laid_here [OF v2(2)] by (simp add: resolveAbsBranch_def)
  then show ?thesis using laid_set [OF v2(2) r k] v2(3) by metis
qed

subsection \<open>Structured code\<close>

text \<open>
  The structures that the words build, with other code (\<open>Cells\<close>) in between: the words as they
  are executed while a definition is compiled (\<open>emit\<close>), and the cells that the structure
  stands for (\<open>stmt_code\<close>, at the address \<open>h\<close>). A branch holds the distance from its offset cell to its target.
\<close>

datatype stmt =
    Cells "cell list" | Seq stmt stmt | IfThen stmt | IfElse stmt stmt
  | Until stmt | Again stmt | WhileRepeat stmt stmt | DoLoop stmt | QDoPlusLoop stmt

fun emit :: "tags \<Rightarrow> stmt \<Rightarrow> ficlVm \<Rightarrow> ficlVm vm_result" where
  "emit T (Cells cs) vm = in_dict (\<lambda>d. append_cells d cs) vm"
| "emit T (Seq a b) vm = bind_outcome (emit T a vm) (emit T b)"
| "emit T (IfThen a) vm = bind_outcome (ficlPrimitiveIfCoIm T vm) (\<lambda>vm.
     bind_outcome (emit T a vm) (ficlPrimitiveEndifCoIm T))"
| "emit T (IfElse a b) vm = bind_outcome (ficlPrimitiveIfCoIm T vm) (\<lambda>vm.
     bind_outcome (emit T a vm) (\<lambda>vm. bind_outcome (ficlPrimitiveElseCoIm T vm) (\<lambda>vm.
     bind_outcome (emit T b vm) (ficlPrimitiveEndifCoIm T))))"
| "emit T (Until a) vm = bind_outcome (ficlPrimitiveBeginCoIm T vm) (\<lambda>vm.
     bind_outcome (emit T a vm) (ficlPrimitiveUntilCoIm T))"
| "emit T (Again a) vm = bind_outcome (ficlPrimitiveBeginCoIm T vm) (\<lambda>vm.
     bind_outcome (emit T a vm) (ficlPrimitiveAgainCoIm T))"
| "emit T (WhileRepeat a b) vm = bind_outcome (ficlPrimitiveBeginCoIm T vm) (\<lambda>vm.
     bind_outcome (emit T a vm) (\<lambda>vm. bind_outcome (ficlPrimitiveWhileCoIm T vm) (\<lambda>vm.
     bind_outcome (emit T b vm) (ficlPrimitiveRepeatCoIm T))))"
| "emit T (DoLoop a) vm = bind_outcome (ficlPrimitiveDoCoIm T vm) (\<lambda>vm.
     bind_outcome (emit T a vm) (ficlPrimitiveLoopCoIm T))"
| "emit T (QDoPlusLoop a) vm = bind_outcome (ficlPrimitiveQDoCoIm T vm) (\<lambda>vm.
     bind_outcome (emit T a vm) (ficlPrimitivePlusLoopCoIm T))"

fun code_length :: "stmt \<Rightarrow> nat" where
  "code_length (Cells cs) = length cs"
| "code_length (Seq a b) = code_length a + code_length b"
| "code_length (IfThen a) = 2 + code_length a"
| "code_length (IfElse a b) = 4 + code_length a + code_length b"
| "code_length (Until a) = code_length a + 2"
| "code_length (Again a) = code_length a + 2"
| "code_length (WhileRepeat a b) = 4 + code_length a + code_length b"
| "code_length (DoLoop a) = 4 + code_length a"
| "code_length (QDoPlusLoop a) = 4 + code_length a"

fun stmt_code :: "addr \<Rightarrow> stmt \<Rightarrow> cell list" where
  "stmt_code h (Cells cs) = cs"
| "stmt_code h (Seq a b) = stmt_code h a @ stmt_code (h + of_nat (8 * code_length a)) b"
| "stmt_code h (IfThen a) = [ficlInstructionBranch0ParenWithCheck, of_nat (code_length a + 1)] @ stmt_code (h + 16) a"
| "stmt_code h (IfElse a b) =
     [ficlInstructionBranch0ParenWithCheck, of_nat (code_length a + 3)] @ stmt_code (h + 16) a @
     [ficlInstructionBranchParenWithCheck, of_nat (code_length b + 1)] @ stmt_code (h + of_nat (8 * (4 + code_length a))) b"
| "stmt_code h (Until a) = stmt_code h a @ [ficlInstructionBranch0ParenWithCheck, - of_nat (code_length a + 1)]"
| "stmt_code h (Again a) = stmt_code h a @ [ficlInstructionBranchParenWithCheck, - of_nat (code_length a + 1)]"
| "stmt_code h (WhileRepeat a b) =
     stmt_code h a @ [ficlInstructionBranch0ParenWithCheck, of_nat (code_length b + 3)] @
     stmt_code (h + of_nat (8 * (2 + code_length a))) b @
     [ficlInstructionBranchParenWithCheck, - of_nat (code_length a + code_length b + 3)]"
| "stmt_code h (DoLoop a) =
     [ficlInstructionDoParen, h + of_nat (8 * (4 + code_length a))] @ stmt_code (h + 16) a @
     [ficlInstructionLoopParen, - of_nat (code_length a + 1)]"
| "stmt_code h (QDoPlusLoop a) =
     [ficlInstructionQDoParen, h + of_nat (8 * (4 + code_length a))] @ stmt_code (h + 16) a @
     [ficlInstructionPlusLoopParen, - of_nat (code_length a + 1)]"

text \<open>The cells that open structures need on the data stack.\<close>

fun control_need :: "stmt \<Rightarrow> nat" where
  "control_need (Cells cs) = 0"
| "control_need (Seq a b) = max (control_need a) (control_need b)"
| "control_need (IfThen a) = 2 + control_need a"
| "control_need (IfElse a b) = 2 + max (control_need a) (control_need b)"
| "control_need (Until a) = 2 + control_need a"
| "control_need (Again a) = 2 + control_need a"
| "control_need (WhileRepeat a b) = max (2 + control_need a) (max 5 (4 + control_need b))"
| "control_need (DoLoop a) = 4 + control_need a"
| "control_need (QDoPlusLoop a) = 4 + control_need a"

lemma length_stmt_code [simp]: "length (stmt_code h s) = code_length s"
  by (induction s arbitrary: h) simp_all

text \<open>What the compilation of a statement is to achieve.\<close>

definition emits :: "tags \<Rightarrow> stmt \<Rightarrow> bool" where
  "emits T s = (\<forall>vm. vm_wf vm \<longrightarrow> length (data vm) + control_need s \<le> st_size (vm_dataStack vm) \<longrightarrow>
     room (vm_dict vm) (8 * code_length s) \<longrightarrow> code_length s < 2 ^ 58 \<longrightarrow>
     (\<exists>vm'. emit T s vm = Ok vm' \<and> laid vm vm' (stmt_code (here vm) s) \<and> data vm' = data vm))"

text \<open>A statement behind code that has been laid.\<close>

lemma room_less: "room d n \<Longrightarrow> m \<le> n \<Longrightarrow> room d m"
  by (auto simp: room_def allocated_iff)

lemma laid_emit:
  assumes "emits T s" and l: "laid vm0 vm cs" and "length (data vm) + control_need s \<le> st_size (vm_dataStack vm0)"
    and "room (vm_dict vm0) n" and "8 * (length cs + code_length s) \<le> n" and "code_length s < 2 ^ 58"
  shows "\<exists>vm'. emit T s vm = Ok vm' \<and> laid vm0 vm' (cs @ stmt_code (here vm0 + of_nat (8 * length cs)) s) \<and> data vm' = data vm"
proof -
  have r: "room (vm_dict vm0) (8 * (length cs + code_length s))" using room_less [OF assms(4,5)] .
  then have "room (vm_dict vm) (8 * code_length s)"
    using room_laid [OF l, of "8 * code_length s"] by (simp add: algebra_simps)
  then obtain vm' where "emit T s vm = Ok vm'" "laid vm vm' (stmt_code (here vm) s)" "data vm' = data vm"
    using assms(1,3,6) laid_wf [OF l] laid_size [OF l] unfolding emits_def by metis
  then show ?thesis using laid_trans [OF l] r laid_here [OF l] by (metis length_stmt_code)
qed

subsection \<open>The structures\<close>

lemma emits_Cells: "emits T (Cells cs)"
  unfolding emits_def using laid_append [OF laid_refl, of _ cs] by simp

lemma emits_Seq:
  assumes "emits T a" and "emits T b"
  shows "emits T (Seq a b)"
  unfolding emits_def
proof (intro allI impI)
  fix vm assume v: "vm_wf vm" "length (data vm) + control_need (Seq a b) \<le> st_size (vm_dataStack vm)"
    "room (vm_dict vm) (8 * code_length (Seq a b))" "code_length (Seq a b) < 2 ^ 58"
  have n: "length (data vm) + control_need a \<le> st_size (vm_dataStack vm)"
      "length (data vm) + control_need b \<le> st_size (vm_dataStack vm)"
    using v(2) unfolding control_need.simps by linarith+
  obtain vm1 where v1: "emit T a vm = Ok vm1" "laid vm vm1 (stmt_code (here vm) a)" "data vm1 = data vm"
    using laid_emit [OF assms(1) laid_refl [OF v(1)] n(1) v(3)] v(4) by auto
  obtain vm2 where "emit T b vm1 = Ok vm2" "data vm2 = data vm1"
      "laid vm vm2 (stmt_code (here vm) a @ stmt_code (here vm + of_nat (8 * code_length a)) b)"
    using laid_emit [OF assms(2) v1(2) _ v(3)] n(2) v(4) v1(3) by auto
  then show "\<exists>vm'. emit T (Seq a b) vm = Ok vm' \<and> laid vm vm' (stmt_code (here vm) (Seq a b)) \<and> data vm' = data vm"
    using v1 by simp
qed

text \<open>\<open>if\<close>, \<open>begin\<close> and \<open>do\<close> open a structure.\<close>

lemma laid_if:
  assumes "vm_wf vm" and "length (data vm) + 2 \<le> st_size (vm_dataStack vm)" and "room (vm_dict vm) n" and "16 \<le> n"
  shows "\<exists>vm'. ficlPrimitiveIfCoIm T vm = Ok vm' \<and> laid vm vm' [ficlInstructionBranch0ParenWithCheck, 1] \<and>
    data vm' = T origTag # (here vm + of_nat (8 * 1)) # data vm"
proof -
  obtain vm1 where v1: "PRIMITIVE_APPEND_UNSIGNED vm ficlInstructionBranch0ParenWithCheck = Ok vm1"
      "laid vm vm1 [ficlInstructionBranch0ParenWithCheck]" "data vm1 = data vm"
    using laid_unsigned [OF laid_refl [OF assms(1)]] room_less [OF assms(3), of 8] assms(4) by auto
  obtain vm2 where v2: "markBranch T vm1 origTag = Ok vm2" "laid vm vm2 [ficlInstructionBranch0ParenWithCheck]"
      "data vm2 = T origTag # (here vm + of_nat (8 * 1)) # data vm"
    using laid_mark [OF v1(2), of T origTag] assms(2) v1(3) by auto
  then show ?thesis
    using laid_unsigned [OF v2(2), of 1] room_less [OF assms(3,4)] v1(1) by (auto simp: ficlPrimitiveIfCoIm_def)
qed

lemma laid_do:
  assumes "vm_wf vm" and "length (data vm) + 4 \<le> st_size (vm_dataStack vm)" and "room (vm_dict vm) n" and "16 \<le> n"
  shows "\<exists>vm'. bind_outcome (PRIMITIVE_APPEND_UNSIGNED vm c) (\<lambda>vm.
       bind_outcome (markBranch T vm leaveTag) (\<lambda>vm.
       bind_outcome (PRIMITIVE_APPEND_UNSIGNED vm 0) (\<lambda>vm. markBranch T vm doTag))) = Ok vm' \<and> laid vm vm' [c, 0] \<and>
    data vm' = T doTag # (here vm + of_nat (8 * 2)) # T leaveTag # (here vm + of_nat (8 * 1)) # data vm"
proof -
  obtain vm1 where v1: "PRIMITIVE_APPEND_UNSIGNED vm c = Ok vm1" "laid vm vm1 [c]" "data vm1 = data vm"
    using laid_unsigned [OF laid_refl [OF assms(1)]] room_less [OF assms(3), of 8] assms(4) by auto
  obtain vm2 where v2: "markBranch T vm1 leaveTag = Ok vm2" "laid vm vm2 [c]"
      "data vm2 = T leaveTag # (here vm + of_nat (8 * 1)) # data vm"
    using laid_mark [OF v1(2), of T leaveTag] assms(2) v1(3) by auto
  obtain vm3 where v3: "PRIMITIVE_APPEND_UNSIGNED vm2 0 = Ok vm3" "laid vm vm3 [c, 0]" "data vm3 = data vm2"
    using laid_unsigned [OF v2(2), of 0] room_less [OF assms(3,4)] by auto
  obtain vm4 where v4: "markBranch T vm3 doTag = Ok vm4" "laid vm vm4 [c, 0]"
      "data vm4 = T doTag # (here vm + of_nat (8 * 2)) # data vm3"
    using laid_mark [OF v3(2), of T doTag] assms(2) v2(3) v3(3) by auto
  then show ?thesis using v1(1) v2(1,3) v3(1,3) by simp
qed

lemma emits_IfThen:
  assumes "emits T a"
  shows "emits T (IfThen a)"
  unfolding emits_def
proof (intro allI impI)
  fix vm assume v: "vm_wf vm" "length (data vm) + control_need (IfThen a) \<le> st_size (vm_dataStack vm)"
    "room (vm_dict vm) (8 * code_length (IfThen a))" "code_length (IfThen a) < 2 ^ 58"
  let ?i = "[ficlInstructionBranch0ParenWithCheck, 1]"
  obtain vm1 where v1: "ficlPrimitiveIfCoIm T vm = Ok vm1" "laid vm vm1 ?i"
      "data vm1 = T origTag # (here vm + of_nat (8 * 1)) # data vm"
    using laid_if [OF v(1) _ v(3)] v(2) by auto
  obtain vm2 where v2: "emit T a vm1 = Ok vm2" "laid vm vm2 (?i @ stmt_code (here vm + 16) a)" "data vm2 = data vm1"
    using laid_emit [OF assms v1(2) _ v(3)] v(2,4) v1(3) by auto
  obtain vm3 where "resolveForwardBranch T vm2 origTag = Ok vm3" "data vm3 = data vm"
      "laid vm vm3 ((?i @ stmt_code (here vm + 16) a)[1 := of_nat (code_length a + 1)])"
    using laid_forward [OF v2(2), of T origTag 1 "data vm"] v(3,4) v1(3) v2(3) by auto
  then show "\<exists>vm'. emit T (IfThen a) vm = Ok vm' \<and> laid vm vm' (stmt_code (here vm) (IfThen a)) \<and> data vm' = data vm"
    using v1 v2 by (simp add: ficlPrimitiveEndifCoIm_def)
qed

text \<open>\<open>else\<close> resolves the branch of \<open>if\<close> and opens its own.\<close>

lemma laid_else:
  assumes l: "laid vm0 vm cs" and d: "data vm = T origTag # (here vm0 + of_nat (8 * k)) # xs"
    and k: "k < length cs" "length cs + 2 < 2 ^ 58" and r: "room (vm_dict vm0) (8 * (length cs + 2))"
    and s: "length xs + 2 \<le> st_size (vm_dataStack vm0)"
  shows "\<exists>vm'. ficlPrimitiveElseCoIm T vm = Ok vm' \<and>
    laid vm0 vm' (cs[k := of_nat (length cs + 2 - k)] @ [ficlInstructionBranchParenWithCheck, 1]) \<and>
    data vm' = T origTag # (here vm0 + of_nat (8 * (length cs + 1))) # xs"
proof -
  let ?h = "here vm0" and ?e = "ficlInstructionBranchParenWithCheck"
  obtain vm3 where v3: "PRIMITIVE_APPEND_UNSIGNED vm ?e = Ok vm3" "laid vm0 vm3 (cs @ [?e])" "data vm3 = data vm"
    using laid_unsigned [OF l, of ?e] room_less [OF r] by auto
  obtain vm4 where v4: "matchControlTag T vm3 origTag = Ok vm4" "laid vm0 vm4 (cs @ [?e])"
      "data vm4 = (?h + of_nat (8 * k)) # xs"
    using laid_match [OF v3(2), of T origTag] d v3(3) by auto
  obtain vm5 where v5: "ficlVmPop vm4 = Ok (?h + of_nat (8 * k), vm5)" "laid vm0 vm5 (cs @ [?e])" "data vm5 = xs"
    using laid_pop [OF v4(2,3)] by blast
  obtain vm6 where v6: "markBranch T vm5 origTag = Ok vm6" "laid vm0 vm6 (cs @ [?e])"
      "data vm6 = T origTag # (?h + of_nat (8 * (length cs + 1))) # xs"
    using laid_mark [OF v5(2), of T origTag] s v5(3) by auto
  have "room (vm_dict vm0) (8 * (length (cs @ [?e]) + 1))" using r by simp
  then obtain vm7 where v7: "PRIMITIVE_APPEND_UNSIGNED vm6 1 = Ok vm7" "laid vm0 vm7 (cs @ [?e, 1])" "data vm7 = data vm6"
    using laid_unsigned [OF v6(2), of 1] by auto
  have d7: "cell_diff (here vm7) (?h + of_nat (8 * k)) = int (length cs + 2 - k)"
    using cell_diff_cells [of "length cs + 2" k ?h] laid_here [OF v7(2)] k by (simp add: of_nat_diff)
  have r8: "room (vm_dict vm0) (8 * length (cs @ [?e, 1]))" using r by simp
  have k8: "k < length (cs @ [?e, 1])" using k(1) by simp
  have p: "(cs @ [?e, 1])[k := of_nat (length cs + 2 - k)] = cs[k := of_nat (length cs + 2 - k)] @ [?e, 1]"
    using k(1) by (rule list_update_append1)
  obtain vm8 where v8: "cell_set vm7 (?h + of_nat (8 * k)) (of_nat (length cs + 2 - k)) = Ok vm8"
      "laid vm0 vm8 (cs[k := of_nat (length cs + 2 - k)] @ [?e, 1])" "data vm8 = data vm7"
    using laid_set [OF v7(2) r8 k8, of "of_nat (length cs + 2 - k)"] unfolding p by blast
  have "ficlPrimitiveElseCoIm T vm = Ok vm8"
    by (simp only: ficlPrimitiveElseCoIm_def Let_def bind_outcome.simps prod.case v3(1) v4(1) v5(1) v6(1) v7(1)
        v8(1) d7 of_int_of_nat_eq)
  moreover have "data vm8 = T origTag # (?h + of_nat (8 * (length cs + 1))) # xs"
    by (simp only: v8(3) v7(3) v6(3))
  ultimately show ?thesis using v8(2) by (intro exI conjI)
qed

lemma emits_IfElse:
  assumes "emits T a" and "emits T b"
  shows "emits T (IfElse a b)"
  unfolding emits_def
proof (intro allI impI)
  fix vm assume v: "vm_wf vm" "length (data vm) + control_need (IfElse a b) \<le> st_size (vm_dataStack vm)"
    "room (vm_dict vm) (8 * code_length (IfElse a b))" "code_length (IfElse a b) < 2 ^ 58"
  let ?h = "here vm" and ?z = "ficlInstructionBranch0ParenWithCheck" and ?e = "ficlInstructionBranchParenWithCheck"
  let ?A = "stmt_code (?h + 16) a" and ?B = "stmt_code (?h + of_nat (8 * (4 + code_length a))) b"
  let ?I = "[?z, of_nat (code_length a + 3)] @ ?A @ [?e, 1]"
  have n: "length (data vm) + 2 + control_need a \<le> st_size (vm_dataStack vm)"
      "length (data vm) + 2 + control_need b \<le> st_size (vm_dataStack vm)"
    using v(2) unfolding control_need.simps by linarith+
  obtain vm1 where v1: "ficlPrimitiveIfCoIm T vm = Ok vm1" "laid vm vm1 [?z, 1]"
      "data vm1 = T origTag # (?h + of_nat (8 * 1)) # data vm"
    using laid_if [OF v(1) _ v(3)] n(1) by auto
  obtain vm2 where v2: "emit T a vm1 = Ok vm2" "laid vm vm2 ([?z, 1] @ ?A)" "data vm2 = data vm1"
    using laid_emit [OF assms(1) v1(2) _ v(3)] n(1) v(4) v1(3) by auto
  have "room (vm_dict vm) (8 * (length ([?z, 1] @ ?A) + 2))" using room_less [OF v(3)] by simp
  then obtain vm3 where v3: "ficlPrimitiveElseCoIm T vm2 = Ok vm3" "laid vm vm3 ?I"
      "data vm3 = T origTag # (?h + of_nat (8 * (3 + code_length a))) # data vm"
    using laid_else [OF v2(2), of T 1 "data vm"] n(1) v(4) v1(3) v2(3) by (auto simp: add.commute)
  obtain vm4 where v4: "emit T b vm3 = Ok vm4" "data vm4 = data vm3" "laid vm vm4 (?I @ ?B)"
    using laid_emit [OF assms(2) v3(2) _ v(3)] n(2) v(4) v3(3) by auto
  have r: "room (vm_dict vm) (8 * length (?I @ ?B))" using room_less [OF v(3)] by simp
  have p: "(?I @ ?B)[3 + code_length a := of_nat (length (?I @ ?B) - (3 + code_length a))] = stmt_code ?h (IfElse a b)"
    by (simp add: list_update_append)
  obtain vm5 where "resolveForwardBranch T vm4 origTag = Ok vm5" "laid vm vm5 (stmt_code ?h (IfElse a b))"
      "data vm5 = data vm"
    using laid_forward [OF v4(3) r, of T origTag "3 + code_length a" "data vm"] v(4) v3(3) v4(2)
    unfolding p by auto
  then show "\<exists>vm'. emit T (IfElse a b) vm = Ok vm' \<and> laid vm vm' (stmt_code ?h (IfElse a b)) \<and> data vm' = data vm"
    using v1(1) v2(1) v3(1) v4(1) by (simp add: ficlPrimitiveEndifCoIm_def)
qed

text \<open>\<open>until\<close> and \<open>again\<close> branch back to \<open>begin\<close>.\<close>

lemma laid_begin_back:
  assumes "emits T a" and v: "vm_wf vm" "length (data vm) + (2 + control_need a) \<le> st_size (vm_dataStack vm)"
    "room (vm_dict vm) (8 * (code_length a + 2))" "code_length a + 2 < 2 ^ 58"
  shows "\<exists>vm1 vm2 vm3 vm'. ficlPrimitiveBeginCoIm T vm = Ok vm1 \<and> emit T a vm1 = Ok vm2 \<and>
    PRIMITIVE_APPEND_UNSIGNED vm2 c = Ok vm3 \<and> resolveBackBranch T vm3 destTag = Ok vm' \<and>
    laid vm vm' (stmt_code (here vm) a @ [c, - of_nat (code_length a + 1)]) \<and> data vm' = data vm"
proof -
  obtain vm1 where v1: "markBranch T vm destTag = Ok vm1" "laid vm vm1 []"
      "data vm1 = T destTag # (here vm + of_nat (8 * 0)) # data vm"
    using laid_mark [OF laid_refl [OF v(1)], of T destTag] v(2) by auto
  obtain vm2 where v2: "emit T a vm1 = Ok vm2" "laid vm vm2 (stmt_code (here vm) a)" "data vm2 = data vm1"
    using laid_emit [OF assms(1) v1(2) _ v(3)] v(2,4) v1(3) by auto
  obtain vm3 where v3: "PRIMITIVE_APPEND_UNSIGNED vm2 c = Ok vm3" "laid vm vm3 (stmt_code (here vm) a @ [c])"
      "data vm3 = data vm2"
    using laid_unsigned [OF v2(2), of c] room_less [OF v(3)] by auto
  obtain vm4 where "resolveBackBranch T vm3 destTag = Ok vm4" "data vm4 = data vm"
      "laid vm vm4 ((stmt_code (here vm) a @ [c]) @ [of_int (int 0 - int (length (stmt_code (here vm) a @ [c])))])"
    using laid_back [OF v3(2), of T destTag 0 "data vm"] v(3,4) v1(3) v2(3) v3(3) by auto
  then show ?thesis using v1(1) v2(1) v3(1) by (auto simp: ficlPrimitiveBeginCoIm_def)
qed

lemma emits_Until: "emits T a \<Longrightarrow> emits T (Until a)"
  unfolding emits_def [of T "Until a"]
  using laid_begin_back [of T a _ ficlInstructionBranch0ParenWithCheck]
  by (fastforce simp: ficlPrimitiveUntilCoIm_def)

lemma emits_Again: "emits T a \<Longrightarrow> emits T (Again a)"
  unfolding emits_def [of T "Again a"]
  using laid_begin_back [of T a _ ficlInstructionBranchParenWithCheck]
  by (fastforce simp: ficlPrimitiveAgainCoIm_def)

text \<open>\<open>while\<close> opens a forward branch and puts it below the mark of \<open>begin\<close>.\<close>

lemma laid_roll3:
  assumes "laid vm0 vm cs" and "data vm = a # b # c # d # xs"
  shows "\<exists>vm'. roll3 vm = Ok vm' \<and> laid vm0 vm' cs \<and> data vm' = d # a # b # c # xs"
proof -
  have wf: "stack_wf (vm_dataStack vm)" using laid_wf [OF assms(1)] by (simp add: vm_wf_def)
  obtain s where s: "ficlStackRoll (vm_dataStack vm) 3 = Ok s" "stack_wf s" "stack_list s = d # a # b # c # xs"
    using ficlStackRoll_up [OF wf, of 3] assms(2) by (auto simp: numeral_3_eq_3)
  have sh: "same_shape (vm_dataStack vm) s" using ficlStackRoll_shape [OF s(1)] by (simp add: same_shape_def)
  have "laid vm0 (vm\<lparr>vm_dataStack := s\<rparr>) cs"
    using laid_wf [OF assms(1)] s(2) sh by (intro laid_stack [OF assms(1)]) (simp_all add: vm_wf_def same_shape_def)
  then show ?thesis using s by (auto simp: roll3_def vm_lift_def)
qed

lemma laid_while:
  assumes l: "laid vm0 vm cs" and d: "data vm = x # y # xs" and r: "room (vm_dict vm0) (8 * (length cs + 2))"
    and s: "length xs + 5 \<le> st_size (vm_dataStack vm0)"
  shows "\<exists>vm'. ficlPrimitiveWhileCoIm T vm = Ok vm' \<and>
    laid vm0 vm' (cs @ [ficlInstructionBranch0ParenWithCheck, 1]) \<and>
    data vm' = x # y # T origTag # (here vm0 + of_nat (8 * (length cs + 1))) # xs"
proof -
  let ?z = "ficlInstructionBranch0ParenWithCheck" and ?a = "here vm0 + of_nat (8 * (length cs + 1))"
  have wf: "stack_wf (vm_dataStack vm)" using laid_wf [OF l] by (simp add: vm_wf_def)
  have chk: "FICL_STACK_CHECK vm 2 5 k = k" for k :: "ficlVm vm_result"
    using ficlStackCheck_iff [OF wf, of 2 5] d s laid_size [OF l] by (simp add: FICL_STACK_CHECK_def vm_lift_def)
  obtain vm1 where v1: "PRIMITIVE_APPEND_UNSIGNED vm ?z = Ok vm1" "laid vm0 vm1 (cs @ [?z])" "data vm1 = data vm"
    using laid_unsigned [OF l, of ?z] room_less [OF r] by auto
  obtain vm2 where v2: "markBranch T vm1 origTag = Ok vm2" "laid vm0 vm2 (cs @ [?z])" "data vm2 = T origTag # ?a # x # y # xs"
    using laid_mark [OF v1(2), of T origTag] s d v1(3) by auto
  obtain vm3 where v3: "roll3 vm2 = Ok vm3" "laid vm0 vm3 (cs @ [?z])" "data vm3 = y # T origTag # ?a # x # xs"
    using laid_roll3 [OF v2(2,3)] by blast
  obtain vm4 where v4: "roll3 vm3 = Ok vm4" "laid vm0 vm4 (cs @ [?z])" "data vm4 = x # y # T origTag # ?a # xs"
    using laid_roll3 [OF v3(2,3)] by blast
  have "room (vm_dict vm0) (8 * (length (cs @ [?z]) + 1))" using r by simp
  then obtain vm5 where v5: "PRIMITIVE_APPEND_UNSIGNED vm4 1 = Ok vm5" "laid vm0 vm5 (cs @ [?z, 1])" "data vm5 = data vm4"
    using laid_unsigned [OF v4(2), of 1] by auto
  have "ficlPrimitiveWhileCoIm T vm = Ok vm5"
    by (simp only: ficlPrimitiveWhileCoIm_def chk bind_outcome.simps v1(1) v2(1) v3(1) v4(1) v5(1))
  moreover have "data vm5 = x # y # T origTag # ?a # xs" by (simp only: v5(3) v4(3))
  ultimately show ?thesis using v5(2) by (intro exI conjI)
qed

lemma emits_WhileRepeat:
  assumes "emits T a" and "emits T b"
  shows "emits T (WhileRepeat a b)"
  unfolding emits_def
proof (intro allI impI)
  fix vm assume v: "vm_wf vm" "length (data vm) + control_need (WhileRepeat a b) \<le> st_size (vm_dataStack vm)"
    "room (vm_dict vm) (8 * code_length (WhileRepeat a b))" "code_length (WhileRepeat a b) < 2 ^ 58"
  let ?h = "here vm" and ?z = "ficlInstructionBranch0ParenWithCheck" and ?e = "ficlInstructionBranchParenWithCheck"
  let ?A = "stmt_code ?h a" and ?B = "stmt_code (?h + of_nat (8 * (2 + code_length a))) b"
  let ?C = "(?A @ [?z, 1]) @ ?B" and ?f = "?h + of_nat (8 * (code_length a + 1))"
  let ?D = "?C @ [?e, - of_nat (code_length a + code_length b + 3)]"
  have n: "length (data vm) + 2 + control_need a \<le> st_size (vm_dataStack vm)"
      "length (data vm) + 5 \<le> st_size (vm_dataStack vm)"
      "length (data vm) + 4 + control_need b \<le> st_size (vm_dataStack vm)"
    using v(2) unfolding control_need.simps by linarith+
  have r: "room (vm_dict vm) m" if "m \<le> 8 * (4 + code_length a + code_length b)" for m
    using room_less [OF v(3)] that by simp
  obtain vm1 where v1: "ficlPrimitiveBeginCoIm T vm = Ok vm1" "laid vm vm1 []"
      "data vm1 = T destTag # (?h + of_nat (8 * 0)) # data vm"
    using laid_mark [OF laid_refl [OF v(1)], of T destTag] n(1) by (auto simp: ficlPrimitiveBeginCoIm_def)
  obtain vm2 where v2: "emit T a vm1 = Ok vm2" "laid vm vm2 ?A" "data vm2 = data vm1"
    using laid_emit [OF assms(1) v1(2) _ v(3)] n(1) v(4) v1(3) by auto
  obtain vm3 where v3: "ficlPrimitiveWhileCoIm T vm2 = Ok vm3" "laid vm vm3 (?A @ [?z, 1])"
      "data vm3 = T destTag # (?h + of_nat (8 * 0)) # T origTag # ?f # data vm"
    using laid_while [OF v2(2) _ _ n(2), of "T destTag" "?h + of_nat (8 * 0)" T] r v2(3) v1(3) by auto
  obtain vm4 where v4: "emit T b vm3 = Ok vm4" "laid vm vm4 ?C" "data vm4 = data vm3"
    using laid_emit [OF assms(2) v3(2) _ v(3)] n(3) v(4) v3(3) by auto
  obtain vm5 where v5: "PRIMITIVE_APPEND_UNSIGNED vm4 ?e = Ok vm5" "laid vm vm5 (?C @ [?e])" "data vm5 = data vm4"
    using laid_unsigned [OF v4(2), of ?e] r by auto
  have r6: "room (vm_dict vm) (8 * (length (?C @ [?e]) + 1))" using r by simp
  have l6: "length (?C @ [?e]) < 2 ^ 58" using v(4) by simp
  have e6: "(?C @ [?e]) @ [of_int (int 0 - int (length (?C @ [?e])))] = ?D" by simp
  obtain vm6 where v6: "resolveBackBranch T vm5 destTag = Ok vm6" "laid vm vm6 ?D" "data vm6 = T origTag # ?f # data vm"
    using laid_back [OF v5(2) r6 _ _ l6, of T destTag 0 "T origTag # ?f # data vm"] v3(3) v4(3) v5(3)
    unfolding e6 by auto
  have r7: "room (vm_dict vm) (8 * length ?D)" using r by simp
  have p: "?D[code_length a + 1 := of_nat (length ?D - (code_length a + 1))] = stmt_code ?h (WhileRepeat a b)"
    by (simp add: list_update_append)
  obtain vm7 where "resolveForwardBranch T vm6 origTag = Ok vm7" "laid vm vm7 (stmt_code ?h (WhileRepeat a b))"
      "data vm7 = data vm"
    using laid_forward [OF v6(2) r7, of T origTag, OF v6(3)] v(4) unfolding p by auto
  then show "\<exists>vm'. emit T (WhileRepeat a b) vm = Ok vm' \<and> laid vm vm' (stmt_code ?h (WhileRepeat a b)) \<and> data vm' = data vm"
    using v1(1) v2(1) v3(1) v4(1) v5(1) v6(1) by (simp add: ficlPrimitiveRepeatCoIm_def)
qed

text \<open>\<open>do\<close> and \<open>loop\<close> with their variants.\<close>

lemma laid_loop:
  assumes "emits T a" and v: "vm_wf vm1" "laid vm vm1 [c, 0]"
      "data vm1 = T doTag # (here vm + of_nat (8 * 2)) # T leaveTag # (here vm + of_nat (8 * 1)) # data vm"
    and n: "length (data vm) + (4 + control_need a) \<le> st_size (vm_dataStack vm)"
    and rm: "room (vm_dict vm) (8 * (4 + code_length a))" and s: "4 + code_length a < 2 ^ 58"
  shows "\<exists>vm2 vm3 vm4 vm'. emit T a vm1 = Ok vm2 \<and> PRIMITIVE_APPEND_UNSIGNED vm2 e = Ok vm3 \<and>
    resolveBackBranch T vm3 doTag = Ok vm4 \<and> resolveAbsBranch T vm4 leaveTag = Ok vm' \<and> data vm' = data vm \<and>
    laid vm vm' ([c, here vm + of_nat (8 * (4 + code_length a))] @ stmt_code (here vm + 16) a @
      [e, - of_nat (code_length a + 1)])"
proof -
  let ?h = "here vm" and ?A = "stmt_code (here vm + 16) a"
  let ?C = "[c, 0] @ ?A @ [e]" and ?D = "[c, 0] @ ?A @ [e, - of_nat (code_length a + 1)]"
  let ?l = "T leaveTag # (?h + of_nat (8 * 1)) # data vm"
  obtain vm2 where v2: "emit T a vm1 = Ok vm2" "laid vm vm2 ([c, 0] @ ?A)" "data vm2 = data vm1"
    using laid_emit [OF assms(1) v(2) _ rm] n s v(3) by auto
  obtain vm3 where v3: "PRIMITIVE_APPEND_UNSIGNED vm2 e = Ok vm3" "laid vm vm3 ?C" "data vm3 = data vm2"
    using laid_unsigned [OF v2(2), of e] room_less [OF rm] by auto
  have r4: "room (vm_dict vm) (8 * (length ?C + 1))" using rm by (simp add: algebra_simps)
  have l4: "length ?C < 2 ^ 58" using s by simp
  have e4: "?C @ [of_int (int 2 - int (length ?C))] = ?D" by simp
  obtain vm4 where v4: "resolveBackBranch T vm3 doTag = Ok vm4" "laid vm vm4 ?D" "data vm4 = ?l"
    using laid_back [OF v3(2) r4 _ _ l4, of T doTag 2 ?l] v(3) v2(3) v3(3) unfolding e4 by auto
  have r5: "room (vm_dict vm) (8 * length ?D)" using rm by (simp add: algebra_simps)
  have p: "?D[1 := ?h + of_nat (8 * length ?D)] = [c, ?h + of_nat (8 * (4 + code_length a))] @ ?A @ [e, - of_nat (code_length a + 1)]"
    by (simp add: algebra_simps)
  obtain vm5 where "resolveAbsBranch T vm4 leaveTag = Ok vm5" "data vm5 = data vm"
      "laid vm vm5 ([c, ?h + of_nat (8 * (4 + code_length a))] @ ?A @ [e, - of_nat (code_length a + 1)])"
    using laid_abs [OF v4(2) r5, of T leaveTag, OF v4(3)] unfolding p by auto
  then show ?thesis using v2(1) v3(1) v4(1) by blast
qed

lemma emits_DoLoop: "emits T a \<Longrightarrow> emits T (DoLoop a)"
  unfolding emits_def [of T "DoLoop a"]
proof (intro allI impI)
  fix vm assume a: "emits T a" and v: "vm_wf vm" "length (data vm) + control_need (DoLoop a) \<le> st_size (vm_dataStack vm)"
    "room (vm_dict vm) (8 * code_length (DoLoop a))" "code_length (DoLoop a) < 2 ^ 58"
  obtain vm1 where v1: "ficlPrimitiveDoCoIm T vm = Ok vm1" "laid vm vm1 [ficlInstructionDoParen, 0]"
      "data vm1 = T doTag # (here vm + of_nat (8 * 2)) # T leaveTag # (here vm + of_nat (8 * 1)) # data vm"
    using laid_do [OF v(1) _ v(3), of ficlInstructionDoParen T] v(2) by (auto simp: ficlPrimitiveDoCoIm_def)
  show "\<exists>vm'. emit T (DoLoop a) vm = Ok vm' \<and> laid vm vm' (stmt_code (here vm) (DoLoop a)) \<and> data vm' = data vm"
    using laid_loop [OF a laid_wf [OF v1(2)] v1(2,3), of ficlInstructionLoopParen] v v1(1)
    by (auto simp: ficlPrimitiveLoopCoIm_def)
qed

lemma emits_QDoPlusLoop: "emits T a \<Longrightarrow> emits T (QDoPlusLoop a)"
  unfolding emits_def [of T "QDoPlusLoop a"]
proof (intro allI impI)
  fix vm assume a: "emits T a" and v: "vm_wf vm" "length (data vm) + control_need (QDoPlusLoop a) \<le> st_size (vm_dataStack vm)"
    "room (vm_dict vm) (8 * code_length (QDoPlusLoop a))" "code_length (QDoPlusLoop a) < 2 ^ 58"
  obtain vm1 where v1: "ficlPrimitiveQDoCoIm T vm = Ok vm1" "laid vm vm1 [ficlInstructionQDoParen, 0]"
      "data vm1 = T doTag # (here vm + of_nat (8 * 2)) # T leaveTag # (here vm + of_nat (8 * 1)) # data vm"
    using laid_do [OF v(1) _ v(3), of ficlInstructionQDoParen T] v(2) by (auto simp: ficlPrimitiveQDoCoIm_def)
  show "\<exists>vm'. emit T (QDoPlusLoop a) vm = Ok vm' \<and> laid vm vm' (stmt_code (here vm) (QDoPlusLoop a)) \<and> data vm' = data vm"
    using laid_loop [OF a laid_wf [OF v1(2)] v1(2,3), of ficlInstructionPlusLoopParen] v v1(1)
    by (auto simp: ficlPrimitivePlusLoopCoIm_def)
qed

lemmas emits_rules = emits_Cells emits_Seq emits_IfThen emits_IfElse emits_Until emits_Again
  emits_WhileRepeat emits_DoLoop emits_QDoPlusLoop

lemma emits_all: "emits T s"
  by (induction s) (auto intro: emits_rules)

subsection \<open>Mismatched structures\<close>

text \<open>The tags are static strings in memory.\<close>

fun stored :: "(addr \<rightharpoonup> u8) \<Rightarrow> addr \<Rightarrow> string \<Rightarrow> bool" where
  "stored m p [] = (m p = Some 0)"
| "stored m p (c # cs) = (m p = Some (char_byte c) \<and> stored m (p + 1) cs)"

definition tags_stored :: "tags \<Rightarrow> (addr \<rightharpoonup> u8) \<Rightarrow> bool" where
  "tags_stored T m = (\<forall>t. T t \<noteq> NULL \<and> stored m (T t) (tag_text t))"

lemma char_byte_eq_0: "char_byte c = 0 \<longleftrightarrow> c = NUL"
proof -
  have "char_byte NUL = 0" by (simp add: char_byte_def)
  then show ?thesis by (metis byte_char_char_byte)
qed

lemma strcmp_eq_stored:
  assumes "stored m p s" and "NUL \<notin> set s" and "NUL \<notin> set want"
  shows "strcmp_eq m p want = Some (s = want)"
  using assms
proof (induction want arbitrary: p s)
  case Nil
  then show ?case by (cases s) (auto simp: char_byte_eq_0)
next
  case (Cons c cs)
  show ?case
  proof (cases s)
    case Nil
    then show ?thesis using Cons.prems char_byte_eq_0 [of c] by auto
  next
    case (Cons d ds)
    have "char_byte d = char_byte c \<longleftrightarrow> d = c" by (metis byte_char_char_byte)
    then show ?thesis using Cons.IH [of "p + 1" ds] Cons.prems Cons by auto
  qed
qed

lemma tag_text_props: "tag_text t \<noteq> []" "NUL \<notin> set (tag_text t)" "tag_text t = tag_text u \<longleftrightarrow> t = u"
proof -
  show "tag_text t \<noteq> []" by (cases t) simp_all
  show "NUL \<notin> set (tag_text t)" by (cases t) (simp_all add: NUL_def char_of_def)
  show "tag_text t = tag_text u \<longleftrightarrow> t = u" by (cases t; cases u) simp_all
qed

lemma matchControlTag_other:
  assumes "tags_stored T (d_bytes (vm_dict vm))" and "vm_wf vm" and "data vm = T open_tag # xs" and "open_tag \<noteq> tag"
  shows "matchControlTag T vm tag = ficlVmThrowException (ddrop 1 vm) FICL_VM_STATUS_CONTROL_MISMATCH"
proof -
  let ?m = "d_bytes (vm_dict vm)"
  have st: "stored ?m (T open_tag) (tag_text open_tag)" "T open_tag \<noteq> NULL" "stored ?m (T tag) (tag_text tag)"
    using assms(1) by (auto simp: tags_stored_def)
  have c: "strcmp_eq ?m (T open_tag) (tag_text tag) = Some False"
    using strcmp_eq_stored [OF st(1)] tag_text_props assms(4) by simp
  moreover have "T open_tag \<noteq> T tag"
    using c strcmp_eq_stored [OF st(3), of "tag_text tag"] tag_text_props(2) by auto
  moreover obtain b where "?m (T open_tag) = Some b" "b \<noteq> 0"
    using st(1) tag_text_props(1,2) [of open_tag] by (cases "tag_text open_tag") (auto simp: char_byte_eq_0)
  ultimately show ?thesis
    using ficlVmPop_data [OF assms(2,3)] st(2) by (simp add: matchControlTag_def tag_differs_def)
qed

end
