(* ===== verification/Ficl_Outer.thy ===== *)
theory Ficl_Outer
  imports Ficl_Control
begin

section \<open>The outer interpreter\<close>

text \<open>
  The functions of \<open>ficl/vm.c\<close> and \<open>ficl/primitives.c\<close> around the inner loop: looking up and
  executing or compiling one word of the input, the primitive \<open>interpret\<close> with its list of parse
  steps, the execution of a text and of a single word, and the checks of the dictionary.

  A \<open>longjmp\<close> goes to the handler of the innermost caller, so the handlers are the functions
  that match on a thrown exception. The cells of the interpreter loop and of the exit word lie in
  the memory of the dictionary at addresses that are arguments. The parse steps are a list of functions: those of C,
  and those in Forth, which \<open>interpret\<close> runs with \<open>ficlVmExecuteXT\<close>. The copy of the name of the current
  file is an argument. Words of the locals dictionary are in its own heap.

  The laws are on errors: what \<open>ficlVmExecuteString\<close> leaves behind when the text raised an
  exception.
\<close>

subsection \<open>Checks of the dictionary\<close>

text \<open>The products are of type \<open>int\<close> in C and do not overflow for dictionaries of less than $2^{28}$ cells.\<close>

definition ficlVmDictionarySimpleCheck :: "ficlVm \<Rightarrow> ficlDictionary \<Rightarrow> int \<Rightarrow> ficlDictionary vm_result" where
  "ficlVmDictionarySimpleCheck vm dictionary cells =
     (if cells \<ge> 0 \<and> ficlDictionaryCellsAvailable dictionary * 8 < cells
      then ficlVmThrowException vm FICL_VM_STATUS_DICT_OVERFLOW
      else if cells \<le> 0 \<and> ficlDictionaryCellsUsed dictionary * 8 < - cells
      then ficlVmThrowError vm else Ok dictionary)"

definition ficlVmDictionaryCheck :: "ficlVm \<Rightarrow> ficlDictionary \<Rightarrow> int \<Rightarrow> ficlDictionary vm_result" where
  "ficlVmDictionaryCheck vm dictionary cells =
     bind_outcome (ficlVmDictionarySimpleCheck vm dictionary cells) (\<lambda>dictionary.
       if d_wordlistCount dictionary > int FICL_MAX_WORDLISTS
       then ficlVmThrowException (vm\<lparr>vm_dict := ficlDictionaryResetSearchOrder dictionary\<rparr>) FICL_VM_STATUS_SEARCH_OVERFLOW
       else if d_wordlistCount dictionary < 0
       then ficlVmThrowException (vm\<lparr>vm_dict := ficlDictionaryResetSearchOrder dictionary\<rparr>) FICL_VM_STATUS_SEARCH_UNDERFLOW
       else Ok dictionary)"

definition ficlVmDictionaryAllot :: "ficlVm \<Rightarrow> int \<Rightarrow> ficlVm vm_result" where
  "ficlVmDictionaryAllot vm n = bind_outcome (ficlVmDictionarySimpleCheck vm (vm_dict vm) n) (\<lambda>dictionary.
     Ok (vm\<lparr>vm_dict := ficlDictionaryAllot dictionary n\<rparr>))"

definition ficlVmDictionaryAllotCells :: "ficlVm \<Rightarrow> int \<Rightarrow> ficlVm vm_result" where
  "ficlVmDictionaryAllotCells vm cells = bind_outcome (ficlVmDictionarySimpleCheck vm (vm_dict vm) cells) (\<lambda>dictionary.
     Ok (vm\<lparr>vm_dict := ficlDictionaryAllotCells dictionary cells\<rparr>))"

subsection \<open>One word of the input\<close>

text \<open>The word and whether it is in the locals dictionary.\<close>

definition ficlSystemLookupLocal :: "ficlVm \<Rightarrow> string \<Rightarrow> (int, bool \<times> addr) outcome option" where
  "ficlSystemLookupLocal vm name =
     Option.bind (ficlHashLookup (d_heap (vm_locals vm)) (d_forthWordlist (vm_locals vm)) name (ficlHashCode name)) (\<lambda>r.
       case r of
         Ok word \<Rightarrow>
           if word \<noteq> NULL then Some (Ok (True, word))
           else map_option (\<lambda>r. bind_outcome r (\<lambda>word. Ok (False, word)))
                  (dict_lookup_loop (vm_dict vm) name (ficlHashCode name) (nat (d_wordlistCount (vm_dict vm))))
       | Throw e \<Rightarrow> Some (Throw e) | Fault \<Rightarrow> Some Fault)"

definition find_word :: "ficlVm \<Rightarrow> string \<Rightarrow> (int, bool \<times> addr) outcome option" where
  "find_word vm name =
     (if vm_localsCount vm > 0 then ficlSystemLookupLocal vm name
      else map_option (\<lambda>r. bind_outcome r (\<lambda>word. Ok (False, word))) (ficlDictionaryLookup (vm_dict vm) name))"

definition heap_of :: "ficlVm \<Rightarrow> bool \<Rightarrow> ficlHeap" where
  "heap_of vm loc = (if loc then d_heap (vm_locals vm) else d_heap (vm_dict vm))"

text \<open>The place from which a word is called, kept in the word.\<close>

definition called_from :: "bool \<Rightarrow> addr \<Rightarrow> addr \<Rightarrow> ficlVm \<Rightarrow> ficlVm vm_result" where
  "called_from loc p caller vm =
     (case words (heap_of vm loc) p of None \<Rightarrow> Fault
      | Some w \<Rightarrow>
          let w = w\<lparr>w_current_word := caller, w_current_file := d_current_file (vm_dict vm),
                    w_current_line := d_current_line (vm_dict vm)\<rparr>
          in Ok (if loc then vm\<lparr>vm_locals := set_word p w (vm_locals vm)\<rparr> else vm\<lparr>vm_dict := set_word p w (vm_dict vm)\<rparr>))"

text \<open>\<open>ficlVmInnerLoop\<close> with a word of the locals dictionary: its code is looked up there.\<close>

definition exec_local :: "fth_env \<Rightarrow> addr \<Rightarrow> ficlVm \<Rightarrow> ficlVm vm_result option" where
  "exec_local E fw vm =
     (case words (d_heap (vm_locals vm)) fw of None \<Rightarrow> Some Fault
      | Some w \<Rightarrow>
          map_option (\<lambda>r. bind_outcome r (\<lambda>n. case n of Continue vm \<Rightarrow> Ok vm | Return vm \<Rightarrow> Ok vm))
            (if w_code w < ficlInstructionLast
             then (case inner_switch E fw (w_code w) of None \<Rightarrow> None | Some f \<Rightarrow> f vm)
             else Some (call_c (primitive_code E (w_code w)) (vm\<lparr>vm_runningWord := fw\<rparr>))))"

definition run_found :: "fth_env \<Rightarrow> bool \<Rightarrow> addr \<Rightarrow> addr \<Rightarrow> ficlVm \<Rightarrow> (bool \<times> ficlVm) vm_result option" where
  "run_found E loc fw caller vm =
     (case called_from loc fw caller vm of Throw e \<Rightarrow> Some (Throw e) | Fault \<Rightarrow> Some Fault
      | Ok vm \<Rightarrow> map_option (\<lambda>r. bind_outcome r (\<lambda>vm. Ok (True, vm)))
                  (if loc then exec_local E fw vm else ficlVmInnerLoop E vm fw))"

text \<open>A word is compiled as its instruction, or as its address after the place of the call.\<close>

definition compile_found :: "(cell \<Rightarrow> cell) \<Rightarrow> ficlWord \<Rightarrow> addr \<Rightarrow> ficlVm \<Rightarrow> ficlVm vm_result" where
  "compile_found fth_string_copy w tempFW =
     in_dict (\<lambda>dict.
       if w_flags w AND FICL_WORD_INSTRUCTION \<noteq> 0 then ficlDictionaryAppendPointer dict (w_code w)
       else bind_outcome (ficlDictionaryAppendUnsigned dict ficl_word_location) (\<lambda>dict.
            bind_outcome (ficlDictionaryAppendPointer dict (d_smudge dict)) (\<lambda>dict.
            bind_outcome (ficlDictionaryAppendFTH dict (fth_string_copy (d_current_file dict))) (\<lambda>dict.
            bind_outcome (ficlDictionaryAppendInteger dict (d_current_line dict)) (\<lambda>dict.
            ficlDictionaryAppendPointer dict tempFW)))))"

definition FICL_VM_STATUS_UNDEFINED :: int where
  "FICL_VM_STATUS_UNDEFINED = -13"

definition FICL_VM_STATUS_COMPILE_ONLY :: int where
  "FICL_VM_STATUS_COMPILE_ONLY = -14"

definition ficlVmParseWord ::
    "fth_env \<Rightarrow> (cell \<Rightarrow> cell) \<Rightarrow> ficlVm \<Rightarrow> string \<Rightarrow> (bool \<times> ficlVm) vm_result option" where
  "ficlVmParseWord E fth_string_copy vm name =
     Option.bind (find_word vm name) (\<lambda>r. case r of
       Throw e \<Rightarrow> Some (ficlVmThrowException vm e) | Fault \<Rightarrow> Some Fault
     | Ok (loc, tempFW) \<Rightarrow>
         if tempFW = NULL then Some (Ok (False, vm))
         else (case words (heap_of vm loc) tempFW of None \<Rightarrow> Some Fault
               | Some w \<Rightarrow>
                   if vm_state vm = FICL_VM_STATE_INTERPRET
                   then if w_flags w AND FICL_WORD_COMPILE_ONLY \<noteq> 0
                        then Some (ficlVmThrowException vm FICL_VM_STATUS_COMPILE_ONLY)
                        else run_found E loc tempFW (vm_runningWord vm) vm
                   else if w_flags w AND FICL_WORD_IMMEDIATE \<noteq> 0
                        then run_found E loc tempFW (d_smudge (vm_dict vm)) vm
                        else Some (bind_outcome (compile_found fth_string_copy w tempFW vm) (\<lambda>vm. Ok (True, vm)))))"

subsection \<open>The primitive \<open>interpret\<close>\<close>

type_synonym parse_step = "ficlVm \<Rightarrow> string \<Rightarrow> (bool \<times> ficlVm) vm_result option"

definition FICL_MAX_PARSE_STEPS :: nat where
  "FICL_MAX_PARSE_STEPS = 16"

fun parse_chain :: "parse_step list \<Rightarrow> string \<Rightarrow> ficlVm \<Rightarrow> ficlVm vm_result option" where
  "parse_chain [] s vm = Some (ficlVmThrowException vm FICL_VM_STATUS_UNDEFINED)"
| "parse_chain (step # steps) s vm = Option.bind (step vm s) (\<lambda>r. case r of
     Ok (eaten, vm) \<Rightarrow> if eaten then Some (Ok vm) else parse_chain steps s vm
   | Throw e \<Rightarrow> Some (Throw e) | Fault \<Rightarrow> Some Fault)"

definition ficlPrimitiveInterpret :: "parse_step list \<Rightarrow> ficlVm \<Rightarrow> ficlVm vm_result option" where
  "ficlPrimitiveInterpret parseList vm =
     (case ficlVmGetWord0 vm of Throw e \<Rightarrow> Some (Throw e) | Fault \<Rightarrow> Some Fault
      | Ok (s, vm) \<Rightarrow>
          if length s = 0 then Some (ficlVmThrow vm FICL_VM_STATUS_OUT_OF_TEXT)
          else parse_chain (take FICL_MAX_PARSE_STEPS parseList) s vm)"

text \<open>Adding a parse step: 1 when the list is full.\<close>

definition ficlSystemAddParseStep :: "parse_step list \<Rightarrow> parse_step \<Rightarrow> int \<times> parse_step list" where
  "ficlSystemAddParseStep parseList word =
     (if length parseList < FICL_MAX_PARSE_STEPS then (0, parseList @ [word]) else (1, parseList))"

subsection \<open>Executing text\<close>

definition ficlVmPopIP :: "ficlVm \<Rightarrow> ficlVm vm_result" where
  "ficlVmPopIP vm = vm_lift vm (ficlStackPopPointer (vm_returnStack vm)) (\<lambda>(ip, s). Ok (vm\<lparr>vm_returnStack := s, vm_ip := ip\<rparr>))"

definition ficlVmPushIP :: "ficlVm \<Rightarrow> addr \<Rightarrow> ficlVm vm_result" where
  "ficlVmPushIP vm newIP =
     vm_lift vm (ficlStackPushPointer (vm_returnStack vm) (vm_ip vm)) (\<lambda>s. Ok (vm\<lparr>vm_returnStack := s, vm_ip := newIP\<rparr>))"

definition ficlVmPushTib :: "ficlVm \<Rightarrow> string \<Rightarrow> ficlVm" where
  "ficlVmPushTib vm s = vm\<lparr>vm_tib := \<lparr>tib_text = s, tib_index = 0\<rparr>\<rparr>"

definition ficlVmPopTib :: "ficlVm \<Rightarrow> ficlTIB \<Rightarrow> ficlVm" where
  "ficlVmPopTib vm pTib = vm\<lparr>vm_tib := pTib\<rparr>"

definition FICL_VM_STATUS_ABORT :: int where
  "FICL_VM_STATUS_ABORT = -1"

definition FICL_VM_STATUS_ABORTQ :: int where
  "FICL_VM_STATUS_ABORTQ = -2"

fun then_run :: "'a vm_result \<Rightarrow> ('a \<Rightarrow> 'b vm_result option) \<Rightarrow> 'b vm_result option" where
  "then_run (Ok x) f = f x"
| "then_run (Throw e) f = Some (Throw e)"
| "then_run Fault f = Some Fault"

text \<open>The protected part of \<open>ficlVmExecuteString\<close>: restart the word that ran out of text, or start the interpreter loop.\<close>

definition text_run :: "fth_env \<Rightarrow> addr \<Rightarrow> ficlVm \<Rightarrow> ficlVm vm_result option" where
  "text_run E interpreterLoop vm =
     then_run
       (if vm_restart vm
        then (case words (d_heap (vm_dict vm)) (vm_runningWord vm) of None \<Rightarrow> Fault
              | Some w \<Rightarrow> bind_outcome (primitive_code E (w_code w) vm) (\<lambda>vm. Ok (vm\<lparr>vm_restart := False\<rparr>)))
        else ficlVmPushIP vm interpreterLoop)
       (\<lambda>vm. ficlVmInnerLoop E vm NULL)"

text \<open>What both cases for errors do when they are met in a definition.\<close>

definition abort_compilation :: "ficlVm \<Rightarrow> ficlVm vm_result" where
  "abort_compilation vm =
     (if vm_state vm = FICL_VM_STATE_COMPILE
      then bind_outcome (in_dict ficlDictionaryAbortDefinition vm) (\<lambda>vm.
             case hashes (d_heap (vm_locals vm)) (d_forthWordlist (vm_locals vm)) of None \<Rightarrow> Fault
             | Some h \<Rightarrow> vm_lift vm (ficlDictionaryEmpty (vm_locals vm) (h_size h)) (\<lambda>l. Ok (vm\<lparr>vm_locals := l\<rparr>)))
      else Ok vm)"

text \<open>The \<open>switch\<close> over the exception, the code of the exception being the result.\<close>

definition text_end :: "int \<Rightarrow> ficlVm \<Rightarrow> (int \<times> ficlVm) vm_result" where
  "text_end except vm =
     (if except = FICL_VM_STATUS_RESTART then Ok (FICL_VM_STATUS_OUT_OF_TEXT, vm\<lparr>vm_restart := True\<rparr>)
      else if except = FICL_VM_STATUS_OUT_OF_TEXT then bind_outcome (ficlVmPopIP vm) (\<lambda>vm. Ok (except, vm))
      else if except \<in> {FICL_VM_STATUS_SKIP_FILE, FICL_VM_STATUS_USER_EXIT, FICL_VM_STATUS_INNER_EXIT, FICL_VM_STATUS_BREAK}
      then Ok (except, vm)
      else if except = FICL_VM_STATUS_QUIT
      then bind_outcome (abort_compilation vm) (\<lambda>vm. Ok (except, ficlVmQuit vm))
      else bind_outcome (abort_compilation vm) (\<lambda>vm.
             Ok (except, ficlVmReset (vm\<lparr>vm_dict := ficlDictionaryResetSearchOrder (vm_dict vm)\<rparr>))))"

definition ficlVmExecuteString :: "fth_env \<Rightarrow> addr \<Rightarrow> ficlVm \<Rightarrow> string \<Rightarrow> (int \<times> ficlVm) vm_result option" where
  "ficlVmExecuteString E interpreterLoop vm s =
     (let saveficlTIB = vm_tib vm
      in map_option (\<lambda>r. case r of
             Ok vm \<Rightarrow> Ok (0, ficlVmPopTib vm saveficlTIB)
           | Throw (except, vm) \<Rightarrow> bind_outcome (text_end except vm) (\<lambda>(except, vm). Ok (except, ficlVmPopTib vm saveficlTIB))
           | Fault \<Rightarrow> Fault)
         (text_run E interpreterLoop (ficlVmPushTib vm s)))"

definition ficlVmEvaluate :: "fth_env \<Rightarrow> addr \<Rightarrow> ficlVm \<Rightarrow> string option \<Rightarrow> (int \<times> ficlVm) vm_result option" where
  "ficlVmEvaluate E interpreterLoop vm buffer =
     (case buffer of None \<Rightarrow> Some (Ok (FICL_VM_STATUS_OUT_OF_TEXT, vm))
      | Some s \<Rightarrow>
          let ident = vm_sourceId vm
          in map_option (\<lambda>r. bind_outcome r (\<lambda>(returnValue, vm). Ok (returnValue, vm\<lparr>vm_sourceId := ident\<rparr>)))
               (ficlVmExecuteString E interpreterLoop (vm\<lparr>vm_sourceId := -1\<rparr>) s))"

text \<open>
  Executing a single word to its end; \<open>nested\<close> says whether there is a handler outside to which
  other exceptions are thrown on.
\<close>

definition xt_run :: "fth_env \<Rightarrow> addr \<Rightarrow> ficlVm \<Rightarrow> addr \<Rightarrow> ficlVm vm_result option" where
  "xt_run E exitInnerWord vm pWord =
     then_run (bind_outcome (ficlVmPushIP vm exitInnerWord) (called_from False pWord (vm_runningWord vm))) (\<lambda>vm.
       Option.bind (ficlVmInnerLoop E vm pWord) (\<lambda>r. then_run r (\<lambda>vm. ficlVmInnerLoop E vm NULL)))"

definition xt_end :: "bool \<Rightarrow> int \<Rightarrow> ficlVm \<Rightarrow> (int \<times> ficlVm) vm_result" where
  "xt_end nested except vm = bind_outcome (ficlVmPopIP vm) (\<lambda>vm.
     if except \<in> {FICL_VM_STATUS_INNER_EXIT, FICL_VM_STATUS_BREAK} \<or> \<not> nested then Ok (except, vm) else ficlVmThrow vm except)"

definition ficlVmExecuteXT :: "fth_env \<Rightarrow> addr \<Rightarrow> bool \<Rightarrow> ficlVm \<Rightarrow> addr \<Rightarrow> (int \<times> ficlVm) vm_result option" where
  "ficlVmExecuteXT E exitInnerWord nested vm pWord =
     (let oldRunningWord = vm_runningWord vm
      in map_option (\<lambda>r. case r of
             Ok vm \<Rightarrow> Ok (0, vm\<lparr>vm_runningWord := oldRunningWord\<rparr>)
           | Throw (except, vm) \<Rightarrow> bind_outcome (xt_end nested except vm) (\<lambda>(except, vm).
               Ok (except, vm\<lparr>vm_runningWord := oldRunningWord\<rparr>))
           | Fault \<Rightarrow> Fault)
         (xt_run E exitInnerWord vm pWord))"

subsection \<open>Errors in a text\<close>

definition error_code :: "int \<Rightarrow> bool" where
  "error_code e = (e \<notin> {0, FICL_VM_STATUS_RESTART, FICL_VM_STATUS_OUT_OF_TEXT, FICL_VM_STATUS_SKIP_FILE,
     FICL_VM_STATUS_USER_EXIT, FICL_VM_STATUS_INNER_EXIT, FICL_VM_STATUS_BREAK, FICL_VM_STATUS_QUIT})"

lemma reset_fields [simp]:
  "data (ficlVmReset vm) = []" "rets (ficlVmReset vm) = []" "vm_state (ficlVmReset vm) = FICL_VM_STATE_INTERPRET"
  "vm_base (ficlVmReset vm) = 10" "vm_dict (ficlVmReset vm) = vm_dict vm" "vm_locals (ficlVmReset vm) = vm_locals vm"
  "vm_localsCount (ficlVmReset vm) = vm_localsCount vm"
  by (simp_all add: ficlVmReset_def ficlVmQuit_def Let_def ficlStackReset_def stack_list_def)

lemma handled_error:
  assumes "\<not> vm_fth_catch_p vm"
  shows "inner_handler l (ficlVmThrowException vm e) = Throw (e, LOCAL_VARIABLE_SPILL l (ficlVmReset vm))"
  using assms by (simp add: ficlVmThrowException_def ficlVmThrowErrorVararg_def ficlVmThrow_def)

lemma thrown:
  "inner_handler l (ficlVmThrow vm e) = Throw (e, LOCAL_VARIABLE_SPILL l vm)"
  by (simp add: ficlVmThrow_def)

lemma spilled_fields [simp]:
  "vm_state (LOCAL_VARIABLE_SPILL l vm) = vm_state vm" "vm_dict (LOCAL_VARIABLE_SPILL l vm) = vm_dict vm"
  "vm_locals (LOCAL_VARIABLE_SPILL l vm) = vm_locals vm" "vm_localsCount (LOCAL_VARIABLE_SPILL l vm) = vm_localsCount vm"
  by (simp_all add: LOCAL_VARIABLE_SPILL_def)

text \<open>A dictionary that has been emptied knows no word; an aborted definition keeps its memory.\<close>

definition no_words :: "ficlDictionary \<Rightarrow> bool" where
  "no_words d = (case hashes (d_heap d) (d_forthWordlist d) of None \<Rightarrow> False | Some t \<Rightarrow> h_table t = replicate (h_size t) NULL)"

lemma ficlDictionaryEmpty_no_words: "ficlDictionaryEmpty d n = Ok d' \<Longrightarrow> no_words d'"
  by (auto simp: ficlDictionaryEmpty_def ficlDictionaryCreateWordlist_def ficlHashReset_def no_words_def Let_def
      ficlDictionaryResetSearchOrder_def outcome_simps split: if_splits)

lemma ficlDictionaryAbortDefinition_heap:
  "ficlDictionaryAbortDefinition d = Ok d' \<Longrightarrow> words (d_heap d') = words (d_heap d) \<and> hashes (d_heap d') = hashes (d_heap d)"
  by (auto simp: ficlDictionaryAbortDefinition_def d_store_cell_def outcome_simps split: if_splits option.splits)

lemma vm_lift_Ok: "vm_lift vm r k = Ok v \<longleftrightarrow> (\<exists>x. r = Ok x \<and> k x = Ok v)"
  by (cases r) (auto simp: vm_lift_def ficlVmThrowException_def ficlVmThrowErrorVararg_def ficlVmThrow_def Let_def)

lemma abort_compilation_cases:
  assumes "abort_compilation vm = Ok vm2"
  shows "vm_state vm \<noteq> FICL_VM_STATE_COMPILE \<Longrightarrow> vm2 = vm"
    and "vm_state vm = FICL_VM_STATE_COMPILE \<Longrightarrow> ficlDictionaryAbortDefinition (vm_dict vm) = Ok (vm_dict vm2) \<and>
      no_words (vm_locals vm2) \<and> vm_localsCount vm2 = vm_localsCount vm"
  using assms ficlDictionaryEmpty_no_words
  by (auto simp: abort_compilation_def in_dict_def vm_lift_Ok outcome_simps split: if_splits option.splits)

text \<open>The machine that a text leaves when it ends with an error.\<close>

definition usable_after :: "ficlVm \<Rightarrow> ficlVm \<Rightarrow> bool" where
  "usable_after vm vm' = (vm_tib vm' = vm_tib vm \<and> data vm' = [] \<and> rets vm' = [] \<and>
     vm_state vm' = FICL_VM_STATE_INTERPRET \<and> vm_base vm' = 10)"

lemma execute_string_error:
  assumes "text_run E loop (ficlVmPushTib vm s) = Some (Throw (e, vm1))" and "error_code e"
    and "abort_compilation vm1 = Ok vm2"
  shows "\<exists>vm'. ficlVmExecuteString E loop vm s = Some (Ok (e, vm')) \<and> usable_after vm vm' \<and>
    vm_dict vm' = ficlDictionaryResetSearchOrder (vm_dict vm2) \<and> vm_locals vm' = vm_locals vm2 \<and>
    vm_localsCount vm' = vm_localsCount vm2"
proof -
  have "text_end e vm1 = Ok (e, ficlVmReset (vm2\<lparr>vm_dict := ficlDictionaryResetSearchOrder (vm_dict vm2)\<rparr>))"
    using assms(2,3) by (simp add: text_end_def error_code_def)
  then show ?thesis
    using assms(1) by (simp add: ficlVmExecuteString_def ficlVmPopTib_def usable_after_def)
qed

subsection \<open>A text of numbers\<close>

text \<open>
  The interpreter loop in memory: \<open>interpret\<close> and a branch back to it. The primitive is run by
  the function \<open>ficlPrimitiveInterpret\<close> with the given parse steps wherever that returns.
\<close>

definition outer_loop :: "fth_env \<Rightarrow> addr \<Rightarrow> addr \<Rightarrow> parse_step list \<Rightarrow> ficlDictionary \<Rightarrow> bool" where
  "outer_loop E L W steps d =
     (L \<noteq> NULL \<and> L + 8 \<noteq> NULL \<and> L + 16 \<noteq> NULL \<and> W \<noteq> NULL \<and> load_cell (d_bytes d) L = Some W \<and>
      load_cell (d_bytes d) (L + 8) = Some ficlInstructionBranchParen \<and> load_cell (d_bytes d) (L + 16) = Some (-2) \<and>
      inner_switch E W W = None \<and>
      (\<exists>w. words (d_heap d) W = Some w \<and> ficlInstructionLast \<le> w_code w \<and>
        (\<forall>vm r. ficlPrimitiveInterpret steps vm = Some r \<longrightarrow> primitive_code E (w_code w) vm = r)))"

lemma interpret_step:
  assumes "outer_loop E L W steps (vm_dict vm)" and "vm_ip vm = L"
    and "ficlPrimitiveInterpret steps (vm\<lparr>vm_ip := L + 8, vm_runningWord := W\<rparr>) = Some r"
  shows "inner_step E vm = Some (bind_outcome (inner_handler (vm\<lparr>vm_ip := L + 8, vm_runningWord := W\<rparr>) r) continue)"
proof -
  obtain w where "words (d_heap (vm_dict vm)) W = Some w" "\<not> w_code w < ficlInstructionLast"
      "primitive_code E (w_code w) (vm\<lparr>vm_ip := L + 8, vm_runningWord := W\<rparr>) = r"
    using assms(1,3) unfolding outer_loop_def not_less by blast
  then show ?thesis
    using assms(1,2)
    by (simp add: outer_loop_def inner_step_def d_load_cell_def exec_word_def exec_default_def FICL_FW_CHECK_def call_c_def)
qed

lemma interpret_token:
  assumes "tib_ok vm" and "tokens (input vm) = w # ws"
  shows "\<exists>t. ficlPrimitiveInterpret steps vm = parse_chain (take FICL_MAX_PARSE_STEPS steps) w (vm\<lparr>vm_tib := t\<rparr>) \<and>
    tib_ok (vm\<lparr>vm_tib := t\<rparr>) \<and> tokens (input (vm\<lparr>vm_tib := t\<rparr>)) = ws"
proof -
  obtain t where t: "ficlVmGetWord vm = Ok (w, vm\<lparr>vm_tib := t\<rparr>)" "tib_ok (vm\<lparr>vm_tib := t\<rparr>)" "tokens (input (vm\<lparr>vm_tib := t\<rparr>)) = ws"
    using ficlVmGetWord_next [OF assms] by auto
  from t(1) have "ficlVmGetWord0 vm = Ok (w, vm\<lparr>vm_tib := t\<rparr>) \<and> w \<noteq> []"
    by (cases "ficlVmGetWord0 vm") (auto simp: ficlVmGetWord_def ficlVmThrow_def split: if_splits)
  then show ?thesis using t(2,3) by (auto simp: ficlPrimitiveInterpret_def)
qed

lemma interpret_end:
  assumes "tib_ok vm" and "tokens (input vm) = []"
  shows "\<exists>t. ficlPrimitiveInterpret steps vm = Some (ficlVmThrow (vm\<lparr>vm_tib := t\<rparr>) FICL_VM_STATUS_OUT_OF_TEXT)"
proof -
  have "dropWhile isspace (input vm) = []"
    using assms(2) tokens_word [of "input vm"] by (auto simp del: dropWhile_eq_Nil_conv)
  then show ?thesis
    using ficlVmGetWord0_input [OF assms(1)] by (auto simp: ficlPrimitiveInterpret_def simp del: dropWhile_eq_Nil_conv)
qed

lemma back_branch:
  assumes "outer_loop E L W steps (vm_dict vm)" and "vm_ip vm = L + 8"
  shows "inner_step E vm = Some (Ok (Continue (vm\<lparr>vm_ip := L\<rparr>)))"
proof -
  have "(ficlInstructionBranchParen, instr_BranchParen) \<in> set (stack_table E @ memory_table E ficlInstructionBranchParen @ arith_table E)"
    by (simp add: stack_table_def memory_table_def arith_table_def)
  moreover have "16 + L \<noteq> NULL" "load_cell (d_bytes (vm_dict vm)) (16 + L) = Some (-2)" "L + 8 \<noteq> NULL"
      "load_cell (d_bytes (vm_dict vm)) (L + 8) = Some ficlInstructionBranchParen"
    using assms(1) by (simp_all add: outer_loop_def add.commute [of 16])
  ultimately show ?thesis
    using assms(2) inner_step_instr [of vm ficlInstructionBranchParen instr_BranchParen E]
    by (simp add: instr_BranchParen_def BRANCH_def iref_def imove_def d_load_cell_def continue_def)
qed

text \<open>The machine at the head of the loop, ready to read more numbers.\<close>

definition reading :: "fth_env \<Rightarrow> fth_env \<Rightarrow> addr \<Rightarrow> addr \<Rightarrow> ficlVm \<Rightarrow> bool" where
  "reading E F L W vm = (outer_loop E L W [\<lambda>vm s. Some (ficlVmParseNumber F False vm s)] (vm_dict vm) \<and> vm_wf vm \<and>
     tib_ok vm \<and> vm_base vm = 10 \<and> vm_state vm = FICL_VM_STATE_INTERPRET)"

lemma number_round:
  assumes "reading E F L W vm" and "vm_ip vm = L" and "tokens (input vm) = s # ss" and "ficlLtoa v 10 = Some s"
    and "length (data vm) < st_size (vm_dataStack vm)"
  shows "\<exists>vm'. reaches E vm vm' \<and> reading E F L W vm' \<and> vm_ip vm' = L \<and> tokens (input vm') = ss \<and> data vm' = v # data vm \<and>
    rets vm' = rets vm \<and> st_size (vm_dataStack vm') = st_size (vm_dataStack vm) \<and> vm_dict vm' = vm_dict vm"
proof -
  let ?vm = "vm\<lparr>vm_ip := L + 8, vm_runningWord := W\<rparr>"
  have ok: "tib_ok ?vm" "tokens (input ?vm) = s # ss" "vm_wf ?vm"
    using assms(1,3) by (simp_all add: reading_def tib_ok_def input_def vm_wf_def)
  have loop: "outer_loop E L W [\<lambda>vm s. Some (ficlVmParseNumber F False vm s)] (vm_dict vm)"
    using assms(1) by (simp add: reading_def)
  obtain t where t: "ficlPrimitiveInterpret [\<lambda>vm s. Some (ficlVmParseNumber F False vm s)] ?vm =
        parse_chain [\<lambda>vm s. Some (ficlVmParseNumber F False vm s)] s (?vm\<lparr>vm_tib := t\<rparr>)"
      "tib_ok (?vm\<lparr>vm_tib := t\<rparr>)" "tokens (input (?vm\<lparr>vm_tib := t\<rparr>)) = ss"
    using interpret_token [OF ok(1,2), of "[\<lambda>vm s. Some (ficlVmParseNumber F False vm s)]"]
    by (auto simp: FICL_MAX_PARSE_STEPS_def)
  define vm1 where "vm1 = dpushed v (?vm\<lparr>vm_tib := t\<rparr>)"
  have wf: "vm_wf (?vm\<lparr>vm_tib := t\<rparr>)" using ok(3) by (simp add: vm_wf_def)
  have "ficlVmParseNumber F False (?vm\<lparr>vm_tib := t\<rparr>) s = Ok (True, vm1)"
    unfolding vm1_def using assms(1,5) by (intro ficlVmParseNumber_ltoa [OF _ _ wf _ assms(4)]) (simp_all add: reading_def)
  then have step: "inner_step E vm = Some (Ok (Continue vm1))"
    using interpret_step [OF loop assms(2), of "Ok vm1"] t(1) by (simp add: continue_def)
  have f: "data vm1 = v # data vm" "vm_wf vm1"
    using dpushed_list [OF wf, of v] assms(5) unfolding vm1_def by simp_all
  have g: "vm_dict vm1 = vm_dict vm" "rets vm1 = rets vm" "vm_ip vm1 = L + 8" "vm_base vm1 = vm_base vm"
      "vm_state vm1 = vm_state vm" "st_size (vm_dataStack vm1) = st_size (vm_dataStack vm)" "vm_tib vm1 = t"
    by (simp_all add: vm1_def dpushed_def)
  have br: "inner_step E vm1 = Some (Ok (Continue (vm1\<lparr>vm_ip := L\<rparr>)))"
    using back_branch [of E L W _ vm1] assms(1) g(1,3) by (auto simp: reading_def)
  have "reaches E vm (vm1\<lparr>vm_ip := L\<rparr>)" using reaches_step [OF step reaches_step [OF br reaches_refl]] .
  moreover have "reading E F L W (vm1\<lparr>vm_ip := L\<rparr>)" "tokens (input (vm1\<lparr>vm_ip := L\<rparr>)) = ss"
    using assms(1) f(2) g t(2,3) by (simp_all add: reading_def tib_ok_def input_def vm_wf_def)
  ultimately show ?thesis using f(1) g by (intro exI [of _ "vm1\<lparr>vm_ip := L\<rparr>"]) simp
qed

lemma numbers_run:
  assumes "list_all2 (\<lambda>s v. ficlLtoa v 10 = Some s) ss vs" and "reading E F L W vm" and "vm_ip vm = L"
    and "tokens (input vm) = ss" and "length (data vm) + length vs \<le> st_size (vm_dataStack vm)"
  shows "\<exists>vm'. inner_run E vm = Some (Throw (FICL_VM_STATUS_OUT_OF_TEXT, vm')) \<and> vm_wf vm' \<and> data vm' = rev vs @ data vm \<and>
    rets vm' = rets vm \<and> vm_dict vm' = vm_dict vm"
  using assms
proof (induction arbitrary: vm rule: list_all2_induct)
  case Nil
  let ?vm = "vm\<lparr>vm_ip := L + 8, vm_runningWord := W\<rparr>"
  have loop: "outer_loop E L W [\<lambda>vm s. Some (ficlVmParseNumber F False vm s)] (vm_dict vm)"
    and ok: "tib_ok ?vm" "tokens (input ?vm) = []" "vm_wf vm"
    using Nil.prems by (simp_all add: reading_def tib_ok_def input_def)
  obtain t where "ficlPrimitiveInterpret [\<lambda>vm s. Some (ficlVmParseNumber F False vm s)] ?vm =
      Some (ficlVmThrow (?vm\<lparr>vm_tib := t\<rparr>) FICL_VM_STATUS_OUT_OF_TEXT)"
    using interpret_end [OF ok(1,2)] by blast
  from interpret_step [OF loop Nil.prems(2) this]
  have "inner_step E vm = Some (Throw (FICL_VM_STATUS_OUT_OF_TEXT, LOCAL_VARIABLE_SPILL ?vm (?vm\<lparr>vm_tib := t\<rparr>)))"
    by (simp add: ficlVmThrow_def)
  then have "inner_run E vm = Some (Throw (FICL_VM_STATUS_OUT_OF_TEXT, LOCAL_VARIABLE_SPILL ?vm (?vm\<lparr>vm_tib := t\<rparr>)))"
    by (subst inner_run.simps) simp
  then show ?case using ok(3) by (simp add: LOCAL_VARIABLE_SPILL_def vm_wf_def)
next
  case (Cons s ss v vs)
  obtain vm1 where v1: "reaches E vm vm1" "reading E F L W vm1" "vm_ip vm1 = L" "tokens (input vm1) = ss" "data vm1 = v # data vm"
      "rets vm1 = rets vm" "st_size (vm_dataStack vm1) = st_size (vm_dataStack vm)" "vm_dict vm1 = vm_dict vm"
    using number_round [OF Cons.prems(1,2,3) Cons.hyps(1)] Cons.prems(4) by auto
  have "length (data vm1) + length vs \<le> st_size (vm_dataStack vm1)" using Cons.prems(4) v1(5,7) by simp
  from Cons.IH [OF v1(2,3,4) this] show ?case using v1(5,6,8) reaches_inner_run [OF v1(1)] by auto
qed

lemma push_ip_data:
  assumes "vm_wf vm" and "length (rets vm) < st_size (vm_returnStack vm)"
  shows "ficlVmPushIP vm p = Ok ((rpushed (vm_ip vm) vm)\<lparr>vm_ip := p\<rparr>)"
  using assms
  by (auto simp: ficlVmPushIP_def ficlStackPushPointer_def stk_access_defs vm_lift_def vm_wf_def stack_wf_def
      stack_list_def rpushed_def Let_def)

lemma pop_ip_data:
  assumes "vm_wf vm" and "rets vm = p # ps"
  shows "ficlVmPopIP vm = Ok ((rdrop 1 vm)\<lparr>vm_ip := p\<rparr>)"
  using stk_get_wf [of "vm_returnStack vm" 0] assms
  by (simp add: ficlVmPopIP_def ficlStackPopPointer_def vm_lift_def vm_wf_def rdrop_def)

lemma execute_numbers:
  assumes "outer_loop E L W [\<lambda>vm s. Some (ficlVmParseNumber F False vm s)] (vm_dict vm)" and "vm_wf vm"
    and "\<not> vm_restart vm" and "vm_base vm = 10" and "vm_state vm = FICL_VM_STATE_INTERPRET"
    and "length (rets vm) < st_size (vm_returnStack vm)"
    and "list_all2 (\<lambda>s v. ficlLtoa v 10 = Some s) (tokens txt) vs"
    and "length (data vm) + length vs \<le> st_size (vm_dataStack vm)"
  shows "\<exists>vm'. ficlVmExecuteString E L vm txt = Some (Ok (FICL_VM_STATUS_OUT_OF_TEXT, vm')) \<and>
    data vm' = rev vs @ data vm \<and> rets vm' = rets vm \<and> vm_ip vm' = vm_ip vm \<and> vm_tib vm' = vm_tib vm \<and> vm_dict vm' = vm_dict vm"
proof -
  let ?vm = "ficlVmPushTib vm txt"
  let ?vm1 = "(rpushed (vm_ip vm) ?vm)\<lparr>vm_ip := L\<rparr>"
  have wf: "vm_wf ?vm" "rets ?vm = rets vm" "data ?vm = data vm" "vm_ip ?vm = vm_ip vm" "\<not> vm_restart ?vm"
      "st_size (vm_returnStack ?vm) = st_size (vm_returnStack vm)"
    using assms(2,3) by (simp_all add: ficlVmPushTib_def vm_wf_def)
  have push: "ficlVmPushIP ?vm L = Ok ?vm1" using push_ip_data [OF wf(1)] wf(2,4,6) assms(6) by simp
  have w1: "vm_wf (rpushed (vm_ip vm) ?vm)" "rets (rpushed (vm_ip vm) ?vm) = vm_ip vm # rets vm"
    using rpushed_list [OF wf(1)] wf(2,6) assms(6) by simp_all
  have "reading E F L W ?vm1" "tokens (input ?vm1) = tokens txt" "vm_ip ?vm1 = L"
      "length (data ?vm1) + length vs \<le> st_size (vm_dataStack ?vm1)"
    using assms(1,4,5,8) w1(1) by (simp_all add: reading_def tib_ok_def input_def rpushed_def ficlVmPushTib_def)
  from numbers_run [OF assms(7) this(1,3,2,4)]
  obtain vm2 where v2: "inner_run E ?vm1 = Some (Throw (FICL_VM_STATUS_OUT_OF_TEXT, vm2))" "vm_wf vm2"
      "data vm2 = rev vs @ data vm" "rets vm2 = vm_ip vm # rets vm" "vm_dict vm2 = vm_dict vm"
    using w1(2) by (auto simp: ficlVmPushTib_def)
  have "text_run E L ?vm = Some (Throw (FICL_VM_STATUS_OUT_OF_TEXT, vm2))"
    using push v2(1) wf(5) by (simp add: text_run_def ficlVmInnerLoop_def)
  moreover have "text_end FICL_VM_STATUS_OUT_OF_TEXT vm2 = Ok (FICL_VM_STATUS_OUT_OF_TEXT, (rdrop 1 vm2)\<lparr>vm_ip := vm_ip vm\<rparr>)"
    using pop_ip_data [OF v2(2,4)] by (simp add: text_end_def FICL_VM_STATUS_OUT_OF_TEXT_def FICL_VM_STATUS_RESTART_def)
  moreover have "rets (rdrop 1 vm2) = rets vm" "data (rdrop 1 vm2) = data vm2"
    using rdrop_list [OF v2(2), of 1] v2(4) by simp_all
  ultimately show ?thesis
    using v2(3,5) by (simp add: ficlVmExecuteString_def ficlVmPopTib_def)
qed

end
