(* ===== verification/Ficl_Exceptions.thy ===== *)
theory Ficl_Exceptions
  imports Ficl_Outer
begin

section \<open>Executing words and catching exceptions\<close>

text \<open>
  The primitives of \<open>ficl/primitives.c\<close> that run other code: \<open>execute\<close>, \<open>evaluate\<close>, \<open>throw\<close>, \<open>catch\<close>,
  \<open>quit\<close>, \<open>abort\<close> and the exit from the inner loop.

  \<open>catch\<close> saves the structures of the machine and of the stacks by \<open>memcpy\<close> and writes them back when
  an exception arrives. The structure of a stack ends with its first cell, so that this cell is
  saved with it; the other cells stay as they are. The structure of the machine holds the user
  variables. The system with its dictionaries is only pointed to and is not restored.

  The laws say what \<open>catch\<close> leaves of the machine after an exception of any word, in full for
  \<open>throw\<close>, and after a word that returns.
\<close>

definition FICL_USER_CELLS :: nat where
  "FICL_USER_CELLS = 1024"

definition ficlPrimitiveExecute :: "fth_env \<Rightarrow> ficlVm \<Rightarrow> ficlVm vm_result option" where
  "ficlPrimitiveExecute E vm = then_run (FICL_STACK_CHECK vm 1 0 (ficlVmPop vm)) (\<lambda>(word, vm). ficlVmInnerLoop E vm word)"

definition ficlPrimitiveQuit :: "ficlVm \<Rightarrow> ficlVm vm_result" where
  "ficlPrimitiveQuit vm = ficlVmThrow vm FICL_VM_STATUS_QUIT"

definition ficlPrimitiveAbort :: "ficlVm \<Rightarrow> ficlVm vm_result" where
  "ficlPrimitiveAbort vm = ficlVmThrow vm FICL_VM_STATUS_ABORT"

definition ficlPrimitiveExitInner :: "ficlVm \<Rightarrow> ficlVm vm_result" where
  "ficlPrimitiveExitInner vm = ficlVmThrow vm FICL_VM_STATUS_INNER_EXIT"

definition ficlPrimitiveThrow :: "ficlVm \<Rightarrow> ficlVm vm_result" where
  "ficlPrimitiveThrow vm = bind_outcome (ficlVmPop vm) (\<lambda>(c, vm).
     let except = c_int c in if except \<noteq> 0 then ficlVmThrow vm except else Ok vm)"

text \<open>The text at an address of the memory.\<close>

definition text_at :: "ficlVm \<Rightarrow> addr \<Rightarrow> cell \<Rightarrow> string vm_result" where
  "text_at vm p n = (case load_bytes (d_bytes (vm_dict vm)) p (unat n) of None \<Rightarrow> Fault | Some bs \<Rightarrow> Ok (map byte_char bs))"

definition ficlPrimitiveEvaluate :: "fth_env \<Rightarrow> addr \<Rightarrow> ficlVm \<Rightarrow> ficlVm vm_result option" where
  "ficlPrimitiveEvaluate E interpreterLoop vm =
     then_run (FICL_STACK_CHECK vm 2 0 (bind_outcome (ficlVmPop vm) (\<lambda>(n, vm). bind_outcome (ficlVmPop vm) (\<lambda>(p, vm).
         bind_outcome (text_at vm p n) (\<lambda>s. Ok (s, vm)))))) (\<lambda>(s, vm).
       let ident = vm_sourceId vm
       in Option.bind (ficlVmExecuteString E interpreterLoop (vm\<lparr>vm_sourceId := -1\<rparr>) s) (\<lambda>r. then_run r (\<lambda>(result, vm).
            let vm = vm\<lparr>vm_sourceId := ident\<rparr>
            in Some (if result \<noteq> FICL_VM_STATUS_OUT_OF_TEXT then ficlVmThrow vm result else Ok vm))))"

subsection \<open>Catch\<close>

definition copied_stack :: "ficlStack \<Rightarrow> ficlStack \<Rightarrow> ficlStack" where
  "copied_stack copy stack = copy\<lparr>st_cells := (st_cells stack)(0 := st_cells copy 0)\<rparr>"

definition copied_user :: "ficlVm \<Rightarrow> ficlVm \<Rightarrow> ficlDictionary" where
  "copied_user copy vm = set_bytes (\<lambda>p. if unat (p - vm_user copy) < 8 * FICL_USER_CELLS
     then d_bytes (vm_dict copy) p else d_bytes (vm_dict vm) p) (vm_dict vm)"

definition copied_vm :: "ficlVm \<Rightarrow> ficlVm \<Rightarrow> ficlVm" where
  "copied_vm vmCopy vm =
     vmCopy\<lparr>vm_dict := copied_user vmCopy vm, vm_locals := vm_locals vm, vm_localsCount := vm_localsCount vm,
            vm_localsFixup := vm_localsFixup vm,
            vm_dataStack := copied_stack (vm_dataStack vmCopy) (vm_dataStack vm),
            vm_returnStack := copied_stack (vm_returnStack vmCopy) (vm_returnStack vm)\<rparr>"

definition catch_run :: "fth_env \<Rightarrow> addr \<Rightarrow> ficlVm \<Rightarrow> addr \<Rightarrow> ficlVm vm_result option" where
  "catch_run E exitInnerWord vm word =
     then_run (ficlVmPushIP vm exitInnerWord) (\<lambda>vm.
       Option.bind (ficlVmInnerLoop E vm word) (\<lambda>r. then_run r (\<lambda>vm. ficlVmInnerLoop E vm NULL)))"

definition catch_end :: "ficlVm \<Rightarrow> int \<Rightarrow> ficlVm \<Rightarrow> ficlVm vm_result" where
  "catch_end vmCopy except vm =
     (if except = FICL_VM_STATUS_INNER_EXIT
      then bind_outcome (ficlVmPopIP vm) (\<lambda>vm. ficlVmPush vm 0)
      else ficlVmPush (copied_vm vmCopy vm) (of_int except))"

definition ficlPrimitiveCatch :: "fth_env \<Rightarrow> addr \<Rightarrow> ficlVm \<Rightarrow> ficlVm vm_result option" where
  "ficlPrimitiveCatch E exitInnerWord vm =
     then_run (FICL_STACK_CHECK vm 1 0 (ficlVmPop vm)) (\<lambda>(word, vmCopy).
       map_option (\<lambda>r. case r of
           Ok vm \<Rightarrow> Ok vm
         | Throw (except, vm) \<Rightarrow> catch_end vmCopy except vm
         | Fault \<Rightarrow> Fault)
       (catch_run E exitInnerWord vmCopy word))"

subsection \<open>What is left on the stack\<close>

lemma check_pop:
  assumes "vm_wf vm" and "data vm = c # cs"
  shows "FICL_STACK_CHECK vm 1 0 (ficlVmPop vm) = Ok (c, ddrop 1 vm)"
  using check_one [OF assms] ficlVmPop_data [OF assms] by simp

text \<open>The stack after an exception: as deep as it was, with the cells that it holds by then.\<close>

lemma copied_stack_wf: "stack_wf copy \<Longrightarrow> stack_wf (copied_stack copy stack)"
  by (simp add: stack_wf_def copied_stack_def)

lemma copied_stack_length: "length (stack_list (copied_stack copy stack)) = length (stack_list copy)"
  by (simp add: stack_list_def copied_stack_def)

lemma copied_stack_same:
  assumes "\<forall>i. 0 \<le> i \<longrightarrow> i \<le> st_top copy \<longrightarrow> st_cells stack i = st_cells copy i"
  shows "stack_list (copied_stack copy stack) = stack_list copy"
  unfolding stack_list_def copied_stack_def using assms by (auto intro!: stk_list_cong)

lemma copied_vm_wf: "vm_wf copy \<Longrightarrow> vm_wf (copied_vm copy vm)"
  by (simp add: vm_wf_def copied_vm_def copied_stack_wf) (simp add: copied_stack_def)

text \<open>What \<open>catch\<close> restores of the machine.\<close>

definition restored :: "ficlVm \<Rightarrow> ficlVm \<Rightarrow> bool" where
  "restored vm vm' = (vm_ip vm' = vm_ip vm \<and> vm_runningWord vm' = vm_runningWord vm \<and> vm_state vm' = vm_state vm \<and>
     vm_base vm' = vm_base vm \<and> vm_tib vm' = vm_tib vm \<and> vm_sourceId vm' = vm_sourceId vm \<and>
     vm_gc_frame_level vm' = vm_gc_frame_level vm \<and> vm_fth_catch_p vm' = vm_fth_catch_p vm \<and> vm_pad vm' = vm_pad vm \<and>
     vm_pad_eval vm' = vm_pad_eval vm \<and> vm_restart vm' = vm_restart vm \<and> vm_user vm' = vm_user vm \<and>
     vm_gc_word vm' = vm_gc_word vm \<and> vm_gc_inst vm' = vm_gc_inst vm \<and>
     length (data vm') = length (data vm) \<and> length (rets vm') = length (rets vm))"

lemma catch_copied:
  assumes "vm_wf vm" and "data vm = xt # ds" and "catch_run E X (ddrop 1 vm) xt = Some (Throw (e, vm1))"
    and "e \<noteq> FICL_VM_STATUS_INNER_EXIT"
  shows "ficlPrimitiveCatch E X vm = Some (Ok (dpushed (of_int e) (copied_vm (ddrop 1 vm) vm1)))"
    and "vm_wf (dpushed (of_int e) (copied_vm (ddrop 1 vm) vm1))"
    and "data (dpushed (of_int e) (copied_vm (ddrop 1 vm) vm1)) =
      of_int e # stack_list (copied_stack (vm_dataStack (ddrop 1 vm)) (vm_dataStack vm1))"
    and "restored vm (dpushed (of_int e) (copied_vm (ddrop 1 vm) vm1))"
proof -
  let ?c = "copied_vm (ddrop 1 vm) vm1"
  have d: "vm_wf (ddrop 1 vm)" "data (ddrop 1 vm) = ds" using ddrop_list [OF assms(1), of 1] assms(2) by simp_all
  have c: "vm_wf ?c" "data ?c = stack_list (copied_stack (vm_dataStack (ddrop 1 vm)) (vm_dataStack vm1))"
    using copied_vm_wf [OF d(1)] by (simp_all add: copied_vm_def)
  have "st_size (vm_dataStack ?c) = st_size (vm_dataStack vm)" by (simp add: copied_vm_def copied_stack_def ddrop_def)
  moreover have "length (data vm) \<le> st_size (vm_dataStack vm)" using assms(1) stack_wf_length by (auto simp: vm_wf_def)
  ultimately have room: "length (data ?c) < st_size (vm_dataStack ?c)"
    using c(2) d(2) assms(2) copied_stack_length [of "vm_dataStack (ddrop 1 vm)" "vm_dataStack vm1"] by simp
  show "ficlPrimitiveCatch E X vm = Some (Ok (dpushed (of_int e) ?c))"
    using assms(3,4) check_pop [OF assms(1,2)] ficlVmPush_data [OF c(1) room] by (simp add: ficlPrimitiveCatch_def catch_end_def)
  show p: "vm_wf (dpushed (of_int e) ?c)" "data (dpushed (of_int e) ?c) = of_int e # stack_list (copied_stack (vm_dataStack (ddrop 1 vm)) (vm_dataStack vm1))"
    using dpushed_list [OF c(1) room] c(2) by simp_all
  then show "restored vm (dpushed (of_int e) ?c)"
    using d(2) assms(2) copied_stack_length [of "vm_dataStack (ddrop 1 vm)" "vm_dataStack vm1"]
      copied_stack_length [of "vm_returnStack (ddrop 1 vm)" "vm_returnStack vm1"]
    by (simp add: restored_def) (simp add: dpushed_def copied_vm_def ddrop_def)
qed

text \<open>
  The cells of a stack after an exception: as many as were saved, the lowest one as it was saved,
  the others as the throwing word has left them.
\<close>

definition caught_cells :: "cell list \<Rightarrow> ficlStack \<Rightarrow> cell list" where
  "caught_cells saved s = rev (map (\<lambda>i. if i = 0 then last saved else st_cells s (int i)) [0..<length saved])"

lemma caught_cells_same:
  assumes "\<And>i. 0 < i \<Longrightarrow> i < length saved \<Longrightarrow> st_cells s (int i) = rev saved ! i"
  shows "caught_cells saved s = saved"
proof -
  have "map (\<lambda>i. if i = 0 then last saved else st_cells s (int i)) [0..<length saved] = rev saved"
  proof (rule nth_equalityI)
    fix i assume "i < length (map (\<lambda>i. if i = 0 then last saved else st_cells s (int i)) [0..<length saved])"
    then show "map (\<lambda>i. if i = 0 then last saved else st_cells s (int i)) [0..<length saved] ! i = rev saved ! i"
      using assms [of i] by (cases "i = 0") (auto simp: rev_nth last_conv_nth)
  qed simp
  then show ?thesis by (simp add: caught_cells_def)
qed

lemma copied_stack_cells:
  assumes "stack_wf copy"
  shows "stack_list (copied_stack copy s) = caught_cells (stack_list copy) s"
proof (rule nth_equalityI)
  show "length (stack_list (copied_stack copy s)) = length (caught_cells (stack_list copy) s)"
    by (simp add: copied_stack_length caught_cells_def)
next
  fix j assume "j < length (stack_list (copied_stack copy s))"
  then have j: "j < length (stack_list copy)" by (simp add: copied_stack_length)
  let ?n = "length (stack_list copy)"
  have t: "st_top copy = int ?n - 1" using assms by (simp add: stack_list_def stack_wf_def)
  have nth: "stk_list c (st_top copy) ! j = c (int (?n - Suc j))" if "j < ?n" for c j
  proof -
    have e: "st_top copy - int j = int (?n - Suc j)" using that t by linarith
    have "stk_list c (st_top copy) ! j = c (st_top copy - int j)" using that t by (intro stk_list_nth) auto
    then show ?thesis unfolding e .
  qed
  have "last (stack_list copy) = stack_list copy ! (?n - 1)" using j by (subst last_conv_nth) auto
  also have "\<dots> = st_cells copy 0"
    using j nth [of "?n - 1" "st_cells copy"] by (simp add: stack_list_def)
  finally have l: "last (stack_list copy) = st_cells copy 0" .
  have "stack_list (copied_stack copy s) ! j = ((st_cells s)(0 := st_cells copy 0)) (int (?n - Suc j))"
    using nth [OF j, of "(st_cells s)(0 := st_cells copy 0)"] by (simp add: stack_list_def copied_stack_def)
  also have "\<dots> = caught_cells (stack_list copy) s ! j"
    using j l by (auto simp: caught_cells_def rev_nth)
  finally show "stack_list (copied_stack copy s) ! j = caught_cells (stack_list copy) s ! j" .
qed

text \<open>
  \<open>catch\<close> of a word that throws, whatever the word has done before: the stacks, the restored machine,
  and the memory, in which only the user variables are written back.
\<close>

lemma catch_any:
  assumes "vm_wf vm" and "data vm = xt # ds" and "catch_run E X (ddrop 1 vm) xt = Some (Throw (e, vm1))"
    and "e \<noteq> FICL_VM_STATUS_INNER_EXIT"
  shows "\<exists>vm'. ficlPrimitiveCatch E X vm = Some (Ok vm') \<and> vm_wf vm' \<and> restored vm vm' \<and>
    data vm' = of_int e # caught_cells ds (vm_dataStack vm1) \<and> rets vm' = caught_cells (rets vm) (vm_returnStack vm1) \<and>
    vm_dict vm' = set_bytes (\<lambda>p. if unat (p - vm_user vm) < 8 * FICL_USER_CELLS then d_bytes (vm_dict vm) p
      else d_bytes (vm_dict vm1) p) (vm_dict vm1)"
proof -
  have d: "vm_wf (ddrop 1 vm)" "data (ddrop 1 vm) = ds" "rets (ddrop 1 vm) = rets vm"
    using ddrop_list [OF assms(1), of 1] assms(2) by simp_all
  note w = d(1) [unfolded vm_wf_def]
  have "rets (dpushed (of_int e) (copied_vm (ddrop 1 vm) vm1)) = caught_cells (rets vm) (vm_returnStack vm1)"
    using copied_stack_cells [of "vm_returnStack (ddrop 1 vm)" "vm_returnStack vm1"] w d(3)
    by (simp add: copied_vm_def dpushed_def)
  moreover have "vm_dict (dpushed (of_int e) (copied_vm (ddrop 1 vm) vm1)) =
      set_bytes (\<lambda>p. if unat (p - vm_user vm) < 8 * FICL_USER_CELLS then d_bytes (vm_dict vm) p
        else d_bytes (vm_dict vm1) p) (vm_dict vm1)"
    by (simp add: copied_vm_def copied_user_def dpushed_def ddrop_def cong: if_cong)
  ultimately show ?thesis
    using catch_copied [OF assms] copied_stack_cells [of "vm_dataStack (ddrop 1 vm)" "vm_dataStack vm1"] w d(2)
    by auto
qed

text \<open>A word whose C function is the given primitive.\<close>

definition primitive_word :: "fth_env \<Rightarrow> ficlDictionary \<Rightarrow> addr \<Rightarrow> (ficlVm \<Rightarrow> ficlVm vm_result) \<Rightarrow> bool" where
  "primitive_word E d W f = (W \<noteq> NULL \<and> inner_switch E W W = None \<and>
     (\<exists>w. words (d_heap d) W = Some w \<and> ficlInstructionLast \<le> w_code w \<and> primitive_code E (w_code w) = f))"

lemma primitive_word_exec:
  assumes "primitive_word E (vm_dict vm) W f"
  shows "exec_word E W vm = Some (bind_outcome (inner_handler (vm\<lparr>vm_runningWord := W\<rparr>) (f (vm\<lparr>vm_runningWord := W\<rparr>))) continue)"
  using assms by (auto simp: primitive_word_def not_less [symmetric] exec_word_def exec_default_def FICL_FW_CHECK_def call_c_def)

lemma primitive_word_runs:
  assumes "primitive_word E (vm_dict vm) W f"
  shows "ficlVmInnerLoop E vm W = Some (inner_handler (vm\<lparr>vm_runningWord := W\<rparr>) (f (vm\<lparr>vm_runningWord := W\<rparr>)))"
proof -
  let ?r = "inner_handler (vm\<lparr>vm_runningWord := W\<rparr>) (f (vm\<lparr>vm_runningWord := W\<rparr>))"
  have "bind_outcome (bind_outcome ?r continue) (\<lambda>n. case n of Continue vm \<Rightarrow> Ok vm | Return vm \<Rightarrow> Ok vm) = ?r"
    by (cases ?r) (simp_all add: continue_def)
  then show ?thesis
    using primitive_word_exec [OF assms] assms by (simp add: ficlVmInnerLoop_def primitive_word_def)
qed

lemma catch_throw:
  assumes "vm_wf vm" and "data vm = xt # n # ds" and "primitive_word E (vm_dict vm) xt ficlPrimitiveThrow"
    and "c_int n \<noteq> 0" and "c_int n \<noteq> FICL_VM_STATUS_INNER_EXIT" and "length (rets vm) < st_size (vm_returnStack vm)"
  shows "\<exists>vm'. ficlPrimitiveCatch E X vm = Some (Ok vm') \<and> vm_wf vm' \<and> data vm' = of_int (c_int n) # n # ds \<and>
    rets vm' = rets vm \<and> restored vm vm'"
proof -
  let ?vm = "ddrop 1 vm"
  have d: "vm_wf ?vm" "data ?vm = n # ds" "rets ?vm = rets vm" using ddrop_list [OF assms(1), of 1] assms(2) by simp_all
  let ?p = "(rpushed (vm_ip ?vm) ?vm)\<lparr>vm_ip := X\<rparr>"
  have push: "ficlVmPushIP ?vm X = Ok ?p" using push_ip_data [OF d(1)] assms(6) d(3) by (simp add: ddrop_def)
  let ?q = "?p\<lparr>vm_runningWord := xt\<rparr>"
  have q: "vm_wf ?q" "data ?q = n # ds"
    using rpushed_list [OF d(1), of "vm_ip ?vm"] assms(6) d(2,3) by (simp_all add: vm_wf_def ddrop_def rpushed_def)
  have "primitive_word E (vm_dict ?p) xt ficlPrimitiveThrow" using assms(3) by (simp add: rpushed_def ddrop_def)
  from primitive_word_runs [OF this]
  have run: "catch_run E X ?vm xt = Some (Throw (c_int n, LOCAL_VARIABLE_SPILL ?q (ddrop 1 ?q)))"
    using push ficlVmPop_data [OF q] assms(4) by (simp add: catch_run_def ficlPrimitiveThrow_def ficlVmThrow_def)
  define r where "r = LOCAL_VARIABLE_SPILL ?q (ddrop 1 ?q)"
  have cells: "st_cells (vm_dataStack r) = st_cells (vm_dataStack ?vm)"
      "\<forall>i. i \<le> st_top (vm_returnStack ?vm) \<longrightarrow> st_cells (vm_returnStack r) i = st_cells (vm_returnStack ?vm) i"
    by (simp_all add: r_def LOCAL_VARIABLE_SPILL_def ddrop_def rpushed_def)
  note c = catch_copied [OF assms(1,2) run [folded r_def] assms(5)]
  have "stack_list (copied_stack (vm_dataStack ?vm) (vm_dataStack r)) = data ?vm"
    by (rule copied_stack_same) (simp only: cells(1) simp_thms)
  moreover have "stack_list (copied_stack (vm_returnStack ?vm) (vm_returnStack r)) = rets ?vm"
    using cells(2) by (intro copied_stack_same) blast
  ultimately show ?thesis using c d(2,3) by (auto simp: copied_vm_def)
qed

text \<open>
  A word that returns: the loop has come back to the cell of the exit word, and the address under
  it is the one that \<open>catch\<close> has put there.
\<close>

lemma catch_returns:
  assumes "vm_wf vm" and "data vm = xt # ds" and "length (rets vm) < st_size (vm_returnStack vm)"
    and "ficlVmInnerLoop E ((rpushed (vm_ip vm) (ddrop 1 vm))\<lparr>vm_ip := X\<rparr>) xt = Some (Ok vm1)" and "reaches E vm1 vm2"
    and "vm_ip vm2 = X" and "load_cell (d_bytes (vm_dict vm2)) X = Some W" and "X \<noteq> NULL"
    and "primitive_word E (vm_dict vm2) W ficlPrimitiveExitInner"
    and "vm_wf vm2" and "rets vm2 = vm_ip vm # rets vm" and "length (data vm2) < st_size (vm_dataStack vm2)"
  shows "\<exists>vm'. ficlPrimitiveCatch E X vm = Some (Ok vm') \<and> vm_wf vm' \<and> data vm' = 0 # data vm2 \<and> rets vm' = rets vm \<and>
    vm_ip vm' = vm_ip vm \<and> vm_dict vm' = vm_dict vm2"
proof -
  let ?vm = "ddrop 1 vm"
  have d: "vm_wf ?vm" "data ?vm = ds" "rets ?vm = rets vm" using ddrop_list [OF assms(1), of 1] assms(2) by simp_all
  have push: "ficlVmPushIP ?vm X = Ok ((rpushed (vm_ip vm) ?vm)\<lparr>vm_ip := X\<rparr>)"
    using push_ip_data [OF d(1)] assms(3) d(3) by (simp add: ddrop_def)
  let ?q = "vm2\<lparr>vm_ip := X + 8\<rparr>"
  have "exec_word E W ?q = Some (Throw (FICL_VM_STATUS_INNER_EXIT, LOCAL_VARIABLE_SPILL (?q\<lparr>vm_runningWord := W\<rparr>) (?q\<lparr>vm_runningWord := W\<rparr>)))"
    using primitive_word_exec [of E ?q W] assms(9) by (simp add: ficlPrimitiveExitInner_def ficlVmThrow_def)
  then have "inner_step E vm2 = Some (Throw (FICL_VM_STATUS_INNER_EXIT, LOCAL_VARIABLE_SPILL (?q\<lparr>vm_runningWord := W\<rparr>) (?q\<lparr>vm_runningWord := W\<rparr>)))"
    using assms(6-8) by (simp add: inner_step_def d_load_cell_def)
  then have "inner_run E vm2 = Some (Throw (FICL_VM_STATUS_INNER_EXIT, LOCAL_VARIABLE_SPILL (?q\<lparr>vm_runningWord := W\<rparr>) (?q\<lparr>vm_runningWord := W\<rparr>)))"
    by (subst inner_run.simps) simp
  moreover have "LOCAL_VARIABLE_SPILL v v = v" for v by (simp add: LOCAL_VARIABLE_SPILL_def)
  ultimately have run: "catch_run E X ?vm xt = Some (Throw (FICL_VM_STATUS_INNER_EXIT, ?q\<lparr>vm_runningWord := W\<rparr>))"
    using push assms(4) reaches_inner_run [OF assms(5)] by (simp add: catch_run_def ficlVmInnerLoop_def [of _ _ NULL])
  let ?r = "?q\<lparr>vm_runningWord := W\<rparr>"
  have r: "vm_wf ?r" "rets ?r = vm_ip vm # rets vm" using assms(10,11) by (simp_all add: vm_wf_def)
  let ?s = "(rdrop 1 ?r)\<lparr>vm_ip := vm_ip vm\<rparr>"
  have s: "vm_wf ?s" "rets ?s = rets vm" "data ?s = data vm2" "st_size (vm_dataStack ?s) = st_size (vm_dataStack vm2)"
    using rdrop_list [OF r(1), of 1] r(2) by simp_all
  have "ficlVmPush ?s 0 = Ok (dpushed 0 ?s)" using ficlVmPush_data [OF s(1)] assms(12) s(3,4) by simp
  then have "ficlPrimitiveCatch E X vm = Some (Ok (dpushed 0 ?s))"
    using run check_pop [OF assms(1,2)] pop_ip_data [OF r] by (simp add: ficlPrimitiveCatch_def catch_end_def)
  moreover have "vm_wf (dpushed 0 ?s)" "data (dpushed 0 ?s) = 0 # data vm2" "rets (dpushed 0 ?s) = rets vm"
    using dpushed_list [OF s(1)] assms(12) s by (simp_all add: dpushed_def)
  moreover have "vm_ip (dpushed 0 ?s) = vm_ip vm" "vm_dict (dpushed 0 ?s) = vm_dict vm2" by (simp_all add: dpushed_def rdrop_def)
  ultimately show ?thesis by blast
qed

end
