(* ===== verification/Ficl_Primitives.thy ===== *)
theory Ficl_Primitives
  imports Ficl_Exceptions
begin

section \<open>Primitives\<close>

text \<open>
  Words of \<open>ficl/primitives.c\<close> in the order of the file: defining words, comments, flags of the last word,
  string literals, pictured numbers, conversion of digits, characters, searching and
  mixed arithmetic. Output, floating point and the words that hand out the address of a field of
  the machine are left out.

  The address of the scratch area, which some words push, is an argument; its contents are the
  field \<open>vm_pad\<close>. A counted string is a cell with the length and the characters, in the
  memory of the dictionary and in the scratch area alike. Numbers of type \<open>ficl2Integer\<close> are
  read and written through the object system, as the environment says.
\<close>

subsection \<open>Cells of the stack\<close>

definition pop_cell :: "(cell \<Rightarrow> 'a cont) \<Rightarrow> 'a cont" where
  "pop_cell k vm = bind_outcome (ficlVmPop vm) (\<lambda>(c, vm). k c vm)"

definition push_cell :: "cell \<Rightarrow> 'a cont \<Rightarrow> 'a cont" where
  "push_cell c k vm = bind_outcome (ficlVmPush vm c) k"

definition checked :: "int \<Rightarrow> int \<Rightarrow> 'a cont \<Rightarrow> 'a cont" where
  "checked pop push k vm = FICL_STACK_CHECK vm pop push (k vm)"

definition pop_2integer :: "fth_env \<Rightarrow> (int \<Rightarrow> 'a cont) \<Rightarrow> 'a cont" where
  "pop_2integer E k vm = vm_lift vm (stk_get (vm_dataStack vm) 0) (\<lambda>c. vm_lift vm (CELL_LONG_REF E c) (\<lambda>d. k d (ddrop 1 vm)))"

definition pop_2unsigned :: "fth_env \<Rightarrow> (cell \<Rightarrow> 'a cont) \<Rightarrow> 'a cont" where
  "pop_2unsigned E k vm = vm_lift vm (stk_get (vm_dataStack vm) 0) (\<lambda>c. vm_lift vm (CELL_ULONG_REF E c) (\<lambda>d. k d (ddrop 1 vm)))"

definition push_2integer :: "fth_env \<Rightarrow> int \<Rightarrow> 'a cont \<Rightarrow> 'a cont" where
  "push_2integer E di = push_cell (if FIXABLE_P di then of_int di else fth_make_llong E di)"

text \<open>The test is on the value as a signed number.\<close>

definition push_2unsigned :: "fth_env \<Rightarrow> cell \<Rightarrow> 'a cont \<Rightarrow> 'a cont" where
  "push_2unsigned E ud = push_cell (if sint ud \<le> 2 ^ 62 - 1 then ud else fth_make_ullong E ud)"

definition finished :: "ficlVm cont" where
  "finished vm = Ok vm"

subsection \<open>Defining words\<close>

definition ficlPrimitiveConstant :: "ficlVm \<Rightarrow> ficlVm vm_result" where
  "ficlPrimitiveConstant vm = bind_outcome (ficlVmGetWord vm) (\<lambda>(s, vm). checked 1 0 (pop_cell (\<lambda>c vm.
     vm_lift vm (ficlDictionaryAppendConstantInstruction (vm_dict vm) s ficlInstructionConstantParen (sint c)) (\<lambda>(word, d).
       Ok (vm\<lparr>vm_dict := d\<rparr>)))) vm)"

definition append_word :: "string \<Rightarrow> cell \<Rightarrow> cell \<Rightarrow> (addr \<Rightarrow> 'a cont) \<Rightarrow> 'a cont" where
  "append_word s code flags k vm =
     vm_lift vm (ficlDictionaryAppendWord (vm_dict vm) s code flags) (\<lambda>(word, d). k word (vm\<lparr>vm_dict := d\<rparr>))"

definition ficlPrimitiveVariable :: "ficlVm \<Rightarrow> ficlVm vm_result" where
  "ficlPrimitiveVariable vm = bind_outcome (ficlVmGetWord vm) (\<lambda>(s, vm).
     append_word s ficlInstructionVariableParen FICL_WORD_DEFAULT (\<lambda>_ vm. ficlVmDictionaryAllotCells vm 1) vm)"

definition ficlPrimitiveCreate :: "ficlVm \<Rightarrow> ficlVm vm_result" where
  "ficlPrimitiveCreate vm = bind_outcome (ficlVmGetWord vm) (\<lambda>(s, vm).
     append_word s ficlInstructionCreateParen FICL_WORD_DEFAULT (\<lambda>_ vm. ficlVmDictionaryAllotCells vm 1) vm)"

definition ficlPrimitiveUser :: "ficlVm \<Rightarrow> ficlVm vm_result" where
  "ficlPrimitiveUser vm = bind_outcome (ficlVmGetWord vm) (\<lambda>(s, vm). checked 1 0 (pop_cell (\<lambda>c vm.
     if sint c \<ge> int FICL_USER_CELLS then ficlVmThrowError vm
     else append_word s ficlInstructionUserParen FICL_WORD_DEFAULT (\<lambda>_. in_dict (\<lambda>d. ficlDictionaryAppendInteger d (sint c))) vm)) vm)"

definition ficlPrimitiveColonNoName :: "tags \<Rightarrow> ficlVm \<Rightarrow> ficlVm vm_result" where
  "ficlPrimitiveColonNoName T vm =
     append_word [] ficlInstructionColonParen (FICL_WORD_DEFAULT OR FICL_WORD_SMUDGED)
       (\<lambda>word. push_cell word (\<lambda>vm. markControlTag T vm colonTag)) (vm\<lparr>vm_state := FICL_VM_STATE_COMPILE\<rparr>)"

definition ficlPrimitiveRecurseCoIm :: "ficlVm \<Rightarrow> ficlVm vm_result" where
  "ficlPrimitiveRecurseCoIm = in_dict (\<lambda>d. ficlDictionaryAppendPointer d (d_smudge d))"

definition ficlPrimitiveDepth :: "ficlVm \<Rightarrow> ficlVm vm_result" where
  "ficlPrimitiveDepth = checked 0 1 (\<lambda>vm. push_cell (of_int (STKDEPTH (vm_dataStack vm))) finished vm)"

definition ficlPrimitiveDecimal :: "ficlVm \<Rightarrow> ficlVm" where
  "ficlPrimitiveDecimal vm = vm\<lparr>vm_base := 10\<rparr>"

definition ficlPrimitiveHex :: "ficlVm \<Rightarrow> ficlVm" where
  "ficlPrimitiveHex vm = vm\<lparr>vm_base := 16\<rparr>"

definition ficlPrimitiveLeftBracketCoIm :: "ficlVm \<Rightarrow> ficlVm" where
  "ficlPrimitiveLeftBracketCoIm vm = vm\<lparr>vm_state := FICL_VM_STATE_INTERPRET\<rparr>"

definition ficlPrimitiveRightBracket :: "ficlVm \<Rightarrow> ficlVm" where
  "ficlPrimitiveRightBracket vm = vm\<lparr>vm_state := FICL_VM_STATE_COMPILE\<rparr>"

definition ficlPrimitiveAllot :: "ficlVm \<Rightarrow> ficlVm vm_result" where
  "ficlPrimitiveAllot = checked 1 0 (pop_cell (\<lambda>c vm.
     bind_outcome (ficlVmDictionaryCheck vm (vm_dict vm) (c_int c)) (\<lambda>_. ficlVmDictionaryAllot vm (c_int c))))"

definition ficlPrimitiveHere :: "ficlVm \<Rightarrow> ficlVm vm_result" where
  "ficlPrimitiveHere = checked 0 1 (\<lambda>vm. push_cell (d_here (vm_dict vm)) finished vm)"

definition ficlPrimitiveUnused :: "ficlVm \<Rightarrow> ficlVm vm_result" where
  "ficlPrimitiveUnused = checked 0 1 (\<lambda>vm. push_cell (of_int (ficlDictionaryCellsAvailable (vm_dict vm))) finished vm)"

definition ficlPrimitiveAlign :: "ficlVm \<Rightarrow> ficlVm" where
  "ficlPrimitiveAlign vm = vm\<lparr>vm_dict := ficlDictionaryAlign (vm_dict vm)\<rparr>"

definition ficlPrimitiveAligned :: "ficlVm \<Rightarrow> ficlVm vm_result" where
  "ficlPrimitiveAligned = checked 1 1 (pop_cell (\<lambda>p. push_cell (ficlAlignPointer p) finished))"

subsection \<open>Words as values\<close>

text \<open>\<open>None\<close> is a search that does not end.\<close>

definition lookup :: "string \<Rightarrow> (addr \<Rightarrow> ficlVm \<Rightarrow> 'a vm_result) \<Rightarrow> ficlVm \<Rightarrow> 'a vm_result option" where
  "lookup name k vm = map_option (\<lambda>r. vm_lift vm r (\<lambda>word. k word vm)) (ficlDictionaryLookup (vm_dict vm) name)"

definition ficlPrimitiveTick :: "ficlVm \<Rightarrow> ficlVm vm_result option" where
  "ficlPrimitiveTick vm = then_run (bind_outcome (ficlVmGetWord vm) (\<lambda>(name, vm). checked 0 1 (\<lambda>vm. Ok (name, vm)) vm)) (\<lambda>(name, vm).
     lookup name (\<lambda>word vm. if word \<noteq> NULL then ficlVmPush vm word else ficlVmThrowException vm FICL_VM_STATUS_UNDEFINED) vm)"

definition ficlPrimitiveBracketTickCoIm :: "ficlVm \<Rightarrow> ficlVm vm_result option" where
  "ficlPrimitiveBracketTickCoIm vm = map_option (\<lambda>r. bind_outcome r ficlPrimitiveLiteralIm) (ficlPrimitiveTick vm)"

definition ficl_tick_stateless_im :: "ficlVm \<Rightarrow> ficlVm vm_result option" where
  "ficl_tick_stateless_im vm = map_option (\<lambda>r. bind_outcome r (\<lambda>vm.
     if vm_state vm = FICL_VM_STATE_COMPILE then ficlPrimitiveLiteralIm vm else Ok vm)) (ficlPrimitiveTick vm)"

definition ficl_postpone_none_im :: "(cell \<Rightarrow> cell) \<Rightarrow> ficlVm \<Rightarrow> ficlVm vm_result" where
  "ficl_postpone_none_im fth_string_copy vm =
     bind_outcome (PRIMITIVE_APPEND_UNSIGNED vm ficl_word_location) (\<lambda>vm.
     bind_outcome (in_dict (\<lambda>d. ficlDictionaryAppendPointer d (d_smudge d)) vm) (\<lambda>vm.
     bind_outcome (in_dict (\<lambda>d. ficlDictionaryAppendFTH d (fth_string_copy (d_current_file d))) vm) (\<lambda>vm.
     bind_outcome (in_dict (\<lambda>d. ficlDictionaryAppendInteger d (d_current_line d)) vm) (\<lambda>vm.
       pop_cell (\<lambda>c. in_dict (\<lambda>d. ficlDictionaryAppendCell d c)) vm))))"

definition ficlPrimitivePostponeCoIm :: "(cell \<Rightarrow> cell) \<Rightarrow> addr \<Rightarrow> ficlVm \<Rightarrow> ficlVm vm_result option" where
  "ficlPrimitivePostponeCoIm fth_string_copy postpone_none_im vm = map_option (\<lambda>r. bind_outcome r (\<lambda>vm.
     vm_lift vm (stk_get (vm_dataStack vm) 0) (\<lambda>word. vm_lift vm (ficlWordIsImmediate (d_heap (vm_dict vm)) word) (\<lambda>imm.
       if imm then ficl_postpone_none_im fth_string_copy vm
       else bind_outcome (ficlPrimitiveLiteralIm vm) (in_dict (\<lambda>d. ficlDictionaryAppendPointer d postpone_none_im)))))) (ficlPrimitiveTick vm)"

definition ficlPrimitiveImmediate :: "ficlVm \<Rightarrow> ficlVm vm_result" where
  "ficlPrimitiveImmediate = in_dict ficlDictionarySetImmediate"

definition ficlPrimitiveCompileOnly :: "ficlVm \<Rightarrow> ficlVm vm_result" where
  "ficlPrimitiveCompileOnly = in_dict (\<lambda>d. ficlDictionarySetFlags d FICL_WORD_COMPILE_ONLY)"

definition ficlPrimitiveLastWord :: "ficlVm \<Rightarrow> ficlVm vm_result" where
  "ficlPrimitiveLastWord vm = ficlVmPush vm (d_smudge (vm_dict vm))"

text \<open>The first data cell that a program may use is the one behind \<open>param[0]\<close>.\<close>

definition ficlPrimitiveToBody :: "ficlVm \<Rightarrow> ficlVm vm_result" where
  "ficlPrimitiveToBody = checked 1 1 (pop_cell (\<lambda>word. push_cell (word_param word + 8) finished))"

definition sizeof_ficlWord :: nat where
  "sizeof_ficlWord = header_size + 8"

definition ficlPrimitiveFromBody :: "ficlVm \<Rightarrow> ficlVm vm_result" where
  "ficlPrimitiveFromBody = checked 1 1 (pop_cell (\<lambda>p. push_cell (p - of_nat sizeof_ficlWord) finished))"

definition do_find :: "string \<Rightarrow> addr \<Rightarrow> ficlVm \<Rightarrow> ficlVm vm_result option" where
  "do_find name returnForFailure = lookup name (\<lambda>word vm.
     if word \<noteq> NULL
     then bind_outcome (ficlVmPush vm word) (\<lambda>vm. vm_lift vm (ficlWordIsImmediate (d_heap (vm_dict vm)) word) (\<lambda>imm.
            ficlVmPush vm (if imm then 1 else -1)))
     else push_cell returnForFailure (push_cell 0 finished) vm)"

definition ficlPrimitiveCFind :: "ficlVm \<Rightarrow> ficlVm vm_result option" where
  "ficlPrimitiveCFind vm = then_run (checked 1 2 (pop_cell (\<lambda>counted vm.
       vm_lift vm (d_load_cell (vm_dict vm) counted) (\<lambda>n. bind_outcome (text_at vm (counted + 8) n) (\<lambda>name. Ok (counted, name, vm))))) vm)
     (\<lambda>(counted, name, vm). do_find name counted vm)"

definition ficlPrimitiveSFind :: "ficlVm \<Rightarrow> ficlVm vm_result option" where
  "ficlPrimitiveSFind vm = then_run (checked 2 2 (pop_cell (\<lambda>n. pop_cell (\<lambda>p vm. bind_outcome (text_at vm p n) (\<lambda>name. Ok (name, vm))))) vm)
     (\<lambda>(name, vm). do_find name NULL vm)"

subsection \<open>Comments and characters\<close>

definition eol :: "char \<Rightarrow> bool" where
  "eol c = (char_code c = 13 \<or> char_code c = 10)"

definition ficlPrimitiveBackslash :: "ficlVm \<Rightarrow> ficlVm vm_result" where
  "ficlPrimitiveBackslash vm = bind_outcome (ficlVmGetInBuf vm) (\<lambda>trace.
     let s = tib_text (vm_tib vm); stop = ficlVmGetInBufEnd vm;
         trace = trace + length (takeWhile (\<lambda>c. \<not> eol c) (drop trace s)); c = cstr_at s trace;
         trace = (if trace \<noteq> stop
                  then let trace = trace + 1
                       in if trace \<noteq> stop \<and> c \<noteq> cstr_at s trace \<and> eol (cstr_at s trace) then trace + 1 else trace
                  else trace)
     in Ok (ficlVmUpdateTib vm trace))"

definition ficlPrimitiveParenthesis :: "ficlVm \<Rightarrow> ficlVm vm_result" where
  "ficlPrimitiveParenthesis vm = bind_outcome (ficlVmParseStringEx vm CHR '')'' False) (\<lambda>(_, vm). Ok vm)"

definition ficlPrimitiveChar :: "ficlVm \<Rightarrow> ficlVm vm_result" where
  "ficlPrimitiveChar = checked 0 1 (\<lambda>vm. bind_outcome (ficlVmGetWord vm) (\<lambda>(s, vm). push_cell (of_int (schar (cstr_at s 0))) finished vm))"

definition ficlPrimitiveCharCoIm :: "ficlVm \<Rightarrow> ficlVm vm_result" where
  "ficlPrimitiveCharCoIm vm = bind_outcome (ficlPrimitiveChar vm) ficlPrimitiveLiteralIm"

definition ficl_char_stateless_im :: "ficlVm \<Rightarrow> ficlVm vm_result" where
  "ficl_char_stateless_im vm = bind_outcome (ficlPrimitiveChar vm) (\<lambda>vm.
     if vm_state vm = FICL_VM_STATE_COMPILE then ficlPrimitiveLiteralIm vm else Ok vm)"

definition ficlPrimitiveCharPlus :: "ficlVm \<Rightarrow> ficlVm vm_result" where
  "ficlPrimitiveCharPlus = checked 1 1 (pop_cell (\<lambda>p. push_cell (p + 1) finished))"

definition ficlPrimitiveCount :: "ficlVm \<Rightarrow> ficlVm vm_result" where
  "ficlPrimitiveCount = checked 1 2 (pop_cell (\<lambda>counted. push_cell (counted + 8) (\<lambda>vm.
     vm_lift vm (d_load_cell (vm_dict vm) counted) (\<lambda>n. push_cell n finished vm))))"

definition ficlPrimitiveAccept :: "ficlVm \<Rightarrow> ficlVm vm_result" where
  "ficlPrimitiveAccept = checked 2 1 (\<lambda>vm. bind_outcome (ficlVmGetInBuf vm) (\<lambda>trace.
     let len = int (ficlVmGetInBufEnd vm - trace)
     in if len = 0 then ficlVmThrow vm FICL_VM_STATUS_RESTART
        else pop_cell (\<lambda>sz. pop_cell (\<lambda>p vm.
          let n = (if sint sz < len then sint sz else len)
          in if n < 0 then Fault
             else bind_outcome (in_dict (\<lambda>d. d_store_bytes d p (map char_byte (strncpy (drop trace (tib_text (vm_tib vm))) (nat n)))) vm) (\<lambda>vm.
                    push_cell (of_int n) finished (ficlVmUpdateTib vm (trace + nat n))))) vm))"

definition ficlPrimitiveSourceID :: "ficlVm \<Rightarrow> ficlVm vm_result" where
  "ficlPrimitiveSourceID vm = ficlVmPush vm (vm_sourceId vm)"

definition ficlPrimitiveRefill :: "ficlVm \<Rightarrow> ficlVm vm_result" where
  "ficlPrimitiveRefill vm =
     (let ret = (if vm_sourceId vm = -1 then 0 else -1)
      in if ret \<noteq> 0 \<and> \<not> vm_restart vm then ficlVmThrow vm FICL_VM_STATUS_RESTART else ficlVmPush vm ret)"

subsection \<open>String literals\<close>

text \<open>\<open>ficlVmGetString\<close> with its destination: the length, the characters and a NUL; the address behind them.\<close>

definition get_counted :: "addr \<Rightarrow> char \<Rightarrow> ficlVm \<Rightarrow> (addr \<times> nat \<times> ficlVm) vm_result" where
  "get_counted counted delimiter vm = bind_outcome (ficlVmGetString vm delimiter) (\<lambda>((n, s), vm).
     bind_outcome (in_dict (\<lambda>d. d_store_bytes d (counted + 8) (map char_byte s @ [0])) vm) (\<lambda>vm.
     bind_outcome (in_dict (\<lambda>d. d_store_cell d counted (of_nat n)) vm) (\<lambda>vm.
       Ok (counted + 8 + of_nat n + 1, n, vm))))"

definition here_counted :: "cell \<Rightarrow> ficlVm \<Rightarrow> ficlVm vm_result" where
  "here_counted instruction vm =
     bind_outcome (PRIMITIVE_APPEND_UNSIGNED vm instruction) (\<lambda>vm.
     bind_outcome (get_counted (here vm) (CHR 0x22) vm) (\<lambda>(p, n, vm).
       Ok (vm\<lparr>vm_dict := ficlDictionaryAlign ((vm_dict vm)\<lparr>d_here := p\<rparr>)\<rparr>)))"

definition ficlPrimitiveCountedStringQuoteIm :: "ficlVm \<Rightarrow> ficlVm vm_result" where
  "ficlPrimitiveCountedStringQuoteIm vm =
     (if vm_state vm = FICL_VM_STATE_INTERPRET
      then let counted = here vm
           in bind_outcome (get_counted counted (CHR 0x22) vm) (\<lambda>(_, n, vm).
              bind_outcome (ficlVmPush vm counted) (\<lambda>vm. ficlVmDictionaryAllot vm (int n + 1)))
      else here_counted ficlInstructionCStringLiteralParen vm)"

definition ficlPrimitiveStringQuoteIm :: "ficlVm \<Rightarrow> ficlVm vm_result" where
  "ficlPrimitiveStringQuoteIm vm =
     (if vm_state vm = FICL_VM_STATE_INTERPRET
      then let counted = here vm
           in bind_outcome (get_counted counted (CHR 0x22) vm) (\<lambda>(_, n, vm). push_cell (counted + 8) (push_cell (of_nat n) finished) vm)
      else here_counted ficlInstructionStringLiteralParen vm)"

text \<open>\<open>pType\<close> is the word \<open>type\<close>.\<close>

definition ficlPrimitiveDotQuoteCoIm :: "addr \<Rightarrow> ficlVm \<Rightarrow> ficlVm vm_result" where
  "ficlPrimitiveDotQuoteCoIm pType vm =
     bind_outcome (here_counted ficlInstructionStringLiteralParen vm) (in_dict (\<lambda>d. ficlDictionaryAppendPointer d pType))"

text \<open>The length is stored in one byte; \<open>copy_bytes\<close> is \<open>*to++ = *from++\<close> for \<open>n\<close> bytes.\<close>

fun copy_bytes :: "nat \<Rightarrow> addr \<Rightarrow> addr \<Rightarrow> (addr \<rightharpoonup> u8) \<Rightarrow> (addr \<rightharpoonup> u8) option" where
  "copy_bytes 0 src dst m = Some m"
| "copy_bytes (Suc n) src dst m =
     (case m src of None \<Rightarrow> None
      | Some b \<Rightarrow> (case store_bytes m dst [b] of None \<Rightarrow> None | Some m \<Rightarrow> copy_bytes n (src + 1) (dst + 1) m))"

definition ficlPrimitiveSLiteralCoIm :: "ficlVm \<Rightarrow> ficlVm vm_result" where
  "ficlPrimitiveSLiteralCoIm = checked 2 0 (pop_cell (\<lambda>n. pop_cell (\<lambda>src vm.
     bind_outcome (PRIMITIVE_APPEND_UNSIGNED vm ficlInstructionStringLiteralParen) (\<lambda>vm.
     bind_outcome (in_dict (\<lambda>d. d_store_bytes d (d_here d) [ucast n]) vm) (\<lambda>vm.
     (case copy_bytes (unat n) src (here vm + 1) (d_bytes (vm_dict vm)) of None \<Rightarrow> Fault
      | Some m \<Rightarrow>
          bind_outcome (in_dict (\<lambda>d. d_store_bytes d (d_here d + 1 + n) [0]) (vm\<lparr>vm_dict := set_bytes m (vm_dict vm)\<rparr>)) (\<lambda>vm.
            Ok (vm\<lparr>vm_dict := (vm_dict vm)\<lparr>d_here := ficlAlignPointer (here vm + 1 + n + 1)\<rparr>\<rparr>))))))))"

subsection \<open>Pictured numbers\<close>

definition pad_length :: "ficlVm \<Rightarrow> cell" where
  "pad_length vm = join_bytes (map (vm_pad vm) [0..<8])"

definition set_pad_length :: "cell \<Rightarrow> ficlVm \<Rightarrow> ficlVm vm_result" where
  "set_pad_length n = pad_put 0 (map (byte_of n) [0..<8])"

text \<open>\<open>counted->text[counted->length++] = c\<close>.\<close>

definition pad_append :: "u8 \<Rightarrow> ficlVm \<Rightarrow> ficlVm vm_result" where
  "pad_append c vm = bind_outcome (pad_put (8 + unat (pad_length vm)) [c] vm) (set_pad_length (pad_length vm + 1))"

definition ficlPrimitiveLessNumberSign :: "ficlVm \<Rightarrow> ficlVm vm_result" where
  "ficlPrimitiveLessNumberSign = set_pad_length 0"

definition append_digit :: "cell \<Rightarrow> ficlVm \<Rightarrow> ficlVm vm_result" where
  "append_digit d vm = (case ficlDigitToCharacter (c_int d) of None \<Rightarrow> Fault | Some c \<Rightarrow> pad_append (char_byte c) vm)"

definition ficlPrimitiveNumberSign :: "fth_env \<Rightarrow> ficlVm \<Rightarrow> ficlVm vm_result" where
  "ficlPrimitiveNumberSign E = checked 1 1 (pop_2unsigned E (\<lambda>ud vm.
     case ficl2UnsignedDivide ud (vm_base vm) of None \<Rightarrow> Fault
     | Some uqr \<Rightarrow> bind_outcome (append_digit (uremainder uqr) vm) (push_2unsigned E (uquotient uqr) finished)))"

text \<open>The loop of \<open>#s\<close>; with a base of one it does not end.\<close>

partial_function (option) number_sign_loop :: "cell \<Rightarrow> ficlVm \<Rightarrow> ficlVm vm_result option" where
  "number_sign_loop ud vm =
     (case ficl2UnsignedDivide ud (vm_base vm) of None \<Rightarrow> Some Fault
      | Some uqr \<Rightarrow>
          (case append_digit (uremainder uqr) vm of
             Ok vm \<Rightarrow> if uquotient uqr \<noteq> 0 then number_sign_loop (uquotient uqr) vm else Some (Ok vm)
           | Throw e \<Rightarrow> Some (Throw e) | Fault \<Rightarrow> Some Fault))"

declare number_sign_loop.simps [code]

definition ficlPrimitiveNumberSignS :: "fth_env \<Rightarrow> ficlVm \<Rightarrow> ficlVm vm_result option" where
  "ficlPrimitiveNumberSignS E vm =
     then_run (checked 1 1 (pop_2unsigned E (\<lambda>ud vm. Ok (ud, vm))) vm) (\<lambda>(ud, vm).
       map_option (\<lambda>r. bind_outcome r (push_2unsigned E 0 finished)) (number_sign_loop ud vm))"

text \<open>The text in the scratch area up to the NUL is reversed in place.\<close>

definition pad_text :: "ficlVm \<Rightarrow> u8 list" where
  "pad_text vm = takeWhile (\<lambda>b. b \<noteq> 0) (map (vm_pad vm) [8..<FICL_PAD_SIZE + 1])"

definition ficlPrimitiveNumberSignGreater :: "addr \<Rightarrow> ficlVm \<Rightarrow> ficlVm vm_result" where
  "ficlPrimitiveNumberSignGreater pad = checked 1 2 (\<lambda>vm.
     bind_outcome (pad_put (8 + unat (pad_length vm)) [0] vm) (\<lambda>vm.
     bind_outcome (pad_put 8 (map char_byte (ficlStringReverse (map byte_char (pad_text vm)))) vm) (\<lambda>vm.
       push_cell (pad + 8) (\<lambda>vm. push_cell (pad_length vm) finished vm) (ddrop 1 vm))))"

definition ficlPrimitiveHold :: "ficlVm \<Rightarrow> ficlVm vm_result" where
  "ficlPrimitiveHold = checked 1 0 (pop_cell (\<lambda>c. pad_append (ucast c)))"

definition ficlPrimitiveSign :: "ficlVm \<Rightarrow> ficlVm vm_result" where
  "ficlPrimitiveSign = checked 1 0 (pop_cell (\<lambda>c. if sint c < 0 then pad_append (char_byte (CHR ''-'')) else finished))"

text \<open>
  \<open>word\<close>: the scratch area holds 1025 bytes, of which the length takes 8, but names are only cut
  to 1023 characters.
\<close>

definition ficlPrimitiveWord :: "addr \<Rightarrow> ficlVm \<Rightarrow> ficlVm vm_result" where
  "ficlPrimitiveWord pad = checked 1 1 (pop_cell (\<lambda>c vm.
     bind_outcome (ficlVmParseStringEx vm (byte_char (ucast c)) True) (\<lambda>(name, vm).
       let n = (if length name > FICL_PAD_SIZE - 1 then FICL_PAD_SIZE - 1 else length name)
       in bind_outcome (set_pad_length (of_nat n) vm) (\<lambda>vm.
          bind_outcome (pad_put 8 (map char_byte (strncpy name n)) vm) (\<lambda>vm.
          bind_outcome (pad_put (8 + n) [char_byte (CHR '' ''), 0] vm) (push_cell pad finished))))))"

text \<open>\<open>>number\<close>: the character behind the text is read as well.\<close>

fun to_number_loop :: "(addr \<rightharpoonup> u8) \<Rightarrow> cell \<Rightarrow> nat \<Rightarrow> addr \<Rightarrow> cell \<Rightarrow> (cell \<times> addr \<times> nat) option" where
  "to_number_loop m base 0 trace accumulator = (if m trace = None then None else Some (accumulator, trace, 0))"
| "to_number_loop m base (Suc n) trace accumulator =
     (case m trace of None \<Rightarrow> None
      | Some b \<Rightarrow>
          let c = byte_char b
          in if schar c < 48 \<or> parse_digit c \<ge> base then Some (accumulator, trace, Suc n)
             else to_number_loop m base n (trace + 1) (accumulator * base + parse_digit c))"

definition ficlPrimitiveToNumber :: "fth_env \<Rightarrow> ficlVm \<Rightarrow> ficlVm vm_result" where
  "ficlPrimitiveToNumber E = checked 3 3 (pop_cell (\<lambda>n. pop_cell (\<lambda>trace. pop_2unsigned E (\<lambda>accumulator vm.
     case to_number_loop (d_bytes (vm_dict vm)) (vm_base vm) (unat n) trace accumulator of None \<Rightarrow> Fault
     | Some (accumulator, trace, n) \<Rightarrow> push_2unsigned E accumulator (push_cell trace (push_cell (of_nat n) finished)) vm))))"

subsection \<open>Mixed arithmetic\<close>

text \<open>\<open>/\<close> and \<open>%\<close> of C: a division by zero and the one quotient that does not fit raise a signal.\<close>

definition c_quotient :: "int \<Rightarrow> int \<Rightarrow> (int \<Rightarrow> int \<Rightarrow> 'a cont) \<Rightarrow> 'a cont" where
  "c_quotient a b k vm = (if b = 0 \<or> a = - (2 ^ 63) \<and> b = -1 then Fault else k (c_div a b) (c_mod a b) vm)"

definition fm_mod :: "int \<Rightarrow> int \<Rightarrow> int \<Rightarrow> int \<Rightarrow> int \<times> int" where
  "fm_mod d1 n1 n3 n2 = (if (d1 < 0) \<noteq> (n1 < 0) \<and> n2 \<noteq> 0 then (n3 - 1, n2 + n1) else (n3, n2))"

definition ficlPrimitiveFMSlashMod :: "fth_env \<Rightarrow> ficlVm \<Rightarrow> ficlVm vm_result" where
  "ficlPrimitiveFMSlashMod E = checked 2 2 (pop_cell (\<lambda>n1. pop_2integer E (\<lambda>d1. c_quotient d1 (sint n1) (\<lambda>n3 n2.
     let (n3, n2) = fm_mod d1 (sint n1) n3 n2 in push_cell (of_int n2) (push_cell (of_int n3) finished)))))"

definition ficlPrimitiveSMSlashRem :: "fth_env \<Rightarrow> ficlVm \<Rightarrow> ficlVm vm_result" where
  "ficlPrimitiveSMSlashRem E = checked 2 2 (pop_cell (\<lambda>n1. pop_2integer E (\<lambda>d1 vm.
     case ficl2IntegerDivideSymmetric (of_int d1) n1 of None \<Rightarrow> Fault
     | Some qr \<Rightarrow> push_cell (iremainder qr) (push_cell (iquotient qr) finished) vm)))"

definition ficlPrimitiveMod :: "ficlVm \<Rightarrow> ficlVm vm_result" where
  "ficlPrimitiveMod = checked 2 1 (pop_cell (\<lambda>n2. pop_cell (\<lambda>n1. c_quotient (sint n1) (sint n2) (\<lambda>q r. push_cell (of_int r) finished))))"

text \<open>The remainder is left on top.\<close>

definition ficlPrimitiveUMSlashMod :: "fth_env \<Rightarrow> ficlVm \<Rightarrow> ficlVm vm_result" where
  "ficlPrimitiveUMSlashMod E = checked 2 2 (pop_cell (\<lambda>u1. pop_2unsigned E (\<lambda>ud vm.
     if u1 = 0 then Fault else push_cell (ud div u1) (push_cell (ud mod u1) finished) vm)))"

definition ficlPrimitiveMStar :: "fth_env \<Rightarrow> ficlVm \<Rightarrow> ficlVm vm_result" where
  "ficlPrimitiveMStar E = checked 2 1 (pop_cell (\<lambda>n2. pop_cell (\<lambda>n1. push_2integer E (wrap64 (sint n1 * sint n2)) finished)))"

definition ficlPrimitiveUMStar :: "fth_env \<Rightarrow> ficlVm \<Rightarrow> ficlVm vm_result" where
  "ficlPrimitiveUMStar E = checked 2 1 (pop_cell (\<lambda>u2. pop_cell (\<lambda>u1. push_2unsigned E (u1 * u2) finished)))"

definition FICL_VM_STATUS_NUMERIC_ARG_ERROR :: int where
  "FICL_VM_STATUS_NUMERIC_ARG_ERROR = -24"

definition ficlPrimitiveMStarSlash :: "fth_env \<Rightarrow> ficlVm \<Rightarrow> ficlVm vm_result" where
  "ficlPrimitiveMStarSlash E = checked 3 1 (pop_cell (\<lambda>n2. pop_cell (\<lambda>n1. pop_2integer E (\<lambda>d vm.
     if sint n2 \<le> 0 then ficlVmThrowException vm FICL_VM_STATUS_NUMERIC_ARG_ERROR
     else c_quotient (wrap64 (d * sint n1)) (sint n2) (\<lambda>q r. push_2integer E q finished) vm))))"

definition ficlPrimitiveMPlus :: "fth_env \<Rightarrow> ficlVm \<Rightarrow> ficlVm vm_result" where
  "ficlPrimitiveMPlus E = checked 2 1 (pop_cell (\<lambda>n. pop_2integer E (\<lambda>d. push_2integer E (wrap64 (d + sint n)) finished)))"

end
