(* ===== verification/Ficl_Literals.thy ===== *)
theory Ficl_Literals
  imports Ficl_Primitives
begin

section \<open>String literals\<close>

text \<open>
  What the compiling string words lay out in the dictionary and what the inner interpreter makes of
  it: the text compiled by \<open>s"\<close> is pushed again when the word runs, while \<open>sliteral\<close>, which stores
  the length in one byte, is read back with a length of eight bytes.
\<close>

subsection \<open>Ranges of memory\<close>

lemma offset_eq: "i < 2 ^ 64 \<Longrightarrow> j < 2 ^ 64 \<Longrightarrow> h + of_nat i = h + of_nat j \<longleftrightarrow> i = j" for h :: addr
proof
  assume "i < 2 ^ 64" "j < 2 ^ 64"
  then have "unat (of_nat i :: addr) = i" "unat (of_nat j :: addr) = j"
    by (simp_all add: unsigned_of_nat take_bit_nat_eq_self)
  moreover assume "h + of_nat i = h + of_nat j"
  ultimately show "i = j" by (metis add_left_cancel)
qed simp

text \<open>A store to bytes \<open>a\<close> to \<open>a + length bs\<close> behind \<open>h\<close> is not seen by a load of others.\<close>

definition ranges_apart :: "nat \<Rightarrow> nat \<Rightarrow> nat \<Rightarrow> nat \<Rightarrow> bool" where
  "ranges_apart a k b n = (a + k < 2 ^ 64 \<and> b + n < 2 ^ 64 \<and> (a + k \<le> b \<or> b + n \<le> a))"

lemma store_bytes_apart:
  assumes "store_bytes m (h + of_nat a) bs = Some m'" and "ranges_apart a (length bs) b n"
  shows "load_bytes m' (h + of_nat b) n = load_bytes m (h + of_nat b) n"
proof (rule load_bytes_cong, rule store_bytes_outside [OF assms(1)])
  show "length bs \<le> 2 ^ 64" using assms(2) by (simp add: ranges_apart_def)
  fix i assume "i < n"
  have "h + of_nat (b + i) \<noteq> h + of_nat (a + j)" if "j < length bs" for j
    using offset_eq [of "b + i" "a + j" h] assms(2) that \<open>i < n\<close> by (auto simp: ranges_apart_def)
  then show "\<forall>j<length bs. h + of_nat b + of_nat i \<noteq> h + of_nat a + of_nat j" by (simp add: add.assoc)
qed


lemma store_cell_apart:
  assumes "store_cell m (h + of_nat a) c = Some m'" and "ranges_apart a 8 b n"
  shows "load_bytes m' (h + of_nat b) n = load_bytes m (h + of_nat b) n"
  using store_bytes_apart [OF assms(1) [unfolded store_cell_def]] assms(2) by simp

lemma bytes_apart_cell:
  assumes "store_bytes m (h + of_nat a) bs = Some m'" and "ranges_apart a (length bs) b 8"
  shows "load_cell m' (h + of_nat b) = load_cell m (h + of_nat b)"
  using store_bytes_apart [OF assms] by (simp add: load_cell_def)

lemma cell_apart_cell:
  assumes "store_cell m (h + of_nat a) c = Some m'" and "ranges_apart a 8 b 8"
  shows "load_cell m' (h + of_nat b) = load_cell m (h + of_nat b)"
  using store_cell_apart [OF assms] by (simp add: load_cell_def)

lemma room_store_bytes:
  assumes "room d n" and "a + length bs \<le> n"
  obtains m where "d_store_bytes d (d_here d + of_nat a) bs = Ok (set_bytes m d)"
    "store_bytes (d_bytes d) (d_here d + of_nat a) bs = Some m" "dom m = dom (d_bytes d)"
proof -
  have "length bs \<le> 2 ^ 64" using assms by (simp add: room_def)
  moreover have "\<forall>i<length bs. d_here d + of_nat a + of_nat i \<in> dom (d_bytes d)"
  proof (intro allI impI)
    fix i assume "i < length bs"
    then have "d_here d + of_nat (a + i) \<in> dom (d_bytes d)" using assms unfolding room_def allocated_iff by (meson add_less_cancel_left order_less_le_trans)
    then show "d_here d + of_nat a + of_nat i \<in> dom (d_bytes d)" by (simp add: add.assoc)
  qed
  ultimately obtain m where m: "store_bytes (d_bytes d) (d_here d + of_nat a) bs = Some m"
    using store_bytes_some by blast
  then show ?thesis using that store_bytes_dom [OF m] by (simp add: d_store_bytes_def)
qed

lemma room_store_cell:
  assumes "room d n" and "a + 8 \<le> n"
  obtains m where "d_store_cell d (d_here d + of_nat a) c = Ok (set_bytes m d)"
    "store_cell (d_bytes d) (d_here d + of_nat a) c = Some m" "dom m = dom (d_bytes d)"
proof -
  obtain m where "store_bytes (d_bytes d) (d_here d + of_nat a) (map (byte_of c) [0..<8]) = Some m"
      "dom m = dom (d_bytes d)"
    using assms(2) by (auto intro: room_store_bytes [OF assms(1), of a "map (byte_of c) [0..<8]"])
  then show ?thesis using that by (simp add: d_store_cell_def store_cell_def)
qed

lemma room_set_bytes [simp]: "dom m = dom (d_bytes d) \<Longrightarrow> room (set_bytes m d) n = room d n"
  by (simp add: room_def allocated_iff)

subsection \<open>A counted string in the dictionary\<close>

lemma strncpy_id: "NUL \<notin> set w \<Longrightarrow> strncpy w (length w) = w"
proof -
  assume "NUL \<notin> set w"
  then have e: "takeWhile (\<lambda>c. c \<noteq> NUL) w = w" by (auto simp: takeWhile_eq_all_conv)
  show ?thesis by (simp only: strncpy_def Let_def take_all [OF order_refl] e) simp
qed

text \<open>The token, the length, the text and a NUL from \<open>h\<close> on.\<close>

definition counted_at :: "(addr \<rightharpoonup> u8) \<Rightarrow> addr \<Rightarrow> cell \<Rightarrow> string \<Rightarrow> bool" where
  "counted_at m h instruction w = (load_cell m h = Some instruction \<and> load_cell m (h + 8) = Some (of_nat (length w)) \<and>
     load_bytes m (h + 16) (length w + 1) = Some (map char_byte w @ [0]))"

lemma get_counted_input:
  assumes "tib_ok vm" and "input vm = w @ CHR 0x22 # rest" and "\<forall>c\<in>set w. \<not> ends_string (CHR 0x22) c"
    and "NUL \<notin> set w" and "length w \<le> FICL_COUNTED_STRING_MAX" and "room (vm_dict vm) (8 + length w + 1)"
  obtains t m1 m where "get_counted (here vm) (CHR 0x22) vm =
      Ok (here vm + 8 + of_nat (length w) + 1, length w, vm\<lparr>vm_tib := t, vm_dict := set_bytes m (vm_dict vm)\<rparr>)"
    and "tib_ok (vm\<lparr>vm_tib := t\<rparr>)" and "input (vm\<lparr>vm_tib := t\<rparr>) = rest"
    and "store_bytes (d_bytes (vm_dict vm)) (here vm + 8) (map char_byte w @ [0]) = Some m1"
    and "store_cell m1 (here vm) (of_nat (length w)) = Some m" and "dom m = dom (d_bytes (vm_dict vm))"
proof -
  obtain t where t: "ficlVmParseStringEx vm (CHR 0x22) False = Ok (w, vm\<lparr>vm_tib := t\<rparr>)"
      "tib_ok (vm\<lparr>vm_tib := t\<rparr>)" "input (vm\<lparr>vm_tib := t\<rparr>) = rest"
    using ficlVmParseStringEx_input [of vm "[]" w "CHR 0x22" rest False] assms(1-3) by auto
  have g: "ficlVmGetString vm (CHR 0x22) = Ok ((length w, w), vm\<lparr>vm_tib := t\<rparr>)"
    using t(1) assms(4,5) by (simp add: ficlVmGetString_def strncpy_id)
  obtain m1 where m1: "d_store_bytes (vm_dict vm) (here vm + of_nat 8) (map char_byte w @ [0]) = Ok (set_bytes m1 (vm_dict vm))"
      "store_bytes (d_bytes (vm_dict vm)) (here vm + of_nat 8) (map char_byte w @ [0]) = Some m1" "dom m1 = dom (d_bytes (vm_dict vm))"
    unfolding here_def by (rule room_store_bytes [OF assms(6), of 8 "map char_byte w @ [0]"]) auto
  have r: "room (set_bytes m1 (vm_dict vm)) (8 + length w + 1)" using assms(6) m1(3) by simp
  obtain m where m: "d_store_cell (set_bytes m1 (vm_dict vm)) (here vm + of_nat 0) (of_nat (length w)) = Ok (set_bytes m (set_bytes m1 (vm_dict vm)))"
      "store_cell m1 (here vm + of_nat 0) (of_nat (length w)) = Some m" "dom m = dom m1"
    by (rule room_store_cell [OF r, of 0 "of_nat (length w)"]) (auto simp: here_def)
  show ?thesis
  proof (rule that [OF _ t(2,3)])
    show "get_counted (here vm) (CHR 0x22) vm =
      Ok (here vm + 8 + of_nat (length w) + 1, length w, vm\<lparr>vm_tib := t, vm_dict := set_bytes m (vm_dict vm)\<rparr>)"
      using g m1(1) m(1) by (simp add: get_counted_def in_dict_def vm_lift_def set_bytes_def)
  qed (use m1(2,3) m(2,3) in simp_all)
qed

lemma here_counted_layout:
  assumes "tib_ok vm" and "input vm = w @ CHR 0x22 # rest" and "\<forall>c\<in>set w. \<not> ends_string (CHR 0x22) c"
    and "NUL \<notin> set w" and "length w \<le> FICL_COUNTED_STRING_MAX" and "room (vm_dict vm) (16 + length w + 1)"
  obtains t d where "here_counted i vm = Ok (vm\<lparr>vm_tib := t, vm_dict := d\<rparr>)" and "input (vm\<lparr>vm_tib := t\<rparr>) = rest"
    and "counted_at (d_bytes d) (here vm) i w" and "d_here d = ficlAlignPointer (here vm + 16 + of_nat (length w) + 1)"
proof -
  have r: "room (vm_dict vm) (8 + (8 + length w + 1))" using assms(6) by simp
  obtain m0 where m0: "ficlDictionaryAppendCell (vm_dict vm) i = Ok ((set_bytes m0 (vm_dict vm))\<lparr>d_here := here vm + 8\<rparr>)"
      "load_cell m0 (here vm) = Some i" "room ((set_bytes m0 (vm_dict vm))\<lparr>d_here := here vm + 8\<rparr>) (8 + length w + 1)"
    using ficlDictionaryAppendCell_room [OF r, of i] unfolding here_def by blast
  define d1 where "d1 = (set_bytes m0 (vm_dict vm))\<lparr>d_here := here vm + 8\<rparr>"
  define vm1 where "vm1 = vm\<lparr>vm_dict := d1\<rparr>"
  have a: "PRIMITIVE_APPEND_UNSIGNED vm i = Ok vm1"
    using m0(1) by (simp add: append_unsigned_cell in_dict_def vm_lift_def vm1_def d1_def)
  have h1: "here vm1 = here vm + of_nat 8" "d_bytes (vm_dict vm1) = m0" by (simp_all add: here_def vm1_def d1_def)
  have v: "tib_ok vm1" "input vm1 = w @ CHR 0x22 # rest" "room (vm_dict vm1) (8 + length w + 1)"
    using assms(1,2) m0(3) by (simp_all add: vm1_def tib_ok_def input_def d1_def)
  obtain t m1 m where g: "get_counted (here vm1) (CHR 0x22) vm1 =
      Ok (here vm1 + 8 + of_nat (length w) + 1, length w, vm1\<lparr>vm_tib := t, vm_dict := set_bytes m (vm_dict vm1)\<rparr>)"
      "input (vm1\<lparr>vm_tib := t\<rparr>) = rest" "store_bytes m0 (here vm1 + 8) (map char_byte w @ [0]) = Some m1"
      "store_cell m1 (here vm1) (of_nat (length w)) = Some m"
    by (rule get_counted_input [OF v(1,2) assms(3-5) v(3)]) (auto simp: h1(2))
  have bound: "16 + length w + 1 < 2 ^ 64" using assms(6) by (simp add: room_def)
  have s1: "store_bytes m0 (here vm + of_nat 16) (map char_byte w @ [0]) = Some m1"
      and s2: "store_cell m1 (here vm + of_nat 8) (of_nat (length w)) = Some m" using g(3,4) h1(1) by (simp_all add: add.assoc)
  have l0: "load_cell m (here vm) = Some i"
    using cell_apart_cell [OF s2, of 0] bytes_apart_cell [OF s1, of 0] m0(2) bound by (simp add: ranges_apart_def)
  have l1: "load_cell m (here vm + 8) = Some (of_nat (length w))" using load_store_cell [OF s2] by simp
  have l2: "load_bytes m (here vm + 16) (length w + 1) = Some (map char_byte w @ [0])"
    using store_cell_apart [OF s2, of 16 "length w + 1"] load_store_bytes [OF s1, of "length w + 1"] bound
    by (simp add: ranges_apart_def)
  define d where "d = ficlDictionaryAlign ((set_bytes m d1)\<lparr>d_here := here vm + 16 + of_nat (length w) + 1\<rparr>)"
  show ?thesis
  proof (rule that [of d t])
    show "here_counted i vm = Ok (vm\<lparr>vm_tib := t, vm_dict := d\<rparr>)"
      using a g(1) h1(1) by (simp add: here_counted_def d_def add.assoc) (simp add: vm1_def add.assoc)
    show "input (vm\<lparr>vm_tib := t\<rparr>) = rest" using g(2) by (simp add: input_def vm1_def)
    show "counted_at (d_bytes d) (here vm) i w" using l0 l1 l2 by (simp add: counted_at_def d_def ficlDictionaryAlign_def)
    show "d_here d = ficlAlignPointer (here vm + 16 + of_nat (length w) + 1)" by (simp add: d_def ficlDictionaryAlign_def)
  qed
qed

subsection \<open>Executing a literal\<close>

lemma CHECK_STACK_two:
  "vm_wf vm \<Longrightarrow> length (data vm) + 2 \<le> st_size (vm_dataStack vm) \<Longrightarrow> CHECK_STACK 0 2 k vm = k vm"
  for k :: instr
  using CHECK_STACK_cases [of vm 0 2 k] by (auto simp: vm_wf_def)

lemma string_literal_executes:
  assumes "vm_wf vm" and "length (data vm) + 2 \<le> st_size (vm_dataStack vm)" and "vm_ip vm \<noteq> NULL"
    and "load_cell (d_bytes (vm_dict vm)) (vm_ip vm) = Some ficlInstructionStringLiteralParen"
    and "load_cell (d_bytes (vm_dict vm)) (vm_ip vm + 8) = Some len"
  shows "inner_step E vm = Some (Ok (Continue
    ((dpushed len (dpushed (vm_ip vm + 16) vm))\<lparr>vm_ip := ficlAlignPointer (vm_ip vm + 16 + len + 1)\<rparr>)))"
proof -
  let ?v = "vm\<lparr>vm_ip := vm_ip vm + 8\<rparr>"
  let ?q = "dpushed (vm_ip vm + 16) ?v"
  have v: "vm_wf ?v" "length (data ?v) < st_size (vm_dataStack ?v)" using assms(1,2) by (simp_all add: vm_wf_def)
  have q: "vm_wf ?q" "length (data ?q) < st_size (vm_dataStack ?q)"
    using dpushed_list [OF v, of "vm_ip vm + 16"] assms(2) by (simp_all add: dpushed_def)
  have "inner_step E vm = Some (instr_StringLiteralParen ?v)"
    by (rule inner_step_instr [OF assms(3,4)]) (simp add: stack_table_def memory_table_def)
  also have "instr_StringLiteralParen ?v = dpush (vm_ip vm + 16) (dpush len (iset (ficlAlignPointer (vm_ip vm + 16 + len + 1)) continue)) ?v"
    using CHECK_STACK_two [OF v(1)] assms(2,5)
    by (simp add: instr_StringLiteralParen_def iref_def d_load_cell_def Let_def dpush_def add.assoc)
  also have "\<dots> = Ok (Continue ((dpushed len (dpushed (vm_ip vm + 16) vm))\<lparr>vm_ip := ficlAlignPointer (vm_ip vm + 16 + len + 1)\<rparr>))"
    unfolding dpush_list [OF v] dpush_list [OF q] iset_def continue_def by (simp add: dpushed_def)
  finally show ?thesis .
qed

text \<open>\<open>s"\<close> in a definition: the text is pushed when the compiled cells are executed.\<close>

lemma string_quote_roundtrip:
  assumes "vm_state vm = FICL_VM_STATE_COMPILE" and "tib_ok vm" and "input vm = w @ CHR 0x22 # rest"
    and "\<forall>c\<in>set w. \<not> ends_string (CHR 0x22) c" and "NUL \<notin> set w" and "length w \<le> FICL_COUNTED_STRING_MAX"
    and "room (vm_dict vm) (16 + length w + 1)"
  shows "\<exists>vm'. ficlPrimitiveStringQuoteIm vm = Ok vm' \<and> input vm' = rest \<and>
    load_bytes (d_bytes (vm_dict vm')) (here vm + 16) (length w + 1) = Some (map char_byte w @ [0]) \<and>
    (\<forall>vm2. vm_wf vm2 \<and> length (data vm2) + 2 \<le> st_size (vm_dataStack vm2) \<and> vm_ip vm2 = here vm \<and>
      vm_ip vm2 \<noteq> NULL \<and> vm_dict vm2 = vm_dict vm' \<longrightarrow>
      inner_step E vm2 = Some (Ok (Continue ((dpushed (of_nat (length w)) (dpushed (here vm + 16) vm2))\<lparr>vm_ip := here vm'\<rparr>))))"
proof -
  obtain t d where c: "here_counted ficlInstructionStringLiteralParen vm = Ok (vm\<lparr>vm_tib := t, vm_dict := d\<rparr>)"
      "input (vm\<lparr>vm_tib := t\<rparr>) = rest" "counted_at (d_bytes d) (here vm) ficlInstructionStringLiteralParen w"
      "d_here d = ficlAlignPointer (here vm + 16 + of_nat (length w) + 1)"
    by (rule here_counted_layout [OF assms(2-7), of ficlInstructionStringLiteralParen])
  have "ficlPrimitiveStringQuoteIm vm = Ok (vm\<lparr>vm_tib := t, vm_dict := d\<rparr>)"
    using c(1) assms(1) by (simp add: ficlPrimitiveStringQuoteIm_def FICL_VM_STATE_COMPILE_def FICL_VM_STATE_INTERPRET_def)
  moreover have "inner_step E vm2 = Some (Ok (Continue ((dpushed (of_nat (length w)) (dpushed (here vm + 16) vm2))\<lparr>vm_ip := d_here d\<rparr>)))"
    if "vm_wf vm2" "length (data vm2) + 2 \<le> st_size (vm_dataStack vm2)" "vm_ip vm2 = here vm" "vm_ip vm2 \<noteq> NULL" "vm_dict vm2 = d" for vm2
    using string_literal_executes [OF that(1,2,4)] that(3,5) c(3,4) by (simp add: counted_at_def)
  ultimately show ?thesis
    using c(2,3) by (intro exI [of _ "vm\<lparr>vm_tib := t, vm_dict := d\<rparr>"]) (auto simp: input_def counted_at_def here_def)
qed

subsection \<open>A literal with a short count\<close>

lemma copy_loop_store:
  assumes "load_bytes m src n = Some bs" and "\<forall>i<n. \<forall>j<n. src + of_nat i \<noteq> dst + of_nat j"
  shows "copy_bytes n src dst m = store_bytes m dst bs"
  using assms
proof (induction n arbitrary: src dst m bs)
  case (Suc n)
  from Suc.prems(1) obtain b bs' where b: "m src = Some b" "load_bytes m (src + 1) n = Some bs'" "bs = b # bs'"
    by (auto split: option.splits)
  have away: "src + 1 + of_nat i \<noteq> dst + of_nat j" if "i < n" "j < Suc n" for i j
    using Suc.prems(2) [rule_format, of "Suc i" j] that by (simp add: add.assoc)
  have "\<forall>i<n. \<forall>j<n. src + 1 + of_nat i \<noteq> dst + 1 + of_nat j"
    using away [of _ "Suc _"] by (simp add: add.assoc)
  moreover have "load_bytes (m(dst \<mapsto> b)) (src + 1) n = Some bs'"
    using b(2) away [of _ 0] by (subst load_bytes_cong [of _ _ _ m]) auto
  ultimately have "copy_bytes n (src + 1) (dst + 1) (m(dst \<mapsto> b)) = store_bytes (m(dst \<mapsto> b)) (dst + 1) bs'"
    by (rule Suc.IH [rotated])
  then show ?case using b by simp
qed simp

lemma cell_second_byte:
  assumes "load_cell m p = Some c" and "m (p + 1) = Some b" and "b \<noteq> 0"
  shows "256 \<le> unat c"
proof (rule ccontr)
  assume "\<not> 256 \<le> unat c"
  then have t: "take_bit 8 (unat c) = unat c" by (simp add: take_bit_nat_eq_self)
  from assms(1) obtain bs where bs: "load_bytes m p 8 = Some bs" "c = join_bytes bs" by (auto simp: load_cell_def)
  then have "length bs = 8" "bs ! 1 = b" using assms(2) by (auto simp: load_bytes_eq split: if_splits)
  moreover obtain k where k: "bit b k" using assms(3) bit_eqI [of b 0] by auto
  moreover have "k < 8" using bit_imp_le_length [OF k] by simp
  ultimately have "bit c (8 + k)" using bit_join_bytes [of "8 + k" bs] bs(2) by (simp add: div_add_self1)
  then have "bit (unat c) (8 + k)" using \<open>k < 8\<close> by (simp add: bit_unsigned_iff)
  then have "bit (take_bit 8 (unat c)) (8 + k)" by (simp only: t)
  then show False by (simp add: bit_take_bit_iff)
qed

lemma room_bytes:
  assumes "room d k" and "dom m = dom (d_bytes d)" and "a + length bs \<le> k"
  obtains m' where "store_bytes m (d_here d + of_nat a) bs = Some m'" and "dom m' = dom (d_bytes d)"
proof -
  have r: "room (set_bytes m d) k" using assms(1,2) by simp
  show ?thesis
    by (rule room_store_bytes [OF r assms(3)]) (use assms(2) that in simp_all)
qed

lemma store_below:
  assumes "store_bytes m (d_here d + of_nat a) bs = Some m'" and "room d k" and "a + length bs \<le> k" and "below d p n"
  shows "load_bytes m' p n = load_bytes m p n"
proof (rule load_bytes_cong, rule store_bytes_outside [OF assms(1)])
  show "length bs \<le> 2 ^ 64" using assms(2,3) by (simp add: room_def)
  fix i assume i: "i < n"
  have "p + of_nat i \<noteq> d_here d + of_nat (a + j)" if "j < length bs" for j
    using below_disjoint [OF assms(4) i assms(2), of "a + j"] assms(3) that by simp
  then show "\<forall>j<length bs. p + of_nat i \<noteq> d_here d + of_nat a + of_nat j" by (simp add: add.assoc)
qed

text \<open>The length that \<open>(string-literal)\<close> reads is not the one that was compiled.\<close>

lemma sliteral_misread:
  assumes "vm_wf vm" and "data vm = n # src # ds" and "0 < unat n" and "unat n < 256"
    and "load_bytes (d_bytes (vm_dict vm)) src (unat n) = Some bs" and "hd bs \<noteq> 0"
    and "below (vm_dict vm) src (unat n)" and "room (vm_dict vm) (16 + unat n)"
  shows "\<exists>vm' len. ficlPrimitiveSLiteralCoIm vm = Ok vm' \<and> data vm' = ds \<and>
    load_cell (d_bytes (vm_dict vm')) (here vm) = Some ficlInstructionStringLiteralParen \<and>
    load_cell (d_bytes (vm_dict vm')) (here vm + 8) = Some len \<and> unat n < unat len"
proof -
  let ?N = "unat n" and ?d = "vm_dict vm" and ?h = "here vm" and ?t = "map (byte_of ficlInstructionStringLiteralParen) [0..<8]"
  have room: "room ?d (16 + ?N)" and h: "?h = d_here ?d" using assms(8) by (simp_all add: here_def)
  have len: "length bs = ?N" using assms(5) by (auto simp: load_bytes_eq split: if_splits)
  obtain m0 where m0: "store_bytes (d_bytes ?d) (?h + of_nat 0) ?t = Some m0" "dom m0 = dom (d_bytes ?d)"
    unfolding h by (rule room_bytes [OF room refl, of 0 ?t]) auto
  obtain m1 where m1: "store_bytes m0 (?h + of_nat 8) [ucast n] = Some m1" "dom m1 = dom (d_bytes ?d)"
    unfolding h by (rule room_bytes [OF room m0(2), of 8 "[ucast n]"]) auto
  obtain m2 where m2: "store_bytes m1 (?h + of_nat 9) bs = Some m2" "dom m2 = dom (d_bytes ?d)"
    unfolding h by (rule room_bytes [OF room m1(2), of 9 bs]) (use len in auto)
  obtain m3 where m3: "store_bytes m2 (?h + of_nat (9 + ?N)) [0] = Some m3" "dom m3 = dom (d_bytes ?d)"
    unfolding h by (rule room_bytes [OF room m2(2), of "9 + ?N" "[0]"]) auto
  have "load_bytes m1 src ?N = Some bs"
    using store_below [OF m1(1) [unfolded h] room _ assms(7)] store_below [OF m0(1) [unfolded h] room _ assms(7)] assms(5) by simp
  moreover have "src + of_nat i \<noteq> ?h + of_nat 9 + of_nat j" if "i < ?N" "j < ?N" for i j
    using below_disjoint [OF assms(7) that(1) room, of "9 + j"] that(2) by (simp add: h add.assoc)
  ultimately have copy: "copy_bytes ?N src (?h + of_nat 9) m1 = Some m2" using copy_loop_store m2(1) by simp
  have w1: "vm_wf (ddrop 1 vm)" "data (ddrop 1 vm) = src # ds" using ddrop_list [OF assms(1), of 1] assms(2) by simp_all
  define vm1 where "vm1 = ddrop 1 (ddrop 1 vm)"
  have v1: "data vm1 = ds" "vm_dict vm1 = ?d"
    unfolding vm1_def using ddrop_list [OF w1(1), of 1] w1(2) by (simp_all add: ddrop_def)
  let ?vm = "vm1\<lparr>vm_dict := (set_bytes m3 ?d)\<lparr>d_here := ficlAlignPointer (?h + 10 + n)\<rparr>\<rparr>"
  define at where "at m = vm1\<lparr>vm_dict := (set_bytes m ?d)\<lparr>d_here := ?h + 8\<rparr>\<rparr>" for m
  have here_at: "here (at m) = ?h + 8" "d_bytes (vm_dict (at m)) = m" for m by (simp_all add: at_def here_def)
  have put: "in_dict (\<lambda>d. d_store_bytes d (d_here d + p) bs) (at m) = Ok (at m')"
    if "store_bytes m (?h + 8 + p) bs = Some m'" for m m' p bs
    using that by (simp add: in_dict_def vm_lift_def d_store_bytes_def at_def) (simp add: set_bytes_def)
  have tok: "PRIMITIVE_APPEND_UNSIGNED vm1 ficlInstructionStringLiteralParen = Ok (at m0)"
    using m0(1) v1(2) h by (simp add: append_unsigned_cell ficlDictionaryAppendCell_def d_store_cell_def store_cell_def in_dict_def vm_lift_def at_def)
  have one: "in_dict (\<lambda>d. d_store_bytes d (d_here d) [ucast n]) (at m0) = Ok (at m1)"
    using put [of m0 0 "[ucast n]" m1] m1(1) by simp
  have two: "in_dict (\<lambda>d. d_store_bytes d (d_here d + (1 + n)) [0]) (at m2) = Ok (at m3)"
    using put [of m2 "1 + n" "[0]" m3] m3(1) by (simp add: add.assoc)
  have upd: "(at m1)\<lparr>vm_dict := set_bytes m2 (vm_dict (at m1))\<rparr> = at m2" by (simp add: at_def set_bytes_def)
  have "checked 2 0 k vm = k vm" for k :: "ficlVm cont"
    using assms(1,2) stack_wf_length [of "vm_dataStack vm"] by (simp add: checked_def FICL_STACK_CHECK_def vm_lift_def vm_wf_def ficlStackCheck_iff)
  moreover have "pop_cell k vm = k n (ddrop 1 vm)" "pop_cell k (ddrop 1 vm) = k src vm1" for k :: "cell \<Rightarrow> ficlVm cont"
    unfolding pop_cell_def ficlVmPop_data [OF assms(1,2)] ficlVmPop_data [OF w1] vm1_def by simp_all
  ultimately have run: "ficlPrimitiveSLiteralCoIm vm = Ok ?vm"
    using copy by (simp add: ficlPrimitiveSLiteralCoIm_def tok one here_at upd two add.assoc) (simp add: at_def add.assoc)
  have bound: "16 + ?N < 2 ^ 64" using room by (simp add: room_def)
  have l0: "load_cell m3 ?h = Some ficlInstructionStringLiteralParen"
  proof -
    have "load_cell m0 ?h = Some ficlInstructionStringLiteralParen" using m0(1) load_store_cell by (simp add: store_cell_def)
    then show ?thesis
      using bytes_apart_cell [OF m3(1), of 0] bytes_apart_cell [OF m2(1), of 0] bytes_apart_cell [OF m1(1), of 0] bound len
      by (simp add: ranges_apart_def)
  qed
  have "m3 (?h + 9) = Some (hd bs)"
  proof -
    have "load_bytes m2 (?h + of_nat 9) 1 = Some [hd bs]"
      using load_store_bytes [OF m2(1), of 1] len assms(3) bound by (cases bs) auto
    then have "load_bytes m3 (?h + of_nat 9) 1 = Some [hd bs]"
      using store_bytes_apart [OF m3(1), of 9 1] assms(3) bound by (simp add: ranges_apart_def)
    then show ?thesis by (simp split: option.splits)
  qed
  moreover obtain len where l: "load_cell m3 (?h + 8) = Some len"
  proof -
    have "?h + of_nat (8 + i) \<in> dom m3" if "i < 8" for i
      using m3(2) room that unfolding h room_def allocated_iff by (auto simp del: of_nat_add)
    then show ?thesis using that by (fastforce simp: load_cell_def load_bytes_eq dom_def add.assoc split: if_splits)
  qed
  ultimately have "256 \<le> unat len" using cell_second_byte [OF l] assms(6) by (simp add: add.assoc)
  then show ?thesis using run l0 l v1(1) assms(4) by (intro exI [of _ ?vm] exI [of _ len]) simp
qed

end
