(* ===== verification/Fth_Number.thy ===== *)
theory Fth_Number
  imports Ficl_Utility
begin

section \<open>Numbers\<close>

text \<open>
  The number tower of \<open>src/numbers.c\<close>: fixnums, which are cells with the lowest bit set, and the objects for long integers, floats, complex
  numbers, big integers and ratios.

  A number is given with what its instance holds; \<open>Imm\<close> is a cell that is not the address of an object, in particular a fixnum, and \<open>Other\<close> the address of
  an object that is no number. \<open>ficlInteger\<close> and \<open>ficl2Integer\<close> have 64 bits; both are cells, read with \<open>sint\<close>.

  Big integers are those of the library \<open>bn(3)\<close>, and floats and complex numbers those of the C library: their functions are the record \<open>num_env\<close>.
  A function of \<open>bn(3)\<close> that can fail for another reason than lack of memory has an option as its result, and \<open>None\<close> raises the exception \<open>BIGNUM_ERROR\<close>
  (\<open>BN_CHECK\<close>). Temporary big integers are not shared, so that functions of \<open>bn(3)\<close> which change an argument return it instead.
\<close>

record 'b FRatio =
  r_num :: 'b
  r_den :: 'b

datatype ('b, 'f, 'c) fnum = Imm cell | Other addr | LLong cell | FFloat 'f | FComplex 'c | Bignum 'b | FRat "'b FRatio"

datatype num_error = MATH_ERROR | BIGNUM_ERROR | WRONG_TYPE_ARG | NUM_UNDERFLOW

type_synonym 'a num_result = "(num_error, 'a) outcome"

record ('b, 'f, 'c) num_env =
  BN_add :: "'b \<Rightarrow> 'b \<Rightarrow> 'b"
  BN_sub :: "'b \<Rightarrow> 'b \<Rightarrow> 'b"
  BN_mul :: "'b \<Rightarrow> 'b \<Rightarrow> 'b"
  BN_div :: "'b \<Rightarrow> 'b \<Rightarrow> 'b option"
  BN_gcd :: "'b \<Rightarrow> 'b \<Rightarrow> 'b"
  BN_exp :: "'b \<Rightarrow> 'b \<Rightarrow> 'b"
  BN_cmp :: "'b \<Rightarrow> 'b \<Rightarrow> int"
  BN_set_word :: "cell \<Rightarrow> 'b"
  BN_get_word :: "'b \<Rightarrow> cell"
  BN_is_negative :: "'b \<Rightarrow> bool"
  BN_set_negative :: "'b \<Rightarrow> bool \<Rightarrow> 'b"
  BN_is_odd :: "'b \<Rightarrow> bool"
  BN_lshift :: "'b \<Rightarrow> int \<Rightarrow> 'b option"
  BN_rshift :: "'b \<Rightarrow> int \<Rightarrow> 'b option"
  BN_dec2bn :: "string \<Rightarrow> 'b option"
  BN_bn2dec :: "'b \<Rightarrow> string"
  f_of_int :: "int \<Rightarrow> 'f"
  f_to_cell :: "'f \<Rightarrow> cell"
  f_to_ucell :: "'f \<Rightarrow> cell"
  f_rint :: "'f \<Rightarrow> 'f"
  f_floor :: "'f \<Rightarrow> 'f"
  f_ceil :: "'f \<Rightarrow> 'f"
  f_neg :: "'f \<Rightarrow> 'f"
  f_add :: "'f \<Rightarrow> 'f \<Rightarrow> 'f"
  f_sub :: "'f \<Rightarrow> 'f \<Rightarrow> 'f"
  f_mul :: "'f \<Rightarrow> 'f \<Rightarrow> 'f"
  f_div :: "'f \<Rightarrow> 'f \<Rightarrow> 'f"
  f_eq :: "'f \<Rightarrow> 'f \<Rightarrow> bool"
  f_less :: "'f \<Rightarrow> 'f \<Rightarrow> bool"
  f_frexp :: "'f \<Rightarrow> 'f \<times> int"
  f_ldexp :: "'f \<Rightarrow> int \<Rightarrow> 'f"
  f_dec :: "'f \<Rightarrow> string"
  c_real :: "'c \<Rightarrow> 'f"
  c_imag :: "'c \<Rightarrow> 'f"
  c_of_float :: "'f \<Rightarrow> 'c"
  c_add :: "'c \<Rightarrow> 'c \<Rightarrow> 'c"
  c_sub :: "'c \<Rightarrow> 'c \<Rightarrow> 'c"
  c_mul :: "'c \<Rightarrow> 'c \<Rightarrow> 'c"
  c_divide :: "'c \<Rightarrow> 'c \<Rightarrow> 'c"

text \<open>\<open>BN_CHECK\<close> and \<open>BN_CHECKP\<close>.\<close>

definition BN_CHECK :: "'a option \<Rightarrow> 'a num_result" where
  "BN_CHECK r = (case r of None \<Rightarrow> Throw BIGNUM_ERROR | Some x \<Rightarrow> Ok x)"

definition BN_zero :: "('b, 'f, 'c) num_env \<Rightarrow> 'b" where "BN_zero N = BN_set_word N 0"
definition BN_one :: "('b, 'f, 'c) num_env \<Rightarrow> 'b" where "BN_one N = BN_set_word N 1"

definition BN_is_zero :: "('b, 'f, 'c) num_env \<Rightarrow> 'b \<Rightarrow> bool" where "BN_is_zero N x = (BN_cmp N x (BN_zero N) = 0)"
definition BN_is_one :: "('b, 'f, 'c) num_env \<Rightarrow> 'b \<Rightarrow> bool" where "BN_is_one N x = (BN_cmp N x (BN_one N) = 0)"

subsection \<open>Fixnums\<close>

definition FIXNUM_MAX :: int where "FIXNUM_MAX = 2 ^ 62 - 1"
definition FIXNUM_MIN :: int where "FIXNUM_MIN = - (2 ^ 62)"
definition FIXNUM_UMAX :: cell where "FIXNUM_UMAX = drop_bit 1 (- 1)"

definition FIXABLE_P :: "int \<Rightarrow> bool" where "FIXABLE_P n = (n \<le> FIXNUM_MAX \<and> n \<ge> FIXNUM_MIN)"
definition UFIXABLE_P :: "cell \<Rightarrow> bool" where "UFIXABLE_P u = (u \<le> FIXNUM_UMAX)"

definition INT_TO_FIX :: "cell \<Rightarrow> cell" where "INT_TO_FIX n = push_bit 1 n OR 1"
definition FIX_TO_INT :: "cell \<Rightarrow> cell" where "FIX_TO_INT c = signed_drop_bit 1 c"
definition FIX_TO_UNSIGNED :: "cell \<Rightarrow> cell" where "FIX_TO_UNSIGNED c = drop_bit 1 c"

definition FTH_ZERO :: "('b, 'f, 'c) fnum" where "FTH_ZERO = Imm (INT_TO_FIX 0)"
definition FTH_ONE :: "('b, 'f, 'c) fnum" where "FTH_ONE = Imm (INT_TO_FIX 1)"

fun NUMB_FIXNUM_P :: "('b, 'f, 'c) fnum \<Rightarrow> bool" where
  "NUMB_FIXNUM_P (Imm c) = (c AND 3 \<noteq> 0 \<and> c AND 1 \<noteq> 0)"
| "NUMB_FIXNUM_P _ = False"

subsection \<open>Types of numbers\<close>

definition FTH_LLONG_T :: int where "FTH_LLONG_T = 8"
definition FTH_FLOAT_T :: int where "FTH_FLOAT_T = 9"
definition FTH_COMPLEX_T :: int where "FTH_COMPLEX_T = 10"
definition FTH_BIGNUM_T :: int where "FTH_BIGNUM_T = 11"
definition FTH_RATIO_T :: int where "FTH_RATIO_T = 12"

text \<open>The type of an instance that is a number, and \<open>-1\<close> for anything else.\<close>

fun number_type :: "('b, 'f, 'c) fnum \<Rightarrow> int" where
  "number_type (Imm c) = -1"
| "number_type (Other a) = -1"
| "number_type (LLong d) = FTH_LLONG_T"
| "number_type (FFloat f) = FTH_FLOAT_T"
| "number_type (FComplex z) = FTH_COMPLEX_T"
| "number_type (Bignum b) = FTH_BIGNUM_T"
| "number_type (FRat r) = FTH_RATIO_T"

definition FTH_NUMBER_T_P :: "('b, 'f, 'c) fnum \<Rightarrow> bool" where
  "FTH_NUMBER_T_P x = (number_type x \<noteq> -1)"

fun FTH_EXACT_T_P :: "('b, 'f, 'c) fnum \<Rightarrow> bool" where
  "FTH_EXACT_T_P (LLong d) = True" | "FTH_EXACT_T_P (Bignum b) = True" | "FTH_EXACT_T_P (FRat r) = True" | "FTH_EXACT_T_P _ = False"

fun FTH_INEXACT_P :: "('b, 'f, 'c) fnum \<Rightarrow> bool" where
  "FTH_INEXACT_P (FFloat f) = True" | "FTH_INEXACT_P (FComplex z) = True" | "FTH_INEXACT_P _ = False"

fun FTH_LLONG_P :: "('b, 'f, 'c) fnum \<Rightarrow> bool" where
  "FTH_LLONG_P (LLong d) = True" | "FTH_LLONG_P _ = False"

fun FTH_BIGNUM_P :: "('b, 'f, 'c) fnum \<Rightarrow> bool" where
  "FTH_BIGNUM_P (Bignum b) = True" | "FTH_BIGNUM_P _ = False"

fun FTH_RATIO_P :: "('b, 'f, 'c) fnum \<Rightarrow> bool" where
  "FTH_RATIO_P (FRat r) = True" | "FTH_RATIO_P _ = False"

definition fth_fixnum_p :: "('b, 'f, 'c) fnum \<Rightarrow> bool" where "fth_fixnum_p obj = NUMB_FIXNUM_P obj"
definition fth_number_p :: "('b, 'f, 'c) fnum \<Rightarrow> bool" where "fth_number_p obj = (NUMB_FIXNUM_P obj \<or> FTH_NUMBER_T_P obj)"
definition fth_exact_p :: "('b, 'f, 'c) fnum \<Rightarrow> bool" where "fth_exact_p obj = (NUMB_FIXNUM_P obj \<or> FTH_EXACT_T_P obj)"
definition fth_integer_p :: "('b, 'f, 'c) fnum \<Rightarrow> bool" where "fth_integer_p obj = (NUMB_FIXNUM_P obj \<or> FTH_LLONG_P obj)"

fun fth_ullong_p :: "('b, 'f, 'c) fnum \<Rightarrow> bool" where
  "fth_ullong_p (LLong d) = (sint d \<ge> 0)" | "fth_ullong_p _ = False"

subsection \<open>Integers and objects\<close>

definition fth_make_llong :: "cell \<Rightarrow> ('b, 'f, 'c) fnum" where "fth_make_llong d = LLong d"
definition fth_make_ullong :: "cell \<Rightarrow> ('b, 'f, 'c) fnum" where "fth_make_ullong ud = LLong ud"

definition fth_make_int :: "cell \<Rightarrow> ('b, 'f, 'c) fnum" where
  "fth_make_int n = (if FIXABLE_P (sint n) then Imm (INT_TO_FIX n) else fth_make_llong n)"

definition fth_make_unsigned :: "cell \<Rightarrow> ('b, 'f, 'c) fnum" where
  "fth_make_unsigned u = (if UFIXABLE_P u then Imm (INT_TO_FIX u) else fth_make_ullong u)"

definition fth_make_long_long :: "cell \<Rightarrow> ('b, 'f, 'c) fnum" where
  "fth_make_long_long d = (if FIXABLE_P (sint d) then Imm (INT_TO_FIX d) else fth_make_llong d)"

definition fth_make_ulong_long :: "cell \<Rightarrow> ('b, 'f, 'c) fnum" where
  "fth_make_ulong_long ud = (if UFIXABLE_P ud then Imm (INT_TO_FIX ud) else fth_make_ullong ud)"

definition bn_to_int :: "('b, 'f, 'c) num_env \<Rightarrow> 'b \<Rightarrow> cell" where
  "bn_to_int N m = (let x = BN_get_word N m in if BN_is_negative N m then - x else x)"

text \<open>The division is that of signed integers.\<close>

definition quot64 :: "cell \<Rightarrow> cell \<Rightarrow> cell num_result" where
  "quot64 x y = (if y = 0 \<or> (sint x = - (2 ^ 63) \<and> sint y = -1) then Fault else Ok (of_int (c_div (sint x) (sint y))))"

definition rt_to_int :: "('b, 'f, 'c) num_env \<Rightarrow> 'b FRatio \<Rightarrow> cell num_result" where
  "rt_to_int N r =
     (let x = BN_get_word N (r_num r);
          y = BN_get_word N (r_den r);
          x = (if BN_is_negative N (r_num r) then - x else x)
      in quot64 x y)"

definition rt_to_float :: "('b, 'f, 'c) num_env \<Rightarrow> 'b FRatio \<Rightarrow> 'f" where
  "rt_to_float N r =
     (let x = f_of_int N (uint (BN_get_word N (r_num r)));
          y = f_of_int N (uint (BN_get_word N (r_den r)));
          x = (if BN_is_negative N (r_num r) then f_neg N x else x)
      in f_div N x y)"

text \<open>
  What is no number is taken as an integer as it is. The function is called for fixnums, long integers and what is no number; the addresses of
  other numbers are not part of the model.
\<close>

fun fth_integer_ref :: "('b, 'f, 'c) fnum \<Rightarrow> cell num_result" where
  "fth_integer_ref (Imm c) = Ok (if NUMB_FIXNUM_P (Imm c :: ('b, 'f, 'c) fnum) then FIX_TO_INT c else c)"
| "fth_integer_ref (LLong d) = Ok d"
| "fth_integer_ref (Other a) = Ok a"
| "fth_integer_ref _ = Fault"

fun fth_int_ref :: "('b, 'f, 'c) num_env \<Rightarrow> ('b, 'f, 'c) fnum \<Rightarrow> cell num_result" where
  "fth_int_ref N (Imm c) = (if NUMB_FIXNUM_P (Imm c :: ('b, 'f, 'c) fnum) then Ok (FIX_TO_INT c) else Throw WRONG_TYPE_ARG)"
| "fth_int_ref N (Other a) = Throw WRONG_TYPE_ARG"
| "fth_int_ref N (LLong d) = Ok d"
| "fth_int_ref N (FFloat f) = Ok (f_to_cell N (f_rint N f))"
| "fth_int_ref N (FComplex z) = Ok (f_to_cell N (f_rint N (c_real N z)))"
| "fth_int_ref N (Bignum b) = Ok (bn_to_int N b)"
| "fth_int_ref N (FRat r) = rt_to_int N r"

fun fth_int_ref_or_else :: "('b, 'f, 'c) num_env \<Rightarrow> ('b, 'f, 'c) fnum \<Rightarrow> cell \<Rightarrow> cell num_result" where
  "fth_int_ref_or_else N (Imm c) fallback = (if NUMB_FIXNUM_P (Imm c :: ('b, 'f, 'c) fnum) then Ok (FIX_TO_INT c) else Ok fallback)"
| "fth_int_ref_or_else N (Other a) fallback = Ok fallback"
| "fth_int_ref_or_else N x fallback = fth_int_ref N x"

fun fth_long_long_ref :: "('b, 'f, 'c) num_env \<Rightarrow> ('b, 'f, 'c) fnum \<Rightarrow> cell num_result" where
  "fth_long_long_ref N (LLong d) = Ok d"
| "fth_long_long_ref N x = fth_int_ref N x"

text \<open>
  Unsigned integers: a fixnum is shifted without its sign. \<open>fth_ulong_long_ref\<close> takes a long integer that is negative as a
  signed one for a ratio, which it is not.
\<close>

fun fth_unsigned_ref :: "('b, 'f, 'c) num_env \<Rightarrow> ('b, 'f, 'c) fnum \<Rightarrow> cell num_result" where
  "fth_unsigned_ref N (Imm c) = (if NUMB_FIXNUM_P (Imm c :: ('b, 'f, 'c) fnum) then Ok (FIX_TO_UNSIGNED c) else Throw WRONG_TYPE_ARG)"
| "fth_unsigned_ref N (Other a) = Throw WRONG_TYPE_ARG"
| "fth_unsigned_ref N (LLong d) = Ok d"
| "fth_unsigned_ref N (FFloat f) = Ok (f_to_ucell N (f_rint N f))"
| "fth_unsigned_ref N (FComplex z) = Ok (f_to_ucell N (f_rint N (c_real N z)))"
| "fth_unsigned_ref N (Bignum b) = Ok (BN_get_word N b)"
| "fth_unsigned_ref N (FRat r) = rt_to_int N r"

fun fth_ulong_long_ref :: "('b, 'f, 'c) num_env \<Rightarrow> ('b, 'f, 'c) fnum \<Rightarrow> cell num_result" where
  "fth_ulong_long_ref N (LLong d) = (if fth_ullong_p (LLong d :: ('b, 'f, 'c) fnum) then Ok d else Fault)"
| "fth_ulong_long_ref N x = fth_unsigned_ref N x"

fun fth_float_ref :: "('b, 'f, 'c) num_env \<Rightarrow> ('b, 'f, 'c) fnum \<Rightarrow> 'f num_result" where
  "fth_float_ref N (FFloat f) = Ok f"
| "fth_float_ref N (Imm c) = (if NUMB_FIXNUM_P (Imm c :: ('b, 'f, 'c) fnum) then Ok (f_of_int N (sint (FIX_TO_INT c))) else Throw WRONG_TYPE_ARG)"
| "fth_float_ref N (Other a) = Throw WRONG_TYPE_ARG"
| "fth_float_ref N (FComplex z) = Ok (c_real N z)"
| "fth_float_ref N (LLong d) = Ok (f_of_int N (sint d))"
| "fth_float_ref N (Bignum b) = Ok (f_of_int N (sint (bn_to_int N b)))"
| "fth_float_ref N (FRat r) = Ok (rt_to_float N r)"

fun fth_float_ref_or_else :: "('b, 'f, 'c) num_env \<Rightarrow> ('b, 'f, 'c) fnum \<Rightarrow> 'f \<Rightarrow> 'f num_result" where
  "fth_float_ref_or_else N (Imm c) fallback =
     (if NUMB_FIXNUM_P (Imm c :: ('b, 'f, 'c) fnum) then Ok (f_of_int N (sint (FIX_TO_INT c))) else Ok fallback)"
| "fth_float_ref_or_else N (Other a) fallback = Ok fallback"
| "fth_float_ref_or_else N x fallback = fth_float_ref N x"

fun fth_complex_ref :: "('b, 'f, 'c) num_env \<Rightarrow> ('b, 'f, 'c) fnum \<Rightarrow> 'c num_result" where
  "fth_complex_ref N (FComplex z) = Ok z"
| "fth_complex_ref N x = bind_outcome (fth_float_ref N x) (\<lambda>f. Ok (c_of_float N f))"

text \<open>A long integer counts as unsigned when it is not negative.\<close>

definition fth_unsigned_p :: "('b, 'f, 'c) num_env \<Rightarrow> ('b, 'f, 'c) fnum \<Rightarrow> bool num_result" where
  "fth_unsigned_p N obj =
     (if fth_integer_p obj then bind_outcome (fth_long_long_ref N obj) (\<lambda>d. Ok (sint d \<ge> 0)) else Ok False)"

subsection \<open>Big integers\<close>

definition int_to_bn :: "('b, 'f, 'c) num_env \<Rightarrow> cell \<Rightarrow> 'b" where
  "int_to_bn N x = (if sint x < 0 then BN_set_negative N (BN_set_word N (- x)) True else BN_set_word N x)"

definition float_to_bn :: "('b, 'f, 'c) num_env \<Rightarrow> 'f \<Rightarrow> 'b num_result" where
  "float_to_bn N x = BN_CHECK (BN_dec2bn N (f_dec N (f_rint N x)))"

fun fth_to_bn :: "('b, 'f, 'c) num_env \<Rightarrow> ('b, 'f, 'c) fnum \<Rightarrow> 'b num_result" where
  "fth_to_bn N (Bignum b) = Ok b"
| "fth_to_bn N (FFloat f) = float_to_bn N f"
| "fth_to_bn N (FComplex z) = bind_outcome (fth_float_ref N (FComplex z)) (float_to_bn N)"
| "fth_to_bn N (FRat r) = bind_outcome (fth_float_ref N (FRat r)) (float_to_bn N)"
| "fth_to_bn N x = bind_outcome (fth_integer_ref x) (\<lambda>i. Ok (int_to_bn N i))"

datatype math_op = OP_ADD | OP_SUB | OP_MUL | OP_DIV

definition bn_addsub :: "('b, 'f, 'c) num_env \<Rightarrow> ('b, 'f, 'c) fnum \<Rightarrow> ('b, 'f, 'c) fnum \<Rightarrow> math_op \<Rightarrow> 'b num_result" where
  "bn_addsub N m n type = bind_outcome (fth_to_bn N m) (\<lambda>x. bind_outcome (fth_to_bn N n) (\<lambda>y.
     Ok (if type = OP_ADD then BN_add N x y else BN_sub N x y)))"

definition bn_muldiv :: "('b, 'f, 'c) num_env \<Rightarrow> ('b, 'f, 'c) fnum \<Rightarrow> ('b, 'f, 'c) fnum \<Rightarrow> math_op \<Rightarrow> 'b num_result" where
  "bn_muldiv N m n type = bind_outcome (fth_to_bn N m) (\<lambda>x. bind_outcome (fth_to_bn N n) (\<lambda>y.
     if type = OP_MUL then Ok (BN_mul N x y) else BN_CHECK (BN_div N x y)))"

definition fth_make_bignum :: "'b \<Rightarrow> ('b, 'f, 'c) fnum" where "fth_make_bignum m = Bignum m"

definition bn_add :: "('b, 'f, 'c) num_env \<Rightarrow> ('b, 'f, 'c) fnum \<Rightarrow> ('b, 'f, 'c) fnum \<Rightarrow> ('b, 'f, 'c) fnum num_result" where
  "bn_add N m n = bind_outcome (bn_addsub N m n OP_ADD) (\<lambda>r. Ok (fth_make_bignum r))"

definition bn_sub :: "('b, 'f, 'c) num_env \<Rightarrow> ('b, 'f, 'c) fnum \<Rightarrow> ('b, 'f, 'c) fnum \<Rightarrow> ('b, 'f, 'c) fnum num_result" where
  "bn_sub N m n = bind_outcome (bn_addsub N m n OP_SUB) (\<lambda>r. Ok (fth_make_bignum r))"

definition bn_mul :: "('b, 'f, 'c) num_env \<Rightarrow> ('b, 'f, 'c) fnum \<Rightarrow> ('b, 'f, 'c) fnum \<Rightarrow> ('b, 'f, 'c) fnum num_result" where
  "bn_mul N m n = bind_outcome (bn_muldiv N m n OP_MUL) (\<lambda>r. Ok (fth_make_bignum r))"

definition bn_div :: "('b, 'f, 'c) num_env \<Rightarrow> ('b, 'f, 'c) fnum \<Rightarrow> ('b, 'f, 'c) fnum \<Rightarrow> ('b, 'f, 'c) fnum num_result" where
  "bn_div N m n = bind_outcome (bn_muldiv N m n OP_DIV) (\<lambda>r. Ok (fth_make_bignum r))"

definition fth_make_big :: "('b, 'f, 'c) num_env \<Rightarrow> ('b, 'f, 'c) fnum \<Rightarrow> ('b, 'f, 'c) fnum num_result" where
  "fth_make_big N m = bind_outcome (fth_to_bn N m) (\<lambda>b. Ok (fth_make_bignum b))"

definition bn_equal_p :: "('b, 'f, 'c) num_env \<Rightarrow> 'b \<Rightarrow> 'b \<Rightarrow> bool" where
  "bn_equal_p N self obj = (BN_cmp N self obj = 0)"

text \<open>The comparisons of \<open>N_BIGNUM_FUNC_TEST_ZERO\<close> and \<open>N_BIGNUM_FUNC_TEST_TWO_OP\<close>; \<open>rel\<close> is the operator.\<close>

definition fth_bn_test :: "('b, 'f, 'c) num_env \<Rightarrow> (int \<Rightarrow> int \<Rightarrow> bool) \<Rightarrow> ('b, 'f, 'c) fnum \<Rightarrow> bool num_result" where
  "fth_bn_test N rel m = bind_outcome (fth_to_bn N m) (\<lambda>x. Ok (rel (BN_cmp N x (BN_zero N)) 0))"

definition fth_bn_test2 :: "('b, 'f, 'c) num_env \<Rightarrow> (int \<Rightarrow> int \<Rightarrow> bool) \<Rightarrow> ('b, 'f, 'c) fnum \<Rightarrow> ('b, 'f, 'c) fnum \<Rightarrow> bool num_result" where
  "fth_bn_test2 N rel m n = bind_outcome (fth_to_bn N m) (\<lambda>x. bind_outcome (fth_to_bn N n) (\<lambda>y. Ok (rel (BN_cmp N x y) 0)))"

subsection \<open>Ratios\<close>

text \<open>
  \<open>rt_canonicalize\<close>: a denominator that is not zero becomes positive and the fraction is reduced. It returns at once when the denominator is one.
\<close>

definition rt_canonicalize :: "('b, 'f, 'c) num_env \<Rightarrow> 'b FRatio \<Rightarrow> 'b FRatio num_result" where
  "rt_canonicalize N r =
     (if BN_is_zero N (r_den r) then Throw MATH_ERROR
      else if BN_is_one N (r_den r) then Ok r
      else if BN_cmp N (r_num r) (r_den r) = 0 then Ok \<lparr>r_num = BN_one N, r_den = BN_one N\<rparr>
      else let r = (if BN_is_negative N (r_den r)
                    then \<lparr>r_num = BN_set_negative N (r_num r) (\<not> BN_is_negative N (r_num r)), r_den = BN_set_negative N (r_den r) False\<rparr>
                    else r);
               g = BN_gcd N (r_num r) (r_den r)
           in bind_outcome (BN_CHECK (BN_div N (r_num r) g)) (\<lambda>num.
              bind_outcome (BN_CHECK (BN_div N (r_den r) g)) (\<lambda>den. Ok \<lparr>r_num = num, r_den = den\<rparr>)))"

definition make_rational :: "('b, 'f, 'c) num_env \<Rightarrow> 'b \<Rightarrow> 'b \<Rightarrow> ('b, 'f, 'c) fnum num_result" where
  "make_rational N num den = bind_outcome (rt_canonicalize N \<lparr>r_num = num, r_den = den\<rparr>) (\<lambda>r. Ok (FRat r))"

definition fth_make_rational :: "'b FRatio \<Rightarrow> ('b, 'f, 'c) fnum" where "fth_make_rational r = FRat r"

definition fth_make_ratio :: "('b, 'f, 'c) num_env \<Rightarrow> ('b, 'f, 'c) fnum \<Rightarrow> ('b, 'f, 'c) fnum \<Rightarrow> ('b, 'f, 'c) fnum num_result" where
  "fth_make_ratio N num den =
     (if den = FTH_ZERO then Throw MATH_ERROR
      else bind_outcome (fth_to_bn N num) (\<lambda>m. bind_outcome (fth_to_bn N den) (\<lambda>n. make_rational N m n)))"

definition fth_make_ratio_from_int :: "('b, 'f, 'c) num_env \<Rightarrow> cell \<Rightarrow> cell \<Rightarrow> ('b, 'f, 'c) fnum num_result" where
  "fth_make_ratio_from_int N num den =
     (if den = 0 then Throw MATH_ERROR else make_rational N (int_to_bn N num) (int_to_bn N den))"

definition DBL_MANT_DIG :: int where "DBL_MANT_DIG = 53"

definition fth_make_ratio_from_float :: "('b, 'f, 'c) num_env \<Rightarrow> 'f \<Rightarrow> ('b, 'f, 'c) fnum num_result" where
  "fth_make_ratio_from_float N f =
     (let (f, exp) = f_frexp N f;
          f = f_ldexp N f DBL_MANT_DIG;
          exp = exp - DBL_MANT_DIG
      in bind_outcome (float_to_bn N f) (\<lambda>m.
           if exp < 0 then bind_outcome (BN_CHECK (BN_lshift N (BN_one N) (- exp))) (\<lambda>n. make_rational N m n)
           else if exp > 0 then bind_outcome (BN_CHECK (BN_lshift N m exp)) (\<lambda>m. make_rational N m (BN_one N))
           else make_rational N m (BN_one N)))"

fun fth_to_rt :: "('b, 'f, 'c) num_env \<Rightarrow> ('b, 'f, 'c) fnum \<Rightarrow> 'b FRatio num_result" where
  "fth_to_rt N (FRat r) = Ok r"
| "fth_to_rt N (Bignum b) = Ok \<lparr>r_num = b, r_den = BN_one N\<rparr>"
| "fth_to_rt N (FFloat f) = bind_outcome (fth_make_ratio_from_float N f) (\<lambda>n. case n of FRat r \<Rightarrow> Ok r | _ \<Rightarrow> Fault)"
| "fth_to_rt N (FComplex z) = bind_outcome (fth_make_ratio_from_float N (c_real N z)) (\<lambda>n. case n of FRat r \<Rightarrow> Ok r | _ \<Rightarrow> Fault)"
| "fth_to_rt N x = bind_outcome (fth_integer_ref x) (\<lambda>i. Ok \<lparr>r_num = int_to_bn N i, r_den = BN_one N\<rparr>)"

definition rt_equal_p :: "('b, 'f, 'c) num_env \<Rightarrow> 'b FRatio \<Rightarrow> 'b FRatio \<Rightarrow> bool" where
  "rt_equal_p N self obj = (BN_cmp N (r_num self) (r_num obj) = 0 \<and> BN_cmp N (r_den self) (r_den obj) = 0)"

definition rt_cmp :: "('b, 'f, 'c) num_env \<Rightarrow> 'b FRatio \<Rightarrow> 'b FRatio \<Rightarrow> int" where
  "rt_cmp N m n =
     (if BN_cmp N (r_den m) (r_den n) = 0 then BN_cmp N (r_num m) (r_num n)
      else let num1 = BN_mul N (r_num m) (r_den n);
               num2 = BN_mul N (r_den m) (r_num n)
           in BN_cmp N (BN_sub N num1 num2) (BN_zero N))"

definition rt_addsub :: "('b, 'f, 'c) num_env \<Rightarrow> ('b, 'f, 'c) fnum \<Rightarrow> ('b, 'f, 'c) fnum \<Rightarrow> math_op \<Rightarrow> 'b FRatio num_result" where
  "rt_addsub N m n type =
     bind_outcome (fth_to_rt N m) (\<lambda>x. bind_outcome (fth_to_rt N n) (\<lambda>y.
       let g = BN_gcd N (r_den x) (r_den y) in
       bind_outcome (BN_CHECK (BN_div N (r_den y) g)) (\<lambda>tmp.
       let tmpx = BN_mul N (r_num x) tmp in
       bind_outcome (BN_CHECK (BN_div N (r_den x) g)) (\<lambda>tmp.
       let tmpy = BN_mul N (r_num y) tmp;
           tmpz = (if type = OP_ADD then BN_add N tmpx tmpy else BN_sub N tmpx tmpy) in
       bind_outcome (BN_CHECK (BN_div N (r_den x) g)) (\<lambda>tmpy.
       let g = BN_gcd N tmpz g in
       bind_outcome (BN_CHECK (BN_div N tmpz g)) (\<lambda>num.
       bind_outcome (BN_CHECK (BN_div N (r_den y) g)) (\<lambda>tmpx.
         Ok \<lparr>r_num = num, r_den = BN_mul N tmpx tmpy\<rparr>)))))))"

definition rt_muldiv :: "('b, 'f, 'c) num_env \<Rightarrow> ('b, 'f, 'c) fnum \<Rightarrow> ('b, 'f, 'c) fnum \<Rightarrow> math_op \<Rightarrow> 'b FRatio num_result" where
  "rt_muldiv N m n type =
     bind_outcome (fth_to_rt N m) (\<lambda>x. bind_outcome (fth_to_rt N n) (\<lambda>y.
       let (x, y) =
             (if type = OP_DIV
              then let (x, y) =
                         (if BN_is_negative N (r_num y)
                          then (x\<lparr>r_num := BN_set_negative N (r_num x) (\<not> BN_is_negative N (r_num x))\<rparr>,
                                y\<lparr>r_num := BN_set_negative N (r_num y) (\<not> BN_is_negative N (r_num y))\<rparr>)
                          else (x, y))
                   in (x, \<lparr>r_num = r_den y, r_den = r_num y\<rparr>)
              else (x, y));
           gcd1 = BN_gcd N (r_num x) (r_den y);
           gcd2 = BN_gcd N (r_den x) (r_num y) in
       bind_outcome (BN_CHECK (BN_div N (r_num x) gcd1)) (\<lambda>tmp1.
       bind_outcome (BN_CHECK (BN_div N (r_num y) gcd2)) (\<lambda>tmp2.
       let num = BN_mul N tmp1 tmp2 in
       bind_outcome (BN_CHECK (BN_div N (r_den x) gcd2)) (\<lambda>tmp1.
       bind_outcome (BN_CHECK (BN_div N (r_den y) gcd1)) (\<lambda>tmp2.
         Ok \<lparr>r_num = num, r_den = BN_mul N tmp1 tmp2\<rparr>))))))"

definition rt_add :: "('b, 'f, 'c) num_env \<Rightarrow> ('b, 'f, 'c) fnum \<Rightarrow> ('b, 'f, 'c) fnum \<Rightarrow> ('b, 'f, 'c) fnum num_result" where
  "rt_add N m n = bind_outcome (rt_addsub N m n OP_ADD) (\<lambda>r. Ok (fth_make_rational r))"

definition rt_sub :: "('b, 'f, 'c) num_env \<Rightarrow> ('b, 'f, 'c) fnum \<Rightarrow> ('b, 'f, 'c) fnum \<Rightarrow> ('b, 'f, 'c) fnum num_result" where
  "rt_sub N m n = bind_outcome (rt_addsub N m n OP_SUB) (\<lambda>r. Ok (fth_make_rational r))"

definition rt_mul :: "('b, 'f, 'c) num_env \<Rightarrow> ('b, 'f, 'c) fnum \<Rightarrow> ('b, 'f, 'c) fnum \<Rightarrow> ('b, 'f, 'c) fnum num_result" where
  "rt_mul N m n = bind_outcome (rt_muldiv N m n OP_MUL) (\<lambda>r. Ok (fth_make_rational r))"

definition rt_div :: "('b, 'f, 'c) num_env \<Rightarrow> ('b, 'f, 'c) fnum \<Rightarrow> ('b, 'f, 'c) fnum \<Rightarrow> ('b, 'f, 'c) fnum num_result" where
  "rt_div N m n = bind_outcome (rt_muldiv N m n OP_DIV) (\<lambda>r. Ok (fth_make_rational r))"

text \<open>The comparisons of \<open>N_RATIO_FUNC_TEST_ZERO\<close> and \<open>N_RATIO_FUNC_TEST_TWO_OP\<close>.\<close>

definition fth_rt_test :: "('b, 'f, 'c) num_env \<Rightarrow> (int \<Rightarrow> int \<Rightarrow> bool) \<Rightarrow> ('b, 'f, 'c) fnum \<Rightarrow> bool num_result" where
  "fth_rt_test N rel m =
     (case m of Bignum b \<Rightarrow> Ok (rel (BN_cmp N b (BN_zero N)) 0)
      | _ \<Rightarrow> bind_outcome (fth_to_rt N m) (\<lambda>x. Ok (rel (rt_cmp N x \<lparr>r_num = BN_zero N, r_den = BN_one N\<rparr>) 0)))"

definition fth_rt_test2 :: "('b, 'f, 'c) num_env \<Rightarrow> (int \<Rightarrow> int \<Rightarrow> bool) \<Rightarrow> ('b, 'f, 'c) fnum \<Rightarrow> ('b, 'f, 'c) fnum \<Rightarrow> bool num_result" where
  "fth_rt_test2 N rel m n = bind_outcome (fth_to_rt N m) (\<lambda>x. bind_outcome (fth_to_rt N n) (\<lambda>y. Ok (rel (rt_cmp N x y) 0)))"

subsection \<open>The tower\<close>

text \<open>
  \<open>N_MATH_OP\<close> and \<open>N_CMP_TWO_OP\<close>: both operands are converted to the greater one of their types. If neither is a number object, the cells are
  used as unsigned integers.
\<close>

fun f_op :: "('b, 'f, 'c) num_env \<Rightarrow> math_op \<Rightarrow> 'f \<Rightarrow> 'f \<Rightarrow> 'f" where
  "f_op N OP_ADD = f_add N" | "f_op N OP_SUB = f_sub N" | "f_op N OP_MUL = f_mul N" | "f_op N OP_DIV = f_div N"

fun c_op :: "('b, 'f, 'c) num_env \<Rightarrow> math_op \<Rightarrow> 'c \<Rightarrow> 'c \<Rightarrow> 'c" where
  "c_op N OP_ADD = c_add N" | "c_op N OP_SUB = c_sub N" | "c_op N OP_MUL = c_mul N" | "c_op N OP_DIV = c_divide N"

fun bn_op :: "('b, 'f, 'c) num_env \<Rightarrow> math_op \<Rightarrow> ('b, 'f, 'c) fnum \<Rightarrow> ('b, 'f, 'c) fnum \<Rightarrow> ('b, 'f, 'c) fnum num_result" where
  "bn_op N OP_ADD = bn_add N" | "bn_op N OP_SUB = bn_sub N" | "bn_op N OP_MUL = bn_mul N" | "bn_op N OP_DIV = bn_div N"

fun rt_op :: "('b, 'f, 'c) num_env \<Rightarrow> math_op \<Rightarrow> ('b, 'f, 'c) fnum \<Rightarrow> ('b, 'f, 'c) fnum \<Rightarrow> ('b, 'f, 'c) fnum num_result" where
  "rt_op N OP_ADD = rt_add N" | "rt_op N OP_SUB = rt_sub N" | "rt_op N OP_MUL = rt_mul N" | "rt_op N OP_DIV = rt_div N"

fun int_op :: "math_op \<Rightarrow> cell \<Rightarrow> cell \<Rightarrow> cell num_result" where
  "int_op OP_ADD x y = Ok (x + y)"
| "int_op OP_SUB x y = Ok (x - y)"
| "int_op OP_MUL x y = Ok (x * y)"
| "int_op OP_DIV x y = quot64 x y"

fun uint_op :: "math_op \<Rightarrow> cell \<Rightarrow> cell \<Rightarrow> cell num_result" where
  "uint_op OP_ADD x y = Ok (x + y)"
| "uint_op OP_SUB x y = Ok (x - y)"
| "uint_op OP_MUL x y = Ok (x * y)"
| "uint_op OP_DIV x y = (if y = 0 then Fault else Ok (x div y))"

fun raw_cell :: "('b, 'f, 'c) fnum \<Rightarrow> cell num_result" where
  "raw_cell (Imm c) = Ok c" | "raw_cell (Other a) = Ok a" | "raw_cell _ = Fault"

definition max_type :: "('b, 'f, 'c) fnum \<Rightarrow> ('b, 'f, 'c) fnum \<Rightarrow> int" where
  "max_type m n = max (number_type m) (number_type n)"

definition N_MATH_OP :: "('b, 'f, 'c) num_env \<Rightarrow> math_op \<Rightarrow> ('b, 'f, 'c) fnum \<Rightarrow> ('b, 'f, 'c) fnum \<Rightarrow> ('b, 'f, 'c) fnum num_result" where
  "N_MATH_OP N oper m n =
     (let type = max_type m n
      in if type = FTH_FLOAT_T
         then bind_outcome (fth_float_ref N m) (\<lambda>x. bind_outcome (fth_float_ref N n) (\<lambda>y. Ok (FFloat (f_op N oper x y))))
         else if type = FTH_COMPLEX_T
         then bind_outcome (fth_complex_ref N m) (\<lambda>x. bind_outcome (fth_complex_ref N n) (\<lambda>y. Ok (FComplex (c_op N oper x y))))
         else if type = FTH_BIGNUM_T then bn_op N oper m n
         else if type = FTH_RATIO_T then rt_op N oper m n
         else if type = FTH_LLONG_T
         then bind_outcome (fth_long_long_ref N m) (\<lambda>x. bind_outcome (fth_long_long_ref N n) (\<lambda>y.
              bind_outcome (int_op oper x y) (\<lambda>z. Ok (fth_make_long_long z))))
         else bind_outcome (raw_cell m) (\<lambda>x. bind_outcome (raw_cell n) (\<lambda>y. bind_outcome (uint_op oper x y) (\<lambda>z. Ok (Imm z)))))"

text \<open>Two fixnums.\<close>

definition both_fixnums :: "('b, 'f, 'c) fnum \<Rightarrow> ('b, 'f, 'c) fnum \<Rightarrow> bool" where
  "both_fixnums m n = (NUMB_FIXNUM_P m \<and> NUMB_FIXNUM_P n)"

definition fix_op :: "math_op \<Rightarrow> ('b, 'f, 'c) fnum \<Rightarrow> ('b, 'f, 'c) fnum \<Rightarrow> ('b, 'f, 'c) fnum num_result" where
  "fix_op oper m n = bind_outcome (raw_cell m) (\<lambda>x. bind_outcome (raw_cell n) (\<lambda>y.
     bind_outcome (int_op oper (FIX_TO_INT x) (FIX_TO_INT y)) (\<lambda>z. Ok (fth_make_int z))))"

definition fth_number_add :: "('b, 'f, 'c) num_env \<Rightarrow> ('b, 'f, 'c) fnum \<Rightarrow> ('b, 'f, 'c) fnum \<Rightarrow> ('b, 'f, 'c) fnum num_result" where
  "fth_number_add N m n = (if both_fixnums m n then fix_op OP_ADD m n else N_MATH_OP N OP_ADD m n)"

definition fth_number_sub :: "('b, 'f, 'c) num_env \<Rightarrow> ('b, 'f, 'c) fnum \<Rightarrow> ('b, 'f, 'c) fnum \<Rightarrow> ('b, 'f, 'c) fnum num_result" where
  "fth_number_sub N m n =
     (if both_fixnums m n then fix_op OP_SUB m n
      else if m = Imm 0 \<or> n = Imm 0 then Ok m
      else N_MATH_OP N OP_SUB m n)"

definition fth_number_mul :: "('b, 'f, 'c) num_env \<Rightarrow> ('b, 'f, 'c) fnum \<Rightarrow> ('b, 'f, 'c) fnum \<Rightarrow> ('b, 'f, 'c) fnum num_result" where
  "fth_number_mul N m n = (if both_fixnums m n then fix_op OP_MUL m n else N_MATH_OP N OP_MUL m n)"

definition fth_number_div :: "('b, 'f, 'c) num_env \<Rightarrow> ('b, 'f, 'c) fnum \<Rightarrow> ('b, 'f, 'c) fnum \<Rightarrow> ('b, 'f, 'c) fnum num_result" where
  "fth_number_div N m n = (if both_fixnums m n then fix_op OP_DIV m n else N_MATH_OP N OP_DIV m n)"

definition N_CMP_TWO_OP ::
    "('b, 'f, 'c) num_env \<Rightarrow> ('f \<Rightarrow> 'f \<Rightarrow> bool) \<Rightarrow> (int \<Rightarrow> int \<Rightarrow> bool) \<Rightarrow> ('b, 'f, 'c) fnum \<Rightarrow> ('b, 'f, 'c) fnum \<Rightarrow> bool num_result" where
  "N_CMP_TWO_OP N frel rel m n =
     (let type = max_type m n
      in if type = FTH_FLOAT_T
         then bind_outcome (fth_float_ref N m) (\<lambda>x. bind_outcome (fth_float_ref N n) (\<lambda>y. Ok (frel x y)))
         else if type = FTH_COMPLEX_T
         then bind_outcome (fth_complex_ref N m) (\<lambda>x. bind_outcome (fth_complex_ref N n) (\<lambda>y.
              Ok (frel (c_real N x) (c_real N y) \<and> frel (c_imag N x) (c_imag N y))))
         else if type = FTH_BIGNUM_T then fth_bn_test2 N rel m n
         else if type = FTH_RATIO_T then fth_rt_test2 N rel m n
         else if type = FTH_LLONG_T
         then bind_outcome (fth_long_long_ref N m) (\<lambda>x. bind_outcome (fth_long_long_ref N n) (\<lambda>y. Ok (rel (sint x) (sint y))))
         else bind_outcome (raw_cell m) (\<lambda>x. bind_outcome (raw_cell n) (\<lambda>y. Ok (rel (uint x) (uint y)))))"

definition fix_cmp :: "(int \<Rightarrow> int \<Rightarrow> bool) \<Rightarrow> ('b, 'f, 'c) fnum \<Rightarrow> ('b, 'f, 'c) fnum \<Rightarrow> bool num_result" where
  "fix_cmp rel m n = bind_outcome (raw_cell m) (\<lambda>x. bind_outcome (raw_cell n) (\<lambda>y.
     Ok (rel (sint (FIX_TO_INT x)) (sint (FIX_TO_INT y)))))"

definition fth_number_equal_p :: "('b, 'f, 'c) num_env \<Rightarrow> ('b, 'f, 'c) fnum \<Rightarrow> ('b, 'f, 'c) fnum \<Rightarrow> bool num_result" where
  "fth_number_equal_p N m n = (if both_fixnums m n then fix_cmp (=) m n else N_CMP_TWO_OP N (f_eq N) (=) m n)"

definition fth_number_less_p :: "('b, 'f, 'c) num_env \<Rightarrow> ('b, 'f, 'c) fnum \<Rightarrow> ('b, 'f, 'c) fnum \<Rightarrow> bool num_result" where
  "fth_number_less_p N m n = (if both_fixnums m n then fix_cmp (<) m n else N_CMP_TWO_OP N (f_less N) (<) m n)"

subsection \<open>Exact and inexact numbers, numerator and denominator\<close>

text \<open>\<open>FTH_ASSERT_ARGS\<close> raises \<open>WRONG_TYPE_ARG\<close>.\<close>

definition fth_exact_to_inexact :: "('b, 'f, 'c) num_env \<Rightarrow> ('b, 'f, 'c) fnum \<Rightarrow> ('b, 'f, 'c) fnum num_result" where
  "fth_exact_to_inexact N obj =
     (if \<not> fth_number_p obj then Throw WRONG_TYPE_ARG
      else if fth_exact_p obj then bind_outcome (fth_float_ref N obj) (\<lambda>f. Ok (FFloat f))
      else Ok obj)"

definition fth_inexact_to_exact :: "('b, 'f, 'c) num_env \<Rightarrow> ('b, 'f, 'c) fnum \<Rightarrow> ('b, 'f, 'c) fnum num_result" where
  "fth_inexact_to_exact N obj =
     (if \<not> fth_number_p obj then Throw WRONG_TYPE_ARG
      else if FTH_INEXACT_P obj then bind_outcome (fth_float_ref N obj) (fth_make_ratio_from_float N)
      else Ok obj)"

definition ULONG_MAX :: cell where "ULONG_MAX = - 1"

definition fth_numerator :: "('b, 'f, 'c) num_env \<Rightarrow> ('b, 'f, 'c) fnum \<Rightarrow> ('b, 'f, 'c) fnum" where
  "fth_numerator N obj =
     (if fth_integer_p obj then obj
      else case obj of
        FRat r \<Rightarrow>
          let x = BN_get_word N (r_num r)
          in if x < ULONG_MAX
             then if BN_is_negative N (r_num r) then fth_make_int (- x) else fth_make_int x
             else fth_make_bignum (r_num r)
      | _ \<Rightarrow> FTH_ZERO)"

definition fth_denominator :: "('b, 'f, 'c) num_env \<Rightarrow> ('b, 'f, 'c) fnum \<Rightarrow> ('b, 'f, 'c) fnum" where
  "fth_denominator N obj =
     (case obj of
        FRat r \<Rightarrow>
          let x = BN_get_word N (r_den r)
          in if x < ULONG_MAX then fth_make_int x else fth_make_bignum (r_den r)
      | _ \<Rightarrow> FTH_ONE)"

subsection \<open>Text\<close>

definition bn_to_string :: "('b, 'f, 'c) num_env \<Rightarrow> 'b \<Rightarrow> string" where
  "bn_to_string N self = BN_bn2dec N self"

definition rt_to_string :: "('b, 'f, 'c) num_env \<Rightarrow> 'b FRatio \<Rightarrow> string" where
  "rt_to_string N self = BN_bn2dec N (r_num self) @ ''/'' @ BN_bn2dec N (r_den self)"

text \<open>
  The parse steps for big integers and ratios: the number that is pushed and, while a definition is compiled, taken as a literal, or \<open>None\<close> when the text is
  none. The sign \<open>+\<close> is not copied.
\<close>

definition text_sign :: "string \<Rightarrow> string \<times> string" where
  "text_sign s = (case s of [] \<Rightarrow> ([], [])
     | c # r \<Rightarrow> if c = CHR ''-'' then ([c], r) else if c = CHR ''+'' then ([], r) else ([], s))"

fun all_digits :: "string \<Rightarrow> bool" where
  "all_digits [] = True"
| "all_digits (c # s) = (isdigit c \<and> all_digits s)"

definition ficl_parse_bignum :: "('b, 'f, 'c) num_env \<Rightarrow> string \<Rightarrow> ('b, 'f, 'c) fnum option num_result" where
  "ficl_parse_bignum N s =
     (if length s < 10 then Ok None
      else let (sign, r) = text_sign s
           in if all_digits r
              then case BN_dec2bn N (sign @ r) of None \<Rightarrow> Ok None | Some bn \<Rightarrow> Ok (Some (fth_make_bignum bn))
              else Ok None)"

text \<open>The digits of the numerator and what follows the stroke.\<close>

fun numerator_digits :: "string \<Rightarrow> (string \<times> string) option" where
  "numerator_digits [] = Some ([], [])"
| "numerator_digits (c # s) =
     (if isdigit c then map_option (\<lambda>(d, r). (c # d, r)) (numerator_digits s)
      else if c = CHR ''/'' then Some ([], s)
      else None)"

definition ficl_parse_ratio :: "('b, 'f, 'c) num_env \<Rightarrow> string \<Rightarrow> ('b, 'f, 'c) fnum option num_result" where
  "ficl_parse_ratio N s =
     (if length s < 3 then Ok None
      else let (sign, r) = text_sign s
           in case numerator_digits r of None \<Rightarrow> Ok None
              | Some (snum, sden) \<Rightarrow>
                  if all_digits sden
                  then case BN_dec2bn N (sign @ snum) of None \<Rightarrow> Ok None
                       | Some bn \<Rightarrow>
                           (case BN_dec2bn N sden of None \<Rightarrow> Ok None
                            | Some bd \<Rightarrow> bind_outcome (make_rational N bn bd) (\<lambda>q. Ok (Some q)))
                  else Ok None)"

subsection \<open>Words\<close>

text \<open>
  The words for big integers and ratios on the data stack, given as the list of its cells from the top: a cell that is no object is \<open>Imm\<close>, and \<open>fth_pop_ficl_cell\<close>
  makes an integer of it.
\<close>

type_synonym ('b, 'f, 'c) num_stack = "('b, 'f, 'c) fnum list"

fun fth_pop_ficl_cell :: "('b, 'f, 'c) fnum \<Rightarrow> ('b, 'f, 'c) fnum" where
  "fth_pop_ficl_cell (Imm c) = fth_make_int c"
| "fth_pop_ficl_cell x = x"

text \<open>A word that replaces one cell, and one that replaces two (\<open>N_BIGNUM_MATH_FUNC_OP\<close>).\<close>

fun unary_word :: "(('b, 'f, 'c) fnum \<Rightarrow> ('b, 'f, 'c) fnum num_result) \<Rightarrow> ('b, 'f, 'c) num_stack \<Rightarrow> ('b, 'f, 'c) num_stack num_result" where
  "unary_word f (x # st) = bind_outcome (f (fth_pop_ficl_cell x)) (\<lambda>y. Ok (y # st))"
| "unary_word f [] = Throw NUM_UNDERFLOW"

fun binary_word ::
    "(('b, 'f, 'c) fnum \<Rightarrow> ('b, 'f, 'c) fnum \<Rightarrow> ('b, 'f, 'c) fnum num_result) \<Rightarrow> ('b, 'f, 'c) num_stack \<Rightarrow> ('b, 'f, 'c) num_stack num_result" where
  "binary_word f (n # m # st) = bind_outcome (f (fth_pop_ficl_cell m) (fth_pop_ficl_cell n)) (\<lambda>y. Ok (y # st))"
| "binary_word f _ = Throw NUM_UNDERFLOW"

definition ficl_badd where "ficl_badd N = binary_word (bn_add N)"
definition ficl_bsub where "ficl_bsub N = binary_word (bn_sub N)"
definition ficl_bmul where "ficl_bmul N = binary_word (bn_mul N)"
definition ficl_bdiv where "ficl_bdiv N = binary_word (bn_div N)"
definition ficl_qadd where "ficl_qadd N = binary_word (rt_add N)"
definition ficl_qsub where "ficl_qsub N = binary_word (rt_sub N)"
definition ficl_qmul where "ficl_qmul N = binary_word (rt_mul N)"
definition ficl_qdiv where "ficl_qdiv N = binary_word (rt_div N)"

text \<open>Words that convert their arguments to big integers, and those that change a ratio.\<close>

definition on_bn :: "('b, 'f, 'c) num_env \<Rightarrow> ('b \<Rightarrow> 'b num_result) \<Rightarrow> ('b, 'f, 'c) num_stack \<Rightarrow> ('b, 'f, 'c) num_stack num_result" where
  "on_bn N f = unary_word (\<lambda>x. bind_outcome (fth_to_bn N x) (\<lambda>b. bind_outcome (f b) (\<lambda>r. Ok (fth_make_bignum r))))"

definition on_bn2 :: "('b, 'f, 'c) num_env \<Rightarrow> ('b \<Rightarrow> 'b \<Rightarrow> 'b) \<Rightarrow> ('b, 'f, 'c) num_stack \<Rightarrow> ('b, 'f, 'c) num_stack num_result" where
  "on_bn2 N f = binary_word (\<lambda>m n. bind_outcome (fth_to_bn N m) (\<lambda>x. bind_outcome (fth_to_bn N n) (\<lambda>y. Ok (fth_make_bignum (f x y)))))"

definition on_rt :: "('b, 'f, 'c) num_env \<Rightarrow> ('b FRatio \<Rightarrow> 'b FRatio) \<Rightarrow> ('b, 'f, 'c) num_stack \<Rightarrow> ('b, 'f, 'c) num_stack num_result" where
  "on_rt N f = unary_word (\<lambda>x. bind_outcome (fth_to_rt N x) (\<lambda>r. Ok (fth_make_rational (f r))))"

definition ficl_bpow where "ficl_bpow N = on_bn2 N (BN_exp N)"
definition ficl_bnegate where "ficl_bnegate N = on_bn N (\<lambda>b. Ok (BN_set_negative N b (\<not> BN_is_negative N b)))"
definition ficl_babs where "ficl_babs N = on_bn N (\<lambda>b. Ok (if BN_is_negative N b then BN_set_negative N b False else b))"
definition ficl_bmin where "ficl_bmin N = on_bn2 N (\<lambda>x y. if BN_cmp N x y < 0 then x else y)"
definition ficl_bmax where "ficl_bmax N = on_bn2 N (\<lambda>x y. if BN_cmp N x y \<ge> 0 then x else y)"
definition ficl_btwostar where "ficl_btwostar N = on_bn N (\<lambda>b. BN_CHECK (BN_lshift N b 1))"
definition ficl_btwoslash where "ficl_btwoslash N = on_bn N (\<lambda>b. BN_CHECK (BN_rshift N b 1))"

definition ficl_to_ratio where "ficl_to_ratio N = on_rt N (\<lambda>r. r)"

definition ficl_qnegate where
  "ficl_qnegate N = on_rt N (\<lambda>r. r\<lparr>r_num := BN_set_negative N (r_num r) (\<not> BN_is_negative N (r_num r))\<rparr>)"

definition ficl_qabs where
  "ficl_qabs N = on_rt N (\<lambda>r. if BN_is_negative N (r_num r) then r\<lparr>r_num := BN_set_negative N (r_num r) False\<rparr> else r)"

text \<open>\<open>1/q\<close> divides floats; \<open>qfloor\<close> and \<open>qceil\<close> take whatever they find for a ratio.\<close>

definition ficl_qinvert where
  "ficl_qinvert N = unary_word (\<lambda>x. bind_outcome (fth_float_ref N x) (\<lambda>f. fth_make_ratio_from_float N (f_div N (f_of_int N 1) f)))"

definition ficl_qfloor where
  "ficl_qfloor N = unary_word (\<lambda>x. case x of FRat r \<Rightarrow> Ok (Imm (f_to_cell N (f_floor N (rt_to_float N r)))) | _ \<Rightarrow> Fault)"

definition ficl_qceil where
  "ficl_qceil N = unary_word (\<lambda>x. case x of FRat r \<Rightarrow> Ok (Imm (f_to_cell N (f_ceil N (rt_to_float N r)))) | _ \<Rightarrow> Fault)"

fun fth_ratio_floor :: "('b, 'f, 'c) num_env \<Rightarrow> ('b, 'f, 'c) fnum \<Rightarrow> ('b, 'f, 'c) fnum num_result" where
  "fth_ratio_floor N (FRat r) = fth_make_ratio_from_int N (f_to_cell N (f_floor N (rt_to_float N r))) 1"
| "fth_ratio_floor N _ = Fault"

text \<open>Parity.\<close>

definition number_odd :: "('b, 'f, 'c) num_env \<Rightarrow> ('b, 'f, 'c) fnum \<Rightarrow> bool num_result" where
  "number_odd N m = (case m of Bignum b \<Rightarrow> Ok (BN_is_odd N b)
     | _ \<Rightarrow> bind_outcome (fth_int_ref N m) (\<lambda>i. Ok (c_mod (sint i) 2 \<noteq> 0)))"

end
