(* ===== verification/Fth_Proc.thy ===== *)
theory Fth_Proc
  imports Ficl_Primitives Fth_Number
begin

text \<open>
  Procedures (\<open>src/proc.c\<close>): words with an arity, their execution with arguments on the stack of the machine (\<open>fth_proc_call\<close>, \<open>fth_proc_apply\<close>, \<open>fth_xt_call\<close>,
  \<open>fth_xt_apply\<close>), and optional and keyword arguments (\<open>get-optkey\<close> and its companions). Execution is that of the inner interpreter. Objects are
  cells; the tests for instances and the making of arrays are parameters.
\<close>

section \<open>Objects on the stack\<close>

record proc_env =
  object_type_p :: "cell \<Rightarrow> bool"
  array_of_cells :: "cell list \<Rightarrow> cell"
  array_items :: "cell \<Rightarrow> cell list option"
  fth_undef :: cell

definition FW_PROC :: int where "FW_PROC = 1"
definition FW_KEYWORD :: int where "FW_KEYWORD = 3"

text \<open>
  The header at an address of the dictionary; what is none has no type.
\<close>

definition FICL_WORD_DICT_P :: "ficlVm \<Rightarrow> cell \<Rightarrow> bool" where
  "FICL_WORD_DICT_P vm obj = (d_base (vm_dict vm) \<le> obj \<and> obj < d_base (vm_dict vm) + 8 * d_size (vm_dict vm))"

definition FICL_WORD_DEFINED_P :: "ficlVm \<Rightarrow> cell \<Rightarrow> bool" where
  "FICL_WORD_DEFINED_P vm obj = (obj \<noteq> 0 \<and> FICL_WORD_DICT_P vm obj)"

definition FICL_WORD_REF :: "ficlVm \<Rightarrow> cell \<Rightarrow> ficlWord option" where
  "FICL_WORD_REF vm obj = words (d_heap (vm_dict vm)) obj"

definition fth_word_type_p :: "ficlVm \<Rightarrow> cell \<Rightarrow> int \<Rightarrow> bool" where
  "fth_word_type_p vm obj type =
     (FICL_WORD_DEFINED_P vm obj \<and> (case FICL_WORD_REF vm obj of Some w \<Rightarrow> w_kind w = type | None \<Rightarrow> False))"

definition FTH_PROC_P :: "ficlVm \<Rightarrow> cell \<Rightarrow> bool" where "FTH_PROC_P vm obj = fth_word_type_p vm obj FW_PROC"
definition FTH_KEYWORD_P :: "ficlVm \<Rightarrow> cell \<Rightarrow> bool" where "FTH_KEYWORD_P vm obj = fth_word_type_p vm obj FW_KEYWORD"
definition FICL_WORD_P :: "ficlVm \<Rightarrow> cell \<Rightarrow> bool" where
  "FICL_WORD_P vm obj = (fth_word_type_p vm obj FW_WORD \<or> fth_word_type_p vm obj FW_PROC)"

definition FTH_FIXNUM_P :: "cell \<Rightarrow> bool" where
  "FTH_FIXNUM_P obj = (obj AND 3 \<noteq> 0 \<and> obj AND 1 \<noteq> 0)"

definition make_int :: "fth_env \<Rightarrow> cell \<Rightarrow> cell" where
  "make_int E n = (if FIXABLE_P (sint n) then INT_TO_FIX n else fth_env.fth_make_llong E (sint n))"

definition ficl_to_fth :: "fth_env \<Rightarrow> proc_env \<Rightarrow> ficlVm \<Rightarrow> cell \<Rightarrow> cell" where
  "ficl_to_fth E P vm obj =
     (if obj \<noteq> 0 \<and> (FICL_WORD_DICT_P vm obj \<or> object_type_p P obj \<or> fth_instance_p E obj) then obj else make_int E obj)"

definition fth_to_ficl :: "cell \<Rightarrow> cell" where
  "fth_to_ficl obj = (if FTH_FIXNUM_P obj then FIX_TO_INT obj else obj)"

definition pop_ficl_cell :: "fth_env \<Rightarrow> proc_env \<Rightarrow> ficlVm \<Rightarrow> (cell \<times> ficlVm) vm_result" where
  "pop_ficl_cell E P vm = bind_outcome (ficlVmPop vm) (\<lambda>(obj, vm). Ok (ficl_to_fth E P vm obj, vm))"

definition push_ficl_cell :: "ficlVm \<Rightarrow> cell \<Rightarrow> ficlVm vm_result" where
  "push_ficl_cell vm obj = ficlVmPush vm (fth_to_ficl obj)"

definition FTH_STACK_DEPTH :: "ficlVm \<Rightarrow> int" where "FTH_STACK_DEPTH vm = STKDEPTH (vm_dataStack vm)"

text \<open>
  What \<open>fth_throw\<close> does to the machine: outside of \<open>fth-catch\<close> it is reset. The texts of the exception are left out.
\<close>

definition fth_throw :: "ficlVm \<Rightarrow> 'a vm_result" where
  "fth_throw vm = ficlVmThrow (if vm_fth_catch_p vm then vm else ficlVmReset vm) FICL_VM_STATUS_ABORT"

definition FTH_STACK_CHECK :: "ficlVm \<Rightarrow> int \<Rightarrow> 'a vm_result \<Rightarrow> 'a vm_result" where
  "FTH_STACK_CHECK vm pop k = (if pop > FTH_STACK_DEPTH vm then fth_throw vm else k)"

section \<open>Procedures\<close>

definition fth_proc_arity :: "ficlVm \<Rightarrow> cell \<Rightarrow> int" where
  "fth_proc_arity vm proc = (if FTH_PROC_P vm proc then (case FICL_WORD_REF vm proc of Some w \<Rightarrow> w_req w | None \<Rightarrow> 0) else 0)"

definition fth_proc_to_xt :: "ficlVm \<Rightarrow> cell \<Rightarrow> addr" where
  "fth_proc_to_xt vm proc = (if FICL_WORD_P vm proc then proc else NULL)"

text \<open>\<open>fth_make_proc\<close> makes a procedure of an existing word (the branch of \<open>make_procedure\<close> for words).\<close>

definition fth_make_proc :: "ficlVm \<Rightarrow> addr \<Rightarrow> int \<Rightarrow> int \<Rightarrow> int \<Rightarrow> (cell \<times> ficlVm) vm_result" where
  "fth_make_proc vm word req opt rest =
     (if word \<noteq> NULL \<and> FICL_WORD_P vm word
      then case FICL_WORD_REF vm word of
          Some w \<Rightarrow> Ok (word, vm\<lparr>vm_dict := set_word word (w\<lparr>w_req := req, w_opt := opt, w_rest := rest, w_argc := req + opt + rest,
                       w_kind := FW_PROC, w_func := word\<rparr>) (vm_dict vm)\<rparr>)
        | None \<Rightarrow> Fault
      else fth_throw vm)"

text \<open>The words about procedures: tests, \<open>make-proc\<close>, \<open>proc-arity\<close> and \<open>proc->xt\<close>.\<close>

definition push_bool :: "fth_env \<Rightarrow> bool \<Rightarrow> ficlVm \<Rightarrow> ficlVm vm_result" where
  "push_bool E b vm = ficlVmPush vm (BOOL_TO_FTH E b)"

definition ficl_proc_p :: "fth_env \<Rightarrow> ficlVm \<Rightarrow> ficlVm vm_result" where
  "ficl_proc_p E vm = FTH_STACK_CHECK vm 1 (bind_outcome (ficlVmPop vm) (\<lambda>(obj, vm). push_bool E (FTH_PROC_P vm obj) vm))"

definition ficl_thunk_p :: "fth_env \<Rightarrow> ficlVm \<Rightarrow> ficlVm vm_result" where
  "ficl_thunk_p E vm = FTH_STACK_CHECK vm 1 (bind_outcome (ficlVmPop vm) (\<lambda>(obj, vm).
     push_bool E (FTH_PROC_P vm obj \<and>
       (case FICL_WORD_REF vm obj of Some w \<Rightarrow> w_req w = 0 \<and> w_opt w = 0 \<and> w_rest w = 0 | None \<Rightarrow> False)) vm))"

definition ficl_xt_p :: "fth_env \<Rightarrow> ficlVm \<Rightarrow> ficlVm vm_result" where
  "ficl_xt_p E vm = FTH_STACK_CHECK vm 1 (bind_outcome (ficlVmPop vm) (\<lambda>(obj, vm). push_bool E (fth_word_type_p vm obj FW_WORD) vm))"

definition ficl_word_p :: "fth_env \<Rightarrow> ficlVm \<Rightarrow> ficlVm vm_result" where
  "ficl_word_p E vm = FTH_STACK_CHECK vm 1 (bind_outcome (ficlVmPop vm) (\<lambda>(obj, vm). push_bool E (FICL_WORD_P vm obj) vm))"

definition ficl_make_proc :: "fth_env \<Rightarrow> proc_env \<Rightarrow> ficlVm \<Rightarrow> ficlVm vm_result" where
  "ficl_make_proc E P vm =
     FTH_STACK_CHECK vm 2 (
     bind_outcome (pop_ficl_cell E P vm) (\<lambda>(arity, vm).
     bind_outcome (ficlVmPop vm) (\<lambda>(word, vm).
       let (req, opt, rest) = (case array_items P arity of
             Some [r, q, t] \<Rightarrow> (c_int (FIX_TO_INT r), c_int (FIX_TO_INT q), if t \<noteq> FTH_FALSE E then 1 else 0)
           | _ \<Rightarrow> (c_int (FIX_TO_INT arity), 0, 0))
       in bind_outcome (fth_make_proc vm word req opt rest) (\<lambda>(prc, vm). ficlVmPush vm prc))))"

definition ficl_proc_arity :: "fth_env \<Rightarrow> proc_env \<Rightarrow> ficlVm \<Rightarrow> ficlVm vm_result" where
  "ficl_proc_arity E P vm =
     FTH_STACK_CHECK vm 1 (bind_outcome (ficlVmPop vm) (\<lambda>(proc, vm).
       if FTH_PROC_P vm proc
       then case FICL_WORD_REF vm proc of None \<Rightarrow> Fault
         | Some w \<Rightarrow> ficlVmPush vm (array_of_cells P [INT_TO_FIX (of_int (w_req w)), INT_TO_FIX (of_int (w_opt w)), BOOL_TO_FTH E (w_rest w \<noteq> 0)])
       else push_bool E False vm))"

definition ficl_proc_to_xt :: "fth_env \<Rightarrow> ficlVm \<Rightarrow> ficlVm vm_result" where
  "ficl_proc_to_xt E vm =
     FTH_STACK_CHECK vm 1 (bind_outcome (ficlVmPop vm) (\<lambda>(proc, vm).
       if FICL_WORD_P vm proc then ficlVmPush vm proc else push_bool E False vm))"

definition proc_from_proc_or_xt :: "fth_env \<Rightarrow> ficlVm \<Rightarrow> cell \<Rightarrow> int \<Rightarrow> int \<Rightarrow> int \<Rightarrow> (cell \<times> ficlVm) vm_result" where
  "proc_from_proc_or_xt E vm obj req opt rest =
     (if FTH_PROC_P vm obj
      then case FICL_WORD_REF vm obj of
          Some w \<Rightarrow> if w_req w \<noteq> req \<or> w_opt w \<noteq> opt \<or> w_rest w \<noteq> rest then fth_throw vm else Ok (obj, vm)
        | None \<Rightarrow> Fault
      else if FICL_WORD_P vm obj then fth_make_proc vm obj req opt rest
      else Ok (FTH_FALSE E, vm))"

definition fth_execute_xt :: "fth_env \<Rightarrow> addr \<Rightarrow> bool \<Rightarrow> ficlVm \<Rightarrow> addr \<Rightarrow> (int \<times> ficlVm) vm_result option" where
  "fth_execute_xt E exitInnerWord nested vm word =
     (if word \<noteq> NULL
      then map_option (\<lambda>r. bind_outcome r (\<lambda>(status, vm). Ok (status, gc_pop vm))) (ficlVmExecuteXT E exitInnerWord nested (gc_push vm word) word)
      else Some (Ok (FICL_VM_STATUS_OUT_OF_TEXT, vm)))"

text \<open>The values a word has left, from the top of the stack down.\<close>

fun pop_values :: "fth_env \<Rightarrow> proc_env \<Rightarrow> nat \<Rightarrow> ficlVm \<Rightarrow> (cell list \<times> ficlVm) vm_result" where
  "pop_values E P 0 vm = Ok ([], vm)"
| "pop_values E P (Suc n) vm =
     bind_outcome (pop_ficl_cell E P vm) (\<lambda>(x, vm). bind_outcome (pop_values E P n vm) (\<lambda>(xs, vm). Ok (x # xs, vm)))"

definition collect_values :: "fth_env \<Rightarrow> proc_env \<Rightarrow> int \<Rightarrow> ficlVm \<Rightarrow> (cell \<times> ficlVm) vm_result" where
  "collect_values E P depth vm =
     (if FTH_STACK_DEPTH vm > depth
      then let new_depth = FTH_STACK_DEPTH vm - depth
           in if new_depth = 1 then pop_ficl_cell E P vm
              else bind_outcome (pop_values E P (nat new_depth) vm) (\<lambda>(xs, vm). Ok (array_of_cells P xs, vm))
      else Ok (FTH_FALSE E, vm))"

definition execute_proc :: "fth_env \<Rightarrow> proc_env \<Rightarrow> addr \<Rightarrow> bool \<Rightarrow> ficlVm \<Rightarrow> addr \<Rightarrow> int \<Rightarrow> (cell \<times> ficlVm) vm_result option" where
  "execute_proc E P exitInnerWord nested vm word depth =
     map_option (\<lambda>r. bind_outcome r (\<lambda>(status, vm).
         if status \<in> {FICL_VM_STATUS_ERROR_EXIT, FICL_VM_STATUS_ABORT, FICL_VM_STATUS_ABORTQ}
         then ficlVmThrowException vm status
         else collect_values E P depth vm))
       (fth_execute_xt E exitInnerWord nested vm word)"

fun push_args :: "cell list \<Rightarrow> ficlVm \<Rightarrow> ficlVm vm_result" where
  "push_args [] vm = Ok vm"
| "push_args (x # xs) vm = bind_outcome (push_ficl_cell vm x) (push_args xs)"

text \<open>The arguments as a C array (\<open>fth_xt_call\<close>, \<open>fth_proc_call\<close>) or as an object (\<open>fth_xt_apply\<close>, \<open>fth_proc_apply\<close>).\<close>

definition fth_xt_call ::
    "fth_env \<Rightarrow> proc_env \<Rightarrow> addr \<Rightarrow> bool \<Rightarrow> ficlVm \<Rightarrow> string option \<Rightarrow> cell list \<Rightarrow> (cell \<times> ficlVm) vm_result option" where
  "fth_xt_call E P exitInnerWord nested vm name args =
     (case name of None \<Rightarrow> Some (Ok (FTH_FALSE E, vm))
      | Some s \<Rightarrow>
          if s = [] then Some (Ok (FTH_FALSE E, vm))
          else Option.bind (ficlDictionaryLookup (vm_dict vm) s) (\<lambda>r. case r of
              Ok xt \<Rightarrow>
                if xt = NULL then Some (Ok (FTH_FALSE E, vm))
                else let depth = FTH_STACK_DEPTH vm
                     in then_run (push_args args vm) (\<lambda>vm. execute_proc E P exitInnerWord nested vm xt depth)
            | Throw e \<Rightarrow> Some (ficlVmThrowException vm e)
            | Fault \<Rightarrow> Some Fault))"

definition fth_xt_apply ::
    "fth_env \<Rightarrow> proc_env \<Rightarrow> addr \<Rightarrow> bool \<Rightarrow> ficlVm \<Rightarrow> string option \<Rightarrow> cell \<Rightarrow> (cell \<times> ficlVm) vm_result option" where
  "fth_xt_apply E P exitInnerWord nested vm name args =
     fth_xt_call E P exitInnerWord nested vm name (case array_items P args of None \<Rightarrow> [] | Some xs \<Rightarrow> xs)"

definition run_proc :: "fth_env \<Rightarrow> proc_env \<Rightarrow> addr \<Rightarrow> bool \<Rightarrow> ficlVm \<Rightarrow> cell \<Rightarrow> cell list \<Rightarrow> (cell \<times> ficlVm) vm_result option" where
  "run_proc E P exitInnerWord nested vm proc args =
     (case FICL_WORD_REF vm proc of None \<Rightarrow> Some Fault
      | Some w \<Rightarrow>
          if w_req w > int (length args) then Some (fth_throw vm)
          else let len = (if int (length args) > w_argc w then w_argc w else int (length args));
                   depth = FTH_STACK_DEPTH vm
               in then_run (push_args (take (nat len) args) vm) (\<lambda>vm. execute_proc E P exitInnerWord nested vm proc depth))"

definition fth_proc_call ::
    "fth_env \<Rightarrow> proc_env \<Rightarrow> addr \<Rightarrow> bool \<Rightarrow> ficlVm \<Rightarrow> cell \<Rightarrow> cell list \<Rightarrow> (cell \<times> ficlVm) vm_result option" where
  "fth_proc_call E P exitInnerWord nested vm proc args =
     (if \<not> FTH_PROC_P vm proc then Some (Ok (FTH_FALSE E, vm)) else run_proc E P exitInnerWord nested vm proc args)"

definition fth_proc_apply ::
    "fth_env \<Rightarrow> proc_env \<Rightarrow> addr \<Rightarrow> bool \<Rightarrow> ficlVm \<Rightarrow> cell \<Rightarrow> cell \<Rightarrow> (cell \<times> ficlVm) vm_result option" where
  "fth_proc_apply E P exitInnerWord nested vm proc args =
     (if proc = 0 \<or> \<not> FTH_PROC_P vm proc then Some (Ok (FTH_FALSE E, vm))
      else case array_items P args of None \<Rightarrow> Some (fth_throw vm)
        | Some xs \<Rightarrow> run_proc E P exitInnerWord nested vm proc xs)"

definition ficl_proc_apply :: "fth_env \<Rightarrow> proc_env \<Rightarrow> addr \<Rightarrow> bool \<Rightarrow> ficlVm \<Rightarrow> ficlVm vm_result option" where
  "ficl_proc_apply E P exitInnerWord nested vm =
     then_run (FTH_STACK_CHECK vm 2 (pop_ficl_cell E P vm)) (\<lambda>(args, vm).
     then_run (ficlVmPop vm) (\<lambda>(obj, vm).
       let args = (if array_items P args = None then array_of_cells P [args] else args)
       in then_run (if FTH_PROC_P vm obj then Ok (obj, vm)
                    else if fth_word_type_p vm obj FW_WORD
                    then fth_make_proc vm obj (case array_items P args of None \<Rightarrow> 0 | Some xs \<Rightarrow> int (length xs)) 0 0
                    else Ok (FTH_FALSE E, vm)) (\<lambda>(proc, vm).
            Option.bind (fth_proc_apply E P exitInnerWord nested vm proc args) (\<lambda>r. then_run r (\<lambda>(res, vm).
              Some (push_ficl_cell vm res))))))"

section \<open>Optional and keyword arguments\<close>

text \<open>
  \<open>STACK_FTH_INDEX_REF\<close> and \<open>STACK_FTH_INDEX_SET\<close>, which do not check the stack, and the operations on the stack of the machine.
\<close>

definition index_ref :: "ficlVm \<Rightarrow> int \<Rightarrow> cell vm_result" where
  "index_ref vm i = vm_lift vm (stk_get (vm_dataStack vm) (- i)) Ok"

definition index_set :: "ficlVm \<Rightarrow> int \<Rightarrow> cell \<Rightarrow> ficlVm vm_result" where
  "index_set vm i c = vm_lift vm (stk_set (vm_dataStack vm) (- i) c) (\<lambda>s. Ok (vm\<lparr>vm_dataStack := s\<rparr>))"

definition vm_roll :: "int \<Rightarrow> ficlVm \<Rightarrow> ficlVm vm_result" where
  "vm_roll n vm = vm_lift vm (ficlStackRoll (vm_dataStack vm) n) (\<lambda>s. Ok (vm\<lparr>vm_dataStack := s\<rparr>))"

definition vm_drop :: "int \<Rightarrow> ficlVm \<Rightarrow> ficlVm" where
  "vm_drop n vm = vm\<lparr>vm_dataStack := ficlStackDrop (vm_dataStack vm) n\<rparr>"

text \<open>The first index from \<open>i\<close> on with the keyword; \<open>n\<close> indices are tried.\<close>

fun key_loop :: "ficlVm \<Rightarrow> cell \<Rightarrow> nat \<Rightarrow> int \<Rightarrow> int option vm_result" where
  "key_loop vm key 0 i = Ok None"
| "key_loop vm key (Suc n) i =
     bind_outcome (index_ref vm i) (\<lambda>tmp.
       if FTH_KEYWORD_P vm tmp \<and> tmp = key then Ok (Some i) else key_loop vm key n (i + 1))"

definition fth_get_optkey :: "fth_env \<Rightarrow> proc_env \<Rightarrow> ficlVm \<Rightarrow> cell \<Rightarrow> cell \<Rightarrow> (cell \<times> ficlVm) vm_result" where
  "fth_get_optkey E P vm key dflt =
     bind_outcome (key_loop vm key (nat (FTH_STACK_DEPTH vm - 1)) 1) (\<lambda>found. case found of
         None \<Rightarrow> Ok (dflt, vm)
       | Some i \<Rightarrow>
           bind_outcome (vm_roll i vm) (\<lambda>vm.
           bind_outcome (vm_roll (i - 1) (vm_drop 1 vm)) (\<lambda>vm.
           bind_outcome (pop_ficl_cell E P vm) (\<lambda>(val, vm). Ok (if val = fth_undef P then dflt else val, vm)))))"

definition fth_get_optkey_fix :: "fth_env \<Rightarrow> proc_env \<Rightarrow> ficlVm \<Rightarrow> cell \<Rightarrow> int \<Rightarrow> (int \<times> ficlVm) vm_result" where
  "fth_get_optkey_fix E P vm key dflt =
     bind_outcome (fth_get_optkey E P vm key (INT_TO_FIX (of_int dflt))) (\<lambda>(res, vm). Ok (c_int (FIX_TO_INT res), vm))"

text \<open>An undefined value on top is dropped for the default below it, another one replaces it.\<close>

definition choose_default :: "proc_env \<Rightarrow> ficlVm \<Rightarrow> ficlVm vm_result" where
  "choose_default P vm =
     bind_outcome (index_ref vm 0) (\<lambda>tmp.
     bind_outcome (if tmp \<noteq> fth_undef P then vm_roll 1 vm else Ok vm) (\<lambda>vm. Ok (vm_drop 1 vm)))"

definition ficl_get_optkey :: "fth_env \<Rightarrow> proc_env \<Rightarrow> ficlVm \<Rightarrow> ficlVm vm_result" where
  "ficl_get_optkey E P vm =
     FTH_STACK_CHECK vm 2 (
     bind_outcome (vm_roll 1 vm) (\<lambda>vm.
     bind_outcome (pop_ficl_cell E P vm) (\<lambda>(key, vm).
     bind_outcome (key_loop vm key (nat (FTH_STACK_DEPTH vm - 2)) 2) (\<lambda>found. case found of
         None \<Rightarrow> Ok vm
       | Some i \<Rightarrow>
           bind_outcome (vm_roll i vm) (\<lambda>vm.
           bind_outcome (vm_roll (i - 1) (vm_drop 1 vm)) (\<lambda>vm. choose_default P vm))))))"

definition fth_get_optarg :: "fth_env \<Rightarrow> proc_env \<Rightarrow> ficlVm \<Rightarrow> int \<Rightarrow> cell \<Rightarrow> (cell \<times> ficlVm) vm_result" where
  "fth_get_optarg E P vm req dflt =
     (if FTH_STACK_DEPTH vm > req
      then bind_outcome (pop_ficl_cell E P vm) (\<lambda>(val, vm). Ok (if val = fth_undef P then dflt else val, vm))
      else Ok (dflt, vm))"

definition ficl_get_optarg :: "proc_env \<Rightarrow> ficlVm \<Rightarrow> ficlVm vm_result" where
  "ficl_get_optarg P vm =
     FTH_STACK_CHECK vm 2 (
     bind_outcome (vm_roll 1 vm) (\<lambda>vm.
     bind_outcome (ficlVmPop vm) (\<lambda>(c, vm).
       if FTH_STACK_DEPTH vm - 1 > sint c
       then bind_outcome (index_ref vm 1) (\<lambda>tmp.
            bind_outcome (if tmp = fth_undef P then vm_roll 1 vm else Ok vm) (\<lambda>vm. Ok (vm_drop 1 vm)))
       else Ok vm)))"

text \<open>
  The loop of \<open>get-optkeys\<close> over the pairs of keys and defaults; \<open>i\<close> is the index of the pair in the array. After the keyword has been dropped the code rolls \<open>i - 1\<close> cells,
  the index in the array, where \<open>get-optkey\<close> rolls the index on the stack.
\<close>

fun optkeys_loop :: "proc_env \<Rightarrow> cell list \<Rightarrow> int \<Rightarrow> ficlVm \<Rightarrow> ficlVm vm_result" where
  "optkeys_loop P (key # val # pairs) i vm =
     bind_outcome (push_ficl_cell vm val) (\<lambda>vm.
     bind_outcome (key_loop vm key (nat (FTH_STACK_DEPTH vm - 2)) 2) (\<lambda>found.
     bind_outcome (case found of
           None \<Rightarrow> Ok vm
         | Some j \<Rightarrow>
             bind_outcome (vm_roll j vm) (\<lambda>vm.
             bind_outcome (vm_roll (i - 1) (vm_drop 1 vm)) (\<lambda>vm. choose_default P vm))) (\<lambda>vm.
       optkeys_loop P pairs (i + 2) vm)))"
| "optkeys_loop P _ i vm = Ok vm"

definition ficl_get_optkeys :: "fth_env \<Rightarrow> proc_env \<Rightarrow> ficlVm \<Rightarrow> ficlVm vm_result" where
  "ficl_get_optkeys E P vm =
     FTH_STACK_CHECK vm 2 (
     bind_outcome (ficlVmPop vm) (\<lambda>(req, vm).
     bind_outcome (pop_ficl_cell E P vm) (\<lambda>(array, vm).
       case array_items P array of
         None \<Rightarrow> fth_throw vm
       | Some items \<Rightarrow>
           if items = [] then Ok vm
           else if length items mod 2 \<noteq> 0 then fth_throw vm
           else FTH_STACK_CHECK vm (sint req) (optkeys_loop P items 0 vm))))"

text \<open>The loop of \<open>get-optargs\<close>: \<open>j\<close> is the index of the argument on the stack, which becomes negative where arguments are missing.\<close>

fun optargs_loop :: "proc_env \<Rightarrow> cell list \<Rightarrow> int \<Rightarrow> int \<Rightarrow> ficlVm \<Rightarrow> ficlVm vm_result" where
  "optargs_loop P [] j pos vm = Ok vm"
| "optargs_loop P (x # xs) j pos vm =
     bind_outcome (index_ref vm j) (\<lambda>tmp.
     bind_outcome (if tmp = fth_undef P then index_set vm j (fth_to_ficl x) else Ok vm) (\<lambda>vm.
     bind_outcome (if FTH_STACK_DEPTH vm \<le> pos then push_ficl_cell vm x else Ok vm) (\<lambda>vm.
       optargs_loop P xs (j - 1) (pos + 1) vm)))"

definition ficl_get_optargs :: "proc_env \<Rightarrow> ficlVm \<Rightarrow> ficlVm vm_result" where
  "ficl_get_optargs P vm =
     FTH_STACK_CHECK vm 2 (
     bind_outcome (ficlVmPop vm) (\<lambda>(req, vm).
     bind_outcome (ficlVmPop vm) (\<lambda>(array, vm).
       case array_items P array of
         None \<Rightarrow> fth_throw vm
       | Some args \<Rightarrow>
           if args = [] then Ok vm
           else FTH_STACK_CHECK vm (sint req)
             (let depth = FTH_STACK_DEPTH vm - sint req;
                  depth = (if depth > int (length args) then int (length args) else depth)
              in optargs_loop P args (depth - 1) (sint req) vm))))"

end
