(* ===== verification/Ficl_Locals.thy ===== *)
theory Ficl_Locals
  imports Ficl_Literals Fth_Proc
begin

text \<open>
  Local variables and values (\<open>ficl/primitives.c\<close>): \<open>(local)\<close>, which names a local in the locals dictionary and compiles its place in the
  frame, the word that a named local runs, and \<open>to\<close>, \<open>+to\<close> and \<open>f+to\<close>, which compile a store to a local or set a value.
  The code address of \<open>ficlLocalParenIm\<close> is chosen by the linker: it is the parameter \<open>im\<close>. The protection of objects against collection
  and the hooks of traced variables change no cell of the machine by themselves and are parameters.
\<close>

section \<open>Words\<close>

definition FICL_MAX_LOCALS :: int where
  "FICL_MAX_LOCALS = 2048"

definition FW_TRACE_VAR :: int where
  "FW_TRACE_VAR = 6"

record value_env =
  gc_protect_set :: "cell \<Rightarrow> cell \<Rightarrow> ficlVm \<Rightarrow> ficlVm"
  trace_var_execute :: "addr \<Rightarrow> ficlVm \<Rightarrow> ficlVm vm_result"

definition FTH_TRACE_VAR_P :: "ficlVm \<Rightarrow> cell \<Rightarrow> bool" where
  "FTH_TRACE_VAR_P vm obj = fth_word_type_p vm obj FW_TRACE_VAR"

text \<open>
  The instructions of an access to a local: those of the first two locals, and the one that the number of the local follows.
\<close>

type_synonym local_insts = "cell \<times> cell \<times> cell"

definition compile_local :: "local_insts \<Rightarrow> int \<Rightarrow> ficlVm \<Rightarrow> ficlVm vm_result" where
  "compile_local insts nLocal vm =
     (let (instruction, appendLocalOffset) =
        (if nLocal = 0 then (fst insts, False) else if nLocal = 1 then (fst (snd insts), False) else (snd (snd insts), True))
      in bind_outcome (PRIMITIVE_APPEND_UNSIGNED vm instruction) (\<lambda>vm.
           if appendLocalOffset then in_dict (\<lambda>d. ficlDictionaryAppendInteger d nLocal) vm else Ok vm))"

text \<open>
  A named local. In interpretation state it reads the frame, in compilation state it compiles the access.
\<close>

definition get_insts :: local_insts where
  "get_insts = (ficlInstructionGetLocal0, ficlInstructionGetLocal1, ficlInstructionGetLocalParen)"

definition ficlLocalParenIm :: "ficlVm \<Rightarrow> ficlVm vm_result" where
  "ficlLocalParenIm vm =
     (case load_cell (d_bytes (vm_locals vm)) (word_param (vm_runningWord vm)) of None \<Rightarrow> Fault
      | Some c \<Rightarrow> let nLocal = sint c in
          if vm_state vm = FICL_VM_STATE_INTERPRET
          then let s = vm_returnStack vm; i = frame_index s nLocal
               in if in_stack s i then ficlVmPush vm (st_cells s i) else Fault
          else compile_local get_insts nLocal vm)"

text \<open>
  \<open>(local)\<close>: a name of length zero ends the declaration, any other is entered into the locals dictionary; the first one compiles \<open>(link)\<close>.
\<close>

definition in_locals :: "(ficlDictionary \<Rightarrow> (int, ficlDictionary) outcome) \<Rightarrow> ficlVm \<Rightarrow> ficlVm vm_result" where
  "in_locals f vm = vm_lift vm (f (vm_locals vm)) (\<lambda>d. Ok (vm\<lparr>vm_locals := d\<rparr>))"

definition open_frame :: "ficlVm \<Rightarrow> ficlVm vm_result" where
  "open_frame vm =
     bind_outcome (PRIMITIVE_APPEND_UNSIGNED vm ficlInstructionLinkParen) (\<lambda>vm.
       in_dict (\<lambda>d. ficlDictionaryAppendInteger d (vm_localsCount vm)) (vm\<lparr>vm_localsFixup := here vm\<rparr>))"

definition add_local :: "cell \<Rightarrow> string \<Rightarrow> ficlVm \<Rightarrow> ficlVm vm_result" where
  "add_local im name vm =
     (if vm_localsCount vm \<ge> FICL_MAX_LOCALS then ficlVmThrowError vm
      else
        bind_outcome (in_locals (\<lambda>locs.
            bind_outcome (ficlDictionaryAppendWord locs name im (FICL_WORD_IMMEDIATE OR FICL_WORD_COMPILE_ONLY)) (\<lambda>(word, locs).
              ficlDictionaryAppendInteger locs (vm_localsCount vm))) vm) (\<lambda>vm.
        bind_outcome (if vm_localsCount vm = 0 then open_frame vm else Ok vm) (\<lambda>vm.
        bind_outcome (PRIMITIVE_APPEND_UNSIGNED vm ficlInstructionToLocalParen) (\<lambda>vm.
        bind_outcome (in_dict (\<lambda>d. ficlDictionaryAppendInteger d (vm_localsCount vm)) vm) (\<lambda>vm.
          Ok (vm\<lparr>vm_localsCount := vm_localsCount vm + 1\<rparr>))))))"

definition ficlLocalParen :: "cell \<Rightarrow> ficlVm \<Rightarrow> ficlVm vm_result" where
  "ficlLocalParen im vm =
     FICL_STACK_CHECK vm 2 0
     (bind_outcome (ficlVmPop vm) (\<lambda>(len, vm).
     bind_outcome (ficlVmPop vm) (\<lambda>(p, vm).
       if len > 0
       then case load_bytes (d_bytes (vm_dict vm)) p (unat len) of None \<Rightarrow> Fault
            | Some bs \<Rightarrow> add_local im (map byte_char bs) vm
       else if vm_localsCount vm > 0 then cell_set vm (vm_localsFixup vm) (of_int (vm_localsCount vm))
       else Ok vm)))"

text \<open>
  The common part of \<open>to\<close>, \<open>+to\<close> and \<open>f+to\<close>: \<open>True\<close> when the name was that of a local, otherwise the search goes on in the dictionary.
\<close>

definition to_local :: "cell \<Rightarrow> local_insts \<Rightarrow> string \<Rightarrow> ficlVm \<Rightarrow> (bool \<times> ficlVm) vm_result option" where
  "to_local im insts name vm =
     (if vm_localsCount vm > 0
      then map_option (\<lambda>r. vm_lift vm r (\<lambda>word.
             if word = NULL then Ok (False, vm)
             else vm_lift vm (d_word (vm_locals vm) word) (\<lambda>w.
               if w_code w \<noteq> im then ficlVmThrowError vm
               else vm_lift vm (d_load_cell (vm_locals vm) (word_param word)) (\<lambda>c.
                 bind_outcome (compile_local insts (sint c) vm) (\<lambda>vm. Ok (True, vm))))))
           (ficlDictionaryLookup (vm_locals vm) name)
      else Some (Ok (False, vm)))"

definition to_word :: "cell \<Rightarrow> local_insts \<Rightarrow> (addr \<Rightarrow> ficlWord \<Rightarrow> ficlVm \<Rightarrow> ficlVm vm_result) \<Rightarrow> ficlVm \<Rightarrow> ficlVm vm_result option" where
  "to_word im insts to_global vm =
     then_run (ficlVmGetWord vm) (\<lambda>(name, vm).
     Option.bind (to_local im insts name vm) (\<lambda>r. then_run r (\<lambda>(done, vm).
       if done then Some (Ok vm)
       else lookup name (\<lambda>word vm.
              if word \<noteq> NULL then vm_lift vm (d_word (vm_dict vm) word) (\<lambda>w. to_global word w vm)
              else ficlVmThrowException vm FICL_VM_STATUS_UNDEFINED) vm)))"

definition push_literal :: "cell \<Rightarrow> ficlVm \<Rightarrow> ficlVm vm_result" where
  "push_literal c vm = bind_outcome (ficlVmPush vm c) ficlPrimitiveLiteralIm"

definition to_insts :: local_insts where
  "to_insts = (ficlInstructionToLocal0, ficlInstructionToLocal1, ficlInstructionToLocalParen)"

definition set_value :: "fth_env \<Rightarrow> proc_env \<Rightarrow> value_env \<Rightarrow> addr \<Rightarrow> ficlWord \<Rightarrow> ficlVm \<Rightarrow> ficlVm vm_result" where
  "set_value E P V word w vm =
     (if vm_state vm = FICL_VM_STATE_INTERPRET
      then vm_lift vm (d_load_cell (vm_dict vm) (word_param word)) (\<lambda>x.
           let out = ficl_to_fth E P vm x in
           bind_outcome (ficlVmPop vm) (\<lambda>(c, vm).
           bind_outcome (cell_set vm (word_param word) c) (\<lambda>vm.
           let vm = gc_protect_set V out (ficl_to_fth E P vm c) vm
           in if FTH_TRACE_VAR_P vm word then trace_var_execute V word vm else Ok vm)))
      else bind_outcome (push_literal (word_param word) vm) (\<lambda>vm.
           if w_code w = ficlInstructionConstantParen
           then if FTH_TRACE_VAR_P vm word
                then bind_outcome (push_literal word vm) (\<lambda>vm. PRIMITIVE_APPEND_UNSIGNED vm ficl_execute_trace_var)
                else PRIMITIVE_APPEND_UNSIGNED vm ficlInstructionStore
           else ficlVmThrowError vm))"

definition ficlPrimitiveToValue :: "fth_env \<Rightarrow> proc_env \<Rightarrow> value_env \<Rightarrow> cell \<Rightarrow> ficlVm \<Rightarrow> ficlVm vm_result option" where
  "ficlPrimitiveToValue E P V im = to_word im to_insts (set_value E P V)"

text \<open>
  \<open>+to\<close> and \<open>f+to\<close> add to an object in place, or to the cell itself. In interpretation state both do the same.
\<close>

definition add_value :: "fth_env \<Rightarrow> proc_env \<Rightarrow> cell \<Rightarrow> addr \<Rightarrow> ficlWord \<Rightarrow> ficlVm \<Rightarrow> ficlVm vm_result" where
  "add_value E P inst word w vm =
     (if vm_state vm = FICL_VM_STATE_INTERPRET
      then vm_lift vm (d_load_cell (vm_dict vm) (word_param word)) (\<lambda>x.
           if number_object_p E x
           then bind_outcome (pop_ficl_cell E P vm) (\<lambda>(y, vm). number_object_add E x y vm)
           else bind_outcome (ficlVmPop vm) (\<lambda>(y, vm). cell_set vm (word_param word) (x + y)))
      else bind_outcome (push_literal (word_param word) vm) (\<lambda>vm. PRIMITIVE_APPEND_UNSIGNED vm inst))"

definition ficlPrimitivePlusToValue :: "fth_env \<Rightarrow> proc_env \<Rightarrow> cell \<Rightarrow> ficlVm \<Rightarrow> ficlVm vm_result option" where
  "ficlPrimitivePlusToValue E P im =
     to_word im (ficlInstructionPlusToLocal0, ficlInstructionPlusToLocal1, ficlInstructionPlusToLocalParen)
       (add_value E P ficlInstructionPlusStore)"

definition ficlPrimitiveFPlusToValue :: "fth_env \<Rightarrow> proc_env \<Rightarrow> cell \<Rightarrow> ficlVm \<Rightarrow> ficlVm vm_result option" where
  "ficlPrimitiveFPlusToValue E P im =
     to_word im (ficlInstructionFPlusToLocal0, ficlInstructionFPlusToLocal1, ficlInstructionFPlusToLocalParen)
       (add_value E P ficlInstructionFPlusStore)"

end
