(* ===== verification/Ficl_Locals_Laws.thy ===== *)
theory Ficl_Locals_Laws
  imports Ficl_Locals
begin

text \<open>
  What the declaration of locals leaves: in the locals dictionary the number of each name, in the definition the code that moves
  as many cells from the stack into the frame. The accesses compiled for a name read and write the cell of its number.
\<close>

section \<open>The locals dictionary\<close>

text \<open>The code and the flags of a word, without the one that hides it during its definition.\<close>

definition plain_flags :: "cell \<Rightarrow> cell" where
  "plain_flags fl = fl AND NOT FICL_WORD_SMUDGED"

lemma plain_flags_idem [simp]: "plain_flags (fl AND NOT FICL_WORD_SMUDGED) = plain_flags fl"
  by (simp add: plain_flags_def and.assoc)

lemma plain_flags_smudge [simp]: "plain_flags (fl OR FICL_WORD_SMUDGED) = plain_flags fl"
  unfolding plain_flags_def by (rule bit_word_eqI) (auto simp: bit_and_iff bit_or_iff bit_not_iff)

definition word_code :: "ficlDictionary \<Rightarrow> addr \<Rightarrow> (cell \<times> cell) option" where
  "word_code d p = map_option (\<lambda>w. (w_code w, plain_flags (w_flags w))) (words (d_heap d) p)"

definition same_lists :: "ficlDictionary \<Rightarrow> ficlDictionary \<Rightarrow> bool" where
  "same_lists d d' = (d_forthWordlist d' = d_forthWordlist d \<and> d_compilationWordlist d' = d_compilationWordlist d \<and>
     d_wordlistCount d' = d_wordlistCount d \<and> d_wordlists d' = d_wordlists d)"

lemma ficlDictionaryUnsmudge_codes:
  assumes "ficlDictionaryUnsmudge d = Ok d'"
  shows "word_code d' = word_code d" and "same_lists d d'" and "d_bytes d' = d_bytes d"
proof -
  have ins: "map_option (\<lambda>w. (w_code w, plain_flags (w_flags w))) (words h' p) =
      map_option (\<lambda>w. (w_code w, plain_flags (w_flags w))) (words h p) \<and> bytes h' = bytes h"
    if "ficlHashInsertWord h a q = Ok h'" for h a q h' p
    using that by (auto simp: ficlHashInsertWord_def Let_def split: option.splits if_splits)
  obtain w0 where w0: "words (d_heap d) (d_smudge d) = Some w0"
    using assms by (auto simp: ficlDictionaryUnsmudge_def d_word_def split: option.splits)
  obtain d1 where d1: "d1 = d \<or> (\<exists>h. ficlHashInsertWord (d_heap d) (d_compilationWordlist d) (d_smudge d) = Ok h \<and> d1 = d\<lparr>d_heap := h\<rparr>)"
      and un: "bind_outcome (d_word d1 (d_smudge d1)) (\<lambda>word.
          Ok (set_word (d_smudge d1) (word\<lparr>w_flags := w_flags word AND NOT FICL_WORD_SMUDGED\<rparr>) d1)) = Ok d'"
  proof (cases "w_length w0 > 0")
    case True
    with assms w0 obtain h where h: "ficlHashInsertWord (d_heap d) (d_compilationWordlist d) (d_smudge d) = Ok h"
      by (cases "ficlHashInsertWord (d_heap d) (d_compilationWordlist d) (d_smudge d)")
         (simp_all add: ficlDictionaryUnsmudge_def d_word_def)
    then show ?thesis
      using assms w0 True by (intro that [of "d\<lparr>d_heap := h\<rparr>"]) (simp_all add: ficlDictionaryUnsmudge_def d_word_def)
  next
    case False
    then show ?thesis using assms w0 by (intro that [of d]) (simp_all add: ficlDictionaryUnsmudge_def d_word_def)
  qed
  then obtain w where w: "words (d_heap d1) (d_smudge d1) = Some w"
      and d': "d' = set_word (d_smudge d1) (w\<lparr>w_flags := w_flags w AND NOT FICL_WORD_SMUDGED\<rparr>) d1"
    by (cases "words (d_heap d1) (d_smudge d1)") (simp_all add: d_word_def)
  have "word_code d1 = word_code d \<and> same_lists d d1 \<and> d_bytes d1 = d_bytes d"
    using d1 ins by (auto simp: word_code_def same_lists_def d_bytes_def fun_eq_iff)
  moreover have "word_code d' = word_code d1"
    using w by (simp add: d' word_code_def fun_eq_iff)
  moreover have "same_lists d1 d'" "d_bytes d' = d_bytes d1"
    by (simp_all add: d' same_lists_def set_word_def d_bytes_def)
  ultimately show "word_code d' = word_code d" "same_lists d d'" "d_bytes d' = d_bytes d"
    by (simp_all add: same_lists_def)
qed

text \<open>What defining a word keeps, beside what the wordlists show.\<close>

lemma ficlDictionaryAppendWord_frame:
  assumes d: "dict_ok d bs" and s: "name_ok s" and r: "room d (length s + 9 + header_size)"
    and f: "flags AND FICL_WORD_SMUDGED = 0"
  obtains d' bs' where "ficlDictionaryAppendWord d s code flags = Ok (new_word_addr d s, d')" and "dict_ok d' bs'"
    and "names (d_heap d') bs' = (names (d_heap d) bs)(fold_name s \<mapsto> new_word_addr d s)"
    and "d_here d' = word_param (new_word_addr d s)" and "same_lists d d'" and "dom (d_bytes d') = dom (d_bytes d)"
    and "word_code d' = (word_code d)(new_word_addr d s \<mapsto> (code, plain_flags flags))"
    and "\<And>p n. below d p n \<Longrightarrow> load_bytes (d_bytes d') p n = load_bytes (d_bytes d) p n"
proof -
  let ?a = "new_word_addr d s"
  obtain d' bs' where d': "ficlDictionaryAppendWord d s code flags = Ok (?a, d')" "dict_ok d' bs'"
      "names (d_heap d') bs' = (names (d_heap d) bs)(fold_name s \<mapsto> ?a)" "d_here d' = word_param ?a"
    using ficlDictionaryAppendWord_names [OF assms] by blast
  have "room d (length s + 1)" "length s \<le> FICL_NAME_LENGTH"
    using r s by (auto simp: room_def allocated_iff name_ok_def)
  from store_name [OF this] obtain m where
    m: "store_bytes (d_bytes d) (d_here d) (map char_byte s @ [0]) = Some m" "dom m = dom (d_bytes d)"
      "load_bytes m (d_here d) (length s) = Some (map char_byte s)"
      "store_bytes m (d_here d + of_nat (length s)) [0] = Some m"
      "\<And>p n. below d p n \<Longrightarrow> load_bytes m p n = load_bytes (d_bytes d) p n"
    by blast
  let ?h = "with_header d m s code flags"
  have "ficlDictionaryUnsmudge ?h = Ok d'"
    using ficlDictionaryAppendWord_header [OF s r m(1,2,4), of code flags] d'(1) f
    by (cases "ficlDictionaryUnsmudge ?h") simp_all
  note u = ficlDictionaryUnsmudge_codes [OF this]
  have "word_code ?h = (word_code d)(?a \<mapsto> (code, plain_flags flags))"
    by (simp add: with_header_def Let_def new_word_addr_def word_code_def new_word_def fun_eq_iff)
  moreover have "same_lists d ?h" "d_bytes ?h = m"
    by (simp_all add: with_header_def Let_def same_lists_def set_bytes_def set_word_def d_bytes_def)
  ultimately have "same_lists d d'" "dom (d_bytes d') = dom (d_bytes d)" "word_code d' = (word_code d)(?a \<mapsto> (code, plain_flags flags))"
      "\<And>p n. below d p n \<Longrightarrow> load_bytes (d_bytes d') p n = load_bytes (d_bytes d) p n"
    using u m(2,5) by (simp_all add: same_lists_def)
  with d' show ?thesis by (rule that)
qed

text \<open>Appending a cell keeps the words.\<close>

lemma ficlDictionaryAppendCell_frame:
  assumes d: "dict_ok d bs" and r: "room d (8 + n)"
  obtains d' where "ficlDictionaryAppendCell d c = Ok d'" and "dict_ok d' bs" and "names (d_heap d') bs = names (d_heap d) bs"
    and "d_here d' = d_here d + 8" and "same_lists d d'" and "dom (d_bytes d') = dom (d_bytes d)" and "word_code d' = word_code d"
    and "load_cell (d_bytes d') (d_here d) = Some c" and "room d' n"
    and "\<And>p k. below d p k \<Longrightarrow> load_bytes (d_bytes d') p k = load_bytes (d_bytes d) p k"
proof -
  obtain m where m: "ficlDictionaryAppendCell d c = Ok ((set_bytes m d)\<lparr>d_here := d_here d + 8\<rparr>)" "dom m = dom (d_bytes d)"
      "load_cell m (d_here d) = Some c" "room ((set_bytes m d)\<lparr>d_here := d_here d + 8\<rparr>) n"
    using ficlDictionaryAppendCell_room [OF r] by blast
  let ?d = "(set_bytes m d)\<lparr>d_here := d_here d + 8\<rparr>"
  have "store_cell (d_bytes d) (d_here d) c = Some m"
    using m(1) by (auto simp: ficlDictionaryAppendCell_def d_store_cell_def set_bytes_def outcome_simps split: option.splits
        dest!: arg_cong [of _ _ d_bytes] simp: d_bytes_def)
  then have sb: "store_bytes (d_bytes d) (d_here d) (map (byte_of c) [0..<8]) = Some m" by (simp only: store_cell_def)
  have r8: "room d 8" using r by (auto simp: room_def allocated_iff)
  have ld: "load_bytes m p k = load_bytes (d_bytes d) p k" if "below d p k" for p k
    using below_disjoint [OF that _ r8] by (intro load_bytes_cong store_bytes_outside [OF sb]) auto
  have "same_words (d_heap d) (d_heap ?d) (set (concat bs))"
    unfolding same_words_def
  proof (intro conjI ballI)
    fix p assume p: "p \<in> set (concat bs)"
    have "below d (w_name w) (unat (w_length w))" if "words (d_heap d) p = Some w" for w
      using d p that unfolding dict_ok_def below_def by fastforce
    then show "word_text (d_heap ?d) p = word_text (d_heap d) p"
      using ld by (auto simp: word_text_def d_bytes_def split: option.splits)
  qed simp_all
  from same_words_wordlist [OF this, of "d_compilationWordlist d"] d
  have wl: "wordlist (d_heap ?d) (d_compilationWordlist d) bs" and nm: "names (d_heap ?d) bs = names (d_heap d) bs"
    by (simp_all add: dict_ok_def)
  have "unat (d_here d + 8) = unat (d_here d) + 8" using unat_here_add [OF r8, of 8] by simp
  then have up: "below ?d p k" if "below d p k" for p k using that by (simp add: below_def)
  have "dict_ok ?d bs"
    using d wl up unfolding dict_ok_def by auto
  then show ?thesis
    using m nm ld by (intro that [of ?d]) (simp_all add: same_lists_def word_code_def fun_eq_iff set_bytes_def d_bytes_def)
qed

subsection \<open>Numbers of names\<close>

text \<open>
  The number of a local: the last declaration of the name, in any case of its letters.
\<close>

definition local_index :: "string list \<Rightarrow> string \<Rightarrow> nat option" where
  "local_index ns name = map_of (rev (zip (map fold_name ns) [0..<length ns])) (fold_name name)"

definition local_word :: "cell \<Rightarrow> ficlDictionary \<Rightarrow> nat \<Rightarrow> addr \<Rightarrow> bool" where
  "local_word im D i a = (a \<noteq> NULL \<and> below D a (header_size + 8) \<and> word_code D a = Some (im, FICL_WORD_IMMEDIATE OR FICL_WORD_COMPILE_ONLY) \<and>
     load_cell (d_bytes D) (word_param a) = Some (of_nat i))"

definition locals_ok :: "cell \<Rightarrow> ficlDictionary \<Rightarrow> string list \<Rightarrow> bool" where
  "locals_ok im D ns = (\<exists>bs as. dict_ok D bs \<and> d_forthWordlist D = d_compilationWordlist D \<and> d_wordlistCount D = 1 \<and>
     d_wordlists D \<noteq> [] \<and> d_wordlists D ! 0 = d_compilationWordlist D \<and> length as = length ns \<and>
     names (d_heap D) bs = map_of (rev (zip (map fold_name ns) as)) \<and> (\<forall>i<length ns. local_word im D i (as ! i)))"

lemma zip_index: "length as = length ks \<Longrightarrow> zip ks as = map (\<lambda>(k, i). (k, as ! i)) (zip ks [0..<length ks])"
  by (rule nth_equalityI) simp_all

lemma map_of_index:
  assumes "length as = length ks"
  shows "map_of (rev (zip ks as)) k = map_option (nth as) (map_of (rev (zip ks [0..<length ks])) k)"
  unfolding zip_index [OF assms] rev_map map_of_map by simp

lemma local_index_less: "local_index ns name = Some i \<Longrightarrow> i < length ns"
  unfolding local_index_def by (drule map_of_SomeD) (auto dest: set_zip_rightD)

lemma local_index_snoc [simp]:
  "local_index (ns @ [s]) name = (if fold_name name = fold_name s then Some (length ns) else local_index ns name)"
  by (simp add: local_index_def)

lemma local_index_nil [simp]: "local_index [] name = None"
  by (simp add: local_index_def)

text \<open>Both searches of the locals dictionary find the local of that number, or none.\<close>

lemma locals_search:
  assumes "locals_ok im D ns" and "name_ok name"
  obtains a where "ficlDictionaryLookup D name = Some (Ok a)"
    and "ficlHashLookup (d_heap D) (d_forthWordlist D) name (ficlHashCode name) = Some (Ok a)"
    and "local_index ns name = None \<Longrightarrow> a = NULL" and "\<And>i. local_index ns name = Some i \<Longrightarrow> local_word im D i a"
proof -
  obtain bs as where o: "dict_ok D bs" "d_forthWordlist D = d_compilationWordlist D" "d_wordlistCount D = 1"
      "d_wordlists D \<noteq> []" "d_wordlists D ! 0 = d_compilationWordlist D" "length as = length ns"
      "names (d_heap D) bs = map_of (rev (zip (map fold_name ns) as))" "\<forall>i<length ns. local_word im D i (as ! i)"
    using assms(1) unfolding locals_ok_def by blast
  let ?r = "opt_addr (names (d_heap D) bs (fold_name name))"
  have n: "names (d_heap D) bs (fold_name name) = map_option (nth as) (local_index ns name)"
    using map_of_index [of as "map fold_name ns"] o(6,7) by (simp add: local_index_def)
  have "wordlist (d_heap D) (d_compilationWordlist D) bs" using o(1) by (simp add: dict_ok_def)
  then have h: "ficlHashLookup (d_heap D) (d_forthWordlist D) name (ficlHashCode name) = Some (Ok ?r)"
    using ficlHashLookup_names [OF _ assms(2)] o(2) by simp
  show ?thesis
    using o(8) local_index_less [of ns name]
    by (intro that [OF ficlDictionaryLookup_single [OF o(1,3-5) assms(2)] h]) (simp_all add: n opt_addr_def)
qed

lemma local_word_keep:
  assumes "local_word im D i a" and "d_here D \<le> d_here D'" and "word_code D' a = word_code D a"
    and "\<And>p k. below D p k \<Longrightarrow> load_bytes (d_bytes D') p k = load_bytes (d_bytes D) p k"
  shows "local_word im D' i a"
proof -
  have b: "unat a + (header_size + 8) \<le> unat (d_here D)" using assms(1) by (simp add: local_word_def below_def)
  have "unat (word_param a) = unat a + header_size"
    unfolding word_param_def using b unat_cell_less [of "d_here D"]
    by (subst unat_word_ariths(1)) (simp add: header_size_def)
  then have "load_cell (d_bytes D') (word_param a) = load_cell (d_bytes D) (word_param a)"
    using assms(4) [of "word_param a" 8] b by (simp add: load_cell_def below_def)
  then show ?thesis using assms(1-3) b by (auto simp: local_word_def below_def word_le_nat_alt)
qed

subsection \<open>A new local\<close>

definition name_space :: "string \<Rightarrow> nat" where
  "name_space s = length s + header_size + 17"

lemma room_after:
  assumes "room d n" and "dom (d_bytes d') = dom (d_bytes d)" and "unat (d_here d') = unat (d_here d) + j" and "j + k \<le> n"
  shows "room d' k"
proof -
  have "d_here d' = of_nat (unat (d_here d'))" by simp
  then have e: "d_here d' = d_here d + of_nat j" by (simp only: assms(3) of_nat_add) simp
  have "d_here d' + of_nat i \<in> dom (d_bytes d')" if "i < k" for i
  proof -
    have "d_here d + of_nat (j + i) \<in> dom (d_bytes d)" using assms(1,4) that by (simp add: room_def allocated_iff del: of_nat_add)
    then show ?thesis by (simp add: e assms(2) add.assoc)
  qed
  then show ?thesis using assms(1,3,4) by (simp add: room_def allocated_iff)
qed

definition append_local :: "cell \<Rightarrow> string \<Rightarrow> int \<Rightarrow> ficlDictionary \<Rightarrow> (int, ficlDictionary) outcome" where
  "append_local im s n D =
     bind_outcome (ficlDictionaryAppendWord D s im (FICL_WORD_IMMEDIATE OR FICL_WORD_COMPILE_ONLY)) (\<lambda>(word, D).
       ficlDictionaryAppendInteger D n)"

lemma append_local_ok:
  assumes ok: "locals_ok im D ns" and s: "name_ok s" and r: "room D (name_space s + k)"
  obtains D' where "append_local im s (int (length ns)) D = Ok D'" and "locals_ok im D' (ns @ [s])" and "room D' k"
proof -
  let ?fl = "FICL_WORD_IMMEDIATE OR FICL_WORD_COMPILE_ONLY" and ?a = "new_word_addr D s" and ?n = "length ns"
  obtain bs as where o: "dict_ok D bs" "d_forthWordlist D = d_compilationWordlist D" "d_wordlistCount D = 1"
      "d_wordlists D \<noteq> []" "d_wordlists D ! 0 = d_compilationWordlist D" "length as = ?n"
      "names (d_heap D) bs = map_of (rev (zip (map fold_name ns) as))" "\<forall>i<?n. local_word im D i (as ! i)"
    using ok unfolding locals_ok_def by blast
  have r0: "room D (length s + 9 + header_size)" using room_less [OF r] by (simp add: name_space_def)
  have pf: "plain_flags ?fl = ?fl"
    by (simp add: plain_flags_def FICL_WORD_IMMEDIATE_def FICL_WORD_COMPILE_ONLY_def FICL_WORD_SMUDGED_def)
  have fl: "?fl AND FICL_WORD_SMUDGED = 0"
    by (simp add: FICL_WORD_IMMEDIATE_def FICL_WORD_COMPILE_ONLY_def FICL_WORD_SMUDGED_def)
  obtain D1 bs1 where D1: "ficlDictionaryAppendWord D s im ?fl = Ok (?a, D1)" "dict_ok D1 bs1"
      "names (d_heap D1) bs1 = (names (d_heap D) bs)(fold_name s \<mapsto> ?a)" "d_here D1 = word_param ?a" "same_lists D D1"
      "dom (d_bytes D1) = dom (d_bytes D)" "word_code D1 = (word_code D)(?a \<mapsto> (im, plain_flags ?fl))"
      "\<And>p k. below D p k \<Longrightarrow> load_bytes (d_bytes D1) p k = load_bytes (d_bytes D) p k"
    by (rule ficlDictionaryAppendWord_frame [OF o(1) s r0 fl]) blast
  note b = new_word_addr_bounds [OF r0]
  define j where "j = unat (d_here D1) - unat (d_here D)"
  have j: "unat (d_here D1) = unat (d_here D) + j" "j \<le> length s + 9 + header_size" using b by (simp_all add: j_def D1(4))
  then have "room D1 (8 + k)" using j(2) by (intro room_after [OF r D1(6) j(1)]) (simp add: name_space_def)
  then obtain D2 where D2: "ficlDictionaryAppendCell D1 (of_nat ?n) = Ok D2" "dict_ok D2 bs1"
      "names (d_heap D2) bs1 = names (d_heap D1) bs1" "d_here D2 = d_here D1 + 8" "same_lists D1 D2" "word_code D2 = word_code D1"
      "load_cell (d_bytes D2) (d_here D1) = Some (of_nat ?n)" "room D2 k"
      "\<And>p k. below D1 p k \<Longrightarrow> load_bytes (d_bytes D2) p k = load_bytes (d_bytes D1) p k"
    by (rule ficlDictionaryAppendCell_frame [OF D1(2)]) blast
  have u: "unat (d_here D2) = unat (d_here D1) + 8"
    unfolding D2(4) using unat_here_add [OF \<open>room D1 (8 + k)\<close>, of 8] by simp
  have old: "local_word im D2 i (as ! i)" if "i < ?n" for i
  proof (rule local_word_keep)
    show l: "local_word im D i (as ! i)" using o(8) that by blast
    show "d_here D \<le> d_here D2" using j u by (simp add: word_le_nat_alt)
    show "word_code D2 (as ! i) = word_code D (as ! i)"
      using l by (auto simp: D2(6) D1(7) local_word_def pf)
    show "load_bytes (d_bytes D2) p k = load_bytes (d_bytes D) p k" if "below D p k" for p k
      using D2(9) [of p k] D1(8) [OF that] that j by (simp add: below_def)
  qed
  have "unat ?a \<noteq> 0" using b(1) by simp
  then have "?a \<noteq> NULL" by auto
  then have new: "local_word im D2 ?n ?a"
    using D2(7) b(3) u by (simp add: local_word_def D2(6) D1(7) D1(4) below_def pf)
  have "locals_ok im D2 (ns @ [s])"
    unfolding locals_ok_def
  proof (intro exI [of _ bs1] exI [of _ "as @ [?a]"] conjI allI impI)
    fix i assume "i < length (ns @ [s])"
    then show "local_word im D2 i ((as @ [?a]) ! i)"
      using old [of i] new o(6) by (cases "i = ?n") (simp_all add: nth_append)
  qed (use D2(2,3,5) D1(3,5) o(2-7) in \<open>simp_all add: same_lists_def\<close>)
  moreover have "append_local im s (int ?n) D = Ok D2"
    using D1(1) D2(1) by (simp add: append_local_def ficlDictionaryAppendInteger_def ficlDictionaryAppendCell_def)
  ultimately show ?thesis using that D2(8) by blast
qed

section \<open>Declaring locals\<close>

subsection \<open>Compiled cells\<close>

text \<open>Code laid in the definition; no byte elsewhere has changed.\<close>

definition outside :: "addr \<Rightarrow> nat \<Rightarrow> addr \<Rightarrow> bool" where
  "outside h n q = (\<forall>j<n. q \<noteq> h + of_nat j)"

definition compiled :: "ficlVm \<Rightarrow> ficlVm \<Rightarrow> cell list \<Rightarrow> bool" where
  "compiled vm0 vm cs = (laid vm0 vm cs \<and>
     (\<forall>q. outside (here vm0) (8 * length cs) q \<longrightarrow> d_bytes (vm_dict vm) q = d_bytes (vm_dict vm0) q))"

lemma append_cells_outside:
  "append_cells d cs = Ok d' \<Longrightarrow> outside (d_here d) (8 * length cs) q \<Longrightarrow> d_bytes d' q = d_bytes d q"
proof (induction cs arbitrary: d)
  case (Cons c cs)
  obtain m where m: "store_cell (d_bytes d) (d_here d) c = Some m"
      and a: "append_cells ((set_bytes m d)\<lparr>d_here := d_here d + 8\<rparr>) cs = Ok d'"
    using Cons.prems(1) by (cases "store_cell (d_bytes d) (d_here d) c") (simp_all add: ficlDictionaryAppendCell_def d_store_cell_def)
  have "outside (d_here d + 8) (8 * length cs) q"
    unfolding outside_def
  proof (intro allI impI)
    fix j assume "j < 8 * length cs"
    then have "q \<noteq> d_here d + of_nat (8 + j)" using Cons.prems(2) by (simp add: outside_def del: of_nat_add)
    then show "q \<noteq> d_here d + 8 + of_nat j" by (simp add: add.assoc)
  qed
  then have "d_bytes d' q = m q" using Cons.IH [OF a] by simp
  also have "m q = d_bytes d q"
    using Cons.prems(2) by (intro store_bytes_outside [OF m [unfolded store_cell_def]]) (simp_all add: outside_def)
  finally show ?case .
qed simp

lemma compiled_refl: "vm_wf vm \<Longrightarrow> compiled vm vm []"
  by (simp add: compiled_def laid_refl)

lemma compiled_laid: "compiled vm0 vm cs \<Longrightarrow> laid vm0 vm cs"
  by (simp add: compiled_def)

lemma compiled_stack:
  "compiled vm0 vm cs \<Longrightarrow> vm_wf vm' \<Longrightarrow> vm_dict vm' = vm_dict vm \<Longrightarrow>
    st_size (vm_dataStack vm') = st_size (vm_dataStack vm) \<Longrightarrow> compiled vm0 vm' cs"
  unfolding compiled_def using laid_stack [of vm0 vm cs vm'] by simp

lemma append_integer_cell: "in_dict (\<lambda>d. ficlDictionaryAppendInteger d i) vm = in_dict (\<lambda>d. append_cells d [of_int i]) vm"
  by (simp add: in_dict_def ficlDictionaryAppendInteger_def ficlDictionaryAppendCell_def vm_lift_def split: outcome.split)

lemma compiled_cell:
  assumes c: "compiled vm0 vm cs" and r: "room (vm_dict vm0) n" and n: "8 * (length cs + 1) \<le> n"
  obtains d where "in_dict (\<lambda>d. append_cells d [c]) vm = Ok (vm\<lparr>vm_dict := d\<rparr>)" and "compiled vm0 (vm\<lparr>vm_dict := d\<rparr>) (cs @ [c])"
proof -
  obtain vm' where v: "in_dict (\<lambda>d. append_cells d [c]) vm = Ok vm'" "laid vm0 vm' (cs @ [c])"
    using laid_append [OF compiled_laid [OF c], of "[c]"] room_less [OF r] n by auto
  then obtain d where d: "append_cells (vm_dict vm) [c] = Ok d" "vm' = vm\<lparr>vm_dict := d\<rparr>"
    by (cases "append_cells (vm_dict vm) [c]") (simp_all add: in_dict_def vm_lift_def ficlVmThrowException_def ficlVmThrowErrorVararg_def
        ficlVmThrow_def Let_def)
  have "d_bytes d q = d_bytes (vm_dict vm0) q" if o: "outside (here vm0) (8 * length (cs @ [c])) q" for q
  proof -
    have "outside (here vm) 8 q"
      unfolding outside_def laid_here [OF compiled_laid [OF c]]
    proof (intro allI impI)
      fix j :: nat assume "j < 8"
      then have "q \<noteq> here vm0 + of_nat (8 * length cs + j)" using o by (simp add: outside_def del: of_nat_add)
      then show "q \<noteq> here vm0 + of_nat (8 * length cs) + of_nat j" by (simp add: add.assoc)
    qed
    then have "d_bytes d q = d_bytes (vm_dict vm) q" using append_cells_outside [OF d(1)] by (simp add: here_def)
    also have "\<dots> = d_bytes (vm_dict vm0) q" using c o by (simp add: compiled_def outside_def)
    finally show ?thesis .
  qed
  then show ?thesis using that v d(2) by (simp add: compiled_def)
qed

subsection \<open>The code of the frame\<close>

definition frame_code :: "nat \<Rightarrow> nat \<Rightarrow> cell list" where
  "frame_code k n = [ficlInstructionLinkParen, of_nat k] @ concat (map (\<lambda>i. [ficlInstructionToLocalParen, of_nat i]) [0..<n])"

lemma length_frame_code [simp]: "length (frame_code k n) = 2 + 2 * n"
  by (induction n) (simp_all add: frame_code_def)

lemma frame_code_Suc: "frame_code k (Suc n) = frame_code k n @ [ficlInstructionToLocalParen, of_nat n]"
  by (simp add: frame_code_def)

lemma frame_code_update: "(frame_code k n)[Suc 0 := of_nat j] = frame_code j n"
  by (simp add: frame_code_def)

definition declared_code :: "nat \<Rightarrow> cell list" where
  "declared_code n = (if n = 0 then [] else frame_code 0 n)"

text \<open>The names \<open>ns\<close> have been declared since \<open>vm0\<close>.\<close>

definition declared :: "cell \<Rightarrow> ficlVm \<Rightarrow> ficlVm \<Rightarrow> string list \<Rightarrow> bool" where
  "declared im vm0 vm ns = (compiled vm0 vm (declared_code (length ns)) \<and> locals_ok im (vm_locals vm) ns \<and>
     vm_localsCount vm = int (length ns) \<and> (ns \<noteq> [] \<longrightarrow> vm_localsFixup vm = here vm0 + 8) \<and>
     data vm = data vm0 \<and> vm_state vm = vm_state vm0)"

lemma add_local_ok:
  assumes d: "declared im vm0 vm ns" and s: "name_ok s" and n: "length ns < 2048"
    and r: "room (vm_dict vm0) (8 * (2 + 2 * Suc (length ns)))" and l: "room (vm_locals vm) (name_space s + k)"
  obtains vm' where "add_local im s vm = Ok vm'" and "declared im vm0 vm' (ns @ [s])" and "room (vm_locals vm') k"
proof -
  let ?n = "length ns"
  have D: "compiled vm0 vm (declared_code ?n)" "locals_ok im (vm_locals vm) ns" "vm_localsCount vm = int ?n"
    using d by (simp_all add: declared_def)
  obtain D' where D': "append_local im s (int ?n) (vm_locals vm) = Ok D'" "locals_ok im D' (ns @ [s])" "room D' k"
    by (rule append_local_ok [OF D(2) s l])
  let ?v1 = "vm\<lparr>vm_locals := D'\<rparr>"
  have loc: "in_locals (append_local im s (vm_localsCount vm)) vm = Ok ?v1" using D'(1) D(3) by (simp add: in_locals_def vm_lift_def)
  have c1: "compiled vm0 ?v1 (declared_code ?n)"
    using laid_wf [OF compiled_laid [OF D(1)]] by (intro compiled_stack [OF D(1)]) (simp_all add: vm_wf_def)
  have "\<exists>d f. (if vm_localsCount ?v1 = 0 then open_frame ?v1 else Ok ?v1) = Ok (?v1\<lparr>vm_localsFixup := f, vm_dict := d\<rparr>) \<and> f = here vm0 + 8 \<and>
      compiled vm0 (?v1\<lparr>vm_localsFixup := f, vm_dict := d\<rparr>) (frame_code 0 ?n)"
  proof (cases "ns = []")
    case True
    have c1': "compiled vm0 ?v1 []" using c1 True by (simp add: declared_code_def)
    obtain d1 where d1: "PRIMITIVE_APPEND_UNSIGNED ?v1 ficlInstructionLinkParen = Ok (?v1\<lparr>vm_dict := d1\<rparr>)"
        "compiled vm0 (?v1\<lparr>vm_dict := d1\<rparr>) [ficlInstructionLinkParen]"
      using compiled_cell [OF c1' r, of ficlInstructionLinkParen] by (auto simp: append_unsigned_cell)
    let ?v2 = "?v1\<lparr>vm_dict := d1, vm_localsFixup := here (?v1\<lparr>vm_dict := d1\<rparr>)\<rparr>"
    have h: "here (?v1\<lparr>vm_dict := d1\<rparr>) = here vm0 + 8" using laid_here [OF compiled_laid [OF d1(2)]] by simp
    have "compiled vm0 ?v2 [ficlInstructionLinkParen]"
      using laid_wf [OF compiled_laid [OF d1(2)]] by (intro compiled_stack [OF d1(2)]) (simp_all add: vm_wf_def)
    then obtain d2 where d2: "in_dict (\<lambda>d. append_cells d [0]) ?v2 = Ok (?v2\<lparr>vm_dict := d2\<rparr>)"
        "compiled vm0 (?v2\<lparr>vm_dict := d2\<rparr>) ([ficlInstructionLinkParen] @ [0])"
      by (rule compiled_cell [OF _ r]) simp_all
    have e: "?v2\<lparr>vm_dict := d2\<rparr> = ?v1\<lparr>vm_localsFixup := here vm0 + 8, vm_dict := d2\<rparr>" by (simp add: h)
    have "open_frame ?v1 = Ok (?v2\<lparr>vm_dict := d2\<rparr>)"
      using d1(1) d2(1) D(3) True by (simp add: open_frame_def append_integer_cell)
    then show ?thesis
      using d2(2) D(3) True unfolding e by (intro exI [of _ d2] exI [of _ "here vm0 + 8"]) (simp add: frame_code_def)
  next
    case False
    then have "vm_localsFixup ?v1 = here vm0 + 8" "frame_code 0 ?n = declared_code ?n" using d by (simp_all add: declared_def declared_code_def)
    moreover have "?v1\<lparr>vm_localsFixup := vm_localsFixup ?v1, vm_dict := vm_dict ?v1\<rparr> = ?v1" by simp
    ultimately show ?thesis using False c1 D(3)
      by (intro exI [of _ "vm_dict ?v1"] exI [of _ "vm_localsFixup ?v1"]) (simp only:, simp)
  qed
  then obtain d f where f: "(if vm_localsCount ?v1 = 0 then open_frame ?v1 else Ok ?v1) = Ok (?v1\<lparr>vm_localsFixup := f, vm_dict := d\<rparr>)"
      "f = here vm0 + 8" "compiled vm0 (?v1\<lparr>vm_localsFixup := f, vm_dict := d\<rparr>) (frame_code 0 ?n)" by blast
  let ?v2 = "?v1\<lparr>vm_localsFixup := f, vm_dict := d\<rparr>"
  obtain d3 where d3: "PRIMITIVE_APPEND_UNSIGNED ?v2 ficlInstructionToLocalParen = Ok (?v2\<lparr>vm_dict := d3\<rparr>)"
      "compiled vm0 (?v2\<lparr>vm_dict := d3\<rparr>) (frame_code 0 ?n @ [ficlInstructionToLocalParen])"
    unfolding append_unsigned_cell by (rule compiled_cell [OF f(3) r]) simp_all
  let ?v3 = "?v2\<lparr>vm_dict := d3\<rparr>"
  obtain d4 where d4: "in_dict (\<lambda>d. append_cells d [of_nat ?n]) ?v3 = Ok (?v3\<lparr>vm_dict := d4\<rparr>)"
      "compiled vm0 (?v3\<lparr>vm_dict := d4\<rparr>) ((frame_code 0 ?n @ [ficlInstructionToLocalParen]) @ [of_nat ?n])"
    by (rule compiled_cell [OF d3(2) r]) simp_all
  let ?v4 = "(?v3\<lparr>vm_dict := d4\<rparr>)\<lparr>vm_localsCount := vm_localsCount ?v3 + 1\<rparr>"
  have "compiled vm0 ?v4 (frame_code 0 (Suc ?n))"
    using compiled_stack [OF d4(2), of ?v4] laid_wf [OF compiled_laid [OF d4(2)]] by (simp add: vm_wf_def frame_code_Suc)
  then have "declared im vm0 ?v4 (ns @ [s])"
    using d D'(2) f(2) by (simp add: declared_def declared_code_def)
  moreover have "add_local im s vm = Ok ?v4"
    using loc f(1) d3(1) d4(1) D(3) n
    by (simp add: add_local_def FICL_MAX_LOCALS_def append_local_def [abs_def] append_integer_cell)
  ultimately show ?thesis using that D'(3) by simp
qed

subsection \<open>Whole declarations\<close>

text \<open>\<open>c-addr u (local)\<close> for each name, and \<open>0 0 (local)\<close> at the end.\<close>

definition call_local :: "cell \<Rightarrow> addr \<Rightarrow> cell \<Rightarrow> ficlVm \<Rightarrow> ficlVm vm_result" where
  "call_local im p len vm = bind_outcome (ficlVmPush vm p) (\<lambda>vm. bind_outcome (ficlVmPush vm len) (ficlLocalParen im))"

fun declare_locals :: "cell \<Rightarrow> (addr \<times> nat) list \<Rightarrow> ficlVm \<Rightarrow> ficlVm vm_result" where
  "declare_locals im [] vm = call_local im NULL 0 vm"
| "declare_locals im ((p, n) # ps) vm = bind_outcome (call_local im p (of_nat n) vm) (declare_locals im ps)"

lemma call_local_args:
  assumes w: "vm_wf vm" and d: "length (data vm) + 2 \<le> st_size (vm_dataStack vm)"
  obtains vm1 where "vm_wf vm1" and "data vm1 = data vm" and "\<exists>s. vm1 = vm\<lparr>vm_dataStack := s\<rparr> \<and> st_size s = st_size (vm_dataStack vm)"
    and "call_local im p len vm =
      (if len > 0
       then case load_bytes (d_bytes (vm_dict vm1)) p (unat len) of None \<Rightarrow> Fault
            | Some bs \<Rightarrow> add_local im (map byte_char bs) vm1
       else if vm_localsCount vm1 > 0 then cell_set vm1 (vm_localsFixup vm1) (of_int (vm_localsCount vm1))
       else Ok vm1)"
proof -
  let ?v1 = "dpushed p vm" let ?v2 = "dpushed len ?v1" let ?v3 = "ddrop 1 (ddrop 1 ?v2)"
  have v1: "vm_wf ?v1" "data ?v1 = p # data vm" "ficlVmPush vm p = Ok ?v1" using w d by (simp_all add: flow_simps ficlVmPush_data)
  have v2: "vm_wf ?v2" "data ?v2 = len # p # data vm" "ficlVmPush ?v1 len = Ok ?v2" using v1 d by (simp_all add: flow_simps ficlVmPush_data)
  have v3: "vm_wf (ddrop 1 ?v2)" "data (ddrop 1 ?v2) = p # data vm" using v2 by (simp_all add: flow_simps)
  have c: "FICL_STACK_CHECK ?v2 2 0 k = k" for k :: "ficlVm vm_result"
    using ficlStackCheck_iff [of "vm_dataStack ?v2" 2 0] v2(1,2) d by (auto simp: FICL_STACK_CHECK_def vm_lift_def vm_wf_def)
  have e: "?v3 = vm\<lparr>vm_dataStack := vm_dataStack ?v3\<rparr>" by (simp add: ddrop_def dpushed_def)
  show ?thesis
  proof (rule that [of ?v3])
    show "vm_wf ?v3" "data ?v3 = data vm" using v3 by (simp_all add: flow_simps)
    show "\<exists>s. ?v3 = vm\<lparr>vm_dataStack := s\<rparr> \<and> st_size s = st_size (vm_dataStack vm)" using e by (intro exI [of _ "vm_dataStack ?v3"]) simp
  qed (simp add: call_local_def v1(3) v2(3) ficlLocalParen_def c ficlVmPop_data [OF v2(1,2)] ficlVmPop_data [OF v3] del: One_nat_def)
qed

lemma declared_stack:
  assumes "declared im vm0 vm ns" and "vm_wf vm1" and "data vm1 = data vm"
    and "\<exists>s. vm1 = vm\<lparr>vm_dataStack := s\<rparr> \<and> st_size s = st_size (vm_dataStack vm)"
  shows "declared im vm0 vm1 ns" and "vm_locals vm1 = vm_locals vm" and "vm_dict vm1 = vm_dict vm"
  using assms compiled_stack [of vm0 vm "declared_code (length ns)" vm1] by (auto simp: declared_def)

text \<open>The text of a name, stored where no code is going to be laid.\<close>

definition name_at :: "ficlVm \<Rightarrow> nat \<Rightarrow> addr \<times> nat \<Rightarrow> string \<Rightarrow> bool" where
  "name_at vm n pn s = (name_ok s \<and> snd pn = length s \<and>
     load_bytes (d_bytes (vm_dict vm)) (fst pn) (length s) = Some (map char_byte s) \<and>
     (\<forall>i<length s. outside (here vm) n (fst pn + of_nat i)))"

lemma call_local_name:
  assumes d: "declared im vm0 vm ns" and s: "name_at vm0 n (p, k) s" and m: "length ns < 2048"
    and r: "room (vm_dict vm0) n" "8 * (2 + 2 * Suc (length ns)) \<le> n" and l: "room (vm_locals vm) (name_space s + j)"
    and st: "length (data vm0) + 2 \<le> st_size (vm_dataStack vm0)"
  obtains vm' where "call_local im p (of_nat k) vm = Ok vm'" and "declared im vm0 vm' (ns @ [s])" and "room (vm_locals vm') j"
proof -
  have D: "compiled vm0 vm (declared_code (length ns))" "data vm = data vm0" using d by (simp_all add: declared_def)
  have a: "vm_wf vm" "length (data vm) + 2 \<le> st_size (vm_dataStack vm)"
    using laid_wf laid_size compiled_laid [OF D(1)] D(2) st by metis+
  obtain vm1 where v1: "vm_wf vm1" "data vm1 = data vm" "\<exists>s. vm1 = vm\<lparr>vm_dataStack := s\<rparr> \<and> st_size s = st_size (vm_dataStack vm)"
    and e: "call_local im p (of_nat k) vm =
      (if (of_nat k :: cell) > 0
       then case load_bytes (d_bytes (vm_dict vm1)) p (unat (of_nat k :: cell)) of None \<Rightarrow> Fault
            | Some bs \<Rightarrow> add_local im (map byte_char bs) vm1
       else if vm_localsCount vm1 > 0 then cell_set vm1 (vm_localsFixup vm1) (of_int (vm_localsCount vm1))
       else Ok vm1)"
    by (rule call_local_args [OF a, of im p "of_nat k"]) blast
  note ds = declared_stack [OF d v1]
  have s': "name_ok s" "k = length s" "load_bytes (d_bytes (vm_dict vm0)) p k = Some (map char_byte s)"
    "\<forall>i<k. outside (here vm0) n (p + of_nat i)" using s by (simp_all add: name_at_def)
  then have k: "unat (of_nat k :: cell) = k" "0 < k" by (auto simp: name_ok_def FICL_NAME_LENGTH_def unsigned_of_nat take_bit_nat_eq_self)
  then have pos: "(of_nat k :: cell) > 0" by (metis unat_gt_0 word_neq_0_conv gr_implies_not0 unsigned_0)
  have "load_bytes (d_bytes (vm_dict vm1)) p k = load_bytes (d_bytes (vm_dict vm0)) p k"
  proof (rule load_bytes_cong)
    fix i assume "i < k"
    moreover have "8 * length (declared_code (length ns)) \<le> n" using r(2) by (simp add: declared_code_def)
    ultimately have "outside (here vm0) (8 * length (declared_code (length ns))) (p + of_nat i)"
      using s'(4) by (simp add: outside_def)
    then show "d_bytes (vm_dict vm1) (p + of_nat i) = d_bytes (vm_dict vm0) (p + of_nat i)" using D(1) by (simp add: ds(3) compiled_def)
  qed
  then have "call_local im p (of_nat k) vm = add_local im s vm1" using e pos k(1) s'(3) by (simp add: comp_def)
  then show ?thesis
    using add_local_ok [OF ds(1) s'(1) m room_less [OF r] l [folded ds(2)]] that by metis
qed

lemma declare_names:
  assumes "declared im vm0 vm ns" and "list_all2 (name_at vm0 n) ps ss" and "length ns + length ss \<le> 2048"
    and "room (vm_dict vm0) n" "8 * (2 + 2 * (length ns + length ss)) \<le> n" and "room (vm_locals vm) (sum_list (map name_space ss))"
    and "length (data vm0) + 2 \<le> st_size (vm_dataStack vm0)"
  shows "\<exists>vm'. declared im vm0 vm' (ns @ ss) \<and> declare_locals im ps vm = declare_locals im [] vm'"
  using assms(2,1,3-)
proof (induction ps ss arbitrary: ns vm rule: list_all2_induct)
  case (Cons p ps s ss)
  obtain a k where p: "p = (a, k)" by (cases p)
  have "name_at vm0 n (a, k) s" using Cons.hyps(1) p by simp
  then obtain vm1 where v: "call_local im a (of_nat k) vm = Ok vm1" "declared im vm0 vm1 (ns @ [s])"
      "room (vm_locals vm1) (sum_list (map name_space ss))"
    using call_local_name [OF Cons.prems(1), of n a k s "sum_list (map name_space ss)"] Cons.prems by auto
  have "\<exists>vm'. declared im vm0 vm' ((ns @ [s]) @ ss) \<and> declare_locals im ps vm1 = declare_locals im [] vm'"
    using Cons.prems v by (intro Cons.IH) simp_all
  then show ?case using v(1) by (simp add: p)
qed auto

text \<open>
  A declaration of locals: their names get the numbers of their order, and the definition starts with the code of their frame.
\<close>

lemma declare_locals_ok:
  assumes w: "vm_wf vm" and l: "locals_ok im (vm_locals vm) []" "vm_localsCount vm = 0"
    and ss: "list_all2 (name_at vm (8 * (2 + 2 * length ss))) ps ss" "ss \<noteq> []" "length ss \<le> 2048"
    and r: "room (vm_dict vm) (8 * (2 + 2 * length ss))" "room (vm_locals vm) (sum_list (map name_space ss))"
    and st: "length (data vm) + 2 \<le> st_size (vm_dataStack vm)"
  shows "\<exists>vm'. declare_locals im ps vm = Ok vm' \<and> laid vm vm' (frame_code (length ss) (length ss)) \<and>
    locals_ok im (vm_locals vm') ss \<and> vm_localsCount vm' = int (length ss) \<and> data vm' = data vm \<and> vm_state vm' = vm_state vm"
proof -
  let ?n = "length ss"
  have "declared im vm vm []" using compiled_refl [OF w] l by (simp add: declared_def declared_code_def)
  then obtain vm1 where v1: "declared im vm vm1 ss" "declare_locals im ps vm = call_local im NULL 0 vm1"
    using declare_names [OF _ ss(1) _ r(1) _ r(2) st] ss(3) by auto
  have c: "laid vm vm1 (frame_code 0 ?n)" "data vm1 = data vm"
    using v1(1) ss(2) compiled_laid by (auto simp: declared_def declared_code_def)
  have a: "vm_wf vm1" "length (data vm1) + 2 \<le> st_size (vm_dataStack vm1)" using laid_wf laid_size c st by metis+
  obtain vm2 where v2: "vm_wf vm2" "data vm2 = data vm1" "\<exists>s. vm2 = vm1\<lparr>vm_dataStack := s\<rparr> \<and> st_size s = st_size (vm_dataStack vm1)"
    and e: "call_local im NULL 0 vm1 =
      (if (0 :: cell) > 0
       then case load_bytes (d_bytes (vm_dict vm2)) NULL (unat (0 :: cell)) of None \<Rightarrow> Fault
            | Some bs \<Rightarrow> add_local im (map byte_char bs) vm2
       else if vm_localsCount vm2 > 0 then cell_set vm2 (vm_localsFixup vm2) (of_int (vm_localsCount vm2))
       else Ok vm2)"
    by (rule call_local_args [OF a, of im NULL 0]) blast
  note d2 = declared_stack(1) [OF v1(1) v2]
  have f: "vm_localsFixup vm2 = here vm + 8" "vm_localsCount vm2 = int ?n" using d2 ss(2) by (simp_all add: declared_def)
  have l2: "laid vm vm2 (frame_code 0 ?n)" using d2 ss(2) compiled_laid by (auto simp: declared_def declared_code_def)
  have "\<exists>vm'. cell_set vm2 (here vm + of_nat (8 * 1)) (of_nat ?n) = Ok vm' \<and> laid vm vm' ((frame_code 0 ?n)[1 := of_nat ?n]) \<and> data vm' = data vm2"
    using laid_set [OF l2, of 1 "of_nat ?n"] r(1) by simp
  then obtain vm' where v': "cell_set vm2 (here vm + 8) (of_nat ?n) = Ok vm'" "laid vm vm' (frame_code ?n ?n)" "data vm' = data vm2"
    by (auto simp: frame_code_update)
  have "vm_locals vm' = vm_locals vm2 \<and> vm_localsCount vm' = vm_localsCount vm2 \<and> vm_state vm' = vm_state vm2"
    using v'(1) by (auto simp: cell_set_def in_dict_def vm_lift_def ficlVmThrowException_def ficlVmThrowErrorVararg_def
        ficlVmThrow_def Let_def split: outcome.splits)
  then show ?thesis
    using v' v1(2) e d2 f ss(2) by (intro exI [of _ vm']) (simp add: declared_def)
qed

section \<open>Accesses to locals\<close>

text \<open>The cells of an access.\<close>

definition local_code :: "local_insts \<Rightarrow> int \<Rightarrow> cell list" where
  "local_code insts nLocal =
     (case insts of (inst0, inst1, inst) \<Rightarrow>
        if nLocal = 0 then [inst0] else if nLocal = 1 then [inst1] else [inst, of_int nLocal])"

lemma length_local_code: "length (local_code insts i) \<le> 2"
  by (simp add: local_code_def split: prod.split)

lemma compile_local_ok:
  assumes c: "compiled vm0 vm cs" and r: "room (vm_dict vm0) n" "8 * (length cs + 2) \<le> n"
  obtains d where "compile_local insts i vm = Ok (vm\<lparr>vm_dict := d\<rparr>)" and "compiled vm0 (vm\<lparr>vm_dict := d\<rparr>) (cs @ local_code insts i)"
proof -
  obtain a b e where ins: "insts = (a, b, e)" by (cases insts)
  have one: "\<exists>d. PRIMITIVE_APPEND_UNSIGNED vm c = Ok (vm\<lparr>vm_dict := d\<rparr>) \<and> compiled vm0 (vm\<lparr>vm_dict := d\<rparr>) (cs @ [c])" for c
    unfolding append_unsigned_cell by (rule compiled_cell [OF c r(1), of c]) (use r(2) in auto)
  show ?thesis
  proof (cases "i = 0 \<or> i = 1")
    case True
    then show ?thesis using one [of a] one [of b] that by (auto simp: compile_local_def local_code_def ins)
  next
    case False
    obtain d where d: "PRIMITIVE_APPEND_UNSIGNED vm e = Ok (vm\<lparr>vm_dict := d\<rparr>)" "compiled vm0 (vm\<lparr>vm_dict := d\<rparr>) (cs @ [e])"
      using one [of e] by blast
    obtain d2 where "in_dict (\<lambda>d. append_cells d [of_int i]) (vm\<lparr>vm_dict := d\<rparr>) = Ok (vm\<lparr>vm_dict := d2\<rparr>)"
        "compiled vm0 (vm\<lparr>vm_dict := d2\<rparr>) ((cs @ [e]) @ [of_int i])"
      by (rule compiled_cell [OF d(2) r(1), of "of_int i"]) (use r(2) in auto)
    then show ?thesis using d(1) False that by (simp add: compile_local_def local_code_def ins append_integer_cell)
  qed
qed

lemma local_flags:
  assumes "word_code D a = Some (im, FICL_WORD_IMMEDIATE OR FICL_WORD_COMPILE_ONLY)"
  obtains w where "words (d_heap D) a = Some w" and "w_code w = im" and "w_flags w AND FICL_WORD_IMMEDIATE \<noteq> 0"
proof -
  obtain w where w: "words (d_heap D) a = Some w" "w_code w = im" "plain_flags (w_flags w) = FICL_WORD_IMMEDIATE OR FICL_WORD_COMPILE_ONLY"
    using assms by (auto simp: word_code_def)
  have "w_flags w AND FICL_WORD_IMMEDIATE = plain_flags (w_flags w) AND FICL_WORD_IMMEDIATE"
    by (simp add: plain_flags_def and.assoc FICL_WORD_IMMEDIATE_def FICL_WORD_SMUDGED_def)
  also have "\<dots> \<noteq> 0" unfolding w(3) by (simp add: FICL_WORD_IMMEDIATE_def FICL_WORD_COMPILE_ONLY_def)
  finally show ?thesis using that w by blast
qed

text \<open>The interpreter meets the name of a local in a definition.\<close>

lemma parse_local:
  assumes l: "locals_ok im (vm_locals vm) ns" "vm_localsCount vm = int (length ns)" and nm: "name_ok name" "local_index ns name = Some i"
    and st: "vm_state vm = FICL_VM_STATE_COMPILE" and im: "ficlInstructionLast \<le> im" "primitive_code E im = ficlLocalParenIm"
    and c: "compiled vm0 vm cs" and r: "room (vm_dict vm0) n" "8 * (length cs + 2) \<le> n" and i: "length ns < 2 ^ 62"
  shows "\<exists>vm'. ficlVmParseWord E copy vm name = Some (Ok (True, vm')) \<and> compiled vm0 vm' (cs @ local_code get_insts (int i)) \<and>
    data vm' = data vm \<and> vm_state vm' = vm_state vm"
proof -
  let ?D = "vm_locals vm"
  have il: "i < length ns" "ns \<noteq> []" using local_index_less [OF nm(2)] by auto
  obtain a where a: "ficlHashLookup (d_heap ?D) (d_forthWordlist ?D) name (ficlHashCode name) = Some (Ok a)" "local_word im ?D i a"
    by (rule locals_search [OF l(1) nm(1)]) (use nm(2) in auto)
  have aw: "a \<noteq> NULL" "word_code ?D a = Some (im, FICL_WORD_IMMEDIATE OR FICL_WORD_COMPILE_ONLY)"
      "load_cell (d_bytes ?D) (word_param a) = Some (of_nat i)" using a(2) by (simp_all add: local_word_def)
  obtain w where w: "words (d_heap ?D) a = Some w" "w_code w = im" "w_flags w AND FICL_WORD_IMMEDIATE \<noteq> 0"
    by (rule local_flags [OF aw(2)]) blast
  have fw: "find_word vm name = Some (Ok (True, a))"
    using a(1) aw(1) l(2) il by (simp add: find_word_def ficlSystemLookupLocal_def)
  let ?w = "w\<lparr>w_current_word := d_smudge (vm_dict vm), w_current_file := d_current_file (vm_dict vm), w_current_line := d_current_line (vm_dict vm)\<rparr>"
  let ?v = "vm\<lparr>vm_locals := set_word a ?w ?D\<rparr>" and ?r = "vm\<lparr>vm_locals := set_word a ?w ?D, vm_runningWord := a\<rparr>"
  have "vm_wf ?r" using laid_wf [OF compiled_laid [OF c]] by (simp add: vm_wf_def)
  then have "compiled vm0 ?r cs" by (intro compiled_stack [OF c]) simp_all
  then obtain d where d: "compile_local get_insts (int i) ?r = Ok (?r\<lparr>vm_dict := d\<rparr>)"
      "compiled vm0 (?r\<lparr>vm_dict := d\<rparr>) (cs @ local_code get_insts (int i))"
    by (rule compile_local_ok [OF _ r])
  have "sint (of_nat i :: cell) = int i" using il i by (simp add: signed_of_nat signed_take_bit_int_eq_self)
  then have "ficlLocalParenIm ?r = Ok (?r\<lparr>vm_dict := d\<rparr>)"
    using aw(3) st d(1) by (simp add: ficlLocalParenIm_def FICL_VM_STATE_INTERPRET_def FICL_VM_STATE_COMPILE_def)
  then have "exec_local E a ?v = Some (Ok (?r\<lparr>vm_dict := d\<rparr>))"
    using im(2) leD [OF im(1)] w(2) by (simp add: exec_local_def call_c_def continue_def)
  then have "run_found E True a (d_smudge (vm_dict vm)) vm = Some (Ok (True, ?r\<lparr>vm_dict := d\<rparr>))"
    using w(1) by (simp add: run_found_def called_from_def heap_of_def Let_def)
  then have "ficlVmParseWord E copy vm name = Some (Ok (True, ?r\<lparr>vm_dict := d\<rparr>))"
    using fw aw(1) w(1,3) st
    by (simp add: ficlVmParseWord_def heap_of_def FICL_VM_STATE_INTERPRET_def FICL_VM_STATE_COMPILE_def)
  then show ?thesis using d(2) by (intro exI [of _ "?r\<lparr>vm_dict := d\<rparr>"]) simp
qed

text \<open>A store to a local: the common part of \<open>to\<close>, \<open>+to\<close> and \<open>f+to\<close>.\<close>

lemma to_word_local:
  assumes l: "locals_ok im (vm_locals vm) ns" "vm_localsCount vm = int (length ns)"
    and nm: "tib_ok vm" "tokens (input vm) = name # ws" "name_ok name" "local_index ns name = Some i"
    and c: "compiled vm0 vm cs" and r: "room (vm_dict vm0) n" "8 * (length cs + 2) \<le> n" and i: "length ns < 2 ^ 62"
  shows "\<exists>vm'. to_word im insts f vm = Some (Ok vm') \<and> compiled vm0 vm' (cs @ local_code insts (int i)) \<and> data vm' = data vm \<and>
    tokens (input vm') = ws"
proof -
  let ?D = "vm_locals vm"
  have il: "i < length ns" "ns \<noteq> []" using local_index_less [OF nm(4)] by auto
  obtain t where t: "ficlVmGetWord vm = Ok (name, vm\<lparr>vm_tib := t\<rparr>)" "tokens (input (vm\<lparr>vm_tib := t\<rparr>)) = ws"
    using ficlVmGetWord_next [OF nm(1,2)] by blast
  let ?v = "vm\<lparr>vm_tib := t\<rparr>"
  obtain a where a: "ficlDictionaryLookup ?D name = Some (Ok a)" "local_word im ?D i a"
    by (rule locals_search [OF l(1) nm(3)]) (use nm(4) in auto)
  have aw: "a \<noteq> NULL" "word_code ?D a = Some (im, FICL_WORD_IMMEDIATE OR FICL_WORD_COMPILE_ONLY)"
      "load_cell (d_bytes ?D) (word_param a) = Some (of_nat i)" using a(2) by (simp_all add: local_word_def)
  obtain w where w: "words (d_heap ?D) a = Some w" "w_code w = im" by (rule local_flags [OF aw(2)]) blast
  have "vm_wf ?v" using laid_wf [OF compiled_laid [OF c]] by (simp add: vm_wf_def)
  then have "compiled vm0 ?v cs" by (intro compiled_stack [OF c]) simp_all
  then obtain d where d: "compile_local insts (int i) ?v = Ok (?v\<lparr>vm_dict := d\<rparr>)" "compiled vm0 (?v\<lparr>vm_dict := d\<rparr>) (cs @ local_code insts (int i))"
    by (rule compile_local_ok [OF _ r])
  have "sint (of_nat i :: cell) = int i" using il i by (simp add: signed_of_nat signed_take_bit_int_eq_self)
  then have "to_local im insts name ?v = Some (Ok (True, ?v\<lparr>vm_dict := d\<rparr>))"
    using a(1) aw(1,3) w l(2) il d(1) by (simp add: to_local_def vm_lift_def d_word_def d_load_cell_def)
  then show ?thesis
    using t d(2) by (intro exI [of _ "?v\<lparr>vm_dict := d\<rparr>"]) (simp add: to_word_def input_def)
qed

end
