(* ===== verification/Ficl_Frames.thy ===== *)
theory Ficl_Frames
  imports Ficl_Locals_Laws
begin

text \<open>
  Frames of locals at run time: the code of a declaration moves cells from the data stack into the frame, the accesses read
  and write it, and \<open>(unlink)\<close> takes the whole frame from the return stack.
\<close>

section \<open>Frames on the return stack\<close>

text \<open>
  Above the cells \<open>rs\<close> of the return stack lies the former frame pointer \<open>old\<close>, then the frame with the values \<open>xs\<close>; anything may follow.
\<close>

definition in_frame :: "ficlVm \<Rightarrow> cell list \<Rightarrow> addr \<Rightarrow> cell list \<Rightarrow> bool" where
  "in_frame vm rs old xs =
     (let s = vm_returnStack vm; m = int (length rs) + 1
      in vm_wf vm \<and> cell_index s (st_frame s) = m \<and> m + int (length xs) \<le> st_top s + 1 \<and>
         stk_list (st_cells s) (m - 2) = rs \<and> st_cells s (m - 1) = old \<and> (\<forall>i<length xs. st_cells s (m + int i) = xs ! i))"

lemma in_frame_wf: "in_frame vm rs old xs \<Longrightarrow> vm_wf vm"
  by (simp add: in_frame_def Let_def)

lemma in_frame_other:
  assumes "in_frame vm rs old xs" and "vm_wf vm'" and "vm_returnStack vm' = vm_returnStack vm"
  shows "in_frame vm' rs old xs"
  using assms by (simp add: in_frame_def Let_def)

lemma lref_frame:
  assumes "in_frame vm rs old xs" and "i < length xs"
  shows "lref (int i) k vm = k (xs ! i) vm"
  using assms by (auto simp: lref_def in_frame_def Let_def frame_index_def in_stack_def vm_wf_def stack_wf_def)

definition set_frame :: "nat \<Rightarrow> cell \<Rightarrow> ficlVm \<Rightarrow> ficlVm" where
  "set_frame i c vm = vm\<lparr>vm_returnStack := (vm_returnStack vm)\<lparr>st_cells :=
     (st_cells (vm_returnStack vm))(frame_index (vm_returnStack vm) (int i) := c)\<rparr>\<rparr>"

lemma set_frame_fields [simp]:
  "vm_ip (set_frame i c vm) = vm_ip vm" "vm_dict (set_frame i c vm) = vm_dict vm" "vm_dataStack (set_frame i c vm) = vm_dataStack vm"
  "vm_wf (set_frame i c vm) = vm_wf vm" "st_size (vm_returnStack (set_frame i c vm)) = st_size (vm_returnStack vm)"
  "st_top (vm_returnStack (set_frame i c vm)) = st_top (vm_returnStack vm)"
  by (simp_all add: set_frame_def vm_wf_def stack_wf_def)

lemma lset_frame:
  assumes "in_frame vm rs old xs" and "i < length xs"
  shows "lset (int i) c k vm = k (set_frame i c vm)" and "in_frame (set_frame i c vm) rs old (xs[i := c])"
proof -
  show "lset (int i) c k vm = k (set_frame i c vm)"
    using assms by (auto simp: lset_def in_frame_def Let_def frame_index_def in_stack_def vm_wf_def stack_wf_def set_frame_def)
  let ?s = "vm_returnStack vm" and ?m = "int (length rs) + 1"
  have f: "vm_wf vm" "cell_index ?s (st_frame ?s) = ?m" "?m + int (length xs) \<le> st_top ?s + 1"
      "stk_list (st_cells ?s) (?m - 2) = rs" "st_cells ?s (?m - 1) = old" "\<forall>j<length xs. st_cells ?s (?m + int j) = xs ! j"
    using assms(1) by (simp_all add: in_frame_def Let_def)
  have "stk_list ((st_cells ?s)(?m + int i := c)) (?m - 2) = stk_list (st_cells ?s) (?m - 2)"
    by (simp add: stack_simps)
  moreover have "frame_index ?s (int i) = ?m + int i" using f(2) by (simp add: frame_index_def)
  moreover have "vm_wf (set_frame i c vm)" using f(1) by simp
  moreover have "cell_index (vm_returnStack (set_frame i c vm)) (st_frame (vm_returnStack (set_frame i c vm))) = ?m"
    using f(2) by (simp add: set_frame_def cell_index_def)
  ultimately show "in_frame (set_frame i c vm) rs old (xs[i := c])"
    using f assms(2) unfolding in_frame_def Let_def by (simp add: set_frame_def nth_list_update) 
qed

section \<open>Entering and leaving\<close>

text \<open>\<open>(link)\<close> opens a frame without a check of the return stack.\<close>

definition linked :: "nat \<Rightarrow> ficlVm \<Rightarrow> ficlVm" where
  "linked n vm = (let s = vm_returnStack vm
     in vm\<lparr>vm_returnStack := s\<lparr>st_cells := (st_cells s)(st_top s + 1 := st_frame s), st_frame := cell_addr s (st_top s + 2),
                              st_top := st_top s + 1 + int n\<rparr>\<rparr>)"

definition frame_values :: "nat \<Rightarrow> ficlVm \<Rightarrow> cell list" where
  "frame_values n vm = map (\<lambda>i. st_cells (vm_returnStack vm) (frame_index (vm_returnStack vm) (int i))) [0..<n]"

lemma link_frame:
  assumes w: "vm_wf vm" and r: "length (rets vm) + 1 + n \<le> st_size (vm_returnStack vm)" "st_size (vm_returnStack vm) < 2 ^ 59"
    and l: "load_cell (d_bytes (vm_dict vm)) (vm_ip vm) = Some (of_nat n)"
  shows "instr_LinkParen vm = Ok (Continue ((linked n vm)\<lparr>vm_ip := vm_ip vm + 8\<rparr>))"
    and "in_frame (linked n vm) (rets vm) (st_frame (vm_returnStack vm)) (frame_values n (linked n vm))"
proof -
  let ?s = "vm_returnStack vm"
  have t: "st_top ?s = int (length (rets vm)) - 1" "0 \<le> st_top ?s + 1" using w by (auto simp: vm_wf_def stack_wf_def stack_list_def)
  have n: "sint (of_nat n :: cell) = int n" using r by (simp add: signed_of_nat signed_take_bit_int_eq_self)
  show "instr_LinkParen vm = Ok (Continue ((linked n vm)\<lparr>vm_ip := vm_ip vm + 8\<rparr>))"
    using t r n by (simp add: instr_LinkParen_def iref_load [OF l] imove_def rmove_def rset_def stk_access_defs continue_def linked_def
        Let_def cell_addr_def add_ac)
  let ?s' = "vm_returnStack (linked n vm)" and ?m = "int (length (rets vm)) + 1"
  have "cell_index ?s' (st_frame ?s') = cell_index ?s (cell_addr ?s (st_top ?s + 2))"
    by (simp add: linked_def Let_def cell_index_def cell_addr_def)
  also have "\<dots> = ?m" using cell_index_addr [of "st_top ?s + 2" ?s] t r by simp
  finally have ci: "cell_index ?s' (st_frame ?s') = ?m" .
  moreover have "stk_list (st_cells ?s') (?m - 2) = rets vm"
    using t by (simp add: linked_def Let_def stack_list_def stack_simps)
  moreover have "st_cells ?s' (?m - 1) = st_frame ?s" using t by (simp add: linked_def Let_def)
  moreover have "vm_wf (linked n vm)" "?m + int n \<le> st_top ?s' + 1" using w t r by (auto simp: vm_wf_def stack_wf_def linked_def Let_def)
  ultimately show "in_frame (linked n vm) (rets vm) (st_frame ?s) (frame_values n (linked n vm))"
    by (simp add: in_frame_def Let_def frame_values_def frame_index_def)
qed

lemma unlink_frame:
  assumes "in_frame vm rs old xs"
  obtains vm' where "instr_UnlinkParen vm = Ok (Continue vm')" and "vm_wf vm'" and "rets vm' = rs" and "data vm' = data vm"
    and "st_frame (vm_returnStack vm') = old" and "vm_dict vm' = vm_dict vm" and "vm_ip vm' = vm_ip vm"
proof -
  let ?s = "vm_returnStack vm" and ?m = "int (length rs) + 1"
  have f: "vm_wf vm" "cell_index ?s (st_frame ?s) = ?m" "?m + int (length xs) \<le> st_top ?s + 1"
      "stk_list (st_cells ?s) (?m - 2) = rs" "st_cells ?s (?m - 1) = old"
    using assms by (simp_all add: in_frame_def Let_def)
  let ?v = "vm\<lparr>vm_returnStack := ?s\<lparr>st_top := ?m - 2, st_frame := old\<rparr>\<rparr>"
  have "instr_UnlinkParen vm = Ok (Continue ?v)"
    using f by (auto simp: instr_UnlinkParen_def rref_def stk_access_defs rmove_def continue_def vm_wf_def stack_wf_def Let_def)
  moreover have "vm_wf ?v" "rets ?v = rs" using f by (auto simp: vm_wf_def stack_wf_def stack_list_def)
  ultimately show ?thesis by (intro that [of ?v]) simp_all
qed

section \<open>Accesses\<close>

lemma sint_local: "i < 2 ^ 62 \<Longrightarrow> sint (of_nat i :: cell) = int i"
  by (simp add: signed_of_nat signed_take_bit_int_eq_self)

lemma pop_to_frame:
  assumes f: "in_frame vm rs old xs" and d: "data vm = x # ys" and i: "i < length xs"
  shows "POP_CELL_POINTER (int i) vm = Ok (Continue (ddrop 1 (set_frame i x vm)))"
    and "in_frame (ddrop 1 (set_frame i x vm)) rs old (xs[i := x])" and "data (ddrop 1 (set_frame i x vm)) = ys"
proof -
  have w: "vm_wf vm" using in_frame_wf [OF f] .
  have "dref 0 k vm = k x vm" for k :: "cell \<Rightarrow> instr" using dref_list [OF w, of 0 k] d by simp
  then show "POP_CELL_POINTER (int i) vm = Ok (Continue (ddrop 1 (set_frame i x vm)))"
    by (simp add: POP_CELL_POINTER_def lset_frame(1) [OF f i] flow_simps continue_def)
  have w': "vm_wf (set_frame i x vm)" "1 \<le> length (data (set_frame i x vm))" using w d by simp_all
  show "data (ddrop 1 (set_frame i x vm)) = ys" unfolding ddrop_list(1) [OF w'] using d by simp
  show "in_frame (ddrop 1 (set_frame i x vm)) rs old (xs[i := x])"
    using in_frame_other [OF lset_frame(2) [OF f i] ddrop_list(2) [OF w']] by simp
qed

lemma push_from_frame:
  assumes f: "in_frame vm rs old xs" and d: "length (data vm) < st_size (vm_dataStack vm)" and i: "i < length xs"
  shows "PUSH_CELL_POINTER (int i) vm = Ok (Continue (dpushed (xs ! i) vm))" and "in_frame (dpushed (xs ! i) vm) rs old xs"
    and "data (dpushed (xs ! i) vm) = xs ! i # data vm"
proof -
  have w: "vm_wf vm" using in_frame_wf [OF f] .
  have "PUSH_CELL_POINTER (int i) vm = dpush (xs ! i) continue vm"
    by (simp add: PUSH_CELL_POINTER_def lref_frame [OF f i] dpush_def)
  then show "PUSH_CELL_POINTER (int i) vm = Ok (Continue (dpushed (xs ! i) vm))"
    by (simp add: dpush_list [OF w d] continue_def)
  show "data (dpushed (xs ! i) vm) = xs ! i # data vm" using w d by (simp add: flow_simps)
  show "in_frame (dpushed (xs ! i) vm) rs old xs"
    using w d by (intro in_frame_other [OF f]) (simp_all add: flow_simps)
qed

text \<open>An instruction whose number follows.\<close>

lemma in_frame_ip [simp]: "in_frame (vm\<lparr>vm_ip := p\<rparr>) rs old xs = in_frame vm rs old xs"
  by (simp add: in_frame_def)

lemma step_numbered:
  assumes "vm_ip vm \<noteq> NULL" and "cells_at (d_bytes (vm_dict vm)) (vm_ip vm) [c, of_nat i]" and "i < 2 ^ 62"
    and "(c, iref (\<lambda>n. imove 1 (f (sint n)))) \<in> set (stack_table E @ memory_table E c @ arith_table E)"
  shows "inner_step E vm = Some (f (int i) (vm\<lparr>vm_ip := vm_ip vm + 16\<rparr>))"
proof -
  have m: "load_cell (d_bytes (vm_dict vm)) (vm_ip vm) = Some c" "load_cell (d_bytes (vm_dict vm)) (vm_ip vm + 8) = Some (of_nat i)"
    using spec [OF assms(2) [unfolded cells_at_def], of 0] spec [OF assms(2) [unfolded cells_at_def], of 1] by simp_all
  show ?thesis
    using inner_step_instr [OF assms(1) m(1) assms(4)] m(2)
    by (simp add: iref_def d_load_cell_def imove_def sint_local [OF assms(3)] add.commute)
qed

lemma step_store_numbered:
  assumes "vm_ip vm \<noteq> NULL" and "cells_at (d_bytes (vm_dict vm)) (vm_ip vm) [ficlInstructionToLocalParen, of_nat i]" and "i < 2 ^ 62"
    and "in_frame vm rs old xs" and "data vm = x # ys" and "i < length xs"
  shows "inner_step E vm = Some (Ok (Continue (ddrop 1 (set_frame i x (vm\<lparr>vm_ip := vm_ip vm + 16\<rparr>)))))"
  using step_numbered [OF assms(1-3), of POP_CELL_POINTER E] assms(4-6)
    pop_to_frame(1) [of "vm\<lparr>vm_ip := vm_ip vm + 16\<rparr>" rs old xs x ys i]
  by (simp add: memory_table_def instr_ToLocalParen_def)

text \<open>The accesses that the names of locals compile.\<close>

lemma local_code_cases:
  "local_code (a, b, c) (int i) = (if i = 0 then [a] else if i = Suc 0 then [b] else [c, of_nat i])"
  by (simp add: local_code_def)

lemma step_one:
  assumes "vm_ip vm \<noteq> NULL" and "cells_at (d_bytes (vm_dict vm)) (vm_ip vm) [c]"
    and "(c, f) \<in> set (stack_table E @ memory_table E c @ arith_table E)"
  shows "inner_step E vm = Some (f (vm\<lparr>vm_ip := vm_ip vm + 8\<rparr>))"
  using inner_step_instr [OF assms(1) _ assms(3)] assms(2) by (simp add: cells_at_def)

lemma step_store:
  assumes "vm_ip vm \<noteq> NULL" and c: "cells_at (d_bytes (vm_dict vm)) (vm_ip vm) (local_code to_insts (int i))" and "i < 2 ^ 62"
    and "in_frame vm rs old xs" and "data vm = x # ys" and "i < length xs"
  shows "inner_step E vm = Some (Ok (Continue (ddrop 1 (set_frame i x
    (vm\<lparr>vm_ip := vm_ip vm + of_nat (8 * length (local_code to_insts (int i)))\<rparr>)))))"
proof -
  note p = pop_to_frame(1) [of "vm\<lparr>vm_ip := vm_ip vm + 8\<rparr>" rs old xs x ys i]
  consider "i = 0" | "i = 1" | "i \<noteq> 0" "i \<noteq> 1" by blast
  then show ?thesis
  proof cases
    case 1
    then show ?thesis
      using c step_one [OF assms(1), of ficlInstructionToLocal0 instr_ToLocal0 E] p assms(4-6)
      by (simp add: to_insts_def local_code_def memory_table_def instr_ToLocal0_def)
  next
    case 2
    then show ?thesis
      using c step_one [OF assms(1), of ficlInstructionToLocal1 instr_ToLocal1 E] p assms(4-6)
      by (simp add: to_insts_def local_code_def memory_table_def instr_ToLocal1_def)
  next
    case 3
    then show ?thesis
      using c step_store_numbered [OF assms(1) _ assms(3-6)] by (simp add: to_insts_def local_code_def)
  qed
qed

lemma step_fetch:
  assumes "vm_ip vm \<noteq> NULL" and c: "cells_at (d_bytes (vm_dict vm)) (vm_ip vm) (local_code get_insts (int i))" and "i < 2 ^ 62"
    and "in_frame vm rs old xs" and "length (data vm) < st_size (vm_dataStack vm)" and "i < length xs"
  shows "inner_step E vm = Some (Ok (Continue (dpushed (xs ! i)
    (vm\<lparr>vm_ip := vm_ip vm + of_nat (8 * length (local_code get_insts (int i)))\<rparr>))))"
proof -
  note p = push_from_frame(1) [of "vm\<lparr>vm_ip := vm_ip vm + 8\<rparr>" rs old xs i]
  consider "i = 0" | "i = 1" | "i \<noteq> 0" "i \<noteq> 1" by blast
  then show ?thesis
  proof cases
    case 1
    then show ?thesis
      using c step_one [OF assms(1), of ficlInstructionGetLocal0 instr_GetLocal0 E] p assms(4-6)
      by (simp add: get_insts_def local_code_def memory_table_def instr_GetLocal0_def)
  next
    case 2
    then show ?thesis
      using c step_one [OF assms(1), of ficlInstructionGetLocal1 instr_GetLocal1 E] p assms(4-6)
      by (simp add: get_insts_def local_code_def memory_table_def instr_GetLocal1_def)
  next
    case 3
    then show ?thesis
      using c step_numbered [OF assms(1) _ assms(3), of ficlInstructionGetLocalParen PUSH_CELL_POINTER E] assms(4-6)
        push_from_frame(1) [of "vm\<lparr>vm_ip := vm_ip vm + 16\<rparr>" rs old xs i]
      by (simp add: get_insts_def local_code_def memory_table_def instr_GetLocalParen_def)
  qed
qed

section \<open>The code of a declaration\<close>

lemma cells_at_append: "cells_at m p (cs @ ds) \<longleftrightarrow> cells_at m p cs \<and> cells_at m (p + of_nat (8 * length cs)) ds"
proof
  assume c: "cells_at m p (cs @ ds)"
  have "load_cell m (p + of_nat (8 * length cs) + of_nat (8 * i)) = Some (ds ! i)" if "i < length ds" for i
    using spec [OF c [unfolded cells_at_def], of "length cs + i"] that by (simp add: distrib_left add.assoc)
  moreover have "cells_at m p cs" using c by (auto simp: cells_at_def nth_append)
  ultimately show "cells_at m p cs \<and> cells_at m (p + of_nat (8 * length cs)) ds" by (simp add: cells_at_def)
next
  assume c: "cells_at m p cs \<and> cells_at m (p + of_nat (8 * length cs)) ds"
  have "load_cell m (p + of_nat (8 * i)) = Some ((cs @ ds) ! i)" if i: "i < length (cs @ ds)" for i
  proof (cases "i < length cs")
    case False
    then have "load_cell m (p + of_nat (8 * length cs) + of_nat (8 * (i - length cs))) = Some (ds ! (i - length cs))"
      using conjunct2 [OF c] i by (auto simp: cells_at_def simp del: of_nat_mult)
    moreover have "p + of_nat (8 * length cs) + of_nat (8 * (i - length cs)) = p + of_nat (8 * i)"
      using False by (simp add: add.assoc of_nat_diff algebra_simps)
    ultimately show ?thesis using False by (simp add: nth_append)
  qed (use c in \<open>simp add: cells_at_def nth_append\<close>)
  then show "cells_at m p (cs @ ds)" by (simp add: cells_at_def)
qed

text \<open>The addresses of the code are not null.\<close>

definition no_wrap :: "addr \<Rightarrow> nat \<Rightarrow> bool" where
  "no_wrap p n = (p \<noteq> NULL \<and> unat p + n < 2 ^ 64)"

lemma no_wrap_add:
  assumes "no_wrap p (m + n)"
  shows "no_wrap (p + of_nat m) n"
proof -
  have "unat (p + of_nat m) = unat p + m"
    using assms by (subst unat_word_ariths(1)) (simp add: no_wrap_def unsigned_of_nat take_bit_nat_eq_self)
  moreover have "unat p \<noteq> 0" using assms by (simp add: no_wrap_def unat_0_iff)
  ultimately show ?thesis using assms by (auto simp: no_wrap_def)
qed

lemma stores_run:
  assumes "in_frame vm rs old xs" and "data vm = ds @ ys" and "k + length ds = length xs" and "length xs < 2 ^ 62"
    and "cells_at (d_bytes (vm_dict vm)) (vm_ip vm) (concat (map (\<lambda>i. [ficlInstructionToLocalParen, of_nat i]) [k..<length xs]))"
    and "no_wrap (vm_ip vm) (16 * length ds)"
  shows "\<exists>vm'. reaches E vm vm' \<and> in_frame vm' rs old (take k xs @ ds) \<and> data vm' = ys \<and> vm_dict vm' = vm_dict vm \<and>
    vm_ip vm' = vm_ip vm + of_nat (16 * length ds) \<and> st_size (vm_dataStack vm') = st_size (vm_dataStack vm)"
  using assms
proof (induction ds arbitrary: vm xs k)
  case Nil
  then show ?case by (intro exI [of _ vm]) simp
next
  case (Cons x ds)
  let ?v = "vm\<lparr>vm_ip := vm_ip vm + 16\<rparr>"
  let ?v1 = "ddrop 1 (set_frame k x ?v)" and ?code = "\<lambda>k. concat (map (\<lambda>i. [ficlInstructionToLocalParen, of_nat i]) [k..<length xs])"
  have k: "k < length xs" "k < 2 ^ 62" using Cons.prems(3,4) by simp_all
  have "?code k = [ficlInstructionToLocalParen, of_nat k] @ ?code (Suc k)" using k by (simp add: upt_conv_Cons)
  then have c: "cells_at (d_bytes (vm_dict vm)) (vm_ip vm) [ficlInstructionToLocalParen, of_nat k]"
      "cells_at (d_bytes (vm_dict vm)) (vm_ip vm + 16) (?code (Suc k))"
    using Cons.prems(5) by (simp_all only: cells_at_append) simp
  have n: "vm_ip vm \<noteq> NULL" "no_wrap (vm_ip vm + of_nat 16) (16 * length ds)"
    using Cons.prems(6) by (simp add: no_wrap_def, intro no_wrap_add, simp)
  have st: "inner_step E vm = Some (Ok (Continue ?v1))"
    using step_store_numbered [OF n(1) c(1) k(2) Cons.prems(1) _ k(1)] Cons.prems(2) by simp
  have f: "in_frame ?v1 rs old (xs[k := x])" "data ?v1 = ds @ ys"
    using pop_to_frame(2,3) [of ?v rs old xs x "ds @ ys" k] Cons.prems(1,2) k(1) by simp_all
  have "\<exists>vm'. reaches E ?v1 vm' \<and> in_frame vm' rs old (take (Suc k) (xs[k := x]) @ ds) \<and> data vm' = ys \<and>
      vm_dict vm' = vm_dict ?v1 \<and> vm_ip vm' = vm_ip ?v1 + of_nat (16 * length ds) \<and>
      st_size (vm_dataStack vm') = st_size (vm_dataStack ?v1)"
    using Cons.prems(3,4) c(2) n(2) by (intro Cons.IH [OF f]) simp_all
  then obtain vm' where v': "reaches E ?v1 vm'" "in_frame vm' rs old (take (Suc k) (xs[k := x]) @ ds)" "data vm' = ys"
      "vm_dict vm' = vm_dict ?v1" "vm_ip vm' = vm_ip ?v1 + of_nat (16 * length ds)"
      "st_size (vm_dataStack vm') = st_size (vm_dataStack ?v1)" by blast
  have "take (Suc k) (xs[k := x]) = take k xs @ [x]" using k(1) by (simp add: take_Suc_conv_app_nth)
  then show ?case using v' reaches_step [OF st v'(1)] by (intro exI [of _ vm']) (simp add: add.assoc)
qed

text \<open>
  Executing the code of a declaration of as many locals: the topmost cell of the stack becomes the first local.
\<close>

lemma frame_code_run:
  assumes w: "vm_wf vm" and d: "data vm = xs @ ys" and n: "length xs = n"
    and r: "length (rets vm) + 1 + n \<le> st_size (vm_returnStack vm)" "st_size (vm_returnStack vm) < 2 ^ 59"
    and c: "cells_at (d_bytes (vm_dict vm)) (vm_ip vm) (frame_code n n)" and a: "no_wrap (vm_ip vm) (8 * (2 + 2 * n))"
  shows "\<exists>vm'. reaches E vm vm' \<and> in_frame vm' (rets vm) (st_frame (vm_returnStack vm)) xs \<and> data vm' = ys \<and>
    vm_dict vm' = vm_dict vm \<and> vm_ip vm' = vm_ip vm + of_nat (8 * (2 + 2 * n)) \<and>
    st_size (vm_dataStack vm') = st_size (vm_dataStack vm)"
proof -
  let ?code = "concat (map (\<lambda>i. [ficlInstructionToLocalParen, of_nat i]) [0..<n])"
  have c': "cells_at (d_bytes (vm_dict vm)) (vm_ip vm) [ficlInstructionLinkParen, of_nat n]"
      "cells_at (d_bytes (vm_dict vm)) (vm_ip vm + 16) ?code"
    using c cells_at_append [of _ _ "[ficlInstructionLinkParen, of_nat n]" ?code] by (simp_all add: frame_code_def)
  have m: "load_cell (d_bytes (vm_dict vm)) (vm_ip vm) = Some ficlInstructionLinkParen"
      "load_cell (d_bytes (vm_dict vm)) (vm_ip vm + 8) = Some (of_nat n)"
    using spec [OF c'(1) [unfolded cells_at_def], of 0] spec [OF c'(1) [unfolded cells_at_def], of 1] by simp_all
  let ?v = "vm\<lparr>vm_ip := vm_ip vm + 8\<rparr>" and ?l = "(linked n vm)\<lparr>vm_ip := vm_ip vm + 16\<rparr>"
  have ip: "vm_ip vm \<noteq> NULL" "no_wrap (vm_ip vm + of_nat 16) (16 * n)"
    using a by (simp add: no_wrap_def, intro no_wrap_add, simp add: distrib_left)
  have "inner_step E vm = Some (instr_LinkParen ?v)"
    by (rule inner_step_instr [OF ip(1) m(1)]) (simp add: memory_table_def)
  also have "instr_LinkParen ?v = Ok (Continue ?l)"
    using link_frame(1) [of ?v n] w r m(2) by (simp add: linked_def Let_def)
  finally have st: "inner_step E vm = Some (Ok (Continue ?l))" .
  have "in_frame (linked n ?v) (rets vm) (st_frame (vm_returnStack vm)) (frame_values n (linked n ?v))"
    using link_frame(2) [of ?v n] w r m(2) by simp
  moreover have "linked n ?v = (linked n vm)\<lparr>vm_ip := vm_ip vm + 8\<rparr>" by (simp add: linked_def Let_def)
  ultimately have f: "in_frame ?l (rets vm) (st_frame (vm_returnStack vm)) (frame_values n (linked n ?v))" by simp
  have l: "data ?l = xs @ ys" "vm_dict ?l = vm_dict vm" "vm_dataStack ?l = vm_dataStack vm" using d by (simp_all add: linked_def Let_def)
  have len: "length (frame_values n (linked n ?v)) = n" by (simp add: frame_values_def)
  have n62: "n < 2 ^ 62" using r by simp
  obtain vm' where v': "reaches E ?l vm'" "in_frame vm' (rets vm) (st_frame (vm_returnStack vm)) xs" "data vm' = ys"
      "vm_dict vm' = vm_dict vm" "vm_ip vm' = vm_ip vm + 16 + of_nat (16 * n)" "st_size (vm_dataStack vm') = st_size (vm_dataStack ?l)"
    using stores_run [OF f l(1), of 0 E] len n n62 c'(2) ip(2) l(2) by auto
  show ?thesis
    using v' l(3) reaches_step [OF st v'(1)] by (intro exI [of _ vm']) (simp add: distrib_left add.assoc)
qed

section \<open>Names and values together\<close>

lemma laid_cells: "laid vm0 vm cs \<Longrightarrow> cells_at (d_bytes (vm_dict vm)) (here vm0) cs"
  by (simp add: laid_def)

text \<open>
  A machine about to execute the definition that begins at \<open>p\<close> with a frame of \<open>n\<close> locals, and has room for them.
\<close>

definition enters :: "ficlVm \<Rightarrow> addr \<Rightarrow> nat \<Rightarrow> bool" where
  "enters v p n = (vm_wf v \<and> vm_ip v = p \<and> no_wrap p (8 * (4 + 2 * n)) \<and> length (rets v) + 1 + n \<le> st_size (vm_returnStack v) \<and>
     st_size (vm_returnStack v) < 2 ^ 59)"

lemma frame_then_fetch:
  assumes c: "cells_at (d_bytes (vm_dict v)) p (frame_code n n @ local_code get_insts (int i))" and e: "enters v p n"
    and d: "data v = xs @ ys" "length xs = n" and i: "i < n"
  shows "\<exists>v'. reaches E v v' \<and> in_frame v' (rets v) (st_frame (vm_returnStack v)) xs \<and> data v' = xs ! i # ys \<and>
    vm_ip v' = p + of_nat (8 * length (frame_code n n @ local_code get_insts (int i)))"
proof -
  have c': "cells_at (d_bytes (vm_dict v)) (vm_ip v) (frame_code n n)"
      "cells_at (d_bytes (vm_dict v)) (vm_ip v + of_nat (8 * (2 + 2 * n))) (local_code get_insts (int i))"
    using c e cells_at_append [of "d_bytes (vm_dict v)" p "frame_code n n"] by (simp_all add: enters_def)
  have e': "vm_wf v" "length (rets v) + 1 + n \<le> st_size (vm_returnStack v)" "st_size (vm_returnStack v) < 2 ^ 59"
      "no_wrap (vm_ip v) (8 * (2 + 2 * n) + 16)" "vm_ip v = p"
    using e by (simp_all add: enters_def)
  have a: "no_wrap (vm_ip v) (8 * (2 + 2 * n))" using e'(4) by (simp add: no_wrap_def)
  obtain v1 where v1: "reaches E v v1" "in_frame v1 (rets v) (st_frame (vm_returnStack v)) xs" "data v1 = ys"
      "vm_dict v1 = vm_dict v" "vm_ip v1 = vm_ip v + of_nat (8 * (2 + 2 * n))" "st_size (vm_dataStack v1) = st_size (vm_dataStack v)"
    using frame_code_run [OF e'(1) d e'(2,3) c'(1) a, of E] by blast
  have nz: "vm_ip v1 \<noteq> NULL" using no_wrap_add [OF e'(4)] v1(5) by (simp add: no_wrap_def)
  have "length (data v) \<le> st_size (vm_dataStack v)" using e'(1) stack_wf_length by (simp add: vm_wf_def)
  then have rm: "length (data v1) < st_size (vm_dataStack v1)" using d i v1(3,6) by simp
  have i62: "i < 2 ^ 62" "i < length xs" using i e'(2,3) d(2) by simp_all
  let ?v = "v1\<lparr>vm_ip := vm_ip v1 + of_nat (8 * length (local_code get_insts (int i)))\<rparr>"
  have "inner_step E v1 = Some (Ok (Continue (dpushed (xs ! i) ?v)))"
    using step_fetch [OF nz _ i62(1) v1(2) rm i62(2)] c'(2) v1(4,5) by simp
  then have "reaches E v1 (dpushed (xs ! i) ?v)" by (rule reaches_step) simp
  moreover have "in_frame (dpushed (xs ! i) ?v) (rets v) (st_frame (vm_returnStack v)) xs" "data (dpushed (xs ! i) ?v) = xs ! i # ys"
    using push_from_frame(2,3) [of ?v _ _ xs i] v1(2,3) rm i62(2) by simp_all
  ultimately show ?thesis
    using reaches_trans [OF v1(1)] v1(5) e'(5) by (intro exI [of _ "dpushed (xs ! i) ?v"]) (simp add: distrib_left add.assoc)
qed

text \<open>A return stack without room for the frame is left by \<open>(link)\<close>.\<close>

lemma link_overrun:
  assumes w: "vm_wf vm" and n: "n < 2 ^ 62" "st_size (vm_returnStack vm) < length (rets vm) + 1 + n"
    and l: "load_cell (d_bytes (vm_dict vm)) (vm_ip vm) = Some (of_nat n)"
  shows "\<exists>vm'. instr_LinkParen vm = Ok (Continue vm') \<and> int (st_size (vm_returnStack vm)) \<le> st_top (vm_returnStack vm')"
proof -
  let ?s = "vm_returnStack vm"
  have t: "st_top ?s = int (length (rets vm)) - 1" "st_top ?s < int (st_size ?s)" using w by (auto simp: vm_wf_def stack_wf_def stack_list_def)
  have "instr_LinkParen vm = Ok (Continue ((linked n vm)\<lparr>vm_ip := vm_ip vm + 8\<rparr>))"
    using t by (simp add: instr_LinkParen_def iref_load [OF l] imove_def rmove_def rset_def stk_access_defs continue_def linked_def
        Let_def cell_addr_def add_ac sint_local [OF n(1)])
  then show ?thesis using t n(2) by (simp add: linked_def Let_def)
qed

end
