(* ===== verification/Ficl_Search.thy ===== *)
theory Ficl_Search
  imports Ficl_Parse
begin

section \<open>Search order words\<close>

text \<open>
  The primitives of \<open>ficl/search.c\<close>: the search order of the dictionary as seen from a program,
  and the wordlist that new definitions go to. The array of wordlists has
  \<open>FICL_MAX_WORDLISTS\<close> entries, the length of \<open>d_wordlists\<close>; reading or writing outside is
  \<open>Fault\<close>. A lookup may not return on a damaged wordlist, then \<open>search-wordlist\<close> is \<open>None\<close>.
  \<open>wid-get-name\<close>, which makes a string object, is left out.

  The lemmas show that \<open>get-order\<close> and \<open>set-order\<close> are inverse to each other, that \<open>>search\<close> and \<open>search>\<close>
  work as a stack on the search order, and what happens when it is full.
\<close>

definition wordlist_at :: "ficlDictionary \<Rightarrow> int \<Rightarrow> (int, addr) outcome" where
  "wordlist_at d i = (if 0 \<le> i \<and> i < int (length (d_wordlists d)) then Ok (d_wordlists d ! nat i) else Fault)"

definition wordlist_set :: "int \<Rightarrow> addr \<Rightarrow> ficlDictionary \<Rightarrow> (int, ficlDictionary) outcome" where
  "wordlist_set i wid d =
     (if 0 \<le> i \<and> i < int (length (d_wordlists d)) then Ok (d\<lparr>d_wordlists := (d_wordlists d)[nat i := wid]\<rparr>) else Fault)"

definition ficlPrimitiveDefinitions :: "ficlVm \<Rightarrow> ficlVm vm_result" where
  "ficlPrimitiveDefinitions vm =
     (let dictionary = vm_dict vm
      in if d_wordlistCount dictionary < 1 then ficlVmThrowException vm FICL_VM_STATUS_SEARCH_UNDERFLOW
         else vm_lift vm (wordlist_at dictionary (d_wordlistCount dictionary - 1)) (\<lambda>wid.
                Ok (vm\<lparr>vm_dict := dictionary\<lparr>d_compilationWordlist := wid\<rparr>\<rparr>)))"

definition ficlPrimitiveForthWordlist :: "ficlVm \<Rightarrow> ficlVm vm_result" where
  "ficlPrimitiveForthWordlist vm = FICL_STACK_CHECK vm 0 1 (ficlVmPush vm (d_forthWordlist (vm_dict vm)))"

definition ficlPrimitiveGetCurrent :: "ficlVm \<Rightarrow> ficlVm vm_result" where
  "ficlPrimitiveGetCurrent vm = FICL_STACK_CHECK vm 0 1 (ficlVmPush vm (d_compilationWordlist (vm_dict vm)))"

fun push_order :: "nat \<Rightarrow> int \<Rightarrow> ficlVm \<Rightarrow> ficlVm vm_result" where
  "push_order 0 i vm = Ok vm"
| "push_order (Suc n) i vm = vm_lift vm (wordlist_at (vm_dict vm) i) (\<lambda>wid.
     bind_outcome (ficlVmPush vm wid) (push_order n (i + 1)))"

definition ficlPrimitiveGetOrder :: "ficlVm \<Rightarrow> ficlVm vm_result" where
  "ficlPrimitiveGetOrder vm =
     (let wordlistCount = d_wordlistCount (vm_dict vm)
      in FICL_STACK_CHECK vm 0 (wordlistCount + 1)
           (bind_outcome (push_order (nat wordlistCount) 0 vm) (\<lambda>vm. ficlVmPush vm (of_int wordlistCount))))"

text \<open>The first argument is popped before the stack is checked.\<close>

definition ficlPrimitiveSearchWordlist :: "ficlVm \<Rightarrow> ficlVm vm_result option" where
  "ficlPrimitiveSearchWordlist vm =
     (case ficlVmPop vm of Throw e \<Rightarrow> Some (Throw e) | Fault \<Rightarrow> Some Fault
      | Ok (hash, vm) \<Rightarrow>
          (case FICL_STACK_CHECK vm 3 1 (bind_outcome (ficlVmPop vm) (\<lambda>(len, vm).
                  bind_outcome (ficlVmPop vm) (\<lambda>(txt, vm).
                  case load_bytes (d_bytes (vm_dict vm)) txt (unat len) of None \<Rightarrow> Fault
                  | Some bs \<Rightarrow> Ok (map byte_char bs, vm)))) of
             Throw e \<Rightarrow> Some (Throw e) | Fault \<Rightarrow> Some Fault
           | Ok (name, vm) \<Rightarrow>
               map_option (\<lambda>r. vm_lift vm r (\<lambda>word.
                   if word \<noteq> NULL
                   then bind_outcome (ficlVmPush vm word) (\<lambda>vm.
                          vm_lift vm (ficlWordIsImmediate (d_heap (vm_dict vm)) word) (\<lambda>b.
                            ficlVmPush vm (if b then 1 else -1)))
                   else ficlVmPush vm 0))
                 (ficlHashLookup (d_heap (vm_dict vm)) hash name (ficlHashCode name))))"

definition ficlPrimitiveSetCurrent :: "ficlVm \<Rightarrow> ficlVm vm_result" where
  "ficlPrimitiveSetCurrent vm = FICL_STACK_CHECK vm 1 0 (bind_outcome (ficlVmPop vm) (\<lambda>(wid, vm).
     Ok (vm\<lparr>vm_dict := (vm_dict vm)\<lparr>d_compilationWordlist := wid\<rparr>\<rparr>)))"

fun pop_order :: "nat \<Rightarrow> ficlVm \<Rightarrow> ficlVm vm_result" where
  "pop_order 0 vm = Ok vm"
| "pop_order (Suc i) vm = bind_outcome (ficlVmPop vm) (\<lambda>(wid, vm).
     bind_outcome (in_dict (wordlist_set (int i) wid) vm) (pop_order i))"

definition ficlPrimitiveSetOrder :: "ficlVm \<Rightarrow> ficlVm vm_result" where
  "ficlPrimitiveSetOrder vm = bind_outcome (ficlVmPop vm) (\<lambda>(c, vm).
     let wordlistCount = sint c
     in if wordlistCount > int FICL_MAX_WORDLISTS then ficlVmThrowException vm FICL_VM_STATUS_DICT_OVERFLOW
        else if wordlistCount \<ge> 0
        then pop_order (nat wordlistCount) (vm\<lparr>vm_dict := (vm_dict vm)\<lparr>d_wordlistCount := wordlistCount\<rparr>\<rparr>)
        else Ok (vm\<lparr>vm_dict := ficlDictionaryResetSearchOrder (vm_dict vm)\<rparr>))"

text \<open>A negative number of buckets makes the reset of the new wordlist run over all of memory.\<close>

definition ficlPrimitiveFiclWordlist :: "ficlVm \<Rightarrow> ficlVm vm_result" where
  "ficlPrimitiveFiclWordlist vm = FICL_STACK_CHECK vm 1 1 (bind_outcome (ficlVmPop vm) (\<lambda>(nBuckets, vm).
     if c_int nBuckets < 0 then Fault
     else vm_lift vm (ficlDictionaryCreateWordlist (vm_dict vm) (nat (c_int nBuckets))) (\<lambda>(hash, d).
            ficlVmPush (vm\<lparr>vm_dict := d\<rparr>) hash)))"

definition ficlPrimitiveSearchPop :: "ficlVm \<Rightarrow> ficlVm vm_result" where
  "ficlPrimitiveSearchPop vm = FICL_STACK_CHECK vm 0 1
     (let dictionary = vm_dict vm; wordlistCount = d_wordlistCount dictionary
      in if wordlistCount = 0 then ficlVmThrowException vm FICL_VM_STATUS_SEARCH_UNDERFLOW
         else vm_lift vm (wordlist_at dictionary (wordlistCount - 1)) (\<lambda>wid.
                ficlVmPush (vm\<lparr>vm_dict := dictionary\<lparr>d_wordlistCount := wordlistCount - 1\<rparr>\<rparr>) wid))"

definition ficlPrimitiveSearchPush :: "ficlVm \<Rightarrow> ficlVm vm_result" where
  "ficlPrimitiveSearchPush vm = FICL_STACK_CHECK vm 1 0
     (if d_wordlistCount (vm_dict vm) > int FICL_MAX_WORDLISTS
      then ficlVmThrowException vm FICL_VM_STATUS_SEARCH_OVERFLOW
      else bind_outcome (ficlVmPop vm) (\<lambda>(wid, vm).
             bind_outcome (in_dict (wordlist_set (d_wordlistCount (vm_dict vm)) wid) vm) (\<lambda>vm.
               Ok (vm\<lparr>vm_dict := (vm_dict vm)\<lparr>d_wordlistCount := d_wordlistCount (vm_dict vm) + 1\<rparr>\<rparr>))))"

definition set_hash :: "addr \<Rightarrow> (ficlHash \<Rightarrow> ficlHash) \<Rightarrow> ficlDictionary \<Rightarrow> (int, ficlDictionary) outcome" where
  "set_hash a f d =
     (case hashes (d_heap d) a of None \<Rightarrow> Fault
      | Some w \<Rightarrow> Ok (d\<lparr>d_heap := (d_heap d)\<lparr>hashes := (hashes (d_heap d))(a \<mapsto> f w)\<rparr>\<rparr>))"

definition ficlPrimitiveWidSetName :: "ficlVm \<Rightarrow> ficlVm vm_result" where
  "ficlPrimitiveWidSetName vm = FICL_STACK_CHECK vm 2 0 (bind_outcome (ficlVmPop vm) (\<lambda>(name, vm).
     bind_outcome (ficlVmPop vm) (\<lambda>(hash, vm). in_dict (set_hash hash (\<lambda>w. w\<lparr>h_name := name\<rparr>)) vm)))"

definition ficlPrimitiveSetParentWid :: "ficlVm \<Rightarrow> ficlVm vm_result" where
  "ficlPrimitiveSetParentWid vm = FICL_STACK_CHECK vm 2 0 (bind_outcome (ficlVmPop vm) (\<lambda>(child, vm).
     bind_outcome (ficlVmPop vm) (\<lambda>(parent, vm). in_dict (set_hash child (\<lambda>w. w\<lparr>h_link := parent\<rparr>)) vm)))"

subsection \<open>Saving and restoring the order\<close>

lemma stack_check_ok:
  assumes "vm_wf vm" and "pop \<le> int (length (data vm))"
    and "int (length (data vm)) - pop + push \<le> int (st_size (vm_dataStack vm))"
  shows "FICL_STACK_CHECK vm pop push k = k"
  using ficlStackCheck_iff [of "vm_dataStack vm" pop push] assms by (simp add: FICL_STACK_CHECK_def vm_lift_def vm_wf_def)

lemma stack_check_underflow:
  assumes "vm_wf vm" and "int (length (data vm)) < pop"
  shows "FICL_STACK_CHECK vm pop push k = ficlVmThrowException vm FICL_VM_STATUS_STACK_UNDERFLOW"
  using ficlStackCheck_iff [of "vm_dataStack vm" pop push] assms by (simp add: FICL_STACK_CHECK_def vm_lift_def vm_wf_def)

definition order_ok :: "ficlDictionary \<Rightarrow> bool" where
  "order_ok d = (length (d_wordlists d) = FICL_MAX_WORDLISTS \<and> 0 \<le> d_wordlistCount d \<and>
     d_wordlistCount d \<le> int FICL_MAX_WORDLISTS)"

lemma order_nat:
  assumes "order_ok d"
  shows "nat (d_wordlistCount d) \<le> FICL_MAX_WORDLISTS" and "int (nat (d_wordlistCount d)) = d_wordlistCount d"
    and "length (d_wordlists d) = FICL_MAX_WORDLISTS"
  using assms by (auto simp: order_ok_def nat_le_iff)

lemma push_order_data:
  assumes "vm_wf vm" and "i + n \<le> length (d_wordlists (vm_dict vm))"
    and "length (data vm) + n \<le> st_size (vm_dataStack vm)"
  shows "\<exists>vm'. push_order n (int i) vm = Ok vm' \<and> vm_wf vm' \<and> vm_dict vm' = vm_dict vm \<and>
    st_size (vm_dataStack vm') = st_size (vm_dataStack vm) \<and>
    data vm' = rev (take n (drop i (d_wordlists (vm_dict vm)))) @ data vm"
  using assms
proof (induction n arbitrary: i vm)
  case (Suc n)
  let ?w = "d_wordlists (vm_dict vm) ! i"
  have p: "ficlVmPush vm ?w = Ok (dpushed ?w vm)" "vm_wf (dpushed ?w vm)" "data (dpushed ?w vm) = ?w # data vm"
    using Suc.prems by (simp_all add: ficlVmPush_data flow_simps)
  have "wordlist_at (vm_dict vm) (int i) = Ok ?w" using Suc.prems by (simp add: wordlist_at_def)
  moreover obtain vm' where v: "push_order n (int (Suc i)) (dpushed ?w vm) = Ok vm'" "vm_wf vm'" "vm_dict vm' = vm_dict vm"
      "st_size (vm_dataStack vm') = st_size (vm_dataStack vm)"
      "data vm' = rev (take n (drop (Suc i) (d_wordlists (vm_dict vm)))) @ ?w # data vm"
    using Suc.IH [of "dpushed ?w vm" "Suc i"] Suc.prems p by auto
  moreover have "take (Suc n) (drop i (d_wordlists (vm_dict vm))) = ?w # take n (drop (Suc i) (d_wordlists (vm_dict vm)))"
    using Suc.prems(2) by (metis Cons_nth_drop_Suc take_Suc_Cons add_Suc_right Suc_le_lessD le_add1 order_le_less_trans)
  ultimately show ?case using p(1) by (simp add: vm_lift_def add.commute)
qed simp

lemma get_order_data:
  assumes "vm_wf vm" and "order_ok (vm_dict vm)"
    and "int (length (data vm)) + d_wordlistCount (vm_dict vm) < int (st_size (vm_dataStack vm))"
  shows "\<exists>vm'. ficlPrimitiveGetOrder vm = Ok vm' \<and> vm_wf vm' \<and> vm_dict vm' = vm_dict vm \<and>
    data vm' = of_int (d_wordlistCount (vm_dict vm)) # rev (take (nat (d_wordlistCount (vm_dict vm))) (d_wordlists (vm_dict vm))) @ data vm"
proof -
  let ?n = "d_wordlistCount (vm_dict vm)"
  have "nat ?n \<le> length (d_wordlists (vm_dict vm))" "length (data vm) + nat ?n \<le> st_size (vm_dataStack vm)"
    using order_nat [OF assms(2)] assms(3) by linarith+
  then obtain vm1 where v1: "push_order (nat ?n) 0 vm = Ok vm1" "vm_wf vm1" "vm_dict vm1 = vm_dict vm"
      "st_size (vm_dataStack vm1) = st_size (vm_dataStack vm)" "data vm1 = rev (take (nat ?n) (d_wordlists (vm_dict vm))) @ data vm"
    using push_order_data [OF assms(1), of 0 "nat ?n"] by auto
  have "length (data vm1) \<le> nat ?n + length (data vm)" using v1(5) by simp
  then have "length (data vm1) < st_size (vm_dataStack vm1)"
    using v1(4) order_nat(2) [OF assms(2)] assms(3) by linarith
  then have "ficlVmPush vm1 (of_int ?n) = Ok (dpushed (of_int ?n) vm1)" "vm_wf (dpushed (of_int ?n) vm1)"
      "data (dpushed (of_int ?n) vm1) = of_int ?n # data vm1"
    using v1(2) by (simp_all add: ficlVmPush_data flow_simps)
  moreover have "FICL_STACK_CHECK vm 0 (?n + 1) k = k" for k :: "ficlVm vm_result"
    using assms by (intro stack_check_ok) auto
  ultimately show ?thesis using v1 by (simp add: ficlPrimitiveGetOrder_def Let_def)
qed

lemma pop_order_data:
  assumes "vm_wf vm" and "data vm = rev ws @ xs" and "length ws \<le> length (d_wordlists (vm_dict vm))"
  shows "\<exists>vm'. pop_order (length ws) vm = Ok vm' \<and> vm_wf vm' \<and> data vm' = xs \<and>
    vm_dict vm' = (vm_dict vm)\<lparr>d_wordlists := ws @ drop (length ws) (d_wordlists (vm_dict vm))\<rparr>"
  using assms
proof (induction ws arbitrary: vm rule: rev_induct)
  case (snoc w ws)
  let ?d = "(vm_dict vm)\<lparr>d_wordlists := (d_wordlists (vm_dict vm))[length ws := w]\<rparr>"
  let ?vm = "(ddrop 1 vm)\<lparr>vm_dict := ?d\<rparr>"
  have d: "ficlVmPop vm = Ok (w, ddrop 1 vm)" "vm_wf ?vm" "data ?vm = rev ws @ xs"
    using snoc.prems by (simp_all add: ficlVmPop_data flow_simps)
  moreover have "in_dict (wordlist_set (int (length ws)) w) (ddrop 1 vm) = Ok ?vm"
    using snoc.prems(3) by (simp add: in_dict_def wordlist_set_def vm_lift_def)
  moreover obtain vm' where "pop_order (length ws) ?vm = Ok vm'" "vm_wf vm'" "data vm' = xs"
      "vm_dict vm' = ?d\<lparr>d_wordlists := ws @ drop (length ws) (d_wordlists ?d)\<rparr>"
    using snoc.IH [OF d(2,3)] snoc.prems(3) by auto
  moreover have "drop (length ws) ((d_wordlists (vm_dict vm))[length ws := w]) =
      w # drop (Suc (length ws)) (d_wordlists (vm_dict vm))"
    using snoc.prems(3) by (simp add: Cons_nth_drop_Suc [symmetric])
  ultimately show ?case by simp
qed simp

lemma set_order_data:
  assumes "vm_wf vm" and "data vm = of_nat (length ws) # rev ws @ xs" and "length ws \<le> FICL_MAX_WORDLISTS"
    and "length (d_wordlists (vm_dict vm)) = FICL_MAX_WORDLISTS"
  shows "\<exists>vm'. ficlPrimitiveSetOrder vm = Ok vm' \<and> vm_wf vm' \<and> data vm' = xs \<and>
    vm_dict vm' = (vm_dict vm)\<lparr>d_wordlistCount := int (length ws),
      d_wordlists := ws @ drop (length ws) (d_wordlists (vm_dict vm))\<rparr>"
proof -
  let ?vm = "(ddrop 1 vm)\<lparr>vm_dict := (vm_dict vm)\<lparr>d_wordlistCount := int (length ws)\<rparr>\<rparr>"
  have n: "sint (of_nat (length ws) :: cell) = int (length ws)"
    using assms(3) by (simp add: signed_of_nat FICL_MAX_WORDLISTS_def signed_take_bit_int_eq_self)
  have d: "ficlVmPop vm = Ok (of_nat (length ws), ddrop 1 vm)" "vm_wf ?vm" "data ?vm = rev ws @ xs"
    using assms(1,2) by (simp_all add: ficlVmPop_data flow_simps)
  obtain vm' where "pop_order (length ws) ?vm = Ok vm'" "vm_wf vm'" "data vm' = xs"
      "vm_dict vm' = (vm_dict ?vm)\<lparr>d_wordlists := ws @ drop (length ws) (d_wordlists (vm_dict ?vm))\<rparr>"
    using pop_order_data [OF d(2,3)] assms(3,4) by auto
  then show ?thesis using d(1) n assms(3) by (simp add: ficlPrimitiveSetOrder_def)
qed

lemma order_upd_idem:
  assumes "order_ok d"
  shows "d\<lparr>d_wordlistCount := int (nat (d_wordlistCount d)),
    d_wordlists := take (nat (d_wordlistCount d)) (d_wordlists d) @ drop (nat (d_wordlistCount d)) (d_wordlists d)\<rparr> = d"
  using assms by (cases d) (simp add: order_ok_def)

lemma order_saved_restored:
  assumes "vm_wf vm" and "order_ok (vm_dict vm)"
    and "int (length (data vm)) + d_wordlistCount (vm_dict vm) < int (st_size (vm_dataStack vm))"
  shows "\<exists>vm1 vm2. ficlPrimitiveGetOrder vm = Ok vm1 \<and> ficlPrimitiveSetOrder vm1 = Ok vm2 \<and>
    data vm2 = data vm \<and> vm_dict vm2 = vm_dict vm"
proof -
  let ?n = "nat (d_wordlistCount (vm_dict vm))"
  let ?ws = "take ?n (d_wordlists (vm_dict vm))"
  have o: "0 \<le> d_wordlistCount (vm_dict vm)" "length (d_wordlists (vm_dict vm)) = FICL_MAX_WORDLISTS" "length ?ws = ?n"
      "?n \<le> FICL_MAX_WORDLISTS"
    using order_nat [OF assms(2)] by (linarith, simp_all)
  obtain vm1 where v1: "ficlPrimitiveGetOrder vm = Ok vm1" "vm_wf vm1" "vm_dict vm1 = vm_dict vm"
      "data vm1 = of_int (d_wordlistCount (vm_dict vm)) # rev ?ws @ data vm"
    using get_order_data [OF assms] by blast
  have "data vm1 = of_nat (length ?ws) # rev ?ws @ data vm" using v1(4) o(1,3) by simp
  then obtain vm2 where "ficlPrimitiveSetOrder vm1 = Ok vm2" "data vm2 = data vm"
      "vm_dict vm2 = (vm_dict vm)\<lparr>d_wordlistCount := int ?n, d_wordlists := ?ws @ drop ?n (d_wordlists (vm_dict vm))\<rparr>"
    using set_order_data [OF v1(2), of ?ws "data vm"] v1(3) o by auto
  then show ?thesis using v1(1) order_upd_idem [OF assms(2)] by auto
qed

subsection \<open>The order as a stack\<close>

lemma search_push_data:
  assumes "vm_wf vm" and "data vm = wid # xs" and "order_ok (vm_dict vm)"
    and "d_wordlistCount (vm_dict vm) < int FICL_MAX_WORDLISTS"
  shows "\<exists>vm'. ficlPrimitiveSearchPush vm = Ok vm' \<and> vm_wf vm' \<and> data vm' = xs \<and> order_ok (vm_dict vm') \<and>
    st_size (vm_dataStack vm') = st_size (vm_dataStack vm) \<and> d_wordlistCount (vm_dict vm') = d_wordlistCount (vm_dict vm) + 1 \<and>
    d_wordlists (vm_dict vm') = (d_wordlists (vm_dict vm))[nat (d_wordlistCount (vm_dict vm)) := wid]"
proof -
  let ?d = "vm_dict vm"
  have "FICL_STACK_CHECK vm 1 0 k = k" for k :: "ficlVm vm_result"
    using assms(1,2) stack_wf_length [of "vm_dataStack vm"] by (intro stack_check_ok) (auto simp: vm_wf_def)
  moreover have "ficlVmPop vm = Ok (wid, ddrop 1 vm)" "vm_wf (ddrop 1 vm)" "data (ddrop 1 vm) = xs"
    using assms(1,2) by (simp_all add: ficlVmPop_data flow_simps)
  ultimately show ?thesis
    using assms(3,4) by (simp add: ficlPrimitiveSearchPush_def in_dict_def wordlist_set_def vm_lift_def order_ok_def)
qed

lemma search_push_full:
  assumes "vm_wf vm" and "data vm = wid # xs" and "order_ok (vm_dict vm)"
    and "d_wordlistCount (vm_dict vm) = int FICL_MAX_WORDLISTS"
  shows "ficlPrimitiveSearchPush vm = Fault"
proof -
  have "FICL_STACK_CHECK vm 1 0 k = k" for k :: "ficlVm vm_result"
    using assms(1,2) stack_wf_length [of "vm_dataStack vm"] by (intro stack_check_ok) (auto simp: vm_wf_def)
  moreover have "ficlVmPop vm = Ok (wid, ddrop 1 vm)" using assms(1,2) by (rule ficlVmPop_data)
  ultimately show ?thesis
    using assms(3,4) by (simp add: ficlPrimitiveSearchPush_def in_dict_def wordlist_set_def vm_lift_def order_ok_def)
qed

lemma search_pop_data:
  assumes "vm_wf vm" and "order_ok (vm_dict vm)" and "0 < d_wordlistCount (vm_dict vm)"
    and "length (data vm) < st_size (vm_dataStack vm)"
  shows "\<exists>vm'. ficlPrimitiveSearchPop vm = Ok vm' \<and>
    data vm' = d_wordlists (vm_dict vm) ! nat (d_wordlistCount (vm_dict vm) - 1) # data vm \<and>
    vm_dict vm' = (vm_dict vm)\<lparr>d_wordlistCount := d_wordlistCount (vm_dict vm) - 1\<rparr>"
proof -
  let ?vm = "vm\<lparr>vm_dict := (vm_dict vm)\<lparr>d_wordlistCount := d_wordlistCount (vm_dict vm) - 1\<rparr>\<rparr>"
  have "FICL_STACK_CHECK vm 0 1 k = k" for k :: "ficlVm vm_result" using assms(1,4) by (intro stack_check_ok) auto
  moreover have "ficlVmPush ?vm c = Ok (dpushed c ?vm)" "data (dpushed c ?vm) = c # data vm" for c
    using assms(1,4) by (simp_all add: ficlVmPush_data flow_simps)
  ultimately show ?thesis
    using assms(2,3) by (simp add: ficlPrimitiveSearchPop_def Let_def wordlist_at_def vm_lift_def order_ok_def)
qed

subsection \<open>Searching one wordlist\<close>

lemma search_wordlist_three:
  assumes "vm_wf vm" and "length (data vm) = 3"
  shows "ficlPrimitiveSearchWordlist vm =
    Some (ficlVmThrowException (ddrop 1 vm) FICL_VM_STATUS_STACK_UNDERFLOW)"
proof -
  obtain c xs where d: "data vm = c # xs" using assms(2) by (cases "data vm") auto
  have "FICL_STACK_CHECK (ddrop 1 vm) 3 1 k = ficlVmThrowException (ddrop 1 vm) FICL_VM_STATUS_STACK_UNDERFLOW"
    for k :: "(string \<times> ficlVm) vm_result"
    using assms d by (intro stack_check_underflow) (auto simp: flow_simps)
  then show ?thesis
    using ficlVmPop_data [OF assms(1) d]
    by (simp add: ficlPrimitiveSearchWordlist_def ficlVmThrowException_def ficlVmThrowErrorVararg_def ficlVmThrow_def Let_def)
qed

end
