(* ===== verification/Ficl_Samples.thy ===== *)
theory Ficl_Samples
  imports Ficl_Outer Ficl_Search
begin

section \<open>Concrete states\<close>

text \<open>
  Small states on which the properties of the development are evaluated: a memory with the
  name and the header of one word and an empty wordlist of one bucket, a dictionary over it,
  a virtual machine with two small stacks, and an environment in which every cell is a plain
  integer.
\<close>

definition sample_bytes :: "addr \<rightharpoonup> u8" where
  "sample_bytes = (\<lambda>_. Some 0)(100 := Some 100, 101 := Some 117, 102 := Some 112)"

definition sample_word :: ficlWord where
  "sample_word = \<lparr>w_link = 0, w_current_word = 200, w_code = ficlInstructionDup, w_semiParen = 0,
     w_name = 100, w_vfunc = 0, w_func = 0, w_properties = 0, w_current_file = 0, w_file = 0,
     w_primitive_p = 1, w_req = 0, w_opt = 0, w_rest = 0, w_argc = -1, w_kind = 0,
     w_current_line = 0, w_line = 0, w_flags = 0, w_length = 3, w_hash = ficlHashCode ''dup''\<rparr>"

definition sample_heap :: ficlHeap where
  "sample_heap = \<lparr>bytes = sample_bytes, words = [200 \<mapsto> sample_word],
     hashes = [400 \<mapsto> \<lparr>h_link = 0, h_name = 0, h_size = 1, h_table = [0]\<rparr>,
               500 \<mapsto> \<lparr>h_link = 0, h_name = 0, h_size = 1, h_table = [200]\<rparr>]\<rparr>"

definition sample_dict :: ficlDictionary where
  "sample_dict = \<lparr>d_heap = sample_heap, d_here = 4096, d_smudge = 200, d_forthWordlist = 400,
     d_compilationWordlist = 400, d_wordlists = [400, 500], d_wordlistCount = 2, d_size = 1024,
     d_base = 1024, d_false = 0, d_current_file = 0, d_current_line = 0\<rparr>"

definition sample_stack :: "string \<Rightarrow> cell list \<Rightarrow> ficlStack" where
  "sample_stack nm xs = \<lparr>st_size = 16, st_frame = 0, st_top = int (length xs) - 1, st_name = nm,
     st_base = 65536, st_cells = (\<lambda>i. if 0 \<le> i \<and> i < int (length xs) then rev xs ! nat i else 0)\<rparr>"

definition sample_vm :: "cell list \<Rightarrow> cell list \<Rightarrow> ficlVm" where
  "sample_vm ds rs = \<lparr>vm_dict = sample_dict, vm_restart = False, vm_ip = 2048, vm_runningWord = 0,
     vm_state = 0, vm_base = 10, vm_dataStack = sample_stack ''data'' ds,
     vm_returnStack = sample_stack ''return'' rs, vm_fth_catch_p = False, vm_gc_frame_level = 0,
     vm_gc_word = (\<lambda>_. 0), vm_gc_inst = (\<lambda>_. 0), vm_sourceId = 0,
     vm_tib = \<lparr>tib_text = '''', tib_index = 0\<rparr>, vm_user = 0, vm_pad = (\<lambda>_. 0), vm_pad_eval = (\<lambda>_. 0),
     vm_localsCount = 0, vm_localsFixup = 0, vm_locals = sample_dict\<rparr>"

definition sample_env :: fth_env where
  "sample_env = \<lparr>FTH_FALSE = 0, FTH_TRUE = -1, FTH_NIL = 1, fth_instance_p = (\<lambda>_. False),
     CELL_LONG_REF = (\<lambda>c. Ok (sint c)), CELL_ULONG_REF = Ok, fth_make_llong = of_int, fth_make_ullong = (\<lambda>u. u), number_object_p = (\<lambda>_. False),
     number_object_add = (\<lambda>_ _ vm. Ok vm), fth_number_less_p = (\<lambda>x y. Ok (sint x < sint y)),
     object_instruction = (\<lambda>_ _ vm. Ok vm), primitive_code = (\<lambda>_ vm. Ok vm)\<rparr>"

lemma sample_word_text: "word_text sample_heap 200 = Some ''dup''"
proof -
  have "load_bytes sample_bytes 100 (Suc (Suc (Suc 0))) = Some [100, 117, 112]"
    by (simp add: sample_bytes_def)
  then have "load_bytes sample_bytes 100 3 = Some [100, 117, 112]"
    by (simp add: numeral_3_eq_3)
  then show ?thesis
    by (simp add: word_text_def sample_heap_def sample_word_def byte_char_def char_of_def bit_0)
qed

lemma sample_name_ok: "name_ok ''dup''" "name_ok ''DUP''"
  by (simp_all add: name_ok_def FICL_NAME_LENGTH_def NUL_def char_of_def)

lemma sample_fold: "fold_name ''dup'' = ''dup''" "fold_name ''DUP'' = ''dup''"
  by (simp_all add: fold_name_def tolower_def isupper_def char_code_def char_of_def bit_0)

lemma sample_word_ok: "word_ok sample_heap 200"
proof -
  have "words sample_heap 200 = Some sample_word" by (simp add: sample_heap_def)
  then show ?thesis using sample_name_ok(1)
    by (simp add: word_ok_def sample_word_text) (simp add: sample_word_def)
qed

lemma sample_empty_list: "wordlist sample_heap 400 [[]]"
  by (simp add: wordlist_def sample_heap_def bucket_ok_def)

lemma sample_empty_names: "names sample_heap [[]] = Map.empty"
  by (rule ext) (simp add: names_def found_def)

lemma sample_dup_list: "wordlist sample_heap 500 [[200]]"
proof -
  have "bucket_ok sample_heap \<lparr>h_link = 0, h_name = 0, h_size = 1, h_table = [200]\<rparr> 0 [200]"
    by (simp add: bucket_ok_def sample_word_ok hash_index_def)
       (simp add: sample_heap_def sample_word_def)
  then show ?thesis by (simp add: wordlist_def) (simp add: sample_heap_def)
qed

lemma sample_dup_names: "names sample_heap [[200]] = [''dup'' \<mapsto> 200]"
  by (rule ext) (simp add: names_def found_def sample_word_text sample_fold)

lemma sample_views:
  "hash_view sample_heap 400 {} Map.empty" "hash_view sample_heap 500 {200} [''dup'' \<mapsto> 200]"
  unfolding hash_view_def
  using sample_empty_list sample_empty_names sample_dup_list sample_dup_names by force+

lemma sample_room: "n < 2 ^ 20 \<Longrightarrow> room sample_dict n"
  by (simp add: room_def allocated_def sample_dict_def d_bytes_def sample_heap_def sample_bytes_def list_all_iff)

lemma sample_stack_list [simp]: "stack_list (sample_stack nm xs) = xs"
  by (rule nth_equalityI)
     (auto simp: stack_list_def sample_stack_def stk_list_nth rev_nth nat_diff_distrib)

lemma sample_stack_wf [simp]: "length xs \<le> 16 \<Longrightarrow> stack_wf (sample_stack nm xs)"
  by (simp add: stack_wf_def sample_stack_def)

lemma sample_stack_size [simp]: "st_size (sample_stack nm xs) = 16" "st_name (sample_stack nm xs) = nm"
  by (simp_all add: sample_stack_def)

lemma sample_vm_stacks [simp]:
  "vm_dataStack (sample_vm ds rs) = sample_stack ''data'' ds"
  "vm_returnStack (sample_vm ds rs) = sample_stack ''return'' rs"
  by (simp_all add: sample_vm_def)

lemma sample_vm_wf: "length ds \<le> 16 \<Longrightarrow> length rs \<le> 16 \<Longrightarrow> vm_wf (sample_vm ds rs)"
  by (simp add: vm_wf_def sample_vm_def)

lemma sample_plain_ints: "- (2 ^ 62) \<le> lo \<Longrightarrow> hi < 2 ^ 62 \<Longrightarrow> plain_ints sample_env lo hi"
  unfolding plain_ints_def sample_env_def by (auto simp: signed_of_int signed_take_bit_int_eq_self)

subsection \<open>A loop in memory\<close>

text \<open>The code \<open>1+ (loop) -2\<close> at address 3000: the body of a counted loop and its end.\<close>

definition loop_bytes :: "addr \<rightharpoonup> u8" where
  "loop_bytes = (\<lambda>p. if p = 3000 then Some (ucast ficlInstruction1Plus)
     else if p = 3008 then Some (ucast ficlInstructionLoopParen)
     else if p = 3016 then Some 254 else if 3017 \<le> p \<and> p < 3024 then Some 255 else Some 0)"

definition loop_dict :: ficlDictionary where
  "loop_dict = set_bytes loop_bytes sample_dict"

definition loop_vm :: "cell list \<Rightarrow> cell list \<Rightarrow> ficlVm" where
  "loop_vm ds rs = (sample_vm ds rs)\<lparr>vm_dict := loop_dict, vm_ip := 3000\<rparr>"

lemma load_cell_eight:
  assumes "m p = Some b0" "m (p + 1) = Some b1" "m (p + 2) = Some b2" "m (p + 3) = Some b3"
    "m (p + 4) = Some b4" "m (p + 5) = Some b5" "m (p + 6) = Some b6" "m (p + 7) = Some b7"
  shows "load_cell m p = Some (join_bytes [b0, b1, b2, b3, b4, b5, b6, b7])"
proof -
  have "load_bytes m p (Suc (Suc (Suc (Suc (Suc (Suc (Suc (Suc 0)))))))) = Some [b0, b1, b2, b3, b4, b5, b6, b7]"
    using assms by (simp add: add.assoc)
  then show ?thesis by (simp add: load_cell_def numeral_eq_Suc)
qed

lemma loop_code:
  "load_cell loop_bytes 3000 = Some ficlInstruction1Plus"
  "load_cell loop_bytes 3008 = Some ficlInstructionLoopParen"
  "load_cell loop_bytes 3016 = Some (-2)"
proof -
  have "load_cell loop_bytes 3000 = Some (join_bytes [144, 0, 0, 0, 0, 0, 0, 0])"
    by (rule load_cell_eight; simp add: loop_bytes_def token_simps)
  then show "load_cell loop_bytes 3000 = Some ficlInstruction1Plus"
    by (simp add: token_simps)
  have "load_cell loop_bytes 3008 = Some (join_bytes [46, 0, 0, 0, 0, 0, 0, 0])"
    by (rule load_cell_eight; simp add: loop_bytes_def token_simps)
  then show "load_cell loop_bytes 3008 = Some ficlInstructionLoopParen"
    by (simp add: token_simps)
  have "load_cell loop_bytes 3016 = Some (join_bytes [254, 255, 255, 255, 255, 255, 255, 255])"
    by (rule load_cell_eight; simp add: loop_bytes_def)
  then show "load_cell loop_bytes 3016 = Some (-2)"
    by simp
qed

lemma loop_vm_wf: "length ds \<le> 16 \<Longrightarrow> length rs \<le> 16 \<Longrightarrow> vm_wf (loop_vm ds rs)"
  using sample_vm_wf [of ds rs] by (simp add: loop_vm_def vm_wf_def)

lemma loop_vm_simps [simp]:
  "vm_dict (loop_vm ds rs) = loop_dict" "vm_ip (loop_vm ds rs) = 3000"
  "vm_dataStack (loop_vm ds rs) = sample_stack ''data'' ds"
  "vm_returnStack (loop_vm ds rs) = sample_stack ''return'' rs"
  "d_bytes loop_dict = loop_bytes"
  by (simp_all add: loop_vm_def loop_dict_def set_bytes_def d_bytes_def)

text \<open>The body increments the top of the data stack.\<close>

lemma loop_body:
  assumes "vm_wf vm" and "vm_dict vm = loop_dict" and "vm_ip vm = 3000" and "data vm = [x]"
  shows "\<exists>vm'. reaches E vm vm' \<and> vm_wf vm' \<and> vm_dict vm' = loop_dict \<and> vm_ip vm' = 3008 \<and>
    rets vm' = rets vm \<and> data vm' = [x + 1]"
proof -
  let ?v = "vm\<lparr>vm_ip := 3008\<rparr>"
  have s: "inner_step E vm = Some (instr_1Plus ?v)"
    using inner_step_instr [of vm ficlInstruction1Plus instr_1Plus E] assms loop_code(1)
    by (simp add: arith_table_def)
  have "effect_sound E 0 (ficlInstruction1Plus, 1, \<lambda>xs. [xs ! 0 + 1])"
    using forth_spec_sound [of E 0] by (simp add: forth_spec_def unary_spec_def list_all_append)
  moreover have "inner_switch E 0 ficlInstruction1Plus = Some (\<lambda>vm. Some (instr_1Plus vm))"
    by (rule inner_switch_table) (simp add: arith_table_def)
  moreover have v: "vm_wf ?v" using assms(1) by (simp add: vm_wf_def)
  ultimately have "meets_effect E (ficlInstruction1Plus, 1, \<lambda>xs. [xs ! 0 + 1]) instr_1Plus ?v"
    by (rule effect_soundD)
  then obtain s' where "instr_1Plus ?v = Ok (Continue (?v\<lparr>vm_dataStack := s'\<rparr>))"
      "same_shape (vm_dataStack vm) s'" "stack_wf s'" "stack_list s' = [x + 1]"
    using assms(1,4) stack_wf_length [of "vm_dataStack vm"]
    by (auto simp: meets_effect_def spare_simps data_step_def vm_wf_def)
  then show ?thesis
    using s v assms(2) reaches_step [OF _ reaches_refl, of E vm "?v\<lparr>vm_dataStack := s'\<rparr>"]
    by (intro exI [of _ "?v\<lparr>vm_dataStack := s'\<rparr>"]) (simp add: vm_wf_def same_shape_def)
qed

subsection \<open>A chain of jumps in memory\<close>

text \<open>A jump at 3000 to a jump at 3016 to the instruction \<open>dup\<close> at 3032.\<close>

definition jump_bytes :: "addr \<rightharpoonup> u8" where
  "jump_bytes = (\<lambda>p. if p = 3000 \<or> p = 3016 then Some (ucast ficlInstructionBranchParenWithCheck)
     else if p = 3008 \<or> p = 3024 then Some 1
     else if p = 3032 then Some (ucast ficlInstructionDup) else Some 0)"

lemma jump_code:
  "load_cell jump_bytes 3000 = Some ficlInstructionBranchParenWithCheck" "load_cell jump_bytes 3008 = Some 1"
  "load_cell jump_bytes 3016 = Some ficlInstructionBranchParenWithCheck" "load_cell jump_bytes 3024 = Some 1"
  "load_cell jump_bytes 3032 = Some ficlInstructionDup"
proof -
  have "load_cell jump_bytes p = Some (join_bytes [41, 0, 0, 0, 0, 0, 0, 0])" if "p = 3000 \<or> p = 3016" for p
    by (rule load_cell_eight; use that in \<open>auto simp: jump_bytes_def token_simps\<close>)
  then show "load_cell jump_bytes 3000 = Some ficlInstructionBranchParenWithCheck"
    and "load_cell jump_bytes 3016 = Some ficlInstructionBranchParenWithCheck"
    by (simp_all add: token_simps)
  have "load_cell jump_bytes p = Some (join_bytes [1, 0, 0, 0, 0, 0, 0, 0])" if "p = 3008 \<or> p = 3024" for p
    by (rule load_cell_eight; use that in \<open>auto simp: jump_bytes_def\<close>)
  then show "load_cell jump_bytes 3008 = Some 1" and "load_cell jump_bytes 3024 = Some 1" by simp_all
  have "load_cell jump_bytes 3032 = Some (join_bytes [39, 0, 0, 0, 0, 0, 0, 0])"
    by (rule load_cell_eight; simp add: jump_bytes_def token_simps)
  then show "load_cell jump_bytes 3032 = Some ficlInstructionDup" by (simp add: token_simps)
qed

lemma jump_code_ok: "code_ok jump_bytes {3000, 3016, 3032}"
proof -
  have "\<exists>c. load_cell jump_bytes p = Some c \<and> (branch_kind c \<longrightarrow> p + 8 \<notin> {3000, 3016, 3032} \<and>
      (\<exists>q\<in>{3000, 3016, 3032}. target jump_bytes p = Some q))" if "p \<in> {3000, 3016, 3032}" for p
    using that jump_code by (auto simp: target_def branch_kind_def jump_kind_def token_simps)
  moreover have "\<exists>d. q = p + 8 * d" if "p \<in> {3000, 3016, 3032}" "q \<in> {3000, 3016, 3032}" for p q :: addr
  proof -
    have "q = p + 8 * (if p = q then 0 else if q = p + 16 then 2 else if q = p + 32 then 4
        else if p = q + 16 then -2 else -4)"
      using that by auto
    then show ?thesis by blast
  qed
  ultimately show ?thesis unfolding code_ok_def by blast
qed

subsection \<open>Tags of control structures in memory\<close>

definition tag_list :: "control_tag list" where
  "tag_list = [doTag, colonTag, leaveTag, destTag, origTag, caseTag, ofTag, fallthroughTag]"

fun tag_place :: tags where
  "tag_place doTag = 600"
| "tag_place colonTag = 616"
| "tag_place leaveTag = 632"
| "tag_place destTag = 648"
| "tag_place origTag = 664"
| "tag_place caseTag = 680"
| "tag_place ofTag = 696"
| "tag_place fallthroughTag = 712"

definition tag_bytes :: "addr \<rightharpoonup> u8" where
  "tag_bytes p = (if 600 \<le> p \<and> p < 728
     then Some (char_byte (cstr_at (tag_text (tag_list ! (unat (p - 600) div 16))) (unat (p - 600) mod 16)))
     else Some 0)"

definition tag_vm :: "cell list \<Rightarrow> ficlVm" where
  "tag_vm ds = (sample_vm ds [])\<lparr>vm_dict := set_bytes tag_bytes sample_dict\<rparr>"

lemma tags_in_memory: "tags_stored tag_place tag_bytes"
proof -
  have "stored tag_bytes (tag_place t) (tag_text t)" for t
    by (cases t) (simp_all add: tag_bytes_def tag_list_def cstr_at_def char_byte_def NUL_def)
  moreover have "tag_place t \<noteq> NULL" for t by (cases t) simp_all
  ultimately show ?thesis by (simp add: tags_stored_def)
qed

lemma tag_vm_simps [simp]:
  "vm_dataStack (tag_vm ds) = sample_stack ''data'' ds" "d_bytes (vm_dict (tag_vm ds)) = tag_bytes"
  by (simp_all add: tag_vm_def set_bytes_def d_bytes_def)

lemma tag_vm_wf: "length ds \<le> 16 \<Longrightarrow> vm_wf (tag_vm ds)"
  using sample_vm_wf [of ds "[]"] by (simp add: tag_vm_def vm_wf_def)

subsection \<open>Text to be read\<close>

definition text_vm :: "string \<Rightarrow> ficlVm" where
  "text_vm s = (sample_vm [] [])\<lparr>vm_tib := \<lparr>tib_text = s, tib_index = 0\<rparr>\<rparr>"

lemma text_vm_input [simp]: "tib_ok (text_vm s)" "input (text_vm s) = s"
  by (simp_all add: text_vm_def tib_ok_def input_def)

subsection \<open>Search orders\<close>

definition order_vm :: "nat \<Rightarrow> cell list \<Rightarrow> ficlVm" where
  "order_vm n ds = (sample_vm ds [])\<lparr>vm_dict := sample_dict\<lparr>d_wordlists := replicate 32 400, d_wordlistCount := int n\<rparr>\<rparr>"

lemma order_vm_simps [simp]:
  "vm_dataStack (order_vm n ds) = sample_stack ''data'' ds" "d_wordlistCount (vm_dict (order_vm n ds)) = int n"
  "d_wordlists (vm_dict (order_vm n ds)) = replicate 32 400"
  by (simp_all add: order_vm_def)

lemma order_vm_ok: "length ds \<le> 16 \<Longrightarrow> vm_wf (order_vm n ds)" "n \<le> 32 \<Longrightarrow> order_ok (vm_dict (order_vm n ds))"
  using sample_vm_wf [of ds "[]"] by (simp_all add: order_vm_def vm_wf_def order_ok_def FICL_MAX_WORDLISTS_def)

subsection \<open>An interpreter loop\<close>

text \<open>
  The loop at address 3000: the word \<open>interpret\<close> at address 600, whose C function is the primitive
  \<open>ficlPrimitiveInterpret\<close> with the given parse steps, and the branch back.
\<close>

definition outer_env :: "parse_step list \<Rightarrow> fth_env" where
  "outer_env steps = sample_env\<lparr>primitive_code := (\<lambda>_ vm. case ficlPrimitiveInterpret steps vm of Some r \<Rightarrow> r | None \<Rightarrow> Fault)\<rparr>"

definition outer_bytes :: "addr \<rightharpoonup> u8" where
  "outer_bytes = (\<lambda>p. if p = 3000 then Some 88 else if p = 3001 then Some 2
     else if p = 3008 then Some (ucast ficlInstructionBranchParen)
     else if p = 3016 then Some 254 else if 3017 \<le> p \<and> p < 3024 then Some 255 else Some 0)"

definition outer_dict :: ficlDictionary where
  "outer_dict = set_word 600 (sample_word\<lparr>w_code := 5000\<rparr>) (set_bytes outer_bytes sample_dict)"

definition outer_vm :: "cell list \<Rightarrow> ficlVm" where
  "outer_vm ds = (sample_vm ds [])\<lparr>vm_dict := outer_dict\<rparr>"

definition compiling_vm :: ficlVm where
  "compiling_vm = (outer_vm [1, 2])\<lparr>vm_state := FICL_VM_STATE_COMPILE, vm_localsCount := 1\<rparr>"

lemma outer_code:
  "load_cell outer_bytes 3000 = Some 600" "load_cell outer_bytes 3008 = Some ficlInstructionBranchParen"
  "load_cell outer_bytes 3016 = Some (-2)"
proof -
  have "load_cell outer_bytes 3000 = Some (join_bytes [88, 2, 0, 0, 0, 0, 0, 0])"
    by (rule load_cell_eight; simp add: outer_bytes_def)
  then show "load_cell outer_bytes 3000 = Some 600" by simp
  have "load_cell outer_bytes 3008 = Some (join_bytes [ucast ficlInstructionBranchParen, 0, 0, 0, 0, 0, 0, 0])"
    by (rule load_cell_eight; simp add: outer_bytes_def)
  then show "load_cell outer_bytes 3008 = Some ficlInstructionBranchParen" by (simp add: token_simps)
  have "load_cell outer_bytes 3016 = Some (join_bytes [254, 255, 255, 255, 255, 255, 255, 255])"
    by (rule load_cell_eight; simp add: outer_bytes_def)
  then show "load_cell outer_bytes 3016 = Some (-2)" by simp
qed

lemma outer_loop_sample: "outer_loop (outer_env steps) 3000 600 steps outer_dict"
proof -
  have "inner_switch (outer_env steps) 600 600 = None"
    by (simp add: inner_switch_def number_table_def stack_table_def memory_table_def arith_table_def object_instructions_def
        token_simps)
  moreover have "d_bytes outer_dict = outer_bytes"
    by (simp add: outer_dict_def set_word_def set_bytes_def d_bytes_def)
  moreover have "words (d_heap outer_dict) 600 = Some (sample_word\<lparr>w_code := 5000\<rparr>)"
    by (simp add: outer_dict_def set_word_def)
  ultimately show ?thesis
    using outer_code by (simp add: outer_loop_def outer_env_def token_simps)
qed

lemma outer_vm_simps [simp]:
  "vm_dict (outer_vm ds) = outer_dict" "vm_dataStack (outer_vm ds) = sample_stack ''data'' ds"
  "vm_returnStack (outer_vm ds) = sample_stack ''return'' []" "\<not> vm_restart (outer_vm ds)"
  "vm_base (outer_vm ds) = 10" "vm_state (outer_vm ds) = FICL_VM_STATE_INTERPRET" "\<not> vm_fth_catch_p (outer_vm ds)"
  by (simp_all add: outer_vm_def sample_vm_def FICL_VM_STATE_INTERPRET_def)

lemma outer_vm_wf: "length ds \<le> 16 \<Longrightarrow> vm_wf (outer_vm ds)"
  using sample_vm_wf [of ds "[]"] by (simp add: outer_vm_def vm_wf_def)

text \<open>A parse step that runs the word \<open>abort\<close>.\<close>

definition abort_step :: parse_step where
  "abort_step vm s = Some (ficlVmThrow vm FICL_VM_STATUS_ABORT)"

lemma compiling_text_run:
  assumes w: "tokens w = [w]" and f: "\<And>vm. parse_chain (take FICL_MAX_PARSE_STEPS steps) w vm = Some (f vm)" "\<And>vm v. f vm \<noteq> Ok v"
  shows "\<exists>l v. text_run (outer_env steps) 3000 (ficlVmPushTib compiling_vm w) = Some (inner_handler l (f v)) \<and>
    \<not> vm_fth_catch_p v \<and> vm_localsCount v = 1 \<and> vm_state v = FICL_VM_STATE_COMPILE \<and> vm_dict v = outer_dict \<and>
    vm_locals v = sample_dict"
proof -
  let ?vm = "ficlVmPushTib compiling_vm w"
  let ?vm1 = "(rpushed (vm_ip ?vm) ?vm)\<lparr>vm_ip := 3000\<rparr>"
  let ?vm2 = "?vm1\<lparr>vm_ip := 3008, vm_runningWord := 600\<rparr>"
  have wf: "vm_wf ?vm" "length (rets ?vm) < st_size (vm_returnStack ?vm)" "\<not> vm_restart ?vm"
    using outer_vm_wf [of "[1, 2]"] by (simp_all add: compiling_vm_def ficlVmPushTib_def vm_wf_def)
  have "tib_ok ?vm2" "tokens (input ?vm2) = [w]"
    using w by (simp_all add: tib_ok_def input_def rpushed_def ficlVmPushTib_def)
  then obtain t where t: "ficlPrimitiveInterpret steps ?vm2 = Some (f (?vm2\<lparr>vm_tib := t\<rparr>))"
    using interpret_token [of ?vm2 w "[]" steps] f(1) by auto
  let ?v = "?vm2\<lparr>vm_tib := t\<rparr>"
  have d: "vm_dict ?vm1 = outer_dict" "\<not> vm_fth_catch_p ?v \<and> vm_localsCount ?v = 1 \<and> vm_state ?v = FICL_VM_STATE_COMPILE \<and>
      vm_dict ?v = outer_dict \<and> vm_locals ?v = sample_dict"
    by (simp_all add: rpushed_def ficlVmPushTib_def compiling_vm_def outer_vm_def sample_vm_def)
  have "inner_step (outer_env steps) ?vm1 = Some (bind_outcome (inner_handler ?vm2 (f ?v)) continue)"
    using interpret_step [of "outer_env steps" 3000 600 steps ?vm1] outer_loop_sample [of steps] d(1) t by simp
  then have "inner_run (outer_env steps) ?vm1 = Some (inner_handler ?vm2 (f ?v))"
    using f(2) [of ?v] by (subst inner_run.simps) (cases "f ?v", auto simp: ficlVmThrow_def)
  then have "text_run (outer_env steps) 3000 ?vm = Some (inner_handler ?vm2 (f ?v))"
    using push_ip_data [OF wf(1,2)] wf(3) by (simp add: text_run_def ficlVmInnerLoop_def)
  then show ?thesis using d(2) by blast
qed

lemma compiling_text_abort:
  "\<exists>l v. text_run (outer_env [abort_step]) 3000 (ficlVmPushTib compiling_vm ''abort'') =
      Some (inner_handler l (ficlVmThrow v FICL_VM_STATUS_ABORT)) \<and>
    vm_state v = FICL_VM_STATE_COMPILE \<and> vm_dict v = outer_dict \<and> vm_locals v = sample_dict"
  using compiling_text_run [of "''abort''" "[abort_step]" "\<lambda>vm. ficlVmThrow vm FICL_VM_STATUS_ABORT"]
  by (simp add: tokens_def isspace_def char_code_def abort_step_def FICL_MAX_PARSE_STEPS_def ficlVmThrow_def) blast

lemma compiling_text_undefined:
  "\<exists>l v. text_run (outer_env []) 3000 (ficlVmPushTib compiling_vm ''foo'') =
      Some (inner_handler l (ficlVmThrowException v FICL_VM_STATUS_UNDEFINED)) \<and>
    \<not> vm_fth_catch_p v \<and> vm_localsCount v = 1"
proof -
  have "\<exists>l v. text_run (outer_env []) 3000 (ficlVmPushTib compiling_vm ''foo'') =
      Some (inner_handler l (ficlVmThrowException v FICL_VM_STATUS_UNDEFINED)) \<and>
    \<not> vm_fth_catch_p v \<and> vm_localsCount v = 1 \<and> vm_state v = FICL_VM_STATE_COMPILE \<and> vm_dict v = outer_dict \<and>
    vm_locals v = sample_dict"
    by (rule compiling_text_run) (simp_all add: tokens_def isspace_def char_code_def ficlVmThrowException_def
      ficlVmThrowErrorVararg_def ficlVmThrow_def Let_def)
  then show ?thesis by blast
qed

lemma abort_compiling_sample:
  assumes "vm_state v = FICL_VM_STATE_COMPILE" and "vm_dict v = outer_dict" and "vm_locals v = sample_dict"
  shows "\<exists>v2. abort_compilation v = Ok v2"
proof -
  have "ficlDictionaryAbortDefinition outer_dict = Ok outer_dict"
    by (simp add: ficlDictionaryAbortDefinition_def d_word_def outer_dict_def set_word_def sample_word_def)
       (simp add: sample_dict_def sample_heap_def sample_word_def)
  moreover have "\<exists>l. ficlDictionaryEmpty sample_dict 1 = Ok l"
    by (simp add: ficlDictionaryEmpty_def ficlDictionaryCreateWordlist_def ficlHashReset_def Let_def allocated_def list_all_iff
        d_bytes_def sample_dict_def sample_heap_def sample_bytes_def outcome_simps ficlDictionaryAlign_def
        ficlDictionaryAllot_def)
  moreover have "hashes (d_heap sample_dict) (d_forthWordlist sample_dict) = Some \<lparr>h_link = 0, h_name = 0, h_size = 1, h_table = [0]\<rparr>"
    by (simp add: sample_dict_def sample_heap_def)
  ultimately show ?thesis
    using assms by (auto simp: abort_compilation_def in_dict_def vm_lift_def)
qed

end
