(* ===== verification/Ficl_Arith.thy ===== *)
theory Ficl_Arith
  imports Ficl_Primitives
begin

section \<open>What the primitives leave on the stack\<close>

text \<open>
  Rules for the steps of a primitive on the data stack, one for each combinator of
  \<open>Ficl_Primitives\<close>, and the effects of the words of mixed arithmetic derived with them. The
  result of a word is a data stack; every other part of the machine is as it was.
\<close>

definition data_result :: "ficlVm \<Rightarrow> cell list \<Rightarrow> ficlVm vm_result \<Rightarrow> bool" where
  "data_result vm ys r = (\<exists>s. r = Ok (vm\<lparr>vm_dataStack := s\<rparr>) \<and> same_shape (vm_dataStack vm) s \<and>
     stack_wf s \<and> stack_list s = ys)"

definition pok :: "nat \<Rightarrow> cell list \<Rightarrow> cell list \<Rightarrow> ficlVm cont \<Rightarrow> bool" where
  "pok n ys zs k = (\<forall>vm. vm_wf vm \<longrightarrow> st_size (vm_dataStack vm) = n \<longrightarrow> data vm = ys \<longrightarrow> data_result vm zs (k vm))"

text \<open>The word takes \<open>p\<close> cells and leaves the cells \<open>f\<close>, or throws without a change of the stack.\<close>

definition prim_effect :: "nat \<Rightarrow> nat \<Rightarrow> (cell list \<Rightarrow> cell list) \<Rightarrow> ficlVm cont \<Rightarrow> ficlVm \<Rightarrow> bool" where
  "prim_effect p q f k vm =
     (if length (data vm) < p then k vm = ficlVmThrowException vm FICL_VM_STATUS_STACK_UNDERFLOW
      else if st_size (vm_dataStack vm) + p < length (data vm) + q
      then k vm = ficlVmThrowException vm FICL_VM_STATUS_STACK_OVERFLOW
      else data_result vm (f (take p (data vm)) @ drop p (data vm)) (k vm))"

lemma data_result_trans:
  "same_shape (vm_dataStack vm) s \<Longrightarrow> data_result (vm\<lparr>vm_dataStack := s\<rparr>) zs r \<Longrightarrow> data_result vm zs r"
  by (auto simp: data_result_def same_shape_def)

lemma data_result_pushed: "data_result (dpushed c vm) zs r \<Longrightarrow> data_result vm zs r"
  unfolding dpushed_def by (rule data_result_trans, simp_all add: same_shape_def)

lemma data_result_dropped: "data_result (ddrop n vm) zs r \<Longrightarrow> data_result vm zs r"
  unfolding ddrop_def by (rule data_result_trans, simp_all add: same_shape_def)

lemma pok_finished: "pok n ys ys finished"
  by (auto simp: pok_def finished_def data_result_def same_shape_def vm_wf_def intro!: exI [of _ "vm_dataStack _"])

lemma pok_push:
  assumes "length ys < n" and "pok n (c # ys) zs k"
  shows "pok n ys zs (push_cell c k)"
  unfolding pok_def
proof (intro allI impI)
  fix vm :: ficlVm assume vm: "vm_wf vm" "st_size (vm_dataStack vm) = n" "data vm = ys"
  have p: "vm_wf (dpushed c vm)" "data (dpushed c vm) = c # ys" "st_size (vm_dataStack (dpushed c vm)) = n"
    using dpushed_list [OF vm(1)] assms(1) vm by (simp_all add: dpushed_def)
  then have "data_result (dpushed c vm) zs (k (dpushed c vm))" using assms(2) unfolding pok_def by blast
  then show "data_result vm zs (push_cell c k vm)"
    using assms(1) vm ficlVmPush_data [OF vm(1), of c] by (simp add: push_cell_def data_result_pushed)
qed

lemma pok_popped:
  assumes "pok n ys zs k" and "vm_wf vm" and "st_size (vm_dataStack vm) = n" and "data vm = x # ys"
  shows "data_result vm zs (k (ddrop 1 vm))"
proof -
  have "vm_wf (ddrop 1 vm)" "data (ddrop 1 vm) = ys" "st_size (vm_dataStack (ddrop 1 vm)) = n"
    using ddrop_list [OF assms(2), of 1] assms(3,4) by (simp_all add: ddrop_def)
  then show ?thesis using assms(1) unfolding pok_def by (blast intro: data_result_dropped)
qed

lemma pok_pop: "pok n ys zs (k x) \<Longrightarrow> pok n (x # ys) zs (pop_cell k)"
  using pok_popped by (auto simp: pok_def [of n "x # ys"] pop_cell_def ficlVmPop_data)

lemma pok_top:
  assumes "vm_wf vm" and "data vm = x # ys"
  shows "stk_get (vm_dataStack vm) 0 = Ok x"
  using stk_get_wf [of "vm_dataStack vm" 0] assms by (simp add: vm_wf_def)

lemma pok_pop_2integer:
  "CELL_LONG_REF E x = Ok d \<Longrightarrow> pok n ys zs (k d) \<Longrightarrow> pok n (x # ys) zs (pop_2integer E k)"
  using pok_popped by (auto simp: pok_def [of n "x # ys"] pop_2integer_def pok_top vm_lift_def)

lemma pok_pop_2unsigned:
  "CELL_ULONG_REF E x = Ok d \<Longrightarrow> pok n ys zs (k d) \<Longrightarrow> pok n (x # ys) zs (pop_2unsigned E k)"
  using pok_popped by (auto simp: pok_def [of n "x # ys"] pop_2unsigned_def pok_top vm_lift_def)

lemma checked_cases:
  assumes "vm_wf vm"
  shows "checked (int p) (int q) k vm =
    (if length (data vm) < p then ficlVmThrowException vm FICL_VM_STATUS_STACK_UNDERFLOW
     else if st_size (vm_dataStack vm) + p < length (data vm) + q
     then ficlVmThrowException vm FICL_VM_STATUS_STACK_OVERFLOW else k vm)"
  using assms ficlStackCheck_iff [of "vm_dataStack vm" "int p" "int q"]
  by (auto simp: checked_def FICL_STACK_CHECK_def vm_lift_def vm_wf_def)

lemma prim_effectI:
  assumes "vm_wf vm" and "p' = int p" and "q' = int q"
    and "\<And>xs ys n. length xs = p \<Longrightarrow> length ys + p \<le> n \<Longrightarrow> length ys + q \<le> n \<Longrightarrow> pok n (xs @ ys) (f xs @ ys) k"
  shows "prim_effect p q f (checked p' q' k) vm"
proof -
  have n: "length (data vm) \<le> st_size (vm_dataStack vm)" using assms(1) stack_wf_length by (auto simp: vm_wf_def)
  have "data_result vm (f (take p (data vm)) @ drop p (data vm)) (k vm)"
    if "\<not> length (data vm) < p" and "\<not> st_size (vm_dataStack vm) + p < length (data vm) + q"
    using assms(1) assms(4) [of "take p (data vm)" "drop p (data vm)" "st_size (vm_dataStack vm)"] that n
    by (simp add: pok_def)
  then show ?thesis using checked_cases [OF assms(1), of p q k] assms(2,3) by (simp add: prim_effect_def)
qed

subsection \<open>Mixed arithmetic\<close>

text \<open>The correction of the truncated quotient gives the floored one.\<close>

lemma fm_mod_floored:
  assumes "n \<noteq> 0"
  shows "fm_mod d n (c_div d n) (c_mod d n) = (d div n, d mod n)"
proof -
  let ?q = "c_div d n" and ?r = "c_mod d n"
  have e: "d = ?q * n + ?r" by (rule c_div_mod)
  have b: "\<bar>?r\<bar> < \<bar>n\<bar>" "0 \<le> d \<Longrightarrow> 0 \<le> ?r" "d \<le> 0 \<Longrightarrow> ?r \<le> 0"
    using assms by (auto simp: c_mod_def abs_mult sgn_if)
  have pick: "d div n = q \<and> d mod n = r" if "d = q * n + r" "0 \<le> r \<and> r < n \<or> n < r \<and> r \<le> 0" for q r
    using that int_div_pos_eq [of d n q r] int_div_neg_eq [of d n q r] int_mod_pos_eq [of d n q r] int_mod_neg_eq [of d n q r]
    by (auto simp: mult.commute)
  show ?thesis
  proof (cases "(d < 0) \<noteq> (n < 0) \<and> ?r \<noteq> 0")
    case True
    have "d = (?q - 1) * n + (?r + n)" using e by (simp add: algebra_simps)
    then have "d div n = ?q - 1 \<and> d mod n = ?r + n" using b True by (intro pick) auto
    then show ?thesis using True by (simp add: fm_mod_def)
  next
    case False
    have "0 \<le> ?r \<and> ?r < n \<or> n < ?r \<and> ?r \<le> 0" using False b assms by (cases "?r = 0") auto
    then show ?thesis using False pick [OF e] by (simp add: fm_mod_def)
  qed
qed

lemma pok_quotient:
  "b \<noteq> 0 \<Longrightarrow> a \<noteq> - (2 ^ 63) \<or> b \<noteq> -1 \<Longrightarrow> pok n ys zs (k (c_div a b) (c_mod a b)) \<Longrightarrow> pok n ys zs (c_quotient a b k)"
  by (auto simp: pok_def c_quotient_def)

lemma pok_checked:
  assumes "0 \<le> p" and "0 \<le> q" and "p \<le> int (length ys)" and "int (length ys) + q \<le> int n + p" and "pok n ys zs k"
  shows "pok n ys zs (checked p q k)"
  using assms checked_cases [of _ "nat p" "nat q" k] by (auto simp: pok_def nat_less_iff)

lemma pok_Some: "r = Some x \<Longrightarrow> pok n ys zs (k x) \<Longrightarrow> pok n ys zs (\<lambda>vm. case r of None \<Rightarrow> Fault | Some x \<Rightarrow> k x vm)"
  by simp

lemma pok_guard: "\<not> b \<Longrightarrow> pok n ys zs k \<Longrightarrow> pok n ys zs (\<lambda>vm. if b then k' vm else k vm)"
  by simp

lemmas pok_rules = pok_checked pok_pop pok_pop_2integer pok_pop_2unsigned pok_quotient pok_push pok_finished pok_guard

lemma FMSlashMod_effect:
  assumes "length ds + 2 \<le> n" and "CELL_LONG_REF E x = Ok d" and "n1 \<noteq> 0" and "d \<noteq> - (2 ^ 63) \<or> n1 \<noteq> -1"
  shows "pok n (n1 # x # ds) (of_int (d div sint n1) # of_int (d mod sint n1) # ds) (ficlPrimitiveFMSlashMod E)"
proof -
  have b: "sint n1 \<noteq> 0" "d \<noteq> - (2 ^ 63) \<or> sint n1 \<noteq> -1"
    using assms(3,4) by (simp_all add: signed_eq_0_iff) (metis signed_minus_1 signed_word_eqI)
  show ?thesis
    unfolding ficlPrimitiveFMSlashMod_def
    using assms(1,2) b by (auto intro!: pok_rules simp: fm_mod_floored)
qed

lemma SMSlashRem_effect:
  assumes "length ds + 2 \<le> n" and "CELL_LONG_REF E x = Ok d" and "n1 \<noteq> 0" and "sint (of_int d :: cell) = d"
  shows "pok n (n1 # x # ds) (of_int (c_div d (sint n1)) # of_int (c_mod d (sint n1)) # ds) (ficlPrimitiveSMSlashRem E)"
  unfolding ficlPrimitiveSMSlashRem_def
  using assms(1-3) ficl2IntegerDivideSymmetric_eq [OF assms(3), of "of_int d"] unfolding assms(4)
  by (auto intro!: pok_rules pok_Some)

lemma UMSlashMod_effect:
  assumes "length ds + 2 \<le> n" and "CELL_ULONG_REF E x = Ok ud" and "u1 \<noteq> 0"
  shows "pok n (u1 # x # ds) (ud mod u1 # ud div u1 # ds) (ficlPrimitiveUMSlashMod E)"
  unfolding ficlPrimitiveUMSlashMod_def using assms by (auto intro!: pok_rules)

text \<open>The words whose effect is a function of the cells alone.\<close>

definition make_2integer :: "fth_env \<Rightarrow> int \<Rightarrow> cell" where
  "make_2integer E d = (if FIXABLE_P d then of_int d else fth_make_llong E d)"

definition make_2unsigned :: "fth_env \<Rightarrow> cell \<Rightarrow> cell" where
  "make_2unsigned E d = (if sint d \<le> 2 ^ 62 - 1 then d else fth_make_ullong E d)"

definition primitive_spec :: "fth_env \<Rightarrow> (ficlVm cont \<times> nat \<times> nat \<times> (cell list \<Rightarrow> cell list)) list" where
  "primitive_spec E =
    [(ficlPrimitiveMStar E, 2, 1, \<lambda>xs. [make_2integer E (wrap64 (sint (xs ! 1) * sint (xs ! 0)))]),
     (ficlPrimitiveUMStar E, 2, 1, \<lambda>xs. [make_2unsigned E (xs ! 1 * xs ! 0)]),
     (ficlPrimitiveAligned, 1, 1, \<lambda>xs. [ficlAlignPointer (xs ! 0)]),
     (ficlPrimitiveCharPlus, 1, 1, \<lambda>xs. [xs ! 0 + 1]),
     (ficlPrimitiveToBody, 1, 1, \<lambda>xs. [word_param (xs ! 0) + 8]),
     (ficlPrimitiveFromBody, 1, 1, \<lambda>xs. [xs ! 0 - of_nat sizeof_ficlWord])]"

lemma primitive_spec_sound:
  assumes "vm_wf vm"
  shows "list_all (\<lambda>(k, p, q, f). prim_effect p q f k vm) (primitive_spec E)"
  unfolding primitive_spec_def list.pred_inject prod.case
    ficlPrimitiveMStar_def ficlPrimitiveUMStar_def ficlPrimitiveAligned_def ficlPrimitiveCharPlus_def
    ficlPrimitiveToBody_def ficlPrimitiveFromBody_def push_2integer_def push_2unsigned_def
    make_2integer_def [symmetric] make_2unsigned_def [symmetric]
  using assms by (intro conjI) (rule prim_effectI, assumption, simp, simp, auto simp: numeral_2_eq_2 length_Suc_conv intro!: pok_rules)+

end
