(* ===== verification/Ficl_Pictured.thy ===== *)
theory Ficl_Pictured
  imports Ficl_Arith
begin

section \<open>Pictured numbers\<close>

text \<open>
  The words between \<open><#\<close> and \<open>#>\<close> build the digits of a number in the scratch area, the
  last one first; \<open>#>\<close> turns them round. The text is the one that \<open>ficlUltoa\<close> writes.
\<close>

subsection \<open>The scratch area as a counted string\<close>

definition pad_is :: "(nat \<Rightarrow> u8) \<Rightarrow> u8 list \<Rightarrow> bool" where
  "pad_is q bs = (join_bytes (map q [0..<8]) = of_nat (length bs) \<and> map q [8..<8 + length bs] = bs \<and>
     8 + length bs \<le> FICL_PAD_SIZE)"

lemma pad_put_ok:
  assumes "i + length bs \<le> FICL_PAD_SIZE + 1"
    and "\<And>j. q j = (if i \<le> j \<and> j < i + length bs then bs ! (j - i) else vm_pad vm j)"
  shows "pad_put i bs vm = Ok (vm\<lparr>vm_pad := q\<rparr>)"
proof -
  have "q = (\<lambda>j. if i \<le> j \<and> j < i + length bs then bs ! (j - i) else vm_pad vm j)" using assms(2) by blast
  then show ?thesis using assms(1) by (simp add: pad_put_def)
qed

lemma pad_put_upd:
  assumes "i + length bs \<le> FICL_PAD_SIZE + 1"
    and "\<And>j. q' j = (if i \<le> j \<and> j < i + length bs then bs ! (j - i) else q j)"
  shows "pad_put i bs (vm\<lparr>vm_pad := q\<rparr>) = Ok (vm\<lparr>vm_pad := q'\<rparr>)"
  using pad_put_ok [OF assms(1), of q' "vm\<lparr>vm_pad := q\<rparr>"] assms(2) by simp

lemma set_pad_length_pad:
  "\<exists>q. set_pad_length n vm = Ok (vm\<lparr>vm_pad := q\<rparr>) \<and> join_bytes (map q [0..<8]) = n \<and> (\<forall>j\<ge>8. q j = vm_pad vm j)"
proof -
  let ?q = "\<lambda>j. if j < 8 then map (byte_of n) [0..<8] ! j else vm_pad vm j"
  have "map ?q [0..<8] = map (byte_of n) [0..<8]" by (intro map_cong) auto
  then have "join_bytes (map ?q [0..<8]) = n" by (simp only: join_bytes_byte_of)
  moreover have "set_pad_length n vm = Ok (vm\<lparr>vm_pad := ?q\<rparr>)"
    unfolding set_pad_length_def by (rule pad_put_ok) (simp_all add: FICL_PAD_SIZE_def)
  ultimately show ?thesis by (intro exI [of _ ?q]) simp
qed

lemma less_number_sign_pad:
  "\<exists>q. ficlPrimitiveLessNumberSign vm = Ok (vm\<lparr>vm_pad := q\<rparr>) \<and> pad_is q []"
  using set_pad_length_pad [of 0 vm] by (auto simp: ficlPrimitiveLessNumberSign_def pad_is_def FICL_PAD_SIZE_def)

lemma pad_length_is: "pad_is q bs \<Longrightarrow> pad_length (vm\<lparr>vm_pad := q\<rparr>) = of_nat (length bs)"
  by (simp add: pad_is_def pad_length_def)

lemma pad_size_nat: "pad_is q bs \<Longrightarrow> unat (of_nat (length bs) :: cell) = length bs"
  by (simp add: pad_is_def FICL_PAD_SIZE_def unsigned_of_nat take_bit_nat_eq_self)

lemma pad_append_pad:
  assumes "pad_is q bs" and "8 + length bs < FICL_PAD_SIZE"
  shows "\<exists>q'. pad_append c (vm\<lparr>vm_pad := q\<rparr>) = Ok (vm\<lparr>vm_pad := q'\<rparr>) \<and> pad_is q' (bs @ [c])"
proof -
  let ?q = "\<lambda>j. if j = 8 + length bs then c else q j"
  have p: "pad_put (8 + length bs) [c] (vm\<lparr>vm_pad := q\<rparr>) = Ok (vm\<lparr>vm_pad := ?q\<rparr>)"
    using assms(2) by (intro pad_put_upd) auto
  obtain q' where q': "set_pad_length (of_nat (length bs) + 1) (vm\<lparr>vm_pad := ?q\<rparr>) = Ok (vm\<lparr>vm_pad := q'\<rparr>)"
      "join_bytes (map q' [0..<8]) = of_nat (length bs) + 1" "\<forall>j\<ge>8. q' j = ?q j"
    using set_pad_length_pad [of "of_nat (length bs) + 1" "vm\<lparr>vm_pad := ?q\<rparr>"] by auto
  have "map q' [8..<8 + length bs] = map q [8..<8 + length bs]" using q'(3) by (intro map_cong) auto
  moreover have "[8..<8 + length (bs @ [c])] = [8..<8 + length bs] @ [8 + length bs]" using upt_Suc_append [of 8 "8 + length bs"] by simp
  ultimately have "map q' [8..<8 + length (bs @ [c])] = bs @ [c]" using q'(3) assms(1) by (simp only: pad_is_def map_append) simp
  then have "pad_is q' (bs @ [c])" using q'(2) assms(2) by (simp add: pad_is_def add.commute)
  then show ?thesis
    using p q'(1) pad_length_is [OF assms(1), of vm] pad_size_nat [OF assms(1)] by (intro exI [of _ q']) (simp add: pad_append_def)
qed

subsection \<open>The loop over the digits\<close>

lemma length_lsd_digits: "n < 2 ^ k \<Longrightarrow> length (lsd_digits r n) \<le> k"
proof (induction k arbitrary: n)
  case (Suc k)
  have "n div r < 2 ^ k" if "1 < r"
  proof -
    have "n div r \<le> n div 2" using that by (intro div_le_mono2) auto
    then show ?thesis using Suc.prems by simp
  qed
  then show ?case using Suc.IH by (subst lsd_digits.simps) auto
qed simp

definition digit_byte :: "nat \<Rightarrow> u8" where
  "digit_byte d = char_byte (digit_char d)"

lemma digit_byte_nonzero: "d < 36 \<Longrightarrow> digit_byte d \<noteq> 0"
proof -
  have "list_all (\<lambda>d. digit_char d \<noteq> NUL) [0..<36]" by code_simp
  then show "d < 36 \<Longrightarrow> digit_byte d \<noteq> 0" by (simp add: digit_byte_def char_byte_eq_0 list_all_iff)
qed

lemma append_digit_pad:
  assumes "pad_is q bs" and "8 + length bs < FICL_PAD_SIZE" and "unat d < 36"
  shows "\<exists>q'. append_digit d (vm\<lparr>vm_pad := q\<rparr>) = Ok (vm\<lparr>vm_pad := q'\<rparr>) \<and> pad_is q' (bs @ [digit_byte (unat d)])"
proof -
  have "d = of_nat (unat d)" by simp
  then obtain k where k: "d = of_nat k" "k < 36" "unat d = k" using assms(3) by blast
  then have "c_int d = int k" by (simp add: c_int_def unsigned_of_nat signed_of_nat take_bit_nat_eq_self signed_take_bit_int_eq_self)
  then show ?thesis using pad_append_pad [OF assms(1,2), of "digit_byte k" vm] k
    by (simp add: append_digit_def ficlDigitToCharacter_def digit_byte_def)
qed

definition lsd_bytes :: "cell \<Rightarrow> cell \<Rightarrow> u8 list" where
  "lsd_bytes base ud = (if ud = 0 then [digit_byte 0] else map digit_byte (lsd_digits (unat base) (unat ud)))"

lemma lsd_bytes_step:
  assumes "2 \<le> base"
  shows "lsd_bytes base ud = digit_byte (unat (ud mod base)) # (if ud div base = 0 then [] else lsd_bytes base (ud div base))"
proof -
  have b: "1 < unat base" using assms by (simp add: word_le_nat_alt)
  have z: "lsd_digits (unat base) (unat (ud div base)) = [] \<longleftrightarrow> ud div base = 0"
    using b by (simp add: lsd_digits_eq_Nil_iff unat_eq_zero)
  show ?thesis
  proof (cases "ud = 0")
    case False
    then have "unat ud \<noteq> 0" by (simp add: unat_eq_zero)
    then have "lsd_digits (unat base) (unat ud) = unat (ud mod base) # lsd_digits (unat base) (unat (ud div base))"
      using b by (subst lsd_digits.simps) (simp add: unat_mod_distrib unat_div_distrib)
    then show ?thesis using False z by (auto simp: lsd_bytes_def)
  qed (simp add: lsd_bytes_def)
qed

lemma lsd_bytes_length: "length (lsd_bytes base ud) \<le> 64"
  using length_lsd_digits [of "unat ud" 64] unat_cell_less [of ud] by (simp add: lsd_bytes_def)

lemma number_sign_loop_pad:
  assumes "2 \<le> vm_base vm" and "vm_base vm \<le> 36" and "pad_is q bs" and "8 + length bs + length (lsd_bytes (vm_base vm) ud) \<le> FICL_PAD_SIZE"
  shows "\<exists>q'. number_sign_loop ud (vm\<lparr>vm_pad := q\<rparr>) = Some (Ok (vm\<lparr>vm_pad := q'\<rparr>)) \<and> pad_is q' (bs @ lsd_bytes (vm_base vm) ud)"
  using assms(3,4)
proof (induction "unat ud" arbitrary: ud q bs rule: less_induct)
  case less
  let ?b = "vm_base vm"
  have b: "?b \<noteq> 0" "1 < unat ?b" "unat ?b \<le> 36" using assms(1,2) by (auto simp: word_le_nat_alt)
  have "unat ud mod unat ?b < unat ?b" using b(2) by (intro mod_less_divisor) simp
  then have m: "unat (ud mod ?b) < 36" using b(3) by (simp only: unat_mod_distrib)
  note st = lsd_bytes_step [OF assms(1), of ud]
  have l: "8 + length bs < FICL_PAD_SIZE" using less.prems(2) unfolding st by simp
  obtain q1 where q1: "append_digit (ud mod ?b) (vm\<lparr>vm_pad := q\<rparr>) = Ok (vm\<lparr>vm_pad := q1\<rparr>)"
      "pad_is q1 (bs @ [digit_byte (unat (ud mod ?b))])"
    using append_digit_pad [OF less.prems(1) l m] by blast
  have div: "ficl2UnsignedDivide ud ?b = Some \<lparr>uquotient = ud div ?b, uremainder = ud mod ?b\<rparr>"
    using ficl2UnsignedDivide_eq [OF b(1)] by simp
  show ?case
  proof (cases "ud div ?b = 0")
    case True
    then show ?thesis using q1 div st by (subst number_sign_loop.simps) auto
  next
    case False
    have "ud \<noteq> 0" using False by auto
    then have "0 < unat ud" by (simp add: unat_gt_0)
    then have "unat (ud div ?b) < unat ud" using b(2) unfolding unat_div_distrib by (rule div_less_dividend [rotated])
    moreover have "8 + length (bs @ [digit_byte (unat (ud mod ?b))]) + length (lsd_bytes ?b (ud div ?b)) \<le> FICL_PAD_SIZE"
      using less.prems(2) False unfolding st by simp
    ultimately obtain q' where "number_sign_loop (ud div ?b) (vm\<lparr>vm_pad := q1\<rparr>) = Some (Ok (vm\<lparr>vm_pad := q'\<rparr>))"
        "pad_is q' ((bs @ [digit_byte (unat (ud mod ?b))]) @ lsd_bytes ?b (ud div ?b))"
      using less.hyps [OF _ q1(2)] by blast
    then show ?thesis using q1(1) div st False by (subst number_sign_loop.simps) auto
  qed
qed

subsection \<open>The finished text\<close>

lemma char_byte_byte_char [simp]: "char_byte (byte_char b) = b"
proof -
  have "unat b < 256" using unsigned_less [of b] by simp
  then show ?thesis by (simp add: char_byte_def byte_char_def char_code_def)
qed

lemma text_until_nul:
  assumes "map q [8..<8 + length bs] = bs" and "0 \<notin> set bs" and "q (8 + length bs) = 0" and "8 + length bs \<le> FICL_PAD_SIZE"
  shows "takeWhile (\<lambda>b. b \<noteq> 0) (map q [8..<FICL_PAD_SIZE + 1]) = bs"
proof -
  have "[8..<FICL_PAD_SIZE + 1] = [8..<8 + length bs] @ (8 + length bs) # [Suc (8 + length bs)..<FICL_PAD_SIZE + 1]"
    using assms(4) upt_add_eq_append [of 8 "8 + length bs" "FICL_PAD_SIZE - 7 - length bs"] upt_conv_Cons [of "8 + length bs" "FICL_PAD_SIZE + 1"] by simp
  then have "map q [8..<FICL_PAD_SIZE + 1] = bs @ 0 # map q [Suc (8 + length bs)..<FICL_PAD_SIZE + 1]"
    using assms(1,3) by (simp only: map_append list.map)
  moreover have "takeWhile (\<lambda>b. b \<noteq> 0) (bs @ 0 # rest) = bs" for rest
    using assms(2) by (subst takeWhile_append2) auto
  ultimately show ?thesis by (simp only:)
qed

lemma number_sign_greater_pad:
  assumes "vm_wf vm" and "data vm = x # ds" and "length ds + 2 \<le> st_size (vm_dataStack vm)"
    and "pad_is q bs" and "0 \<notin> set bs"
  shows "\<exists>vm'. ficlPrimitiveNumberSignGreater PAD (vm\<lparr>vm_pad := q\<rparr>) = Ok vm' \<and> vm_wf vm' \<and>
    data vm' = of_nat (length bs) # (PAD + 8) # ds \<and> pad_text vm' = rev bs"
proof -
  let ?n = "length bs"
  define q1 where "q1 = (\<lambda>j. if j = 8 + ?n then 0 else q j)"
  define q2 where "q2 = (\<lambda>j. if 8 \<le> j \<and> j < 8 + ?n then rev bs ! (j - 8) else q1 j)"
  have pad: "map q [8..<8 + ?n] = bs" "8 + ?n \<le> FICL_PAD_SIZE" using assms(4) by (simp_all add: pad_is_def)
  have p1: "pad_put (8 + ?n) [0] (vm\<lparr>vm_pad := q\<rparr>) = Ok (vm\<lparr>vm_pad := q1\<rparr>)"
    using pad(2) by (intro pad_put_upd) (auto simp: q1_def)
  have "map q1 [8..<8 + ?n] = map q [8..<8 + ?n]" by (intro map_cong) (auto simp: q1_def)
  then have t1: "pad_text (vm\<lparr>vm_pad := q1\<rparr>) = bs"
    using text_until_nul [of q1 bs] pad assms(5) by (simp add: pad_text_def q1_def)
  have p2: "pad_put 8 (rev bs) (vm\<lparr>vm_pad := q1\<rparr>) = Ok (vm\<lparr>vm_pad := q2\<rparr>)"
    using pad(2) by (intro pad_put_upd) (auto simp: q2_def)
  have m2: "map q2 [8..<8 + length (rev bs)] = rev bs" by (rule nth_equalityI) (auto simp: q2_def)
  define v where "v = ddrop 1 (vm\<lparr>vm_pad := q2\<rparr>)"
  have v: "vm_wf v" "data v = ds" "st_size (vm_dataStack v) = st_size (vm_dataStack vm)" "vm_pad v = q2"
    unfolding v_def using ddrop_list [of "vm\<lparr>vm_pad := q2\<rparr>" 1] assms(1,2) by (simp_all add: vm_wf_def ddrop_def)
  define w where "w = dpushed (PAD + 8) v"
  have w: "vm_wf w" "data w = (PAD + 8) # ds" "st_size (vm_dataStack w) = st_size (vm_dataStack vm)" "vm_pad w = q2"
    unfolding w_def using dpushed_list [OF v(1), of "PAD + 8"] assms(3) v(2-4) by (simp_all add: dpushed_def)
  have m0: "map q2 [0..<8] = map q [0..<8]" by (intro map_cong) (auto simp: q1_def q2_def)
  have len: "pad_length w = of_nat ?n" unfolding pad_length_def w(4) m0 using assms(4) by (simp add: pad_is_def)
  have r: "ficlVmPush v (PAD + 8) = Ok w" "ficlVmPush w (of_nat ?n) = Ok (dpushed (of_nat ?n) w)"
    using ficlVmPush_data [OF v(1), of "PAD + 8"] ficlVmPush_data [OF w(1), of "of_nat ?n"] assms(3) v(2,3) w(2,3) by (simp_all add: w_def)
  have "checked 1 2 k (vm\<lparr>vm_pad := q\<rparr>) = k (vm\<lparr>vm_pad := q\<rparr>)" for k :: "ficlVm cont"
    using checked_cases [of "vm\<lparr>vm_pad := q\<rparr>" 1 2 k] assms(1-3) by (simp add: vm_wf_def)
  then have "ficlPrimitiveNumberSignGreater PAD (vm\<lparr>vm_pad := q\<rparr>) = Ok (dpushed (of_nat ?n) w)"
    using p1 p2 t1 r len pad_length_is [OF assms(4), of vm] pad_size_nat [OF assms(4)]
    by (simp add: ficlPrimitiveNumberSignGreater_def ficlStringReverse_rev rev_map v_def [unfolded One_nat_def, symmetric] push_cell_def finished_def comp_def)
  moreover have "vm_wf (dpushed (of_nat ?n) w)" "data (dpushed (of_nat ?n) w) = of_nat ?n # (PAD + 8) # ds"
    using dpushed_list [OF w(1), of "of_nat ?n"] w(2,3) assms(3) by simp_all
  moreover have "pad_text (dpushed (of_nat ?n) w) = rev bs"
    using text_until_nul [of q2 "rev bs"] m2 pad(2) assms(5) w(4) by (simp add: pad_text_def dpushed_def q2_def q1_def)
  ultimately show ?thesis by blast
qed

lemma lsd_bytes_nonzero:
  assumes "2 \<le> base" and "base \<le> 36"
  shows "0 \<notin> set (lsd_bytes base ud)"
proof -
  have "unat base \<le> 36" using assms(2) by (simp add: word_le_nat_alt)
  then have "digit_byte d \<noteq> 0" if "d \<in> set (lsd_digits (unat base) (unat ud))" for d
    using lsd_digits_less [OF that] digit_byte_nonzero [of d] by simp
  then show ?thesis using digit_byte_nonzero [of 0] by (auto simp: lsd_bytes_def)
qed

lemma ficlUltoa_bytes:
  assumes "2 \<le> base" and "base \<le> 36"
  shows "map_option (map char_byte) (ficlUltoa ud (int (unat base))) = Some (rev (lsd_bytes base ud))"
proof -
  have b: "1 < int (unat base)" "int (unat base) < 37" using assms unfolding word_le_nat_alt by (simp_all del: of_nat_unat)
  show ?thesis
    using ficlUltoa_digits [OF b, of ud] by (simp add: lsd_bytes_def digit_byte_def rev_map comp_def cstr_at_def digits_def)
qed

text \<open>\<open><# #s #>\<close> leaves the text that \<open>ficlUltoa\<close> writes for the number in the current base.\<close>

lemma pictured_number:
  assumes "vm_wf vm" and "data vm = x # ds" and "length ds + 2 \<le> st_size (vm_dataStack vm)"
    and "CELL_ULONG_REF E x = Ok ud" and "2 \<le> vm_base vm" and "vm_base vm \<le> 36"
  shows "\<exists>vm1 vm2 vm3 s. ficlPrimitiveLessNumberSign vm = Ok vm1 \<and> ficlPrimitiveNumberSignS E vm1 = Some (Ok vm2) \<and>
    ficlPrimitiveNumberSignGreater PAD vm2 = Ok vm3 \<and> ficlUltoa ud (int (unat (vm_base vm))) = Some s \<and>
    data vm3 = of_nat (length s) # (PAD + 8) # ds \<and> pad_text vm3 = map char_byte s"
proof -
  obtain q1 where q1: "ficlPrimitiveLessNumberSign vm = Ok (vm\<lparr>vm_pad := q1\<rparr>)" "pad_is q1 []"
    using less_number_sign_pad by blast
  define v where "v = ddrop 1 vm"
  have v: "vm_wf v" "data v = ds" "vm_base v = vm_base vm" "st_size (vm_dataStack v) = st_size (vm_dataStack vm)"
    unfolding v_def using ddrop_list [OF assms(1), of 1] assms(2) by (simp_all add: ddrop_def)
  let ?bs = "lsd_bytes (vm_base vm) ud"
  have "8 + length [] + length ?bs \<le> FICL_PAD_SIZE" using lsd_bytes_length [of "vm_base vm" ud] by (simp add: FICL_PAD_SIZE_def)
  then obtain q2 where q2: "number_sign_loop ud (v\<lparr>vm_pad := q1\<rparr>) = Some (Ok (v\<lparr>vm_pad := q2\<rparr>))" "pad_is q2 ?bs"
    using number_sign_loop_pad [of v q1 "[]" ud] assms(5,6) q1(2) unfolding v(3) by auto
  define w where "w = dpushed 0 v"
  have w: "vm_wf w" "data w = 0 # ds" "st_size (vm_dataStack w) = st_size (vm_dataStack vm)"
    unfolding w_def using dpushed_list [OF v(1), of 0] assms(3) v(2,4) by (simp_all add: dpushed_def)
  have up: "vm_wf (v\<lparr>vm_pad := q2\<rparr>)" "data (v\<lparr>vm_pad := q2\<rparr>) = ds" using v by (simp_all add: vm_wf_def)
  have p0: "ficlVmPush (v\<lparr>vm_pad := q2\<rparr>) 0 = Ok (w\<lparr>vm_pad := q2\<rparr>)"
    using ficlVmPush_data [OF up(1), of 0] assms(3) up(2) v(4) by (simp add: w_def dpushed_def)
  have top: "stk_get (vm_dataStack vm) 0 = Ok x" using pok_top [OF assms(1,2)] .
  have "checked 1 1 k (vm\<lparr>vm_pad := q1\<rparr>) = k (vm\<lparr>vm_pad := q1\<rparr>)" for k :: "(cell \<times> ficlVm) cont"
    using checked_cases [of "vm\<lparr>vm_pad := q1\<rparr>" 1 1 k] assms(1-3) by (simp add: vm_wf_def)
  moreover have "ddrop 1 (vm\<lparr>vm_pad := q1\<rparr>) = v\<lparr>vm_pad := q1\<rparr>" by (simp add: v_def ddrop_def)
  ultimately have s: "ficlPrimitiveNumberSignS E (vm\<lparr>vm_pad := q1\<rparr>) = Some (Ok (w\<lparr>vm_pad := q2\<rparr>))"
    using q2(1) assms(4) top p0
    by (simp add: ficlPrimitiveNumberSignS_def pop_2unsigned_def vm_lift_def push_2unsigned_def push_cell_def finished_def)
  have "0 \<notin> set ?bs" using lsd_bytes_nonzero [OF assms(5,6)] .
  with number_sign_greater_pad [OF w(1,2) _ q2(2), of PAD] assms(3) w(3)
  obtain vm3 where vm3: "ficlPrimitiveNumberSignGreater PAD (w\<lparr>vm_pad := q2\<rparr>) = Ok vm3"
      "data vm3 = of_nat (length ?bs) # (PAD + 8) # ds" "pad_text vm3 = rev ?bs"
    by auto
  obtain s where s': "ficlUltoa ud (int (unat (vm_base vm))) = Some s" "map char_byte s = rev ?bs"
    using ficlUltoa_bytes [OF assms(5,6), of ud] by auto
  have "length s = length ?bs" using arg_cong [OF s'(2), of length] by simp
  then show ?thesis using q1(1) s vm3 s' by auto
qed

end
