(* ===== verification/Ficl_Primitive_Samples.thy ===== *)
theory Ficl_Primitive_Samples
  imports Ficl_Samples Ficl_Literals Ficl_Pictured
begin

section \<open>Concrete states for the primitives\<close>

text \<open>
  A machine with the word \<open>throw\<close> at address 700, a machine that compiles text, and cells of
  the sample memory for the string words.
\<close>

definition catch_env :: "(ficlVm \<Rightarrow> ficlVm vm_result) \<Rightarrow> fth_env" where
  "catch_env f = sample_env\<lparr>primitive_code := (\<lambda>_. f)\<rparr>"

definition catch_vm :: "cell list \<Rightarrow> ficlVm" where
  "catch_vm ds = (sample_vm ds [])\<lparr>vm_dict := set_word 700 (sample_word\<lparr>w_code := 5000\<rparr>) sample_dict\<rparr>"

lemma catch_vm_wf: "length ds \<le> 16 \<Longrightarrow> vm_wf (catch_vm ds)" "data (catch_vm ds) = ds"
    "rets (catch_vm ds) = []" "st_size (vm_returnStack (catch_vm ds)) = 16"
  using sample_vm_wf [of ds "[]"] by (simp_all add: catch_vm_def vm_wf_def)

lemma catch_word: "primitive_word (catch_env f) (vm_dict (catch_vm ds)) 700 f"
proof -
  have "inner_switch (catch_env f) 700 700 = None"
    by (simp add: inner_switch_def number_table_def stack_table_def memory_table_def arith_table_def object_instructions_def
        token_simps)
  then show ?thesis by (simp add: primitive_word_def catch_vm_def set_word_def catch_env_def token_simps)
qed

text \<open>A word that starts to compile in base 16, takes other input, stores 7 in a cell below it and throws 5.\<close>

definition stray_word :: "ficlVm \<Rightarrow> ficlVm vm_result" where
  "stray_word vm = ficlVmThrow (vm\<lparr>vm_state := FICL_VM_STATE_COMPILE, vm_base := 16, vm_sourceId := 3,
     vm_tib := \<lparr>tib_text = ''x'', tib_index = 1\<rparr>,
     vm_dataStack := (vm_dataStack vm)\<lparr>st_cells := (st_cells (vm_dataStack vm))(1 := 7)\<rparr>\<rparr>) 5"

lemma stray_run:
  "\<exists>vm1. catch_run (catch_env stray_word) 3000 (ddrop 1 (catch_vm [700, 8, 9])) 700 = Some (Throw (5, vm1)) \<and>
    vm_state vm1 = FICL_VM_STATE_COMPILE \<and> vm_base vm1 = 16 \<and> st_cells (vm_dataStack vm1) 1 = 7"
proof -
  let ?vm = "ddrop 1 (catch_vm [700, 8, 9])"
  have d: "vm_wf ?vm" "rets ?vm = []" "st_size (vm_returnStack ?vm) = 16"
    using ddrop_list [OF catch_vm_wf(1) [of "[700, 8, 9]"], of 1] catch_vm_wf [of "[700, 8, 9]"] by (simp_all add: ddrop_def)
  let ?p = "(rpushed (vm_ip ?vm) ?vm)\<lparr>vm_ip := 3000\<rparr>"
  have push: "ficlVmPushIP ?vm 3000 = Ok ?p" using push_ip_data [OF d(1)] d(2,3) by simp
  have "primitive_word (catch_env stray_word) (vm_dict ?p) 700 stray_word"
    using catch_word [of stray_word "[700, 8, 9]"] by (simp add: rpushed_def ddrop_def)
  from primitive_word_runs [OF this] show ?thesis
    using push by (simp add: catch_run_def stray_word_def ficlVmThrow_def LOCAL_VARIABLE_SPILL_def)
qed

definition literal_vm :: "string \<Rightarrow> ficlVm" where
  "literal_vm s = (text_vm s)\<lparr>vm_state := FICL_VM_STATE_COMPILE\<rparr>"

lemma literal_vm_simps [simp]:
  "tib_ok (literal_vm s)" "input (literal_vm s) = s" "vm_state (literal_vm s) = FICL_VM_STATE_COMPILE"
  "vm_dict (literal_vm s) = sample_dict" "here (literal_vm s) = 4096"
  using text_vm_input [of s]
  by (simp_all add: literal_vm_def tib_ok_def input_def here_def) (simp_all add: text_vm_def sample_vm_def sample_dict_def)

lemma sample_dup_bytes: "load_bytes (d_bytes (vm_dict (sample_vm ds rs))) 100 (unat (3 :: cell)) = Some [100, 117, 112]"
proof -
  have "load_bytes sample_bytes 100 (Suc (Suc (Suc 0))) = Some [100, 117, 112]" by (simp add: sample_bytes_def)
  moreover have "unat (3 :: cell) = Suc (Suc (Suc 0))" by simp
  ultimately show ?thesis by (simp only:) (simp add: sample_vm_def sample_dict_def sample_heap_def d_bytes_def)
qed

end
