(* ===== verification/Fth_Proc_Laws.thy ===== *)
theory Fth_Proc_Laws
  imports Fth_Proc
begin

text \<open>
  What running a procedure and fetching optional arguments do to the data stack, as lists from the top.
\<close>

section \<open>Steps that change the data stack only\<close>

named_theorems stacked_simps

definition stacked :: "ficlVm \<Rightarrow> cell list \<Rightarrow> ficlVm \<Rightarrow> bool" where
  "stacked vm ds vm' = (vm_wf vm' \<and> data vm' = ds \<and> (\<exists>s. vm' = vm\<lparr>vm_dataStack := s\<rparr> \<and> same_shape (vm_dataStack vm) s))"

lemma stacked_refl: "vm_wf vm \<Longrightarrow> stacked vm (data vm) vm"
  unfolding stacked_def same_shape_def by (intro conjI exI [of _ "vm_dataStack vm"]) simp_all

lemma stacked_trans: "stacked vm ds vm' \<Longrightarrow> stacked vm' ds' vm'' \<Longrightarrow> stacked vm ds' vm''"
  by (auto simp: stacked_def same_shape_def)

lemma stacked_data: "stacked vm ds vm' \<Longrightarrow> vm_wf vm' \<and> data vm' = ds"
  by (simp add: stacked_def)

lemma stacked_fields [stacked_simps]:
  assumes "stacked vm ds vm'"
  shows "st_size (vm_dataStack vm') = st_size (vm_dataStack vm)" "vm_dict vm' = vm_dict vm" "vm_fth_catch_p vm' = vm_fth_catch_p vm"
    "FTH_KEYWORD_P vm' c = FTH_KEYWORD_P vm c" "ficl_to_fth E P vm' c = ficl_to_fth E P vm c"
  using assms by (auto simp: stacked_def same_shape_def FTH_KEYWORD_P_def fth_word_type_p_def FICL_WORD_DEFINED_P_def FICL_WORD_DICT_P_def FICL_WORD_REF_def
      ficl_to_fth_def)

lemma stacked_depth [stacked_simps]: "stacked vm ds vm' \<Longrightarrow> FTH_STACK_DEPTH vm' = int (length ds)"
  by (auto simp: stacked_def FTH_STACK_DEPTH_def STKDEPTH_def vm_wf_def stack_wf_def stack_list_def)

lemma vm_wf_restack: "vm_wf vm \<Longrightarrow> stack_wf s \<Longrightarrow> st_name s = st_name (vm_dataStack vm) \<Longrightarrow> vm_wf (vm\<lparr>vm_dataStack := s\<rparr>)"
  by (simp add: vm_wf_def)

lemma pop_stacked:
  assumes "stacked vm (c # cs) vm1"
  shows "\<exists>vm2. ficlVmPop vm1 = Ok (c, vm2) \<and> stacked vm cs vm2"
proof -
  have w: "vm_wf vm1" "data vm1 = c # cs" using assms by (simp_all add: stacked_def)
  have "stacked vm1 cs (ddrop 1 vm1)" using ddrop_list [OF w(1), of 1] w(2) by (auto simp: stacked_def same_shape_def ddrop_def)
  then show ?thesis using ficlVmPop_data [OF w] stacked_trans [OF assms] by blast
qed

lemma pop_ficl_cell_stacked:
  assumes "stacked vm (c # cs) vm1"
  shows "\<exists>vm2. pop_ficl_cell E P vm1 = Ok (ficl_to_fth E P vm c, vm2) \<and> stacked vm cs vm2"
  using pop_stacked [OF assms] by (auto simp: pop_ficl_cell_def stacked_simps)

lemma push_stacked:
  assumes "stacked vm cs vm1" and "length cs < st_size (vm_dataStack vm)"
  shows "\<exists>vm2. push_ficl_cell vm1 c = Ok vm2 \<and> stacked vm (fth_to_ficl c # cs) vm2"
proof -
  have w: "vm_wf vm1" "data vm1 = cs" "length (data vm1) < st_size (vm_dataStack vm1)"
    using assms by (simp_all add: stacked_data stacked_fields [OF assms(1)])
  have "stacked vm1 (fth_to_ficl c # cs) (dpushed (fth_to_ficl c) vm1)"
    using dpushed_list [OF w(1,3)] w(2) by (auto simp: stacked_def same_shape_def dpushed_def)
  then show ?thesis using ficlVmPush_data [OF w(1,3)] stacked_trans [OF assms(1)] by (auto simp: push_ficl_cell_def)
qed

lemma roll_stacked:
  assumes "stacked vm cs vm1" and "n < length cs"
  shows "\<exists>vm2. vm_roll (int n) vm1 = Ok vm2 \<and> stacked vm (cs ! n # take n cs @ drop (Suc n) cs) vm2"
proof (cases "n = 0")
  case True
  then have "cs ! n # take n cs @ drop (Suc n) cs = cs" using assms(2) by (cases cs) auto
  then show ?thesis using True assms(1) by (auto simp: vm_roll_def vm_lift_def ficlStackRoll_def)
next
  case False
  have w: "stack_wf (vm_dataStack vm1)" "stack_list (vm_dataStack vm1) = cs" using stacked_data [OF assms(1)] by (simp_all add: vm_wf_def)
  obtain s where s: "ficlStackRoll (vm_dataStack vm1) (int n) = Ok s" "stack_wf s" "stack_list s = cs ! n # take n cs @ drop (Suc n) cs"
    using ficlStackRoll_up [OF w(1), of n] False assms(2) w(2) by auto
  have "stacked vm1 (cs ! n # take n cs @ drop (Suc n) cs) (vm1\<lparr>vm_dataStack := s\<rparr>)"
    using ficlStackRoll_shape [OF s(1)] s stacked_data [OF assms(1)]
    by (auto simp: stacked_def same_shape_def intro!: vm_wf_restack exI [of _ s])
  then show ?thesis using s(1) stacked_trans [OF assms(1)] by (auto simp: vm_roll_def vm_lift_def)
qed

lemma drop_stacked:
  assumes "stacked vm (c # cs) vm1"
  shows "stacked vm cs (vm_drop 1 vm1)"
proof -
  have w: "vm_wf vm1" "data vm1 = c # cs" using assms by (simp_all add: stacked_def)
  have "vm_drop 1 vm1 = ddrop 1 vm1" by (simp add: vm_drop_def ficlStackDrop_def ddrop_def)
  moreover have "stacked vm1 cs (ddrop 1 vm1)" using ddrop_list [OF w(1), of 1] w(2) by (auto simp: stacked_def same_shape_def ddrop_def)
  ultimately show ?thesis using stacked_trans [OF assms] by simp
qed

lemma index_ref_stacked: "stacked vm cs vm1 \<Longrightarrow> n < length cs \<Longrightarrow> index_ref vm1 (int n) = Ok (cs ! n)"
  by (simp add: stacked_def vm_wf_def index_ref_def vm_lift_def stk_get_wf)

section \<open>Procedures\<close>

lemma push_args_stacked:
  assumes "stacked vm cs vm1" and "length cs + length xs \<le> st_size (vm_dataStack vm)"
  shows "\<exists>vm2. push_args xs vm1 = Ok vm2 \<and> stacked vm (rev (map fth_to_ficl xs) @ cs) vm2"
  using assms
proof (induction xs arbitrary: cs vm1)
  case (Cons x xs)
  then obtain vm2 where "push_ficl_cell vm1 x = Ok vm2" "stacked vm (fth_to_ficl x # cs) vm2" using push_stacked [of vm cs vm1 x] by auto
  then show ?case using Cons.IH [of "fth_to_ficl x # cs" vm2] Cons.prems by auto
qed auto

lemma pop_values_stacked:
  assumes "stacked vm (rs @ cs) vm1"
  shows "\<exists>vm2. pop_values E P (length rs) vm1 = Ok (map (ficl_to_fth E P vm) rs, vm2) \<and> stacked vm cs vm2"
  using assms
proof (induction rs arbitrary: vm1)
  case (Cons r rs)
  then obtain vm2 where "pop_ficl_cell E P vm1 = Ok (ficl_to_fth E P vm r, vm2)" "stacked vm (rs @ cs) vm2" using pop_ficl_cell_stacked by fastforce
  then show ?case using Cons.IH by fastforce
qed auto

text \<open>The value of a procedure that has left the given cells.\<close>

fun proc_value :: "fth_env \<Rightarrow> proc_env \<Rightarrow> ficlVm \<Rightarrow> cell list \<Rightarrow> cell" where
  "proc_value E P vm [] = FTH_FALSE E"
| "proc_value E P vm [r] = ficl_to_fth E P vm r"
| "proc_value E P vm rs = array_of_cells P (map (ficl_to_fth E P vm) rs)"

lemma collect_values_stacked:
  assumes "vm_wf vm" and "data vm = rs @ cs"
  shows "\<exists>vm2. collect_values E P (int (length cs)) vm = Ok (proc_value E P vm rs, vm2) \<and> stacked vm cs vm2"
proof -
  have s: "stacked vm (rs @ cs) vm" using stacked_refl [OF assms(1)] assms(2) by simp
  note d = stacked_depth [OF s]
  show ?thesis
  proof (cases rs)
    case Nil
    then show ?thesis using s d by (auto simp: collect_values_def)
  next
    case (Cons r rs')
    show ?thesis
    proof (cases rs')
      case Nil
      then show ?thesis using pop_ficl_cell_stacked [of vm r cs vm E P] s d Cons by (auto simp: collect_values_def)
    next
      case (Cons r' rs'')
      then have n: "proc_value E P vm rs = array_of_cells P (map (ficl_to_fth E P vm) rs)" "length rs \<noteq> 1" "rs \<noteq> []" using \<open>rs = r # rs'\<close> by simp_all
      obtain vm2 where "pop_values E P (length rs) vm = Ok (map (ficl_to_fth E P vm) rs, vm2)" "stacked vm cs vm2" using pop_values_stacked [OF s, of E P] by blast
      moreover have "nat (FTH_STACK_DEPTH vm - int (length cs)) = length rs" using d by simp
      moreover have "FTH_STACK_DEPTH vm > int (length cs)" "FTH_STACK_DEPTH vm - int (length cs) \<noteq> 1" using d n(2,3) by auto
      ultimately show ?thesis using n(1) by (simp add: collect_values_def Let_def)
    qed
  qed
qed

text \<open>
  A procedure runs on its arguments, the last one on top, and its value is made of the cells that it leaves above the old stack.
\<close>

lemma run_proc_value:
  assumes "vm_wf vm" and "FICL_WORD_REF vm proc = Some w" and "proc \<noteq> NULL" and "w_req w \<le> int (length args)" and "0 \<le> w_argc w"
    and "length (data vm) + min (length args) (nat (w_argc w)) \<le> st_size (vm_dataStack vm)"
  shows "\<exists>vm1. push_args (take (nat (w_argc w)) args) vm = Ok vm1 \<and> stacked vm (rev (map fth_to_ficl (take (nat (w_argc w)) args)) @ data vm) vm1 \<and>
    (\<forall>status vm2 rs. ficlVmExecuteXT E X nested (gc_push vm1 proc) proc = Some (Ok (status, vm2)) \<longrightarrow>
       status \<notin> {FICL_VM_STATUS_ERROR_EXIT, FICL_VM_STATUS_ABORT, FICL_VM_STATUS_ABORTQ} \<longrightarrow> vm_wf vm2 \<longrightarrow> data vm2 = rs @ data vm \<longrightarrow>
       (\<exists>vm3. run_proc E P X nested vm proc args = Some (Ok (proc_value E P vm2 rs, vm3)) \<and> stacked (gc_pop vm2) (data vm) vm3))"
proof -
  have t: "take (nat (if int (length args) > w_argc w then w_argc w else int (length args))) args = take (nat (w_argc w)) args"
    using assms(5) by auto
  have s: "stacked vm (data vm) vm" using assms(1) by (rule stacked_refl)
  have "length (data vm) + length (take (nat (w_argc w)) args) \<le> st_size (vm_dataStack vm)" using assms(6) by (simp add: min.commute)
  then obtain vm1 where vm1: "push_args (take (nat (w_argc w)) args) vm = Ok vm1" "stacked vm (rev (map fth_to_ficl (take (nat (w_argc w)) args)) @ data vm) vm1"
    using push_args_stacked [OF s] by blast
  moreover have "\<exists>vm3. run_proc E P X nested vm proc args = Some (Ok (proc_value E P vm2 rs, vm3)) \<and> stacked (gc_pop vm2) (data vm) vm3"
    if e: "ficlVmExecuteXT E X nested (gc_push vm1 proc) proc = Some (Ok (status, vm2))"
      "status \<notin> {FICL_VM_STATUS_ERROR_EXIT, FICL_VM_STATUS_ABORT, FICL_VM_STATUS_ABORTQ}" "vm_wf vm2" "data vm2 = rs @ data vm" for status vm2 rs
  proof -
    have g: "vm_wf (gc_pop vm2)" "data (gc_pop vm2) = rs @ data vm" using e(3,4) by (simp_all add: vm_wf_def)
    have "ficl_to_fth E P (gc_pop vm2) = ficl_to_fth E P vm2" by (rule ext) (simp add: ficl_to_fth_def FICL_WORD_DICT_P_def)
    then have v: "proc_value E P (gc_pop vm2) rs = proc_value E P vm2 rs" by (cases rs rule: remdups_adj.cases) simp_all
    obtain vm3 where "collect_values E P (int (length (data vm))) (gc_pop vm2) = Ok (proc_value E P vm2 rs, vm3)" "stacked (gc_pop vm2) (data vm) vm3"
      using collect_values_stacked [OF g, of E P] v by auto
    then show ?thesis using assms(2-4) t vm1(1) e(1,2) stacked_depth [OF s]
      by (simp add: run_proc_def execute_proc_def fth_execute_xt_def Let_def)
  qed
  ultimately show ?thesis by blast
qed

lemma proc_apply_value:
  assumes "vm_wf vm" and "FTH_PROC_P vm proc" and "FICL_WORD_REF vm proc = Some w" and "array_items P args = Some xs"
    and "w_req w \<le> int (length xs)" and "0 \<le> w_argc w" and "length (data vm) + min (length xs) (nat (w_argc w)) \<le> st_size (vm_dataStack vm)"
    and "push_args (take (nat (w_argc w)) xs) vm = Ok vm1"
    and "ficlVmExecuteXT E X nested (gc_push vm1 proc) proc = Some (Ok (status, vm2))"
    and "status \<notin> {FICL_VM_STATUS_ERROR_EXIT, FICL_VM_STATUS_ABORT, FICL_VM_STATUS_ABORTQ}" and "vm_wf vm2" and "data vm2 = rs @ data vm"
  shows "data vm1 = rev (map fth_to_ficl (take (nat (w_argc w)) xs)) @ data vm \<and>
    (\<exists>vm3. fth_proc_apply E P X nested vm proc args = Some (Ok (proc_value E P vm2 rs, vm3)) \<and> vm_wf vm3 \<and> data vm3 = data vm)"
proof -
  have p: "proc \<noteq> NULL" using assms(2) by (simp add: FTH_PROC_P_def fth_word_type_p_def FICL_WORD_DEFINED_P_def)
  from run_proc_value [OF assms(1,3) p assms(5-7), where E = E and P = P and X = X and nested = nested] assms(8)
  have s: "stacked vm (rev (map fth_to_ficl (take (nat (w_argc w)) xs)) @ data vm) vm1"
    and r: "\<exists>vm3. run_proc E P X nested vm proc xs = Some (Ok (proc_value E P vm2 rs, vm3)) \<and> stacked (gc_pop vm2) (data vm) vm3"
    using assms(9-12) by fastforce+
  from r have "\<exists>vm3. fth_proc_apply E P X nested vm proc args = Some (Ok (proc_value E P vm2 rs, vm3)) \<and> stacked (gc_pop vm2) (data vm) vm3"
    using assms(2,4) p by (simp add: fth_proc_apply_def)
  then show ?thesis using stacked_data [OF s] stacked_data by blast
qed

lemma run_proc_arity: "FICL_WORD_REF vm proc = Some w \<Longrightarrow> int (length args) < w_req w \<Longrightarrow> run_proc E P X nested vm proc args = Some (fth_throw vm)"
  by (simp add: run_proc_def)

text \<open>\<open>fth_make_proc\<close> changes the header of the word itself: the procedure is the word.\<close>

lemma fth_make_proc_word:
  assumes "FICL_WORD_P vm word" and "FICL_WORD_REF vm word = Some w"
  shows "\<exists>vm' w'. fth_make_proc vm word req opt rest = Ok (word, vm') \<and> FTH_PROC_P vm' word \<and> FICL_WORD_REF vm' word = Some w' \<and>
    w_req w' = req \<and> w_argc w' = req + opt + rest \<and> fth_proc_arity vm' word = req \<and> vm_dataStack vm' = vm_dataStack vm \<and>
    vm_fth_catch_p vm' = vm_fth_catch_p vm \<and> w_kind w' = FW_PROC"
  using assms by (auto simp: fth_make_proc_def FICL_WORD_P_def FTH_PROC_P_def fth_word_type_p_def FICL_WORD_DEFINED_P_def FICL_WORD_DICT_P_def
      FICL_WORD_REF_def fth_proc_arity_def set_word_def)

section \<open>Keyword arguments\<close>

lemma key_loop_found:
  assumes "stacked vm cs vm1" and "FTH_KEYWORD_P vm key" and "i \<le> k" and "k < length cs" and "cs ! k = key" and "\<And>m. i \<le> m \<Longrightarrow> m < k \<Longrightarrow> cs ! m \<noteq> key"
    and "k < i + n"
  shows "key_loop vm1 key n (int i) = Ok (Some (int k))"
  using assms(3-)
proof (induction n arbitrary: i)
  case (Suc n)
  have "index_ref vm1 (int i) = Ok (cs ! i)" using Suc.prems by (intro index_ref_stacked [OF assms(1)]) simp
  moreover have a: "int i + 1 = int (Suc i)" by simp
  moreover have "i \<noteq> k \<Longrightarrow> key_loop vm1 key n (int (Suc i)) = Ok (Some (int k))" using Suc.prems by (intro Suc.IH) auto
  ultimately show ?case using Suc.prems(1-4) assms(2) stacked_fields(4) [OF assms(1)] by (cases "i = k") (simp_all add: a del: of_nat_Suc)
qed simp

lemma key_loop_missing:
  assumes "stacked vm cs vm1" and "\<And>m. i \<le> m \<Longrightarrow> m < length cs \<Longrightarrow> cs ! m = key \<Longrightarrow> \<not> FTH_KEYWORD_P vm key" and "i + n \<le> length cs"
  shows "key_loop vm1 key n (int i) = Ok None"
  using assms(2-)
proof (induction n arbitrary: i)
  case (Suc n)
  have "index_ref vm1 (int i) = Ok (cs ! i)" using Suc.prems by (intro index_ref_stacked [OF assms(1)]) simp
  moreover have a: "int i + 1 = int (Suc i)" by simp
  moreover have "key_loop vm1 key n (int (Suc i)) = Ok None" using Suc.prems(1) [OF Suc_leD] Suc.prems(2) by (intro Suc.IH) (blast, simp)
  ultimately show ?case using Suc.prems(1) [of i] Suc.prems(2) stacked_fields(4) [OF assms(1)] by (auto simp: a simp del: of_nat_Suc)
qed simp

text \<open>\<open>fth_get_optkey\<close> takes the keyword nearest to the top with the value above it from the stack.\<close>

lemma fth_get_optkey_found:
  assumes "vm_wf vm" and "data vm = xs @ v # key # ys" and "FTH_KEYWORD_P vm key" and "key \<notin> set (tl (xs @ [v]))"
  shows "\<exists>vm2. fth_get_optkey E P vm key dflt = Ok (if ficl_to_fth E P vm v = fth_undef P then dflt else ficl_to_fth E P vm v, vm2) \<and> stacked vm (xs @ ys) vm2"
proof -
  let ?k = "Suc (length xs)"
  have s: "stacked vm (xs @ v # key # ys) vm" using stacked_refl [OF assms(1)] assms(2) by simp
  have n: "(xs @ v # key # ys) ! m \<noteq> key" if "1 \<le> m" "m < ?k" for m
  proof -
    have "(xs @ v # key # ys) ! m = tl (xs @ [v]) ! (m - 1)" using that by (auto simp: nth_append nth_tl less_Suc_eq)
    moreover have "m - 1 < length (tl (xs @ [v]))" using that by simp
    ultimately show ?thesis using assms(4) nth_mem by metis
  qed
  have "key_loop vm key (nat (FTH_STACK_DEPTH vm - 1)) (int 1) = Ok (Some (int ?k))"
    using n by (intro key_loop_found [OF s assms(3)]) (auto simp: stacked_depth [OF s] nth_append)
  then have f: "key_loop vm key (nat (FTH_STACK_DEPTH vm - 1)) 1 = Ok (Some (int ?k))" by simp
  obtain vm2 where vm2: "vm_roll (int ?k) vm = Ok vm2" "stacked vm (key # xs @ v # ys) vm2"
    using roll_stacked [OF s, of ?k] by (auto simp: nth_append)
  have d: "stacked vm (xs @ v # ys) (vm_drop 1 vm2)" by (rule drop_stacked [OF vm2(2)])
  have "int ?k - 1 = int (length xs)" by simp
  moreover obtain vm3 where vm3: "vm_roll (int (length xs)) (vm_drop 1 vm2) = Ok vm3" "stacked vm (v # xs @ ys) vm3"
    using roll_stacked [OF d, of "length xs"] by auto
  moreover obtain vm4 where "pop_ficl_cell E P vm3 = Ok (ficl_to_fth E P vm v, vm4)" "stacked vm (xs @ ys) vm4"
    using pop_ficl_cell_stacked [OF vm3(2)] by blast
  ultimately show ?thesis using f vm2(1) by (auto simp: fth_get_optkey_def)
qed

lemma fth_get_optkey_missing:
  assumes "vm_wf vm" and "key \<notin> set (tl (data vm)) \<or> \<not> FTH_KEYWORD_P vm key"
  shows "fth_get_optkey E P vm key dflt = Ok (dflt, vm)"
proof -
  have s: "stacked vm (data vm) vm" using assms(1) by (rule stacked_refl)
  have "key_loop vm key (nat (FTH_STACK_DEPTH vm - 1)) (int 1) = Ok None"
  proof (cases "data vm")
    case (Cons c cs)
    show ?thesis
    proof (rule key_loop_missing [OF s])
      fix m assume m: "1 \<le> m" "m < length (data vm)" "data vm ! m = key"
      then have "key = tl (data vm) ! (m - 1)" "m - 1 < length (tl (data vm))" by (auto simp: nth_tl)
      then show "\<not> FTH_KEYWORD_P vm key" using assms(2) nth_mem by metis
    qed (use Cons stacked_depth [OF s] in simp)
  qed (simp add: stacked_depth [OF s])
  then show ?thesis by (simp add: fth_get_optkey_def)
qed

section \<open>Optional arguments\<close>

lemma stk_list_beyond: "t < k \<Longrightarrow> stk_list (f(k := c)) t = stk_list f t"
  by (rule nth_equalityI) (auto simp: stk_list_nth)

lemma index_set_stacked:
  assumes "stacked vm cs vm1" and "n < length cs"
  shows "\<exists>vm2. index_set vm1 (int n) c = Ok vm2 \<and> stacked vm (cs[n := c]) vm2"
proof -
  have w: "stack_wf (vm_dataStack vm1)" "stack_list (vm_dataStack vm1) = cs" "STKDEPTH (vm_dataStack vm1) = int (length cs)"
    using stacked_data [OF assms(1)] stacked_depth [OF assms(1)] by (simp_all add: vm_wf_def FTH_STACK_DEPTH_def)
  obtain s where s: "stk_set (vm_dataStack vm1) (- int n) c = Ok s" "stack_wf s" "stack_list s = cs[n := c]" "same_shape (vm_dataStack vm1) s"
    using stk_set_list [OF w(1), of "int n" c] w(2,3) assms(2) by (auto simp: stk_set_def same_shape_def split: if_splits)
  then have "stacked vm1 (cs[n := c]) (vm1\<lparr>vm_dataStack := s\<rparr>)"
    using stacked_data [OF assms(1)] by (auto simp: stacked_def same_shape_def intro!: vm_wf_restack)
  then show ?thesis using s(1) stacked_trans [OF assms(1)] by (auto simp: index_set_def vm_lift_def)
qed

lemma zip_takes: "zip vs (take (length vs) xs) = zip vs xs"
proof (induction vs arbitrary: xs)
  case (Cons v vs)
  then show ?case by (cases xs) simp_all
qed simp

text \<open>Above the top of the stack an index reads and writes what is no element, as long as the stack has room there.\<close>

lemma index_beyond:
  assumes "stacked vm cs vm1" and "length cs + m < st_size (vm_dataStack vm)"
  shows "\<exists>c. index_ref vm1 (- int m - 1) = Ok c" and "\<exists>vm2. index_set vm1 (- int m - 1) c = Ok vm2 \<and> stacked vm cs vm2"
proof -
  let ?s = "vm_dataStack vm1"
  have w: "vm_wf vm1" "stack_list ?s = cs" "st_top ?s + 1 = int (length cs)" "st_size ?s = st_size (vm_dataStack vm)"
    using stacked_data [OF assms(1)] stacked_depth [OF assms(1)] stacked_fields(1) [OF assms(1)]
    by (simp_all add: FTH_STACK_DEPTH_def STKDEPTH_def)
  then have i: "in_stack ?s (st_top ?s + (int m + 1))" using assms(2) by (simp add: in_stack_def)
  then show "\<exists>c. index_ref vm1 (- int m - 1) = Ok c" by (simp add: index_ref_def vm_lift_def stk_get_def add.commute)
  let ?s' = "?s\<lparr>st_cells := (st_cells ?s)(st_top ?s + (int m + 1) := c)\<rparr>"
  have "stack_wf ?s'" "stack_list ?s' = cs" using w by (auto simp: vm_wf_def stack_wf_def stack_list_def stk_list_beyond)
  then have "stacked vm1 cs (vm1\<lparr>vm_dataStack := ?s'\<rparr>)" using w(1) by (auto simp: stacked_def same_shape_def intro!: vm_wf_restack)
  then show "\<exists>vm2. index_set vm1 (- int m - 1) c = Ok vm2 \<and> stacked vm cs vm2"
    using i stacked_trans [OF assms(1)] by (auto simp: index_set_def vm_lift_def stk_set_def add.commute)
qed

text \<open>The value of an argument: an undefined one is replaced by its default.\<close>

definition arg_value :: "proc_env \<Rightarrow> cell \<Rightarrow> cell \<Rightarrow> cell" where
  "arg_value P v x = (if v = fth_undef P then fth_to_ficl x else v)"

lemma optargs_given:
  assumes "stacked vm (rev vs @ rest) vm1" and "length vs = length xs" and "pos \<le> length rest"
  shows "\<exists>vm2. optargs_loop P (xs @ ys) (int (length xs) - 1) (int pos) vm1 = optargs_loop P ys (- 1) (int (pos + length xs)) vm2 \<and>
    stacked vm (rev (map2 (arg_value P) vs xs) @ rest) vm2"
  using assms
proof (induction xs arbitrary: vs rest vm1 pos)
  case (Cons x xs)
  then obtain v vs' where v: "vs = v # vs'" "length vs' = length xs" by (cases vs) auto
  define cs where "cs = rev vs' @ v # rest"
  have s: "stacked vm cs vm1" and n: "length xs < length cs" "cs ! length xs = v" "cs[length xs := c] = rev vs' @ c # rest" for c
    using Cons.prems(1) v by (simp_all add: cs_def nth_append list_update_append)
  have r: "index_ref vm1 (int (length xs)) = Ok v" using index_ref_stacked [OF s n(1)] n(2) by simp
  obtain vm2 where vm2: "(if v = fth_undef P then index_set vm1 (int (length xs)) (fth_to_ficl x) else Ok vm1) = Ok vm2"
      "stacked vm (rev vs' @ arg_value P v x # rest) vm2"
    using index_set_stacked [OF s n(1), of "fth_to_ficl x"] s n(3) [of "fth_to_ficl x"] that
    by (cases "v = fth_undef P") (auto simp: arg_value_def cs_def)
  have d: "\<not> FTH_STACK_DEPTH vm2 \<le> int pos" using stacked_depth [OF vm2(2)] Cons.prems(3) by simp
  obtain vm3 where "optargs_loop P (xs @ ys) (int (length xs) - 1) (int (Suc pos)) vm2 = optargs_loop P ys (- 1) (int (Suc pos + length xs)) vm3"
      "stacked vm (rev (map2 (arg_value P) vs' xs) @ arg_value P v x # rest) vm3"
    using Cons.IH [OF vm2(2) v(2), of "Suc pos"] Cons.prems(3) by auto
  moreover have "optargs_loop P ((x # xs) @ ys) (int (length (x # xs)) - 1) (int pos) vm1 = optargs_loop P (xs @ ys) (int (length xs) - 1) (int (Suc pos)) vm2"
    using r vm2(1) d by (simp add: add.commute)
  moreover have "Suc pos + length xs = pos + length (x # xs)" by simp
  ultimately show ?case using v(1) by (intro exI [of _ vm3]) simp
qed auto

lemma optargs_missing:
  assumes "stacked vm cs vm1" and "pos = length cs" and "length cs + m + 2 * length xs \<le> Suc (st_size (vm_dataStack vm))"
  shows "\<exists>vm2. optargs_loop P xs (- int m - 1) (int pos) vm1 = Ok vm2 \<and> stacked vm (rev (map fth_to_ficl xs) @ cs) vm2"
  using assms
proof (induction xs arbitrary: cs vm1 pos m)
  case (Cons x xs)
  have b: "length cs + m < st_size (vm_dataStack vm)" using Cons.prems(3) by simp
  obtain c where r: "index_ref vm1 (- int m - 1) = Ok c" using index_beyond(1) [OF Cons.prems(1) b] by blast
  obtain vm2 where vm2: "(if c = fth_undef P then index_set vm1 (- int m - 1) (fth_to_ficl x) else Ok vm1) = Ok vm2" "stacked vm cs vm2"
    using index_beyond(2) [OF Cons.prems(1) b, of "fth_to_ficl x"] Cons.prems(1) by (cases "c = fth_undef P") auto
  obtain vm3 where vm3: "push_ficl_cell vm2 x = Ok vm3" "stacked vm (fth_to_ficl x # cs) vm3"
    using push_stacked [OF vm2(2)] b by auto
  have "\<exists>vm4. optargs_loop P xs (- int (Suc m) - 1) (int (Suc pos)) vm3 = Ok vm4 \<and> stacked vm (rev (map fth_to_ficl xs) @ fth_to_ficl x # cs) vm4"
    using Cons.prems(2,3) by (intro Cons.IH [OF vm3(2)]) simp_all
  then obtain vm4 where vm4: "optargs_loop P xs (- int m - 1 - 1) (int pos + 1) vm3 = Ok vm4" "stacked vm (rev (map fth_to_ficl xs) @ fth_to_ficl x # cs) vm4"
    by (auto simp: algebra_simps)
  have "optargs_loop P (x # xs) (- int m - 1) (int pos) vm1 = Ok vm4"
    using r vm2(1) vm3(1) vm4(1) stacked_depth [OF vm2(2)] Cons.prems(2) by simp
  then show ?case using vm4(2) by simp
qed auto

text \<open>
  \<open>get-optargs\<close> leaves one value for every default: the arguments above the required ones, undefined ones replaced, and the defaults for the missing ones.
\<close>

definition optarg_values :: "proc_env \<Rightarrow> cell list \<Rightarrow> cell list \<Rightarrow> cell list" where
  "optarg_values P vs xs = map2 (arg_value P) vs xs @ map fth_to_ficl (drop (length vs) xs)"

lemma ficl_get_optargs_values:
  assumes "vm_wf vm" and "data vm = req # array # rev vs @ rest" and "array_items P array = Some xs" and "xs \<noteq> []"
    and "sint req = int r" and "r \<le> length rest" and "length vs = length xs \<or> length vs < length xs \<and> length rest = r"
    and "length rest + 2 * length xs \<le> Suc (st_size (vm_dataStack vm)) + length vs"
  shows "\<exists>vm2. ficl_get_optargs P vm = Ok vm2 \<and> stacked vm (rev (optarg_values P vs xs) @ rest) vm2"
proof -
  have s: "stacked vm (req # array # rev vs @ rest) vm" using stacked_refl [OF assms(1)] assms(2) by simp
  obtain vm1 where vm1: "ficlVmPop vm = Ok (req, vm1)" "stacked vm (array # rev vs @ rest) vm1" using pop_stacked [OF s] by blast
  obtain vm2 where vm2: "ficlVmPop vm1 = Ok (array, vm2)" "stacked vm (rev vs @ rest) vm2" using pop_stacked [OF vm1(2)] by blast
  have d: "FTH_STACK_DEPTH vm \<ge> 2" "FTH_STACK_DEPTH vm2 = int (length vs + length rest)" using stacked_depth [OF s] stacked_depth [OF vm2(2)] by simp_all
  define ys where "ys = drop (length vs) xs"
  have xs: "xs = take (length vs) xs @ ys" and len: "length vs = length (take (length vs) xs)" using assms(7) by (auto simp: ys_def)
  obtain vm3 where vm3: "optargs_loop P xs (int (length vs) - 1) (int r) vm2 = optargs_loop P ys (- 1) (int (r + length vs)) vm3"
      "stacked vm (rev (map2 (arg_value P) vs xs) @ rest) vm3"
  proof -
    have zip_to_length: "zip vs (take (length vs) xs) = zip vs xs" by (simp add: zip_takes)
    have "map2 (arg_value P) vs (take (length vs) xs) = map2 (arg_value P) vs xs" by (simp add: zip_to_length)
    then show ?thesis using optargs_given [OF vm2(2) len assms(6), of P ys] xs len that by metis
  qed
  have "\<exists>vm4. optargs_loop P ys (- 1) (int (r + length vs)) vm3 = Ok vm4 \<and> stacked vm (rev (optarg_values P vs xs) @ rest) vm4"
  proof (cases "ys = []")
    case True
    then show ?thesis using vm3(2) by (simp add: optarg_values_def ys_def)
  next
    case False
    then have l: "length vs < length xs" "length rest = r" using assms(7) by (auto simp: ys_def)
    have "\<exists>vm4. optargs_loop P ys (- int 0 - 1) (int (r + length vs)) vm3 = Ok vm4 \<and>
        stacked vm (rev (map fth_to_ficl ys) @ rev (map2 (arg_value P) vs xs) @ rest) vm4"
      using l assms(8) by (intro optargs_missing [OF vm3(2)]) (simp_all add: ys_def)
    then show ?thesis by (simp add: optarg_values_def ys_def)
  qed
  moreover have "ficl_get_optargs P vm = optargs_loop P xs (int (length vs) - 1) (int r) vm2"
  proof -
    have "(if FTH_STACK_DEPTH vm2 - int r > int (length xs) then int (length xs) else FTH_STACK_DEPTH vm2 - int r) = int (length vs)"
      using assms(6,7) unfolding d(2) by auto
    moreover have "\<not> int r > FTH_STACK_DEPTH vm2" using assms(6) unfolding d(2) by simp
    ultimately show ?thesis using vm1(1) vm2(1) d(1) assms(3-5) by (simp add: ficl_get_optargs_def FTH_STACK_CHECK_def Let_def)
  qed
  ultimately show ?thesis using vm3(1) by simp
qed

section \<open>Running a word to its end\<close>

text \<open>
  A word whose C function is \<open>f\<close>: the machine remembers the caller in the header of the word, runs \<open>f\<close> above the saved place, and the exit word after it brings the place back.
\<close>

definition called_vm :: "addr \<Rightarrow> addr \<Rightarrow> ficlWord \<Rightarrow> ficlVm \<Rightarrow> ficlVm" where
  "called_vm X W w vm = (rpushed (vm_ip vm) vm)\<lparr>vm_ip := X, vm_runningWord := W,
     vm_dict := set_word W (w\<lparr>w_current_word := vm_runningWord vm, w_current_file := d_current_file (vm_dict vm),
       w_current_line := d_current_line (vm_dict vm)\<rparr>) (vm_dict vm)\<rparr>"

lemma called_vm_fields:
  assumes "vm_wf vm" and "length (rets vm) < st_size (vm_returnStack vm)"
  shows "vm_wf (called_vm X W w vm)" "data (called_vm X W w vm) = data vm" "rets (called_vm X W w vm) = vm_ip vm # rets vm"
    "vm_ip (called_vm X W w vm) = X" "vm_dataStack (called_vm X W w vm) = vm_dataStack vm"
  using rpushed_list [OF assms] assms(1) by (simp_all add: called_vm_def vm_wf_def rpushed_def)

lemma execute_xt_primitive:
  assumes "vm_wf vm" and "length (rets vm) < st_size (vm_returnStack vm)"
    and "words (d_heap (vm_dict vm)) W = Some w" and "primitive_word E (vm_dict vm) W f"
    and "f (called_vm X W w vm) = Ok vm1" and "vm_wf vm1" and "vm_ip vm1 = X" and "rets vm1 = vm_ip vm # rets vm" and "X \<noteq> NULL"
    and "load_cell (d_bytes (vm_dict vm1)) X = Some Wx" and "primitive_word E (vm_dict vm1) Wx ficlPrimitiveExitInner"
  shows "ficlVmExecuteXT E X nested vm W =
    Some (Ok (FICL_VM_STATUS_INNER_EXIT, (rdrop 1 vm1)\<lparr>vm_ip := vm_ip vm, vm_runningWord := vm_runningWord vm\<rparr>))"
proof -
  let ?d = "vm_dict (called_vm X W w vm)"
  let ?c = "(rpushed (vm_ip vm) vm)\<lparr>vm_ip := X, vm_dict := ?d\<rparr>"
  have r: "vm_runningWord (rpushed (vm_ip vm) vm) = vm_runningWord vm" "vm_dict (rpushed (vm_ip vm) vm) = vm_dict vm" by (simp_all add: rpushed_def)
  have push: "ficlVmPushIP vm X = Ok ((rpushed (vm_ip vm) vm)\<lparr>vm_ip := X\<rparr>)" by (rule push_ip_data [OF assms(1,2)])
  have cf: "called_from False W (vm_runningWord vm) ((rpushed (vm_ip vm) vm)\<lparr>vm_ip := X\<rparr>) = Ok ?c"
    using assms(3) r by (simp add: called_from_def heap_of_def called_vm_def Let_def)
  have p: "primitive_word E (vm_dict ?c) W f" using assms(3,4) by (auto simp: primitive_word_def called_vm_def set_word_def)
  have fw: "?c\<lparr>vm_runningWord := W\<rparr> = called_vm X W w vm" by (simp add: called_vm_def)
  have run1: "ficlVmInnerLoop E ?c W = Some (Ok vm1)"
    using primitive_word_runs [OF p] assms(5) unfolding fw by simp
  let ?q = "vm1\<lparr>vm_ip := X + 8\<rparr>"
  have spill: "LOCAL_VARIABLE_SPILL v v = v" for v by (simp add: LOCAL_VARIABLE_SPILL_def)
  have "exec_word E Wx ?q = Some (Throw (FICL_VM_STATUS_INNER_EXIT, ?q\<lparr>vm_runningWord := Wx\<rparr>))"
    using primitive_word_exec [of E ?q Wx] assms(11) spill by (simp add: ficlPrimitiveExitInner_def ficlVmThrow_def)
  then have "inner_step E vm1 = Some (Throw (FICL_VM_STATUS_INNER_EXIT, ?q\<lparr>vm_runningWord := Wx\<rparr>))"
    using assms(7,9,10) by (simp add: inner_step_def d_load_cell_def)
  then have run2: "inner_run E vm1 = Some (Throw (FICL_VM_STATUS_INNER_EXIT, ?q\<lparr>vm_runningWord := Wx\<rparr>))"
    by (subst inner_run.simps) simp
  have run: "xt_run E X vm W = Some (Throw (FICL_VM_STATUS_INNER_EXIT, ?q\<lparr>vm_runningWord := Wx\<rparr>))"
    using push cf run1 run2 by (simp add: xt_run_def ficlVmInnerLoop_def [of _ _ NULL])
  let ?r = "?q\<lparr>vm_runningWord := Wx\<rparr>"
  have "vm_wf ?r" "rets ?r = vm_ip vm # rets vm" using assms(6,8) by (simp_all add: vm_wf_def)
  from pop_ip_data [OF this] have "xt_end nested FICL_VM_STATUS_INNER_EXIT ?r = Ok (FICL_VM_STATUS_INNER_EXIT, (rdrop 1 ?r)\<lparr>vm_ip := vm_ip vm\<rparr>)"
    by (simp add: xt_end_def)
  then show ?thesis using run by (simp add: ficlVmExecuteXT_def rdrop_def)
qed

section \<open>The words for keyword arguments\<close>

lemma roll_back_stacked:
  assumes "stacked vm (a # b # cs) vm1"
  shows "\<exists>vm2. vm_roll (- 1) vm1 = Ok vm2 \<and> stacked vm (b # a # cs) vm2"
proof -
  have w: "stack_wf (vm_dataStack vm1)" "stack_list (vm_dataStack vm1) = a # b # cs" using stacked_data [OF assms] by (simp_all add: vm_wf_def)
  obtain s where s: "ficlStackRoll (vm_dataStack vm1) (- 1) = Ok s" "stack_wf s" "stack_list s = b # a # cs"
    using ficlStackRoll_down [OF w(1), of 1] w(2) by auto
  have "stacked vm1 (b # a # cs) (vm1\<lparr>vm_dataStack := s\<rparr>)"
    using ficlStackRoll_shape [OF s(1)] s stacked_data [OF assms]
    by (auto simp: stacked_def same_shape_def intro!: vm_wf_restack exI [of _ s])
  then show ?thesis using s(1) stacked_trans [OF assms] by (auto simp: vm_roll_def vm_lift_def)
qed

lemma swap_stacked:
  assumes "stacked vm (a # b # cs) vm1"
  shows "\<exists>vm2. vm_roll 1 vm1 = Ok vm2 \<and> stacked vm (b # a # cs) vm2"
  using roll_stacked [OF assms, of 1] by simp

lemma choose_default_stacked:
  assumes "stacked vm (v # d # cs) vm1"
  shows "\<exists>vm2. choose_default P vm1 = Ok vm2 \<and> stacked vm ((if v = fth_undef P then d else v) # cs) vm2"
proof -
  have r: "index_ref vm1 0 = Ok v" using index_ref_stacked [OF assms, of 0] by simp
  obtain vm2 where vm2: "vm_roll 1 vm1 = Ok vm2" "stacked vm (d # v # cs) vm2" using swap_stacked [OF assms] by blast
  show ?thesis using r vm2(1) drop_stacked [OF assms] drop_stacked [OF vm2(2)] by (auto simp: choose_default_def)
qed

text \<open>Where the keyword is, with a cell for the default on top.\<close>

lemma key_loop_keyword:
  assumes "stacked vm (d # xs @ v # key # ys) vm1" and "FTH_KEYWORD_P vm key" and "key \<notin> set (tl (xs @ [v]))"
  shows "key_loop vm1 key (nat (FTH_STACK_DEPTH vm1 - 2)) 2 = Ok (Some (int (length xs) + 2))"
proof -
  let ?cs = "d # xs @ v # key # ys"
  have n: "?cs ! m \<noteq> key" if "2 \<le> m" "m < length xs + 2" for m
  proof -
    obtain k where k: "m = Suc (Suc k)" using \<open>2 \<le> m\<close> by (metis add_2_eq_Suc le_Suc_ex)
    then have "?cs ! m = tl (xs @ [v]) ! k" using that by (auto simp: nth_append nth_tl)
    moreover have "k < length (tl (xs @ [v]))" using that k by simp
    ultimately show ?thesis using assms(3) nth_mem by metis
  qed
  have "key_loop vm1 key (nat (FTH_STACK_DEPTH vm1 - 2)) (int 2) = Ok (Some (int (length xs + 2)))"
    using n by (intro key_loop_found [OF assms(1,2)]) (auto simp: stacked_depth [OF assms(1)] nth_append)
  then show ?thesis by simp
qed

lemma key_dropped:
  assumes "stacked vm (d # xs @ v # key # ys) vm1"
  shows "\<exists>vm2. vm_roll (int (length xs) + 2) vm1 = Ok vm2 \<and> stacked vm (d # xs @ v # ys) (vm_drop 1 vm2)"
proof -
  have "(d # xs @ v # key # ys) ! (length xs + 2) = key" by (simp add: nth_append)
  then obtain vm2 where "vm_roll (int (length xs + 2)) vm1 = Ok vm2" "stacked vm (key # d # xs @ v # ys) vm2"
    using roll_stacked [OF assms, of "length xs + 2"] by auto
  then show ?thesis using drop_stacked by (auto simp: add.commute)
qed

lemma optkey_start:
  assumes "vm_wf vm" and "data vm = d # key # cs" and "ficl_to_fth E P vm key = key"
  shows "\<exists>vm2. stacked vm (d # cs) vm2 \<and> ficl_get_optkey E P vm =
    bind_outcome (key_loop vm2 key (nat (FTH_STACK_DEPTH vm2 - 2)) 2) (\<lambda>found. case found of
        None \<Rightarrow> Ok vm2
      | Some i \<Rightarrow> bind_outcome (vm_roll i vm2) (\<lambda>vm. bind_outcome (vm_roll (i - 1) (vm_drop 1 vm)) (\<lambda>vm. choose_default P vm)))"
proof -
  have s: "stacked vm (d # key # cs) vm" using stacked_refl [OF assms(1)] assms(2) by simp
  obtain vm1 where vm1: "vm_roll 1 vm = Ok vm1" "stacked vm (key # d # cs) vm1" using swap_stacked [OF s] by blast
  obtain vm2 where vm2: "pop_ficl_cell E P vm1 = Ok (key, vm2)" "stacked vm (d # cs) vm2"
    using pop_ficl_cell_stacked [OF vm1(2), of E P] assms(3) by auto
  then show ?thesis using vm1(1) stacked_depth [OF s] by (intro exI [of _ vm2]) (simp add: ficl_get_optkey_def FTH_STACK_CHECK_def)
qed

lemma ficl_get_optkey_found:
  assumes "vm_wf vm" and "data vm = d # key # xs @ v # key # ys" and "FTH_KEYWORD_P vm key" and "key \<notin> set (tl (xs @ [v]))"
    and "ficl_to_fth E P vm key = key"
  shows "\<exists>vm2. ficl_get_optkey E P vm = Ok vm2 \<and> stacked vm ((if v = fth_undef P then d else v) # xs @ ys) vm2"
proof -
  obtain vm1 where vm1: "stacked vm (d # xs @ v # key # ys) vm1" "ficl_get_optkey E P vm =
      bind_outcome (key_loop vm1 key (nat (FTH_STACK_DEPTH vm1 - 2)) 2) (\<lambda>found. case found of
          None \<Rightarrow> Ok vm1
        | Some i \<Rightarrow> bind_outcome (vm_roll i vm1) (\<lambda>vm. bind_outcome (vm_roll (i - 1) (vm_drop 1 vm)) (\<lambda>vm. choose_default P vm)))"
    using optkey_start [OF assms(1,2,5)] by blast
  obtain vm2 where vm2: "vm_roll (int (length xs) + 2) vm1 = Ok vm2" "stacked vm (d # xs @ v # ys) (vm_drop 1 vm2)" using key_dropped [OF vm1(1)] by blast
  obtain vm3 where vm3: "vm_roll (int (length xs + 1)) (vm_drop 1 vm2) = Ok vm3" "stacked vm (v # d # xs @ ys) vm3"
    using roll_stacked [OF vm2(2), of "length xs + 1"] by auto
  have "int (length xs) + 2 - 1 = int (length xs + 1)" by simp
  then show ?thesis
    using vm1(2) key_loop_keyword [OF vm1(1) assms(3,4)] vm2(1) vm3(1) choose_default_stacked [OF vm3(2), of P] by simp
qed

lemma ficl_get_optkey_missing:
  assumes "vm_wf vm" and "data vm = d # key # cs" and "key \<notin> set (tl cs)" and "ficl_to_fth E P vm key = key"
  shows "\<exists>vm2. ficl_get_optkey E P vm = Ok vm2 \<and> stacked vm (d # cs) vm2"
proof -
  obtain vm1 where vm1: "stacked vm (d # cs) vm1" "ficl_get_optkey E P vm =
      bind_outcome (key_loop vm1 key (nat (FTH_STACK_DEPTH vm1 - 2)) 2) (\<lambda>found. case found of
          None \<Rightarrow> Ok vm1
        | Some i \<Rightarrow> bind_outcome (vm_roll i vm1) (\<lambda>vm. bind_outcome (vm_roll (i - 1) (vm_drop 1 vm)) (\<lambda>vm. choose_default P vm)))"
    using optkey_start [OF assms(1,2,4)] by blast
  have "key_loop vm1 key (nat (FTH_STACK_DEPTH vm1 - 2)) (int 2) = Ok None"
  proof (cases "cs")
    case (Cons c cs')
    show ?thesis
    proof (rule key_loop_missing [OF vm1(1)])
      fix m assume "2 \<le> m" "m < length (d # cs)" "(d # cs) ! m = key"
      then have "key \<in> set (tl cs)" using Cons by (auto simp: nth_Cons' numeral_2_eq_2 Suc_le_eq split: if_splits)
      then show "\<not> FTH_KEYWORD_P vm key" using assms(3) by simp
    qed (use Cons stacked_depth [OF vm1(1)] in simp)
  qed (simp add: stacked_depth [OF vm1(1)])
  then show ?thesis using vm1 by simp
qed

text \<open>
  \<open>get-optkeys\<close> takes for its first two keywords the cell that is on top of the stack once the keyword is gone, wherever the keyword was.
\<close>

lemma optkeys_step:
  assumes "stacked vm (xs @ v # key # ys) vm1" and "FTH_KEYWORD_P vm key" and "key \<notin> set (tl (xs @ [v]))"
    and "xs @ v # ys = t # ts" and "i = 0 \<or> i = 2" and "length (xs @ v # key # ys) < st_size (vm_dataStack vm)"
  shows "\<exists>vm2. optkeys_loop P (key # d # pairs) i vm1 = optkeys_loop P pairs (i + 2) vm2 \<and>
    stacked vm ((if t = fth_undef P then fth_to_ficl d else t) # ts) vm2"
proof -
  obtain vm2 where vm2: "push_ficl_cell vm1 d = Ok vm2" "stacked vm (fth_to_ficl d # xs @ v # key # ys) vm2" using push_stacked [OF assms(1,6)] by blast
  obtain vm3 where vm3: "vm_roll (int (length xs) + 2) vm2 = Ok vm3" "stacked vm (fth_to_ficl d # xs @ v # ys) (vm_drop 1 vm3)" using key_dropped [OF vm2(2)] by blast
  have "stacked vm (fth_to_ficl d # t # ts) (vm_drop 1 vm3)" using vm3(2) assms(4) by simp
  from roll_back_stacked [OF this] swap_stacked [OF this]
  obtain vm4 where vm4: "vm_roll (i - 1) (vm_drop 1 vm3) = Ok vm4" "stacked vm (t # fth_to_ficl d # ts) vm4"
    using assms(5) by (metis diff_0 one_add_one add_diff_cancel_left')
  obtain vm5 where "choose_default P vm4 = Ok vm5" "stacked vm ((if t = fth_undef P then fth_to_ficl d else t) # ts) vm5"
    using choose_default_stacked [OF vm4(2)] by blast
  then show ?thesis using key_loop_keyword [OF vm2(2) assms(2,3)] vm2(1) vm3(1) vm4(1) by (intro exI [of _ vm5]) simp
qed

lemma optkeys_two:
  assumes "vm_wf vm" and "data vm = req # array # v1 # k1 # v2 # k2 # rest" and "ficl_to_fth E P vm array = array"
    and "array_items P array = Some [k1, d1, k2, d2]" and "FTH_KEYWORD_P vm k1" and "FTH_KEYWORD_P vm k2"
    and "v2 \<noteq> k2" and "v1 \<noteq> fth_undef P" and "sint req \<le> int (length rest + 4)"
  shows "\<exists>vm2. ficl_get_optkeys E P vm = Ok vm2 \<and> stacked vm (v1 # v2 # rest) vm2"
proof -
  have s: "stacked vm (req # array # v1 # k1 # v2 # k2 # rest) vm" using stacked_refl [OF assms(1)] assms(2) by simp
  have size: "length (data vm) \<le> st_size (vm_dataStack vm)" using assms(1) stack_wf_length by (auto simp: vm_wf_def)
  obtain vm1 where vm1: "ficlVmPop vm = Ok (req, vm1)" "stacked vm (array # v1 # k1 # v2 # k2 # rest) vm1" using pop_stacked [OF s] by blast
  obtain vm2 where vm2: "pop_ficl_cell E P vm1 = Ok (array, vm2)" "stacked vm (v1 # k1 # v2 # k2 # rest) vm2"
    using pop_ficl_cell_stacked [OF vm1(2), of E P] assms(3) by auto
  have d: "FTH_STACK_DEPTH vm \<ge> 2" "\<not> sint req > FTH_STACK_DEPTH vm2" using stacked_depth [OF s] stacked_depth [OF vm2(2)] assms(9) by simp_all
  have "ficl_get_optkeys E P vm = optkeys_loop P [k1, d1, k2, d2] 0 vm2"
    using vm1(1) vm2(1) d assms(4) by (simp add: ficl_get_optkeys_def FTH_STACK_CHECK_def del: optkeys_loop.simps)
  moreover obtain vm3 where "optkeys_loop P [k1, d1, k2, d2] 0 vm2 = optkeys_loop P [k2, d2] 2 vm3" "stacked vm (v1 # v2 # k2 # rest) vm3"
    using optkeys_step [of vm "[]" v1 k1 "v2 # k2 # rest" vm2 v1 "v2 # k2 # rest" 0 P d1 "[k2, d2]"] vm2(2) assms(2,5,8) size
    by (auto simp del: optkeys_loop.simps)
  moreover from this(2) obtain vm4 where "optkeys_loop P [k2, d2] 2 vm3 = optkeys_loop P [] 4 vm4" "stacked vm (v1 # v2 # rest) vm4"
    using optkeys_step [of vm "[v1]" v2 k2 rest vm3 v1 "v2 # rest" 2 P d2 "[]"] assms(2,6,7,8) size
    by (auto simp del: optkeys_loop.simps)
  ultimately show ?thesis by simp
qed

end
