(* ===== verification/Fth_Proc_Samples.thy ===== *)
theory Fth_Proc_Samples
  imports Ficl_Primitive_Samples Fth_Proc_Laws
begin

section \<open>Sample procedures\<close>

text \<open>
  A dictionary with a procedure at address 1100 whose C function is \<open>depth\<close>, the exit word at address 1200, two keywords at addresses
  1300 and 1400, and the cell of the exit word at address 3000. The argument lists are made of the numbers of their elements.
\<close>

definition proc_word :: "int \<Rightarrow> cell \<Rightarrow> ficlWord" where
  "proc_word kind code = sample_word\<lparr>w_code := code, w_kind := kind, w_req := 1, w_argc := 2\<rparr>"

definition proc_bytes :: "addr \<rightharpoonup> u8" where
  "proc_bytes = (\<lambda>p. if p = 3000 then Some 176 else if p = 3001 then Some 4 else Some 0)"

definition proc_dict :: ficlDictionary where
  "proc_dict = set_word 1100 (proc_word FW_PROC 5000) (set_word 1200 (proc_word FW_WORD 5001)
     (set_word 1300 (proc_word FW_KEYWORD 5002) (set_word 1400 (proc_word FW_KEYWORD 5002) (set_bytes proc_bytes sample_dict))))"

definition proc_vm :: "cell list \<Rightarrow> ficlVm" where
  "proc_vm ds = (sample_vm ds [])\<lparr>vm_dict := proc_dict\<rparr>"

definition sample_calls :: fth_env where
  "sample_calls = sample_env\<lparr>fth_instance_p := (\<lambda>c. 9000 \<le> c \<and> c < 10000),
     primitive_code := (\<lambda>c. if c = 5001 then ficlPrimitiveExitInner else ficlPrimitiveDepth)\<rparr>"

definition sample_procs :: proc_env where
  "sample_procs = \<lparr>object_type_p = (\<lambda>c. 8000 \<le> c \<and> c < 8100), array_of_cells = (\<lambda>xs. 65536 + foldl (\<lambda>n c. 64 * n + c) 0 xs),
     array_items = (\<lambda>a. if a = 9000 \<or> a = 66253 then Some [11, 13] else if a = 9100 then Some [] else if a = 9200 then Some [1300, 881, 1400, 7]
       else if a = 9300 then Some [67, 89, 111] else None), fth_undef = 9900\<rparr>"

lemma proc_vm_wf: "length ds \<le> 16 \<Longrightarrow> vm_wf (proc_vm ds)" "data (proc_vm ds) = ds" "rets (proc_vm ds) = []"
    "st_size (vm_dataStack (proc_vm ds)) = 16" "st_size (vm_returnStack (proc_vm ds)) = 16" "vm_ip (proc_vm ds) = 2048"
    "vm_dict (proc_vm ds) = proc_dict"
  using sample_vm_wf [of ds "[]"] by (simp_all add: proc_vm_def vm_wf_def) (simp add: sample_vm_def)

lemma proc_dict_words:
  "words (d_heap proc_dict) 1100 = Some (proc_word FW_PROC 5000)" "words (d_heap proc_dict) 1200 = Some (proc_word FW_WORD 5001)"
  "words (d_heap proc_dict) 1300 = Some (proc_word FW_KEYWORD 5002)" "words (d_heap proc_dict) 1400 = Some (proc_word FW_KEYWORD 5002)"
  "d_base proc_dict = 1024" "d_size proc_dict = 1024" "d_bytes proc_dict = proc_bytes"
  by (simp_all add: proc_dict_def set_word_def set_bytes_def d_bytes_def) (simp_all add: sample_dict_def)

lemma proc_word_simps [simp]: "w_kind (proc_word k c) = k" "w_code (proc_word k c) = c" "w_req (proc_word k c) = 1" "w_argc (proc_word k c) = 2"
  by (simp_all add: proc_word_def)

lemma proc_exit_code: "load_cell proc_bytes 3000 = Some 1200"
proof -
  have "load_cell proc_bytes 3000 = Some (join_bytes [176, 4, 0, 0, 0, 0, 0, 0])"
    by (rule load_cell_eight; simp add: proc_bytes_def)
  then show ?thesis by simp
qed

lemma proc_types: "FTH_PROC_P (proc_vm ds) 1100" "FICL_WORD_REF (proc_vm ds) 1100 = Some (proc_word FW_PROC 5000)"
    "FTH_KEYWORD_P (proc_vm ds) 1300" "FTH_KEYWORD_P (proc_vm ds) 1400"
  by (simp_all add: FTH_PROC_P_def FTH_KEYWORD_P_def fth_word_type_p_def FICL_WORD_REF_def FICL_WORD_DEFINED_P_def FICL_WORD_DICT_P_def proc_vm_wf proc_dict_words)

lemma proc_switch: "inner_switch E 1100 1100 = None" "inner_switch E 1200 1200 = None"
  by (simp_all add: inner_switch_def number_table_def stack_table_def memory_table_def arith_table_def object_instructions_def token_simps)

lemma proc_primitives:
  assumes "vm_dict vm = set_word 1100 w proc_dict" "w_code w = 5000"
  shows "primitive_word sample_calls (vm_dict vm) 1100 ficlPrimitiveDepth" "primitive_word sample_calls (vm_dict vm) 1200 ficlPrimitiveExitInner"
  using assms proc_switch proc_dict_words by (simp_all add: primitive_word_def sample_calls_def set_word_def token_simps)

text \<open>The procedure called with the arguments 5 and 6 above a cell: \<open>depth\<close> leaves 3 on top of them.\<close>

lemma sample_fixnums: "fth_to_ficl 11 = 5" "fth_to_ficl 13 = 6"
  by (simp_all add: fth_to_ficl_def FTH_FIXNUM_P_def FIX_TO_INT_def)

lemma sample_value:
  assumes "d_base (vm_dict vm) = 1024" and "d_size (vm_dict vm) = 1024"
  shows "proc_value sample_calls sample_procs vm [3, 6, 5] = array_of_cells sample_procs [7, 13, 11]"
  using assms by (simp add: ficl_to_fth_def FICL_WORD_DICT_P_def sample_procs_def sample_calls_def sample_env_def make_int_def FIXABLE_P_def INT_TO_FIX_def
      FIXNUM_MAX_def FIXNUM_MIN_def)

lemma depth_called:
  "\<exists>vm1 vm2. push_args [11, 13] (proc_vm [9]) = Ok vm1 \<and>
     ficlVmExecuteXT sample_calls 3000 False (gc_push vm1 1100) 1100 = Some (Ok (FICL_VM_STATUS_INNER_EXIT, vm2)) \<and>
     vm_wf vm2 \<and> data vm2 = [3, 6, 5, 9] \<and> proc_value sample_calls sample_procs vm2 [3, 6, 5] = array_of_cells sample_procs [7, 13, 11]"
proof -
  have s: "stacked (proc_vm [9]) [9] (proc_vm [9])" using stacked_refl [OF proc_vm_wf(1), of "[9]"] proc_vm_wf(2) [of "[9]"] by simp
  obtain vm1 where vm1: "push_args [11, 13] (proc_vm [9]) = Ok vm1" "stacked (proc_vm [9]) [6, 5, 9] vm1"
    using push_args_stacked [OF s, of "[11, 13]"] proc_vm_wf(4) [of "[9]"] sample_fixnums by auto
  let ?g = "gc_push vm1 1100"
  have g: "vm_wf ?g" "data ?g = [6, 5, 9]" "rets ?g = []" "st_size (vm_returnStack ?g) = 16" "vm_dict ?g = proc_dict" "st_size (vm_dataStack ?g) = 16" "vm_ip ?g = 2048"
    using vm1(2) proc_vm_wf [of "[9]"] by (auto simp: stacked_def same_shape_def)
  have room: "length (rets ?g) < st_size (vm_returnStack ?g)" using g by simp
  let ?w = "proc_word FW_PROC 5000"
  let ?c = "called_vm 3000 1100 ?w ?g"
  note c = called_vm_fields [OF g(1) room, of 3000 1100 ?w]
  have cs: "length (data ?c) < st_size (vm_dataStack ?c)" using c(2,5) g by simp
  let ?e = "dpushed 3 ?c"
  have sw: "stack_wf (vm_dataStack ?c)" using c(1) by (simp add: vm_wf_def)
  have "STKDEPTH (vm_dataStack ?c) = 3" using length_stack_list [OF sw] c(2) g(2) by simp
  moreover have "ficlPrimitiveDepth ?c = push_cell (of_int (STKDEPTH (vm_dataStack ?c))) finished ?c"
    using checked_cases [OF c(1), of 0 1 "\<lambda>vm. push_cell (of_int (STKDEPTH (vm_dataStack vm))) finished vm"] cs by (simp add: ficlPrimitiveDepth_def)
  ultimately have f: "ficlPrimitiveDepth ?c = Ok ?e" using ficlVmPush_data [OF c(1) cs] by (simp add: push_cell_def finished_def)
  have e: "vm_wf ?e" "data ?e = [3, 6, 5, 9]" using dpushed_list [OF c(1) cs] c(2) g(2) by simp_all
  have d: "vm_dict ?e = set_word 1100 (?w\<lparr>w_current_word := vm_runningWord ?g, w_current_file := d_current_file proc_dict,
      w_current_line := d_current_line proc_dict\<rparr>) proc_dict"
    using g(5) by (simp add: dpushed_def called_vm_def)
  have r: "vm_ip ?e = 3000" "rets ?e = vm_ip ?g # rets ?g" using c(3,4) by (simp_all add: dpushed_def)
  have m: "load_cell (d_bytes (vm_dict ?e)) 3000 = Some 1200"
    using proc_exit_code proc_dict_words(7) unfolding d by (simp add: set_word_def d_bytes_def)
  have p: "primitive_word sample_calls (vm_dict ?g) 1100 ficlPrimitiveDepth"
    using proc_switch proc_dict_words(1) g(5) by (simp add: primitive_word_def sample_calls_def token_simps)
  have px: "primitive_word sample_calls (vm_dict ?e) 1200 ficlPrimitiveExitInner" using proc_primitives(2) [of ?e] d by simp
  have wd: "words (d_heap (vm_dict ?g)) 1100 = Some ?w" using g(5) proc_dict_words(1) by simp
  let ?v = "(rdrop 1 ?e)\<lparr>vm_ip := vm_ip ?g, vm_runningWord := vm_runningWord ?g\<rparr>"
  have x: "ficlVmExecuteXT sample_calls 3000 False ?g 1100 = Some (Ok (FICL_VM_STATUS_INNER_EXIT, ?v))"
    using execute_xt_primitive [OF g(1) room wd p f e(1) r _ m px] by simp
  have "vm_wf ?v" "data ?v = [3, 6, 5, 9]" using rdrop_list [OF e(1), of 1] e(2) r(2) by (simp_all add: vm_wf_def)
  moreover have "d_base (vm_dict ?v) = 1024" "d_size (vm_dict ?v) = 1024" using d proc_dict_words(5,6) by (simp_all add: rdrop_def set_word_def)
  ultimately show ?thesis using vm1(1) x sample_value [of ?v] by blast
qed

lemma depth_applied:
  assumes "array_items sample_procs args = Some [11, 13]"
  shows "\<exists>vm3. fth_proc_apply sample_calls sample_procs 3000 False (proc_vm [9]) 1100 args =
    Some (Ok (array_of_cells sample_procs [7, 13, 11], vm3)) \<and> vm_wf vm3 \<and> data vm3 = [9]"
proof -
  obtain vm1 vm2 where vm1: "push_args [11, 13] (proc_vm [9]) = Ok vm1"
    and vm2: "ficlVmExecuteXT sample_calls 3000 False (gc_push vm1 1100) 1100 = Some (Ok (FICL_VM_STATUS_INNER_EXIT, vm2))"
      "vm_wf vm2" "data vm2 = [3, 6, 5, 9]" "proc_value sample_calls sample_procs vm2 [3, 6, 5] = array_of_cells sample_procs [7, 13, 11]"
    using depth_called by blast
  have s: "FICL_VM_STATUS_INNER_EXIT \<notin> {FICL_VM_STATUS_ERROR_EXIT, FICL_VM_STATUS_ABORT, FICL_VM_STATUS_ABORTQ}"
    by (simp add: FICL_VM_STATUS_INNER_EXIT_def FICL_VM_STATUS_ERROR_EXIT_def FICL_VM_STATUS_ABORT_def FICL_VM_STATUS_ABORTQ_def)
  have w: "vm_wf (proc_vm [9])" "data (proc_vm [9]) = [9]" "st_size (vm_dataStack (proc_vm [9])) = 16" using proc_vm_wf [of "[9]"] by simp_all
  have l: "w_req (proc_word FW_PROC 5000) \<le> int (length [11, 13 :: cell])" "0 \<le> w_argc (proc_word FW_PROC 5000)"
    "length (data (proc_vm [9])) + min (length [11, 13 :: cell]) (nat (w_argc (proc_word FW_PROC 5000))) \<le> st_size (vm_dataStack (proc_vm [9]))"
    "take (nat (w_argc (proc_word FW_PROC 5000))) [11, 13 :: cell] = [11, 13]" using w(2,3) by simp_all
  have d: "data vm2 = [3, 6, 5] @ data (proc_vm [9])" using vm2(3) w(2) by simp
  from proc_apply_value [OF w(1) proc_types(1,2) assms l(1-3) _ vm2(1) s vm2(2) d] show ?thesis using l(4) vm1 vm2(4) w(2) by auto
qed

end
