(* ===== verification/Ficl_Locals_Samples.thy ===== *)
theory Ficl_Locals_Samples
  imports Ficl_Frames Ficl_Primitive_Samples Fth_Proc_Samples
begin

section \<open>Concrete states for locals\<close>

text \<open>
  A machine that compiles, with an empty locals dictionary; the name \<open>dup\<close> in its memory serves as the name of a local. The
  function for named locals has the address 5000.
\<close>

definition locals_dict :: ficlDictionary where
  "locals_dict = sample_dict\<lparr>d_wordlistCount := 1\<rparr>"

definition locals_env :: fth_env where
  "locals_env = sample_env\<lparr>primitive_code := (\<lambda>_. ficlLocalParenIm)\<rparr>"

definition locals_vm :: "cell list \<Rightarrow> ficlVm" where
  "locals_vm ds = (sample_vm ds [])\<lparr>vm_locals := locals_dict, vm_state := FICL_VM_STATE_COMPILE\<rparr>"

lemma locals_vm_simps [simp]:
  "vm_locals (locals_vm ds) = locals_dict" "vm_state (locals_vm ds) = FICL_VM_STATE_COMPILE" "vm_dict (locals_vm ds) = sample_dict"
  "vm_localsCount (locals_vm ds) = 0" "here (locals_vm ds) = 4096" "data (locals_vm ds) = ds"
  "st_size (vm_dataStack (locals_vm ds)) = 16"
  by (simp_all add: locals_vm_def here_def) (simp_all add: sample_vm_def sample_dict_def)

lemma locals_vm_wf: "length ds \<le> 16 \<Longrightarrow> vm_wf (locals_vm ds)"
  using sample_vm_wf [of ds "[]"] by (simp add: locals_vm_def vm_wf_def)

lemma no_locals: "locals_ok im locals_dict []"
proof -
  have "dict_ok locals_dict [[]]"
    using sample_empty_list by (simp add: dict_ok_def locals_dict_def) (simp add: sample_dict_def)
  moreover have "names (d_heap locals_dict) [[]] = Map.empty"
    using sample_empty_names by (simp add: locals_dict_def sample_dict_def)
  ultimately show ?thesis
    unfolding locals_ok_def by (intro exI [of _ "[[]]"] exI [of _ "[]"]) (simp add: locals_dict_def sample_dict_def)
qed

lemma locals_room: "n < 2 ^ 20 \<Longrightarrow> room locals_dict n"
  using sample_room [of n] by (simp add: room_def allocated_def locals_dict_def d_bytes_def)

lemma dup_name: "n < 2 ^ 20 \<Longrightarrow> name_at (locals_vm ds) n (100, 3) ''dup''"
proof -
  have b: "load_bytes (d_bytes sample_dict) 100 3 = Some [100, 117, 112]"
    using sample_dup_bytes [of "[]" "[]"] by (simp add: sample_vm_def)
  have "char_byte CHR ''d'' = 100" "char_byte CHR ''u'' = 117" "char_byte CHR ''p'' = 112"
    by (simp_all add: char_byte_def char_code_def)
  moreover have "outside 4096 n (100 + of_nat i)" if "n < 2 ^ 20" "i < 3" for i
    unfolding outside_def
  proof (intro allI impI)
    fix j assume "j < n"
    then have "unat (4096 + of_nat j :: addr) = 4096 + j" "unat (100 + of_nat i :: addr) = 100 + i"
      using that by (simp_all add: unat_word_ariths unsigned_of_nat take_bit_nat_eq_self)
    then show "100 + of_nat i \<noteq> (4096 + of_nat j :: addr)" using that(2) by auto
  qed
  ultimately show "n < 2 ^ 20 \<Longrightarrow> name_at (locals_vm ds) n (100, 3) ''dup''"
    using b sample_name_ok(1) by (simp add: name_at_def numeral_3_eq_3)
qed

text \<open>A machine whose return stack has no room for sixteen locals.\<close>

definition link_bytes :: "addr \<rightharpoonup> u8" where
  "link_bytes = (\<lambda>p. if p = 2048 then Some 16 else Some 0)"

definition link_vm :: ficlVm where
  "link_vm = (sample_vm [] [])\<lparr>vm_dict := set_bytes link_bytes sample_dict\<rparr>"

lemma link_vm_cell: "load_cell (d_bytes (vm_dict link_vm)) (vm_ip link_vm) = Some (of_nat 16)"
proof -
  have "load_cell link_bytes 2048 = Some (join_bytes [16, 0, 0, 0, 0, 0, 0, 0])"
    by (rule load_cell_eight) (simp_all add: link_bytes_def)
  moreover have "join_bytes [16, 0, 0, 0, 0, 0, 0, 0] = (16 :: cell)" by simp
  ultimately show ?thesis by (simp add: link_vm_def sample_vm_def)
qed

text \<open>Variables without traces, of values that are no objects.\<close>

definition sample_values :: value_env where
  "sample_values = \<lparr>gc_protect_set = (\<lambda>_ _ vm. vm), trace_var_execute = (\<lambda>_ vm. Ok vm)\<rparr>"

lemma sample_token: "tokens ''DUP'' = [''DUP'']"
  by (simp add: tokens_def isspace_def char_code_def)

end
