(* ===== verification/Fth_Array.thy ===== *)
theory Fth_Array
  imports Ficl_Prelude
begin

section \<open>Arrays\<close>

text \<open>
  The arrays of \<open>src/array.c\<close>: a buffer with the elements somewhere in its middle, so that
  both ends can grow and shrink. One definition per function on a single array; a cell of the
  buffer that \<open>realloc\<close> has added and nothing has written is \<open>None\<close>, and reading it, or
  reading or writing outside the buffer, is \<open>Fault\<close>. The fields \<open>data\<close> and \<open>top\<close> are kept as
  the code keeps them, \<open>data\<close> as its distance from \<open>buf\<close>. The flag \<open>changed_p\<close> belongs to the
  instance around the structure and is kept with it.

  An array is seen as the list of its elements (\<open>array_holds\<close>). Every operation is shown to do
  on that list what its name says, to keep the layout, and to raise \<open>OUT_OF_RANGE\<close> without any
  change otherwise.

  Functions of the object system on the elements, comparison and copying, are arguments.
\<close>

named_theorems array_simps \<open>operations on arrays whose elements are known\<close>

record FArray =
  a_type :: u32
  a_length :: int
  a_buf_length :: int
  a_top :: int
  a_data :: int
  a_buf :: "cell option list"
  a_changed_p :: bool

datatype array_error = OUT_OF_RANGE | WRONG_TYPE_ARG

type_synonym 'a array_result = "(array_error, 'a) outcome"

definition FTH_ARY_ARRAY :: u32 where "FTH_ARY_ARRAY = 1"
definition FTH_ARY_LIST :: u32 where "FTH_ARY_LIST = 2"
definition FTH_ARY_ASSOC :: u32 where "FTH_ARY_ASSOC = 4"

definition MAX_SEQ_LENGTH :: int where
  "MAX_SEQ_LENGTH = 8 * 2 ^ 20"

text \<open>Lengths are not negative where this is used.\<close>

definition NEW_SEQ_LENGTH :: "int \<Rightarrow> int" where
  "NEW_SEQ_LENGTH len = (len div 128 + 1) * 128"

subsection \<open>Memory\<close>

definition FTH_REALLOC :: "'a option list \<Rightarrow> int \<Rightarrow> 'a option list" where
  "FTH_REALLOC b n = take (nat n) b @ replicate (nat n - length b) None"

definition data_ref :: "FArray \<Rightarrow> int \<Rightarrow> cell array_result" where
  "data_ref ary i =
     (let j = a_data ary + i
      in if 0 \<le> j \<and> j < int (length (a_buf ary))
         then case a_buf ary ! nat j of Some c \<Rightarrow> Ok c | None \<Rightarrow> Fault
         else Fault)"

definition data_set :: "FArray \<Rightarrow> int \<Rightarrow> cell \<Rightarrow> FArray array_result" where
  "data_set ary i c =
     (let j = a_data ary + i
      in if 0 \<le> j \<and> j < int (length (a_buf ary))
         then Ok (ary\<lparr>a_buf := (a_buf ary)[nat j := Some c]\<rparr>) else Fault)"

text \<open>\<open>memmove\<close> of \<open>n\<close> elements inside one buffer, and from one buffer into another.\<close>

definition memmove :: "int \<Rightarrow> int \<Rightarrow> int \<Rightarrow> 'a list \<Rightarrow> 'a list array_result" where
  "memmove dst src n b =
     (if 0 \<le> n \<and> 0 \<le> src \<and> src + n \<le> int (length b) \<and> 0 \<le> dst \<and> dst + n \<le> int (length b)
      then Ok (take (nat dst) b @ take (nat n) (drop (nat src) b) @ drop (nat (dst + n)) b) else Fault)"

definition memmove_from :: "int \<Rightarrow> 'a list \<Rightarrow> int \<Rightarrow> int \<Rightarrow> 'a list \<Rightarrow> 'a list array_result" where
  "memmove_from dst from src n b =
     (if 0 \<le> n \<and> 0 \<le> src \<and> src + n \<le> int (length from) \<and> 0 \<le> dst \<and> dst + n \<le> int (length b)
      then Ok (take (nat dst) b @ take (nat n) (drop (nat src) from) @ drop (nat (dst + n)) b) else Fault)"

definition in_buf :: "(cell option list \<Rightarrow> cell option list array_result) \<Rightarrow> FArray \<Rightarrow> FArray array_result" where
  "in_buf f ary = bind_outcome (f (a_buf ary)) (\<lambda>b. Ok (ary\<lparr>a_buf := b\<rparr>))"

text \<open>The steps with which the code gives the buffer another length.\<close>

definition set_buf_length :: "int \<Rightarrow> FArray \<Rightarrow> FArray" where
  "set_buf_length len ary =
     ary\<lparr>a_buf_length := len, a_buf := FTH_REALLOC (a_buf ary) len, a_data := a_top ary\<rparr>"

definition FTH_INSTANCE_CHANGED :: "FArray \<Rightarrow> FArray" where
  "FTH_INSTANCE_CHANGED ary = ary\<lparr>a_changed_p := True\<rparr>"

subsection \<open>Creation\<close>

text \<open>A length whose buffer length is no 64-bit integer overflows, which C leaves undefined.\<close>

definition make_array :: "int \<Rightarrow> FArray array_result" where
  "make_array len =
     (if len < 0 then Throw OUT_OF_RANGE
      else let top_len = NEW_SEQ_LENGTH len div 3;
               buf_len = NEW_SEQ_LENGTH (len + top_len)
           in if buf_len \<ge> 2 ^ 63 then Fault
              else if buf_len > MAX_SEQ_LENGTH then Throw OUT_OF_RANGE
              else Ok \<lparr>a_type = 0, a_length = len, a_buf_length = buf_len, a_top = top_len, a_data = top_len,
                     a_buf = replicate (nat buf_len) (Some 0), a_changed_p = True\<rparr>)"

definition make_array_instance :: "FArray \<Rightarrow> FArray" where
  "make_array_instance ary = ary\<lparr>a_type := a_type ary OR FTH_ARY_ARRAY\<rparr>"

definition fth_make_array_len :: "int \<Rightarrow> FArray array_result" where
  "fth_make_array_len len = bind_outcome (make_array len) (\<lambda>ary. Ok (make_array_instance ary))"

definition fth_make_empty_array :: "FArray array_result" where
  "fth_make_empty_array = fth_make_array_len 0"

text \<open>The loop over the arguments of \<open>fth_make_array_var\<close>.\<close>

fun set_elements :: "FArray \<Rightarrow> int \<Rightarrow> cell list \<Rightarrow> FArray array_result" where
  "set_elements ary i [] = Ok ary"
| "set_elements ary i (x # xs) = bind_outcome (data_set ary i x) (\<lambda>ary. set_elements ary (i + 1) xs)"

definition fth_make_array_var :: "cell list \<Rightarrow> FArray array_result" where
  "fth_make_array_var xs = bind_outcome (make_array (int (length xs))) (\<lambda>ary.
     bind_outcome (set_elements ary 0 xs) (\<lambda>ary. Ok (make_array_instance ary)))"

text \<open>The loop that stores one value in \<open>n\<close> elements from \<open>i\<close> on.\<close>

fun fill_loop :: "nat \<Rightarrow> int \<Rightarrow> cell \<Rightarrow> FArray \<Rightarrow> FArray array_result" where
  "fill_loop 0 i v ary = Ok ary"
| "fill_loop (Suc n) i v ary = bind_outcome (data_set ary i v) (fill_loop n (i + 1) v)"

definition fth_make_array_with_init :: "int \<Rightarrow> cell \<Rightarrow> FArray array_result" where
  "fth_make_array_with_init len init = bind_outcome (make_array len) (\<lambda>ary.
     bind_outcome (fill_loop (nat (a_length ary)) 0 init ary) (\<lambda>ary. Ok (make_array_instance ary)))"

text \<open>The loop that copies \<open>n\<close> elements of \<open>src\<close> from \<open>j\<close> on to \<open>dst\<close> from \<open>i\<close> on, each through \<open>f\<close>.\<close>

fun copy_loop :: "(cell \<Rightarrow> cell) \<Rightarrow> nat \<Rightarrow> FArray \<Rightarrow> int \<Rightarrow> FArray \<Rightarrow> int \<Rightarrow> FArray array_result" where
  "copy_loop f 0 src j dst i = Ok dst"
| "copy_loop f (Suc n) src j dst i = bind_outcome (data_ref src j) (\<lambda>x.
     bind_outcome (data_set dst i (f x)) (\<lambda>dst. copy_loop f n src (j + 1) dst (i + 1)))"

definition ary_to_array :: "FArray \<Rightarrow> FArray array_result" where
  "ary_to_array self = bind_outcome (fth_make_array_len (a_length self)) (\<lambda>new.
     in_buf (memmove_from (a_data new) (a_buf self) (a_data self) (a_length self)) new)"

definition ary_copy :: "(cell \<Rightarrow> cell) \<Rightarrow> FArray \<Rightarrow> FArray array_result" where
  "ary_copy object_copy self = bind_outcome (fth_make_array_len (a_length self)) (\<lambda>new.
     copy_loop object_copy (nat (a_length self)) self 0 new 0)"

subsection \<open>Access\<close>

definition ary_ref :: "FArray \<Rightarrow> int \<Rightarrow> cell array_result" where
  "ary_ref self idx =
     (if idx < 0 \<or> idx \<ge> a_length self then Throw OUT_OF_RANGE else data_ref self idx)"

definition ary_set :: "FArray \<Rightarrow> int \<Rightarrow> cell \<Rightarrow> FArray array_result" where
  "ary_set self idx v =
     (if idx < 0 \<or> idx \<ge> a_length self then Throw OUT_OF_RANGE
      else data_set (FTH_INSTANCE_CHANGED self) idx v)"

definition fth_array_ref :: "FArray \<Rightarrow> int \<Rightarrow> cell array_result" where
  "fth_array_ref array idx =
     (let idx = (if idx < 0 then idx + a_length array else idx) in ary_ref array idx)"

definition fth_array_set :: "FArray \<Rightarrow> int \<Rightarrow> cell \<Rightarrow> FArray array_result" where
  "fth_array_set array idx v =
     (let idx = (if idx < 0 then idx + a_length array else idx) in ary_set array idx v)"

subsection \<open>Both ends\<close>

definition fth_array_push :: "FArray \<Rightarrow> cell \<Rightarrow> FArray array_result" where
  "fth_array_push array v =
     (let lenp1 = a_length array + 1;
          new_buf_len = a_top array + lenp1
      in bind_outcome
           (if new_buf_len > a_buf_length array
            then let len = NEW_SEQ_LENGTH new_buf_len
                 in if len > MAX_SEQ_LENGTH then Throw OUT_OF_RANGE else Ok (set_buf_length len array)
            else Ok array)
           (\<lambda>array. bind_outcome (data_set array (a_length array) v) (\<lambda>array.
              Ok (FTH_INSTANCE_CHANGED (array\<lparr>a_length := a_length array + 1\<rparr>)))))"

definition fth_array_pop :: "cell \<Rightarrow> FArray \<Rightarrow> (cell \<times> FArray) array_result" where
  "fth_array_pop FTH_FALSE array =
     (if a_length array = 0 then Ok (FTH_FALSE, array)
      else let array = array\<lparr>a_length := a_length array - 1\<rparr>
           in bind_outcome (data_ref array (a_length array)) (\<lambda>result.
                let len = NEW_SEQ_LENGTH (a_top array + a_length array);
                    array = (if len < a_buf_length array then set_buf_length len array else array)
                in Ok (result, FTH_INSTANCE_CHANGED array)))"

definition fth_array_unshift :: "FArray \<Rightarrow> cell \<Rightarrow> FArray array_result" where
  "fth_array_unshift array v =
     (let new_top = a_top array - 1;
          new_len = a_length array + 1;
          new_buf_len = new_top + new_len
      in bind_outcome
           (if new_top < 1
            then let new_top = a_buf_length array div 3;
                     new_buf_len = new_top + new_len
                 in bind_outcome
                      (if new_buf_len > a_buf_length array
                       then let len = NEW_SEQ_LENGTH new_buf_len
                            in if len > MAX_SEQ_LENGTH then Throw OUT_OF_RANGE else Ok (set_buf_length len array)
                       else Ok array)
                      (\<lambda>array. bind_outcome (in_buf (memmove (new_top + 1) (a_data array) (a_length array)) array)
                         (\<lambda>array. Ok (new_top, array)))
            else if new_buf_len > a_buf_length array
            then let len = NEW_SEQ_LENGTH new_buf_len
                 in if len > MAX_SEQ_LENGTH then Throw OUT_OF_RANGE else Ok (new_top, set_buf_length len array)
            else Ok (new_top, array))
           (\<lambda>(new_top, array).
              let array = array\<lparr>a_top := new_top, a_length := new_len, a_data := new_top\<rparr>
              in bind_outcome (data_set array 0 v) (\<lambda>array. Ok (FTH_INSTANCE_CHANGED array))))"

definition fth_array_shift :: "cell \<Rightarrow> FArray \<Rightarrow> (cell \<times> FArray) array_result" where
  "fth_array_shift FTH_FALSE array =
     (if a_length array = 0 then Ok (FTH_FALSE, array)
      else bind_outcome (data_ref array 0) (\<lambda>result.
           bind_outcome
             (if a_top array + 1 > a_buf_length array div 2
              then let array = array\<lparr>a_top := a_buf_length array div 3\<rparr>
                   in in_buf (memmove (a_top array) (a_data array) (a_length array)) array
              else Ok array)
             (\<lambda>array.
                let array = array\<lparr>a_length := a_length array - 1\<rparr>;
                    len = NEW_SEQ_LENGTH (a_top array + a_length array);
                    array = array\<lparr>a_top := a_top array + 1\<rparr>;
                    array = (if len < a_buf_length array
                             then array\<lparr>a_buf_length := len, a_buf := FTH_REALLOC (a_buf array) len\<rparr> else array)
                in Ok (result, FTH_INSTANCE_CHANGED (array\<lparr>a_data := a_top array\<rparr>)))))"

subsection \<open>Elements in the middle\<close>

definition fth_array_delete :: "cell \<Rightarrow> FArray \<Rightarrow> int \<Rightarrow> (cell \<times> FArray) array_result" where
  "fth_array_delete FTH_FALSE array idx =
     (if \<not> a_length array > 0 then Throw WRONG_TYPE_ARG
      else let cur_len = a_length array;
               idx = (if idx < 0 then idx + cur_len else idx)
           in if idx < 0 \<or> idx \<ge> cur_len then Throw OUT_OF_RANGE
              else if idx = 0 then fth_array_shift FTH_FALSE array
              else if idx = cur_len - 1 then fth_array_pop FTH_FALSE array
              else bind_outcome (data_ref array idx) (\<lambda>v.
                let array = array\<lparr>a_length := a_length array - 1\<rparr>;
                    len = NEW_SEQ_LENGTH (a_top array + a_length array);
                    array = (if len < a_buf_length array then set_buf_length len array else array)
                in bind_outcome
                     (in_buf (memmove (a_data array + idx) (a_data array + idx + 1) (a_length array - idx)) array)
                     (\<lambda>array. Ok (v, FTH_INSTANCE_CHANGED array))))"

text \<open>The search loop: \<open>n\<close> elements from \<open>i\<close> on, \<open>eq\<close> is \<open>fth_object_equal_p\<close>.\<close>

fun index_loop :: "(cell \<Rightarrow> cell \<Rightarrow> bool) \<Rightarrow> nat \<Rightarrow> int \<Rightarrow> FArray \<Rightarrow> cell \<Rightarrow> int array_result" where
  "index_loop eq 0 i array key = Ok (-1)"
| "index_loop eq (Suc n) i array key = bind_outcome (data_ref array i) (\<lambda>x.
     if eq x key then Ok i else index_loop eq n (i + 1) array key)"

definition fth_array_index :: "(cell \<Rightarrow> cell \<Rightarrow> bool) \<Rightarrow> FArray \<Rightarrow> cell \<Rightarrow> int array_result" where
  "fth_array_index eq array key = index_loop eq (nat (a_length array)) 0 array key"

definition fth_array_member_p :: "(cell \<Rightarrow> cell \<Rightarrow> bool) \<Rightarrow> FArray \<Rightarrow> cell \<Rightarrow> bool array_result" where
  "fth_array_member_p eq array item =
     bind_outcome (index_loop eq (nat (a_length array)) 0 array item) (\<lambda>i. Ok (i \<ge> 0))"

definition fth_array_find :: "(cell \<Rightarrow> cell \<Rightarrow> bool) \<Rightarrow> cell \<Rightarrow> FArray \<Rightarrow> cell \<Rightarrow> cell array_result" where
  "fth_array_find eq FTH_FALSE array key =
     bind_outcome (index_loop eq (nat (a_length array)) 0 array key) (\<lambda>i.
       if i \<ge> 0 then data_ref array i else Ok FTH_FALSE)"

definition fth_array_delete_key ::
    "(cell \<Rightarrow> cell \<Rightarrow> bool) \<Rightarrow> cell \<Rightarrow> FArray \<Rightarrow> cell \<Rightarrow> (cell \<times> FArray) array_result" where
  "fth_array_delete_key eq FTH_FALSE array key =
     bind_outcome (index_loop eq (nat (a_length array)) 0 array key) (\<lambda>i.
       if i \<ge> 0 then fth_array_delete FTH_FALSE array i else Ok (FTH_FALSE, array))"

definition fth_array_fill :: "FArray \<Rightarrow> cell \<Rightarrow> FArray array_result" where
  "fth_array_fill array v =
     bind_outcome (fill_loop (nat (a_length array)) 0 v array) (\<lambda>array. Ok (FTH_INSTANCE_CHANGED array))"

definition fth_array_clear :: "cell \<Rightarrow> FArray \<Rightarrow> FArray array_result" where
  "fth_array_clear FTH_FALSE array =
     bind_outcome (fill_loop (nat (a_length array)) 0 FTH_FALSE array) (\<lambda>array. Ok (FTH_INSTANCE_CHANGED array))"

text \<open>The loop of \<open>fth_array_reverse\<close>: \<open>n\<close> elements remain, \<open>i\<close> goes up and \<open>j\<close> down.\<close>

fun reverse_loop :: "nat \<Rightarrow> int \<Rightarrow> int \<Rightarrow> FArray \<Rightarrow> FArray \<Rightarrow> FArray array_result" where
  "reverse_loop 0 i j tmp array = Ok array"
| "reverse_loop (Suc n) i j tmp array = bind_outcome (data_ref tmp j) (\<lambda>x.
     bind_outcome (data_set array i x) (reverse_loop n (i + 1) (j - 1) tmp))"

definition fth_array_reverse :: "(cell \<Rightarrow> cell) \<Rightarrow> FArray \<Rightarrow> FArray array_result" where
  "fth_array_reverse object_copy array =
     (if a_length array = 0 then Ok array
      else bind_outcome (ary_copy object_copy array) (\<lambda>tmp.
           reverse_loop (nat (a_length array)) 0 (a_length array - 1) tmp array))"

text \<open>
  \<open>fth_array_each\<close> reads the length of the array in every round; here the callback works on
  another array, and the array that is walked through does not change.
\<close>

fun each_loop :: "(cell \<Rightarrow> 'd \<Rightarrow> 'd array_result) \<Rightarrow> nat \<Rightarrow> int \<Rightarrow> FArray \<Rightarrow> 'd \<Rightarrow> 'd array_result" where
  "each_loop f 0 i array d = Ok d"
| "each_loop f (Suc n) i array d = bind_outcome (data_ref array i) (\<lambda>x.
     bind_outcome (f x d) (each_loop f n (i + 1) array))"

definition fth_array_each :: "FArray \<Rightarrow> (cell \<Rightarrow> 'd \<Rightarrow> 'd array_result) \<Rightarrow> 'd \<Rightarrow> 'd array_result" where
  "fth_array_each array f d = each_loop f (nat (a_length array)) 0 array d"

definition fth_array_map :: "FArray \<Rightarrow> (cell \<Rightarrow> cell) \<Rightarrow> FArray array_result" where
  "fth_array_map array f =
     bind_outcome (fth_make_array_len (a_length array)) (\<lambda>ary.
       copy_loop f (nat (a_length array)) array 0 ary 0)"

definition ary_compact_each :: "cell \<Rightarrow> cell \<Rightarrow> FArray \<Rightarrow> FArray array_result" where
  "ary_compact_each FTH_NIL v new = (if v \<noteq> FTH_NIL then fth_array_push new v else Ok new)"

definition fth_array_compact :: "(cell \<Rightarrow> cell) \<Rightarrow> cell \<Rightarrow> FArray \<Rightarrow> FArray array_result" where
  "fth_array_compact object_copy FTH_NIL array =
     bind_outcome (ary_copy object_copy array) (\<lambda>old.
       fth_array_each old (ary_compact_each FTH_NIL) (FTH_INSTANCE_CHANGED (array\<lparr>a_length := 0\<rparr>)))"

definition ary_uniq_each :: "(cell \<Rightarrow> cell \<Rightarrow> bool) \<Rightarrow> cell \<Rightarrow> FArray \<Rightarrow> FArray array_result" where
  "ary_uniq_each eq v new =
     bind_outcome (fth_array_member_p eq new v) (\<lambda>b. if \<not> b then fth_array_push new v else Ok new)"

definition fth_array_uniq :: "(cell \<Rightarrow> cell \<Rightarrow> bool) \<Rightarrow> (cell \<Rightarrow> cell) \<Rightarrow> FArray \<Rightarrow> FArray array_result" where
  "fth_array_uniq eq object_copy array =
     bind_outcome (ary_copy object_copy array) (\<lambda>old.
       fth_array_each old (ary_uniq_each eq) (FTH_INSTANCE_CHANGED (array\<lparr>a_length := 0\<rparr>)))"

text \<open>
  The loop of \<open>fth_array_reject\<close>: the procedure is a test on the element, true when it returns
  neither \<open>#f\<close> nor \<open>nil\<close> nor 0. A deleted element leaves the index where it is; the fuel is the
  number of elements behind it.
\<close>

fun reject_loop :: "cell \<Rightarrow> (cell \<Rightarrow> bool) \<Rightarrow> nat \<Rightarrow> int \<Rightarrow> FArray \<Rightarrow> FArray array_result" where
  "reject_loop FTH_FALSE proc 0 i array = Ok array"
| "reject_loop FTH_FALSE proc (Suc n) i array = bind_outcome (data_ref array i) (\<lambda>x.
     if proc x
     then bind_outcome (fth_array_delete FTH_FALSE array i) (\<lambda>(v, array). reject_loop FTH_FALSE proc n i array)
     else reject_loop FTH_FALSE proc n (i + 1) array)"

definition fth_array_reject :: "cell \<Rightarrow> (cell \<Rightarrow> bool) \<Rightarrow> FArray \<Rightarrow> FArray array_result" where
  "fth_array_reject FTH_FALSE proc array =
     (if a_length array < 2 then Ok array
      else reject_loop FTH_FALSE proc (nat (a_length array)) 0 array)"

definition fth_array_subarray :: "FArray \<Rightarrow> int \<Rightarrow> int \<Rightarrow> FArray array_result" where
  "fth_array_subarray array start end =
     (let len = a_length array;
          start = (if start < 0 then start + len else start)
      in if start < 0 \<or> start \<ge> len then Throw OUT_OF_RANGE
         else let end = (if end < 0 then end + len + 1 else end);
                  end = (if end < start \<or> end > len then len else end)
              in bind_outcome (fth_make_array_len (end - start)) (\<lambda>result.
                   in_buf (memmove_from (a_data result) (a_buf array) (a_data array + start) len) result))"

text \<open>Comparison; \<open>self == obj\<close> is the comparison of the references, not of the arrays.\<close>

fun equal_loop :: "(cell \<Rightarrow> cell \<Rightarrow> bool) \<Rightarrow> nat \<Rightarrow> int \<Rightarrow> FArray \<Rightarrow> FArray \<Rightarrow> bool array_result" where
  "equal_loop eq 0 i a b = Ok True"
| "equal_loop eq (Suc n) i a b = bind_outcome (data_ref a i) (\<lambda>x. bind_outcome (data_ref b i) (\<lambda>y.
     if \<not> eq x y then Ok False else equal_loop eq n (i + 1) a b))"

definition ary_equal_p :: "(cell \<Rightarrow> cell \<Rightarrow> bool) \<Rightarrow> bool \<Rightarrow> FArray \<Rightarrow> FArray \<Rightarrow> bool array_result" where
  "ary_equal_p eq same self obj =
     (if same then Ok True
      else if a_length self = a_length obj then equal_loop eq (nat (a_length self)) 0 self obj
      else Ok False)"

subsection \<open>The layout\<close>

text \<open>
  The elements lie between free cells before and behind them. The start is never in the upper
  half of the longest buffer, which leaves room for half of its length at the end.
\<close>

definition array_holds :: "FArray \<Rightarrow> cell list \<Rightarrow> bool" where
  "array_holds ary xs = (\<exists>pre post. a_buf ary = pre @ map Some xs @ post \<and>
     a_top ary = int (length pre) \<and> a_data ary = a_top ary \<and> a_length ary = int (length xs) \<and>
     a_buf_length ary = int (length (a_buf ary)) \<and> a_buf_length ary \<le> MAX_SEQ_LENGTH \<and>
     2 * a_top ary \<le> MAX_SEQ_LENGTH)"

lemma array_holdsI:
  assumes "a_buf ary = pre @ map Some xs @ post" and "a_top ary = int (length pre)" and "a_data ary = a_top ary"
    and "a_length ary = int (length xs)" and "a_buf_length ary = int (length (a_buf ary))"
    and "a_buf_length ary \<le> MAX_SEQ_LENGTH" and "2 * a_top ary \<le> MAX_SEQ_LENGTH"
  shows "array_holds ary xs"
  using assms unfolding array_holds_def by blast

lemma array_holdsE:
  assumes "array_holds ary xs"
  obtains pre post where "a_buf ary = pre @ map Some xs @ post" "a_top ary = int (length pre)"
    "a_data ary = int (length pre)" "a_length ary = int (length xs)"
    "a_buf_length ary = int (length pre) + int (length xs) + int (length post)"
    "a_buf_length ary \<le> MAX_SEQ_LENGTH" "2 * a_top ary \<le> MAX_SEQ_LENGTH"
  using assms unfolding array_holds_def by auto

lemma array_holds_length: "array_holds ary xs \<Longrightarrow> a_length ary = int (length xs)"
  by (auto simp: array_holds_def)

lemma array_holds_unique: "array_holds ary xs \<Longrightarrow> array_holds ary ys \<Longrightarrow> xs = ys"
  unfolding array_holds_def by (auto simp: append_eq_append_conv map_eq_append_conv dest!: map_injective)

lemma array_holds_changed [simp]: "array_holds (FTH_INSTANCE_CHANGED ary) xs = array_holds ary xs"
  by (simp add: array_holds_def FTH_INSTANCE_CHANGED_def)

lemma array_holds_instance [simp]: "array_holds (make_array_instance ary) xs = array_holds ary xs"
  by (simp add: array_holds_def make_array_instance_def)

lemma NEW_SEQ_LENGTH_bounds: "n < NEW_SEQ_LENGTH n" "NEW_SEQ_LENGTH n \<le> n + 128"
  by (simp_all add: NEW_SEQ_LENGTH_def)

lemma NEW_SEQ_LENGTH_fits: "NEW_SEQ_LENGTH n \<le> MAX_SEQ_LENGTH \<longleftrightarrow> n < MAX_SEQ_LENGTH"
  by (simp add: NEW_SEQ_LENGTH_def MAX_SEQ_LENGTH_def) presburger

lemma NEW_SEQ_LENGTH_mono: "m \<le> n \<Longrightarrow> NEW_SEQ_LENGTH m \<le> NEW_SEQ_LENGTH n"
  by (simp add: NEW_SEQ_LENGTH_def zdiv_mono1)

lemma data_ref_holds:
  assumes "array_holds ary xs" and "0 \<le> i" and "i < int (length xs)"
  shows "data_ref ary i = Ok (xs ! nat i)"
  using assms(1)
proof (rule array_holdsE)
  fix pre post
  assume b: "a_buf ary = pre @ map Some xs @ post" "a_data ary = int (length pre)"
  have "nat (int (length pre) + i) = length pre + nat i" "nat i < length xs"
    using assms(2,3) by (simp_all add: nat_add_distrib nat_less_iff)
  then show ?thesis
    using assms(2,3) b by (simp add: data_ref_def nth_append)
qed

lemma data_ref_holds_nat [array_simps]:
  "array_holds ary xs \<Longrightarrow> i < length xs \<Longrightarrow> data_ref ary (int i) = Ok (xs ! i)"
  using data_ref_holds [of ary xs "int i"] by simp

lemma data_set_holds:
  assumes "array_holds ary xs" and "0 \<le> i" and "i < int (length xs)"
  shows "\<exists>b. data_set ary i v = Ok (ary\<lparr>a_buf := b\<rparr>) \<and> array_holds (ary\<lparr>a_buf := b\<rparr>) (xs[nat i := v])"
  using assms(1)
proof (rule array_holdsE)
  fix pre post
  assume b: "a_buf ary = pre @ map Some xs @ post" "a_top ary = int (length pre)" "a_data ary = int (length pre)"
      "a_length ary = int (length xs)" "a_buf_length ary = int (length pre) + int (length xs) + int (length post)"
      "a_buf_length ary \<le> MAX_SEQ_LENGTH" "2 * a_top ary \<le> MAX_SEQ_LENGTH"
  let ?b = "pre @ map Some (xs[nat i := v]) @ post"
  have "nat (int (length pre) + i) = length pre + nat i" "nat i < length xs"
    using assms(2,3) by (simp_all add: nat_add_distrib nat_less_iff)
  then have "data_set ary i v = Ok (ary\<lparr>a_buf := ?b\<rparr>)"
    using assms(2,3) b by (simp add: data_set_def list_update_append map_update)
  moreover have "array_holds (ary\<lparr>a_buf := ?b\<rparr>) (xs[nat i := v])"
    by (rule array_holdsI [where pre = pre and post = post]) (use b in simp_all)
  ultimately show ?thesis by blast
qed

lemma FTH_REALLOC_keeps:
  "length us \<le> nat n \<Longrightarrow> \<exists>p. FTH_REALLOC (us @ vs) n = us @ p \<and> length (us @ p) = nat n"
  by (rule exI [of _ "take (nat n - length us) vs @ replicate (nat n - length (us @ vs)) None"])
     (auto simp: FTH_REALLOC_def)

lemma set_buf_length_holds:
  assumes "array_holds ary xs" and "a_top ary + int (length xs) \<le> n" and "n \<le> MAX_SEQ_LENGTH"
  shows "array_holds (set_buf_length n ary) xs"
  using assms(1)
proof (rule array_holdsE)
  fix pre post
  assume b: "a_buf ary = pre @ map Some xs @ post" "a_top ary = int (length pre)" "a_data ary = int (length pre)"
      "a_length ary = int (length xs)" "2 * a_top ary \<le> MAX_SEQ_LENGTH"
  have n: "length (pre @ map Some xs) \<le> nat n" "int (nat n) = n" using assms(2) b(2) by auto
  obtain p where "FTH_REALLOC ((pre @ map Some xs) @ post) n = (pre @ map Some xs) @ p"
      "length ((pre @ map Some xs) @ p) = nat n"
    using FTH_REALLOC_keeps [OF n(1)] by blast
  then show ?thesis
    by (intro array_holdsI [where pre = pre and post = p]) (use b assms(3) n(2) in \<open>simp_all add: set_buf_length_def\<close>)
qed

lemma set_buf_length_fields [simp]:
  "a_top (set_buf_length n ary) = a_top ary" "a_length (set_buf_length n ary) = a_length ary"
  "a_buf_length (set_buf_length n ary) = n"
  by (simp_all add: set_buf_length_def)

text \<open>Shortening and extending at the end.\<close>

lemma array_holds_shorter:
  assumes "array_holds ary (xs @ ys)"
  shows "array_holds (ary\<lparr>a_length := int (length xs)\<rparr>) xs"
  using assms
proof (rule array_holdsE)
  fix pre post
  assume b: "a_buf ary = pre @ map Some (xs @ ys) @ post" "a_top ary = int (length pre)" "a_data ary = int (length pre)"
      "a_length ary = int (length (xs @ ys))"
      "a_buf_length ary = int (length pre) + int (length (xs @ ys)) + int (length post)"
      "a_buf_length ary \<le> MAX_SEQ_LENGTH" "2 * a_top ary \<le> MAX_SEQ_LENGTH"
  show ?thesis
    by (rule array_holdsI [where pre = pre and post = "map Some ys @ post"]) (use b in simp_all)
qed

lemma data_set_behind:
  assumes "array_holds ary xs" and "a_top ary + a_length ary < a_buf_length ary"
  shows "\<exists>b. data_set ary (a_length ary) v = Ok (ary\<lparr>a_buf := b\<rparr>) \<and>
    array_holds (ary\<lparr>a_buf := b, a_length := a_length ary + 1\<rparr>) (xs @ [v])"
  using assms(1)
proof (rule array_holdsE)
  fix pre post
  assume b: "a_buf ary = pre @ map Some xs @ post" "a_top ary = int (length pre)" "a_data ary = int (length pre)"
      "a_length ary = int (length xs)" "a_buf_length ary = int (length pre) + int (length xs) + int (length post)"
      "a_buf_length ary \<le> MAX_SEQ_LENGTH" "2 * a_top ary \<le> MAX_SEQ_LENGTH"
  obtain p post' where post: "post = p # post'" using assms(2) b by (cases post) auto
  let ?b = "pre @ map Some (xs @ [v]) @ post'"
  have "nat (int (length pre) + int (length xs)) = length pre + length xs" by simp
  then have "data_set ary (a_length ary) v = Ok (ary\<lparr>a_buf := ?b\<rparr>)"
    using b post by (simp add: data_set_def list_update_append)
  moreover have "array_holds (ary\<lparr>a_buf := ?b, a_length := a_length ary + 1\<rparr>) (xs @ [v])"
    by (rule array_holdsI [where pre = pre and post = post']) (use b post in simp_all)
  ultimately show ?thesis by blast
qed

subsection \<open>Operations at both ends\<close>

text \<open>Up to this length elements can always be added.\<close>

definition array_limit :: nat where
  "array_limit = 4194303"

lemma array_limit_eq: "2 * (int array_limit + 1) = MAX_SEQ_LENGTH"
  by (simp add: array_limit_def MAX_SEQ_LENGTH_def)

lemma fth_array_push_holds:
  assumes "array_holds ary xs" and "length xs < array_limit"
  shows "\<exists>ary'. fth_array_push ary v = Ok ary' \<and> array_holds ary' (xs @ [v])"
proof -
  let ?n = "a_top ary + (a_length ary + 1)"
  define ary1 where "ary1 = (if ?n > a_buf_length ary then set_buf_length (NEW_SEQ_LENGTH ?n) ary else ary)"
  have l: "a_length ary = int (length xs)" "2 * a_top ary \<le> MAX_SEQ_LENGTH"
    using assms(1) by (auto simp: array_holds_def)
  have "int (length xs) + 1 \<le> int array_limit" using assms(2) by simp
  then have fits: "NEW_SEQ_LENGTH ?n \<le> MAX_SEQ_LENGTH"
    unfolding NEW_SEQ_LENGTH_fits using l by (simp add: MAX_SEQ_LENGTH_def array_limit_def)
  have "array_holds ary1 xs"
    using assms(1) set_buf_length_holds [OF assms(1) _ fits] NEW_SEQ_LENGTH_bounds(1) [of ?n] l
    by (auto simp: ary1_def)
  moreover have "a_top ary1 + a_length ary1 < a_buf_length ary1" "a_length ary1 = a_length ary"
    using NEW_SEQ_LENGTH_bounds(1) [of ?n] by (auto simp: ary1_def)
  ultimately obtain b where "data_set ary1 (a_length ary1) v = Ok (ary1\<lparr>a_buf := b\<rparr>)"
      "array_holds (ary1\<lparr>a_buf := b, a_length := a_length ary1 + 1\<rparr>) (xs @ [v])"
    using data_set_behind by blast
  moreover have "fth_array_push ary v = bind_outcome (data_set ary1 (a_length ary1) v) (\<lambda>array.
      Ok (FTH_INSTANCE_CHANGED (array\<lparr>a_length := a_length array + 1\<rparr>)))"
    using fits unfolding fth_array_push_def Let_def ary1_def by simp
  ultimately show ?thesis by simp
qed

lemma fth_array_pop_holds:
  assumes "array_holds ary (xs @ [x])"
  shows "\<exists>ary'. fth_array_pop ff ary = Ok (x, ary') \<and> array_holds ary' xs"
proof -
  let ?a = "ary\<lparr>a_length := int (length xs)\<rparr>" and ?n = "a_top ary + int (length xs)"
  have h: "array_holds ?a xs" by (rule array_holds_shorter [OF assms])
  have "data_ref ?a (int (length xs)) = data_ref ary (int (length xs))" by (simp add: data_ref_def Let_def)
  then have r: "data_ref ?a (int (length xs)) = Ok x"
    using data_ref_holds_nat [OF assms, of "length xs"] by simp
  have "array_holds (if NEW_SEQ_LENGTH ?n < a_buf_length ary then set_buf_length (NEW_SEQ_LENGTH ?n) ?a else ?a) xs"
    using h set_buf_length_holds [OF h, of "NEW_SEQ_LENGTH ?n"] NEW_SEQ_LENGTH_bounds(1) [of ?n] assms
    by (auto simp: array_holds_def)
  then show ?thesis
    using r array_holds_length [OF assms] by (auto simp: fth_array_pop_def Let_def)
qed

lemma fth_array_pop_empty: "array_holds ary [] \<Longrightarrow> fth_array_pop ff ary = Ok (ff, ary)"
  by (simp add: fth_array_pop_def array_holds_length)

lemma memmove_elements:
  assumes "0 \<le> dst" and "dst + int (length xs) \<le> int (length (pre @ map Some xs @ post))"
  shows "memmove dst (int (length pre)) (int (length xs)) (pre @ map Some xs @ post) =
    Ok (take (nat dst) (pre @ map Some xs @ post) @ map Some xs @
        drop (nat dst + length xs) (pre @ map Some xs @ post))"
  using assms by (simp add: memmove_def nat_add_distrib)

lemma data_set_first:
  assumes "a_buf ary = pre @ c # map Some xs @ post" and "a_top ary = int (length pre)"
    and "a_data ary = a_top ary" and "a_length ary = int (length xs) + 1" and "a_buf_length ary = int (length (a_buf ary))"
    and "a_buf_length ary \<le> MAX_SEQ_LENGTH" and "2 * a_top ary \<le> MAX_SEQ_LENGTH"
  shows "\<exists>b. data_set ary 0 v = Ok (ary\<lparr>a_buf := b\<rparr>) \<and> array_holds (ary\<lparr>a_buf := b\<rparr>) (v # xs)"
proof -
  let ?b = "pre @ map Some (v # xs) @ post"
  have "data_set ary 0 v = Ok (ary\<lparr>a_buf := ?b\<rparr>)"
    using assms(1-3) by (simp add: data_set_def list_update_append)
  moreover have "array_holds (ary\<lparr>a_buf := ?b\<rparr>) (v # xs)"
    by (rule array_holdsI [where pre = pre and post = post]) (use assms in simp_all)
  ultimately show ?thesis by blast
qed

lemma fth_array_unshift_low:
  assumes "array_holds ary xs" and "length xs < array_limit" and "a_top ary - 1 < 1"
  shows "\<exists>ary'. fth_array_unshift ary v = Ok ary' \<and> array_holds ary' (v # xs)"
proof -
  let ?t = "a_buf_length ary div 3"
  let ?n = "?t + (a_length ary + 1)"
  define ary1 where "ary1 = (if ?n > a_buf_length ary then set_buf_length (NEW_SEQ_LENGTH ?n) ary else ary)"
  have l: "a_length ary = int (length xs)" "0 \<le> a_buf_length ary" "a_buf_length ary \<le> MAX_SEQ_LENGTH"
      "a_top ary + a_length ary \<le> a_buf_length ary"
    using assms(1) by (auto elim!: array_holdsE)
  have "int (length xs) + 1 \<le> int array_limit" "3 * ?t \<le> a_buf_length ary" using assms(2) by simp_all
  then have fits: "NEW_SEQ_LENGTH ?n \<le> MAX_SEQ_LENGTH"
    unfolding NEW_SEQ_LENGTH_fits using l by (simp add: MAX_SEQ_LENGTH_def array_limit_def)
  have grow: "a_top ary + int (length xs) \<le> NEW_SEQ_LENGTH ?n" if "?n > a_buf_length ary"
    using that l NEW_SEQ_LENGTH_bounds(1) [of ?n] by linarith
  have "array_holds ary1 xs"
    using assms(1) set_buf_length_holds [OF assms(1) grow fits] by (simp add: ary1_def)
  then obtain pre post where b: "a_buf ary1 = pre @ map Some xs @ post" "a_data ary1 = int (length pre)"
      "a_length ary1 = int (length xs)" "a_buf_length ary1 = int (length pre) + int (length xs) + int (length post)"
      "a_buf_length ary1 \<le> MAX_SEQ_LENGTH" by (rule array_holdsE)
  have room: "?t + 1 + int (length xs) \<le> a_buf_length ary1"
    using NEW_SEQ_LENGTH_bounds(1) [of ?n] l by (auto simp: ary1_def)
  define b0 where "b0 = a_buf ary1"
  have lb: "length b0 = nat (a_buf_length ary1)" using b(1,4) by (simp add: b0_def)
  have mv: "memmove (?t + 1) (a_data ary1) (a_length ary1) b0 =
      Ok (take (nat ?t + 1) b0 @ map Some xs @ drop (nat ?t + 1 + length xs) b0)"
    using memmove_elements [of "?t + 1" xs pre post] room b l(2) by (simp add: b0_def nat_add_distrib)
  have split: "take (nat ?t + 1) b0 = take (nat ?t) b0 @ [b0 ! nat ?t]"
    using room lb l(2) by (subst take_Suc_conv_app_nth [symmetric]) auto
  let ?ary2 = "ary1\<lparr>a_buf := take (nat ?t + 1) b0 @ map Some xs @ drop (nat ?t + 1 + length xs) b0,
    a_top := ?t, a_length := a_length ary + 1, a_data := ?t\<rparr>"
  have "\<exists>b. data_set ?ary2 0 v = Ok (?ary2\<lparr>a_buf := b\<rparr>) \<and> array_holds (?ary2\<lparr>a_buf := b\<rparr>) (v # xs)"
    by (rule data_set_first [where pre = "take (nat ?t) b0" and c = "b0 ! nat ?t"
          and post = "drop (nat ?t + 1 + length xs) b0"])
       (use room lb l b(5) split in \<open>simp_all add: min_def\<close>)
  then obtain b where b2: "data_set ?ary2 0 v = Ok (?ary2\<lparr>a_buf := b\<rparr>)" "array_holds (?ary2\<lparr>a_buf := b\<rparr>) (v # xs)"
    by blast
  have "fth_array_unshift ary v = bind_outcome (data_set ?ary2 0 v) (\<lambda>array. Ok (FTH_INSTANCE_CHANGED array))"
  proof -
    have "(if ?n > a_buf_length ary
        then if NEW_SEQ_LENGTH ?n > MAX_SEQ_LENGTH then Throw OUT_OF_RANGE else Ok (set_buf_length (NEW_SEQ_LENGTH ?n) ary)
        else Ok ary) = Ok ary1"
      using fits by (simp add: ary1_def)
    then show ?thesis
      using assms(3) mv unfolding fth_array_unshift_def Let_def in_buf_def b0_def by simp
  qed
  then show ?thesis using b2 by simp
qed

lemma fth_array_unshift_high:
  assumes "array_holds ary xs" and "\<not> a_top ary - 1 < 1"
  shows "\<exists>ary'. fth_array_unshift ary v = Ok ary' \<and> array_holds ary' (v # xs)"
  using assms(1)
proof (rule array_holdsE)
  fix pre post
  assume b: "a_buf ary = pre @ map Some xs @ post" "a_top ary = int (length pre)" "a_data ary = int (length pre)"
      "a_length ary = int (length xs)" "a_buf_length ary = int (length pre) + int (length xs) + int (length post)"
      "a_buf_length ary \<le> MAX_SEQ_LENGTH" "2 * a_top ary \<le> MAX_SEQ_LENGTH"
  obtain pre' c where pre: "pre = pre' @ [c]" using assms(2) b(2) by (cases pre rule: rev_cases) auto
  let ?ary2 = "ary\<lparr>a_top := a_top ary - 1, a_length := a_length ary + 1, a_data := a_top ary - 1\<rparr>"
  have "\<exists>b. data_set ?ary2 0 v = Ok (?ary2\<lparr>a_buf := b\<rparr>) \<and> array_holds (?ary2\<lparr>a_buf := b\<rparr>) (v # xs)"
    by (rule data_set_first [where pre = pre' and c = c and post = post]) (use b pre in simp_all)
  then show ?thesis
    using assms(2) b unfolding fth_array_unshift_def Let_def by auto
qed

lemma fth_array_unshift_holds:
  assumes "array_holds ary xs" and "length xs < array_limit"
  shows "\<exists>ary'. fth_array_unshift ary v = Ok ary' \<and> array_holds ary' (v # xs)"
  using fth_array_unshift_low [OF assms] fth_array_unshift_high [OF assms(1)] by blast

text \<open>The end of \<open>fth_array_shift\<close>, from where the elements lie at \<open>top\<close>.\<close>

lemma shift_finish:
  assumes "a_buf ary = pre @ map Some (x # xs) @ post" and "a_top ary = int (length pre)"
    and "a_length ary = int (length xs) + 1" and "a_buf_length ary = int (length (a_buf ary))"
    and "a_buf_length ary \<le> MAX_SEQ_LENGTH" and "2 * (a_top ary + 1) \<le> MAX_SEQ_LENGTH"
    and "len = NEW_SEQ_LENGTH (a_top ary + int (length xs))"
  shows "len < a_buf_length ary \<Longrightarrow> array_holds (ary\<lparr>a_length := int (length xs), a_top := a_top ary + 1,
      a_buf_length := len, a_buf := FTH_REALLOC (a_buf ary) len, a_data := a_top ary + 1\<rparr>) xs"
    and "array_holds (ary\<lparr>a_length := int (length xs), a_top := a_top ary + 1, a_data := a_top ary + 1\<rparr>) xs"
proof -
  let ?a = "ary\<lparr>a_length := int (length xs), a_top := a_top ary + 1, a_data := a_top ary + 1\<rparr>"
  show h: "array_holds ?a xs"
    by (rule array_holdsI [where pre = "pre @ [Some x]" and post = post]) (use assms in simp_all)
  assume "len < a_buf_length ary"
  then have "array_holds (set_buf_length len ?a) xs"
    by (intro set_buf_length_holds [OF h])
       (use assms(5,7) NEW_SEQ_LENGTH_bounds(1) [of "a_top ary + int (length xs)"] in simp_all)
  then show "array_holds (ary\<lparr>a_length := int (length xs), a_top := a_top ary + 1,
      a_buf_length := len, a_buf := FTH_REALLOC (a_buf ary) len, a_data := a_top ary + 1\<rparr>) xs"
    by (simp add: set_buf_length_def)
qed

lemma fth_array_shift_holds:
  assumes "array_holds ary (x # xs)"
  shows "\<exists>ary'. fth_array_shift ff ary = Ok (x, ary') \<and> array_holds ary' xs"
  using assms
proof (rule array_holdsE)
  fix pre post
  assume b: "a_buf ary = pre @ map Some (x # xs) @ post" "a_top ary = int (length pre)" "a_data ary = int (length pre)"
      "a_length ary = int (length (x # xs))"
      "a_buf_length ary = int (length pre) + int (length (x # xs)) + int (length post)"
      "a_buf_length ary \<le> MAX_SEQ_LENGTH" "2 * a_top ary \<le> MAX_SEQ_LENGTH"
  let ?t = "a_buf_length ary div 3" and ?moved = "a_top ary + 1 > a_buf_length ary div 2"
  have t: "0 \<le> ?t" "?moved \<Longrightarrow> ?t + int (length (x # xs)) \<le> a_buf_length ary" "2 * (?t + 1) \<le> MAX_SEQ_LENGTH"
  proof -
    have d: "3 * ?t \<le> a_buf_length ary" "a_buf_length ary \<le> 2 * (a_buf_length ary div 2) + 1" by simp_all
    show "0 \<le> ?t" using b(5) by simp
    show "?t + int (length (x # xs)) \<le> a_buf_length ary" if ?moved using that b(2,5) d by linarith
    show "2 * (?t + 1) \<le> MAX_SEQ_LENGTH" using d(1) b(6) by (simp add: MAX_SEQ_LENGTH_def)
  qed
  define ary1 where "ary1 = (if ?moved then ary\<lparr>a_top := ?t, a_buf := take (nat ?t) (a_buf ary) @ map Some (x # xs) @
      drop (nat ?t + length (x # xs)) (a_buf ary)\<rparr> else ary)"
  have mv: "(if ?moved then let array = ary\<lparr>a_top := ?t\<rparr>
        in in_buf (memmove (a_top array) (a_data array) (a_length array)) array else Ok ary) = Ok ary1"
  proof (cases ?moved)
    case True
    have "?t + int (length (x # xs)) \<le> int (length (pre @ map Some (x # xs) @ post))"
      using t(2) [OF True] b(5) by simp
    then have "memmove ?t (a_data ary) (a_length ary) (a_buf ary) =
        Ok (take (nat ?t) (a_buf ary) @ map Some (x # xs) @ drop (nat ?t + length (x # xs)) (a_buf ary))"
      unfolding b(1,3,4) by (rule memmove_elements [OF t(1)])
    then show ?thesis using True unfolding ary1_def in_buf_def Let_def by simp
  qed (simp add: ary1_def)
  have lb: "length (a_buf ary) = nat (a_buf_length ary)" using b(1,5) by simp
  have "\<exists>pre post. a_buf ary1 = pre @ map Some (x # xs) @ post \<and> a_top ary1 = int (length pre)"
  proof (cases ?moved)
    case True
    then show ?thesis
      using t lb by (intro exI [of _ "take (nat ?t) (a_buf ary)"] exI [of _ "drop (nat ?t + length (x # xs)) (a_buf ary)"])
        (simp add: ary1_def)
  next
    case False
    then show ?thesis using b(1,2) by (auto simp: ary1_def)
  qed
  then obtain pre' post' where p: "a_buf ary1 = pre' @ map Some (x # xs) @ post'" "a_top ary1 = int (length pre')"
    by blast
  have f: "a_length ary1 = int (length xs) + 1" "a_buf_length ary1 = int (length (a_buf ary1))"
      "a_buf_length ary1 \<le> MAX_SEQ_LENGTH"
    using b(4,6) t lb by (auto simp: ary1_def)
  have "2 * (a_top ary1 + 1) \<le> MAX_SEQ_LENGTH"
    using b(6) t(3) by (cases ?moved) (simp_all add: ary1_def)
  note shift_finish [OF p f this refl]
  moreover have "a_length ary1 = int (length xs) + 1" using b(4) by (simp add: ary1_def)
  moreover have "data_ref ary 0 = Ok x" using data_ref_holds_nat [OF assms, of 0] by simp
  ultimately show ?thesis
    using b(4) mv unfolding fth_array_shift_def by (simp add: Let_def)
qed

lemma fth_array_shift_empty: "array_holds ary [] \<Longrightarrow> fth_array_shift ff ary = Ok (ff, ary)"
  by (simp add: fth_array_shift_def array_holds_length)

subsection \<open>Arrays as double-ended queues\<close>

text \<open>
  Programs use arrays as stacks and queues. The interface: four operations on a value that
  holds a list, with \<open>none\<close> as the result of taking from an empty one and \<open>found x\<close> as that of taking
  the element \<open>x\<close>, and no failure up to a limit of elements. A client's sequence of operations gives the results it gives on lists.
\<close>

datatype 'a end_op = Push 'a | Pop | Unshift 'a | Shift

fun list_op :: "('a \<Rightarrow> 'r) \<Rightarrow> 'r \<Rightarrow> 'a end_op \<Rightarrow> 'a list \<Rightarrow> 'r list \<times> 'a list" where
  "list_op found none (Push v) xs = ([], xs @ [v])"
| "list_op found none Pop xs = (if xs = [] then ([none], []) else ([found (last xs)], butlast xs))"
| "list_op found none (Unshift v) xs = ([], v # xs)"
| "list_op found none Shift xs = (if xs = [] then ([none], []) else ([found (hd xs)], tl xs))"

fun list_run :: "('a \<Rightarrow> 'r) \<Rightarrow> 'r \<Rightarrow> 'a end_op list \<Rightarrow> 'a list \<Rightarrow> 'r list \<times> 'a list" where
  "list_run found none [] xs = ([], xs)"
| "list_run found none (c # cs) xs =
     (let (rs, xs) = list_op found none c xs; (ss, xs) = list_run found none cs xs in (rs @ ss, xs))"

locale deque =
  fixes holds :: "'d \<Rightarrow> 'a list \<Rightarrow> bool"
    and push :: "'d \<Rightarrow> 'a \<Rightarrow> ('e, 'd) outcome" and pop :: "'d \<Rightarrow> ('e, 'r \<times> 'd) outcome"
    and unshift :: "'d \<Rightarrow> 'a \<Rightarrow> ('e, 'd) outcome" and shift :: "'d \<Rightarrow> ('e, 'r \<times> 'd) outcome"
    and found :: "'a \<Rightarrow> 'r" and none :: 'r and limit :: nat
  assumes push: "holds d xs \<Longrightarrow> length xs < limit \<Longrightarrow> \<exists>d'. push d v = Ok d' \<and> holds d' (xs @ [v])"
    and pop: "holds d (xs @ [x]) \<Longrightarrow> \<exists>d'. pop d = Ok (found x, d') \<and> holds d' xs"
    and pop_empty: "holds d [] \<Longrightarrow> pop d = Ok (none, d)"
    and unshift: "holds d xs \<Longrightarrow> length xs < limit \<Longrightarrow> \<exists>d'. unshift d v = Ok d' \<and> holds d' (v # xs)"
    and shift: "holds d (x # xs) \<Longrightarrow> \<exists>d'. shift d = Ok (found x, d') \<and> holds d' xs"
    and shift_empty: "holds d [] \<Longrightarrow> shift d = Ok (none, d)"
begin

fun exec :: "'a end_op \<Rightarrow> 'd \<Rightarrow> ('e, 'r list \<times> 'd) outcome" where
  "exec (Push v) d = bind_outcome (push d v) (\<lambda>d. Ok ([], d))"
| "exec Pop d = bind_outcome (pop d) (\<lambda>(x, d). Ok ([x], d))"
| "exec (Unshift v) d = bind_outcome (unshift d v) (\<lambda>d. Ok ([], d))"
| "exec Shift d = bind_outcome (shift d) (\<lambda>(x, d). Ok ([x], d))"

fun run :: "'a end_op list \<Rightarrow> 'd \<Rightarrow> ('e, 'r list \<times> 'd) outcome" where
  "run [] d = Ok ([], d)"
| "run (c # cs) d = bind_outcome (exec c d) (\<lambda>(rs, d). bind_outcome (run cs d) (\<lambda>(ss, d). Ok (rs @ ss, d)))"

lemma exec_list:
  assumes "holds d xs" and "length xs < limit"
  shows "\<exists>d'. exec c d = Ok (fst (list_op found none c xs), d') \<and> holds d' (snd (list_op found none c xs)) \<and>
    length (snd (list_op found none c xs)) \<le> Suc (length xs)"
proof (cases c)
  case (Push v)
  then show ?thesis using push [OF assms, of v] by auto
next
  case Pop
  then show ?thesis
    using assms pop_empty [of d] pop [of d "butlast xs" "last xs"] by (cases "xs = []") auto
next
  case (Unshift v)
  then show ?thesis using unshift [OF assms, of v] by auto
next
  case Shift
  then show ?thesis
    using assms shift_empty [of d] shift [of d "hd xs" "tl xs"] by (cases "xs = []") auto
qed

lemma run_list:
  assumes "holds d xs" and "length xs + length cs \<le> limit"
  shows "\<exists>d'. run cs d = Ok (fst (list_run found none cs xs), d') \<and> holds d' (snd (list_run found none cs xs))"
  using assms
proof (induction cs arbitrary: d xs)
  case (Cons c cs)
  let ?ys = "snd (list_op found none c xs)"
  obtain d1 where d1: "exec c d = Ok (fst (list_op found none c xs), d1)" "holds d1 ?ys" "length ?ys \<le> Suc (length xs)"
    using exec_list [OF Cons.prems(1), of c] Cons.prems(2) by auto
  obtain d2 where "run cs d1 = Ok (fst (list_run found none cs ?ys), d2)" "holds d2 (snd (list_run found none cs ?ys))"
    using Cons.IH [OF d1(2)] d1(3) Cons.prems(2) by auto
  then show ?case using d1(1) by (simp add: case_prod_beta Let_def)
qed simp

end

interpretation fa: deque array_holds fth_array_push "fth_array_pop ff" fth_array_unshift "fth_array_shift ff" "\<lambda>x. x" ff array_limit
  for ff
  by unfold_locales
     (auto intro: fth_array_push_holds fth_array_pop_holds fth_array_pop_empty fth_array_unshift_holds
       fth_array_shift_holds fth_array_shift_empty)

end
