(* ===== verification/Fth_Simple.thy ===== *)
theory Fth_Simple
  imports Fth_Array
begin

section \<open>Simple arrays\<close>

text \<open>
  The simple arrays of \<open>src/utils.c\<close> that hold the procedures of hooks: a buffer that grows by a fixed number of elements whenever the length is a multiple
  of it. The null pointer is \<open>None\<close>, both for an array and for its buffer. A cell of the buffer that nothing has written is \<open>None\<close>, and reading it, or an access
  outside the buffer, is \<open>Fault\<close>. Lengths are below $2^{31}$.
\<close>

record simple_array =
  sa_data :: "cell option list option"
  sa_length :: nat
  sa_incr :: nat

definition sa_ref :: "simple_array \<Rightarrow> nat \<Rightarrow> cell array_result" where
  "sa_ref ary i = (case sa_data ary of None \<Rightarrow> Fault
     | Some b \<Rightarrow> if i < length b then (case b ! i of Some c \<Rightarrow> Ok c | None \<Rightarrow> Fault) else Fault)"

definition sa_set :: "simple_array \<Rightarrow> nat \<Rightarrow> cell \<Rightarrow> simple_array array_result" where
  "sa_set ary i c = (case sa_data ary of None \<Rightarrow> Fault
     | Some b \<Rightarrow> if i < length b then Ok (ary\<lparr>sa_data := Some (b[i := Some c])\<rparr>) else Fault)"

definition make_simple_array :: "int \<Rightarrow> simple_array" where
  "make_simple_array incr =
     (let incr = (if incr \<le> 0 then 8 else incr);
          incr = (if incr > 128 then 128 else incr)
      in \<lparr>sa_data = None, sa_length = 0, sa_incr = nat incr\<rparr>)"

definition simple_array_length :: "simple_array option \<Rightarrow> int" where
  "simple_array_length ary = (case ary of None \<Rightarrow> -1 | Some ary \<Rightarrow> int (sa_length ary))"

definition simple_array_ref :: "simple_array option \<Rightarrow> int \<Rightarrow> cell array_result" where
  "simple_array_ref ary i = (case ary of None \<Rightarrow> Ok 0
     | Some ary \<Rightarrow> if i \<ge> 0 \<and> i < int (sa_length ary) then sa_ref ary (nat i) else Ok 0)"

definition simple_array_set :: "simple_array option \<Rightarrow> int \<Rightarrow> cell \<Rightarrow> simple_array option array_result" where
  "simple_array_set ary i obj = (case ary of None \<Rightarrow> Ok None
     | Some ary \<Rightarrow> if i \<ge> 0 \<and> i < int (sa_length ary) then bind_outcome (sa_set ary (nat i) obj) (\<lambda>ary. Ok (Some ary)) else Ok (Some ary))"

definition simple_array_push :: "simple_array option \<Rightarrow> cell \<Rightarrow> simple_array option array_result" where
  "simple_array_push ary obj = (case ary of None \<Rightarrow> Ok None
     | Some ary \<Rightarrow>
         let ary = (if sa_data ary = None \<or> sa_length ary mod sa_incr ary = 0
                    then ary\<lparr>sa_data := Some (FTH_REALLOC (case sa_data ary of None \<Rightarrow> [] | Some b \<Rightarrow> b) (int (sa_length ary + sa_incr ary)))\<rparr>
                    else ary)
         in bind_outcome (sa_set ary (sa_length ary) obj) (\<lambda>ary. Ok (Some (ary\<lparr>sa_length := sa_length ary + 1\<rparr>))))"

definition simple_array_clear :: "simple_array option \<Rightarrow> simple_array option" where
  "simple_array_clear ary = (case ary of None \<Rightarrow> None | Some ary \<Rightarrow> Some (ary\<lparr>sa_data := None, sa_length := 0\<rparr>))"

definition simple_array_pop :: "simple_array option \<Rightarrow> (cell \<times> simple_array option) array_result" where
  "simple_array_pop ary = (case ary of None \<Rightarrow> Ok (0, None)
     | Some ary \<Rightarrow>
         if sa_length ary > 0
         then let ary = ary\<lparr>sa_length := sa_length ary - 1\<rparr>
              in bind_outcome (sa_ref ary (sa_length ary)) (\<lambda>obj.
                   Ok (obj, if sa_length ary = 0 then simple_array_clear (Some ary) else Some ary))
         else Ok (0, Some ary))"

text \<open>The loops over the indices, upwards from \<open>i\<close> with \<open>n\<close> elements left, and downwards below \<open>n\<close>.\<close>

fun sa_index_loop :: "simple_array \<Rightarrow> cell \<Rightarrow> nat \<Rightarrow> nat \<Rightarrow> int array_result" where
  "sa_index_loop ary obj i 0 = Ok (-1)"
| "sa_index_loop ary obj i (Suc n) = bind_outcome (sa_ref ary i) (\<lambda>c. if c = obj then Ok (int i) else sa_index_loop ary obj (Suc i) n)"

fun sa_rindex_loop :: "simple_array \<Rightarrow> cell \<Rightarrow> nat \<Rightarrow> int array_result" where
  "sa_rindex_loop ary obj 0 = Ok (-1)"
| "sa_rindex_loop ary obj (Suc n) = bind_outcome (sa_ref ary n) (\<lambda>c. if c = obj then Ok (int n) else sa_rindex_loop ary obj n)"

definition simple_array_index :: "simple_array option \<Rightarrow> cell \<Rightarrow> int array_result" where
  "simple_array_index ary obj = (case ary of None \<Rightarrow> Ok (-1) | Some ary \<Rightarrow> sa_index_loop ary obj 0 (sa_length ary))"

definition simple_array_rindex :: "simple_array option \<Rightarrow> cell \<Rightarrow> int array_result" where
  "simple_array_rindex ary obj = (case ary of None \<Rightarrow> Ok (-1) | Some ary \<Rightarrow> sa_rindex_loop ary obj (sa_length ary))"

definition simple_array_member_p :: "simple_array option \<Rightarrow> cell \<Rightarrow> bool array_result" where
  "simple_array_member_p ary obj = bind_outcome (simple_array_index ary obj) (\<lambda>i. Ok (i \<noteq> -1))"

text \<open>What the two deletions do once the index is known.\<close>

definition delete_at :: "simple_array \<Rightarrow> nat \<Rightarrow> simple_array option array_result" where
  "delete_at ary ui =
     (let ary = ary\<lparr>sa_length := sa_length ary - 1\<rparr>
      in if sa_length ary = 0 then Ok (simple_array_clear (Some ary))
         else if ui < sa_length ary
         then case sa_data ary of None \<Rightarrow> Fault
           | Some b \<Rightarrow> bind_outcome (memmove (int ui) (int ui + 1) (int (sa_length ary - ui)) b) (\<lambda>b. Ok (Some (ary\<lparr>sa_data := Some b\<rparr>)))
         else Ok (Some ary))"

definition simple_array_delete :: "simple_array option \<Rightarrow> cell \<Rightarrow> (cell \<times> simple_array option) array_result" where
  "simple_array_delete ary obj =
     bind_outcome (simple_array_index ary obj) (\<lambda>i.
       case ary of None \<Rightarrow> Ok (0, None)
       | Some a \<Rightarrow> if i = -1 then Ok (0, ary) else bind_outcome (delete_at a (nat i)) (\<lambda>ary. Ok (obj, ary)))"

definition simple_array_rdelete :: "simple_array option \<Rightarrow> cell \<Rightarrow> (cell \<times> simple_array option) array_result" where
  "simple_array_rdelete ary obj =
     bind_outcome (simple_array_rindex ary obj) (\<lambda>i.
       case ary of None \<Rightarrow> Ok (0, None)
       | Some a \<Rightarrow> if i = -1 then Ok (0, ary) else bind_outcome (delete_at a (nat i)) (\<lambda>ary. Ok (obj, ary)))"

text \<open>The elements from index \<open>i\<close> on, \<open>n\<close> of them, and those below \<open>n\<close> from the last to the first.\<close>

fun sa_elements :: "simple_array \<Rightarrow> nat \<Rightarrow> nat \<Rightarrow> cell list array_result" where
  "sa_elements ary i 0 = Ok []"
| "sa_elements ary i (Suc n) = bind_outcome (sa_ref ary i) (\<lambda>c. bind_outcome (sa_elements ary (Suc i) n) (\<lambda>cs. Ok (c # cs)))"

fun push_reversed :: "simple_array \<Rightarrow> nat \<Rightarrow> simple_array option \<Rightarrow> simple_array option array_result" where
  "push_reversed ary 0 new = Ok new"
| "push_reversed ary (Suc n) new = bind_outcome (sa_ref ary n) (\<lambda>c. bind_outcome (simple_array_push new c) (push_reversed ary n))"

definition simple_array_reverse :: "simple_array option \<Rightarrow> simple_array option array_result" where
  "simple_array_reverse ary = (case ary of None \<Rightarrow> Ok None
     | Some a \<Rightarrow> if sa_length a > 0 then push_reversed a (sa_length a) (Some (make_simple_array (int (sa_incr a)))) else Ok None)"

definition simple_array_to_array :: "simple_array option \<Rightarrow> cell list array_result" where
  "simple_array_to_array ary = (case ary of None \<Rightarrow> Ok [] | Some a \<Rightarrow> if sa_length a > 0 then sa_elements a 0 (sa_length a) else Ok [])"

fun sa_push_all :: "simple_array option \<Rightarrow> cell list \<Rightarrow> simple_array option array_result" where
  "sa_push_all ary [] = Ok ary"
| "sa_push_all ary (c # cs) = bind_outcome (simple_array_push ary c) (\<lambda>ary. sa_push_all ary cs)"

definition make_simple_array_var :: "cell list \<Rightarrow> simple_array option array_result" where
  "make_simple_array_var cs = sa_push_all (Some (make_simple_array (int (length cs)))) cs"

fun sa_equal_loop :: "(cell \<Rightarrow> cell \<Rightarrow> bool) \<Rightarrow> simple_array \<Rightarrow> simple_array \<Rightarrow> nat \<Rightarrow> nat \<Rightarrow> bool array_result" where
  "sa_equal_loop eq ary1 ary2 i 0 = Ok True"
| "sa_equal_loop eq ary1 ary2 i (Suc n) =
     bind_outcome (sa_ref ary1 i) (\<lambda>c. bind_outcome (sa_ref ary2 i) (\<lambda>d. if \<not> eq c d then Ok False else sa_equal_loop eq ary1 ary2 (Suc i) n))"

definition simple_array_equal_p :: "(cell \<Rightarrow> cell \<Rightarrow> bool) \<Rightarrow> simple_array option \<Rightarrow> simple_array option \<Rightarrow> bool array_result" where
  "simple_array_equal_p eq ary1 ary2 = (case (ary1, ary2) of
       (Some a1, Some a2) \<Rightarrow> if sa_length a1 = sa_length a2 \<and> sa_incr a1 = sa_incr a2 then sa_equal_loop eq a1 a2 0 (sa_length a1) else Ok False
     | _ \<Rightarrow> Ok False)"

section \<open>A simple array as a list\<close>

text \<open>
  The elements are at the start of the buffer, which has room up to the next multiple of the increment.
\<close>

definition sa_holds :: "simple_array \<Rightarrow> cell list \<Rightarrow> bool" where
  "sa_holds ary xs = (sa_length ary = length xs \<and> 0 < sa_incr ary \<and>
     (case sa_data ary of None \<Rightarrow> xs = []
      | Some b \<Rightarrow> take (length xs) b = map Some xs \<and> length xs \<le> length b \<and>
          (length xs mod sa_incr ary \<noteq> 0 \<longrightarrow> sa_incr ary * Suc (length xs div sa_incr ary) \<le> length b)))"

lemma make_simple_array_holds: "sa_holds (make_simple_array n) []"
  by (simp add: make_simple_array_def sa_holds_def Let_def)

lemma sa_ref_holds: "sa_holds ary xs \<Longrightarrow> i < length xs \<Longrightarrow> sa_ref ary i = Ok (xs ! i)"
  by (auto simp: sa_holds_def sa_ref_def split: option.splits) (metis nth_map nth_take option.sel option.distinct(1))+

lemma sa_room: "0 < (n :: nat) \<Longrightarrow> n * Suc (i div n) \<le> m \<Longrightarrow> i < m"
  using dividend_less_times_div [of n i] by simp

lemma sa_room_next: "Suc i mod n \<noteq> 0 \<Longrightarrow> Suc i div n = (i :: nat) div n"
  by (simp add: div_Suc)

lemma sa_ref_last: "sa_holds ary (xs @ [x]) \<Longrightarrow> sa_ref ary (length xs) = Ok x"
  by (simp add: sa_ref_holds)

lemma simple_array_push_holds:
  assumes "sa_holds ary xs"
  shows "\<exists>ary'. simple_array_push (Some ary) c = Ok (Some ary') \<and> sa_holds ary' (xs @ [c]) \<and> sa_incr ary' = sa_incr ary"
proof -
  let ?n = "sa_incr ary" and ?l = "length xs"
  have h: "sa_length ary = ?l" "0 < ?n" using assms by (simp_all add: sa_holds_def)
  define b where "b = (if sa_data ary = None \<or> ?l mod ?n = 0
      then FTH_REALLOC (case sa_data ary of None \<Rightarrow> [] | Some b \<Rightarrow> b) (int (?l + ?n)) else the (sa_data ary))"
  have b: "?l < length b" "take ?l b = map Some xs" "Suc ?l mod ?n \<noteq> 0 \<Longrightarrow> ?n * Suc (Suc ?l div ?n) \<le> length b"
  proof -
    show "?l < length b"
      using assms h sa_room [of ?n ?l] by (auto simp: b_def sa_holds_def FTH_REALLOC_def split: option.splits)
    show "take ?l b = map Some xs"
      using assms h by (auto simp: b_def sa_holds_def FTH_REALLOC_def min_def split: option.splits)
    assume m: "Suc ?l mod ?n \<noteq> 0"
    show "?n * Suc (Suc ?l div ?n) \<le> length b"
    proof (cases "sa_data ary = None \<or> ?l mod ?n = 0")
      case True
      then have "?l mod ?n = 0" using assms by (auto simp: sa_holds_def)
      then have "?n * Suc (?l div ?n) = ?l + ?n" by (metis add.commute mult_Suc_right mod_0_imp_dvd dvd_mult_div_cancel)
      moreover have "length b = ?l + ?n" using True by (auto simp: b_def FTH_REALLOC_def)
      ultimately show ?thesis using sa_room_next [OF m] by simp
    next
      case False
      then show ?thesis using assms sa_room_next [OF m] by (auto simp: b_def sa_holds_def)
    qed
  qed
  let ?a = "ary\<lparr>sa_data := Some (b[?l := Some c]), sa_length := Suc ?l\<rparr>"
  have e: "(if sa_data ary = None \<or> sa_length ary mod ?n = 0
      then ary\<lparr>sa_data := Some (FTH_REALLOC (case sa_data ary of None \<Rightarrow> [] | Some b \<Rightarrow> b) (int (sa_length ary + ?n)))\<rparr> else ary) = ary\<lparr>sa_data := Some b\<rparr>"
    unfolding b_def h(1) by (cases "sa_data ary") auto
  have "simple_array_push (Some ary) c = Ok (Some ?a)"
    unfolding simple_array_push_def option.case e Let_def using b(1) h(1) by (simp add: sa_set_def)
  moreover have "take (Suc ?l) (b[?l := Some c]) = map Some (xs @ [c])"
    using b(1,2) by (simp add: take_Suc_conv_app_nth)
  then have "sa_holds ?a (xs @ [c])" using b h(2) by (simp add: sa_holds_def)
  ultimately show ?thesis by (intro exI [of _ ?a]) simp
qed

lemma sa_shorter:
  assumes "Suc k \<le> m" and "Suc k mod n \<noteq> 0 \<longrightarrow> n * Suc (Suc k div n) \<le> (m :: nat)"
  shows "k mod n \<noteq> 0 \<longrightarrow> n * Suc (k div n) \<le> m"
proof
  assume "k mod n \<noteq> 0"
  show "n * Suc (k div n) \<le> m"
  proof (cases "Suc k mod n = 0")
    case True
    then have "n * Suc (k div n) = Suc k" by (metis div_Suc dvd_mult_div_cancel mod_0_imp_dvd)
    then show ?thesis using assms(1) by simp
  next
    case False
    then show ?thesis using assms(2) sa_room_next [OF False] by simp
  qed
qed

text \<open>An array that has lost one element by way of its buffer or of its length.\<close>

lemma sa_less:
  assumes "sa_holds ary xs" and "sa_data ary = Some b" and "length xs = Suc (length ys)" and "ys \<noteq> []"
    and "length b' = length b" and "take (length ys) b' = map Some ys"
  shows "sa_holds (ary\<lparr>sa_data := Some b', sa_length := length ys\<rparr>) ys"
proof -
  let ?n = "sa_incr ary"
  have h: "0 < ?n" "Suc (length ys) \<le> length b" "Suc (length ys) mod ?n \<noteq> 0 \<longrightarrow> ?n * Suc (Suc (length ys) div ?n) \<le> length b"
    using assms(1-3) by (simp_all add: sa_holds_def)
  have "length ys mod ?n \<noteq> 0 \<longrightarrow> ?n * Suc (length ys div ?n) \<le> length b"
    using h(2,3) by (rule sa_shorter)
  then show ?thesis using h assms(5,6) by (simp add: sa_holds_def)
qed

lemma sa_cleared: "sa_holds ary xs \<Longrightarrow> simple_array_clear (Some ary) = Some (ary\<lparr>sa_data := None, sa_length := 0\<rparr>) \<and> sa_holds (ary\<lparr>sa_data := None, sa_length := 0\<rparr>) []"
  by (simp add: simple_array_clear_def sa_holds_def)

lemma sa_buffer: "sa_holds ary xs \<Longrightarrow> xs \<noteq> [] \<Longrightarrow> \<exists>b. sa_data ary = Some b \<and> take (length xs) b = map Some xs \<and> length xs \<le> length b"
  by (auto simp: sa_holds_def split: option.splits)

lemma simple_array_pop_holds:
  assumes "sa_holds ary xs"
  shows "\<exists>ary'. simple_array_pop (Some ary) = Ok (if xs = [] then 0 else last xs, Some ary') \<and> sa_holds ary' (butlast xs) \<and> sa_incr ary' = sa_incr ary"
proof (cases xs rule: rev_cases)
  case Nil
  then show ?thesis using assms by (simp add: simple_array_pop_def sa_holds_def)
next
  case (snoc ys x)
  have l: "sa_length ary = Suc (length ys)" using assms snoc by (simp add: sa_holds_def)
  have r: "sa_ref (ary\<lparr>sa_length := length ys\<rparr>) (length ys) = Ok x"
    using sa_ref_last assms snoc by (simp add: sa_ref_def)
  obtain b where b: "sa_data ary = Some b" "take (length xs) b = map Some xs" using sa_buffer [OF assms] snoc by auto
  show ?thesis
  proof (cases "ys = []")
    case True
    then show ?thesis using l r snoc sa_cleared [OF assms] by (simp add: simple_array_pop_def simple_array_clear_def Let_def)
  next
    case False
    have "take (length ys) b = map Some ys" using b(2) snoc by (metis butlast_snoc butlast_take diff_Suc_1 length_append_singleton le_refl map_butlast length_map length_take min.bounded_iff)
    then have "sa_holds (ary\<lparr>sa_data := Some b, sa_length := length ys\<rparr>) ys"
      using snoc False by (intro sa_less [OF assms b(1)]) simp_all
    moreover have "ary\<lparr>sa_data := Some b, sa_length := length ys\<rparr> = ary\<lparr>sa_length := length ys\<rparr>" using b(1) by simp
    ultimately show ?thesis using l r snoc False by (simp add: simple_array_pop_def Let_def)
  qed
qed

lemma simple_array_set_holds:
  assumes "sa_holds ary xs"
  shows "\<exists>ary'. simple_array_set (Some ary) i c = Ok (Some ary') \<and> sa_holds ary' (if 0 \<le> i then xs[nat i := c] else xs) \<and> sa_incr ary' = sa_incr ary"
proof (cases "0 \<le> i \<and> i < int (length xs)")
  case True
  then have x: "xs \<noteq> []" by auto
  obtain b where b: "sa_data ary = Some b" "take (length xs) b = map Some xs" "length xs \<le> length b" using sa_buffer [OF assms x] by blast
  have "take (length xs) (b[nat i := Some c]) = map Some (xs[nat i := c])" using b(2) by (simp add: take_update_swap map_update)
  moreover have "nat i < length b" using True b(3) by linarith
  ultimately show ?thesis using True assms b(1) by (simp add: simple_array_set_def sa_holds_def sa_set_def)
next
  case False
  then have "(if 0 \<le> i then xs[nat i := c] else xs) = xs" by (auto simp: nat_le_iff intro!: list_update_beyond)
  moreover have "sa_length ary = length xs" using assms by (simp add: sa_holds_def)
  then have "simple_array_set (Some ary) i c = Ok (Some ary)" using False by (auto simp: simple_array_set_def)
  ultimately show ?thesis using assms by simp
qed

text \<open>Where an element is, from the start and from the end.\<close>

fun find_index :: "cell \<Rightarrow> cell list \<Rightarrow> nat option" where
  "find_index c [] = None"
| "find_index c (x # xs) = (if x = c then Some 0 else map_option Suc (find_index c xs))"

lemma find_index_remove:
  "find_index c xs = Some i \<Longrightarrow> i < length xs \<and> xs ! i = c \<and> take i xs @ drop (Suc i) xs = remove1 c xs"
  by (induction xs arbitrary: i) (auto split: if_splits)

lemma find_index_none: "find_index c xs = None \<longleftrightarrow> c \<notin> set xs"
  by (induction xs) auto

definition index_int :: "nat option \<Rightarrow> int" where
  "index_int i = (case i of None \<Rightarrow> -1 | Some i \<Rightarrow> int i)"

lemma sa_index_loop_holds:
  assumes "sa_holds ary xs" and "i + n = length xs"
  shows "sa_index_loop ary c i n = Ok (index_int (map_option (\<lambda>j. i + j) (find_index c (drop i xs))))"
  using assms(2)
proof (induction n arbitrary: i)
  case (Suc n)
  then have d: "drop i xs = xs ! i # drop (Suc i) xs" "i < length xs" by (simp_all add: Cons_nth_drop_Suc)
  have "sa_index_loop ary c (Suc i) n = Ok (index_int (map_option (\<lambda>j. Suc i + j) (find_index c (drop (Suc i) xs))))" using Suc by simp
  then show ?case using d sa_ref_holds [OF assms(1) d(2)]
    by (cases "find_index c (drop (Suc i) xs)") (simp_all add: index_int_def)
qed (simp add: index_int_def)

lemma simple_array_index_holds: "sa_holds ary xs \<Longrightarrow> simple_array_index (Some ary) c = Ok (index_int (find_index c xs))"
  using sa_index_loop_holds [of ary xs 0 "length xs" c] by (simp add: simple_array_index_def sa_holds_def option.map_ident)

definition find_rindex :: "cell \<Rightarrow> cell list \<Rightarrow> nat option" where
  "find_rindex c xs = map_option (\<lambda>i. length xs - Suc i) (find_index c (rev xs))"

lemma sa_rindex_loop_holds:
  assumes "sa_holds ary xs" and "n \<le> length xs"
  shows "sa_rindex_loop ary c n = Ok (index_int (find_rindex c (take n xs)))"
  using assms(2)
proof (induction n)
  case (Suc n)
  then have r: "sa_ref ary n = Ok (xs ! n)" using sa_ref_holds [OF assms(1)] by simp
  have t: "take (Suc n) xs = take n xs @ [xs ! n]" using Suc.prems by (simp add: take_Suc_conv_app_nth)
  have "find_rindex c (take (Suc n) xs) = (if xs ! n = c then Some n else find_rindex c (take n xs))"
    using Suc.prems unfolding find_rindex_def t by (simp add: option.map_comp comp_def min_def)
  then show ?case using r Suc by (simp add: index_int_def)
qed (simp add: index_int_def find_rindex_def)

definition remove_last :: "cell \<Rightarrow> cell list \<Rightarrow> cell list" where
  "remove_last c xs = rev (remove1 c (rev xs))"

lemma find_rindex_remove:
  assumes "find_rindex c xs = Some i"
  shows "i < length xs \<and> take i xs @ drop (Suc i) xs = remove_last c xs"
proof -
  obtain j where j: "find_index c (rev xs) = Some j" "i = length xs - Suc j" using assms by (auto simp: find_rindex_def)
  note f = find_index_remove [OF j(1)]
  have "rev (remove1 c (rev xs)) = rev (drop (Suc j) (rev xs)) @ rev (take j (rev xs))" using f by (metis rev_append)
  also have "\<dots> = take (length xs - Suc j) xs @ drop (length xs - j) xs" by (simp add: rev_drop rev_take)
  finally have r: "rev (remove1 c (rev xs)) = take (length xs - Suc j) xs @ drop (length xs - j) xs" .
  have "j < length xs" using f by simp
  then have "length xs - Suc j < length xs" "Suc (length xs - Suc j) = length xs - j" by linarith+
  then show ?thesis using r j(2) by (simp add: remove_last_def)
qed

lemma delete_at_holds:
  assumes "sa_holds ary xs" and "i < length xs"
  shows "\<exists>ary'. delete_at ary i = Ok (Some ary') \<and> sa_holds ary' (take i xs @ drop (Suc i) xs) \<and> sa_incr ary' = sa_incr ary"
proof -
  let ?ys = "take i xs @ drop (Suc i) xs" and ?k = "length xs - 1"
  have x: "xs \<noteq> []" using assms(2) by auto
  obtain b where b: "sa_data ary = Some b" "take (length xs) b = map Some xs" "length xs \<le> length b" using sa_buffer [OF assms(1) x] by blast
  have l: "sa_length ary = length xs" "length ?ys = ?k" using assms by (simp_all add: sa_holds_def)
  show ?thesis
  proof (cases "?k = 0")
    case True
    then have "?ys = []" using l(2) by (metis length_0_conv)
    then have "delete_at ary i = Ok (Some (ary\<lparr>sa_data := None, sa_length := 0\<rparr>))" using True l(1) by (simp add: delete_at_def Let_def simple_array_clear_def)
    then show ?thesis using sa_cleared [OF assms(1)] \<open>?ys = []\<close> by (simp only: simple_array.simps) simp
  next
    case False
    then have y: "?ys \<noteq> []" "length xs = Suc (length ?ys)" using l(2) x by auto
    have e: "b = map Some xs @ drop (length xs) b" using b(2) by (metis append_take_drop_id)
    define b' where "b' = (if i < ?k then take i b @ take (?k - i) (drop (Suc i) b) @ drop ?k b else b)"
    have "length b' = length b" using assms(2) b(3) by (auto simp: b'_def)
    moreover have "take (length ?ys) b' = map Some ?ys"
    proof (cases "i < ?k")
      case True
      have "take i b = map Some (take i xs)" using assms(2) by (subst e) (simp add: take_map)
      moreover have "take (?k - i) (drop (Suc i) b) = map Some (drop (Suc i) xs)"
        using assms(2) by (subst e) (simp add: drop_map)
      ultimately show ?thesis using True l(2) assms(2) by (simp add: b'_def)
    next
      case False
      then have i: "i = ?k" using assms(2) by simp
      have "take ?k b = map Some (take ?k xs)" using b(3) by (metis b(2) diff_le_self min.absorb1 take_map take_take)
      then show ?thesis using i x l(2) by (simp add: b'_def)
    qed
    ultimately have "sa_holds (ary\<lparr>sa_data := Some b', sa_length := length ?ys\<rparr>) ?ys" by (intro sa_less [OF assms(1) b(1) y(2,1)])
    moreover have "delete_at ary i = Ok (Some (ary\<lparr>sa_data := Some b', sa_length := length ?ys\<rparr>))"
    proof (cases "i < ?k")
      case True
      have "memmove (int i) (int i + 1) (int (?k - i)) b = Ok b'"
      proof -
        have "nat (int i + 1) = Suc i" "nat (int (?k - i)) = ?k - i" "nat (int i + int (?k - i)) = ?k" "int i + 1 + int (?k - i) \<le> int (length b)"
          using True b(3) by linarith+
        then show ?thesis using True b(3) unfolding memmove_def b'_def by simp
      qed
      then show ?thesis using True False l b(1) by (simp add: delete_at_def Let_def)
    next
      case i: False
      have "ary\<lparr>sa_data := Some b, sa_length := ?k\<rparr> = ary\<lparr>sa_length := ?k\<rparr>" using b(1) by simp
      then show ?thesis using i False l unfolding delete_at_def b'_def by (simp add: Let_def)
    qed
    ultimately show ?thesis by (intro exI [of _ "ary\<lparr>sa_data := Some b', sa_length := length ?ys\<rparr>"]) simp
  qed
qed

lemma simple_array_delete_holds:
  assumes "sa_holds ary xs"
  shows "\<exists>ary'. simple_array_delete (Some ary) c = Ok (if c \<in> set xs then c else 0, Some ary') \<and> sa_holds ary' (remove1 c xs) \<and> sa_incr ary' = sa_incr ary"
proof (cases "find_index c xs")
  case None
  then have c: "c \<notin> set xs" by (simp add: find_index_none)
  show ?thesis using simple_array_index_holds [OF assms, of c] None c assms by (simp add: simple_array_delete_def index_int_def remove1_idem)
next
  case (Some i)
  note f = find_index_remove [OF Some]
  then have c: "c \<in> set xs" using nth_mem by blast
  obtain ary' where "delete_at ary i = Ok (Some ary')" "sa_holds ary' (remove1 c xs)" "sa_incr ary' = sa_incr ary"
    using delete_at_holds [OF assms, of i] f by auto
  then show ?thesis using simple_array_index_holds [OF assms, of c] Some c by (simp add: simple_array_delete_def index_int_def)
qed

lemma simple_array_rindex_holds: "sa_holds ary xs \<Longrightarrow> simple_array_rindex (Some ary) c = Ok (index_int (find_rindex c xs))"
  using sa_rindex_loop_holds [of ary xs "length xs" c] by (simp add: simple_array_rindex_def sa_holds_def)

lemma find_rindex_none: "find_rindex c xs = None \<longleftrightarrow> c \<notin> set xs"
  by (simp add: find_rindex_def find_index_none)

lemma simple_array_rdelete_holds:
  assumes "sa_holds ary xs"
  shows "\<exists>ary'. simple_array_rdelete (Some ary) c = Ok (if c \<in> set xs then c else 0, Some ary') \<and> sa_holds ary' (remove_last c xs) \<and> sa_incr ary' = sa_incr ary"
proof (cases "find_rindex c xs")
  case None
  then have c: "c \<notin> set xs" by (simp add: find_rindex_none)
  then have "remove_last c xs = xs" by (simp add: remove_last_def remove1_idem)
  then show ?thesis using simple_array_rindex_holds [OF assms, of c] None c assms by (simp add: simple_array_rdelete_def index_int_def)
next
  case (Some i)
  note f = find_rindex_remove [OF Some]
  have c: "c \<in> set xs" using Some find_rindex_none by force
  obtain ary' where "delete_at ary i = Ok (Some ary')" "sa_holds ary' (remove_last c xs)" "sa_incr ary' = sa_incr ary"
    using delete_at_holds [OF assms, of i] f by auto
  then show ?thesis using simple_array_rindex_holds [OF assms, of c] Some c by (simp add: simple_array_rdelete_def index_int_def)
qed

lemma sa_elements_holds:
  assumes "sa_holds ary xs" and "i + n = length xs"
  shows "sa_elements ary i n = Ok (drop i xs)"
  using assms(2)
proof (induction n arbitrary: i)
  case (Suc n)
  then show ?case using sa_ref_holds [OF assms(1), of i] by (simp add: Cons_nth_drop_Suc)
qed simp

lemma simple_array_to_array_holds: "sa_holds ary xs \<Longrightarrow> simple_array_to_array (Some ary) = Ok xs"
  using sa_elements_holds [of ary xs 0 "length xs"] by (simp add: simple_array_to_array_def sa_holds_def)

lemma push_reversed_holds:
  assumes "sa_holds ary xs" and "sa_holds new ys" and "n \<le> length xs"
  shows "\<exists>new'. push_reversed ary n (Some new) = Ok (Some new') \<and> sa_holds new' (ys @ rev (take n xs)) \<and> sa_incr new' = sa_incr new"
  using assms(2,3)
proof (induction n arbitrary: new ys)
  case (Suc n)
  obtain new1 where "simple_array_push (Some new) (xs ! n) = Ok (Some new1)" "sa_holds new1 (ys @ [xs ! n])" "sa_incr new1 = sa_incr new"
    using simple_array_push_holds [OF Suc.prems(1)] by blast
  then show ?case using Suc.IH [of new1 "ys @ [xs ! n]"] Suc.prems(2) sa_ref_holds [OF assms(1), of n] by (auto simp: take_Suc_conv_app_nth)
qed simp

lemma simple_array_reverse_holds:
  assumes "sa_holds ary xs" and "xs \<noteq> []"
  shows "\<exists>new. simple_array_reverse (Some ary) = Ok (Some new) \<and> sa_holds new (rev xs)"
  using push_reversed_holds [OF assms(1) make_simple_array_holds, of "length xs" "int (sa_incr ary)"] assms
  by (auto simp: simple_array_reverse_def sa_holds_def)

lemma sa_equal_loop_holds:
  assumes "sa_holds a xs" and "sa_holds b ys" and "length xs = length ys" and "i + n = length xs"
  shows "sa_equal_loop eq a b i n = Ok (list_all2 eq (drop i xs) (drop i ys))"
  using assms(4)
proof (induction n arbitrary: i)
  case (Suc n)
  then have "drop i xs = xs ! i # drop (Suc i) xs" "drop i ys = ys ! i # drop (Suc i) ys" using assms(3) by (simp_all add: Cons_nth_drop_Suc)
  then show ?case using Suc sa_ref_holds [OF assms(1), of i] sa_ref_holds [OF assms(2), of i] assms(3) by simp
qed (use assms(3) in simp)

lemma simple_array_equal_holds:
  assumes "sa_holds a xs" and "sa_holds b ys"
  shows "simple_array_equal_p eq (Some a) (Some b) = Ok (sa_incr a = sa_incr b \<and> list_all2 eq xs ys)"
  using sa_equal_loop_holds [OF assms, of 0 "length xs" eq] assms list_all2_lengthD [of eq xs ys]
  by (auto simp: simple_array_equal_p_def sa_holds_def)

section \<open>Sequences of operations\<close>

text \<open>The interface of a list of procedures: what adding and removing do to the list that the structure holds.\<close>

locale proc_list =
  fixes holds :: "'s \<Rightarrow> 'a list \<Rightarrow> bool" and add :: "'s \<Rightarrow> 'a \<Rightarrow> ('e, 's) outcome" and remove :: "'s \<Rightarrow> 'a \<Rightarrow> ('e, 's) outcome"
    and items :: "'s \<Rightarrow> ('e, 'a list) outcome"
  assumes add_law: "holds s xs \<Longrightarrow> \<exists>s'. add s x = Ok s' \<and> holds s' (xs @ [x])"
    and remove_law: "holds s xs \<Longrightarrow> \<exists>s'. remove s x = Ok s' \<and> holds s' (remove1 x xs)"
    and items_law: "holds s xs \<Longrightarrow> items s = Ok xs"
begin

text \<open>A sequence of additions (\<open>True\<close>) and removals.\<close>

fun changes :: "'s \<Rightarrow> (bool \<times> 'a) list \<Rightarrow> ('e, 's) outcome" where
  "changes s [] = Ok s"
| "changes s ((b, x) # cs) = bind_outcome (if b then add s x else remove s x) (\<lambda>s. changes s cs)"

fun changed :: "'a list \<Rightarrow> (bool \<times> 'a) list \<Rightarrow> 'a list" where
  "changed xs [] = xs"
| "changed xs ((b, x) # cs) = changed (if b then xs @ [x] else remove1 x xs) cs"

lemma changes_items:
  assumes "holds s xs"
  shows "\<exists>s'. changes s cs = Ok s' \<and> holds s' (changed xs cs) \<and> items s' = Ok (changed xs cs)"
  using assms
proof (induction s cs arbitrary: xs rule: changes.induct)
  case (2 s b x cs)
  obtain s' where "(if b then add s x else remove s x) = Ok s'" "holds s' (if b then xs @ [x] else remove1 x xs)"
    using add_law [OF 2(2)] remove_law [OF 2(2)] by (cases b) auto
  then show ?case using 2(1) by auto
qed (auto simp: items_law)

lemma add_remove:
  assumes "holds s xs" and "x \<notin> set xs"
  shows "\<exists>s' s''. add s x = Ok s' \<and> remove s' x = Ok s'' \<and> items s'' = Ok xs"
proof -
  obtain s' where s': "add s x = Ok s'" "holds s' (xs @ [x])" using add_law [OF assms(1)] by blast
  obtain s'' where "remove s' x = Ok s''" "holds s'' (remove1 x (xs @ [x]))" using remove_law [OF s'(2)] by blast
  then show ?thesis using s' items_law assms(2) by (auto simp: remove1_append)
qed

end

definition sa_is :: "simple_array option \<Rightarrow> cell list \<Rightarrow> bool" where
  "sa_is ary xs = (\<exists>a. ary = Some a \<and> sa_holds a xs)"

definition sa_remove :: "simple_array option \<Rightarrow> cell \<Rightarrow> simple_array option array_result" where
  "sa_remove ary c = bind_outcome (simple_array_delete ary c) (\<lambda>(_, ary). Ok ary)"

interpretation sa: proc_list sa_is simple_array_push sa_remove simple_array_to_array
proof
  fix s xs x
  assume "sa_is s xs"
  then obtain a where a: "s = Some a" "sa_holds a xs" by (auto simp: sa_is_def)
  show "\<exists>s'. simple_array_push s x = Ok s' \<and> sa_is s' (xs @ [x])" using simple_array_push_holds [OF a(2), of x] a(1) by (auto simp: sa_is_def)
  show "\<exists>s'. sa_remove s x = Ok s' \<and> sa_is s' (remove1 x xs)"
    using simple_array_delete_holds [OF a(2), of x] a(1) by (auto simp: sa_is_def sa_remove_def)
  show "simple_array_to_array s = Ok xs" using simple_array_to_array_holds [OF a(2)] a(1) by simp
qed

text \<open>All operations that change a simple array, and what they return.\<close>

datatype sa_op = SaPush cell | SaPop | SaDelete cell | SaRDelete cell | SaSetAt int cell | SaClear

fun sa_step :: "simple_array option \<Rightarrow> sa_op \<Rightarrow> (cell \<times> simple_array option) array_result" where
  "sa_step ary (SaPush c) = bind_outcome (simple_array_push ary c) (\<lambda>ary. Ok (0, ary))"
| "sa_step ary SaPop = simple_array_pop ary"
| "sa_step ary (SaDelete c) = simple_array_delete ary c"
| "sa_step ary (SaRDelete c) = simple_array_rdelete ary c"
| "sa_step ary (SaSetAt i c) = bind_outcome (simple_array_set ary i c) (\<lambda>ary. Ok (0, ary))"
| "sa_step ary SaClear = Ok (0, simple_array_clear ary)"

fun sa_run :: "simple_array option \<Rightarrow> sa_op list \<Rightarrow> (cell list \<times> simple_array option) array_result" where
  "sa_run ary [] = Ok ([], ary)"
| "sa_run ary (p # ps) = bind_outcome (sa_step ary p) (\<lambda>(c, ary). bind_outcome (sa_run ary ps) (\<lambda>(cs, ary). Ok (c # cs, ary)))"

fun sa_list_step :: "cell list \<Rightarrow> sa_op \<Rightarrow> cell \<times> cell list" where
  "sa_list_step xs (SaPush c) = (0, xs @ [c])"
| "sa_list_step xs SaPop = (if xs = [] then 0 else last xs, butlast xs)"
| "sa_list_step xs (SaDelete c) = (if c \<in> set xs then c else 0, remove1 c xs)"
| "sa_list_step xs (SaRDelete c) = (if c \<in> set xs then c else 0, remove_last c xs)"
| "sa_list_step xs (SaSetAt i c) = (0, if 0 \<le> i then xs[nat i := c] else xs)"
| "sa_list_step xs SaClear = (0, [])"

fun sa_list_run :: "cell list \<Rightarrow> sa_op list \<Rightarrow> cell list \<times> cell list" where
  "sa_list_run xs [] = ([], xs)"
| "sa_list_run xs (p # ps) = (let (c, xs) = sa_list_step xs p; (cs, xs) = sa_list_run xs ps in (c # cs, xs))"

lemma sa_step_holds:
  assumes "sa_holds ary xs"
  shows "\<exists>ary'. sa_step (Some ary) p = Ok (fst (sa_list_step xs p), Some ary') \<and> sa_holds ary' (snd (sa_list_step xs p))"
proof (cases p)
  case (SaPush c)
  then show ?thesis using simple_array_push_holds [OF assms, of c] by auto
next
  case (SaSetAt i c)
  then show ?thesis using simple_array_set_holds [OF assms, of i c] by auto
next
  case SaPop
  then show ?thesis using simple_array_pop_holds [OF assms] by auto
next
  case (SaDelete c)
  then show ?thesis using simple_array_delete_holds [OF assms, of c] by auto
next
  case (SaRDelete c)
  then show ?thesis using simple_array_rdelete_holds [OF assms, of c] by auto
next
  case SaClear
  then show ?thesis using sa_cleared [OF assms] by auto
qed

lemma sa_run_holds:
  assumes "sa_holds ary xs"
  shows "\<exists>ary'. sa_run (Some ary) ps = Ok (fst (sa_list_run xs ps), Some ary') \<and> sa_holds ary' (snd (sa_list_run xs ps))"
  using assms
proof (induction ps arbitrary: ary xs)
  case (Cons p ps)
  obtain ary1 where 1: "sa_step (Some ary) p = Ok (fst (sa_list_step xs p), Some ary1)" "sa_holds ary1 (snd (sa_list_step xs p))"
    using sa_step_holds [OF Cons.prems] by blast
  obtain ary2 where "sa_run (Some ary1) ps = Ok (fst (sa_list_run (snd (sa_list_step xs p)) ps), Some ary2)"
      "sa_holds ary2 (snd (sa_list_run (snd (sa_list_step xs p)) ps))"
    using Cons.IH [OF 1(2)] by blast
  then show ?case using 1(1) by (simp add: split_beta Let_def)
qed simp

end
