(* ===== verification/Fth_Hook.thy ===== *)
theory Fth_Hook
  imports Fth_Proc_Laws Fth_Simple
begin

section \<open>Hooks\<close>

text \<open>
  Hooks (\<open>src/hook.c\<close>): a name, an arity and the procedures in a simple array. The state is the machine with the hooks by their objects; a procedure that is run
  may change both. Running a procedure is a parameter (\<open>hk_apply\<close>), which \<open>vm_apply\<close> makes of \<open>fth_proc_apply\<close>; so are the making of arrays and instances and the
  characters of a string. The documentation of hooks is left out.
\<close>

record FHook =
  hk_name :: string
  hk_data :: "simple_array option"
  hk_req :: int
  hk_opt :: int
  hk_rest :: int

record hook_state =
  hs_vm :: ficlVm
  hs_hooks :: "cell \<rightharpoonup> FHook"
  hs_number :: nat

type_synonym 'a hk_result = "(int \<times> hook_state, 'a) outcome"
type_synonym apply_fun = "cell \<Rightarrow> cell \<Rightarrow> hook_state \<Rightarrow> (cell \<times> hook_state) hk_result option"

record hook_env =
  fth_string_ref :: "cell \<Rightarrow> string option"
  fth_new_instance :: "hook_state \<Rightarrow> addr"
  hk_apply :: apply_fun
  hook_name_text :: "nat \<Rightarrow> string"

definition on_vm :: "hook_state \<Rightarrow> ('a \<times> ficlVm) vm_result \<Rightarrow> ('a \<times> hook_state) hk_result" where
  "on_vm st r = (case r of Ok (x, vm) \<Rightarrow> Ok (x, st\<lparr>hs_vm := vm\<rparr>) | Throw (e, vm) \<Rightarrow> Throw (e, st\<lparr>hs_vm := vm\<rparr>) | Fault \<Rightarrow> Fault)"

definition hk_throw :: "hook_state \<Rightarrow> 'a hk_result" where
  "hk_throw st = (case fth_throw (hs_vm st) :: unit vm_result of Throw (e, vm) \<Rightarrow> Throw (e, st\<lparr>hs_vm := vm\<rparr>) | _ \<Rightarrow> Fault)"

text \<open>What an operation on the procedures of a hook gives; none of these raises an exception.\<close>

definition on_data :: "'a array_result \<Rightarrow> ('a \<Rightarrow> 'b hk_result) \<Rightarrow> 'b hk_result" where
  "on_data r k = (case r of Ok x \<Rightarrow> k x | _ \<Rightarrow> Fault)"

definition run_then :: "'a hk_result \<Rightarrow> ('a \<Rightarrow> 'b hk_result option) \<Rightarrow> 'b hk_result option" where
  "run_then r k = (case r of Ok x \<Rightarrow> k x | Throw e \<Rightarrow> Some (Throw e) | Fault \<Rightarrow> Some Fault)"

definition set_data :: "cell \<Rightarrow> FHook \<Rightarrow> simple_array option \<Rightarrow> hook_state \<Rightarrow> hook_state" where
  "set_data hook hk d st = st\<lparr>hs_hooks := (hs_hooks st)(hook \<mapsto> hk\<lparr>hk_data := d\<rparr>)\<rparr>"

definition FTH_HOOK_P :: "hook_state \<Rightarrow> cell \<Rightarrow> bool" where "FTH_HOOK_P st obj = (hs_hooks st obj \<noteq> None)"

text \<open>\<open>FTH_ASSERT_ARGS(FTH_HOOK_P(hook), ...)\<close>\<close>

definition with_hook :: "hook_state \<Rightarrow> cell \<Rightarrow> (FHook \<Rightarrow> 'a hk_result) \<Rightarrow> 'a hk_result" where
  "with_hook st hook k = (case hs_hooks st hook of None \<Rightarrow> hk_throw st | Some hk \<Rightarrow> k hk)"

definition FTH_HOOK_LENGTH :: "FHook \<Rightarrow> int" where "FTH_HOOK_LENGTH hk = simple_array_length (hk_data hk)"

subsection \<open>Making hooks\<close>

definition make_hook :: "hook_env \<Rightarrow> hook_state \<Rightarrow> string \<Rightarrow> int \<Rightarrow> int \<Rightarrow> int \<Rightarrow> (cell \<times> hook_state) hk_result" where
  "make_hook H st name req opt rest =
     (let hk = \<lparr>hk_name = name, hk_data = Some (make_simple_array 8), hk_req = req, hk_opt = opt, hk_rest = rest\<rparr>;
          hook = fth_new_instance H st;
          st = st\<lparr>hs_hooks := (hs_hooks st)(hook \<mapsto> hk)\<rparr>
      in case ficlDictionaryAppendConstant (vm_dict (hs_vm st)) name (sint hook) of
           Ok (_, dict) \<Rightarrow> Ok (hook, st\<lparr>hs_vm := (hs_vm st)\<lparr>vm_dict := dict\<rparr>\<rparr>)
         | Throw e \<Rightarrow> Throw (e, st)
         | Fault \<Rightarrow> Fault)"

definition fth_make_hook_with_arity :: "hook_env \<Rightarrow> hook_state \<Rightarrow> string \<Rightarrow> int \<Rightarrow> int \<Rightarrow> int \<Rightarrow> (cell \<times> hook_state) hk_result" where
  "fth_make_hook_with_arity H st name req opt rest = make_hook H st name req opt rest"

definition fth_make_hook :: "hook_env \<Rightarrow> hook_state \<Rightarrow> string \<Rightarrow> int \<Rightarrow> (cell \<times> hook_state) hk_result" where
  "fth_make_hook H st name arity = make_hook H st name arity 0 0"

definition fth_make_simple_hook :: "hook_env \<Rightarrow> hook_state \<Rightarrow> int \<Rightarrow> (cell \<times> hook_state) hk_result" where
  "fth_make_simple_hook H st arity = make_hook H (st\<lparr>hs_number := hs_number st + 1\<rparr>) (hook_name_text H (hs_number st)) arity 0 0"

text \<open>The arity that \<open>make-hook\<close> and \<open>create-hook\<close> take, an integer or an array of three elements.\<close>

definition hook_arity_of :: "fth_env \<Rightarrow> proc_env \<Rightarrow> cell \<Rightarrow> int \<times> int \<times> int" where
  "hook_arity_of E P arity = (case array_items P arity of
       Some [r, q, t] \<Rightarrow> (c_int (FIX_TO_INT r), c_int (FIX_TO_INT q), if t \<noteq> FTH_FALSE E then 1 else 0)
     | _ \<Rightarrow> (c_int (FIX_TO_INT arity), 0, 0))"

definition ficl_make_hook :: "fth_env \<Rightarrow> proc_env \<Rightarrow> hook_env \<Rightarrow> hook_state \<Rightarrow> hook_state hk_result" where
  "ficl_make_hook E P H st =
     bind_outcome (on_vm st (FTH_STACK_CHECK (hs_vm st) 1 (pop_ficl_cell E P (hs_vm st)))) (\<lambda>(arity, st).
       let (req, opt, rest) = hook_arity_of E P arity
       in bind_outcome (make_hook H (st\<lparr>hs_number := hs_number st + 1\<rparr>) (hook_name_text H (hs_number st)) req opt rest) (\<lambda>(hook, st).
          bind_outcome (on_vm st (bind_outcome (ficlVmPush (hs_vm st) hook) (\<lambda>vm. Ok ((), vm)))) (\<lambda>(_, st). Ok st)))"

subsection \<open>The procedures of a hook\<close>

definition fth_hook_to_array :: "hook_state \<Rightarrow> cell \<Rightarrow> cell list hk_result" where
  "fth_hook_to_array st hook = with_hook st hook (\<lambda>hk. on_data (simple_array_to_array (hk_data hk)) Ok)"

definition fth_hook_arity :: "hook_state \<Rightarrow> cell \<Rightarrow> int" where
  "fth_hook_arity st hook = (case hs_hooks st hook of Some hk \<Rightarrow> hk_req hk | None \<Rightarrow> 0)"

definition hk_equal_p :: "(cell \<Rightarrow> cell \<Rightarrow> bool) \<Rightarrow> FHook \<Rightarrow> FHook \<Rightarrow> bool hk_result" where
  "hk_equal_p eq self obj =
     (if hk_req self = hk_req obj \<and> hk_opt self = hk_opt obj \<and> hk_rest self = hk_rest obj
      then on_data (simple_array_equal_p eq (hk_data self) (hk_data obj)) Ok else Ok False)"

definition fth_hook_equal_p :: "(cell \<Rightarrow> cell \<Rightarrow> bool) \<Rightarrow> hook_state \<Rightarrow> cell \<Rightarrow> cell \<Rightarrow> bool hk_result" where
  "fth_hook_equal_p eq st obj1 obj2 = (case (hs_hooks st obj1, hs_hooks st obj2) of
       (Some hk1, Some hk2) \<Rightarrow> hk_equal_p eq hk1 hk2 | _ \<Rightarrow> Ok False)"

definition fth_add_hook :: "fth_env \<Rightarrow> hook_state \<Rightarrow> cell \<Rightarrow> cell \<Rightarrow> hook_state hk_result" where
  "fth_add_hook E st hook proc_or_xt =
     with_hook st hook (\<lambda>hk.
     bind_outcome (on_vm st (proc_from_proc_or_xt E (hs_vm st) proc_or_xt (hk_req hk) (hk_opt hk) (hk_rest hk))) (\<lambda>(proc, st).
       if \<not> FTH_PROC_P (hs_vm st) proc then hk_throw st
       else case FICL_WORD_REF (hs_vm st) proc of None \<Rightarrow> Fault
         | Some w \<Rightarrow>
             if hk_req hk = w_req w \<and> hk_opt hk = w_opt w \<and> hk_rest hk = w_rest w
             then on_data (simple_array_push (hk_data hk) proc) (\<lambda>d. Ok (set_data hook hk d st))
             else hk_throw st))"

text \<open>A procedure, or the word with the given name; \<open>None\<close> is a name that is no string or not found.\<close>

definition proc_named :: "hook_env \<Rightarrow> hook_state \<Rightarrow> cell \<Rightarrow> cell option hk_result option" where
  "proc_named H st proc_or_name =
     (if FICL_WORD_P (hs_vm st) proc_or_name then Some (Ok (Some proc_or_name))
      else case fth_string_ref H proc_or_name of None \<Rightarrow> Some (Ok None)
        | Some name \<Rightarrow> map_option (\<lambda>r. case r of Ok word \<Rightarrow> Ok (if word = NULL then None else Some word)
              | Throw e \<Rightarrow> Throw (e, st) | Fault \<Rightarrow> Fault) (ficlDictionaryLookup (vm_dict (hs_vm st)) name))"

definition fth_remove_hook :: "fth_env \<Rightarrow> hook_env \<Rightarrow> hook_state \<Rightarrow> cell \<Rightarrow> cell \<Rightarrow> (cell \<times> hook_state) hk_result option" where
  "fth_remove_hook E H st hook proc_or_name =
     (case hs_hooks st hook of None \<Rightarrow> Some (hk_throw st)
      | Some hk \<Rightarrow> map_option (\<lambda>r. bind_outcome r (\<lambda>word. case word of None \<Rightarrow> Ok (FTH_FALSE E, st)
            | Some word \<Rightarrow> on_data (simple_array_delete (hk_data hk) word) (\<lambda>(c, d). Ok (c, set_data hook hk d st)))) (proc_named H st proc_or_name))"

definition fth_hook_member_p :: "hook_env \<Rightarrow> hook_state \<Rightarrow> cell \<Rightarrow> cell \<Rightarrow> bool hk_result option" where
  "fth_hook_member_p H st hook proc_or_name =
     (case hs_hooks st hook of None \<Rightarrow> Some (hk_throw st)
      | Some hk \<Rightarrow> map_option (\<lambda>r. bind_outcome r (\<lambda>word. case word of None \<Rightarrow> Ok False
            | Some word \<Rightarrow> on_data (simple_array_member_p (hk_data hk) word) Ok)) (proc_named H st proc_or_name))"

definition fth_hook_empty_p :: "hook_state \<Rightarrow> cell \<Rightarrow> bool" where
  "fth_hook_empty_p st hook = (case hs_hooks st hook of Some hk \<Rightarrow> FTH_HOOK_LENGTH hk = 0 | None \<Rightarrow> True)"

definition fth_hook_clear :: "hook_state \<Rightarrow> cell \<Rightarrow> hook_state hk_result" where
  "fth_hook_clear st hook = with_hook st hook (\<lambda>hk. Ok (set_data hook hk (simple_array_clear (hk_data hk)) st))"

subsection \<open>Running a hook\<close>

text \<open>
  The procedure at an index as the loops fetch it, from the hook as it is by then, and its value. The loops of \<open>fth_run_hook_again\<close> and \<open>fth_run_hook_bool\<close> also look at the length of the
  hook anew each time, so that they run for ever when a procedure goes on adding others to the hook.
\<close>

definition hook_proc :: "hook_state \<Rightarrow> cell \<Rightarrow> int \<Rightarrow> cell hk_result" where
  "hook_proc st hook i = (case hs_hooks st hook of None \<Rightarrow> Fault | Some hk \<Rightarrow> on_data (simple_array_ref (hk_data hk) i) Ok)"

definition run_proc_at :: "hook_env \<Rightarrow> hook_state \<Rightarrow> cell \<Rightarrow> int \<Rightarrow> cell \<Rightarrow> (cell \<times> hook_state) hk_result option" where
  "run_proc_at H st hook i args = run_then (hook_proc st hook i) (\<lambda>prc. hk_apply H prc args st)"

fun hook_apply_loop :: "hook_env \<Rightarrow> cell \<Rightarrow> cell \<Rightarrow> nat \<Rightarrow> int \<Rightarrow> hook_state \<Rightarrow> (cell list \<times> hook_state) hk_result option" where
  "hook_apply_loop H hook args 0 i st = Some (Ok ([], st))"
| "hook_apply_loop H hook args (Suc n) i st =
     Option.bind (run_proc_at H st hook i args) (\<lambda>r. run_then r (\<lambda>(res, st).
     Option.bind (hook_apply_loop H hook args n (i + 1) st) (\<lambda>r. run_then r (\<lambda>(ret, st). Some (Ok (res # ret, st))))))"

definition fth_hook_apply :: "proc_env \<Rightarrow> hook_env \<Rightarrow> hook_state \<Rightarrow> cell \<Rightarrow> cell \<Rightarrow> (cell \<times> hook_state) hk_result option" where
  "fth_hook_apply P H st hook args =
     (case hs_hooks st hook of None \<Rightarrow> Some (hk_throw st)
      | Some hk \<Rightarrow> Option.bind (hook_apply_loop H hook args (nat (FTH_HOOK_LENGTH hk)) 0 st) (\<lambda>r.
          run_then r (\<lambda>(ret, st). Some (Ok (array_of_cells P ret, st)))))"

definition with_arity :: "hook_state \<Rightarrow> cell \<Rightarrow> cell list \<Rightarrow> 'a hk_result option \<Rightarrow> 'a hk_result option" where
  "with_arity st hook args k = (case hs_hooks st hook of None \<Rightarrow> Some (hk_throw st)
     | Some hk \<Rightarrow> if hk_req hk > int (length args) then Some (hk_throw st) else k)"

definition fth_run_hook :: "proc_env \<Rightarrow> hook_env \<Rightarrow> hook_state \<Rightarrow> cell \<Rightarrow> cell list \<Rightarrow> (cell \<times> hook_state) hk_result option" where
  "fth_run_hook P H st hook args = with_arity st hook args (fth_hook_apply P H st hook (array_of_cells P args))"

partial_function (option) run_again_loop ::
    "proc_env \<Rightarrow> hook_env \<Rightarrow> cell \<Rightarrow> cell list \<Rightarrow> int \<Rightarrow> hook_state \<Rightarrow> (cell list \<times> hook_state) hk_result option" where
  "run_again_loop P H hook args i st =
     (case hs_hooks st hook of None \<Rightarrow> Some Fault
      | Some hk \<Rightarrow>
          if i < FTH_HOOK_LENGTH hk
          then Option.bind (run_proc_at H st hook i (array_of_cells P args)) (\<lambda>r. case r of
                   Ok (res, st) \<Rightarrow> run_again_loop P H hook (args[0 := res]) (i + 1) st
                 | Throw e \<Rightarrow> Some (Throw e) | Fault \<Rightarrow> Some Fault)
          else Some (Ok (args, st)))"

definition fth_run_hook_again :: "proc_env \<Rightarrow> hook_env \<Rightarrow> hook_state \<Rightarrow> cell \<Rightarrow> cell list \<Rightarrow> (cell \<times> hook_state) hk_result option" where
  "fth_run_hook_again P H st hook args = with_arity st hook args
     (Option.bind (run_again_loop P H hook args 0 st) (\<lambda>r. run_then r (\<lambda>(args, st).
        Some (if args = [] then hk_throw st else Ok (hd args, st)))))"

partial_function (option) run_bool_loop ::
    "fth_env \<Rightarrow> hook_env \<Rightarrow> cell \<Rightarrow> cell \<Rightarrow> cell \<Rightarrow> int \<Rightarrow> hook_state \<Rightarrow> (cell \<times> hook_state) hk_result option" where
  "run_bool_loop E H hook args ret i st =
     (case hs_hooks st hook of None \<Rightarrow> Some Fault
      | Some hk \<Rightarrow>
          if i < FTH_HOOK_LENGTH hk
          then Option.bind (run_proc_at H st hook i args) (\<lambda>r. case r of
                   Ok (res, st) \<Rightarrow> run_bool_loop E H hook args (if res = FTH_FALSE E then FTH_FALSE E else ret) (i + 1) st
                 | Throw e \<Rightarrow> Some (Throw e) | Fault \<Rightarrow> Some Fault)
          else Some (Ok (ret, st)))"

definition fth_run_hook_bool :: "fth_env \<Rightarrow> proc_env \<Rightarrow> hook_env \<Rightarrow> hook_state \<Rightarrow> cell \<Rightarrow> cell list \<Rightarrow> (cell \<times> hook_state) hk_result option" where
  "fth_run_hook_bool E P H st hook args = with_arity st hook args
     (run_bool_loop E H hook (array_of_cells P args) (FTH_TRUE E) 0 st)"

text \<open>\<open>run-hook\<close>: what is no array is replaced by an empty array.\<close>

definition ficl_hook_apply :: "fth_env \<Rightarrow> proc_env \<Rightarrow> hook_env \<Rightarrow> hook_state \<Rightarrow> hook_state hk_result option" where
  "ficl_hook_apply E P H st =
     run_then (on_vm st (FTH_STACK_CHECK (hs_vm st) 2 (pop_ficl_cell E P (hs_vm st)))) (\<lambda>(args, st).
     run_then (on_vm st (ficlVmPop (hs_vm st))) (\<lambda>(hook, st).
       let args = (if array_items P args = None then array_of_cells P [] else args)
       in Option.bind (fth_hook_apply P H st hook args) (\<lambda>r. run_then r (\<lambda>(res, st).
            Some (bind_outcome (on_vm st (bind_outcome (ficlVmPush (hs_vm st) res) (\<lambda>vm. Ok ((), vm)))) (\<lambda>(_, st). Ok st))))))"

text \<open>The machine as it runs a procedure.\<close>

definition vm_apply :: "fth_env \<Rightarrow> proc_env \<Rightarrow> addr \<Rightarrow> bool \<Rightarrow> apply_fun" where
  "vm_apply E P exitInnerWord nested prc args st =
     map_option (on_vm st) (fth_proc_apply E P exitInnerWord nested (hs_vm st) prc args)"

end
