(* ===== verification/Fth_Hook_Laws.thy ===== *)
theory Fth_Hook_Laws
  imports Fth_Hook
begin

text \<open>
  What running a hook does when its procedures leave the hook as it is, and what adding and removing a procedure do to the list of procedures.
\<close>

definition hook_procs :: "hook_state \<Rightarrow> cell \<Rightarrow> cell list \<Rightarrow> bool" where
  "hook_procs st hook ps = (\<exists>hk. hs_hooks st hook = Some hk \<and> sa_is (hk_data hk) ps)"

text \<open>The procedures run one after the other with the same arguments, and their values.\<close>

inductive runs :: "hook_env \<Rightarrow> FHook \<Rightarrow> cell \<Rightarrow> cell \<Rightarrow> hook_state \<Rightarrow> cell list \<Rightarrow> cell list \<Rightarrow> hook_state \<Rightarrow> bool"
  for H hk hook args where
  runs_none: "hs_hooks st hook = Some hk \<Longrightarrow> runs H hk hook args st [] [] st"
| runs_next: "hs_hooks st hook = Some hk \<Longrightarrow> hk_apply H p args st = Some (Ok (r, st1)) \<Longrightarrow> runs H hk hook args st1 ps rs st2 \<Longrightarrow>
    runs H hk hook args st (p # ps) (r # rs) st2"

inductive_cases runs_noneE: "runs H hk hook args st [] rs st'"
inductive_cases runs_nextE: "runs H hk hook args st (p # ps) rs st'"

text \<open>The same with each value in place of the first argument of the next procedure.\<close>

inductive runs_again :: "proc_env \<Rightarrow> hook_env \<Rightarrow> FHook \<Rightarrow> cell \<Rightarrow> hook_state \<Rightarrow> cell list \<Rightarrow> cell list \<Rightarrow> cell list \<Rightarrow> hook_state \<Rightarrow> bool"
  for P H hk hook where
  again_none: "hs_hooks st hook = Some hk \<Longrightarrow> runs_again P H hk hook st args [] args st"
| again_next: "hs_hooks st hook = Some hk \<Longrightarrow> hk_apply H p (array_of_cells P args) st = Some (Ok (r, st1)) \<Longrightarrow>
    runs_again P H hk hook st1 (args[0 := r]) ps args' st2 \<Longrightarrow> runs_again P H hk hook st args (p # ps) args' st2"

inductive_cases again_noneE: "runs_again P H hk hook st args [] args' st'"
inductive_cases again_nextE: "runs_again P H hk hook st args (p # ps) args' st'"

lemma runs_hook: "runs H hk hook args st ps rs st' \<Longrightarrow> hs_hooks st hook = Some hk"
  by (erule runs.cases) simp_all

lemma hook_length: "sa_is (hk_data hk) ps \<Longrightarrow> FTH_HOOK_LENGTH hk = int (length ps)"
  by (auto simp: sa_is_def sa_holds_def FTH_HOOK_LENGTH_def simple_array_length_def)

lemma hook_proc_at:
  assumes "hs_hooks st hook = Some hk" and "sa_is (hk_data hk) ps" and "i < length ps"
  shows "run_proc_at H st hook (int i) args = hk_apply H (ps ! i) args st"
proof -
  obtain a where a: "hk_data hk = Some a" "sa_holds a ps" using assms(2) by (auto simp: sa_is_def)
  have "simple_array_ref (Some a) (int i) = Ok (ps ! i)"
    using sa_ref_holds [OF a(2) assms(3)] a(2) assms(3) by (simp add: simple_array_ref_def sa_holds_def)
  then show ?thesis using assms(1) a(1) by (simp add: run_proc_at_def run_then_def hook_proc_def on_data_def)
qed

lemma hook_apply_loop_runs:
  assumes "sa_is (hk_data hk) ps" and "i + n = length ps" and "runs H hk hook args st (drop i ps) rs st'"
  shows "hook_apply_loop H hook args n (int i) st = Some (Ok (rs, st'))"
  using assms(2,3)
proof (induction n arbitrary: i st rs)
  case 0
  then show ?case by (auto elim: runs_noneE)
next
  case (Suc n)
  then have d: "drop i ps = ps ! i # drop (Suc i) ps" "i < length ps" by (simp_all add: Cons_nth_drop_Suc)
  obtain r rs' st1 where r: "rs = r # rs'" "hk_apply H (ps ! i) args st = Some (Ok (r, st1))" "runs H hk hook args st1 (drop (Suc i) ps) rs' st'"
    using Suc.prems(2) unfolding d(1) by (auto elim: runs_nextE)
  have "hook_apply_loop H hook args n (int (Suc i)) st1 = Some (Ok (rs', st'))" using Suc.prems(1) r(3) by (intro Suc.IH) simp_all
  then have "hook_apply_loop H hook args n (int i + 1) st1 = Some (Ok (rs', st'))" by (simp add: add.commute)
  then show ?case using hook_proc_at [OF runs_hook [OF Suc.prems(2)] assms(1) d(2)] r(1,2) by (simp add: run_then_def)
qed

lemma fth_hook_apply_runs:
  assumes "sa_is (hk_data hk) ps" and "runs H hk hook args st ps rs st'"
  shows "fth_hook_apply P H st hook args = Some (Ok (array_of_cells P rs, st'))"
  using hook_apply_loop_runs [OF assms(1), of 0 "length ps" H hook args st rs st'] assms(2) runs_hook [OF assms(2)] hook_length [OF assms(1)]
  by (simp add: fth_hook_apply_def run_then_def)

lemma run_bool_loop_runs:
  assumes "sa_is (hk_data hk) ps" and "i \<le> length ps" and "runs H hk hook args st (drop i ps) rs st'"
  shows "run_bool_loop E H hook args ret (int i) st = Some (Ok (if FTH_FALSE E \<in> set rs then FTH_FALSE E else ret, st'))"
  using assms(2,3)
proof (induction "length ps - i" arbitrary: i st rs ret)
  case 0
  then have "rs = []" "st' = st" by (auto elim: runs_noneE)
  then show ?case using 0 runs_hook [OF 0(3)] hook_length [OF assms(1)] by (subst run_bool_loop.simps) simp
next
  case (Suc n)
  then have d: "drop i ps = ps ! i # drop (Suc i) ps" "i < length ps" by (simp_all add: Cons_nth_drop_Suc)
  obtain r rs' st1 where r: "rs = r # rs'" "hk_apply H (ps ! i) args st = Some (Ok (r, st1))" "runs H hk hook args st1 (drop (Suc i) ps) rs' st'"
    using Suc.prems(2) unfolding d(1) by (auto elim: runs_nextE)
  have "run_bool_loop E H hook args (if r = FTH_FALSE E then FTH_FALSE E else ret) (int (Suc i)) st1 =
      Some (Ok (if FTH_FALSE E \<in> set rs' then FTH_FALSE E else if r = FTH_FALSE E then FTH_FALSE E else ret, st'))"
    using Suc.hyps(2) d(2) r(3) by (intro Suc.hyps(1)) simp_all
  then have "run_bool_loop E H hook args (if r = FTH_FALSE E then FTH_FALSE E else ret) (int i + 1) st1 =
      Some (Ok (if FTH_FALSE E \<in> set rs then FTH_FALSE E else ret, st'))"
    using r(1) by (auto simp: add.commute)
  then show ?case using hook_proc_at [OF runs_hook [OF Suc.prems(2)] assms(1) d(2)] r(2) runs_hook [OF Suc.prems(2)] hook_length [OF assms(1)] d(2)
    by (subst run_bool_loop.simps) simp
qed

lemma fth_run_hook_bool_runs:
  assumes "sa_is (hk_data hk) ps" and "runs H hk hook (array_of_cells P args) st ps rs st'" and "hk_req hk \<le> int (length args)"
  shows "fth_run_hook_bool E P H st hook args = Some (Ok (if FTH_FALSE E \<in> set rs then FTH_FALSE E else FTH_TRUE E, st'))"
  using run_bool_loop_runs [OF assms(1), of 0 H hook "array_of_cells P args" st rs st' E "FTH_TRUE E"] assms(2,3) runs_hook [OF assms(2)]
  by (simp add: fth_run_hook_bool_def with_arity_def)

lemma again_hook: "runs_again P H hk hook st args ps args' st' \<Longrightarrow> hs_hooks st hook = Some hk"
  by (erule runs_again.cases) simp_all

lemma run_again_loop_runs:
  assumes "sa_is (hk_data hk) ps" and "i \<le> length ps" and "runs_again P H hk hook st args (drop i ps) args' st'"
  shows "run_again_loop P H hook args (int i) st = Some (Ok (args', st'))"
  using assms(2,3)
proof (induction "length ps - i" arbitrary: i st args)
  case 0
  then have "args' = args" "st' = st" by (auto elim: again_noneE)
  then show ?case using 0 again_hook [OF 0(3)] hook_length [OF assms(1)] by (subst run_again_loop.simps) simp
next
  case (Suc n)
  then have d: "drop i ps = ps ! i # drop (Suc i) ps" "i < length ps" by (simp_all add: Cons_nth_drop_Suc)
  obtain r st1 where r: "hk_apply H (ps ! i) (array_of_cells P args) st = Some (Ok (r, st1))"
      "runs_again P H hk hook st1 (args[0 := r]) (drop (Suc i) ps) args' st'"
    using Suc.prems(2) unfolding d(1) by (auto elim: again_nextE)
  have "run_again_loop P H hook (args[0 := r]) (int (Suc i)) st1 = Some (Ok (args', st'))"
    using Suc.hyps(2) d(2) r(2) by (intro Suc.hyps(1)) simp_all
  then have "run_again_loop P H hook (args[0 := r]) (int i + 1) st1 = Some (Ok (args', st'))" by (simp add: add.commute)
  then show ?case using hook_proc_at [OF again_hook [OF Suc.prems(2)] assms(1) d(2)] r(1) again_hook [OF Suc.prems(2)] hook_length [OF assms(1)] d(2)
    by (subst run_again_loop.simps) simp
qed

lemma fth_run_hook_again_runs:
  assumes "sa_is (hk_data hk) ps" and "runs_again P H hk hook st args ps args' st'" and "hk_req hk \<le> int (length args)" and "args' \<noteq> []"
  shows "fth_run_hook_again P H st hook args = Some (Ok (hd args', st'))"
  using run_again_loop_runs [OF assms(1), of 0 P H hook st args args' st'] assms(2-4) again_hook [OF assms(2)]
  by (simp add: fth_run_hook_again_def with_arity_def run_then_def)

section \<open>Adding and removing\<close>

lemma fth_add_hook_proc:
  assumes "hs_hooks st hook = Some hk" and "sa_is (hk_data hk) ps" and "FTH_PROC_P (hs_vm st) proc" and "FICL_WORD_REF (hs_vm st) proc = Some w"
    and "w_req w = hk_req hk" and "w_opt w = hk_opt hk" and "w_rest w = hk_rest hk"
  shows "\<exists>d. simple_array_push (hk_data hk) proc = Ok d \<and> sa_is d (ps @ [proc]) \<and> fth_add_hook E st hook proc = Ok (set_data hook hk d st)"
  using sa.add_law [OF assms(2), of proc] assms(1,3-7)
  by (auto simp: fth_add_hook_def with_hook_def proc_from_proc_or_xt_def on_vm_def on_data_def)

lemma fth_add_hook_arity:
  assumes "hs_hooks st hook = Some hk" and "FTH_PROC_P (hs_vm st) proc" and "FICL_WORD_REF (hs_vm st) proc = Some w"
    and "w_req w \<noteq> hk_req hk \<or> w_opt w \<noteq> hk_opt hk \<or> w_rest w \<noteq> hk_rest hk"
  shows "fth_add_hook E st hook proc = hk_throw st"
  using assms by (auto simp: fth_add_hook_def with_hook_def proc_from_proc_or_xt_def on_vm_def hk_throw_def fth_throw_def ficlVmThrow_def)

lemma fth_remove_hook_proc:
  assumes "hs_hooks st hook = Some hk" and "hk_data hk = Some a" and "sa_holds a ps" and "FICL_WORD_P (hs_vm st) proc"
  shows "\<exists>d. fth_remove_hook E H st hook proc = Some (Ok (if proc \<in> set ps then proc else 0, set_data hook hk d st)) \<and> sa_is d (remove1 proc ps)"
  using simple_array_delete_holds [OF assms(3), of proc] assms
  by (auto simp: fth_remove_hook_def proc_named_def on_data_def sa_is_def)

lemma hook_add_then_remove:
  assumes "hs_hooks st hook = Some hk" and "sa_is (hk_data hk) ps" and "FTH_PROC_P (hs_vm st) proc" and "FICL_WORD_REF (hs_vm st) proc = Some w"
    and "w_req w = hk_req hk" and "w_opt w = hk_opt hk" and "w_rest w = hk_rest hk" and "proc \<notin> set ps"
  shows "\<exists>st1 st2. fth_add_hook E st hook proc = Ok st1 \<and> fth_hook_to_array st1 hook = Ok (ps @ [proc]) \<and>
    fth_remove_hook E H st1 hook proc = Some (Ok (proc, st2)) \<and> fth_hook_to_array st2 hook = Ok ps"
proof -
  obtain d where d: "sa_is d (ps @ [proc])" "fth_add_hook E st hook proc = Ok (set_data hook hk d st)"
    using fth_add_hook_proc [OF assms(1-7)] by blast
  let ?st1 = "set_data hook hk d st" and ?hk1 = "hk\<lparr>hk_data := d\<rparr>"
  obtain a where a: "d = Some a" "sa_holds a (ps @ [proc])" using d(1) by (auto simp: sa_is_def)
  have h1: "hs_hooks ?st1 hook = Some ?hk1" "FICL_WORD_P (hs_vm ?st1) proc" using assms(3) by (simp_all add: set_data_def FICL_WORD_P_def FTH_PROC_P_def)
  have r1: "remove1 proc (ps @ [proc]) = ps" using assms(8) by (simp add: remove1_append)
  have m1: "proc \<in> set (ps @ [proc])" by simp
  obtain d2 where d2: "fth_remove_hook E H ?st1 hook proc = Some (Ok (proc, set_data hook ?hk1 d2 ?st1))" "sa_is d2 ps"
    using fth_remove_hook_proc [OF h1(1) _ a(2) h1(2), of E H] a(1) r1 m1 by auto
  have "fth_hook_to_array ?st1 hook = Ok (ps @ [proc])" using sa.items_law [OF d(1)] h1(1) by (simp add: fth_hook_to_array_def with_hook_def on_data_def)
  moreover have "fth_hook_to_array (set_data hook ?hk1 d2 ?st1) hook = Ok ps"
    using sa.items_law [OF d2(2)] by (simp add: fth_hook_to_array_def with_hook_def on_data_def set_data_def)
  ultimately show ?thesis using d(2) d2(1) by blast
qed

end
