(* ===== verification/Fth_Hook_Samples.thy ===== *)
theory Fth_Hook_Samples
  imports Fth_Hook_Laws Fth_Proc_Samples
begin

section \<open>Sample hooks\<close>

text \<open>A hook at 500 with the sample procedure in a simple array of eight elements, and an empty one at 600.\<close>

definition sample_procs_array :: simple_array where
  "sample_procs_array = \<lparr>sa_data = Some (Some 1100 # replicate 7 None), sa_length = 1, sa_incr = 8\<rparr>"

definition sample_hook :: "simple_array \<Rightarrow> FHook" where
  "sample_hook a = \<lparr>hk_name = ''sample'', hk_data = Some a, hk_req = 1, hk_opt = 0, hk_rest = 0\<rparr>"

definition sample_hooks :: hook_state where
  "sample_hooks = \<lparr>hs_vm = proc_vm [9], hs_hooks = [500 \<mapsto> sample_hook sample_procs_array, 600 \<mapsto> sample_hook (make_simple_array 8)], hs_number = 0\<rparr>"

definition sample_hook_env :: hook_env where
  "sample_hook_env = \<lparr>fth_string_ref = (\<lambda>_. None), fth_new_instance = (\<lambda>st. 700), hk_apply = vm_apply sample_calls sample_procs 3000 False,
     hook_name_text = (\<lambda>n. ''simple-00-hook'')\<rparr>"

lemma sample_procs_held: "sa_holds sample_procs_array [1100]" "sa_is (hk_data (sample_hook sample_procs_array)) [1100]" "sa_is (hk_data (sample_hook (make_simple_array 8))) []"
  by (simp_all add: sa_holds_def sample_procs_array_def sa_is_def sample_hook_def make_simple_array_def)

lemma sample_hooks_at: "hs_hooks sample_hooks 500 = Some (sample_hook sample_procs_array)" "hs_hooks sample_hooks 600 = Some (sample_hook (make_simple_array 8))"
    "hs_vm sample_hooks = proc_vm [9]"
  by (simp_all add: sample_hooks_def)

lemma sample_runs:
  assumes "array_items sample_procs args = Some [11, 13]"
  shows "\<exists>st. runs sample_hook_env (sample_hook sample_procs_array) 500 args sample_hooks [1100] [array_of_cells sample_procs [7, 13, 11]] st"
proof -
  obtain vm3 where v: "fth_proc_apply sample_calls sample_procs 3000 False (proc_vm [9]) 1100 args = Some (Ok (array_of_cells sample_procs [7, 13, 11], vm3))"
    using depth_applied [OF assms] by blast
  let ?st = "sample_hooks\<lparr>hs_vm := vm3\<rparr>"
  have a: "hk_apply sample_hook_env 1100 args sample_hooks = Some (Ok (array_of_cells sample_procs [7, 13, 11], ?st))"
    using v by (simp add: sample_hook_env_def vm_apply_def sample_hooks_at on_vm_def)
  have "hs_hooks ?st 500 = Some (sample_hook sample_procs_array)" using sample_hooks_at(1) by simp
  then have "runs sample_hook_env (sample_hook sample_procs_array) 500 args ?st [] [] ?st" by (rule runs_none)
  from runs_next [OF sample_hooks_at(1) a this] show ?thesis by blast
qed

end
