(* ===== verification/Fth_Array_Laws.thy ===== *)
theory Fth_Array_Laws
  imports Fth_Array
begin

section \<open>Laws of the array operations\<close>

text \<open>
  What creation, the loops over the elements, deletion, searching, filtering and copying do on
  the list of elements of an array.
\<close>

subsection \<open>Creation and loops\<close>

lemma make_array_holds:
  assumes "n \<le> array_limit"
  shows "\<exists>ary. make_array (int n) = Ok ary \<and> array_holds ary (replicate n 0)"
proof -
  let ?t = "NEW_SEQ_LENGTH (int n) div 3"
  let ?b = "NEW_SEQ_LENGTH (int n + ?t)"
  have n: "int n \<le> 4194303" using assms by (simp add: array_limit_def)
  have t: "0 \<le> ?t" "3 * ?t \<le> int n + 128"
    using NEW_SEQ_LENGTH_bounds [of "int n"] by auto
  have b: "int n + ?t < ?b" "?b \<le> MAX_SEQ_LENGTH" "?b < 2 ^ 63"
    using NEW_SEQ_LENGTH_bounds [of "int n + ?t"] NEW_SEQ_LENGTH_fits [of "int n + ?t"] n t
    by (auto simp: MAX_SEQ_LENGTH_def)
  have r: "replicate (nat ?b) (Some 0) = replicate (nat ?t) (Some 0) @ map Some (replicate n (0 :: cell)) @
      replicate (nat ?b - nat ?t - n) (Some 0)"
    using b(1) t by (simp add: map_replicate replicate_add [symmetric])
  have "array_holds \<lparr>a_type = 0, a_length = int n, a_buf_length = ?b, a_top = ?t, a_data = ?t,
      a_buf = replicate (nat ?b) (Some 0), a_changed_p = True\<rparr> (replicate n 0)"
    by (rule array_holdsI [where pre = "replicate (nat ?t) (Some 0)" and post = "replicate (nat ?b - nat ?t - n) (Some 0)"])
       (use r b t n in \<open>simp_all add: MAX_SEQ_LENGTH_def\<close>)
  then show ?thesis using b by (simp add: make_array_def Let_def)
qed

lemma fth_make_array_len_holds:
  "n \<le> array_limit \<Longrightarrow> \<exists>ary. fth_make_array_len (int n) = Ok ary \<and> array_holds ary (replicate n 0)"
  using make_array_holds [of n] by (auto simp: fth_make_array_len_def)

lemma set_elements_holds:
  assumes "array_holds ary xs" and "i + length ys \<le> length xs"
  shows "\<exists>b. set_elements ary (int i) ys = Ok (ary\<lparr>a_buf := b\<rparr>) \<and>
    array_holds (ary\<lparr>a_buf := b\<rparr>) (take i xs @ ys @ drop (i + length ys) xs)"
  using assms
proof (induction ys arbitrary: ary xs i)
  case Nil
  then show ?case by (auto intro: exI [of _ "a_buf ary"])
next
  case (Cons y ys)
  obtain b where b: "data_set ary (int i) y = Ok (ary\<lparr>a_buf := b\<rparr>)" "array_holds (ary\<lparr>a_buf := b\<rparr>) (xs[i := y])"
    using data_set_holds [OF Cons.prems(1), of "int i" y] Cons.prems(2) by auto
  obtain b' where b': "set_elements (ary\<lparr>a_buf := b\<rparr>) (int (Suc i)) ys = Ok (ary\<lparr>a_buf := b, a_buf := b'\<rparr>)"
      "array_holds (ary\<lparr>a_buf := b, a_buf := b'\<rparr>)
        (take (Suc i) (xs[i := y]) @ ys @ drop (Suc i + length ys) (xs[i := y]))"
    using Cons.IH [OF b(2), of "Suc i"] Cons.prems(2) by auto
  have "take (Suc i) (xs[i := y]) = take i xs @ [y]"
    using Cons.prems(2) by (simp add: take_Suc_conv_app_nth)
  then show ?case using b(1) b' by (intro exI [of _ b']) (simp add: add.commute)
qed

lemma set_elements_all:
  assumes "array_holds ary xs" and "length ys = length xs"
  shows "\<exists>b. set_elements ary 0 ys = Ok (ary\<lparr>a_buf := b\<rparr>) \<and> array_holds (ary\<lparr>a_buf := b\<rparr>) ys"
  using set_elements_holds [OF assms(1), of 0 ys] assms(2) by simp

lemma fill_loop_elements: "fill_loop n i v ary = set_elements ary i (replicate n v)"
proof (induction n arbitrary: i ary)
  case (Suc n)
  then have "fill_loop n (i + 1) v = (\<lambda>ary. set_elements ary (i + 1) (replicate n v))" by auto
  then show ?case by simp
qed simp

lemma copy_loop_elements:
  assumes "array_holds src ys" and "j + n \<le> length ys"
  shows "copy_loop f n src (int j) dst i = set_elements dst i (map f (take n (drop j ys)))"
  using assms(2)
proof (induction n arbitrary: j dst i)
  case (Suc n)
  have "copy_loop f n src (int j + 1) dst (i + 1) = set_elements dst (i + 1) (map f (take n (drop (Suc j) ys)))" for dst
    using Suc.IH [of "Suc j"] Suc.prems by (simp add: add.commute)
  moreover have "drop j ys = ys ! j # drop (Suc j) ys" using Suc.prems by (simp add: Cons_nth_drop_Suc)
  ultimately show ?case using data_ref_holds_nat [OF assms(1), of j] Suc.prems by simp
qed simp

lemma reverse_loop_elements:
  assumes "array_holds tmp ys" and "n \<le> length ys"
  shows "reverse_loop n i (int n - 1) tmp ary = set_elements ary i (rev (take n ys))"
  using assms(2)
proof (induction n arbitrary: i ary)
  case (Suc n)
  have "reverse_loop n (i + 1) (int n - 1) tmp = (\<lambda>ary. set_elements ary (i + 1) (rev (take n ys)))"
    using Suc by auto
  moreover have "rev (take (Suc n) ys) = ys ! n # rev (take n ys)"
    using Suc.prems by (simp add: take_Suc_conv_app_nth)
  ultimately show ?case using data_ref_holds_nat [OF assms(1), of n] Suc.prems by simp
qed simp

fun fold_outcome :: "('a \<Rightarrow> 'd \<Rightarrow> ('e, 'd) outcome) \<Rightarrow> 'a list \<Rightarrow> 'd \<Rightarrow> ('e, 'd) outcome" where
  "fold_outcome f [] d = Ok d"
| "fold_outcome f (x # xs) d = bind_outcome (f x d) (fold_outcome f xs)"

lemma each_loop_elements:
  assumes "array_holds ary xs" and "i + n \<le> length xs"
  shows "each_loop f n (int i) ary d = fold_outcome f (take n (drop i xs)) d"
  using assms(2)
proof (induction n arbitrary: i d)
  case (Suc n)
  have "each_loop f n (int i + 1) ary = fold_outcome f (take n (drop (Suc i) xs))"
    using Suc.IH [of "Suc i"] Suc.prems by (auto simp: add.commute)
  moreover have "drop i xs = xs ! i # drop (Suc i) xs" using Suc.prems by (simp add: Cons_nth_drop_Suc)
  ultimately show ?case using data_ref_holds_nat [OF assms(1), of i] Suc.prems by simp
qed simp

lemma fth_array_each_fold: "array_holds ary xs \<Longrightarrow> fth_array_each ary f d = fold_outcome f xs d"
  using each_loop_elements [of ary xs 0 "length xs" f d]
  by (simp add: fth_array_each_def array_holds_length)

definition index_of :: "(cell \<Rightarrow> cell \<Rightarrow> bool) \<Rightarrow> cell list \<Rightarrow> cell \<Rightarrow> nat" where
  "index_of eq xs key = length (takeWhile (\<lambda>x. \<not> eq x key) xs)"

lemma index_loop_elements:
  assumes "array_holds ary xs" and "i + n \<le> length xs"
  shows "index_loop eq n (int i) ary key =
    (let k = index_of eq (take n (drop i xs)) key in Ok (if k < n then int (i + k) else -1))"
  using assms(2)
proof (induction n arbitrary: i)
  case (Suc n)
  have "drop i xs = xs ! i # drop (Suc i) xs" using Suc.prems by (simp add: Cons_nth_drop_Suc)
  moreover have "index_loop eq n (int i + 1) ary key =
      (let k = index_of eq (take n (drop (Suc i) xs)) key in Ok (if k < n then int (Suc i + k) else -1))"
    using Suc.IH [of "Suc i"] Suc.prems by (simp add: add.commute)
  ultimately show ?case
    using data_ref_holds_nat [OF assms(1), of i] Suc.prems by (simp add: index_of_def Let_def)
qed (simp add: index_of_def)

lemma index_of_found: "(\<exists>x\<in>set xs. eq x key) \<longleftrightarrow> index_of eq xs key < length xs"
  unfolding index_of_def by (induction xs) auto

lemma index_of_eq: "index_of eq xs key < length xs \<Longrightarrow> eq (xs ! index_of eq xs key) key"
  unfolding index_of_def using nth_length_takeWhile [of "\<lambda>x. \<not> eq x key" xs] by simp

lemma index_of_first: "i < index_of eq xs key \<Longrightarrow> \<not> eq (xs ! i) key"
  unfolding index_of_def by (metis (mono_tags, lifting) nth_mem set_takeWhileD takeWhile_nth)

subsection \<open>Access and deletion\<close>

text \<open>An index counts from the end when it is negative.\<close>

definition real_index :: "int \<Rightarrow> nat \<Rightarrow> int" where
  "real_index idx n = (if idx < 0 then idx + int n else idx)"

definition in_range :: "int \<Rightarrow> nat \<Rightarrow> bool" where
  "in_range idx n = (0 \<le> real_index idx n \<and> real_index idx n < int n)"

lemma fth_array_ref_holds:
  "array_holds ary xs \<Longrightarrow> fth_array_ref ary idx =
    (if in_range idx (length xs) then Ok (xs ! nat (real_index idx (length xs))) else Throw OUT_OF_RANGE)"
  using data_ref_holds [of ary xs "real_index idx (length xs)"]
  by (auto simp: fth_array_ref_def ary_ref_def in_range_def real_index_def array_holds_length)

lemma fth_array_set_holds:
  assumes "array_holds ary xs"
  shows "if in_range idx (length xs)
    then \<exists>ary'. fth_array_set ary idx v = Ok ary' \<and> array_holds ary' (xs[nat (real_index idx (length xs)) := v])
    else fth_array_set ary idx v = Throw OUT_OF_RANGE"
proof -
  have "array_holds (FTH_INSTANCE_CHANGED ary) xs" using assms by simp
  note data_set_holds [OF this, of "real_index idx (length xs)" v]
  then show ?thesis
    using array_holds_length [OF assms]
    by (auto simp: fth_array_set_def ary_set_def in_range_def real_index_def FTH_INSTANCE_CHANGED_def)
qed

lemma drop_length_Cons: "ws \<noteq> [] \<Longrightarrow> drop (length ws) (x # ws) = [last ws]"
  by (induction ws arbitrary: x) auto

lemma delete_middle:
  assumes "array_holds ary (us @ x # ws)" and "us \<noteq> []" and "ws \<noteq> []"
  shows "\<exists>ary'. fth_array_delete ff ary (int (length us)) = Ok (x, ary') \<and> array_holds ary' (us @ ws)"
proof -
  let ?xs = "us @ x # ws" and ?l = "int (length (us @ ws))"
  let ?n = "NEW_SEQ_LENGTH (a_top ary + ?l)"
  define ary1 where "ary1 = (if ?n < a_buf_length ary then set_buf_length ?n ary else ary)"
  have "a_buf_length ary \<le> MAX_SEQ_LENGTH" using assms(1) by (auto simp: array_holds_def)
  then have "array_holds ary1 ?xs"
    using assms(1) set_buf_length_holds [OF assms(1), of ?n] NEW_SEQ_LENGTH_bounds(1) [of "a_top ary + ?l"]
    by (simp add: ary1_def)
  then obtain pre post where b: "a_buf ary1 = pre @ map Some ?xs @ post" "a_top ary1 = int (length pre)"
      "a_data ary1 = int (length pre)" "a_length ary1 = int (length ?xs)"
      "a_buf_length ary1 = int (length pre) + int (length ?xs) + int (length post)"
      "a_buf_length ary1 \<le> MAX_SEQ_LENGTH" "2 * a_top ary1 \<le> MAX_SEQ_LENGTH"
    by (rule array_holdsE)
  let ?b = "pre @ map Some (us @ ws) @ Some (last ws) # post"
  have "memmove (a_data ary1 + int (length us)) (a_data ary1 + int (length us) + 1) (int (length ws)) (a_buf ary1) = Ok ?b"
  proof -
    have s: "nat (int (length pre) + int (length us)) = length pre + length us"
        "nat (int (length pre) + int (length us) + 1) = length pre + length us + 1"
        "nat (int (length pre) + int (length us) + int (length ws)) = length pre + length us + length ws" by simp_all
    have "drop (length ws) (map Some (x # ws)) = [Some (last ws)]"
      using drop_length_Cons [OF assms(3), of x] by (simp only: drop_map) simp
    then show ?thesis using b(1,3) assms(3) unfolding memmove_def s b(3) by (simp add: drop_Cons')
  qed
  then have m: "in_buf (memmove (a_data ary1 + int (length us)) (a_data ary1 + int (length us) + 1) (int (length ws)))
      (ary1\<lparr>a_length := ?l\<rparr>) = Ok (ary1\<lparr>a_length := ?l, a_buf := ?b\<rparr>)"
    by (simp add: in_buf_def)
  have "array_holds (ary1\<lparr>a_length := ?l, a_buf := ?b\<rparr>) (us @ ws)"
    by (rule array_holdsI [where pre = pre and post = "Some (last ws) # post"]) (use b in simp_all)
  moreover have "fth_array_delete ff ary (int (length us)) =
      Ok (x, FTH_INSTANCE_CHANGED (ary1\<lparr>a_length := ?l, a_buf := ?b\<rparr>))"
  proof -
    have e: "(if ?n < a_buf_length ary then set_buf_length ?n (ary\<lparr>a_length := ?l\<rparr>) else ary\<lparr>a_length := ?l\<rparr>) =
        ary1\<lparr>a_length := ?l\<rparr>"
      by (simp add: ary1_def set_buf_length_def)
    have "data_ref ary (int (length us)) = Ok x"
      using data_ref_holds_nat [OF assms(1), of "length us"] by simp
    moreover have "a_length ary = int (length us) + int (length ws) + 1" using array_holds_length [OF assms(1)] by simp
    ultimately have "fth_array_delete ff ary (int (length us)) = (\<lambda>A. bind_outcome
        (in_buf (memmove (a_data A + int (length us)) (a_data A + int (length us) + 1) (a_length A - int (length us))) A)
        (\<lambda>array. Ok (x, FTH_INSTANCE_CHANGED array)))
        (if ?n < a_buf_length ary then set_buf_length ?n (ary\<lparr>a_length := ?l\<rparr>) else ary\<lparr>a_length := ?l\<rparr>)"
      using assms(2,3) by (simp add: fth_array_delete_def Let_def)
    then show ?thesis unfolding e using m by simp
  qed
  ultimately show ?thesis by simp
qed

lemma fth_array_delete_at:
  assumes "array_holds ary (us @ x # ws)"
  shows "\<exists>ary'. fth_array_delete ff ary (int (length us)) = Ok (x, ary') \<and> array_holds ary' (us @ ws)"
proof -
  have l: "a_length ary = int (length us) + int (length ws) + 1" using array_holds_length [OF assms] by simp
  consider "us = []" | "us \<noteq> []" "ws = []" | "us \<noteq> []" "ws \<noteq> []" by blast
  then show ?thesis
  proof cases
    case 1
    then show ?thesis using fth_array_shift_holds [of ary x ws ff] assms l by (simp add: fth_array_delete_def)
  next
    case 2
    then show ?thesis using fth_array_pop_holds [of ary us x ff] assms l by (simp add: fth_array_delete_def)
  qed (use delete_middle assms in blast)
qed

lemma fth_array_delete_real:
  "array_holds ary xs \<Longrightarrow> fth_array_delete ff ary idx = fth_array_delete ff ary (real_index idx (length xs)) \<or>
    \<not> in_range idx (length xs)"
  by (auto simp: fth_array_delete_def real_index_def in_range_def array_holds_length Let_def)

lemma fth_array_delete_holds:
  assumes "array_holds ary xs"
  shows "if xs = [] then fth_array_delete ff ary idx = Throw WRONG_TYPE_ARG
    else if in_range idx (length xs)
    then \<exists>ary'. fth_array_delete ff ary idx = Ok (xs ! nat (real_index idx (length xs)), ary') \<and>
      array_holds ary' (take (nat (real_index idx (length xs))) xs @ drop (Suc (nat (real_index idx (length xs)))) xs)
    else fth_array_delete ff ary idx = Throw OUT_OF_RANGE"
proof -
  let ?k = "nat (real_index idx (length xs))"
  have "\<exists>ary'. fth_array_delete ff ary idx = Ok (xs ! ?k, ary') \<and> array_holds ary' (take ?k xs @ drop (Suc ?k) xs)"
    if r: "in_range idx (length xs)"
  proof -
    have k: "?k < length xs" "int ?k = real_index idx (length xs)" using r by (auto simp: in_range_def)
    then have "xs = take ?k xs @ xs ! ?k # drop (Suc ?k) xs" by (simp add: id_take_nth_drop)
    moreover have "length (take ?k xs) = ?k" using k(1) by simp
    ultimately show ?thesis
      using fth_array_delete_at [of ary "take ?k xs" "xs ! ?k" "drop (Suc ?k) xs" ff] assms
        fth_array_delete_real [OF assms, of ff idx] r k(2) by auto
  qed
  moreover have "fth_array_delete ff ary idx = Throw OUT_OF_RANGE" if "xs \<noteq> []" "\<not> in_range idx (length xs)"
    using that array_holds_length [OF assms] by (auto simp: fth_array_delete_def real_index_def in_range_def)
  moreover have "fth_array_delete ff ary idx = Throw WRONG_TYPE_ARG" if "xs = []"
    using that array_holds_length [OF assms] by (simp add: fth_array_delete_def)
  ultimately show ?thesis by simp
qed

subsection \<open>Searching\<close>

lemma index_loop_all:
  "array_holds ary xs \<Longrightarrow> index_loop eq (nat (a_length ary)) 0 ary key =
    Ok (if \<exists>x\<in>set xs. eq x key then int (index_of eq xs key) else -1)"
  using index_loop_elements [of ary xs 0 "length xs" eq key]
  by (simp add: array_holds_length index_of_found Let_def)

lemma fth_array_index_holds:
  "array_holds ary xs \<Longrightarrow> fth_array_index eq ary key =
    Ok (if \<exists>x\<in>set xs. eq x key then int (index_of eq xs key) else -1)"
  by (simp add: fth_array_index_def index_loop_all)

lemma fth_array_member_p_holds:
  "array_holds ary xs \<Longrightarrow> fth_array_member_p eq ary key = Ok (\<exists>x\<in>set xs. eq x key)"
  by (simp add: fth_array_member_p_def index_loop_all)

lemma fth_array_find_holds:
  "array_holds ary xs \<Longrightarrow> fth_array_find eq ff ary key =
    Ok (if \<exists>x\<in>set xs. eq x key then xs ! index_of eq xs key else ff)"
  using index_of_found [of xs eq key]
  by (auto simp: fth_array_find_def index_loop_all array_simps simp del: Bex_set_list_ex)

lemma fth_array_delete_key_holds:
  assumes "array_holds ary xs"
  shows "if \<exists>x\<in>set xs. eq x key
    then \<exists>us x ws ary'. xs = us @ x # ws \<and> eq x key \<and> (\<forall>u\<in>set us. \<not> eq u key) \<and>
      fth_array_delete_key eq ff ary key = Ok (x, ary') \<and> array_holds ary' (us @ ws)
    else fth_array_delete_key eq ff ary key = Ok (ff, ary)"
proof (cases "\<exists>x\<in>set xs. eq x key")
  case True
  let ?k = "index_of eq xs key"
  have k: "?k < length xs" using True index_of_found [of xs eq key] by simp
  then have xs: "xs = take ?k xs @ xs ! ?k # drop (Suc ?k) xs" by (simp add: id_take_nth_drop)
  have l: "length (take ?k xs) = ?k" using k by simp
  have "take ?k xs = takeWhile (\<lambda>x. \<not> eq x key) xs" by (simp add: index_of_def takeWhile_eq_take [symmetric])
  then have u: "\<forall>u\<in>set (take ?k xs). \<not> eq u key" by (auto dest: set_takeWhileD)
  obtain ary' where "fth_array_delete ff ary (int ?k) = Ok (xs ! ?k, ary')"
      "array_holds ary' (take ?k xs @ drop (Suc ?k) xs)"
    using fth_array_delete_at [of ary "take ?k xs" "xs ! ?k" "drop (Suc ?k) xs" ff] assms xs l by auto
  moreover have "fth_array_delete_key eq ff ary key = fth_array_delete ff ary (int ?k)"
    using True by (simp add: fth_array_delete_key_def index_loop_all [OF assms])
  ultimately show ?thesis using True xs index_of_eq [OF k] u by (metis (no_types, lifting))
next
  case False
  then show ?thesis by (simp add: fth_array_delete_key_def index_loop_all [OF assms])
qed

subsection \<open>Filling, copying and reversing\<close>

lemma fth_array_fill_holds:
  assumes "array_holds ary xs"
  shows "\<exists>ary'. fth_array_fill ary v = Ok ary' \<and> array_holds ary' (replicate (length xs) v)"
  using set_elements_all [OF assms, of "replicate (length xs) v"]
  by (auto simp: fth_array_fill_def fill_loop_elements array_holds_length [OF assms])

lemma ary_copy_holds:
  assumes "array_holds ary xs" and "length xs \<le> array_limit"
  shows "\<exists>new. ary_copy cp ary = Ok new \<and> array_holds new (map cp xs)"
proof -
  obtain new where new: "fth_make_array_len (int (length xs)) = Ok new" "array_holds new (replicate (length xs) 0)"
    using fth_make_array_len_holds [OF assms(2)] by blast
  have "copy_loop cp (length xs) ary 0 new 0 = set_elements new 0 (map cp xs)"
    using copy_loop_elements [OF assms(1), of 0 "length xs"] by simp
  then show ?thesis
    using new set_elements_all [OF new(2), of "map cp xs"] by (auto simp: ary_copy_def array_holds_length [OF assms(1)])
qed

lemma fth_array_map_holds:
  assumes "array_holds ary xs" and "length xs \<le> array_limit"
  shows "\<exists>new. fth_array_map ary f = Ok new \<and> array_holds new (map f xs)"
  using ary_copy_holds [OF assms, of f] by (simp add: fth_array_map_def ary_copy_def)

text \<open>Reversing leaves the flag alone that tells the object system of a change.\<close>

lemma fth_array_reverse_holds:
  assumes "array_holds ary xs" and "length xs \<le> array_limit"
  shows "\<exists>ary'. fth_array_reverse cp ary = Ok ary' \<and> array_holds ary' (rev (map cp xs)) \<and>
    a_changed_p ary' = a_changed_p ary"
proof (cases "xs = []")
  case True
  then show ?thesis using assms(1) by (simp add: fth_array_reverse_def array_holds_length)
next
  case False
  obtain tmp where tmp: "ary_copy cp ary = Ok tmp" "array_holds tmp (map cp xs)"
    using ary_copy_holds [OF assms] by blast
  have "reverse_loop (length xs) 0 (int (length xs) - 1) tmp ary = set_elements ary 0 (rev (map cp xs))"
    using reverse_loop_elements [OF tmp(2), of "length xs"] by simp
  then show ?thesis
    using tmp False set_elements_all [OF assms(1), of "rev (map cp xs)"]
    by (auto simp: fth_array_reverse_def array_holds_length [OF assms(1)])
qed

subsection \<open>Filtering\<close>

lemma fold_outcome_push:
  assumes "array_holds ary us" and "length us + length xs \<le> array_limit"
    and "\<And>x ary us. array_holds ary us \<Longrightarrow> f x ary = (if keep us x then fth_array_push ary x else Ok ary)"
  shows "\<exists>ary'. fold_outcome f xs ary = Ok ary' \<and>
    array_holds ary' (foldl (\<lambda>us x. if keep us x then us @ [x] else us) us xs)"
  using assms(1,2)
proof (induction xs arbitrary: ary us)
  case (Cons x xs)
  have "\<exists>ary1. f x ary = Ok ary1 \<and> array_holds ary1 (if keep us x then us @ [x] else us)"
    using assms(3) [OF Cons.prems(1), of x] fth_array_push_holds [OF Cons.prems(1), of x] Cons.prems by auto
  then obtain ary1 where a1: "f x ary = Ok ary1" "array_holds ary1 (if keep us x then us @ [x] else us)" by blast
  then show ?case using Cons.IH [OF a1(2)] Cons.prems(2) by (auto split: if_splits)
qed simp

lemma foldl_filter: "foldl (\<lambda>us x. if p x then us @ [x] else us) us xs = us @ filter p xs"
  by (induction xs arbitrary: us) auto

lemma emptied_holds: "array_holds ary xs \<Longrightarrow> array_holds (FTH_INSTANCE_CHANGED (ary\<lparr>a_length := 0\<rparr>)) []"
  using array_holds_shorter [of ary "[]" xs] by simp

lemma fth_array_compact_holds:
  assumes "array_holds ary xs" and "length xs \<le> array_limit"
  shows "\<exists>ary'. fth_array_compact cp nil ary = Ok ary' \<and> array_holds ary' (filter (\<lambda>x. x \<noteq> nil) (map cp xs))"
proof -
  obtain old where old: "ary_copy cp ary = Ok old" "array_holds old (map cp xs)"
    using ary_copy_holds [OF assms] by blast
  show ?thesis
    using fold_outcome_push [OF emptied_holds [OF assms(1)], where f = "ary_compact_each nil"
        and keep = "\<lambda>us x. x \<noteq> nil" and xs = "map cp xs"] old assms(2)
    by (simp add: fth_array_compact_def fth_array_each_fold ary_compact_each_def foldl_filter)
qed

text \<open>The first of equal elements is kept.\<close>

definition uniq_list :: "(cell \<Rightarrow> cell \<Rightarrow> bool) \<Rightarrow> cell list \<Rightarrow> cell list" where
  "uniq_list eq = foldl (\<lambda>us x. if \<exists>u\<in>set us. eq u x then us else us @ [x]) []"

lemma fth_array_uniq_holds:
  assumes "array_holds ary xs" and "length xs \<le> array_limit"
  shows "\<exists>ary'. fth_array_uniq eq cp ary = Ok ary' \<and> array_holds ary' (uniq_list eq (map cp xs))"
proof -
  obtain old where old: "ary_copy cp ary = Ok old" "array_holds old (map cp xs)"
    using ary_copy_holds [OF assms] by blast
  have "(\<lambda>us x. if \<not> (\<exists>u\<in>set us. eq u x) then us @ [x] else us) =
      (\<lambda>us x. if \<exists>u\<in>set us. eq u x then us else us @ [x])" by (intro ext) simp
  then show ?thesis
    using fold_outcome_push [OF emptied_holds [OF assms(1)], where f = "ary_uniq_each eq"
        and keep = "\<lambda>us x. \<not> (\<exists>u\<in>set us. eq u x)" and xs = "map cp xs"] old assms(2)
    by (simp add: fth_array_uniq_def fth_array_each_fold ary_uniq_each_def fth_array_member_p_holds uniq_list_def)
qed

lemma reject_loop_holds:
  assumes "array_holds ary (us @ ws)"
  shows "\<exists>ary'. reject_loop ff proc (length ws) (int (length us)) ary = Ok ary' \<and>
    array_holds ary' (us @ filter (\<lambda>x. \<not> proc x) ws)"
  using assms
proof (induction ws arbitrary: us ary)
  case (Cons w ws)
  have r: "data_ref ary (int (length us)) = Ok w"
    using data_ref_holds_nat [OF Cons.prems, of "length us"] by simp
  show ?case
  proof (cases "proc w")
    case True
    obtain ary1 where "fth_array_delete ff ary (int (length us)) = Ok (w, ary1)" "array_holds ary1 (us @ ws)"
      using fth_array_delete_at [OF Cons.prems] by blast
    then show ?thesis using Cons.IH [of ary1 us] r True by simp
  next
    case False
    then show ?thesis using Cons.IH [of ary "us @ [w]"] Cons.prems r by (simp add: add.commute)
  qed
qed simp

text \<open>An array of one element is returned as it is, whatever the procedure says of it.\<close>

lemma fth_array_reject_holds:
  assumes "array_holds ary xs"
  shows "\<exists>ary'. fth_array_reject ff proc ary = Ok ary' \<and>
    array_holds ary' (if length xs < 2 then xs else filter (\<lambda>x. \<not> proc x) xs)"
  using assms reject_loop_holds [of ary "[]" xs ff proc]
  by (auto simp: fth_array_reject_def array_holds_length [OF assms])

subsection \<open>Parts of an array\<close>

definition sub_end :: "int \<Rightarrow> nat \<Rightarrow> nat \<Rightarrow> nat" where
  "sub_end e s n = (let e = (if e < 0 then e + int n + 1 else e) in if e < int s \<or> e > int n then n else nat e)"

lemma make_array_len_layout:
  "fth_make_array_len (int n) = Ok ary \<Longrightarrow> a_data ary = NEW_SEQ_LENGTH (int n) div 3 \<and>
    length (a_buf ary) = nat (NEW_SEQ_LENGTH (int n + NEW_SEQ_LENGTH (int n) div 3))"
  by (auto simp: fth_make_array_len_def make_array_def make_array_instance_def Let_def outcome_simps split: if_splits)

text \<open>
  The code copies as many cells as the whole array has, not as many as the part: the part is
  right when both buffers have these cells behind the start, and the copy leaves one of the
  buffers when they have not.
\<close>

definition sub_fits :: "FArray \<Rightarrow> nat \<Rightarrow> nat \<Rightarrow> nat \<Rightarrow> bool" where
  "sub_fits ary s n len = (a_top ary + int s + int len \<le> a_buf_length ary \<and>
     NEW_SEQ_LENGTH (int n) div 3 + int len \<le> NEW_SEQ_LENGTH (int n + NEW_SEQ_LENGTH (int n) div 3))"

lemma sub_end_bounds: "s < l \<Longrightarrow> s \<le> sub_end e s l \<and> sub_end e s l \<le> l"
  by (auto simp: sub_end_def Let_def)

lemma subarray_call:
  assumes "array_holds ary xs" and "in_range start (length xs)" and s: "s = nat (real_index start (length xs))"
    and n: "n = sub_end e s (length xs) - s" and new: "fth_make_array_len (int n) = Ok new"
  shows "fth_array_subarray ary start e =
    in_buf (memmove_from (a_data new) (a_buf ary) (a_data ary + int s) (int (length xs))) new"
proof -
  let ?l = "length xs"
  have sl: "s < ?l" "int s = real_index start ?l" using assms(2) s by (auto simp: in_range_def)
  have "int (sub_end e s ?l) - int s = int n" using n sub_end_bounds [OF sl(1), of e] by simp
  moreover have "(let e = (if e < 0 then e + int ?l + 1 else e) in if e < int s \<or> e > int ?l then int ?l else e) =
      int (sub_end e s ?l)"
    by (auto simp: sub_end_def Let_def)
  ultimately show ?thesis
    using new assms(1,2) sl(2) array_holds_length [OF assms(1)]
    by (simp add: fth_array_subarray_def Let_def real_index_def in_range_def)
qed

text \<open>The cells moved: the part, the rest of the array, and what lies behind it.\<close>

lemma subarray_moved:
  assumes "a_buf ary = pre @ map Some xs @ post" and "a_data ary = int (length pre)"
    and "a_buf new = pre' @ map Some (replicate n 0) @ post'" and "a_data new = int (length pre')"
    and "s < length xs" and "s \<le> length post" and "length xs \<le> n + length post'"
  shows "memmove_from (a_data new) (a_buf ary) (a_data ary + int s) (int (length xs)) (a_buf new) =
    Ok (pre' @ map Some (take n (drop s xs)) @ (map Some (drop (s + n) xs) @ take s post @ drop (length pre' + length xs) (a_buf new)))"
proof -
  have "take (length xs) (drop (length pre + s) (a_buf ary)) = map Some (drop s xs) @ take s post"
    using assms(1,5) by (simp add: drop_map take_map)
  moreover have "drop s xs = take n (drop s xs) @ drop (s + n) xs"
    by (metis add.commute append_take_drop_id drop_drop)
  ultimately have t: "take (length xs) (drop (length pre + s) (a_buf ary)) =
      map Some (take n (drop s xs)) @ map Some (drop (s + n) xs) @ take s post"
    by (metis append.assoc map_append)
  have "nat (int (length pre) + int s) = length pre + s" "nat (int (length pre') + int (length xs)) = length pre' + length xs"
    by simp_all
  moreover have "length xs - (min (length xs - s) n + (length xs - (s + n))) = s"
      "length xs - (s + n) \<le> length xs - min (length xs - s) n"
    using assms(5) by (cases "length xs - s \<le> n"; simp add: min_def)+
  moreover have "min (length xs - s) n \<le> length xs" by (simp add: min.coboundedI1)
  ultimately show ?thesis using assms t by (simp add: memmove_from_def)
qed

lemma fth_array_subarray_holds:
  assumes "array_holds ary xs" and "in_range start (length xs)" and "length xs \<le> array_limit"
    and s: "s = nat (real_index start (length xs))" and n: "n = sub_end e s (length xs) - s"
  shows "if sub_fits ary s n (length xs)
    then \<exists>res. fth_array_subarray ary start e = Ok res \<and> array_holds res (take n (drop s xs))
    else fth_array_subarray ary start e = Fault"
proof -
  let ?l = "length xs"
  have sl: "s < ?l" using assms(2) s by (auto simp: in_range_def)
  have nl: "n \<le> ?l - s" using n sub_end_bounds [OF sl, of e] diff_le_mono by blast
  then have "n \<le> array_limit" using assms(3) by linarith
  then obtain new where new: "fth_make_array_len (int n) = Ok new" "array_holds new (replicate n 0)"
    using fth_make_array_len_holds by blast
  note res = subarray_call [OF assms(1,2) s n new(1)]
  obtain pre post where b: "a_buf ary = pre @ map Some xs @ post" "a_top ary = int (length pre)"
      "a_data ary = int (length pre)" "a_buf_length ary = int (length pre) + int ?l + int (length post)"
    using assms(1) by (rule array_holdsE)
  obtain pre' post' where b': "a_buf new = pre' @ map Some (replicate n 0) @ post'" "a_top new = int (length pre')"
      "a_data new = int (length pre')" "a_length new = int n"
      "a_buf_length new = int (length pre') + int n + int (length post')" "a_buf_length new \<le> MAX_SEQ_LENGTH"
      "2 * a_top new \<le> MAX_SEQ_LENGTH"
    using new(2) by (rule array_holdsE) simp
  have "int (length (a_buf new)) = NEW_SEQ_LENGTH (int n + NEW_SEQ_LENGTH (int n) div 3)"
    using make_array_len_layout [OF new(1)] NEW_SEQ_LENGTH_bounds(1) [of "int n"]
      NEW_SEQ_LENGTH_bounds(1) [of "int n + NEW_SEQ_LENGTH (int n) div 3"] by simp
  then have fits: "sub_fits ary s n ?l \<longleftrightarrow> s \<le> length post \<and> ?l \<le> n + length post'"
    using make_array_len_layout [OF new(1)] b(2,4) b'(1,3) unfolding sub_fits_def by auto
  show ?thesis
  proof (cases "sub_fits ary s n ?l")
    case True
    then have f: "s \<le> length post" "?l \<le> n + length post'" by (simp_all add: fits)
    let ?post = "map Some (drop (s + n) xs) @ take s post @ drop (length pre' + ?l) (a_buf new)"
    have "array_holds (new\<lparr>a_buf := pre' @ map Some (take n (drop s xs)) @ ?post\<rparr>) (take n (drop s xs))"
      using f b' nl sl by (intro array_holdsI [where pre = pre' and post = ?post]) simp_all
    then show ?thesis using True res subarray_moved [OF b(1,3) b'(1,3) sl f] by (simp add: in_buf_def)
  next
    case False
    then show ?thesis using fits res b(1,3) b'(1,3) by (auto simp: in_buf_def memmove_from_def)
  qed
qed

lemma ary_equal_p_same: "ary_equal_p eq True a b = Ok True"
  by (simp add: ary_equal_p_def)

lemma equal_loop_elements:
  assumes "array_holds a xs" and "array_holds b ys" and "i + n \<le> length xs" and "i + n \<le> length ys"
  shows "equal_loop eq n (int i) a b = Ok (list_all2 eq (take n (drop i xs)) (take n (drop i ys)))"
  using assms(3,4)
proof (induction n arbitrary: i)
  case (Suc n)
  have "drop i xs = xs ! i # drop (Suc i) xs" "drop i ys = ys ! i # drop (Suc i) ys"
    using Suc.prems by (simp_all add: Cons_nth_drop_Suc)
  moreover have "equal_loop eq n (int i + 1) a b = Ok (list_all2 eq (take n (drop (Suc i) xs)) (take n (drop (Suc i) ys)))"
    using Suc.IH [of "Suc i"] Suc.prems by (simp add: add.commute)
  ultimately show ?case
    using data_ref_holds_nat [OF assms(1), of i] data_ref_holds_nat [OF assms(2), of i] Suc.prems by simp
qed simp

lemma ary_equal_p_holds:
  assumes "array_holds a xs" and "array_holds b ys"
  shows "ary_equal_p eq False a b = Ok (list_all2 eq xs ys)"
  using equal_loop_elements [OF assms, of 0 "length xs" eq] array_holds_length [OF assms(1)] array_holds_length [OF assms(2)]
  by (auto simp: ary_equal_p_def list_all2_lengthD)

end
