(* ===== verification/Fth_String.thy ===== *)
theory Fth_String
  imports Fth_Array_Laws Ficl_Utility "HOL-Library.Sublist"
begin

section \<open>Strings\<close>

text \<open>
  The strings of \<open>src/string.c\<close>: a buffer with the characters somewhere in its middle, like an
  array, and behind them a NUL, for the functions of the C library that read up to one. The buffer, the access to it and its
  resizing are as in \<open>Fth_Array\<close>. A C string is read from the buffer up to the first NUL; without one, reading
  is \<open>Fault\<close>.

  An argument that is another string is given as its structure; it is a string of its own, not the changed one.
  Where the code converts an argument with \<open>fth_object_to_string\<close>, the argument is the result of the conversion. A character of the result, \<open>CHAR_TO_FTH\<close>
  of it, is the character, and \<open>#f\<close> is \<open>None\<close>. The locale is that of C.
\<close>

record FString =
  s_length :: int
  s_buf_length :: int
  s_top :: int
  s_data :: int
  s_buf :: "char option list"
  s_changed_p :: bool

subsection \<open>Functions of the C library\<close>

fun c_text :: "char option list \<Rightarrow> string array_result" where
  "c_text [] = Fault"
| "c_text (None # b) = Fault"
| "c_text (Some c # b) = (if c = NUL then Ok [] else bind_outcome (c_text b) (\<lambda>s. Ok (c # s)))"

text \<open>The first occurrence of a text in another, as its distance.\<close>

fun strstr :: "string \<Rightarrow> string \<Rightarrow> nat option" where
  "strstr [] k = (if k = [] then Some 0 else None)"
| "strstr (c # s) k = (if prefix k (c # s) then Some 0 else map_option Suc (strstr s k))"

fun strcmp :: "string \<Rightarrow> string \<Rightarrow> int" where
  "strcmp [] [] = 0"
| "strcmp [] (d # t) = -1"
| "strcmp (c # s) [] = 1"
| "strcmp (c # s) (d # t) = (if char_code c < char_code d then -1 else if char_code d < char_code c then 1 else strcmp s t)"

definition toupper :: "char \<Rightarrow> char" where
  "toupper c = (if islower c then char_of (char_code c - 32) else c)"

text \<open>One call: the token, and what is left unless the text has been used up.\<close>

definition strsep :: "string \<Rightarrow> string \<Rightarrow> string \<times> string option" where
  "strsep delim s = (takeWhile (\<lambda>c. c \<notin> set delim) s,
     case dropWhile (\<lambda>c. c \<notin> set delim) s of [] \<Rightarrow> None | _ # r \<Rightarrow> Some r)"

subsection \<open>Access to the buffer\<close>

definition char_at :: "FString \<Rightarrow> int \<Rightarrow> char array_result" where
  "char_at s i =
     (let j = s_data s + i
      in if 0 \<le> j \<and> j < int (length (s_buf s))
         then case s_buf s ! nat j of Some c \<Rightarrow> Ok c | None \<Rightarrow> Fault
         else Fault)"

definition char_put :: "int \<Rightarrow> char \<Rightarrow> FString \<Rightarrow> FString array_result" where
  "char_put i c s =
     (let j = s_data s + i
      in if 0 \<le> j \<and> j < int (length (s_buf s)) then Ok (s\<lparr>s_buf := (s_buf s)[nat j := Some c]\<rparr>) else Fault)"

definition in_chars :: "(char option list \<Rightarrow> char option list array_result) \<Rightarrow> FString \<Rightarrow> FString array_result" where
  "in_chars f s = bind_outcome (f (s_buf s)) (\<lambda>b. Ok (s\<lparr>s_buf := b\<rparr>))"

text \<open>\<open>FTH_STRING_DATA(fs) + i\<close> as a C string.\<close>

definition text_from :: "FString \<Rightarrow> int \<Rightarrow> string array_result" where
  "text_from s i =
     (let j = s_data s + i in if 0 \<le> j \<and> j \<le> int (length (s_buf s)) then c_text (drop (nat j) (s_buf s)) else Fault)"

abbreviation c_string :: "FString \<Rightarrow> string array_result" where
  "c_string s \<equiv> text_from s 0"

definition resize_chars :: "int \<Rightarrow> FString \<Rightarrow> FString" where
  "resize_chars l s = s\<lparr>s_buf_length := l, s_buf := FTH_REALLOC (s_buf s) l, s_data := s_top s\<rparr>"

definition string_changed :: "FString \<Rightarrow> FString" where
  "string_changed s = s\<lparr>s_changed_p := True\<rparr>"

text \<open>A longer buffer, if \<open>n\<close> bytes do not fit.\<close>

definition grow_chars :: "int \<Rightarrow> FString \<Rightarrow> FString array_result" where
  "grow_chars n s =
     (if n > s_buf_length s
      then let l = NEW_SEQ_LENGTH n in if l > MAX_SEQ_LENGTH then Throw OUT_OF_RANGE else Ok (resize_chars l s)
      else Ok s)"

subsection \<open>Creation\<close>

text \<open>The length is compared with the limit, not the length of the buffer.\<close>

definition make_string_len :: "int \<Rightarrow> FString array_result" where
  "make_string_len len =
     (if len < 0 then Throw OUT_OF_RANGE
      else let top_len = NEW_SEQ_LENGTH (len + 1) div 3;
               buf_len = NEW_SEQ_LENGTH (len + 1 + top_len)
           in if buf_len \<ge> 2 ^ 63 then Fault
              else if len > MAX_SEQ_LENGTH then Throw OUT_OF_RANGE
              else Ok \<lparr>s_length = len, s_buf_length = buf_len, s_top = top_len, s_data = top_len,
                     s_buf = replicate (nat buf_len) (Some NUL), s_changed_p = True\<rparr>)"

text \<open>An argument of type \<open>char *\<close> is \<open>None\<close> for \<open>NULL\<close>, otherwise its text.\<close>

definition fth_make_string :: "string option \<Rightarrow> FString array_result" where
  "fth_make_string str =
     (let str = (case str of None \<Rightarrow> [] | Some t \<Rightarrow> t)
      in bind_outcome (make_string_len (int (length str))) (\<lambda>s.
           in_chars (memmove_from (s_data s) (map Some str) 0 (int (length str))) s))"

definition fth_make_string_or_false :: "string option \<Rightarrow> FString option array_result" where
  "fth_make_string_or_false str =
     (case str of None \<Rightarrow> Ok None | Some t \<Rightarrow>
        if t = [] then Ok None
        else bind_outcome (make_string_len (int (length t))) (\<lambda>s.
             bind_outcome (in_chars (memmove_from (s_data s) (map Some t) 0 (int (length t))) s) (\<lambda>s. Ok (Some s))))"

text \<open>A negative length is converted to a great unsigned one.\<close>

definition fth_make_string_len :: "string option \<Rightarrow> int \<Rightarrow> FString array_result" where
  "fth_make_string_len str len =
     (let str = (case str of None \<Rightarrow> [] | Some t \<Rightarrow> t);
          slen = int (length str);
          blen = (if 0 \<le> len \<and> len < slen then len else slen)
      in bind_outcome (make_string_len blen) (\<lambda>s.
         bind_outcome (in_chars (memmove_from (s_data s) (map Some str) 0 blen) s) (char_put blen NUL)))"

definition fth_make_empty_string :: "FString array_result" where
  "fth_make_empty_string = bind_outcome (make_string_len 0) (char_put 0 NUL)"

definition str_to_string :: "FString \<Rightarrow> FString array_result" where
  "str_to_string self = bind_outcome (c_string self) (\<lambda>t. fth_make_string (Some t))"

definition fth_string_copy :: "FString \<Rightarrow> FString array_result" where
  "fth_string_copy fs = str_to_string fs"

subsection \<open>Characters\<close>

definition str_ref :: "FString \<Rightarrow> int \<Rightarrow> char array_result" where
  "str_ref self idx = (if idx < 0 \<or> idx \<ge> s_length self then Throw OUT_OF_RANGE else char_at self idx)"

definition str_set :: "FString \<Rightarrow> int \<Rightarrow> char \<Rightarrow> FString array_result" where
  "str_set self idx v =
     (if idx < 0 \<or> idx \<ge> s_length self then Throw OUT_OF_RANGE
      else bind_outcome (char_put idx v self) (\<lambda>s. Ok (string_changed s)))"

definition fth_string_c_char_ref :: "FString \<Rightarrow> int \<Rightarrow> char array_result" where
  "fth_string_c_char_ref fs idx =
     (let idx = (if idx < 0 then idx + s_length fs else idx)
      in if idx < 0 \<or> idx \<ge> s_length fs then Throw OUT_OF_RANGE else char_at fs idx)"

definition fth_string_c_char_fast_ref :: "FString \<Rightarrow> int \<Rightarrow> char array_result" where
  "fth_string_c_char_fast_ref fs idx = char_at fs idx"

definition fth_string_char_ref :: "FString \<Rightarrow> int \<Rightarrow> char array_result" where
  "fth_string_char_ref fs idx = (let idx = (if idx < 0 then idx + s_length fs else idx) in str_ref fs idx)"

definition fth_string_c_char_set :: "FString \<Rightarrow> int \<Rightarrow> char \<Rightarrow> FString array_result" where
  "fth_string_c_char_set fs idx c =
     (let idx = (if idx < 0 then idx + s_length fs else idx)
      in if idx < 0 \<or> idx \<ge> s_length fs then Throw OUT_OF_RANGE else char_put idx c (string_changed fs))"

definition fth_string_c_char_fast_set :: "FString \<Rightarrow> int \<Rightarrow> char \<Rightarrow> FString array_result" where
  "fth_string_c_char_fast_set fs idx c = char_put idx c (string_changed fs)"

definition fth_string_char_set :: "FString \<Rightarrow> int \<Rightarrow> char \<Rightarrow> FString array_result" where
  "fth_string_char_set fs idx v = (let idx = (if idx < 0 then idx + s_length fs else idx) in str_set fs idx v)"

text \<open>The array of the characters; \<open>to_fix\<close> is \<open>CHAR_TO_FTH\<close>.\<close>

fun chars_loop :: "(char \<Rightarrow> cell) \<Rightarrow> nat \<Rightarrow> int \<Rightarrow> FString \<Rightarrow> FArray \<Rightarrow> FArray array_result" where
  "chars_loop to_fix 0 i s ary = Ok ary"
| "chars_loop to_fix (Suc n) i s ary = bind_outcome (char_at s i) (\<lambda>c.
     bind_outcome (data_set ary i (to_fix c)) (chars_loop to_fix n (i + 1) s))"

definition str_to_array :: "(char \<Rightarrow> cell) \<Rightarrow> FString \<Rightarrow> FArray array_result" where
  "str_to_array to_fix self = bind_outcome (fth_make_array_len (s_length self)) (chars_loop to_fix (nat (s_length self)) 0 self)"

subsection \<open>Comparison\<close>

definition str_equal_p :: "FString \<Rightarrow> FString \<Rightarrow> bool array_result" where
  "str_equal_p self obj =
     (if s_length self \<noteq> s_length obj then Ok False
      else if s_length self = 0 then Ok True
      else bind_outcome (c_string self) (\<lambda>s. bind_outcome (c_string obj) (\<lambda>t. Ok (strcmp s t = 0))))"

definition compare_strings :: "(int \<Rightarrow> bool) \<Rightarrow> FString \<Rightarrow> FString \<Rightarrow> bool array_result" where
  "compare_strings p obj1 obj2 = bind_outcome (c_string obj1) (\<lambda>b. bind_outcome (c_string obj2) (\<lambda>s. Ok (p (strcmp b s))))"

definition fth_string_equal_p :: "FString \<Rightarrow> FString \<Rightarrow> bool array_result" where
  "fth_string_equal_p = compare_strings (\<lambda>n. n = 0)"

definition fth_string_not_equal_p :: "FString \<Rightarrow> FString \<Rightarrow> bool array_result" where
  "fth_string_not_equal_p = compare_strings (\<lambda>n. n \<noteq> 0)"

definition fth_string_less_p :: "FString \<Rightarrow> FString \<Rightarrow> bool array_result" where
  "fth_string_less_p = compare_strings (\<lambda>n. n < 0)"

definition fth_string_greater_p :: "FString \<Rightarrow> FString \<Rightarrow> bool array_result" where
  "fth_string_greater_p = compare_strings (\<lambda>n. n > 0)"

subsection \<open>Both ends\<close>

text \<open>The end of an addition: the new length and the NUL.\<close>

definition terminated :: "int \<Rightarrow> FString \<Rightarrow> FString array_result" where
  "terminated len s = bind_outcome (char_put len NUL (s\<lparr>s_length := len\<rparr>)) (\<lambda>s. Ok (string_changed s))"

definition fth_string_push :: "FString \<Rightarrow> FString \<Rightarrow> FString array_result" where
  "fth_string_push fs add =
     (if s_length add = 0 then Ok fs
      else let sl = s_length fs; al = s_length add
           in bind_outcome (grow_chars (s_top fs + sl + al + 1) fs) (\<lambda>fs.
              bind_outcome (in_chars (memmove_from (s_data fs + sl) (s_buf add) (s_data add) al) fs) (\<lambda>fs.
                terminated (s_length fs + al) fs)))"

definition fth_string_pop :: "FString \<Rightarrow> (char option \<times> FString) array_result" where
  "fth_string_pop fs =
     (if s_length fs = 0 then Ok (None, fs)
      else let l = NEW_SEQ_LENGTH (s_top fs + s_length fs);
               fs = fs\<lparr>s_length := s_length fs - 1\<rparr>
           in bind_outcome (char_at fs (s_length fs)) (\<lambda>c.
              bind_outcome (char_put (s_length fs) NUL fs) (\<lambda>fs.
                let fs = (if l < s_buf_length fs then resize_chars l fs else fs)
                in Ok (Some c, string_changed fs))))"

definition fth_string_unshift :: "FString \<Rightarrow> FString \<Rightarrow> FString array_result" where
  "fth_string_unshift fs add =
     (if s_length add = 0 then Ok fs
      else let al = s_length add;
               new_top = s_top fs - al;
               new_len = s_length fs + al;
               new_buf_len = new_top + new_len + 1
           in bind_outcome
                (if new_top < 1
                 then let new_top = s_buf_length fs div 3;
                          new_buf_len = new_top + new_len + 1
                      in bind_outcome (grow_chars new_buf_len fs) (\<lambda>fs.
                         bind_outcome (in_chars (memmove (new_top + al) (s_data fs) (s_length fs)) fs) (\<lambda>fs. Ok (new_top, fs)))
                 else bind_outcome (grow_chars new_buf_len fs) (\<lambda>fs. Ok (new_top, fs)))
                (\<lambda>(new_top, fs).
                   let fs = fs\<lparr>s_top := new_top, s_length := new_len\<rparr>
                   in bind_outcome (in_chars (memmove_from (s_top fs) (s_buf add) (s_data add) al) fs) (\<lambda>fs.
                        terminated (s_length fs) (fs\<lparr>s_data := s_top fs\<rparr>))))"

text \<open>When the characters are moved to the front third of the buffer, the NUL behind them is not.\<close>

definition fth_string_shift :: "FString \<Rightarrow> (char option \<times> FString) array_result" where
  "fth_string_shift fs =
     (if s_length fs = 0 then Ok (None, fs)
      else bind_outcome (char_at fs 0) (\<lambda>c.
           bind_outcome
             (if s_top fs + 1 > s_buf_length fs div 2
              then let fs = fs\<lparr>s_top := s_buf_length fs div 3\<rparr>
                   in in_chars (memmove (s_top fs) (s_data fs) (s_length fs)) fs
              else Ok fs)
             (\<lambda>fs.
                let l = NEW_SEQ_LENGTH (s_top fs + s_length fs);
                    fs = fs\<lparr>s_length := s_length fs - 1, s_top := s_top fs + 1\<rparr>;
                    fs = (if l < s_buf_length fs then fs\<lparr>s_buf_length := l, s_buf := FTH_REALLOC (s_buf fs) l\<rparr> else fs)
                in Ok (Some c, string_changed (fs\<lparr>s_data := s_top fs\<rparr>)))))"

text \<open>The result of \<open>fth_make_string_format\<close> with the format \<open>%s%s\<close>.\<close>

definition fth_string_append :: "FString \<Rightarrow> FString \<Rightarrow> FString array_result" where
  "fth_string_append fs1 fs2 =
     bind_outcome (c_string fs1) (\<lambda>b1. bind_outcome (c_string fs2) (\<lambda>b2. fth_make_string (Some (b1 @ b2))))"

definition fth_string_reverse :: "FString \<Rightarrow> FString array_result" where
  "fth_string_reverse fs = bind_outcome (c_string fs) (\<lambda>t.
     bind_outcome (in_chars (memmove_from (s_data fs) (map Some (ficlStringReverse t)) 0 (int (length t))) fs) (\<lambda>fs.
       Ok (string_changed fs)))"

subsection \<open>Insertion, deletion, filling\<close>

definition fth_string_insert :: "FString \<Rightarrow> int \<Rightarrow> FString \<Rightarrow> FString array_result" where
  "fth_string_insert fs idx ins =
     (let sl = s_length fs;
          idx = (if idx < 0 then idx + sl else idx)
      in if idx = 0 then fth_string_unshift fs ins
         else if idx < 0 \<or> idx \<ge> sl then Throw OUT_OF_RANGE
         else let il = s_length ins
              in if il = 0 then Ok fs
                 else bind_outcome (grow_chars (s_top fs + (sl + il + 1)) fs) (\<lambda>fs.
                      bind_outcome (in_chars (memmove (s_data fs + idx + il) (s_data fs + idx) (sl - idx)) fs) (\<lambda>fs.
                      bind_outcome (in_chars (memmove_from (s_data fs + idx) (s_buf ins) (s_data ins) il) fs) (\<lambda>fs.
                        terminated (s_length fs + il) fs))))"

definition fth_string_delete :: "FString \<Rightarrow> int \<Rightarrow> (char option \<times> FString) array_result" where
  "fth_string_delete fs idx =
     (if s_length fs = 0 then Ok (None, fs)
      else let idx = (if idx < 0 then idx + s_length fs else idx)
           in if idx < 0 \<or> idx \<ge> s_length fs then Throw OUT_OF_RANGE
              else if idx = 0 then fth_string_shift fs
              else if idx = s_length fs - 1 then fth_string_pop fs
              else bind_outcome (char_at fs idx) (\<lambda>c.
                let fs = fs\<lparr>s_length := s_length fs - 1\<rparr>;
                    l = NEW_SEQ_LENGTH (s_top fs + s_length fs + 1);
                    fs = (if l < s_buf_length fs then resize_chars l fs else fs)
                in bind_outcome (in_chars (memmove (s_data fs + idx) (s_data fs + idx + 1) (s_length fs - idx)) fs) (\<lambda>fs.
                   bind_outcome (terminated (s_length fs) fs) (\<lambda>fs. Ok (Some c, fs)))))"

definition fth_string_fill :: "FString \<Rightarrow> char \<Rightarrow> FString array_result" where
  "fth_string_fill fs c = bind_outcome
     (in_chars (memmove_from (s_data fs) (replicate (nat (s_length fs)) (Some c)) 0 (s_length fs)) fs) (\<lambda>fs. Ok (string_changed fs))"

subsection \<open>Searching and parts\<close>

definition fth_string_index :: "FString \<Rightarrow> FString \<Rightarrow> int array_result" where
  "fth_string_index fs key = bind_outcome (c_string fs) (\<lambda>s. bind_outcome (c_string key) (\<lambda>k.
     case strstr s k of Some i \<Rightarrow> Ok (int i) | None \<Rightarrow> Ok (-1)))"

definition fth_string_member_p :: "FString \<Rightarrow> FString \<Rightarrow> bool array_result" where
  "fth_string_member_p fs key = bind_outcome (c_string fs) (\<lambda>s. bind_outcome (c_string key) (\<lambda>k. Ok (strstr s k \<noteq> None)))"

text \<open>A key that is a string; the search for a regular expression is that of the C library.\<close>

definition fth_string_find :: "FString \<Rightarrow> FString \<Rightarrow> FString option array_result" where
  "fth_string_find fs key = bind_outcome (c_string fs) (\<lambda>s. bind_outcome (c_string key) (\<lambda>k.
     case strstr s k of None \<Rightarrow> Ok None
     | Some i \<Rightarrow> bind_outcome (fth_make_string (Some (drop i s))) (\<lambda>r. Ok (Some r))))"

definition fth_string_substring :: "FString \<Rightarrow> int \<Rightarrow> int \<Rightarrow> FString array_result" where
  "fth_string_substring fs start stop =
     (let start = (if start < 0 then start + s_length fs else start)
      in if start < 0 \<or> start \<ge> s_length fs then Throw OUT_OF_RANGE
         else let stop = (if stop < 0 then stop + s_length fs else stop);
                  stop = (if stop < start \<or> stop > s_length fs then s_length fs else stop)
              in bind_outcome (c_string fs) (\<lambda>t.
                 bind_outcome (fth_make_string_len (Some t) (stop - start)) (\<lambda>res.
                   in_chars (memmove_from (s_data res) (s_buf fs) (s_data fs + start) (s_length res)) res)))"

lemma strsep_shorter: "strsep delim s = (p, Some s') \<Longrightarrow> length s' < length s"
proof -
  assume "strsep delim s = (p, Some s')"
  then obtain x where "dropWhile (\<lambda>c. c \<notin> set delim) s = x # s'" by (auto simp: strsep_def split: list.splits)
  then have "Suc (length s') \<le> length s" by (metis length_Cons length_dropWhile_le)
  then show ?thesis by simp
qed

text \<open>
  The tokens of \<open>fth_string_split\<close> with a string of delimiters (a blank, if \<open>reg\<close> is no string); empty ones are left out. The
  strings of the result are listed in the order in which they are pushed; an empty string is its own only part.
\<close>

function split_loop :: "string \<Rightarrow> string option \<Rightarrow> string list" where
  "split_loop delim None = []"
| "split_loop delim (Some s) =
     (let (p, s') = strsep delim s in (if p \<noteq> [] then [p] else []) @ split_loop delim s')"
  by pat_completeness auto

termination
  by (relation "measure (\<lambda>(d, s). case s of None \<Rightarrow> 0 | Some t \<Rightarrow> Suc (length t))")
     (auto split: option.split simp: strsep_shorter [OF sym])

fun make_strings :: "string list \<Rightarrow> FString list array_result" where
  "make_strings [] = Ok []"
| "make_strings (p # ps) = bind_outcome (fth_make_string (Some p)) (\<lambda>s. bind_outcome (make_strings ps) (\<lambda>ss. Ok (s # ss)))"

definition fth_string_split :: "FString \<Rightarrow> FString option \<Rightarrow> FString list array_result" where
  "fth_string_split fs reg =
     (if s_length fs = 0 then Ok [fs]
      else bind_outcome (c_string fs) (\<lambda>s.
           bind_outcome (case reg of None \<Rightarrow> Ok '' '' | Some r \<Rightarrow> c_string r) (\<lambda>delim. make_strings (split_loop delim (Some s)))))"

subsection \<open>Changing the characters\<close>

text \<open>The loop that applies a function to \<open>n\<close> characters from \<open>i\<close> on.\<close>

fun map_loop :: "(char \<Rightarrow> char) \<Rightarrow> nat \<Rightarrow> int \<Rightarrow> FString \<Rightarrow> FString array_result" where
  "map_loop f 0 i s = Ok s"
| "map_loop f (Suc n) i s = bind_outcome (char_at s i) (\<lambda>c. bind_outcome (char_put i (f c) s) (map_loop f n (i + 1)))"

definition map_string :: "(char \<Rightarrow> char) \<Rightarrow> FString \<Rightarrow> FString array_result" where
  "map_string f fs = bind_outcome (map_loop f (nat (s_length fs)) 0 fs) (\<lambda>fs. Ok (string_changed fs))"

definition fth_string_upcase :: "FString \<Rightarrow> FString array_result" where
  "fth_string_upcase fs = (if s_length fs = 0 then Ok fs else map_string toupper fs)"

definition fth_string_downcase :: "FString \<Rightarrow> FString array_result" where
  "fth_string_downcase fs = (if s_length fs = 0 then Ok fs else map_string tolower fs)"

definition fth_string_capitalize :: "FString \<Rightarrow> FString array_result" where
  "fth_string_capitalize fs =
     (if s_length fs = 0 then Ok fs
      else bind_outcome (char_at fs 0) (\<lambda>c.
           bind_outcome (char_put 0 (toupper c) fs) (\<lambda>fs.
           bind_outcome (map_loop tolower (nat (s_length fs) - 1) 1 fs) (\<lambda>fs. Ok (string_changed fs)))))"

text \<open>
  The loops of \<open>fth_string_replace\<close>: \<open>tmp\<close> is the distance of the pointer of that name from \<open>data\<close>, \<open>cf\<close> the text looked for and
  \<open>lf\<close> its length. With an empty text to look for they need not end. The pointers \<open>tmp\<close> and \<open>b\<close> still point into
  the old buffer when \<open>realloc\<close> has replaced it, and are used: this is \<open>Fault\<close>.
\<close>

definition cut_text :: "int \<Rightarrow> int \<Rightarrow> FString \<Rightarrow> FString array_result" where
  "cut_text lf i fs =
     (let fs = fs\<lparr>s_length := s_length fs - lf\<rparr>
      in in_chars (memmove (s_data fs + i) (s_data fs + i + lf) (s_length fs - i)) fs)"

partial_function (option) delete_loop :: "string \<Rightarrow> int \<Rightarrow> int \<Rightarrow> FString \<Rightarrow> FString array_result option" where
  "delete_loop cf lf tmp fs =
     (case text_from fs tmp of
        Ok t \<Rightarrow>
          (case strstr t cf of None \<Rightarrow> Some (Ok fs)
           | Some k \<Rightarrow>
               (case bind_outcome (cut_text lf (tmp + int k) fs) (\<lambda>fs. char_put (s_length fs) NUL fs) of
                  Ok fs \<Rightarrow> delete_loop cf lf (tmp + int k) fs
                | Throw e \<Rightarrow> Some (Throw e) | Fault \<Rightarrow> Some Fault))
      | Throw e \<Rightarrow> Some (Throw e) | Fault \<Rightarrow> Some Fault)"

declare delete_loop.simps [code]

definition put_text :: "FString \<Rightarrow> int \<Rightarrow> int \<Rightarrow> FString \<Rightarrow> FString array_result" where
  "put_text to lt i fs =
     (let l = NEW_SEQ_LENGTH (s_top fs + s_length fs + lt + 1)
      in if l > MAX_SEQ_LENGTH then Throw OUT_OF_RANGE
         else if l > s_buf_length fs then Fault
         else bind_outcome (in_chars (memmove (s_data fs + i + lt) (s_data fs + i) (s_length fs - i)) fs) (\<lambda>fs.
              bind_outcome (in_chars (memmove_from (s_data fs + i) (s_buf to) (s_data to) lt) fs) (\<lambda>fs.
              let fs = fs\<lparr>s_length := s_length fs + lt\<rparr> in char_put (s_length fs) NUL fs)))"

partial_function (option) replace_loop :: "string \<Rightarrow> int \<Rightarrow> FString \<Rightarrow> int \<Rightarrow> int \<Rightarrow> FString \<Rightarrow> FString array_result option" where
  "replace_loop cf lf to lt tmp fs =
     (case text_from fs tmp of
        Ok t \<Rightarrow>
          (case strstr t cf of None \<Rightarrow> Some (Ok fs)
           | Some k \<Rightarrow>
               (case bind_outcome (cut_text lf (tmp + int k) fs) (put_text to lt (tmp + int k)) of
                  Ok fs \<Rightarrow> replace_loop cf lf to lt (tmp + int k + lt) fs
                | Throw e \<Rightarrow> Some (Throw e) | Fault \<Rightarrow> Some Fault))
      | Throw e \<Rightarrow> Some (Throw e) | Fault \<Rightarrow> Some Fault)"

declare replace_loop.simps [code]

definition fth_string_replace :: "FString \<Rightarrow> FString \<Rightarrow> FString \<Rightarrow> FString array_result option" where
  "fth_string_replace fs src to =
     (if s_length fs = 0 then Some (Ok fs)
      else if s_length src = 1 \<and> s_length to = 1
      then Some (bind_outcome (char_at src 0) (\<lambda>f. bind_outcome (char_at to 0) (\<lambda>t. map_string (\<lambda>c. if c = f then t else c) fs)))
      else (case c_string src of
              Ok cf \<Rightarrow> map_option (\<lambda>r. bind_outcome r (\<lambda>fs. Ok (string_changed fs)))
                (if s_length to = 0 then delete_loop cf (s_length src) 0 fs
                 else replace_loop cf (s_length src) to (s_length to) 0 fs)
            | Throw e \<Rightarrow> Some (Throw e) | Fault \<Rightarrow> Some Fault))"

text \<open>For an empty string the byte before its data is looked at.\<close>

definition fth_string_chomp :: "FString \<Rightarrow> FString array_result" where
  "fth_string_chomp fs = bind_outcome (char_at fs (s_length fs - 1)) (\<lambda>c.
     if c = CHR 0x0A then bind_outcome (fth_string_pop fs) (\<lambda>(c, fs). Ok fs) else Ok fs)"

end
