(* ===== verification/Fth_Printf.thy ===== *)
theory Fth_Printf
  imports Fth_Number Fth_String
begin

text \<open>
  Formatted output (\<open>src/printf.c\<close>): \<open>doprnt\<close>, which takes its arguments from a \<open>va_list\<close>, and \<open>string_doprnt\<close>, which takes them from an array of objects, with the
  functions that collect the output in a buffer. Both call \<open>addchar\<close> for every character and never look at what it has stored, so that a run is the list of these
  characters. The texts of objects and \<open>snprintf\<close> for floats are parameters.
\<close>

section \<open>Arguments and parameters\<close>

datatype print_error = FTH_ARGUMENT_ERROR | String_error array_error

type_synonym 'a print_result = "(print_error, 'a) outcome"

record ('b, 'f, 'c) print_env =
  pe_addr :: "('b, 'f, 'c) fnum \<Rightarrow> cell"
  pe_float :: "cell \<Rightarrow> 'f"
  pe_inspect :: "('b, 'f, 'c) fnum \<Rightarrow> string option"
  pe_string :: "('b, 'f, 'c) fnum \<Rightarrow> string option"
  pe_string_2 :: "('b, 'f, 'c) fnum \<Rightarrow> string option"
  pe_dump :: "('b, 'f, 'c) fnum \<Rightarrow> string option"
  pe_snprintf :: "string \<Rightarrow> int list \<Rightarrow> 'f \<Rightarrow> string"

text \<open>
  An argument of a variadic function with its class: \<open>int\<close>, the integers of 64 bits (\<open>long\<close>, \<open>long long\<close>, \<open>size_t\<close>), a float, an object, a pointer to a text or \<open>NULL\<close>.
  Reading one as another class is undefined.
\<close>

datatype ('b, 'f, 'c) va_arg = VA_int u32 | VA_long cell | VA_float 'f | VA_obj "('b, 'f, 'c) fnum" | VA_str "string option"

definition INT_MAX :: int where "INT_MAX = 2 ^ 31 - 1"
definition F_INF :: int where "F_INF = INT_MAX"
definition snil :: string where "snil = ''(nil)''"
definition DBL_BUF_LEN :: nat where "DBL_BUF_LEN = 308 + 53 + 3"

text \<open>The size of the buffer for the digits of an integer.\<close>

definition buf_size :: nat where "buf_size = (8 * 8 + 2) div 3 + 1"

section \<open>A directive\<close>

record directive =
  sp_hash :: bool
  sp_left :: bool
  sp_pad :: char
  sp_width :: int
  sp_prec :: int
  sp_long :: nat
  sp_size_t :: bool

text \<open>The character at the pointer, NUL at the end of the format.\<close>

definition peek :: "string \<Rightarrow> char" where "peek f = (case f of [] \<Rightarrow> NUL | c # _ \<Rightarrow> c)"

definition skip :: "char \<Rightarrow> string \<Rightarrow> bool \<times> string" where
  "skip c f = (if peek f = c then (True, tl f) else (False, f))"

text \<open>\<open>atoi\<close> on digits; a value out of the range of \<open>int\<close> is undefined.\<close>

definition atoi :: "string \<Rightarrow> int print_result" where
  "atoi f = (let n = foldl (\<lambda>a c. 10 * a + (of_char c - 48)) 0 (takeWhile isdigit f) in if n \<le> INT_MAX then Ok n else Fault)"

text \<open>A field width or precision: \<open>get_int\<close> fetches the argument of a star.\<close>

definition field :: "('a list \<Rightarrow> (int \<times> 'a list) print_result) \<Rightarrow> int \<Rightarrow> string \<Rightarrow> 'a list \<Rightarrow> (int \<times> string \<times> 'a list) print_result" where
  "field get_int dflt f ap =
     (if peek f = CHR ''*'' then bind_outcome (get_int ap) (\<lambda>(n, ap). Ok (n, tl f, ap))
      else if isdigit (peek f) then bind_outcome (atoi f) (\<lambda>n. Ok (n, dropWhile isdigit f, ap))
      else Ok (dflt, f, ap))"

definition precision :: "('a list \<Rightarrow> (int \<times> 'a list) print_result) \<Rightarrow> string \<Rightarrow> 'a list \<Rightarrow> (int \<times> string \<times> 'a list) print_result" where
  "precision get_int f ap = (if peek f = CHR ''.'' then field get_int F_INF (tl f) ap else Ok (F_INF, f, ap))"

definition size_marks :: "string \<Rightarrow> nat \<times> bool \<times> string" where
  "size_marks f =
     (let (l1, f) = skip (CHR ''l'') f;
          (l2, f) = (if l1 then skip (CHR ''l'') f else (False, f));
          (z, f) = skip (CHR ''z'') f
      in (of_bool l1 + of_bool l2, z, f))"

definition parse_directive ::
    "('a list \<Rightarrow> (int \<times> 'a list) print_result) \<Rightarrow> string \<Rightarrow> 'a list \<Rightarrow> (directive \<times> string \<times> 'a list) print_result" where
  "parse_directive get_int f ap =
     (let (hash, f) = skip (CHR ''#'') f;
          (flush_left, f) = skip (CHR ''-'') f;
          (zero, f) = skip (CHR ''0'') f
      in bind_outcome (field get_int 0 f ap) (\<lambda>(f_width, f, ap).
         bind_outcome (precision get_int f ap) (\<lambda>(prec, f, ap).
           let (do_long, do_size_t, f) = size_marks f
           in Ok (\<lparr>sp_hash = hash, sp_left = flush_left, sp_pad = (if zero then CHR ''0'' else CHR '' ''), sp_width = f_width, sp_prec = prec,
                   sp_long = do_long, sp_size_t = do_size_t\<rparr>, f, ap))))"

section \<open>Output\<close>

text \<open>A text of known length in its field.\<close>

definition out_field :: "directive \<Rightarrow> int \<Rightarrow> string \<Rightarrow> string" where
  "out_field sp len s =
     (let f_width = sp_width sp - len
      in if sp_left sp then s @ replicate (nat f_width) (CHR '' '') else replicate (nat f_width) (sp_pad sp) @ s)"

definition out_char :: "directive \<Rightarrow> int \<Rightarrow> string" where
  "out_char sp i = out_field sp 1 [char_of (i mod 256)]"

text \<open>The digits of an integer are stored from the last one on; more than the buffer holds are written behind it.\<close>

definition out_digits :: "directive \<Rightarrow> string \<Rightarrow> string print_result" where
  "out_digits sp ds = (if length ds \<le> buf_size then Ok (out_field sp (int (length ds)) (rev ds)) else Fault)"

lemma c_div_10_pos: "0 < c_div l 10 \<Longrightarrow> 0 < l \<and> c_div l 10 < l"
  by (cases "0 < l") (auto simp: c_div_def sgn_if zero_less_mult_iff split: if_splits)

function signed_loop :: "int \<Rightarrow> string" where
  "signed_loop l = char_of (c_mod l 10 + 48) # (if c_div l 10 > 0 then signed_loop (c_div l 10) else [])"
  by pat_completeness auto
termination
  by (relation "measure nat") (auto dest: c_div_10_pos)

definition out_signed :: "directive \<Rightarrow> cell \<Rightarrow> string print_result" where
  "out_signed sp l =
     (let sign = (sint l < 0); l = (if sign then - l else l)
      in out_digits sp (signed_loop (sint l) @ (if sign then ''-'' else [])))"

function unsigned_loop :: "(nat \<Rightarrow> char) \<Rightarrow> nat \<Rightarrow> nat \<Rightarrow> string" where
  "unsigned_loop digit b u = digit (u mod b) # (if u div b > 0 \<and> 1 < b then unsigned_loop digit b (u div b) else [])"
  by pat_completeness auto
termination
  by (relation "measure (\<lambda>(digit, b, u). u)") (auto intro!: div_less_dividend gr0I)

declare signed_loop.simps [simp del] unsigned_loop.simps [simp del]

definition dec_digit :: "nat \<Rightarrow> char" where "dec_digit i = char_of (i + 48)"

definition hex_digit :: "char \<Rightarrow> nat \<Rightarrow> char" where
  "hex_digit fmt i = (if i < 10 then char_of (i + 48) else char_of (i - 10 + (if fmt = CHR ''x'' then 97 else 65)))"

definition out_unsigned :: "directive \<Rightarrow> char \<Rightarrow> cell \<Rightarrow> string print_result" where
  "out_unsigned sp fmt u =
     (if fmt \<in> {CHR ''u'', CHR ''U''} then out_digits sp (unsigned_loop dec_digit 10 (unat u))
      else if fmt \<in> {CHR ''o'', CHR ''O''} then out_digits sp (unsigned_loop dec_digit 8 (unat u) @ (if sp_hash sp then ''0'' else []))
      else if fmt \<in> {CHR ''b'', CHR ''B''}
      then out_digits sp (unsigned_loop dec_digit 2 (unat u) @ (if sp_hash sp then [if fmt = CHR ''b'' then CHR ''b'' else CHR ''B'', CHR ''0''] else []))
      else out_digits sp (unsigned_loop (hex_digit fmt) 16 (unat u) @ (if sp_hash sp then [if fmt = CHR ''x'' then CHR ''x'' else CHR ''X'', CHR ''0''] else [])))"

definition out_float :: "('b, 'f, 'c) print_env \<Rightarrow> directive \<Rightarrow> char \<Rightarrow> 'f \<Rightarrow> string" where
  "out_float E sp fmt d =
     (let tf = ''%'' @ (if sp_hash sp then ''#'' else [])
                @ (if sp_width sp = 0 then [] else ''*'') @ (if sp_prec sp = F_INF then [] else ''.*'') @ [fmt];
          stars = (if sp_width sp = 0 then [] else [sp_width sp]) @ (if sp_prec sp = F_INF then [] else [sp_prec sp])
      in takeWhile (\<lambda>c. c \<noteq> NUL) (take (DBL_BUF_LEN - 1) (pe_snprintf E tf stars d)))"

definition out_text :: "directive \<Rightarrow> string option \<Rightarrow> string" where
  "out_text sp p =
     (let bp = (case p of None \<Rightarrow> snil | Some s \<Rightarrow> s)
      in if sp_prec sp = F_INF then out_field sp (int (length bp)) bp
         else out_field sp (sp_prec sp) (take (nat (sp_prec sp)) bp))"

text \<open>The letters of the conversions.\<close>

definition unsigned_formats :: string where "unsigned_formats = ''bBoOxXuU''"
definition float_formats :: string where "float_formats = ''AEFGaefg''"

section \<open>Arguments of the C functions\<close>

fun va_int :: "('b, 'f, 'c) va_arg list \<Rightarrow> (int \<times> ('b, 'f, 'c) va_arg list) print_result" where
  "va_int (VA_int w # ap) = Ok (sint w, ap)" | "va_int _ = Fault"

fun va_signed :: "directive \<Rightarrow> ('b, 'f, 'c) va_arg list \<Rightarrow> (cell \<times> ('b, 'f, 'c) va_arg list) print_result" where
  "va_signed sp (VA_int w # ap) = (if sp_long sp = 0 \<and> \<not> sp_size_t sp then Ok (scast w, ap) else Fault)"
| "va_signed sp (VA_long l # ap) = (if sp_long sp = 0 \<and> \<not> sp_size_t sp then Fault else Ok (l, ap))"
| "va_signed sp _ = Fault"

fun va_unsigned :: "directive \<Rightarrow> ('b, 'f, 'c) va_arg list \<Rightarrow> (cell \<times> ('b, 'f, 'c) va_arg list) print_result" where
  "va_unsigned sp (VA_int w # ap) = (if sp_long sp = 0 \<and> \<not> sp_size_t sp then Ok (ucast w, ap) else Fault)"
| "va_unsigned sp (VA_long u # ap) = (if sp_long sp = 0 \<and> \<not> sp_size_t sp then Fault else Ok (u, ap))"
| "va_unsigned sp _ = Fault"

fun va_float :: "('b, 'f, 'c) va_arg list \<Rightarrow> ('f \<times> ('b, 'f, 'c) va_arg list) print_result" where
  "va_float (VA_float d # ap) = Ok (d, ap)" | "va_float _ = Fault"

fun va_obj :: "('b, 'f, 'c) va_arg list \<Rightarrow> (('b, 'f, 'c) fnum \<times> ('b, 'f, 'c) va_arg list) print_result" where
  "va_obj (VA_obj x # ap) = Ok (x, ap)" | "va_obj _ = Fault"

fun va_str :: "('b, 'f, 'c) va_arg list \<Rightarrow> (string option \<times> ('b, 'f, 'c) va_arg list) print_result" where
  "va_str (VA_str p # ap) = Ok (p, ap)" | "va_str _ = Fault"

definition object_text :: "('b, 'f, 'c) print_env \<Rightarrow> char \<Rightarrow> ('b, 'f, 'c) fnum \<Rightarrow> string option" where
  "object_text E fmt obj =
     (if fmt = CHR ''I'' then pe_inspect E obj else if fmt = CHR ''S'' then pe_string E obj
      else if fmt = CHR ''M'' then pe_string_2 E obj else pe_dump E obj)"

definition doprnt_format ::
    "('b, 'f, 'c) print_env \<Rightarrow> directive \<Rightarrow> char \<Rightarrow> ('b, 'f, 'c) va_arg list \<Rightarrow> (string \<times> ('b, 'f, 'c) va_arg list) print_result" where
  "doprnt_format E sp fmt ap =
     (if fmt = CHR ''c'' then bind_outcome (va_int ap) (\<lambda>(i, ap). Ok (out_char sp i, ap))
      else if fmt = CHR ''d'' then bind_outcome (va_signed sp ap) (\<lambda>(l, ap). bind_outcome (out_signed sp l) (\<lambda>s. Ok (s, ap)))
      else if fmt = CHR ''p''
      then let sp = sp\<lparr>sp_long := 1, sp_hash := True\<rparr>
           in bind_outcome (va_unsigned sp ap) (\<lambda>(u, ap). bind_outcome (out_unsigned sp (CHR ''x'') u) (\<lambda>s. Ok (s, ap)))
      else if fmt \<in> set unsigned_formats
      then bind_outcome (va_unsigned sp ap) (\<lambda>(u, ap). bind_outcome (out_unsigned sp fmt u) (\<lambda>s. Ok (s, ap)))
      else if fmt \<in> set float_formats then bind_outcome (va_float ap) (\<lambda>(d, ap). Ok (out_float E sp fmt d, ap))
      else if fmt \<in> set ''ISMD'' then bind_outcome (va_obj ap) (\<lambda>(obj, ap). Ok (out_text sp (object_text E fmt obj), ap))
      else if fmt \<in> set ''Qqs'' then bind_outcome (va_str ap) (\<lambda>(p, ap). Ok (out_text sp p, ap))
      else if fmt = CHR ''%'' then Ok (''%'', ap)
      else Ok ([], ap))"

section \<open>The loop over the format\<close>

lemma skip_length: "length (snd (skip c f)) \<le> length f"
  by (auto simp: skip_def)

lemma field_length: "field get_int dflt f ap = Ok (n, f', ap') \<Longrightarrow> length f' \<le> length f"
  by (auto simp: field_def outcome_simps length_dropWhile_le split: if_splits)

lemma precision_length: "precision get_int f ap = Ok (n, f', ap') \<Longrightarrow> length f' \<le> length f"
  by (auto simp: precision_def dest!: field_length split: if_splits)

lemma size_marks_length: "length (snd (snd (size_marks f))) \<le> length f"
  by (auto simp: size_marks_def split_beta Let_def intro: order_trans [OF skip_length] skip_length)

lemma parse_directive_length:
  assumes "parse_directive get_int f ap = Ok (sp, f', ap')"
  shows "length f' \<le> length f"
proof -
  define g where "g = snd (skip (CHR ''0'') (snd (skip (CHR ''-'') (snd (skip (CHR ''#'') f)))))"
  have "length g \<le> length f" unfolding g_def by (intro order_trans [OF skip_length] skip_length)
  moreover obtain w f1 ap1 p f2 ap2 where "field get_int 0 g ap = Ok (w, f1, ap1)" "precision get_int f1 ap1 = Ok (p, f2, ap2)"
      "f' = snd (snd (size_marks f2))"
    using assms by (auto simp: parse_directive_def outcome_simps split_beta Let_def g_def)
  ultimately show ?thesis using size_marks_length [of f2] by (fastforce dest: field_length precision_length)
qed

text \<open>
  After the letter of a directive the pointer is moved on: at the end of the format it then points behind the NUL.
\<close>

function print_loop ::
    "('a list \<Rightarrow> (int \<times> 'a list) print_result) \<Rightarrow> (directive \<Rightarrow> char \<Rightarrow> 'a list \<Rightarrow> (string \<times> 'a list) print_result) \<Rightarrow> string \<Rightarrow> 'a list \<Rightarrow> string print_result" where
  "print_loop get_int fmt [] ap = Ok []"
| "print_loop get_int fmt (c # f) ap =
     (if c \<noteq> CHR ''%'' then bind_outcome (print_loop get_int fmt f ap) (\<lambda>cs. Ok (c # cs))
      else case parse_directive get_int f ap of
        Ok (sp, f, ap) \<Rightarrow>
          bind_outcome (fmt sp (peek f) ap) (\<lambda>(cs, ap).
            if f = [] then Fault else bind_outcome (print_loop get_int fmt (tl f) ap) (\<lambda>cs'. Ok (cs @ cs')))
      | Throw e \<Rightarrow> Throw e
      | Fault \<Rightarrow> Fault)"
  by pat_completeness auto
termination
  by (relation "measure (\<lambda>(get_int, fmt, f, ap). length f)") (auto dest: parse_directive_length)

declare print_loop.simps [simp del]

definition doprnt :: "('b, 'f, 'c) print_env \<Rightarrow> string \<Rightarrow> ('b, 'f, 'c) va_arg list \<Rightarrow> string print_result" where
  "doprnt E sfmt ap = print_loop va_int (doprnt_format E) sfmt ap"

section \<open>Formats with objects\<close>

text \<open>The cell that stands for an object.\<close>

definition fth_cell :: "('b, 'f, 'c) print_env \<Rightarrow> ('b, 'f, 'c) fnum \<Rightarrow> cell" where
  "fth_cell E obj = (case obj of Imm c \<Rightarrow> c | Other a \<Rightarrow> a | _ \<Rightarrow> pe_addr E obj)"

definition FTH_LONG_REF :: "('b, 'f, 'c) print_env \<Rightarrow> ('b, 'f, 'c) fnum \<Rightarrow> cell" where
  "FTH_LONG_REF E obj =
     (if fth_fixnum_p obj then FIX_TO_INT (fth_cell E obj) else case obj of LLong d \<Rightarrow> d | _ \<Rightarrow> fth_cell E obj)"

definition FTH_ULONG_REF :: "('b, 'f, 'c) print_env \<Rightarrow> ('b, 'f, 'c) fnum \<Rightarrow> cell" where
  "FTH_ULONG_REF E obj =
     (if fth_fixnum_p obj then FIX_TO_UNSIGNED (fth_cell E obj)
      else case obj of LLong d \<Rightarrow> if fth_ullong_p obj then d else fth_cell E obj | _ \<Rightarrow> fth_cell E obj)"

definition FTH_FLOAT_REF :: "('b, 'f, 'c) print_env \<Rightarrow> ('b, 'f, 'c) fnum \<Rightarrow> 'f" where
  "FTH_FLOAT_REF E obj = (case obj of FFloat f \<Rightarrow> f | _ \<Rightarrow> pe_float E (fth_cell E obj))"

fun VA_ARG :: "'a list \<Rightarrow> ('a \<times> 'a list) print_result" where
  "VA_ARG (x # ap) = Ok (x, ap)" | "VA_ARG [] = Throw FTH_ARGUMENT_ERROR"

definition string_int :: "('b, 'f, 'c) print_env \<Rightarrow> ('b, 'f, 'c) fnum list \<Rightarrow> (int \<times> ('b, 'f, 'c) fnum list) print_result" where
  "string_int E ap = bind_outcome (VA_ARG ap) (\<lambda>(val, ap). Ok (c_int (FIX_TO_INT (fth_cell E val)), ap))"

definition string_object_text :: "('b, 'f, 'c) print_env \<Rightarrow> char \<Rightarrow> ('b, 'f, 'c) fnum \<Rightarrow> string option" where
  "string_object_text E fmt val =
     (if fmt = CHR ''p'' then pe_inspect E val else if fmt = CHR ''s'' then pe_string E val else pe_dump E val)"

definition string_format_arg :: "('b, 'f, 'c) print_env \<Rightarrow> directive \<Rightarrow> char \<Rightarrow> ('b, 'f, 'c) fnum \<Rightarrow> string print_result" where
  "string_format_arg E sp fmt val =
     (if fmt = CHR ''c'' then Ok (out_char sp (sint (FIX_TO_INT (fth_cell E val))))
      else if fmt = CHR ''d'' then out_signed sp (FTH_LONG_REF E val)
      else if fmt \<in> set unsigned_formats then out_unsigned sp fmt (FTH_ULONG_REF E val)
      else if fmt \<in> set float_formats then Ok (out_float E sp fmt (FTH_FLOAT_REF E val))
      else Ok (out_text sp (string_object_text E fmt val)))"

text \<open>The letters of the directives that take an argument.\<close>

definition arg_formats :: string where "arg_formats = ''cd'' @ unsigned_formats @ float_formats @ ''psSm''"

definition string_doprnt_format ::
    "('b, 'f, 'c) print_env \<Rightarrow> directive \<Rightarrow> char \<Rightarrow> ('b, 'f, 'c) fnum list \<Rightarrow> (string \<times> ('b, 'f, 'c) fnum list) print_result" where
  "string_doprnt_format E sp fmt ap =
     (if fmt \<in> set arg_formats
      then bind_outcome (VA_ARG ap) (\<lambda>(val, ap). bind_outcome (string_format_arg E sp fmt val) (\<lambda>s. Ok (s, ap)))
      else if fmt = CHR ''%'' then Ok (''%'', ap)
      else Ok ([], ap))"

definition string_doprnt :: "('b, 'f, 'c) print_env \<Rightarrow> string \<Rightarrow> ('b, 'f, 'c) fnum list \<Rightarrow> string print_result" where
  "string_doprnt E sfmt ap = print_loop (string_int E) (string_doprnt_format E) sfmt ap"

section \<open>Collecting the output\<close>

text \<open>\<open>xstring\<close> and \<open>xestring\<close> are positions in the buffer they point to.\<close>

record xbuffer =
  x_buf :: "char option list"
  xstring :: int
  xestring :: int

definition x_put :: "xbuffer \<Rightarrow> char \<Rightarrow> xbuffer print_result" where
  "x_put x c =
     (if 0 \<le> xstring x \<and> xstring x < int (length (x_buf x)) then Ok (x\<lparr>x_buf := (x_buf x)[nat (xstring x) := Some c]\<rparr>) else Fault)"

definition xaddchar :: "xbuffer \<Rightarrow> char \<Rightarrow> xbuffer print_result" where
  "xaddchar x c =
     (if xestring x = xstring x then x_put x NUL
      else bind_outcome (x_put x c) (\<lambda>x. Ok (x\<lparr>xstring := xstring x + 1\<rparr>)))"

fun xaddchars :: "xbuffer \<Rightarrow> string \<Rightarrow> xbuffer print_result" where
  "xaddchars x [] = Ok x"
| "xaddchars x (c # cs) = bind_outcome (xaddchar x c) (\<lambda>x. xaddchars x cs)"

text \<open>
  The loop of \<open>fth_vformat\<close> and \<open>fth_string_vformat\<close>: the buffer is doubled and everything is printed again until it has been large enough. \<open>out\<close> is what printing
  gives.
\<close>

partial_function (option) vformat_loop :: "string print_result \<Rightarrow> char option list \<Rightarrow> int \<Rightarrow> xbuffer print_result option" where
  "vformat_loop out buf sz =
     (let buf = FTH_REALLOC buf sz
      in case bind_outcome out (xaddchars \<lparr>x_buf = buf, xstring = 0, xestring = sz - 1\<rparr>) of
           Ok x \<Rightarrow> if xstring x < xestring x then Some (Ok x) else vformat_loop out (x_buf x) (2 * sz)
         | Throw e \<Rightarrow> Some (Throw e)
         | Fault \<Rightarrow> Some Fault)"

definition fth_vformat :: "('b, 'f, 'c) print_env \<Rightarrow> string \<Rightarrow> ('b, 'f, 'c) va_arg list \<Rightarrow> char option list print_result option" where
  "fth_vformat E fmt ap =
     map_option (\<lambda>r. bind_outcome r (\<lambda>x. bind_outcome (x_put x NUL) (\<lambda>x. Ok (FTH_REALLOC (x_buf x) (xstring x + 1)))))
       (vformat_loop (doprnt E fmt ap) [] 2048)"

definition fth_vsnprintf ::
    "('b, 'f, 'c) print_env \<Rightarrow> char option list \<Rightarrow> int \<Rightarrow> string \<Rightarrow> ('b, 'f, 'c) va_arg list \<Rightarrow> (int \<times> char option list) print_result" where
  "fth_vsnprintf E str sz fmt ap =
     bind_outcome (doprnt E fmt ap) (\<lambda>cs.
     bind_outcome (xaddchars \<lparr>x_buf = str, xstring = 0, xestring = sz - 1\<rparr> cs) (\<lambda>x.
     bind_outcome (x_put x NUL) (\<lambda>x. Ok (xstring x + 1, x_buf x))))"

text \<open>\<open>sizeof(buffer)\<close> is the size of a pointer.\<close>

definition fth_vsprintf ::
    "('b, 'f, 'c) print_env \<Rightarrow> char option list option \<Rightarrow> string \<Rightarrow> ('b, 'f, 'c) va_arg list \<Rightarrow> (int \<times> char option list) print_result" where
  "fth_vsprintf E buffer fmt ap = (case buffer of None \<Rightarrow> Ok (- 1, []) | Some str \<Rightarrow> fth_vsnprintf E str 8 fmt ap)"

fun string_result :: "'a array_result \<Rightarrow> 'a print_result" where
  "string_result (Ok s) = Ok s" | "string_result (Throw e) = Throw (String_error e)" | "string_result Fault = Fault"

definition fth_vasprintf :: "('b, 'f, 'c) print_env \<Rightarrow> string \<Rightarrow> ('b, 'f, 'c) va_arg list \<Rightarrow> (char option list \<times> int) print_result option" where
  "fth_vasprintf E fmt ap =
     map_option (\<lambda>r. bind_outcome r (\<lambda>b. bind_outcome (string_result (c_text b)) (\<lambda>s. Ok (b, int (length s))))) (fth_vformat E fmt ap)"

definition fth_string_vformat :: "('b, 'f, 'c) print_env \<Rightarrow> string \<Rightarrow> ('b, 'f, 'c) fnum list \<Rightarrow> FString print_result option" where
  "fth_string_vformat E fmt args =
     map_option (\<lambda>r. bind_outcome r (\<lambda>x. bind_outcome (x_put x NUL) (\<lambda>x.
         string_result (bind_outcome (c_text (x_buf x)) (\<lambda>t. fth_make_string (Some t))))))
       (vformat_loop (string_doprnt E fmt args) [] 2048)"

text \<open>The arguments of \<open>string-format\<close>: \<open>#f\<close> or \<open>nil\<close>, an array, or another object.\<close>

datatype ('b, 'f, 'c) format_args = No_args | Args_array "('b, 'f, 'c) fnum list" | One_arg "('b, 'f, 'c) fnum"

fun fth_string_format :: "('b, 'f, 'c) print_env \<Rightarrow> FString \<Rightarrow> ('b, 'f, 'c) format_args \<Rightarrow> FString print_result option" where
  "fth_string_format E fs No_args = Some (Ok fs)"
| "fth_string_format E fs (Args_array args) =
     (case c_string fs of Ok fmt \<Rightarrow> fth_string_vformat E fmt args | Throw e \<Rightarrow> Some (Throw (String_error e)) | Fault \<Rightarrow> Some Fault)"
| "fth_string_format E fs (One_arg arg) =
     (case c_string fs of Ok fmt \<Rightarrow> fth_string_vformat E fmt [arg] | Throw e \<Rightarrow> Some (Throw (String_error e)) | Fault \<Rightarrow> Some Fault)"

end
