(* ===== verification/Fth_String_Laws.thy ===== *)
theory Fth_String_Laws
  imports Fth_String
begin

section \<open>Strings as lists of characters\<close>

text \<open>
  A string with its characters in the buffer (\<open>str_chars\<close>), and with the NUL behind them on which the functions of the C
  library rely (\<open>str_holds\<close>). The operations are shown to do on the list of characters what their names say; every one of them
  keeps the NUL but for \<open>fth_string_shift\<close>, when it moves the characters, and \<open>fth_string_delete\<close>, which calls it.
\<close>

definition layout :: "FString \<Rightarrow> char option list \<Rightarrow> string \<Rightarrow> char option list \<Rightarrow> bool" where
  "layout s pre xs post = (s_buf s = pre @ map Some xs @ post \<and> s_top s = int (length pre) \<and> s_data s = s_top s \<and>
     s_length s = int (length xs) \<and> s_buf_length s = int (length (s_buf s)) \<and> s_buf_length s \<le> MAX_SEQ_LENGTH \<and>
     2 * s_top s \<le> MAX_SEQ_LENGTH)"

definition str_chars :: "FString \<Rightarrow> string \<Rightarrow> bool" where
  "str_chars s xs = (\<exists>pre post. layout s pre xs post)"

definition str_holds :: "FString \<Rightarrow> string \<Rightarrow> bool" where
  "str_holds s xs = (\<exists>pre post. layout s pre xs (Some NUL # post))"

text \<open>Up to this length characters can always be added.\<close>

definition str_limit :: nat where
  "str_limit = 4194302"

lemma str_holds_chars: "str_holds s xs \<Longrightarrow> str_chars s xs"
  by (auto simp: str_holds_def str_chars_def)

lemma str_holdsI: "layout s pre xs (Some NUL # post) \<Longrightarrow> str_holds s xs"
  by (auto simp: str_holds_def)

lemma layout_changed [simp]: "layout (string_changed s) pre xs post = layout s pre xs post"
  by (simp add: layout_def string_changed_def)

lemma layout_bounds:
  assumes "layout s pre xs post"
  shows "0 \<le> s_buf_length s" "s_buf_length s \<le> MAX_SEQ_LENGTH" "2 * s_top s \<le> MAX_SEQ_LENGTH"
  using assms unfolding layout_def by auto

lemma str_holds_changed [simp]: "str_holds (string_changed s) xs = str_holds s xs" "str_chars (string_changed s) xs = str_chars s xs"
  by (simp_all add: str_holds_def str_chars_def)

lemma str_chars_length: "str_chars s xs \<Longrightarrow> s_length s = int (length xs)"
  by (auto simp: str_chars_def layout_def)

lemmas str_holds_length = str_chars_length [OF str_holds_chars]

subsection \<open>Steps on the buffer\<close>

lemma memmove_from_list:
  assumes "length vs = length ys"
  shows "memmove_from (int (length us)) (ps @ ys @ qs) (int (length ps)) (int (length ys)) (us @ vs @ ws) = Ok (us @ ys @ ws)"
  using assms by (simp add: memmove_from_def)

lemma memmove_list:
  assumes "b = ps @ ys @ qs" and "b = us @ vs @ ws" and "length vs = length ys"
  shows "memmove (int (length us)) (int (length ps)) (int (length ys)) b = Ok (us @ ys @ ws)"
proof -
  have "int (length ps) + int (length ys) \<le> int (length b)" "int (length us) + int (length ys) \<le> int (length b)"
    unfolding assms(1) [symmetric] using arg_cong [OF assms(1), of length] arg_cong [OF assms(2), of length] assms(3) by simp_all
  moreover have "take (length us) b = us" "drop (length us + length ys) b = ws" using assms(2,3) by simp_all
  moreover have "take (length ys) (drop (length ps) b) = ys" using assms(1) by simp
  ultimately show ?thesis by (simp add: memmove_def nat_add_distrib del: of_nat_add)
qed

lemma char_put_list:
  assumes "s_buf s = us @ x # ws" and "s_data s + i = int (length us)"
  shows "char_put i c s = Ok (s\<lparr>s_buf := us @ Some c # ws\<rparr>)"
  using assms by (simp add: char_put_def Let_def)

lemma char_at_list:
  assumes "s_buf s = us @ Some c # ws" and "s_data s + i = int (length us)"
  shows "char_at s i = Ok c"
  using assms by (simp add: char_at_def Let_def nth_append)

lemma c_text_map: "NUL \<notin> set xs \<Longrightarrow> c_text (map Some xs @ Some NUL # post) = Ok xs"
  by (induction xs) auto

lemma text_from_holds:
  assumes "str_holds s xs" and "NUL \<notin> set xs" and "i \<le> length xs"
  shows "text_from s (int i) = Ok (drop i xs)"
proof -
  obtain pre post where b: "layout s pre xs (Some NUL # post)" using assms(1) by (auto simp: str_holds_def)
  have n: "NUL \<notin> set (drop i xs)" using assms(2) set_drop_subset [of i xs] by blast
  have "drop (length pre + i) (s_buf s) = map Some (drop i xs) @ Some NUL # post"
    using b assms(3) by (simp add: layout_def drop_map)
  then show ?thesis
    using b assms(3) c_text_map [OF n] by (simp add: text_from_def layout_def Let_def nat_add_distrib)
qed

lemma c_string_holds: "str_holds s xs \<Longrightarrow> NUL \<notin> set xs \<Longrightarrow> c_string s = Ok xs"
  using text_from_holds [of s xs 0] by simp

lemma resize_layout:
  assumes "layout s pre xs (c # post)" and "s_top s + int (length xs) < n" and "n \<le> MAX_SEQ_LENGTH"
  shows "\<exists>post'. layout (resize_chars n s) pre xs (c # post')"
proof -
  have b: "s_buf s = (pre @ map Some xs @ [c]) @ post" "s_top s = int (length pre)" using assms(1) by (simp_all add: layout_def)
  have n: "length (pre @ map Some xs @ [c]) \<le> nat n" "int (nat n) = n" using assms(2) b(2) by auto
  obtain p where "FTH_REALLOC (s_buf s) n = (pre @ map Some xs @ [c]) @ p" "length ((pre @ map Some xs @ [c]) @ p) = nat n"
    using FTH_REALLOC_keeps [OF n(1)] b(1) by metis
  then show ?thesis using assms(1,3) n(2) by (intro exI [of _ p]) (simp add: layout_def resize_chars_def)
qed

lemma grow_layout:
  assumes "layout s pre xs post" and "n < MAX_SEQ_LENGTH" and "s_top s + int (length xs) \<le> n"
  shows "\<exists>s' post'. grow_chars n s = Ok s' \<and> layout s' pre xs post' \<and> n \<le> s_buf_length s'"
proof (cases "n > s_buf_length s")
  case True
  have b: "s_buf s = (pre @ map Some xs) @ post" "s_top s = int (length pre)" using assms(1) by (simp_all add: layout_def)
  let ?l = "NEW_SEQ_LENGTH n"
  have l: "?l \<le> MAX_SEQ_LENGTH" "n < ?l" using assms(2) NEW_SEQ_LENGTH_fits NEW_SEQ_LENGTH_bounds(1) by simp_all
  have n: "length (pre @ map Some xs) \<le> nat ?l" "int (nat ?l) = ?l" using assms(3) b(2) l(2) by auto
  obtain p where "FTH_REALLOC (s_buf s) ?l = (pre @ map Some xs) @ p" "length ((pre @ map Some xs) @ p) = nat ?l"
    using FTH_REALLOC_keeps [OF n(1)] b(1) by metis
  then have "layout (resize_chars ?l s) pre xs p" using assms(1) l(1) n(2) by (simp add: layout_def resize_chars_def)
  then show ?thesis using True l by (intro exI [of _ "resize_chars ?l s"] exI [of _ p]) (simp add: grow_chars_def resize_chars_def Let_def)
next
  case False
  then show ?thesis using assms(1) by (intro exI [of _ s] exI [of _ post]) (simp add: grow_chars_def)
qed

subsection \<open>Creation\<close>

lemma make_string_len_layout:
  assumes "n \<le> str_limit"
  shows "\<exists>s pre vs post. make_string_len (int n) = Ok s \<and> s_buf s = pre @ vs @ Some NUL # post \<and> length vs = n \<and>
    s_top s = int (length pre) \<and> s_data s = s_top s \<and> s_length s = int n \<and> s_buf_length s = int (length (s_buf s)) \<and>
    s_buf_length s \<le> MAX_SEQ_LENGTH \<and> 2 * s_top s \<le> MAX_SEQ_LENGTH"
proof -
  let ?t = "NEW_SEQ_LENGTH (int n + 1) div 3"
  let ?b = "NEW_SEQ_LENGTH (int n + 1 + ?t)"
  have n: "int n \<le> 4194302" using assms by (simp add: str_limit_def)
  have t: "0 \<le> ?t" "3 * ?t \<le> int n + 129" using NEW_SEQ_LENGTH_bounds [of "int n + 1"] by auto
  have b: "int n + 1 + ?t < ?b" using NEW_SEQ_LENGTH_bounds(1) .
  have "int n + 1 + ?t < MAX_SEQ_LENGTH" using n t by (simp add: MAX_SEQ_LENGTH_def)
  then have m: "?b \<le> MAX_SEQ_LENGTH" by (simp only: NEW_SEQ_LENGTH_fits)
  let ?s = "\<lparr>s_length = int n, s_buf_length = ?b, s_top = ?t, s_data = ?t, s_buf = replicate (nat ?b) (Some NUL), s_changed_p = True\<rparr>"
  have "make_string_len (int n) = Ok ?s"
    using m n by (simp add: make_string_len_def Let_def MAX_SEQ_LENGTH_def)
  moreover have "nat ?b = nat ?t + n + Suc (nat (?b - ?t - int n - 1))" using t(1) b by linarith
  then have "replicate (nat ?b) (Some NUL) =
      replicate (nat ?t) (Some NUL) @ replicate n (Some NUL) @ Some NUL # replicate (nat (?b - ?t - int n - 1)) (Some NUL)"
    by (simp only: replicate_add replicate_Suc append_assoc append_Cons)
  ultimately show ?thesis
    using m t b n by (intro exI [of _ ?s] exI [of _ "replicate (nat ?t) (Some NUL)"] exI [of _ "replicate n (Some NUL)"] exI) (auto simp: MAX_SEQ_LENGTH_def)
qed

lemma fth_make_string_holds:
  assumes "length t \<le> str_limit"
  shows "\<exists>s. fth_make_string (Some t) = Ok s \<and> str_holds s t"
proof -
  obtain s pre vs post where s: "make_string_len (int (length t)) = Ok s" "s_buf s = pre @ vs @ Some NUL # post" "length vs = length t"
      "s_top s = int (length pre)" "s_data s = s_top s" "s_length s = int (length t)" "s_buf_length s = int (length (s_buf s))"
      "s_buf_length s \<le> MAX_SEQ_LENGTH" "2 * s_top s \<le> MAX_SEQ_LENGTH"
    using make_string_len_layout [OF assms] by blast
  have "memmove_from (s_data s) (map Some t) 0 (int (length t)) (s_buf s) = Ok (pre @ map Some t @ Some NUL # post)"
    using memmove_from_list [of vs "map Some t" pre "[]" "[]" "Some NUL # post"] s(2-5) by simp
  then have "fth_make_string (Some t) = Ok (s\<lparr>s_buf := pre @ map Some t @ Some NUL # post\<rparr>)"
    using s(1) by (simp add: fth_make_string_def in_chars_def)
  moreover have "layout (s\<lparr>s_buf := pre @ map Some t @ Some NUL # post\<rparr>) pre t (Some NUL # post)"
    using s by (simp add: layout_def)
  ultimately show ?thesis by (auto simp: str_holds_def)
qed

lemma fth_string_copy_holds:
  assumes "str_holds s xs" and "NUL \<notin> set xs" and "length xs \<le> str_limit"
  shows "\<exists>s'. fth_string_copy s = Ok s' \<and> str_holds s' xs"
  using fth_make_string_holds [OF assms(3)] c_string_holds [OF assms(1,2)]
  by (simp add: fth_string_copy_def str_to_string_def)

lemma fth_string_append_holds:
  assumes "str_holds s xs" and "str_holds t ys" and "NUL \<notin> set xs" and "NUL \<notin> set ys" and "length xs + length ys \<le> str_limit"
  shows "\<exists>r. fth_string_append s t = Ok r \<and> str_holds r (xs @ ys)"
  using fth_make_string_holds [of "xs @ ys"] c_string_holds [OF assms(1,3)] c_string_holds [OF assms(2,4)] assms(5)
  by (simp add: fth_string_append_def)

subsection \<open>Both ends\<close>

lemma terminated_layout:
  assumes "s_buf s = pre @ map Some xs @ c # post" and "s_top s = int (length pre)" and "s_data s = s_top s"
    and "s_buf_length s = int (length (s_buf s))" and "s_buf_length s \<le> MAX_SEQ_LENGTH" and "2 * s_top s \<le> MAX_SEQ_LENGTH"
    and "len = int (length xs)"
  shows "\<exists>s'. terminated len s = Ok s' \<and> str_holds s' xs"
proof -
  let ?s = "s\<lparr>s_length := len, s_buf := pre @ map Some xs @ Some NUL # post\<rparr>"
  have "char_put len NUL (s\<lparr>s_length := len\<rparr>) = Ok ?s"
    using char_put_list [of "s\<lparr>s_length := len\<rparr>" "pre @ map Some xs" c post len NUL] assms(1-3,7) by simp
  moreover have "layout ?s pre xs (Some NUL # post)" using assms by (simp add: layout_def)
  ultimately show ?thesis by (auto simp: terminated_def str_holds_def)
qed

lemma fth_string_push_holds:
  assumes "str_chars s xs" and "str_chars add ys" and "ys \<noteq> []" and "length xs + length ys \<le> str_limit"
  shows "\<exists>s'. fth_string_push s add = Ok s' \<and> str_holds s' (xs @ ys)"
proof -
  obtain pre post where b: "layout s pre xs post" using assms(1) by (auto simp: str_chars_def)
  obtain apre apost where a: "layout add apre ys apost" using assms(2) by (auto simp: str_chars_def)
  let ?n = "s_top s + s_length s + s_length add + 1"
  have "int (length xs) + int (length ys) \<le> int str_limit" using assms(4) by simp
  then have "?n < MAX_SEQ_LENGTH" "s_top s + int (length xs) \<le> ?n"
    using a b by (simp_all add: layout_def str_limit_def MAX_SEQ_LENGTH_def)
  then obtain s1 post1 where g: "grow_chars ?n s = Ok s1" "layout s1 pre xs post1" "?n \<le> s_buf_length s1"
    using grow_layout [OF b] by blast
  have "length ys < length post1" using g(2,3) a b by (auto simp: layout_def)
  then obtain vs c ws where post: "post1 = vs @ c # ws" "length vs = length ys"
    by (metis append_take_drop_id id_take_nth_drop length_take min.absorb4)
  have "memmove_from (s_data s1 + s_length s) (s_buf add) (s_data add) (s_length add) (s_buf s1) = Ok (pre @ map Some (xs @ ys) @ c # ws)"
    using memmove_from_list [of vs "map Some ys" "pre @ map Some xs" apre apost "c # ws"] a b g(2) post
    by (simp add: layout_def)
  then have m: "in_chars (memmove_from (s_data s1 + s_length s) (s_buf add) (s_data add) (s_length add)) s1 =
      Ok (s1\<lparr>s_buf := pre @ map Some (xs @ ys) @ c # ws\<rparr>)" by (simp add: in_chars_def)
  have "\<exists>s'. terminated (s_length s1 + s_length add) (s1\<lparr>s_buf := pre @ map Some (xs @ ys) @ c # ws\<rparr>) = Ok s' \<and> str_holds s' (xs @ ys)"
    by (rule terminated_layout [where pre = pre and c = c and post = ws]) (use g(2) a post in \<open>auto simp: layout_def\<close>)
  then show ?thesis using g(1) m a assms(3) by (simp add: fth_string_push_def layout_def)
qed

lemma split_buffer:
  assumes "n + m < length b"
  shows "\<exists>us vs c ws. b = us @ vs @ c # ws \<and> length us = n \<and> length vs = m"
proof -
  have "b = take n b @ take m (drop n b) @ b ! (n + m) # drop (Suc (n + m)) b"
    using assms id_take_nth_drop [OF assms] by (simp add: take_add)
  then show ?thesis using assms by (intro exI conjI) auto
qed

lemma fth_string_pop_holds:
  assumes "str_chars s (xs @ [x])"
  shows "\<exists>s'. fth_string_pop s = Ok (Some x, s') \<and> str_holds s' xs"
proof -
  obtain pre post where b: "layout s pre (xs @ [x]) post" using assms by (auto simp: str_chars_def)
  let ?l = "NEW_SEQ_LENGTH (s_top s + s_length s)"
  let ?s = "s\<lparr>s_length := int (length xs), s_buf := pre @ map Some xs @ Some NUL # post\<rparr>"
  have l: "s_top s + int (length xs) < ?l" using NEW_SEQ_LENGTH_bounds(1) [of "s_top s + s_length s"] b by (simp add: layout_def)
  have s: "layout ?s pre xs (Some NUL # post)" using b by (auto simp: layout_def)
  have "char_at (s\<lparr>s_length := int (length xs)\<rparr>) (int (length xs)) = Ok x"
    by (rule char_at_list [of _ "pre @ map Some xs" x post]) (use b in \<open>simp_all add: layout_def\<close>)
  moreover have "char_put (int (length xs)) NUL (s\<lparr>s_length := int (length xs)\<rparr>) = Ok ?s"
    using char_put_list [of "s\<lparr>s_length := int (length xs)\<rparr>" "pre @ map Some xs" "Some x" post "int (length xs)" NUL] b
    by (simp add: layout_def)
  moreover have "s_length s = int (length xs) + 1" using b by (simp add: layout_def)
  ultimately have "fth_string_pop s = Ok (Some x, string_changed (if ?l < s_buf_length s then resize_chars ?l ?s else ?s))"
    by (simp add: fth_string_pop_def Let_def)
  moreover have "str_holds (if ?l < s_buf_length s then resize_chars ?l ?s else ?s) xs"
  proof (cases "?l < s_buf_length s")
    case True
    then have "?l \<le> MAX_SEQ_LENGTH" using layout_bounds(2) [OF b] by linarith
    then show ?thesis using resize_layout [OF s, of ?l] l True by (auto simp: str_holds_def)
  next
    case False
    then show ?thesis using s by (auto simp: str_holds_def)
  qed
  ultimately show ?thesis by simp
qed

lemma put_front_holds:
  assumes "layout add apre ys apost" and "s_buf s = pre @ vs @ map Some xs @ c # ws" and "length vs = length ys"
    and "s_buf_length s = int (length (s_buf s))" and "s_buf_length s \<le> MAX_SEQ_LENGTH" and "2 * int (length pre) \<le> MAX_SEQ_LENGTH"
    and "s_top s = int (length pre)" and "s_length s = int (length ys + length xs)"
  shows "\<exists>s'. bind_outcome (in_chars (memmove_from (s_top s) (s_buf add) (s_data add) (s_length add)) s)
      (\<lambda>fs. terminated (s_length fs) (fs\<lparr>s_data := s_top fs\<rparr>)) = Ok s' \<and> str_holds s' (ys @ xs)"
proof -
  let ?s = "s\<lparr>s_buf := pre @ map Some (ys @ xs) @ c # ws\<rparr>"
  have "memmove_from (s_top s) (s_buf add) (s_data add) (s_length add) (s_buf s) = Ok (pre @ map Some (ys @ xs) @ c # ws)"
    using memmove_from_list [of vs "map Some ys" pre apre apost "map Some xs @ c # ws"] assms(1-3,7) by (simp add: layout_def)
  then have "in_chars (memmove_from (s_top s) (s_buf add) (s_data add) (s_length add)) s = Ok ?s" by (simp add: in_chars_def)
  moreover have "\<exists>s'. terminated (s_length ?s) (?s\<lparr>s_data := s_top ?s\<rparr>) = Ok s' \<and> str_holds s' (ys @ xs)"
    by (rule terminated_layout [where pre = pre and c = c and post = ws]) (use assms in \<open>auto simp: layout_def\<close>)
  ultimately show ?thesis by simp
qed

lemma fth_string_unshift_holds:
  assumes "str_chars s xs" and "str_chars add ys" and "ys \<noteq> []" and "length xs + length ys \<le> str_limit"
  shows "\<exists>s'. fth_string_unshift s add = Ok s' \<and> str_holds s' (ys @ xs)"
proof -
  obtain pre post where b: "layout s pre xs post" using assms(1) by (auto simp: str_chars_def)
  obtain apre apost where a: "layout add apre ys apost" using assms(2) by (auto simp: str_chars_def)
  have al: "s_length add = int (length ys)" "s_length s = int (length xs)" "s_top s = int (length pre)" using a b by (simp_all add: layout_def)
  have lim: "int (length xs) + int (length ys) \<le> 4194302" using assms(4) by (simp add: str_limit_def)
  show ?thesis
  proof (cases "s_top s - s_length add < 1")
    case True
    let ?t = "s_buf_length s div 3"
    let ?n = "?t + (s_length s + s_length add) + 1"
    have t: "0 \<le> ?t" "3 * ?t \<le> MAX_SEQ_LENGTH" using layout_bounds(1,2) [OF b] by linarith+
    have "?n < MAX_SEQ_LENGTH" "s_top s + int (length xs) \<le> ?n" using t lim al True by (simp_all add: MAX_SEQ_LENGTH_def)
    then obtain s1 post1 where g: "grow_chars ?n s = Ok s1" "layout s1 pre xs post1" "?n \<le> s_buf_length s1"
      using grow_layout [OF b] by blast
    have "nat ?t + length ys + length xs < length (s_buf s1)" using g(2,3) al t(1) by (simp add: layout_def)
    then obtain us vs c ws where u: "s_buf s1 = us @ vs @ c # ws" "length us = nat ?t + length ys" "length vs = length xs"
      using split_buffer by blast
    obtain u1 u2 where u12: "us = u1 @ u2" "length u1 = nat ?t" "length u2 = length ys"
      using u(2) by (metis append_take_drop_id length_append add_diff_cancel_left' length_drop length_take min.absorb2 le_add1)
    have "memmove (int (length us)) (int (length pre)) (int (length (map Some xs))) (s_buf s1) = Ok (us @ map Some xs @ c # ws)"
      by (rule memmove_list [of _ pre _ post1 _ vs]) (use g(2) u in \<open>simp_all add: layout_def\<close>)
    moreover have "int (length us) = ?t + s_length add" "s_data s1 = int (length pre)" "s_length s1 = int (length xs)"
      using u(2) al t(1) g(2) by (simp_all add: layout_def)
    ultimately have m: "in_chars (memmove (?t + s_length add) (s_data s1) (s_length s1)) s1 = Ok (s1\<lparr>s_buf := us @ map Some xs @ c # ws\<rparr>)"
      by (simp add: in_chars_def)
    let ?s = "s1\<lparr>s_buf := us @ map Some xs @ c # ws, s_top := ?t, s_length := s_length s + s_length add\<rparr>"
    have "\<exists>s'. bind_outcome (in_chars (memmove_from (s_top ?s) (s_buf add) (s_data add) (s_length add)) ?s)
      (\<lambda>fs. terminated (s_length fs) (fs\<lparr>s_data := s_top fs\<rparr>)) = Ok s' \<and> str_holds s' (ys @ xs)"
      by (rule put_front_holds [OF a, of _ u1 u2 xs c ws]) (use g(2) u u12 t al in \<open>auto simp: layout_def\<close>)
    then show ?thesis using True g(1) m assms(3) al by (simp add: fth_string_unshift_def Let_def)
  next
    case False
    let ?t = "s_top s - s_length add"
    let ?n = "?t + (s_length s + s_length add) + 1"
    have "?n < MAX_SEQ_LENGTH" "s_top s + int (length xs) \<le> ?n" using lim al b by (simp_all add: layout_def MAX_SEQ_LENGTH_def)
    then obtain s1 post1 where g: "grow_chars ?n s = Ok s1" "layout s1 pre xs post1" "?n \<le> s_buf_length s1"
      using grow_layout [OF b] by blast
    obtain c ws where p: "post1 = c # ws" using g(2,3) al by (cases post1) (auto simp: layout_def)
    have "length ys \<le> length pre" using False al by simp
    then obtain u1 u2 where u12: "pre = u1 @ u2" "length u2 = length ys"
      by (metis append_take_drop_id diff_diff_cancel length_drop)
    let ?s = "s1\<lparr>s_top := ?t, s_length := s_length s + s_length add\<rparr>"
    have "\<exists>s'. bind_outcome (in_chars (memmove_from (s_top ?s) (s_buf add) (s_data add) (s_length add)) ?s)
      (\<lambda>fs. terminated (s_length fs) (fs\<lparr>s_data := s_top fs\<rparr>)) = Ok s' \<and> str_holds s' (ys @ xs)"
      by (rule put_front_holds [OF a, of _ u1 u2 xs c ws]) (use g(2) p u12 al in \<open>auto simp: layout_def\<close>)
    then show ?thesis using False g(1) assms(3) al by (simp add: fth_string_unshift_def Let_def)
  qed
qed

text \<open>
  \<open>fth_string_shift\<close> keeps the characters; the NUL behind them it keeps as long as it need not move them.
\<close>

lemma shift_moves:
  assumes "layout s pre (x # xs) post" and "s_top s + 1 > s_buf_length s div 2"
  shows "\<exists>pre' post'. in_chars (memmove (s_buf_length s div 3) (s_data s) (s_length s)) (s\<lparr>s_top := s_buf_length s div 3\<rparr>) =
      Ok (s\<lparr>s_top := s_buf_length s div 3, s_buf := pre' @ map Some (x # xs) @ post'\<rparr>) \<and>
    int (length pre') = s_buf_length s div 3 \<and> length (pre' @ map Some (x # xs) @ post') = length (s_buf s)"
proof -
  let ?t = "nat (s_buf_length s div 3)"
  have "?t + length (x # xs) \<le> length (s_buf s)" using assms by (simp add: layout_def)
  then obtain us vs ws where u: "s_buf s = us @ vs @ ws" "length us = ?t" "length vs = length (x # xs)"
    by (metis append_take_drop_id length_take length_drop min.absorb2 add_leE add_le_imp_le_diff add.commute diff_add_inverse)
  have "memmove (int (length us)) (int (length pre)) (int (length (map Some (x # xs)))) (s_buf s) = Ok (us @ map Some (x # xs) @ ws)"
    by (rule memmove_list [of _ pre _ post _ vs]) (use assms(1) u in \<open>simp_all add: layout_def\<close>)
  moreover have "int (length us) = s_buf_length s div 3" using u(2) assms(1) by (simp add: layout_def)
  moreover have "s_data s = int (length pre)" "s_length s = int (length (x # xs))" using assms(1) by (simp_all add: layout_def)
  ultimately show ?thesis using u by (intro exI [of _ us] exI [of _ ws]) (simp add: in_chars_def)
qed

definition shift_finish_chars :: "FString \<Rightarrow> FString" where
  "shift_finish_chars fs =
     (let l = NEW_SEQ_LENGTH (s_top fs + s_length fs);
          fs = fs\<lparr>s_length := s_length fs - 1, s_top := s_top fs + 1\<rparr>;
          fs = (if l < s_buf_length fs then fs\<lparr>s_buf_length := l, s_buf := FTH_REALLOC (s_buf fs) l\<rparr> else fs)
      in string_changed (fs\<lparr>s_data := s_top fs\<rparr>))"

lemma shift_finish_layout:
  assumes "s_buf s = pre @ map Some (x # xs) @ post" and "s_top s = int (length pre)" and "s_length s = int (length (x # xs))"
    and "s_buf_length s = int (length (s_buf s))" and "s_buf_length s \<le> MAX_SEQ_LENGTH" and "2 * s_top s + 2 \<le> MAX_SEQ_LENGTH"
  shows "\<exists>post'. layout (shift_finish_chars s) (pre @ [Some x]) xs post' \<and> (\<forall>c p. post = c # p \<longrightarrow> (\<exists>p'. post' = c # p'))"
proof (cases "NEW_SEQ_LENGTH (s_top s + s_length s) < s_buf_length s")
  case True
  let ?l = "NEW_SEQ_LENGTH (s_top s + s_length s)"
  have l: "s_top s + s_length s < ?l" using NEW_SEQ_LENGTH_bounds(1) .
  obtain c p where post: "post = c # p" using True l assms(1-4) by (cases post) simp_all
  have n: "length (pre @ map Some (x # xs) @ [c]) \<le> nat ?l" "int (nat ?l) = ?l" using l assms(2,3) by auto
  obtain q where "FTH_REALLOC (s_buf s) ?l = (pre @ map Some (x # xs) @ [c]) @ q" "length ((pre @ map Some (x # xs) @ [c]) @ q) = nat ?l"
    using FTH_REALLOC_keeps [OF n(1), of p] assms(1) post by auto
  then have "layout (shift_finish_chars s) (pre @ [Some x]) xs (c # q)"
    using True assms n(2) by (simp add: layout_def shift_finish_chars_def string_changed_def Let_def)
  then show ?thesis using post by auto
next
  case False
  then have "layout (shift_finish_chars s) (pre @ [Some x]) xs post"
    using assms by (simp add: layout_def shift_finish_chars_def string_changed_def Let_def)
  then show ?thesis by auto
qed

lemma fth_string_shift_chars:
  assumes "str_chars s (x # xs)"
  shows "\<exists>s'. fth_string_shift s = Ok (Some x, s') \<and> str_chars s' xs"
proof -
  obtain pre post where b: "layout s pre (x # xs) post" using assms by (auto simp: str_chars_def)
  have c: "char_at s 0 = Ok x" by (rule char_at_list [of _ pre _ "map Some xs @ post"]) (use b in \<open>simp_all add: layout_def\<close>)
  have l: "s_length s \<noteq> 0" using b by (simp add: layout_def)
  show ?thesis
  proof (cases "s_top s + 1 > s_buf_length s div 2")
    case True
    obtain pre' post' where m: "in_chars (memmove (s_buf_length s div 3) (s_data s) (s_length s)) (s\<lparr>s_top := s_buf_length s div 3\<rparr>) =
        Ok (s\<lparr>s_top := s_buf_length s div 3, s_buf := pre' @ map Some (x # xs) @ post'\<rparr>)"
      "int (length pre') = s_buf_length s div 3" "length (pre' @ map Some (x # xs) @ post') = length (s_buf s)"
      using shift_moves [OF b True] by blast
    let ?s = "s\<lparr>s_top := s_buf_length s div 3, s_buf := pre' @ map Some (x # xs) @ post'\<rparr>"
    have "fth_string_shift s = Ok (Some x, shift_finish_chars ?s)"
      using c l m(1) True by (simp add: fth_string_shift_def shift_finish_chars_def Let_def)
    moreover have "2 * s_top ?s + 2 \<le> MAX_SEQ_LENGTH" using layout_bounds(2) [OF b] by (simp add: MAX_SEQ_LENGTH_def)
    then have "\<exists>p. layout (shift_finish_chars ?s) (pre' @ [Some x]) xs p"
      using shift_finish_layout [of ?s pre' x xs post'] m(2,3) b by (auto simp: layout_def)
    ultimately show ?thesis by (auto simp: str_chars_def)
  next
    case False
    then have "fth_string_shift s = Ok (Some x, shift_finish_chars s)"
      using c l by (simp add: fth_string_shift_def shift_finish_chars_def Let_def)
    moreover have "2 * s_top s + 2 \<le> MAX_SEQ_LENGTH" using False layout_bounds(2) [OF b] by linarith
    then have "\<exists>p. layout (shift_finish_chars s) (pre @ [Some x]) xs p"
      using shift_finish_layout [of s pre x xs post] b by (auto simp: layout_def)
    ultimately show ?thesis by (auto simp: str_chars_def)
  qed
qed

lemma fth_string_shift_holds:
  assumes "str_holds s (x # xs)" and "s_top s + 1 \<le> s_buf_length s div 2"
  shows "\<exists>s'. fth_string_shift s = Ok (Some x, s') \<and> str_holds s' xs"
proof -
  obtain pre post where b: "layout s pre (x # xs) (Some NUL # post)" using assms(1) by (auto simp: str_holds_def)
  have "char_at s 0 = Ok x" by (rule char_at_list [of _ pre _ "map Some xs @ Some NUL # post"]) (use b in \<open>simp_all add: layout_def\<close>)
  then have "fth_string_shift s = Ok (Some x, shift_finish_chars s)"
    using assms(2) b by (simp add: fth_string_shift_def shift_finish_chars_def Let_def layout_def)
  moreover have "2 * s_top s + 2 \<le> MAX_SEQ_LENGTH" using assms(2) layout_bounds(2) [OF b] by linarith
  then have "\<exists>p. layout (shift_finish_chars s) (pre @ [Some x]) xs (Some NUL # p)"
    using shift_finish_layout [of s pre x xs "Some NUL # post"] b by (auto simp: layout_def)
  ultimately show ?thesis by (auto simp: str_holds_def)
qed

subsection \<open>Strings as double-ended queues of characters\<close>

text \<open>A character is added as a string of its own.\<close>

definition push_char :: "FString \<Rightarrow> char \<Rightarrow> FString array_result" where
  "push_char s c = bind_outcome (fth_make_string (Some [c])) (fth_string_push s)"

definition unshift_char :: "FString \<Rightarrow> char \<Rightarrow> FString array_result" where
  "unshift_char s c = bind_outcome (fth_make_string (Some [c])) (fth_string_unshift s)"

lemma make_char_chars: "\<exists>s. fth_make_string (Some [c]) = Ok s \<and> str_chars s [c]"
  using fth_make_string_holds [of "[c]"] str_holds_chars by (auto simp: str_limit_def)

interpretation fs: deque str_chars push_char fth_string_pop unshift_char fth_string_shift Some None str_limit
proof unfold_locales
  fix d :: FString and xs v
  assume d: "str_chars d xs" "length xs < str_limit"
  obtain a where a: "fth_make_string (Some [v]) = Ok a" "str_chars a [v]" using make_char_chars by blast
  show "\<exists>d'. push_char d v = Ok d' \<and> str_chars d' (xs @ [v])"
    using fth_string_push_holds [OF d(1) a(2)] d(2) a(1) str_holds_chars by (auto simp: push_char_def)
  show "\<exists>d'. unshift_char d v = Ok d' \<and> str_chars d' (v # xs)"
    using fth_string_unshift_holds [OF d(1) a(2)] d(2) a(1) str_holds_chars by (auto simp: unshift_char_def)
next
  fix d :: FString and xs x
  show "str_chars d (xs @ [x]) \<Longrightarrow> \<exists>d'. fth_string_pop d = Ok (Some x, d') \<and> str_chars d' xs"
    using fth_string_pop_holds str_holds_chars by blast
  show "str_chars d (x # xs) \<Longrightarrow> \<exists>d'. fth_string_shift d = Ok (Some x, d') \<and> str_chars d' xs"
    by (rule fth_string_shift_chars)
next
  fix d :: FString
  assume "str_chars d []"
  then show "fth_string_pop d = Ok (None, d)" "fth_string_shift d = Ok (None, d)"
    by (auto simp: fth_string_pop_def fth_string_shift_def str_chars_length)
qed

subsection \<open>Insertion and deletion\<close>

lemma memmove_up:
  "memmove (int (length us) + int (length vs)) (int (length us)) (int (length ys)) (us @ ys @ vs @ ws) = Ok (us @ take (length vs) (ys @ vs) @ ys @ ws)"
proof -
  have e: "take (length vs) (ys @ vs) @ drop (length vs) (ys @ vs) @ ws = ys @ vs @ ws"
    by (metis append_assoc append_take_drop_id)
  have "memmove (int (length (us @ take (length vs) (ys @ vs)))) (int (length us)) (int (length ys)) (us @ ys @ vs @ ws) =
      Ok ((us @ take (length vs) (ys @ vs)) @ ys @ ws)"
    by (rule memmove_list [of _ us ys "vs @ ws" _ "drop (length vs) (ys @ vs)"]) (simp, simp only: append_assoc e, simp)
  moreover have "int (length (us @ take (length vs) (ys @ vs))) = int (length us) + int (length vs)" by simp
  ultimately show ?thesis by (simp only: append_assoc)
qed

text \<open>Room is made for characters of another string in front of \<open>d\<close>, and they are copied to it.\<close>

lemma open_gap:
  assumes "s_buf s = u @ d @ vs @ w" and "length vs = length ys" and "layout add apre ys apost"
    and "i = int (length u)" and "n = int (length d)" and "l = s_length add"
  shows "\<exists>s1. in_chars (memmove (i + l) i n) s = Ok s1 \<and> s_data s1 = s_data s \<and>
    in_chars (memmove_from i (s_buf add) (s_data add) l) s1 = Ok (s\<lparr>s_buf := u @ map Some ys @ d @ w\<rparr>)"
proof -
  let ?m = "take (length vs) (d @ vs)"
  have al: "s_length add = int (length ys)" using assms(3) by (simp add: layout_def)
  have "memmove (i + l) i n (s_buf s) = Ok (u @ ?m @ d @ w)"
    using memmove_up [of u vs d w] assms(1,2,4-6) al by simp
  moreover have "memmove_from i (s_buf add) (s_data add) l (u @ ?m @ d @ w) = Ok (u @ map Some ys @ d @ w)"
    using memmove_from_list [of ?m "map Some ys" u apre apost "d @ w"] assms(2-6) by (simp add: layout_def)
  ultimately show ?thesis by (simp add: in_chars_def)
qed

lemma fth_string_insert_holds:
  assumes "str_chars s xs" and "str_chars ins ys" and "ys \<noteq> []" and "length xs + length ys \<le> str_limit" and "i < length xs"
  shows "\<exists>s'. fth_string_insert s (int i) ins = Ok s' \<and> str_holds s' (take i xs @ ys @ drop i xs)"
proof (cases "i = 0")
  case True
  then show ?thesis using fth_string_unshift_holds [OF assms(1-4)] by (simp add: fth_string_insert_def Let_def)
next
  case False
  obtain pre post where b: "layout s pre xs post" using assms(1) by (auto simp: str_chars_def)
  obtain apre apost where a: "layout ins apre ys apost" using assms(2) by (auto simp: str_chars_def)
  have al: "s_length ins = int (length ys)" "s_length s = int (length xs)" "s_top s = int (length pre)" using a b by (simp_all add: layout_def)
  let ?n = "s_top s + (s_length s + s_length ins + 1)"
  have "int (length xs) + int (length ys) \<le> 4194302" using assms(4) by (simp add: str_limit_def)
  then have "?n < MAX_SEQ_LENGTH" "s_top s + int (length xs) \<le> ?n" using layout_bounds(3) [OF b] al by (simp_all add: MAX_SEQ_LENGTH_def)
  then obtain s1 post1 where g: "grow_chars ?n s = Ok s1" "layout s1 pre xs post1" "?n \<le> s_buf_length s1"
    using grow_layout [OF b] by blast
  have "length ys < length post1" using g(2,3) al by (auto simp: layout_def)
  then obtain vs c ws where post: "post1 = vs @ c # ws" "length vs = length ys" using split_buffer [of 0 "length ys" post1] by auto
  let ?u = "pre @ map Some (take i xs)" and ?d = "map Some (drop i xs)"
  have xs: "map Some (take i xs) @ ?d = map Some xs" by (simp flip: map_append)
  have "s_buf s1 = pre @ (map Some (take i xs) @ ?d) @ vs @ c # ws" unfolding xs using g(2) post(1) by (simp add: layout_def)
  then have b1: "s_buf s1 = ?u @ ?d @ vs @ c # ws" by (simp only: append_assoc)
  moreover have "s_data s1 + int i = int (length ?u)" "s_length s - int i = int (length ?d)"
    using g(2) assms(5) al by (simp_all add: layout_def of_nat_diff)
  ultimately obtain s2 where "in_chars (memmove (s_data s1 + int i + s_length ins) (s_data s1 + int i) (s_length s - int i)) s1 = Ok s2"
      "s_data s2 = s_data s1"
      "in_chars (memmove_from (s_data s1 + int i) (s_buf ins) (s_data ins) (s_length ins)) s2 = Ok (s1\<lparr>s_buf := ?u @ map Some ys @ ?d @ c # ws\<rparr>)"
    using open_gap [OF _ post(2) a] by blast
  moreover have "\<exists>s'. terminated (s_length s1 + s_length ins) (s1\<lparr>s_buf := ?u @ map Some ys @ ?d @ c # ws\<rparr>) = Ok s' \<and>
      str_holds s' (take i xs @ ys @ drop i xs)"
    by (rule terminated_layout [where pre = pre and c = c and post = ws]) (use g(2) b1 post al assms(5) in \<open>auto simp: layout_def\<close>)
  ultimately show ?thesis using False g(1) al assms(3,5) by (simp add: fth_string_insert_def Let_def)
qed

lemma memmove_down:
  "\<exists>c ws. memmove (int (length us)) (int (length us) + 1) (int (length ys)) (us @ x # ys @ post) = Ok (us @ ys @ c # ws) \<and>
     length ws = length post"
proof -
  obtain vs c where v: "x # ys = vs @ [c]" by (metis append_butlast_last_id list.distinct(1))
  then have l: "length vs = length ys" by (metis length_append_singleton length_Cons nat.inject)
  have "x # ys @ post = vs @ c # post" using v by (metis append.assoc append_Cons append_Nil)
  then have "memmove (int (length us)) (int (length (us @ [x]))) (int (length ys)) (us @ x # ys @ post) = Ok (us @ ys @ c # post)"
    by (intro memmove_list [of _ "us @ [x]" _ post _ vs]) (use l in simp_all)
  then show ?thesis by (auto simp: add.commute)
qed

lemma shrink_layout:
  assumes "layout s pre xs post" and "s_top s + int (length xs) < n"
  shows "\<exists>post'. layout (if n < s_buf_length s then resize_chars n s else s) pre xs post'"
proof (cases "n < s_buf_length s")
  case True
  then obtain c p where "post = c # p" using assms by (cases post) (auto simp: layout_def)
  moreover have "n \<le> MAX_SEQ_LENGTH" using True layout_bounds(2) [OF assms(1)] by linarith
  ultimately show ?thesis using resize_layout [of s pre xs c p n] assms True by auto
qed (use assms(1) in auto)

lemma resize_chars_length [simp]: "resize_chars l (s\<lparr>s_length := n\<rparr>) = (resize_chars l s)\<lparr>s_length := n\<rparr>"
  by (cases s) (simp add: resize_chars_def)

lemma fth_string_delete_inner:
  assumes "0 < i" and "i < s_length s - 1" and "char_at s i = Ok c"
    and "t = (if NEW_SEQ_LENGTH (s_top s + s_length s) < s_buf_length s then resize_chars (NEW_SEQ_LENGTH (s_top s + s_length s)) s else s)
      \<lparr>s_length := s_length s - 1\<rparr>"
  shows "fth_string_delete s i = bind_outcome (in_chars (memmove (s_data t + i) (s_data t + i + 1) (s_length t - i)) t)
    (\<lambda>fs. bind_outcome (terminated (s_length fs) fs) (\<lambda>fs. Ok (Some c, fs)))"
  using assms by (simp add: fth_string_delete_def Let_def add.assoc)

lemma fth_string_delete_middle:
  assumes "layout s pre (xs @ x # ys) post" and "xs \<noteq> []" and "ys \<noteq> []"
  shows "\<exists>s'. fth_string_delete s (int (length xs)) = Ok (Some x, s') \<and> str_holds s' (xs @ ys)"
proof -
  let ?l = "NEW_SEQ_LENGTH (s_top s + s_length s)" and ?n = "int (length (xs @ ys))"
  have sl: "s_length s = ?n + 1" "s_top s = int (length pre)" using assms(1) by (simp_all add: layout_def)
  have c: "char_at s (int (length xs)) = Ok x"
    by (rule char_at_list [of _ "pre @ map Some xs" _ "map Some ys @ post"]) (use assms(1) in \<open>simp_all add: layout_def\<close>)
  have "s_top s + int (length (xs @ x # ys)) < ?l" using NEW_SEQ_LENGTH_bounds(1) [of "s_top s + s_length s"] sl(1) by simp
  then obtain p where p: "layout (if ?l < s_buf_length s then resize_chars ?l s else s) pre (xs @ x # ys) p"
    using shrink_layout [OF assms(1)] by blast
  define t where "t = (if ?l < s_buf_length s then resize_chars ?l s else s)\<lparr>s_length := ?n\<rparr>"
  have t: "s_buf t = (pre @ map Some xs) @ Some x # map Some ys @ p" "s_top t = int (length pre)" "s_data t = s_top t" "s_length t = ?n"
      "s_buf_length t = int (length (s_buf t))" "s_buf_length t \<le> MAX_SEQ_LENGTH" "2 * s_top t \<le> MAX_SEQ_LENGTH"
    using p layout_bounds(2,3) [OF p] by (simp_all add: layout_def t_def)
  obtain d ws where "memmove (int (length (pre @ map Some xs))) (int (length (pre @ map Some xs)) + 1) (int (length (map Some ys)))
      ((pre @ map Some xs) @ Some x # map Some ys @ p) = Ok ((pre @ map Some xs) @ map Some ys @ d # ws)" and ws: "length ws = length p"
    using memmove_down [of "pre @ map Some xs" "map Some ys" "Some x" p] by blast
  then have m: "in_chars (memmove (s_data t + int (length xs)) (s_data t + int (length xs) + 1) (?n - int (length xs))) t =
      Ok (t\<lparr>s_buf := pre @ map Some (xs @ ys) @ d # ws\<rparr>)"
    using t by (simp add: in_chars_def)
  obtain s' where s': "terminated ?n (t\<lparr>s_buf := pre @ map Some (xs @ ys) @ d # ws\<rparr>) = Ok s'" "str_holds s' (xs @ ys)"
    using terminated_layout [of "t\<lparr>s_buf := pre @ map Some (xs @ ys) @ d # ws\<rparr>" pre "xs @ ys" d ws ?n] t ws by auto
  show ?thesis
    using fth_string_delete_inner [of "int (length xs)" s x t] c sl t(4) assms(2,3) m s' by (simp add: t_def)
qed

lemma fth_string_delete_chars:
  assumes "str_chars s xs" and "i < length xs"
  shows "\<exists>s'. fth_string_delete s (int i) = Ok (Some (xs ! i), s') \<and> str_chars s' (take i xs @ drop (Suc i) xs) \<and>
    (0 < i \<longrightarrow> str_holds s' (take i xs @ drop (Suc i) xs))"
proof -
  obtain pre post where b: "layout s pre xs post" using assms(1) by (auto simp: str_chars_def)
  have l: "s_length s = int (length xs)" using b by (simp add: layout_def)
  have xs: "xs = take i xs @ xs ! i # drop (Suc i) xs" by (rule id_take_nth_drop [OF assms(2)])
  consider "i = 0" | "i \<noteq> 0" "Suc i = length xs" | "i \<noteq> 0" "Suc i < length xs" using assms(2) by linarith
  then show ?thesis
  proof cases
    case 1
    then have "str_chars s (xs ! 0 # drop (Suc 0) xs)" using assms(1) xs by simp
    then show ?thesis using fth_string_shift_chars 1 l assms(2) by (fastforce simp: fth_string_delete_def Let_def)
  next
    case 2
    then have "str_chars s (take i xs @ [xs ! i])" using assms(1) xs by simp
    then show ?thesis using fth_string_pop_holds [of s "take i xs" "xs ! i"] 2 l str_holds_chars
      by (fastforce simp: fth_string_delete_def Let_def)
  next
    case 3
    then show ?thesis using fth_string_delete_middle [of s pre "take i xs" "xs ! i" "drop (Suc i) xs" post] b xs str_holds_chars by auto
  qed
qed

subsection \<open>Changing all characters\<close>

lemma put_chars_layout:
  assumes "layout s pre xs post" and "length ys = length xs"
  shows "\<exists>s'. in_chars (memmove_from (s_data s) (map Some ys) 0 (int (length ys))) s = Ok s' \<and> layout s' pre ys post"
proof -
  have "memmove_from (s_data s) (map Some ys) 0 (int (length ys)) (s_buf s) = Ok (pre @ map Some ys @ post)"
    using memmove_from_list [of "map Some xs" "map Some ys" pre "[]" "[]" post] assms by (simp add: layout_def)
  then show ?thesis using assms by (auto simp: in_chars_def layout_def)
qed

lemma fth_string_reverse_holds:
  assumes "str_holds s xs" and "NUL \<notin> set xs"
  shows "\<exists>s'. fth_string_reverse s = Ok s' \<and> str_holds s' (rev xs)"
proof -
  obtain pre post where b: "layout s pre xs (Some NUL # post)" using assms(1) by (auto simp: str_holds_def)
  then obtain s' where "in_chars (memmove_from (s_data s) (map Some (rev xs)) 0 (int (length (rev xs)))) s = Ok s'" "layout s' pre (rev xs) (Some NUL # post)"
    using put_chars_layout [OF b, of "rev xs"] by auto
  then show ?thesis using c_string_holds [OF assms] by (auto simp: fth_string_reverse_def ficlStringReverse_rev intro: str_holdsI)
qed

lemma fth_string_fill_holds:
  assumes "str_holds s xs"
  shows "\<exists>s'. fth_string_fill s c = Ok s' \<and> str_holds s' (replicate (length xs) c)"
proof -
  obtain pre post where b: "layout s pre xs (Some NUL # post)" using assms(1) by (auto simp: str_holds_def)
  then show ?thesis using put_chars_layout [OF b, of "replicate (length xs) c"] str_holds_length [OF assms]
    by (auto simp: fth_string_fill_def intro: str_holdsI)
qed

lemma map_loop_layout:
  assumes "layout s pre (us @ xs) post"
  shows "\<exists>s'. map_loop f (length xs) (int (length us)) s = Ok s' \<and> layout s' pre (us @ map f xs) post"
  using assms
proof (induction xs arbitrary: us s)
  case (Cons x xs)
  have c: "char_at s (int (length us)) = Ok x"
    by (rule char_at_list [of _ "pre @ map Some us" _ "map Some xs @ post"]) (use Cons.prems in \<open>simp_all add: layout_def\<close>)
  let ?s = "s\<lparr>s_buf := (pre @ map Some us) @ Some (f x) # map Some xs @ post\<rparr>"
  have p: "char_put (int (length us)) (f x) s = Ok ?s"
    by (rule char_put_list) (use Cons.prems in \<open>simp_all add: layout_def\<close>)
  have "layout ?s pre ((us @ [f x]) @ xs) post" using Cons.prems by (auto simp: layout_def)
  from Cons.IH [OF this] c p show ?case by (simp add: add.commute)
qed simp

lemma map_string_holds:
  assumes "str_holds s xs"
  shows "\<exists>s'. map_string f s = Ok s' \<and> str_holds s' (map f xs)"
proof -
  obtain pre post where b: "layout s pre ([] @ xs) (Some NUL # post)" using assms(1) by (auto simp: str_holds_def)
  then show ?thesis using map_loop_layout [OF b, of f] str_holds_length [OF assms] by (auto simp: map_string_def intro: str_holdsI)
qed

lemma case_words_hold:
  assumes "str_holds s xs"
  shows "\<exists>s'. fth_string_upcase s = Ok s' \<and> str_holds s' (map toupper xs)"
    and "\<exists>s'. fth_string_downcase s = Ok s' \<and> str_holds s' (map tolower xs)"
  using map_string_holds [OF assms] str_holds_length [OF assms] assms
  by (auto simp: fth_string_upcase_def fth_string_downcase_def)

lemma fth_string_capitalize_holds:
  assumes "str_holds s (x # xs)"
  shows "\<exists>s'. fth_string_capitalize s = Ok s' \<and> str_holds s' (toupper x # map tolower xs)"
proof -
  obtain pre post where b: "layout s pre (x # xs) (Some NUL # post)" using assms(1) by (auto simp: str_holds_def)
  have c: "char_at s 0 = Ok x"
    by (rule char_at_list [of _ pre _ "map Some xs @ Some NUL # post"]) (use b in \<open>simp_all add: layout_def\<close>)
  let ?s = "s\<lparr>s_buf := pre @ Some (toupper x) # map Some xs @ Some NUL # post\<rparr>"
  have p: "char_put 0 (toupper x) s = Ok ?s" by (rule char_put_list) (use b in \<open>simp_all add: layout_def\<close>)
  have "layout ?s pre ([toupper x] @ xs) (Some NUL # post)" using b by (auto simp: layout_def)
  from map_loop_layout [OF this, of tolower] c p str_holds_length [OF assms]
  show ?thesis by (auto simp: fth_string_capitalize_def nat_add_distrib intro: str_holdsI)
qed

subsection \<open>Searching and comparing\<close>

lemma strstr_first:
  "strstr s k = (if \<exists>i \<le> length s. prefix k (drop i s) then Some (LEAST i. prefix k (drop i s)) else None)"
proof (induction s)
  case (Cons c s)
  show ?case
  proof (cases "prefix k (c # s)")
    case True
    then have "(LEAST i. prefix k (drop i (c # s))) = 0" by (intro Least_equality) auto
    then show ?thesis using True by auto
  next
    case False
    have e: "(\<exists>i \<le> length (c # s). prefix k (drop i (c # s))) \<longleftrightarrow> (\<exists>i \<le> length s. prefix k (drop i s))"
      using False by (metis Suc_le_mono drop0 drop_Suc_Cons length_Cons not0_implies_Suc)
    have least: "(LEAST i. prefix k (drop i (c # s))) = Suc (LEAST i. prefix k (drop i s))" if ex: "\<exists>i. prefix k (drop i s)"
    proof -
      obtain i where "prefix k (drop i s)" using ex by blast
      then show ?thesis using Least_Suc [of "\<lambda>i. prefix k (drop i (c # s))" "Suc i"] False by simp
    qed
    show ?thesis
    proof (cases "\<exists>i \<le> length s. prefix k (drop i s)")
      case True
      then have "\<exists>i. prefix k (drop i s)" by blast
      from least [OF this] show ?thesis using True False Cons e by simp
    next
      case none: False
      show ?thesis using none False Cons e by auto
    qed
  qed
qed auto

lemma strcmp_zero: "strcmp s t = 0 \<longleftrightarrow> s = t"
  by (induction s t rule: strcmp.induct) (auto simp: char_code_def)

lemma strcmp_flip: "strcmp t s = - strcmp s t"
  by (induction s t rule: strcmp.induct) auto

lemma compare_strings_holds:
  assumes "str_holds s xs" and "str_holds t ys" and "NUL \<notin> set xs" and "NUL \<notin> set ys"
  shows "compare_strings p s t = Ok (p (strcmp xs ys))"
  using c_string_holds [OF assms(1,3)] c_string_holds [OF assms(2,4)] by (simp add: compare_strings_def)

lemma str_equal_p_holds:
  assumes "str_holds s xs" and "str_holds t ys" and "NUL \<notin> set xs" and "NUL \<notin> set ys"
  shows "str_equal_p s t = Ok (xs = ys)" "fth_string_equal_p s t = Ok (xs = ys)"
  using c_string_holds [OF assms(1,3)] c_string_holds [OF assms(2,4)] str_holds_length [OF assms(1)] str_holds_length [OF assms(2)]
  by (auto simp: str_equal_p_def fth_string_equal_p_def compare_strings_holds [OF assms] strcmp_zero)

subsection \<open>Replacing\<close>

text \<open>What \<open>string-replace\<close> means: the leftmost occurrence is replaced, and then those behind it.\<close>

lemma strstr_Some: "strstr s k = Some i \<Longrightarrow> s = take i s @ k @ drop (i + length k) s \<and> i + length k \<le> length s"
proof (induction s arbitrary: i)
  case (Cons c s)
  show ?case
  proof (cases "prefix k (c # s)")
    case True
    then have "i = 0" using Cons.prems by simp
    moreover from True obtain r where "c # s = k @ r" by (auto simp: prefix_def)
    ultimately show ?thesis using arg_cong [of "c # s" "k @ r" length] by simp
  next
    case False
    then obtain j where "strstr s k = Some j" "i = Suc j" using Cons.prems by auto
    with Cons.IH [of j] show ?thesis by simp
  qed
qed (auto split: if_splits)

function replace_all :: "string \<Rightarrow> string \<Rightarrow> string \<Rightarrow> string" where
  "replace_all k t s =
     (if k = [] then s
      else case strstr s k of None \<Rightarrow> s | Some i \<Rightarrow> take i s @ t @ replace_all k t (drop (i + length k) s))"
  by pat_completeness auto

termination
proof (relation "measure (\<lambda>(k, t, s). length s)")
  fix k s :: string and i t
  assume "k \<noteq> []" "strstr s k = Some i"
  then show "((k, t, drop (i + length k) s), (k, t, s)) \<in> measure (\<lambda>(k, t, s). length s)"
    using strstr_Some [of s k i] by (cases k) auto
qed simp

declare replace_all.simps [simp del]

lemma replace_all_longer: "length k \<le> length t \<Longrightarrow> length s \<le> length (replace_all k t s)"
proof (induction k t s rule: replace_all.induct)
  case (1 k t s)
  show ?case
  proof (cases "k = [] \<or> strstr s k = None")
    case True
    then show ?thesis by (auto simp: replace_all.simps [of k t s])
  next
    case False
    then obtain i where i: "k \<noteq> []" "strstr s k = Some i" by auto
    then have "length (drop (i + length k) s) \<le> length (replace_all k t (drop (i + length k) s))" using 1 by blast
    then show ?thesis using i strstr_Some [OF i(2)] 1(2) by (auto simp: replace_all.simps [of k t s])
  qed
qed

lemma cut_text_layout:
  assumes "layout s pre (us @ k @ xs) post"
  shows "\<exists>s' post'. cut_text (int (length k)) (int (length us)) s = Ok s' \<and> layout s' pre (us @ xs) post' \<and>
    length post' = length k + length post \<and> s_top s' = s_top s \<and> s_buf_length s' = s_buf_length s"
proof -
  let ?u = "pre @ map Some us" and ?k = "map Some k" and ?x = "map Some xs"
  let ?w = "drop (length xs) (?k @ ?x) @ post"
  have e: "take (length xs) (?k @ ?x) @ drop (length xs) (?k @ ?x) @ post = ?k @ ?x @ post"
    by (metis append_assoc append_take_drop_id)
  have "memmove (int (length ?u)) (int (length (?u @ ?k))) (int (length ?x)) (s_buf s) = Ok (?u @ ?x @ ?w)"
    by (rule memmove_list [of _ "?u @ ?k" _ post _ "take (length xs) (?k @ ?x)"])
       (use assms in \<open>simp add: layout_def\<close>, use assms in \<open>simp only: layout_def map_append append_assoc e\<close>, simp)
  moreover have "int (length ?u) = s_data s + int (length us)" "int (length (?u @ ?k)) = s_data s + int (length us) + int (length k)"
      "int (length ?x) = s_length s - int (length k) - int (length us)"
    using assms by (simp_all add: layout_def)
  ultimately have "cut_text (int (length k)) (int (length us)) s = Ok (s\<lparr>s_length := s_length s - int (length k), s_buf := ?u @ ?x @ ?w\<rparr>)"
    by (simp add: cut_text_def in_chars_def Let_def add.assoc)
  moreover have "layout (s\<lparr>s_length := s_length s - int (length k), s_buf := ?u @ ?x @ ?w\<rparr>) pre (us @ xs) ?w"
    using assms by (auto simp: layout_def)
  ultimately show ?thesis
    by (intro exI [of _ "s\<lparr>s_length := s_length s - int (length k), s_buf := ?u @ ?x @ ?w\<rparr>"] exI [of _ ?w] conjI) auto
qed

lemma put_text_layout:
  assumes "layout s pre (us @ xs) post" and "layout to apre ys apost"
    and "NEW_SEQ_LENGTH (s_top s + s_length s + int (length ys) + 1) \<le> s_buf_length s"
  shows "\<exists>s' post'. put_text to (int (length ys)) (int (length us)) s = Ok s' \<and> layout s' pre (us @ ys @ xs) (Some NUL # post') \<and>
    s_top s' = s_top s \<and> s_buf_length s' = s_buf_length s"
proof -
  let ?l = "NEW_SEQ_LENGTH (s_top s + s_length s + int (length ys) + 1)"
  let ?u = "pre @ map Some us" and ?x = "map Some xs"
  have l: "s_top s + s_length s + int (length ys) + 1 < ?l" by (rule NEW_SEQ_LENGTH_bounds(1))
  then have "length ys < length post" using assms(1,3) by (auto simp: layout_def)
  then obtain vs c ws where post: "post = vs @ c # ws" "length vs = length ys" using split_buffer [of 0 "length ys" post] by auto
  have b: "s_buf s = ?u @ ?x @ vs @ c # ws" using assms(1) post by (simp add: layout_def)
  have "s_data s + int (length us) = int (length ?u)" "s_length s - int (length us) = int (length ?x)" "s_length to = int (length ys)"
    using assms(1,2) by (simp_all add: layout_def)
  then obtain s1 where s1: "in_chars (memmove (s_data s + int (length us) + int (length ys)) (s_data s + int (length us)) (s_length s - int (length us))) s = Ok s1"
      "s_data s1 = s_data s"
      "in_chars (memmove_from (s_data s + int (length us)) (s_buf to) (s_data to) (int (length ys))) s1 = Ok (s\<lparr>s_buf := ?u @ map Some ys @ ?x @ c # ws\<rparr>)"
    using open_gap [OF b post(2) assms(2)] by metis
  let ?s = "s\<lparr>s_buf := ?u @ map Some ys @ ?x @ c # ws, s_length := s_length s + int (length ys)\<rparr>"
  let ?t = "?s\<lparr>s_buf := (?u @ map Some ys @ ?x) @ Some NUL # ws\<rparr>"
  have "char_put (s_length s + int (length ys)) NUL ?s = Ok ?t"
    by (rule char_put_list [of _ _ c]) (use assms(1) in \<open>simp_all add: layout_def\<close>)
  then have "put_text to (int (length ys)) (int (length us)) s = Ok ?t"
    using s1 assms(3) layout_bounds(2) [OF assms(1)] by (simp add: put_text_def Let_def)
  moreover have "layout ?t pre (us @ ys @ xs) (Some NUL # ws)" using assms(1) b post(2) by (auto simp: layout_def)
  ultimately show ?thesis by (intro exI [of _ ?t] exI [of _ ws] conjI) simp_all
qed

text \<open>
  One turn of the loop, and the whole loop. No length in between is greater than both the first and the last one; if
  that many characters fit into the buffer, it is not replaced while the loop runs.
\<close>

lemma replace_turn:
  assumes "layout s pre (us @ take i xs @ k @ xs') (Some NUL # post)" and "layout to apre ys apost"
    and "NEW_SEQ_LENGTH (s_top s + int (length us + i + length ys + length xs') + 1) \<le> s_buf_length s" and "i \<le> length xs"
  shows "\<exists>s' post'. bind_outcome (cut_text (int (length k)) (int (length us) + int i) s) (put_text to (int (length ys)) (int (length us) + int i)) = Ok s' \<and>
    layout s' pre ((us @ take i xs @ ys) @ xs') (Some NUL # post') \<and> s_top s' = s_top s \<and> s_buf_length s' = s_buf_length s"
proof -
  have l: "layout s pre ((us @ take i xs) @ k @ xs') (Some NUL # post)" using assms(1) by simp
  have n: "int (length (us @ take i xs)) = int (length us) + int i" using assms(4) by simp
  obtain s1 post1 where s1: "cut_text (int (length k)) (int (length us) + int i) s = Ok s1" "layout s1 pre ((us @ take i xs) @ xs') post1"
      "s_top s1 = s_top s" "s_buf_length s1 = s_buf_length s"
    using cut_text_layout [OF l] unfolding n by blast
  have "s_length s1 = int (length us + i + length xs')" using s1(2) assms(4) by (simp add: layout_def)
  then have "NEW_SEQ_LENGTH (s_top s1 + s_length s1 + int (length ys) + 1) \<le> s_buf_length s1" using assms(3) s1(3,4) by (simp add: ac_simps)
  from put_text_layout [OF s1(2) assms(2) this] show ?thesis unfolding n using s1 by auto
qed

lemma replace_loop_holds:
  assumes "layout s pre (us @ xs) (Some NUL # post)" and "NUL \<notin> set (us @ xs)" and "NUL \<notin> set ys" and "k \<noteq> []" and "layout to apre ys apost"
    and "length (us @ xs) \<le> m" and "length (us @ replace_all k ys xs) \<le> m" and "NEW_SEQ_LENGTH (s_top s + int m + 1) \<le> s_buf_length s"
  shows "\<exists>s' post'. replace_loop k (int (length k)) to (int (length ys)) (int (length us)) s = Some (Ok s') \<and>
    layout s' pre (us @ replace_all k ys xs) (Some NUL # post')"
  using assms
proof (induction "length xs" arbitrary: xs us s post rule: less_induct)
  case less
  have t: "text_from s (int (length us)) = Ok xs"
    using text_from_holds [OF str_holdsI [OF less.prems(1)] less.prems(2), of "length us"] by simp
  show ?case
  proof (cases "strstr xs k")
    case None
    then show ?thesis using less.prems t by (auto simp: replace_loop.simps [of k _ to] replace_all.simps [of k ys xs])
  next
    case (Some i)
    let ?r = "drop (i + length k) xs" and ?u = "us @ take i xs @ ys"
    have x: "xs = take i xs @ k @ ?r" "i + length k \<le> length xs" using strstr_Some [OF Some] by simp_all
    have all: "us @ replace_all k ys xs = ?u @ replace_all k ys ?r" using Some less.prems(4) by (simp add: replace_all.simps [of k ys xs])
    have m: "length (?u @ ?r) \<le> m"
    proof (cases "length k \<le> length ys")
      case True
      then show ?thesis using replace_all_longer [OF True, of ?r] less.prems(7) unfolding all by simp
    qed (use x(2) less.prems(6) in simp)
    then have "NEW_SEQ_LENGTH (s_top s + int (length us + i + length ys + length ?r) + 1) \<le> NEW_SEQ_LENGTH (s_top s + int m + 1)"
      using x(2) by (intro NEW_SEQ_LENGTH_mono) simp
    then have room: "NEW_SEQ_LENGTH (s_top s + int (length us + i + length ys + length ?r) + 1) \<le> s_buf_length s" using less.prems(8) by linarith
    have "layout s pre (us @ take i xs @ k @ ?r) (Some NUL # post)" using less.prems(1) x(1) by simp
    moreover have "i \<le> length xs" using x(2) by simp
    ultimately obtain s1 p where s1: "bind_outcome (cut_text (int (length k)) (int (length us) + int i) s) (put_text to (int (length ys)) (int (length us) + int i)) = Ok s1"
        "layout s1 pre (?u @ ?r) (Some NUL # p)" "s_top s1 = s_top s" "s_buf_length s1 = s_buf_length s"
      using replace_turn [OF _ less.prems(5) room] by blast
    have u: "int (length ?u) = int (length us) + int i + int (length ys)" using x(2) by simp
    have "set ?r \<subseteq> set xs" "set (take i xs) \<subseteq> set xs" by (simp_all add: set_drop_subset set_take_subset)
    then have nul: "NUL \<notin> set (?u @ ?r)" using less.prems(2,3) by auto
    have "length ?r < length xs" using x(2) less.prems(4) by (cases k) simp_all
    from less.hyps [OF this s1(2) nul less.prems(3-5) m] less.prems(7,8) s1(3,4)
    have "\<exists>s' post'. replace_loop k (int (length k)) to (int (length ys)) (int (length ?u)) s1 = Some (Ok s') \<and>
        layout s' pre (?u @ replace_all k ys ?r) (Some NUL # post')" unfolding all by simp
    then show ?thesis unfolding all u using s1(1) t Some by (subst replace_loop.simps) simp
  qed
qed

lemma delete_turn:
  assumes "layout s pre ((us @ take i xs) @ k @ xs') (Some NUL # post)" and "i \<le> length xs"
  shows "\<exists>s' post'. bind_outcome (cut_text (int (length k)) (int (length us) + int i) s) (\<lambda>fs. char_put (s_length fs) NUL fs) = Ok s' \<and>
    layout s' pre ((us @ take i xs) @ xs') (Some NUL # post')"
proof -
  have n: "int (length (us @ take i xs)) = int (length us) + int i" using assms(2) by simp
  obtain s1 post1 where s1: "cut_text (int (length k)) (int (length us) + int i) s = Ok s1" "layout s1 pre ((us @ take i xs) @ xs') post1"
      "length post1 = length k + length (Some NUL # post)"
    using cut_text_layout [OF assms(1)] unfolding n by blast
  then obtain c p where "post1 = c # p" by (cases post1) simp_all
  with s1(2) have l: "layout s1 pre ((us @ take i xs) @ xs') (c # p)" by simp
  let ?t = "s1\<lparr>s_buf := (pre @ map Some ((us @ take i xs) @ xs')) @ Some NUL # p\<rparr>"
  have "char_put (s_length s1) NUL s1 = Ok ?t" by (rule char_put_list [of _ _ c]) (use l in \<open>simp_all add: layout_def\<close>)
  moreover have "layout ?t pre ((us @ take i xs) @ xs') (Some NUL # p)" using l by (auto simp: layout_def)
  ultimately show ?thesis using s1(1) by (intro exI [of _ ?t] exI [of _ p]) simp
qed

lemma delete_loop_holds:
  assumes "layout s pre (us @ xs) (Some NUL # post)" and "NUL \<notin> set (us @ xs)" and "k \<noteq> []"
  shows "\<exists>s' post'. delete_loop k (int (length k)) (int (length us)) s = Some (Ok s') \<and>
    layout s' pre (us @ replace_all k [] xs) (Some NUL # post')"
  using assms
proof (induction "length xs" arbitrary: xs us s post rule: less_induct)
  case less
  have t: "text_from s (int (length us)) = Ok xs"
    using text_from_holds [OF str_holdsI [OF less.prems(1)] less.prems(2), of "length us"] by simp
  show ?case
  proof (cases "strstr xs k")
    case None
    then show ?thesis using less.prems t by (auto simp: delete_loop.simps [of k] replace_all.simps [of k "[]" xs])
  next
    case (Some i)
    let ?r = "drop (i + length k) xs" and ?u = "us @ take i xs"
    have x: "xs = take i xs @ k @ ?r" "i + length k \<le> length xs" using strstr_Some [OF Some] by simp_all
    have all: "us @ replace_all k [] xs = ?u @ replace_all k [] ?r" using Some less.prems(3) by (simp add: replace_all.simps [of k "[]" xs])
    have "layout s pre (?u @ k @ ?r) (Some NUL # post)" using less.prems(1) x(1) by simp
    moreover have "i \<le> length xs" using x(2) by simp
    ultimately obtain s1 p where s1: "bind_outcome (cut_text (int (length k)) (int (length us) + int i) s) (\<lambda>fs. char_put (s_length fs) NUL fs) = Ok s1"
        "layout s1 pre (?u @ ?r) (Some NUL # p)"
      using delete_turn by blast
    have u: "int (length ?u) = int (length us) + int i" using x(2) by simp
    have "set ?r \<subseteq> set xs" "set (take i xs) \<subseteq> set xs" by (simp_all add: set_drop_subset set_take_subset)
    then have nul: "NUL \<notin> set (?u @ ?r)" using less.prems(2) by auto
    have "length ?r < length xs" using x(2) less.prems(3) by (cases k) simp_all
    from less.hyps [OF this s1(2) nul less.prems(3)]
    show ?thesis unfolding all u using s1(1) t Some by (subst delete_loop.simps) simp
  qed
qed

lemma replace_all_char: "replace_all [f] [t] xs = map (\<lambda>c. if c = f then t else c) xs"
proof (induction xs)
  case (Cons x xs)
  have "replace_all [f] [t] (x # xs) = x # replace_all [f] [t] xs" if "x \<noteq> f"
    using that by (simp add: replace_all.simps [of _ _ "x # xs"] replace_all.simps [of _ _ xs] split: option.split)
  moreover have "replace_all [f] [t] (f # xs) = t # replace_all [f] [t] xs" by (subst replace_all.simps) simp
  ultimately show ?case using Cons by auto
qed (simp add: replace_all.simps)

lemma fth_string_replace_holds:
  assumes "str_holds s xs" and "str_holds src k" and "str_holds to ys" and "NUL \<notin> set (xs @ k @ ys)" and "k \<noteq> []"
    and "NEW_SEQ_LENGTH (s_top s + int (max (length xs) (length (replace_all k ys xs))) + 1) \<le> s_buf_length s"
  shows "\<exists>s'. fth_string_replace s src to = Some (Ok s') \<and> str_holds s' (replace_all k ys xs)"
proof -
  obtain pre post where b: "layout s pre ([] @ xs) (Some NUL # post)" using assms(1) by (auto simp: str_holds_def)
  obtain tpre tpost where t: "layout to tpre ys tpost" using assms(3) by (auto simp: str_holds_def)
  obtain fpre fpost where f: "layout src fpre k fpost" using assms(2) by (auto simp: str_holds_def)
  have l: "s_length s = int (length xs)" "s_length src = int (length k)" "s_length to = int (length ys)" using b t f by (simp_all add: layout_def)
  have cf: "c_string src = Ok k" using c_string_holds [OF assms(2)] assms(4) by simp
  consider "xs = []" | x y where "xs \<noteq> []" "k = [x]" "ys = [y]" | "xs \<noteq> []" "ys = []" | "xs \<noteq> []" "ys \<noteq> []" "length k \<noteq> 1 \<or> length ys \<noteq> 1"
    by (cases "xs = []"; cases "ys = []"; cases "length k = 1 \<and> length ys = 1") (auto simp: length_Suc_conv)
  then show ?thesis
  proof cases
    case 1
    then show ?thesis using assms(1,5) l by (simp add: fth_string_replace_def replace_all.simps)
  next
    case 2
    have "char_at src 0 = Ok x" by (rule char_at_list [of _ fpre _ fpost]) (use f 2 in \<open>simp_all add: layout_def\<close>)
    moreover have "char_at to 0 = Ok y" by (rule char_at_list [of _ tpre _ tpost]) (use t 2 in \<open>simp_all add: layout_def\<close>)
    ultimately show ?thesis using map_string_holds [OF assms(1), of "\<lambda>c. if c = x then y else c"] l 2 by (simp add: fth_string_replace_def replace_all_char)
  next
    case 3
    then show ?thesis using delete_loop_holds [OF b _ assms(5)] assms(4) l cf by (auto simp: fth_string_replace_def intro: str_holdsI)
  next
    case 4
    let ?m = "max (length xs) (length (replace_all k ys xs))"
    have "\<exists>s' post'. replace_loop k (int (length k)) to (int (length ys)) (int (length ([] :: string))) s = Some (Ok s') \<and>
        layout s' pre ([] @ replace_all k ys xs) (Some NUL # post')"
      by (rule replace_loop_holds [OF b _ _ assms(5) t, of ?m]) (use assms(4,6) in simp_all)
    then show ?thesis using 4 l cf by (auto simp: fth_string_replace_def intro: str_holdsI)
  qed
qed

text \<open>
  An empty text is found everywhere: with an empty text to put in its place the loop goes on for ever, since nothing in its state changes.
\<close>

lemma cut_nothing:
  assumes "layout s pre xs (Some NUL # post)"
  shows "bind_outcome (cut_text 0 0 s) (\<lambda>fs. char_put (s_length fs) NUL fs) = Ok s"
proof -
  have l: "s_data s = int (length pre)" "s_length s = int (length xs)" "s_buf s = pre @ map Some xs @ Some NUL # post" using assms by (simp_all add: layout_def)
  have "memmove (int (length pre)) (int (length pre)) (int (length (map Some xs))) (s_buf s) = Ok (pre @ map Some xs @ Some NUL # post)"
    by (rule memmove_list [of _ pre _ "Some NUL # post" _ "map Some xs"]) (use l in simp_all)
  then have "cut_text 0 0 s = Ok s" using l by (simp add: cut_text_def in_chars_def Let_def)
  moreover have "char_put (s_length s) NUL s = Ok (s\<lparr>s_buf := (pre @ map Some xs) @ Some NUL # post\<rparr>)"
    by (rule char_put_list [of _ _ "Some NUL"]) (use l in simp_all)
  ultimately show ?thesis using l(3) by simp
qed

lemma strstr_empty [simp]: "strstr s [] = Some 0"
  by (cases s) simp_all

lemma delete_loop_endless:
  assumes "layout s pre xs (Some NUL # post)" and "NUL \<notin> set xs"
  shows "delete_loop [] 0 0 s = None"
proof -
  have t: "text_from s 0 = Ok xs" by (rule c_string_holds [OF str_holdsI [OF assms(1)] assms(2)])
  have "\<not> (cf = [] \<and> lf = 0 \<and> tmp = 0 \<and> fs = s)" if "delete_loop cf lf tmp fs = Some r" for cf lf tmp fs r
    using that
    by (rule delete_loop.raw_induct [rotated, where P = "\<lambda>cf lf tmp fs r. \<not> (cf = [] \<and> lf = 0 \<and> tmp = 0 \<and> fs = s)"])
       (use t cut_nothing [OF assms(1)] in \<open>auto, blast\<close>)
  then show ?thesis by (cases "delete_loop [] 0 0 s") blast+
qed

lemma fth_string_replace_endless:
  assumes "str_holds s xs" and "NUL \<notin> set xs" and "xs \<noteq> []" and "str_holds src []" and "str_holds to []"
  shows "fth_string_replace s src to = None"
proof -
  obtain pre post where b: "layout s pre xs (Some NUL # post)" using assms(1) by (auto simp: str_holds_def)
  have "c_string src = Ok []" by (rule c_string_holds [OF assms(4)]) simp
  then show ?thesis
    using delete_loop_endless [OF b assms(2)] assms(3) str_holds_length [OF assms(1)] str_holds_length [OF assms(4)] str_holds_length [OF assms(5)]
    by (simp add: fth_string_replace_def)
qed

text \<open>When the buffer has to be replaced, the loop goes on with the old one.\<close>

lemma fth_string_replace_stale:
  assumes "str_holds s xs" and "str_holds src k" and "str_holds to ys" and "NUL \<notin> set (xs @ k)" and "strstr xs k = Some i"
    and "ys \<noteq> []" and "length k \<noteq> 1 \<or> length ys \<noteq> 1" and "xs \<noteq> []"
    and "NEW_SEQ_LENGTH (s_top s + int (length xs - length k + length ys) + 1) > s_buf_length s"
    and "length xs + length ys \<le> str_limit"
  shows "fth_string_replace s src to = Some Fault"
proof -
  obtain pre post where b: "layout s pre xs (Some NUL # post)" using assms(1) by (auto simp: str_holds_def)
  have x: "xs = take i xs @ k @ drop (i + length k) xs" "i + length k \<le> length xs" using strstr_Some [OF assms(5)] by simp_all
  have l: "s_length src = int (length k)" "s_length to = int (length ys)" "s_length s = int (length xs)"
    using str_holds_length assms(1-3) by blast+
  have "layout s pre (take i xs @ k @ drop (i + length k) xs) (Some NUL # post)" using b x(1) by simp
  from cut_text_layout [OF this] x(2) obtain s1 p where s1: "cut_text (int (length k)) (int i) s = Ok s1"
      "layout s1 pre (take i xs @ drop (i + length k) xs) p" "s_top s1 = s_top s" "s_buf_length s1 = s_buf_length s"
    by auto
  have n: "s_length s1 = int (length xs - length k)" using s1(2) x(2) by (simp add: layout_def)
  have "int (length xs) + int (length ys) \<le> 4194302" using assms(10) by (simp add: str_limit_def)
  then have "s_top s1 + s_length s1 + int (length ys) + 1 < MAX_SEQ_LENGTH"
    using layout_bounds(3) [OF b] n s1(3) by (simp add: MAX_SEQ_LENGTH_def)
  then have "put_text to (int (length ys)) (int i) s1 = Fault"
    using assms(9) n s1(3,4) NEW_SEQ_LENGTH_fits [of "s_top s1 + s_length s1 + int (length ys) + 1"] by (simp add: put_text_def Let_def add.assoc)
  moreover have "text_from s 0 = Ok xs" "text_from src 0 = Ok k"
    using c_string_holds [OF assms(1)] c_string_holds [OF assms(2)] assms(4) by auto
  moreover have "replace_loop k (int (length k)) to (int (length ys)) 0 s = Some Fault"
    using calculation s1(1) assms(5) by (subst replace_loop.simps) simp
  ultimately show ?thesis using l assms(6-8) by (auto simp: fth_string_replace_def)
qed

subsection \<open>Parts\<close>

lemma fth_make_string_len_layout:
  assumes "n \<le> length t" and "n \<le> str_limit"
  shows "\<exists>s pre post. fth_make_string_len (Some t) (int n) = Ok s \<and> layout s pre (take n t) (Some NUL # post)"
proof -
  obtain s pre vs post where s: "make_string_len (int n) = Ok s" "s_buf s = pre @ vs @ Some NUL # post" "length vs = n"
      "s_top s = int (length pre)" "s_data s = s_top s" "s_length s = int n" "s_buf_length s = int (length (s_buf s))"
      "s_buf_length s \<le> MAX_SEQ_LENGTH" "2 * s_top s \<le> MAX_SEQ_LENGTH"
    using make_string_len_layout [OF assms(2)] by blast
  let ?b = "pre @ map Some (take n t) @ Some NUL # post"
  have "map Some t = [] @ map Some (take n t) @ map Some (drop n t)" by (simp flip: map_append)
  then have "memmove_from (s_data s) (map Some t) 0 (int n) (s_buf s) = Ok ?b"
    using memmove_from_list [of vs "map Some (take n t)" pre "[]" "map Some (drop n t)" "Some NUL # post"] s(2-5) assms(1) by (simp add: min_absorb2)
  then have "in_chars (memmove_from (s_data s) (map Some t) 0 (int n)) s = Ok (s\<lparr>s_buf := ?b\<rparr>)" by (simp add: in_chars_def)
  moreover have "char_put (int n) NUL (s\<lparr>s_buf := ?b\<rparr>) = Ok (s\<lparr>s_buf := ?b\<rparr>)"
    using char_put_list [of "s\<lparr>s_buf := ?b\<rparr>" "pre @ map Some (take n t)" "Some NUL" post "int n" NUL] s(4,5) assms(1) by simp
  moreover have "layout (s\<lparr>s_buf := ?b\<rparr>) pre (take n t) (Some NUL # post)" using s assms(1) by (simp add: layout_def)
  moreover have "(if int n < int (length t) then int n else int (length t)) = int n" using assms(1) by simp
  ultimately show ?thesis using s(1) unfolding fth_make_string_len_def
    by (intro exI [of _ "s\<lparr>s_buf := ?b\<rparr>"] exI [of _ pre] exI [of _ post]) (simp add: Let_def)
qed

text \<open>The bounds as the word takes them: a negative one counts from the end, one that is out of place is the length.\<close>

lemma fth_string_substring_holds:
  assumes "str_holds s xs" and "NUL \<notin> set xs" and "b < length xs" and "b \<le> e" and "e \<le> length xs" and "e - b \<le> str_limit"
  shows "\<exists>r. fth_string_substring s (int b) (int e) = Ok r \<and> str_holds r (take (e - b) (drop b xs))"
proof -
  let ?n = "e - b" and ?y = "take (e - b) (drop b xs)"
  obtain pre post where s: "layout s pre xs (Some NUL # post)" using assms(1) by (auto simp: str_holds_def)
  have "?n \<le> length xs" using assms(5) by simp
  then obtain r rpre rpost where r: "fth_make_string_len (Some xs) (int ?n) = Ok r" "layout r rpre (take ?n xs) (Some NUL # rpost)"
    using fth_make_string_len_layout assms(6) by blast
  have e: "take b xs @ ?y @ drop e xs = xs"
    using append_take_drop_id [of b xs] append_take_drop_id [of ?n "drop b xs"] assms(4) by simp
  have "s_buf s = pre @ map Some (take b xs @ ?y @ drop e xs) @ Some NUL # post" unfolding e using s by (simp add: layout_def)
  then have "s_buf s = (pre @ map Some (take b xs)) @ map Some ?y @ map Some (drop e xs) @ Some NUL # post" by (simp only: map_append append_assoc)
  then have "memmove_from (s_data r) (s_buf s) (s_data s + int b) (s_length r) (s_buf r) = Ok (rpre @ map Some ?y @ Some NUL # rpost)"
    using memmove_from_list [of "map Some (take ?n xs)" "map Some ?y" rpre "pre @ map Some (take b xs)" "map Some (drop e xs) @ Some NUL # post" "Some NUL # rpost"]
      s r(2) assms(3,5) by (simp add: layout_def min_absorb2)
  then have m: "in_chars (memmove_from (s_data r) (s_buf s) (s_data s + int b) (s_length r)) r = Ok (r\<lparr>s_buf := rpre @ map Some ?y @ Some NUL # rpost\<rparr>)"
    by (simp add: in_chars_def)
  have "layout (r\<lparr>s_buf := rpre @ map Some ?y @ Some NUL # rpost\<rparr>) rpre ?y (Some NUL # rpost)"
    using r(2) assms(3,5) by (auto simp: layout_def)
  moreover have "int e - int b = int ?n" using assms(4) by (simp add: of_nat_diff)
  ultimately show ?thesis
    using m r(1) c_string_holds [OF assms(1,2)] str_holds_length [OF assms(1)] assms(3-5)
    by (auto simp: fth_string_substring_def Let_def intro: str_holdsI)
qed

declare split_loop.simps(2) [simp del]

lemma split_loop_step:
  "split_loop d (Some s) = (if takeWhile (\<lambda>c. c \<notin> set d) s \<noteq> [] then [takeWhile (\<lambda>c. c \<notin> set d) s] else []) @
     (case dropWhile (\<lambda>c. c \<notin> set d) s of [] \<Rightarrow> [] | _ # r \<Rightarrow> split_loop d (Some r))"
  by (subst split_loop.simps(2), cases "dropWhile (\<lambda>c. c \<notin> set d) s")
     (simp_all only: strsep_def Let_def prod.case list.case split_loop.simps(1))

lemma split_loop_parts:
  "concat (split_loop d (Some s)) = filter (\<lambda>c. c \<notin> set d) s \<and> (\<forall>p \<in> set (split_loop d (Some s)). p \<noteq> [] \<and> set p \<inter> set d = {})"
proof (induction "length s" arbitrary: s rule: less_induct)
  case less
  let ?p = "takeWhile (\<lambda>c. c \<notin> set d) s"
  have p: "set ?p \<inter> set d = {}" by (auto dest: set_takeWhileD)
  have f: "filter (\<lambda>c. c \<notin> set d) ?p = ?p" using p by (auto simp: filter_id_conv)
  show ?case
  proof (cases "dropWhile (\<lambda>c. c \<notin> set d) s")
    case Nil
    then have "s = ?p" by (metis append_Nil2 takeWhile_dropWhile_id)
    then have "filter (\<lambda>c. c \<notin> set d) s = ?p" using f by simp
    moreover have "split_loop d (Some s) = (if ?p \<noteq> [] then [?p] else [])" by (subst split_loop_step) (simp only: Nil list.case append_Nil2)
    ultimately show ?thesis using p by simp
  next
    case (Cons c r)
    have s: "s = ?p @ c # r" using takeWhile_dropWhile_id [of "\<lambda>c. c \<notin> set d" s] unfolding Cons by (rule sym)
    have "c \<in> set d" using hd_dropWhile [of "\<lambda>c. c \<notin> set d" s] Cons by simp
    then have "filter (\<lambda>c. c \<notin> set d) (?p @ c # r) = ?p @ filter (\<lambda>c. c \<notin> set d) r" using f by simp
    then have "filter (\<lambda>c. c \<notin> set d) s = ?p @ filter (\<lambda>c. c \<notin> set d) r" using arg_cong [OF s] by (rule trans [rotated])
    moreover have "length r < length s" using arg_cong [OF s, of length] unfolding length_append length_Cons by linarith
    moreover have "split_loop d (Some s) = (if ?p \<noteq> [] then [?p] else []) @ split_loop d (Some r)" by (subst split_loop_step) (simp only: Cons list.case)
    ultimately show ?thesis using less [of r] p by auto
  qed
qed

text \<open>Texts written one after the other, each with the delimiter \<open>c\<close> in front of it.\<close>

lemma split_loop_joined:
  assumes "c \<in> set d" and "\<forall>p \<in> set ps. p \<noteq> [] \<and> set p \<inter> set d = {}"
  shows "split_loop d (Some (concat (map (\<lambda>p. c # p) ps))) = ps"
  using assms(2)
proof (induction ps)
  case (Cons p ps)
  have skip: "split_loop d (Some (c # t)) = split_loop d (Some t)" for t using assms(1) by (subst split_loop_step) simp
  have p: "p \<noteq> []" "\<forall>x \<in> set p. x \<notin> set d" using Cons.prems by auto
  have r: "split_loop d (Some (concat (map (\<lambda>p. c # p) ps))) = ps" using Cons by simp
  have "split_loop d (Some (p @ concat (map (\<lambda>p. c # p) ps))) = p # ps"
  proof (cases ps)
    case Nil
    then show ?thesis using p by (subst split_loop_step) (simp add: takeWhile_eq_all_conv [THEN iffD2] dropWhile_eq_Nil_conv [THEN iffD2])
  next
    case (Cons q qs)
    then show ?thesis using p r assms(1) by (subst split_loop_step) (simp add: takeWhile_append2 dropWhile_append2 skip)
  qed
  then show ?case by (simp add: skip)
qed (simp add: split_loop_step)

lemma make_strings_holds: "\<forall>p \<in> set ps. length p \<le> str_limit \<Longrightarrow> \<exists>ss. make_strings ps = Ok ss \<and> list_all2 str_holds ss ps"
proof (induction ps)
  case (Cons p ps)
  then obtain s ss where "fth_make_string (Some p) = Ok s" "str_holds s p" "make_strings ps = Ok ss" "list_all2 str_holds ss ps"
    using fth_make_string_holds [of p] by auto
  then show ?case by simp
qed simp

lemma fth_string_split_holds:
  assumes "str_holds s xs" and "str_holds r d" and "NUL \<notin> set (xs @ d)" and "xs \<noteq> []"
    and "\<forall>p \<in> set (split_loop d (Some xs)). length p \<le> str_limit"
  shows "\<exists>ss. fth_string_split s (Some r) = Ok ss \<and> list_all2 str_holds ss (split_loop d (Some xs))"
proof -
  have "c_string s = Ok xs" "c_string r = Ok d" using c_string_holds [OF assms(1)] c_string_holds [OF assms(2)] assms(3) by auto
  then show ?thesis using make_strings_holds [OF assms(5)] str_holds_length [OF assms(1)] assms(4) by (simp add: fth_string_split_def)
qed

end
