(* ===== verification/Fth_Number_Laws.thy ===== *)
theory Fth_Number_Laws
  imports Fth_Number Complex_Main
begin

section \<open>Exact arithmetic\<close>

text \<open>
  What the numbers mean: the value of an exact number is a rational (\<open>exact_value\<close>). Ratios are kept reduced with a positive denominator (\<open>rt_ok\<close>); the operations on ratios and big
  integers are shown to give the value of the mathematical operation and to keep this form.

  The documentation of \<open>bn(3)\<close> is the predicate \<open>bn_laws\<close>: \<open>val\<close> is the integer that a big number stands for.
\<close>

definition bn_laws :: "('b, 'f, 'c) num_env \<Rightarrow> ('b \<Rightarrow> int) \<Rightarrow> bool" where
  "bn_laws N val =
    ((\<forall>x y. val (BN_add N x y) = val x + val y) \<and>
     (\<forall>x y. val (BN_sub N x y) = val x - val y) \<and>
     (\<forall>x y. val (BN_mul N x y) = val x * val y) \<and>
     (\<forall>x y. if val y = 0 then BN_div N x y = None else \<exists>q. BN_div N x y = Some q \<and> val q = c_div (val x) (val y)) \<and>
     (\<forall>x y. val (BN_gcd N x y) = gcd (val x) (val y)) \<and>
     (\<forall>x y. sgn (BN_cmp N x y) = sgn (val x - val y)) \<and>
     (\<forall>w. val (BN_set_word N w) = uint w) \<and>
     (\<forall>x. BN_get_word N x = (if \<bar>val x\<bar> < 2 ^ 64 then of_int \<bar>val x\<bar> else - 1)) \<and>
     (\<forall>x. BN_is_negative N x = (val x < 0)) \<and>
     (\<forall>x s. val (BN_set_negative N x s) = (if s then - \<bar>val x\<bar> else \<bar>val x\<bar>)) \<and>
     (\<forall>x n. 0 \<le> n \<longrightarrow> (\<exists>y. BN_lshift N x n = Some y \<and> val y = val x * 2 ^ nat n)))"

lemma bn_lawsD:
  assumes "bn_laws N val"
  shows "val (BN_add N x y) = val x + val y" "val (BN_sub N x y) = val x - val y" "val (BN_mul N x y) = val x * val y"
    and "val (BN_gcd N x y) = gcd (val x) (val y)" "val (BN_set_word N w) = uint w"
    and "BN_get_word N x = (if \<bar>val x\<bar> < 2 ^ 64 then of_int \<bar>val x\<bar> else - 1)" "BN_is_negative N x = (val x < 0)"
    and "val (BN_set_negative N x s) = (if s then - \<bar>val x\<bar> else \<bar>val x\<bar>)"
  using assms unfolding bn_laws_def by blast+

lemma bn_cmp_sgn:
  assumes "bn_laws N val"
  shows "sgn (BN_cmp N x y) = sgn (val x - val y)" "BN_cmp N x y = 0 \<longleftrightarrow> val x = val y" "BN_cmp N x y < 0 \<longleftrightarrow> val x < val y"
proof -
  show s: "sgn (BN_cmp N x y) = sgn (val x - val y)" using assms unfolding bn_laws_def by blast
  show "BN_cmp N x y = 0 \<longleftrightarrow> val x = val y" using s by (metis eq_iff_diff_eq_0 sgn_eq_0_iff)
  show "BN_cmp N x y < 0 \<longleftrightarrow> val x < val y" using s by (metis diff_less_0_iff_less sgn_less)
qed

lemma bn_constants:
  assumes "bn_laws N val"
  shows "val (BN_zero N) = 0" "val (BN_one N) = 1" "BN_is_zero N x = (val x = 0)" "BN_is_one N x = (val x = 1)"
  using assms by (simp_all add: BN_zero_def BN_one_def BN_is_zero_def BN_is_one_def bn_lawsD bn_cmp_sgn)

text \<open>Division by a divisor is exact.\<close>

lemma c_div_exact:
  assumes "d dvd a" and "d \<noteq> 0"
  shows "c_div a d = a div d"
proof -
  obtain k where k: "a = d * k" using assms(1) by (rule dvdE)
  have "c_div a d = sgn (d * k) * sgn d * \<bar>k\<bar>" using assms(2) by (simp add: c_div_def k abs_mult)
  also have "\<dots> = (sgn d * sgn d) * (sgn k * \<bar>k\<bar>)" by (simp add: sgn_mult)
  also have "\<dots> = k" using assms(2) by (simp add: sgn_if)
  finally show ?thesis using assms(2) by (simp add: k)
qed

lemma bn_div_exact:
  assumes "bn_laws N val" and "val d dvd val x" and "val d \<noteq> 0"
  shows "\<exists>q. BN_CHECK (BN_div N x d) = Ok q \<and> val q = val x div val d"
proof -
  obtain q where "BN_div N x d = Some q" "val q = c_div (val x) (val d)" using assms(1,3) unfolding bn_laws_def by meson
  then show ?thesis using c_div_exact [OF assms(2,3)] by (simp add: BN_CHECK_def)
qed

subsection \<open>Fractions of integers\<close>

lemma reduce_fraction:
  fixes a b :: int
  assumes "b > 0" and "g = gcd a b"
  shows "b div g > 0" "coprime (a div g) (b div g)" "(of_int (a div g) :: rat) / of_int (b div g) = of_int a / of_int b"
proof -
  have g: "g > 0" "g dvd a" "g dvd b" using assms by (auto simp: gcd_pos_int)
  show "b div g > 0" using g assms(1) by (meson pos_imp_zdiv_pos_iff zdvd_imp_le)
  show "coprime (a div g) (b div g)" using assms by (intro div_gcd_coprime [of a b, folded assms(2)]) auto
  obtain k l where "a = g * k" "b = g * l" using g(2,3) unfolding dvd_def by blast
  then show "(of_int (a div g) :: rat) / of_int (b div g) = of_int a / of_int b" using g(1) by simp
qed

text \<open>The sum of two reduced fractions, with both greatest common divisors of \<open>rt_addsub\<close>.\<close>

lemma sum_fraction:
  fixes a b c d :: int
  assumes "b > 0" and "d > 0" and "coprime a b" and "coprime c d" and "g = gcd b d"
    and "t = a * (d div g) + c * (b div g)" and "h = gcd t g"
  shows "(d div h) * (b div g) > 0" "coprime (t div h) ((d div h) * (b div g))" "h dvd t" "h dvd d" "h > 0"
    and "(of_int (t div h) :: rat) / of_int ((d div h) * (b div g)) = of_int a / of_int b + of_int c / of_int d"
proof -
  have g: "g > 0" using assms(1,5) by simp
  obtain b' where b': "b = g * b'" using assms(5) by (metis dvdE gcd_dvd1)
  obtain d' where d': "d = g * d'" using assms(5) by (metis dvdE gcd_dvd2)
  have "gcd (g * b') (g * d') = g" using assms(5) b' d' by simp
  then have "\<bar>g\<bar> * gcd b' d' = g" by (simp only: gcd_mult_distrib_int)
  then have bd: "coprime b' d'" using g by (simp add: coprime_iff_gcd_eq_1)
  have q: "b div g = b'" "d div g = d'" using g b' d' by simp_all
  have t: "t = a * d' + c * b'" using assms(6) q by simp
  have pos: "b' > 0" "d' > 0" using assms(1,2) b' d' g by (simp_all add: zero_less_mult_iff)
  show h: "h > 0" "h dvd t" using assms(7) g by auto
  obtain g' where g': "g = h * g'" using assms(7) by (metis dvdE gcd_dvd2)
  show "h dvd d" using g' d' by simp
  obtain t' where t': "t = h * t'" using h(2) by (rule dvdE)
  have dh: "d div h = g' * d'" "t div h = t'" using h(1) d' g' t' by simp_all
  have "g' > 0" using g g' h(1) by (simp add: zero_less_mult_iff)
  then show "(d div h) * (b div g) > 0" using pos dh q by simp
  have "coprime a b'" "coprime c d'" using assms(3,4) b' d' by simp_all
  then have tb: "coprime t b'" "coprime t d'" using bd unfolding t
    by (metis coprime_commute coprime_mult_left_iff gcd_add_mult gcd_add_mult coprime_iff_gcd_eq_1 add.commute mult.commute)+
  have "coprime (t div gcd t g) (g div gcd t g)" using g by (intro div_gcd_coprime) simp
  then have "coprime t' g'" unfolding assms(7) [symmetric] using h(1) g' t' by simp
  moreover have "coprime t' b'" "coprime t' d'" using tb t' by simp_all
  ultimately show "coprime (t div h) ((d div h) * (b div g))" using dh q by simp
  have "(of_int (t div h) :: rat) / of_int ((d div h) * (b div g)) = of_int t' / of_int (g' * d' * b')" using dh q by simp
  also have "\<dots> = of_int (h * t') / of_int (h * g' * d' * b')" using h(1) by simp
  also have "\<dots> = of_int t / of_int (g * d' * b')" using t' g' by simp
  also have "\<dots> = of_int a / of_int b + of_int c / of_int d" using pos g by (simp add: t b' d' divide_simps)
  finally show "(of_int (t div h) :: rat) / of_int ((d div h) * (b div g)) = of_int a / of_int b + of_int c / of_int d" .
qed

text \<open>The product of two reduced fractions, reduced crosswise.\<close>

lemma product_fraction:
  fixes a b c d :: int
  assumes "b > 0" and "d > 0" and "coprime a b" and "coprime c d" and "g = gcd a d" and "h = gcd b c"
  shows "(b div h) * (d div g) > 0" "coprime ((a div g) * (c div h)) ((b div h) * (d div g))" "g > 0" "h > 0"
    and "(of_int ((a div g) * (c div h)) :: rat) / of_int ((b div h) * (d div g)) = (of_int a / of_int b) * (of_int c / of_int d)"
proof -
  show gh: "g > 0" "h > 0" using assms by auto
  obtain a' d' where a': "a = g * a'" "d = g * d'" using assms(5) by (metis dvdE gcd_dvd1 gcd_dvd2)
  obtain b' c' where b': "b = h * b'" "c = h * c'" using assms(6) by (metis dvdE gcd_dvd1 gcd_dvd2)
  have q: "a div g = a'" "d div g = d'" "b div h = b'" "c div h = c'" using gh a' b' by simp_all
  have "b' > 0" "d' > 0" using assms(1,2) a' b' gh by (simp_all add: zero_less_mult_iff)
  then show "(b div h) * (d div g) > 0" using q by simp
  have "coprime (a div gcd a d) (d div gcd a d)" using assms(2) by (intro div_gcd_coprime) simp
  then have "coprime a' d'" unfolding assms(5) [symmetric] q .
  moreover have "coprime (b div gcd b c) (c div gcd b c)" using assms(1) by (intro div_gcd_coprime) simp
  then have "coprime b' c'" unfolding assms(6) [symmetric] q .
  moreover have "coprime a' b'" "coprime c' d'" using assms(3,4) a' b' by simp_all
  ultimately show "coprime ((a div g) * (c div h)) ((b div h) * (d div g))" using q by (simp add: ac_simps coprime_commute)
  show "(of_int ((a div g) * (c div h)) :: rat) / of_int ((b div h) * (d div g)) = (of_int a / of_int b) * (of_int c / of_int d)"
    using q gh a' b' by simp
qed

subsection \<open>Ratios\<close>

definition rt_val :: "('b \<Rightarrow> int) \<Rightarrow> 'b FRatio \<Rightarrow> rat" where
  "rt_val val r = of_int (val (r_num r)) / of_int (val (r_den r))"

definition rt_ok :: "('b \<Rightarrow> int) \<Rightarrow> 'b FRatio \<Rightarrow> bool" where
  "rt_ok val r = (val (r_den r) > 0 \<and> coprime (val (r_num r)) (val (r_den r)))"

lemma rt_canonicalize_positive:
  assumes "bn_laws N val" and "val (r_den r) > 0" and "g = BN_gcd N (r_num r) (r_den r)"
  shows "\<exists>num den. BN_CHECK (BN_div N (r_num r) g) = Ok num \<and> BN_CHECK (BN_div N (r_den r) g) = Ok den \<and>
    rt_ok val \<lparr>r_num = num, r_den = den\<rparr> \<and> rt_val val \<lparr>r_num = num, r_den = den\<rparr> = rt_val val r"
proof -
  have g: "val g = gcd (val (r_num r)) (val (r_den r))" using assms by (simp add: bn_lawsD)
  then have "val g \<noteq> 0" "val g dvd val (r_num r)" "val g dvd val (r_den r)" using assms(2) by simp_all
  then obtain num den where "BN_CHECK (BN_div N (r_num r) g) = Ok num" "val num = val (r_num r) div val g"
      "BN_CHECK (BN_div N (r_den r) g) = Ok den" "val den = val (r_den r) div val g"
    using bn_div_exact [OF assms(1)] by meson
  then show ?thesis using reduce_fraction [OF assms(2) g] by (simp add: rt_ok_def rt_val_def)
qed

lemma rt_canonicalize_ok:
  assumes "bn_laws N val" and "val (r_den r) \<noteq> 0"
  shows "\<exists>r'. rt_canonicalize N r = Ok r' \<and> rt_ok val r' \<and> rt_val val r' = rt_val val r"
proof -
  note bn = bn_lawsD [OF assms(1)] bn_constants [OF assms(1)] bn_cmp_sgn(2) [OF assms(1)]
  consider "val (r_den r) = 1" | "val (r_den r) \<noteq> 1" "val (r_num r) = val (r_den r)" | "val (r_den r) \<noteq> 1" "val (r_num r) \<noteq> val (r_den r)" by blast
  then show ?thesis
  proof cases
    case 3
    define s where "s = (if BN_is_negative N (r_den r)
      then \<lparr>r_num = BN_set_negative N (r_num r) (\<not> BN_is_negative N (r_num r)), r_den = BN_set_negative N (r_den r) False\<rparr> else r)"
    have v: "rt_val val s = rt_val val r" by (simp add: s_def rt_val_def bn abs_if)
    have "val (r_den s) > 0" using assms(2) by (simp add: s_def bn)
    from rt_canonicalize_positive [OF assms(1) this refl] obtain num den where
      n: "BN_CHECK (BN_div N (r_num s) (BN_gcd N (r_num s) (r_den s))) = Ok num"
        "BN_CHECK (BN_div N (r_den s) (BN_gcd N (r_num s) (r_den s))) = Ok den"
      and r: "rt_ok val \<lparr>r_num = num, r_den = den\<rparr>" "rt_val val \<lparr>r_num = num, r_den = den\<rparr> = rt_val val s"
      by blast
    have "rt_canonicalize N r = Ok \<lparr>r_num = num, r_den = den\<rparr>"
      using 3 assms(2) n by (simp add: rt_canonicalize_def bn(9-13) s_def [symmetric] Let_def)
    then show ?thesis using r v by simp
  qed (use assms(2) in \<open>simp_all add: rt_canonicalize_def bn rt_ok_def rt_val_def\<close>)
qed

lemma make_rational_ok:
  assumes "bn_laws N val" and "val den \<noteq> 0"
  shows "\<exists>r. make_rational N num den = Ok (FRat r) \<and> rt_ok val r \<and> rt_val val r = of_int (val num) / of_int (val den)"
  using rt_canonicalize_ok [OF assms(1), of "\<lparr>r_num = num, r_den = den\<rparr>"] assms(2) by (auto simp: make_rational_def rt_val_def)

lemma make_rational_zero:
  assumes "bn_laws N val" and "val den = 0"
  shows "make_rational N num den = Throw MATH_ERROR"
  using assms by (simp add: make_rational_def rt_canonicalize_def bn_constants)

lemma rt_addsub_ok:
  assumes "bn_laws N val" and "fth_to_rt N m = Ok x" and "fth_to_rt N n = Ok y" and "rt_ok val x" and "rt_ok val y"
  shows "\<exists>r. rt_addsub N m n type = Ok r \<and> rt_ok val r \<and> rt_val val r = (if type = OP_ADD then rt_val val x + rt_val val y else rt_val val x - rt_val val y)"
proof -
  note bn = bn_lawsD [OF assms(1)]
  define s where "s = (if type = OP_ADD then 1 else -1 :: int)"
  have ok: "val (r_den x) > 0" "val (r_den y) > 0" "coprime (val (r_num x)) (val (r_den x))" "coprime (s * val (r_num y)) (val (r_den y))"
    using assms(4,5) by (simp_all add: rt_ok_def s_def)
  define g where "g = BN_gcd N (r_den x) (r_den y)"
  have g: "val g = gcd (val (r_den x)) (val (r_den y))" by (simp add: g_def bn)
  then have gd: "val g \<noteq> 0" "val g dvd val (r_den x)" "val g dvd val (r_den y)" using ok by simp_all
  obtain dy where dy: "BN_CHECK (BN_div N (r_den y) g) = Ok dy" "val dy = val (r_den y) div val g" using bn_div_exact [OF assms(1) gd(3,1)] by blast
  obtain dx where dx: "BN_CHECK (BN_div N (r_den x) g) = Ok dx" "val dx = val (r_den x) div val g" using bn_div_exact [OF assms(1) gd(2,1)] by blast
  define t where "t = (if type = OP_ADD then BN_add N (BN_mul N (r_num x) dy) (BN_mul N (r_num y) dx) else BN_sub N (BN_mul N (r_num x) dy) (BN_mul N (r_num y) dx))"
  have t: "val t = val (r_num x) * (val (r_den y) div val g) + s * val (r_num y) * (val (r_den x) div val g)"
    by (simp add: t_def bn s_def dx dy)
  define h where "h = BN_gcd N t g"
  have h: "val h = gcd (val t) (val g)" by (simp add: h_def bn)
  note sum = sum_fraction [OF ok g t h]
  have "val h \<noteq> 0" using sum(5) by simp
  then obtain num where num: "BN_CHECK (BN_div N t h) = Ok num" "val num = val t div val h" using bn_div_exact [OF assms(1) sum(3)] by blast
  obtain ey where ey: "BN_CHECK (BN_div N (r_den y) h) = Ok ey" "val ey = val (r_den y) div val h" using bn_div_exact [OF assms(1) sum(4) \<open>val h \<noteq> 0\<close>] by blast
  let ?r = "\<lparr>r_num = num, r_den = BN_mul N ey dx\<rparr>"
  have "rt_addsub N m n type = Ok ?r"
    using dx(1) dy(1) num(1) ey(1) unfolding t_def h_def g_def by (simp add: rt_addsub_def assms(2,3) Let_def split del: if_split)
  moreover have "rt_ok val ?r" using sum(1,2) by (simp add: rt_ok_def bn num ey dx)
  moreover have "rt_val val ?r = rt_val val x + of_int s * rt_val val y" using sum(6) by (simp add: rt_val_def bn num ey dx)
  ultimately show ?thesis by (auto simp: s_def)
qed

text \<open>The part of \<open>rt_muldiv\<close> that multiplies, for ratios of which the second may be one turned over.\<close>

lemma rt_product_ok:
  assumes "bn_laws N val" and "rt_ok val x" and "rt_ok val y"
  shows "\<exists>t1 t2 u1 u2. BN_CHECK (BN_div N (r_num x) (BN_gcd N (r_num x) (r_den y))) = Ok t1 \<and>
    BN_CHECK (BN_div N (r_num y) (BN_gcd N (r_den x) (r_num y))) = Ok t2 \<and>
    BN_CHECK (BN_div N (r_den x) (BN_gcd N (r_den x) (r_num y))) = Ok u1 \<and>
    BN_CHECK (BN_div N (r_den y) (BN_gcd N (r_num x) (r_den y))) = Ok u2 \<and>
    rt_ok val \<lparr>r_num = BN_mul N t1 t2, r_den = BN_mul N u1 u2\<rparr> \<and>
    rt_val val \<lparr>r_num = BN_mul N t1 t2, r_den = BN_mul N u1 u2\<rparr> = rt_val val x * rt_val val y"
proof -
  note bn = bn_lawsD [OF assms(1)]
  let ?g = "BN_gcd N (r_num x) (r_den y)" and ?h = "BN_gcd N (r_den x) (r_num y)"
  have ok: "val (r_den x) > 0" "val (r_den y) > 0" "coprime (val (r_num x)) (val (r_den x))" "coprime (val (r_num y)) (val (r_den y))"
    using assms(2,3) by (simp_all add: rt_ok_def)
  have g: "val ?g = gcd (val (r_num x)) (val (r_den y))" "val ?h = gcd (val (r_den x)) (val (r_num y))" by (simp_all add: bn)
  note prod = product_fraction [OF ok g]
  have "val ?g \<noteq> 0" "val ?g dvd val (r_num x)" "val ?g dvd val (r_den y)" "val ?h \<noteq> 0" "val ?h dvd val (r_den x)" "val ?h dvd val (r_num y)"
    using prod(3,4) g by simp_all
  then obtain t1 t2 u1 u2 where "BN_CHECK (BN_div N (r_num x) ?g) = Ok t1" "val t1 = val (r_num x) div val ?g"
      "BN_CHECK (BN_div N (r_num y) ?h) = Ok t2" "val t2 = val (r_num y) div val ?h"
      "BN_CHECK (BN_div N (r_den x) ?h) = Ok u1" "val u1 = val (r_den x) div val ?h"
      "BN_CHECK (BN_div N (r_den y) ?g) = Ok u2" "val u2 = val (r_den y) div val ?g"
    using bn_div_exact [OF assms(1)] by meson
  then show ?thesis using prod(1,2,5) by (simp add: rt_ok_def rt_val_def bn(3))
qed

lemma rt_mul_ok:
  assumes "bn_laws N val" and "fth_to_rt N m = Ok x" and "fth_to_rt N n = Ok y" and "rt_ok val x" and "rt_ok val y"
  shows "\<exists>r. rt_muldiv N m n OP_MUL = Ok r \<and> rt_ok val r \<and> rt_val val r = rt_val val x * rt_val val y"
  using rt_product_ok [OF assms(1,4,5)] by (auto simp: rt_muldiv_def assms(2,3) Let_def)

lemma rt_div_ok:
  assumes "bn_laws N val" and "fth_to_rt N m = Ok x" and "fth_to_rt N n = Ok y" and "rt_ok val x" and "rt_ok val y" and "rt_val val y \<noteq> 0"
  shows "\<exists>r. rt_muldiv N m n OP_DIV = Ok r \<and> rt_ok val r \<and> rt_val val r = rt_val val x / rt_val val y"
proof -
  note bn = bn_lawsD [OF assms(1)]
  define x' where "x' = (if BN_is_negative N (r_num y) then x\<lparr>r_num := BN_set_negative N (r_num x) (\<not> BN_is_negative N (r_num x))\<rparr> else x)"
  define z where "z = \<lparr>r_num = r_den y, r_den = (if BN_is_negative N (r_num y) then BN_set_negative N (r_num y) (\<not> BN_is_negative N (r_num y)) else r_num y)\<rparr>"
  have n: "val (r_num y) \<noteq> 0" using assms(6) by (auto simp: rt_val_def)
  have y: "val (r_den y) > 0" "coprime (val (r_num y)) (val (r_den y))" using assms(5) by (simp_all add: rt_ok_def)
  have x': "rt_ok val x'" using assms(4) by (auto simp: rt_ok_def x'_def bn)
  have z: "rt_ok val z" using n y by (auto simp: rt_ok_def z_def bn coprime_commute)
  have "rt_val val x' * rt_val val z = rt_val val x / rt_val val y"
    using n y(1) by (auto simp: x'_def z_def rt_val_def bn abs_if)
  then show ?thesis using rt_product_ok [OF assms(1) x' z]
    by (auto simp: rt_muldiv_def assms(2,3) Let_def x'_def z_def split: if_splits)
qed

text \<open>Dividing by zero is not detected: the quotient has the denominator zero. Only zero divided by zero raises an exception.\<close>

lemma rt_div_by_zero:
  assumes "bn_laws N val" and "fth_to_rt N m = Ok x" and "fth_to_rt N n = Ok y" and "rt_ok val x" and "rt_ok val y" and "rt_val val y = 0"
  shows "if rt_val val x = 0 then rt_muldiv N m n OP_DIV = Throw BIGNUM_ERROR
    else \<exists>r. rt_muldiv N m n OP_DIV = Ok r \<and> val (r_den r) = 0"
proof -
  note bn = bn_lawsD [OF assms(1)]
  have d: "val (r_den y) > 0" "val (r_den x) > 0" using assms(4,5) by (simp_all add: rt_ok_def)
  have n: "val (r_num y) = 0" using assms(6) d by (simp add: rt_val_def)
  let ?g = "BN_gcd N (r_num x) (r_num y)" and ?h = "BN_gcd N (r_den x) (r_den y)"
  have g: "val ?g = \<bar>val (r_num x)\<bar>" "val ?h = gcd (val (r_den x)) (val (r_den y))" using n by (simp_all add: bn)
  show ?thesis
  proof (cases "val (r_num x) = 0")
    case True
    then have "BN_div N (r_num x) ?g = None" using g(1) assms(1) unfolding bn_laws_def by (metis abs_0)
    then show ?thesis using True n by (simp add: rt_muldiv_def assms(2,3) Let_def bn(7) BN_CHECK_def rt_val_def)
  next
    case False
    then have "val ?g \<noteq> 0" "val ?g dvd val (r_num x)" "val ?g dvd val (r_num y)" "val ?h \<noteq> 0" "val ?h dvd val (r_den x)" "val ?h dvd val (r_den y)"
      using g n d by simp_all
    then obtain t1 t2 u1 u2 where t: "BN_CHECK (BN_div N (r_num x) ?g) = Ok t1" "BN_CHECK (BN_div N (r_den y) ?h) = Ok t2"
        "BN_CHECK (BN_div N (r_den x) ?h) = Ok u1" "BN_CHECK (BN_div N (r_num y) ?g) = Ok u2" "val u2 = val (r_num y) div val ?g"
      using bn_div_exact [OF assms(1)] by meson
    then have "rt_muldiv N m n OP_DIV = Ok \<lparr>r_num = BN_mul N t1 t2, r_den = BN_mul N u1 u2\<rparr>"
      using n by (simp add: rt_muldiv_def assms(2,3) Let_def bn(7))
    then show ?thesis using False d n t(5) by (simp add: rt_val_def bn(3))
  qed
qed

lemma rt_cmp_sgn:
  assumes "bn_laws N val" and "val (r_den x) > 0" and "val (r_den y) > 0"
  shows "sgn (rt_cmp N x y) = sgn (val (r_num x) * val (r_den y) - val (r_num y) * val (r_den x))"
    and "rt_cmp N x y = 0 \<longleftrightarrow> rt_val val x = rt_val val y" and "rt_cmp N x y < 0 \<longleftrightarrow> rt_val val x < rt_val val y"
proof -
  note bn = bn_lawsD [OF assms(1)] bn_constants(1) [OF assms(1)]
  show s: "sgn (rt_cmp N x y) = sgn (val (r_num x) * val (r_den y) - val (r_num y) * val (r_den x))"
  proof (cases "BN_cmp N (r_den x) (r_den y) = 0")
    case True
    then have e: "val (r_den x) = val (r_den y)" using bn_cmp_sgn(2) [OF assms(1)] by simp
    have "val (r_num x) * val (r_den y) - val (r_num y) * val (r_den x) = (val (r_num x) - val (r_num y)) * val (r_den y)" by (simp add: e algebra_simps)
    then show ?thesis using True assms(3) bn_cmp_sgn(1) [OF assms(1)] by (simp add: rt_cmp_def sgn_mult)
  next
    case False
    then show ?thesis using bn_cmp_sgn(1) [OF assms(1)] by (simp add: rt_cmp_def Let_def bn mult.commute)
  qed
  let ?d = "val (r_num x) * val (r_den y) - val (r_num y) * val (r_den x)"
  have "rt_val val x = rt_val val y \<longleftrightarrow> ?d = 0" "rt_val val x < rt_val val y \<longleftrightarrow> ?d < 0"
    using assms(2,3) by (simp_all add: rt_val_def divide_simps flip: of_int_mult)
  then show "rt_cmp N x y = 0 \<longleftrightarrow> rt_val val x = rt_val val y" "rt_cmp N x y < 0 \<longleftrightarrow> rt_val val x < rt_val val y"
    using s by (metis sgn_eq_0_iff, metis sgn_less)
qed

subsection \<open>Fixnums\<close>

lemma sint_of_int_cell: "- (2 ^ 63) \<le> k \<Longrightarrow> k < 2 ^ 63 \<Longrightarrow> sint (of_int k :: cell) = k"
  by (simp add: signed_of_int signed_take_bit_int_eq_self)

lemma INT_TO_FIX_double: "INT_TO_FIX n = 2 * n + 1"
proof -
  have "even (push_bit 1 n)" by (simp only: even_push_bit_iff) simp
  then have "INT_TO_FIX n = push_bit 1 n + 1" by (simp only: INT_TO_FIX_def or_one_eq of_bool_eq)
  then show ?thesis by (simp add: push_bit_double)
qed

lemma INT_TO_FIX_fixnum: "NUMB_FIXNUM_P (Imm (INT_TO_FIX n))"
proof -
  have "bit (INT_TO_FIX n) 0" by (simp add: INT_TO_FIX_def bit_simps)
  then have "bit (INT_TO_FIX n AND 1) 0" "bit (INT_TO_FIX n AND 3) 0" by (simp_all add: bit_simps)
  then show ?thesis by (auto simp del: bit_and_iff)
qed

lemma FIX_TO_INT_FIX:
  assumes "FIXABLE_P (sint n)"
  shows "FIX_TO_INT (INT_TO_FIX n) = n"
proof -
  have "sint (of_int (2 * sint n + 1) :: cell) = 2 * sint n + 1"
    using assms by (intro sint_of_int_cell) (simp_all add: FIXABLE_P_def FIXNUM_MAX_def FIXNUM_MIN_def)
  then have "sint (INT_TO_FIX n) = 2 * sint n + 1" by (simp add: INT_TO_FIX_double)
  then have "sint (FIX_TO_INT (INT_TO_FIX n)) = sint n" by (simp add: FIX_TO_INT_def sint_signed_drop_bit_eq drop_bit_Suc)
  then show ?thesis by (rule signed_word_eqI)
qed

lemma fth_make_int_ref: "fth_int_ref N (fth_make_int n) = Ok n" "fth_long_long_ref N (fth_make_long_long n) = Ok n"
  using INT_TO_FIX_fixnum [of n, where ?'a = 'a and ?'b = 'b and ?'c = 'c] FIX_TO_INT_FIX [of n]
  by (simp_all add: fth_make_int_def fth_make_long_long_def fth_make_llong_def del: NUMB_FIXNUM_P.simps)

lemma UFIXABLE_uint: "UFIXABLE_P u \<longleftrightarrow> uint u < 2 ^ 63"
proof -
  have "uint FIXNUM_UMAX = 2 ^ 63 - 1" unfolding FIXNUM_UMAX_def by code_simp
  then show ?thesis by (auto simp: UFIXABLE_P_def word_le_def)
qed

lemma FIX_TO_UNSIGNED_FIX:
  assumes "UFIXABLE_P u"
  shows "FIX_TO_UNSIGNED (INT_TO_FIX u) = u"
proof -
  have "uint u < 2 ^ 63" using assms by (simp only: UFIXABLE_uint)
  then have "uint (of_int (2 * uint u + 1) :: cell) = 2 * uint u + 1" by (subst unsigned_of_int) (simp add: take_bit_int_eq_self)
  then have "uint (INT_TO_FIX u) = 2 * uint u + 1" by (simp add: INT_TO_FIX_double)
  then have "uint (FIX_TO_UNSIGNED (INT_TO_FIX u)) = uint u" by (simp add: FIX_TO_UNSIGNED_def drop_bit_Suc uint_div_distrib)
  then show ?thesis by (simp only: word_uint_eq_iff)
qed

text \<open>
  Unsigned integers come back as they were made, but for those of 64 bits read as \<open>ficl2Unsigned\<close>: from \<open>2 ^ 63\<close> on the object that holds them is
  taken for a ratio.
\<close>

lemma fth_make_unsigned_ref:
  "fth_unsigned_ref N (fth_make_unsigned u) = Ok u"
  "fth_ulong_long_ref N (fth_make_ulong_long u) = (if UFIXABLE_P u then Ok u else Fault)"
proof -
  note fx = INT_TO_FIX_fixnum [of u, where ?'a = 'a and ?'b = 'b and ?'c = 'c]
  show "fth_unsigned_ref N (fth_make_unsigned u) = Ok u"
    using fx FIX_TO_UNSIGNED_FIX [of u] by (simp add: fth_make_unsigned_def fth_make_ullong_def del: NUMB_FIXNUM_P.simps)
  have "sint u < 0" if "\<not> UFIXABLE_P u"
  proof -
    have "uint u \<ge> 2 ^ 63" using that by (simp only: UFIXABLE_uint not_less)
    moreover have "uint u < 2 ^ 64" using uint_lt2p [of u] by simp
    moreover have "(uint u + 2 ^ 63) mod 2 ^ 64 = (uint u - 2 ^ 63) mod 2 ^ 64" using mod_add_self2 [of "uint u - 2 ^ 63" "2 ^ 64"] by (simp add: add.commute)
    ultimately show ?thesis by (simp add: sint_uint signed_take_bit_eq_take_bit_shift take_bit_eq_mod)
  qed
  then show "fth_ulong_long_ref N (fth_make_ulong_long u) = (if UFIXABLE_P u then Ok u else Fault)"
    using fx FIX_TO_UNSIGNED_FIX [of u] by (cases "UFIXABLE_P u") (simp_all add: fth_make_ulong_long_def fth_make_ullong_def del: NUMB_FIXNUM_P.simps)
qed

subsection \<open>Values of exact numbers\<close>

fun exact_value :: "('b \<Rightarrow> int) \<Rightarrow> ('b, 'f, 'c) fnum \<Rightarrow> rat" where
  "exact_value val (Imm c) = of_int (sint (FIX_TO_INT c))"
| "exact_value val (LLong d) = of_int (sint d)"
| "exact_value val (Bignum b) = of_int (val b)"
| "exact_value val (FRat r) = rt_val val r"
| "exact_value val _ = 0"

text \<open>A well-formed exact number.\<close>

fun exact_ok :: "('b \<Rightarrow> int) \<Rightarrow> ('b, 'f, 'c) fnum \<Rightarrow> bool" where
  "exact_ok val (Imm c) = NUMB_FIXNUM_P (Imm c :: ('b, 'f, 'c) fnum)"
| "exact_ok val (LLong d) = True"
| "exact_ok val (Bignum b) = True"
| "exact_ok val (FRat r) = rt_ok val r"
| "exact_ok val _ = False"

lemma fth_make_int_exact:
  "exact_ok val (fth_make_int z)" "exact_value val (fth_make_int z) = of_int (sint z)"
  "exact_ok val (fth_make_long_long z)" "exact_value val (fth_make_long_long z) = of_int (sint z)"
  using FIX_TO_INT_FIX [of z] INT_TO_FIX_fixnum [of z]
  by (auto simp: fth_make_int_def fth_make_long_long_def fth_make_llong_def simp del: NUMB_FIXNUM_P.simps)

lemma int_to_bn_val:
  assumes "bn_laws N val"
  shows "val (int_to_bn N x) = sint x"
proof (cases "sint x < 0")
  case True
  have "- x = of_int \<bar>sint x\<bar>" using True by simp
  then have "uint (- x) = \<bar>sint x\<bar>" using uint_abs_cell [of x] by metis
  then show ?thesis using True by (simp add: int_to_bn_def bn_lawsD [OF assms])
next
  case False
  have "x = of_int \<bar>sint x\<bar>" using False by simp
  then have "uint x = \<bar>sint x\<bar>" using uint_abs_cell [of x] by metis
  then show ?thesis using False by (simp add: int_to_bn_def bn_lawsD [OF assms])
qed

text \<open>Both conversions give the value.\<close>

lemma fth_to_rt_exact:
  assumes "bn_laws N val" and "exact_ok val x"
  shows "\<exists>r. fth_to_rt N x = Ok r \<and> rt_ok val r \<and> rt_val val r = exact_value val x"
  using assms(2) by (cases x) (simp_all add: rt_ok_def rt_val_def bn_constants [OF assms(1)] int_to_bn_val [OF assms(1)])

lemma fth_to_bn_exact:
  assumes "bn_laws N val" and "exact_ok val x" and "\<not> FTH_RATIO_P x"
  shows "\<exists>b. fth_to_bn N x = Ok b \<and> of_int (val b) = exact_value val x"
  using assms(2,3) by (cases x) (simp_all add: int_to_bn_val [OF assms(1)])

lemma fth_long_long_ref_exact:
  assumes "exact_ok val x" and "number_type x \<le> FTH_LLONG_T"
  shows "\<exists>d. fth_long_long_ref N x = Ok d \<and> of_int (sint d) = exact_value val x"
  using assms by (cases x) (simp_all add: FTH_LLONG_T_def FTH_BIGNUM_T_def FTH_RATIO_T_def)

subsection \<open>The tower\<close>

fun rat_op :: "math_op \<Rightarrow> rat \<Rightarrow> rat \<Rightarrow> rat" where
  "rat_op OP_ADD x y = x + y" | "rat_op OP_SUB x y = x - y" | "rat_op OP_MUL x y = x * y" | "rat_op OP_DIV x y = x / y"

fun number_op :: "('b, 'f, 'c) num_env \<Rightarrow> math_op \<Rightarrow> ('b, 'f, 'c) fnum \<Rightarrow> ('b, 'f, 'c) fnum \<Rightarrow> ('b, 'f, 'c) fnum num_result" where
  "number_op N OP_ADD = fth_number_add N" | "number_op N OP_SUB = fth_number_sub N"
| "number_op N OP_MUL = fth_number_mul N" | "number_op N OP_DIV = fth_number_div N"

lemmas type_numbers = FTH_LLONG_T_def FTH_FLOAT_T_def FTH_COMPLEX_T_def FTH_BIGNUM_T_def FTH_RATIO_T_def

lemma number_op_cases:
  assumes "exact_ok val m" and "exact_ok val n"
  shows "number_op N oper m n = (if both_fixnums m n then fix_op oper m n else N_MATH_OP N oper m n)"
  using assms by (cases oper) (auto simp: fth_number_add_def fth_number_sub_def fth_number_mul_def fth_number_div_def)

lemma exact_types:
  assumes "exact_ok val m" and "exact_ok val n"
  shows "both_fixnums m n \<or> max_type m n = FTH_LLONG_T \<or> max_type m n = FTH_BIGNUM_T \<or> max_type m n = FTH_RATIO_T"
  using assms by (cases m; cases n) (auto simp: max_type_def type_numbers both_fixnums_def)

lemma both_fixnums_type: "both_fixnums m n \<Longrightarrow> max_type m n = -1"
  by (cases m; cases n) (auto simp: both_fixnums_def max_type_def)

lemma rat_op_int:
  assumes "rat_op oper (of_int a) (of_int b) = of_int k" and "oper \<noteq> OP_DIV"
  shows "oper = OP_ADD \<and> k = a + b \<or> oper = OP_SUB \<and> k = a - b \<or> oper = OP_MUL \<and> k = a * b"
  using assms by (cases oper) (simp_all flip: of_int_add of_int_diff of_int_mult)

lemma int_op_exact:
  assumes "rat_op oper (of_int (sint x)) (of_int (sint y)) = of_int k" and "oper \<noteq> OP_DIV" and "- (2 ^ 63) \<le> k" and "k < 2 ^ 63"
  shows "\<exists>z. int_op oper x y = Ok z \<and> sint z = k"
proof -
  have k: "sint (of_int k :: cell) = k" using assms(3,4) by (rule sint_of_int_cell)
  have "oper = OP_ADD \<and> k = sint x + sint y \<or> oper = OP_SUB \<and> k = sint x - sint y \<or> oper = OP_MUL \<and> k = sint x * sint y"
    by (rule rat_op_int [OF assms(1,2)])
  then show ?thesis using k by auto
qed

lemma fix_op_exact:
  assumes "both_fixnums m n" and "rat_op oper (exact_value val m) (exact_value val n) = of_int k" and "oper \<noteq> OP_DIV" and "- (2 ^ 63) \<le> k" and "k < 2 ^ 63"
  shows "\<exists>r. fix_op oper m n = Ok r \<and> exact_ok val r \<and> exact_value val r = of_int k"
proof -
  obtain c d where "m = Imm c" "n = Imm d" using assms(1) by (cases m; cases n) (auto simp: both_fixnums_def)
  then show ?thesis using int_op_exact [of oper "FIX_TO_INT c" "FIX_TO_INT d" k] assms(2-5) by (auto simp: fix_op_def fth_make_int_exact)
qed

lemma llong_op_exact:
  assumes "exact_ok val m" and "exact_ok val n" and "max_type m n = FTH_LLONG_T"
    and "rat_op oper (exact_value val m) (exact_value val n) = of_int k" and "oper \<noteq> OP_DIV" and "- (2 ^ 63) \<le> k" and "k < 2 ^ 63"
  shows "\<exists>r. N_MATH_OP N oper m n = Ok r \<and> exact_ok val r \<and> exact_value val r = of_int k"
proof -
  have "number_type m \<le> FTH_LLONG_T" "number_type n \<le> FTH_LLONG_T" using assms(3) by (simp_all add: max_type_def)
  then obtain x y where xy: "fth_long_long_ref N m = Ok x" "of_int (sint x) = exact_value val m" "fth_long_long_ref N n = Ok y" "of_int (sint y) = exact_value val n"
    using fth_long_long_ref_exact assms(1,2) by meson
  then obtain z where "int_op oper x y = Ok z" "sint z = k" using int_op_exact [of oper x y k] assms(4-7) by auto
  then show ?thesis using assms(3) xy by (simp add: N_MATH_OP_def Let_def type_numbers fth_make_int_exact)
qed

lemma bn_op_exact:
  assumes "bn_laws N val" and "exact_ok val m" and "exact_ok val n" and "max_type m n = FTH_BIGNUM_T" and "oper \<noteq> OP_DIV"
  shows "\<exists>r. N_MATH_OP N oper m n = Ok r \<and> exact_ok val r \<and> exact_value val r = rat_op oper (exact_value val m) (exact_value val n)"
proof -
  have "\<not> FTH_RATIO_P m" "\<not> FTH_RATIO_P n" using assms(4) by (cases m; cases n; simp add: max_type_def type_numbers)+
  then obtain x y where "fth_to_bn N m = Ok x" "of_int (val x) = exact_value val m" "fth_to_bn N n = Ok y" "of_int (val y) = exact_value val n"
    using fth_to_bn_exact [OF assms(1)] assms(2,3) by meson
  then show ?thesis using assms(4,5)
    by (cases oper) (simp_all add: N_MATH_OP_def Let_def type_numbers bn_add_def bn_sub_def bn_mul_def bn_addsub_def bn_muldiv_def
        fth_make_bignum_def bn_lawsD [OF assms(1)])
qed

text \<open>Reduced ratios are equal just when their parts are, as \<open>rt_equal_p\<close> compares them.\<close>

lemma reduced_unique:
  fixes a b c d :: int
  assumes "b > 0" and "d > 0" and "coprime a b" and "coprime c d" and "a * d = c * b"
  shows "a = c \<and> b = d"
proof -
  have "b dvd a * d" "d dvd c * b" using assms(5) by (simp, metis dvd_triv_right)
  then have "b dvd d" "d dvd b" using assms(3,4) by (simp_all add: coprime_dvd_mult_right_iff coprime_commute)
  then have "b = d" using assms(1,2) by (simp add: zdvd_antisym_nonneg)
  then show ?thesis using assms(2,5) by simp
qed

lemma rt_equal_p_value:
  assumes "bn_laws N val" and "rt_ok val x" and "rt_ok val y"
  shows "rt_equal_p N x y \<longleftrightarrow> rt_val val x = rt_val val y"
proof -
  have d: "val (r_den x) > 0" "val (r_den y) > 0" "coprime (val (r_num x)) (val (r_den x))" "coprime (val (r_num y)) (val (r_den y))"
    using assms(2,3) by (simp_all add: rt_ok_def)
  have "rt_val val x = rt_val val y \<longleftrightarrow> val (r_num x) * val (r_den y) = val (r_num y) * val (r_den x)"
    using d(1,2) by (simp add: rt_val_def divide_simps flip: of_int_mult)
  also have "\<dots> \<longleftrightarrow> val (r_num x) = val (r_num y) \<and> val (r_den x) = val (r_den y)" using reduced_unique [OF d] by auto
  finally show ?thesis by (simp add: rt_equal_p_def bn_cmp_sgn(2) [OF assms(1)])
qed

lemma rt_op_form:
  assumes "bn_laws N val" and "exact_ok val m" and "exact_ok val n" and "oper = OP_DIV \<Longrightarrow> exact_value val n \<noteq> 0"
  shows "\<exists>r. rt_op N oper m n = Ok (FRat r) \<and> rt_ok val r \<and> rt_val val r = rat_op oper (exact_value val m) (exact_value val n)"
proof -
  obtain x y where xy: "fth_to_rt N m = Ok x" "rt_ok val x" "rt_val val x = exact_value val m" "fth_to_rt N n = Ok y" "rt_ok val y" "rt_val val y = exact_value val n"
    using fth_to_rt_exact [OF assms(1)] assms(2,3) by meson
  note rt = assms(1) xy(1,4,2,5)
  show ?thesis using rt_addsub_ok [OF rt, of OP_ADD] rt_addsub_ok [OF rt, of OP_SUB] rt_mul_ok [OF rt] rt_div_ok [OF rt] xy(3,6) assms(4)
    by (cases oper) (auto simp: rt_add_def rt_sub_def rt_mul_def rt_div_def fth_make_rational_def)
qed

lemma rt_op_exact:
  assumes "bn_laws N val" and "exact_ok val m" and "exact_ok val n" and "max_type m n = FTH_RATIO_T" and "oper = OP_DIV \<Longrightarrow> exact_value val n \<noteq> 0"
  shows "\<exists>r. N_MATH_OP N oper m n = Ok (FRat r) \<and> rt_ok val r \<and> rt_val val r = rat_op oper (exact_value val m) (exact_value val n)"
  using rt_op_form [OF assms(1-3,5)] assms(4) by (simp add: N_MATH_OP_def Let_def type_numbers)

lemma number_op_exact:
  assumes "bn_laws N val" and "exact_ok val m" and "exact_ok val n" and "oper \<noteq> OP_DIV"
    and "max_type m n < FTH_BIGNUM_T \<Longrightarrow> rat_op oper (exact_value val m) (exact_value val n) \<in> of_int ` {- (2 ^ 63)..<2 ^ 63}"
  shows "\<exists>r. number_op N oper m n = Ok r \<and> exact_ok val r \<and> exact_value val r = rat_op oper (exact_value val m) (exact_value val n)"
proof -
  consider "both_fixnums m n" | "max_type m n = FTH_LLONG_T" | "max_type m n = FTH_BIGNUM_T" | "max_type m n = FTH_RATIO_T"
    using exact_types [OF assms(2,3)] by blast
  then show ?thesis
  proof cases
    case 1
    then obtain k where "rat_op oper (exact_value val m) (exact_value val n) = of_int k" "- (2 ^ 63) \<le> k" "k < 2 ^ 63"
      using assms(5) both_fixnums_type [OF 1] by (auto simp: type_numbers)
    then show ?thesis using fix_op_exact [OF 1 _ assms(4)] 1 by (simp add: number_op_cases [OF assms(2,3)])
  next
    case 2
    then obtain k where "rat_op oper (exact_value val m) (exact_value val n) = of_int k" "- (2 ^ 63) \<le> k" "k < 2 ^ 63"
      using assms(5) by (auto simp: type_numbers)
    moreover have "\<not> both_fixnums m n" using 2 both_fixnums_type [of m n] by (auto simp: type_numbers)
    ultimately show ?thesis using llong_op_exact [OF assms(2,3) 2 _ assms(4)] by (simp add: number_op_cases [OF assms(2,3)])
  next
    case 3
    moreover have "\<not> both_fixnums m n" using 3 both_fixnums_type [of m n] by (auto simp: type_numbers)
    ultimately show ?thesis using bn_op_exact [OF assms(1-3) 3 assms(4)] by (simp add: number_op_cases [OF assms(2,3)])
  next
    case 4
    moreover have "\<not> both_fixnums m n" using 4 both_fixnums_type [of m n] by (auto simp: type_numbers)
    ultimately show ?thesis using rt_op_exact [OF assms(1-3) 4, of oper] assms(4) by (auto simp: number_op_cases [OF assms(2,3)])
  qed
qed

subsection \<open>Comparison, division, numerator\<close>

lemma number_cmp_exact:
  assumes "bn_laws N val" and "exact_ok val m" and "exact_ok val n"
  shows "fth_number_equal_p N m n = Ok (exact_value val m = exact_value val n)"
    and "fth_number_less_p N m n = Ok (exact_value val m < exact_value val n)"
proof -
  consider "both_fixnums m n" | "\<not> both_fixnums m n" "max_type m n = FTH_LLONG_T" | "\<not> both_fixnums m n" "max_type m n = FTH_BIGNUM_T"
    | "\<not> both_fixnums m n" "max_type m n = FTH_RATIO_T"
    using exact_types [OF assms(2,3)] by blast
  then have "fth_number_equal_p N m n = Ok (exact_value val m = exact_value val n) \<and> fth_number_less_p N m n = Ok (exact_value val m < exact_value val n)"
  proof cases
    case 1
    then obtain c d where "m = Imm c" "n = Imm d" by (cases m; cases n) (auto simp: both_fixnums_def)
    then show ?thesis using 1 by (simp add: fth_number_equal_p_def fth_number_less_p_def fix_cmp_def del: of_int_sint)
  next
    case 2
    then have "number_type m \<le> FTH_LLONG_T" "number_type n \<le> FTH_LLONG_T" by (simp_all add: max_type_def)
    then obtain x y where "fth_long_long_ref N m = Ok x" "of_int (sint x) = exact_value val m" "fth_long_long_ref N n = Ok y" "of_int (sint y) = exact_value val n"
      using fth_long_long_ref_exact assms(2,3) by meson
    then show ?thesis using 2
      by (auto simp: fth_number_equal_p_def fth_number_less_p_def N_CMP_TWO_OP_def Let_def type_numbers simp del: of_int_sint simp flip: \<open>of_int (sint x) = exact_value val m\<close> \<open>of_int (sint y) = exact_value val n\<close>)
  next
    case 3
    then have "\<not> FTH_RATIO_P m" "\<not> FTH_RATIO_P n" by (cases m; cases n; simp add: max_type_def type_numbers)+
    then obtain x y where xy: "fth_to_bn N m = Ok x" "exact_value val m = of_int (val x)" "fth_to_bn N n = Ok y" "exact_value val n = of_int (val y)"
      using fth_to_bn_exact [OF assms(1)] assms(2,3) by metis
    then show ?thesis using 3
      by (simp add: fth_number_equal_p_def fth_number_less_p_def N_CMP_TWO_OP_def Let_def type_numbers fth_bn_test2_def bn_cmp_sgn [OF assms(1)])
  next
    case 4
    obtain x y where xy: "fth_to_rt N m = Ok x" "rt_ok val x" "rt_val val x = exact_value val m" "fth_to_rt N n = Ok y" "rt_ok val y" "rt_val val y = exact_value val n"
      using fth_to_rt_exact [OF assms(1)] assms(2,3) by meson
    then have "val (r_den x) > 0" "val (r_den y) > 0" by (simp_all add: rt_ok_def)
    then show ?thesis using 4 xy
      by (simp add: fth_number_equal_p_def fth_number_less_p_def N_CMP_TWO_OP_def Let_def type_numbers fth_rt_test2_def rt_cmp_sgn(2,3) [OF assms(1)])
  qed
  then show "fth_number_equal_p N m n = Ok (exact_value val m = exact_value val n)" "fth_number_less_p N m n = Ok (exact_value val m < exact_value val n)"
    by simp_all
qed

lemma number_div_ratio:
  assumes "bn_laws N val" and "exact_ok val m" and "exact_ok val n" and "max_type m n = FTH_RATIO_T" and "exact_value val n \<noteq> 0"
  shows "\<exists>r. fth_number_div N m n = Ok (FRat r) \<and> rt_ok val r \<and> rt_val val r = exact_value val m / exact_value val n"
proof -
  have "\<not> both_fixnums m n" using assms(4) both_fixnums_type [of m n] by (auto simp: type_numbers)
  then show ?thesis using rt_op_exact [OF assms(1-4), of OP_DIV] assms(5) by (simp add: fth_number_div_def)
qed

text \<open>
  The numerator as a number of its own: \<open>BN_get_word\<close> yields its magnitude when it has at most 64 bits, and the sign of the cell is
  then that of a signed integer.
\<close>

lemma fth_numerator_value:
  assumes "bn_laws N val"
  shows "exact_value val (fth_numerator N (FRat r)) =
    of_int (if \<bar>val (r_num r)\<bar> < 2 ^ 64 - 1 then sint (of_int (val (r_num r)) :: cell) else val (r_num r))"
proof (cases "\<bar>val (r_num r)\<bar> < 2 ^ 64 - 1")
  case True
  let ?x = "of_int \<bar>val (r_num r)\<bar> :: cell"
  have w: "BN_get_word N (r_num r) = ?x" using True by (simp add: bn_lawsD [OF assms])
  have "uint ?x = \<bar>val (r_num r)\<bar>" using True by (subst unsigned_of_int) (simp add: take_bit_int_eq_self)
  then have "uint ?x < 2 ^ 64 - 1" using True by simp
  moreover have "uint ULONG_MAX = 2 ^ 64 - 1" unfolding ULONG_MAX_def by code_simp
  ultimately have "?x < ULONG_MAX" by (simp only: word_less_def)
  moreover have "(if val (r_num r) < 0 then - ?x else ?x) = of_int (val (r_num r))" by (simp add: abs_if)
  ultimately show ?thesis using True
    by (auto simp: fth_numerator_def fth_integer_p_def Let_def w bn_lawsD(7) [OF assms] fth_make_int_exact)
next
  case False
  have "\<not> BN_get_word N (r_num r) < ULONG_MAX"
  proof (cases "\<bar>val (r_num r)\<bar> < 2 ^ 64")
    case True
    then have "\<bar>val (r_num r)\<bar> = 2 ^ 64 - 1" using False by simp
    then have "BN_get_word N (r_num r) = of_int (2 ^ 64 - 1)" using True by (simp only: bn_lawsD(6) [OF assms] if_True)
    then show ?thesis by (simp add: ULONG_MAX_def)
  next
    case False
    then show ?thesis by (simp add: bn_lawsD(6) [OF assms] ULONG_MAX_def)
  qed
  then show ?thesis using False by (simp add: fth_numerator_def fth_integer_p_def Let_def fth_make_bignum_def)
qed

subsection \<open>Text\<close>

text \<open>Decimal text as \<open>bn(3)\<close> documents it: \<open>BN_bn2dec\<close> writes digits with a minus sign in front if need be, and \<open>BN_dec2bn\<close> reads them.\<close>

definition bn_text_laws :: "('b, 'f, 'c) num_env \<Rightarrow> ('b \<Rightarrow> int) \<Rightarrow> bool" where
  "bn_text_laws N val = (\<forall>x. \<exists>d y. d \<noteq> [] \<and> all_digits d \<and> BN_bn2dec N x = (if val x < 0 then CHR ''-'' # d else d) \<and>
     BN_dec2bn N (BN_bn2dec N x) = Some y \<and> val y = val x)"

lemma digit_not_sign: "isdigit c \<Longrightarrow> c \<noteq> CHR ''-'' \<and> c \<noteq> CHR ''+'' \<and> c \<noteq> CHR ''/''"
  by (auto simp: isdigit_def char_code_def)

lemma numerator_digits_stroke: "all_digits d \<Longrightarrow> numerator_digits (d @ CHR ''/'' # r) = Some (d, r)"
  by (induction d) (auto simp: isdigit_def char_code_def)

lemma ratio_text_parsed:
  assumes "bn_laws N val" and "bn_text_laws N val" and "rt_ok val r"
  shows "\<exists>r'. ficl_parse_ratio N (rt_to_string N r) = Ok (Some (FRat r')) \<and> rt_ok val r' \<and> rt_val val r' = rt_val val r"
proof -
  obtain d y where d: "d \<noteq> []" "all_digits d" "BN_bn2dec N (r_num r) = (if val (r_num r) < 0 then CHR ''-'' # d else d)"
      "BN_dec2bn N (BN_bn2dec N (r_num r)) = Some y" "val y = val (r_num r)"
    using assms(2) unfolding bn_text_laws_def by blast
  obtain e z where e: "e \<noteq> []" "all_digits e" "BN_bn2dec N (r_den r) = e" "BN_dec2bn N (BN_bn2dec N (r_den r)) = Some z" "val z = val (r_den r)"
    using assms(2,3) unfolding bn_text_laws_def rt_ok_def by (metis not_less_iff_gr_or_eq)
  define sg where "sg = (if val (r_num r) < 0 then ''-'' else [])"
  have n: "BN_bn2dec N (r_num r) = sg @ d" using d(3) by (simp add: sg_def)
  have t: "rt_to_string N r = sg @ d @ CHR ''/'' # e" using n e(3) by (simp add: rt_to_string_def)
  have s: "text_sign (sg @ d @ CHR ''/'' # e) = (sg, d @ CHR ''/'' # e)"
    using d(1,2) digit_not_sign [of "hd d"] by (cases d) (auto simp: text_sign_def sg_def)
  have l: "\<not> length (sg @ d @ CHR ''/'' # e) < 3" using d(1) e(1) by (cases d; cases e) auto
  have "BN_dec2bn N (sg @ d) = Some y" "BN_dec2bn N e = Some z" using d(4) e(3,4) n by simp_all
  then have p: "ficl_parse_ratio N (rt_to_string N r) = bind_outcome (make_rational N y z) (\<lambda>q. Ok (Some q))"
    unfolding ficl_parse_ratio_def t s Let_def prod.case numerator_digits_stroke [OF d(2)] using l e(2) by simp
  have "val z \<noteq> 0" using e(5) assms(3) by (simp add: rt_ok_def)
  from make_rational_ok [OF assms(1) this, of y] show ?thesis unfolding p by (auto simp: d(5) e(5) rt_val_def)
qed

subsection \<open>Floats\<close>

text \<open>
  What \<open>frexp\<close>, \<open>ldexp\<close>, \<open>rint\<close> and the format \<open>%.0f\<close> do with a finite float, \<open>fval\<close> being its value: scaled to its 53 bits the mantissa is an integer, and the text of an
  integer is read as this integer.
\<close>

definition float_laws :: "('b, 'f, 'c) num_env \<Rightarrow> ('b \<Rightarrow> int) \<Rightarrow> ('f \<Rightarrow> rat) \<Rightarrow> ('f \<Rightarrow> bool) \<Rightarrow> bool" where
  "float_laws N val fval fin =
     ((\<forall>f. fin f \<longrightarrow> (\<exists>m e k. f_frexp N f = (m, e) \<and> fval (f_ldexp N m 53) = of_int k \<and> fval f = of_int k * 2 powi (e - 53) \<and> fin (f_ldexp N m 53))) \<and>
      (\<forall>g k. fin g \<longrightarrow> fval g = of_int k \<longrightarrow> (\<exists>b. BN_dec2bn N (f_dec N (f_rint N g)) = Some b \<and> val b = k)))"

lemma ratio_from_float_exact:
  assumes "bn_laws N val" and "float_laws N val fval fin" and "fin f"
  shows "\<exists>r. fth_make_ratio_from_float N f = Ok (FRat r) \<and> rt_ok val r \<and> rt_val val r = fval f"
proof -
  obtain m e k where f: "f_frexp N f = (m, e)" "fval (f_ldexp N m 53) = of_int k" "fval f = of_int k * 2 powi (e - 53)" "fin (f_ldexp N m 53)"
    using assms(2,3) unfolding float_laws_def by blast
  then obtain b where b: "BN_dec2bn N (f_dec N (f_rint N (f_ldexp N m 53))) = Some b" "val b = k"
    using assms(2) unfolding float_laws_def by blast
  have fb: "float_to_bn N (f_ldexp N m DBL_MANT_DIG) = Ok b" using b(1) by (simp add: float_to_bn_def BN_CHECK_def DBL_MANT_DIG_def)
  have shift: "\<exists>y. BN_lshift N x n = Some y \<and> val y = val x * 2 ^ nat n" if "0 \<le> n" for x n using assms(1) that unfolding bn_laws_def by blast
  consider "e < 53" | "e = 53" | "e > 53" by linarith
  then show ?thesis
  proof cases
    case 1
    then obtain y where y: "BN_lshift N (BN_one N) (53 - e) = Some y" "val y = 2 ^ nat (53 - e)"
      using shift [of "53 - e" "BN_one N"] bn_constants(2) [OF assms(1)] by auto
    then have "fth_make_ratio_from_float N f = make_rational N b y"
      using 1 f(1) fb by (simp add: fth_make_ratio_from_float_def DBL_MANT_DIG_def BN_CHECK_def)
    moreover have "(2 :: rat) powi (e - 53) = inverse (2 ^ nat (53 - e))" using 1 unfolding power_int_def by (simp add: power_one_over inverse_eq_divide)
    then have "fval f = of_int k / of_int (val y)" unfolding f(3) y(2) divide_inverse by simp
    ultimately show ?thesis using make_rational_ok [OF assms(1), of y b] y(2) b(2) by simp
  next
    case 2
    then have "fth_make_ratio_from_float N f = make_rational N b (BN_one N)"
      using f(1) fb by (simp add: fth_make_ratio_from_float_def DBL_MANT_DIG_def)
    then show ?thesis using make_rational_ok [OF assms(1), of "BN_one N" b] 2 f(3) b(2) bn_constants(2) [OF assms(1)] by simp
  next
    case 3
    then obtain y where y: "BN_lshift N b (e - 53) = Some y" "val y = k * 2 ^ nat (e - 53)" using shift [of "e - 53" b] b(2) by auto
    then have "fth_make_ratio_from_float N f = make_rational N y (BN_one N)"
      using 3 f(1) fb by (simp add: fth_make_ratio_from_float_def DBL_MANT_DIG_def BN_CHECK_def)
    moreover have "(2 :: rat) powi (e - 53) = 2 ^ nat (e - 53)" using 3 unfolding power_int_def by simp
    then have "fval f = of_int (val y)" unfolding f(3) y(2) by simp
    ultimately show ?thesis using make_rational_ok [OF assms(1), of "BN_one N" y] bn_constants(2) [OF assms(1)] by simp
  qed
qed

lemma number_div_ratio_zero:
  assumes "bn_laws N val" and "exact_ok val m" and "exact_ok val n" and "max_type m n = FTH_RATIO_T" and "exact_value val n = 0"
  shows "if exact_value val m = 0 then fth_number_div N m n = Throw BIGNUM_ERROR
    else \<exists>r. fth_number_div N m n = Ok (FRat r) \<and> val (r_den r) = 0"
proof -
  obtain x y where xy: "fth_to_rt N m = Ok x" "rt_ok val x" "rt_val val x = exact_value val m" "fth_to_rt N n = Ok y" "rt_ok val y" "rt_val val y = exact_value val n"
    using fth_to_rt_exact [OF assms(1)] assms(2,3) by meson
  have "\<not> both_fixnums m n" using assms(4) both_fixnums_type [of m n] by (auto simp: type_numbers)
  then show ?thesis using rt_div_by_zero [OF assms(1) xy(1,4,2,5)] xy(3,6) assms(4,5)
    by (auto simp: fth_number_div_def N_MATH_OP_def Let_def type_numbers rt_div_def fth_make_rational_def split: if_splits)
qed

end
