(* ===== verification/Fth_Printf_Laws.thy ===== *)
theory Fth_Printf_Laws
  imports Fth_Printf Fth_String_Laws Fth_Number_Laws
begin

text \<open>
  What formatting does: a format written from text and directives is printed piece by piece, integers as \<open>ficlUltoa\<close> and \<open>ficlLtoa\<close> print them, and the buffers hold the
  whole output.
\<close>

section \<open>Digits\<close>

lemma dec_digit_char: "d < 10 \<Longrightarrow> dec_digit d = digit_char d"
proof -
  have "list_all (\<lambda>d. dec_digit d = digit_char d) [0..<10]" by code_simp
  then show "d < 10 \<Longrightarrow> dec_digit d = digit_char d" by (simp add: list_all_iff)
qed

lemma hex_digit_char: "d < 16 \<Longrightarrow> hex_digit fmt d = (if fmt = CHR ''x'' then digit_char d else toupper (digit_char d))"
proof -
  have "list_all (\<lambda>d. hex_digit (CHR ''x'') d = digit_char d \<and> hex_digit (CHR ''X'') d = toupper (digit_char d)) [0..<16]" by code_simp
  moreover have "fmt \<noteq> CHR ''x'' \<Longrightarrow> hex_digit fmt d = hex_digit (CHR ''X'') d" by (simp add: hex_digit_def)
  ultimately show "d < 16 \<Longrightarrow> hex_digit fmt d = (if fmt = CHR ''x'' then digit_char d else toupper (digit_char d))" by (simp add: list_all_iff)
qed

definition numeral_digits :: "nat \<Rightarrow> nat \<Rightarrow> nat list" where
  "numeral_digits b u = (if u = 0 then [0] else lsd_digits b u)"

lemma numeral_digits_step: "1 < b \<Longrightarrow> numeral_digits b u = u mod b # (if u div b > 0 then numeral_digits b (u div b) else [])"
  by (cases "u div b = 0") (simp_all add: numeral_digits_def lsd_digits.simps [of b u] lsd_digits.simps [of b 0])

lemma numeral_digits_less: "1 < b \<Longrightarrow> d \<in> set (numeral_digits b u) \<Longrightarrow> d < b"
  by (auto simp: numeral_digits_def split: if_splits dest: lsd_digits_less)

lemma unsigned_loop_digits:
  "1 < b \<Longrightarrow> unsigned_loop digit b u = map digit (numeral_digits b u)"
proof (induction digit b u rule: unsigned_loop.induct)
  case (1 digit b u)
  then show ?case by (subst unsigned_loop.simps, subst numeral_digits_step) auto
qed

lemma char_of_int_nat: "(char_of (int k) :: char) = char_of k"
  by (simp add: char_of_def bit_of_nat_iff_bit)

lemma signed_loop_digits: "signed_loop (int n) = map dec_digit (numeral_digits 10 n)"
proof (induction n rule: less_induct)
  case (less n)
  have q: "c_mod (int n) 10 = int (n mod 10)" "c_div (int n) 10 = int (n div 10)"
    by (simp_all add: c_mod_def c_div_nonneg zdiv_int zmod_int sgn_if)
  have d: "(char_of (int k + 48) :: char) = dec_digit k" for k
    using char_of_int_nat [of "k + 48"] by (simp add: dec_digit_def)
  show ?case
  proof (cases "n div 10 > 0")
    case True
    then have "signed_loop (int (n div 10)) = map dec_digit (numeral_digits 10 (n div 10))" by (intro less) simp
    then show ?thesis using True by (subst signed_loop.simps, subst numeral_digits_step) (simp_all only: q d, simp_all)
  next
    case False
    then show ?thesis by (subst signed_loop.simps, subst numeral_digits_step) (simp_all only: q d, simp_all)
  qed
qed

lemma map_dec_digit: "1 < b \<Longrightarrow> b \<le> 10 \<Longrightarrow> map dec_digit (numeral_digits b u) = map digit_char (numeral_digits b u)"
  by (rule map_cong) (auto intro!: dec_digit_char dest!: numeral_digits_less [rotated])

lemma length_numeral_digits:
  assumes "1 < b" and "0 < k"
  shows "length (numeral_digits b u) \<le> k \<longleftrightarrow> u < b ^ k"
  using assms(2)
proof (induction k arbitrary: u)
  case (Suc k)
  show ?case
  proof (cases "k = 0")
    case True
    then show ?thesis using assms(1) by (subst numeral_digits_step) (auto simp: div_eq_0_iff numeral_digits_def lsd_digits_eq_Nil_iff)
  next
    case False
    have "u div b < b ^ k \<longleftrightarrow> u < b ^ Suc k" using assms(1) by (simp add: div_less_iff_less_mult mult.commute)
    then show ?thesis using Suc.IH [of "u div b"] False assms(1) by (subst numeral_digits_step) auto
  qed
qed simp

lemma ficlUltoa_numeral:
  "1 < r \<Longrightarrow> r < 37 \<Longrightarrow> ficlUltoa v r = Some (map digit_char (rev (numeral_digits (nat r) (unat v))))"
  by (simp add: ficlUltoa_digits numeral_digits_def unat_eq_zero cstr_at_def digits_def)

section \<open>Integers\<close>

definition format_radix :: "char \<Rightarrow> int" where
  "format_radix fmt = (if fmt \<in> set ''uU'' then 10 else if fmt \<in> set ''oO'' then 8 else if fmt \<in> set ''bB'' then 2 else 16)"

definition format_prefix :: "directive \<Rightarrow> char \<Rightarrow> string" where
  "format_prefix sp fmt = (if \<not> sp_hash sp \<or> fmt \<in> set ''uU'' then [] else if fmt \<in> set ''oO'' then ''0'' else [CHR ''0'', fmt])"

text \<open>The text of an unsigned integer: that of \<open>ficlUltoa\<close>, with capital letters for \<open>%X\<close>, and the prefix of the alternate form.\<close>

definition unsigned_text :: "directive \<Rightarrow> char \<Rightarrow> cell \<Rightarrow> string" where
  "unsigned_text sp fmt u =
     (let t = the (ficlUltoa u (format_radix fmt)) in format_prefix sp fmt @ (if fmt = CHR ''X'' then map toupper t else t))"

lemma out_digits_rev: "out_digits sp (rev t) = (if length t \<le> 23 then Ok (out_field sp (int (length t)) t) else Fault)"
  by (simp add: out_digits_def buf_size_def)

lemma unsigned_formats_cases:
  "fmt \<in> set unsigned_formats \<Longrightarrow> fmt \<in> {CHR ''b'', CHR ''B'', CHR ''o'', CHR ''O'', CHR ''x'', CHR ''X'', CHR ''u'', CHR ''U''}"
  by (simp add: unsigned_formats_def)

lemma out_unsigned_text:
  assumes "fmt \<in> set unsigned_formats"
  shows "out_unsigned sp fmt u =
    (if length (unsigned_text sp fmt u) \<le> 23 then Ok (out_field sp (int (length (unsigned_text sp fmt u))) (unsigned_text sp fmt u)) else Fault)"
proof -
  have dec: "map dec_digit (numeral_digits b (unat u)) = map digit_char (numeral_digits b (unat u))" if "1 < b" "b \<le> 10" for b
    using that by (rule map_dec_digit)
  have hex: "map (hex_digit (CHR ''x'')) ds = map digit_char ds" "map (hex_digit (CHR ''X'')) ds = map (toupper \<circ> digit_char) ds"
    if "ds = numeral_digits 16 (unat u)" for ds
    using that numeral_digits_less [of 16 _ "unat u"] by (auto simp: hex_digit_char)
  show ?thesis unfolding out_digits_rev [symmetric] using unsigned_formats_cases [OF assms]
    by (elim insertE emptyE) (simp_all add: out_unsigned_def unsigned_text_def format_radix_def format_prefix_def ficlUltoa_numeral unsigned_loop_digits dec hex [OF refl] rev_map)
qed

lemma length_unsigned_text:
  assumes "fmt \<in> set unsigned_formats"
  shows "length (unsigned_text sp fmt u) \<le> 23 \<longleftrightarrow> fmt \<in> set ''bB'' \<longrightarrow> unat u < 2 ^ (if sp_hash sp then 21 else 23)"
proof -
  have u: "unat u < 2 ^ 64" using unsigned_less [of u] by simp
  have "unat u < 10 ^ 20" "unat u < 8 ^ 22" "unat u < 16 ^ 16" using u by simp_all
  then have "length (numeral_digits 10 (unat u)) \<le> 20" "length (numeral_digits 8 (unat u)) \<le> 22" "length (numeral_digits 16 (unat u)) \<le> 16"
    by (simp_all add: length_numeral_digits)
  moreover have "length (numeral_digits 2 (unat u)) \<le> 23 \<longleftrightarrow> unat u < 2 ^ 23" "length (numeral_digits 2 (unat u)) \<le> 21 \<longleftrightarrow> unat u < 2 ^ 21"
    by (rule length_numeral_digits; simp)+
  ultimately show ?thesis using unsigned_formats_cases [OF assms]
    by (elim insertE emptyE) (auto simp: unsigned_text_def format_radix_def format_prefix_def ficlUltoa_numeral)
qed

lemma uint_of_nonneg: "0 \<le> sint w \<Longrightarrow> uint w = sint w" for w :: cell
  using uint_abs_cell [of w] by simp

lemma out_signed_text:
  assumes "sint l \<noteq> - (2 ^ 63)" and "ficlLtoa l 10 = Some t"
  shows "out_signed sp l = Ok (out_field sp (int (length t)) t)"
proof -
  define n where "n = nat \<bar>sint l\<bar>"
  have r: "- (2 ^ 63) \<le> sint l" "sint l < 2 ^ 63" by (rule sint_bounds_cell)+
  have s: "sint (if sint l < 0 then - l else l) = int n"
    unfolding negate_if_negative n_def using assms(1) r by (simp add: signed_of_int signed_take_bit_int_eq_self)
  have d: "map dec_digit (numeral_digits 10 n) = map digit_char (numeral_digits 10 n)" by (rule map_dec_digit) simp_all
  have "unat l = n" if "0 \<le> sint l" using that r by (simp add: n_def unat_eq_nat_uint uint_of_nonneg)
  then have t: "t = (if sint l < 0 then ''-'' else []) @ map digit_char (rev (numeral_digits 10 n))"
    using assms(2) r by (auto simp: ficlLtoa_digits ltoa_magnitude_def n_def numeral_digits_def unat_eq_zero cstr_at_def digits_def)
  have "n < 10 ^ 20" using r by (auto simp: n_def abs_if nat_less_iff)
  then have "length t \<le> 23" unfolding t using length_numeral_digits [of 10 20 n] by simp
  then show ?thesis
    using out_digits_rev [of sp t] s by (cases "sint l < 0") (simp_all add: out_signed_def Let_def signed_loop_digits d t rev_map)
qed

text \<open>The least integer has no positive counterpart: its negation is itself, and one wrong character is printed.\<close>

lemma out_signed_least: "out_signed sp (- (2 ^ 63)) = Ok (out_field sp 2 ''-('')"
proof -
  have s: "sint (- (2 ^ 63) :: cell) = - (2 ^ 63)" "- (- (2 ^ 63)) = (- (2 ^ 63) :: cell)" by simp_all
  have "signed_loop (- (2 ^ 63)) = ''(''" by (subst signed_loop.simps) (simp add: c_mod_def c_div_def char_of_def)
  then show ?thesis by (simp add: out_signed_def s out_digits_def buf_size_def)
qed

lemma length_out_field: "0 \<le> sp_width sp \<Longrightarrow> length (out_field sp (int (length s)) s) = max (nat (sp_width sp)) (length s)"
  by (auto simp: out_field_def Let_def nat_diff_distrib')

section \<open>Formats\<close>

text \<open>A directive as it is written, and what may be written: the letter is none of the marks before it.\<close>

definition decimal :: "nat \<Rightarrow> string" where
  "decimal n = map digit_char (rev (numeral_digits 10 n))"

definition show_directive :: "directive \<Rightarrow> string" where
  "show_directive sp =
     (if sp_hash sp then ''#'' else []) @ (if sp_left sp then ''-'' else []) @ (if sp_pad sp = CHR ''0'' then ''0'' else [])
     @ (if sp_width sp = 0 then [] else decimal (nat (sp_width sp)))
     @ (if sp_prec sp = F_INF then [] else CHR ''.'' # decimal (nat (sp_prec sp)))
     @ replicate (sp_long sp) (CHR ''l'') @ (if sp_size_t sp then ''z'' else [])"

definition directive_ok :: "directive \<Rightarrow> char \<Rightarrow> bool" where
  "directive_ok sp fmt =
     (sp_pad sp \<in> {CHR '' '', CHR ''0''} \<and> 0 \<le> sp_width sp \<and> sp_width sp \<le> INT_MAX \<and> 0 \<le> sp_prec sp \<and> sp_prec sp \<le> INT_MAX \<and> sp_long sp \<le> 2 \<and>
      fmt \<notin> set ''#-.*lz'' \<and> \<not> isdigit fmt)"

datatype piece = Plain char | Directive directive char

fun show_piece :: "piece \<Rightarrow> string" where
  "show_piece (Plain c) = [c]"
| "show_piece (Directive sp fmt) = CHR ''%'' # show_directive sp @ [fmt]"

fun piece_ok :: "piece \<Rightarrow> bool" where
  "piece_ok (Plain c) = (c \<noteq> CHR ''%'')"
| "piece_ok (Directive sp fmt) = directive_ok sp fmt"

text \<open>Printing piece by piece.\<close>

fun print_pieces :: "(directive \<Rightarrow> char \<Rightarrow> 'a list \<Rightarrow> (string \<times> 'a list) print_result) \<Rightarrow> piece list \<Rightarrow> 'a list \<Rightarrow> string print_result" where
  "print_pieces fmt [] ap = Ok []"
| "print_pieces fmt (Plain c # ps) ap = bind_outcome (print_pieces fmt ps ap) (\<lambda>cs. Ok (c # cs))"
| "print_pieces fmt (Directive sp c # ps) ap =
     bind_outcome (fmt sp c ap) (\<lambda>(cs, ap). bind_outcome (print_pieces fmt ps ap) (\<lambda>cs'. Ok (cs @ cs')))"

interpretation ac: digit_codec digit_char "\<lambda>c. of_char c - 48" 10
proof
  have "list_all (\<lambda>d. of_char (digit_char d) - 48 = d) [0..<10]" by code_simp
  then show "d < 10 \<Longrightarrow> of_char (digit_char d) - 48 = d" for d :: nat by (simp add: list_all_iff)
qed

lemma decimal_char: "d < 10 \<Longrightarrow> isdigit (digit_char d) \<and> 48 \<le> (of_char (digit_char d) :: nat) \<and> (digit_char d = CHR ''0'' \<longleftrightarrow> d = 0)"
proof -
  have "list_all (\<lambda>d. isdigit (digit_char d) \<and> 48 \<le> (of_char (digit_char d) :: nat) \<and> (digit_char d = CHR ''0'' \<longleftrightarrow> d = 0)) [0..<10]" by code_simp
  then show "d < 10 \<Longrightarrow> isdigit (digit_char d) \<and> 48 \<le> (of_char (digit_char d) :: nat) \<and> (digit_char d = CHR ''0'' \<longleftrightarrow> d = 0)"
    by (simp add: list_all_iff)
qed

lemma decimal_isdigit: "c \<in> set (decimal n) \<Longrightarrow> isdigit c \<and> 48 \<le> (of_char c :: nat)"
  using numeral_digits_less [of 10 _ n] decimal_char by (auto simp: decimal_def)

lemma foldl_int_digits:
  "(\<And>c. c \<in> set cs \<Longrightarrow> 48 \<le> (of_char c :: nat)) \<Longrightarrow>
    foldl (\<lambda>a c. 10 * a + (of_char c - 48)) (int k) cs = int (foldl (\<lambda>a c. a * 10 + (of_char c - 48)) k cs)"
proof (induction cs arbitrary: k)
  case (Cons c cs)
  have "10 * int k + (of_char c - 48) = int (k * 10 + (of_char c - 48))" using Cons.prems [of c] by (simp add: of_nat_diff of_nat_of_char)
  then show ?case using Cons.IH [of "k * 10 + (of_char c - 48)"] Cons.prems by simp
qed simp

lemma atoi_decimal:
  assumes "int n \<le> INT_MAX" and "\<not> isdigit (peek f)"
  shows "atoi (decimal n @ f) = Ok (int n) \<and> dropWhile isdigit (decimal n @ f) = f"
proof -
  have d: "takeWhile isdigit (decimal n @ f) = decimal n" "dropWhile isdigit (decimal n @ f) = f"
    using assms(2) decimal_isdigit [of _ n]
    by (auto simp: takeWhile_append dropWhile_append peek_def isdigit_def split: list.splits)
  have "foldl (\<lambda>a c. a * 10 + (of_char c - 48)) 0 (decimal n) = n"
    using ac.read_written [of 10 n] decimal_char [of 0] by (cases "n = 0") (auto simp: decimal_def numeral_digits_def)
  then show ?thesis using foldl_int_digits [of "decimal n" 0] decimal_isdigit [of _ n] assms(1) d by (simp add: atoi_def)
qed

lemma last_lsd_digits: "1 < r \<Longrightarrow> 0 < n \<Longrightarrow> lsd_digits r n \<noteq> [] \<and> last (lsd_digits r n) \<noteq> 0"
proof (induction r n rule: lsd_digits.induct)
  case (1 r n)
  show ?case
  proof (cases "n div r = 0")
    case True
    then show ?thesis using 1 by (subst (1 2) lsd_digits.simps) (auto simp: div_eq_0_iff)
  next
    case False
    then show ?thesis using 1 by (subst (1 2) lsd_digits.simps) auto
  qed
qed

lemma peek_decimal: "isdigit (peek (decimal n @ f)) \<and> (0 < n \<longrightarrow> peek (decimal n @ f) \<noteq> CHR ''0'')"
proof (cases "n = 0")
  case False
  then have l: "lsd_digits 10 n \<noteq> []" "last (lsd_digits 10 n) \<noteq> 0" using last_lsd_digits [of 10 n] by simp_all
  then obtain d ds where ds: "lsd_digits 10 n = ds @ [d]" "d \<noteq> 0" by (metis append_butlast_last_id)
  then have "d < 10" using lsd_digits_less [of d 10 n] by simp
  then show ?thesis using False ds decimal_char [of d] by (simp add: decimal_def numeral_digits_def peek_def)
qed (simp add: decimal_def numeral_digits_def peek_def cstr_at_def digits_def isdigit_def char_code_def)

lemma peek_simps [simp]: "peek (c # f) = c" "peek [] = NUL"
  by (simp_all add: peek_def)

lemma skip_mark: "peek f \<noteq> c \<Longrightarrow> skip c ((if b then [c] else []) @ f) = (b, f)"
  by (simp add: skip_def)

lemma size_marks_show:
  assumes "n \<le> 2" and "peek f \<notin> {CHR ''l'', CHR ''z''}"
  shows "size_marks (replicate n (CHR ''l'') @ (if z then ''z'' else []) @ f) = (n, z, f)"
proof -
  have "n = 0 \<or> n = 1 \<or> n = 2" using assms(1) by linarith
  then show ?thesis using assms(2) by (elim disjE) (auto simp: size_marks_def skip_def numeral_2_eq_2)
qed

lemma not_digit_chars: "isdigit c \<Longrightarrow> c \<notin> set ''#-.*lz''"
  by (auto simp: isdigit_def char_code_def)

lemma field_show:
  assumes "0 \<le> n" and "n \<le> INT_MAX" and "\<not> isdigit (peek f)" and "peek f \<noteq> CHR ''*''"
  shows "field gi dflt (decimal (nat n) @ f) ap = Ok (n, f, ap)" and "field gi dflt f ap = Ok (dflt, f, ap)"
  using assms peek_decimal [of "nat n" f] not_digit_chars [of "peek (decimal (nat n) @ f)"] atoi_decimal [of "nat n" f]
  by (auto simp: field_def)

lemma parse_directive_show:
  assumes "directive_ok sp fmt"
  shows "parse_directive gi (show_directive sp @ fmt # rest) ap = Ok (sp, fmt # rest, ap)"
proof -
  define t3 where "t3 = replicate (sp_long sp) (CHR ''l'') @ (if sp_size_t sp then ''z'' else []) @ fmt # rest"
  define t2 where "t2 = (if sp_prec sp = F_INF then [] else CHR ''.'' # decimal (nat (sp_prec sp))) @ t3"
  define t1 where "t1 = (if sp_width sp = 0 then [] else decimal (nat (sp_width sp))) @ t2"
  note ok = assms [unfolded directive_ok_def]
  have f: "fmt \<notin> set ''#-.*lz''" "\<not> isdigit fmt" using ok by auto
  have a3: "peek t3 \<in> {CHR ''l'', CHR ''z'', fmt}" by (cases "sp_long sp") (auto simp: t3_def)
  have n3: "peek t3 \<notin> set ''#-.*''" "\<not> isdigit (peek t3)" using a3 f by (auto simp: isdigit_def char_code_def)
  have n2: "peek t2 \<notin> set ''#-*''" "\<not> isdigit (peek t2)" using n3 by (auto simp: t2_def isdigit_def char_code_def)
  have n1: "peek t1 \<notin> set ''#-0''"
    using n2 peek_decimal [of "nat (sp_width sp)" t2] not_digit_chars [of "peek (decimal (nat (sp_width sp)) @ t2)"] ok
    by (auto simp: t1_def isdigit_def char_code_def)
  have "size_marks t3 = (sp_long sp, sp_size_t sp, fmt # rest)" unfolding t3_def using ok f by (intro size_marks_show) auto
  moreover have "precision gi t2 ap = Ok (sp_prec sp, t3, ap)"
    using field_show [of "sp_prec sp" t3 gi F_INF ap] n3 ok by (auto simp: precision_def t2_def)
  moreover have "field gi 0 t1 ap = Ok (sp_width sp, t2, ap)"
    using field_show [of "sp_width sp" t2 gi 0 ap] n2 ok by (auto simp: t1_def)
  moreover have "skip (CHR ''#'') ((if sp_hash sp then ''#'' else []) @ (if sp_left sp then ''-'' else []) @ (if sp_pad sp = CHR ''0'' then ''0'' else []) @ t1) =
      (sp_hash sp, (if sp_left sp then ''-'' else []) @ (if sp_pad sp = CHR ''0'' then ''0'' else []) @ t1)"
    using n1 by (intro skip_mark) auto
  moreover have "skip (CHR ''-'') ((if sp_left sp then ''-'' else []) @ (if sp_pad sp = CHR ''0'' then ''0'' else []) @ t1) =
      (sp_left sp, (if sp_pad sp = CHR ''0'' then ''0'' else []) @ t1)"
    using n1 by (intro skip_mark) auto
  moreover have "skip (CHR ''0'') ((if sp_pad sp = CHR ''0'' then ''0'' else []) @ t1) = (sp_pad sp = CHR ''0'', t1)"
    using n1 by (intro skip_mark) auto
  moreover have "show_directive sp @ fmt # rest =
      (if sp_hash sp then ''#'' else []) @ (if sp_left sp then ''-'' else []) @ (if sp_pad sp = CHR ''0'' then ''0'' else []) @ t1"
    by (simp add: show_directive_def t1_def t2_def t3_def)
  moreover have "(if sp_pad sp = CHR ''0'' then CHR ''0'' else CHR '' '') = sp_pad sp" using ok by auto
  ultimately show ?thesis by (simp add: parse_directive_def Let_def)
qed

lemma print_loop_pieces:
  "list_all piece_ok ps \<Longrightarrow> print_loop gi fmt (concat (map show_piece ps)) ap = print_pieces fmt ps ap"
proof (induction fmt ps ap rule: print_pieces.induct)
  case (1 fmt ap)
  show ?case by (simp add: print_loop.simps)
next
  case (2 fmt c ps ap)
  then show ?case by (simp add: print_loop.simps)
next
  case (3 fmt sp c ps ap)
  then have p: "parse_directive gi (show_directive sp @ c # concat (map show_piece ps)) ap = Ok (sp, c # concat (map show_piece ps), ap)"
    by (intro parse_directive_show) simp
  show ?case using 3 by (auto simp: print_loop.simps p intro!: arg_cong [where f = "bind_outcome (fmt sp c ap)"])
qed

lemma NUL_char: "NUL = CHR 0x00"
  by code_simp

text \<open>A format that ends after the percent sign or the marks of a directive is read behind its NUL.\<close>

lemma print_loop_unfinished:
  assumes "list_all piece_ok ps" and "print_pieces fmt ps ap = Ok cs" and "\<And>ap. \<exists>r. fmt \<lparr>sp_hash = False, sp_left = False, sp_pad = CHR '' '',
      sp_width = 0, sp_prec = F_INF, sp_long = 0, sp_size_t = False\<rparr> NUL ap = Ok r"
  shows "print_loop gi fmt (concat (map show_piece ps) @ ''%'') ap = Fault"
  using assms
proof (induction fmt ps ap arbitrary: cs rule: print_pieces.induct)
  case (1 fmt ap)
  have "parse_directive gi [] ap = Ok (\<lparr>sp_hash = False, sp_left = False, sp_pad = CHR '' '', sp_width = 0, sp_prec = F_INF, sp_long = 0, sp_size_t = False\<rparr>, [], ap)"
    by (simp add: parse_directive_def skip_def field_def precision_def size_marks_def isdigit_def char_code_def NUL_char)
  then show ?case using 1(3) [of ap] by (auto simp: print_loop.simps)
next
  case (2 fmt c ps ap)
  then show ?case by (auto simp: print_loop.simps outcome_simps)
next
  case (3 fmt sp c ps ap)
  then have p: "parse_directive gi (show_directive sp @ c # concat (map show_piece ps) @ ''%'') ap = Ok (sp, c # concat (map show_piece ps) @ ''%'', ap)"
    by (intro parse_directive_show) simp
  from 3(3) [simplified] obtain cs1 ap1 cs2 where "fmt sp c ap = Ok (cs1, ap1)" "print_pieces fmt ps ap1 = Ok cs2" by (auto simp: outcome_simps)
  then show ?case using 3 by (auto simp: print_loop.simps p)
qed

section \<open>Buffers\<close>

lemma xaddchars_stored:
  assumes "0 \<le> xstring x" and "xstring x \<le> xestring x" and "xestring x < int (length (x_buf x))"
  shows "\<exists>b. xaddchars x cs = Ok (x\<lparr>x_buf := b, xstring := min (xstring x + int (length cs)) (xestring x)\<rparr>) \<and> length b = length (x_buf x) \<and>
    take (nat (min (xstring x + int (length cs)) (xestring x))) b =
      take (nat (xstring x)) (x_buf x) @ map Some (take (nat (xestring x - xstring x)) cs) \<and> drop (nat (xestring x) + 1) b = drop (nat (xestring x) + 1) (x_buf x)"
  using assms
proof (induction cs arbitrary: x)
  case Nil
  then show ?case by (intro exI [of _ "x_buf x"]) simp
next
  case (Cons c cs)
  show ?case
  proof (cases "xstring x = xestring x")
    case True
    define y where "y = x\<lparr>x_buf := (x_buf x)[nat (xestring x) := Some NUL]\<rparr>"
    have "xaddchar x c = Ok y" using True Cons.prems by (simp add: xaddchar_def x_put_def y_def)
    moreover have "xstring y = xestring y" "xestring y = xestring x" "length (x_buf y) = length (x_buf x)" using True by (simp_all add: y_def)
    ultimately show ?thesis using Cons.IH [of y] Cons.prems True by (auto simp: y_def)
  next
    case False
    define y where "y = x\<lparr>x_buf := (x_buf x)[nat (xstring x) := Some c], xstring := xstring x + 1\<rparr>"
    have a: "xaddchar x c = Ok y" using False Cons.prems by (simp add: xaddchar_def x_put_def y_def)
    have y: "xstring y = xstring x + 1" "xestring y = xestring x" "length (x_buf y) = length (x_buf x)" by (simp_all add: y_def)
    have t: "take (nat (xstring y)) (x_buf y) = take (nat (xstring x)) (x_buf x) @ [Some c]"
      using False Cons.prems by (simp add: y_def nat_add_distrib take_Suc_conv_app_nth)
    have m: "min (xstring y + int (length cs)) (xestring y) = min (xstring x + int (length (c # cs))) (xestring x)" by (simp add: y)
    have e: "map Some (take (nat (xestring x - xstring x)) (c # cs)) = Some c # map Some (take (nat (xestring y - xstring y)) cs)"
    proof -
      have "nat (xestring x - xstring x) = Suc (nat (xestring y - xstring y))" using False Cons.prems by (simp add: y)
      then show ?thesis by simp
    qed
    have d: "drop (nat (xestring x) + 1) (x_buf y) = drop (nat (xestring x) + 1) (x_buf x)" using Cons.prems by (simp add: y_def)
    from Cons.IH [of y] obtain b where "xaddchars y cs = Ok (y\<lparr>x_buf := b, xstring := min (xstring y + int (length cs)) (xestring y)\<rparr>)" "length b = length (x_buf y)"
        "take (nat (min (xstring y + int (length cs)) (xestring y))) b = take (nat (xstring y)) (x_buf y) @ map Some (take (nat (xestring y - xstring y)) cs)"
        "drop (nat (xestring y) + 1) b = drop (nat (xestring y) + 1) (x_buf y)"
      using Cons.prems False y by auto
    then show ?thesis unfolding m t e using a d y by (intro exI [of _ b]) (simp add: y_def)
  qed
qed

lemma vformat_loop_returns:
  assumes "1 \<le> sz"
  shows "\<exists>x. vformat_loop (Ok cs) buf sz = Some (Ok x) \<and> xstring x = int (length cs) \<and> length cs < length (x_buf x) \<and> take (length cs) (x_buf x) = map Some cs"
  using assms
proof (induction "nat (int (length cs) + 2 - sz)" arbitrary: buf sz rule: less_induct)
  case less
  define x0 where "x0 = \<lparr>x_buf = FTH_REALLOC buf sz, xstring = 0, xestring = sz - 1\<rparr>"
  have l: "length (FTH_REALLOC buf sz) = nat sz" using less.prems by (simp add: FTH_REALLOC_def)
  obtain b where b: "xaddchars x0 cs = Ok (x0\<lparr>x_buf := b, xstring := min (int (length cs)) (sz - 1)\<rparr>)" "length b = nat sz"
      "take (nat (min (int (length cs)) (sz - 1))) b = map Some (take (nat (sz - 1)) cs)"
    using xaddchars_stored [of x0 cs] less.prems l by (auto simp: x0_def)
  show ?case
  proof (cases "int (length cs) < sz - 1")
    case True
    then show ?thesis using b less.prems by (subst vformat_loop.simps) (auto simp: x0_def [symmetric], auto simp: x0_def)
  next
    case False
    have "\<exists>x. vformat_loop (Ok cs) b (2 * sz) = Some (Ok x) \<and> xstring x = int (length cs) \<and> length cs < length (x_buf x) \<and> take (length cs) (x_buf x) = map Some cs"
      using False less.prems by (intro less.hyps) auto
    then show ?thesis using b False by (subst vformat_loop.simps) (simp add: x0_def [symmetric], simp add: x0_def)
  qed
qed

lemma vformat_loop_error [simp]:
  "vformat_loop (Throw e) buf sz = Some (Throw e)" "vformat_loop Fault buf sz = Some Fault"
  by (simp_all add: vformat_loop.simps)

lemma c_text_stored: "take n b = map Some cs \<Longrightarrow> n < length b \<Longrightarrow> length cs = n \<Longrightarrow> c_text (b[n := Some NUL]) = Ok (takeWhile (\<lambda>c. c \<noteq> NUL) cs)"
proof (induction cs arbitrary: b n)
  case Nil
  then show ?case by (cases b) simp_all
next
  case (Cons c cs)
  then obtain m d b' where "n = Suc m" "b = Some c # b'" by (cases b; cases n) auto
  then show ?case using Cons.IH [of m b'] Cons.prems by simp
qed

text \<open>The string of a format, however long the output is.\<close>

lemma fth_string_vformat_text:
  assumes "string_doprnt E fmt args = Ok cs" and "NUL \<notin> set cs" and "length cs \<le> str_limit"
  shows "\<exists>s. fth_string_vformat E fmt args = Some (Ok s) \<and> str_holds s cs"
proof -
  obtain x where x: "vformat_loop (Ok cs) [] 2048 = Some (Ok x)" "xstring x = int (length cs)" "length cs < length (x_buf x)" "take (length cs) (x_buf x) = map Some cs"
    using vformat_loop_returns [of 2048 cs "[]"] by auto
  have "c_text ((x_buf x)[length cs := Some NUL]) = Ok (takeWhile (\<lambda>c. c \<noteq> NUL) cs)" using x by (intro c_text_stored) auto
  moreover have "takeWhile (\<lambda>c. c \<noteq> NUL) cs = cs" using assms(2) by (auto simp: takeWhile_eq_all_conv)
  moreover obtain s where "fth_make_string (Some cs) = Ok s" "str_holds s cs" using fth_make_string_holds [OF assms(3)] by auto
  ultimately show ?thesis using x by (simp add: fth_string_vformat_def assms(1) x_put_def)
qed

lemma fth_string_vformat_error:
  "string_doprnt E fmt args = Throw e \<Longrightarrow> fth_string_vformat E fmt args = Some (Throw e)"
  "string_doprnt E fmt args = Fault \<Longrightarrow> fth_string_vformat E fmt args = Some Fault"
  by (simp_all add: fth_string_vformat_def)

lemma fth_vsnprintf_stored:
  assumes "doprnt E fmt ap = Ok cs" and "1 \<le> sz" and "sz \<le> length str"
  shows "\<exists>b. fth_vsnprintf E str (int sz) fmt ap = Ok (int (min (length cs) (sz - 1)) + 1, b) \<and> length b = length str \<and>
    take (min (length cs) (sz - 1) + 1) b = map Some (take (sz - 1) cs) @ [Some NUL] \<and> drop sz b = drop sz str"
proof -
  define x where "x = \<lparr>x_buf = str, xstring = 0, xestring = int sz - 1\<rparr>"
  let ?n = "min (length cs) (sz - 1)"
  have n: "nat (min (int (length cs)) (int sz - 1)) = ?n" "min (int (length cs)) (int sz - 1) = int ?n" "nat (int sz - 1) = sz - 1" "nat (int sz - 1) + 1 = sz"
    using assms(2) by auto
  obtain b where b: "xaddchars x cs = Ok (x\<lparr>x_buf := b, xstring := int ?n\<rparr>)" "length b = length str"
      "take ?n b = map Some (take (sz - 1) cs)" "drop sz b = drop sz str"
    using xaddchars_stored [of x cs] assms(2,3) n by (auto simp: x_def)
  have "?n < length b" using assms(2,3) b(2) by simp
  moreover have "take (?n + 1) (b[?n := Some NUL]) = map Some (take (sz - 1) cs) @ [Some NUL]"
    using \<open>?n < length b\<close> b(3) by (simp add: take_Suc_conv_app_nth del: min_less_iff_conj)
  moreover have "drop sz (b[?n := Some NUL]) = drop sz str" using assms(2) b(4) by (simp add: drop_update_cancel)
  ultimately show ?thesis using b by (intro exI [of _ "b[?n := Some NUL]"]) (simp add: fth_vsnprintf_def assms(1) x_def [symmetric] x_put_def)
qed

section \<open>Directives with objects\<close>

lemma string_doprnt_pieces: "list_all piece_ok ps \<Longrightarrow> string_doprnt E (concat (map show_piece ps)) args = print_pieces (string_doprnt_format E) ps args"
  by (simp add: string_doprnt_def print_loop_pieces)

lemma doprnt_pieces: "list_all piece_ok ps \<Longrightarrow> doprnt E (concat (map show_piece ps)) args = print_pieces (doprnt_format E) ps args"
  by (simp add: doprnt_def print_loop_pieces)

lemma string_doprnt_one:
  assumes "directive_ok sp fmt" and "fmt \<in> set arg_formats"
  shows "string_doprnt E (show_piece (Directive sp fmt)) [x] = string_format_arg E sp fmt x"
proof -
  have "string_doprnt E (concat (map show_piece [Directive sp fmt])) [x] = print_pieces (string_doprnt_format E) [Directive sp fmt] [x]"
    using assms(1) by (intro string_doprnt_pieces) simp
  then show ?thesis using assms(2) by (cases "string_format_arg E sp fmt x") (simp_all add: string_doprnt_format_def)
qed

lemma FTH_LONG_REF_make: "FTH_LONG_REF E (fth_make_long_long n) = n"
  using FIX_TO_INT_FIX [of n] INT_TO_FIX_fixnum [of n, where ?'a = 'a and ?'b = 'b and ?'c = 'c]
  by (auto simp: FTH_LONG_REF_def fth_make_long_long_def fth_fixnum_p_def fth_make_llong_def fth_cell_def simp del: NUMB_FIXNUM_P.simps(1))

lemma FTH_ULONG_REF_make: "uint n < 2 ^ 63 \<Longrightarrow> FTH_ULONG_REF E (fth_make_ulong_long n) = n"
  using FIX_TO_UNSIGNED_FIX [of n] INT_TO_FIX_fixnum [of n, where ?'a = 'a and ?'b = 'b and ?'c = 'c]
  by (simp add: FTH_ULONG_REF_def fth_make_ulong_long_def fth_fixnum_p_def UFIXABLE_uint fth_cell_def del: NUMB_FIXNUM_P.simps(1))

lemma least_cell: "sint n = - (2 ^ 63) \<Longrightarrow> n = - (2 ^ 63)" for n :: cell
  by (rule signed_word_eqI) simp

lemma print_signed:
  assumes "directive_ok sp (CHR ''d'')"
  shows "string_doprnt E (show_piece (Directive sp (CHR ''d''))) [fth_make_long_long n] =
    Ok (let t = (if sint n = - (2 ^ 63) then ''-('' else the (ficlLtoa n 10)) in out_field sp (int (length t)) t)"
proof -
  have f: "CHR ''d'' \<in> set arg_formats" by (simp add: arg_formats_def)
  obtain t where "ficlLtoa n 10 = Some t" by (simp add: ficlLtoa_digits)
  then have "out_signed sp n = Ok (let t = (if sint n = - (2 ^ 63) then ''-('' else the (ficlLtoa n 10)) in out_field sp (int (length t)) t)"
    using out_signed_text [of n t sp] out_signed_least [of sp] least_cell [of n] by (cases "sint n = - (2 ^ 63)") (simp_all add: Let_def)
  then show ?thesis unfolding string_doprnt_one [OF assms f] by (simp add: string_format_arg_def FTH_LONG_REF_make)
qed

lemma print_unsigned:
  assumes "directive_ok sp fmt" and "fmt \<in> set unsigned_formats"
  shows "string_doprnt E (show_piece (Directive sp fmt)) [x] =
    (let u = FTH_ULONG_REF E x; t = unsigned_text sp fmt u
     in if fmt \<in> set ''bB'' \<and> 2 ^ (if sp_hash sp then 21 else 23) \<le> unat u then Fault else Ok (out_field sp (int (length t)) t))"
proof -
  have f: "fmt \<in> set arg_formats" using assms(2) by (simp add: arg_formats_def)
  have "fmt \<noteq> CHR ''c''" "fmt \<noteq> CHR ''d''" using unsigned_formats_cases [OF assms(2)] by auto
  then have "string_format_arg E sp fmt x = out_unsigned sp fmt (FTH_ULONG_REF E x)" using assms(2) by (simp add: string_format_arg_def)
  then show ?thesis using length_unsigned_text [OF assms(2), of sp "FTH_ULONG_REF E x"]
    unfolding string_doprnt_one [OF assms(1) f] out_unsigned_text [OF assms(2)] Let_def by (simp only: not_le [symmetric] if_split) blast
qed

text \<open>Without \<open>%b\<close> the only error is that of a missing argument.\<close>

lemma string_format_arg_ok: "fmt \<notin> set ''bB'' \<Longrightarrow> \<exists>cs. string_format_arg E sp fmt x = Ok cs"
proof -
  assume f: "fmt \<notin> set ''bB''"
  have "\<exists>cs. out_signed sp l = Ok cs" for l
  proof (cases "sint l = - (2 ^ 63)")
    case True
    then show ?thesis using out_signed_least least_cell [of l] by blast
  next
    case False
    obtain t where "ficlLtoa l 10 = Some t" by (simp add: ficlLtoa_digits)
    then show ?thesis using out_signed_text [OF False] by simp
  qed
  moreover have "fmt \<in> set unsigned_formats \<Longrightarrow> \<exists>cs. out_unsigned sp fmt u = Ok cs" for u
    using f length_unsigned_text [of fmt sp u] by (simp add: out_unsigned_text)
  ultimately show "\<exists>cs. string_format_arg E sp fmt x = Ok cs" by (auto simp: string_format_arg_def)
qed

fun wants_arg :: "piece \<Rightarrow> bool" where
  "wants_arg (Plain c) = False"
| "wants_arg (Directive sp fmt) = (fmt \<in> set arg_formats)"

fun no_binary :: "piece \<Rightarrow> bool" where
  "no_binary (Plain c) = True"
| "no_binary (Directive sp fmt) = (fmt \<notin> set ''bB'')"

lemma print_pieces_args:
  assumes "list_all no_binary ps"
  shows "if length (filter wants_arg ps) \<le> length args then \<exists>cs. print_pieces (string_doprnt_format E) ps args = Ok cs
    else print_pieces (string_doprnt_format E) ps args = Throw FTH_ARGUMENT_ERROR"
  using assms
proof (induction ps arbitrary: args)
  case (Cons p ps)
  show ?case
  proof (cases p)
    case (Plain c)
    then show ?thesis using Cons.IH [of args] Cons.prems by (auto split: if_splits)
  next
    case (Directive sp fmt)
    show ?thesis
    proof (cases "fmt \<in> set arg_formats")
      case False
      then obtain cs where "string_doprnt_format E sp fmt args = Ok (cs, args)"
        by (cases "fmt = CHR ''%''") (simp_all add: string_doprnt_format_def)
      then show ?thesis using False Directive Cons.IH [of args] Cons.prems by (auto split: if_splits)
    next
      case True
      show ?thesis
      proof (cases args)
        case (Cons x xs)
        obtain cs where "string_format_arg E sp fmt x = Ok cs" using string_format_arg_ok Directive Cons.prems by fastforce
        then have "string_doprnt_format E sp fmt (x # xs) = Ok (cs, xs)" using True by (simp add: string_doprnt_format_def)
        then show ?thesis using True Directive Cons Cons.IH [of xs] Cons.prems by (auto split: if_splits)
      qed (use True Directive in \<open>simp add: string_doprnt_format_def\<close>)
    qed
  qed
qed simp

end
