(* ===== verification/Fth_Printf_Samples.thy ===== *)
theory Fth_Printf_Samples
  imports Fth_Printf_Laws
begin

text \<open>The parameters, a format and a text on which the properties of formatted output are evaluated.\<close>

definition sample_print :: "(int, int, int) print_env" where
  "sample_print =
     \<lparr>pe_addr = (\<lambda>_. 4096), pe_float = sint, pe_inspect = (\<lambda>x. Some ''#<obj>''), pe_string = (\<lambda>x. Some ''obj''), pe_string_2 = (\<lambda>x. None),
      pe_dump = (\<lambda>x. None), pe_snprintf = (\<lambda>t l f. t)\<rparr>"

definition plain_directive :: directive where
  "plain_directive = \<lparr>sp_hash = False, sp_left = False, sp_pad = CHR '' '', sp_width = 0, sp_prec = F_INF, sp_long = 0, sp_size_t = False\<rparr>"

lemma plain_directive_ok: "fmt \<notin> set ''#-.*lz'' \<Longrightarrow> \<not> isdigit fmt \<Longrightarrow> directive_ok (plain_directive\<lparr>sp_width := 4, sp_pad := CHR ''0''\<rparr>) fmt"
    "fmt \<notin> set ''#-.*lz'' \<Longrightarrow> \<not> isdigit fmt \<Longrightarrow> directive_ok plain_directive fmt"
  by (simp_all add: directive_ok_def plain_directive_def F_INF_def INT_MAX_def)

text \<open>\<open>n=%04d!\<close>\<close>

definition sample_pieces :: "piece list" where
  "sample_pieces = [Plain (CHR ''n''), Plain (CHR ''=''), Directive (plain_directive\<lparr>sp_width := 4, sp_pad := CHR ''0''\<rparr>) (CHR ''d''), Plain (CHR ''!'')]"

lemma sample_pieces_text: "concat (map show_piece sample_pieces) = ''n=%04d!''"
  by code_simp

lemma sample_pieces_ok: "list_all piece_ok sample_pieces" "list_all no_binary sample_pieces" "length (filter wants_arg sample_pieces) = 1"
  by code_simp+

lemma sample_pieces_printed:
  "print_pieces (string_doprnt_format sample_print) sample_pieces [Imm (INT_TO_FIX 42)] = Ok ''n=0042!''"
  by code_simp

lemma sample_format: "\<exists>fs. fth_make_string (Some ''n=%04d!'') = Ok fs \<and> str_holds fs ''n=%04d!''"
  by (rule fth_make_string_holds) (simp add: str_limit_def MAX_SEQ_LENGTH_def)

lemma sample_vprintf: "doprnt sample_print ''%s is %u'' [VA_str (Some ''answer''), VA_int 42] = Ok ''answer is 42''"
  by code_simp

end
