(* ===== verification/Fth_Number_Samples.thy ===== *)
theory Fth_Number_Samples
  imports Fth_Number_Laws
begin

section \<open>Sample numbers\<close>

text \<open>
  An instance of the parameters: big numbers are integers, and a float is a pair of a mantissa and an exponent to the base 2.
\<close>

fun dec_nat :: "nat \<Rightarrow> string" where
  "dec_nat n = (if n < 10 then [char_of (48 + n)] else dec_nat (n div 10) @ [char_of (48 + n mod 10)])"

declare dec_nat.simps [simp del]

definition read_nat :: "string \<Rightarrow> nat" where
  "read_nat s = foldl (\<lambda>n c. 10 * n + (of_char c - 48)) 0 s"

definition dec_int :: "int \<Rightarrow> string" where
  "dec_int k = (if k < 0 then CHR ''-'' # dec_nat (nat (- k)) else dec_nat (nat k))"

definition read_int :: "string \<Rightarrow> int option" where
  "read_int s = (case s of [] \<Rightarrow> None
     | c # r \<Rightarrow> if c = CHR ''-'' then if r \<noteq> [] \<and> all_digits r then Some (- int (read_nat r)) else None
         else if all_digits s then Some (int (read_nat s)) else None)"

definition sample_num :: "(int, int \<times> int, int \<times> int) num_env" where
  "sample_num = \<lparr>BN_add = (+), BN_sub = (-), BN_mul = (*), BN_div = (\<lambda>x y. if y = 0 then None else Some (c_div x y)), BN_gcd = gcd,
     BN_exp = (\<lambda>x y. x ^ nat y), BN_cmp = (\<lambda>x y. sgn (x - y)), BN_set_word = uint,
     BN_get_word = (\<lambda>x. if \<bar>x\<bar> < 2 ^ 64 then of_int \<bar>x\<bar> else - 1), BN_is_negative = (\<lambda>x. x < 0),
     BN_set_negative = (\<lambda>x s. if s then - \<bar>x\<bar> else \<bar>x\<bar>), BN_is_odd = odd, BN_lshift = (\<lambda>x n. if n < 0 then None else Some (x * 2 ^ nat n)),
     BN_rshift = (\<lambda>x n. if n < 0 then None else Some (c_div x (2 ^ nat n))), BN_dec2bn = read_int, BN_bn2dec = dec_int,
     f_of_int = (\<lambda>k. (k, 0)), f_to_cell = (\<lambda>(m, e). of_int m), f_to_ucell = (\<lambda>(m, e). of_int m), f_rint = (\<lambda>f. f), f_floor = (\<lambda>f. f), f_ceil = (\<lambda>f. f),
     f_neg = (\<lambda>(m, e). (- m, e)), f_add = (\<lambda>x y. x), f_sub = (\<lambda>x y. x), f_mul = (\<lambda>(m, e) (n, f). (m * n, e + f)), f_div = (\<lambda>x y. x),
     f_eq = (=), f_less = (\<lambda>x y. False), f_frexp = (\<lambda>(m, e). ((m, -53), e + 53)), f_ldexp = (\<lambda>(m, e) n. (m, e + n)), f_dec = (\<lambda>(m, e). dec_int (if e \<ge> 0 then m * 2 ^ nat e else m div 2 ^ nat (- e))),
     c_real = (\<lambda>z. z), c_imag = (\<lambda>z. (0, 0)), c_of_float = (\<lambda>f. f), c_add = (\<lambda>x y. x), c_sub = (\<lambda>x y. x), c_mul = (\<lambda>x y. x), c_divide = (\<lambda>x y. x)\<rparr>"

definition sample_fval :: "int \<times> int \<Rightarrow> rat" where
  "sample_fval f = of_int (fst f) * 2 powi snd f"

lemma sample_bn_laws: "bn_laws sample_num (\<lambda>x. x)"
  by (simp add: bn_laws_def sample_num_def)

lemma digit_char: "(n :: nat) < 10 \<Longrightarrow> isdigit (char_of (48 + n)) \<and> of_char (char_of (48 + n) :: char) = 48 + n"
  by (simp add: isdigit_def char_code_def)

lemma all_digits_append: "all_digits (s @ t) = (all_digits s \<and> all_digits t)"
  by (induction s) auto

lemma dec_nat_digits: "dec_nat n \<noteq> [] \<and> all_digits (dec_nat n) \<and> read_nat (dec_nat n) = n"
proof (induction n rule: dec_nat.induct)
  case (1 n)
  then show ?case using digit_char [of n] digit_char [of "n mod 10"]
    by (subst (1 2 3) dec_nat.simps) (auto simp: all_digits_append read_nat_def)
qed

lemma read_dec_int: "read_int (dec_int k) = Some k"
proof -
  obtain a l where d: "dec_nat (nat k) = a # l" using dec_nat_digits [of "nat k"] by (cases "dec_nat (nat k)") auto
  then have "a \<noteq> CHR ''-''" "all_digits (a # l)" "read_nat (a # l) = nat k"
    using dec_nat_digits [of "nat k"] digit_not_sign [of a] by auto
  then show ?thesis using dec_nat_digits [of "nat (- k)"] by (simp add: read_int_def dec_int_def d)
qed

lemma sample_text_laws: "bn_text_laws sample_num (\<lambda>x. x)"
  unfolding bn_text_laws_def
proof
  fix x :: int
  show "\<exists>d y. d \<noteq> [] \<and> all_digits d \<and> BN_bn2dec sample_num x = (if x < 0 then CHR ''-'' # d else d) \<and>
      BN_dec2bn sample_num (BN_bn2dec sample_num x) = Some y \<and> y = x"
    by (intro exI [of _ "dec_nat (nat \<bar>x\<bar>)"] exI [of _ x]) (simp add: sample_num_def read_dec_int dec_nat_digits, simp add: dec_int_def)
qed

lemma sample_float_laws: "float_laws sample_num (\<lambda>x. x) sample_fval (\<lambda>f. True)"
  unfolding float_laws_def
proof (intro conjI allI impI)
  fix f :: "int \<times> int"
  show "\<exists>m e k. f_frexp sample_num f = (m, e) \<and> sample_fval (f_ldexp sample_num m 53) = of_int k \<and>
      sample_fval f = of_int k * 2 powi (e - 53) \<and> True"
    by (cases f) (auto simp: sample_num_def sample_fval_def)
next
  fix g :: "int \<times> int" and k
  assume v: "sample_fval g = of_int k"
  obtain m e where g: "g = (m, e)" by (cases g)
  have "(if e \<ge> 0 then m * 2 ^ nat e else m div 2 ^ nat (- e)) = k"
  proof (cases "e \<ge> 0")
    case True
    then have "(of_int m :: rat) * 2 ^ nat e = of_int k" using v by (simp add: sample_fval_def g power_int_def)
    then have "of_int (m * 2 ^ nat e) = (of_int k :: rat)" by simp
    then show ?thesis using True by (simp only: of_int_eq_iff if_True)
  next
    case False
    have "(2 :: rat) powi e = 1 / 2 ^ nat (- e)" using False unfolding power_int_def by (simp add: power_one_over)
    then have "(of_int m :: rat) / 2 ^ nat (- e) = of_int k" using v by (simp add: sample_fval_def g)
    then have "(of_int m :: rat) = of_int k * 2 ^ nat (- e)" by (simp add: divide_eq_eq)
    then have "of_int m = (of_int (k * 2 ^ nat (- e)) :: rat)" by simp
    then have "m = k * 2 ^ nat (- e)" by (simp only: of_int_eq_iff)
    then show ?thesis using False by simp
  qed
  then show "\<exists>b. BN_dec2bn sample_num (f_dec sample_num (f_rint sample_num g)) = Some b \<and> b = k"
    by (simp add: sample_num_def g read_dec_int)
qed

end
