(* ===== verification/Fth_Maps.thy ===== *)
theory Fth_Maps
  imports Ficl_Prelude
begin

section \<open>The interface of a keyed map\<close>

text \<open>
  What a client of a map relies on: a state seen as a map from the identities of keys to values,
  lookup, update and removal for the keys that are \<open>valid\<close>. As long as there is \<open>room\<close>, and up to the
  limit of the implementation, a sequence of updates and removals leaves just the map that it
  describes. Association arrays and hash tables are the two implementations.
\<close>

datatype ('k, 'v) map_op = Put 'k 'v | Remove 'k

fun op_key :: "('k, 'v) map_op \<Rightarrow> 'k" where
  "op_key (Put k v) = k"
| "op_key (Remove k) = k"

fun map_ops :: "('k \<Rightarrow> 'i) \<Rightarrow> ('k, 'v) map_op list \<Rightarrow> ('i \<rightharpoonup> 'v) \<Rightarrow> ('i \<rightharpoonup> 'v)" where
  "map_ops key [] m = m"
| "map_ops key (Put k v # cs) m = map_ops key cs (m(key k \<mapsto> v))"
| "map_ops key (Remove k # cs) m = map_ops key cs (m(key k := None))"

locale keyed_map =
  fixes view :: "'s \<Rightarrow> ('i \<rightharpoonup> 'v) \<Rightarrow> bool"
    and look :: "'s \<Rightarrow> 'k \<Rightarrow> ('e, 'v) outcome"
    and put :: "'s \<Rightarrow> 'k \<Rightarrow> 'v \<Rightarrow> ('e, 's) outcome"
    and remove :: "'s \<Rightarrow> 'k \<Rightarrow> ('e, 's) outcome"
    and key :: "'k \<Rightarrow> 'i" and valid :: "'k \<Rightarrow> bool" and none :: 'v and limit :: nat and room :: "'s \<Rightarrow> nat \<Rightarrow> bool"
  assumes view_finite: "view s m \<Longrightarrow> finite (dom m)"
    and look: "view s m \<Longrightarrow> valid k \<Longrightarrow> look s k = Ok (case m (key k) of Some v \<Rightarrow> v | None \<Rightarrow> none)"
    and put: "view s m \<Longrightarrow> valid k \<Longrightarrow> card (dom m) < limit \<Longrightarrow> room s (Suc n) \<Longrightarrow>
      \<exists>s'. put s k v = Ok s' \<and> view s' (m(key k \<mapsto> v)) \<and> room s' n"
    and remove: "view s m \<Longrightarrow> valid k \<Longrightarrow> room s (Suc n) \<Longrightarrow>
      \<exists>s'. remove s k = Ok s' \<and> view s' (m(key k := None)) \<and> room s' n"
begin

fun run :: "('k, 'v) map_op list \<Rightarrow> 's \<Rightarrow> ('e, 's) outcome" where
  "run [] s = Ok s"
| "run (Put k v # cs) s = bind_outcome (put s k v) (run cs)"
| "run (Remove k # cs) s = bind_outcome (remove s k) (run cs)"

lemma run_view:
  assumes "view s m" and "list_all (\<lambda>c. valid (op_key c)) cs" and "card (dom m) + length cs \<le> limit" and "room s (length cs)"
  shows "\<exists>s'. run cs s = Ok s' \<and> view s' (map_ops key cs m)"
  using assms
proof (induction cs arbitrary: s m)
  case (Cons c cs)
  have fin: "finite (dom m)" using view_finite [OF Cons.prems(1)] .
  have valid: "valid (op_key c)" "list_all (\<lambda>c. valid (op_key c)) cs" using Cons.prems(2) by simp_all
  show ?case
  proof (cases c)
    case (Put k v)
    obtain s1 where s1: "put s k v = Ok s1" "view s1 (m(key k \<mapsto> v))" "room s1 (length cs)"
      using put [OF Cons.prems(1), of k "length cs" v] Cons.prems(3,4) valid(1) Put by auto
    have "card (dom (m(key k \<mapsto> v))) + length cs \<le> limit" using fin Cons.prems(3) by (simp add: card_insert_if)
    from Cons.IH [OF s1(2) valid(2) this s1(3)] obtain s2
      where "run cs s1 = Ok s2" "view s2 (map_ops key cs (m(key k \<mapsto> v)))" by blast
    then show ?thesis using s1(1) Put by simp
  next
    case (Remove k)
    obtain s1 where s1: "remove s k = Ok s1" "view s1 (m(key k := None))" "room s1 (length cs)"
      using remove [OF Cons.prems(1), of k "length cs"] Cons.prems(4) valid(1) Remove by auto
    have "card (dom (m(key k := None))) \<le> card (dom m)" using fin by (intro card_mono) auto
    then have l: "card (dom (m(key k := None))) + length cs \<le> limit" using Cons.prems(3) by (simp only: list.size)
    from Cons.IH [OF s1(2) valid(2) l s1(3)] obtain s2
      where "run cs s1 = Ok s2" "view s2 (map_ops key cs (m(key k := None)))" by blast
    then show ?thesis using s1(1) Remove by simp
  qed
qed simp

lemma look_after_run:
  assumes "view s m" and "list_all (\<lambda>c. valid (op_key c)) cs" and "card (dom m) + length cs \<le> limit" and "room s (length cs)"
  shows "\<exists>s'. run cs s = Ok s' \<and>
    (\<forall>k. valid k \<longrightarrow> look s' k = Ok (case map_ops key cs m (key k) of Some v \<Rightarrow> v | None \<Rightarrow> none))"
  using run_view [OF assms] look by blast

end

end
