(* ===== verification/Fth_Assoc.thy ===== *)
theory Fth_Assoc
  imports Fth_Array_Laws Fth_Maps
begin

section \<open>Association arrays\<close>

text \<open>
  Arrays whose elements are pairs (\<open>acells\<close>), sorted by the hash code of the key and searched
  by bisection (\<open>src/array.c\<close>). Arrays refer to other arrays here, so the operations work on a
  store of arrays; an exception carries the store at the time it is thrown.

  The allocator of instances and \<open>fth_hash_id\<close> of the object system are parameters
  (\<open>obj_env\<close>); what is used of the allocator is that it returns an address not in use as long
  as there is one (\<open>alloc_fresh\<close>). The lemmas show that an association array is a finite map on the hash codes
  of its keys. Two keys with the same hash code are the same key to these functions.
\<close>

type_synonym store = "addr \<rightharpoonup> FArray"

type_synonym 'a obj_result = "(array_error \<times> store, 'a) outcome"

record obj_env =
  make_instance :: "store \<Rightarrow> addr"
  fth_hash_id :: "cell \<Rightarrow> cell"
  FTH_FALSE_OBJ :: cell
  FTH_NIL_OBJ :: cell

definition alloc_fresh :: "obj_env \<Rightarrow> bool" where
  "alloc_fresh E = (\<forall>st. dom st \<noteq> UNIV \<longrightarrow> st (make_instance E st) = None)"

text \<open>There are addresses for \<open>n\<close> more objects.\<close>

definition free_objects :: "store \<Rightarrow> nat \<Rightarrow> bool" where
  "free_objects st n = (card (dom st) + n \<le> 2 ^ 64)"

lemma free_objects_dom: "free_objects st (Suc n) \<Longrightarrow> dom st \<noteq> UNIV"
  by (auto simp: free_objects_def card_word)

lemma free_objects_insert:
  assumes "free_objects st (Suc n)" and "dom st' \<subseteq> insert p (dom st)"
  shows "free_objects st' n"
proof -
  have "card (dom st') \<le> card (insert p (dom st))" by (rule card_mono [OF _ assms(2)]) simp
  also have "\<dots> \<le> Suc (card (dom st))" by (simp add: card_insert_if)
  finally show ?thesis using assms(1) by (simp add: free_objects_def)
qed

fun in_store :: "store \<Rightarrow> 'a array_result \<Rightarrow> 'a obj_result" where
  "in_store st (Ok x) = Ok x"
| "in_store st (Throw e) = Throw (e, st)"
| "in_store st Fault = Fault"

definition make_object :: "obj_env \<Rightarrow> store \<Rightarrow> FArray \<Rightarrow> addr \<times> store" where
  "make_object E st ary = (let a = make_instance E st in (a, st(a \<mapsto> ary)))"

text \<open>\<open>FTH_ASSERT_ARGS(FTH_ARRAY_P(array), ...)\<close> and the dereference of the array.\<close>

definition assert_array :: "store \<Rightarrow> addr \<Rightarrow> FArray obj_result" where
  "assert_array st a = (case st a of Some ary \<Rightarrow> Ok ary | None \<Rightarrow> Throw (WRONG_TYPE_ARG, st))"

subsection \<open>Pairs\<close>

definition acell :: "cell \<Rightarrow> cell \<Rightarrow> FArray" where
  "acell k v = \<lparr>a_type = FTH_ARY_ARRAY, a_length = 2, a_buf_length = 2, a_top = 0, a_data = 0,
     a_buf = [Some k, Some v], a_changed_p = True\<rparr>"

definition fth_make_acell :: "obj_env \<Rightarrow> store \<Rightarrow> cell \<Rightarrow> cell \<Rightarrow> addr \<times> store" where
  "fth_make_acell E st key v = make_object E st (acell key v)"

definition FTH_ACELL_P :: "store \<Rightarrow> cell \<Rightarrow> bool" where
  "FTH_ACELL_P st c = (case st c of Some ary \<Rightarrow> a_length ary = 2 | None \<Rightarrow> False)"

definition fth_acell_key :: "obj_env \<Rightarrow> store \<Rightarrow> cell \<Rightarrow> cell obj_result" where
  "fth_acell_key E st c =
     (if FTH_ACELL_P st c
      then bind_outcome (assert_array st c) (\<lambda>ary. in_store st (data_ref ary 0)) else Ok (FTH_FALSE_OBJ E))"

definition fth_acell_value :: "obj_env \<Rightarrow> store \<Rightarrow> cell \<Rightarrow> cell obj_result" where
  "fth_acell_value E st c =
     (if FTH_ACELL_P st c
      then bind_outcome (assert_array st c) (\<lambda>ary. in_store st (data_ref ary 1)) else Ok (FTH_FALSE_OBJ E))"

subsection \<open>Bisection\<close>

text \<open>The hash code of the key of element \<open>i\<close>.\<close>

definition key_id :: "obj_env \<Rightarrow> store \<Rightarrow> FArray \<Rightarrow> int \<Rightarrow> cell obj_result" where
  "key_id E st ary i = bind_outcome (in_store st (data_ref ary i)) (\<lambda>c.
     bind_outcome (fth_acell_key E st c) (\<lambda>k. Ok (fth_hash_id E k)))"

function assoc_loop :: "obj_env \<Rightarrow> store \<Rightarrow> FArray \<Rightarrow> cell \<Rightarrow> int \<Rightarrow> int \<Rightarrow> int obj_result" where
  "assoc_loop E st ary hid beg end =
     (if beg \<le> end
      then let i = (beg + end) div 2
           in bind_outcome (key_id E st ary i) (\<lambda>kid.
                if hid = kid then Ok i
                else if hid < kid then assoc_loop E st ary hid beg (i - 1)
                else assoc_loop E st ary hid (i + 1) end)
      else Ok (-1))"
  by pat_completeness auto
termination
  by (relation "measure (\<lambda>(E, st, ary, hid, beg, end). nat (end - beg + 1))") auto

declare assoc_loop.simps [simp del]

definition assoc_index :: "obj_env \<Rightarrow> store \<Rightarrow> cell \<Rightarrow> cell \<Rightarrow> int obj_result" where
  "assoc_index E st assoc key =
     (if assoc = FTH_NIL_OBJ E \<or> assoc = FTH_FALSE_OBJ E then Ok (-1)
      else bind_outcome (assert_array st assoc) (\<lambda>ary.
           if a_length ary = 0 then Ok (-1)
           else assoc_loop E st ary (fth_hash_id E key) 0 (a_length ary - 1)))"

text \<open>The loop that looks for the first element with a greater hash code, \<open>n\<close> elements from \<open>i\<close> on.\<close>

fun insert_loop :: "obj_env \<Rightarrow> store \<Rightarrow> FArray \<Rightarrow> cell \<Rightarrow> nat \<Rightarrow> int \<Rightarrow> int obj_result" where
  "insert_loop E st ary hid 0 i = Ok i"
| "insert_loop E st ary hid (Suc n) i = bind_outcome (key_id E st ary i) (\<lambda>kid.
     if hid < kid then Ok i else insert_loop E st ary hid n (i + 1))"

definition assoc_insert :: "obj_env \<Rightarrow> store \<Rightarrow> addr \<Rightarrow> cell \<Rightarrow> cell \<Rightarrow> (addr \<times> store) obj_result" where
  "assoc_insert E st assoc hid val =
     bind_outcome (assert_array st assoc) (\<lambda>ary.
       let ary = ary\<lparr>a_type := a_type ary OR FTH_ARY_ASSOC\<rparr>;
           st = st(assoc \<mapsto> ary);
           alen = a_length ary
       in bind_outcome (insert_loop E st ary hid (nat alen) 0) (\<lambda>i.
            let len = NEW_SEQ_LENGTH (a_top ary + alen + 1)
            in if len > MAX_SEQ_LENGTH then Throw (OUT_OF_RANGE, st)
               else let ary = (if len > a_buf_length ary then set_buf_length len ary else ary)
                    in bind_outcome (in_store st
                         (in_buf (memmove (a_data ary + i + 1) (a_data ary + i) (a_length ary - i)) ary)) (\<lambda>ary.
                       bind_outcome (in_store st (data_set (ary\<lparr>a_length := a_length ary + 1\<rparr>) i val)) (\<lambda>ary.
                         Ok (assoc, st(assoc \<mapsto> FTH_INSTANCE_CHANGED ary))))))"

definition fth_assoc :: "obj_env \<Rightarrow> store \<Rightarrow> cell \<Rightarrow> cell \<Rightarrow> cell \<Rightarrow> (addr \<times> store) obj_result" where
  "fth_assoc E st assoc key v =
     (let (val, st) = fth_make_acell E st key v
      in if assoc = FTH_NIL_OBJ E \<or> assoc = FTH_FALSE_OBJ E
         then bind_outcome (in_store st (fth_make_array_var [val])) (\<lambda>ary.
                Ok (make_object E st (ary\<lparr>a_type := a_type ary OR FTH_ARY_ASSOC\<rparr>)))
         else assoc_insert E st assoc (fth_hash_id E key) val)"

definition fth_array_assoc :: "obj_env \<Rightarrow> store \<Rightarrow> cell \<Rightarrow> cell \<Rightarrow> cell obj_result" where
  "fth_array_assoc E st assoc key = bind_outcome (assoc_index E st assoc key) (\<lambda>idx.
     if idx \<ge> 0 then bind_outcome (assert_array st assoc) (\<lambda>ary. in_store st (ary_ref ary idx))
     else Ok (FTH_FALSE_OBJ E))"

definition fth_array_assoc_ref :: "obj_env \<Rightarrow> store \<Rightarrow> cell \<Rightarrow> cell \<Rightarrow> cell obj_result" where
  "fth_array_assoc_ref E st assoc key = bind_outcome (assoc_index E st assoc key) (\<lambda>idx.
     if idx \<ge> 0
     then bind_outcome (assert_array st assoc) (\<lambda>ary.
          bind_outcome (in_store st (ary_ref ary idx)) (\<lambda>as. fth_acell_value E st as))
     else Ok (FTH_FALSE_OBJ E))"

definition fth_array_assoc_set :: "obj_env \<Rightarrow> store \<Rightarrow> cell \<Rightarrow> cell \<Rightarrow> cell \<Rightarrow> (addr \<times> store) obj_result" where
  "fth_array_assoc_set E st assoc key v = bind_outcome (assoc_index E st assoc key) (\<lambda>idx.
     if idx \<ge> 0
     then let (val, st) = fth_make_acell E st key v
          in bind_outcome (assert_array st assoc) (\<lambda>ary.
             bind_outcome (in_store st (fth_array_set ary idx val)) (\<lambda>ary. Ok (assoc, st(assoc \<mapsto> ary))))
     else fth_assoc E st assoc key v)"

definition fth_array_assoc_remove :: "obj_env \<Rightarrow> store \<Rightarrow> cell \<Rightarrow> cell \<Rightarrow> (addr \<times> store) obj_result" where
  "fth_array_assoc_remove E st assoc key = bind_outcome (assoc_index E st assoc key) (\<lambda>idx.
     if idx \<ge> 0
     then bind_outcome (assert_array st assoc) (\<lambda>ary.
          bind_outcome (in_store st (fth_array_delete (FTH_FALSE_OBJ E) ary idx)) (\<lambda>(v, ary).
            Ok (assoc, st(assoc \<mapsto> ary))))
     else Ok (assoc, st))"

subsection \<open>The list of pairs\<close>

definition pairs_hold :: "store \<Rightarrow> cell list \<Rightarrow> (cell \<times> cell) list \<Rightarrow> bool" where
  "pairs_hold st ps kvs = list_all2 (\<lambda>p kv. \<exists>c. st p = Some c \<and> array_holds c [fst kv, snd kv]) ps kvs"

abbreviation ids :: "obj_env \<Rightarrow> (cell \<times> cell) list \<Rightarrow> cell list" where
  "ids E kvs \<equiv> map (\<lambda>kv. fth_hash_id E (fst kv)) kvs"

definition assoc_holds :: "obj_env \<Rightarrow> store \<Rightarrow> addr \<Rightarrow> (cell \<times> cell) list \<Rightarrow> bool" where
  "assoc_holds E st a kvs = (a \<noteq> FTH_NIL_OBJ E \<and> a \<noteq> FTH_FALSE_OBJ E \<and> sorted_wrt (<) (ids E kvs) \<and>
     (\<exists>ary ps. st a = Some ary \<and> array_holds ary ps \<and> pairs_hold st ps kvs \<and> a \<notin> set ps))"

lemma acell_holds: "array_holds (acell k v) [k, v]"
  by (rule array_holdsI [where pre = "[]" and post = "[]"]) (simp_all add: acell_def MAX_SEQ_LENGTH_def)

lemma pairs_hold_length: "pairs_hold st ps kvs \<Longrightarrow> length ps = length kvs"
  unfolding pairs_hold_def by (rule list_all2_lengthD)

lemma pairs_hold_other: "pairs_hold st ps kvs \<Longrightarrow> q \<notin> set ps \<Longrightarrow> pairs_hold (st(q \<mapsto> c)) ps kvs"
  unfolding pairs_hold_def by (auto simp: list_all2_conv_all_nth)

lemma pairs_hold_dom: "pairs_hold st ps kvs \<Longrightarrow> p \<in> set ps \<Longrightarrow> st p \<noteq> None"
  unfolding pairs_hold_def by (auto simp: list_all2_conv_all_nth in_set_conv_nth)

lemma pair_access:
  assumes "st p = Some c" and "array_holds c [k, v]"
  shows "fth_acell_key E st p = Ok k" and "fth_acell_value E st p = Ok v"
  using assms data_ref_holds_nat [OF assms(2), of 0] data_ref_holds_nat [OF assms(2), of 1] array_holds_length [OF assms(2)]
  by (simp_all add: fth_acell_key_def fth_acell_value_def FTH_ACELL_P_def assert_array_def)

lemma key_id_holds:
  assumes "array_holds ary ps" and "pairs_hold st ps kvs" and "i < length kvs"
  shows "key_id E st ary (int i) = Ok (ids E kvs ! i)"
proof -
  obtain c where c: "st (ps ! i) = Some c" "array_holds c [fst (kvs ! i), snd (kvs ! i)]"
    using assms(2,3) pairs_hold_length [OF assms(2)] unfolding pairs_hold_def
    by (auto simp: list_all2_conv_all_nth)
  have "data_ref ary (int i) = Ok (ps ! i)"
    using data_ref_holds_nat [OF assms(1)] assms(3) pairs_hold_length [OF assms(2)] by simp
  then show ?thesis
    using pair_access(1) [where st = st, OF c] assms(3) by (simp add: key_id_def)
qed

subsection \<open>Bisection finds the key\<close>

lemma assoc_loop_found:
  assumes "array_holds ary ps" and "pairs_hold st ps kvs" and "sorted_wrt (<) (ids E kvs)"
    and "i < length kvs" and "ids E kvs ! i = hid"
  shows "0 \<le> beg \<Longrightarrow> beg \<le> int i \<Longrightarrow> int i \<le> end \<Longrightarrow> end < int (length kvs) \<Longrightarrow>
    assoc_loop E st ary hid beg end = Ok (int i)"
proof (induction "nat (end - beg + 1)" arbitrary: beg "end" rule: less_induct)
  case less
  let ?m = "(beg + end) div 2"
  let ?j = "nat ?m"
  have m: "beg \<le> ?m" "?m \<le> end" "int ?j = ?m" "?j < length kvs" using less.prems by auto
  have key: "key_id E st ary ?m = Ok (ids E kvs ! ?j)"
    using key_id_holds [OF assms(1,2) m(4), of E] unfolding m(3) .
  have mono: "ids E kvs ! p < ids E kvs ! q" if "p < q" "q < length kvs" for p q
    using sorted_wrt_nth_less [OF assms(3) that(1)] that(2) by simp
  consider "i = ?j" | "i < ?j" | "?j < i" by linarith
  then show ?case
  proof cases
    case 1
    have "ids E kvs ! ?j = hid" using 1 assms(5) by simp
    then show ?thesis using 1 key m less.prems by (subst assoc_loop.simps) (simp add: Let_def)
  next
    case 2
    then have "hid < ids E kvs ! ?j" using mono [OF 2 m(4)] assms(5) by simp
    then have "assoc_loop E st ary hid beg end = assoc_loop E st ary hid beg (?m - 1)"
      using key m less.prems by (subst assoc_loop.simps) (auto simp: Let_def)
    then show ?thesis using less.hyps [of "?m - 1" beg] less.prems 2 m by auto
  next
    case 3
    then have "ids E kvs ! ?j < hid" using mono [OF 3 assms(4)] assms(5) by simp
    then have "assoc_loop E st ary hid beg end = assoc_loop E st ary hid (?m + 1) end"
      using key m less.prems by (subst assoc_loop.simps) (auto simp: Let_def)
    then show ?thesis using less.hyps [of "end" "?m + 1"] less.prems 3 m by auto
  qed
qed

lemma assoc_loop_absent:
  assumes "array_holds ary ps" and "pairs_hold st ps kvs" and "hid \<notin> set (ids E kvs)"
  shows "0 \<le> beg \<Longrightarrow> end < int (length kvs) \<Longrightarrow> assoc_loop E st ary hid beg end = Ok (-1)"
proof (induction "nat (end - beg + 1)" arbitrary: beg "end" rule: less_induct)
  case less
  let ?m = "(beg + end) div 2"
  let ?j = "nat ?m"
  show ?case
  proof (cases "beg \<le> end")
    case True
    then have m: "beg \<le> ?m" "?m \<le> end" "int ?j = ?m" "?j < length kvs" using less.prems by auto
    have "key_id E st ary ?m = Ok (ids E kvs ! ?j)"
      using key_id_holds [OF assms(1,2) m(4), of E] unfolding m(3) .
    moreover have "ids E kvs ! ?j \<noteq> hid"
      using nth_mem [of ?j "ids E kvs"] m(4) assms(3) by auto
    moreover have "assoc_loop E st ary hid beg (?m - 1) = Ok (-1)" "assoc_loop E st ary hid (?m + 1) end = Ok (-1)"
      using less.hyps [of "?m - 1" beg] less.hyps [of "end" "?m + 1"] less.prems m by auto
    ultimately show ?thesis using True by (subst assoc_loop.simps) (auto simp: Let_def)
  qed (subst assoc_loop.simps, simp)
qed

lemma assoc_index_found:
  assumes "assoc_holds E st a kvs" and "i < length kvs" and "ids E kvs ! i = fth_hash_id E key"
  shows "assoc_index E st a key = Ok (int i)"
proof -
  obtain ary ps where h: "st a = Some ary" "array_holds ary ps" "pairs_hold st ps kvs"
    using assms(1) by (auto simp: assoc_holds_def)
  have "a_length ary = int (length kvs)" using array_holds_length [OF h(2)] pairs_hold_length [OF h(3)] by simp
  moreover have "assoc_loop E st ary (fth_hash_id E key) 0 (int (length kvs) - 1) = Ok (int i)"
    by (rule assoc_loop_found [OF h(2,3) _ assms(2,3)]) (use assms in \<open>auto simp: assoc_holds_def\<close>)
  ultimately show ?thesis
    using assms(1,2) h(1) by (auto simp: assoc_index_def assert_array_def assoc_holds_def)
qed

lemma assoc_index_absent:
  assumes "assoc_holds E st a kvs" and "fth_hash_id E key \<notin> set (ids E kvs)"
  shows "assoc_index E st a key = Ok (-1)"
proof -
  obtain ary ps where h: "st a = Some ary" "array_holds ary ps" "pairs_hold st ps kvs"
    using assms(1) by (auto simp: assoc_holds_def)
  have "a_length ary = int (length kvs)" using array_holds_length [OF h(2)] pairs_hold_length [OF h(3)] by simp
  moreover have "assoc_loop E st ary (fth_hash_id E key) 0 (int (length kvs) - 1) = Ok (-1)"
    by (rule assoc_loop_absent [OF h(2,3) assms(2)]) auto
  ultimately show ?thesis
    using assms(1) h(1) by (auto simp: assoc_index_def assert_array_def assoc_holds_def)
qed

subsection \<open>Insertion keeps the order\<close>

lemma insert_loop_holds:
  assumes "array_holds ary ps" and "pairs_hold st ps kvs" and "i + n \<le> length kvs"
  shows "insert_loop E st ary hid n (int i) =
    Ok (int (i + length (takeWhile (\<lambda>k. k \<le> hid) (take n (drop i (ids E kvs))))))"
  using assms(3)
proof (induction n arbitrary: i)
  case (Suc n)
  have d: "drop i (ids E kvs) = ids E kvs ! i # drop (Suc i) (ids E kvs)"
    using Suc.prems by (simp add: Cons_nth_drop_Suc del: nth_map)
  have "insert_loop E st ary hid n (int i + 1) =
      Ok (int (Suc i + length (takeWhile (\<lambda>k. k \<le> hid) (take n (drop (Suc i) (ids E kvs))))))"
    using Suc.IH [of "Suc i"] Suc.prems by (simp add: add.commute)
  then show ?case
    using key_id_holds [OF assms(1,2), of i E] Suc.prems unfolding d by (auto simp: not_le simp del: nth_map)
qed simp

lemma array_insert_at:
  assumes "array_holds ary (us @ ws)" and "a_top ary + a_length ary < a_buf_length ary"
  shows "\<exists>ary1 b. in_buf (memmove (a_data ary + int (length us) + 1) (a_data ary + int (length us)) (a_length ary - int (length us))) ary = Ok ary1 \<and>
    data_set (ary1\<lparr>a_length := a_length ary1 + 1\<rparr>) (int (length us)) v = Ok (ary1\<lparr>a_length := a_length ary1 + 1, a_buf := b\<rparr>) \<and>
    array_holds (ary1\<lparr>a_length := a_length ary1 + 1, a_buf := b\<rparr>) (us @ v # ws)"
  using assms(1)
proof (rule array_holdsE)
  fix pre post
  assume b: "a_buf ary = pre @ map Some (us @ ws) @ post" "a_top ary = int (length pre)" "a_data ary = int (length pre)"
      "a_length ary = int (length (us @ ws))"
      "a_buf_length ary = int (length pre) + int (length (us @ ws)) + int (length post)"
      "a_buf_length ary \<le> MAX_SEQ_LENGTH" "2 * a_top ary \<le> MAX_SEQ_LENGTH"
  obtain p post' where post: "post = p # post'" using assms(2) b by (cases post) auto
  let ?c = "hd (map Some ws @ post)"
  let ?b = "pre @ map Some us @ ?c # map Some ws @ post'"
  have s: "nat (int (length pre) + int (length us) + 1) = length pre + length us + 1"
      "nat (int (length pre) + int (length us)) = length pre + length us"
      "nat (int (length pre) + int (length us) + 1 + int (length ws)) = length pre + length us + 1 + length ws"
    by simp_all
  have t: "take 1 (map Some ws @ post) = [?c]" using post by (cases ws) auto
  have d: "drop (Suc (length ws)) (map Some ws @ p # post') = post'"
    using drop_append [of "Suc (length ws)" "map Some ws" "p # post'"] by simp
  have "memmove (a_data ary + int (length us) + 1) (a_data ary + int (length us)) (a_length ary - int (length us)) (a_buf ary) = Ok ?b"
    using b post t d unfolding memmove_def b(3) by (simp add: s)
  then have m: "in_buf (memmove (a_data ary + int (length us) + 1) (a_data ary + int (length us)) (a_length ary - int (length us))) ary =
      Ok (ary\<lparr>a_buf := ?b\<rparr>)" by (simp add: in_buf_def)
  let ?b' = "pre @ map Some (us @ v # ws) @ post'"
  have "data_set (ary\<lparr>a_buf := ?b, a_length := a_length ary + 1\<rparr>) (int (length us)) v =
      Ok (ary\<lparr>a_length := a_length ary + 1, a_buf := ?b'\<rparr>)"
    using b(3) by (simp add: data_set_def s list_update_append)
  moreover have "array_holds (ary\<lparr>a_length := a_length ary + 1, a_buf := ?b'\<rparr>) (us @ v # ws)"
    by (rule array_holdsI [where pre = pre and post = post']) (use b post in simp_all)
  ultimately show ?thesis using m
    by (intro exI [of _ "ary\<lparr>a_buf := ?b\<rparr>"] exI [of _ ?b']) simp
qed

lemma takeWhile_ids:
  "length (takeWhile (\<lambda>k. k \<le> hid) (ids E kvs)) = length (takeWhile (\<lambda>kv. fth_hash_id E (fst kv) \<le> hid) kvs)"
  by (induction kvs) auto

lemma assoc_insert_holds:
  assumes "st a = Some ary" and "array_holds ary ps" and "pairs_hold st ps kvs" and "a \<notin> set ps"
    and "st p = Some c" and "array_holds c [key, v]" and "p \<noteq> a" and "length kvs < array_limit"
    and "us = takeWhile (\<lambda>kv. fth_hash_id E (fst kv) \<le> fth_hash_id E key) kvs"
    and "ws = dropWhile (\<lambda>kv. fth_hash_id E (fst kv) \<le> fth_hash_id E key) kvs"
  shows "\<exists>ary' ps'. assoc_insert E st a (fth_hash_id E key) p = Ok (a, st(a \<mapsto> ary')) \<and>
    array_holds ary' ps' \<and> pairs_hold (st(a \<mapsto> ary')) ps' (us @ (key, v) # ws) \<and> a \<notin> set ps'"
proof -
  let ?hid = "fth_hash_id E key" and ?n = "length us"
  define ary1 where "ary1 = ary\<lparr>a_type := a_type ary OR FTH_ARY_ASSOC\<rparr>"
  let ?st = "st(a \<mapsto> ary1)"
  have h1: "array_holds ary1 ps" using assms(2) by (simp add: ary1_def array_holds_def)
  have p1: "pairs_hold ?st ps kvs" by (rule pairs_hold_other [OF assms(3,4)])
  have len: "length ps = length kvs" "a_length ary1 = int (length kvs)"
    using pairs_hold_length [OF assms(3)] array_holds_length [OF h1] by simp_all
  have kvs: "kvs = us @ ws" using assms(9,10) by simp
  have il: "insert_loop E ?st ary1 ?hid (nat (a_length ary1)) 0 = Ok (int ?n)"
    using insert_loop_holds [OF h1 p1, of 0 "length kvs" E ?hid] len(2) takeWhile_ids [of ?hid E kvs] assms(9) by simp
  let ?len = "NEW_SEQ_LENGTH (a_top ary1 + a_length ary1 + 1)"
  have top: "2 * a_top ary1 \<le> MAX_SEQ_LENGTH" "int (length kvs) + 1 \<le> int array_limit"
    using h1 assms(8) by (auto simp: array_holds_def)
  have fits: "?len \<le> MAX_SEQ_LENGTH"
    unfolding NEW_SEQ_LENGTH_fits using top len(2) by (simp add: MAX_SEQ_LENGTH_def array_limit_def)
  define ary2 where "ary2 = (if ?len > a_buf_length ary1 then set_buf_length ?len ary1 else ary1)"
  have h2: "array_holds ary2 (take ?n ps @ drop ?n ps)"
    using h1 set_buf_length_holds [OF h1 _ fits] NEW_SEQ_LENGTH_bounds(1) [of "a_top ary1 + a_length ary1 + 1"] len
    by (auto simp: ary2_def)
  have r2: "a_top ary2 + a_length ary2 < a_buf_length ary2"
    using NEW_SEQ_LENGTH_bounds(1) [of "a_top ary1 + a_length ary1 + 1"] by (auto simp: ary2_def)
  have n: "length (take ?n ps) = ?n" using len(1) kvs by simp
  obtain ary3 b where a3: "in_buf (memmove (a_data ary2 + int ?n + 1) (a_data ary2 + int ?n) (a_length ary2 - int ?n)) ary2 = Ok ary3"
      "data_set (ary3\<lparr>a_length := a_length ary3 + 1\<rparr>) (int ?n) p = Ok (ary3\<lparr>a_length := a_length ary3 + 1, a_buf := b\<rparr>)"
      "array_holds (ary3\<lparr>a_length := a_length ary3 + 1, a_buf := b\<rparr>) (take ?n ps @ p # drop ?n ps)"
    using array_insert_at [OF h2 r2, of p] unfolding n by blast
  let ?ary' = "FTH_INSTANCE_CHANGED (ary3\<lparr>a_length := a_length ary3 + 1, a_buf := b\<rparr>)"
  have "assoc_insert E st a ?hid p = Ok (a, st(a \<mapsto> ?ary'))"
    unfolding assoc_insert_def assert_array_def assms(1) option.case bind_outcome.simps Let_def
      ary1_def [symmetric] il ary2_def [symmetric]
    using fits a3(1,2) by simp
  moreover have "pairs_hold (st(a \<mapsto> ?ary')) (take ?n ps @ p # drop ?n ps) (us @ (key, v) # ws)"
  proof -
    have "pairs_hold st (take ?n ps) us" "pairs_hold st (drop ?n ps) ws"
      using list_all2_takeI [OF assms(3) [unfolded pairs_hold_def], of ?n]
        list_all2_dropI [OF assms(3) [unfolded pairs_hold_def], of ?n] by (simp_all add: pairs_hold_def kvs)
    then have "pairs_hold st (take ?n ps @ p # drop ?n ps) (us @ (key, v) # ws)"
      using assms(5,6) n unfolding pairs_hold_def by (intro list_all2_appendI) auto
    then show ?thesis
      by (rule pairs_hold_other) (use assms(4,7) in \<open>auto dest: in_set_takeD in_set_dropD\<close>)
  qed
  ultimately show ?thesis
    using a3(3) assms(4,7) by (intro exI [of _ ?ary'] exI [of _ "take ?n ps @ p # drop ?n ps"])
      (auto dest: in_set_takeD in_set_dropD)
qed

subsection \<open>Association arrays as maps\<close>

definition assoc_map :: "obj_env \<Rightarrow> (cell \<times> cell) list \<Rightarrow> cell \<rightharpoonup> cell" where
  "assoc_map E kvs = map_of (map (\<lambda>kv. (fth_hash_id E (fst kv), snd kv)) kvs)"

definition assoc_view :: "obj_env \<Rightarrow> addr \<Rightarrow> store \<Rightarrow> (cell \<rightharpoonup> cell) \<Rightarrow> bool" where
  "assoc_view E a st m = (alloc_fresh E \<and> (\<exists>kvs. assoc_holds E st a kvs \<and> m = assoc_map E kvs))"

lemma sorted_ids_distinct: "sorted_wrt (<) (ids E kvs) \<Longrightarrow> distinct (ids E kvs)"
  by (simp add: strict_sorted_iff)

lemma assoc_map_card:
  assumes "sorted_wrt (<) (ids E kvs)"
  shows "card (dom (assoc_map E kvs)) = length kvs"
proof -
  have "dom (assoc_map E kvs) = set (ids E kvs)"
    by (auto simp: assoc_map_def dom_map_of_conv_image_fst image_image)
  then show ?thesis using distinct_card [OF sorted_ids_distinct [OF assms]] by simp
qed

lemma assoc_map_nth:
  assumes "sorted_wrt (<) (ids E kvs)" and "i < length kvs"
  shows "assoc_map E kvs (ids E kvs ! i) = Some (snd (kvs ! i))"
proof -
  have "distinct (map fst (map (\<lambda>kv. (fth_hash_id E (fst kv), snd kv)) kvs))"
    using sorted_ids_distinct [OF assms(1)] by (simp add: comp_def)
  then show ?thesis
    unfolding assoc_map_def using assms(2) by (intro map_of_is_SomeI) (auto intro!: image_eqI [of _ _ "kvs ! i"])
qed

lemma assoc_map_None: "assoc_map E kvs h = None \<longleftrightarrow> h \<notin> set (ids E kvs)"
  by (auto simp: assoc_map_def map_of_eq_None_iff image_image)

lemma assoc_map_cases:
  assumes "assoc_holds E st a kvs"
  obtains (found) i where "i < length kvs" "ids E kvs ! i = fth_hash_id E key" "assoc_index E st a key = Ok (int i)"
      "assoc_map E kvs (fth_hash_id E key) = Some (snd (kvs ! i))"
    | (absent) "fth_hash_id E key \<notin> set (ids E kvs)" "assoc_index E st a key = Ok (-1)"
      "assoc_map E kvs (fth_hash_id E key) = None"
proof (cases "fth_hash_id E key \<in> set (ids E kvs)")
  case True
  then obtain i where i: "i < length kvs" "ids E kvs ! i = fth_hash_id E key" by (auto simp: in_set_conv_nth)
  moreover have "assoc_map E kvs (fth_hash_id E key) = Some (snd (kvs ! i))"
    using assoc_map_nth [of E kvs i] i assms by (auto simp: assoc_holds_def)
  ultimately show thesis using found assoc_index_found [OF assms i] by blast
next
  case False
  then show thesis using absent assoc_index_absent [OF assms False] by (simp add: assoc_map_None)
qed

lemma fth_array_assoc_ref_view:
  assumes "assoc_view E a st m"
  shows "fth_array_assoc_ref E st a key = Ok (case m (fth_hash_id E key) of Some v \<Rightarrow> v | None \<Rightarrow> FTH_FALSE_OBJ E)"
proof -
  obtain kvs where k: "assoc_holds E st a kvs" "m = assoc_map E kvs" using assms by (auto simp: assoc_view_def)
  obtain ary ps where h: "st a = Some ary" "array_holds ary ps" "pairs_hold st ps kvs"
    using k(1) by (auto simp: assoc_holds_def)
  show ?thesis
    using k(1)
  proof (cases rule: assoc_map_cases [where key = key])
    case (found i)
    obtain c where c: "st (ps ! i) = Some c" "array_holds c [fst (kvs ! i), snd (kvs ! i)]"
      using h(3) found(1) pairs_hold_length [OF h(3)] unfolding pairs_hold_def
      by (auto simp: list_all2_conv_all_nth)
    have "ary_ref ary (int i) = Ok (ps ! i)"
      using data_ref_holds_nat [OF h(2), of i] array_holds_length [OF h(2)] found(1) pairs_hold_length [OF h(3)]
      by (simp add: ary_ref_def)
    then show ?thesis
      using found k(2) h(1) pair_access(2) [where st = st, OF c]
      by (simp add: fth_array_assoc_ref_def assert_array_def)
  qed (simp add: fth_array_assoc_ref_def k(2))
qed

lemma sorted_insert_ids:
  assumes "sorted_wrt (<) (ids E kvs)" and "fth_hash_id E key \<notin> set (ids E kvs)"
    and "us = takeWhile (\<lambda>kv. fth_hash_id E (fst kv) \<le> fth_hash_id E key) kvs"
    and "ws = dropWhile (\<lambda>kv. fth_hash_id E (fst kv) \<le> fth_hash_id E key) kvs"
  shows "sorted_wrt (<) (ids E (us @ (key, v) # ws))"
proof -
  let ?h = "fth_hash_id E key"
  have kvs: "kvs = us @ ws" using assms(3,4) by simp
  have u: "x < ?h" if x: "x \<in> set (ids E us)" for x
  proof -
    obtain kv where kv: "kv \<in> set us" "x = fth_hash_id E (fst kv)" using x by auto
    have "x \<le> ?h" "x \<in> set (ids E kvs)"
      using kv(2) set_takeWhileD [OF kv(1) [unfolded assms(3)]] by auto
    then show ?thesis using assms(2) by (metis order_le_less)
  qed
  have s: "sorted_wrt (<) (ids E us)" "sorted_wrt (<) (ids E ws)" "\<forall>x\<in>set (ids E us). \<forall>y\<in>set (ids E ws). x < y"
    using assms(1) [unfolded kvs] by (auto simp: sorted_wrt_append)
  have w: "?h < x" if "x \<in> set (ids E ws)" for x
  proof (cases ws)
    case (Cons q qs)
    then have "?h < fth_hash_id E (fst q)"
      using hd_dropWhile [of "\<lambda>kv. fth_hash_id E (fst kv) \<le> ?h" kvs] unfolding assms(4) [symmetric]
      by (simp add: not_le)
    then show ?thesis using that s(2) Cons by auto
  qed (use that in simp)
  show ?thesis using s u w by (auto simp: sorted_wrt_append)
qed

lemma assoc_map_insert:
  assumes "fth_hash_id E key \<notin> set (ids E (us @ ws))"
  shows "assoc_map E (us @ (key, v) # ws) = (assoc_map E (us @ ws))(fth_hash_id E key \<mapsto> v)"
  using assms by (induction us) (auto simp: assoc_map_def fun_upd_twist)

lemma found_split:
  assumes "sorted_wrt (<) (ids E kvs)" and "i < length kvs"
  obtains us k v ws where "kvs = us @ (k, v) # ws" "length us = i" "ids E kvs ! i = fth_hash_id E k"
    "fth_hash_id E k \<notin> set (ids E (us @ ws))"
proof -
  have kvs: "kvs = take i kvs @ kvs ! i # drop (Suc i) kvs" using assms(2) by (rule id_take_nth_drop)
  obtain k v where kv: "kvs ! i = (k, v)" by force
  have "distinct (ids E (take i kvs @ (k, v) # drop (Suc i) kvs))"
    using sorted_ids_distinct [OF assms(1)] kvs kv by simp
  then show thesis
    using that [of "take i kvs" k v "drop (Suc i) kvs"] kvs kv assms(2) by auto
qed

lemma pairs_hold_update:
  assumes "pairs_hold st ps kvs" and "st p = Some c" and "array_holds c [k, v]"
  shows "pairs_hold st (ps[i := p]) (kvs[i := (k, v)])"
  using assms unfolding pairs_hold_def by (intro list_all2_update_cong) auto

lemma fresh_pair:
  assumes "alloc_fresh E" and "dom st \<noteq> UNIV" and "st a = Some ary" and "pairs_hold st ps kvs"
  shows "make_instance E st \<noteq> a" and "make_instance E st \<notin> set ps"
    and "st (make_instance E st) = None"
proof -
  show n: "st (make_instance E st) = None" using assms(1,2) by (simp add: alloc_fresh_def)
  show "make_instance E st \<noteq> a" using n assms(3) by auto
  show "make_instance E st \<notin> set ps" using n pairs_hold_dom [OF assms(4), of "make_instance E st"] by auto
qed

lemma fth_array_assoc_set_view:
  assumes "assoc_view E a st m" and "card (dom m) < array_limit" and "free_objects st (Suc n)"
  shows "\<exists>st'. fth_array_assoc_set E st a key v = Ok (a, st') \<and> assoc_view E a st' (m(fth_hash_id E key \<mapsto> v)) \<and>
    free_objects st' n"
proof -
  let ?h = "fth_hash_id E key" and ?p = "make_instance E st"
  let ?st = "st(?p \<mapsto> acell key v)"
  obtain kvs where k: "assoc_holds E st a kvs" "m = assoc_map E kvs" and fresh: "alloc_fresh E"
    using assms by (auto simp: assoc_view_def)
  obtain ary ps where h: "st a = Some ary" "array_holds ary ps" "pairs_hold st ps kvs" "a \<notin> set ps"
    and ok: "a \<noteq> FTH_NIL_OBJ E" "a \<noteq> FTH_FALSE_OBJ E" "sorted_wrt (<) (ids E kvs)"
    using k(1) by (auto simp: assoc_holds_def)
  have p: "?p \<noteq> a" "?p \<notin> set ps" using fresh_pair [OF fresh free_objects_dom [OF assms(3)] h(1,3)] by auto
  have free: "free_objects (?st(a \<mapsto> c)) n" for c
    by (rule free_objects_insert [OF assms(3), where p = ?p]) (use h(1) in auto)
  have h': "?st a = Some ary" "pairs_hold ?st ps kvs" "?st ?p = Some (acell key v)"
    using h(1) p pairs_hold_other [OF h(3)] by auto
  show ?thesis
    using k(1)
  proof (cases rule: assoc_map_cases [where key = key])
    case (found i)
    obtain us k0 v0 ws where s: "kvs = us @ (k0, v0) # ws" "length us = i" "ids E kvs ! i = fth_hash_id E k0"
        "fth_hash_id E k0 \<notin> set (ids E (us @ ws))"
      using found_split [OF ok(3) found(1)] .
    have upd: "kvs[i := (key, v)] = us @ (key, v) # ws" using s(1,2) by (simp add: list_update_append)
    have k0: "fth_hash_id E k0 = ?h" using s(3) found(2) by simp
    have "in_range (int i) (length ps)" "nat (real_index (int i) (length ps)) = i"
      using found(1) pairs_hold_length [OF h(3)] by (auto simp: in_range_def real_index_def)
    then obtain ary' where a': "fth_array_set ary (int i) ?p = Ok ary'" "array_holds ary' (ps[i := ?p])"
      using fth_array_set_holds [OF h(2), of "int i" ?p] by auto
    have np: "a \<notin> set (ps[i := ?p])" using h(4) p(1) set_update_subset_insert [of ps i ?p] by auto
    have "pairs_hold (?st(a \<mapsto> ary')) (ps[i := ?p]) (us @ (key, v) # ws)"
      using pairs_hold_other [OF pairs_hold_update [where st = ?st, OF h'(2,3) acell_holds] np] upd by simp
    moreover have "sorted_wrt (<) (ids E (us @ (key, v) # ws))" using ok(3) s(1) k0 by simp
    ultimately have "assoc_holds E (?st(a \<mapsto> ary')) a (us @ (key, v) # ws)"
      using ok a'(2) np by (auto simp: assoc_holds_def)
    moreover have "assoc_map E (us @ (key, v) # ws) = m(?h \<mapsto> v)"
      using assoc_map_insert [of E k0 us ws v0] assoc_map_insert [of E key us ws v] s k0 k(2) by simp
    moreover have "fth_array_assoc_set E st a key v = Ok (a, ?st(a \<mapsto> ary'))"
      using found(3) a'(1) h'(1) p(1)
      by (simp add: fth_array_assoc_set_def fth_make_acell_def make_object_def assert_array_def Let_def)
    ultimately show ?thesis using fresh free by (auto simp: assoc_view_def)
  next
    case absent
    define us where "us = takeWhile (\<lambda>kv. fth_hash_id E (fst kv) \<le> ?h) kvs"
    define ws where "ws = dropWhile (\<lambda>kv. fth_hash_id E (fst kv) \<le> ?h) kvs"
    have kvs: "kvs = us @ ws" by (simp add: us_def ws_def)
    have "length kvs < array_limit" using assms(2) k(2) assoc_map_card [OF ok(3)] by simp
    then obtain ary' ps' where r: "assoc_insert E ?st a ?h ?p = Ok (a, ?st(a \<mapsto> ary'))" "array_holds ary' ps'"
        "pairs_hold (?st(a \<mapsto> ary')) ps' (us @ (key, v) # ws)" "a \<notin> set ps'"
      using assoc_insert_holds [where st = ?st, OF h'(1) h(2) h'(2) h(4) h'(3) acell_holds p(1) _ us_def ws_def] by blast
    have "sorted_wrt (<) (ids E (us @ (key, v) # ws))"
      by (rule sorted_insert_ids [OF ok(3) absent(1) us_def ws_def])
    then have "assoc_holds E (?st(a \<mapsto> ary')) a (us @ (key, v) # ws)"
      using ok(1,2) r(2-4) by (auto simp: assoc_holds_def)
    moreover have "assoc_map E (us @ (key, v) # ws) = m(?h \<mapsto> v)"
      using assoc_map_insert [of E key us ws v] absent(1) kvs k(2) by simp
    moreover have "fth_array_assoc_set E st a key v = Ok (a, ?st(a \<mapsto> ary'))"
      using absent(2) r(1) ok(1,2)
      by (simp add: fth_array_assoc_set_def fth_assoc_def fth_make_acell_def make_object_def Let_def)
    ultimately show ?thesis using fresh free by (auto simp: assoc_view_def)
  qed
qed

lemma fth_array_assoc_remove_view:
  assumes "assoc_view E a st m"
  shows "\<exists>st'. fth_array_assoc_remove E st a key = Ok (a, st') \<and> assoc_view E a st' (m(fth_hash_id E key := None)) \<and>
    dom st' = dom st"
proof -
  let ?h = "fth_hash_id E key"
  obtain kvs where k: "assoc_holds E st a kvs" "m = assoc_map E kvs" and fresh: "alloc_fresh E"
    using assms by (auto simp: assoc_view_def)
  obtain ary ps where h: "st a = Some ary" "array_holds ary ps" "pairs_hold st ps kvs" "a \<notin> set ps"
    and ok: "a \<noteq> FTH_NIL_OBJ E" "a \<noteq> FTH_FALSE_OBJ E" "sorted_wrt (<) (ids E kvs)"
    using k(1) by (auto simp: assoc_holds_def)
  show ?thesis
    using k(1)
  proof (cases rule: assoc_map_cases [where key = key])
    case (found i)
    obtain us k0 v0 ws where s: "kvs = us @ (k0, v0) # ws" "length us = i" "ids E kvs ! i = fth_hash_id E k0"
        "fth_hash_id E k0 \<notin> set (ids E (us @ ws))"
      using found_split [OF ok(3) found(1)] .
    obtain pu p pw where ps: "ps = pu @ p # pw" "pairs_hold st pu us" "pairs_hold st pw ws"
      using h(3) unfolding s(1) pairs_hold_def by (auto simp: list_all2_append2 list_all2_Cons2)
    have "length pu = i" using pairs_hold_length [OF ps(2)] s(2) by simp
    then obtain ary' where a': "fth_array_delete (FTH_FALSE_OBJ E) ary (int i) = Ok (p, ary')" "array_holds ary' (pu @ pw)"
      using fth_array_delete_at [of ary pu p pw "FTH_FALSE_OBJ E"] h(2) ps(1) by auto
    have np: "a \<notin> set (pu @ pw)" using h(4) ps(1) by auto
    have "pairs_hold st (pu @ pw) (us @ ws)" using ps(2,3) unfolding pairs_hold_def by (intro list_all2_appendI)
    then have "pairs_hold (st(a \<mapsto> ary')) (pu @ pw) (us @ ws)" using np by (rule pairs_hold_other)
    moreover have "sorted_wrt (<) (ids E (us @ ws))" using ok(3) unfolding s(1) by (auto simp: sorted_wrt_append)
    ultimately have "assoc_holds E (st(a \<mapsto> ary')) a (us @ ws)" using ok(1,2) a'(2) np by (auto simp: assoc_holds_def)
    moreover have "assoc_map E (us @ ws) = m(?h := None)"
      using assoc_map_insert [OF s(4), of v0] s(3,4) found(2) k(2) assoc_map_None [of E "us @ ws" ?h] s(1)
      by (simp add: fun_upd_idem)
    moreover have "fth_array_assoc_remove E st a key = Ok (a, st(a \<mapsto> ary'))"
      using found(3) a'(1) h(1) by (simp add: fth_array_assoc_remove_def assert_array_def)
    ultimately show ?thesis using fresh h(1) by (auto simp: assoc_view_def)
  next
    case absent
    then show ?thesis using assms k(2) by (simp add: fth_array_assoc_remove_def fun_upd_idem)
  qed
qed

subsection \<open>Association arrays are maps\<close>

definition assoc_put :: "obj_env \<Rightarrow> addr \<Rightarrow> store \<Rightarrow> cell \<Rightarrow> cell \<Rightarrow> store obj_result" where
  "assoc_put E a st k v = bind_outcome (fth_array_assoc_set E st a k v) (\<lambda>(_, st). Ok st)"

definition assoc_del :: "obj_env \<Rightarrow> addr \<Rightarrow> store \<Rightarrow> cell \<Rightarrow> store obj_result" where
  "assoc_del E a st k = bind_outcome (fth_array_assoc_remove E st a k) (\<lambda>(_, st). Ok st)"

interpretation am: keyed_map "assoc_view E a" "\<lambda>st. fth_array_assoc_ref E st a" "assoc_put E a" "assoc_del E a"
    "fth_hash_id E" "\<lambda>_. True" "FTH_FALSE_OBJ E" array_limit free_objects
  for E a
proof unfold_locales
  show "finite (dom m)" if "assoc_view E a st m" for st m
    using that by (auto simp: assoc_view_def assoc_map_def finite_dom_map_of)
  show "\<exists>s'. assoc_put E a st k v = Ok s' \<and> assoc_view E a s' (m(fth_hash_id E k \<mapsto> v)) \<and> free_objects s' n"
    if "assoc_view E a st m" "card (dom m) < array_limit" "free_objects st (Suc n)" for st m n k v
    using fth_array_assoc_set_view [OF that, of k v] by (auto simp: assoc_put_def)
  show "\<exists>s'. assoc_del E a st k = Ok s' \<and> assoc_view E a s' (m(fth_hash_id E k := None)) \<and> free_objects s' n"
    if "assoc_view E a st m" "free_objects st (Suc n)" for st m n k
    using fth_array_assoc_remove_view [OF that(1), of k] that(2) by (auto simp: assoc_del_def free_objects_def)
qed (rule fth_array_assoc_ref_view)

end
