(* ===== verification/Fth_Lists.thy ===== *)
theory Fth_Lists
  imports Fth_Assoc
begin

section \<open>Arrays in arrays and lists\<close>

text \<open>
  The operations of \<open>src/array.c\<close> that take another array as an argument, and the lists built on
  arrays. They work on the store of arrays, so that an argument may be the array itself.
\<close>

definition with_array :: "store \<Rightarrow> addr \<Rightarrow> (FArray \<Rightarrow> FArray array_result) \<Rightarrow> (addr \<times> store) obj_result" where
  "with_array st a f = bind_outcome (assert_array st a) (\<lambda>ary.
     bind_outcome (in_store st (f ary)) (\<lambda>ary. Ok (a, st(a \<mapsto> ary))))"

definition new_array :: "obj_env \<Rightarrow> store \<Rightarrow> FArray array_result \<Rightarrow> (addr \<times> store) obj_result" where
  "new_array E st r = bind_outcome (in_store st r) (\<lambda>ary. Ok (make_object E st ary))"

subsection \<open>Insertion\<close>

text \<open>
  The loop over the elements of \<open>v\<close> from the last one down, each read when it is its turn and
  put in front of \<open>a\<close>.
\<close>

fun unshift_loop :: "store \<Rightarrow> addr \<Rightarrow> addr \<Rightarrow> nat \<Rightarrow> (addr \<times> store) obj_result" where
  "unshift_loop st a v 0 = Ok (a, st)"
| "unshift_loop st a v (Suc n) = bind_outcome (assert_array st v) (\<lambda>ins.
     bind_outcome (in_store st (data_ref ins (int n))) (\<lambda>x.
     bind_outcome (with_array st a (\<lambda>ary. fth_array_unshift ary x)) (\<lambda>(_, st). unshift_loop st a v n)))"

text \<open>The inserted array is read after the room for it has been made, also when it is \<open>array\<close> itself.\<close>

definition insert_array :: "int \<Rightarrow> FArray \<Rightarrow> (FArray \<Rightarrow> FArray) \<Rightarrow> FArray array_result" where
  "insert_array idx ary ins =
     (let ary_len = a_length ary;
          ins_len = a_length (ins ary);
          new_buf_len = a_top ary + (ary_len + ins_len)
      in bind_outcome
           (if new_buf_len > a_buf_length ary
            then let len = NEW_SEQ_LENGTH new_buf_len
                 in if len > MAX_SEQ_LENGTH then Throw OUT_OF_RANGE else Ok (set_buf_length len ary)
            else Ok ary)
           (\<lambda>ary. bind_outcome
              (in_buf (memmove (a_data ary + idx + ins_len) (a_data ary + idx) (ary_len - idx)) ary) (\<lambda>ary.
            bind_outcome
              (in_buf (memmove_from (a_data ary + idx) (a_buf (ins ary)) (a_data (ins ary)) ins_len) ary) (\<lambda>ary.
              Ok (FTH_INSTANCE_CHANGED (ary\<lparr>a_length := a_length ary + a_length (ins ary)\<rparr>))))))"

definition fth_array_insert :: "store \<Rightarrow> addr \<Rightarrow> int \<Rightarrow> cell \<Rightarrow> (addr \<times> store) obj_result" where
  "fth_array_insert st array idx v = bind_outcome (assert_array st array) (\<lambda>ary.
     let ary_len = a_length ary;
         idx = (if idx < 0 then idx + ary_len else idx)
     in if idx = 0
        then (case st v of None \<Rightarrow> with_array st array (\<lambda>ary. fth_array_unshift ary v)
              | Some w \<Rightarrow> unshift_loop st array v (nat (a_length w)))
        else if idx < 0 \<or> idx \<ge> ary_len then Throw (OUT_OF_RANGE, st)
        else (case st v of
                None \<Rightarrow> bind_outcome (in_store st (fth_make_array_var [v])) (\<lambda>ins.
                          with_array st array (\<lambda>ary. insert_array idx ary (\<lambda>_. ins)))
              | Some w \<Rightarrow> with_array st array (\<lambda>ary.
                          insert_array idx ary (\<lambda>ary. if v = array then ary else w))))"

subsection \<open>Appending\<close>

definition append_arrays :: "FArray \<Rightarrow> FArray \<Rightarrow> FArray array_result" where
  "append_arrays array v =
     (let alen = a_length array; vlen = a_length v
      in bind_outcome (fth_make_array_len (alen + vlen)) (\<lambda>result.
         bind_outcome (copy_loop (\<lambda>x. x) (nat alen) array 0 result 0) (\<lambda>result.
           copy_loop (\<lambda>x. x) (nat vlen) v 0 result alen)))"

definition fth_array_append :: "obj_env \<Rightarrow> store \<Rightarrow> addr \<Rightarrow> cell \<Rightarrow> (addr \<times> store) obj_result" where
  "fth_array_append E st array v = bind_outcome (assert_array st array) (\<lambda>ary.
     let alen = a_length ary
     in case st v of
          None \<Rightarrow> new_array E st (bind_outcome (fth_make_array_len (alen + 1)) (\<lambda>result.
                    bind_outcome (copy_loop (\<lambda>x. x) (nat alen) ary 0 result 0) (\<lambda>result. data_set result alen v)))
        | Some w \<Rightarrow> new_array E st (append_arrays ary w))"

subsection \<open>Lists\<close>

definition FTH_LIST_SET :: "FArray \<Rightarrow> FArray" where
  "FTH_LIST_SET ary = ary\<lparr>a_type := a_type ary OR FTH_ARY_LIST\<rparr>"

text \<open>A list is created with the type of a list alone.\<close>

definition fth_make_list_var :: "cell list \<Rightarrow> FArray array_result" where
  "fth_make_list_var xs = bind_outcome (make_array (int (length xs))) (\<lambda>ary.
     bind_outcome (set_elements ary 0 xs) (\<lambda>ary. Ok (FTH_LIST_SET ary)))"

definition fth_list_length :: "obj_env \<Rightarrow> store \<Rightarrow> cell \<Rightarrow> int" where
  "fth_list_length E st obj =
     (case st obj of Some ary \<Rightarrow> a_length ary | None \<Rightarrow> if obj = FTH_NIL_OBJ E then 0 else -1)"

definition fth_cons :: "obj_env \<Rightarrow> store \<Rightarrow> cell \<Rightarrow> cell \<Rightarrow> (addr \<times> store) obj_result" where
  "fth_cons E st val lst =
     (if lst = FTH_NIL_OBJ E then new_array E st (fth_make_list_var [val])
      else if st lst \<noteq> None then with_array st lst (\<lambda>ary. fth_array_unshift ary val)
      else new_array E st (fth_make_list_var [val, lst]))"

definition fth_cons_2 :: "obj_env \<Rightarrow> store \<Rightarrow> cell \<Rightarrow> cell \<Rightarrow> cell \<Rightarrow> (addr \<times> store) obj_result" where
  "fth_cons_2 E st val1 val2 lst =
     (if lst = FTH_NIL_OBJ E then new_array E st (fth_make_list_var [val1, val2])
      else if st lst \<noteq> None
      then bind_outcome (with_array st lst (\<lambda>ary. fth_array_unshift ary val2)) (\<lambda>(lst, st).
             with_array st lst (\<lambda>ary. fth_array_unshift ary val1))
      else new_array E st (fth_make_list_var [val1, val2, lst]))"

text \<open>The functions \<open>car\<close>, \<open>cadr\<close>, \<open>caddr\<close> and \<open>cadddr\<close>, and \<open>cdr\<close> and \<open>cddr\<close>, of the two macros.\<close>

definition MAKE_CAR :: "obj_env \<Rightarrow> int \<Rightarrow> store \<Rightarrow> cell \<Rightarrow> cell obj_result" where
  "MAKE_CAR E idx st lst =
     (if fth_list_length E st lst > idx
      then bind_outcome (assert_array st lst) (\<lambda>ary. in_store st (data_ref ary idx)) else Ok (FTH_NIL_OBJ E))"

definition MAKE_CDR :: "obj_env \<Rightarrow> int \<Rightarrow> store \<Rightarrow> cell \<Rightarrow> (addr \<times> store) obj_result" where
  "MAKE_CDR E idx st lst =
     (if fth_list_length E st lst > idx
      then bind_outcome (assert_array st lst) (\<lambda>ary.
             new_array E st (bind_outcome (fth_array_subarray ary idx (-1)) (\<lambda>ls. Ok (FTH_LIST_SET ls))))
      else Ok (FTH_NIL_OBJ E, st))"

definition fth_car :: "obj_env \<Rightarrow> store \<Rightarrow> cell \<Rightarrow> cell obj_result" where
  "fth_car E = MAKE_CAR E 0"

definition fth_cdr :: "obj_env \<Rightarrow> store \<Rightarrow> cell \<Rightarrow> (addr \<times> store) obj_result" where
  "fth_cdr E = MAKE_CDR E 1"

definition fth_list_ref :: "obj_env \<Rightarrow> store \<Rightarrow> cell \<Rightarrow> int \<Rightarrow> cell obj_result" where
  "fth_list_ref E st lst idx =
     (case st lst of Some ary \<Rightarrow> in_store st (fth_array_ref ary idx) | None \<Rightarrow> Ok (FTH_NIL_OBJ E))"

definition fth_list_set :: "store \<Rightarrow> cell \<Rightarrow> int \<Rightarrow> cell \<Rightarrow> (cell \<times> store) obj_result" where
  "fth_list_set st lst idx v =
     (if st lst \<noteq> None
      then bind_outcome (with_array st lst (\<lambda>ary. fth_array_set ary idx v)) (\<lambda>(_, st). Ok (v, st)) else Ok (v, st))"

subsection \<open>Laws\<close>

lemma with_array_holds:
  assumes "st a = Some ary" and "f ary = Ok ary'"
  shows "with_array st a f = Ok (a, st(a \<mapsto> ary'))"
  using assms by (simp add: with_array_def assert_array_def)

lemma unshift_loop_holds:
  assumes "a \<noteq> v" and "st v = Some w" and "array_holds w ys" and "n \<le> length ys"
    and "st a = Some ary" and "array_holds ary xs" and "length xs + n \<le> array_limit"
  shows "\<exists>ary'. unshift_loop st a v n = Ok (a, st(a \<mapsto> ary')) \<and> array_holds ary' (take n ys @ xs)"
  using assms(2,4-7)
proof (induction n arbitrary: st ary xs)
  case 0
  then show ?case by (auto intro!: exI [of _ ary])
next
  case (Suc n)
  have r: "data_ref w (int n) = Ok (ys ! n)" using data_ref_holds_nat [OF assms(3)] Suc.prems(2) by simp
  obtain ary1 where a1: "fth_array_unshift ary (ys ! n) = Ok ary1" "array_holds ary1 (ys ! n # xs)"
    using fth_array_unshift_holds [OF Suc.prems(4)] Suc.prems(5) by fastforce
  define st1 where "st1 = st(a \<mapsto> ary1)"
  have s1: "st1 v = Some w" "st1 a = Some ary1" using Suc.prems(1) assms(1) by (auto simp: st1_def)
  have "\<exists>ary2. unshift_loop st1 a v n = Ok (a, st1(a \<mapsto> ary2)) \<and> array_holds ary2 (take n ys @ ys ! n # xs)"
    by (rule Suc.IH [OF s1(1) _ s1(2) a1(2)]) (use Suc.prems(2,5) in simp_all)
  then obtain ary2 where a2: "unshift_loop st1 a v n = Ok (a, st1(a \<mapsto> ary2))"
      "array_holds ary2 (take n ys @ ys ! n # xs)" by blast
  have "take (Suc n) ys = take n ys @ [ys ! n]" using Suc.prems(2) by (simp add: take_Suc_conv_app_nth)
  then show ?case
    using a2 r with_array_holds [where st = st and f = "\<lambda>ary. fth_array_unshift ary (ys ! n)", OF Suc.prems(3) a1(1)] Suc.prems(1)
    by (intro exI [of _ ary2]) (simp add: assert_array_def st1_def, simp add: fun_eq_iff)
qed

text \<open>The room for \<open>k\<close> elements between \<open>us\<close> and \<open>ws\<close>, and the array when \<open>ys\<close> has been put there.\<close>

definition room_made :: "FArray \<Rightarrow> cell list \<Rightarrow> cell list \<Rightarrow> nat \<Rightarrow> FArray \<Rightarrow> bool" where
  "room_made ary us ws k ary2 = (\<exists>pre post. k \<le> length post \<and>
     a_buf ary2 = pre @ map Some us @ take k (map Some ws @ post) @ map Some ws @ drop k post \<and>
     a_top ary2 = int (length pre) \<and> a_data ary2 = int (length pre) \<and> a_length ary2 = int (length (us @ ws)) \<and>
     a_buf_length ary2 = int (length (a_buf ary2)) \<and> a_buf_length ary2 \<le> MAX_SEQ_LENGTH \<and> 2 * a_top ary2 \<le> MAX_SEQ_LENGTH)"

lemma insert_make_room:
  assumes "array_holds ary (us @ ws)" and "length (us @ ws) + k \<le> array_limit"
  shows "\<exists>ary1 ary2. (if a_top ary + (a_length ary + int k) > a_buf_length ary
      then let len = NEW_SEQ_LENGTH (a_top ary + (a_length ary + int k))
           in if len > MAX_SEQ_LENGTH then Throw OUT_OF_RANGE else Ok (set_buf_length len ary)
      else Ok ary) = Ok ary1 \<and>
    in_buf (memmove (a_data ary1 + int (length us) + int k) (a_data ary1 + int (length us)) (int (length ws))) ary1 = Ok ary2 \<and>
    room_made ary us ws k ary2"
proof -
  let ?n = "a_top ary + (a_length ary + int k)"
  define ary1 where "ary1 = (if ?n > a_buf_length ary then set_buf_length (NEW_SEQ_LENGTH ?n) ary else ary)"
  have l: "a_length ary = int (length (us @ ws))" "2 * a_top ary \<le> MAX_SEQ_LENGTH"
    using assms(1) by (auto simp: array_holds_def)
  have "int (length (us @ ws)) + int k \<le> int array_limit" using assms(2) by simp
  then have fits: "NEW_SEQ_LENGTH ?n \<le> MAX_SEQ_LENGTH"
    unfolding NEW_SEQ_LENGTH_fits using l by (simp add: MAX_SEQ_LENGTH_def array_limit_def)
  have "array_holds ary1 (us @ ws)"
    using assms(1) set_buf_length_holds [OF assms(1) _ fits] NEW_SEQ_LENGTH_bounds(1) [of ?n] l by (auto simp: ary1_def)
  then obtain pre post where b: "a_buf ary1 = pre @ map Some (us @ ws) @ post" "a_top ary1 = int (length pre)"
      "a_data ary1 = int (length pre)" "a_length ary1 = int (length (us @ ws))"
      "a_buf_length ary1 = int (length pre) + int (length (us @ ws)) + int (length post)"
      "a_buf_length ary1 \<le> MAX_SEQ_LENGTH" "2 * a_top ary1 \<le> MAX_SEQ_LENGTH" by (rule array_holdsE)
  have "?n \<le> a_buf_length ary1" "a_top ary1 = a_top ary"
    using NEW_SEQ_LENGTH_bounds(1) [of ?n] by (auto simp: ary1_def)
  then have k: "k \<le> length post" using b(2,5) l(1) by simp
  let ?b = "pre @ map Some us @ take k (map Some ws @ post) @ map Some ws @ drop k post"
  have s: "nat (int (length pre) + int (length us) + int k) = length pre + length us + k"
      "nat (int (length pre) + int (length us)) = length pre + length us"
      "nat (int (length pre) + int (length us) + int k + int (length ws)) = length pre + length us + (length ws + k)"
    by simp_all
  have "memmove (a_data ary1 + int (length us) + int k) (a_data ary1 + int (length us)) (int (length ws)) (a_buf ary1) = Ok ?b"
    using b k unfolding memmove_def b(3) s by simp
  then have m: "in_buf (memmove (a_data ary1 + int (length us) + int k) (a_data ary1 + int (length us)) (int (length ws))) ary1 =
      Ok (ary1\<lparr>a_buf := ?b\<rparr>)" by (simp add: in_buf_def)
  have "room_made ary us ws k (ary1\<lparr>a_buf := ?b\<rparr>)"
    unfolding room_made_def by (intro exI [of _ pre] exI [of _ post]) (use b k in simp)
  moreover have "(if ?n > a_buf_length ary then let len = NEW_SEQ_LENGTH ?n
      in if len > MAX_SEQ_LENGTH then Throw OUT_OF_RANGE else Ok (set_buf_length len ary) else Ok ary) = Ok ary1"
    using fits by (simp add: ary1_def Let_def)
  ultimately show ?thesis using m by blast
qed

lemma insert_fill_room:
  assumes "room_made ary us ws (length ys) ary2" and "0 \<le> src"
    and "src + int (length ys) \<le> int (length from)" and "take (length ys) (drop (nat src) from) = map Some ys"
  shows "\<exists>b. in_buf (memmove_from (a_data ary2 + int (length us)) from src (int (length ys))) ary2 = Ok (ary2\<lparr>a_buf := b\<rparr>) \<and>
    array_holds (ary2\<lparr>a_buf := b, a_length := a_length ary2 + int (length ys)\<rparr>) (us @ ys @ ws)"
proof -
  obtain pre post where r: "length ys \<le> length post"
      "a_buf ary2 = pre @ map Some us @ take (length ys) (map Some ws @ post) @ map Some ws @ drop (length ys) post"
      "a_top ary2 = int (length pre)" "a_data ary2 = int (length pre)" "a_length ary2 = int (length (us @ ws))"
      "a_buf_length ary2 = int (length (a_buf ary2))" "a_buf_length ary2 \<le> MAX_SEQ_LENGTH" "2 * a_top ary2 \<le> MAX_SEQ_LENGTH"
    using assms(1) by (auto simp: room_made_def)
  let ?b = "pre @ map Some (us @ ys @ ws) @ drop (length ys) post"
  have s: "nat (int (length pre) + int (length us)) = length pre + length us"
      "nat (int (length pre) + int (length us) + int (length ys)) = length pre + length us + length ys" by simp_all
  have t: "length (take (length ys) (map Some ws @ post)) = length ys" using r(1) by simp
  have "memmove_from (a_data ary2 + int (length us)) from src (int (length ys)) (a_buf ary2) = Ok ?b"
    using assms(2-4) r(1,2,4) t unfolding memmove_from_def r(4) s by simp
  moreover have "array_holds (ary2\<lparr>a_buf := ?b, a_length := a_length ary2 + int (length ys)\<rparr>) (us @ ys @ ws)"
    by (rule array_holdsI [where pre = pre and post = "drop (length ys) post"]) (use r t in simp_all)
  ultimately show ?thesis by (auto simp: in_buf_def)
qed

lemma insert_array_holds:
  assumes "array_holds ary (us @ ws)" and "length (us @ ws) + length ys \<le> array_limit"
    and ins: "\<And>A. a_length A = a_length ary \<Longrightarrow> a_length (ins A) = int (length ys)"
    and src: "\<And>A. room_made ary us ws (length ys) A \<Longrightarrow> 0 \<le> a_data (ins A) \<and>
      a_data (ins A) + int (length ys) \<le> int (length (a_buf (ins A))) \<and>
      take (length ys) (drop (nat (a_data (ins A))) (a_buf (ins A))) = map Some ys"
  shows "\<exists>ary'. insert_array (int (length us)) ary ins = Ok ary' \<and> array_holds ary' (us @ ys @ ws)"
proof -
  obtain ary1 ary2 where r: "(if a_top ary + (a_length ary + int (length ys)) > a_buf_length ary
      then let len = NEW_SEQ_LENGTH (a_top ary + (a_length ary + int (length ys)))
           in if len > MAX_SEQ_LENGTH then Throw OUT_OF_RANGE else Ok (set_buf_length len ary)
      else Ok ary) = Ok ary1"
    "in_buf (memmove (a_data ary1 + int (length us) + int (length ys)) (a_data ary1 + int (length us)) (int (length ws))) ary1 = Ok ary2"
    "room_made ary us ws (length ys) ary2"
    using insert_make_room [OF assms(1,2)] by blast
  obtain b where f: "in_buf (memmove_from (a_data ary2 + int (length us)) (a_buf (ins ary2)) (a_data (ins ary2)) (int (length ys))) ary2 =
      Ok (ary2\<lparr>a_buf := b\<rparr>)"
      "array_holds (ary2\<lparr>a_buf := b, a_length := a_length ary2 + int (length ys)\<rparr>) (us @ ys @ ws)"
    using insert_fill_room [OF r(3)] src [OF r(3)] by blast
  have l: "a_length ary = int (length (us @ ws))" "a_length ary2 = a_length ary"
    using array_holds_length [OF assms(1)] r(3) by (auto simp: room_made_def)
  have i: "a_length (ins ary) = int (length ys)" "a_length (ins (ary2\<lparr>a_buf := b\<rparr>)) = int (length ys)"
    using ins l(2) by auto
  have e: "a_length ary - int (length us) = int (length ws)" using l(1) by simp
  have "insert_array (int (length us)) ary ins =
      Ok (FTH_INSTANCE_CHANGED (ary2\<lparr>a_buf := b, a_length := a_length ary2 + int (length ys)\<rparr>))"
    unfolding insert_array_def Let_def i(1) e r(1) [unfolded Let_def] bind_outcome.simps r(2) f(1) using i(2) by simp
  then show ?thesis using f(2) by simp
qed

lemma array_holds_source:
  assumes "array_holds w ys"
  shows "0 \<le> a_data w \<and> a_data w + int (length ys) \<le> int (length (a_buf w)) \<and>
    take (length ys) (drop (nat (a_data w)) (a_buf w)) = map Some ys"
  using assms by (auto elim!: array_holdsE)

lemma room_made_source:
  assumes "room_made ary us ws (length (us @ ws)) A"
  shows "0 \<le> a_data A \<and> a_data A + int (length (us @ ws)) \<le> int (length (a_buf A)) \<and>
    take (length (us @ ws)) (drop (nat (a_data A)) (a_buf A)) = map Some (us @ ws)"
  using assms by (auto simp: room_made_def min_def)

lemma single_array_holds: "\<exists>w. fth_make_array_var [v] = Ok w \<and> array_holds w [v]"
proof -
  obtain ary where a: "make_array (int 1) = Ok ary" "array_holds ary (replicate 1 0)"
    using make_array_holds [of 1] by (auto simp: array_limit_def)
  then show ?thesis
    using set_elements_all [OF a(2), of "[v]"] by (auto simp: fth_make_array_var_def)
qed

text \<open>The elements that a value contributes: those of an array, or itself.\<close>

definition elements_of :: "store \<Rightarrow> cell \<Rightarrow> cell list \<Rightarrow> bool" where
  "elements_of st v ys = (case st v of None \<Rightarrow> ys = [v] | Some w \<Rightarrow> array_holds w ys)"

lemma insert_at_front:
  assumes "st a = Some ary" and "array_holds ary xs" and "v \<noteq> a" and "elements_of st v ys"
    and "length xs + length ys \<le> array_limit"
  shows "\<exists>ary'. (case st v of None \<Rightarrow> with_array st a (\<lambda>ary. fth_array_unshift ary v)
      | Some w \<Rightarrow> unshift_loop st a v (nat (a_length w))) = Ok (a, st(a \<mapsto> ary')) \<and> array_holds ary' (ys @ xs)"
proof (cases "st v")
  case None
  then have ys: "ys = [v]" using assms(4) by (simp add: elements_of_def)
  obtain ary1 where a1: "fth_array_unshift ary v = Ok ary1" "array_holds ary1 (v # xs)"
    using fth_array_unshift_holds [OF assms(2), of v] assms(5) ys by auto
  then show ?thesis
    using None ys with_array_holds [where st = st and f = "\<lambda>ary. fth_array_unshift ary v", OF assms(1)] by auto
next
  case (Some w)
  then have "array_holds w ys" using assms(4) by (simp add: elements_of_def)
  then show ?thesis
    using unshift_loop_holds [where st = st, OF _ Some _ _ assms(1,2), of ys "length ys"] assms(3,5) Some
      array_holds_length [of w ys] by auto
qed

lemma fth_array_insert_holds:
  assumes "st a = Some ary" and "array_holds ary xs" and "in_range idx (length xs)"
    and "k = nat (real_index idx (length xs))" and "elements_of st v ys" and "v \<noteq> a \<or> 0 < k"
    and "length xs + length ys \<le> array_limit"
  shows "\<exists>ary'. fth_array_insert st a idx v = Ok (a, st(a \<mapsto> ary')) \<and> array_holds ary' (take k xs @ ys @ drop k xs)"
proof -
  have k: "int k = (if idx < 0 then idx + a_length ary else idx)" "k < length xs" "a_length ary = int (length xs)"
    using assms(3,4) array_holds_length [OF assms(2)] by (auto simp: in_range_def real_index_def)
  have x: "array_holds ary (take k xs @ drop k xs)" using assms(2) by simp
  show ?thesis
  proof (cases "k = 0")
    case True
    then show ?thesis
      using insert_at_front [where st = st, OF assms(1,2) _ assms(5,7)] assms(1,6) k(1)
      by (auto simp: fth_array_insert_def assert_array_def Let_def)
  next
    case False
    have lk: "length (take k xs) = k" "length (take k xs @ drop k xs) + length ys \<le> array_limit"
      using k(2) assms(7) by simp_all
    have self: "ys = xs" if "v = a"
      using that assms(1,2,5) array_holds_unique by (auto simp: elements_of_def)
    have ins: "\<exists>ary'. insert_array (int k) ary (\<lambda>A. if v = a then A else w) = Ok ary' \<and>
        array_holds ary' (take k xs @ ys @ drop k xs)" if w: "v = a \<or> array_holds w ys" for w
    proof -
      have "0 \<le> a_data (if v = a then A else w) \<and>
          a_data (if v = a then A else w) + int (length ys) \<le> int (length (a_buf (if v = a then A else w))) \<and>
          take (length ys) (drop (nat (a_data (if v = a then A else w))) (a_buf (if v = a then A else w))) = map Some ys"
        if "room_made ary (take k xs) (drop k xs) (length ys) A" for A
        using that self w room_made_source [of ary "take k xs" "drop k xs" A] array_holds_source [of w ys]
        by (cases "v = a") auto
      then show ?thesis
        using insert_array_holds [OF x lk(2), where ins = "\<lambda>A. if v = a then A else w"] self w k(3)
          array_holds_length [of w ys] lk(1) by auto
    qed
    have idx: "fth_array_insert st a idx v = (case st v of
        None \<Rightarrow> bind_outcome (in_store st (fth_make_array_var [v])) (\<lambda>ins.
          with_array st a (\<lambda>ary. insert_array (int k) ary (\<lambda>_. ins)))
      | Some w \<Rightarrow> with_array st a (\<lambda>ary. insert_array (int k) ary (\<lambda>ary. if v = a then ary else w)))"
      unfolding fth_array_insert_def assert_array_def assms(1) option.case(2) bind_outcome.simps Let_def k(1) [symmetric]
      using k(2,3) False by simp
    show ?thesis
    proof (cases "st v")
      case None
      then have v: "ys = [v]" "v \<noteq> a" using assms(1,5) by (auto simp: elements_of_def)
      obtain w where w: "fth_make_array_var [v] = Ok w" "array_holds w ys"
        using single_array_holds [of v] v(1) by auto
      then show ?thesis using ins [of w] idx None v(2) assms(1) by (auto simp: with_array_def assert_array_def)
    next
      case (Some w)
      then have "array_holds w ys" using assms(5) by (simp add: elements_of_def)
      then show ?thesis using ins [of w] idx Some assms(1) by (auto simp: with_array_def assert_array_def)
    qed
  qed
qed

text \<open>In front of itself an array is inserted while it changes, and its elements come out wrong.\<close>

lemma fth_array_insert_itself_first:
  assumes "st a = Some ary" and "array_holds ary [x, y]"
  shows "\<exists>st'. fth_array_insert st a 0 a = Ok (a, st') \<and> (\<exists>ary'. st' a = Some ary' \<and> array_holds ary' [y, y, x, y])"
proof -
  obtain ary1 where a1: "fth_array_unshift ary y = Ok ary1" "array_holds ary1 [y, x, y]"
    using fth_array_unshift_holds [OF assms(2), of y] by (auto simp: array_limit_def)
  obtain ary2 where a2: "fth_array_unshift ary1 y = Ok ary2" "array_holds ary2 [y, y, x, y]"
    using fth_array_unshift_holds [OF a1(2), of y] by (auto simp: array_limit_def)
  have r: "data_ref ary 1 = Ok y" "data_ref ary1 0 = Ok y" "a_length ary = 2"
    using data_ref_holds_nat [OF assms(2), of 1] data_ref_holds_nat [OF a1(2), of 0] array_holds_length [OF assms(2)] by simp_all
  have "unshift_loop st a a (Suc (Suc 0)) = Ok (a, st(a \<mapsto> ary2))"
    using assms(1) a1(1) a2(1) r(1,2) by (simp add: with_array_def assert_array_def)
  then show ?thesis
    using assms(1) r(3) a2(2) by (simp add: fth_array_insert_def assert_array_def Let_def numeral_2_eq_2)
qed

lemma append_arrays_holds:
  assumes "array_holds ary xs" and "array_holds w ys" and "length xs + length ys \<le> array_limit"
  shows "\<exists>res. append_arrays ary w = Ok res \<and> array_holds res (xs @ ys)"
proof -
  let ?n = "length xs + length ys"
  obtain r0 where r0: "fth_make_array_len (int ?n) = Ok r0" "array_holds r0 (replicate ?n 0)"
    using fth_make_array_len_holds [OF assms(3)] by blast
  obtain b1 where r1: "set_elements r0 0 xs = Ok (r0\<lparr>a_buf := b1\<rparr>)"
      "array_holds (r0\<lparr>a_buf := b1\<rparr>) (xs @ replicate (length ys) 0)"
    using set_elements_holds [OF r0(2), of 0 xs] by auto
  obtain b2 where r2: "set_elements (r0\<lparr>a_buf := b1\<rparr>) (int (length xs)) ys = Ok (r0\<lparr>a_buf := b1, a_buf := b2\<rparr>)"
      "array_holds (r0\<lparr>a_buf := b1, a_buf := b2\<rparr>) (xs @ ys)"
    using set_elements_holds [OF r1(2), of "length xs" ys] by auto
  show ?thesis
    using r0(1) r1(1) r2 copy_loop_elements [OF assms(1), of 0 "length xs" "\<lambda>x. x" r0 0]
      copy_loop_elements [OF assms(2), of 0 "length ys" "\<lambda>x. x" "r0\<lparr>a_buf := b1\<rparr>" "int (length xs)"]
      array_holds_length [OF assms(1)] array_holds_length [OF assms(2)]
    by (auto simp: append_arrays_def Let_def)
qed

lemma fth_array_append_holds:
  assumes "st a = Some ary" and "array_holds ary xs" and "elements_of st v ys" and "length xs + length ys \<le> array_limit"
  shows "\<exists>res. fth_array_append E st a v = Ok (make_instance E st, st(make_instance E st \<mapsto> res)) \<and>
    array_holds res (xs @ ys)"
proof (cases "st v")
  case None
  then have ys: "ys = [v]" using assms(3) by (simp add: elements_of_def)
  let ?n = "length xs"
  obtain r0 where r0: "fth_make_array_len (int (Suc ?n)) = Ok r0" "array_holds r0 (replicate (Suc ?n) 0)"
    using fth_make_array_len_holds [of "Suc ?n"] assms(4) ys by auto
  obtain b1 where r1: "set_elements r0 0 xs = Ok (r0\<lparr>a_buf := b1\<rparr>)" "array_holds (r0\<lparr>a_buf := b1\<rparr>) (xs @ [0])"
  proof -
    have "drop (length xs) (replicate (Suc ?n) (0 :: cell)) = [0]" by (simp only: drop_replicate) simp
    then show thesis using set_elements_holds [OF r0(2), of 0 xs] that by (auto simp del: replicate_Suc drop_replicate)
  qed
  obtain b2 where r2: "data_set (r0\<lparr>a_buf := b1\<rparr>) (int ?n) v = Ok (r0\<lparr>a_buf := b1, a_buf := b2\<rparr>)"
      "array_holds (r0\<lparr>a_buf := b1, a_buf := b2\<rparr>) (xs @ [v])"
    using data_set_holds [OF r1(2), of "int ?n" v] by auto
  show ?thesis
    using None assms(1) r0(1) r1(1) r2 ys copy_loop_elements [OF assms(2), of 0 ?n "\<lambda>x. x" r0 0]
      array_holds_length [OF assms(2)]
    by (auto simp: fth_array_append_def assert_array_def new_array_def make_object_def Let_def add.commute)
next
  case (Some w)
  then have w: "array_holds w ys" using assms(3) by (simp add: elements_of_def)
  show ?thesis
    using append_arrays_holds [OF assms(2) w assms(4)] Some assms(1)
    by (auto simp: fth_array_append_def assert_array_def new_array_def make_object_def Let_def)
qed

subsection \<open>Lists\<close>

text \<open>A value holds a list: the empty list as \<open>nil\<close> or any array.\<close>

definition list_holds :: "obj_env \<Rightarrow> store \<Rightarrow> cell \<Rightarrow> cell list \<Rightarrow> bool" where
  "list_holds E st l xs = (case st l of Some ary \<Rightarrow> array_holds ary xs | None \<Rightarrow> l = FTH_NIL_OBJ E \<and> xs = [])"

lemma fth_make_list_var_holds:
  assumes "length xs \<le> array_limit"
  shows "\<exists>ary. fth_make_list_var xs = Ok ary \<and> array_holds ary xs"
proof -
  obtain ary where a: "make_array (int (length xs)) = Ok ary" "array_holds ary (replicate (length xs) 0)"
    using make_array_holds [OF assms] by blast
  have "array_holds (FTH_LIST_SET A) xs = array_holds A xs" for A by (simp add: array_holds_def FTH_LIST_SET_def)
  then show ?thesis using a set_elements_all [OF a(2), of xs] by (auto simp: fth_make_list_var_def)
qed

text \<open>\<open>fth_cons\<close> extends the list that it is given; only for \<open>nil\<close> it makes a new one.\<close>

lemma fth_cons_holds:
  assumes "list_holds E st l xs" and "length xs < array_limit" and "st (FTH_NIL_OBJ E) = None"
  shows "\<exists>l' st'. fth_cons E st v l = Ok (l', st') \<and> list_holds E st' l' (v # xs) \<and>
    l' = (if l = FTH_NIL_OBJ E then make_instance E st else l)"
proof (cases "l = FTH_NIL_OBJ E")
  case True
  then have xs: "xs = []" using assms(1,3) by (simp add: list_holds_def)
  obtain ary where "fth_make_list_var [v] = Ok ary" "array_holds ary [v]"
    using fth_make_list_var_holds [of "[v]"] by (auto simp: array_limit_def)
  then show ?thesis using True xs by (simp add: fth_cons_def new_array_def make_object_def list_holds_def Let_def)
next
  case False
  then obtain ary where a: "st l = Some ary" "array_holds ary xs" using assms(1) by (auto simp: list_holds_def split: option.splits)
  obtain ary1 where "fth_array_unshift ary v = Ok ary1" "array_holds ary1 (v # xs)"
    using fth_array_unshift_holds [OF a(2) assms(2)] by blast
  then show ?thesis using False a(1) by (simp add: fth_cons_def with_array_def assert_array_def list_holds_def)
qed

lemma fth_car_holds:
  assumes "list_holds E st l xs"
  shows "fth_car E st l = Ok (if xs = [] then FTH_NIL_OBJ E else hd xs)"
proof (cases "st l")
  case None
  then show ?thesis using assms by (simp add: fth_car_def MAKE_CAR_def fth_list_length_def list_holds_def)
next
  case (Some ary)
  then have a: "array_holds ary xs" using assms by (simp add: list_holds_def)
  show ?thesis
    using Some array_holds_length [OF a] data_ref_holds_nat [OF a, of 0]
    by (auto simp: fth_car_def MAKE_CAR_def fth_list_length_def assert_array_def hd_conv_nth)
qed

text \<open>\<open>cdr\<close> copies with \<open>fth_array_subarray\<close> and is right when that is.\<close>

lemma fth_cdr_holds:
  assumes "st l = Some ary" and "array_holds ary (x # xs)" and "xs \<noteq> []" and "length xs < array_limit"
    and "sub_fits ary 1 (length xs) (length xs + 1)"
  shows "\<exists>ary'. fth_cdr E st l = Ok (make_instance E st, st(make_instance E st \<mapsto> ary')) \<and> array_holds ary' xs"
proof -
  have "in_range 1 (length (x # xs))" "1 = nat (real_index 1 (length (x # xs)))"
      "length xs = sub_end (-1) 1 (length (x # xs)) - 1"
    using assms(3) by (auto simp: in_range_def real_index_def sub_end_def Let_def)
  note fth_array_subarray_holds [OF assms(2) this(1) _ this(2,3)]
  then obtain res where "fth_array_subarray ary 1 (-1) = Ok res" "array_holds res xs"
    using assms(4,5) by auto
  moreover have "array_holds (FTH_LIST_SET A) ys = array_holds A ys" for A ys
    by (simp add: array_holds_def FTH_LIST_SET_def)
  ultimately show ?thesis
    using assms(1,3) array_holds_length [OF assms(2)]
    by (cases xs) (auto simp: fth_cdr_def MAKE_CDR_def fth_list_length_def assert_array_def new_array_def make_object_def Let_def)
qed

end
