(* ===== verification/Fth_Hash.thy ===== *)
theory Fth_Hash
  imports Fth_Lists
begin

section \<open>Hash tables\<close>

text \<open>
  The hash tables of \<open>src/hash.c\<close>: a vector of chains of items, selected by the hash code of the
  key modulo the number of chains. A chain is the list of its items from the head on; the table
  owns its items, so that no other structure shares them. As in the code an item whose key is
  null is passed over by every loop.

  The hash code (\<open>hid\<close>) and the equality (\<open>eq\<close>) of objects are functions of the object
  system and are arguments. The laws are stated for a set \<open>K\<close> of keys on which equality is an
  equivalence and equal keys have equal hash codes (\<open>key_laws\<close>). A table is then a finite map on
  the classes of equal keys, its length is the number of its keys, and \<open>fth_hash_each\<close> meets every
  key once.
\<close>

record FItem =
  i_key :: cell
  i_value :: cell

record FHash =
  h_hash_size :: int
  h_length :: int
  h_data :: "FItem list list"
  h_changed_p :: bool

definition FTH_DEFAULT_HASH_SIZE :: int where
  "FTH_DEFAULT_HASH_SIZE = 101"

text \<open>The size of a table is positive (\<open>make_hash\<close>).\<close>

definition hash_key_to_val :: "(cell \<Rightarrow> cell) \<Rightarrow> FHash \<Rightarrow> cell \<Rightarrow> nat" where
  "hash_key_to_val hid h key = unat (hid key) mod nat (h_hash_size h)"

definition FTH_HASH_DATA :: "FHash \<Rightarrow> nat \<Rightarrow> FItem list array_result" where
  "FTH_HASH_DATA h i = (if i < length (h_data h) then Ok (h_data h ! i) else Fault)"

definition make_item :: "FItem list \<Rightarrow> cell \<Rightarrow> cell \<Rightarrow> FItem list" where
  "make_item nxt key v = \<lparr>i_key = key, i_value = v\<rparr> # nxt"

definition make_hash :: "int \<Rightarrow> FHash" where
  "make_hash hashsize =
     (let hashsize = (if hashsize < 1 then FTH_DEFAULT_HASH_SIZE else hashsize)
      in \<lparr>h_hash_size = hashsize, h_length = 0, h_data = replicate (nat hashsize) [], h_changed_p = True\<rparr>)"

definition fth_make_hash_len :: "int \<Rightarrow> FHash" where
  "fth_make_hash_len hashsize = make_hash hashsize"

definition fth_make_hash :: FHash where
  "fth_make_hash = fth_make_hash_len FTH_DEFAULT_HASH_SIZE"

subsection \<open>Iteration\<close>

fun each_item :: "(cell \<Rightarrow> cell \<Rightarrow> 'd \<Rightarrow> 'd array_result) \<Rightarrow> FItem list \<Rightarrow> 'd \<Rightarrow> 'd array_result" where
  "each_item f [] d = Ok d"
| "each_item f (entry # es) d =
     (if i_key entry \<noteq> 0 then bind_outcome (f (i_key entry) (i_value entry) d) (each_item f es) else each_item f es d)"

fun each_chain :: "(cell \<Rightarrow> cell \<Rightarrow> 'd \<Rightarrow> 'd array_result) \<Rightarrow> nat \<Rightarrow> nat \<Rightarrow> FHash \<Rightarrow> 'd \<Rightarrow> 'd array_result" where
  "each_chain f 0 i h d = Ok d"
| "each_chain f (Suc n) i h d = bind_outcome (FTH_HASH_DATA h i) (\<lambda>es.
     bind_outcome (each_item f es d) (each_chain f n (Suc i) h))"

definition fth_hash_each :: "FHash \<Rightarrow> (cell \<Rightarrow> cell \<Rightarrow> 'd \<Rightarrow> 'd array_result) \<Rightarrow> 'd \<Rightarrow> 'd array_result" where
  "fth_hash_each hash f d = each_chain f (nat (h_hash_size hash)) 0 hash d"

subsection \<open>Lookup and change\<close>

fun find_item :: "(cell \<Rightarrow> cell \<Rightarrow> bool) \<Rightarrow> cell \<Rightarrow> FItem list \<Rightarrow> FItem option" where
  "find_item eq key [] = None"
| "find_item eq key (entry # es) =
     (if i_key entry \<noteq> 0 \<and> eq key (i_key entry) then Some entry else find_item eq key es)"

definition fth_hash_ref :: "(cell \<Rightarrow> cell) \<Rightarrow> (cell \<Rightarrow> cell \<Rightarrow> bool) \<Rightarrow> cell \<Rightarrow> FHash \<Rightarrow> cell \<Rightarrow> cell array_result" where
  "fth_hash_ref hid eq FTH_FALSE hash key = bind_outcome (FTH_HASH_DATA hash (hash_key_to_val hid hash key)) (\<lambda>es.
     Ok (case find_item eq key es of Some entry \<Rightarrow> i_value entry | None \<Rightarrow> FTH_FALSE))"

text \<open>The loop of \<open>fth_hash_set\<close> over a chain: the value of the first item with the key is replaced.\<close>

fun set_item :: "(cell \<Rightarrow> cell \<Rightarrow> bool) \<Rightarrow> cell \<Rightarrow> cell \<Rightarrow> FItem list \<Rightarrow> FItem list option" where
  "set_item eq key v [] = None"
| "set_item eq key v (entry # es) =
     (if i_key entry \<noteq> 0 \<and> eq key (i_key entry) then Some (entry\<lparr>i_value := v\<rparr> # es)
      else map_option ((#) entry) (set_item eq key v es))"

definition fth_hash_set :: "(cell \<Rightarrow> cell) \<Rightarrow> (cell \<Rightarrow> cell \<Rightarrow> bool) \<Rightarrow> FHash \<Rightarrow> cell \<Rightarrow> cell \<Rightarrow> FHash array_result" where
  "fth_hash_set hid eq hash key v =
     (let hval = hash_key_to_val hid hash key; hash = hash\<lparr>h_changed_p := True\<rparr>
      in bind_outcome (FTH_HASH_DATA hash hval) (\<lambda>es.
           case set_item eq key v es of
             Some es \<Rightarrow> Ok (hash\<lparr>h_data := (h_data hash)[hval := es]\<rparr>)
           | None \<Rightarrow> Ok (hash\<lparr>h_data := (h_data hash)[hval := make_item es key v], h_length := h_length hash + 1\<rparr>)))"

fun delete_item :: "(cell \<Rightarrow> cell \<Rightarrow> bool) \<Rightarrow> cell \<Rightarrow> FItem list \<Rightarrow> (FItem \<times> FItem list) option" where
  "delete_item eq key [] = None"
| "delete_item eq key (entry # es) =
     (if i_key entry \<noteq> 0 \<and> eq key (i_key entry) then Some (entry, es)
      else map_option (\<lambda>(e, es). (e, entry # es)) (delete_item eq key es))"

text \<open>The list of key and value, or \<open>None\<close> for \<open>#f\<close>.\<close>

definition fth_hash_delete :: "(cell \<Rightarrow> cell) \<Rightarrow> (cell \<Rightarrow> cell \<Rightarrow> bool) \<Rightarrow> FHash \<Rightarrow> cell \<Rightarrow> (FArray option \<times> FHash) array_result" where
  "fth_hash_delete hid eq hash key =
     (if h_length hash > 0
      then let hval = hash_key_to_val hid hash key
           in bind_outcome (FTH_HASH_DATA hash hval) (\<lambda>es.
                case delete_item eq key es of
                  Some (entry, es) \<Rightarrow> bind_outcome (fth_make_list_var [i_key entry, i_value entry]) (\<lambda>vals.
                    Ok (Some vals, hash\<lparr>h_data := (h_data hash)[hval := es], h_changed_p := True, h_length := h_length hash - 1\<rparr>))
                | None \<Rightarrow> Ok (None, hash))
      else Ok (None, hash))"

definition fth_hash_member_p :: "(cell \<Rightarrow> cell) \<Rightarrow> (cell \<Rightarrow> cell \<Rightarrow> bool) \<Rightarrow> FHash \<Rightarrow> cell \<Rightarrow> bool array_result" where
  "fth_hash_member_p hid eq hash key =
     (if h_length hash > 0
      then bind_outcome (FTH_HASH_DATA hash (hash_key_to_val hid hash key)) (\<lambda>es. Ok (find_item eq key es \<noteq> None))
      else Ok False)"

definition fth_hash_find :: "(cell \<Rightarrow> cell) \<Rightarrow> (cell \<Rightarrow> cell \<Rightarrow> bool) \<Rightarrow> FHash \<Rightarrow> cell \<Rightarrow> FArray option array_result" where
  "fth_hash_find hid eq hash key =
     (if h_length hash > 0
      then bind_outcome (FTH_HASH_DATA hash (hash_key_to_val hid hash key)) (\<lambda>es.
             case find_item eq key es of
               Some entry \<Rightarrow> bind_outcome (fth_make_list_var [i_key entry, i_value entry]) (\<lambda>l. Ok (Some l))
             | None \<Rightarrow> Ok None)
      else Ok None)"

fun clear_chains :: "nat \<Rightarrow> nat \<Rightarrow> FItem list list \<Rightarrow> FItem list list array_result" where
  "clear_chains 0 i data = Ok data"
| "clear_chains (Suc n) i data = (if i < length data then clear_chains n (Suc i) (data[i := []]) else Fault)"

definition fth_hash_clear :: "FHash \<Rightarrow> FHash array_result" where
  "fth_hash_clear hash =
     (if h_length hash > 0
      then bind_outcome (clear_chains (nat (h_hash_size hash)) 0 (h_data hash)) (\<lambda>data.
             Ok (hash\<lparr>h_data := data, h_length := 0, h_changed_p := True\<rparr>))
      else Ok hash)"

subsection \<open>Operations by iteration\<close>

definition hs_keys_each :: "cell \<Rightarrow> cell \<Rightarrow> FArray \<Rightarrow> FArray array_result" where
  "hs_keys_each key v obj = fth_array_push obj key"

definition fth_hash_keys :: "FHash \<Rightarrow> FArray array_result" where
  "fth_hash_keys hash = bind_outcome fth_make_empty_array (fth_hash_each hash hs_keys_each)"

definition hs_values_each :: "cell \<Rightarrow> cell \<Rightarrow> FArray \<Rightarrow> FArray array_result" where
  "hs_values_each key v obj = fth_array_push obj v"

definition fth_hash_values :: "FHash \<Rightarrow> FArray array_result" where
  "fth_hash_values hash = bind_outcome fth_make_empty_array (fth_hash_each hash hs_values_each)"

text \<open>The loops of \<open>fth_hash_map\<close> and \<open>hs_copy\<close> have the form of \<open>fth_hash_each\<close>.\<close>

definition fth_hash_map :: "(cell \<Rightarrow> cell) \<Rightarrow> (cell \<Rightarrow> cell \<Rightarrow> bool) \<Rightarrow> FHash \<Rightarrow> (cell \<Rightarrow> cell \<Rightarrow> cell) \<Rightarrow> FHash array_result" where
  "fth_hash_map hid eq hash f =
     each_chain (\<lambda>key v hs. fth_hash_set hid eq hs key (f key v)) (nat (h_hash_size hash)) 0 hash
       (fth_make_hash_len (h_hash_size hash))"

definition hs_copy :: "(cell \<Rightarrow> cell) \<Rightarrow> (cell \<Rightarrow> cell \<Rightarrow> bool) \<Rightarrow> (cell \<Rightarrow> cell) \<Rightarrow> FHash \<Rightarrow> FHash array_result" where
  "hs_copy hid eq object_copy self =
     (let new = fth_make_hash_len (h_hash_size self)
      in if h_length self > 0
         then each_chain (\<lambda>key v new. fth_hash_set hid eq new (object_copy key) (object_copy v))
                (nat (h_hash_size self)) 0 self new
         else Ok new)"

text \<open>
  Equality stops at the first item of \<open>self\<close> whose key is missing in \<open>obj\<close> or has another value
  there.
\<close>

definition equal_item :: "(cell \<Rightarrow> cell) \<Rightarrow> (cell \<Rightarrow> cell \<Rightarrow> bool) \<Rightarrow> FHash \<Rightarrow> cell \<Rightarrow> cell \<Rightarrow> bool array_result" where
  "equal_item hid eq obj key v = bind_outcome (fth_hash_find hid eq obj key) (\<lambda>tmp.
     case tmp of None \<Rightarrow> Ok False | Some l \<Rightarrow> bind_outcome (fth_array_ref l 1) (\<lambda>w. Ok (eq v w)))"

fun equal_items :: "(cell \<Rightarrow> cell) \<Rightarrow> (cell \<Rightarrow> cell \<Rightarrow> bool) \<Rightarrow> FHash \<Rightarrow> FItem list \<Rightarrow> bool array_result" where
  "equal_items hid eq obj [] = Ok True"
| "equal_items hid eq obj (entry # es) =
     (if i_key entry \<noteq> 0
      then bind_outcome (equal_item hid eq obj (i_key entry) (i_value entry)) (\<lambda>b.
             if b then equal_items hid eq obj es else Ok False)
      else equal_items hid eq obj es)"

fun equal_chains :: "(cell \<Rightarrow> cell) \<Rightarrow> (cell \<Rightarrow> cell \<Rightarrow> bool) \<Rightarrow> FHash \<Rightarrow> nat \<Rightarrow> nat \<Rightarrow> FHash \<Rightarrow> bool array_result" where
  "equal_chains hid eq obj 0 i self = Ok True"
| "equal_chains hid eq obj (Suc n) i self = bind_outcome (FTH_HASH_DATA self i) (\<lambda>es.
     bind_outcome (equal_items hid eq obj es) (\<lambda>b. if b then equal_chains hid eq obj n (Suc i) self else Ok False))"

definition hs_equal_p :: "(cell \<Rightarrow> cell) \<Rightarrow> (cell \<Rightarrow> cell \<Rightarrow> bool) \<Rightarrow> FHash \<Rightarrow> FHash \<Rightarrow> bool array_result" where
  "hs_equal_p hid eq self obj =
     (if h_hash_size self = h_hash_size obj \<and> h_length self = h_length obj
      then equal_chains hid eq obj (nat (h_hash_size self)) 0 self else Ok False)"

end
