(* ===== verification/Fth_Hash_Laws.thy ===== *)
theory Fth_Hash_Laws
  imports Fth_Hash
begin

section \<open>Hash tables are maps\<close>

text \<open>
  What the operations of hash tables do to the map that a table stands for, on keys that satisfy the laws
  of equality and hash codes; the interpretation of the interface of a keyed map; and what
  iteration sees.
\<close>

definition key_laws :: "cell set \<Rightarrow> (cell \<Rightarrow> cell) \<Rightarrow> (cell \<Rightarrow> cell \<Rightarrow> bool) \<Rightarrow> bool" where
  "key_laws K hid eq = (0 \<notin> K \<and> (\<forall>x\<in>K. eq x x) \<and> (\<forall>x\<in>K. \<forall>y\<in>K. eq x y \<longrightarrow> eq y x \<and> hid x = hid y) \<and>
     (\<forall>x\<in>K. \<forall>y\<in>K. \<forall>z\<in>K. eq x y \<longrightarrow> eq y z \<longrightarrow> eq x z))"

definition key_class :: "cell set \<Rightarrow> (cell \<Rightarrow> cell \<Rightarrow> bool) \<Rightarrow> cell \<Rightarrow> cell set" where
  "key_class K eq k = {x \<in> K. eq k x}"

abbreviation item_class :: "cell set \<Rightarrow> (cell \<Rightarrow> cell \<Rightarrow> bool) \<Rightarrow> FItem \<Rightarrow> cell set" where
  "item_class K eq e \<equiv> key_class K eq (i_key e)"

definition item_map :: "cell set \<Rightarrow> (cell \<Rightarrow> cell \<Rightarrow> bool) \<Rightarrow> FItem list \<Rightarrow> cell set \<rightharpoonup> cell" where
  "item_map K eq es = map_of (map (\<lambda>e. (item_class K eq e, i_value e)) es)"

definition hash_ok :: "cell set \<Rightarrow> (cell \<Rightarrow> cell) \<Rightarrow> (cell \<Rightarrow> cell \<Rightarrow> bool) \<Rightarrow> FHash \<Rightarrow> bool" where
  "hash_ok K hid eq h = (1 \<le> h_hash_size h \<and> length (h_data h) = nat (h_hash_size h) \<and>
     h_length h = int (length (concat (h_data h))) \<and>
     (\<forall>i<length (h_data h). \<forall>e\<in>set (h_data h ! i). i_key e \<in> K \<and> hash_key_to_val hid h (i_key e) = i) \<and>
     distinct (map (item_class K eq) (concat (h_data h))))"

definition hash_map_view :: "cell set \<Rightarrow> (cell \<Rightarrow> cell) \<Rightarrow> (cell \<Rightarrow> cell \<Rightarrow> bool) \<Rightarrow> FHash \<Rightarrow> (cell set \<rightharpoonup> cell) \<Rightarrow> bool" where
  "hash_map_view K hid eq h m = (key_laws K hid eq \<and> hash_ok K hid eq h \<and> m = item_map K eq (concat (h_data h)))"

lemma key_class_eq:
  assumes "key_laws K hid eq" and "x \<in> K" and "y \<in> K"
  shows "key_class K eq x = key_class K eq y \<longleftrightarrow> eq x y"
  using assms unfolding key_laws_def key_class_def by blast

lemma key_laws_hid: "key_laws K hid eq \<Longrightarrow> x \<in> K \<Longrightarrow> y \<in> K \<Longrightarrow> eq x y \<Longrightarrow> hid x = hid y"
  unfolding key_laws_def by blast

lemma item_map_append: "item_map K eq (es @ fs) = item_map K eq fs ++ item_map K eq es"
  by (simp add: item_map_def)

lemma item_map_dom: "dom (item_map K eq es) = item_class K eq ` set es"
  by (auto simp: item_map_def dom_map_of_conv_image_fst image_image)

lemma item_map_None: "c \<notin> item_class K eq ` set es \<Longrightarrow> item_map K eq es c = None"
  using item_map_dom [of K eq es] by (metis domIff)

lemma item_map_update:
  assumes "distinct (map (item_class K eq) (A @ e # C))"
  shows "item_map K eq (A @ e\<lparr>i_value := v\<rparr> # C) = (item_map K eq (A @ e # C))(item_class K eq e \<mapsto> v)"
    and "item_map K eq (A @ C) = (item_map K eq (A @ e # C))(item_class K eq e := None)"
proof -
  have none: "item_map K eq C (item_class K eq e) = None" using assms by (intro item_map_None) auto
  show "item_map K eq (A @ e\<lparr>i_value := v\<rparr> # C) = (item_map K eq (A @ e # C))(item_class K eq e \<mapsto> v)"
    using assms by (induction A) (auto simp: item_map_def fun_upd_twist)
  show "item_map K eq (A @ C) = (item_map K eq (A @ e # C))(item_class K eq e := None)"
    using assms none by (induction A) (auto simp: item_map_def fun_upd_twist fun_upd_idem)
qed

lemma item_map_at:
  assumes "distinct (map (item_class K eq) (A @ e # C))"
  shows "item_map K eq (A @ e # C) (item_class K eq e) = Some (i_value e)"
  using fun_cong [OF item_map_update(1) [OF assms, of "i_value e"], of "item_class K eq e"] by simp

lemma item_map_new:
  assumes "item_class K eq e \<notin> item_class K eq ` set (A @ C)"
  shows "item_map K eq (A @ e # C) = (item_map K eq (A @ C))(item_class K eq e \<mapsto> i_value e)"
  using assms by (induction A) (auto simp: item_map_def fun_upd_twist)

subsection \<open>Chains\<close>

lemma chain_split:
  assumes "i < length data"
  obtains A C where "concat data = A @ data ! i @ C" "\<And>b. concat (data[i := b]) = A @ b @ C"
    "A = concat (take i data)" "C = concat (drop (Suc i) data)"
proof -
  have "concat data = concat (take i data) @ data ! i @ concat (drop (Suc i) data)"
    using id_take_nth_drop [OF assms] by (metis concat.simps(2) concat_append)
  moreover have "concat (data[i := b]) = concat (take i data) @ b @ concat (drop (Suc i) data)" for b
    using assms by (simp add: upd_conv_take_nth_drop)
  ultimately show thesis using that by blast
qed

lemma find_item_split:
  "find_item eq key es = Some e \<Longrightarrow> \<exists>us ws. es = us @ e # ws \<and> i_key e \<noteq> 0 \<and> eq key (i_key e) \<and>
    (\<forall>v. set_item eq key v es = Some (us @ e\<lparr>i_value := v\<rparr> # ws)) \<and> delete_item eq key es = Some (e, us @ ws)"
proof (induction es)
  case (Cons x es)
  show ?case
  proof (cases "i_key x \<noteq> 0 \<and> eq key (i_key x)")
    case True
    then show ?thesis using Cons.prems by (intro exI [of _ "[]"] exI [of _ es]) simp
  next
    case False
    then obtain us ws where "es = us @ e # ws" "i_key e \<noteq> 0" "eq key (i_key e)"
        "\<forall>v. set_item eq key v es = Some (us @ e\<lparr>i_value := v\<rparr> # ws)" "delete_item eq key es = Some (e, us @ ws)"
      using Cons by (auto split: if_splits)
    then show ?thesis using False by (intro exI [of _ "x # us"] exI [of _ ws]) auto
  qed
qed simp

lemma find_item_None:
  "find_item eq key es = None \<Longrightarrow> set_item eq key v es = None \<and> delete_item eq key es = None \<and>
    (\<forall>e\<in>set es. i_key e = 0 \<or> \<not> eq key (i_key e))"
  by (induction es) (auto split: if_splits)

text \<open>The chain of a key, and what a search in it says of the whole table.\<close>

lemma hash_slot:
  assumes "hash_ok K hid eq h"
  shows "hash_key_to_val hid h key < length (h_data h)"
    and "FTH_HASH_DATA h (hash_key_to_val hid h key) = Ok (h_data h ! hash_key_to_val hid h key)"
proof -
  show "hash_key_to_val hid h key < length (h_data h)" using assms by (simp add: hash_ok_def hash_key_to_val_def)
  then show "FTH_HASH_DATA h (hash_key_to_val hid h key) = Ok (h_data h ! hash_key_to_val hid h key)"
    by (simp add: FTH_HASH_DATA_def)
qed

lemma hash_search:
  assumes "key_laws K hid eq" and "hash_ok K hid eq h" and "key \<in> K"
    and "i = hash_key_to_val hid h key" and "es = h_data h ! i"
  obtains (found) A us e ws C where "find_item eq key es = Some e" "es = us @ e # ws" "i_key e \<in> K"
      "concat (h_data h) = A @ us @ e # ws @ C" "\<And>b. concat ((h_data h)[i := b]) = A @ b @ C"
      "item_class K eq e = key_class K eq key"
      "\<And>v. set_item eq key v es = Some (us @ e\<lparr>i_value := v\<rparr> # ws)" "delete_item eq key es = Some (e, us @ ws)"
    | (absent) A C where "find_item eq key es = None" "\<And>v. set_item eq key v es = None" "delete_item eq key es = None"
      "concat (h_data h) = A @ es @ C" "\<And>b. concat ((h_data h)[i := b]) = A @ b @ C"
      "key_class K eq key \<notin> item_class K eq ` set (A @ es @ C)"
proof -
  have i: "i < length (h_data h)" using hash_slot(1) [OF assms(2)] assms(4) by simp
  obtain A C where s: "concat (h_data h) = A @ es @ C" "\<And>b. concat ((h_data h)[i := b]) = A @ b @ C"
    using chain_split [OF i] assms(5) by metis
  have inK: "j < length (h_data h) \<Longrightarrow> e \<in> set (h_data h ! j) \<Longrightarrow> i_key e \<in> K \<and> hash_key_to_val hid h (i_key e) = j" for j e
    using assms(2) by (simp add: hash_ok_def)
  have nz: "x \<in> K \<Longrightarrow> x \<noteq> 0" for x using assms(1) unfolding key_laws_def by blast
  show thesis
  proof (cases "find_item eq key es")
    case None
    note n = find_item_None [OF None]
    have "key_class K eq key \<noteq> item_class K eq e" if e: "e \<in> set (concat (h_data h))" for e
    proof
      assume c: "key_class K eq key = item_class K eq e"
      obtain ds where "ds \<in> set (h_data h)" "e \<in> set ds" using e by auto
      then obtain j where j: "j < length (h_data h)" "e \<in> set (h_data h ! j)" by (metis in_set_conv_nth)
      have k: "i_key e \<in> K" "hash_key_to_val hid h (i_key e) = j" using inK [OF j] by simp_all
      have "eq key (i_key e)" using c key_class_eq [OF assms(1,3) k(1)] by simp
      then have "hid key = hid (i_key e)" using key_laws_hid [OF assms(1,3) k(1)] by simp
      then have "j = i" using k(2) assms(4) by (simp add: hash_key_to_val_def)
      then show False using n j(2) assms(5) \<open>eq key (i_key e)\<close> nz [OF k(1)] by auto
    qed
    then have "key_class K eq key \<notin> item_class K eq ` set (A @ es @ C)" using s(1) by auto
    then show thesis using absent None n s find_item_None [OF None] by blast
  next
    case (Some e)
    obtain us ws where e: "es = us @ e # ws" "eq key (i_key e)"
        "\<And>v. set_item eq key v es = Some (us @ e\<lparr>i_value := v\<rparr> # ws)" "delete_item eq key es = Some (e, us @ ws)"
      using find_item_split [OF Some] by blast
    have k: "i_key e \<in> K" using inK [OF i] e(1) assms(5) by simp
    then have "item_class K eq e = key_class K eq key" using e(2) key_class_eq [OF assms(1,3) k] by simp
    then show thesis using found [OF Some e(1) k _ s(2) _ e(3,4)] s(1) e(1) by simp
  qed
qed

subsection \<open>Operations on a table\<close>

lemma hash_ok_chain:
  assumes "hash_ok K hid eq h" and "i < length (h_data h)"
    and "\<forall>e\<in>set b. i_key e \<in> K \<and> hash_key_to_val hid h (i_key e) = i"
    and "concat ((h_data h)[i := b]) = es" and "distinct (map (item_class K eq) es)"
    and "h_hash_size h' = h_hash_size h" and "h_data h' = (h_data h)[i := b]" and "h_length h' = int (length es)"
  shows "hash_ok K hid eq h'"
proof -
  have "hash_key_to_val hid h' = hash_key_to_val hid h" by (rule ext) (simp add: hash_key_to_val_def assms(6))
  then show ?thesis using assms unfolding hash_ok_def by (auto simp: nth_list_update)
qed

lemma fth_hash_ref_view:
  assumes "hash_map_view K hid eq h m" and "key \<in> K"
  shows "fth_hash_ref hid eq ff h key = Ok (case m (key_class K eq key) of Some v \<Rightarrow> v | None \<Rightarrow> ff)"
proof -
  have h: "key_laws K hid eq" "hash_ok K hid eq h" "m = item_map K eq (concat (h_data h))"
    using assms(1) by (simp_all add: hash_map_view_def)
  have d: "distinct (map (item_class K eq) (concat (h_data h)))" using h(2) by (simp add: hash_ok_def)
  from h(1,2) assms(2) refl refl show ?thesis
  proof (cases rule: hash_search)
    case (found A us e ws C)
    have "m (key_class K eq key) = Some (i_value e)"
      using d item_map_at [of K eq "A @ us" e "ws @ C"] unfolding h(3) found(4) found(6) by simp
    then show ?thesis using found(1) hash_slot(2) [OF h(2)] by (simp add: fth_hash_ref_def)
  next
    case (absent A C)
    have "m (key_class K eq key) = None" unfolding h(3) absent(4) by (rule item_map_None [OF absent(6)])
    then show ?thesis using absent(1) hash_slot(2) [OF h(2)] by (simp add: fth_hash_ref_def)
  qed
qed

lemma fth_hash_set_view:
  assumes "hash_map_view K hid eq h m" and "key \<in> K"
  shows "\<exists>h'. fth_hash_set hid eq h key v = Ok h' \<and> hash_map_view K hid eq h' (m(key_class K eq key \<mapsto> v)) \<and>
    h_changed_p h' \<and> h_hash_size h' = h_hash_size h"
proof -
  let ?i = "hash_key_to_val hid h key"
  have h: "key_laws K hid eq" "hash_ok K hid eq h" "m = item_map K eq (concat (h_data h))"
    using assms(1) by (simp_all add: hash_map_view_def)
  have d: "distinct (map (item_class K eq) (concat (h_data h)))" "h_length h = int (length (concat (h_data h)))"
      "\<forall>e\<in>set (h_data h ! ?i). i_key e \<in> K \<and> hash_key_to_val hid h (i_key e) = ?i"
    using h(2) hash_slot(1) [OF h(2), of key] by (simp_all add: hash_ok_def)
  have data: "FTH_HASH_DATA (h\<lparr>h_changed_p := True\<rparr>) ?i = Ok (h_data h ! ?i)"
    using hash_slot(1) [OF h(2), of key] by (simp add: FTH_HASH_DATA_def)
  from h(1,2) assms(2) refl refl show ?thesis
  proof (cases rule: hash_search)
    case (found A us e ws C)
    let ?b = "us @ e\<lparr>i_value := v\<rparr> # ws"
    have "hash_ok K hid eq (h\<lparr>h_changed_p := True, h_data := (h_data h)[?i := ?b]\<rparr>)"
      using d found(2-4) by (intro hash_ok_chain [OF h(2) hash_slot(1) [OF h(2)] _ refl]) (auto simp: found(5))
    moreover have "item_map K eq (concat ((h_data h)[?i := ?b])) = m(key_class K eq key \<mapsto> v)"
      using d(1) item_map_update(1) [of K eq "A @ us" e "ws @ C" v] found(6) unfolding h(3) found(4) found(5) by simp
    ultimately show ?thesis using found(7) data h(1) by (simp add: fth_hash_set_def hash_map_view_def)
  next
    case (absent A C)
    let ?b = "\<lparr>i_key = key, i_value = v\<rparr> # h_data h ! ?i"
    let ?es = "A @ ?b @ C"
    have "distinct (map (item_class K eq) ?es)" using d(1) absent(6) unfolding absent(4) by auto
    then have "hash_ok K hid eq (h\<lparr>h_changed_p := True, h_data := (h_data h)[?i := ?b], h_length := h_length h + 1\<rparr>)"
      using d assms(2) absent(4)
      by (intro hash_ok_chain [OF h(2) hash_slot(1) [OF h(2)] _ refl]) (auto simp: absent(5))
    moreover have "item_map K eq (concat ((h_data h)[?i := ?b])) = m(key_class K eq key \<mapsto> v)"
      using item_map_new [of K eq "\<lparr>i_key = key, i_value = v\<rparr>" A "h_data h ! ?i @ C"] absent(6)
      unfolding h(3) absent(4) absent(5) by simp
    ultimately show ?thesis using absent(2) data h(1) by (simp add: fth_hash_set_def hash_map_view_def make_item_def Let_def)
  qed
qed

lemma fth_hash_delete_view:
  assumes "hash_map_view K hid eq h m" and "key \<in> K"
  shows "\<exists>r h'. fth_hash_delete hid eq h key = Ok (r, h') \<and> hash_map_view K hid eq h' (m(key_class K eq key := None)) \<and>
    (case r of None \<Rightarrow> m (key_class K eq key) = None \<and> h' = h
     | Some l \<Rightarrow> \<exists>k v. array_holds l [k, v] \<and> eq key k \<and> m (key_class K eq key) = Some v)"
proof -
  let ?i = "hash_key_to_val hid h key"
  have h: "key_laws K hid eq" "hash_ok K hid eq h" "m = item_map K eq (concat (h_data h))"
    using assms(1) by (simp_all add: hash_map_view_def)
  have d: "distinct (map (item_class K eq) (concat (h_data h)))" "h_length h = int (length (concat (h_data h)))"
      "\<forall>e\<in>set (h_data h ! ?i). i_key e \<in> K \<and> hash_key_to_val hid h (i_key e) = ?i"
    using h(2) hash_slot(1) [OF h(2), of key] by (simp_all add: hash_ok_def)
  note data = hash_slot(2) [OF h(2), of key]
  from h(1,2) assms(2) refl refl show ?thesis
  proof (cases rule: hash_search)
    case (found A us e ws C)
    let ?b = "us @ ws"
    let ?h = "h\<lparr>h_data := (h_data h)[?i := ?b], h_changed_p := True, h_length := h_length h - 1\<rparr>"
    obtain l where l: "fth_make_list_var [i_key e, i_value e] = Ok l" "array_holds l [i_key e, i_value e]"
      using fth_make_list_var_holds [of "[i_key e, i_value e]"] by (auto simp: array_limit_def)
    have "hash_ok K hid eq ?h"
      using d found(2-4) by (intro hash_ok_chain [OF h(2) hash_slot(1) [OF h(2)] _ refl]) (auto simp: found(5))
    moreover have "item_map K eq (concat ((h_data h)[?i := ?b])) = m(key_class K eq key := None)"
      using d(1) item_map_update(2) [of K eq "A @ us" e "ws @ C"] found(6) unfolding h(3) found(4) found(5) by simp
    ultimately have "hash_map_view K hid eq ?h (m(key_class K eq key := None))" using h(1) by (simp add: hash_map_view_def)
    moreover have "h_length h > 0" using d(2) found(4) by simp
    moreover have "m (key_class K eq key) = Some (i_value e)"
      using d(1) item_map_at [of K eq "A @ us" e "ws @ C"] unfolding h(3) found(4) found(6) by simp
    moreover have "eq key (i_key e)" using found(6) key_class_eq [OF h(1) assms(2) found(3)] by simp
    ultimately show ?thesis
      using found(8) data l by (intro exI [of _ "Some l"] exI [of _ ?h]) (auto simp: fth_hash_delete_def)
  next
    case (absent A C)
    have "m (key_class K eq key) = None" unfolding h(3) absent(4) by (rule item_map_None [OF absent(6)])
    then show ?thesis using absent(3) data assms(1) by (simp add: fth_hash_delete_def fun_upd_idem)
  qed
qed

lemma make_hash_view:
  assumes "key_laws K hid eq"
  shows "hash_map_view K hid eq (make_hash n) Map.empty"
  using assms by (simp add: hash_map_view_def hash_ok_def make_hash_def item_map_def Let_def FTH_DEFAULT_HASH_SIZE_def)

lemma clear_chains_replicate:
  "i + n \<le> length data \<Longrightarrow> clear_chains n i data = Ok (take i data @ replicate n [] @ drop (i + n) data)"
proof (induction n arbitrary: i data)
  case (Suc n)
  then show ?case using Suc.IH [of "Suc i" "data[i := []]"] by (simp add: take_Suc_conv_app_nth replicate_app_Cons_same)
qed simp

lemma fth_hash_clear_view:
  assumes "hash_map_view K hid eq h m"
  shows "\<exists>h'. fth_hash_clear h = Ok h' \<and> hash_map_view K hid eq h' Map.empty"
proof (cases "h_length h > 0")
  case True
  have h: "1 \<le> h_hash_size h" "length (h_data h) = nat (h_hash_size h)" "key_laws K hid eq"
    using assms by (simp_all add: hash_map_view_def hash_ok_def)
  then show ?thesis
    using True clear_chains_replicate [of 0 "nat (h_hash_size h)" "h_data h"]
    by (simp add: fth_hash_clear_def hash_map_view_def hash_ok_def item_map_def)
next
  case False
  then show ?thesis using assms by (auto simp: fth_hash_clear_def hash_map_view_def hash_ok_def item_map_def)
qed

text \<open>A client sees only the table after a removal.\<close>

definition hash_remove :: "(cell \<Rightarrow> cell) \<Rightarrow> (cell \<Rightarrow> cell \<Rightarrow> bool) \<Rightarrow> FHash \<Rightarrow> cell \<Rightarrow> FHash array_result" where
  "hash_remove hid eq h k = bind_outcome (fth_hash_delete hid eq h k) (\<lambda>(_, h). Ok h)"

interpretation hs: keyed_map "hash_map_view K hid eq" "fth_hash_ref hid eq ff" "fth_hash_set hid eq" "hash_remove hid eq"
    "key_class K eq" "\<lambda>k. k \<in> K" ff limit "\<lambda>_ _. True"
  for K hid eq ff limit
proof unfold_locales
  show "finite (dom m)" if "hash_map_view K hid eq h m" for h m
    using that by (auto simp: hash_map_view_def item_map_dom)
  show "\<exists>s'. hash_remove hid eq h k = Ok s' \<and> hash_map_view K hid eq s' (m(key_class K eq k := None)) \<and> True"
    if "hash_map_view K hid eq h m" "k \<in> K" for h m k
    using fth_hash_delete_view [OF that] by (auto simp: hash_remove_def)
qed (auto dest: fth_hash_ref_view fth_hash_set_view)

subsection \<open>Iteration\<close>

lemma each_item_fold:
  "\<forall>e\<in>set es. i_key e \<noteq> 0 \<Longrightarrow> each_item f es d = fold_outcome (\<lambda>e. f (i_key e) (i_value e)) es d"
proof (induction es arbitrary: d)
  case (Cons e es)
  then have "each_item f es = fold_outcome (\<lambda>e. f (i_key e) (i_value e)) es" by (intro ext) simp
  then show ?case using Cons.prems by simp
qed simp

lemma fold_outcome_append: "fold_outcome f (xs @ ys) d = bind_outcome (fold_outcome f xs d) (fold_outcome f ys)"
proof (induction xs arbitrary: d)
  case (Cons x xs)
  then show ?case by (cases "f x d") simp_all
qed simp

lemma each_chain_fold:
  assumes "\<forall>e\<in>set (concat (h_data h)). i_key e \<noteq> 0"
  shows "i + n \<le> length (h_data h) \<Longrightarrow>
    each_chain f n i h d = fold_outcome (\<lambda>e. f (i_key e) (i_value e)) (concat (take n (drop i (h_data h)))) d"
proof (induction n arbitrary: i d)
  case (Suc n)
  have i: "i < length (h_data h)" using Suc.prems by simp
  have "\<forall>e\<in>set (h_data h ! i). i_key e \<noteq> 0" using assms nth_mem [OF i] by auto
  moreover have "each_chain f n (Suc i) h = fold_outcome (\<lambda>e. f (i_key e) (i_value e)) (concat (take n (drop (Suc i) (h_data h))))"
    using Suc by (intro ext) simp
  moreover have "take (Suc n) (drop i (h_data h)) = h_data h ! i # take n (drop (Suc i) (h_data h))"
    using i by (metis Cons_nth_drop_Suc take_Suc_Cons)
  ultimately show ?case using i by (simp add: FTH_HASH_DATA_def each_item_fold fold_outcome_append)
qed simp

lemma hash_keys_nonzero:
  assumes "hash_map_view K hid eq h m"
  shows "\<forall>e\<in>set (concat (h_data h)). i_key e \<in> K \<and> i_key e \<noteq> 0"
proof
  fix e assume "e \<in> set (concat (h_data h))"
  then obtain ds where "ds \<in> set (h_data h)" "e \<in> set ds" by auto
  then obtain i where i: "i < length (h_data h)" "e \<in> set (h_data h ! i)" by (metis in_set_conv_nth)
  have "\<forall>i<length (h_data h). \<forall>e\<in>set (h_data h ! i). i_key e \<in> K"
    using assms by (simp add: hash_map_view_def hash_ok_def)
  then have "i_key e \<in> K" using i by blast
  moreover have "0 \<notin> K" using assms unfolding hash_map_view_def key_laws_def by blast
  ultimately show "i_key e \<in> K \<and> i_key e \<noteq> 0" by metis
qed

lemma fth_hash_each_fold:
  assumes "hash_map_view K hid eq h m"
  shows "fth_hash_each h f d = fold_outcome (\<lambda>e. f (i_key e) (i_value e)) (concat (h_data h)) d"
  using each_chain_fold [of h 0 "nat (h_hash_size h)" f d] hash_keys_nonzero [OF assms] assms
  by (simp add: fth_hash_each_def hash_map_view_def hash_ok_def)

lemma hash_length_card:
  assumes "hash_map_view K hid eq h m"
  shows "h_length h = int (card (dom m))" and "length (concat (h_data h)) = card (dom m)"
proof -
  have d: "distinct (map (item_class K eq) (concat (h_data h)))" "h_length h = int (length (concat (h_data h)))"
      "m = item_map K eq (concat (h_data h))"
    using assms by (simp_all add: hash_map_view_def hash_ok_def)
  then show "length (concat (h_data h)) = card (dom m)"
    using distinct_card [OF d(1)] by (simp add: item_map_dom image_image)
  then show "h_length h = int (card (dom m))" using d(2) by simp
qed

lemma hash_entry:
  assumes "hash_map_view K hid eq h m" and "e \<in> set (concat (h_data h))"
  shows "m (item_class K eq e) = Some (i_value e)"
proof -
  obtain A C where "concat (h_data h) = A @ e # C" using split_list [OF assms(2)] by blast
  then show ?thesis
    using assms(1) item_map_at [of K eq A e C] by (simp add: hash_map_view_def hash_ok_def)
qed

lemma fold_push:
  assumes "array_holds ary us" and "length us + length es \<le> array_limit"
  shows "\<exists>ary'. fold_outcome (\<lambda>e obj. fth_array_push obj (g e)) es ary = Ok ary' \<and> array_holds ary' (us @ map g es)"
  using assms
proof (induction es arbitrary: ary us)
  case (Cons e es)
  obtain a1 where "fth_array_push ary (g e) = Ok a1" "array_holds a1 (us @ [g e])"
    using fth_array_push_holds [OF Cons.prems(1), of "g e"] Cons.prems(2) by auto
  then show ?case using Cons.IH [of a1 "us @ [g e]"] Cons.prems(2) by simp
qed auto

lemma fth_hash_keys_view:
  assumes "hash_map_view K hid eq h m" and "card (dom m) \<le> array_limit"
  shows "\<exists>ks vs. fth_hash_keys h = Ok ks \<and> fth_hash_values h = Ok vs \<and>
    array_holds ks (map i_key (concat (h_data h))) \<and> array_holds vs (map i_value (concat (h_data h)))"
proof -
  obtain e where e: "fth_make_empty_array = Ok e" "array_holds e []"
    using fth_make_array_len_holds [of 0] by (auto simp: fth_make_empty_array_def fth_make_array_len_def)
  have "length (concat (h_data h)) \<le> array_limit" using hash_length_card(2) [OF assms(1)] assms(2) by simp
  then obtain ks vs where k: "fold_outcome (\<lambda>e obj. fth_array_push obj (i_key e)) (concat (h_data h)) e = Ok ks"
      "array_holds ks (map i_key (concat (h_data h)))"
      "fold_outcome (\<lambda>e obj. fth_array_push obj (i_value e)) (concat (h_data h)) e = Ok vs"
      "array_holds vs (map i_value (concat (h_data h)))"
    using fold_push [OF e(2), of "concat (h_data h)" i_key] fold_push [OF e(2), of "concat (h_data h)" i_value] by auto
  then have "fth_hash_keys h = Ok ks" "fth_hash_values h = Ok vs"
    unfolding fth_hash_keys_def fth_hash_values_def e(1) bind_outcome.simps fth_hash_each_fold [OF assms(1)]
      hs_keys_each_def hs_values_each_def by simp_all
  then show ?thesis using k(2,4) by blast
qed

subsection \<open>Building tables from tables\<close>

lemma item_eta: "\<lparr>i_key = i_key e, i_value = i_value e\<rparr> = e"
  by (cases e) simp

lemma fold_set:
  assumes "hash_map_view K hid eq h m" and "\<forall>e\<in>set es. g e \<in> K"
  shows "\<exists>h'. fold_outcome (\<lambda>e hs. fth_hash_set hid eq hs (g e) (w e)) es h = Ok h' \<and>
    hash_map_view K hid eq h' (foldl (\<lambda>m e. m(key_class K eq (g e) \<mapsto> w e)) m es) \<and> h_hash_size h' = h_hash_size h"
  using assms
proof (induction es arbitrary: h m)
  case (Cons e es)
  obtain h1 where "fth_hash_set hid eq h (g e) (w e) = Ok h1"
      "hash_map_view K hid eq h1 (m(key_class K eq (g e) \<mapsto> w e))" "h_hash_size h1 = h_hash_size h"
    using fth_hash_set_view [OF Cons.prems(1), of "g e" "w e"] Cons.prems(2) by auto
  moreover from this(2) obtain h2 where "fold_outcome (\<lambda>e hs. fth_hash_set hid eq hs (g e) (w e)) es h1 = Ok h2"
      "hash_map_view K hid eq h2 (foldl (\<lambda>m e. m(key_class K eq (g e) \<mapsto> w e)) (m(key_class K eq (g e) \<mapsto> w e)) es)"
      "h_hash_size h2 = h_hash_size h1"
    using Cons.IH Cons.prems(2) by (meson list.set_intros(2))
  ultimately show ?case by (simp only: fold_outcome.simps bind_outcome.simps foldl.simps) blast
qed auto

lemma foldl_upd:
  assumes "distinct (map c es)"
  shows "foldl (\<lambda>m e. m(c e \<mapsto> w e)) m es = m ++ map_of (map (\<lambda>e. (c e, w e)) es)"
  using assms
proof (induction es arbitrary: m)
  case (Cons e es)
  have "map_of (map (\<lambda>e. (c e, w e)) es) (c e) = None" using Cons.prems by (force simp: map_of_eq_None_iff)
  then show ?case using Cons by (auto simp: fun_eq_iff map_add_def split: option.splits)
qed simp

text \<open>Copies and images of a table: each class of keys has the new value of its old one.\<close>

lemma build_view:
  assumes "hash_map_view K hid eq h m" and "\<forall>e\<in>set (concat (h_data h)). g e \<in> K \<and> key_class K eq (g e) = item_class K eq e"
  shows "\<exists>h' m'. each_chain (\<lambda>k v hs. fth_hash_set hid eq hs (g \<lparr>i_key = k, i_value = v\<rparr>) (w \<lparr>i_key = k, i_value = v\<rparr>))
      (nat (h_hash_size h)) 0 h (fth_make_hash_len n) = Ok h' \<and> hash_map_view K hid eq h' m' \<and> dom m' = dom m \<and>
    (\<forall>e\<in>set (concat (h_data h)). m' (item_class K eq e) = Some (w e)) \<and> h_hash_size h' = h_hash_size (fth_make_hash_len n)"
proof -
  let ?es = "concat (h_data h)"
  have l: "key_laws K hid eq" "nat (h_hash_size h) = length (h_data h)" "distinct (map (item_class K eq) ?es)"
      "m = item_map K eq ?es"
    using assms(1) by (simp_all add: hash_map_view_def hash_ok_def)
  have e: "hash_map_view K hid eq (fth_make_hash_len n) Map.empty"
    using make_hash_view [OF l(1)] by (simp add: fth_make_hash_len_def)
  let ?m = "foldl (\<lambda>m e. m(key_class K eq (g e) \<mapsto> w e)) Map.empty ?es"
  obtain h' where h': "fold_outcome (\<lambda>e hs. fth_hash_set hid eq hs (g e) (w e)) ?es (fth_make_hash_len n) = Ok h'"
      "hash_map_view K hid eq h' ?m" "h_hash_size h' = h_hash_size (fth_make_hash_len n)"
    using fold_set [OF e, of ?es g w] assms(2) by blast
  have c: "map (\<lambda>e. key_class K eq (g e)) ?es = map (item_class K eq) ?es" using assms(2) by auto
  have "?m = map_of (map (\<lambda>e. (key_class K eq (g e), w e)) ?es)"
    using foldl_upd [of "\<lambda>e. key_class K eq (g e)" ?es w Map.empty] l(3) by (simp add: c)
  also have "map (\<lambda>e. (key_class K eq (g e), w e)) ?es = map (\<lambda>e. (item_class K eq e, w e)) ?es" using assms(2) by auto
  finally have m: "?m = map_of (map (\<lambda>e. (item_class K eq e, w e)) ?es)" .
  have "?m (item_class K eq e) = Some (w e)" if "e \<in> set ?es" for e
    unfolding m using that l(3) by (intro map_of_is_SomeI) (auto simp: comp_def)
  moreover have "dom ?m = dom m" unfolding m l(4) by (simp add: item_map_dom dom_map_of_conv_image_fst image_image)
  moreover have "each_chain (\<lambda>k v hs. fth_hash_set hid eq hs (g \<lparr>i_key = k, i_value = v\<rparr>) (w \<lparr>i_key = k, i_value = v\<rparr>))
      (nat (h_hash_size h)) 0 h (fth_make_hash_len n) = Ok h'"
    using h'(1) hash_keys_nonzero [OF assms(1)] l(2)
      each_chain_fold [of h 0 "nat (h_hash_size h)" "\<lambda>k v hs. fth_hash_set hid eq hs (g \<lparr>i_key = k, i_value = v\<rparr>)
        (w \<lparr>i_key = k, i_value = v\<rparr>)" "fth_make_hash_len n"]
    by (simp add: item_eta)
  ultimately show ?thesis using h'(2,3) by blast
qed

lemma fth_hash_map_view:
  assumes "hash_map_view K hid eq h m"
  shows "\<exists>h' m'. fth_hash_map hid eq h f = Ok h' \<and> hash_map_view K hid eq h' m' \<and> dom m' = dom m \<and>
    (\<forall>e\<in>set (concat (h_data h)). m' (item_class K eq e) = Some (f (i_key e) (i_value e)))"
  using build_view [OF assms, of i_key "\<lambda>e. f (i_key e) (i_value e)" "h_hash_size h"] hash_keys_nonzero [OF assms]
  unfolding fth_hash_map_def by (simp only: FItem.simps) blast

lemma hash_dom_entry:
  assumes "hash_map_view K hid eq h m" and "c \<in> dom m"
  obtains e where "e \<in> set (concat (h_data h))" "c = item_class K eq e" "m c = Some (i_value e)"
proof -
  have "dom m = item_class K eq ` set (concat (h_data h))" using assms(1) by (simp add: hash_map_view_def item_map_dom)
  then obtain e where e: "e \<in> set (concat (h_data h))" "c = item_class K eq e" using assms(2) by blast
  then show thesis using that hash_entry [OF assms(1)] by simp
qed

lemma hs_copy_view:
  assumes "hash_map_view K hid eq h m" and "\<forall>k\<in>K. cp k \<in> K \<and> eq (cp k) k"
  shows "\<exists>h'. hs_copy hid eq cp h = Ok h' \<and> hash_map_view K hid eq h' (map_option cp \<circ> m) \<and>
    h_hash_size h' = h_hash_size h"
proof -
  have size: "h_hash_size (fth_make_hash_len (h_hash_size h)) = h_hash_size h"
    using assms(1) by (simp add: hash_map_view_def hash_ok_def fth_make_hash_len_def make_hash_def Let_def)
  show ?thesis
  proof (cases "h_length h > 0")
    case True
    have "key_laws K hid eq" using assms(1) by (simp add: hash_map_view_def)
    then have "\<forall>e\<in>set (concat (h_data h)). cp (i_key e) \<in> K \<and> key_class K eq (cp (i_key e)) = item_class K eq e"
      using assms(2) hash_keys_nonzero [OF assms(1)] by (auto simp: key_class_eq)
    from build_view [OF assms(1) this, of "\<lambda>e. cp (i_value e)" "h_hash_size h"]
    obtain h' m' where h': "hs_copy hid eq cp h = Ok h'" "hash_map_view K hid eq h' m'" "dom m' = dom m"
        "\<forall>e\<in>set (concat (h_data h)). m' (item_class K eq e) = Some (cp (i_value e))"
        "h_hash_size h' = h_hash_size h"
      using True size by (auto simp: hs_copy_def)
    have "m' = map_option cp \<circ> m"
    proof
      fix c
      show "m' c = (map_option cp \<circ> m) c"
      proof (cases "c \<in> dom m")
        case True
        then show ?thesis using hash_dom_entry [OF assms(1) True] h'(4) by (metis comp_apply option.simps(9))
      next
        case False
        then show ?thesis using h'(3) by (metis comp_apply domIff option.simps(8))
      qed
    qed
    then show ?thesis using h'(1,2,5) by blast
  next
    case False
    then have "m = Map.empty" using assms(1) by (auto simp: hash_map_view_def hash_ok_def item_map_def)
    moreover have "key_laws K hid eq" using assms(1) by (simp add: hash_map_view_def)
    ultimately show ?thesis
      using False make_hash_view size by (simp add: hs_copy_def fth_make_hash_len_def comp_def)
  qed
qed

subsection \<open>Equality\<close>

lemma fth_hash_find_view:
  assumes "hash_map_view K hid eq h m" and "key \<in> K"
  shows "\<exists>r. fth_hash_find hid eq h key = Ok r \<and>
    (case r of None \<Rightarrow> m (key_class K eq key) = None | Some l \<Rightarrow> \<exists>k v. array_holds l [k, v] \<and> m (key_class K eq key) = Some v)"
proof -
  have h: "key_laws K hid eq" "hash_ok K hid eq h" "m = item_map K eq (concat (h_data h))"
    using assms(1) by (simp_all add: hash_map_view_def)
  note data = hash_slot(2) [OF h(2), of key]
  from h(1,2) assms(2) refl refl show ?thesis
  proof (cases rule: hash_search)
    case (found A us e ws C)
    obtain l where l: "fth_make_list_var [i_key e, i_value e] = Ok l" "array_holds l [i_key e, i_value e]"
      using fth_make_list_var_holds [of "[i_key e, i_value e]"] by (auto simp: array_limit_def)
    have "h_length h > 0" using h(2) found(4) by (simp add: hash_ok_def)
    moreover have "m (key_class K eq key) = Some (i_value e)" using hash_entry [OF assms(1), of e] found(4,6) by simp
    ultimately show ?thesis using found(1) data l by (auto simp: fth_hash_find_def)
  next
    case (absent A C)
    have "m (key_class K eq key) = None" unfolding h(3) absent(4) by (rule item_map_None [OF absent(6)])
    then show ?thesis using absent(1) data by (simp add: fth_hash_find_def)
  qed
qed

definition same_value :: "(cell \<Rightarrow> cell \<Rightarrow> bool) \<Rightarrow> cell \<Rightarrow> cell option \<Rightarrow> bool" where
  "same_value eq v r = (case r of None \<Rightarrow> False | Some w \<Rightarrow> eq v w)"

lemma equal_item_view:
  assumes "hash_map_view K hid eq h m" and "key \<in> K"
  shows "equal_item hid eq h key v = Ok (same_value eq v (m (key_class K eq key)))"
proof -
  obtain r where r: "fth_hash_find hid eq h key = Ok r"
      "case r of None \<Rightarrow> m (key_class K eq key) = None | Some l \<Rightarrow> \<exists>k v. array_holds l [k, v] \<and> m (key_class K eq key) = Some v"
    using fth_hash_find_view [OF assms] by blast
  have ref: "fth_array_ref l 1 = Ok w" if "array_holds l [k, w]" for l k w
    using fth_array_ref_holds [OF that, of 1] by (simp add: in_range_def real_index_def)
  show ?thesis
    using r by (cases r) (auto simp: equal_item_def same_value_def ref)
qed

lemma equal_items_view:
  assumes "hash_map_view K hid eq h m" and "\<forall>e\<in>set es. i_key e \<in> K \<and> i_key e \<noteq> 0"
  shows "equal_items hid eq h es = Ok (\<forall>e\<in>set es. same_value eq (i_value e) (m (item_class K eq e)))"
  using assms(2) by (induction es) (auto simp: equal_item_view [OF assms(1)])

lemma equal_chains_view:
  assumes "hash_map_view K hid eq h m" and "\<forall>e\<in>set (concat (h_data g)). i_key e \<in> K \<and> i_key e \<noteq> 0"
  shows "i + n \<le> length (h_data g) \<Longrightarrow> equal_chains hid eq h n i g =
    Ok (\<forall>e\<in>set (concat (take n (drop i (h_data g)))). same_value eq (i_value e) (m (item_class K eq e)))"
proof (induction n arbitrary: i)
  case (Suc n)
  have i: "i < length (h_data g)" using Suc.prems by simp
  have "\<forall>e\<in>set (h_data g ! i). i_key e \<in> K \<and> i_key e \<noteq> 0" using assms(2) nth_mem [OF i] by auto
  note equal_items_view [OF assms(1) this]
  moreover have "take (Suc n) (drop i (h_data g)) = h_data g ! i # take n (drop (Suc i) (h_data g))"
    using i by (metis Cons_nth_drop_Suc take_Suc_Cons)
  ultimately show ?case using i Suc by (auto simp: FTH_HASH_DATA_def)
qed simp

text \<open>Two tables of the same size are equal when they have the same keys with equal values.\<close>

lemma hs_equal_p_view:
  assumes "hash_map_view K hid eq g m" and "hash_map_view K hid eq h m'"
  shows "hs_equal_p hid eq g h = Ok (h_hash_size g = h_hash_size h \<and> dom m = dom m' \<and>
    (\<forall>c\<in>dom m. eq (the (m c)) (the (m' c))))"
proof (cases "h_hash_size g = h_hash_size h \<and> h_length g = h_length h")
  case True
  have n: "nat (h_hash_size g) = length (h_data g)" using assms(1) by (simp add: hash_map_view_def hash_ok_def)
  have card: "card (dom m) = card (dom m')" using True hash_length_card(1) [OF assms(1)] hash_length_card(1) [OF assms(2)] by simp
  have dom: "dom m = item_class K eq ` set (concat (h_data g))" "finite (dom m')"
    using assms by (auto simp: hash_map_view_def item_map_dom)
  have "hs_equal_p hid eq g h = Ok (\<forall>e\<in>set (concat (h_data g)). same_value eq (i_value e) (m' (item_class K eq e)))"
    using True n equal_chains_view [OF assms(2) hash_keys_nonzero [OF assms(1)], of 0 "length (h_data g)"]
    by (simp add: hs_equal_p_def)
  moreover have "(\<forall>e\<in>set (concat (h_data g)). same_value eq (i_value e) (m' (item_class K eq e))) \<longleftrightarrow>
      (\<forall>c\<in>dom m. same_value eq (the (m c)) (m' c))"
    unfolding dom(1) using hash_entry [OF assms(1)] by simp
  moreover have "(\<forall>c\<in>dom m. same_value eq (the (m c)) (m' c)) \<longleftrightarrow> dom m = dom m' \<and> (\<forall>c\<in>dom m. eq (the (m c)) (the (m' c)))"
  proof -
    have "same_value eq (the (m c)) (m' c) \<longleftrightarrow> c \<in> dom m' \<and> eq (the (m c)) (the (m' c))" for c
      by (auto simp: same_value_def split: option.splits)
    moreover have "dom m \<subseteq> dom m' \<longleftrightarrow> dom m = dom m'" using card_subset_eq [OF dom(2)] card by auto
    ultimately show ?thesis by blast
  qed
  ultimately show ?thesis using True by simp
next
  case False
  then show ?thesis
    using hash_length_card(1) [OF assms(1)] hash_length_card(1) [OF assms(2)] by (auto simp: hs_equal_p_def)
qed

end
