(* ===== verification/Fth_Samples.thy ===== *)
theory Fth_Samples
  imports Fth_Hash_Laws
begin

section \<open>Concrete arrays\<close>

text \<open>
  Small arrays and stores on which the properties of arrays are evaluated: an array with two free
  cells on either side, a store with two arrays, and an environment whose allocator returns the
  first free address and in which a key is its own hash code.
\<close>

definition sample_array :: "cell list \<Rightarrow> FArray" where
  "sample_array xs = \<lparr>a_type = FTH_ARY_ARRAY, a_length = int (length xs), a_buf_length = int (length xs) + 4,
     a_top = 2, a_data = 2, a_buf = [None, None] @ map Some xs @ [None, None], a_changed_p = False\<rparr>"

lemma sample_array_holds: "length xs < 100 \<Longrightarrow> array_holds (sample_array xs) xs"
  by (rule array_holdsI [where pre = "[None, None]" and post = "[None, None]"])
     (simp_all add: sample_array_def MAX_SEQ_LENGTH_def)

definition sample_alloc :: "store \<Rightarrow> addr" where
  "sample_alloc st = of_nat (length (takeWhile (\<lambda>n. st (of_nat n) \<noteq> None) [0..<2 ^ 64]))"

definition sample_objects :: obj_env where
  "sample_objects = \<lparr>make_instance = sample_alloc, fth_hash_id = (\<lambda>k. k), FTH_FALSE_OBJ = 0, FTH_NIL_OBJ = 1\<rparr>"

lemma first_free:
  assumes "n < N" and "\<not> P n"
  shows "\<not> P (length (takeWhile P [0..<N]))"
proof -
  have "takeWhile P [0..<N] \<noteq> [0..<N]"
    using assms by (metis atLeastLessThan_iff set_takeWhileD set_upt zero_le)
  then have l: "length (takeWhile P [0..<N]) < N"
    using length_takeWhile_le [of P "[0..<N]"]
    by (metis diff_zero length_upt order_le_less takeWhile_eq_take take_all_iff le_refl)
  then show ?thesis using nth_length_takeWhile [of P "[0..<N]"] by simp
qed

lemma sample_alloc_fresh: "alloc_fresh sample_objects"
proof -
  have "st (sample_alloc st) = None" if "dom st \<noteq> UNIV" for st :: store
  proof -
    obtain a where "st a = None" using \<open>dom st \<noteq> UNIV\<close> by auto
    then have "\<not> st (of_nat (unat a)) \<noteq> None" by simp
    from first_free [where P = "\<lambda>n. st (of_nat n) \<noteq> None", OF unsigned_less this] show ?thesis
      by (simp only: sample_alloc_def len_of_numeral_defs not_not) simp
  qed
  then show ?thesis by (simp add: alloc_fresh_def sample_objects_def)
qed

definition sample_store :: store where
  "sample_store = [10 \<mapsto> sample_array [], 20 \<mapsto> sample_array [1, 2], 30 \<mapsto> sample_array [8, 9]]"

lemma sample_store_simps [simp]:
  "sample_store 10 = Some (sample_array [])" "sample_store 20 = Some (sample_array [1, 2])"
  "sample_store 30 = Some (sample_array [8, 9])" "sample_store 3 = None" "sample_store 1 = None" "sample_store 0 = None"
  by (simp_all add: sample_store_def)

lemma sample_assoc_view: "assoc_view sample_objects 10 sample_store Map.empty"
proof -
  have "assoc_holds sample_objects sample_store 10 []"
    using sample_array_holds [of "[]"] by (auto simp: assoc_holds_def pairs_hold_def sample_objects_def)
  then show ?thesis using sample_alloc_fresh by (auto simp: assoc_view_def assoc_map_def)
qed

lemma sample_free: "free_objects sample_store 3"
proof -
  have "dom sample_store = {10, 20, 30}" by (auto simp: sample_store_def)
  then show ?thesis by (simp add: free_objects_def)
qed

text \<open>A freshly made array of a thousand elements.\<close>

definition thousand :: FArray where
  "thousand = \<lparr>a_type = FTH_ARY_ARRAY, a_length = 1000, a_buf_length = 1408, a_top = 341, a_data = 341,
     a_buf = replicate 1408 (Some 0), a_changed_p = True\<rparr>"

lemma thousand_made: "fth_make_array_len 1000 = Ok thousand"
  by (simp add: fth_make_array_len_def make_array_def make_array_instance_def NEW_SEQ_LENGTH_def MAX_SEQ_LENGTH_def
      thousand_def Let_def FTH_ARY_ARRAY_def)

lemma thousand_holds: "array_holds thousand (replicate 1000 0)"
  using fth_make_array_len_holds [of 1000] thousand_made by (simp add: array_limit_def)

text \<open>Keys that are their own hash code and equal only to themselves.\<close>

definition sample_keys :: "cell set" where
  "sample_keys = {1, 2, 3}"

lemma sample_key_laws: "key_laws sample_keys (\<lambda>k. k) (=)"
  by (auto simp: key_laws_def sample_keys_def)

lemma sample_hash_view: "hash_map_view sample_keys (\<lambda>k. k) (=) fth_make_hash Map.empty"
  using make_hash_view [OF sample_key_laws] by (simp add: fth_make_hash_def fth_make_hash_len_def)

lemma sample_keys_in [simp]: "1 \<in> sample_keys" "2 \<in> sample_keys" "3 \<in> sample_keys"
  by (simp_all add: sample_keys_def)

lemma sample_key_class [simp]: "k \<in> sample_keys \<Longrightarrow> key_class sample_keys (=) k = {k}"
  by (auto simp: key_class_def)

text \<open>A table with one key.\<close>

lemma sample_filled:
  obtains h where "fth_hash_set (\<lambda>k. k) (=) fth_make_hash 2 20 = Ok h"
    "hash_map_view sample_keys (\<lambda>k. k) (=) h [{2} \<mapsto> 20]" "h_hash_size h = h_hash_size fth_make_hash"
  using fth_hash_set_view [OF sample_hash_view, of 2 20] by auto

end
