(* ===== verification/Fth_String_Samples.thy ===== *)
theory Fth_String_Samples
  imports Fth_String_Laws
begin

section \<open>Sample strings\<close>

text \<open>
  Strings as \<open>fth_make_string\<close> makes them, and the string that \<open>string-shift\<close> leaves when it has moved its characters.
\<close>

definition no_string :: FString where
  "no_string = \<lparr>s_length = 0, s_buf_length = 0, s_top = 0, s_data = 0, s_buf = [], s_changed_p = False\<rparr>"

definition sample_string :: "string \<Rightarrow> FString" where
  "sample_string t = (case fth_make_string (Some t) of Ok s \<Rightarrow> s | _ \<Rightarrow> no_string)"

lemma sample_string_holds: "length t \<le> str_limit \<Longrightarrow> str_holds (sample_string t) t"
  using fth_make_string_holds [of t] by (auto simp: sample_string_def)

lemma sample_string_chars: "length t \<le> str_limit \<Longrightarrow> str_chars (sample_string t) t"
  by (rule str_holds_chars [OF sample_string_holds])

text \<open>A short string is made with the first third of a buffer of 128 bytes free.\<close>

lemma sample_string_fields:
  assumes "length t \<le> 84"
  shows "s_top (sample_string t) = 42" "s_buf_length (sample_string t) = 128"
proof -
  have "NEW_SEQ_LENGTH (int (length t) + 1) = 128" "NEW_SEQ_LENGTH (int (length t) + 1 + 42) = 128"
    using assms by (simp_all add: NEW_SEQ_LENGTH_def)
  then have "make_string_len (int (length t)) = Ok \<lparr>s_length = int (length t), s_buf_length = 128, s_top = 42, s_data = 42,
      s_buf = replicate 128 (Some NUL), s_changed_p = True\<rparr>"
    using assms by (simp add: make_string_len_def Let_def MAX_SEQ_LENGTH_def)
  moreover obtain s where s: "fth_make_string (Some t) = Ok s" using fth_make_string_holds [of t] assms by (auto simp: str_limit_def)
  ultimately have "s_top s = 42 \<and> s_buf_length s = 128"
    by (auto simp: fth_make_string_def in_chars_def memmove_from_def split: if_splits)
  then show "s_top (sample_string t) = 42" "s_buf_length (sample_string t) = 128" by (simp_all add: sample_string_def s)
qed

text \<open>\<open>n\<close> calls of \<open>string-shift\<close>.\<close>

fun shift_times :: "nat \<Rightarrow> FString \<Rightarrow> FString array_result" where
  "shift_times 0 s = Ok s"
| "shift_times (Suc n) s = bind_outcome (fth_string_shift s) (\<lambda>(c, s). shift_times n s)"

end
