(* ===== verification/Fth_Object.thy ===== *)
theory Fth_Object
  imports Ficl_Vm
begin

section \<open>Instances and their collection\<close>

text \<open>
  The garbage collector of \<open>src/object.c\<close>: the table of instances, allocation, protection and the
  collection \<open>gc_run\<close> with its marking and freeing passes.

  The static variables of the file are the record \<open>fth_heap\<close>. \<open>g_insts\<close> is the memory of the
  instances; an access to an address where there is none is \<open>Fault\<close>. \<open>g_instances\<close> is the table,
  of which the first \<open>g_last_instance\<close> are in use or have been. \<open>gen\<close>, the data of an instance, is
  the list of the cells that the mark function of its type passes to \<open>fth_gc_mark\<close>: the elements
  of an array, the keys and values of a hash. \<open>g_obj_mark\<close> says for which object types there is
  such a function. The roots are in the machine: the data stack and the frames.

  \<open>fth_gc_mark\<close> recurs through the mark functions without looking at the mark. The calls that are
  still to be made are the argument of \<open>gc_mark_pending\<close>; a collection that does not end is
  \<open>None\<close>.
\<close>

record FInstance =
  i_gc_mark :: u32
  i_next :: addr
  i_gen :: "cell list"
  i_obj :: addr
  i_properties :: cell
  i_values :: cell
  i_debug_hook :: cell
  i_cycle :: int
  i_changed_p :: bool
  i_extern_p :: bool

record fth_heap =
  g_insts :: "addr \<rightharpoonup> FInstance"
  g_instances :: "addr list"
  g_last_instance :: nat
  g_free_list :: addr
  g_inst_minmem :: addr
  g_inst_maxmem :: addr
  g_obj_minmem :: addr
  g_obj_maxmem :: addr
  g_obj_mark :: "addr \<Rightarrow> bool"
  g_gc_on_p :: bool
  g_signal_caught_p :: bool

definition GC_CHUNK_SIZE :: nat where "GC_CHUNK_SIZE = 1024 * 8"
definition GC_MAX_OBJECTS :: nat where "GC_MAX_OBJECTS = GC_CHUNK_SIZE * 4"

definition GC_FREED :: u32 where "GC_FREED = 1"
definition GC_MARK :: u32 where "GC_MARK = 2"
definition GC_PROTECT :: u32 where "GC_PROTECT = 4"
definition GC_PERMANENT :: u32 where "GC_PERMANENT = 8"

definition GC_MARK_SET :: "FInstance \<Rightarrow> FInstance" where
  "GC_MARK_SET i = i\<lparr>i_gc_mark := i_gc_mark i OR GC_MARK\<rparr>"

definition GC_MARK_CLR :: "FInstance \<Rightarrow> FInstance" where
  "GC_MARK_CLR i = i\<lparr>i_gc_mark := i_gc_mark i AND NOT GC_MARK\<rparr>"

definition GC_PROTECT_SET :: "FInstance \<Rightarrow> FInstance" where
  "GC_PROTECT_SET i = i\<lparr>i_gc_mark := i_gc_mark i OR GC_PROTECT\<rparr>"

definition GC_PROTECT_CLR :: "FInstance \<Rightarrow> FInstance" where
  "GC_PROTECT_CLR i = i\<lparr>i_gc_mark := i_gc_mark i AND NOT GC_PROTECT\<rparr>"

definition GC_PERMANENT_SET :: "FInstance \<Rightarrow> FInstance" where
  "GC_PERMANENT_SET i = i\<lparr>i_gc_mark := i_gc_mark i OR GC_PERMANENT\<rparr>"

definition GC_ANY_MARK_P :: "FInstance \<Rightarrow> bool" where
  "GC_ANY_MARK_P i = (i_gc_mark i > GC_FREED)"

definition GC_MARKED_P :: "FInstance \<Rightarrow> bool" where
  "GC_MARKED_P i = (i_gc_mark i AND GC_MARK \<noteq> 0)"

definition GC_PROTECTED_P :: "FInstance \<Rightarrow> bool" where
  "GC_PROTECTED_P i = (i_gc_mark i AND GC_PROTECT \<noteq> 0)"

definition GC_PERMANENT_P :: "FInstance \<Rightarrow> bool" where
  "GC_PERMANENT_P i = (i_gc_mark i AND GC_PERMANENT \<noteq> 0)"

definition GC_FREED_P :: "FInstance \<Rightarrow> bool" where
  "GC_FREED_P i = (i_gc_mark i = GC_FREED)"

subsection \<open>Access to instances\<close>

type_synonym 'a gc_result = "(int, 'a) outcome"

definition FTH_INSTANCE_REF :: "fth_heap \<Rightarrow> addr \<Rightarrow> FInstance gc_result" where
  "FTH_INSTANCE_REF g p = (case g_insts g p of None \<Rightarrow> Fault | Some i \<Rightarrow> Ok i)"

definition set_inst :: "addr \<Rightarrow> FInstance \<Rightarrow> fth_heap \<Rightarrow> fth_heap" where
  "set_inst p i g = g\<lparr>g_insts := (g_insts g)(p \<mapsto> i)\<rparr>"

definition upd_inst :: "(FInstance \<Rightarrow> FInstance) \<Rightarrow> addr \<Rightarrow> fth_heap \<Rightarrow> fth_heap gc_result" where
  "upd_inst f p g = bind_outcome (FTH_INSTANCE_REF g p) (\<lambda>i. Ok (set_inst p (f i) g))"

definition OBJECT_TYPE_P :: "fth_heap \<Rightarrow> addr \<Rightarrow> bool" where
  "OBJECT_TYPE_P g obj = (g_obj_minmem g \<le> obj \<and> obj \<le> g_obj_maxmem g)"

definition in_inst_range :: "fth_heap \<Rightarrow> addr \<Rightarrow> bool" where
  "in_inst_range g p = (g_inst_minmem g \<le> p \<and> p \<le> g_inst_maxmem g)"

definition INSTANCE_P :: "fth_heap \<Rightarrow> addr \<Rightarrow> bool gc_result" where
  "INSTANCE_P g obj =
     (if in_inst_range g obj
      then bind_outcome (FTH_INSTANCE_REF g obj) (\<lambda>i. Ok (OBJECT_TYPE_P g (i_obj i) \<and> \<not> GC_FREED_P i))
      else Ok False)"

text \<open>Change an instance, if the cell is one.\<close>

definition if_instance :: "(FInstance \<Rightarrow> FInstance) \<Rightarrow> addr \<Rightarrow> fth_heap \<Rightarrow> fth_heap gc_result" where
  "if_instance f obj g = bind_outcome (INSTANCE_P g obj) (\<lambda>b. if b then upd_inst f obj g else Ok g)"

definition fth_gc_unmark :: "addr \<Rightarrow> fth_heap \<Rightarrow> fth_heap gc_result" where
  "fth_gc_unmark = if_instance GC_MARK_CLR"

definition fth_gc_protect :: "addr \<Rightarrow> fth_heap \<Rightarrow> fth_heap gc_result" where
  "fth_gc_protect = if_instance GC_PROTECT_SET"

definition fth_gc_unprotect :: "addr \<Rightarrow> fth_heap \<Rightarrow> fth_heap gc_result" where
  "fth_gc_unprotect = if_instance GC_PROTECT_CLR"

definition fth_gc_protect_set :: "addr \<Rightarrow> addr \<Rightarrow> fth_heap \<Rightarrow> fth_heap gc_result" where
  "fth_gc_protect_set out inn g = bind_outcome (if_instance GC_PROTECT_CLR out g) (if_instance GC_PROTECT_SET inn)"

definition fth_gc_permanent :: "addr \<Rightarrow> fth_heap \<Rightarrow> fth_heap gc_result" where
  "fth_gc_permanent = if_instance GC_PERMANENT_SET"

definition fth_gc_on :: "fth_heap \<Rightarrow> fth_heap" where
  "fth_gc_on g = g\<lparr>g_gc_on_p := True\<rparr>"

definition fth_gc_off :: "fth_heap \<Rightarrow> fth_heap" where
  "fth_gc_off g = g\<lparr>g_gc_on_p := False\<rparr>"

subsection \<open>Marking\<close>

text \<open>The calls of the mark function of an instance: none for a type without one.\<close>

definition mark_calls :: "fth_heap \<Rightarrow> FInstance \<Rightarrow> cell list" where
  "mark_calls g i = (if g_obj_mark g (i_obj i) then i_gen i else [])"

partial_function (option) gc_mark_pending :: "cell list \<Rightarrow> fth_heap \<Rightarrow> fth_heap gc_result option" where
  "gc_mark_pending cs g =
     (case cs of [] \<Rightarrow> Some (Ok g)
      | obj # cs \<Rightarrow>
          (case INSTANCE_P g obj of
             Ok b \<Rightarrow>
               if b
               then (case g_insts g obj of None \<Rightarrow> Some Fault
                     | Some i \<Rightarrow> gc_mark_pending (mark_calls g i @ cs) (set_inst obj (GC_MARK_SET i) g))
               else gc_mark_pending cs g
           | Throw e \<Rightarrow> Some (Throw e) | Fault \<Rightarrow> Some Fault))"

declare gc_mark_pending.simps [code]

definition fth_gc_mark :: "addr \<Rightarrow> fth_heap \<Rightarrow> fth_heap gc_result option" where
  "fth_gc_mark obj g = gc_mark_pending [obj] g"

text \<open>The instances on the data stack.\<close>

fun mark_stack :: "cell list \<Rightarrow> fth_heap \<Rightarrow> fth_heap gc_result" where
  "mark_stack [] g = Ok g"
| "mark_stack (c # cs) g = bind_outcome (if_instance GC_MARK_SET c g) (mark_stack cs)"

text \<open>The instances made in one frame, linked by \<open>next\<close>.\<close>

partial_function (option) mark_chain :: "addr \<Rightarrow> fth_heap \<Rightarrow> fth_heap gc_result option" where
  "mark_chain inst g =
     (if inst = NULL then Some (Ok g)
      else (case g_insts g inst of None \<Rightarrow> Some Fault
            | Some i \<Rightarrow> mark_chain (i_next i) (set_inst inst (GC_MARK_SET i) g)))"

declare mark_chain.simps [code]

fun mark_frames :: "addr list \<Rightarrow> fth_heap \<Rightarrow> fth_heap gc_result option" where
  "mark_frames [] g = Some (Ok g)"
| "mark_frames (p # ps) g = Option.bind (mark_chain p g) (\<lambda>r. case r of
     Ok g \<Rightarrow> mark_frames ps g | Throw e \<Rightarrow> Some (Throw e) | Fault \<Rightarrow> Some Fault)"

text \<open>
  The loops over the table start with \<open>i = 1\<close> and the first instance and take the next instance
  before \<open>i\<close> is counted up: the last one in use is not visited.
\<close>

definition visited :: "fth_heap \<Rightarrow> addr list" where
  "visited g = take (g_last_instance g - 1) (g_instances g)"

fun mark_elements :: "addr list \<Rightarrow> fth_heap \<Rightarrow> fth_heap gc_result option" where
  "mark_elements [] g = Some (Ok g)"
| "mark_elements (p # ps) g =
     (case g_insts g p of None \<Rightarrow> Some Fault
      | Some i \<Rightarrow>
          Option.bind (if GC_ANY_MARK_P i then gc_mark_pending (mark_calls g i) g else Some (Ok g)) (\<lambda>r. case r of
            Ok g \<Rightarrow> mark_elements ps g | Throw e \<Rightarrow> Some (Throw e) | Fault \<Rightarrow> Some Fault))"

subsection \<open>Freeing\<close>

definition OBJECT_FREE :: "addr \<Rightarrow> FInstance \<Rightarrow> fth_heap \<Rightarrow> fth_heap" where
  "OBJECT_FREE p i g =
     (set_inst p (i\<lparr>i_gc_mark := GC_FREED, i_gen := [], i_obj := NULL, i_properties := 0, i_values := 0,
                    i_next := g_free_list g\<rparr>) g)\<lparr>g_free_list := p\<rparr>"

fun free_unmarked :: "addr list \<Rightarrow> nat \<Rightarrow> fth_heap \<Rightarrow> (nat \<times> fth_heap) gc_result" where
  "free_unmarked [] freed g = Ok (freed, g)"
| "free_unmarked (p # ps) freed g =
     (case g_insts g p of None \<Rightarrow> Fault
      | Some i \<Rightarrow>
          if GC_FREED_P i then free_unmarked ps freed g
          else if GC_ANY_MARK_P i then free_unmarked ps freed (set_inst p (GC_MARK_CLR i) g)
          else free_unmarked ps (freed + 1) (OBJECT_FREE p i g))"

text \<open>\<open>NULL\<close> unless more than \<open>GC_CHUNK_SIZE\<close> instances have been freed.\<close>

definition take_free :: "fth_heap \<Rightarrow> (addr \<times> fth_heap) gc_result" where
  "take_free g = bind_outcome (FTH_INSTANCE_REF g (g_free_list g)) (\<lambda>i. Ok (g_free_list g, g\<lparr>g_free_list := i_next i\<rparr>))"

definition gc_roots :: "ficlVm \<Rightarrow> cell list" where
  "gc_roots vm = map (st_cells (vm_dataStack vm)) [0..st_top (vm_dataStack vm)]"

definition gc_frames :: "ficlVm \<Rightarrow> addr list" where
  "gc_frames vm = map (vm_gc_inst vm) [0..vm_gc_frame_level vm]"

definition gc_run :: "ficlVm \<Rightarrow> fth_heap \<Rightarrow> (addr \<times> fth_heap) gc_result option" where
  "gc_run vm g =
     (case mark_stack (gc_roots vm) g of Throw e \<Rightarrow> Some (Throw e) | Fault \<Rightarrow> Some Fault
      | Ok g \<Rightarrow> Option.bind (mark_frames (gc_frames vm) g) (\<lambda>r. case r of Throw e \<Rightarrow> Some (Throw e) | Fault \<Rightarrow> Some Fault
      | Ok g \<Rightarrow> Option.bind (mark_elements (visited g) g) (\<lambda>r. Some (bind_outcome r (\<lambda>g.
          bind_outcome (free_unmarked (visited g) 0 g) (\<lambda>(freed, g).
            if freed > GC_CHUNK_SIZE \<and> g_free_list g \<noteq> NULL then take_free g else Ok (NULL, g)))))))"

subsection \<open>Allocation\<close>

text \<open>\<open>chunk\<close> are the addresses of the instances that \<open>FTH_CALLOC\<close> returns when the table grows.\<close>

definition new_chunk :: "addr list \<Rightarrow> fth_heap \<Rightarrow> fth_heap" where
  "new_chunk chunk g =
     (let blank = \<lparr>i_gc_mark = GC_FREED, i_next = NULL, i_gen = [], i_obj = NULL, i_properties = 0, i_values = 0,
                   i_debug_hook = 0, i_cycle = 0, i_changed_p = False, i_extern_p = False\<rparr>;
          g = g\<lparr>g_instances := take (g_last_instance g) (g_instances g) @ chunk,
                g_insts := (\<lambda>p. if p \<in> set chunk then Some blank else g_insts g p)\<rparr>
      in if g_last_instance g = 0 then g\<lparr>g_inst_minmem := hd (g_instances g)\<rparr> else g)"

definition next_of_table :: "addr list \<Rightarrow> fth_heap \<Rightarrow> (addr \<times> fth_heap) gc_result" where
  "next_of_table chunk g =
     (let g = (if g_last_instance g mod GC_CHUNK_SIZE = 0 then new_chunk chunk g else g)
      in if g_last_instance g < length (g_instances g)
         then Ok (g_instances g ! g_last_instance g, g\<lparr>g_last_instance := g_last_instance g + 1\<rparr>) else Fault)"

definition reuse_instance :: "ficlVm \<Rightarrow> fth_heap \<Rightarrow> (addr \<times> fth_heap) gc_result option" where
  "reuse_instance vm g =
     (if g_last_instance g \<noteq> 0 \<and> g_last_instance g mod GC_MAX_OBJECTS = 0
      then if g_free_list g \<noteq> NULL then Some (take_free g)
           else if g_gc_on_p g \<and> \<not> g_signal_caught_p g then gc_run vm g else Some (Ok (NULL, g))
      else Some (Ok (NULL, g)))"

definition widen :: "addr \<Rightarrow> fth_heap \<Rightarrow> fth_heap" where
  "widen p g = g\<lparr>g_inst_minmem := (if g_inst_minmem g > p then p else g_inst_minmem g),
                 g_inst_maxmem := (if g_inst_maxmem g < p then p else g_inst_maxmem g)\<rparr>"

definition gc_next_instance :: "addr list \<Rightarrow> ficlVm \<Rightarrow> fth_heap \<Rightarrow> (addr \<times> fth_heap) gc_result option" where
  "gc_next_instance chunk vm g = map_option (\<lambda>r. bind_outcome r (\<lambda>(current, g).
     bind_outcome (if current = NULL then next_of_table chunk g else Ok (current, g)) (\<lambda>(current, g).
       Ok (current, widen current g)))) (reuse_instance vm g)"

text \<open>
  A new instance of the object type \<open>obj\<close>, linked into the current frame. \<open>FTH_FALSE\<close> and whether the
  type is one defined outside are arguments; without an object type an error is thrown.
\<close>

definition fth_make_instance ::
    "cell \<Rightarrow> (addr \<Rightarrow> bool) \<Rightarrow> addr list \<Rightarrow> addr \<Rightarrow> cell list \<Rightarrow> ficlVm \<Rightarrow> fth_heap \<Rightarrow> (addr \<times> ficlVm \<times> fth_heap) gc_result option" where
  "fth_make_instance FTH_FALSE extern chunk obj gen vm g =
     (if \<not> OBJECT_TYPE_P g obj then Some (Throw FICL_VM_STATUS_ERROR_EXIT)
      else map_option (\<lambda>r. bind_outcome r (\<lambda>(p, g).
        let l = vm_gc_frame_level vm
        in Ok (p, vm\<lparr>vm_gc_inst := (vm_gc_inst vm)(l := p)\<rparr>,
               set_inst p \<lparr>i_gc_mark = GC_MARK, i_next = vm_gc_inst vm l, i_gen = gen, i_obj = obj, i_properties = FTH_FALSE,
                 i_values = FTH_FALSE, i_debug_hook = FTH_FALSE, i_cycle = 0, i_changed_p = True, i_extern_p = extern obj\<rparr> g)))
        (gc_next_instance chunk vm g))"

end
