(* ===== verification/Fth_Gc.thy ===== *)
theory Fth_Gc
  imports Fth_Object
begin

section \<open>What a collection keeps and what it frees\<close>

text \<open>
  All that marking does is to set the mark of a set of instances (\<open>mark_all\<close>), so each pass is
  described by that set. The calls of \<open>fth_gc_mark\<close> reach what the references lead to
  (\<open>refs\<close>); they end when no instance leads back to itself, and do not end for an instance
  that refers to itself. A collection frees exactly the visited instances that are not live.
  Allocation keeps the table of instances in order (\<open>table_ok\<close>): an entry that is taken for a new instance
  (\<open>taken\<close>) is freed, used, and no longer on the free list, and every living instance stays as it is (\<open>keeps\<close>).
\<close>

named_theorems gc_simps \<open>marks of instances\<close>

subsection \<open>Marks\<close>

lemma mark_bits [gc_simps]:
  "\<not> GC_FREED_P (GC_MARK_SET i)" "GC_ANY_MARK_P (GC_MARK_SET i)" "\<not> GC_FREED_P i \<or> \<not> GC_ANY_MARK_P i"
  "i_gen (GC_MARK_SET i) = i_gen i" "i_obj (GC_MARK_SET i) = i_obj i" "i_next (GC_MARK_SET i) = i_next i"
  "GC_MARK_SET (GC_MARK_SET i) = GC_MARK_SET i"
proof -
  have "2 \<le> i_gc_mark i OR 2" using le_word_or1 [of 2 "i_gc_mark i"] by (simp add: or.commute)
  moreover have "(1::u32) < 2" by simp
  ultimately have "1 < i_gc_mark i OR 2" by (rule less_le_trans [rotated])
  then show "GC_ANY_MARK_P (GC_MARK_SET i)" "\<not> GC_FREED_P (GC_MARK_SET i)"
    by (auto simp: GC_ANY_MARK_P_def GC_FREED_P_def GC_MARK_SET_def GC_FREED_def GC_MARK_def)
qed (simp_all add: GC_ANY_MARK_P_def GC_FREED_P_def GC_MARK_SET_def or.assoc)

definition mark_all :: "addr set \<Rightarrow> fth_heap \<Rightarrow> fth_heap" where
  "mark_all S g = g\<lparr>g_insts := (\<lambda>p. map_option (\<lambda>i. if p \<in> S then GC_MARK_SET i else i) (g_insts g p))\<rparr>"

definition is_inst :: "fth_heap \<Rightarrow> addr \<Rightarrow> bool" where
  "is_inst g p = (in_inst_range g p \<and>
     (case g_insts g p of None \<Rightarrow> False | Some i \<Rightarrow> OBJECT_TYPE_P g (i_obj i) \<and> \<not> GC_FREED_P i))"

text \<open>A cell in the range of the instances is one.\<close>

definition cells_ok :: "fth_heap \<Rightarrow> cell list \<Rightarrow> bool" where
  "cells_ok g cs = (\<forall>c\<in>set cs. in_inst_range g c \<longrightarrow> g_insts g c \<noteq> None)"

definition heap_ok :: "fth_heap \<Rightarrow> bool" where
  "heap_ok g = (\<forall>p i. g_insts g p = Some i \<longrightarrow> cells_ok g (i_gen i))"

definition refs :: "fth_heap \<Rightarrow> (addr \<times> addr) set" where
  "refs g = {(p, c). is_inst g p \<and> c \<in> set (mark_calls g (the (g_insts g p))) \<and> is_inst g c}"

lemma is_instE:
  assumes "is_inst g c"
  obtains i where "g_insts g c = Some i" "\<not> GC_FREED_P i" "OBJECT_TYPE_P g (i_obj i)"
  using assms by (auto simp: is_inst_def split: option.splits)

lemma mark_all_fields [simp]:
  "in_inst_range (mark_all S g) = in_inst_range g" "OBJECT_TYPE_P (mark_all S g) = OBJECT_TYPE_P g"
  "mark_calls (mark_all S g) = mark_calls g" "visited (mark_all S g) = visited g"
  "g_free_list (mark_all S g) = g_free_list g" "g_instances (mark_all S g) = g_instances g"
  "g_last_instance (mark_all S g) = g_last_instance g"
  "g_insts (mark_all S g) p = map_option (\<lambda>i. if p \<in> S then GC_MARK_SET i else i) (g_insts g p)"
  by (simp_all add: mark_all_def in_inst_range_def OBJECT_TYPE_P_def mark_calls_def visited_def fun_eq_iff)

lemma mark_all_empty [simp]: "mark_all {} g = g"
proof -
  have "(\<lambda>p. map_option (\<lambda>i. i) (g_insts g p)) = g_insts g" by (simp add: option.map_ident)
  then show ?thesis by (simp add: mark_all_def)
qed

lemma mark_all_Un [simp]: "mark_all S (mark_all T g) = mark_all (T \<union> S) g"
proof -
  have "((\<lambda>i. if p \<in> S then GC_MARK_SET i else i) \<circ> (\<lambda>i. if p \<in> T then GC_MARK_SET i else i)) =
      (\<lambda>i. if p \<in> T \<union> S then GC_MARK_SET i else i)" for p
    by (auto simp: fun_eq_iff gc_simps)
  then show ?thesis by (simp add: mark_all_def option.map_comp)
qed

lemma is_inst_mark_all: "\<forall>p\<in>S. is_inst g p \<Longrightarrow> is_inst (mark_all S g) = is_inst g"
  by (auto simp: is_inst_def fun_eq_iff gc_simps split: if_splits option.splits)

lemma mark_calls_set [gc_simps]: "mark_calls g (GC_MARK_SET i) = mark_calls g i"
  by (simp add: mark_calls_def gc_simps)

lemma calls_mark_all: "is_inst g p \<Longrightarrow> mark_calls g (the (g_insts (mark_all S g) p)) = mark_calls g (the (g_insts g p))"
  by (auto simp: gc_simps elim: is_instE)

lemma refs_mark_all: "\<forall>p\<in>S. is_inst g p \<Longrightarrow> refs (mark_all S g) = refs g"
  by (auto simp: refs_def is_inst_mark_all calls_mark_all simp del: mark_all_fields(8))

lemma cells_ok_mark_all [simp]: "cells_ok (mark_all S g) cs \<longleftrightarrow> cells_ok g cs"
  by (simp add: cells_ok_def)

lemma heap_ok_mark_all [simp]: "heap_ok (mark_all S g) \<longleftrightarrow> heap_ok g"
  by (auto simp: heap_ok_def gc_simps map_option_case split: option.splits if_splits)

lemma set_inst_mark: "g_insts g p = Some i \<Longrightarrow> set_inst p (GC_MARK_SET i) g = mark_all {p} g"
proof -
  assume "g_insts g p = Some i"
  then have "(g_insts g)(p \<mapsto> GC_MARK_SET i) = (\<lambda>q. map_option (\<lambda>i. if q \<in> {p} then GC_MARK_SET i else i) (g_insts g q))"
    by (auto simp: fun_eq_iff option.map_ident)
  then show ?thesis by (simp add: set_inst_def mark_all_def)
qed

lemma INSTANCE_P_ok:
  assumes "cells_ok g [c]"
  shows "INSTANCE_P g c = Ok (is_inst g c)"
  using assms by (cases "g_insts g c") (auto simp: INSTANCE_P_def is_inst_def cells_ok_def FTH_INSTANCE_REF_def)

subsection \<open>The calls of the mark functions\<close>

abbreviation reached :: "fth_heap \<Rightarrow> addr \<Rightarrow> addr set" where
  "reached g c \<equiv> {d. is_inst g c \<and> (c, d) \<in> (refs g)\<^sup>*}"

lemma reached_inst: "is_inst g c \<Longrightarrow> (c, d) \<in> (refs g)\<^sup>* \<Longrightarrow> is_inst g d"
  by (erule rtranclE) (auto simp: refs_def)

lemma gc_mark_pending_step:
  assumes "cells_ok g (c # cs)"
  shows "gc_mark_pending (c # cs) g =
    (if is_inst g c then gc_mark_pending (mark_calls g (the (g_insts g c)) @ cs) (mark_all {c} g) else gc_mark_pending cs g)"
proof -
  have "cells_ok g [c]" using assms by (simp add: cells_ok_def)
  then have "INSTANCE_P g c = Ok (is_inst g c)" by (rule INSTANCE_P_ok)
  then show ?thesis
    by (subst gc_mark_pending.simps) (auto simp: set_inst_mark elim: is_instE)
qed

lemma reached_step:
  assumes "is_inst g c"
  shows "reached g c = {c} \<union> (\<Union>d\<in>set (mark_calls g (the (g_insts g c))). reached g d)"
proof -
  have "(c, d) \<in> refs g \<longleftrightarrow> d \<in> set (mark_calls g (the (g_insts g c))) \<and> is_inst g d" for d
    using assms by (auto simp: refs_def elim: is_instE)
  then show ?thesis using assms by (auto elim: converse_rtranclE intro: converse_rtrancl_into_rtrancl)
qed

lemma gc_mark_pending_one:
  assumes "wf ((refs g)\<inverse>)" and "heap_ok g" and "cells_ok g [c]"
  shows "\<forall>p\<in>S. is_inst g p \<Longrightarrow> cells_ok g cs \<Longrightarrow>
    gc_mark_pending (c # cs) (mark_all S g) = gc_mark_pending cs (mark_all (S \<union> reached g c) g)"
  using assms(1,3)
proof (induction c arbitrary: S cs rule: wf_induct_rule)
  case (less c)
  note S = less.prems(1) and ok = less.prems(2,3)
  have step: "gc_mark_pending (c # cs) (mark_all S g) =
      (if is_inst g c then gc_mark_pending (mark_calls g (the (g_insts g c)) @ cs) (mark_all (S \<union> {c}) g)
       else gc_mark_pending cs (mark_all S g))"
    using gc_mark_pending_step [of "mark_all S g" c cs] ok S
    by (auto simp: cells_ok_def is_inst_mark_all gc_simps elim!: is_instE)
  show ?case
  proof (cases "is_inst g c")
    case True
    then obtain i where i: "g_insts g c = Some i" by (rule is_instE)
    have calls: "gc_mark_pending (ds @ cs) (mark_all T g) = gc_mark_pending cs (mark_all (T \<union> (\<Union>d\<in>set ds. reached g d)) g)"
      if "set ds \<subseteq> set (mark_calls g i)" "\<forall>p\<in>T. is_inst g p" for ds T
      using that
    proof (induction ds arbitrary: T)
      case (Cons d ds)
      have d: "cells_ok g [d]" "cells_ok g (ds @ cs)"
        using assms(2) i Cons.prems(1) ok(1) by (auto simp: heap_ok_def cells_ok_def mark_calls_def split: if_splits)
      have T: "\<forall>p\<in>T \<union> reached g d. is_inst g p" using Cons.prems(2) reached_inst by auto
      have "gc_mark_pending (d # ds @ cs) (mark_all T g) = gc_mark_pending (ds @ cs) (mark_all (T \<union> reached g d) g)"
      proof (cases "is_inst g d")
        case inst: True
        then have "(d, c) \<in> (refs g)\<inverse>" using True i Cons.prems(1) by (auto simp: refs_def)
        from less.IH [OF this Cons.prems(2) d(2,1)] show ?thesis .
      next
        case False
        then show ?thesis using gc_mark_pending_step [of "mark_all T g" d "ds @ cs"] d Cons.prems(2)
          by (auto simp: cells_ok_def is_inst_mark_all)
      qed
      then show ?case using Cons.IH [OF _ T] Cons.prems(1) by (simp add: Un_assoc)
    qed simp
    have "\<forall>p\<in>S \<union> {c}. is_inst g p" using S True by simp
    from calls [OF subset_refl this] show ?thesis
      using step True i reached_step [OF True] by (simp add: Un_assoc)
  qed (use step in simp)
qed

lemma gc_mark_pending_all:
  assumes "wf ((refs g)\<inverse>)" and "heap_ok g" and "\<forall>p\<in>S. is_inst g p" and "cells_ok g cs"
  shows "gc_mark_pending cs (mark_all S g) = Some (Ok (mark_all (S \<union> (\<Union>c\<in>set cs. reached g c)) g))"
  using assms(3,4)
proof (induction cs arbitrary: S)
  case Nil
  then show ?case by (subst gc_mark_pending.simps) simp
next
  case (Cons c cs)
  have ok: "cells_ok g [c]" "cells_ok g cs" using Cons.prems(2) by (simp_all add: cells_ok_def)
  have "\<forall>p\<in>S \<union> reached g c. is_inst g p" using Cons.prems(1) reached_inst by auto
  from Cons.IH [OF this ok(2)] show ?case
    using gc_mark_pending_one [OF assms(1,2) ok(1) Cons.prems(1) ok(2)] by (simp add: Un_assoc)
qed

text \<open>An instance that refers to itself: the calls never end.\<close>

lemma gc_mark_pending_loop:
  assumes "gc_mark_pending cs g = Some r" and "(p, p) \<in> refs g" and "heap_ok g" and "cells_ok g cs"
  shows "p \<notin> set cs"
  using assms(2-4)
proof (induction cs g r rule: gc_mark_pending.raw_induct)
  case (1 f cs g r)
  show ?case
  proof (cases cs)
    case (Cons c ds)
    have ok: "cells_ok g [c]" "cells_ok g ds" using 1(5) Cons by (simp_all add: cells_ok_def)
    show ?thesis
    proof (cases "is_inst g c")
      case True
      then obtain i where i: "g_insts g c = Some i" by (rule is_instE)
      have f: "f (mark_calls g i @ ds) (mark_all {c} g) = Some r"
        using 1(2) Cons True i INSTANCE_P_ok [OF ok(1)] by (simp add: set_inst_mark)
      have "(p, p) \<in> refs (mark_all {c} g)" using 1(3) True by (subst refs_mark_all) simp_all
      moreover have "cells_ok (mark_all {c} g) (mark_calls g i @ ds)"
        using 1(4) i ok(2) by (auto simp: heap_ok_def cells_ok_def mark_calls_def)
      ultimately have p: "p \<notin> set (mark_calls g i @ ds)" using 1(1) [OF f] 1(4) by simp
      then have "p \<noteq> c" using 1(3) i by (auto simp: refs_def)
      with p Cons show ?thesis by simp
    next
      case False
      then have "f ds g = Some r" using 1(2) Cons INSTANCE_P_ok [OF ok(1)] by simp
      then show ?thesis using 1(1) [OF _ 1(3,4) ok(2)] 1(3) False Cons by (auto simp: refs_def)
    qed
  qed simp
qed (rule assms(1))

lemma fth_gc_mark_loop:
  assumes "(p, p) \<in> refs g" and "heap_ok g"
  shows "fth_gc_mark p g = None"
proof (rule ccontr)
  assume "fth_gc_mark p g \<noteq> None"
  then obtain r where "gc_mark_pending [p] g = Some r" by (auto simp: fth_gc_mark_def)
  moreover have "cells_ok g [p]" using assms(1) by (auto simp: refs_def cells_ok_def elim: is_instE)
  ultimately show False using gc_mark_pending_loop [OF _ assms] by force
qed

subsection \<open>The stack, the frames and the table\<close>

lemma if_instance_mark:
  assumes "cells_ok g [c]"
  shows "if_instance GC_MARK_SET c g = Ok (mark_all {p. p = c \<and> is_inst g c} g)"
proof (cases "is_inst g c")
  case True
  then obtain i where "g_insts g c = Some i" by (rule is_instE)
  then show ?thesis
    using assms True by (simp add: if_instance_def INSTANCE_P_ok upd_inst_def FTH_INSTANCE_REF_def set_inst_mark)
qed (use assms in \<open>simp add: if_instance_def INSTANCE_P_ok\<close>)

lemma mark_stack_marks:
  assumes "\<forall>p\<in>S. is_inst g p" and "cells_ok g cs"
  shows "mark_stack cs (mark_all S g) = Ok (mark_all (S \<union> {c \<in> set cs. is_inst g c}) g)"
  using assms
proof (induction cs arbitrary: S)
  case (Cons c cs)
  have ok: "cells_ok g [c]" "cells_ok g cs" using Cons.prems(2) by (simp_all add: cells_ok_def)
  let ?T = "S \<union> {p. p = c \<and> is_inst g c}"
  have "if_instance GC_MARK_SET c (mark_all S g) = Ok (mark_all ?T g)"
    using if_instance_mark [of "mark_all S g" c] ok(1) Cons.prems(1) by (simp add: is_inst_mark_all)
  moreover have "\<forall>p\<in>?T. is_inst g p" using Cons.prems(1) by auto
  note Cons.IH [OF this ok(2)]
  moreover have "?T \<union> {d \<in> set cs. is_inst g d} = S \<union> {d \<in> set (c # cs). is_inst g d}" by auto
  ultimately show ?case by (simp only: mark_stack.simps bind_outcome.simps)
qed simp

text \<open>The instances linked from an address on.\<close>

fun inst_chain :: "fth_heap \<Rightarrow> addr \<Rightarrow> addr list \<Rightarrow> bool" where
  "inst_chain g p [] = (p = NULL)"
| "inst_chain g p (q # qs) = (p = q \<and> q \<noteq> NULL \<and>
     (case g_insts g q of None \<Rightarrow> False | Some i \<Rightarrow> inst_chain g (i_next i) qs))"

lemma mark_chain_marks: "inst_chain g p qs \<Longrightarrow> mark_chain p (mark_all S g) = Some (Ok (mark_all (S \<union> set qs) g))"
proof (induction qs arbitrary: p S)
  case Nil
  then show ?case by (subst mark_chain.simps) simp
next
  case (Cons q qs)
  then obtain i where i: "p = q" "q \<noteq> NULL" "g_insts g q = Some i" "inst_chain g (i_next i) qs"
    by (auto split: option.splits)
  obtain j where j: "g_insts (mark_all S g) q = Some j" "i_next j = i_next i"
    using i(3) by (auto simp: gc_simps)
  have "mark_chain p (mark_all S g) = mark_chain (i_next i) (set_inst q (GC_MARK_SET j) (mark_all S g))"
    unfolding i(1) mark_chain.simps [of q "mark_all S g"] j using i(2) j(2) by simp
  also have "set_inst q (GC_MARK_SET j) (mark_all S g) = mark_all (S \<union> {q}) g"
    using set_inst_mark [OF j(1)] by simp
  finally have "mark_chain p (mark_all S g) = mark_chain (i_next i) (mark_all (S \<union> {q}) g)" .
  then show ?case using Cons.IH [OF i(4), of "S \<union> {q}"] by simp
qed

definition frame_insts :: "fth_heap \<Rightarrow> addr list \<Rightarrow> addr set" where
  "frame_insts g ps = {q. \<exists>p\<in>set ps. \<exists>qs. inst_chain g p qs \<and> q \<in> set qs}"

lemma inst_chain_unique: "inst_chain g p qs \<Longrightarrow> inst_chain g p rs \<Longrightarrow> qs = rs"
proof (induction qs arbitrary: p rs)
  case Nil
  then show ?case by (cases rs) auto
next
  case (Cons q qs)
  then show ?case by (cases rs) (auto split: option.splits)
qed

lemma mark_frames_marks:
  assumes "\<forall>p\<in>set ps. \<exists>qs. inst_chain g p qs"
  shows "mark_frames ps (mark_all S g) = Some (Ok (mark_all (S \<union> frame_insts g ps) g))"
  using assms
proof (induction ps arbitrary: S)
  case (Cons p ps)
  then obtain qs where q: "inst_chain g p qs" by auto
  have "frame_insts g (p # ps) = set qs \<union> frame_insts g ps"
    using q by (auto simp: frame_insts_def dest: inst_chain_unique)
  then show ?case using Cons mark_chain_marks [OF q, of S] by (simp add: Un_assoc)
qed (simp add: frame_insts_def)

definition any_marked :: "fth_heap \<Rightarrow> addr set" where
  "any_marked g = {p. \<exists>i. g_insts g p = Some i \<and> GC_ANY_MARK_P i}"

definition entries_ok :: "fth_heap \<Rightarrow> addr list \<Rightarrow> bool" where
  "entries_ok g ps = (\<forall>p\<in>set ps. case g_insts g p of None \<Rightarrow> False
     | Some i \<Rightarrow> p \<noteq> NULL \<and> (GC_FREED_P i \<or> is_inst g p \<and> \<not> bit (i_gc_mark i) 0))"

lemma calls_reached:
  assumes "is_inst g v"
  shows "(\<Union>c\<in>set (mark_calls g (the (g_insts g v))). reached g c) = (refs g)\<^sup>+ `` {v}"
proof -
  have "(v, c) \<in> refs g \<longleftrightarrow> c \<in> set (mark_calls g (the (g_insts g v))) \<and> is_inst g c" for c
    using assms by (simp add: refs_def)
  then show ?thesis by (auto simp: trancl_unfold_left relcomp_unfold)
qed

lemma trancl_inst: "(v, c) \<in> (refs g)\<^sup>+ \<Longrightarrow> is_inst g c"
  by (erule tranclE) (simp_all add: refs_def)

lemma mark_elements_marks:
  assumes "wf ((refs g)\<inverse>)" and "heap_ok g" and "\<forall>p\<in>S. is_inst g p" and "entries_ok g vs"
  shows "mark_elements vs (mark_all S g) =
    Some (Ok (mark_all (S \<union> (refs g)\<^sup>+ `` (set vs \<inter> (S \<union> any_marked g))) g))"
  using assms(3,4)
proof (induction vs arbitrary: S)
  case (Cons v vs)
  obtain i where i: "g_insts g v = Some i" and fr: "GC_FREED_P i \<or> is_inst g v"
    using Cons.prems(2) by (auto simp: entries_ok_def split: option.splits)
  have vs: "entries_ok g vs" using Cons.prems(2) by (simp add: entries_ok_def)
  let ?i = "if v \<in> S then GC_MARK_SET i else i"
  have any: "GC_ANY_MARK_P ?i \<longleftrightarrow> v \<in> S \<union> any_marked g" using i by (simp add: any_marked_def gc_simps)
  have calls: "mark_calls g ?i = mark_calls g i" by (simp add: gc_simps)
  show ?case
  proof (cases "v \<in> S \<union> any_marked g")
    case True
    then have v: "is_inst g v" using fr Cons.prems(1) i mark_bits(3) [of i] by (auto simp: any_marked_def)
    have ok: "cells_ok g (mark_calls g i)"
      using assms(2) i by (auto simp: heap_ok_def mark_calls_def cells_ok_def)
    have m: "gc_mark_pending (mark_calls g i) (mark_all S g) = Some (Ok (mark_all (S \<union> (refs g)\<^sup>+ `` {v}) g))"
      using gc_mark_pending_all [OF assms(1,2) Cons.prems(1) ok] calls_reached [OF v] i by simp
    have "\<forall>p\<in>S \<union> (refs g)\<^sup>+ `` {v}. is_inst g p" using Cons.prems(1) trancl_inst by auto
    note Cons.IH [OF this vs]
    moreover have "S \<union> (refs g)\<^sup>+ `` {v} \<union> (refs g)\<^sup>+ `` (set vs \<inter> (S \<union> (refs g)\<^sup>+ `` {v} \<union> any_marked g)) =
        S \<union> (refs g)\<^sup>+ `` (set (v # vs) \<inter> (S \<union> any_marked g))"
      using True by (auto intro: trancl_trans)
    ultimately show ?thesis using m i any calls True by simp
  next
    case False
    then show ?thesis using Cons.IH [OF Cons.prems(1) vs] i any by simp
  qed
qed simp

subsection \<open>Freeing\<close>

definition unmarked :: "fth_heap \<Rightarrow> addr \<Rightarrow> bool" where
  "unmarked g p = (case g_insts g p of None \<Rightarrow> False | Some i \<Rightarrow> \<not> GC_FREED_P i \<and> \<not> GC_ANY_MARK_P i)"

definition freed_at :: "fth_heap \<Rightarrow> addr \<Rightarrow> bool" where
  "freed_at g p = (case g_insts g p of None \<Rightarrow> False | Some i \<Rightarrow> GC_FREED_P i)"

lemma inst_chain_cong: "inst_chain g p qs \<Longrightarrow> \<forall>q\<in>set qs. g_insts g' q = g_insts g q \<Longrightarrow> inst_chain g' p qs"
  by (induction qs arbitrary: p) (auto split: option.splits)

lemma free_unmarked_frees:
  assumes "distinct vs" and "\<forall>p\<in>set vs. g_insts g p \<noteq> None \<and> p \<noteq> NULL" and "inst_chain g (g_free_list g) fl"
    and "\<forall>p\<in>set fl. freed_at g p"
  shows "\<exists>g'. free_unmarked vs n g = Ok (n + length (filter (unmarked g) vs), g') \<and>
    (\<forall>p. p \<notin> set vs \<or> freed_at g p \<longrightarrow> g_insts g' p = g_insts g p) \<and>
    (\<forall>p\<in>set vs. \<not> freed_at g p \<longrightarrow> (if unmarked g p then freed_at g' p
       else g_insts g' p = map_option GC_MARK_CLR (g_insts g p))) \<and>
    inst_chain g' (g_free_list g') (rev (filter (unmarked g) vs) @ fl)"
  using assms
proof (induction vs arbitrary: n g fl)
  case Nil
  then show ?case by auto
next
  case (Cons v vs)
  obtain i where i: "g_insts g v = Some i" using Cons.prems(2) by auto
  have d: "v \<notin> set vs" "distinct vs" "v \<noteq> NULL" using Cons.prems(1,2) by simp_all
  let ?g = "if GC_FREED_P i then g else if GC_ANY_MARK_P i then set_inst v (GC_MARK_CLR i) g else OBJECT_FREE v i g"
  let ?fl = "if unmarked g v then v # fl else fl"
  have same: "g_insts ?g p = g_insts g p" if "p \<noteq> v" for p
    using that by (simp add: OBJECT_FREE_def set_inst_def)
  have eqs: "unmarked ?g p = unmarked g p" "freed_at ?g p = freed_at g p" if "p \<noteq> v" for p
    using same [OF that] by (simp_all add: unmarked_def freed_at_def)
  have fl: "\<forall>p\<in>set fl. g_insts ?g p = g_insts g p"
  proof
    fix p assume "p \<in> set fl"
    then show "g_insts ?g p = g_insts g p"
      using Cons.prems(4) i same by (cases "p = v") (auto simp: freed_at_def)
  qed
  have chain: "inst_chain ?g (g_free_list ?g) ?fl"
    using inst_chain_cong [OF Cons.prems(3) fl] i d(3) by (auto simp: unmarked_def OBJECT_FREE_def set_inst_def)
  have freed: "\<forall>p\<in>set ?fl. freed_at ?g p"
    using Cons.prems(4) fl i by (auto simp: freed_at_def unmarked_def OBJECT_FREE_def set_inst_def GC_FREED_P_def)
  have "\<forall>p\<in>set vs. g_insts ?g p \<noteq> None \<and> p \<noteq> NULL" using Cons.prems(2) d(1) same by (metis list.set_intros(2))
  from Cons.IH [OF d(2) this chain freed, of "if unmarked g v then n + 1 else n"]
  obtain g' where g': "free_unmarked vs (if unmarked g v then n + 1 else n) ?g =
        Ok ((if unmarked g v then n + 1 else n) + length (filter (unmarked ?g) vs), g')"
      "\<forall>p. p \<notin> set vs \<or> freed_at ?g p \<longrightarrow> g_insts g' p = g_insts ?g p"
      "\<forall>p\<in>set vs. \<not> freed_at ?g p \<longrightarrow> (if unmarked ?g p then freed_at g' p else g_insts g' p = map_option GC_MARK_CLR (g_insts ?g p))"
      "inst_chain g' (g_free_list g') (rev (filter (unmarked ?g) vs) @ ?fl)"
    by blast
  have f: "filter (unmarked ?g) vs = filter (unmarked g) vs" using eqs(1) d(1) by (intro filter_cong) (simp, metis)
  have v: "g_insts g' v = g_insts ?g v" using g'(2) d(1) by blast
  have run: "free_unmarked (v # vs) n g = free_unmarked vs (if unmarked g v then n + 1 else n) ?g"
    using i by (auto simp: unmarked_def)
  have new: "if unmarked g v then freed_at g' v else g_insts g' v = map_option GC_MARK_CLR (g_insts g v)" if "\<not> freed_at g v"
    using that v i by (auto simp: freed_at_def unmarked_def OBJECT_FREE_def set_inst_def GC_FREED_P_def)
  have old: "g_insts g' v = g_insts g v" if "freed_at g v" using that v i by (simp add: freed_at_def)
  show ?case
  proof (intro exI [of _ g'] conjI)
    show "free_unmarked (v # vs) n g = Ok (n + length (filter (unmarked g) (v # vs)), g')"
      using run g'(1) f by simp
    show "\<forall>p. p \<notin> set (v # vs) \<or> freed_at g p \<longrightarrow> g_insts g' p = g_insts g p"
      using g'(2) same eqs(2) old by (metis list.set_intros(1,2))
    show "\<forall>p\<in>set (v # vs). \<not> freed_at g p \<longrightarrow> (if unmarked g p then freed_at g' p
       else g_insts g' p = map_option GC_MARK_CLR (g_insts g p))"
      using g'(3) same eqs d(1) new by (metis set_ConsD)
    show "inst_chain g' (g_free_list g') (rev (filter (unmarked g) (v # vs)) @ fl)"
      using g'(4) unfolding f by (cases "unmarked g v") simp_all
  qed
qed

subsection \<open>A collection\<close>

definition free_list_ok :: "fth_heap \<Rightarrow> bool" where
  "free_list_ok g = (\<exists>fl. inst_chain g (g_free_list g) fl \<and> (\<forall>p\<in>set fl. freed_at g p))"

text \<open>The entries of the free list come from the given ones.\<close>

definition free_list_in :: "addr set \<Rightarrow> fth_heap \<Rightarrow> bool" where
  "free_list_in A g = (\<exists>fl. inst_chain g (g_free_list g) fl \<and> (\<forall>p\<in>set fl. freed_at g p \<and> p \<in> A))"

lemma free_list_in_UNIV: "free_list_in UNIV g \<longleftrightarrow> free_list_ok g"
  by (simp add: free_list_in_def free_list_ok_def)

lemma free_list_in_mono: "free_list_in A g \<Longrightarrow> A \<subseteq> B \<Longrightarrow> free_list_in B g"
  unfolding free_list_in_def by blast

definition collectable :: "ficlVm \<Rightarrow> fth_heap \<Rightarrow> bool" where
  "collectable vm g = (heap_ok g \<and> finite (dom (g_insts g)) \<and> acyclic (refs g) \<and> cells_ok g (gc_roots vm) \<and>
     (\<forall>p\<in>set (gc_frames vm). \<exists>qs. inst_chain g p qs \<and> (\<forall>q\<in>set qs. is_inst g q)) \<and>
     distinct (visited g) \<and> entries_ok g (visited g) \<and> free_list_ok g)"

definition gc_root_insts :: "ficlVm \<Rightarrow> fth_heap \<Rightarrow> addr set" where
  "gc_root_insts vm g = {p. is_inst g p \<and>
     (p \<in> set (gc_roots vm) \<or> p \<in> frame_insts g (gc_frames vm) \<or> p \<in> any_marked g)}"

text \<open>The references of the roots count, but for the root that is not visited.\<close>

definition gc_live :: "ficlVm \<Rightarrow> fth_heap \<Rightarrow> addr set" where
  "gc_live vm g = gc_root_insts vm g \<union> (refs g)\<^sup>+ `` (gc_root_insts vm g \<inter> set (visited g))"

lemma collectable_wf: "collectable vm g \<Longrightarrow> wf ((refs g)\<inverse>)"
proof -
  assume c: "collectable vm g"
  have "refs g \<subseteq> dom (g_insts g) \<times> dom (g_insts g)" by (auto simp: refs_def elim!: is_instE)
  then have "finite (refs g)" using c by (auto simp: collectable_def intro: finite_subset)
  then show ?thesis using c by (simp add: collectable_def finite_acyclic_wf_converse)
qed

lemma gc_live_inst: "p \<in> gc_live vm g \<Longrightarrow> is_inst g p"
  by (auto simp: gc_live_def gc_root_insts_def dest: trancl_inst)

lemma clr_set: "GC_MARK_CLR (GC_MARK_SET i) = GC_MARK_CLR i"
proof -
  have "(m OR 2) AND NOT 2 = m AND NOT (2 :: u32)" for m by (simp add: bit.conj_disj_distrib2)
  then show ?thesis by (simp add: GC_MARK_CLR_def GC_MARK_SET_def GC_MARK_def)
qed

lemma gc_marked:
  assumes "collectable vm g"
  defines "S \<equiv> {c \<in> set (gc_roots vm). is_inst g c} \<union> frame_insts g (gc_frames vm)"
  defines "M \<equiv> S \<union> (refs g)\<^sup>+ `` (set (visited g) \<inter> (S \<union> any_marked g))"
  shows "mark_stack (gc_roots vm) g = Ok (mark_all {c \<in> set (gc_roots vm). is_inst g c} g)"
    and "mark_frames (gc_frames vm) (mark_all {c \<in> set (gc_roots vm). is_inst g c} g) = Some (Ok (mark_all S g))"
    and "mark_elements (visited g) (mark_all S g) = Some (Ok (mark_all M g))"
    and "p \<in> set (visited g) \<Longrightarrow> \<not> freed_at g p \<Longrightarrow> p \<in> gc_live vm g \<longleftrightarrow> p \<in> M \<union> any_marked g"
    and "\<forall>p\<in>M. is_inst g p"
proof -
  have c: "heap_ok g" "cells_ok g (gc_roots vm)" "\<forall>p\<in>set (gc_frames vm). \<exists>qs. inst_chain g p qs"
      "entries_ok g (visited g)"
    using assms(1) by (auto simp: collectable_def)
  show "mark_stack (gc_roots vm) g = Ok (mark_all {c \<in> set (gc_roots vm). is_inst g c} g)"
    using mark_stack_marks [of "{}" g] c(2) by simp
  show "mark_frames (gc_frames vm) (mark_all {c \<in> set (gc_roots vm). is_inst g c} g) = Some (Ok (mark_all S g))"
    unfolding S_def by (rule mark_frames_marks [OF c(3)])
  have "is_inst g q" if "q \<in> frame_insts g (gc_frames vm)" for q
    using that assms(1) unfolding collectable_def frame_insts_def by (auto dest: inst_chain_unique)
  then have inst: "\<forall>p\<in>S. is_inst g p" by (auto simp: S_def)
  show "mark_elements (visited g) (mark_all S g) = Some (Ok (mark_all M g))"
    unfolding M_def by (rule mark_elements_marks [OF collectable_wf [OF assms(1)] c(1) inst c(4)])
  show "\<forall>p\<in>M. is_inst g p" using inst by (auto simp: M_def dest: trancl_inst)
  have vis: "is_inst g q" if "q \<in> set (visited g)" "q \<in> any_marked g \<or> \<not> freed_at g q" for q
    using that c(4) mark_bits(3) by (fastforce simp: entries_ok_def any_marked_def freed_at_def split: option.splits)
  define X where "X = (refs g)\<^sup>+ `` (set (visited g) \<inter> (S \<union> any_marked g))"
  have "gc_root_insts vm g \<inter> set (visited g) = set (visited g) \<inter> (S \<union> any_marked g)"
  proof (intro set_eqI iffI)
    fix q assume "q \<in> gc_root_insts vm g \<inter> set (visited g)"
    then show "q \<in> set (visited g) \<inter> (S \<union> any_marked g)" by (auto simp: gc_root_insts_def S_def)
  next
    fix q assume q: "q \<in> set (visited g) \<inter> (S \<union> any_marked g)"
    then have "is_inst g q" using inst vis [of q] by blast
    then show "q \<in> gc_root_insts vm g \<inter> set (visited g)" using q by (auto simp: gc_root_insts_def S_def)
  qed
  then have "gc_live vm g = gc_root_insts vm g \<union> X" "M = S \<union> X"
    by (simp_all add: gc_live_def M_def X_def)
  moreover have "p \<in> gc_root_insts vm g \<longleftrightarrow> p \<in> S \<union> any_marked g" if "p \<in> set (visited g)" "\<not> freed_at g p"
    using that vis [OF that(1)] by (simp add: gc_root_insts_def S_def)
  ultimately show "p \<in> gc_live vm g \<longleftrightarrow> p \<in> M \<union> any_marked g" if "p \<in> set (visited g)" "\<not> freed_at g p"
    using that by auto
qed

lemma inst_chain_mark_all [simp]: "inst_chain (mark_all S g) p qs = inst_chain g p qs"
  by (induction qs arbitrary: p) (auto simp: gc_simps split: option.splits)

lemma freed_at_mark_all: "\<forall>p\<in>M. is_inst g p \<Longrightarrow> freed_at (mark_all M g) p \<longleftrightarrow> freed_at g p"
  by (auto simp: freed_at_def gc_simps is_inst_def split: option.splits)

lemma unmarked_mark_all:
  "\<forall>p\<in>M. is_inst g p \<Longrightarrow> g_insts g p \<noteq> None \<Longrightarrow> unmarked (mark_all M g) p \<longleftrightarrow> \<not> freed_at g p \<and> p \<notin> M \<union> any_marked g"
  by (auto simp: unmarked_def freed_at_def any_marked_def gc_simps is_inst_def split: if_splits)

lemma free_unmarked_table:
  "free_unmarked vs n g = Ok (m, g') \<Longrightarrow> g_instances g' = g_instances g \<and> g_last_instance g' = g_last_instance g \<and>
    in_inst_range g' = in_inst_range g \<and> OBJECT_TYPE_P g' = OBJECT_TYPE_P g"
proof (induction vs n g arbitrary: m g' rule: free_unmarked.induct)
  case (2 p ps freed g)
  then show ?case
    by (auto simp: set_inst_def OBJECT_FREE_def in_inst_range_def OBJECT_TYPE_P_def fun_eq_iff split: option.splits if_splits)
qed simp

lemma inst_chain_tail: "inst_chain g p (as @ q # bs) \<Longrightarrow> inst_chain g q (q # bs)"
proof (induction as arbitrary: p)
  case (Cons a as)
  obtain i :: FInstance where "inst_chain g (i_next i) (as @ q # bs)" using Cons.prems by (cases "g_insts g a") auto
  then show ?case by (rule Cons.IH)
qed simp

lemma inst_chain_distinct: "inst_chain g p qs \<Longrightarrow> distinct qs"
proof (induction qs arbitrary: p)
  case (Cons q qs)
  have "q \<notin> set qs"
  proof
    assume "q \<in> set qs"
    then obtain as bs where "qs = as @ q # bs" by (meson split_list)
    then have "inst_chain g q (q # bs)" using Cons.prems inst_chain_tail [of g p "q # as" q bs] by simp
    moreover have "inst_chain g q (q # qs)" using Cons.prems by simp
    ultimately have "q # bs = q # qs" by (rule inst_chain_unique)
    then show False using \<open>qs = as @ q # bs\<close> by simp
  qed
  then show ?case using Cons by (auto split: option.splits)
qed simp

lemma take_free_in:
  assumes "free_list_in A g" and "g_free_list g \<noteq> NULL"
  shows "\<exists>nx. take_free g = Ok (g_free_list g, g\<lparr>g_free_list := nx\<rparr>) \<and> freed_at g (g_free_list g) \<and> g_free_list g \<in> A \<and>
    free_list_in (A - {g_free_list g}) (g\<lparr>g_free_list := nx\<rparr>)"
proof -
  obtain fl where fl: "inst_chain g (g_free_list g) fl" "\<forall>p\<in>set fl. freed_at g p \<and> p \<in> A"
    using assms(1) by (auto simp: free_list_in_def)
  then obtain q qs i where q: "fl = q # qs" "g_free_list g = q" "g_insts g q = Some i" "inst_chain g (i_next i) qs"
    using assms(2) by (cases fl) (auto split: option.splits)
  let ?g = "g\<lparr>g_free_list := i_next i\<rparr>"
  have "inst_chain ?g (i_next i) qs" using inst_chain_cong [OF q(4), of ?g] by simp
  moreover have "freed_at ?g p = freed_at g p" for p by (simp add: freed_at_def)
  moreover have "q \<notin> set qs" using inst_chain_distinct [OF fl(1)] q(1) by simp
  ultimately have "free_list_in (A - {q}) ?g" using fl(2) q(1) by (auto simp: free_list_in_def)
  then show ?thesis using q fl(2) by (auto simp: take_free_def FTH_INSTANCE_REF_def)
qed

lemma gc_freed:
  assumes "collectable vm g" and M: "\<forall>p\<in>M. is_inst g p"
  shows "\<exists>n g'. free_unmarked (visited g) 0 (mark_all M g) = Ok (n, g') \<and>
    (\<forall>p\<in>set (visited g). \<not> freed_at g p \<longrightarrow>
       (if p \<in> M \<union> any_marked g then g_insts g' p = map_option GC_MARK_CLR (g_insts g p) else freed_at g' p)) \<and>
    (\<forall>p. freed_at g p \<longrightarrow> g_insts g' p = g_insts g p) \<and>
    (\<forall>p. p \<notin> set (visited g) \<longrightarrow> g_insts g' p = g_insts (mark_all M g) p) \<and>
    (\<forall>A. free_list_in A g \<longrightarrow> free_list_in (A \<union> set (visited g)) g')"
proof -
  obtain fl where fl: "inst_chain g (g_free_list g) fl" "\<forall>p\<in>set fl. freed_at g p"
    using assms(1) by (auto simp: collectable_def free_list_ok_def)
  have c: "distinct (visited g)" "\<forall>p\<in>set (visited g). g_insts g p \<noteq> None \<and> p \<noteq> NULL"
    using assms(1) by (auto simp: collectable_def entries_ok_def split: option.splits)
  let ?g = "mark_all M g"
  have "\<forall>p\<in>set fl. freed_at ?g p" using fl(2) freed_at_mark_all [OF M] by simp
  from free_unmarked_frees [of "visited g" ?g, OF c(1) _ _ this, of 0] c(2) fl(1)
  obtain g' where g': "free_unmarked (visited g) 0 ?g = Ok (length (filter (unmarked ?g) (visited g)), g')"
      "\<forall>p. p \<notin> set (visited g) \<or> freed_at ?g p \<longrightarrow> g_insts g' p = g_insts ?g p"
      "\<forall>p\<in>set (visited g). \<not> freed_at ?g p \<longrightarrow> (if unmarked ?g p then freed_at g' p
         else g_insts g' p = map_option GC_MARK_CLR (g_insts ?g p))"
      "inst_chain g' (g_free_list g') (rev (filter (unmarked ?g) (visited g)) @ fl)"
    by auto
  have clr: "map_option GC_MARK_CLR (g_insts ?g p) = map_option GC_MARK_CLR (g_insts g p)" for p
    by (cases "g_insts g p") (simp_all add: clr_set)
  have old: "g_insts g' p = g_insts g p" if f: "freed_at g p" for p
  proof -
    have "p \<notin> M" using M f by (auto simp: freed_at_def is_inst_def split: option.splits)
    then have "g_insts ?g p = g_insts g p" by (cases "g_insts g p") simp_all
    then show ?thesis using g'(2) f freed_at_mark_all [OF M] by simp
  qed
  then have "freed_at g' p" if "freed_at g p" for p using that by (simp add: freed_at_def)
  moreover have "freed_at g' p" if "p \<in> set (visited g)" "unmarked ?g p" for p
    using that g'(3) by (auto simp: unmarked_def freed_at_def split: option.splits)
  ultimately have f: "\<forall>p\<in>set (rev (filter (unmarked ?g) (visited g)) @ fl). freed_at g' p" using fl(2) by auto
  have "free_list_in (A \<union> set (visited g)) g'" if "free_list_in A g" for A
  proof -
    have "set fl \<subseteq> A" using that fl(1) by (auto simp: free_list_in_def dest: inst_chain_unique)
    then show ?thesis unfolding free_list_in_def using g'(4) f by (intro exI [of _ "rev (filter (unmarked ?g) (visited g)) @ fl"]) auto
  qed
  moreover have "\<forall>p\<in>set (visited g). \<not> freed_at g p \<longrightarrow>
       (if p \<in> M \<union> any_marked g then g_insts g' p = map_option GC_MARK_CLR (g_insts g p) else freed_at g' p)"
    using g'(3) c(2) unmarked_mark_all [OF M] freed_at_mark_all [OF M] clr by metis
  ultimately show ?thesis using g'(1,2) old by blast
qed

lemma gc_run_facts:
  assumes "collectable vm g"
  shows "\<exists>r g'. gc_run vm g = Some (Ok (r, g')) \<and>
    (\<forall>p\<in>set (visited g). \<not> freed_at g p \<longrightarrow>
       (if p \<in> gc_live vm g then g_insts g' p = map_option GC_MARK_CLR (g_insts g p) else freed_at g' p)) \<and>
    (\<forall>p. freed_at g p \<longrightarrow> g_insts g' p = g_insts g p) \<and>
    (\<forall>p. p \<notin> set (visited g) \<longrightarrow> g_insts g' p = g_insts g p \<or> g_insts g' p = map_option GC_MARK_SET (g_insts g p)) \<and>
    (r \<noteq> NULL \<longrightarrow> freed_at g' r) \<and> g_instances g' = g_instances g \<and> g_last_instance g' = g_last_instance g \<and>
    in_inst_range g' = in_inst_range g \<and> OBJECT_TYPE_P g' = OBJECT_TYPE_P g \<and>
    (\<forall>A. free_list_in A g \<longrightarrow> free_list_in (A \<union> set (visited g) - {r}) g' \<and> (r \<noteq> NULL \<longrightarrow> r \<in> A \<union> set (visited g)))"
proof -
  define S where "S = {c \<in> set (gc_roots vm). is_inst g c} \<union> frame_insts g (gc_frames vm)"
  define M where "M = S \<union> (refs g)\<^sup>+ `` (set (visited g) \<inter> (S \<union> any_marked g))"
  note m = gc_marked [OF assms, folded S_def, folded M_def]
  obtain n g1 where g1: "free_unmarked (visited g) 0 (mark_all M g) = Ok (n, g1)"
      "\<forall>p\<in>set (visited g). \<not> freed_at g p \<longrightarrow>
         (if p \<in> M \<union> any_marked g then g_insts g1 p = map_option GC_MARK_CLR (g_insts g p) else freed_at g1 p)"
      "\<forall>p. freed_at g p \<longrightarrow> g_insts g1 p = g_insts g p"
      "\<forall>p. p \<notin> set (visited g) \<longrightarrow> g_insts g1 p = g_insts (mark_all M g) p"
      "\<forall>A. free_list_in A g \<longrightarrow> free_list_in (A \<union> set (visited g)) g1"
    using gc_freed [OF assms m(5)] by blast
  have tab: "g_instances g1 = g_instances g" "g_last_instance g1 = g_last_instance g"
      "in_inst_range g1 = in_inst_range g" "OBJECT_TYPE_P g1 = OBJECT_TYPE_P g"
    using free_unmarked_table [OF g1(1)] by simp_all
  have ok: "free_list_in UNIV g" using assms by (simp add: collectable_def free_list_in_UNIV)
  have run: "gc_run vm g = Some (if n > GC_CHUNK_SIZE \<and> g_free_list g1 \<noteq> NULL then take_free g1 else Ok (NULL, g1))"
    using m(1-3) g1(1) by (simp add: gc_run_def)
  obtain r nx where r: "gc_run vm g = Some (Ok (r, g1\<lparr>g_free_list := nx\<rparr>))" "r \<noteq> NULL \<longrightarrow> freed_at g1 r"
      "\<forall>A. free_list_in A g \<longrightarrow> free_list_in (A \<union> set (visited g) - {r}) (g1\<lparr>g_free_list := nx\<rparr>) \<and>
        (r \<noteq> NULL \<longrightarrow> r \<in> A \<union> set (visited g))"
  proof (cases "n > GC_CHUNK_SIZE \<and> g_free_list g1 \<noteq> NULL")
    case True
    have "free_list_in UNIV g1" using g1(5) [rule_format, OF ok] by simp
    then obtain nx where nx: "take_free g1 = Ok (g_free_list g1, g1\<lparr>g_free_list := nx\<rparr>)" "freed_at g1 (g_free_list g1)"
      using take_free_in [of UNIV g1] True by auto
    have "free_list_in (A \<union> set (visited g) - {g_free_list g1}) (g1\<lparr>g_free_list := nx\<rparr>) \<and> g_free_list g1 \<in> A \<union> set (visited g)"
      if "free_list_in A g" for A
      using take_free_in [of "A \<union> set (visited g)" g1] g1(5) that True nx(1) by auto
    then show thesis using that nx run True by auto
  next
    case False
    have null: "free_list_in (B - {NULL}) g1" if "free_list_in B g1" for B
    proof -
      have "NULL \<notin> set fl" if "inst_chain g1 p fl" for p fl
        using that by (induction fl arbitrary: p) (auto split: option.splits)
      then show ?thesis using that unfolding free_list_in_def by (metis Diff_iff singletonD)
    qed
    have "gc_run vm g = Some (Ok (NULL, g1))" using run False by (simp only: if_False)
    then show thesis using that [of NULL "g_free_list g1"] g1(5) null by auto
  qed
  let ?g = "g1\<lparr>g_free_list := nx\<rparr>"
  have f: "freed_at ?g p = freed_at g1 p" for p by (simp add: freed_at_def)
  have fld: "g_instances ?g = g_instances g" "g_last_instance ?g = g_last_instance g"
      "in_inst_range ?g = in_inst_range g" "OBJECT_TYPE_P ?g = OBJECT_TYPE_P g"
    unfolding tab [symmetric] by (simp_all add: in_inst_range_def OBJECT_TYPE_P_def fun_eq_iff)
  have "\<forall>p\<in>set (visited g). \<not> freed_at g p \<longrightarrow>
       (if p \<in> gc_live vm g then g_insts ?g p = map_option GC_MARK_CLR (g_insts g p) else freed_at ?g p)"
    using g1(2) m(4) unfolding f by simp
  moreover have "g_insts ?g p = g_insts g p \<or> g_insts ?g p = map_option GC_MARK_SET (g_insts g p)" if "p \<notin> set (visited g)" for p
    using g1(4) that by (cases "g_insts g p") auto
  ultimately show ?thesis using r g1(3) fld f by (intro exI [of _ r] exI [of _ ?g]) simp
qed

lemma gc_run_exact:
  assumes "collectable vm g"
  shows "\<exists>r g'. gc_run vm g = Some (Ok (r, g')) \<and>
    (\<forall>p\<in>set (visited g). \<not> freed_at g p \<longrightarrow>
       (if p \<in> gc_live vm g then g_insts g' p = map_option GC_MARK_CLR (g_insts g p) else freed_at g' p)) \<and>
    (\<forall>p. freed_at g p \<longrightarrow> g_insts g' p = g_insts g p) \<and>
    (\<forall>p. p \<notin> set (visited g) \<longrightarrow> g_insts g' p = g_insts g p \<or> g_insts g' p = map_option GC_MARK_SET (g_insts g p)) \<and>
    (r \<noteq> NULL \<longrightarrow> freed_at g' r) \<and> free_list_ok g' \<and> g_instances g' = g_instances g \<and> g_last_instance g' = g_last_instance g"
proof -
  have "free_list_in UNIV g" using assms by (simp add: collectable_def free_list_in_UNIV)
  moreover have "free_list_in A g' \<Longrightarrow> free_list_ok g'" for A g'
    unfolding free_list_in_UNIV [symmetric] by (erule free_list_in_mono) simp
  ultimately show ?thesis using gc_run_facts [OF assms] by blast
qed

subsection \<open>Allocation\<close>

definition used_entries :: "fth_heap \<Rightarrow> addr list" where
  "used_entries g = take (g_last_instance g) (g_instances g)"

text \<open>
  The table of instances: all instances are entries of it, each one once; its size is the number
  of used entries rounded up to a chunk; a used entry is freed or a living instance whose mark is not the one of freed
  entries; the other entries have not been used yet and are freed; the free list links freed entries that have been used,
  but for the entry \<open>p\<close>, which has been taken for a new instance (\<open>NULL\<close> for none).
\<close>

definition table_but :: "addr \<Rightarrow> fth_heap \<Rightarrow> bool" where
  "table_but p g = (distinct (g_instances g) \<and> NULL \<notin> set (g_instances g) \<and> dom (g_insts g) = set (g_instances g) \<and>
     g_last_instance g \<le> length (g_instances g) \<and> length (g_instances g) < g_last_instance g + GC_CHUNK_SIZE \<and>
     length (g_instances g) mod GC_CHUNK_SIZE = 0 \<and> entries_ok g (used_entries g) \<and>
     (\<forall>q\<in>set (drop (g_last_instance g) (g_instances g)). freed_at g q) \<and>
     free_list_in (set (used_entries g) - {p}) g)"

definition table_ok :: "fth_heap \<Rightarrow> bool" where
  "table_ok g = table_but NULL g"

text \<open>A new chunk is new memory.\<close>

definition chunk_ok :: "fth_heap \<Rightarrow> addr list \<Rightarrow> bool" where
  "chunk_ok g chunk = (length chunk = GC_CHUNK_SIZE \<and> distinct chunk \<and> NULL \<notin> set chunk \<and>
     (\<forall>p\<in>set chunk. g_insts g p = None))"

text \<open>What an instance holds; its mark is left out.\<close>

definition holds_at :: "fth_heap \<Rightarrow> addr \<Rightarrow> (cell list \<times> addr) option" where
  "holds_at g p = (case g_insts g p of None \<Rightarrow> None
     | Some i \<Rightarrow> if GC_FREED_P i then None else Some (i_gen i, i_obj i))"

text \<open>An instance that stays one, with at most another mark.\<close>

definition keeps :: "fth_heap \<Rightarrow> fth_heap \<Rightarrow> addr \<Rightarrow> bool" where
  "keeps g g' q = (is_inst g' q \<and> (\<exists>m. g_insts g' q = map_option (\<lambda>i. i\<lparr>i_gc_mark := m\<rparr>) (g_insts g q)))"

lemma keeps_refl:
  assumes "is_inst g q"
  shows "keeps g g q"
proof -
  obtain i where "g_insts g q = Some i" using assms by (rule is_instE)
  then show ?thesis using assms by (auto simp: keeps_def intro!: exI [of _ "i_gc_mark i"])
qed

lemma keeps_trans: "keeps g g1 q \<Longrightarrow> keeps g1 g2 q \<Longrightarrow> keeps g g2 q"
  by (auto simp: keeps_def option.map_comp comp_def)

lemma keeps_holds: "is_inst g q \<Longrightarrow> keeps g g' q \<Longrightarrow> holds_at g' q = holds_at g q"
  by (erule is_instE) (auto simp: keeps_def holds_at_def is_inst_def)

lemma keepsI:
  assumes "is_inst g q" and "g_insts g q = Some i" and "g_insts g' q = Some (i\<lparr>i_gc_mark := m\<rparr>)"
    and "\<not> GC_FREED_P (i\<lparr>i_gc_mark := m\<rparr>)" and "in_inst_range g' q" and "OBJECT_TYPE_P g' = OBJECT_TYPE_P g"
  shows "keeps g g' q"
  using assms by (auto simp: keeps_def is_inst_def)

lemma freed_holds: "freed_at g p \<Longrightarrow> holds_at g p = None"
  by (auto simp: freed_at_def holds_at_def split: option.splits)

lemma freed_not_live: "freed_at g p \<Longrightarrow> p \<notin> gc_live vm g"
  by (auto simp: freed_at_def dest!: gc_live_inst elim!: is_instE)

lemma freed_not_kept: "freed_at g' p \<Longrightarrow> \<not> keeps g g' p"
  by (auto simp: freed_at_def keeps_def is_inst_def split: option.splits)

lemma table_ok_fields:
  assumes "table_but p g"
  shows "distinct (g_instances g)" "NULL \<notin> set (g_instances g)" "dom (g_insts g) = set (g_instances g)"
    "g_last_instance g \<le> length (g_instances g)" "length (g_instances g) < g_last_instance g + GC_CHUNK_SIZE"
    "length (g_instances g) mod GC_CHUNK_SIZE = 0" "entries_ok g (used_entries g)"
    "\<forall>q\<in>set (drop (g_last_instance g) (g_instances g)). freed_at g q"
    "free_list_in (set (used_entries g) - {p}) g"
  using assms by (simp_all add: table_but_def)

lemma visited_used: "set (visited g) \<subseteq> set (used_entries g)"
  unfolding visited_def used_entries_def by (rule set_take_subset_set_take) simp

lemma marked_not_freed: "GC_FREED_P (GC_MARK_CLR i) \<longleftrightarrow> GC_FREED_P i" if "\<not> bit (i_gc_mark i) 0 \<or> GC_FREED_P i"
proof -
  have "bit (i_gc_mark i AND NOT 2) 0 = bit (i_gc_mark i) 0" by (simp add: bit_and_iff bit_not_iff bit_numeral_iff)
  moreover have "bit (1 :: u32) 0" by simp
  moreover have "(1 :: u32) AND NOT 2 = 1" by simp
  ultimately show ?thesis using that by (auto simp: GC_FREED_P_def GC_MARK_CLR_def GC_MARK_def GC_FREED_def)
qed

lemma mark_bit_0:
  "bit (i_gc_mark (GC_MARK_CLR i)) 0 \<longleftrightarrow> bit (i_gc_mark i) 0" "bit (i_gc_mark (GC_MARK_SET i)) 0 \<longleftrightarrow> bit (i_gc_mark i) 0"
proof -
  have a: "bit (m AND NOT 2) 0 = bit m 0" for m :: u32 by (simp add: bit_and_iff bit_not_iff bit_numeral_iff)
  have o: "bit (m OR 2) 0 = bit m 0" for m :: u32 by (simp add: bit_0 even_or_iff)
  show "bit (i_gc_mark (GC_MARK_CLR i)) 0 \<longleftrightarrow> bit (i_gc_mark i) 0"
    using a [of "i_gc_mark i"] by (simp add: GC_MARK_CLR_def GC_MARK_def)
  show "bit (i_gc_mark (GC_MARK_SET i)) 0 \<longleftrightarrow> bit (i_gc_mark i) 0"
    using o [of "i_gc_mark i"] by (simp add: GC_MARK_SET_def GC_MARK_def)
qed

text \<open>A collection keeps the living instances and the order of the table.\<close>

lemma gc_run_entry:
  assumes t: "in_inst_range g1 = in_inst_range g" "OBJECT_TYPE_P g1 = OBJECT_TYPE_P g"
    and q: "is_inst g q" "g_insts g q = Some i" "\<not> bit (i_gc_mark i) 0 \<or> q \<notin> set (visited g)"
    and v: "q \<in> set (visited g) \<Longrightarrow> g_insts g1 q = Some (GC_MARK_CLR i)"
    and u: "q \<notin> set (visited g) \<Longrightarrow> g_insts g1 q = Some i \<or> g_insts g1 q = Some (GC_MARK_SET i)"
  shows "keeps g g1 q \<and> (\<not> bit (i_gc_mark i) 0 \<longrightarrow> \<not> bit (i_gc_mark (the (g_insts g1 q))) 0)"
proof -
  have nf: "\<not> GC_FREED_P i" "in_inst_range g1 q" using q(1,2) t(1) by (auto simp: is_inst_def)
  consider "g_insts g1 q = Some (GC_MARK_CLR i)" "\<not> bit (i_gc_mark i) 0" | "g_insts g1 q = Some (i\<lparr>i_gc_mark := i_gc_mark i\<rparr>)"
    | "g_insts g1 q = Some (GC_MARK_SET i)" using v u q(3) by fastforce
  then show ?thesis
  proof cases
    case 1
    then have "\<not> GC_FREED_P (GC_MARK_CLR i)" using marked_not_freed nf(1) by blast
    then show ?thesis
      using keepsI [OF q(1,2) _ _ nf(2) t(2), of "i_gc_mark i AND NOT GC_MARK"] 1 mark_bit_0 by (simp add: GC_MARK_CLR_def)
  next
    case 2
    then show ?thesis using keepsI [OF q(1,2) 2 _ nf(2) t(2)] nf(1) by simp
  next
    case 3
    then show ?thesis
      using keepsI [OF q(1,2) _ _ nf(2) t(2), of "i_gc_mark i OR GC_MARK"] mark_bit_0 mark_bits(1) [of i]
      by (simp add: GC_MARK_SET_def)
  qed
qed

lemma gc_run_table:
  assumes "collectable vm g" and "table_ok g" and "chunk_ok g chunk"
  shows "\<exists>r g1. gc_run vm g = Some (Ok (r, g1)) \<and> (r \<noteq> NULL \<longrightarrow> r \<in> set (used_entries g1) \<and> freed_at g1 r) \<and>
    (\<forall>q\<in>gc_live vm g. keeps g g1 q) \<and> table_but r g1 \<and> chunk_ok g1 chunk"
proof -
  obtain r g1 where g1: "gc_run vm g = Some (Ok (r, g1))"
      "\<forall>p\<in>set (visited g). \<not> freed_at g p \<longrightarrow>
       (if p \<in> gc_live vm g then g_insts g1 p = map_option GC_MARK_CLR (g_insts g p) else freed_at g1 p)"
      "\<forall>p. freed_at g p \<longrightarrow> g_insts g1 p = g_insts g p"
      "\<forall>p. p \<notin> set (visited g) \<longrightarrow> g_insts g1 p = g_insts g p \<or> g_insts g1 p = map_option GC_MARK_SET (g_insts g p)"
      "r \<noteq> NULL \<longrightarrow> freed_at g1 r" "g_instances g1 = g_instances g" "g_last_instance g1 = g_last_instance g"
      "in_inst_range g1 = in_inst_range g" "OBJECT_TYPE_P g1 = OBJECT_TYPE_P g"
      "\<forall>A. free_list_in A g \<longrightarrow> free_list_in (A \<union> set (visited g) - {r}) g1 \<and> (r \<noteq> NULL \<longrightarrow> r \<in> A \<union> set (visited g))"
    using gc_run_facts [OF assms(1)] by blast
  note t = assms(2) [unfolded table_ok_def]
  note tf = table_ok_fields [OF t]
  have u1: "used_entries g1 = used_entries g" using g1(6,7) by (simp add: used_entries_def)
  have bit0: "\<not> bit (i_gc_mark i) 0" if "q \<in> set (used_entries g)" "is_inst g q" "g_insts g q = Some i" for q i
    using tf(7) that by (auto simp: entries_ok_def is_inst_def)
  have entry: "keeps g g1 q \<and> (\<not> bit (i_gc_mark i) 0 \<longrightarrow> \<not> bit (i_gc_mark (the (g_insts g1 q))) 0)"
    if "is_inst g q" "g_insts g q = Some i" "q \<in> set (visited g) \<Longrightarrow> q \<in> gc_live vm g" for q i
  proof (rule gc_run_entry [OF g1(8,9) that(1,2)])
    have n: "\<not> freed_at g q" using that(1,2) by (auto simp: freed_at_def is_inst_def)
    show "\<not> bit (i_gc_mark i) 0 \<or> q \<notin> set (visited g)" using bit0 that visited_used by blast
    show "q \<in> set (visited g) \<Longrightarrow> g_insts g1 q = Some (GC_MARK_CLR i)" using g1(2) n that by auto
    show "q \<notin> set (visited g) \<Longrightarrow> g_insts g1 q = Some i \<or> g_insts g1 q = Some (GC_MARK_SET i)"
      using g1(4) that(2) by (metis option.map(2))
  qed
  have live: "\<forall>q\<in>gc_live vm g. keeps g g1 q" using entry gc_live_inst by (metis is_instE)
  have "entries_ok g1 (used_entries g1)"
    unfolding entries_ok_def u1
  proof
    fix q assume q: "q \<in> set (used_entries g)"
    then have nn: "q \<noteq> NULL" using tf(2) by (auto simp: used_entries_def dest: in_set_takeD)
    from q tf(7) obtain i where i: "g_insts g q = Some i" "GC_FREED_P i \<or> is_inst g q"
      by (auto simp: entries_ok_def split: option.splits)
    have "freed_at g1 q \<or> keeps g g1 q \<and> \<not> bit (i_gc_mark (the (g_insts g1 q))) 0"
    proof (cases "is_inst g q \<and> (q \<in> set (visited g) \<longrightarrow> q \<in> gc_live vm g)")
      case True
      then show ?thesis using entry [OF _ i(1)] bit0 [OF q _ i(1)] by blast
    next
      case False
      then consider "GC_FREED_P i" | "q \<in> set (visited g)" "q \<notin> gc_live vm g" using i(2) by blast
      then show ?thesis
      proof cases
        case 1
        then have f: "freed_at g q" using i(1) by (simp add: freed_at_def)
        then show ?thesis using g1(3) by (simp add: freed_at_def)
      next
        case 2
        then show ?thesis using g1(2,3) by (cases "freed_at g q") (auto simp: freed_at_def)
      qed
    qed
    then show "case g_insts g1 q of None \<Rightarrow> False
      | Some i \<Rightarrow> q \<noteq> NULL \<and> (GC_FREED_P i \<or> is_inst g1 q \<and> \<not> bit (i_gc_mark i) 0)"
      using nn by (auto simp: freed_at_def keeps_def is_inst_def split: option.splits)
  qed
  moreover have fr: "freed_at g1 p" if "freed_at g p" for p using g1(3) that by (simp add: freed_at_def)
  have nn: "g_insts g1 p = None \<longleftrightarrow> g_insts g p = None" for p
  proof (cases "p \<in> set (visited g)")
    case True
    then have "g_insts g p \<noteq> None" using assms(1) by (auto simp: collectable_def entries_ok_def split: option.splits)
    moreover have "g_insts g1 p \<noteq> None"
      using g1(2,3) True calculation by (cases "freed_at g p"; cases "p \<in> gc_live vm g") (auto simp: freed_at_def split: option.splits)
    ultimately show ?thesis by blast
  next
    case False
    then show ?thesis using g1(4) by (metis map_option_is_None)
  qed
  moreover have "dom (g_insts g1) = dom (g_insts g)" by (auto simp: dom_def nn)
  moreover have v: "set (used_entries g) - {NULL} \<union> set (visited g) = set (used_entries g)"
    using visited_used tf(2) by (auto simp: used_entries_def dest: in_set_takeD)
  have "free_list_in (set (used_entries g) - {r}) g1" "r \<noteq> NULL \<longrightarrow> r \<in> set (used_entries g)"
    using g1(10) [rule_format, OF tf(9)] unfolding v by auto
  ultimately have "table_but r g1" using tf g1(6,7) u1 fr by (simp add: table_but_def)
  moreover have "chunk_ok g1 chunk" using assms(3) nn by (simp add: chunk_ok_def)
  ultimately show ?thesis using g1(1,5) live u1 \<open>r \<noteq> NULL \<longrightarrow> r \<in> set (used_entries g)\<close> by auto
qed

text \<open>An entry that has been taken for a new instance.\<close>

definition taken :: "addr \<Rightarrow> fth_heap \<Rightarrow> bool" where
  "taken p g = (p \<in> set (used_entries g) \<and> freed_at g p \<and> table_but p g)"

lemma free_list_upd [simp]:
  "is_inst (g\<lparr>g_free_list := x\<rparr>) = is_inst g" "used_entries (g\<lparr>g_free_list := x\<rparr>) = used_entries g"
  "freed_at (g\<lparr>g_free_list := x\<rparr>) = freed_at g" "entries_ok (g\<lparr>g_free_list := x\<rparr>) = entries_ok g"
  "keeps g (g\<lparr>g_free_list := x\<rparr>) = keeps g g"
  by (simp_all add: is_inst_def in_inst_range_def OBJECT_TYPE_P_def used_entries_def freed_at_def entries_ok_def keeps_def
      fun_eq_iff cong: option.case_cong)

lemma last_upd [simp]:
  "is_inst (g\<lparr>g_last_instance := x\<rparr>) = is_inst g" "freed_at (g\<lparr>g_last_instance := x\<rparr>) = freed_at g"
  "entries_ok (g\<lparr>g_last_instance := x\<rparr>) = entries_ok g" "keeps g (g\<lparr>g_last_instance := x\<rparr>) = keeps g g"
  "inst_chain (g\<lparr>g_last_instance := x\<rparr>) p qs = inst_chain g p qs"
proof -
  show "is_inst (g\<lparr>g_last_instance := x\<rparr>) = is_inst g" "freed_at (g\<lparr>g_last_instance := x\<rparr>) = freed_at g"
    "entries_ok (g\<lparr>g_last_instance := x\<rparr>) = entries_ok g" "keeps g (g\<lparr>g_last_instance := x\<rparr>) = keeps g g"
    by (simp_all add: is_inst_def in_inst_range_def OBJECT_TYPE_P_def freed_at_def entries_ok_def keeps_def
        fun_eq_iff cong: option.case_cong)
  show "inst_chain (g\<lparr>g_last_instance := x\<rparr>) p qs = inst_chain g p qs"
    by (induction qs arbitrary: p) (simp_all cong: option.case_cong)
qed

lemma take_free_taken:
  assumes "table_ok g" and "g_free_list g \<noteq> NULL"
  shows "\<exists>r g1. take_free g = Ok (r, g1) \<and> r \<noteq> NULL \<and> taken r g1 \<and> (\<forall>q. is_inst g q \<longrightarrow> keeps g g1 q)"
proof -
  note t = table_ok_fields [OF assms(1) [unfolded table_ok_def]]
  from take_free_in [OF t(9) assms(2)] obtain nx where
    nx: "take_free g = Ok (g_free_list g, g\<lparr>g_free_list := nx\<rparr>)" "freed_at g (g_free_list g)"
      "g_free_list g \<in> set (used_entries g) - {NULL}"
      "free_list_in (set (used_entries g) - {NULL} - {g_free_list g}) (g\<lparr>g_free_list := nx\<rparr>)" by blast
  have "free_list_in (set (used_entries g) - {g_free_list g}) (g\<lparr>g_free_list := nx\<rparr>)"
    by (rule free_list_in_mono [OF nx(4)]) blast
  then have "taken (g_free_list g) (g\<lparr>g_free_list := nx\<rparr>)" using nx(2,3) t by (simp add: taken_def table_but_def)
  then show ?thesis using nx(1) assms(2) keeps_refl by (intro exI [of _ "g_free_list g"] exI [of _ "g\<lparr>g_free_list := nx\<rparr>"]) simp
qed

lemma reuse_instance_taken:
  assumes "collectable vm g" and "table_ok g" and "chunk_ok g chunk"
  shows "\<exists>r g1. reuse_instance vm g = Some (Ok (r, g1)) \<and> (r \<noteq> NULL \<longrightarrow> taken r g1) \<and>
    (r = NULL \<longrightarrow> table_ok g1 \<and> chunk_ok g1 chunk) \<and> (\<forall>q\<in>gc_live vm g. keeps g g1 q)"
proof -
  consider "reuse_instance vm g = Some (Ok (NULL, g))" | "g_free_list g \<noteq> NULL" "reuse_instance vm g = Some (take_free g)"
    | "reuse_instance vm g = gc_run vm g" unfolding reuse_instance_def by presburger
  then show ?thesis
  proof cases
    case 1
    then show ?thesis using assms keeps_refl gc_live_inst by simp
  next
    case 2
    then show ?thesis using take_free_taken [OF assms(2) 2(1)] gc_live_inst by auto
  next
    case 3
    then show ?thesis using gc_run_table [OF assms] unfolding taken_def table_ok_def by auto
  qed
qed

text \<open>The next entry of the table.\<close>

lemma take_entry:
  assumes "distinct (g_instances g)" and "NULL \<notin> set (g_instances g)" and "dom (g_insts g) = set (g_instances g)"
    and l: "g_last_instance g < length (g_instances g)" and "length (g_instances g) \<le> g_last_instance g + GC_CHUNK_SIZE"
    and "length (g_instances g) mod GC_CHUNK_SIZE = 0" and e: "entries_ok g (used_entries g)"
    and f: "\<forall>q\<in>set (drop (g_last_instance g) (g_instances g)). freed_at g q"
    and fl: "free_list_in (set (used_entries g)) g"
  shows "taken (g_instances g ! g_last_instance g) (g\<lparr>g_last_instance := Suc (g_last_instance g)\<rparr>)"
proof -
  let ?p = "g_instances g ! g_last_instance g" and ?g = "g\<lparr>g_last_instance := Suc (g_last_instance g)\<rparr>"
  have u: "used_entries ?g = used_entries g @ [?p]" using l by (simp add: used_entries_def take_Suc_conv_app_nth)
  have d: "drop (g_last_instance g) (g_instances g) = ?p # drop (Suc (g_last_instance g)) (g_instances g)"
    using l by (simp add: Cons_nth_drop_Suc)
  have p: "freed_at g ?p" "?p \<noteq> NULL" using f d assms(2) l by (auto simp: in_set_conv_nth)
  have "?p \<notin> set (used_entries g)"
    using assms(1) l unfolding used_entries_def by (auto simp: in_set_conv_nth nth_eq_iff_index_eq)
  then have "set (used_entries ?g) - {?p} = set (used_entries g)" unfolding u by auto
  moreover have "free_list_in (set (used_entries g)) ?g" using fl by (simp add: free_list_in_def)
  moreover have "entries_ok g (used_entries g @ [?p])"
    using e p by (auto simp: entries_ok_def freed_at_def split: option.splits)
  ultimately show ?thesis
    using assms(1-6) f d p u by (simp add: taken_def table_but_def)
qed

lemma new_chunk_facts:
  assumes "table_ok g" and c: "chunk_ok g chunk" and m: "g_last_instance g mod GC_CHUNK_SIZE = 0"
  shows "g_instances (new_chunk chunk g) = g_instances g @ chunk" and "g_last_instance (new_chunk chunk g) = length (g_instances g)"
    and "g_last_instance g = length (g_instances g)" and "g_free_list (new_chunk chunk g) = g_free_list g"
    and "\<And>q. q \<notin> set chunk \<Longrightarrow> g_insts (new_chunk chunk g) q = g_insts g q"
    and "\<And>q. q \<in> set chunk \<Longrightarrow> freed_at (new_chunk chunk g) q"
    and "\<And>q. is_inst g q \<Longrightarrow> is_inst (new_chunk chunk g) q \<and> keeps g (new_chunk chunk g) q"
    and "dom (g_insts (new_chunk chunk g)) = dom (g_insts g) \<union> set chunk"
proof -
  note t = table_ok_fields [OF assms(1) [unfolded table_ok_def]]
  let ?g = "new_chunk chunk g"
  have "(length (g_instances g) - g_last_instance g) mod GC_CHUNK_SIZE = 0"
    using t(4,6) m by (metis mod_eq_0_iff_dvd dvd_diff_nat)
  moreover have "length (g_instances g) - g_last_instance g < GC_CHUNK_SIZE" using t(4,5) by arith
  ultimately show l: "g_last_instance g = length (g_instances g)" using t(4) by simp
  show "g_instances ?g = g_instances g @ chunk" "g_last_instance ?g = length (g_instances g)" "g_free_list ?g = g_free_list g"
    using l by (simp_all add: new_chunk_def Let_def)
  show i: "g_insts ?g q = g_insts g q" if "q \<notin> set chunk" for q using that by (simp add: new_chunk_def Let_def)
  show "freed_at ?g q" if "q \<in> set chunk" for q
    using that by (simp add: new_chunk_def Let_def freed_at_def GC_FREED_P_def)
  show "dom (g_insts ?g) = dom (g_insts g) \<union> set chunk" by (auto simp: new_chunk_def Let_def dom_def)
  fix q assume q: "is_inst g q"
  then have d: "q \<in> dom (g_insts g)" by (auto elim: is_instE)
  then have "q \<notin> set chunk" using c by (auto simp: chunk_ok_def)
  moreover have "length (g_instances g) \<noteq> 0" using d t(3) by auto
  then have "in_inst_range ?g q = in_inst_range g q" "OBJECT_TYPE_P ?g = OBJECT_TYPE_P g"
    using l by (simp_all add: new_chunk_def Let_def in_inst_range_def OBJECT_TYPE_P_def fun_eq_iff)
  ultimately show "is_inst ?g q \<and> keeps g ?g q" using q i keeps_refl [OF q]
    by (auto simp: is_inst_def keeps_def split: option.splits)
qed

lemma next_of_table_taken:
  assumes "table_ok g" and "chunk_ok g chunk"
  shows "\<exists>p g'. next_of_table chunk g = Ok (p, g') \<and> taken p g' \<and> (\<forall>q. is_inst g q \<longrightarrow> keeps g g' q)"
proof (cases "g_last_instance g mod GC_CHUNK_SIZE = 0")
  case False
  note t = table_ok_fields [OF assms(1) [unfolded table_ok_def]]
  have l: "g_last_instance g < length (g_instances g)" using t(4,6) False by (metis le_neq_implies_less)
  have "free_list_in (set (used_entries g)) g" by (rule free_list_in_mono [OF t(9)]) blast
  then have "taken (g_instances g ! g_last_instance g) (g\<lparr>g_last_instance := Suc (g_last_instance g)\<rparr>)"
    using t l by (intro take_entry) simp_all
  then show ?thesis using False l keeps_refl by (simp add: next_of_table_def Let_def)
next
  case True
  note t = table_ok_fields [OF assms(1) [unfolded table_ok_def]] and n = new_chunk_facts [OF assms True]
  let ?g = "new_chunk chunk g"
  have c: "length chunk = GC_CHUNK_SIZE" "distinct chunk" "NULL \<notin> set chunk" "set chunk \<inter> set (g_instances g) = {}"
    using assms(2) t(3) by (auto simp: chunk_ok_def)
  have pos: "0 < GC_CHUNK_SIZE" by (simp add: GC_CHUNK_SIZE_def)
  have u: "used_entries ?g = g_instances g" "used_entries g = g_instances g" using n(1,2,3) by (simp_all add: used_entries_def)
  have e: "entries_ok ?g (used_entries ?g)"
    unfolding entries_ok_def
  proof
    fix q assume "q \<in> set (used_entries ?g)"
    then have q: "q \<in> set (g_instances g)" using u by simp
    then have "g_insts ?g q = g_insts g q" using c(4) n(5) by blast
    moreover have "case g_insts g q of None \<Rightarrow> False | Some i \<Rightarrow> q \<noteq> NULL \<and> (GC_FREED_P i \<or> is_inst g q \<and> \<not> bit (i_gc_mark i) 0)"
      using t(7) q u(2) by (simp add: entries_ok_def)
    ultimately show "case g_insts ?g q of None \<Rightarrow> False
        | Some i \<Rightarrow> q \<noteq> NULL \<and> (GC_FREED_P i \<or> is_inst ?g q \<and> \<not> bit (i_gc_mark i) 0)"
      using n(7) by (auto split: option.splits)
  qed
  have "free_list_in (set (g_instances g)) ?g"
  proof -
    obtain fl where fl: "inst_chain g (g_free_list g) fl" "\<forall>p\<in>set fl. freed_at g p \<and> p \<in> set (g_instances g)"
      using t(9) u(2) by (auto simp: free_list_in_def)
    then have i: "\<forall>p\<in>set fl. g_insts ?g p = g_insts g p" using c(4) n(5) by blast
    then have "\<forall>p\<in>set fl. freed_at ?g p \<and> p \<in> set (g_instances g)" using fl(2) by (simp add: freed_at_def)
    then show ?thesis unfolding free_list_in_def n(4) using inst_chain_cong [OF fl(1) i] by blast
  qed
  then have "taken (g_instances ?g ! g_last_instance ?g) (?g\<lparr>g_last_instance := Suc (g_last_instance ?g)\<rparr>)"
    using n(1,2,6,8) c t(1-3,6) e u pos by (intro take_entry) (auto simp: mod_add_self2)
  moreover have "g_last_instance ?g < length (g_instances ?g)" using n(1,2) c(1) pos by simp
  ultimately show ?thesis using True n(7) by (auto simp: next_of_table_def Let_def keeps_def)
qed

text \<open>The range of the instances includes the new one.\<close>

lemma widen_fields [simp]:
  "g_insts (widen p g) = g_insts g" "g_instances (widen p g) = g_instances g" "g_last_instance (widen p g) = g_last_instance g"
  "g_free_list (widen p g) = g_free_list g" "OBJECT_TYPE_P (widen p g) = OBJECT_TYPE_P g" "freed_at (widen p g) = freed_at g"
  "used_entries (widen p g) = used_entries g" "in_inst_range (widen p g) p"
  by (auto simp: widen_def OBJECT_TYPE_P_def freed_at_def used_entries_def in_inst_range_def fun_eq_iff)

lemma widen_inst: "is_inst g q \<Longrightarrow> is_inst (widen p g) q \<and> keeps g (widen p g) q"
proof -
  assume q: "is_inst g q"
  then have "in_inst_range g q" by (simp add: is_inst_def)
  then have "in_inst_range (widen p g) q" by (auto simp: widen_def in_inst_range_def)
  then have "is_inst (widen p g) q" using q by (auto simp: is_inst_def split: option.splits)
  then show ?thesis using keeps_refl [OF q] by (simp add: keeps_def)
qed

lemma inst_chain_widen [simp]: "inst_chain (widen p g) q qs = inst_chain g q qs"
  by (induction qs arbitrary: q) (simp_all cong: option.case_cong)

lemma widen_taken: "taken p g \<Longrightarrow> taken p (widen p g)"
proof -
  assume t: "taken p g"
  then have "entries_ok g (used_entries g)" by (simp add: taken_def table_but_def)
  then have "entries_ok (widen p g) (used_entries g)"
    using widen_inst by (force simp: entries_ok_def split: option.splits)
  then show ?thesis using t by (simp add: taken_def table_but_def free_list_in_def)
qed

text \<open>The new instance.\<close>

lemma set_inst_taken:
  assumes "taken p g" and "in_inst_range g p" and "OBJECT_TYPE_P g (i_obj i)" and m: "i_gc_mark i = GC_MARK"
  shows "table_ok (set_inst p i g)" and "is_inst (set_inst p i g) p"
    and "q \<noteq> p \<Longrightarrow> is_inst g q \<Longrightarrow> keeps g (set_inst p i g) q"
proof -
  let ?g = "set_inst p i g"
  have tb: "table_but p g" "freed_at g p" "p \<in> set (used_entries g)" using assms(1) by (simp_all add: taken_def)
  note t = table_ok_fields [OF tb(1)]
  have f: "g_insts ?g q = (if q = p then Some i else g_insts g q)" "in_inst_range ?g = in_inst_range g"
      "OBJECT_TYPE_P ?g = OBJECT_TYPE_P g" "g_instances ?g = g_instances g" "g_last_instance ?g = g_last_instance g"
      "g_free_list ?g = g_free_list g" "used_entries ?g = used_entries g" for q
    by (simp_all add: set_inst_def in_inst_range_def OBJECT_TYPE_P_def used_entries_def fun_eq_iff)
  have b: "\<not> GC_FREED_P i" "\<not> bit (i_gc_mark i) 0" using m by (simp_all add: GC_FREED_P_def GC_FREED_def GC_MARK_def)
  show p: "is_inst ?g p" using assms(2,3) b(1) by (simp add: is_inst_def f)
  have i: "is_inst ?g q = is_inst g q" if "q \<noteq> p" for q
    using that f(1-3) by (simp add: is_inst_def cong: option.case_cong)
  show "keeps g ?g q" if "q \<noteq> p" "is_inst g q" using that i keeps_refl [OF that(2)] by (simp add: keeps_def f)
  have pn: "p \<noteq> NULL" "p \<in> set (g_instances g)" using tb(3) t(2) by (auto simp: used_entries_def dest: in_set_takeD)
  have "entries_ok ?g (used_entries g)"
    unfolding entries_ok_def
  proof
    fix q assume "q \<in> set (used_entries g)"
    then have "case g_insts g q of None \<Rightarrow> False | Some i \<Rightarrow> q \<noteq> NULL \<and> (GC_FREED_P i \<or> is_inst g q \<and> \<not> bit (i_gc_mark i) 0)"
      using t(7) by (simp add: entries_ok_def)
    then show "case g_insts ?g q of None \<Rightarrow> False | Some i \<Rightarrow> q \<noteq> NULL \<and> (GC_FREED_P i \<or> is_inst ?g q \<and> \<not> bit (i_gc_mark i) 0)"
      using p b(2) pn(1) i f(1) by (cases "q = p") (auto split: option.splits)
  qed
  moreover have "p \<notin> set (drop (g_last_instance g) (g_instances g))"
    using tb(3) set_take_disj_set_drop_if_distinct [OF t(1), of "g_last_instance g" "g_last_instance g"]
    by (auto simp: used_entries_def)
  then have "\<forall>q\<in>set (drop (g_last_instance g) (g_instances g)). freed_at ?g q"
    using t(8) by (auto simp: freed_at_def f(1))
  moreover have "free_list_in (set (used_entries g) - {NULL}) ?g"
  proof -
    obtain fl where fl: "inst_chain g (g_free_list g) fl" "\<forall>q\<in>set fl. freed_at g q \<and> q \<in> set (used_entries g) - {p}"
      using t(9) by (auto simp: free_list_in_def)
    then have e: "\<forall>q\<in>set fl. g_insts ?g q = g_insts g q" by (auto simp: f(1))
    have "NULL \<notin> set (used_entries g)" using t(2) by (auto simp: used_entries_def dest: in_set_takeD)
    then have "\<forall>q\<in>set fl. freed_at ?g q \<and> q \<in> set (used_entries g) - {NULL}"
      using fl(2) e by (auto simp: freed_at_def)
    then show ?thesis unfolding free_list_in_def f(6) using inst_chain_cong [OF fl(1) e] by blast
  qed
  moreover have "dom (g_insts ?g) = set (g_instances g)" using t(3) pn(2) by (auto simp: set_inst_def)
  ultimately show "table_ok ?g" using t by (simp add: table_ok_def table_but_def f)
qed

lemma gc_next_instance_taken:
  assumes "collectable vm g" and "table_ok g" and "chunk_ok g chunk"
  shows "\<exists>p g'. gc_next_instance chunk vm g = Some (Ok (p, g')) \<and> taken p g' \<and> in_inst_range g' p \<and>
    OBJECT_TYPE_P g' = OBJECT_TYPE_P g \<and> (\<forall>q\<in>gc_live vm g. keeps g g' q)"
proof -
  obtain r g1 where r: "reuse_instance vm g = Some (Ok (r, g1))" "r \<noteq> NULL \<longrightarrow> taken r g1"
      "r = NULL \<longrightarrow> table_ok g1 \<and> chunk_ok g1 chunk" "\<forall>q\<in>gc_live vm g. keeps g g1 q"
    using reuse_instance_taken [OF assms] by blast
  have "OBJECT_TYPE_P (g\<lparr>g_free_list := x\<rparr>) = OBJECT_TYPE_P g" for x by (simp add: OBJECT_TYPE_P_def fun_eq_iff)
  then have ty: "OBJECT_TYPE_P g1 = OBJECT_TYPE_P g"
    using r(1) gc_run_facts [OF assms(1)]
    by (auto simp: reuse_instance_def take_free_def FTH_INSTANCE_REF_def split: if_splits option.splits)
  show ?thesis
  proof (cases "r = NULL")
    case True
    then obtain p g2 where p: "next_of_table chunk g1 = Ok (p, g2)" "taken p g2" "\<forall>q. is_inst g1 q \<longrightarrow> keeps g1 g2 q"
      using next_of_table_taken r(3) by blast
    have "OBJECT_TYPE_P g2 = OBJECT_TYPE_P g1"
      using p(1) by (auto simp: next_of_table_def new_chunk_def Let_def OBJECT_TYPE_P_def fun_eq_iff split: if_splits)
    moreover have "keeps g (widen p g2) q" if q: "q \<in> gc_live vm g" for q
    proof -
      have "is_inst g1 q" "keeps g g1 q" using r(4) q by (auto simp: keeps_def)
      then have "keeps g1 g2 q" using p(3) by blast
      then have "is_inst g2 q" by (simp add: keeps_def)
      then show ?thesis using \<open>keeps g g1 q\<close> \<open>keeps g1 g2 q\<close> widen_inst keeps_trans by blast
    qed
    ultimately show ?thesis using True r(1) p(1) widen_taken [OF p(2)] ty by (simp add: gc_next_instance_def)
  next
    case False
    have "keeps g (widen r g1) q" if q: "q \<in> gc_live vm g" for q
    proof -
      have "keeps g g1 q" using r(4) q by blast
      then have "is_inst g1 q" by (simp add: keeps_def)
      then show ?thesis using \<open>keeps g g1 q\<close> widen_inst keeps_trans by blast
    qed
    then show ?thesis using False r(1,2) widen_taken [of r g1] ty by (simp add: gc_next_instance_def)
  qed
qed

text \<open>The next collection: the new instance is the first of its frame.\<close>

lemma inst_chain_keeps: "inst_chain g f qs \<Longrightarrow> \<forall>q\<in>set qs. keeps g g' q \<Longrightarrow> inst_chain g' f qs"
proof (induction qs arbitrary: f)
  case (Cons q qs)
  obtain i :: FInstance where i: "g_insts g q = Some i" "inst_chain g (i_next i) qs" "f = q" "q \<noteq> NULL"
    using Cons.prems(1) by (cases "g_insts g q") auto
  obtain m where "g_insts g' q = Some (i\<lparr>i_gc_mark := m\<rparr>)" using Cons.prems(2) i(1) by (auto simp: keeps_def)
  then show ?case using i Cons.IH [OF i(2)] Cons.prems(2) by simp
qed simp

lemma collectable_again:
  assumes c: "collectable vm g" and t: "table_ok g'" and k: "\<forall>q\<in>gc_live vm g. keeps g g' q"
    and p: "is_inst g' p" "g_insts g' p = Some i" "i_next i = vm_gc_inst vm (vm_gc_frame_level vm)"
    and ok: "heap_ok g'" "acyclic (refs g')" "cells_ok g' (gc_roots vm)"
  shows "collectable (vm\<lparr>vm_gc_inst := (vm_gc_inst vm)(vm_gc_frame_level vm := p)\<rparr>) g'"
proof -
  let ?l = "vm_gc_frame_level vm" and ?vm = "vm\<lparr>vm_gc_inst := (vm_gc_inst vm)(vm_gc_frame_level vm := p)\<rparr>"
  note tf = table_ok_fields [OF t [unfolded table_ok_def]]
  have old: "\<exists>qs. inst_chain g' f qs \<and> (\<forall>q\<in>set qs. is_inst g' q)" if f: "f \<in> set (gc_frames vm)" for f
  proof -
    obtain qs where qs: "inst_chain g f qs" "\<forall>q\<in>set qs. is_inst g q" using c f by (auto simp: collectable_def)
    have "\<forall>q\<in>set qs. keeps g g' q"
    proof
      fix q assume "q \<in> set qs"
      then have "q \<in> gc_live vm g" using qs f by (auto simp: gc_live_def gc_root_insts_def frame_insts_def)
      then show "keeps g g' q" using k by blast
    qed
    then show ?thesis using inst_chain_keeps [OF qs(1)] by (auto simp: keeps_def)
  qed
  have "p \<noteq> NULL" using p(2) tf(2,3) by (metis domI)
  have "\<exists>qs. inst_chain g' f qs \<and> (\<forall>q\<in>set qs. is_inst g' q)" if f: "f \<in> set (gc_frames ?vm)" for f
  proof (cases "f \<in> set (gc_frames vm)")
    case False
    then have "f = p" "0 \<le> ?l" using f by (auto simp: gc_frames_def split: if_splits)
    moreover have "vm_gc_inst vm ?l \<in> set (gc_frames vm)" using \<open>0 \<le> ?l\<close> by (auto simp: gc_frames_def)
    ultimately obtain qs where "inst_chain g' (i_next i) qs" "\<forall>q\<in>set qs. is_inst g' q" using old p(3) by auto
    then show ?thesis using \<open>f = p\<close> p(1,2) \<open>p \<noteq> NULL\<close> by (intro exI [of _ "p # qs"]) simp
  qed (rule old)
  moreover have "entries_ok g' (visited g')" using tf(7) visited_used [of g'] by (auto simp: entries_ok_def)
  moreover have "distinct (visited g')" using tf(1) by (simp add: visited_def)
  moreover have "free_list_ok g'" unfolding free_list_in_UNIV [symmetric] by (rule free_list_in_mono [OF tf(9)]) simp
  moreover have "finite (dom (g_insts g'))" using tf(3) by simp
  moreover have "gc_roots ?vm = gc_roots vm" by (simp add: gc_roots_def)
  ultimately show ?thesis using ok by (simp add: collectable_def)
qed

lemma fth_make_instance_fresh:
  assumes "collectable vm g" and "table_ok g" and "chunk_ok g chunk" and "OBJECT_TYPE_P g obj"
  shows "\<exists>p vm' g'. fth_make_instance fls ext chunk obj gen vm g = Some (Ok (p, vm', g')) \<and>
    vm' = vm\<lparr>vm_gc_inst := (vm_gc_inst vm)(vm_gc_frame_level vm := p)\<rparr> \<and>
    p \<notin> gc_live vm g \<and> holds_at g' p = Some (gen, obj) \<and>
    map_option i_next (g_insts g' p) = Some (vm_gc_inst vm (vm_gc_frame_level vm)) \<and> (\<forall>q\<in>gc_live vm g. is_inst g' q \<and> holds_at g' q = holds_at g q) \<and>
    p \<in> gc_live vm' g' \<and> table_ok g' \<and> OBJECT_TYPE_P g' = OBJECT_TYPE_P g \<and>
    (heap_ok g' \<and> acyclic (refs g') \<and> cells_ok g' (gc_roots vm) \<longrightarrow> collectable vm' g')"
proof -
  obtain p g1 where g1: "gc_next_instance chunk vm g = Some (Ok (p, g1))" "taken p g1" "in_inst_range g1 p"
      "OBJECT_TYPE_P g1 = OBJECT_TYPE_P g" "\<forall>q\<in>gc_live vm g. keeps g g1 q"
    using gc_next_instance_taken [OF assms(1-3)] by blast
  define i where "i = \<lparr>i_gc_mark = GC_MARK, i_next = vm_gc_inst vm (vm_gc_frame_level vm), i_gen = gen, i_obj = obj,
    i_properties = fls, i_values = fls, i_debug_hook = fls, i_cycle = 0, i_changed_p = True, i_extern_p = ext obj\<rparr>"
  let ?g = "set_inst p i g1" and ?vm = "vm\<lparr>vm_gc_inst := (vm_gc_inst vm)(vm_gc_frame_level vm := p)\<rparr>"
  have make: "fth_make_instance fls ext chunk obj gen vm g = Some (Ok (p, ?vm, ?g))"
    using g1(1) assms(4) by (simp add: fth_make_instance_def Let_def i_def)
  have "OBJECT_TYPE_P g1 (i_obj i)" using assms(4) g1(4) by (simp add: i_def)
  from set_inst_taken [OF g1(2,3) this] have s: "table_ok ?g" "is_inst ?g p"
      "\<And>q. q \<noteq> p \<Longrightarrow> is_inst g1 q \<Longrightarrow> keeps g1 ?g q" by (simp_all add: i_def)
  have new: "p \<notin> gc_live vm g" using g1(2,5) freed_not_kept by (auto simp: taken_def)
  have k: "keeps g ?g q" if q: "q \<in> gc_live vm g" for q
  proof -
    have "keeps g g1 q" "q \<noteq> p" using g1(5) new q by auto
    moreover then have "is_inst g1 q" by (simp add: keeps_def)
    ultimately show ?thesis using s(3) keeps_trans by blast
  qed
  have at: "g_insts ?g p = Some i" by (simp add: set_inst_def)
  have mark: "\<not> GC_FREED_P i" "GC_ANY_MARK_P i"
    by (simp_all add: i_def GC_FREED_P_def GC_ANY_MARK_P_def GC_MARK_def GC_FREED_def)
  have "holds_at ?g p = Some (gen, obj)" using at mark(1) by (simp add: holds_at_def) (simp add: i_def)
  moreover have "map_option i_next (g_insts ?g p) = Some (vm_gc_inst vm (vm_gc_frame_level vm))" using at by (simp add: i_def)
  moreover have "p \<in> gc_live ?vm ?g"
    using s(2) at mark(2) by (auto simp: gc_live_def gc_root_insts_def any_marked_def)
  moreover have "is_inst ?g q \<and> holds_at ?g q = holds_at g q" if q: "q \<in> gc_live vm g" for q
    using keeps_holds [OF gc_live_inst [OF q] k [OF q]] k [OF q] by (simp add: keeps_def)
  moreover have "OBJECT_TYPE_P ?g = OBJECT_TYPE_P g" using g1(4) by (simp add: set_inst_def OBJECT_TYPE_P_def fun_eq_iff)
  moreover have "collectable ?vm ?g" if "heap_ok ?g" "acyclic (refs ?g)" "cells_ok ?g (gc_roots vm)"
    using k that by (intro collectable_again [OF assms(1) s(1) _ s(2) at]) (simp_all add: i_def)
  ultimately show ?thesis using make new s(1) by blast
qed

end
