(* ===== verification/Fth_Gc_Samples.thy ===== *)
theory Fth_Gc_Samples
  imports Fth_Gc Ficl_Samples
begin

section \<open>Concrete heaps\<close>

text \<open>
  A string at address 1000 and two arrays at 1100 and 1200, the last one being the newest
  instance, with the elements given; the entry at 1300 has not been used yet. The object types are at addresses 10 (arrays) and 11 (strings).
\<close>

definition gc_inst :: "cell list \<Rightarrow> addr \<Rightarrow> FInstance" where
  "gc_inst gen obj = \<lparr>i_gc_mark = 0, i_next = 0, i_gen = gen, i_obj = obj, i_properties = 0, i_values = 0,
     i_debug_hook = 0, i_cycle = 0, i_changed_p = False, i_extern_p = False\<rparr>"

definition gc_sample :: "cell list \<Rightarrow> cell list \<Rightarrow> fth_heap" where
  "gc_sample b c = \<lparr>g_insts = [1000 \<mapsto> gc_inst [] 11, 1100 \<mapsto> gc_inst b 10, 1200 \<mapsto> gc_inst c 10,
       1300 \<mapsto> (gc_inst [] 0)\<lparr>i_gc_mark := GC_FREED\<rparr>],
     g_instances = [1000, 1100, 1200, 1300], g_last_instance = 3, g_free_list = 0, g_inst_minmem = 1000,
     g_inst_maxmem = 1200, g_obj_minmem = 10, g_obj_maxmem = 11, g_obj_mark = (\<lambda>p. p = 10), g_gc_on_p = True,
     g_signal_caught_p = False\<rparr>"

lemma gc_sample_fields [simp]:
  "g_insts (gc_sample b c) = [1000 \<mapsto> gc_inst [] 11, 1100 \<mapsto> gc_inst b 10, 1200 \<mapsto> gc_inst c 10,
    1300 \<mapsto> (gc_inst [] 0)\<lparr>i_gc_mark := GC_FREED\<rparr>]"
  "visited (gc_sample b c) = [1000, 1100]" "in_inst_range (gc_sample b c) p \<longleftrightarrow> 1000 \<le> p \<and> p \<le> 1200"
  "OBJECT_TYPE_P (gc_sample b c) p \<longleftrightarrow> 10 \<le> p \<and> p \<le> 11" "g_free_list (gc_sample b c) = 0"
  "mark_calls (gc_sample b c) (gc_inst gen obj) = (if obj = 10 then gen else [])"
  "g_last_instance (gc_sample b c) = 3" "g_instances (gc_sample b c) = [1000, 1100, 1200, 1300]"
  by (simp_all add: gc_sample_def visited_def in_inst_range_def OBJECT_TYPE_P_def mark_calls_def gc_inst_def eval_nat_numeral)

lemma gc_inst_fields [simp]:
  "i_gen (gc_inst gen obj) = gen" "i_obj (gc_inst gen obj) = obj" "\<not> GC_FREED_P (gc_inst gen obj)"
  "\<not> GC_ANY_MARK_P (gc_inst gen obj)" "\<not> GC_ANY_MARK_P (gc_inst gen obj\<lparr>i_gc_mark := GC_FREED\<rparr>)"
  "GC_FREED_P (gc_inst gen obj\<lparr>i_gc_mark := GC_FREED\<rparr>)" "\<not> bit (i_gc_mark (gc_inst gen obj)) 0"
  by (simp_all add: gc_inst_def GC_FREED_P_def GC_ANY_MARK_P_def GC_FREED_def)

lemma gc_sample_inst: "is_inst (gc_sample b c) p \<longleftrightarrow> p \<in> {1000, 1100, 1200}"
  by (auto simp: is_inst_def)

lemma gc_sample_refs: "refs (gc_sample b c) \<subseteq> {1100, 1200} \<times> (set b \<union> set c)"
  by (auto simp: refs_def gc_sample_inst split: if_splits)

lemma gc_sample_heap_ok:
  assumes "set b \<subseteq> {1000, 1100, 1200}" and "set c \<subseteq> {1000, 1100, 1200}"
  shows "heap_ok (gc_sample b c)"
  using assms by (auto simp: heap_ok_def cells_ok_def split: if_splits)

lemma sample_roots:
  "gc_roots (sample_vm [r] []) = [r]" "gc_frames (sample_vm [r] []) = [0]"
  by (simp_all add: gc_roots_def gc_frames_def sample_vm_def sample_stack_def)

lemma gc_sample_collectable:
  assumes "set b \<subseteq> {1000}" and "set c \<subseteq> {1000}" and "r \<in> {1000, 1100, 1200}"
  shows "collectable (sample_vm [r] []) (gc_sample b c)"
proof -
  let ?g = "gc_sample b c"
  have sub: "refs ?g \<subseteq> {1100, 1200} \<times> {1000}" using gc_sample_refs [of b c] assms(1,2) by blast
  have "wf ((refs ?g)\<inverse>)"
  proof (rule wf_subset [OF wf_measure [of "\<lambda>p :: addr. if p = 1000 then 0 else 1"]])
    show "(refs ?g)\<inverse> \<subseteq> measure (\<lambda>p :: addr. if p = 1000 then 0 else 1)" using sub by auto
  qed
  then have "acyclic (refs ?g)" by (metis acyclic_converse converse_converse wf_acyclic)
  moreover have "heap_ok ?g" using assms(1,2) by (intro gc_sample_heap_ok) auto
  moreover have "inst_chain ?g 0 []" by simp
  ultimately show ?thesis
    using assms(3) unfolding collectable_def sample_roots
    by (auto simp: cells_ok_def entries_ok_def free_list_ok_def gc_sample_inst
        intro: exI [of _ "[]"])
qed

lemma gc_sample_live:
  assumes "set b \<subseteq> {1000}" and "set c \<subseteq> {1000}"
  shows "1100 \<in> gc_live (sample_vm [1100] []) (gc_sample [1000] c)" "1000 \<in> gc_live (sample_vm [1100] []) (gc_sample [1000] c)"
    "1000 \<notin> gc_live (sample_vm [1200] []) (gc_sample b c)"
proof -
  have none: "any_marked (gc_sample b c) = {}" for b c by (auto simp: any_marked_def split: if_splits)
  have fr: "frame_insts (gc_sample b c) [0] = {}" for b c
    by (auto simp: frame_insts_def dest!: inst_chain_unique [of "gc_sample b c" 0 "[]", rotated])
  have roots: "gc_root_insts (sample_vm [r] []) (gc_sample b c) = {r}" if "r \<in> {1000, 1100, 1200}" for r b c
    using that by (auto simp: gc_root_insts_def none fr sample_roots gc_sample_inst)
  show r: "1100 \<in> gc_live (sample_vm [1100] []) (gc_sample [1000] c)" by (simp add: gc_live_def roots)
  have "(1100, 1000) \<in> refs (gc_sample [1000] c)" by (simp add: refs_def gc_sample_inst)
  then show "1000 \<in> gc_live (sample_vm [1100] []) (gc_sample [1000] c)"
    by (auto simp: gc_live_def roots)
  show "1000 \<notin> gc_live (sample_vm [1200] []) (gc_sample b c)" by (simp add: gc_live_def roots)
qed

subsection \<open>An empty table\<close>

text \<open>The state before the first instance is made, and chunks of memory for the table.\<close>

definition gc_empty :: fth_heap where
  "gc_empty = \<lparr>g_insts = Map.empty, g_instances = [], g_last_instance = 0, g_free_list = 0, g_inst_minmem = 0,
     g_inst_maxmem = 0, g_obj_minmem = 10, g_obj_maxmem = 11, g_obj_mark = (\<lambda>p. p = 10), g_gc_on_p = True,
     g_signal_caught_p = False\<rparr>"

definition sample_chunk :: "addr \<Rightarrow> addr list" where
  "sample_chunk a = map (\<lambda>i. a + of_nat (8 * i)) [0..<GC_CHUNK_SIZE]"

lemma sample_chunk_at:
  assumes "unat (a :: addr) < 2 ^ 60" and "i < GC_CHUNK_SIZE"
  shows "unat (a + of_nat (8 * i)) = unat a + 8 * i"
proof -
  have "unat (of_nat (8 * i) :: addr) = 8 * i"
    using assms(2) by (simp add: GC_CHUNK_SIZE_def unat_of_nat take_bit_nat_eq_self del: of_nat_mult)
  moreover have "unat a + 8 * i < 2 ^ LENGTH(64)" using assms by (simp add: GC_CHUNK_SIZE_def)
  ultimately show ?thesis by (simp add: unat_word_ariths(1) del: of_nat_mult)
qed

lemma sample_chunk_facts:
  assumes "unat a < 2 ^ 60"
  shows "length (sample_chunk a) = GC_CHUNK_SIZE" and "distinct (sample_chunk a)"
    and "p \<in> set (sample_chunk a) \<Longrightarrow> unat a \<le> unat p \<and> unat p < unat a + 8 * GC_CHUNK_SIZE"
    and "sample_chunk a ! 0 = a" "sample_chunk a \<noteq> []" "hd (sample_chunk a) = a"
proof -
  have "inj_on (\<lambda>i. a + of_nat (8 * i)) {0..<GC_CHUNK_SIZE}"
  proof (rule inj_onI)
    fix i j assume "i \<in> {0..<GC_CHUNK_SIZE}" "j \<in> {0..<GC_CHUNK_SIZE}" "a + of_nat (8 * i) = a + of_nat (8 * j)"
    then have "unat a + 8 * i = unat a + 8 * j" using sample_chunk_at [OF assms] by (metis atLeastLessThan_iff)
    then show "i = j" by simp
  qed
  then show "distinct (sample_chunk a)" by (simp add: sample_chunk_def distinct_map del: of_nat_mult)
  show "p \<in> set (sample_chunk a) \<Longrightarrow> unat a \<le> unat p \<and> unat p < unat a + 8 * GC_CHUNK_SIZE"
    using sample_chunk_at [OF assms] by (auto simp: sample_chunk_def simp del: of_nat_mult)
  show l: "length (sample_chunk a) = GC_CHUNK_SIZE" by (simp add: sample_chunk_def)
  show n: "sample_chunk a ! 0 = a" by (simp add: sample_chunk_def GC_CHUNK_SIZE_def)
  show "sample_chunk a \<noteq> []" using l by (auto simp: GC_CHUNK_SIZE_def)
  then show "hd (sample_chunk a) = a" using n by (simp add: hd_conv_nth)
qed

lemma gc_empty_ready:
  "collectable (sample_vm [] []) gc_empty" "table_ok gc_empty" "chunk_ok gc_empty (sample_chunk 1000)" "OBJECT_TYPE_P gc_empty 10"
proof -
  have chain: "inst_chain gc_empty 0 []" by simp
  have none: "\<not> is_inst gc_empty p" for p by (simp add: is_inst_def gc_empty_def)
  have "refs gc_empty = {}" using none by (auto simp: refs_def)
  moreover have "gc_roots (sample_vm [] []) = []" "gc_frames (sample_vm [] []) = [0]"
    by (simp_all add: gc_roots_def gc_frames_def sample_vm_def sample_stack_def)
  ultimately show "collectable (sample_vm [] []) gc_empty"
    using chain by (auto simp: collectable_def heap_ok_def cells_ok_def free_list_ok_def entries_ok_def visited_def gc_empty_def
        acyclic_def intro: exI [of _ "[]"])
  show "table_ok gc_empty"
    by (auto simp: table_ok_def table_but_def used_entries_def entries_ok_def free_list_in_def gc_empty_def GC_CHUNK_SIZE_def
        intro: exI [of _ "[]"])
  show "chunk_ok gc_empty (sample_chunk 1000)"
    using sample_chunk_facts(1,2) [of 1000] sample_chunk_facts(3) [of 1000 NULL] by (auto simp: chunk_ok_def gc_empty_def)
qed (simp add: OBJECT_TYPE_P_def gc_empty_def)

text \<open>The table with its first instance, an array that holds 5.\<close>

definition gc_first :: fth_heap where
  "gc_first = set_inst 1000 \<lparr>i_gc_mark = GC_MARK, i_next = 0, i_gen = [5], i_obj = 10, i_properties = 0, i_values = 0,
     i_debug_hook = 0, i_cycle = 0, i_changed_p = True, i_extern_p = False\<rparr>
     (widen 1000 ((new_chunk (sample_chunk 1000) gc_empty)\<lparr>g_last_instance := 1\<rparr>))"

lemma make_first:
  "fth_make_instance 0 (\<lambda>_. False) (sample_chunk 1000) 10 [5] (sample_vm [] []) gc_empty =
    Some (Ok (1000, (sample_vm [] [])\<lparr>vm_gc_inst := (\<lambda>_. 0)(0 := 1000)\<rparr>, gc_first))"
proof -
  have "reuse_instance (sample_vm [] []) gc_empty = Some (Ok (NULL, gc_empty))"
    by (simp add: reuse_instance_def gc_empty_def)
  moreover have "next_of_table (sample_chunk 1000) gc_empty =
      Ok (1000, (new_chunk (sample_chunk 1000) gc_empty)\<lparr>g_last_instance := 1\<rparr>)"
    using sample_chunk_facts(1,4,5) [of 1000] by (simp add: next_of_table_def new_chunk_def gc_empty_def Let_def GC_CHUNK_SIZE_def)
  ultimately show ?thesis
    by (simp add: fth_make_instance_def gc_next_instance_def gc_first_def Let_def gc_empty_ready(4) sample_vm_def)
qed

lemma gc_first_ready:
  "heap_ok gc_first" "acyclic (refs gc_first)" "cells_ok gc_first (gc_roots (sample_vm [] []))"
  "chunk_ok gc_first (sample_chunk 1000000)"
proof -
  have f: "g_insts gc_first p = Some i \<Longrightarrow> i_gen i = (if p = 1000 then [5] else [])" for p i
    by (auto simp: gc_first_def set_inst_def new_chunk_def gc_empty_def Let_def split: if_splits)
  have r: "in_inst_range gc_first p \<longleftrightarrow> p = 1000" for p
    using sample_chunk_facts(6) [of 1000]
    by (auto simp: gc_first_def set_inst_def new_chunk_def gc_empty_def Let_def widen_def in_inst_range_def sample_chunk_facts(6))
  show "heap_ok gc_first" by (auto simp: heap_ok_def cells_ok_def r dest: f split: if_splits)
  have "refs gc_first = {}"
  proof -
    have "c \<notin> set (mark_calls gc_first (the (g_insts gc_first p)))" if h: "is_inst gc_first p" "is_inst gc_first c" for p c
    proof -
      have "p = 1000" "c = 1000" using h r by (simp_all add: is_inst_def)
      obtain i :: FInstance where "g_insts gc_first p = Some i" using h(1) by (rule is_instE)
      then show ?thesis using f [of p i] \<open>p = 1000\<close> \<open>c = 1000\<close> by (simp add: mark_calls_def)
    qed
    then show ?thesis by (auto simp: refs_def)
  qed
  then show "acyclic (refs gc_first)" by (simp add: acyclic_def)
  show "cells_ok gc_first (gc_roots (sample_vm [] []))"
    by (simp add: cells_ok_def gc_roots_def sample_vm_def sample_stack_def)
  have "g_insts gc_first p = None" if "p \<notin> set (sample_chunk 1000)" "p \<noteq> 1000" for p
    using that by (simp add: gc_first_def set_inst_def new_chunk_def gc_empty_def Let_def)
  moreover have "p \<notin> set (sample_chunk 1000) \<and> p \<noteq> 1000 \<and> p \<noteq> 0" if "p \<in> set (sample_chunk 1000000)" for p
    using sample_chunk_facts(3) [of 1000 p] sample_chunk_facts(3) [of 1000000 p] that by (auto simp: GC_CHUNK_SIZE_def)
  ultimately show "chunk_ok gc_first (sample_chunk 1000000)"
    using sample_chunk_facts(1,2) [of 1000000] by (auto simp: chunk_ok_def)
qed

end
