(* ===== verification/Spec2Isabelle.thy ===== *)
theory Spec2Isabelle
  imports Ficl_Locals_Samples Ficl_Primitive_Samples Fth_Hook_Samples Fth_Proc_Samples Fth_Printf_Samples Fth_Number_Samples Fth_Samples Fth_String_Samples Fth_Gc_Samples
begin

text \<open>
  FTH is a Forth system: the interpreter Ficl (directory \<open>ficl\<close>) and an object system with arrays,
  lists, hash tables, strings and numbers on top of it (directory \<open>src\<close>). This development models the
  interpreter from its stacks to the execution of text, and the containers of the object system, and
  proves what makes them correct. File names below are relative to the repository.

  \<^bold>\<open>The parts and how they interact.\<close> A virtual machine has a data and a return stack and executes compiled
  code, which is a sequence of cells in the dictionary. The dictionary holds the headers of words and their
  code; wordlists are hash tables of words. The outer interpreter reads the input word by word, looks each word up along the
  search order, and executes it with the inner interpreter or compiles it. Control structures are compiled by
  immediate words that leave tags and addresses on the data stack. Containers are objects whose
  operations programs call as words.

  \<^bold>\<open>State and errors.\<close> Structures of C are records with the names of their fields, prefixed. An
  address is a 64 bit word; memory is a partial map from addresses to bytes (\<open>bytes\<close>), the headers of words and the wordlists
  are kept by their addresses in the same heap (\<open>ficlHeap\<close>). Stacks are total
  maps from positions to cells with bounds. A function returns an \<open>outcome\<close>: \<open>Ok\<close> with the result and the new
  state, \<open>Throw\<close> for \<open>longjmp\<close> with the code of the exception and the state at that point, \<open>Fault\<close> for an
  access outside of an object or of its defined contents. Machine integers are words with their wrap-around, or \<open>int\<close> where a bound
  excludes overflow.

  \<^bold>\<open>Theories of the interpreter.\<close>
  \<^item> \<open>Ficl_Prelude\<close>: cells, outcomes, characters, lists of cells, shared lemmas.
  \<^item> \<open>Ficl_Utility\<close> (\<open>ficl/utility.c\<close>): alignment, double cell arithmetic, printing of numbers, division. Locale
    for the digits of numerals.
  \<^item> \<open>Ficl_Stack\<close> (\<open>ficl/stack.c\<close>): every operation on cells; a stack as a list (\<open>stack_list\<close>), with a locale for bounded stacks.
  \<^item> \<open>Ficl_Wordlist\<close> (\<open>ficl/hash.c\<close>, \<open>ficl/word.c\<close>): memory, words, wordlists as maps from names without case to words; the locales of
    name tables and of name stores.
  \<^item> \<open>Ficl_Tokens\<close> (\<open>ficl/ficltokens.h\<close>): the numbers of the instructions, classification of words.
  \<^item> \<open>Ficl_Dictionary\<close> (\<open>ficl/dictionary.c\<close>): allocation, compilation, definition, lookup.
  \<^item> \<open>Ficl_Vm\<close>, \<open>Ficl_Inner_Loop\<close> (\<open>ficl/vm.c\<close>): the machine, one definition per instruction of
    \<open>ficlVmInnerLoop\<close>, the dispatch and the loop.
  \<^item> \<open>Ficl_Effects\<close>: the stack effects of the instructions against a table in the notation of the
    Forth standard, and where a check asks for more room than the result takes (\<open>spare_cells\<close>); \<open>Ficl_Flow\<close>: calls, returns and counted loops; \<open>Ficl_Jumps\<close>: the optimiser of jumps.
  \<^item> \<open>Ficl_Locals\<close> (\<open>ficl/primitives.c\<close>): \<open>(local)\<close>, named locals, \<open>to\<close>, \<open>+to\<close> and \<open>f+to\<close>; \<open>Ficl_Locals_Laws\<close>: the locals dictionary as a
    list of names, the code of declarations and accesses; \<open>Ficl_Frames\<close>: the frames that this code opens, reads and writes. The function for
    named locals is known by its address \<open>im\<close>; the protection of objects and the hooks of traced variables are parameters.
  \<^item> \<open>Ficl_Parse\<close>: words, delimited strings and numbers of the input, literals; \<open>Ficl_Control\<close>
    (\<open>ficl/primitives.c\<close>): the compiling words of control structures against the code of a syntax tree.
  \<^item> \<open>Ficl_Search\<close> (\<open>ficl/search.c\<close>): the words for the search order.
  \<^item> \<open>Ficl_Outer\<close> (\<open>ficl/vm.c\<close>, \<open>ficl/primitives.c\<close>, \<open>ficl/system.c\<close>): lookup and execution or compilation of a
    word, the parse chain, execution of texts and of single words with their handlers, checks of the dictionary.
  \<^item> \<open>Ficl_Exceptions\<close>, \<open>Ficl_Primitives\<close> (\<open>ficl/primitives.c\<close>): \<open>execute\<close>, \<open>evaluate\<close>, \<open>catch\<close> and \<open>throw\<close>; defining words,
    words as values, comments, string literals, pictured numbers, digits, mixed arithmetic. \<open>Ficl_Arith\<close>: rules for
    what a primitive leaves on the stack, and floored division; \<open>Ficl_Literals\<close>: the layout of string literals and their execution;
    \<open>Ficl_Pictured\<close>: the digits in the scratch area.

  \<^bold>\<open>Theories of the containers.\<close>
  \<^item> \<open>Fth_Array\<close>, \<open>Fth_Array_Laws\<close> (\<open>src/array.c\<close>): arrays in the middle of a buffer; an array as
    the list of its elements (\<open>array_holds\<close>); locale of double-ended queues.
  \<^item> \<open>Fth_Maps\<close>: the locale of keyed maps; \<open>Fth_Assoc\<close>: association arrays over a store of arrays; \<open>Fth_Lists\<close>:
    insertion, appending and lists, where arrays may be the same object.
  \<^item> \<open>Fth_String\<close>, \<open>Fth_String_Laws\<close> (\<open>src/string.c\<close>): strings in the middle of a buffer, with the NUL behind them that the functions of the C library
    need; what each operation does to the list of characters, and where it loses the NUL or the buffer. Strings are the second instance of the locale of double-ended queues.
  \<^item> \<open>Fth_Hash\<close>, \<open>Fth_Hash_Laws\<close> (\<open>src/hash.c\<close>): hash tables as maps on classes of equal keys.

  \<^bold>\<open>Theories of the numbers\<close> (\<open>src/numbers.c\<close>). \<open>Fth_Number\<close>: fixnums, long and big integers and ratios, their conversion, arithmetic and comparison through the
  greater one of two types, their text and their words; \<open>Fth_Number_Laws\<close>: the value of an exact number (\<open>exact_value\<close>), the canonical form of ratios (\<open>rt_ok\<close>), and that every
  operation computes with the values.

  \<^bold>\<open>Theories of formatted output\<close> (\<open>src/printf.c\<close>). \<open>Fth_Printf\<close>: \<open>doprnt\<close> and \<open>string_doprnt\<close>, which print a format with arguments of C or with objects, and the
  buffers that collect what they print; \<open>Fth_Printf_Laws\<close>: directives as they are written (\<open>show_directive\<close>), printing piece by piece (\<open>print_pieces\<close>), the digits of
  integers, and how much is stored.

  \<^bold>\<open>Theories of procedures\<close> (\<open>src/proc.c\<close>). \<open>Fth_Proc\<close>: words with an arity, their execution with arguments on the stack of the machine, optional and
  keyword arguments; \<open>Fth_Proc_Laws\<close>: what these do to the list of cells on the stack (\<open>stacked\<close>).

  \<^bold>\<open>Theories of hooks\<close>. \<open>Fth_Simple\<close> (\<open>src/utils.c\<close>): simple arrays, each seen as the list of its elements (\<open>sa_holds\<close>), with the locale of lists of procedures;
  \<open>Fth_Hook\<close> (\<open>src/hook.c\<close>): hooks and the running of their procedures, \<open>Fth_Hook_Laws\<close>: its effect when they leave the hook as it is (\<open>runs\<close>).

  \<^bold>\<open>Theories of the collector\<close> (\<open>src/object.c\<close>). \<open>Fth_Object\<close>: instances, their table, marks, the mark and free phases, the free
  list and the making of an instance; \<open>Fth_Gc\<close>: which instances a collection keeps (\<open>gc_live\<close>, without what only the instance made last refers to), the order of the
  table of instances (\<open>table_ok\<close>), and that the making of an instance takes an entry that is not alive and keeps this order.

  \<open>Ficl_Samples\<close>, \<open>Ficl_Primitive_Samples\<close>, \<open>Fth_Samples\<close>, \<open>Fth_String_Samples\<close>, \<open>Fth_Number_Samples\<close>, \<open>Fth_Printf_Samples\<close>, \<open>Fth_Proc_Samples\<close>, \<open>Fth_Hook_Samples\<close> and \<open>Fth_Gc_Samples\<close> hold the concrete states on which the properties of this theory are
  evaluated. The properties C1 to C40 below are the claims of the development; each rests on the lemmas of
  the theory of its component, or on the interpretation of a locale there (\<open>wl\<close>, \<open>ficl_stk\<close>, \<open>dc\<close>, \<open>fa\<close>, \<open>fs\<close>, \<open>am\<close>, \<open>hs\<close>, \<open>sa\<close>).

  \<^bold>\<open>Parameters.\<close> The object system and the C functions of primitives are arguments of the interpreter, gathered in the
  record \<open>fth_env\<close>. A cell that is equal to the address of a live object or word is taken for that object, so the theorem about loops assumes
  that the cells of its indices are read as integers (\<open>plain_ints\<close>). For the containers the allocator of objects, the hash code and the
  equality of objects are arguments, with the assumptions that a new object has an unused address while there is one
  (\<open>alloc_fresh\<close>) and that equality is an equivalence that the hash code respects
  (\<open>key_laws\<close>), as the documentation of \<open>hash-id\<close> says. The big integers of \<open>bn(3)\<close> and the floats and complex numbers of the C library
  are the record \<open>num_env\<close>; \<open>bn_laws\<close> states that the functions of \<open>bn(3)\<close> compute with integers, \<open>bn_text_laws\<close> that they print and read decimals, and
  \<open>print_env\<close> holds the texts of objects and \<open>snprintf\<close> for floats; \<open>proc_env\<close> holds the arrays of arguments and the undefined object; \<open>float_laws\<close> states what \<open>frexp\<close>, \<open>ldexp\<close> and the conversion to integers do on finite floats.

  \<^bold>\<open>Termination.\<close> Loops with a bound are structural or have a measure. Chains of wordlists in memory may be cyclic, so the
  lookup is a partial function into \<open>option\<close>, where \<open>None\<close> is a run without end; on well-formed wordlists it is shown to
  return. The replacement of an empty text in a string need not end either. The marking of instances follows references that may be cyclic and is of the same kind. The inner loop (\<open>inner_run\<close>) is a partial function of the same kind; that the counted loop and the interpretation of
  a text end is part of their theorems. No fuel is used.
  Bounds: arrays hold up to \<open>array_limit\<close> elements, half of \<open>MAX_SEQ_LENGTH\<close> less one, below which no operation refuses to grow;
  strings up to \<open>str_limit\<close> characters;
  addresses of branches are within $2^{58}$ cells, so that distances do not wrap around.

  \<^bold>\<open>Not modelled.\<close> The words for floats and complex numbers, whose functions are those of the C library, and the parse steps
  for them; regular expressions and symbols, the texts of hooks, the texts and the definition of procedures; object types, the generic operations on objects and
  back-traces of \<open>src/object.c\<close>; input, output and files; the debugger and \<open>see\<close>; start-up and registration
  of words; sorting of arrays, which is \<open>qsort\<close>; \<open>setjmp\<close> as such, whose
  use is modelled by \<open>Throw\<close>. Still to come, in this order: the words of \<open>src/proc.c\<close> that
  read the names of locals from the input, prefixes, the stack words and remaining functions of lists, and
  symbols.
\<close>

section \<open>Words and wordlists\<close>

text \<open>
Wordlists are case-insensitive maps in which the last definition wins: after inserting any
sequence of new words with \<open>ficlHashInsertWord\<close> into a wordlist, \<open>ficlHashLookup\<close> with the
hash code of a name returns the last inserted word whose name differs at most in case, and
otherwise the word that the list had for the name before, or \<open>NULL\<close>.
\<close>

theorem wordlist_lookup_after_inserts:
  assumes "hash_view h a W m" and "list_all2 (\<lambda>p n. word_ok h p \<and> word_text h p = Some n) ps ns"
    and "distinct ps" and "set ps \<inter> W = {}" and "name_ok name"
  shows "\<exists>h'. wl.add_all h a ps = Ok h' \<and> ficlHashLookup h' a name (ficlHashCode name) =
    Some (Ok (opt_addr ((m ++ map_of (rev (zip (map fold_name ns) ps))) (fold_name name))))"
  using assms by (rule wl.look_added)

theorem wordlist_lookup_after_inserts_witness:
  "\<exists>h'. wl.add_all sample_heap 400 [200] = Ok h' \<and>
    ficlHashLookup h' 400 ''DUP'' (ficlHashCode ''DUP'') = Some (Ok 200)"
  using wordlist_lookup_after_inserts [of sample_heap 400 "{}" Map.empty "[200]" "[''dup'']" "''DUP''"]
  by (simp add: sample_views sample_word_ok sample_word_text sample_name_ok opt_addr_def sample_fold)

text \<open>
C1. The dictionary searches the wordlists of the search order from the last one down:
\<open>ficlDictionaryLookup\<close> always terminates without fault and returns the word of the first
list in that order that has one for the name, or \<open>NULL\<close>.
\<close>

theorem dictionary_search_order:
  assumes "0 \<le> d_wordlistCount d" and "d_wordlistCount d \<le> int (length (d_wordlists d))"
    and "list_all2 (\<lambda>a m. \<exists>W. hash_view (d_heap d) a W m)
           (rev (take (nat (d_wordlistCount d)) (d_wordlists d))) ms"
    and "name_ok name"
  shows "ficlDictionaryLookup d name =
    Some (Ok (opt_addr (foldr (\<lambda>m acc. acc ++ m) ms Map.empty (fold_name name))))"
  using assms by (rule ficlDictionaryLookup_order)

theorem dictionary_search_order_witness: "ficlDictionaryLookup sample_dict ''DUP'' = Some (Ok 200)"
proof -
  have "list_all2 (\<lambda>a m. \<exists>W. hash_view (d_heap sample_dict) a W m)
      (rev (take (nat (d_wordlistCount sample_dict)) (d_wordlists sample_dict))) [[''dup'' \<mapsto> 200], Map.empty]"
    using sample_views by (auto simp: sample_dict_def)
  from dictionary_search_order [OF _ _ this sample_name_ok(2)] show ?thesis
    by (simp add: sample_fold opt_addr_def) (simp add: sample_dict_def)
qed

text \<open>
C2. Defining a word makes it findable and keeps every other name: on a well-formed dictionary
with enough room, \<open>ficlDictionaryAppendWord\<close> with the name \<open>s\<close> succeeds, keeps the
dictionary well formed, leaves \<open>here\<close> at the parameter field of the new word, and a lookup
finds the new word under every spelling of \<open>s\<close> and what it found before under any other name.
\<close>

theorem define_then_find:
  assumes "dict_ok d bs" and "name_ok s" and "room d (length s + 9 + header_size)"
    and "flags AND FICL_WORD_SMUDGED = 0" and "name_ok name"
  shows "\<exists>d' bs'. ficlDictionaryAppendWord d s code flags = Ok (new_word_addr d s, d') \<and>
    dict_ok d' bs' \<and> d_here d' = word_param (new_word_addr d s) \<and>
    ficlHashLookup (d_heap d') (d_compilationWordlist d') name (ficlHashCode name) =
      (if fold_name name = fold_name s then Some (Ok (new_word_addr d s))
       else ficlHashLookup (d_heap d) (d_compilationWordlist d) name (ficlHashCode name))"
proof -
  obtain d' bs' where d': "ficlDictionaryAppendWord d s code flags = Ok (new_word_addr d s, d')"
      "dict_ok d' bs'" "names (d_heap d') bs' = (names (d_heap d) bs)(fold_name s \<mapsto> new_word_addr d s)"
      "d_here d' = word_param (new_word_addr d s)"
    using ficlDictionaryAppendWord_names [OF assms(1-4)] by blast
  have "ficlHashLookup (d_heap d') (d_compilationWordlist d') name (ficlHashCode name) =
      Some (Ok (opt_addr (names (d_heap d') bs' (fold_name name))))"
    and "ficlHashLookup (d_heap d) (d_compilationWordlist d) name (ficlHashCode name) =
      Some (Ok (opt_addr (names (d_heap d) bs (fold_name name))))"
    using d'(2) assms(1,5) by (simp_all add: ficlHashLookup_names dict_ok_def)
  then show ?thesis using d' by (intro exI [of _ d'] exI [of _ bs']) (simp add: opt_addr_def)
qed

theorem define_then_find_witness:
  "\<exists>d'. ficlDictionaryAppendWord sample_dict ''dup'' 7 0 = Ok (4104, d') \<and>
    ficlHashLookup (d_heap d') (d_compilationWordlist d') ''DUP'' (ficlHashCode ''DUP'') = Some (Ok 4104)"
proof -
  have "dict_ok sample_dict [[]]"
    using sample_empty_list by (simp add: dict_ok_def) (simp add: sample_dict_def)
  moreover have "new_word_addr sample_dict ''dup'' = 4104"
    by (simp add: new_word_addr_def ficlAlignPointer_alt) (simp add: sample_dict_def)
  ultimately show ?thesis
    using define_then_find [of sample_dict "[[]]" "''dup''" 0 "''DUP''" 7]
    by (auto simp: sample_name_ok sample_room header_size_def sample_fold)
qed

section \<open>Stacks\<close>

text \<open>
\<open>ficlStackRoll\<close> with a positive count moves the cell that many places below the top to
the top, and with a negative count moves the top cell down; all other cells keep their order.
\<close>

theorem stack_roll_moves_one_cell:
  assumes "stack_wf s" and "0 < n" and "n < length (stack_list s)"
  shows "\<exists>u v. ficlStackRoll s (int n) = Ok u \<and> stack_wf u \<and>
    stack_list u = (stack_list s ! n) # take n (stack_list s) @ drop (Suc n) (stack_list s) \<and>
    ficlStackRoll s (- int n) = Ok v \<and> stack_wf v \<and>
    stack_list v = take n (tl (stack_list s)) @ hd (stack_list s) # drop (Suc n) (stack_list s)"
  using ficlStackRoll_up [OF assms] ficlStackRoll_down [OF assms] by blast

theorem stack_roll_moves_one_cell_witness:
  "\<exists>u. ficlStackRoll (sample_stack ''data'' [1, 2, 3, 4]) 2 = Ok u \<and> stack_list u = [3, 1, 2, 4]"
  using stack_roll_moves_one_cell [of "sample_stack ''data'' [1, 2, 3, 4]" 2]
  by (auto simp: numeral_2_eq_2)

section \<open>Instructions\<close>

text \<open>
C3. The stack, arithmetic and comparison instructions implement their stack effects. For each of
the entries of \<open>forth_spec\<close> (\<open>dup\<close>, \<open>swap\<close>, \<open>rot\<close>, \<open>+\<close>, \<open>*\<close>, \<open><\<close>, \<open>2/\<close>, \<open>and\<close> and so on), which takes \<open>p\<close> cells
and computes \<open>f\<close>, the inner loop dispatches to an instruction that throws stack underflow when there are fewer
than \<open>p\<close> cells, throws stack overflow when the stack with the result of \<open>f\<close> does not fit, and otherwise replaces just
the cells it takes by the result and changes nothing else in the machine. In four
instructions the check for overflow is stricter than needed: \<open>rot\<close> and \<open>-rot\<close>, and \<open>?dup\<close> of a false cell, which leave
as many cells as they take, throw stack overflow on a full stack (\<open>spare_cells\<close>).
\<close>

theorem instructions_meet_forth_spec:
  assumes "(c, p, f) \<in> set (forth_spec E)"
  shows "\<exists>i. inner_switch E fw c = Some (\<lambda>vm. Some (i vm)) \<and> (\<forall>vm. vm_wf vm \<longrightarrow>
    (let xs = take p (data vm); ys = f xs @ drop p (data vm) in
     if length (data vm) < p then i vm = stack_error FICL_VM_STATUS_STACK_UNDERFLOW vm
     else if st_size (vm_dataStack vm) < length ys + spare_cells E c xs
     then i vm = stack_error FICL_VM_STATUS_STACK_OVERFLOW vm
     else data_step vm ys (i vm)))"
  using assms forth_spec_sound [of E fw] unfolding list_all_iff effect_sound_def meets_effect_def by fastforce

theorem instructions_meet_forth_spec_witness:
  "(ficlInstructionRot, 3, \<lambda>xs. [xs ! 2, xs ! 0, xs ! 1]) \<in> set (forth_spec sample_env) \<and>
    (\<exists>i. inner_switch sample_env 0 ficlInstructionRot = Some (\<lambda>vm. Some (i vm)) \<and>
      data_step (sample_vm [1, 2, 3] []) [3, 1, 2] (i (sample_vm [1, 2, 3] [])) \<and>
      i (sample_vm (replicate 16 0) []) = stack_error FICL_VM_STATUS_STACK_OVERFLOW (sample_vm (replicate 16 0) []))"
proof -
  have m: "(ficlInstructionRot, 3, \<lambda>xs. [xs ! 2, xs ! 0, xs ! 1]) \<in> set (forth_spec sample_env)"
    by (simp add: forth_spec_def manipulation_spec_def)
  from instructions_meet_forth_spec [OF this, of 0] obtain i where
    i: "inner_switch sample_env 0 ficlInstructionRot = Some (\<lambda>vm. Some (i vm))" and
    e: "\<And>vm. vm_wf vm \<Longrightarrow>
    (let xs = take 3 (data vm); ys = [xs ! 2, xs ! 0, xs ! 1] @ drop 3 (data vm) in
     if length (data vm) < 3 then i vm = stack_error FICL_VM_STATUS_STACK_UNDERFLOW vm
     else if st_size (vm_dataStack vm) < length ys + spare_cells sample_env ficlInstructionRot xs
     then i vm = stack_error FICL_VM_STATUS_STACK_OVERFLOW vm
     else data_step vm ys (i vm))" by blast
  have "data_step (sample_vm [1, 2, 3] []) [3, 1, 2] (i (sample_vm [1, 2, 3] []))"
    using e [OF sample_vm_wf, of "[1, 2, 3]" "[]"] by (simp add: spare_simps Let_def)
  moreover have "i (sample_vm (replicate 16 0) []) = stack_error FICL_VM_STATUS_STACK_OVERFLOW (sample_vm (replicate 16 0) [])"
    using e [OF sample_vm_wf, of "replicate 16 0" "[]"] by (simp add: spare_simps Let_def)
  ultimately show ?thesis using m i by blast
qed

text \<open>
Calls nest: entering a colon definition with \<open>(:)\<close> continues at its parameter field, and
when its body reaches \<open>(;)\<close> with the return stack as it was on entry, execution continues
behind the call with the return stack as it was before the call.
\<close>

theorem colon_call_returns:
  assumes "vm_wf vm" and "length (rets vm) < st_size (vm_returnStack vm)" and "fw \<noteq> NULL"
  shows "\<exists>vm1. instr_ColonParen fw vm = Ok (Continue vm1) \<and> vm_wf vm1 \<and> vm_ip vm1 = word_param fw \<and>
    data vm1 = data vm \<and> (\<forall>vm2. vm_wf vm2 \<and> rets vm2 = rets vm1 \<longrightarrow>
      (\<exists>vm3. instr_SemiParen vm2 = Ok (Continue vm3) \<and> vm_ip vm3 = vm_ip vm \<and> rets vm3 = rets vm \<and>
        vm_dataStack vm3 = vm_dataStack vm2))"
proof -
  have r: "rets (rpushed (vm_ip vm) vm) = vm_ip vm # rets vm" "vm_wf (rpushed (vm_ip vm) vm)"
      "data (rpushed (vm_ip vm) vm) = data vm"
    using assms(1,2) by (simp_all add: flow_simps)
  have "\<exists>vm3. instr_SemiParen vm2 = Ok (Continue vm3) \<and> vm_ip vm3 = vm_ip vm \<and> rets vm3 = rets vm \<and>
      vm_dataStack vm3 = vm_dataStack vm2" if "vm_wf vm2" "rets vm2 = vm_ip vm # rets vm" for vm2
    using semi_return [OF that] that by (auto simp: flow_simps)
  then show ?thesis using colon_enter [OF assms] r by (auto simp: flow_simps)
qed

theorem colon_call_returns_witness:
  "\<exists>vm1. instr_ColonParen 200 (sample_vm [] []) = Ok (Continue vm1) \<and> vm_ip vm1 = 344"
  using colon_call_returns [of "sample_vm [] []" 200] sample_vm_wf [of "[]" "[]"]
  by (auto simp: word_param_def header_size_def)

text \<open>
C4. Counted loops are correct: let \<open>(loop)\<close> be compiled at \<open>a\<close> with a branch back to the head of
the loop, and let \<open>first < l\<close> be fixnums (between \<open>- (2 ^ 62)\<close> and \<open>2 ^ 62\<close>) such that the cells of the
numbers from \<open>first\<close> to \<open>l\<close> are read as these numbers, that is, none of them is the address of a live object or word
(\<open>plain_ints\<close>). If every round of the body takes the machine from the head to \<open>a\<close>, keeps the return
stack and turns the assertion \<open>P i\<close> on the data stack into \<open>P (i + 1)\<close>, then the loop started
with index \<open>first\<close> and limit \<open>l\<close> reaches the instruction behind it after finitely many steps, with
\<open>P l\<close>, and the three cells of the loop removed from the return stack.
\<close>

theorem counted_loop_correct:
  assumes "plain_ints E first l"
    and "load_cell (d_bytes d) a = Some ficlInstructionLoopParen"
    and "load_cell (d_bytes d) (a + 8) = Some off" and "a \<noteq> NULL" and "a + 8 \<noteq> NULL"
    and "- (2 ^ 62) \<le> first" and "l < 2 ^ 62"
    and "\<And>i vm. first \<le> i \<Longrightarrow> i < l \<Longrightarrow> vm_wf vm \<Longrightarrow> vm_dict vm = d \<Longrightarrow>
      vm_ip vm = a + 8 + 8 * off \<Longrightarrow> rets vm = of_int i # of_int l # leave # rs \<Longrightarrow> P i (vm_dataStack vm) \<Longrightarrow>
      \<exists>vm'. reaches E vm vm' \<and> vm_wf vm' \<and> vm_dict vm' = d \<and> vm_ip vm' = a \<and> rets vm' = rets vm \<and>
        P (i + 1) (vm_dataStack vm')"
    and "first < l" and "vm_wf vm" and "vm_dict vm = d" and "vm_ip vm = a + 8 + 8 * off"
    and "rets vm = of_int first # of_int l # leave # rs" and "P first (vm_dataStack vm)"
  shows "\<exists>vm'. reaches E vm vm' \<and> vm_wf vm' \<and> vm_dict vm' = d \<and> vm_ip vm' = a + 16 \<and> rets vm' = rs \<and>
    P l (vm_dataStack vm')"
  using assms by (rule counted_loop [where P = P])

theorem counted_loop_correct_witness:
  "\<exists>vm'. reaches sample_env (loop_vm [0] [0, 5, 7, 1]) vm' \<and> vm_ip vm' = 3024 \<and> rets vm' = [1] \<and> data vm' = [5]"
proof -
  let ?P = "\<lambda>i s. stack_list s = [of_int i :: cell]"
  have body: "\<exists>vm'. reaches sample_env vm vm' \<and> vm_wf vm' \<and> vm_dict vm' = loop_dict \<and> vm_ip vm' = 3008 \<and>
      rets vm' = rets vm \<and> ?P (i + 1) (vm_dataStack vm')"
    if "vm_wf vm" "vm_dict vm = loop_dict" "vm_ip vm = 3008 + 8 + 8 * - 2" "?P i (vm_dataStack vm)" for i vm
    using loop_body [of vm "of_int i" sample_env] that by simp
  have "\<exists>vm'. reaches sample_env (loop_vm [0] [0, 5, 7, 1]) vm' \<and> vm_wf vm' \<and> vm_dict vm' = loop_dict \<and>
      vm_ip vm' = 3008 + 16 \<and> rets vm' = [1] \<and> ?P 5 (vm_dataStack vm')"
    by (rule counted_loop_correct [where first = 0 and l = 5 and off = "- 2" and leave = 7 and a = 3008 and rs = "[1]"
          and d = loop_dict and P = ?P])
       ((rule body; assumption) | simp add: sample_plain_ints loop_code loop_vm_wf)+
  then show ?thesis by auto
qed

text \<open>
C5. The jump optimiser is safe: on code whose branches lead to instructions,
\<open>ficlVmOptimizeJumpToJump\<close> terminates without fault, also for cyclic jumps, keeps every
instruction up to the mark of an unchecked branch, and moves the target of a branch only
along unconditional jumps of the original code, so that execution continues at a place the
original code would have reached.
\<close>

theorem jump_optimiser_preserves_targets:
  assumes "code_ok m C" and "ip \<in> C"
  shows "\<exists>m'. ficlVmOptimizeJumpToJump m ip = Some (Ok m') \<and> rerouted m C m'"
  using assms by (rule optimize_jump_correct)

theorem jump_optimiser_preserves_targets_witness:
  "\<exists>m'. ficlVmOptimizeJumpToJump jump_bytes 3000 = Some (Ok m') \<and> rerouted jump_bytes {3000, 3016, 3032} m'"
  using jump_optimiser_preserves_targets [OF jump_code_ok, of 3000] by simp

section \<open>Reading and compiling\<close>

text \<open>
C6. The input is read word by word: repeated calls of \<open>ficlVmGetWord\<close> yield the maximal runs of
characters other than white space, in order, whatever white space lies between them, and
change nothing in the machine but the position in the input; when no word is left,
\<open>ficlVmGetWord\<close> throws the restart exception.
\<close>

theorem input_read_word_by_word:
  assumes "tib_ok vm" and "tokens (input vm) = ws"
  shows "\<exists>t. read_words (length ws) vm = Ok (ws, vm\<lparr>vm_tib := t\<rparr>) \<and>
    (\<exists>u. ficlVmGetWord (vm\<lparr>vm_tib := t\<rparr>) = ficlVmThrow (vm\<lparr>vm_tib := u\<rparr>) FICL_VM_STATUS_RESTART)"
proof -
  obtain t where t: "read_words (length ws) vm = Ok (ws, vm\<lparr>vm_tib := t\<rparr>)" "tib_ok (vm\<lparr>vm_tib := t\<rparr>)"
      "tokens (input (vm\<lparr>vm_tib := t\<rparr>)) = []"
    using read_words_tokens [OF assms(1), of ws "[]"] assms(2) by auto
  then show ?thesis using ficlVmGetWord_end [OF t(2,3)] by auto
qed

theorem input_read_word_by_word_witness:
  "\<exists>vm'. read_words 2 (text_vm '' 2  dup '') = Ok ([''2'', ''dup''], vm')"
proof -
  have "tokens (input (text_vm '' 2  dup '')) = [''2'', ''dup'']"
    by (simp add: tokens_def isspace_def char_code_def)
  then show ?thesis using input_read_word_by_word [of "text_vm '' 2  dup ''"] by (auto simp: numeral_2_eq_2)
qed

text \<open>
C7. Numbers are read back as they are printed: the text that \<open>ficlLtoa\<close> yields for a cell in radix
10 is recognised by \<open>ficlVmParseNumber\<close> in base 10, which pushes just that cell.
\<close>

theorem printed_number_read_back:
  assumes "vm_base vm = 10" and "vm_state vm = FICL_VM_STATE_INTERPRET" and "vm_wf vm"
    and "length (data vm) < st_size (vm_dataStack vm)" and "ficlLtoa v 10 = Some s"
  shows "\<exists>vm'. ficlVmParseNumber E False vm s = Ok (True, vm') \<and> vm_wf vm' \<and> data vm' = v # data vm"
  using ficlVmParseNumber_ltoa [OF assms] assms(3,4) by (simp add: flow_simps)

theorem printed_number_read_back_witness:
  "\<exists>vm'. ficlVmParseNumber sample_env False (sample_vm [] []) ''-7'' = Ok (True, vm') \<and> data vm' = [-7]"
proof -
  have "ficlLtoa (-7) 10 = Some ''-7''"
    using ficlLtoa_digits [of 10 "-7"] by (simp add: ltoa_magnitude_def digits_def lsd_digits.simps cstr_at_def)
  then show ?thesis
    using printed_number_read_back [of "sample_vm [] []" "-7" "''-7''" sample_env] sample_vm_wf [of "[]" "[]"]
    by (auto simp: FICL_VM_STATE_INTERPRET_def sample_vm_def)
qed

text \<open>
A number in a definition: \<open>ficlPrimitiveLiteralIm\<close> takes the top of the stack and compiles it
(as one cell for the numbers from -16 to 16 and with \<open>(literal)\<close> otherwise), and executing the
compiled code in one step of the inner loop pushes the number and continues behind it.
\<close>

theorem compiled_literal_pushes_it:
  assumes "vm_wf vm" and "data vm = c # cs" and "room (vm_dict vm) 16"
  shows "\<exists>vm'. ficlPrimitiveLiteralIm vm = Ok vm' \<and> vm_wf vm' \<and> data vm' = cs \<and>
    (\<forall>vm2. vm_wf vm2 \<and> length (data vm2) < st_size (vm_dataStack vm2) \<and> vm_ip vm2 = d_here (vm_dict vm) \<and>
      vm_ip vm2 \<noteq> NULL \<and> vm_dict vm2 = vm_dict vm' \<longrightarrow>
      inner_step E vm2 = Some (Ok (Continue ((dpushed c vm2)\<lparr>vm_ip := d_here (vm_dict vm')\<rparr>))))"
  using assms by (rule literal_roundtrip)

theorem compiled_literal_pushes_it_witness:
  "\<exists>vm'. ficlPrimitiveLiteralIm (sample_vm [300] []) = Ok vm' \<and> data vm' = []"
  using compiled_literal_pushes_it [of "sample_vm [300] []" 300 "[]" sample_env] sample_vm_wf [of "[300]" "[]"]
    sample_room [of 16] by (auto simp: sample_vm_def)

text \<open>
C8. Structured code is compiled as it is nested: executing the words \<open>if else then begin until again
while repeat do ?do loop +loop\<close> around the code of their bodies, nested in any way, lays out at \<open>here\<close>
just the cells of the structure with every branch resolved to its target, takes the marks off
the data stack again, and leaves what was compiled before unchanged.
\<close>

theorem control_structures_compile:
  assumes "vm_wf vm" and "length (data vm) + control_need s \<le> st_size (vm_dataStack vm)"
    and "room (vm_dict vm) (8 * code_length s)" and "code_length s < 2 ^ 58"
  shows "\<exists>vm'. emit T s vm = Ok vm' \<and> vm_wf vm' \<and> data vm' = data vm \<and>
    here vm' = here vm + of_nat (8 * code_length s) \<and>
    cells_at (d_bytes (vm_dict vm')) (here vm) (stmt_code (here vm) s) \<and>
    (\<forall>p. below (vm_dict vm) p 8 \<longrightarrow>
      load_cell (d_bytes (vm_dict vm')) p = load_cell (d_bytes (vm_dict vm)) p)"
  using emits_all [of T s] assms unfolding emits_def laid_def by fastforce

theorem control_structures_compile_witness:
  "\<exists>vm'. emit tag_place (IfElse (Cells [ficlInstructionDup]) (Cells [ficlInstructionDrop])) (sample_vm [] []) = Ok vm' \<and>
    load_cell (d_bytes (vm_dict vm')) 4104 = Some 4"
proof -
  let ?s = "IfElse (Cells [ficlInstructionDup]) (Cells [ficlInstructionDrop])"
  have h: "here (sample_vm [] []) = 4096" "vm_dict (sample_vm [] []) = sample_dict"
    by (simp_all add: here_def sample_vm_def sample_dict_def)
  have "\<exists>vm'. emit tag_place ?s (sample_vm [] []) = Ok vm' \<and>
      cells_at (d_bytes (vm_dict vm')) 4096 (stmt_code 4096 ?s)"
    using control_structures_compile [of "sample_vm [] []" ?s tag_place] sample_vm_wf [of "[]" "[]"] sample_room [of 48]
    unfolding h by auto
  then show ?thesis unfolding cells_at_def by (auto dest: spec [of _ 1])
qed

section \<open>Local variables\<close>

text \<open>
C9. A declaration of locals: calling \<open>(local)\<close> with each name in turn and then with length zero enters the names into the locals dictionary with the numbers
of their order, a later declaration of a name hiding an earlier one, and compiles \<open>(link) n\<close> followed by one store for each local; nothing is left on the stack.
\<close>

theorem locals_declared:
  assumes "vm_wf vm" and "locals_ok im (vm_locals vm) []" "vm_localsCount vm = 0"
    and "list_all2 (name_at vm (8 * (2 + 2 * length ss))) ps ss" "ss \<noteq> []" "length ss \<le> 2048"
    and "room (vm_dict vm) (8 * (2 + 2 * length ss))" "room (vm_locals vm) (sum_list (map name_space ss))"
    and "length (data vm) + 2 \<le> st_size (vm_dataStack vm)"
  shows "\<exists>vm'. declare_locals im ps vm = Ok vm' \<and> laid vm vm' (frame_code (length ss) (length ss)) \<and>
    locals_ok im (vm_locals vm') ss \<and> vm_localsCount vm' = int (length ss) \<and> data vm' = data vm \<and> vm_state vm' = vm_state vm"
  by (rule declare_locals_ok [OF assms])

theorem locals_declared_witness:
  "\<exists>vm'. declare_locals 5000 [(100, 3)] (locals_vm [7]) = Ok vm' \<and>
    cells_at (d_bytes (vm_dict vm')) 4096 [ficlInstructionLinkParen, 1, ficlInstructionToLocalParen, 0] \<and> data vm' = [7]"
proof -
  have "frame_code 1 1 = [ficlInstructionLinkParen, 1, ficlInstructionToLocalParen, 0]" by (simp add: frame_code_def)
  then show ?thesis
    using locals_declared [of "locals_vm [7]" 5000 "[''dup'']" "[(100, 3)]"] locals_vm_wf [of "[7]"] no_locals dup_name [of 32 "[7]"]
      sample_room [of 32] locals_room [of "name_space ''dup''"]
    by (auto simp: laid_def name_space_def header_size_def)
qed

text \<open>
C10. The name of a local in the definition that declares it: the interpreter compiles an access for which the whole code, executed with the values of the locals on the stack,
moves them into a frame on the return stack and pushes the value that was declared under the name.
\<close>

theorem local_name_pushes_value:
  assumes decl: "vm_wf vm" "locals_ok im (vm_locals vm) []" "vm_localsCount vm = 0"
      "list_all2 (name_at vm (8 * (2 + 2 * length ss))) ps ss" "ss \<noteq> []" "length ss \<le> 2048"
    and room: "room (vm_dict vm) (8 * (4 + 2 * length ss))" "room (vm_locals vm) (sum_list (map name_space ss))"
      "length (data vm) + 2 \<le> st_size (vm_dataStack vm)"
    and name: "vm_state vm = FICL_VM_STATE_COMPILE" "name_ok name" "local_index ss name = Some i"
    and im: "ficlInstructionLast \<le> im" "primitive_code E im = ficlLocalParenIm"
  shows "\<exists>vm1 vm2. declare_locals im ps vm = Ok vm1 \<and> ficlVmParseWord E copy vm1 name = Some (Ok (True, vm2)) \<and>
    (\<forall>v xs ys. enters v (here vm) (length ss) \<and> vm_dict v = vm_dict vm2 \<and> data v = xs @ ys \<and> length xs = length ss \<longrightarrow>
      (\<exists>v'. reaches E v v' \<and> in_frame v' (rets v) (st_frame (vm_returnStack v)) xs \<and> data v' = xs ! i # ys \<and> vm_ip v' = here vm2))"
proof -
  let ?n = "length ss" and ?f = "frame_code (length ss) (length ss)" and ?g = "local_code get_insts (int i)"
  have r: "room (vm_dict vm) (8 * (2 + 2 * ?n))" using room_less [OF room(1)] by simp
  obtain vm1 where v1: "declare_locals im ps vm = Ok vm1" "laid vm vm1 ?f" "locals_ok im (vm_locals vm1) ss"
      "vm_localsCount vm1 = int ?n" "vm_state vm1 = FICL_VM_STATE_COMPILE"
    using declare_locals_ok [OF decl r room(2,3)] name(1) by auto
  have r1: "room (vm_dict vm1) 16" using room_laid [OF v1(2), of 16] room(1) by (simp add: distrib_left)
  have n62: "?n < 2 ^ 62" using decl(6) by simp
  obtain vm2 where v2: "ficlVmParseWord E copy vm1 name = Some (Ok (True, vm2))" "compiled vm1 vm2 ([] @ ?g)"
    using parse_local [OF v1(3,4) name(2,3) v1(5) im compiled_refl [OF laid_wf [OF v1(2)]] r1 _ n62] by auto
  have l: "laid vm vm2 (?f @ ?g)"
    using laid_trans [OF v1(2) compiled_laid [OF v2(2) [simplified]]] room_less [OF room(1)] length_local_code [of get_insts "int i"] by simp
  have "\<exists>v'. reaches E v v' \<and> in_frame v' (rets v) (st_frame (vm_returnStack v)) xs \<and> data v' = xs ! i # ys \<and> vm_ip v' = here vm2"
    if "enters v (here vm) ?n" "vm_dict v = vm_dict vm2" "data v = xs @ ys" "length xs = ?n" for v xs ys
    using frame_then_fetch [OF _ that(1,3,4) local_index_less [OF name(3)], of E] laid_cells [OF l] laid_here [OF l] that(2) by simp
  then show ?thesis using v1(1) v2(1) by blast
qed

theorem local_name_pushes_value_witness:
  "\<exists>vm1 vm2. declare_locals 5000 [(100, 3)] (locals_vm []) = Ok vm1 \<and>
    ficlVmParseWord locals_env id vm1 ''DUP'' = Some (Ok (True, vm2)) \<and>
    (\<exists>v'. reaches locals_env ((sample_vm [7, 9] [])\<lparr>vm_dict := vm_dict vm2, vm_ip := 4096\<rparr>) v' \<and> data v' = [7, 9])"
proof -
  have "local_index [''dup''] ''DUP'' = Some 0" using local_index_snoc [of "[]" "''dup''" "''DUP''"] sample_fold by simp
  moreover have "primitive_code locals_env 5000 = ficlLocalParenIm" "ficlInstructionLast \<le> 5000" by (simp_all add: locals_env_def token_simps)
  ultimately obtain vm1 vm2 where v: "declare_locals 5000 [(100, 3)] (locals_vm []) = Ok vm1"
      "ficlVmParseWord locals_env id vm1 ''DUP'' = Some (Ok (True, vm2))"
      "\<forall>v xs ys. enters v 4096 1 \<and> vm_dict v = vm_dict vm2 \<and> data v = xs @ ys \<and> length xs = 1 \<longrightarrow>
        (\<exists>v'. reaches locals_env v v' \<and> in_frame v' (rets v) (st_frame (vm_returnStack v)) xs \<and> data v' = xs ! 0 # ys \<and> vm_ip v' = here vm2)"
    using local_name_pushes_value [of "locals_vm []" 5000 "[''dup'']" "[(100, 3)]" "''DUP''" 0 locals_env id] locals_vm_wf [of "[]"] no_locals
      dup_name [of 32 "[]"] sample_room [of 48] locals_room [of "name_space ''dup''"] sample_name_ok(2)
    by (auto simp: name_space_def header_size_def)
  let ?v = "(sample_vm [7, 9] [])\<lparr>vm_dict := vm_dict vm2, vm_ip := 4096\<rparr>"
  have "enters ?v 4096 1" using sample_vm_wf [of "[7, 9]" "[]"] by (simp add: enters_def no_wrap_def)
  then show ?thesis using v(1,2) spec [OF spec [OF spec [OF v(3), of ?v], of "[7]"], of "[9]"] by auto
qed

text \<open>
C11. \<open>to\<close> with the name of a local compiles a store: executed in the frame it takes the top of the stack and changes the value of this local and of no other.
\<close>

theorem to_stores_local:
  assumes "vm_wf vm" and l: "locals_ok im (vm_locals vm) ns" "vm_localsCount vm = int (length ns)" "length ns \<le> 2048"
    and nm: "tib_ok vm" "tokens (input vm) = name # ws" "name_ok name" "local_index ns name = Some i" and r: "room (vm_dict vm) 16"
  shows "\<exists>vm'. ficlPrimitiveToValue E P V im vm = Some (Ok vm') \<and> data vm' = data vm \<and> tokens (input vm') = ws \<and>
    (\<forall>v rs old xs x ys. in_frame v rs old xs \<and> length xs = length ns \<and> data v = x # ys \<and> vm_ip v = here vm \<and> vm_ip v \<noteq> NULL \<and>
        vm_dict v = vm_dict vm' \<longrightarrow>
      (\<exists>v'. inner_step E v = Some (Ok (Continue v')) \<and> in_frame v' rs old (xs[i := x]) \<and> data v' = ys \<and> vm_ip v' = here vm'))"
proof -
  have n62: "length ns < 2 ^ 62" using l(3) by simp
  have i: "i < length ns" "i < 2 ^ 62" using local_index_less [OF nm(4)] n62 by simp_all
  let ?c = "local_code to_insts (int i)"
  obtain vm' where v: "ficlPrimitiveToValue E P V im vm = Some (Ok vm')" "compiled vm vm' ([] @ ?c)" "data vm' = data vm" "tokens (input vm') = ws"
    using to_word_local [OF l(1,2) nm compiled_refl [OF assms(1)] r _ n62, of to_insts "set_value E P V"]
    by (auto simp: ficlPrimitiveToValue_def)
  have la: "laid vm vm' ?c" using compiled_laid [OF v(2)] by simp
  have "\<exists>v'. inner_step E v = Some (Ok (Continue v')) \<and> in_frame v' rs old (xs[i := x]) \<and> data v' = ys \<and> vm_ip v' = here vm'"
    if "in_frame v rs old xs" "length xs = length ns" "data v = x # ys" "vm_ip v = here vm" "vm_ip v \<noteq> NULL" "vm_dict v = vm_dict vm'" for v rs old xs x ys
    using step_store [OF that(5) _ i(2) that(1,3)] pop_to_frame(2,3) [of "v\<lparr>vm_ip := vm_ip v + of_nat (8 * length ?c)\<rparr>" rs old xs x ys i]
      laid_cells [OF la] laid_here [OF la] that i(1) by simp
  then show ?thesis using v by blast
qed

theorem to_stores_local_witness:
  "\<exists>vm vm'. vm_localsCount vm = 1 \<and> tokens (input vm) = [''DUP''] \<and>
    ficlPrimitiveToValue locals_env sample_procs sample_values 5000 vm = Some (Ok vm') \<and> tokens (input vm') = []"
proof -
  obtain vm1 where v: "laid (locals_vm []) vm1 (frame_code 1 1)" "locals_ok 5000 (vm_locals vm1) [''dup'']" "vm_localsCount vm1 = 1"
    using declare_locals_ok [of "locals_vm []" 5000 "[''dup'']" "[(100, 3)]"] locals_vm_wf [of "[]"] no_locals dup_name [of 32 "[]"]
      sample_room [of 32] locals_room [of "name_space ''dup''"]
    by (auto simp: name_space_def header_size_def)
  let ?v = "vm1\<lparr>vm_tib := \<lparr>tib_text = ''DUP'', tib_index = 0\<rparr>\<rparr>"
  have t: "tib_ok ?v" "tokens (input ?v) = [''DUP'']" by (simp_all add: tib_ok_def input_def sample_token)
  have w: "vm_wf ?v" "room (vm_dict ?v) 16"
    using laid_wf [OF v(1)] room_laid [OF v(1), of 16] sample_room [of 48] by (simp_all add: vm_wf_def)
  have "local_index [''dup''] ''DUP'' = Some 0" using local_index_snoc [of "[]" "''dup''" "''DUP''"] sample_fold by simp
  then obtain vm' where "ficlPrimitiveToValue locals_env sample_procs sample_values 5000 ?v = Some (Ok vm')" "tokens (input vm') = []"
    using to_stores_local [of ?v 5000 "[''dup'']" "''DUP''" "[]" 0 locals_env sample_procs sample_values] w v(2,3) t sample_name_ok(2) by auto
  then show ?thesis using v(3) t(2) by (intro exI [of _ ?v] exI [of _ vm']) simp
qed

text \<open>
C12. \<open>(link)\<close> does not check the return stack: without room for the frame its top is moved out of the stack, where the stores that follow write.
\<close>

theorem link_leaves_return_stack:
  assumes "vm_wf vm" and "n < 2 ^ 62" "st_size (vm_returnStack vm) < length (rets vm) + 1 + n"
    and "load_cell (d_bytes (vm_dict vm)) (vm_ip vm) = Some (of_nat n)"
  shows "\<exists>vm'. instr_LinkParen vm = Ok (Continue vm') \<and> int (st_size (vm_returnStack vm)) \<le> st_top (vm_returnStack vm')"
  by (rule link_overrun [OF assms])

theorem link_leaves_return_stack_witness:
  "\<exists>vm'. instr_LinkParen link_vm = Ok (Continue vm') \<and> 16 \<le> st_top (vm_returnStack vm')"
proof -
  have "vm_wf link_vm" "rets link_vm = []" "st_size (vm_returnStack link_vm) = 16"
    using sample_vm_wf [of "[]" "[]"] by (simp_all add: link_vm_def)
  then show ?thesis using link_leaves_return_stack [of link_vm 16] link_vm_cell by auto
qed

text \<open>
In interpretation state \<open>f+to\<close> does what \<open>+to\<close> does: it adds the cells as integers.
\<close>

theorem fplus_to_adds_integers:
  assumes "tib_ok vm" and "tokens (input vm) = name # ws" and "vm_state vm = FICL_VM_STATE_INTERPRET" and "vm_localsCount vm = 0"
  shows "ficlPrimitiveFPlusToValue E P im vm = ficlPrimitivePlusToValue E P im vm"
proof -
  obtain t where t: "ficlVmGetWord vm = Ok (name, vm\<lparr>vm_tib := t\<rparr>)" using ficlVmGetWord_next [OF assms(1,2)] by blast
  have "add_value E P ficlInstructionFPlusStore word w (vm\<lparr>vm_tib := t\<rparr>) = add_value E P ficlInstructionPlusStore word w (vm\<lparr>vm_tib := t\<rparr>)" for word w
    using assms(3) by (simp add: add_value_def)
  then show ?thesis
    using assms(4) by (simp add: ficlPrimitiveFPlusToValue_def ficlPrimitivePlusToValue_def to_word_def t to_local_def lookup_def cong: if_cong)
qed

theorem fplus_to_adds_integers_witness:
  "ficlPrimitiveFPlusToValue locals_env sample_procs 5000 (text_vm ''DUP'') = ficlPrimitivePlusToValue locals_env sample_procs 5000 (text_vm ''DUP'')"
  by (rule fplus_to_adds_integers) (simp_all add: sample_token, simp_all add: text_vm_def sample_vm_def FICL_VM_STATE_INTERPRET_def)

section \<open>Primitives\<close>

text \<open>
C13. \<open>catch\<close> restores the machine whatever the word has done before it throws: when the word given to
\<open>catch\<close>, run with the exit word behind it, throws the code \<open>e\<close> (neither zero nor the code of a regular end) in the
machine \<open>vm1\<close>, \<open>ficlPrimitiveCatch\<close> returns with the instruction pointer, the running word, the input, the
state, the base and the pads of before, and with the code on a stack as deep as it was after the word was taken.
Of the cells of the two stacks only the lowest is written back, the others are as the word has left them: where
it has not overwritten them, they are the cells of before. In the memory only the user variables are written back.
\<close>

theorem catch_restores_machine:
  assumes "vm_wf vm" and "data vm = xt # ds" and "catch_run E X (ddrop 1 vm) xt = Some (Throw (e, vm1))"
    and "e \<noteq> 0" and "e \<noteq> FICL_VM_STATUS_INNER_EXIT"
  shows "\<exists>vm'. ficlPrimitiveCatch E X vm = Some (Ok vm') \<and> vm_wf vm' \<and> restored vm vm' \<and>
    data vm' = of_int e # caught_cells ds (vm_dataStack vm1) \<and> rets vm' = caught_cells (rets vm) (vm_returnStack vm1) \<and>
    ((\<forall>i. 0 < i \<and> i < length ds \<longrightarrow> st_cells (vm_dataStack vm1) (int i) = rev ds ! i) \<longrightarrow> data vm' = of_int e # ds) \<and>
    ((\<forall>i. 0 < i \<and> i < length (rets vm) \<longrightarrow> st_cells (vm_returnStack vm1) (int i) = rev (rets vm) ! i) \<longrightarrow>
      rets vm' = rets vm) \<and>
    vm_dict vm' = set_bytes (\<lambda>p. if unat (p - vm_user vm) < 8 * FICL_USER_CELLS then d_bytes (vm_dict vm) p
      else d_bytes (vm_dict vm1) p) (vm_dict vm1)"
  using catch_any [OF assms(1-3,5)] caught_cells_same [of ds "vm_dataStack vm1"]
    caught_cells_same [of "rets vm" "vm_returnStack vm1"] by auto

theorem catch_restores_machine_witness:
  "\<exists>vm'. ficlPrimitiveCatch (catch_env stray_word) 3000 (catch_vm [700, 8, 9]) = Some (Ok vm') \<and>
    restored (catch_vm [700, 8, 9]) vm' \<and> data vm' = [5, 7, 9]"
proof -
  obtain vm1 where r: "catch_run (catch_env stray_word) 3000 (ddrop 1 (catch_vm [700, 8, 9])) 700 = Some (Throw (5, vm1))"
      "st_cells (vm_dataStack vm1) 1 = 7"
    using stray_run by blast
  have "(5 :: int) \<noteq> FICL_VM_STATUS_INNER_EXIT" by (simp add: FICL_VM_STATUS_INNER_EXIT_def)
  moreover have "caught_cells [8, 9] (vm_dataStack vm1) = [7, 9]" using r(2) by (simp add: caught_cells_def)
  ultimately show ?thesis
    using catch_restores_machine [OF catch_vm_wf(1,2) r(1)] by auto
qed

text \<open>
Pictured numbers are printed numbers: \<open><# #s #>\<close> with a base from 2 to 36 always ends and leaves the address
of the text in the scratch area and its length; the text is the one that \<open>ficlUltoa\<close> writes for the number in
that base.
\<close>

theorem pictured_number_is_printed:
  assumes "vm_wf vm" and "data vm = x # ds" and "length ds + 2 \<le> st_size (vm_dataStack vm)"
    and "CELL_ULONG_REF E x = Ok ud" and "2 \<le> vm_base vm" and "vm_base vm \<le> 36"
  shows "\<exists>vm1 vm2 vm3 s. ficlPrimitiveLessNumberSign vm = Ok vm1 \<and> ficlPrimitiveNumberSignS E vm1 = Some (Ok vm2) \<and>
    ficlPrimitiveNumberSignGreater PAD vm2 = Ok vm3 \<and> ficlUltoa ud (int (unat (vm_base vm))) = Some s \<and>
    data vm3 = of_nat (length s) # (PAD + 8) # ds \<and> pad_text vm3 = map char_byte s"
  using assms by (rule pictured_number)

theorem pictured_number_is_printed_witness:
  "\<exists>vm1 vm2 vm3. ficlPrimitiveLessNumberSign (sample_vm [255, 9] []) = Ok vm1 \<and> ficlPrimitiveNumberSignS sample_env vm1 = Some (Ok vm2) \<and>
    ficlPrimitiveNumberSignGreater 8000 vm2 = Ok vm3 \<and> data vm3 = [3, 8008, 9] \<and> pad_text vm3 = map char_byte ''255''"
proof -
  have b: "vm_base (sample_vm [255, 9] []) = 10" by (simp add: sample_vm_def)
  have "ficlUltoa 255 10 = Some ''255''"
    using ficlUltoa_digits [of 10 255] by (simp add: digits_def lsd_digits.simps cstr_at_def)
  then show ?thesis
    using pictured_number_is_printed [of "sample_vm [255, 9] []" 255 "[9]" sample_env 255 8000] sample_vm_wf [of "[255, 9]" "[]"]
    unfolding b by (auto simp: sample_env_def)
qed

text \<open>
C14. \<open>s"\<close> in a definition: \<open>ficlPrimitiveStringQuoteIm\<close> reads the text up to the quote and stores it in the dictionary with a NUL,
and the inner interpreter, when it comes to the compiled cells, pushes the address and the
length of that text and continues behind it.
\<close>

theorem compiled_string_pushes_it:
  assumes "vm_state vm = FICL_VM_STATE_COMPILE" and "tib_ok vm" and "input vm = w @ CHR 0x22 # rest"
    and "\<forall>c\<in>set w. \<not> ends_string (CHR 0x22) c" and "NUL \<notin> set w" and "length w \<le> FICL_COUNTED_STRING_MAX"
    and "room (vm_dict vm) (16 + length w + 1)"
  shows "\<exists>vm'. ficlPrimitiveStringQuoteIm vm = Ok vm' \<and> input vm' = rest \<and>
    load_bytes (d_bytes (vm_dict vm')) (here vm + 16) (length w + 1) = Some (map char_byte w @ [0]) \<and>
    (\<forall>vm2. vm_wf vm2 \<and> length (data vm2) + 2 \<le> st_size (vm_dataStack vm2) \<and> vm_ip vm2 = here vm \<and>
      vm_ip vm2 \<noteq> NULL \<and> vm_dict vm2 = vm_dict vm' \<longrightarrow>
      inner_step E vm2 = Some (Ok (Continue ((dpushed (of_nat (length w)) (dpushed (here vm + 16) vm2))\<lparr>vm_ip := here vm'\<rparr>))))"
  using assms by (rule string_quote_roundtrip)

theorem compiled_string_pushes_it_witness:
  "\<exists>vm'. ficlPrimitiveStringQuoteIm (literal_vm (''hi'' @ CHR 0x22 # '' dup'')) = Ok vm' \<and> input vm' = '' dup'' \<and>
    load_bytes (d_bytes (vm_dict vm')) 4112 3 = Some (map char_byte ''hi'' @ [0]) \<and>
    inner_step sample_env ((sample_vm [] [])\<lparr>vm_ip := 4096, vm_dict := vm_dict vm'\<rparr>) =
      Some (Ok (Continue ((dpushed 2 (dpushed 4112 ((sample_vm [] [])\<lparr>vm_ip := 4096, vm_dict := vm_dict vm'\<rparr>)))\<lparr>vm_ip := here vm'\<rparr>)))"
proof -
  let ?vm = "literal_vm (''hi'' @ CHR 0x22 # '' dup'')" and ?vm2 = "\<lambda>d. (sample_vm [] [])\<lparr>vm_ip := 4096, vm_dict := d\<rparr>"
  have nul: "NUL \<notin> set ''hi''" by code_simp
  have h: "vm_state ?vm = FICL_VM_STATE_COMPILE" "tib_ok ?vm" "input ?vm = ''hi'' @ CHR 0x22 # '' dup''"
      "\<forall>c\<in>set ''hi''. \<not> ends_string (CHR 0x22) c" "NUL \<notin> set ''hi''" "length ''hi'' \<le> FICL_COUNTED_STRING_MAX"
      "room (vm_dict ?vm) (16 + length ''hi'' + 1)"
    using sample_room [of 19] nul by (simp_all add: ends_string_def char_code_def FICL_COUNTED_STRING_MAX_def FICL_PAD_SIZE_def)
  obtain vm' where vm': "ficlPrimitiveStringQuoteIm ?vm = Ok vm'" "input vm' = '' dup''"
      "load_bytes (d_bytes (vm_dict vm')) (4096 + 16) (length ''hi'' + 1) = Some (map char_byte ''hi'' @ [0])"
      "\<forall>vm2. vm_wf vm2 \<and> length (data vm2) + 2 \<le> st_size (vm_dataStack vm2) \<and> vm_ip vm2 = 4096 \<and>
        vm_ip vm2 \<noteq> NULL \<and> vm_dict vm2 = vm_dict vm' \<longrightarrow>
        inner_step sample_env vm2 = Some (Ok (Continue ((dpushed (of_nat (length ''hi'')) (dpushed (4096 + 16) vm2))\<lparr>vm_ip := here vm'\<rparr>)))"
    using compiled_string_pushes_it [OF h, of sample_env] unfolding literal_vm_simps by blast
  have "vm_wf (?vm2 d)" for d using sample_vm_wf [of "[]" "[]"] by (simp add: vm_wf_def)
  then have "inner_step sample_env (?vm2 (vm_dict vm')) =
      Some (Ok (Continue ((dpushed (of_nat (length ''hi'')) (dpushed (4096 + 16) (?vm2 (vm_dict vm'))))\<lparr>vm_ip := here vm'\<rparr>)))"
    by (intro vm'(4) [rule_format]) simp
  then show ?thesis using vm'(1-3) by (intro exI [of _ vm']) (simp add: numeral_3_eq_3 numeral_2_eq_2)
qed

text \<open>
\<open>sliteral\<close> compiles a text that is not read back: \<open>ficlPrimitiveSLiteralCoIm\<close> stores the length of a short text in one byte, and the
cell in which \<open>(string-literal)\<close> looks for it also contains characters of the text, so the length that it pushes is
greater.
\<close>

theorem sliteral_length_misread:
  assumes "vm_wf vm" and "data vm = n # src # ds" and "0 < unat n" and "unat n < 256"
    and "load_bytes (d_bytes (vm_dict vm)) src (unat n) = Some bs" and "hd bs \<noteq> 0"
    and "below (vm_dict vm) src (unat n)" and "room (vm_dict vm) (16 + unat n)"
  shows "\<exists>vm' len. ficlPrimitiveSLiteralCoIm vm = Ok vm' \<and> data vm' = ds \<and>
    load_cell (d_bytes (vm_dict vm')) (here vm) = Some ficlInstructionStringLiteralParen \<and>
    load_cell (d_bytes (vm_dict vm')) (here vm + 8) = Some len \<and> unat n < unat len"
  using assms by (rule sliteral_misread)

theorem sliteral_length_misread_witness:
  "\<exists>vm' len. ficlPrimitiveSLiteralCoIm (sample_vm [3, 100] []) = Ok vm' \<and> data vm' = [] \<and>
    load_cell (d_bytes (vm_dict vm')) 4104 = Some len \<and> 3 < unat len"
proof -
  have d: "vm_dict (sample_vm [3, 100] []) = sample_dict" "here (sample_vm [3, 100] []) = 4096"
    by (simp_all add: sample_vm_def here_def sample_dict_def)
  have "below sample_dict 100 (unat (3 :: cell))" "room sample_dict (16 + unat (3 :: cell))"
    using sample_room [of 19] by (simp_all add: below_def) (simp add: sample_dict_def)
  then show ?thesis
    using sliteral_length_misread [of "sample_vm [3, 100] []" 3 100 "[]" "[100, 117, 112]"] sample_vm_wf [of "[3, 100]" "[]"]
      sample_dup_bytes [of "[3, 100]" "[]"] by (auto simp: d)
qed

section \<open>Numbers\<close>

text \<open>
C15. Exact arithmetic is exact: \<open>fth_number_add\<close>, \<open>fth_number_sub\<close> and \<open>fth_number_mul\<close> of fixnums, long integers, big integers and ratios, in any
combination, give a well-formed exact number whose value is the sum, difference or product of the values, whenever one of them is a big integer or a ratio
or the result fits into 64 bits.
\<close>

theorem exact_arithmetic:
  assumes "bn_laws N val" and "exact_ok val m" and "exact_ok val n" and "oper \<noteq> OP_DIV"
    and "max_type m n < FTH_BIGNUM_T \<Longrightarrow> rat_op oper (exact_value val m) (exact_value val n) \<in> of_int ` {- (2 ^ 63)..<2 ^ 63}"
  shows "\<exists>r. number_op N oper m n = Ok r \<and> exact_ok val r \<and> exact_value val r = rat_op oper (exact_value val m) (exact_value val n)"
  using assms by (rule number_op_exact)

theorem exact_arithmetic_witness:
  "\<exists>r. fth_number_add sample_num (FRat \<lparr>r_num = 1, r_den = 2\<rparr>) (LLong 3) = Ok r \<and> exact_value (\<lambda>x. x) r = 7 / 2"
  using exact_arithmetic [OF sample_bn_laws, of "FRat \<lparr>r_num = 1, r_den = 2\<rparr>" "LLong 3" OP_ADD]
  by (auto simp: rt_ok_def rt_val_def max_type_def type_numbers)

text \<open>
Exact numbers of all types are compared by their values: \<open>fth_number_equal_p\<close> and \<open>fth_number_less_p\<close>.
\<close>

theorem exact_comparison:
  assumes "bn_laws N val" and "exact_ok val m" and "exact_ok val n"
  shows "fth_number_equal_p N m n = Ok (exact_value val m = exact_value val n) \<and> fth_number_less_p N m n = Ok (exact_value val m < exact_value val n)"
  using number_cmp_exact [OF assms] by blast

theorem exact_comparison_witness:
  "fth_number_less_p sample_num (FRat \<lparr>r_num = 1, r_den = 2\<rparr>) (FRat \<lparr>r_num = 2, r_den = 3\<rparr>) = Ok True"
  using exact_comparison [OF sample_bn_laws, of "FRat \<lparr>r_num = 1, r_den = 2\<rparr>" "FRat \<lparr>r_num = 2, r_den = 3\<rparr>"]
  by (simp add: rt_ok_def rt_val_def)

text \<open>
C16. Ratios stay canonical: the sum, difference, product and, but for the divisor zero, the quotient of exact numbers as ratios is reduced, with a
positive denominator, and therefore \<open>rt_equal_p\<close>, which compares numerators and denominators, finds two ratios equal just when their values are.
\<close>

theorem ratio_canonical:
  assumes "bn_laws N val" and "exact_ok val m" and "exact_ok val n" and "oper = OP_DIV \<Longrightarrow> exact_value val n \<noteq> 0" and "rt_ok val s"
  shows "\<exists>r. rt_op N oper m n = Ok (FRat r) \<and> rt_ok val r \<and> (rt_equal_p N r s \<longleftrightarrow> rat_op oper (exact_value val m) (exact_value val n) = rt_val val s)"
  using rt_op_form [OF assms(1-4)] rt_equal_p_value [OF assms(1) _ assms(5)] by fastforce

theorem ratio_canonical_witness:
  "\<exists>r. rt_sub sample_num (FRat \<lparr>r_num = 5, r_den = 6\<rparr>) (FRat \<lparr>r_num = 1, r_den = 3\<rparr>) = Ok (FRat r) \<and>
     rt_equal_p sample_num r \<lparr>r_num = 1, r_den = 2\<rparr>"
proof -
  have "gcd 5 (6 :: int) = 1" by code_simp
  then show ?thesis using ratio_canonical [OF sample_bn_laws, of "FRat \<lparr>r_num = 5, r_den = 6\<rparr>" "FRat \<lparr>r_num = 1, r_den = 3\<rparr>" OP_SUB "\<lparr>r_num = 1, r_den = 2\<rparr>"]
    by (auto simp: rt_ok_def rt_val_def coprime_iff_gcd_eq_1)
qed

text \<open>
Division with ratios: when the greater type is that of ratios, \<open>fth_number_div\<close> gives the exact quotient. A divisor that is zero is
not rejected: the result is a ratio with the denominator zero, and only zero divided by zero raises an exception.
\<close>

theorem ratio_division:
  assumes "bn_laws N val" and "exact_ok val m" and "exact_ok val n" and "max_type m n = FTH_RATIO_T"
  shows "if exact_value val n \<noteq> 0 then \<exists>r. fth_number_div N m n = Ok (FRat r) \<and> rt_ok val r \<and> rt_val val r = exact_value val m / exact_value val n
    else if exact_value val m = 0 then fth_number_div N m n = Throw BIGNUM_ERROR
    else \<exists>r. fth_number_div N m n = Ok (FRat r) \<and> val (r_den r) = 0"
  using number_div_ratio [OF assms] number_div_ratio_zero [OF assms] by auto

theorem ratio_division_witness:
  "\<exists>r. fth_number_div sample_num (FRat \<lparr>r_num = 1, r_den = 2\<rparr>) (FRat \<lparr>r_num = 0, r_den = 1\<rparr>) = Ok (FRat r) \<and> r_den r = 0"
  using ratio_division [OF sample_bn_laws, of "FRat \<lparr>r_num = 1, r_den = 2\<rparr>" "FRat \<lparr>r_num = 0, r_den = 1\<rparr>"]
  by (simp add: rt_ok_def rt_val_def max_type_def)

text \<open>
C17. Ratios are read back as they are printed: \<open>ficl_parse_ratio\<close> takes the text of \<open>rt_to_string\<close> for a ratio of the same value.
\<close>

theorem ratio_read_back:
  assumes "bn_laws N val" and "bn_text_laws N val" and "rt_ok val r"
  shows "\<exists>r'. ficl_parse_ratio N (rt_to_string N r) = Ok (Some (FRat r')) \<and> rt_ok val r' \<and> rt_val val r' = rt_val val r"
  using assms by (rule ratio_text_parsed)

theorem ratio_read_back_witness:
  "\<exists>r'. ficl_parse_ratio sample_num ''-22/7'' = Ok (Some (FRat r')) \<and> rt_val (\<lambda>x. x) r' = - 22 / 7"
proof -
  have t: "rt_to_string sample_num \<lparr>r_num = - 22, r_den = 7\<rparr> = ''-22/7''" by code_simp
  have "gcd (- 22) (7 :: int) = 1" by code_simp
  then have "coprime (- 22) (7 :: int)" by (simp only: coprime_iff_gcd_eq_1)
  then show ?thesis using ratio_read_back [OF sample_bn_laws sample_text_laws, of "\<lparr>r_num = - 22, r_den = 7\<rparr>"] unfolding t
    by (auto simp: rt_ok_def rt_val_def)
qed

text \<open>
\<open>inexact->exact\<close> is exact: for a finite float \<open>fth_make_ratio_from_float\<close> gives a reduced ratio of just its value.
\<close>

theorem float_to_ratio_exact:
  assumes "bn_laws N val" and "float_laws N val fval fin" and "fin f"
  shows "\<exists>r. fth_inexact_to_exact N (FFloat f) = Ok (FRat r) \<and> rt_ok val r \<and> rt_val val r = fval f"
  using ratio_from_float_exact [OF assms] by (simp add: fth_inexact_to_exact_def fth_number_p_def FTH_NUMBER_T_P_def type_numbers)

theorem float_to_ratio_exact_witness:
  "\<exists>r. fth_inexact_to_exact sample_num (FFloat (3, -1)) = Ok (FRat r) \<and> rt_val (\<lambda>x. x) r = 3 / 2"
  using float_to_ratio_exact [OF sample_bn_laws sample_float_laws, of "(3, -1)"] by (auto simp: sample_fval_def)

text \<open>
Integers come back from the objects made of them: \<open>fth_int_ref\<close>, \<open>fth_long_long_ref\<close> and \<open>fth_unsigned_ref\<close> return every value of 64 bits. Read as \<open>ficl2Unsigned\<close>
only those below \<open>2 ^ 63\<close> do: the object of a greater one is negative as a signed integer, is not found to be unsigned, and
\<open>fth_ulong_long_ref\<close> goes on to access it as a ratio.
\<close>

theorem integers_read_back:
  "fth_int_ref N (fth_make_int n) = Ok n \<and> fth_long_long_ref N (fth_make_long_long n) = Ok n \<and> fth_unsigned_ref N (fth_make_unsigned n) = Ok n \<and>
   fth_ulong_long_ref N (fth_make_ulong_long n) = (if uint n < 2 ^ 63 then Ok n else Fault)"
  by (simp add: fth_make_int_ref fth_make_unsigned_ref UFIXABLE_uint)

section \<open>Formatted output\<close>

text \<open>
C18. \<open>string-format\<close> prints a format piece by piece: given a format written from text and directives, each with its flags, width and precision, the result is
a string with the text and what the directives make of the arguments, in order and however long it is; if arguments are missing, the exception is \<open>ARGUMENT-ERROR\<close>.
Binary numbers are left aside here (see the property after the next).
\<close>

theorem format_prints_pieces:
  assumes "list_all piece_ok ps" and "list_all no_binary ps" and "NUL \<notin> set (concat (map show_piece ps))" and "str_holds fs (concat (map show_piece ps))"
  shows "if length (filter wants_arg ps) \<le> length args
    then \<exists>cs. print_pieces (string_doprnt_format E) ps args = Ok cs \<and>
      (NUL \<notin> set cs \<longrightarrow> length cs \<le> str_limit \<longrightarrow> (\<exists>s. fth_string_format E fs (Args_array args) = Some (Ok s) \<and> str_holds s cs))
    else fth_string_format E fs (Args_array args) = Some (Throw FTH_ARGUMENT_ERROR)"
  using print_pieces_args [OF assms(2), of args E] string_doprnt_pieces [OF assms(1), of E args] c_string_holds [OF assms(4,3)]
  by (auto simp: fth_string_vformat_error intro!: fth_string_vformat_text split: if_splits)

theorem format_prints_pieces_witness:
  "\<exists>fs s. str_holds fs ''n=%04d!'' \<and> fth_string_format sample_print fs (Args_array [Imm (INT_TO_FIX 42)]) = Some (Ok s) \<and> str_holds s ''n=0042!''"
proof -
  obtain fs where fs: "str_holds fs ''n=%04d!''" using sample_format by auto
  then have "\<exists>s. fth_string_format sample_print fs (Args_array [Imm (INT_TO_FIX 42)]) = Some (Ok s) \<and> str_holds s ''n=0042!''"
    using format_prints_pieces [OF sample_pieces_ok(1,2), of fs "[Imm (INT_TO_FIX 42)]" sample_print]
    by (simp add: sample_pieces_text sample_pieces_ok sample_pieces_printed NUL_char str_limit_def del: fth_string_format.simps)
  with fs show ?thesis by blast
qed

text \<open>
\<open>%d\<close> prints what \<open>ficlLtoa\<close> prints in base ten, in its field, for every integer object but the least one, for which it prints a wrong character behind the sign.
\<close>

theorem signed_number_formatted:
  assumes "directive_ok sp (CHR ''d'')"
  shows "string_doprnt E (show_piece (Directive sp (CHR ''d''))) [fth_make_long_long n] =
    Ok (let t = (if sint n = - (2 ^ 63) then ''-('' else the (ficlLtoa n 10)) in out_field sp (int (length t)) t)"
  using assms by (rule print_signed)

theorem signed_number_formatted_witness: "string_doprnt sample_print ''%d'' [fth_make_long_long (- (2 ^ 63))] = Ok ''-(''"
proof -
  have "show_piece (Directive plain_directive (CHR ''d'')) = ''%d''" by code_simp
  moreover have "directive_ok plain_directive (CHR ''d'')" by (rule plain_directive_ok) (simp_all add: isdigit_def char_code_def)
  ultimately show ?thesis using signed_number_formatted [of plain_directive sample_print "- (2 ^ 63)"]
    by (simp add: out_field_def plain_directive_def)
qed

text \<open>
\<open>%u\<close>, \<open>%o\<close>, \<open>%x\<close> and \<open>%X\<close> print every unsigned number as \<open>ficlUltoa\<close> in the base of the letter, with the prefix of the alternate form; \<open>%b\<close> does so for
numbers below \<open>2 ^ 23\<close>, and below \<open>2 ^ 21\<close> with its prefix: the digits of greater ones do not fit into the buffer and are written behind it.
\<close>

theorem unsigned_number_formatted:
  assumes "directive_ok sp fmt" and "fmt \<in> set unsigned_formats"
  shows "string_doprnt E (show_piece (Directive sp fmt)) [x] =
    (let u = FTH_ULONG_REF E x; t = unsigned_text sp fmt u
     in if fmt \<in> set ''bB'' \<and> 2 ^ (if sp_hash sp then 21 else 23) \<le> unat u then Fault else Ok (out_field sp (int (length t)) t))"
  using assms by (rule print_unsigned)

theorem unsigned_number_formatted_witness: "string_doprnt sample_print ''%b'' [fth_make_ulong_long 8388608] = Fault"
proof -
  have "show_piece (Directive plain_directive (CHR ''b'')) = ''%b''" by code_simp
  moreover have "directive_ok plain_directive (CHR ''b'')" by (rule plain_directive_ok) (simp_all add: isdigit_def char_code_def)
  moreover have "FTH_ULONG_REF sample_print (fth_make_ulong_long 8388608) = 8388608" by (rule FTH_ULONG_REF_make) simp
  ultimately show ?thesis using unsigned_number_formatted [of plain_directive "CHR ''b''" sample_print "fth_make_ulong_long 8388608"]
    by (simp add: unsigned_formats_def plain_directive_def)
qed

text \<open>
C19. \<open>fth_vsnprintf\<close> stores at most the given number of bytes, with a NUL, and returns how many; \<open>fth_vsprintf\<close> passes the size of a pointer instead of that of the
buffer, so that it keeps seven characters of any output.
\<close>

theorem snprintf_bounded:
  assumes "doprnt E fmt ap = Ok cs" and "1 \<le> sz" and "sz \<le> length str" and "8 \<le> length str"
  shows "(\<exists>b. fth_vsnprintf E str (int sz) fmt ap = Ok (int (min (length cs) (sz - 1)) + 1, b) \<and> length b = length str \<and>
      take (min (length cs) (sz - 1) + 1) b = map Some (take (sz - 1) cs) @ [Some NUL] \<and> drop sz b = drop sz str) \<and>
    (\<exists>b. fth_vsprintf E (Some str) fmt ap = Ok (int (min (length cs) 7) + 1, b) \<and> take (min (length cs) 7 + 1) b = map Some (take 7 cs) @ [Some NUL])"
  using fth_vsnprintf_stored [OF assms(1-3)] fth_vsnprintf_stored [OF assms(1) _ assms(4)] by (auto simp: fth_vsprintf_def)

theorem snprintf_bounded_witness:
  "\<exists>b. fth_vsprintf sample_print (Some (replicate 64 None)) ''%s is %u'' [VA_str (Some ''answer''), VA_int 42] = Ok (8, b) \<and> take 8 b = map Some ''answer '' @ [Some NUL]"
proof -
  have m: "min (length ''answer is 42'') 7 = 7" "(7 :: nat) + 1 = 8" "int 7 + 1 = 8" by simp_all
  have t: "map Some (take 7 ''answer is 42'') = map Some ''answer ''" by simp
  have "\<exists>b. fth_vsprintf sample_print (Some (replicate 64 None)) ''%s is %u'' [VA_str (Some ''answer''), VA_int 42] = Ok (int (min (length ''answer is 42'') 7) + 1, b) \<and>
      take (min (length ''answer is 42'') 7 + 1) b = map Some (take 7 ''answer is 42'') @ [Some NUL]"
    by (rule conjunct2 [OF snprintf_bounded [OF sample_vprintf, of 64 "replicate 64 None"]]) simp_all
  then show ?thesis unfolding m t .
qed

section \<open>Procedures\<close>

text \<open>
C20. A procedure gets its arguments and gives its value: \<open>fth_proc_apply\<close> pushes as many of the arguments as the procedure takes, the last one on top, runs the
word, and makes its value of the cells the word has left above the old stack: the empty list gives the false object, one cell itself, and several
cells an array of them from the top of the stack down. The stack is as before.
\<close>

theorem procedure_value:
  assumes "vm_wf vm" and "FTH_PROC_P vm proc" and "FICL_WORD_REF vm proc = Some w" and "array_items P args = Some xs"
    and "w_req w \<le> int (length xs)" and "0 \<le> w_argc w" and "length (data vm) + min (length xs) (nat (w_argc w)) \<le> st_size (vm_dataStack vm)"
    and "push_args (take (nat (w_argc w)) xs) vm = Ok vm1"
    and "ficlVmExecuteXT E X nested (gc_push vm1 proc) proc = Some (Ok (status, vm2))"
    and "status \<notin> {FICL_VM_STATUS_ERROR_EXIT, FICL_VM_STATUS_ABORT, FICL_VM_STATUS_ABORTQ}" and "vm_wf vm2" and "data vm2 = rs @ data vm"
  shows "data vm1 = rev (map fth_to_ficl (take (nat (w_argc w)) xs)) @ data vm \<and>
    (\<exists>vm3. fth_proc_apply E P X nested vm proc args = Some (Ok (proc_value E P vm2 rs, vm3)) \<and> vm_wf vm3 \<and> data vm3 = data vm)"
  using assms by (rule proc_apply_value)

theorem procedure_value_witness:
  "\<exists>vm3. fth_proc_apply sample_calls sample_procs 3000 False (proc_vm [9]) 1100 9000 =
     Some (Ok (array_of_cells sample_procs [7, 13, 11], vm3)) \<and> data vm3 = [9]"
proof -
  obtain vm1 vm2 where vm1: "push_args [11, 13] (proc_vm [9]) = Ok vm1"
    and vm2: "ficlVmExecuteXT sample_calls 3000 False (gc_push vm1 1100) 1100 = Some (Ok (FICL_VM_STATUS_INNER_EXIT, vm2))"
      "vm_wf vm2" "data vm2 = [3, 6, 5, 9]" "proc_value sample_calls sample_procs vm2 [3, 6, 5] = array_of_cells sample_procs [7, 13, 11]"
    using depth_called by blast
  have s: "FICL_VM_STATUS_INNER_EXIT \<notin> {FICL_VM_STATUS_ERROR_EXIT, FICL_VM_STATUS_ABORT, FICL_VM_STATUS_ABORTQ}"
    by (simp add: FICL_VM_STATUS_INNER_EXIT_def FICL_VM_STATUS_ERROR_EXIT_def FICL_VM_STATUS_ABORT_def FICL_VM_STATUS_ABORTQ_def)
  have w: "vm_wf (proc_vm [9])" "data (proc_vm [9]) = [9]" "st_size (vm_dataStack (proc_vm [9])) = 16" using proc_vm_wf [of "[9]"] by simp_all
  have x: "array_items sample_procs 9000 = Some [11, 13]" by (simp add: sample_procs_def)
  have l: "w_req (proc_word FW_PROC 5000) \<le> int (length [11, 13 :: cell])" "0 \<le> w_argc (proc_word FW_PROC 5000)"
    "length (data (proc_vm [9])) + min (length [11, 13 :: cell]) (nat (w_argc (proc_word FW_PROC 5000))) \<le> st_size (vm_dataStack (proc_vm [9]))"
    "take (nat (w_argc (proc_word FW_PROC 5000))) [11, 13 :: cell] = [11, 13]" using w(2,3) by simp_all
  have d: "data vm2 = [3, 6, 5] @ data (proc_vm [9])" using vm2(3) w(2) by simp
  from procedure_value [OF w(1) proc_types(1,2) x l(1-3) _ vm2(1) s vm2(2) d] show ?thesis using l(4) vm1 vm2(4) w(2) by auto
qed

text \<open>Too few arguments raise an exception, which resets the machine outside of \<open>fth-catch\<close>.\<close>

theorem procedure_arity:
  assumes "FTH_PROC_P vm proc" and "FICL_WORD_REF vm proc = Some w" and "array_items P args = Some xs" and "int (length xs) < w_req w"
  shows "fth_proc_apply E P X nested vm proc args = Some (ficlVmThrow (if vm_fth_catch_p vm then vm else ficlVmReset vm) FICL_VM_STATUS_ABORT)"
proof -
  have p: "proc \<noteq> NULL" using assms(1) by (simp add: FTH_PROC_P_def fth_word_type_p_def FICL_WORD_DEFINED_P_def)
  show ?thesis using run_proc_arity [OF assms(2,4)] assms(1,3) p by (simp add: fth_proc_apply_def fth_throw_def)
qed

theorem procedure_arity_witness:
  "\<exists>vm. fth_proc_apply sample_calls sample_procs 3000 False (proc_vm [9]) 1100 9100 = Some (Throw (FICL_VM_STATUS_ABORT, vm)) \<and> data vm = []"
proof -
  have "array_items sample_procs 9100 = Some []" by (simp add: sample_procs_def)
  from procedure_arity [OF proc_types(1,2) this] show ?thesis by (simp add: ficlVmThrow_def proc_vm_def sample_vm_def)
qed

text \<open>
\<open>get-optkey\<close> takes a keyword and its value from wherever they are on the stack, leaving the value, or the default for an undefined one, on the rest of the stack.
When the keyword is not there it leaves the default.
\<close>

theorem get_optkey_takes_keyword:
  assumes "vm_wf vm" and "data vm = d # key # cs" and "FTH_KEYWORD_P vm key"
    and "cs = xs @ v # key # ys \<and> key \<notin> set (tl (xs @ [v])) \<and> r = (if v = fth_undef P then d else v) # xs @ ys \<or> key \<notin> set (tl cs) \<and> r = d # cs"
  shows "\<exists>vm'. ficl_get_optkey E P vm = Ok vm' \<and> vm_wf vm' \<and> data vm' = r \<and> vm_dict vm' = vm_dict vm \<and> rets vm' = rets vm"
proof -
  have k: "ficl_to_fth E P vm key = key"
    using assms(3) by (simp add: FTH_KEYWORD_P_def fth_word_type_p_def FICL_WORD_DEFINED_P_def ficl_to_fth_def)
  show ?thesis
    using assms(4)
  proof
    assume c: "cs = xs @ v # key # ys \<and> key \<notin> set (tl (xs @ [v])) \<and> r = (if v = fth_undef P then d else v) # xs @ ys"
    then show ?thesis using ficl_get_optkey_found [OF assms(1) _ assms(3) _ k, of d xs v ys] assms(2) by (auto simp: stacked_def)
  next
    assume "key \<notin> set (tl cs) \<and> r = d # cs"
    then show ?thesis using ficl_get_optkey_missing [OF assms(1,2) _ k] by (auto simp: stacked_def)
  qed
qed

theorem get_optkey_takes_keyword_witness:
  "(\<exists>vm. ficl_get_optkey sample_calls sample_procs (proc_vm [5, 1300, 1, 2, 1300, 3]) = Ok vm \<and> data vm = [2, 1, 3]) \<and>
   (\<exists>vm. ficl_get_optkey sample_calls sample_procs (proc_vm [5, 1300, 1, 2, 1400, 3]) = Ok vm \<and> data vm = [5, 1, 2, 1400, 3])"
proof
  have u: "2 \<noteq> fth_undef sample_procs" by (simp add: sample_procs_def)
  show "\<exists>vm. ficl_get_optkey sample_calls sample_procs (proc_vm [5, 1300, 1, 2, 1300, 3]) = Ok vm \<and> data vm = [2, 1, 3]"
    using get_optkey_takes_keyword [of "proc_vm [5, 1300, 1, 2, 1300, 3]" 5 1300 "[1, 2, 1300, 3]" "[1]" 2 "[3]" "[2, 1, 3]" sample_procs sample_calls]
      proc_vm_wf [of "[5, 1300, 1, 2, 1300, 3]"] proc_types(3) u by auto
  show "\<exists>vm. ficl_get_optkey sample_calls sample_procs (proc_vm [5, 1300, 1, 2, 1400, 3]) = Ok vm \<and> data vm = [5, 1, 2, 1400, 3]"
    using get_optkey_takes_keyword [of "proc_vm [5, 1300, 1, 2, 1400, 3]" 5 1300 "[1, 2, 1400, 3]" "[]" 0 "[]" "[5, 1, 2, 1400, 3]" sample_procs sample_calls]
      proc_vm_wf [of "[5, 1300, 1, 2, 1400, 3]"] proc_types(3) by auto
qed

text \<open>
C21. \<open>get-optargs\<close> leaves one value for each default of its array: the arguments given above the required ones, undefined ones replaced by their
defaults, and the defaults of the missing ones, in this order; arguments in excess stay beneath. The stack needs room for the cells above its top that the loop inspects.
\<close>

theorem get_optargs_fills_defaults:
  assumes "vm_wf vm" and "data vm = req # array # rev vs @ rest" and "array_items P array = Some xs" and "xs \<noteq> []"
    and "sint req = int r" and "r \<le> length rest" and "length vs = length xs \<or> length vs < length xs \<and> length rest = r"
    and "length rest + 2 * length xs \<le> Suc (st_size (vm_dataStack vm)) + length vs"
  shows "\<exists>vm'. ficl_get_optargs P vm = Ok vm' \<and> vm_wf vm' \<and> data vm' = rev (optarg_values P vs xs) @ rest"
  using ficl_get_optargs_values [OF assms] by (auto simp: stacked_def)

theorem get_optargs_fills_defaults_witness:
  "\<exists>vm. ficl_get_optargs sample_procs (proc_vm [2, 9300, 4, 9900, 1, 0]) = Ok vm \<and> data vm = [55, 4, 33, 1, 0]"
proof -
  have "optarg_values sample_procs [9900, 4] [67, 89, 111] = [33, 4, 55]"
    by (simp add: optarg_values_def arg_value_def sample_procs_def fth_to_ficl_def FTH_FIXNUM_P_def FIX_TO_INT_def)
  moreover have "array_items sample_procs 9300 = Some [67, 89, 111]" by (simp add: sample_procs_def)
  ultimately show ?thesis
    using get_optargs_fills_defaults [of "proc_vm [2, 9300, 4, 9900, 1, 0]" 2 9300 "[9900, 4]" "[1, 0]" sample_procs "[67, 89, 111]" 2]
      proc_vm_wf [of "[2, 9300, 4, 9900, 1, 0]"] by auto
qed

text \<open>
C22. \<open>get-optkeys\<close> mixes up values: called with an array \<open>k1 d1 k2 d2\<close> of two keywords and their defaults (the array being an
instance, and the keywords words of that type) and with both keywords on the stack, in the order that is the reverse of the array's, \<open>k2 v2 k1 v1\<close>,
it leaves the value \<open>v1\<close> of the first keyword on top of \<open>v2\<close>, that is, in the place of the value of the second one.
\<close>

theorem get_optkeys_swaps_values:
  assumes "vm_wf vm" and "data vm = req # array # v1 # k1 # v2 # k2 # rest" and "fth_instance_p E array" and "array \<noteq> 0"
    and "array_items P array = Some [k1, d1, k2, d2]" and "FTH_KEYWORD_P vm k1" and "FTH_KEYWORD_P vm k2"
    and "v2 \<noteq> k2" and "v1 \<noteq> fth_undef P" and "sint req \<le> int (length rest + 4)"
  shows "\<exists>vm'. ficl_get_optkeys E P vm = Ok vm' \<and> data vm' = v1 # v2 # rest"
proof -
  have "ficl_to_fth E P vm array = array" using assms(3,4) by (simp add: ficl_to_fth_def)
  from optkeys_two [OF assms(1,2) this assms(5-10)] show ?thesis by (auto simp: stacked_def)
qed

theorem get_optkeys_swaps_values_witness:
  "\<exists>vm. ficl_get_optkeys sample_calls sample_procs (proc_vm [2, 9200, 1, 1300, 3, 1400, 9, 8]) = Ok vm \<and> data vm = [1, 3, 9, 8]"
proof -
  have "array_items sample_procs 9200 = Some [1300, 881, 1400, 7]" "fth_instance_p sample_calls 9200" "1 \<noteq> fth_undef sample_procs"
    by (simp_all add: sample_procs_def sample_calls_def)
  then show ?thesis
    using get_optkeys_swaps_values [of "proc_vm [2, 9200, 1, 1300, 3, 1400, 9, 8]" 2 9200 1 1300 3 1400 "[9, 8]" sample_calls sample_procs 881 7]
      proc_vm_wf [of "[2, 9200, 1, 1300, 3, 1400, 9, 8]"] proc_types(3,4) by simp
qed

section \<open>Hooks\<close>

text \<open>
C23. Simple arrays are lists: any sequence of pushing, popping, deleting the first or the last equal element, setting by index and clearing returns what the operations on
the list of elements return, and the buffer, which grows by a fixed number of elements whenever the length is a multiple of it, always has room.
\<close>

theorem simple_array_is_list:
  assumes "sa_holds ary xs"
  shows "\<exists>ary'. sa_run (Some ary) ops = Ok (fst (sa_list_run xs ops), Some ary') \<and> sa_holds ary' (snd (sa_list_run xs ops)) \<and>
    simple_array_to_array (Some ary') = Ok (snd (sa_list_run xs ops)) \<and> simple_array_length (Some ary') = int (length (snd (sa_list_run xs ops)))"
proof -
  obtain ary' where a: "sa_run (Some ary) ops = Ok (fst (sa_list_run xs ops), Some ary')" "sa_holds ary' (snd (sa_list_run xs ops))"
    using sa_run_holds [OF assms] by blast
  then show ?thesis using simple_array_to_array_holds [OF a(2)] by (simp add: simple_array_length_def sa_holds_def)
qed

theorem simple_array_is_list_witness:
  "\<exists>ary. sa_run (Some (make_simple_array 2)) [SaPush 5, SaPush 6, SaPush 5, SaDelete 5, SaPush 7, SaSetAt 0 8, SaPop, SaRDelete 9] = Ok ([0, 0, 0, 5, 0, 0, 7, 0], Some ary) \<and>
     simple_array_to_array (Some ary) = Ok [8, 5]"
  using simple_array_is_list [OF make_simple_array_holds, of 2 "[SaPush 5, SaPush 6, SaPush 5, SaDelete 5, SaPush 7, SaSetAt 0 8, SaPop, SaRDelete 9]"]
  by (auto simp: remove_last_def)

text \<open>
C24. Adding and removing: a procedure with the arity of the hook is added behind the others, and removing it gives it back and the procedures as they were.
\<close>

theorem hook_add_remove:
  assumes "hs_hooks st hook = Some hk" and "sa_is (hk_data hk) ps" and "FTH_PROC_P (hs_vm st) proc" and "FICL_WORD_REF (hs_vm st) proc = Some w"
    and "w_req w = hk_req hk" and "w_opt w = hk_opt hk" and "w_rest w = hk_rest hk" and "proc \<notin> set ps"
  shows "\<exists>st1 st2. fth_add_hook E st hook proc = Ok st1 \<and> fth_hook_to_array st1 hook = Ok (ps @ [proc]) \<and>
    fth_remove_hook E H st1 hook proc = Some (Ok (proc, st2)) \<and> fth_hook_to_array st2 hook = Ok ps"
  using assms by (rule hook_add_then_remove)

theorem hook_add_remove_witness:
  "\<exists>st1 st2. fth_add_hook sample_calls sample_hooks 600 1100 = Ok st1 \<and> fth_hook_to_array st1 600 = Ok [1100] \<and>
    fth_remove_hook sample_calls sample_hook_env st1 600 1100 = Some (Ok (1100, st2)) \<and> fth_hook_to_array st2 600 = Ok []"
proof -
  have "w_opt (proc_word FW_PROC 5000) = 0" "w_rest (proc_word FW_PROC 5000) = 0" by (simp_all add: proc_word_def sample_word_def)
  then show ?thesis
    using hook_add_remove [OF sample_hooks_at(2) sample_procs_held(3), of 1100 "proc_word FW_PROC 5000" sample_calls sample_hook_env] proc_types(1,2)
    by (simp add: sample_hooks_at sample_hook_def)
qed

text \<open>
C25. Running a hook: as long as its procedures leave it as it is, \<open>fth_hook_apply\<close> calls each one once, in the order of their addition, with the same arguments, and returns
the array of their values; \<open>fth_run_hook_bool\<close> returns the false object when any of them has returned it, and otherwise the true one.
\<close>

theorem hook_runs_in_order:
  assumes "sa_is (hk_data hk) ps" and "runs H hk hook (array_of_cells P args) st ps rs st'" and "hk_req hk \<le> int (length args)"
  shows "fth_run_hook P H st hook args = Some (Ok (array_of_cells P rs, st')) \<and>
    fth_run_hook_bool E P H st hook args = Some (Ok (if FTH_FALSE E \<in> set rs then FTH_FALSE E else FTH_TRUE E, st'))"
  using fth_hook_apply_runs [OF assms(1,2), of P] fth_run_hook_bool_runs [OF assms, of E] runs_hook [OF assms(2)] assms(3)
  by (simp add: fth_run_hook_def with_arity_def)

theorem hook_runs_in_order_witness:
  "\<exists>st. fth_run_hook sample_procs sample_hook_env sample_hooks 500 [11, 13] =
      Some (Ok (array_of_cells sample_procs [array_of_cells sample_procs [7, 13, 11]], st))"
proof -
  have "array_items sample_procs (array_of_cells sample_procs [11, 13]) = Some [11, 13]" by (simp add: sample_procs_def)
  from sample_runs [OF this] obtain st where
    r: "runs sample_hook_env (sample_hook sample_procs_array) 500 (array_of_cells sample_procs [11, 13]) sample_hooks [1100] [array_of_cells sample_procs [7, 13, 11]] st"
    by blast
  have "hk_req (sample_hook sample_procs_array) \<le> int (length [11, 13 :: cell])" by (simp add: sample_hook_def)
  from hook_runs_in_order [OF sample_procs_held(2) r this] show ?thesis by blast
qed

section \<open>Arrays, association arrays and lists\<close>

text \<open>
C26. Arrays are double-ended queues: any sequence of \<open>fth_array_push\<close>, \<open>fth_array_pop\<close>,
\<open>fth_array_unshift\<close> and \<open>fth_array_shift\<close> on an array that stays below the length limit runs
without error or fault, through every growth, shrinking and shift of the buffer, returns what the
same operations return on a list (\<open>#f\<close> from an empty one), and leaves the array with that list.
\<close>

theorem array_is_deque:
  assumes "array_holds ary xs" and "length xs + length cs \<le> array_limit"
  shows "\<exists>ary'. fa.run ff cs ary = Ok (fst (list_run (\<lambda>x. x) ff cs xs), ary') \<and> array_holds ary' (snd (list_run (\<lambda>x. x) ff cs xs))"
  using assms by (rule fa.run_list)

theorem array_is_deque_witness:
  "\<exists>ary'. fa.run 0 [Push 5, Unshift 4, Pop, Shift, Pop, Shift, Shift] (sample_array [1, 2]) = Ok ([5, 4, 2, 1, 0], ary') \<and>
    array_holds ary' []"
  using array_is_deque [of "sample_array [1, 2]" "[1, 2]" "[Push 5, Unshift 4, Pop, Shift, Pop, Shift, Shift]" 0]
    sample_array_holds [of "[1, 2]"] by (simp add: array_limit_def)

text \<open>
C27. Access to an array is exact in its bounds: an index counts from the end when it is negative;
\<open>fth_array_ref\<close> returns the element, \<open>fth_array_set\<close> replaces it and nothing else, and
both raise out-of-range exactly when the index denotes no element. \<open>fth_array_delete\<close> returns the
element and removes it and nothing else, also when the buffer is shrunk on the way.
\<close>

theorem array_access_in_bounds:
  assumes "array_holds ary xs" and "k = nat (real_index idx (length xs))"
  shows "fth_array_ref ary idx = (if in_range idx (length xs) then Ok (xs ! k) else Throw OUT_OF_RANGE) \<and>
    (if in_range idx (length xs)
     then (\<exists>ary'. fth_array_set ary idx v = Ok ary' \<and> array_holds ary' (xs[k := v])) \<and>
       (\<exists>ary'. fth_array_delete ff ary idx = Ok (xs ! k, ary') \<and> array_holds ary' (take k xs @ drop (Suc k) xs))
     else fth_array_set ary idx v = Throw OUT_OF_RANGE \<and>
       (xs \<noteq> [] \<longrightarrow> fth_array_delete ff ary idx = Throw OUT_OF_RANGE))"
proof -
  have "\<not> in_range idx 0" by (auto simp: in_range_def real_index_def)
  then show ?thesis
    using fth_array_ref_holds [OF assms(1)] fth_array_set_holds [OF assms(1), of idx v]
      fth_array_delete_holds [OF assms(1), of ff idx] assms(2) by (cases "xs = []") (auto split: if_splits)
qed

theorem array_access_in_bounds_witness:
  "fth_array_ref (sample_array [7, 8, 9]) (-1) = Ok 9 \<and> fth_array_ref (sample_array [7, 8, 9]) 3 = Throw OUT_OF_RANGE"
  using array_access_in_bounds [OF sample_array_holds refl, of "[7, 8, 9]" "-1"]
    array_access_in_bounds [OF sample_array_holds refl, of "[7, 8, 9]" 3]
  by (simp add: in_range_def real_index_def)

text \<open>
C28. \<open>fth_array_subarray\<close> with a start index in range returns the part between the two indices
when both buffers have as many cells behind the start as the whole array has elements, and
otherwise copies beyond the end of a buffer: it moves the length of the array instead of the
length of the part.
\<close>

theorem subarray_part_or_overrun:
  assumes "array_holds ary xs" and "in_range start (length xs)" and "length xs \<le> array_limit"
    and "s = nat (real_index start (length xs))" and "n = sub_end e s (length xs) - s"
  shows "if sub_fits ary s n (length xs)
    then \<exists>res. fth_array_subarray ary start e = Ok res \<and> array_holds res (take n (drop s xs))
    else fth_array_subarray ary start e = Fault"
  using assms by (rule fth_array_subarray_holds)

theorem subarray_part_or_overrun_witness:
  "fth_make_array_len 1000 = Ok thousand \<and> fth_array_subarray thousand 100 200 = Fault"
  using subarray_part_or_overrun [OF thousand_holds _ _ refl refl, of 100 200]
  by (simp add: thousand_made in_range_def real_index_def sub_end_def sub_fits_def thousand_def NEW_SEQ_LENGTH_def
      array_limit_def)

text \<open>
C29. Association arrays are maps from keys, identified by their hash codes, to values: after any
sequence of \<open>fth_array_assoc_set\<close> and \<open>fth_array_assoc_remove\<close>, which always
succeed while objects can be allocated and the length stays below the limit, \<open>fth_array_assoc_ref\<close> returns
for every key the value last set for a key with its hash code, or \<open>#f\<close>.
\<close>

theorem assoc_array_is_map:
  assumes "assoc_view E a st m" and "card (dom m) + length cs \<le> array_limit" and "free_objects st (length cs)"
  shows "\<exists>st'. am.run E a cs st = Ok st' \<and>
    (\<forall>k. fth_array_assoc_ref E st' a k =
      Ok (case map_ops (fth_hash_id E) cs m (fth_hash_id E k) of Some v \<Rightarrow> v | None \<Rightarrow> FTH_FALSE_OBJ E))"
  using am.look_after_run [OF assms(1) _ assms(2,3)] by (simp add: list_all_iff)

theorem assoc_array_is_map_witness:
  "\<exists>st'. am.run sample_objects 10 [Put 7 70, Put 5 50, Remove 7] sample_store = Ok st' \<and>
    fth_array_assoc_ref sample_objects st' 10 5 = Ok 50 \<and> fth_array_assoc_ref sample_objects st' 10 7 = Ok 0"
proof -
  obtain st' where st: "am.run sample_objects 10 [Put 7 70, Put 5 50, Remove 7] sample_store = Ok st'"
      "\<And>k. fth_array_assoc_ref sample_objects st' 10 k = Ok (case map_ops (fth_hash_id sample_objects)
        [Put 7 70, Put 5 50, Remove 7] Map.empty (fth_hash_id sample_objects k) of Some v \<Rightarrow> v
        | None \<Rightarrow> FTH_FALSE_OBJ sample_objects)"
    using assoc_array_is_map [OF sample_assoc_view, of "[Put 7 70, Put 5 50, Remove 7]"] sample_free
    by (auto simp: array_limit_def numeral_3_eq_3)
  then show ?thesis by (intro exI [of _ st']) (simp add: sample_objects_def)
qed

section \<open>Strings\<close>

text \<open>
C30. Strings are double-ended queues of characters: any sequence of \<open>fth_string_push\<close> and \<open>fth_string_unshift\<close> with strings of one
character, \<open>fth_string_pop\<close> and \<open>fth_string_shift\<close> on a string that stays below the limit gives the results and leaves the characters that it
gives on a list, with \<open>#f\<close> from an empty string.
\<close>

theorem string_is_deque:
  assumes "str_chars s xs" and "length xs + length cs \<le> str_limit"
  shows "\<exists>s'. fs.run cs s = Ok (fst (list_run Some None cs xs), s') \<and> str_chars s' (snd (list_run Some None cs xs))"
  using assms by (rule fs.run_list)

theorem string_is_deque_witness:
  "\<exists>s'. fs.run [Push CHR ''c'', Unshift CHR ''x'', Pop, Shift, Pop, Pop, Pop] (sample_string ''ab'') =
     Ok ([Some CHR ''c'', Some CHR ''x'', Some CHR ''b'', Some CHR ''a'', None], s') \<and> str_chars s' []"
  using string_is_deque [of "sample_string ''ab''" "''ab''" "[Push CHR ''c'', Unshift CHR ''x'', Pop, Shift, Pop, Pop, Pop]"]
    sample_string_chars [of "''ab''"]
  by (simp add: str_limit_def)

text \<open>
The end of a string is lost when \<open>fth_string_shift\<close> moves it: it moves the characters without the NUL behind them. A string of 23
characters that is shifted 23 times has the length 0, is equal to the empty string for \<open>str_equal_p\<close> and not equal to it for
\<open>fth_string_equal_p\<close>, which reads the stale characters behind its end.
\<close>

theorem string_shift_loses_end:
  "case shift_times 23 (sample_string ''abcdefghijklmnopqrstuvw'') of
     Ok s \<Rightarrow> s_length s = 0 \<and> str_equal_p s (sample_string []) = Ok True \<and> fth_string_equal_p s (sample_string []) = Ok False \<and>
       c_string s = Ok ''bcdefghijklmnopqrstuvw''
   | _ \<Rightarrow> False"
  by code_simp

text \<open>
C31. Replacing: when the text to look for is not empty and the buffer has room for the longer one of the string and the result,
\<open>fth_string_replace\<close> ends and replaces every occurrence, from the left, by the other text, whether this is empty, of one character, or longer than
the one it replaces.
\<close>

theorem string_replace_replaces_all:
  assumes "str_holds s xs" and "str_holds src k" and "str_holds to ys" and "NUL \<notin> set (xs @ k @ ys)" and "k \<noteq> []"
    and "NEW_SEQ_LENGTH (s_top s + int (max (length xs) (length (replace_all k ys xs))) + 1) \<le> s_buf_length s"
  shows "\<exists>s'. fth_string_replace s src to = Some (Ok s') \<and> str_holds s' (replace_all k ys xs)"
  using assms by (rule fth_string_replace_holds)

theorem string_replace_replaces_all_witness:
  "\<exists>s'. fth_string_replace (sample_string ''foo bar foo'') (sample_string ''oo'') (sample_string ''eed'') = Some (Ok s') \<and>
     str_holds s' ''feed bar feed''"
proof -
  have r: "replace_all ''oo'' ''eed'' ''foo bar foo'' = ''feed bar feed''" by code_simp
  have n: "NUL \<notin> set (''foo bar foo'' @ ''oo'' @ ''eed'')" by code_simp
  show ?thesis
    using string_replace_replaces_all [OF sample_string_holds [of "''foo bar foo''"] sample_string_holds [of "''oo''"] sample_string_holds [of "''eed''"] n]
    unfolding r by (simp add: str_limit_def sample_string_fields NEW_SEQ_LENGTH_def)
qed

text \<open>
C32. Replacing by a text that makes the string outgrow its buffer uses the old buffer after \<open>realloc\<close> has replaced it: if the text occurs in the string
and the string with the first replacement needs a longer buffer, \<open>fth_string_replace\<close> accesses memory that it no longer owns.
\<close>

theorem string_replace_after_free:
  assumes "str_holds s xs" and "str_holds src k" and "str_holds to ys" and "NUL \<notin> set (xs @ k)" and "strstr xs k = Some i"
    and "ys \<noteq> []" and "length k \<noteq> 1 \<or> length ys \<noteq> 1" and "xs \<noteq> []"
    and "NEW_SEQ_LENGTH (s_top s + int (length xs - length k + length ys) + 1) > s_buf_length s"
    and "length xs + length ys \<le> str_limit"
  shows "fth_string_replace s src to = Some Fault"
  using assms by (rule fth_string_replace_stale)

theorem string_replace_after_free_witness:
  "fth_string_replace (sample_string (replicate 84 CHR ''x'')) (sample_string ''x'') (sample_string ''yes'') = Some Fault"
proof -
  have "strstr (replicate 84 CHR ''x'') ''x'' = Some 0" by code_simp
  moreover have "NUL \<notin> set (replicate 84 CHR ''x'' @ ''x'')" by code_simp
  ultimately show ?thesis
    using string_replace_after_free [OF sample_string_holds [of "replicate 84 CHR ''x''"] sample_string_holds [of "''x''"] sample_string_holds [of "''yes''"], of 0]
    by (simp add: str_limit_def sample_string_fields NEW_SEQ_LENGTH_def)
qed

text \<open>
C33. Splitting undoes joining: when texts that are not empty and contain none of the delimiters are written one after the other, each with one of the
delimiters in front of it, \<open>fth_string_split\<close> with these delimiters gives strings of just these texts in their order.
\<close>

theorem string_split_joined:
  assumes "str_holds s (concat (map (\<lambda>p. c # p) ps))" and "str_holds r d" and "NUL \<notin> set (concat ps @ d)" and "c \<in> set d"
    and "\<forall>p \<in> set ps. p \<noteq> [] \<and> set p \<inter> set d = {} \<and> length p \<le> str_limit" and "ps \<noteq> []"
  shows "\<exists>ss. fth_string_split s (Some r) = Ok ss \<and> list_all2 str_holds ss ps"
proof -
  have e: "split_loop d (Some (concat (map (\<lambda>p. c # p) ps))) = ps" using split_loop_joined [OF assms(4)] assms(5) by blast
  have "NUL \<notin> set (concat (map (\<lambda>p. c # p) ps) @ d)" using assms(3,4) by auto
  from fth_string_split_holds [OF assms(1,2) this] show ?thesis unfolding e using assms(5,6) by (cases ps) auto
qed

theorem string_split_joined_witness:
  "\<exists>ss. fth_string_split (sample_string '' ab c'') (Some (sample_string '', '')) = Ok ss \<and> list_all2 str_holds ss [''ab'', ''c'']"
proof -
  have "NUL \<notin> set (concat [''ab'', ''c''] @ '', '')" by code_simp
  then show ?thesis
    using string_split_joined [of "sample_string '' ab c''" "CHR '' ''" "[''ab'', ''c'']" "sample_string '', ''" "'', ''"]
      sample_string_holds [of "'' ab c''"] sample_string_holds [of "'', ''"]
    by (simp add: str_limit_def)
qed

section \<open>Hash tables\<close>

text \<open>
C34. Hash tables are maps on the classes of equal keys: after any sequence of \<open>fth_hash_set\<close> and
\<open>fth_hash_delete\<close> with keys on which equality is an equivalence that the hash code respects,
which never fails, \<open>fth_hash_ref\<close> returns for every key the value last set for an equal key, or
\<open>#f\<close>, and the length of the table is the number of its keys.
\<close>

theorem hash_table_is_map:
  assumes "hash_map_view K hid eq h m" and "list_all (\<lambda>c. op_key c \<in> K) cs"
  shows "\<exists>h'. hs.run hid eq cs h = Ok h' \<and> h_length h' = int (card (dom (map_ops (key_class K eq) cs m))) \<and>
    (\<forall>k\<in>K. fth_hash_ref hid eq ff h' k = Ok (case map_ops (key_class K eq) cs m (key_class K eq k) of Some v \<Rightarrow> v | None \<Rightarrow> ff))"
proof -
  obtain h' where h': "hs.run hid eq cs h = Ok h'" "hash_map_view K hid eq h' (map_ops (key_class K eq) cs m)"
    using hs.run_view [OF assms order_refl TrueI] by blast
  then show ?thesis using hash_length_card(1) [OF h'(2)] fth_hash_ref_view [OF h'(2)] by blast
qed

theorem hash_table_is_map_witness:
  "\<exists>h'. hs.run (\<lambda>k. k) (=) [Put 2 20, Put 3 30, Put 2 21, Remove 3] fth_make_hash = Ok h' \<and>
    fth_hash_ref (\<lambda>k. k) (=) 0 h' 2 = Ok 21 \<and> fth_hash_ref (\<lambda>k. k) (=) 0 h' 3 = Ok 0"
  using hash_table_is_map [OF sample_hash_view, of "[Put 2 20, Put 3 30, Put 2 21, Remove 3]" 0]
  by auto

text \<open>
C35. Iteration meets every key once: \<open>fth_hash_keys\<close> and \<open>fth_hash_values\<close> list, in the same
order, one key of each class in the table and its value, and as many as the length says.
\<close>

theorem hash_iteration_complete:
  assumes "hash_map_view K hid eq h m" and "card (dom m) \<le> array_limit"
  shows "\<exists>ks vs xs ys. fth_hash_keys h = Ok ks \<and> fth_hash_values h = Ok vs \<and> array_holds ks xs \<and> array_holds vs ys \<and>
    int (length xs) = h_length h \<and> distinct (map (key_class K eq) xs) \<and> set (map (key_class K eq) xs) = dom m \<and>
    list_all2 (\<lambda>k v. m (key_class K eq k) = Some v) xs ys"
proof -
  let ?es = "concat (h_data h)"
  obtain ks vs where "fth_hash_keys h = Ok ks" "fth_hash_values h = Ok vs"
      "array_holds ks (map i_key ?es)" "array_holds vs (map i_value ?es)"
    using fth_hash_keys_view [OF assms] by blast
  moreover have "distinct (map (key_class K eq) (map i_key ?es))" "set (map (key_class K eq) (map i_key ?es)) = dom m"
    using assms(1) by (auto simp: hash_map_view_def hash_ok_def item_map_dom comp_def)
  moreover have "int (length (map i_key ?es)) = h_length h"
    using assms(1) by (simp add: hash_map_view_def hash_ok_def)
  moreover have "list_all2 (\<lambda>k v. m (key_class K eq k) = Some v) (map i_key ?es) (map i_value ?es)"
    using hash_entry [OF assms(1)] by (simp add: list_all2_conv_all_nth del: set_concat)
  ultimately show ?thesis by metis
qed

theorem hash_iteration_complete_witness:
  "\<exists>h ks. fth_hash_set (\<lambda>k. k) (=) fth_make_hash 2 20 = Ok h \<and> fth_hash_keys h = Ok ks \<and> array_holds ks [2]"
proof -
  obtain h where h: "fth_hash_set (\<lambda>k. k) (=) fth_make_hash 2 20 = Ok h"
      "hash_map_view sample_keys (\<lambda>k. k) (=) h [{2} \<mapsto> 20]" by (rule sample_filled)
  obtain ks xs where ks: "fth_hash_keys h = Ok ks" "array_holds ks xs" "distinct (map (key_class sample_keys (=)) xs)"
      "set (map (key_class sample_keys (=)) xs) = {{2}}"
    using hash_iteration_complete [OF h(2)] by (auto simp: array_limit_def)
  have "xs = [2]" using ks(3,4) by (cases xs; cases "tl xs") (auto simp: key_class_def)
  then show ?thesis using h(1) ks(1,2) by blast
qed

section \<open>Collection of objects\<close>

text \<open>
C36. A collection frees exactly the dead: on a heap of well-formed instances without cycles \<open>gc_run\<close> ends without a fault; of the instances that it
visits, those that are reachable from the stack, the frames and the protected instances keep their contents and lose
their mark, all others are freed; freed entries and the table stay as they are, and an
entry that is handed out for reuse is a freed one. Reachability is that of the code: the instance made last is never
visited, and what only it refers to is freed.
\<close>

theorem collection_frees_exactly_the_dead:
  assumes "collectable vm g"
  shows "\<exists>r g'. gc_run vm g = Some (Ok (r, g')) \<and>
    (\<forall>p\<in>set (visited g). \<not> freed_at g p \<longrightarrow>
       (if p \<in> gc_live vm g then g_insts g' p = map_option GC_MARK_CLR (g_insts g p) else freed_at g' p)) \<and>
    (\<forall>p. freed_at g p \<longrightarrow> g_insts g' p = g_insts g p) \<and>
    (\<forall>p. p \<notin> set (visited g) \<longrightarrow> g_insts g' p = g_insts g p \<or> g_insts g' p = map_option GC_MARK_SET (g_insts g p)) \<and>
    (r \<noteq> NULL \<longrightarrow> freed_at g' r) \<and> free_list_ok g' \<and> g_instances g' = g_instances g \<and> g_last_instance g' = g_last_instance g"
  using assms by (rule gc_run_exact)

theorem collection_frees_exactly_the_dead_witness:
  "(\<exists>r g'. gc_run (sample_vm [1100] []) (gc_sample [1000] []) = Some (Ok (r, g')) \<and> \<not> freed_at g' 1000) \<and>
   (\<exists>r g'. gc_run (sample_vm [1200] []) (gc_sample [] [1000]) = Some (Ok (r, g')) \<and> freed_at g' 1000)"
proof -
  have n: "\<not> freed_at (gc_sample b c) 1000" for b c by (simp add: freed_at_def)
  have clr: "\<not> GC_FREED_P (GC_MARK_CLR (gc_inst [] 11))"
    by (simp add: gc_inst_def GC_FREED_P_def GC_MARK_CLR_def GC_FREED_def)
  show ?thesis
    using collection_frees_exactly_the_dead [OF gc_sample_collectable [of "[1000]" "[]" 1100]]
      collection_frees_exactly_the_dead [OF gc_sample_collectable [of "[]" "[1000]" 1200]]
      gc_sample_live(2) [of "[]" "[]"] gc_sample_live(3) [of "[]" "[1000]"] n clr
    by (auto simp: freed_at_def)
qed

text \<open>
C37. A new object never overwrites a living one, and the table is ready for the next one: \<open>fth_make_instance\<close>, whether it
takes an entry from the free list, from a collection, from the table or from a new chunk of it, returns an instance that was
not alive, with the contents asked for, chained into the current frame, and every living instance holds what it held.
Afterwards the new instance is alive, and the table is in order again: the entry of the new instance is used, and
neither it nor any other living instance is on the free list or among the unused entries, so that the next object does not take it.
With no cycle and no cell that is by chance a number in the range of the instances, the heap can be collected again. What only the
instance made last refers to is not alive in this sense: a collection does not visit this instance (C36).
\<close>

theorem new_object_is_fresh:
  assumes "collectable vm g" and "table_ok g" and "chunk_ok g chunk" and "OBJECT_TYPE_P g obj"
  shows "\<exists>p vm' g'. fth_make_instance fls ext chunk obj gen vm g = Some (Ok (p, vm', g')) \<and>
    vm' = vm\<lparr>vm_gc_inst := (vm_gc_inst vm)(vm_gc_frame_level vm := p)\<rparr> \<and>
    p \<notin> gc_live vm g \<and> holds_at g' p = Some (gen, obj) \<and>
    map_option i_next (g_insts g' p) = Some (vm_gc_inst vm (vm_gc_frame_level vm)) \<and> (\<forall>q\<in>gc_live vm g. is_inst g' q \<and> holds_at g' q = holds_at g q) \<and>
    p \<in> gc_live vm' g' \<and> table_ok g' \<and> OBJECT_TYPE_P g' = OBJECT_TYPE_P g \<and>
    (heap_ok g' \<and> acyclic (refs g') \<and> cells_ok g' (gc_roots vm) \<longrightarrow> collectable vm' g')"
  using assms by (rule fth_make_instance_fresh)

theorem new_object_is_fresh_witness:
  "\<exists>p vm1 g1 q vm2 g2.
    fth_make_instance 0 (\<lambda>_. False) (sample_chunk 1000) 10 [5] (sample_vm [] []) gc_empty = Some (Ok (p, vm1, g1)) \<and>
    fth_make_instance 0 (\<lambda>_. False) (sample_chunk 1000000) 10 [p] vm1 g1 = Some (Ok (q, vm2, g2)) \<and>
    q \<noteq> p \<and> holds_at g2 p = Some ([5], 10) \<and> holds_at g2 q = Some ([p], 10)"
proof -
  obtain vm1 where one: "fth_make_instance 0 (\<lambda>_. False) (sample_chunk 1000) 10 [5] (sample_vm [] []) gc_empty =
      Some (Ok (1000, vm1, gc_first))" "holds_at gc_first 1000 = Some ([5], 10)" "1000 \<in> gc_live vm1 gc_first"
      "table_ok gc_first" "OBJECT_TYPE_P gc_first 10" "collectable vm1 gc_first"
    using new_object_is_fresh [OF gc_empty_ready, of 0 "\<lambda>_. False" "[5]"] gc_empty_ready(4) gc_first_ready(1-3)
    by (auto simp: make_first)
  obtain q vm2 g2 where two: "fth_make_instance 0 (\<lambda>_. False) (sample_chunk 1000000) 10 [1000] vm1 gc_first = Some (Ok (q, vm2, g2))"
      "q \<notin> gc_live vm1 gc_first" "holds_at g2 q = Some ([1000], 10)" "\<forall>q\<in>gc_live vm1 gc_first. holds_at g2 q = holds_at gc_first q"
    using new_object_is_fresh [OF one(6,4) gc_first_ready(4) one(5), of 0 "\<lambda>_. False" "[1000]"] by blast
  then show ?thesis using one(1-3) by (intro exI conjI) auto
qed

text \<open>
C38. An object that contains itself is never marked to the end: \<open>fth_gc_mark\<close> follows the elements of an instance without regard to
its mark, so that on an array that holds itself it does not return.
\<close>

theorem self_reference_never_marked:
  assumes "(p, p) \<in> refs g" and "heap_ok g"
  shows "fth_gc_mark p g = None"
  using assms by (rule fth_gc_mark_loop)

theorem self_reference_never_marked_witness: "fth_gc_mark 1100 (gc_sample [1100] []) = None"
  using self_reference_never_marked [of 1100 "gc_sample [1100] []"] gc_sample_heap_ok [of "[1100]" "[]"]
  by (simp add: refs_def gc_sample_inst)

section \<open>The search order\<close>

text \<open>
\<open>>search\<close> and \<open>search>\<close> use the search order as a stack: as long as it has a free entry the
wordlist pushed is the one popped next, and both stacks are as before. When all
\<open>FICL_MAX_WORDLISTS\<close> entries are in use \<open>>search\<close> writes behind the array instead of raising
the exception for a full search order.
\<close>

theorem search_order_stack:
  assumes "vm_wf vm" and "data vm = wid # xs" and "order_ok (vm_dict vm)"
  shows "if d_wordlistCount (vm_dict vm) < int FICL_MAX_WORDLISTS
    then \<exists>vm1 vm2. ficlPrimitiveSearchPush vm = Ok vm1 \<and> d_wordlistCount (vm_dict vm1) = d_wordlistCount (vm_dict vm) + 1 \<and>
      ficlPrimitiveSearchPop vm1 = Ok vm2 \<and> data vm2 = data vm \<and> d_wordlistCount (vm_dict vm2) = d_wordlistCount (vm_dict vm)
    else ficlPrimitiveSearchPush vm = Fault"
proof (cases "d_wordlistCount (vm_dict vm) < int FICL_MAX_WORDLISTS")
  case True
  obtain vm1 where v1: "ficlPrimitiveSearchPush vm = Ok vm1" "vm_wf vm1" "data vm1 = xs" "order_ok (vm_dict vm1)"
      "st_size (vm_dataStack vm1) = st_size (vm_dataStack vm)"
      "d_wordlistCount (vm_dict vm1) = d_wordlistCount (vm_dict vm) + 1"
      "d_wordlists (vm_dict vm1) = (d_wordlists (vm_dict vm))[nat (d_wordlistCount (vm_dict vm)) := wid]"
    using search_push_data [OF assms True] by blast
  have "length (data vm) \<le> st_size (vm_dataStack vm)"
    using assms(1) stack_wf_length [of "vm_dataStack vm"] by (simp add: vm_wf_def)
  then have "\<exists>vm2. ficlPrimitiveSearchPop vm1 = Ok vm2 \<and> data vm2 = wid # xs \<and>
      d_wordlistCount (vm_dict vm2) = d_wordlistCount (vm_dict vm)"
    using search_pop_data [OF v1(2,4)] v1(3,5-7) assms(2,3) True by (auto simp: order_ok_def)
  then show ?thesis using True v1(1,6) assms(2) by simp
next
  case False
  then show ?thesis using search_push_full [OF assms] assms(3) by (simp add: order_ok_def)
qed

theorem search_order_stack_witness: "ficlPrimitiveSearchPush (order_vm 32 [400]) = Fault"
  using search_order_stack [of "order_vm 32 [400]" 400 "[]"] by (simp add: order_vm_ok FICL_MAX_WORDLISTS_def)

section \<open>The outer interpreter\<close>

text \<open>
C39. Text is interpreted word by word: on an interpreter loop whose parse step reads numbers,
\<open>ficlVmExecuteString\<close> with a text whose words are the decimal forms of numbers returns, with
the code for the end of the text, after it has pushed the numbers in their order, and leaves the
return stack, the instruction pointer, the input of the caller and the dictionary as they were. The parse step is
the one of Ficl; FTH installs others (\<open>src/misc.c\<close>), which look for words and prefixes first.
\<close>

theorem text_of_numbers_interpreted:
  assumes "outer_loop E L W [\<lambda>vm s. Some (ficlVmParseNumber F False vm s)] (vm_dict vm)" and "vm_wf vm"
    and "\<not> vm_restart vm" and "vm_base vm = 10" and "vm_state vm = FICL_VM_STATE_INTERPRET"
    and "length (rets vm) < st_size (vm_returnStack vm)"
    and "list_all2 (\<lambda>s v. ficlLtoa v 10 = Some s) (tokens txt) vs"
    and "length (data vm) + length vs \<le> st_size (vm_dataStack vm)"
  shows "\<exists>vm'. ficlVmExecuteString E L vm txt = Some (Ok (FICL_VM_STATUS_OUT_OF_TEXT, vm')) \<and>
    data vm' = rev vs @ data vm \<and> rets vm' = rets vm \<and> vm_ip vm' = vm_ip vm \<and> vm_tib vm' = vm_tib vm \<and> vm_dict vm' = vm_dict vm"
  using assms by (rule execute_numbers)

theorem text_of_numbers_interpreted_witness:
  "\<exists>vm'. ficlVmExecuteString (outer_env [\<lambda>vm s. Some (ficlVmParseNumber sample_env False vm s)]) 3000 (outer_vm [1]) ''5 -7'' =
      Some (Ok (FICL_VM_STATUS_OUT_OF_TEXT, vm')) \<and> data vm' = [-7, 5, 1]"
proof -
  have "ficlLtoa (-7) 10 = Some ''-7''" "ficlLtoa 5 10 = Some ''5''"
    using ficlLtoa_digits [of 10 "-7"] ficlLtoa_digits [of 10 5]
    by (simp_all add: ltoa_magnitude_def digits_def lsd_digits.simps cstr_at_def)
  then have "list_all2 (\<lambda>s v. ficlLtoa v 10 = Some s) (tokens ''5 -7'') [5, -7]"
    by (simp add: tokens_def isspace_def char_code_def)
  moreover have "outer_loop (outer_env [\<lambda>vm s. Some (ficlVmParseNumber sample_env False vm s)]) 3000 600
      [\<lambda>vm s. Some (ficlVmParseNumber sample_env False vm s)] (vm_dict (outer_vm [1]))"
    using outer_loop_sample by simp
  ultimately show ?thesis
    using text_of_numbers_interpreted [of _ 3000 600 sample_env "outer_vm [1]" "''5 -7''" "[5, -7]"] outer_vm_wf [of "[1]"] by auto
qed

text \<open>
C40. After an error in a text the machine is usable again: when the interpretation of the text ends with an
exception \<open>e\<close> that is an error (a code of the default case of \<open>ficlVmExecuteString\<close>), thrown in the machine \<open>vm1\<close>,
and cleaning up does not fault, \<open>ficlVmExecuteString\<close> returns \<open>e\<close> with both stacks empty, in base 10 and interpreting, with the search order reset and the input of the caller restored. If \<open>vm1\<close>
was compiling, the definition is aborted and the local variables are forgotten; the aborted definition
keeps its words and its memory. If it was not, the dictionary and the local variables stay. A word that calls \<open>ficlVmThrow\<close>, such
as \<open>throw\<close> or \<open>abort\<close>, throws in the state that it is in. But \<open>ficlVmThrowException\<close> outside of \<open>fth-catch\<close> resets the
state first, so that after such an error a definition that was being compiled is not aborted, and its local
variables stay known.
\<close>

theorem error_in_text_recovered:
  assumes "text_run E loop (ficlVmPushTib vm s) = Some (Throw (e, vm1))" and "error_code e"
    and "abort_compilation vm1 = Ok vm2"
  shows "\<exists>vm'. ficlVmExecuteString E loop vm s = Some (Ok (e, vm')) \<and> usable_after vm vm' \<and>
    vm_localsCount vm' = vm_localsCount vm1 \<and>
    (if vm_state vm1 = FICL_VM_STATE_COMPILE
     then no_words (vm_locals vm') \<and> (\<exists>d. ficlDictionaryAbortDefinition (vm_dict vm1) = Ok d \<and>
       vm_dict vm' = ficlDictionaryResetSearchOrder d \<and> d_here d = d_here (vm_dict vm1) \<and>
       words (d_heap d) = words (d_heap (vm_dict vm1)) \<and> hashes (d_heap d) = hashes (d_heap (vm_dict vm1)))
     else vm_locals vm' = vm_locals vm1 \<and> vm_dict vm' = ficlDictionaryResetSearchOrder (vm_dict vm1)) \<and>
    (\<forall>l v. inner_handler l (ficlVmThrow v e :: unit vm_result) = Throw (e, vm1) \<longrightarrow> vm_state vm1 = vm_state v) \<and>
    (\<forall>l v. \<not> vm_fth_catch_p v \<and> inner_handler l (ficlVmThrowException v e :: unit vm_result) = Throw (e, vm1) \<longrightarrow>
      vm_state vm1 = FICL_VM_STATE_INTERPRET \<and> vm_locals vm' = vm_locals v \<and>
      vm_dict vm' = ficlDictionaryResetSearchOrder (vm_dict v))"
proof -
  have i: "FICL_VM_STATE_INTERPRET \<noteq> FICL_VM_STATE_COMPILE"
    by (simp add: FICL_VM_STATE_INTERPRET_def FICL_VM_STATE_COMPILE_def)
  note a = abort_compilation_cases [OF assms(3)]
  show ?thesis
  proof (cases "vm_state vm1 = FICL_VM_STATE_COMPILE")
    case True
    then show ?thesis
      using execute_string_error [OF assms] a(2) ficlDictionaryAbortDefinition_here ficlDictionaryAbortDefinition_heap i
      by (auto simp: thrown handled_error)
  next
    case False
    then show ?thesis
      using execute_string_error [OF assms] a(1) by (auto simp: thrown handled_error)
  qed
qed

theorem error_in_text_recovered_witness:
  "(\<exists>vm'. ficlVmExecuteString (outer_env [abort_step]) 3000 compiling_vm ''abort'' = Some (Ok (FICL_VM_STATUS_ABORT, vm')) \<and>
      usable_after compiling_vm vm' \<and> no_words (vm_locals vm')) \<and>
    (\<exists>vm'. ficlVmExecuteString (outer_env []) 3000 compiling_vm ''foo'' = Some (Ok (FICL_VM_STATUS_UNDEFINED, vm')) \<and>
      usable_after compiling_vm vm' \<and> vm_localsCount vm' = 1)"
proof -
  have e: "error_code FICL_VM_STATUS_UNDEFINED" "error_code FICL_VM_STATUS_ABORT"
    by (simp_all add: error_code_def FICL_VM_STATUS_UNDEFINED_def FICL_VM_STATUS_RESTART_def FICL_VM_STATUS_OUT_OF_TEXT_def
        FICL_VM_STATUS_SKIP_FILE_def FICL_VM_STATUS_USER_EXIT_def FICL_VM_STATUS_INNER_EXIT_def FICL_VM_STATUS_BREAK_def
        FICL_VM_STATUS_QUIT_def FICL_VM_STATUS_ABORT_def)
  obtain l v where r: "text_run (outer_env []) 3000 (ficlVmPushTib compiling_vm ''foo'') =
      Some (inner_handler l (ficlVmThrowException v FICL_VM_STATUS_UNDEFINED))" "\<not> vm_fth_catch_p v" "vm_localsCount v = 1"
    using compiling_text_undefined by blast
  obtain l' v' where r': "text_run (outer_env [abort_step]) 3000 (ficlVmPushTib compiling_vm ''abort'') =
      Some (inner_handler l' (ficlVmThrow v' FICL_VM_STATUS_ABORT))" "vm_state v' = FICL_VM_STATE_COMPILE"
      "vm_dict v' = outer_dict" "vm_locals v' = sample_dict"
    using compiling_text_abort by blast
  obtain v2 where "abort_compilation (LOCAL_VARIABLE_SPILL l' v') = Ok v2"
    using abort_compiling_sample [of "LOCAL_VARIABLE_SPILL l' v'"] r'(2-4) by auto
  from error_in_text_recovered [OF r'(1) [unfolded thrown] e(2) this] r'(2)
  have "\<exists>vm'. ficlVmExecuteString (outer_env [abort_step]) 3000 compiling_vm ''abort'' = Some (Ok (FICL_VM_STATUS_ABORT, vm')) \<and>
      usable_after compiling_vm vm' \<and> no_words (vm_locals vm')" by auto
  moreover have "abort_compilation (LOCAL_VARIABLE_SPILL l (ficlVmReset v)) = Ok (LOCAL_VARIABLE_SPILL l (ficlVmReset v))"
    by (simp add: abort_compilation_def FICL_VM_STATE_INTERPRET_def FICL_VM_STATE_COMPILE_def)
  from error_in_text_recovered [OF r(1) [unfolded handled_error [OF r(2)]] e(1) this] r(3)
  have "\<exists>vm'. ficlVmExecuteString (outer_env []) 3000 compiling_vm ''foo'' = Some (Ok (FICL_VM_STATUS_UNDEFINED, vm')) \<and>
      usable_after compiling_vm vm' \<and> vm_localsCount vm' = 1" by auto
  ultimately show ?thesis ..
qed

end
